(* ===== verification/Prelude.thy ===== *)
theory Prelude
  imports Main "HOL-Library.Word"
begin

unbundle bit_operations_syntax

text \<open>
  Shared vocabulary of the development: byte strings, machine integers, the outcome of a Go
  function that may return an error or panic, and the lemmas on bytes of words that every
  codec of the repository rests on.

  Go strings and byte slices are both lists of bytes. A Go function of type
  \<open>(T, error)\<close> becomes a function into \<open>'a outcome\<close>: \<open>Ret\<close> for a nil error,
  \<open>Fail\<close> for a non-nil one, and \<open>Panic\<close> for a run-time panic (an index or a slice bound
  out of range), which the Go code does not turn into an error value.
\<close>

section \<open>Types\<close>

type_synonym byte = "8 word"
type_synonym bytes = "byte list"
type_synonym gostring = bytes
type_synonym u8 = "8 word"
type_synonym u16 = "16 word"
type_synonym u32 = "32 word"
type_synonym u64 = "64 word"
type_synonym i16 = "16 word"
type_synonym i32 = "32 word"
type_synonym i64 = "64 word"

datatype go_error =
    ErrDecodeLength
  | ErrEOF
  | ErrShort nat nat
  | ErrMsg string
  | ErrWrap string go_error

datatype 'a outcome = Ret 'a | Fail go_error | Panic

named_theorems roundtrip_intros
named_theorems size_simps

section \<open>Sequencing of outcomes\<close>

definition bindR :: "'a outcome \<Rightarrow> ('a \<Rightarrow> 'b outcome) \<Rightarrow> 'b outcome" where
  "bindR m f = (case m of Ret x \<Rightarrow> f x | Fail e \<Rightarrow> Fail e | Panic \<Rightarrow> Panic)"

lemma bindR_simps [simp]:
  "bindR (Ret x) f = f x"
  "bindR (Fail e) f = Fail e"
  "bindR Panic f = Panic"
  by (simp_all add: bindR_def)

lemma bindR_eq_Ret: "bindR m f = Ret y \<longleftrightarrow> (\<exists>x. m = Ret x \<and> f x = Ret y)"
  by (cases m) auto

lemma bindR_eq_Panic: "bindR m f = Panic \<longleftrightarrow> m = Panic \<or> (\<exists>x. m = Ret x \<and> f x = Panic)"
  by (cases m) auto

definition mapR :: "('a \<Rightarrow> 'b) \<Rightarrow> 'a outcome \<Rightarrow> 'b outcome" where
  "mapR f m = bindR m (\<lambda>x. Ret (f x))"

text \<open>\<open>errors.Wrap(err, msg)\<close> on the error branch of a call.\<close>

definition wrapR :: "string \<Rightarrow> 'a outcome \<Rightarrow> 'a outcome" where
  "wrapR msg m = (case m of Ret x \<Rightarrow> Ret x | Fail e \<Rightarrow> Fail (ErrWrap msg e) | Panic \<Rightarrow> Panic)"

lemma wrapR_simps [simp]:
  "wrapR msg (Ret x) = Ret x"
  "wrapR msg (Fail e) = Fail (ErrWrap msg e)"
  "wrapR msg Panic = Panic"
  by (simp_all add: wrapR_def)

lemma wrapR_eq_Ret [simp]: "wrapR msg m = Ret x \<longleftrightarrow> m = Ret x"
  by (cases m) auto

lemma wrapR_eq_Panic [simp]: "wrapR msg m = Panic \<longleftrightarrow> m = Panic"
  by (cases m) auto

text \<open>A case distinction that has a known value, as the branches that give it.\<close>

lemma outcome_case_eq:
  "(case r of Ret x \<Rightarrow> f x | Fail e \<Rightarrow> g e | Panic \<Rightarrow> h) = y \<longleftrightarrow>
     (\<exists>x. r = Ret x \<and> f x = y) \<or> (\<exists>e. r = Fail e \<and> g e = y) \<or> (r = Panic \<and> h = y)"
  by (cases r) auto

lemma option_case_eq:
  "(case r of None \<Rightarrow> h | Some x \<Rightarrow> f x) = y \<longleftrightarrow> (r = None \<and> h = y) \<or> (\<exists>x. r = Some x \<and> f x = y)"
  by (cases r) auto

section \<open>Bytes of machine words\<close>

lemma and_255: "(i :: 'a::len word) AND 255 = take_bit 8 i"
  by (simp add: take_bit_eq_mask mask_eq_exp_minus_1)

lemma ucast_and_255 [simp]: "(ucast ((i :: 'a::len word) AND 255) :: byte) = ucast i"
  unfolding and_255 by (rule bit_word_eqI) (auto simp: bit_simps)

text \<open>
  \<open>byte(i >> n)\<close> is the same byte whether the shift is arithmetic (signed Go types) or
  logical (unsigned ones), as long as it lies inside the word.
\<close>

lemma ucast_signed_drop_bit:
  "n + 8 \<le> LENGTH('a::len) \<Longrightarrow>
    (ucast (signed_drop_bit n (i :: 'a word)) :: byte) = ucast (drop_bit n i)"
  by (rule bit_word_eqI) (auto simp: bit_simps min_def)

lemma byte_zero: "(ucast (ucast (i :: 'a::len word) :: byte) :: 'a word) = take_bit 8 i"
  by (rule bit_word_eqI) (auto simp: bit_simps)

lemma byte_segment:
  "n + 8 \<le> LENGTH('a::len) \<Longrightarrow>
    push_bit n (take_bit 8 (drop_bit n i)) OR take_bit n i = take_bit (n + 8) (i :: 'a word)"
  by (rule bit_word_eqI) (auto simp: bit_simps min_def)

section \<open>Lists\<close>

lemma take_drop_middle [simp]:
  "take (length bs) (drop (length pre) (pre @ bs @ post)) = bs"
  by simp

lemma nth_middle [simp]: "(pre @ x # post) ! length pre = x"
  by simp

text \<open>Go's \<open>xs[lo:hi]\<close>: it panics unless \<open>lo <= hi <= len\<close> (slices here have no spare capacity).\<close>

definition slice :: "'a list \<Rightarrow> nat \<Rightarrow> nat \<Rightarrow> 'a list outcome" where
  "slice xs lo hi = (if lo \<le> hi \<and> hi \<le> length xs then Ret (take (hi - lo) (drop lo xs)) else Panic)"

lemma slice_middle [simp]:
  "slice (pre @ bs @ post) (length pre) (length pre + length bs) = Ret bs"
  by (simp add: slice_def)

end
