(* ===== verification/Wire.thy ===== *)
theory Wire
  imports Prelude
begin

text \<open>
  The primitive codec of the wire protocol, \<^verbatim>\<open>pkg/proto/encoder.go\<close> and
  \<^verbatim>\<open>pkg/proto/decoder.go\<close>: big-endian integers, length-prefixed strings and the
  trailing byte block. The encoder appends to a buffer, so every \<open>Write\<close> is the byte list
  it appends; the decoder is a byte slice with a read offset, passed explicitly.
\<close>

section \<open>Encoder\<close>

definition WriteByte :: "byte \<Rightarrow> bytes" where
  "WriteByte b = [b]"

definition WriteUint8 :: "u8 \<Rightarrow> bytes" where
  "WriteUint8 i = WriteByte i"

text \<open>\<open>WriteInt16(i int)\<close> keeps the two low bytes of the int; its callers pass lengths.\<close>

definition WriteInt16 :: "nat \<Rightarrow> bytes" where
  "WriteInt16 i = [word_of_nat (i div 256), word_of_nat (i mod 256)]"

definition WriteUint16 :: "u16 \<Rightarrow> bytes" where
  "WriteUint16 i = WriteInt16 (unat i)"

definition WriteInt32 :: "i32 \<Rightarrow> bytes" where
  "WriteInt32 i = [ucast (signed_drop_bit 24 i), ucast (signed_drop_bit 16 i),
                   ucast (signed_drop_bit 8 i), ucast (i AND 0xFF)]"

definition WriteUint32 :: "u32 \<Rightarrow> bytes" where
  "WriteUint32 i = [ucast (drop_bit 24 i), ucast (drop_bit 16 i),
                    ucast (drop_bit 8 i), ucast (i AND 0xFF)]"

definition WriteInt64 :: "i64 \<Rightarrow> bytes" where
  "WriteInt64 i = [ucast (signed_drop_bit 56 i), ucast (signed_drop_bit 48 i),
                   ucast (signed_drop_bit 40 i), ucast (signed_drop_bit 32 i),
                   ucast (signed_drop_bit 24 i), ucast (signed_drop_bit 16 i),
                   ucast (signed_drop_bit 8 i), ucast (i AND 0xFF)]"

definition WriteUint64 :: "u64 \<Rightarrow> bytes" where
  "WriteUint64 i = [ucast (drop_bit 56 i), ucast (drop_bit 48 i),
                    ucast (drop_bit 40 i), ucast (drop_bit 32 i),
                    ucast (drop_bit 24 i), ucast (drop_bit 16 i),
                    ucast (drop_bit 8 i), ucast (i AND 0xFF)]"

definition WriteBytes :: "bytes \<Rightarrow> bytes" where
  "WriteBytes b = b"

definition WriteBinary :: "bytes \<Rightarrow> bytes" where
  "WriteBinary b = (if length b = 0 then WriteInt16 0 else WriteInt16 (length b) @ b)"

definition WriteString :: "gostring \<Rightarrow> bytes" where
  "WriteString s = WriteBinary s"

definition WriteStringAll :: "gostring \<Rightarrow> bytes" where
  "WriteStringAll s = WriteBytes s"

lemma length_Write [simp, size_simps]:
  "length (WriteByte b) = 1"
  "length (WriteUint8 b) = 1"
  "length (WriteInt16 n) = 2"
  "length (WriteUint16 w) = 2"
  "length (WriteInt32 i) = 4"
  "length (WriteUint32 i) = 4"
  "length (WriteInt64 l) = 8"
  "length (WriteUint64 l) = 8"
  "length (WriteBytes bs) = length bs"
  "length (WriteBinary bs) = length bs + 2"
  "length (WriteString bs) = length bs + 2"
  "length (WriteStringAll bs) = length bs"
  by (simp_all add: WriteByte_def WriteUint8_def WriteInt16_def WriteUint16_def WriteInt32_def
      WriteUint32_def WriteInt64_def WriteUint64_def WriteBytes_def WriteBinary_def
      WriteString_def WriteStringAll_def)

lemma WriteBinary_eq: "WriteBinary b = WriteInt16 (length b) @ b"
  by (simp add: WriteBinary_def)

section \<open>Decoder\<close>

record decoder =
  dec_p :: bytes
  dec_offset :: nat

type_synonym 'a reader = "decoder \<Rightarrow> ('a \<times> decoder) outcome"

definition NewDecoder :: "bytes \<Rightarrow> decoder" where
  "NewDecoder p = \<lparr>dec_p = p, dec_offset = 0\<rparr>"

text \<open>\<open>Len()\<close>; the offset never exceeds the length (\<open>reader_ok\<close> below), so the
  subtraction of ints is the truncating one.\<close>

definition dec_Len :: "decoder \<Rightarrow> nat" where
  "dec_Len d = length (dec_p d) - dec_offset d"

definition dec_bytes :: "nat \<Rightarrow> bytes reader" where
  "dec_bytes num d =
     (if dec_offset d + num > length (dec_p d)
      then Fail (ErrShort (dec_offset d + num) (length (dec_p d)))
      else bindR (slice (dec_p d) (dec_offset d) (dec_offset d + num))
             (\<lambda>b. Ret (b, d\<lparr>dec_offset := dec_offset d + num\<rparr>)))"

definition dec_uint8 :: "u8 reader" where
  "dec_uint8 d =
     (if dec_offset d + 1 > length (dec_p d)
      then Fail (ErrShort (dec_offset d + 1) (length (dec_p d)))
      else Ret (dec_p d ! dec_offset d, d\<lparr>dec_offset := dec_offset d + 1\<rparr>))"

definition dec_int16 :: "i16 reader" where
  "dec_int16 d = bindR (dec_bytes 2 d) (\<lambda>(b, d).
     Ret (push_bit 8 (ucast (b ! 0)) OR ucast (b ! 1), d))"

definition dec_uint16 :: "u16 reader" where
  "dec_uint16 d = dec_int16 d"

definition dec_int32 :: "i32 reader" where
  "dec_int32 d = bindR (dec_bytes 4 d) (\<lambda>(b, d).
     Ret (push_bit 24 (ucast (b ! 0)) OR push_bit 16 (ucast (b ! 1)) OR
          push_bit 8 (ucast (b ! 2)) OR ucast (b ! 3), d))"

definition dec_uint32 :: "u32 reader" where
  "dec_uint32 d = dec_int32 d"

definition dec_int64 :: "i64 reader" where
  "dec_int64 d = bindR (dec_bytes 8 d) (\<lambda>(b, d).
     Ret (push_bit 56 (ucast (b ! 0)) OR push_bit 48 (ucast (b ! 1)) OR
          push_bit 40 (ucast (b ! 2)) OR push_bit 32 (ucast (b ! 3)) OR
          push_bit 24 (ucast (b ! 4)) OR push_bit 16 (ucast (b ! 5)) OR
          push_bit 8 (ucast (b ! 6)) OR ucast (b ! 7), d))"

definition dec_uint64 :: "u64 reader" where
  "dec_uint64 d = bindR (dec_bytes 8 d) (\<lambda>(b, d).
     Ret (push_bit 56 (ucast (b ! 0)) OR push_bit 48 (ucast (b ! 1)) OR
          push_bit 40 (ucast (b ! 2)) OR push_bit 32 (ucast (b ! 3)) OR
          push_bit 24 (ucast (b ! 4)) OR push_bit 16 (ucast (b ! 5)) OR
          push_bit 8 (ucast (b ! 6)) OR ucast (b ! 7), d))"

text \<open>
  \<open>Binary()\<close> reads its size as a signed int16. With a negative size the bounds check
  \<open>d.offset+int(size) > len(d.p)\<close> is false and the slice expression that follows has its
  upper bound below its lower one, so it panics.
\<close>

definition dec_binary :: "bytes reader" where
  "dec_binary d = bindR (dec_int16 d) (\<lambda>(size, d).
     let n = sint size in
     if int (dec_offset d) + n > int (length (dec_p d))
     then Fail (ErrShort (nat (int (dec_offset d) + n)) (length (dec_p d)))
     else if n < 0 then Panic
     else bindR (slice (dec_p d) (dec_offset d) (dec_offset d + nat n))
            (\<lambda>b. Ret (b, d\<lparr>dec_offset := dec_offset d + nat n\<rparr>)))"

definition dec_string :: "gostring reader" where
  "dec_string d = dec_binary d"

definition dec_binaryAll :: "bytes reader" where
  "dec_binaryAll d =
     (let remains = dec_Len d in
      bindR (slice (dec_p d) (dec_offset d) (length (dec_p d)))
        (\<lambda>b. Ret (b, d\<lparr>dec_offset := dec_offset d + remains\<rparr>)))"

definition dec_stringAll :: "gostring reader" where
  "dec_stringAll d = dec_binaryAll d"

text \<open>
  The packet decoders are chains of reads, each with its error wrapped and returned at once:
  \<open>field name r k\<close> is \<open>if x, err = r(); err != nil { return nil, errors.Wrap(err, name) }\<close>
  followed by \<open>k x\<close>.
\<close>

definition andThen :: "'a reader \<Rightarrow> ('a \<Rightarrow> 'b reader) \<Rightarrow> 'b reader" where
  "andThen r k = (\<lambda>d. bindR (r d) (\<lambda>(x, d). k x d))"

definition yields :: "'a \<Rightarrow> 'a reader" where
  "yields x = (\<lambda>d. Ret (x, d))"

definition field :: "string \<Rightarrow> 'a reader \<Rightarrow> ('a \<Rightarrow> 'b reader) \<Rightarrow> 'b reader" where
  "field name r k = andThen (\<lambda>d. wrapR name (r d)) k"

text \<open>A field that is present only under a condition, and keeps its zero value otherwise.\<close>

definition optfield :: "string \<Rightarrow> bool \<Rightarrow> 'a \<Rightarrow> 'a reader \<Rightarrow> ('a \<Rightarrow> 'b reader) \<Rightarrow> 'b reader" where
  "optfield name c z r k = (if c then field name r k else k z)"

text \<open>The last field of a packet that takes the rest of the body.\<close>

definition restfield :: "string \<Rightarrow> (bytes \<Rightarrow> 'b reader) \<Rightarrow> 'b reader" where
  "restfield name k = field name dec_binaryAll k"

definition run_reader :: "'a reader \<Rightarrow> bytes \<Rightarrow> 'a outcome" where
  "run_reader r data = bindR (r (NewDecoder data)) (\<lambda>(x, _). Ret x)"

section \<open>Reading back what was written\<close>

text \<open>
  \<open>reads r x bs\<close>: wherever the bytes \<open>bs\<close> stand at the offset, the reader returns \<open>x\<close>
  and moves past them. \<open>reads_end\<close> is the same for a reader that takes all that is left.
\<close>

definition reads :: "'a reader \<Rightarrow> 'a \<Rightarrow> bytes \<Rightarrow> bool" where
  "reads r x bs \<longleftrightarrow> (\<forall>pre post.
     r \<lparr>dec_p = pre @ bs @ post, dec_offset = length pre\<rparr> =
       Ret (x, \<lparr>dec_p = pre @ bs @ post, dec_offset = length pre + length bs\<rparr>))"

definition reads_end :: "'a reader \<Rightarrow> 'a \<Rightarrow> bytes \<Rightarrow> bool" where
  "reads_end r x bs \<longleftrightarrow> (\<forall>pre.
     r \<lparr>dec_p = pre @ bs, dec_offset = length pre\<rparr> =
       Ret (x, \<lparr>dec_p = pre @ bs, dec_offset = length pre + length bs\<rparr>))"

lemma readsD:
  "reads r x bs \<Longrightarrow>
    r \<lparr>dec_p = pre @ bs @ post, dec_offset = length pre\<rparr> =
      Ret (x, \<lparr>dec_p = pre @ bs @ post, dec_offset = length pre + length bs\<rparr>)"
  by (simp add: reads_def)

lemma reads_reads_end: "reads r x bs \<Longrightarrow> reads_end r x bs"
  using readsD [where post = "[]"] by (fastforce simp: reads_end_def)

lemma reads_andThen:
  assumes "reads r x bs" and "reads (k x) y cs"
  shows "reads (andThen r k) y (bs @ cs)"
  unfolding reads_def
proof (intro allI)
  fix pre post
  show "andThen r k \<lparr>dec_p = pre @ (bs @ cs) @ post, dec_offset = length pre\<rparr> =
    Ret (y, \<lparr>dec_p = pre @ (bs @ cs) @ post, dec_offset = length pre + length (bs @ cs)\<rparr>)"
    using readsD [OF assms(1), of pre "cs @ post"] readsD [OF assms(2), of "pre @ bs" post]
    by (simp add: andThen_def add.assoc)
qed

lemma reads_end_andThen:
  assumes "reads r x bs" and "reads_end (k x) y cs"
  shows "reads_end (andThen r k) y (bs @ cs)"
  unfolding reads_end_def
proof (intro allI)
  fix pre
  show "andThen r k \<lparr>dec_p = pre @ bs @ cs, dec_offset = length pre\<rparr> =
    Ret (y, \<lparr>dec_p = pre @ bs @ cs, dec_offset = length pre + length (bs @ cs)\<rparr>)"
    using readsD [OF assms(1), of pre cs] assms(2) [unfolded reads_end_def, rule_format, of "pre @ bs"]
    by (simp add: andThen_def add.assoc)
qed

lemma reads_wrapR: "reads r x bs \<Longrightarrow> reads (\<lambda>d. wrapR name (r d)) x bs"
  by (simp add: reads_def)

text \<open>
  An encoder is the concatenation of its writes; the rules below read it back write by write.
\<close>

lemma reads_end_yields [roundtrip_intros]: "x = y \<Longrightarrow> reads_end (yields x) y (concat [])"
  by (simp add: reads_end_def yields_def)

lemma reads_end_field [roundtrip_intros]:
  "reads r x b \<Longrightarrow> reads_end (k x) y (concat bs) \<Longrightarrow> reads_end (field name r k) y (concat (b # bs))"
  unfolding field_def concat.simps by (intro reads_end_andThen reads_wrapR)

lemma reads_end_optfield [roundtrip_intros]:
  "(c \<Longrightarrow> reads r x b) \<Longrightarrow> reads_end (k (if c then x else z)) y (concat bs) \<Longrightarrow>
    reads_end (optfield name c z r k) y (concat ((if c then b else []) # bs))"
  using reads_end_field by (cases c) (auto simp: optfield_def)

lemma reads_yields [roundtrip_intros]: "x = y \<Longrightarrow> reads (yields x) y (concat [])"
  by (simp add: reads_def yields_def)

lemma reads_field [roundtrip_intros]:
  "reads r x b \<Longrightarrow> reads (k x) y (concat bs) \<Longrightarrow> reads (field name r k) y (concat (b # bs))"
  unfolding field_def concat.simps by (intro reads_andThen reads_wrapR)

lemma run_reader_reads_end: "reads_end r x bs \<Longrightarrow> run_reader r bs = Ret x"
  unfolding reads_end_def run_reader_def NewDecoder_def
  by (drule spec [of _ "[]"]) simp

lemma reads_bytes: "length bs = n \<Longrightarrow> reads (dec_bytes n) bs bs"
  by (auto simp: reads_def dec_bytes_def)

lemma reads_via_bytes:
  assumes "length bs = n" and "\<And>d. r d = bindR (dec_bytes n d) (\<lambda>(b, d). Ret (f b, d))"
  shows "reads r (f bs) bs"
  using reads_bytes [OF assms(1)] by (simp add: reads_def assms(2))

subsection \<open>The primitive types\<close>

lemma reads_uint8 [roundtrip_intros]: "reads dec_uint8 b (WriteUint8 b)"
  by (auto simp: reads_def dec_uint8_def WriteUint8_def WriteByte_def nth_append)

lemma reads_byte [roundtrip_intros]: "reads dec_uint8 b (WriteByte b)"
  using reads_uint8 by (simp add: WriteUint8_def)

lemmas byte_join =
  byte_zero byte_segment [where n = 8, simplified] byte_segment [where n = 16, simplified]
  byte_segment [where n = 24, simplified] byte_segment [where n = 32, simplified]
  byte_segment [where n = 40, simplified] byte_segment [where n = 48, simplified]
  byte_segment [where n = 56, simplified]

lemma take_bit_own_32: "take_bit 32 (i :: 32 word) = i"
  using take_bit_length_eq [where 'a = 32] by simp

lemma take_bit_own_64: "take_bit 64 (i :: 64 word) = i"
  using take_bit_length_eq [where 'a = 64] by simp

lemma WriteInt32_eq: "WriteInt32 i = WriteUint32 i"
  by (simp add: WriteInt32_def WriteUint32_def ucast_signed_drop_bit)

lemma WriteInt64_eq: "WriteInt64 i = WriteUint64 i"
  by (simp add: WriteInt64_def WriteUint64_def ucast_signed_drop_bit)

lemma reads_uint32 [roundtrip_intros]: "reads dec_uint32 i (WriteUint32 i)"
proof -
  have "reads dec_uint32 ((\<lambda>b. push_bit 24 (ucast (b ! 0)) OR push_bit 16 (ucast (b ! 1)) OR
          push_bit 8 (ucast (b ! 2)) OR ucast (b ! 3)) (WriteUint32 i)) (WriteUint32 i)"
    by (rule reads_via_bytes [where n = 4]) (simp_all add: dec_uint32_def dec_int32_def)
  then show ?thesis
    by (simp add: WriteUint32_def byte_join take_bit_own_32)
qed

lemma reads_int32 [roundtrip_intros]: "reads dec_int32 i (WriteInt32 i)"
  using reads_uint32 by (simp add: WriteInt32_eq reads_def dec_uint32_def)

lemma reads_uint64 [roundtrip_intros]: "reads dec_uint64 i (WriteUint64 i)"
proof -
  have "reads dec_uint64 ((\<lambda>b. push_bit 56 (ucast (b ! 0)) OR push_bit 48 (ucast (b ! 1)) OR
          push_bit 40 (ucast (b ! 2)) OR push_bit 32 (ucast (b ! 3)) OR
          push_bit 24 (ucast (b ! 4)) OR push_bit 16 (ucast (b ! 5)) OR
          push_bit 8 (ucast (b ! 6)) OR ucast (b ! 7)) (WriteUint64 i)) (WriteUint64 i)"
    by (rule reads_via_bytes [where n = 8]) (simp_all add: dec_uint64_def)
  then show ?thesis
    by (simp add: WriteUint64_def byte_join take_bit_own_64)
qed

lemma reads_int64 [roundtrip_intros]: "reads dec_int64 i (WriteInt64 i)"
  using reads_uint64 by (simp add: WriteInt64_eq reads_def dec_uint64_def dec_int64_def)

lemma int16_of_nat:
  "push_bit 8 (ucast (word_of_nat (n div 256) :: byte)) OR ucast (word_of_nat (n mod 256) :: byte) =
    (word_of_nat n :: 16 word)"
proof -
  have "n div 256 = drop_bit 8 n" "n mod 256 = take_bit 8 n"
    by (simp_all add: drop_bit_eq_div take_bit_eq_mod)
  then show ?thesis
    by (intro bit_word_eqI) (auto simp: bit_simps)
qed

lemma reads_int16: "reads dec_int16 (word_of_nat n) (WriteInt16 n)"
proof -
  have "reads dec_int16 ((\<lambda>b. push_bit 8 (ucast (b ! 0)) OR ucast (b ! 1)) (WriteInt16 n)) (WriteInt16 n)"
    by (rule reads_via_bytes [where n = 2]) (simp_all add: dec_int16_def)
  then show ?thesis
    by (simp only: WriteInt16_def nth_Cons_0 nth_Cons_numeral int16_of_nat One_nat_def nth_Cons_Suc)
qed

text \<open>A length below 32768 comes back as itself; from 32768 to 65535 it comes back negative.\<close>

lemma sint_of_length: "n < 32768 \<Longrightarrow> sint (word_of_nat n :: 16 word) = int n"
  by (simp add: signed_of_nat signed_take_bit_int_eq_self)

lemma sint_of_long_length:
  assumes "32768 \<le> n" and "n < 65536"
  shows "sint (word_of_nat n :: 16 word) = int n - 65536"
proof -
  obtain m where "n = 32768 + m" and "m < 32768"
    using assms by (metis add_less_cancel_left le_Suc_ex numeral_Bit0)
  moreover have "sint (word_of_nat n :: 16 word) = signed_take_bit 15 (int n)"
    by (simp add: signed_of_nat)
  ultimately show ?thesis
    by (simp add: signed_take_bit_eq_take_bit_shift take_bit_eq_mod)
qed

lemma reads_binary:
  assumes "length b < 32768"
  shows "reads dec_binary b (WriteBinary b)"
  unfolding reads_def
proof (intro allI)
  fix pre post
  show "dec_binary \<lparr>dec_p = pre @ WriteBinary b @ post, dec_offset = length pre\<rparr> =
    Ret (b, \<lparr>dec_p = pre @ WriteBinary b @ post,
             dec_offset = length pre + length (WriteBinary b)\<rparr>)"
    using readsD [OF reads_int16 [of "length b"], of pre "b @ post"] assms
      slice_middle [of "pre @ WriteInt16 (length b)" b post]
    by (simp add: dec_binary_def WriteBinary_eq sint_of_length ac_simps)
qed

lemma reads_string [roundtrip_intros]:
  "length s < 32768 \<Longrightarrow> reads dec_string s (WriteString s)"
  using reads_binary by (simp add: WriteString_def reads_def dec_string_def)

lemma reads_end_restfield [roundtrip_intros]:
  "yields x = k b \<Longrightarrow> x = y \<Longrightarrow> reads_end (restfield name k) y (concat [WriteBytes b])"
  by (cases "k b = yields x")
    (simp_all add: reads_end_def restfield_def field_def andThen_def dec_binaryAll_def
      WriteBytes_def dec_Len_def slice_def yields_def [abs_def] fun_eq_iff)

text \<open>A string of 32768 to 65535 bytes is written without complaint and panics its reader.\<close>

lemma dec_string_long_panics:
  assumes "32768 \<le> length s" and "length s < 65536"
  shows "dec_string \<lparr>dec_p = pre @ WriteString s @ post, dec_offset = length pre\<rparr> = Panic"
  using readsD [OF reads_int16 [of "length s"], of pre "s @ post"] assms
  by (simp add: dec_string_def dec_binary_def WriteString_def WriteBinary_eq sint_of_long_length)

lemma dec_uint32_eq: "dec_uint32 = dec_int32"
  by (rule ext) (rule dec_uint32_def)

section \<open>Readers stay inside their slice\<close>

text \<open>
  \<open>reader_ok r\<close>: from an offset inside the slice the reader leaves the slice alone and moves the
  offset forward inside it. The readers of strings satisfy it although they may panic.
\<close>

definition reader_ok :: "'a reader \<Rightarrow> bool" where
  "reader_ok r \<longleftrightarrow> (\<forall>d x d'. dec_offset d \<le> length (dec_p d) \<longrightarrow> r d = Ret (x, d') \<longrightarrow>
     dec_p d' = dec_p d \<and> dec_offset d \<le> dec_offset d' \<and> dec_offset d' \<le> length (dec_p d))"

lemma reader_ok_bytes: "reader_ok (dec_bytes n)"
  by (auto simp: reader_ok_def dec_bytes_def slice_def bindR_eq_Ret)

lemma reader_ok_via_bytes:
  assumes "\<And>d. r d = bindR (dec_bytes n d) (\<lambda>(b, d). Ret (f b, d))"
  shows "reader_ok r"
  by (auto simp: reader_ok_def assms dec_bytes_def slice_def bindR_eq_Ret split: if_splits)

lemma reader_ok_prims:
  "reader_ok dec_uint8" "reader_ok dec_int16" "reader_ok dec_int32" "reader_ok dec_uint32"
  "reader_ok dec_int64" "reader_ok dec_uint64"
proof -
  show "reader_ok dec_uint8" by (auto simp: reader_ok_def dec_uint8_def)
  show "reader_ok dec_int16" by (rule reader_ok_via_bytes) (rule dec_int16_def)
  show "reader_ok dec_int32" by (rule reader_ok_via_bytes) (rule dec_int32_def)
  then show "reader_ok dec_uint32" by (simp only: dec_uint32_eq)
  show "reader_ok dec_int64" by (rule reader_ok_via_bytes) (rule dec_int64_def)
  show "reader_ok dec_uint64" by (rule reader_ok_via_bytes) (rule dec_uint64_def)
qed

lemma reader_ok_binary: "reader_ok dec_binary"
  unfolding reader_ok_def
proof (intro allI impI)
  fix d x d'
  assume "dec_offset d \<le> length (dec_p d)" and "dec_binary d = Ret (x, d')"
  then obtain n d1 where "dec_int16 d = Ret (n, d1)" and
    "dec_p d' = dec_p d1 \<and> dec_offset d1 \<le> dec_offset d' \<and> dec_offset d' \<le> length (dec_p d1)"
    by (auto simp: dec_binary_def bindR_eq_Ret slice_def Let_def split: if_splits)
  with reader_ok_prims(2) \<open>dec_offset d \<le> length (dec_p d)\<close>
  show "dec_p d' = dec_p d \<and> dec_offset d \<le> dec_offset d' \<and> dec_offset d' \<le> length (dec_p d)"
    unfolding reader_ok_def by (metis order_trans)
qed

text \<open>
  \<open>never_panics r\<close>: from an offset inside the slice the reader returns a value or an error.
  The fixed-width readers and the trailing block satisfy it; the string readers do not
  (\<open>dec_string_long_panics\<close>).
\<close>

definition never_panics :: "'a reader \<Rightarrow> bool" where
  "never_panics r \<longleftrightarrow> (\<forall>d. dec_offset d \<le> length (dec_p d) \<longrightarrow> r d \<noteq> Panic)"

lemma never_panics_bytes: "never_panics (dec_bytes n)"
  by (auto simp: never_panics_def dec_bytes_def slice_def)

lemma never_panics_via_bytes:
  assumes "\<And>d. r d = bindR (dec_bytes n d) (\<lambda>(b, d). Ret (f b, d))"
  shows "never_panics r"
  using never_panics_bytes [of n] by (auto simp: never_panics_def assms bindR_eq_Panic)

lemma never_panics_prims:
  "never_panics dec_uint8" "never_panics dec_int32" "never_panics dec_uint32"
  "never_panics dec_int64" "never_panics dec_uint64" "never_panics dec_binaryAll"
proof -
  show "never_panics dec_uint8" by (auto simp: never_panics_def dec_uint8_def)
  show "never_panics dec_int32" by (rule never_panics_via_bytes) (rule dec_int32_def)
  then show "never_panics dec_uint32" by (simp only: dec_uint32_eq)
  show "never_panics dec_int64" by (rule never_panics_via_bytes) (rule dec_int64_def)
  show "never_panics dec_uint64" by (rule never_panics_via_bytes) (rule dec_uint64_def)
  show "never_panics dec_binaryAll"
    by (auto simp: never_panics_def dec_binaryAll_def slice_def dec_Len_def bindR_eq_Panic Let_def)
qed

end
