(* ===== verification/GoStrings.thy ===== *)
theory GoStrings
  imports Prelude
begin

text \<open>
  The string operations of Go's standard library that the repository uses on identifiers and
  keys: literals, decimal formatting (\<open>%d\<close>), \<open>strings.Split\<close> and \<open>strings.Join\<close> with a
  one-byte separator, \<open>strings.Contains\<close>, \<open>strings.HasSuffix\<close> and the test
  \<open>strings.TrimSpace(s) == ""\<close>. Keys are built with \<open>fmt.Sprintf("%s-%d", ...)\<close>; the
  lemmas say when two different inputs give the same key.
\<close>

section \<open>Literals and decimal numbers\<close>

definition str :: "string \<Rightarrow> gostring" where
  "str s = map of_char s"

fun dec :: "nat \<Rightarrow> gostring" where
  "dec n = (if n < 10 then [48 + word_of_nat n] else dec (n div 10) @ [48 + word_of_nat (n mod 10)])"

declare dec.simps [simp del]

definition dec_int :: "int \<Rightarrow> gostring" where
  "dec_int i = (if i < 0 then 45 # dec (nat (- i)) else dec (nat i))"

definition is_digit :: "byte \<Rightarrow> bool" where
  "is_digit b \<longleftrightarrow> 48 \<le> b \<and> b \<le> 57"

definition digit_val :: "byte \<Rightarrow> nat" where
  "digit_val b = unat b - 48"

text \<open>\<open>strconv.ParseUint(s, 10, 64)\<close> on the digit strings that \<open>%d\<close> prints.\<close>

definition undec :: "gostring \<Rightarrow> nat" where
  "undec s = foldl (\<lambda>n b. 10 * n + digit_val b) 0 s"

lemma unat_digit: "m < 10 \<Longrightarrow> unat (48 + word_of_nat m :: byte) = 48 + m"
  by (simp add: unat_word_ariths unat_of_nat)

lemma digit_val_digit [simp]: "m < 10 \<Longrightarrow> digit_val (48 + word_of_nat m) = m"
  by (simp add: digit_val_def unat_digit)

lemma is_digit_digit [simp]: "m < 10 \<Longrightarrow> is_digit (48 + word_of_nat m)"
  by (simp add: is_digit_def word_le_nat_alt unat_digit)

lemma not_is_digit [simp]: "\<not> is_digit 45" "\<not> is_digit 95" "\<not> is_digit 64" "\<not> is_digit 44"
  by (simp_all add: is_digit_def)

lemma dec_digits: "b \<in> set (dec n) \<Longrightarrow> is_digit b"
proof (induction n rule: dec.induct)
  case (1 n)
  then show ?case by (subst (asm) dec.simps) (auto split: if_splits)
qed

lemma dec_not_Nil [simp]: "dec n \<noteq> []"
  by (subst dec.simps) simp

lemma undec_append: "undec (s @ [b]) = 10 * undec s + digit_val b"
  by (simp add: undec_def)

lemma undec_dec [simp]: "undec (dec n) = n"
proof (induction n rule: dec.induct)
  case (1 n)
  show ?case
  proof (cases "n < 10")
    case True
    then show ?thesis by (subst dec.simps) (simp add: undec_def)
  next
    case False
    with 1 show ?thesis by (subst dec.simps) (simp add: undec_append)
  qed
qed

lemma dec_inj [simp]: "dec m = dec n \<longleftrightarrow> m = n"
  by (metis undec_dec)

lemma sep_notin_dec [simp]: "45 \<notin> set (dec n)" "95 \<notin> set (dec n)" "64 \<notin> set (dec n)" "44 \<notin> set (dec n)"
  using dec_digits not_is_digit by blast+

lemma dec_int_not_sep [simp]: "95 \<notin> set (dec_int i)"
  by (simp add: dec_int_def)

lemma dec_int_inj [simp]: "dec_int i = dec_int j \<longleftrightarrow> i = j"
proof
  assume eq: "dec_int i = dec_int j"
  have hd: "45 # s \<noteq> dec n" "dec n \<noteq> 45 # s" for n s
    using sep_notin_dec(1) [of n] by (metis list.set_intros(1))+
  show "i = j"
  proof (cases "i < 0")
    case True
    then have "j < 0" using eq by (auto simp: dec_int_def hd split: if_splits)
    with True eq show ?thesis by (simp add: dec_int_def)
  next
    case False
    then have "\<not> j < 0" using eq by (auto simp: dec_int_def hd split: if_splits)
    with False eq show ?thesis by (simp add: dec_int_def)
  qed
qed simp

section \<open>Separated keys\<close>

text \<open>The last occurrence of a separator splits a string in one way only.\<close>

lemma last_sep_unique:
  assumes "s1 @ c # t1 = s2 @ c # t2" and "c \<notin> set t1" and "c \<notin> set t2"
  shows "s1 = s2 \<and> t1 = t2"
proof -
  have "takeWhile (\<lambda>x. x \<noteq> c) (rev (s @ c # t)) = rev t" if "c \<notin> set t" for s t
    using that by (auto simp: takeWhile_append2 takeWhile_eq_all_conv takeWhile_tail)
  with assms have "rev t1 = rev t2" by metis
  with assms(1) show ?thesis by simp
qed

lemma first_sep_unique:
  assumes "t1 @ c # s1 = t2 @ c # s2" and "c \<notin> set t1" and "c \<notin> set t2"
  shows "s1 = s2 \<and> t1 = t2"
proof -
  have "takeWhile (\<lambda>x. x \<noteq> c) (t @ c # s) = t" if "c \<notin> set t" for s t
    using that by (auto simp: takeWhile_append2 takeWhile_eq_all_conv takeWhile_tail)
  with assms have "t1 = t2" by metis
  with assms(1) show ?thesis by simp
qed

text \<open>\<open>fmt.Sprintf("%s-%d", channelID, channelType)\<close>, the key of every channel cache.\<close>

definition channelKey :: "gostring \<Rightarrow> u8 \<Rightarrow> gostring" where
  "channelKey channelID channelType = channelID @ 45 # dec (unat channelType)"

lemma channelKey_inj [simp]:
  "channelKey c1 t1 = channelKey c2 t2 \<longleftrightarrow> c1 = c2 \<and> t1 = t2"
  using last_sep_unique [of c1 45 "dec (unat t1)" c2 "dec (unat t2)"]
  by (auto simp: channelKey_def word_unat_eq_iff)

section \<open>strings.Split, strings.Join\<close>

fun split_on :: "byte \<Rightarrow> gostring \<Rightarrow> gostring list" where
  "split_on c [] = [[]]"
| "split_on c (x # xs) =
     (if x = c then [] # split_on c xs
      else (case split_on c xs of [] \<Rightarrow> [[x]] | y # ys \<Rightarrow> (x # y) # ys))"

fun join_on :: "byte \<Rightarrow> gostring list \<Rightarrow> gostring" where
  "join_on c [] = []"
| "join_on c [s] = s"
| "join_on c (s # ss) = s @ c # join_on c ss"

lemma split_on_not_Nil [simp]: "split_on c s \<noteq> []"
  by (cases s) (auto split: list.splits)

lemma split_on_no_sep: "c \<notin> set s \<Longrightarrow> split_on c s = [s]"
  by (induction s) auto

lemma split_on_append: "c \<notin> set s \<Longrightarrow> split_on c (s @ c # t) = s # split_on c t"
  by (induction s) auto

lemma split_join [simp]:
  "ss \<noteq> [] \<Longrightarrow> (\<forall>s \<in> set ss. c \<notin> set s) \<Longrightarrow> split_on c (join_on c ss) = ss"
  by (induction c ss rule: join_on.induct) (auto simp: split_on_no_sep split_on_append)

lemma join_split [simp]: "join_on c (split_on c s) = s"
proof (induction s)
  case (Cons x xs)
  then show ?case
    by (cases "split_on c xs"; cases "tl (split_on c xs)") auto
qed simp

lemma split_on_elems: "t \<in> set (split_on c s) \<Longrightarrow> c \<notin> set t"
proof (induction s arbitrary: t)
  case (Cons x xs)
  then show ?case by (cases "split_on c xs") (auto split: if_splits)
qed simp

section \<open>Predicates\<close>

definition contains_byte :: "byte \<Rightarrow> gostring \<Rightarrow> bool" where
  "contains_byte c s \<longleftrightarrow> c \<in> set s"

definition hasSuffix :: "gostring \<Rightarrow> gostring \<Rightarrow> bool" where
  "hasSuffix s suf \<longleftrightarrow>
     length suf \<le> length s \<and> drop (length s - length suf) s = suf"

lemma hasSuffix_append [simp]: "hasSuffix (s @ suf) suf"
  by (simp add: hasSuffix_def)

text \<open>
  \<open>strings.TrimSpace(s) == ""\<close>: the string consists of white space only. Go's white space is
  the ASCII blanks and the Unicode code points U+0085, U+00A0, U+1680, U+2000 to U+200A,
  U+2028, U+2029, U+202F, U+205F and U+3000, which are matched here in UTF-8.
\<close>

fun blank :: "gostring \<Rightarrow> bool" where
  "blank [] = True"
| "blank (b # bs) =
     (if b \<in> {9, 10, 11, 12, 13, 32} then blank bs
      else if b = 0xC2 then
        (case bs of c # cs \<Rightarrow> c \<in> {0x85, 0xA0} \<and> blank cs | _ \<Rightarrow> False)
      else if b = 0xE1 then
        (case bs of c # d # cs \<Rightarrow> c = 0x9A \<and> d = 0x80 \<and> blank cs | _ \<Rightarrow> False)
      else if b = 0xE2 then
        (case bs of
           c # d # cs \<Rightarrow>
             (c = 0x80 \<and> (0x80 \<le> d \<and> d \<le> 0x8A \<or> d \<in> {0xA8, 0xA9, 0xAF}) \<or> c = 0x81 \<and> d = 0x9F) \<and>
             blank cs
         | _ \<Rightarrow> False)
      else if b = 0xE3 then
        (case bs of c # d # cs \<Rightarrow> c = 0x80 \<and> d = 0x80 \<and> blank cs | _ \<Rightarrow> False)
      else False)"

end
