(* ===== verification/Frames.thy ===== *)
theory Frames
  imports Wire GoStrings
begin

text \<open>
  The vocabulary of the wire protocol, \<^verbatim>\<open>pkg/proto/common.go\<close> and
  \<^verbatim>\<open>pkg/proto/setting.go\<close>: the fixed header, frame types, reason codes, device
  flags and levels, message settings, and the one-byte encoding of the fixed header.
\<close>

section \<open>Frame types, reason codes, devices\<close>

type_synonym frameType = u8
type_synonym reasonCode = u8
type_synonym deviceFlag = u8
type_synonym deviceLevel = u8

abbreviation (input) UNKNOWN :: frameType where "UNKNOWN \<equiv> 0"
abbreviation (input) CONNECT :: frameType where "CONNECT \<equiv> 1"
abbreviation (input) CONNACK :: frameType where "CONNACK \<equiv> 2"
abbreviation (input) SEND :: frameType where "SEND \<equiv> 3"
abbreviation (input) SENDACK :: frameType where "SENDACK \<equiv> 4"
abbreviation (input) RECV :: frameType where "RECV \<equiv> 5"
abbreviation (input) RECVACK :: frameType where "RECVACK \<equiv> 6"
abbreviation (input) PING :: frameType where "PING \<equiv> 7"
abbreviation (input) PONG :: frameType where "PONG \<equiv> 8"
abbreviation (input) DISCONNECT :: frameType where "DISCONNECT \<equiv> 9"
abbreviation (input) SUB :: frameType where "SUB \<equiv> 10"
abbreviation (input) SUBACK :: frameType where "SUBACK \<equiv> 11"

definition unknown_name :: "u8 \<Rightarrow> gostring" where
  "unknown_name p = str ''UNKNOWN['' @ dec (unat p) @ str '']''"

definition FrameType_String :: "frameType \<Rightarrow> gostring" where
  "FrameType_String p =
     (if p = CONNECT then str ''CONNECT''
      else if p = CONNACK then str ''CONNACK''
      else if p = SEND then str ''SEND''
      else if p = SENDACK then str ''SENDACK''
      else if p = RECV then str ''RECV''
      else if p = RECVACK then str ''RECVACK''
      else if p = PING then str ''PING''
      else if p = PONG then str ''PONG''
      else if p = DISCONNECT then str ''DISCONNECT''
      else if p = SUB then str ''SUB''
      else if p = SUBACK then str ''SUBACK''
      else unknown_name p)"

abbreviation (input) ReasonUnknown :: reasonCode where "ReasonUnknown \<equiv> 0"
abbreviation (input) ReasonSuccess :: reasonCode where "ReasonSuccess \<equiv> 1"
abbreviation (input) ReasonAuthFail :: reasonCode where "ReasonAuthFail \<equiv> 2"
abbreviation (input) ReasonSubscriberNotExist :: reasonCode where "ReasonSubscriberNotExist \<equiv> 3"
abbreviation (input) ReasonInBlacklist :: reasonCode where "ReasonInBlacklist \<equiv> 4"
abbreviation (input) ReasonChannelNotExist :: reasonCode where "ReasonChannelNotExist \<equiv> 5"
abbreviation (input) ReasonUserNotOnNode :: reasonCode where "ReasonUserNotOnNode \<equiv> 6"
abbreviation (input) ReasonSenderOffline :: reasonCode where "ReasonSenderOffline \<equiv> 7"
abbreviation (input) ReasonMsgKeyError :: reasonCode where "ReasonMsgKeyError \<equiv> 8"
abbreviation (input) ReasonPayloadDecodeError :: reasonCode where "ReasonPayloadDecodeError \<equiv> 9"
abbreviation (input) ReasonForwardSendPacketError :: reasonCode where "ReasonForwardSendPacketError \<equiv> 10"
abbreviation (input) ReasonNotAllowSend :: reasonCode where "ReasonNotAllowSend \<equiv> 11"
abbreviation (input) ReasonConnectKick :: reasonCode where "ReasonConnectKick \<equiv> 12"
abbreviation (input) ReasonNotInWhitelist :: reasonCode where "ReasonNotInWhitelist \<equiv> 13"
abbreviation (input) ReasonQueryTokenError :: reasonCode where "ReasonQueryTokenError \<equiv> 14"
abbreviation (input) ReasonSystemError :: reasonCode where "ReasonSystemError \<equiv> 15"
abbreviation (input) ReasonChannelIDError :: reasonCode where "ReasonChannelIDError \<equiv> 16"
abbreviation (input) ReasonNodeMatchError :: reasonCode where "ReasonNodeMatchError \<equiv> 17"
abbreviation (input) ReasonNodeNotMatch :: reasonCode where "ReasonNodeNotMatch \<equiv> 18"
abbreviation (input) ReasonBan :: reasonCode where "ReasonBan \<equiv> 19"
abbreviation (input) ReasonNotSupportHeader :: reasonCode where "ReasonNotSupportHeader \<equiv> 20"
abbreviation (input) ReasonClientKeyIsEmpty :: reasonCode where "ReasonClientKeyIsEmpty \<equiv> 21"
abbreviation (input) ReasonRateLimit :: reasonCode where "ReasonRateLimit \<equiv> 22"
abbreviation (input) ReasonNotSupportChannelType :: reasonCode where "ReasonNotSupportChannelType \<equiv> 23"

definition ReasonCode_String :: "reasonCode \<Rightarrow> gostring" where
  "ReasonCode_String r =
     (if r = ReasonUnknown then str ''ReasonUnknown''
      else if r = ReasonSuccess then str ''ReasonSuccess''
      else if r = ReasonAuthFail then str ''ReasonAuthFail''
      else if r = ReasonSubscriberNotExist then str ''ReasonSubscriberNotExist''
      else if r = ReasonNotAllowSend then str ''ReasonNotAllowSend''
      else if r = ReasonInBlacklist then str ''ReasonInBlacklist''
      else if r = ReasonChannelNotExist then str ''ReasonChannelNotExist''
      else if r = ReasonUserNotOnNode then str ''ReasonUserNotOnNode''
      else if r = ReasonSenderOffline then str ''ReasonSenderOffline''
      else if r = ReasonMsgKeyError then str ''ReasonMsgKeyError''
      else if r = ReasonPayloadDecodeError then str ''ReasonPayloadDecodeError''
      else if r = ReasonForwardSendPacketError then str ''ReasonForwardSendPacketError''
      else if r = ReasonConnectKick then str ''ReasonConnectKick''
      else if r = ReasonNotInWhitelist then str ''ReasonNotInWhitelist''
      else if r = ReasonQueryTokenError then str ''ReasonQueryTokenError''
      else if r = ReasonSystemError then str ''ReasonSystemError''
      else if r = ReasonChannelIDError then str ''ReasonChannelIDError''
      else if r = ReasonClientKeyIsEmpty then str ''ReasonClientKeyIsEmpty''
      else if r = ReasonRateLimit then str ''ReasonRateLimit''
      else unknown_name r)"

definition ReasonCode_Byte :: "reasonCode \<Rightarrow> byte" where
  "ReasonCode_Byte r = r"

abbreviation (input) APP :: deviceFlag where "APP \<equiv> 0"
abbreviation (input) WEB :: deviceFlag where "WEB \<equiv> 1"
abbreviation (input) PC :: deviceFlag where "PC \<equiv> 2"
abbreviation (input) SYSTEM :: deviceFlag where "SYSTEM \<equiv> 99"

abbreviation (input) DeviceLevelSlave :: deviceLevel where "DeviceLevelSlave \<equiv> 0"
abbreviation (input) DeviceLevelMaster :: deviceLevel where "DeviceLevelMaster \<equiv> 1"

definition DeviceLevel_String :: "deviceLevel \<Rightarrow> gostring" where
  "DeviceLevel_String r =
     (if r = DeviceLevelMaster then str ''Master''
      else if r = DeviceLevelSlave then str ''Slave''
      else str ''Unknown['' @ dec (unat r) @ str '']'')"

definition DeviceFlag_ToUint8 :: "deviceFlag \<Rightarrow> u8" where
  "DeviceFlag_ToUint8 r = r"

definition DeviceFlag_String :: "deviceFlag \<Rightarrow> gostring" where
  "DeviceFlag_String r =
     (if r = APP then str ''APP''
      else if r = WEB then str ''WEB''
      else if r = SYSTEM then str ''SYSTEM''
      else dec (unat r))"

abbreviation (input) ChannelTypePerson :: u8 where "ChannelTypePerson \<equiv> 1"
abbreviation (input) ChannelTypeGroup :: u8 where "ChannelTypeGroup \<equiv> 2"
abbreviation (input) ChannelTypeCustomerService :: u8 where "ChannelTypeCustomerService \<equiv> 3"
abbreviation (input) ChannelTypeCommunity :: u8 where "ChannelTypeCommunity \<equiv> 4"
abbreviation (input) ChannelTypeCommunityTopic :: u8 where "ChannelTypeCommunityTopic \<equiv> 5"
abbreviation (input) ChannelTypeInfo :: u8 where "ChannelTypeInfo \<equiv> 6"
abbreviation (input) ChannelTypeData :: u8 where "ChannelTypeData \<equiv> 7"

abbreviation (input) StreamFlagStart :: u8 where "StreamFlagStart \<equiv> 0"
abbreviation (input) StreamFlagIng :: u8 where "StreamFlagIng \<equiv> 1"
abbreviation (input) StreamFlagEnd :: u8 where "StreamFlagEnd \<equiv> 2"

section \<open>Settings\<close>

type_synonym setting = u8

abbreviation (input) SettingUnknown :: setting where "SettingUnknown \<equiv> 0"
abbreviation (input) SettingReceiptEnabled :: setting where "SettingReceiptEnabled \<equiv> 128"
abbreviation (input) SettingSignal :: setting where "SettingSignal \<equiv> 32"
abbreviation (input) SettingNoEncrypt :: setting where "SettingNoEncrypt \<equiv> 16"
abbreviation (input) SettingTopic :: setting where "SettingTopic \<equiv> 8"
abbreviation (input) SettingStream :: setting where "SettingStream \<equiv> 4"

definition IsSet :: "setting \<Rightarrow> setting \<Rightarrow> bool" where
  "IsSet s v \<longleftrightarrow> s AND v \<noteq> 0"

definition Setting_Clear :: "setting \<Rightarrow> setting \<Rightarrow> setting" where
  "Setting_Clear s v = s AND (NOT v)"

definition Setting_Set :: "setting \<Rightarrow> setting \<Rightarrow> setting" where
  "Setting_Set s v = s OR v"

definition Setting_Uint8 :: "setting \<Rightarrow> u8" where
  "Setting_Uint8 s = s"

lemma IsSet_Set [simp]: "IsSet (Setting_Set s v) v \<longleftrightarrow> v \<noteq> 0"
  by (simp add: IsSet_def Setting_Set_def bit.conj_disj_distrib2)

lemma IsSet_Clear [simp]: "\<not> IsSet (Setting_Clear s v) v"
  by (simp add: IsSet_def Setting_Clear_def and.assoc)

lemma IsSet_Set_other: "IsSet s w \<Longrightarrow> IsSet (Setting_Set s v) w"
  unfolding IsSet_def Setting_Set_def
  by (metis bit.conj_disj_distrib2 or_eq_0_iff)

section \<open>The fixed header\<close>

record framer =
  FrameType :: frameType
  RemainingLength :: u32
  NoPersist :: bool
  RedDot :: bool
  SyncOnce :: bool
  DUP :: bool
  HasServerVersion :: bool
  FrameSize :: i64

definition empty_framer :: framer where
  "empty_framer = \<lparr>FrameType = UNKNOWN, RemainingLength = 0, NoPersist = False, RedDot = False,
     SyncOnce = False, DUP = False, HasServerVersion = False, FrameSize = 0\<rparr>"

definition encodeBool :: "bool \<Rightarrow> byte" where
  "encodeBool b = (if b then 1 else 0)"

text \<open>
  The type comes from the packet's \<open>GetFrameType\<close> method, the flags from its embedded framer.
\<close>

definition ToFixHeaderUint8 :: "frameType \<Rightarrow> framer \<Rightarrow> u8" where
  "ToFixHeaderUint8 t f =
     (let typeAndFlags =
            push_bit 3 (encodeBool (DUP f)) OR push_bit 2 (encodeBool (SyncOnce f)) OR
            push_bit 1 (encodeBool (RedDot f)) OR encodeBool (NoPersist f);
          typeAndFlags = (if t = CONNACK then encodeBool (HasServerVersion f) else typeAndFlags)
      in push_bit 4 t OR typeAndFlags)"

definition FramerFromUint8 :: "u8 \<Rightarrow> framer" where
  "FramerFromUint8 v =
     (let t = drop_bit 4 v in
      empty_framer
        \<lparr>NoPersist := (v AND 1) > 0,
         RedDot := (drop_bit 1 v AND 1) > 0,
         SyncOnce := (drop_bit 2 v AND 1) > 0,
         DUP := (drop_bit 3 v AND 1) > 0,
         FrameType := t,
         HasServerVersion := (t = CONNACK \<and> (v AND 1) > 0)\<rparr>)"

text \<open>
  What the header byte carries of a framer. A CONNACK header carries one flag only, which the
  decoder reads both as \<open>HasServerVersion\<close> and as \<open>NoPersist\<close>.
\<close>

definition header_view :: "frameType \<Rightarrow> framer \<Rightarrow> framer" where
  "header_view t f = empty_framer
     \<lparr>FrameType := t,
      NoPersist := (if t = CONNACK then HasServerVersion f else NoPersist f),
      RedDot := (t \<noteq> CONNACK \<and> RedDot f),
      SyncOnce := (t \<noteq> CONNACK \<and> SyncOnce f),
      DUP := (t \<noteq> CONNACK \<and> DUP f),
      HasServerVersion := (t = CONNACK \<and> HasServerVersion f)\<rparr>"

lemma and_1_pos: "(v AND 1 > 0) \<longleftrightarrow> bit (v :: byte) 0"
  by (simp add: and_one_eq odd_iff_mod_2_eq_one word_neq_0_conv [symmetric] bit_0)

lemma bit_encodeBool: "bit (encodeBool b) n \<longleftrightarrow> b \<and> n = 0"
  by (simp add: encodeBool_def bit_1_iff)

lemma header_type_bound: "t < 16 \<Longrightarrow> 4 \<le> n \<Longrightarrow> \<not> bit (t :: byte) n"
proof -
  assume "t < 16" and "4 \<le> n"
  then have "take_bit 4 t = t"
    using less_mask_eq [of t 4] by (simp add: take_bit_eq_mask)
  with \<open>4 \<le> n\<close> show ?thesis
    by (metis bit_take_bit_iff not_le)
qed

lemma bit_ToFixHeaderUint8:
  "bit (ToFixHeaderUint8 t f) n \<longleftrightarrow> n < 8 \<and> (4 \<le> n \<and> bit t (n - 4) \<or>
     (if t = CONNACK then HasServerVersion f \<and> n = 0
      else DUP f \<and> n = 3 \<or> SyncOnce f \<and> n = 2 \<or> RedDot f \<and> n = 1 \<or> NoPersist f \<and> n = 0))"
proof (cases "t = CONNACK")
  case True
  then show ?thesis
    unfolding ToFixHeaderUint8_def Let_def
    by (simp only: bit_or_iff bit_push_bit_iff bit_encodeBool possible_bit_word True refl if_True)
      auto
next
  case False
  then show ?thesis
    unfolding ToFixHeaderUint8_def Let_def
    by (simp only: bit_or_iff bit_push_bit_iff bit_encodeBool possible_bit_word False refl if_False)
      auto
qed

lemma drop_4_header:
  assumes "t < 16"
  shows "drop_bit 4 (ToFixHeaderUint8 t f) = t"
proof (rule bit_word_eqI)
  fix n
  assume "n < LENGTH(8)"
  then show "bit (drop_bit 4 (ToFixHeaderUint8 t f)) n = bit t n"
    using header_type_bound [OF assms, of n]
    by (cases "4 \<le> n") (auto simp: bit_drop_bit_eq bit_ToFixHeaderUint8)
qed

text \<open>The one-byte fixed header survives the wire, for every frame type below 16.\<close>

lemma header_roundtrip:
  assumes "t < 16"
  shows "FramerFromUint8 (ToFixHeaderUint8 t f) = header_view t f"
  unfolding FramerFromUint8_def header_view_def Let_def
  by (simp add: drop_4_header [OF assms] and_1_pos bit_drop_bit_eq bit_ToFixHeaderUint8 del: drop_bit_Suc)

end
