(* ===== verification/Packets.thy ===== *)
theory Packets
  imports Frames
begin

text \<open>
  The packets of the wire protocol, one record per Go struct with its body encoder, its size
  function and its body decoder: \<^verbatim>\<open>connect.go\<close>, \<^verbatim>\<open>connack.go\<close>, \<^verbatim>\<open>send.go\<close>,
  \<^verbatim>\<open>sendack.go\<close>, \<^verbatim>\<open>recv.go\<close>, \<^verbatim>\<open>recvack.go\<close>, \<^verbatim>\<open>disconnect.go\<close>, \<^verbatim>\<open>sub.go\<close>,
  \<^verbatim>\<open>suback.go\<close>, \<^verbatim>\<open>ping.go\<close> and \<^verbatim>\<open>pong.go\<close> of \<^verbatim>\<open>pkg/proto\<close>. Every codec meets the
  contract \<open>packet_codec\<close>: the size function is exact, and the decoder returns the packet as
  the version's wire format carries it (\<open>view\<close>), provided every string is shorter than 32768
  bytes (\<open>fits\<close>).

  An encoder is the concatenation of its writes, in their order. A decoder's error keeps a short
  tag of the message that the source wraps around it.
\<close>

abbreviation (input) SettingByteSize :: nat where "SettingByteSize \<equiv> 1"
abbreviation (input) StringFixLenByteSize :: nat where "StringFixLenByteSize \<equiv> 2"
abbreviation (input) ClientSeqByteSize :: nat where "ClientSeqByteSize \<equiv> 4"
abbreviation (input) ChannelTypeByteSize :: nat where "ChannelTypeByteSize \<equiv> 1"
abbreviation (input) VersionByteSize :: nat where "VersionByteSize \<equiv> 1"
abbreviation (input) DeviceFlagByteSize :: nat where "DeviceFlagByteSize \<equiv> 1"
abbreviation (input) ClientTimestampByteSize :: nat where "ClientTimestampByteSize \<equiv> 8"
abbreviation (input) TimeDiffByteSize :: nat where "TimeDiffByteSize \<equiv> 8"
abbreviation (input) ReasonCodeByteSize :: nat where "ReasonCodeByteSize \<equiv> 1"
abbreviation (input) MessageIDByteSize :: nat where "MessageIDByteSize \<equiv> 8"
abbreviation (input) MessageSeqByteSize :: nat where "MessageSeqByteSize \<equiv> 4"
abbreviation (input) TimestampByteSize :: nat where "TimestampByteSize \<equiv> 4"
abbreviation (input) ActionByteSize :: nat where "ActionByteSize \<equiv> 1"
abbreviation (input) StreamSeqByteSize :: nat where "StreamSeqByteSize \<equiv> 4"
abbreviation (input) StreamFlagByteSize :: nat where "StreamFlagByteSize \<equiv> 1"
abbreviation (input) ExpireByteSize :: nat where "ExpireByteSize \<equiv> 4"

section \<open>The contract of a packet codec\<close>

text \<open>
  The framer a decoder is handed: what the header byte carries of the packet's own framer, with
  the remaining length and frame size that the protocol layer has filled in.
\<close>

definition wire_framer :: "frameType \<Rightarrow> framer \<Rightarrow> u32 \<Rightarrow> i64 \<Rightarrow> framer" where
  "wire_framer t f n sz = (header_view t f)\<lparr>RemainingLength := n, FrameSize := sz\<rparr>"

lemma wire_connack [simp]: "HasServerVersion (wire_framer CONNACK f n sz) \<longleftrightarrow> HasServerVersion f"
  by (simp add: wire_framer_def header_view_def)

locale packet_codec =
  fixes ftype :: frameType
    and framer_of :: "'p \<Rightarrow> framer"
    and encode :: "'p \<Rightarrow> u8 \<Rightarrow> bytes"
    and encodeSize :: "'p \<Rightarrow> u8 \<Rightarrow> nat"
    and decode :: "framer \<Rightarrow> bytes \<Rightarrow> u8 \<Rightarrow> 'p outcome"
    and view :: "framer \<Rightarrow> 'p \<Rightarrow> u8 \<Rightarrow> 'p"
    and fits :: "'p \<Rightarrow> bool"
  assumes size_exact: "length (encode p v) = encodeSize p v"
    and decode_encode: "fits p \<Longrightarrow>
      decode (wire_framer ftype (framer_of p) n sz) (encode p v) v =
        Ret (view (wire_framer ftype (framer_of p) n sz) p v)"
begin

text \<open>Packets that the version's wire format tells apart have different bodies.\<close>

lemma encode_view_inj:
  assumes "fits p" and "fits q" and "framer_of p = framer_of q" and "encode p v = encode q v"
  shows "view (wire_framer ftype (framer_of p) n sz) p v =
    view (wire_framer ftype (framer_of p) n sz) q v"
  using decode_encode [OF assms(1)] decode_encode [OF assms(2)] assms(3,4)
  by (metis outcome.inject(1))

end

text \<open>The conversions between a named byte type and \<open>uint8\<close> are identities.\<close>

definition Action_Uint8 :: "u8 \<Rightarrow> u8" where
  "Action_Uint8 a = a"

lemmas codec_ids = Setting_Uint8_def DeviceFlag_ToUint8_def ReasonCode_Byte_def Action_Uint8_def

section \<open>CONNECT\<close>

record ConnectPacket =
  con_Framer :: framer
  con_Version :: u8
  con_ClientKey :: gostring
  con_DeviceID :: gostring
  con_DeviceFlag :: deviceFlag
  con_ClientTimestamp :: i64
  con_UID :: gostring
  con_Token :: gostring

definition encodeConnect :: "ConnectPacket \<Rightarrow> u8 \<Rightarrow> bytes" where
  "encodeConnect p v = concat [
     WriteUint8 (con_Version p),
     WriteUint8 (DeviceFlag_ToUint8 (con_DeviceFlag p)),
     WriteString (con_DeviceID p),
     WriteString (con_UID p),
     WriteString (con_Token p),
     WriteInt64 (con_ClientTimestamp p),
     WriteString (con_ClientKey p)]"

definition encodeConnectSize :: "ConnectPacket \<Rightarrow> u8 \<Rightarrow> nat" where
  "encodeConnectSize p v =
     VersionByteSize +
     DeviceFlagByteSize +
     (length (con_DeviceID p) + StringFixLenByteSize) +
     (length (con_UID p) + StringFixLenByteSize) +
     (length (con_Token p) + StringFixLenByteSize) +
     ClientTimestampByteSize +
     (length (con_ClientKey p) + StringFixLenByteSize)"

definition decodeConnect :: "framer \<Rightarrow> bytes \<Rightarrow> u8 \<Rightarrow> ConnectPacket outcome" where
  "decodeConnect frame data version = run_reader (
     field ''version'' dec_uint8 (\<lambda>ver.
     field ''DeviceFlag'' dec_uint8 (\<lambda>deviceFlag.
     field ''DeviceId'' dec_string (\<lambda>deviceID.
     field ''UID'' dec_string (\<lambda>uid.
     field ''Token'' dec_string (\<lambda>token.
     field ''ClientTimestamp'' dec_int64 (\<lambda>ts.
     field ''ClientKey'' dec_string (\<lambda>clientKey.
     yields \<lparr>con_Framer = frame, con_Version = ver, con_ClientKey = clientKey, con_DeviceID = deviceID, con_DeviceFlag = deviceFlag, con_ClientTimestamp = ts, con_UID = uid, con_Token = token\<rparr>)))))))) data"

definition Connect_view :: "framer \<Rightarrow> ConnectPacket \<Rightarrow> u8 \<Rightarrow> ConnectPacket" where
  "Connect_view fr p v = p\<lparr>con_Framer := fr\<rparr>"

definition Connect_fits :: "ConnectPacket \<Rightarrow> bool" where
  "Connect_fits p \<longleftrightarrow> length (con_DeviceID p) < 32768 \<and> length (con_UID p) < 32768 \<and> length (con_Token p) < 32768 \<and> length (con_ClientKey p) < 32768"

interpretation connect: packet_codec CONNECT con_Framer encodeConnect encodeConnectSize decodeConnect Connect_view Connect_fits
proof unfold_locales
  fix p v
  show "length (encodeConnect p v) = encodeConnectSize p v"
    by (simp add: encodeConnect_def encodeConnectSize_def)
next
  fix p n sz v
  assume "Connect_fits p"
  then show "decodeConnect (wire_framer CONNECT (con_Framer p) n sz) (encodeConnect p v) v =
      Ret (Connect_view (wire_framer CONNECT (con_Framer p) n sz) p v)"
    unfolding decodeConnect_def encodeConnect_def codec_ids wire_connack
    by (intro run_reader_reads_end)
      (rule roundtrip_intros | simp add: Connect_fits_def Connect_view_def; fail)+
qed

section \<open>CONNACK\<close>

record ConnackPacket =
  cak_Framer :: framer
  cak_ServerVersion :: u8
  cak_ServerKey :: gostring
  cak_Salt :: gostring
  cak_TimeDiff :: i64
  cak_ReasonCode :: reasonCode

definition encodeConnack :: "ConnackPacket \<Rightarrow> u8 \<Rightarrow> bytes" where
  "encodeConnack p v = concat [
     if HasServerVersion (cak_Framer p) then WriteUint8 (cak_ServerVersion p) else [],
     WriteInt64 (cak_TimeDiff p),
     WriteByte (ReasonCode_Byte (cak_ReasonCode p)),
     WriteString (cak_ServerKey p),
     WriteString (cak_Salt p)]"

definition encodeConnackSize :: "ConnackPacket \<Rightarrow> u8 \<Rightarrow> nat" where
  "encodeConnackSize p v =
     (if HasServerVersion (cak_Framer p) then VersionByteSize else 0) +
     TimeDiffByteSize +
     ReasonCodeByteSize +
     (length (cak_ServerKey p) + StringFixLenByteSize) +
     (length (cak_Salt p) + StringFixLenByteSize)"

definition decodeConnack :: "framer \<Rightarrow> bytes \<Rightarrow> u8 \<Rightarrow> ConnackPacket outcome" where
  "decodeConnack frame data version = run_reader (
     optfield ''version'' (HasServerVersion frame) 0 dec_uint8 (\<lambda>serverVersion.
     field ''TimeDiff'' dec_int64 (\<lambda>timeDiff.
     field ''ReasonCode'' dec_uint8 (\<lambda>reasonCode.
     field ''ServerKey'' dec_string (\<lambda>serverKey.
     field ''Salt'' dec_string (\<lambda>salt.
     yields \<lparr>cak_Framer = frame, cak_ServerVersion = serverVersion, cak_ServerKey = serverKey, cak_Salt = salt, cak_TimeDiff = timeDiff, cak_ReasonCode = reasonCode\<rparr>)))))) data"

definition Connack_view :: "framer \<Rightarrow> ConnackPacket \<Rightarrow> u8 \<Rightarrow> ConnackPacket" where
  "Connack_view fr p v = p\<lparr>cak_Framer := fr,
     cak_ServerVersion := (if HasServerVersion (cak_Framer p) then cak_ServerVersion p else 0)\<rparr>"

definition Connack_fits :: "ConnackPacket \<Rightarrow> bool" where
  "Connack_fits p \<longleftrightarrow> length (cak_ServerKey p) < 32768 \<and> length (cak_Salt p) < 32768"

interpretation connack: packet_codec CONNACK cak_Framer encodeConnack encodeConnackSize decodeConnack Connack_view Connack_fits
proof unfold_locales
  fix p v
  show "length (encodeConnack p v) = encodeConnackSize p v"
    by (simp add: encodeConnack_def encodeConnackSize_def)
next
  fix p n sz v
  assume "Connack_fits p"
  then show "decodeConnack (wire_framer CONNACK (cak_Framer p) n sz) (encodeConnack p v) v =
      Ret (Connack_view (wire_framer CONNACK (cak_Framer p) n sz) p v)"
    unfolding decodeConnack_def encodeConnack_def codec_ids wire_connack
    by (intro run_reader_reads_end)
      (rule roundtrip_intros | simp add: Connack_fits_def Connack_view_def; fail)+
qed

section \<open>SEND\<close>

record SendPacket =
  snd_Framer :: framer
  snd_Setting :: setting
  snd_MsgKey :: gostring
  snd_Expire :: u32
  snd_ClientSeq :: u64
  snd_ClientMsgNo :: gostring
  snd_StreamNo :: gostring
  snd_ChannelID :: gostring
  snd_ChannelType :: u8
  snd_Topic :: gostring
  snd_Payload :: bytes

definition encodeSend :: "SendPacket \<Rightarrow> u8 \<Rightarrow> bytes" where
  "encodeSend p v = concat [
     WriteByte (Setting_Uint8 (snd_Setting p)),
     WriteUint32 (ucast (snd_ClientSeq p)),
     WriteString (snd_ClientMsgNo p),
     if 2 \<le> v \<and> IsSet (snd_Setting p) SettingStream then WriteString (snd_StreamNo p) else [],
     WriteString (snd_ChannelID p),
     WriteUint8 (snd_ChannelType p),
     if 3 \<le> v then WriteUint32 (snd_Expire p) else [],
     WriteString (snd_MsgKey p),
     if IsSet (snd_Setting p) SettingTopic then WriteString (snd_Topic p) else [],
     WriteBytes (snd_Payload p)]"

definition encodeSendSize :: "SendPacket \<Rightarrow> u8 \<Rightarrow> nat" where
  "encodeSendSize p v =
     SettingByteSize +
     ClientSeqByteSize +
     (length (snd_ClientMsgNo p) + StringFixLenByteSize) +
     (if 2 \<le> v \<and> IsSet (snd_Setting p) SettingStream
      then length (snd_StreamNo p) + StringFixLenByteSize else 0) +
     (length (snd_ChannelID p) + StringFixLenByteSize) +
     ChannelTypeByteSize +
     (if 3 \<le> v then ExpireByteSize else 0) +
     (length (snd_MsgKey p) + StringFixLenByteSize) +
     (if IsSet (snd_Setting p) SettingTopic then length (snd_Topic p) + StringFixLenByteSize else 0) +
     length (snd_Payload p)"

definition decodeSend :: "framer \<Rightarrow> bytes \<Rightarrow> u8 \<Rightarrow> SendPacket outcome" where
  "decodeSend frame data version = run_reader (
     field ''setting'' dec_uint8 (\<lambda>setting.
     field ''ClientSeq'' dec_uint32 (\<lambda>clientSeq.
     field ''ClientMsgNo'' dec_string (\<lambda>clientMsgNo.
     optfield ''StreamNo'' (2 \<le> version \<and> IsSet setting SettingStream) [] dec_string (\<lambda>streamNo.
     field ''ChannelId'' dec_string (\<lambda>channelID.
     field ''ChannelType'' dec_uint8 (\<lambda>channelType.
     optfield ''Expire'' (3 \<le> version) 0 dec_uint32 (\<lambda>expire.
     field ''MsgKey'' dec_string (\<lambda>msgKey.
     optfield ''topic'' (IsSet setting SettingTopic) [] dec_string (\<lambda>topic.
     restfield ''payload'' (\<lambda>payload.
     yields \<lparr>snd_Framer = frame, snd_Setting = setting, snd_MsgKey = msgKey, snd_Expire = expire, snd_ClientSeq = ucast clientSeq, snd_ClientMsgNo = clientMsgNo, snd_StreamNo = streamNo, snd_ChannelID = channelID, snd_ChannelType = channelType, snd_Topic = topic, snd_Payload = payload\<rparr>))))))))))) data"

definition Send_view :: "framer \<Rightarrow> SendPacket \<Rightarrow> u8 \<Rightarrow> SendPacket" where
  "Send_view fr p v = p\<lparr>snd_Framer := fr,
     snd_ClientSeq := ucast (ucast (snd_ClientSeq p) :: u32),
     snd_StreamNo := (if 2 \<le> v \<and> IsSet (snd_Setting p) SettingStream then snd_StreamNo p else []),
     snd_Expire := (if 3 \<le> v then snd_Expire p else 0),
     snd_Topic := (if IsSet (snd_Setting p) SettingTopic then snd_Topic p else [])\<rparr>"

definition Send_fits :: "SendPacket \<Rightarrow> bool" where
  "Send_fits p \<longleftrightarrow> length (snd_MsgKey p) < 32768 \<and> length (snd_ClientMsgNo p) < 32768 \<and> length (snd_StreamNo p) < 32768 \<and> length (snd_ChannelID p) < 32768 \<and> length (snd_Topic p) < 32768"

definition Send_UniqueKey :: "SendPacket \<Rightarrow> gostring" where
  "Send_UniqueKey s = snd_ChannelID s @ str ''-'' @ dec (unat (snd_ChannelType s)) @ str ''-'' @
     snd_ClientMsgNo s @ str ''-'' @ dec (unat (snd_ClientSeq s))"

definition Send_VerityString :: "SendPacket \<Rightarrow> gostring" where
  "Send_VerityString s = dec (unat (snd_ClientSeq s)) @ snd_ClientMsgNo s @ snd_ChannelID s @
     dec (unat (snd_ChannelType s)) @ snd_Payload s"

interpretation send: packet_codec SEND snd_Framer encodeSend encodeSendSize decodeSend Send_view Send_fits
proof unfold_locales
  fix p v
  show "length (encodeSend p v) = encodeSendSize p v"
    by (simp add: encodeSend_def encodeSendSize_def)
next
  fix p n sz v
  assume "Send_fits p"
  then show "decodeSend (wire_framer SEND (snd_Framer p) n sz) (encodeSend p v) v =
      Ret (Send_view (wire_framer SEND (snd_Framer p) n sz) p v)"
    unfolding decodeSend_def encodeSend_def codec_ids wire_connack
    by (intro run_reader_reads_end)
      (rule roundtrip_intros | simp add: Send_fits_def Send_view_def; fail)+
qed

section \<open>SENDACK\<close>

record SendackPacket =
  sak_Framer :: framer
  sak_MessageID :: i64
  sak_MessageSeq :: u32
  sak_ClientSeq :: u64
  sak_ClientMsgNo :: gostring
  sak_ReasonCode :: reasonCode

definition encodeSendack :: "SendackPacket \<Rightarrow> u8 \<Rightarrow> bytes" where
  "encodeSendack p v = concat [
     WriteInt64 (sak_MessageID p),
     WriteUint32 (ucast (sak_ClientSeq p)),
     WriteUint32 (sak_MessageSeq p),
     WriteUint8 (ReasonCode_Byte (sak_ReasonCode p))]"

definition encodeSendackSize :: "SendackPacket \<Rightarrow> u8 \<Rightarrow> nat" where
  "encodeSendackSize p v =
     MessageIDByteSize +
     ClientSeqByteSize +
     MessageSeqByteSize +
     ReasonCodeByteSize"

definition decodeSendack :: "framer \<Rightarrow> bytes \<Rightarrow> u8 \<Rightarrow> SendackPacket outcome" where
  "decodeSendack frame data version = run_reader (
     field ''MessageId'' dec_int64 (\<lambda>messageID.
     field ''ClientSeq'' dec_uint32 (\<lambda>clientSeq.
     field ''MessageSeq'' dec_uint32 (\<lambda>messageSeq.
     field ''ChannelType'' dec_uint8 (\<lambda>reasonCode.
     yields \<lparr>sak_Framer = frame, sak_MessageID = messageID, sak_MessageSeq = messageSeq, sak_ClientSeq = ucast clientSeq, sak_ClientMsgNo = [], sak_ReasonCode = reasonCode\<rparr>))))) data"

definition Sendack_view :: "framer \<Rightarrow> SendackPacket \<Rightarrow> u8 \<Rightarrow> SendackPacket" where
  "Sendack_view fr p v = p\<lparr>sak_Framer := fr, sak_ClientSeq := ucast (ucast (sak_ClientSeq p) :: u32), sak_ClientMsgNo := []\<rparr>"

definition Sendack_fits :: "SendackPacket \<Rightarrow> bool" where
  "Sendack_fits p \<longleftrightarrow> True"

interpretation sendack: packet_codec SENDACK sak_Framer encodeSendack encodeSendackSize decodeSendack Sendack_view Sendack_fits
proof unfold_locales
  fix p v
  show "length (encodeSendack p v) = encodeSendackSize p v"
    by (simp add: encodeSendack_def encodeSendackSize_def)
next
  fix p n sz v
  assume "Sendack_fits p"
  then show "decodeSendack (wire_framer SENDACK (sak_Framer p) n sz) (encodeSendack p v) v =
      Ret (Sendack_view (wire_framer SENDACK (sak_Framer p) n sz) p v)"
    unfolding decodeSendack_def encodeSendack_def codec_ids wire_connack
    by (intro run_reader_reads_end)
      (rule roundtrip_intros | simp add: Sendack_fits_def Sendack_view_def; fail)+
qed

section \<open>RECV\<close>

record RecvPacket =
  rcv_Framer :: framer
  rcv_Setting :: setting
  rcv_MsgKey :: gostring
  rcv_Expire :: u32
  rcv_MessageID :: i64
  rcv_MessageSeq :: u32
  rcv_ClientMsgNo :: gostring
  rcv_StreamNo :: gostring
  rcv_StreamSeq :: u32
  rcv_StreamFlag :: u8
  rcv_Timestamp :: i32
  rcv_ChannelID :: gostring
  rcv_ChannelType :: u8
  rcv_Topic :: gostring
  rcv_FromUID :: gostring
  rcv_Payload :: bytes
  rcv_ClientSeq :: u64

definition encodeRecv :: "RecvPacket \<Rightarrow> u8 \<Rightarrow> bytes" where
  "encodeRecv p v = concat [
     WriteByte (Setting_Uint8 (rcv_Setting p)),
     WriteString (rcv_MsgKey p),
     WriteString (rcv_FromUID p),
     WriteString (rcv_ChannelID p),
     WriteUint8 (rcv_ChannelType p),
     if 3 \<le> v then WriteUint32 (rcv_Expire p) else [],
     WriteString (rcv_ClientMsgNo p),
     if 2 \<le> v \<and> IsSet (rcv_Setting p) SettingStream then WriteString (rcv_StreamNo p) else [],
     if 2 \<le> v \<and> IsSet (rcv_Setting p) SettingStream then WriteUint32 (rcv_StreamSeq p) else [],
     if 2 \<le> v \<and> IsSet (rcv_Setting p) SettingStream then WriteUint8 (rcv_StreamFlag p) else [],
     WriteInt64 (rcv_MessageID p),
     WriteUint32 (rcv_MessageSeq p),
     WriteInt32 (rcv_Timestamp p),
     if IsSet (rcv_Setting p) SettingTopic then WriteString (rcv_Topic p) else [],
     WriteBytes (rcv_Payload p)]"

definition encodeRecvSize :: "RecvPacket \<Rightarrow> u8 \<Rightarrow> nat" where
  "encodeRecvSize p v =
     SettingByteSize +
     (length (rcv_MsgKey p) + StringFixLenByteSize) +
     (length (rcv_FromUID p) + StringFixLenByteSize) +
     (length (rcv_ChannelID p) + StringFixLenByteSize) +
     ChannelTypeByteSize +
     (if 3 \<le> v then ExpireByteSize else 0) +
     (length (rcv_ClientMsgNo p) + StringFixLenByteSize) +
     (if 2 \<le> v \<and> IsSet (rcv_Setting p) SettingStream
      then length (rcv_StreamNo p) + StringFixLenByteSize + StreamSeqByteSize + StreamFlagByteSize
      else 0) +
     MessageIDByteSize +
     MessageSeqByteSize +
     TimestampByteSize +
     (if IsSet (rcv_Setting p) SettingTopic then length (rcv_Topic p) + StringFixLenByteSize else 0) +
     length (rcv_Payload p)"

definition decodeRecv :: "framer \<Rightarrow> bytes \<Rightarrow> u8 \<Rightarrow> RecvPacket outcome" where
  "decodeRecv frame data version = run_reader (
     field ''setting'' dec_uint8 (\<lambda>setting.
     field ''MsgKey'' dec_string (\<lambda>msgKey.
     field ''FromUID'' dec_string (\<lambda>fromUID.
     field ''ChannelId'' dec_string (\<lambda>channelID.
     field ''ChannelType'' dec_uint8 (\<lambda>channelType.
     optfield ''Expire'' (3 \<le> version) 0 dec_uint32 (\<lambda>expire.
     field ''ClientMsgNo'' dec_string (\<lambda>clientMsgNo.
     optfield ''StreamNo'' (2 \<le> version \<and> IsSet setting SettingStream) [] dec_string (\<lambda>streamNo.
     optfield ''StreamSeq'' (2 \<le> version \<and> IsSet setting SettingStream) 0 dec_uint32 (\<lambda>streamSeq.
     optfield ''StreamFlag'' (2 \<le> version \<and> IsSet setting SettingStream) 0 dec_uint8 (\<lambda>streamFlag.
     field ''MessageId'' dec_int64 (\<lambda>messageID.
     field ''MessageSeq'' dec_uint32 (\<lambda>messageSeq.
     field ''Timestamp'' dec_int32 (\<lambda>timestamp.
     optfield ''topic'' (IsSet setting SettingTopic) [] dec_string (\<lambda>topic.
     restfield ''payload'' (\<lambda>payload.
     yields \<lparr>rcv_Framer = frame, rcv_Setting = setting, rcv_MsgKey = msgKey, rcv_Expire = expire, rcv_MessageID = messageID, rcv_MessageSeq = messageSeq, rcv_ClientMsgNo = clientMsgNo, rcv_StreamNo = streamNo, rcv_StreamSeq = streamSeq, rcv_StreamFlag = streamFlag, rcv_Timestamp = timestamp, rcv_ChannelID = channelID, rcv_ChannelType = channelType, rcv_Topic = topic, rcv_FromUID = fromUID, rcv_Payload = payload, rcv_ClientSeq = 0\<rparr>)))))))))))))))) data"

definition Recv_view :: "framer \<Rightarrow> RecvPacket \<Rightarrow> u8 \<Rightarrow> RecvPacket" where
  "Recv_view fr p v = p\<lparr>rcv_Framer := fr, rcv_ClientSeq := 0,
     rcv_StreamNo := (if 2 \<le> v \<and> IsSet (rcv_Setting p) SettingStream then rcv_StreamNo p else []),
     rcv_StreamSeq := (if 2 \<le> v \<and> IsSet (rcv_Setting p) SettingStream then rcv_StreamSeq p else 0),
     rcv_StreamFlag := (if 2 \<le> v \<and> IsSet (rcv_Setting p) SettingStream then rcv_StreamFlag p else 0),
     rcv_Expire := (if 3 \<le> v then rcv_Expire p else 0),
     rcv_Topic := (if IsSet (rcv_Setting p) SettingTopic then rcv_Topic p else [])\<rparr>"

definition Recv_fits :: "RecvPacket \<Rightarrow> bool" where
  "Recv_fits p \<longleftrightarrow> length (rcv_MsgKey p) < 32768 \<and> length (rcv_FromUID p) < 32768 \<and> length (rcv_ChannelID p) < 32768 \<and> length (rcv_ClientMsgNo p) < 32768 \<and> length (rcv_StreamNo p) < 32768 \<and> length (rcv_Topic p) < 32768"

definition Recv_VerityString :: "RecvPacket \<Rightarrow> gostring" where
  "Recv_VerityString r = dec_int (sint (rcv_MessageID r)) @ dec (unat (rcv_MessageSeq r)) @
     rcv_ClientMsgNo r @ dec_int (sint (rcv_Timestamp r)) @ rcv_FromUID r @ rcv_ChannelID r @
     dec (unat (rcv_ChannelType r)) @ rcv_Payload r"

interpretation recv: packet_codec RECV rcv_Framer encodeRecv encodeRecvSize decodeRecv Recv_view Recv_fits
proof unfold_locales
  fix p v
  show "length (encodeRecv p v) = encodeRecvSize p v"
    by (simp add: encodeRecv_def encodeRecvSize_def)
next
  fix p n sz v
  assume "Recv_fits p"
  then show "decodeRecv (wire_framer RECV (rcv_Framer p) n sz) (encodeRecv p v) v =
      Ret (Recv_view (wire_framer RECV (rcv_Framer p) n sz) p v)"
    unfolding decodeRecv_def encodeRecv_def codec_ids wire_connack
    by (intro run_reader_reads_end)
      (rule roundtrip_intros | simp add: Recv_fits_def Recv_view_def; fail)+
qed

section \<open>RECVACK\<close>

record RecvackPacket =
  rak_Framer :: framer
  rak_MessageID :: i64
  rak_MessageSeq :: u32

definition encodeRecvack :: "RecvackPacket \<Rightarrow> u8 \<Rightarrow> bytes" where
  "encodeRecvack p v = concat [
     WriteInt64 (rak_MessageID p),
     WriteUint32 (rak_MessageSeq p)]"

definition encodeRecvackSize :: "RecvackPacket \<Rightarrow> u8 \<Rightarrow> nat" where
  "encodeRecvackSize p v =
     MessageIDByteSize +
     MessageSeqByteSize"

definition decodeRecvack :: "framer \<Rightarrow> bytes \<Rightarrow> u8 \<Rightarrow> RecvackPacket outcome" where
  "decodeRecvack frame data version = run_reader (
     field ''MessageId'' dec_int64 (\<lambda>messageID.
     field ''MessageSeq'' dec_uint32 (\<lambda>messageSeq.
     yields \<lparr>rak_Framer = frame, rak_MessageID = messageID, rak_MessageSeq = messageSeq\<rparr>))) data"

definition Recvack_view :: "framer \<Rightarrow> RecvackPacket \<Rightarrow> u8 \<Rightarrow> RecvackPacket" where
  "Recvack_view fr p v = p\<lparr>rak_Framer := fr\<rparr>"

definition Recvack_fits :: "RecvackPacket \<Rightarrow> bool" where
  "Recvack_fits p \<longleftrightarrow> True"

interpretation recvack: packet_codec RECVACK rak_Framer encodeRecvack encodeRecvackSize decodeRecvack Recvack_view Recvack_fits
proof unfold_locales
  fix p v
  show "length (encodeRecvack p v) = encodeRecvackSize p v"
    by (simp add: encodeRecvack_def encodeRecvackSize_def)
next
  fix p n sz v
  assume "Recvack_fits p"
  then show "decodeRecvack (wire_framer RECVACK (rak_Framer p) n sz) (encodeRecvack p v) v =
      Ret (Recvack_view (wire_framer RECVACK (rak_Framer p) n sz) p v)"
    unfolding decodeRecvack_def encodeRecvack_def codec_ids wire_connack
    by (intro run_reader_reads_end)
      (rule roundtrip_intros | simp add: Recvack_fits_def Recvack_view_def; fail)+
qed

section \<open>DISCONNECT\<close>

record DisconnectPacket =
  dis_Framer :: framer
  dis_ReasonCode :: reasonCode
  dis_Reason :: gostring

definition encodeDisConnect :: "DisconnectPacket \<Rightarrow> u8 \<Rightarrow> bytes" where
  "encodeDisConnect p v = concat [
     WriteUint8 (ReasonCode_Byte (dis_ReasonCode p)),
     WriteString (dis_Reason p)]"

definition encodeDisConnectSize :: "DisconnectPacket \<Rightarrow> u8 \<Rightarrow> nat" where
  "encodeDisConnectSize p v =
     ReasonCodeByteSize +
     length (dis_Reason p) +
     StringFixLenByteSize"

definition decodeDisConnect :: "framer \<Rightarrow> bytes \<Rightarrow> u8 \<Rightarrow> DisconnectPacket outcome" where
  "decodeDisConnect frame data version = run_reader (
     field ''reasonCode'' dec_uint8 (\<lambda>reasonCode.
     field ''reason'' dec_string (\<lambda>reason.
     yields \<lparr>dis_Framer = frame, dis_ReasonCode = reasonCode, dis_Reason = reason\<rparr>))) data"

definition Disconnect_view :: "framer \<Rightarrow> DisconnectPacket \<Rightarrow> u8 \<Rightarrow> DisconnectPacket" where
  "Disconnect_view fr p v = p\<lparr>dis_Framer := fr\<rparr>"

definition Disconnect_fits :: "DisconnectPacket \<Rightarrow> bool" where
  "Disconnect_fits p \<longleftrightarrow> length (dis_Reason p) < 32768"

interpretation disconnect: packet_codec DISCONNECT dis_Framer encodeDisConnect encodeDisConnectSize decodeDisConnect Disconnect_view Disconnect_fits
proof unfold_locales
  fix p v
  show "length (encodeDisConnect p v) = encodeDisConnectSize p v"
    by (simp add: encodeDisConnect_def encodeDisConnectSize_def)
next
  fix p n sz v
  assume "Disconnect_fits p"
  then show "decodeDisConnect (wire_framer DISCONNECT (dis_Framer p) n sz) (encodeDisConnect p v) v =
      Ret (Disconnect_view (wire_framer DISCONNECT (dis_Framer p) n sz) p v)"
    unfolding decodeDisConnect_def encodeDisConnect_def codec_ids wire_connack
    by (intro run_reader_reads_end)
      (rule roundtrip_intros | simp add: Disconnect_fits_def Disconnect_view_def; fail)+
qed

section \<open>SUB\<close>

record SubPacket =
  sub_Framer :: framer
  sub_Setting :: setting
  sub_SubNo :: gostring
  sub_ChannelID :: gostring
  sub_ChannelType :: u8
  sub_Action :: u8
  sub_Param :: gostring

definition encodeSub :: "SubPacket \<Rightarrow> u8 \<Rightarrow> bytes" where
  "encodeSub p v = concat [
     WriteByte (Setting_Uint8 (sub_Setting p)),
     WriteString (sub_SubNo p),
     WriteString (sub_ChannelID p),
     WriteUint8 (sub_ChannelType p),
     WriteUint8 (Action_Uint8 (sub_Action p)),
     WriteString (sub_Param p)]"

definition encodeSubSize :: "SubPacket \<Rightarrow> u8 \<Rightarrow> nat" where
  "encodeSubSize p v =
     SettingByteSize +
     (length (sub_SubNo p) + StringFixLenByteSize) +
     (length (sub_ChannelID p) + StringFixLenByteSize) +
     ChannelTypeByteSize +
     ActionByteSize +
     (length (sub_Param p) + StringFixLenByteSize)"

definition decodeSub :: "framer \<Rightarrow> bytes \<Rightarrow> u8 \<Rightarrow> SubPacket outcome" where
  "decodeSub frame data version = run_reader (
     field ''setting'' dec_uint8 (\<lambda>setting.
     field ''SubNo'' dec_string (\<lambda>subNo.
     field ''ChannelId'' dec_string (\<lambda>channelID.
     field ''ChannelType'' dec_uint8 (\<lambda>channelType.
     field ''Action'' dec_uint8 (\<lambda>action.
     field ''Param'' dec_string (\<lambda>param.
     yields \<lparr>sub_Framer = frame, sub_Setting = setting, sub_SubNo = subNo, sub_ChannelID = channelID, sub_ChannelType = channelType, sub_Action = action, sub_Param = param\<rparr>))))))) data"

definition Sub_view :: "framer \<Rightarrow> SubPacket \<Rightarrow> u8 \<Rightarrow> SubPacket" where
  "Sub_view fr p v = p\<lparr>sub_Framer := fr\<rparr>"

definition Sub_fits :: "SubPacket \<Rightarrow> bool" where
  "Sub_fits p \<longleftrightarrow> length (sub_SubNo p) < 32768 \<and> length (sub_ChannelID p) < 32768 \<and> length (sub_Param p) < 32768"

interpretation subscribe: packet_codec SUB sub_Framer encodeSub encodeSubSize decodeSub Sub_view Sub_fits
proof unfold_locales
  fix p v
  show "length (encodeSub p v) = encodeSubSize p v"
    by (simp add: encodeSub_def encodeSubSize_def)
next
  fix p n sz v
  assume "Sub_fits p"
  then show "decodeSub (wire_framer SUB (sub_Framer p) n sz) (encodeSub p v) v =
      Ret (Sub_view (wire_framer SUB (sub_Framer p) n sz) p v)"
    unfolding decodeSub_def encodeSub_def codec_ids wire_connack
    by (intro run_reader_reads_end)
      (rule roundtrip_intros | simp add: Sub_fits_def Sub_view_def; fail)+
qed

section \<open>SUBACK\<close>

record SubackPacket =
  suk_Framer :: framer
  suk_SubNo :: gostring
  suk_ChannelID :: gostring
  suk_ChannelType :: u8
  suk_Action :: u8
  suk_ReasonCode :: reasonCode

definition encodeSuback :: "SubackPacket \<Rightarrow> u8 \<Rightarrow> bytes" where
  "encodeSuback p v = concat [
     WriteString (suk_SubNo p),
     WriteString (suk_ChannelID p),
     WriteUint8 (suk_ChannelType p),
     WriteUint8 (Action_Uint8 (suk_Action p)),
     WriteUint8 (ReasonCode_Byte (suk_ReasonCode p))]"

definition encodeSubackSize :: "SubackPacket \<Rightarrow> u8 \<Rightarrow> nat" where
  "encodeSubackSize p v =
     (length (suk_SubNo p) + StringFixLenByteSize) +
     (length (suk_ChannelID p) + StringFixLenByteSize) +
     ChannelTypeByteSize +
     ActionByteSize +
     ReasonCodeByteSize"

definition decodeSuback :: "framer \<Rightarrow> bytes \<Rightarrow> u8 \<Rightarrow> SubackPacket outcome" where
  "decodeSuback frame data version = run_reader (
     field ''SubNo'' dec_string (\<lambda>subNo.
     field ''ChannelId'' dec_string (\<lambda>channelID.
     field ''ChannelType'' dec_uint8 (\<lambda>channelType.
     field ''Action'' dec_uint8 (\<lambda>action.
     field ''ReasonCode'' dec_uint8 (\<lambda>reasonCode.
     yields \<lparr>suk_Framer = frame, suk_SubNo = subNo, suk_ChannelID = channelID, suk_ChannelType = channelType, suk_Action = action, suk_ReasonCode = reasonCode\<rparr>)))))) data"

definition Suback_view :: "framer \<Rightarrow> SubackPacket \<Rightarrow> u8 \<Rightarrow> SubackPacket" where
  "Suback_view fr p v = p\<lparr>suk_Framer := fr\<rparr>"

definition Suback_fits :: "SubackPacket \<Rightarrow> bool" where
  "Suback_fits p \<longleftrightarrow> length (suk_SubNo p) < 32768 \<and> length (suk_ChannelID p) < 32768"

interpretation suback: packet_codec SUBACK suk_Framer encodeSuback encodeSubackSize decodeSuback Suback_view Suback_fits
proof unfold_locales
  fix p v
  show "length (encodeSuback p v) = encodeSubackSize p v"
    by (simp add: encodeSuback_def encodeSubackSize_def)
next
  fix p n sz v
  assume "Suback_fits p"
  then show "decodeSuback (wire_framer SUBACK (suk_Framer p) n sz) (encodeSuback p v) v =
      Ret (Suback_view (wire_framer SUBACK (suk_Framer p) n sz) p v)"
    unfolding decodeSuback_def encodeSuback_def codec_ids wire_connack
    by (intro run_reader_reads_end)
      (rule roundtrip_intros | simp add: Suback_fits_def Suback_view_def; fail)+
qed

section \<open>Frames\<close>

text \<open>
  A \<open>Frame\<close> is a pointer to one of the packets; PING and PONG are their framer alone.
  \<open>GetFrameType\<close> of a packet is its method, not the type that its framer stores.
\<close>

datatype frame =
    FConnect ConnectPacket
  | FConnack ConnackPacket
  | FSend SendPacket
  | FSendack SendackPacket
  | FRecv RecvPacket
  | FRecvack RecvackPacket
  | FPing framer
  | FPong framer
  | FDisconnect DisconnectPacket
  | FSub SubPacket
  | FSuback SubackPacket

fun GetFrameType :: "frame \<Rightarrow> frameType" where
  "GetFrameType (FConnect _) = CONNECT"
| "GetFrameType (FConnack _) = CONNACK"
| "GetFrameType (FSend _) = SEND"
| "GetFrameType (FSendack _) = SENDACK"
| "GetFrameType (FRecv _) = RECV"
| "GetFrameType (FRecvack _) = RECVACK"
| "GetFrameType (FPing _) = PING"
| "GetFrameType (FPong _) = PONG"
| "GetFrameType (FDisconnect _) = DISCONNECT"
| "GetFrameType (FSub _) = SUB"
| "GetFrameType (FSuback _) = SUBACK"

fun frame_framer :: "frame \<Rightarrow> framer" where
  "frame_framer (FConnect p) = con_Framer p"
| "frame_framer (FConnack p) = cak_Framer p"
| "frame_framer (FSend p) = snd_Framer p"
| "frame_framer (FSendack p) = sak_Framer p"
| "frame_framer (FRecv p) = rcv_Framer p"
| "frame_framer (FRecvack p) = rak_Framer p"
| "frame_framer (FPing f) = f"
| "frame_framer (FPong f) = f"
| "frame_framer (FDisconnect p) = dis_Framer p"
| "frame_framer (FSub p) = sub_Framer p"
| "frame_framer (FSuback p) = suk_Framer p"

lemma GetFrameType_bound: "GetFrameType f < 16" "GetFrameType f \<noteq> UNKNOWN"
  by (cases f; simp)+

end
