(* ===== verification/Protocol.thy ===== *)
theory Protocol
  imports Packets
begin

text \<open>
  Framing, \<^verbatim>\<open>pkg/proto/protocol.go\<close>: the variable-length size field, the fixed header, and
  the encoder and decoder of whole frames, from a byte slice (\<open>DecodeFrame\<close>) and from a reader
  (\<open>DecodePacketWithConn\<close>). The contract \<open>framed_codec\<close> extends \<open>packet_codec\<close> by what
  the framing layer adds to a packet; each of the nine packets with a body meets it, and the
  round trip of frames is proved once from it.
\<close>

section \<open>The variable-length size field\<close>

function encodeVariable2 :: "u32 \<Rightarrow> bytes" where
  "encodeVariable2 sz =
     (if sz > 0 then
        let digit = ucast (sz mod 0x80) :: byte;
            sz = sz div 0x80;
            digit = (if sz > 0 then digit OR 0x80 else digit)
        in WriteByte digit @ encodeVariable2 sz
      else [])"
  by pat_completeness auto
termination
  by (relation "measure unat") (auto simp: unat_div word_less_nat_alt)

declare encodeVariable2.simps [simp del]

text \<open>\<open>encodeVariable\<close> collects the same digits in a slice.\<close>

function encodeVariable_loop :: "bytes \<Rightarrow> u32 \<Rightarrow> bytes" where
  "encodeVariable_loop ret sz =
     (if sz > 0 then
        let digit = ucast (sz mod 0x80) :: byte;
            sz = sz div 0x80;
            digit = (if sz > 0 then digit OR 0x80 else digit)
        in encodeVariable_loop (ret @ [digit]) sz
      else ret)"
  by pat_completeness auto
termination
  by (relation "measure (\<lambda>(_, sz). unat sz)") (auto simp: unat_div word_less_nat_alt)

declare encodeVariable_loop.simps [simp del]

definition encodeVariable :: "u32 \<Rightarrow> bytes" where
  "encodeVariable sz = encodeVariable_loop [] sz"

text \<open>
  \<open>decodeLength\<close> returns the size and the number of bytes of the field. After four bytes with
  the continuation bit it gives up reading and counts five.
\<close>

function decodeLength_loop :: "bytes \<Rightarrow> u32 \<Rightarrow> nat \<Rightarrow> nat \<Rightarrow> (u32 \<times> nat) outcome" where
  "decodeLength_loop data rLength multiplier offset =
     (if multiplier < 27 then
        if offset \<ge> length data then Fail ErrDecodeLength
        else
          let digit = data ! offset;
              rLength = rLength OR push_bit multiplier (ucast (digit AND 127))
          in if digit AND 128 = 0 then Ret (rLength, offset + 1)
             else decodeLength_loop data rLength (multiplier + 7) (offset + 1)
      else Ret (rLength, offset + 1))"
  by pat_completeness auto
termination
  by (relation "measure (\<lambda>(_, _, multiplier, _). 27 - multiplier)") auto

declare decodeLength_loop.simps [simp del]

definition decodeLength :: "bytes \<Rightarrow> (u32 \<times> nat) outcome" where
  "decodeLength data = decodeLength_loop data 0 0 0"

text \<open>
  A connection is the list of bytes that it still delivers before end of file. \<open>io.ReadFull\<close>
  fills its buffer or returns an error; \<open>decodeLengthWithConn\<close> drops that error and takes the
  zero byte of its fresh buffer.
\<close>

definition ReadFull :: "nat \<Rightarrow> bytes \<Rightarrow> (bytes \<times> bytes) outcome" where
  "ReadFull n conn =
     (if n \<le> length conn then Ret (take n conn, drop n conn)
      else Fail (if conn = [] then ErrEOF else ErrMsg ''unexpected EOF''))"

function decodeLengthWithConn_loop :: "bytes \<Rightarrow> u32 \<Rightarrow> nat \<Rightarrow> u32 \<times> bytes" where
  "decodeLengthWithConn_loop r rLength multiplier =
     (if multiplier < 27 then
        let (digit, r) = (case r of [] \<Rightarrow> (0, []) | b # r \<Rightarrow> (b, r));
            rLength = rLength OR push_bit multiplier (ucast (digit AND 127))
        in if digit AND 128 = 0 then (rLength, r)
           else decodeLengthWithConn_loop r rLength (multiplier + 7)
      else (rLength, r))"
  by pat_completeness auto
termination
  by (relation "measure (\<lambda>(_, _, multiplier). 27 - multiplier)") auto

declare decodeLengthWithConn_loop.simps [simp del]

definition decodeLengthWithConn :: "bytes \<Rightarrow> u32 \<times> bytes" where
  "decodeLengthWithConn r = decodeLengthWithConn_loop r 0 0"

section \<open>Encoding frames\<close>

definition encodeFrame :: "frame \<Rightarrow> nat \<Rightarrow> bytes" where
  "encodeFrame f remainingLength =
     WriteByte (ToFixHeaderUint8 (GetFrameType f) (frame_framer f)) @
     encodeVariable2 (word_of_nat remainingLength)"

text \<open>The encoders of the packets return a nil error on every path, so \<open>EncodeFrame\<close> does.\<close>

fun EncodeFrame :: "frame \<Rightarrow> u8 \<Rightarrow> bytes" where
  "EncodeFrame (FPing f) version = [push_bit 4 PING]"
| "EncodeFrame (FPong f) version = [push_bit 4 PONG]"
| "EncodeFrame (FConnect p) version =
     encodeFrame (FConnect p) (encodeConnectSize p version) @ encodeConnect p version"
| "EncodeFrame (FConnack p) version =
     encodeFrame (FConnack p) (encodeConnackSize p version) @ encodeConnack p version"
| "EncodeFrame (FSend p) version =
     encodeFrame (FSend p) (encodeSendSize p version) @ encodeSend p version"
| "EncodeFrame (FSendack p) version =
     encodeFrame (FSendack p) (encodeSendackSize p version) @ encodeSendack p version"
| "EncodeFrame (FRecv p) version =
     encodeFrame (FRecv p) (encodeRecvSize p version) @ encodeRecv p version"
| "EncodeFrame (FRecvack p) version =
     encodeFrame (FRecvack p) (encodeRecvackSize p version) @ encodeRecvack p version"
| "EncodeFrame (FDisconnect p) version =
     encodeFrame (FDisconnect p) (encodeDisConnectSize p version) @ encodeDisConnect p version"
| "EncodeFrame (FSub p) version =
     encodeFrame (FSub p) (encodeSubSize p version) @ encodeSub p version"
| "EncodeFrame (FSuback p) version =
     encodeFrame (FSuback p) (encodeSubackSize p version) @ encodeSuback p version"

text \<open>The older \<open>encodeFramer\<close>, which no caller uses, and which answers \<open>[1]\<close> for a SEND.\<close>

definition encodeFramer :: "frame \<Rightarrow> u32 \<Rightarrow> bytes" where
  "encodeFramer f remainingLength =
     (if GetFrameType f = PING \<or> GetFrameType f = PONG then [push_bit 4 (GetFrameType f)]
      else if GetFrameType f = SEND then [1]
      else ToFixHeaderUint8 (GetFrameType f) (frame_framer f) # encodeVariable remainingLength)"

section \<open>Decoding frames\<close>

definition packetDecodeMap :: "frameType \<Rightarrow> (framer \<Rightarrow> bytes \<Rightarrow> u8 \<Rightarrow> frame outcome) option" where
  "packetDecodeMap t =
     (if t = CONNECT then Some (\<lambda>fr b v. mapR FConnect (decodeConnect fr b v))
      else if t = CONNACK then Some (\<lambda>fr b v. mapR FConnack (decodeConnack fr b v))
      else if t = SEND then Some (\<lambda>fr b v. mapR FSend (decodeSend fr b v))
      else if t = SENDACK then Some (\<lambda>fr b v. mapR FSendack (decodeSendack fr b v))
      else if t = RECV then Some (\<lambda>fr b v. mapR FRecv (decodeRecv fr b v))
      else if t = RECVACK then Some (\<lambda>fr b v. mapR FRecvack (decodeRecvack fr b v))
      else if t = DISCONNECT then Some (\<lambda>fr b v. mapR FDisconnect (decodeDisConnect fr b v))
      else if t = SUB then Some (\<lambda>fr b v. mapR FSub (decodeSub fr b v))
      else if t = SUBACK then Some (\<lambda>fr b v. mapR FSuback (decodeSuback fr b v))
      else None)"

abbreviation (input) MaxRemaingLength :: u32 where "MaxRemaingLength \<equiv> 1048576"

abbreviation (input) LatestVersion :: u8 where "LatestVersion \<equiv> 3"

text \<open>\<open>data[0]\<close> panics on an empty slice; a size field cut short gives the zero framer.\<close>

definition decodeFramer :: "bytes \<Rightarrow> (framer \<times> nat) outcome" where
  "decodeFramer data =
     (case data of [] \<Rightarrow> Panic
      | typeAndFlags # tail \<Rightarrow>
        let p = FramerFromUint8 typeAndFlags in
        if FrameType p \<noteq> PING \<and> FrameType p \<noteq> PONG then
          case decodeLength tail of
            Ret (n, remainingLengthLength) \<Rightarrow>
              Ret (p\<lparr>RemainingLength := n, FrameSize := word_of_nat (length data)\<rparr>,
                   remainingLengthLength)
          | Fail err \<Rightarrow> if err = ErrDecodeLength then Ret (empty_framer, 0) else Fail err
          | Panic \<Rightarrow> Panic
        else Ret (p\<lparr>FrameSize := word_of_nat (length data)\<rparr>, 0))"

text \<open>The result is the frame, \<open>None\<close> for a nil one, and the number of bytes consumed.\<close>

definition DecodeFrame :: "bytes \<Rightarrow> u8 \<Rightarrow> (frame option \<times> nat) outcome" where
  "DecodeFrame data version =
     (case decodeFramer data of
        Panic \<Rightarrow> Panic
      | Fail err \<Rightarrow> Ret (None, 0)
      | Ret (framer, remainingLengthLength) \<Rightarrow>
        let frameType = FrameType framer in
        if frameType = UNKNOWN then Ret (None, 0)
        else if frameType = PING then Ret (Some (FPing framer), 1)
        else if frameType = PONG then Ret (Some (FPong framer), 1)
        else if RemainingLength framer > MaxRemaingLength
        then Fail (ErrMsg ''message exceeds the maximum size'')
        else
          let msgLen = unat (RemainingLength framer) + 1 + remainingLengthLength in
          if length data < msgLen then Ret (None, 0)
          else
            bindR (slice data (1 + remainingLengthLength) msgLen) (\<lambda>body.
            case packetDecodeMap frameType of
              None \<Rightarrow> Fail (ErrMsg ''frame type not supported'')
            | Some decodeFunc \<Rightarrow>
                bindR (wrapR ''decoding the packet failed'' (decodeFunc framer body version))
                  (\<lambda>frame. Ret (Some frame,
                     1 + remainingLengthLength + unat (RemainingLength framer)))))"

definition decodeFramerWithConn :: "bytes \<Rightarrow> (framer \<times> bytes) outcome" where
  "decodeFramerWithConn conn =
     bindR (ReadFull 1 conn) (\<lambda>(b, conn).
       let p = FramerFromUint8 (b ! 0) in
       if FrameType p \<noteq> PING \<and> FrameType p \<noteq> PONG
       then let (n, conn) = decodeLengthWithConn conn in Ret (p\<lparr>RemainingLength := n\<rparr>, conn)
       else Ret (p, conn))"

definition DecodePacketWithConn :: "bytes \<Rightarrow> u8 \<Rightarrow> (frame \<times> bytes) outcome" where
  "DecodePacketWithConn conn version =
     bindR (decodeFramerWithConn conn) (\<lambda>(framer, conn).
       if FrameType framer = PING then Ret (FPing empty_framer, conn)
       else if FrameType framer = PONG then Ret (FPong empty_framer, conn)
       else if RemainingLength framer > MaxRemaingLength
       then Fail (ErrMsg ''message exceeds the maximum size'')
       else
         bindR (ReadFull (unat (RemainingLength framer)) conn) (\<lambda>(body, conn).
         case packetDecodeMap (FrameType framer) of
           None \<Rightarrow> Fail (ErrMsg ''frame type not supported'')
         | Some decodeFunc \<Rightarrow>
             bindR (wrapR ''decoding the packet failed'' (decodeFunc framer body version))
               (\<lambda>frame. Ret (frame, conn))))"

section \<open>The size field round trip\<close>

lemma encodeVariable_loop_eq: "encodeVariable_loop ret sz = ret @ encodeVariable2 sz"
proof (induction ret sz rule: encodeVariable_loop.induct)
  case (1 ret sz)
  then show ?case
    by (subst encodeVariable_loop.simps, subst encodeVariable2.simps)
      (auto simp: Let_def WriteByte_def)
qed

lemma encodeVariable_eq: "encodeVariable sz = encodeVariable2 sz"
  by (simp add: encodeVariable_def encodeVariable_loop_eq)

lemma encodeVariable2_0 [simp]: "encodeVariable2 0 = []"
  by (subst encodeVariable2.simps) simp

lemma encodeVariable2_pos:
  "n > 0 \<Longrightarrow> encodeVariable2 n =
     (if n div 128 > 0 then [ucast (n mod 128) OR 128] else [ucast (n mod 128)]) @ encodeVariable2 (n div 128)"
  by (subst encodeVariable2.simps) (simp add: Let_def WriteByte_def)

lemma mod_128: "(n :: u32) mod 128 = take_bit 7 n"
  by (simp add: take_bit_eq_mod)

lemma div_128: "(n :: u32) div 128 = drop_bit 7 n"
  by (simp add: drop_bit_eq_div)

lemma mask_7: "(127 :: 'a::len word) = mask 7"
  by (simp add: mask_eq_exp_minus_1)

lemma bit_128: "bit (128 :: 'a::len word) k \<longleftrightarrow> k = 7 \<and> 7 < LENGTH('a)"
proof -
  have eq: "(128 :: 'a word) = 2 ^ 7" by simp
  show ?thesis unfolding eq bit_exp_iff by auto
qed

lemma bit_128_int: "bit (128 :: int) k \<longleftrightarrow> k = 7"
proof -
  have eq: "(128 :: int) = 2 ^ 7" by simp
  show ?thesis unfolding eq bit_exp_iff by auto
qed

lemma digit_value:
  "ucast ((ucast (n mod 128) OR 128 :: byte) AND 127) = (n mod 128 :: u32)"
  "ucast ((ucast (n mod 128) :: byte) AND 127) = (n mod 128 :: u32)"
  unfolding mod_128 mask_7
  by (rule bit_word_eqI; auto simp: bit_simps bit_128 bit_128_int)+

lemma digit_continues:
  "(ucast (n mod 128 :: u32) OR 128 :: byte) AND 128 \<noteq> 0"
  "(ucast (n mod 128 :: u32) :: byte) AND 128 = 0"
proof -
  have "bit ((ucast (n mod 128 :: u32) OR 128 :: byte) AND 128) 7"
    by (simp add: bit_and_iff bit_or_iff bit_128)
  then show "(ucast (n mod 128 :: u32) OR 128 :: byte) AND 128 \<noteq> 0"
    by (metis bit_0_eq bot_apply bot_bool_def)
  show "(ucast (n mod 128 :: u32) :: byte) AND 128 = 0"
    unfolding mod_128 by (rule bit_word_eqI) (auto simp: bit_simps bit_128 bit_128_int)
qed

lemma push_bit_digits: "push_bit m (n mod 128) OR push_bit (m + 7) (n div 128) = push_bit m (n :: u32)"
proof -
  have "k - m < 7 \<or> 7 + (k - (m + 7)) = k - m" for k
    by arith
  then show ?thesis
    unfolding mod_128 div_128 by (intro bit_word_eqI) (auto simp: bit_simps, metis)
qed

lemma encodeVariable2_last: "n > 0 \<Longrightarrow> n div 128 = 0 \<Longrightarrow> encodeVariable2 n = [ucast (n mod 128)]"
  by (simp add: encodeVariable2_pos)

lemma encodeVariable2_more:
  "n div 128 > 0 \<Longrightarrow> encodeVariable2 n = (ucast (n mod 128) OR 128) # encodeVariable2 (n div 128)"
  by (cases "n > 0") (simp_all add: encodeVariable2_pos word_greater_zero_iff)

lemma encodeVariable2_induct [consumes 1, case_names last more]:
  assumes "n > 0"
    and last: "\<And>n. n > 0 \<Longrightarrow> n div 128 = 0 \<Longrightarrow> encodeVariable2 n = [ucast (n mod 128)] \<Longrightarrow> P n"
    and more: "\<And>n. n div 128 > 0 \<Longrightarrow>
      encodeVariable2 n = (ucast (n mod 128) OR 128) # encodeVariable2 (n div 128) \<Longrightarrow>
      P (n div 128) \<Longrightarrow> P n"
  shows "P n"
  using assms(1)
proof (induction n rule: measure_induct_rule [of unat])
  case (less n)
  show ?case
  proof (cases "n div 128 > 0")
    case True
    have "unat (n div 128) < unat n"
      using less.prems by (simp add: unat_div word_less_nat_alt)
    from less.IH [OF this True] show ?thesis
      by (rule more [OF True encodeVariable2_more [OF True]])
  next
    case False
    then have "n div 128 = 0" by (simp only: word_greater_zero_iff not_not)
    from last [OF less.prems this encodeVariable2_last [OF less.prems this]] show ?thesis .
  qed
qed

text \<open>Four bytes hold 28 bits: with \<open>k\<close> bytes read, what is left of the size has \<open>28 - 7 * k\<close>.\<close>

lemma more_digits:
  assumes "unat (n :: u32) < 128 ^ (4 - k)" and "n div 128 > 0" and "k < 4"
  shows "unat (n div 128) < 128 ^ (4 - Suc k)" and "Suc k < 4"
proof -
  from assms(3) have exp: "4 - k = Suc (4 - Suc k)" by simp
  from assms(1) have "unat n div 128 < 128 ^ (4 - Suc k)"
    unfolding exp by (simp add: less_mult_imp_div_less mult.commute)
  then show *: "unat (n div 128) < 128 ^ (4 - Suc k)"
    by (simp add: unat_div)
  from assms(2) have "unat (n div 128) \<noteq> 0"
    by (simp add: word_greater_zero_iff unat_eq_0)
  with * assms(3) show "Suc k < 4"
    by (cases "k = 3") auto
qed

lemma decodeLength_loop_end: "m < 27 \<Longrightarrow> decodeLength_loop data r m (length data) = Fail ErrDecodeLength"
  by (subst decodeLength_loop.simps) simp

lemma decodeLength_loop_last:
  assumes "m < 27"
  shows "decodeLength_loop (pre @ ucast (n mod 128 :: u32) # rest) r m (length pre) =
    Ret (r OR push_bit m (n mod 128), length pre + 1)"
  by (subst decodeLength_loop.simps)
    (simp only: assms nth_middle Let_def digit_value digit_continues length_append list.size
      if_True if_False not_le refl, simp)

lemma decodeLength_loop_more:
  assumes "m < 27"
  shows "decodeLength_loop (pre @ (ucast (n mod 128 :: u32) OR 128) # rest) r m (length pre) =
    decodeLength_loop ((pre @ [ucast (n mod 128) OR 128]) @ rest) (r OR push_bit m (n mod 128)) (m + 7)
      (length (pre @ [ucast (n mod 128 :: u32) OR 128]))"
  by (subst decodeLength_loop.simps)
    (simp only: assms nth_middle Let_def digit_value digit_continues length_append list.size
      if_True if_False not_le refl append.simps append_assoc, simp)

lemma decodeLength_loop_read:
  assumes "n > 0" and "unat n < 128 ^ (4 - k)" and "k < 4"
  shows "decodeLength_loop (pre @ encodeVariable2 n @ rest) r (7 * k) (length pre) =
    Ret (r OR push_bit (7 * k) n, length pre + length (encodeVariable2 n))"
  using assms
proof (induction n arbitrary: k pre r rule: encodeVariable2_induct)
  case (last n)
  then have "n mod 128 = n"
    using div_mult_mod_eq [of n 128] by simp
  with decodeLength_loop_last [of "7 * k" pre n rest r] last show ?case
    by simp
next
  case (more n)
  note step = more_digits [OF more.prems(1) more.hyps(1) more.prems(2)]
  have "r OR push_bit (7 * k) (n mod 128) OR push_bit (7 * Suc k) (n div 128) = r OR push_bit (7 * k) n"
    using push_bit_digits [of "7 * k" n] by (simp add: or.assoc add.commute)
  with more.IH [OF step, of "pre @ [ucast (n mod 128) OR 128]" "r OR push_bit (7 * k) (n mod 128)"]
    more.prems decodeLength_loop_more [of "7 * k" pre n "encodeVariable2 (n div 128) @ rest" r]
  show ?case
    unfolding more.hyps(2) by (simp add: add.commute or.assoc)
qed

text \<open>The size field round trip: every size below \<open>2 ^ 28\<close> but zero, whose field is empty.\<close>

lemma decodeLength_encodeVariable2:
  assumes "n > 0" and "unat n < 2 ^ 28"
  shows "decodeLength (encodeVariable2 n @ rest) = Ret (n, length (encodeVariable2 n))"
  using decodeLength_loop_read [OF assms(1), of 0 "[]" rest 0] assms(2)
  by (simp add: decodeLength_def)

lemma decodeLength_loop_cut:
  assumes "n > 0" and "unat n < 128 ^ (4 - k)" and "k < 4" and "j < length (encodeVariable2 n)"
  shows "decodeLength_loop (pre @ take j (encodeVariable2 n)) r (7 * k) (length pre) = Fail ErrDecodeLength"
  using assms
proof (induction n arbitrary: j k pre r rule: encodeVariable2_induct)
  case (last n)
  then show ?case
    by (simp add: decodeLength_loop_end)
next
  case (more n)
  show ?case
  proof (cases j)
    case 0
    with more show ?thesis
      by (simp add: decodeLength_loop_end)
  next
    case (Suc i)
    with more.hyps more.prems have "i < length (encodeVariable2 (n div 128))" by simp
    note step = more_digits [OF more.prems(1) more.hyps(1) more.prems(2)] this
    from more.IH [OF step, of "pre @ [ucast (n mod 128) OR 128]" "r OR push_bit (7 * k) (n mod 128)"]
      more.prems decodeLength_loop_more [of "7 * k" pre n "take i (encodeVariable2 (n div 128))" r]
    show ?thesis
      unfolding more.hyps(2) Suc by (simp add: add.commute)
  qed
qed

lemma decodeLength_cut:
  assumes "n > 0" and "unat n < 2 ^ 28" and "j < length (encodeVariable2 n)"
  shows "decodeLength (take j (encodeVariable2 n)) = Fail ErrDecodeLength"
  using decodeLength_loop_cut [OF assms(1), of 0 j "[]" 0] assms(2,3)
  by (simp add: decodeLength_def)

lemma decodeLength_errors: "decodeLength data = Fail e \<Longrightarrow> e = ErrDecodeLength"
  and decodeLength_no_panic: "decodeLength data \<noteq> Panic"
proof -
  have "decodeLength_loop data r m k = Fail e \<longrightarrow> e = ErrDecodeLength" for r m k
    by (induction data r m k rule: decodeLength_loop.induct)
      (subst decodeLength_loop.simps, auto simp: Let_def)
  then show "decodeLength data = Fail e \<Longrightarrow> e = ErrDecodeLength"
    by (auto simp: decodeLength_def)
  have "decodeLength_loop data r m k \<noteq> Panic" for r m k
    by (induction data r m k rule: decodeLength_loop.induct)
      (subst decodeLength_loop.simps, auto simp: Let_def)
  then show "decodeLength data \<noteq> Panic"
    by (auto simp: decodeLength_def)
qed

lemma decodeLengthWithConn_loop_last:
  assumes "m < 27"
  shows "decodeLengthWithConn_loop (ucast (n mod 128 :: u32) # rest) r m = (r OR push_bit m (n mod 128), rest)"
  by (subst decodeLengthWithConn_loop.simps)
    (simp only: assms Let_def list.case prod.case digit_value digit_continues if_True if_False refl)

lemma decodeLengthWithConn_loop_more:
  assumes "m < 27"
  shows "decodeLengthWithConn_loop ((ucast (n mod 128 :: u32) OR 128) # rest) r m =
    decodeLengthWithConn_loop rest (r OR push_bit m (n mod 128)) (m + 7)"
  by (subst decodeLengthWithConn_loop.simps)
    (simp only: assms Let_def list.case prod.case digit_value digit_continues if_True if_False refl)

lemma decodeLengthWithConn_loop_read:
  assumes "n > 0" and "unat n < 128 ^ (4 - k)" and "k < 4"
  shows "decodeLengthWithConn_loop (encodeVariable2 n @ rest) r (7 * k) = (r OR push_bit (7 * k) n, rest)"
  using assms
proof (induction n arbitrary: k r rule: encodeVariable2_induct)
  case (last n)
  then have "n mod 128 = n"
    using div_mult_mod_eq [of n 128] by simp
  with decodeLengthWithConn_loop_last [of "7 * k" n rest r] last show ?case
    by simp
next
  case (more n)
  note step = more_digits [OF more.prems(1) more.hyps(1) more.prems(2)]
  from more.IH [OF step, of "r OR push_bit (7 * k) (n mod 128)"] more.prems
    decodeLengthWithConn_loop_more [of "7 * k" n "encodeVariable2 (n div 128) @ rest" r]
    push_bit_digits [of "7 * k" n]
  show ?case
    unfolding more.hyps(2) by (simp add: add.commute or.assoc)
qed

lemma decodeLengthWithConn_encodeVariable2:
  assumes "n > 0" and "unat n < 2 ^ 28"
  shows "decodeLengthWithConn (encodeVariable2 n @ rest) = (n, rest)"
  using decodeLengthWithConn_loop_read [OF assms(1), of 0 rest 0] assms(2)
  by (simp add: decodeLengthWithConn_def)

section \<open>Frames round trip\<close>

lemma FrameType_header [simp]: "FrameType (header_view t f) = t"
  by (simp add: header_view_def)

lemma decodeFramer_header:
  assumes "t < 16" and "t \<noteq> PING" and "t \<noteq> PONG" and "n > 0" and "unat n < 2 ^ 28"
  shows "decodeFramer (ToFixHeaderUint8 t f # encodeVariable2 n @ tail) =
    Ret (wire_framer t f n (word_of_nat (1 + length (encodeVariable2 n) + length tail)),
         length (encodeVariable2 n))"
  using assms
  by (simp add: decodeFramer_def header_roundtrip decodeLength_encodeVariable2 wire_framer_def Let_def)

lemma DecodeFrame_header:
  assumes "t < 16" and "t \<noteq> UNKNOWN" and "t \<noteq> PING" and "t \<noteq> PONG"
    and "n > 0" and "n \<le> MaxRemaingLength" and "packetDecodeMap t = Some d"
  shows "DecodeFrame (ToFixHeaderUint8 t f # encodeVariable2 n @ tail) v =
    (if length tail < unat n then Ret (None, 0)
     else bindR (wrapR ''decoding the packet failed''
            (d (wire_framer t f n (word_of_nat (1 + length (encodeVariable2 n) + length tail)))
               (take (unat n) tail) v))
          (\<lambda>frame. Ret (Some frame, 1 + length (encodeVariable2 n) + unat n)))"
proof -
  from assms(6) have "unat n < 2 ^ 28"
    by (simp add: word_le_nat_alt)
  moreover from assms(6) have "(n > MaxRemaingLength) = False" by (simp only: not_less [symmetric] not_True_eq_False simp_thms)
  ultimately show ?thesis
    using decodeFramer_header [OF assms(1,3,4,5), of f tail] assms(1-5,7)
    by (simp add: DecodeFrame_def wire_framer_def Let_def slice_def)
qed

locale framed_codec = packet_codec +
  fixes inj :: "'a \<Rightarrow> frame"
  assumes ftype_ok: "ftype < 16" "ftype \<noteq> UNKNOWN" "ftype \<noteq> PING" "ftype \<noteq> PONG"
    and in_map: "packetDecodeMap ftype = Some (\<lambda>fr b v. mapR inj (decode fr b v))"
    and encoded: "EncodeFrame (inj p) v = encodeFrame (inj p) (encodeSize p v) @ encode p v"
    and inj_type: "GetFrameType (inj p) = ftype" "frame_framer (inj p) = framer_of p"
    and size_pos: "0 < encodeSize p v"
begin

lemma encoded_bytes:
  "EncodeFrame (inj p) v = ToFixHeaderUint8 ftype (framer_of p) #
     encodeVariable2 (word_of_nat (encodeSize p v)) @ encode p v"
  by (simp add: encoded encodeFrame_def inj_type WriteByte_def)

lemma unat_size: "encodeSize p v \<le> 1048576 \<Longrightarrow> unat (word_of_nat (encodeSize p v) :: u32) = encodeSize p v"
  by (simp add: unat_of_nat take_bit_nat_eq_self)

lemma size_word:
  assumes "encodeSize p v \<le> 1048576"
  shows "(word_of_nat (encodeSize p v) :: u32) > 0" and "word_of_nat (encodeSize p v) \<le> MaxRemaingLength"
  using unat_size [OF assms] size_pos [of p v] assms
  by (simp_all only: word_less_nat_alt word_le_nat_alt) (simp_all add: unat_numeral)

text \<open>The shape of an encoded frame that the stream cutters rely on.\<close>

lemma encoded_shape:
  assumes "encodeSize p v \<le> 1048576"
  obtains b n body where "EncodeFrame (inj p) v = b # encodeVariable2 n @ body"
    and "drop_bit 4 b = ftype" and "n > 0" and "unat n < 2 ^ 28" and "length body = unat n"
proof
  show "EncodeFrame (inj p) v = ToFixHeaderUint8 ftype (framer_of p) #
      encodeVariable2 (word_of_nat (encodeSize p v)) @ encode p v"
    by (rule encoded_bytes)
qed (use assms size_word unat_size in \<open>simp_all add: drop_4_header ftype_ok size_exact\<close>)

lemma frame_roundtrip:
  assumes "fits p" and "encodeSize p v \<le> 1048576"
  shows "DecodeFrame (EncodeFrame (inj p) v @ rest) v =
    Ret (Some (inj (view (wire_framer ftype (framer_of p) (word_of_nat (encodeSize p v))
                      (word_of_nat (length (EncodeFrame (inj p) v) + length rest))) p v)),
         length (EncodeFrame (inj p) v))"
  using DecodeFrame_header [OF ftype_ok size_word [OF assms(2)] in_map, of "framer_of p" "encode p v @ rest" v]
    decode_encode [OF assms(1)] unat_size [OF assms(2)]
  by (simp add: encoded_bytes size_exact mapR_def add.assoc)

text \<open>Read from a connection, the frame comes back with no frame size, and the rest stays there.\<close>

lemma conn_roundtrip:
  assumes "fits p" and "encodeSize p v \<le> 1048576"
  shows "DecodePacketWithConn (EncodeFrame (inj p) v @ rest) v =
    Ret (inj (view (wire_framer ftype (framer_of p) (word_of_nat (encodeSize p v)) 0) p v), rest)"
proof -
  let ?n = "word_of_nat (encodeSize p v) :: u32"
  have "unat ?n < 2 ^ 28" using unat_size [OF assms(2)] assms(2) by simp
  note len = decodeLengthWithConn_encodeVariable2 [OF size_word(1) [OF assms(2)] this]
  have "FrameSize (header_view ftype (framer_of p)) = 0"
    by (simp add: header_view_def empty_framer_def)
  then have "(header_view ftype (framer_of p))\<lparr>RemainingLength := ?n\<rparr> = wire_framer ftype (framer_of p) ?n 0"
    by (simp add: wire_framer_def)
  then have "decodeFramerWithConn (EncodeFrame (inj p) v @ rest) =
      Ret (wire_framer ftype (framer_of p) ?n 0, encode p v @ rest)"
    using ftype_ok len
    by (simp add: decodeFramerWithConn_def encoded_bytes ReadFull_def header_roundtrip Let_def)
  moreover have "(?n > MaxRemaingLength) = False"
    using size_word(2) [OF assms(2)] by (simp only: not_less [symmetric] not_True_eq_False simp_thms)
  ultimately show ?thesis
    using ftype_ok in_map unat_size [OF assms(2)] decode_encode [OF assms(1)]
    by (simp add: DecodePacketWithConn_def wire_framer_def ReadFull_def size_exact mapR_def)
qed

text \<open>A frame cut short is no frame yet: the decoder asks for more bytes.\<close>

lemma frame_incomplete:
  assumes "encodeSize p v \<le> 1048576" and "0 < k" and "k < length (EncodeFrame (inj p) v)"
  shows "DecodeFrame (take k (EncodeFrame (inj p) v)) v = Ret (None, 0)"
proof -
  let ?n = "word_of_nat (encodeSize p v) :: u32"
  from assms(2) obtain i where k: "k = Suc i" by (cases k) auto
  show ?thesis
  proof (cases "i < length (encodeVariable2 ?n)")
    case True
    have "unat ?n < 2 ^ 28" using unat_size [OF assms(1)] assms(1) by simp
    from decodeLength_cut [OF size_word(1) [OF assms(1)] this True] True show ?thesis
      using ftype_ok header_roundtrip [OF ftype_ok(1), of "framer_of p"]
      by (simp add: k encoded_bytes DecodeFrame_def decodeFramer_def empty_framer_def Let_def)
  next
    case False
    with assms(3) have "i - length (encodeVariable2 ?n) < encodeSize p v"
      by (simp add: k encoded_bytes size_exact)
    with DecodeFrame_header [OF ftype_ok size_word [OF assms(1)] in_map, of "framer_of p"
        "take (i - length (encodeVariable2 ?n)) (encode p v)" v] False unat_size [OF assms(1)]
    show ?thesis
      by (simp add: k encoded_bytes size_exact)
  qed
qed

end

lemmas framed_simps = packetDecodeMap_def

interpretation fconnect: framed_codec CONNECT con_Framer encodeConnect encodeConnectSize
    decodeConnect Connect_view Connect_fits FConnect
  by unfold_locales (auto simp: framed_simps encodeConnectSize_def)

interpretation fconnack: framed_codec CONNACK cak_Framer encodeConnack encodeConnackSize
    decodeConnack Connack_view Connack_fits FConnack
  by unfold_locales (auto simp: framed_simps encodeConnackSize_def)

interpretation fsend: framed_codec SEND snd_Framer encodeSend encodeSendSize
    decodeSend Send_view Send_fits FSend
  by unfold_locales (auto simp: framed_simps encodeSendSize_def)

interpretation fsendack: framed_codec SENDACK sak_Framer encodeSendack encodeSendackSize
    decodeSendack Sendack_view Sendack_fits FSendack
  by unfold_locales (auto simp: framed_simps encodeSendackSize_def)

interpretation frecv: framed_codec RECV rcv_Framer encodeRecv encodeRecvSize
    decodeRecv Recv_view Recv_fits FRecv
  by unfold_locales (auto simp: framed_simps encodeRecvSize_def)

interpretation frecvack: framed_codec RECVACK rak_Framer encodeRecvack encodeRecvackSize
    decodeRecvack Recvack_view Recvack_fits FRecvack
  by unfold_locales (auto simp: framed_simps encodeRecvackSize_def)

interpretation fdisconnect: framed_codec DISCONNECT dis_Framer encodeDisConnect encodeDisConnectSize
    decodeDisConnect Disconnect_view Disconnect_fits FDisconnect
  by unfold_locales (auto simp: framed_simps encodeDisConnectSize_def)

interpretation fsub: framed_codec SUB sub_Framer encodeSub encodeSubSize
    decodeSub Sub_view Sub_fits FSub
  by unfold_locales (auto simp: framed_simps encodeSubSize_def)

interpretation fsuback: framed_codec SUBACK suk_Framer encodeSuback encodeSubackSize
    decodeSuback Suback_view Suback_fits FSuback
  by unfold_locales (auto simp: framed_simps encodeSubackSize_def)

section \<open>The contract of the framing layer\<close>

fun frame_fits :: "frame \<Rightarrow> bool" where
  "frame_fits (FConnect p) = Connect_fits p"
| "frame_fits (FConnack p) = Connack_fits p"
| "frame_fits (FSend p) = Send_fits p"
| "frame_fits (FSendack p) = Sendack_fits p"
| "frame_fits (FRecv p) = Recv_fits p"
| "frame_fits (FRecvack p) = Recvack_fits p"
| "frame_fits (FPing f) = True"
| "frame_fits (FPong f) = True"
| "frame_fits (FDisconnect p) = Disconnect_fits p"
| "frame_fits (FSub p) = Sub_fits p"
| "frame_fits (FSuback p) = Suback_fits p"

fun body_size :: "frame \<Rightarrow> u8 \<Rightarrow> nat" where
  "body_size (FConnect p) v = encodeConnectSize p v"
| "body_size (FConnack p) v = encodeConnackSize p v"
| "body_size (FSend p) v = encodeSendSize p v"
| "body_size (FSendack p) v = encodeSendackSize p v"
| "body_size (FRecv p) v = encodeRecvSize p v"
| "body_size (FRecvack p) v = encodeRecvackSize p v"
| "body_size (FPing f) v = 0"
| "body_size (FPong f) v = 0"
| "body_size (FDisconnect p) v = encodeDisConnectSize p v"
| "body_size (FSub p) v = encodeSubSize p v"
| "body_size (FSuback p) v = encodeSubackSize p v"

text \<open>A frame that the encoder and the decoder both accept at version \<open>v\<close>.\<close>

definition wellformed :: "u8 \<Rightarrow> frame \<Rightarrow> bool" where
  "wellformed v f \<longleftrightarrow> frame_fits f \<and> body_size f v \<le> 1048576"

text \<open>
  What arrives of a frame: its framer as the header byte carries it (nothing but the type for
  PING and PONG) with the sizes the decoder fills in, and its packet as version \<open>v\<close> carries it.
\<close>

definition arrived_framer :: "frame \<Rightarrow> u8 \<Rightarrow> nat \<Rightarrow> framer" where
  "arrived_framer f v len =
     wire_framer (GetFrameType f)
       (if GetFrameType f = PING \<or> GetFrameType f = PONG then empty_framer else frame_framer f)
       (word_of_nat (body_size f v)) (word_of_nat len)"

fun with_framer :: "framer \<Rightarrow> frame \<Rightarrow> u8 \<Rightarrow> frame" where
  "with_framer fr (FConnect p) v = FConnect (Connect_view fr p v)"
| "with_framer fr (FConnack p) v = FConnack (Connack_view fr p v)"
| "with_framer fr (FSend p) v = FSend (Send_view fr p v)"
| "with_framer fr (FSendack p) v = FSendack (Sendack_view fr p v)"
| "with_framer fr (FRecv p) v = FRecv (Recv_view fr p v)"
| "with_framer fr (FRecvack p) v = FRecvack (Recvack_view fr p v)"
| "with_framer fr (FPing f) v = FPing fr"
| "with_framer fr (FPong f) v = FPong fr"
| "with_framer fr (FDisconnect p) v = FDisconnect (Disconnect_view fr p v)"
| "with_framer fr (FSub p) v = FSub (Sub_view fr p v)"
| "with_framer fr (FSuback p) v = FSuback (Suback_view fr p v)"

definition arrived :: "frame \<Rightarrow> u8 \<Rightarrow> nat \<Rightarrow> frame" where
  "arrived f v len = with_framer (arrived_framer f v len) f v"

lemmas framed_roundtrips =
  fconnect.frame_roundtrip fconnack.frame_roundtrip fsend.frame_roundtrip fsendack.frame_roundtrip
  frecv.frame_roundtrip frecvack.frame_roundtrip fdisconnect.frame_roundtrip fsub.frame_roundtrip
  fsuback.frame_roundtrip

lemmas framed_incomplete =
  fconnect.frame_incomplete fconnack.frame_incomplete fsend.frame_incomplete
  fsendack.frame_incomplete frecv.frame_incomplete frecvack.frame_incomplete
  fdisconnect.frame_incomplete fsub.frame_incomplete fsuback.frame_incomplete

lemmas framed_conn =
  fconnect.conn_roundtrip fconnack.conn_roundtrip fsend.conn_roundtrip fsendack.conn_roundtrip
  frecv.conn_roundtrip frecvack.conn_roundtrip fdisconnect.conn_roundtrip fsub.conn_roundtrip
  fsuback.conn_roundtrip

lemmas framed_shapes =
  fconnect.encoded_shape fconnack.encoded_shape fsend.encoded_shape fsendack.encoded_shape
  frecv.encoded_shape frecvack.encoded_shape fdisconnect.encoded_shape fsub.encoded_shape
  fsuback.encoded_shape

lemma ping_header: "FramerFromUint8 112 = header_view PING empty_framer"
  "FramerFromUint8 128 = header_view PONG empty_framer"
  using header_roundtrip [of PING empty_framer] header_roundtrip [of PONG empty_framer]
  by (simp_all add: ToFixHeaderUint8_def empty_framer_def encodeBool_def)

lemma EncodeFrame_shape:
  assumes "wellformed v f" and "GetFrameType f \<noteq> PING" and "GetFrameType f \<noteq> PONG"
  obtains b n body where "EncodeFrame f v = b # encodeVariable2 n @ body"
    and "drop_bit 4 b = GetFrameType f" and "n > 0" and "unat n < 2 ^ 28" and "length body = unat n"
proof -
  have "\<exists>b n body. EncodeFrame f v = b # encodeVariable2 n @ body \<and> drop_bit 4 b = GetFrameType f \<and>
      n > 0 \<and> unat n < 2 ^ 28 \<and> length body = unat n"
    using assms unfolding wellformed_def
    by (cases f; simp only: body_size.simps GetFrameType.simps simp_thms)
      (erule conjE, erule framed_shapes, blast)+
  with that show thesis by blast
qed

lemma DecodeFrame_EncodeFrame:
  assumes "wellformed v f"
  shows "DecodeFrame (EncodeFrame f v @ rest) v =
    Ret (Some (arrived f v (length (EncodeFrame f v) + length rest)), length (EncodeFrame f v))"
proof (cases "\<exists>h. f = FPing h \<or> f = FPong h")
  case True
  then show ?thesis
    by (auto simp: DecodeFrame_def decodeFramer_def ping_header arrived_def arrived_framer_def
        wire_framer_def Let_def header_view_def empty_framer_def)
next
  case False
  with assms show ?thesis
    by (cases f) (simp_all add: wellformed_def arrived_def arrived_framer_def framed_roundtrips
        del: EncodeFrame.simps)
qed

lemma DecodeFrame_incomplete:
  assumes "wellformed v f" and "0 < k" and "k < length (EncodeFrame f v)"
  shows "DecodeFrame (take k (EncodeFrame f v)) v = Ret (None, 0)"
proof (cases "\<exists>h. f = FPing h \<or> f = FPong h")
  case True
  with assms(2,3) show ?thesis by auto
next
  case False
  with assms show ?thesis
    by (cases f) (simp_all add: wellformed_def framed_incomplete del: EncodeFrame.simps)
qed

text \<open>A connection delivers the same frame, with no frame size, and a bare PING or PONG.\<close>

definition arrived_conn :: "frame \<Rightarrow> u8 \<Rightarrow> frame" where
  "arrived_conn f v =
     (if GetFrameType f = PING then FPing empty_framer
      else if GetFrameType f = PONG then FPong empty_framer
      else arrived f v 0)"

lemma DecodePacketWithConn_EncodeFrame:
  assumes "wellformed v f"
  shows "DecodePacketWithConn (EncodeFrame f v @ rest) v = Ret (arrived_conn f v, rest)"
proof (cases "\<exists>h. f = FPing h \<or> f = FPong h")
  case True
  then show ?thesis
    by (auto simp: DecodePacketWithConn_def decodeFramerWithConn_def ReadFull_def ping_header
        arrived_conn_def Let_def)
next
  case False
  with assms show ?thesis
    by (cases f) (simp_all add: wellformed_def arrived_conn_def arrived_def arrived_framer_def
        framed_conn del: EncodeFrame.simps)
qed

lemma EncodeFrame_not_Nil [simp]: "EncodeFrame f v \<noteq> []"
  by (cases f) (simp_all add: encodeFrame_def WriteByte_def)

lemma length_EncodeFrame:
  "length (EncodeFrame f v) =
     (if GetFrameType f = PING \<or> GetFrameType f = PONG then 1
      else 1 + length (encodeVariable2 (word_of_nat (body_size f v))) + body_size f v)"
  by (cases f) (simp_all add: encodeFrame_def connect.size_exact connack.size_exact send.size_exact
      sendack.size_exact recv.size_exact recvack.size_exact disconnect.size_exact
      subscribe.size_exact suback.size_exact)

text \<open>What is consumed lies inside the data, and is zero exactly when there is no frame.\<close>

lemma DecodeFrame_consumed:
  assumes "DecodeFrame data v = Ret (r, n)"
  shows "n \<le> length data" and "r = None \<longleftrightarrow> n = 0"
proof -
  from assms have "data \<noteq> []"
    by (auto simp: DecodeFrame_def decodeFramer_def)
  then have len: "1 \<le> length data"
    by (cases data) auto
  from assms show "n \<le> length data"
    using len
    by (auto simp: DecodeFrame_def Let_def bindR_eq_Ret not_less
        split: outcome.splits if_splits option.splits prod.splits)
  from assms show "r = None \<longleftrightarrow> n = 0"
    by (auto simp: DecodeFrame_def Let_def bindR_eq_Ret not_less
        split: outcome.splits if_splits option.splits prod.splits)
qed

lemma DecodeFrame_Nil [simp]: "DecodeFrame [] v = Panic"
  by (simp add: DecodeFrame_def decodeFramer_def)

section \<open>Two frames that go wrong\<close>

text \<open>A reason that is too long for the signed length of a string: its decoder panics.\<close>

lemma decodeDisConnect_long:
  assumes "32768 \<le> length (dis_Reason p)" and "length (dis_Reason p) < 65536"
  shows "decodeDisConnect fr (encodeDisConnect p v) v' = Panic"
proof -
  have "dec_uint8 (NewDecoder (encodeDisConnect p v)) =
      Ret (ReasonCode_Byte (dis_ReasonCode p), \<lparr>dec_p = encodeDisConnect p v, dec_offset = 1\<rparr>)"
    using readsD [OF reads_uint8, of "[]" "ReasonCode_Byte (dis_ReasonCode p)" "WriteString (dis_Reason p)"]
    by (simp add: encodeDisConnect_def NewDecoder_def)
  moreover have "dec_string \<lparr>dec_p = encodeDisConnect p v, dec_offset = 1\<rparr> = Panic"
    using dec_string_long_panics [OF assms, of "WriteUint8 (ReasonCode_Byte (dis_ReasonCode p))" "[]"]
    by (simp add: encodeDisConnect_def)
  ultimately show ?thesis
    by (simp add: decodeDisConnect_def run_reader_def field_def andThen_def)
qed

lemma DecodeFrame_long_reason:
  assumes "32768 \<le> length (dis_Reason p)" and "length (dis_Reason p) < 65536"
  shows "DecodeFrame (EncodeFrame (FDisconnect p) v) v = Panic"
proof -
  let ?n = "word_of_nat (encodeDisConnectSize p v) :: u32"
  have size: "encodeDisConnectSize p v = 3 + length (dis_Reason p)" by (simp add: encodeDisConnectSize_def)
  with assms(2) have "encodeDisConnectSize p v < 2 ^ 32" by simp
  then have u: "unat ?n = encodeDisConnectSize p v" by (simp add: unat_of_nat take_bit_nat_eq_self)
  have n: "?n > 0" "?n \<le> MaxRemaingLength"
    using assms u size by (simp_all add: word_less_nat_alt word_le_nat_alt)
  have "length (encodeDisConnect p v) = unat ?n" by (simp add: u disconnect.size_exact)
  moreover have "packetDecodeMap DISCONNECT = Some (\<lambda>fr b v. mapR FDisconnect (decodeDisConnect fr b v))"
    by (simp add: packetDecodeMap_def)
  moreover note DecodeFrame_header [of DISCONNECT ?n _ "dis_Framer p" "encodeDisConnect p v" v, OF _ _ _ _ n]
  ultimately show ?thesis
    using decodeDisConnect_long [OF assms]
    by (simp add: encodeFrame_def mapR_def WriteByte_def)
qed

text \<open>A complete frame of type \<open>UNKNOWN\<close> is answered like an incomplete one.\<close>

lemma DecodeFrame_unknown: "DecodeFrame [0, 1, 170] v = Ret (None, 0)"
proof -
  have "decodeLength [1, 170] = Ret (1, 1)"
    by (simp add: decodeLength_def) (subst decodeLength_loop.simps, simp)
  then show ?thesis
    by (simp add: DecodeFrame_def decodeFramer_def Let_def FramerFromUint8_def)
qed

end
