(* ===== verification/Unpack.thy ===== *)
theory Unpack
  imports Protocol
begin

text \<open>
  Cutting a byte stream into frames: \<open>gnetUnpacket\<close> and \<open>decodeLength\<close> of
  \<^verbatim>\<open>internal/server/dispatch.go\<close>, \<open>parse\<close> and \<open>gnetUnpacket\<close> of
  \<^verbatim>\<open>pkg/client/common.go\<close>, and the frame loop of the client
  (\<open>handlePacketDatas\<close> of \<^verbatim>\<open>pkg/client/client.go\<close>). The lemmas show that the three
  cutters find the same boundary, that they keep whole frames together, and where their size
  field disagrees with the one of the protocol's own decoder.
\<close>

section \<open>The server's size field\<close>

function srv_decodeLength_loop :: "bytes \<Rightarrow> u32 \<Rightarrow> nat \<Rightarrow> nat \<Rightarrow> (u32 \<times> nat) option" where
  "srv_decodeLength_loop data rLength multiplier offset =
     (if multiplier < 27 then
        if offset \<ge> length data then None
        else
          let digit = data ! offset;
              offset = offset + 1;
              rLength = rLength OR push_bit multiplier (ucast (digit AND 127))
          in if digit AND 128 = 0 then Some (rLength, offset)
             else srv_decodeLength_loop data rLength (multiplier + 7) offset
      else Some (rLength, offset))"
  by pat_completeness auto
termination
  by (relation "measure (\<lambda>(_, _, multiplier, _). 27 - multiplier)") auto

declare srv_decodeLength_loop.simps [simp del]

text \<open>The third result of the source, \<open>has\<close>, is whether the result is \<open>Some\<close>.\<close>

definition srv_decodeLength :: "bytes \<Rightarrow> (nat \<times> nat) option" where
  "srv_decodeLength data = map_option (\<lambda>(n, k). (unat n, k)) (srv_decodeLength_loop data 0 0 0)"

text \<open>
  The two size fields agree but for one case: after four bytes that all carry the continuation
  bit the protocol's decoder counts a fifth byte, which it has not read.
\<close>

definition overlong :: "bytes \<Rightarrow> nat \<Rightarrow> bool" where
  "overlong data k \<longleftrightarrow> k = 4 \<and> data ! 3 AND 128 \<noteq> 0"

lemma srv_decodeLength_loop_agrees:
  assumes "off \<le> 4" and "off = 4 \<Longrightarrow> data ! 3 AND 128 \<noteq> 0"
  shows "decodeLength_loop data r (7 * off) off =
    (case srv_decodeLength_loop data r (7 * off) off of
       None \<Rightarrow> Fail ErrDecodeLength
     | Some (n, k) \<Rightarrow> Ret (n, if overlong data k then 5 else k))"
  using assms
proof (induction "4 - off" arbitrary: off r)
  case 0
  then have "off = 4" by simp
  with 0 show ?case
    by (simp add: decodeLength_loop.simps srv_decodeLength_loop.simps overlong_def)
next
  case (Suc m)
  then have off: "off < 4" and m: "m = 4 - (off + 1)" by auto
  show ?case
  proof (cases "off < length data \<and> data ! off AND 128 \<noteq> 0")
    case True
    with off have "off + 1 = 4 \<Longrightarrow> data ! 3 AND 128 \<noteq> 0"
      by (cases "off = 3") auto
    from Suc.hyps(1) [OF m _ this, of "r OR push_bit (7 * off) (ucast (data ! off AND 127))"] off True
    show ?thesis
      by (subst decodeLength_loop.simps, subst srv_decodeLength_loop.simps)
        (simp add: Let_def add.commute)
  next
    case False
    with off show ?thesis
      by (subst decodeLength_loop.simps, subst srv_decodeLength_loop.simps)
        (auto simp: Let_def overlong_def numeral_eq_Suc)
  qed
qed

lemma srv_decodeLength_agrees:
  "decodeLength data =
    (case srv_decodeLength_loop data 0 0 0 of
       None \<Rightarrow> Fail ErrDecodeLength
     | Some (n, k) \<Rightarrow> Ret (n, if overlong data k then 5 else k))"
  using srv_decodeLength_loop_agrees [of 0 data 0] by (simp add: decodeLength_def)

lemma length_encodeVariable2_bound:
  assumes "n > 0" and "unat n < 128 ^ (4 - k)" and "k < 4"
  shows "length (encodeVariable2 n) \<le> 4 - k"
  using assms
proof (induction n arbitrary: k rule: encodeVariable2_induct)
  case (last n)
  then show ?case by simp
next
  case (more n)
  note step = more_digits [OF more.prems(1) more.hyps(1) more.prems(2)]
  from more.IH [OF step] step(2) show ?case
    unfolding more.hyps(2) by simp
qed

lemma srv_decodeLength_read:
  assumes "n > 0" and "unat n < 2 ^ 28"
  shows "srv_decodeLength (encodeVariable2 n @ rest) = Some (unat n, length (encodeVariable2 n))"
  using decodeLength_encodeVariable2 [OF assms, of rest] assms
    length_encodeVariable2_bound [of n 0]
  by (auto simp: srv_decodeLength_agrees srv_decodeLength_def split: option.splits if_splits)

lemma srv_decodeLength_cut:
  assumes "n > 0" and "unat n < 2 ^ 28" and "j < length (encodeVariable2 n)"
  shows "srv_decodeLength (take j (encodeVariable2 n)) = None"
  using decodeLength_cut [OF assms]
  by (auto simp: srv_decodeLength_agrees srv_decodeLength_def split: option.splits)

section \<open>Cutting off the complete frames\<close>

function unpack_loop :: "bytes \<Rightarrow> nat \<Rightarrow> nat" where
  "unpack_loop buff offset =
     (if length buff > offset then
        let packetType = drop_bit 4 (buff ! offset) in
        if packetType = PING \<or> packetType = PONG then unpack_loop buff (offset + 1)
        else case srv_decodeLength (drop (offset + 1) buff) of
               None \<Rightarrow> offset
             | Some (reminLen, readSize) \<Rightarrow>
                 let dataEnd = offset + readSize + reminLen + 1 in
                 if length buff \<ge> dataEnd then unpack_loop buff dataEnd else offset
      else offset)"
  by pat_completeness auto
termination
  by (relation "measure (\<lambda>(buff, offset). length buff - offset)") auto

declare unpack_loop.simps [simp del]

definition gnetUnpacket :: "bytes \<Rightarrow> bytes" where
  "gnetUnpacket buff =
     (if length buff \<le> 0 then []
      else let offset = unpack_loop buff 0 in if offset > 0 then take offset buff else [])"

text \<open>The client's copy returns the rest as well.\<close>

definition cli_gnetUnpacket :: "bytes \<Rightarrow> bytes \<times> bytes" where
  "cli_gnetUnpacket buff =
     (if length buff \<le> 0 then ([], [])
      else let offset = unpack_loop buff 0 in
           if offset > 0 then (take offset buff, drop offset buff) else ([], buff))"

text \<open>\<open>parse\<close> copies the frames as it goes and derives the rest from their length.\<close>

function parse_loop :: "bytes \<Rightarrow> bytes \<Rightarrow> nat \<Rightarrow> bytes" where
  "parse_loop buff packetData offset =
     (if length buff > offset then
        let packetType = drop_bit 4 (buff ! offset) in
        if packetType = PING \<or> packetType = PONG
        then parse_loop buff (packetData @ [buff ! offset]) (offset + 1)
        else case srv_decodeLength (drop (offset + 1) buff) of
               None \<Rightarrow> packetData
             | Some (reminLen, readSize) \<Rightarrow>
                 let dataStart = offset;
                     dataEnd = offset + readSize + reminLen + 1 in
                 if length buff \<ge> dataEnd
                 then parse_loop buff (packetData @ take (dataEnd - dataStart) (drop dataStart buff)) dataEnd
                 else packetData
      else packetData)"
  by pat_completeness auto
termination
  by (relation "measure (\<lambda>(buff, _, offset). length buff - offset)") auto

declare parse_loop.simps [simp del]

definition parse :: "bytes \<Rightarrow> bytes \<times> bytes" where
  "parse buff =
     (if length buff = 0 then ([], [])
      else let packetData = parse_loop buff [] 0 in
           if length packetData > 0 then (packetData, drop (length packetData) buff) else ([], buff))"

section \<open>The three cutters agree\<close>

lemma take_extend: "m \<le> n \<Longrightarrow> take m xs @ take (n - m) (drop m xs) = take n xs"
  by (metis le_add_diff_inverse take_add)

lemma parse_loop_eq:
  assumes "packetData = take offset buff"
  shows "parse_loop buff packetData offset = take (unpack_loop buff offset) buff"
  using assms
proof (induction buff packetData offset rule: parse_loop.induct)
  case (1 buff packetData offset)
  show ?case
  proof (cases "offset < length buff \<and> drop_bit 4 (buff ! offset) \<noteq> PING \<and> drop_bit 4 (buff ! offset) \<noteq> PONG")
    case True
    have "take offset buff @ take (e - offset) (drop offset buff) = take e buff"
      if "e = offset + k + n + 1" for e k n
      using that by (intro take_extend) simp
    with True 1 show ?thesis
      by (subst parse_loop.simps, subst unpack_loop.simps)
        (auto simp only: Let_def if_True if_False simp_thms split: option.splits if_splits)
  next
    case False
    with 1 show ?thesis
      by (subst parse_loop.simps, subst unpack_loop.simps)
        (auto simp: Let_def take_Suc_conv_app_nth)
  qed
qed

lemma unpack_loop_bounds: "offset \<le> length buff \<Longrightarrow> offset \<le> unpack_loop buff offset \<and> unpack_loop buff offset \<le> length buff"
proof (induction buff offset rule: unpack_loop.induct)
  case (1 buff offset)
  show ?case
    by (subst (1 2) unpack_loop.simps) (use 1 in \<open>force simp: Let_def split: option.splits\<close>)
qed

lemma parse_eq_gnetUnpacket: "parse buff = cli_gnetUnpacket buff"
  using unpack_loop_bounds [of 0 buff]
  by (cases "buff = []") (auto simp: parse_def cli_gnetUnpacket_def parse_loop_eq Let_def)

lemma gnetUnpacket_eq: "gnetUnpacket buff = take (unpack_loop buff 0) buff"
  by (auto simp: gnetUnpacket_def Let_def)

lemma cli_gnetUnpacket_eq: "cli_gnetUnpacket buff = (gnetUnpacket buff, drop (length (gnetUnpacket buff)) buff)"
  using unpack_loop_bounds [of 0 buff]
  by (cases "buff = []") (auto simp: cli_gnetUnpacket_def gnetUnpacket_def Let_def)

section \<open>Whole frames stay together\<close>

lemma unpack_loop_shift: "unpack_loop (pre @ buff) (length pre + offset) = length pre + unpack_loop buff offset"
proof (induction buff offset rule: unpack_loop.induct)
  case (1 buff offset)
  show ?case
    by (subst (1 2) unpack_loop.simps)
      (use 1 in \<open>auto simp: Let_def nth_append add.assoc split: option.splits\<close>)
qed

lemma unpack_loop_skip: "length pre \<le> n \<Longrightarrow> n = length pre \<Longrightarrow> unpack_loop (pre @ buff) n = n + unpack_loop buff 0"
  using unpack_loop_shift [of pre buff 0] by simp

lemma unpack_loop_Nil [simp]: "unpack_loop [] 0 = 0"
  by (subst unpack_loop.simps) simp

lemma drop_bit_pings: "drop_bit 4 (112 :: byte) = PING" "drop_bit 4 (128 :: byte) = PONG"
  by simp_all

lemma unpack_loop_frame:
  assumes "wellformed v f"
  shows "unpack_loop (EncodeFrame f v @ rest) 0 = length (EncodeFrame f v) + unpack_loop rest 0"
proof (cases "GetFrameType f = PING \<or> GetFrameType f = PONG")
  case True
  then obtain b where "EncodeFrame f v = [b]" and "drop_bit 4 b = PING \<or> drop_bit 4 b = PONG"
    by (cases f) auto
  then show ?thesis
    using unpack_loop_shift [of "[b]" rest 0] by (subst unpack_loop.simps) (auto simp: Let_def)
next
  case False
  with assms obtain b n body where f: "EncodeFrame f v = b # encodeVariable2 n @ body"
    and "drop_bit 4 b = GetFrameType f" and n: "n > 0" "unat n < 2 ^ 28" and "length body = unat n"
    by (auto elim: EncodeFrame_shape)
  with False srv_decodeLength_read [OF n, of "body @ rest"]
    unpack_loop_shift [of "EncodeFrame f v" rest 0] show ?thesis
    by (subst unpack_loop.simps) (simp add: f Let_def add.commute add.left_commute)
qed

lemma unpack_loop_cut:
  assumes "wellformed v f" and "k < length (EncodeFrame f v)"
  shows "unpack_loop (take k (EncodeFrame f v)) 0 = 0"
proof (cases "k = 0 \<or> GetFrameType f = PING \<or> GetFrameType f = PONG")
  case True
  with assms show ?thesis by (cases f) auto
next
  case False
  with assms(1) obtain b n body where f: "EncodeFrame f v = b # encodeVariable2 n @ body"
    and "drop_bit 4 b = GetFrameType f" and n: "n > 0" "unat n < 2 ^ 28" and "length body = unat n"
    by (auto elim: EncodeFrame_shape)
  from False obtain i where k: "k = Suc i" by (cases k) auto
  show ?thesis
  proof (cases "i < length (encodeVariable2 n)")
    case True
    with srv_decodeLength_cut [OF n True] False \<open>drop_bit 4 b = GetFrameType f\<close> show ?thesis
      by (subst unpack_loop.simps) (simp add: f k Let_def)
  next
    case False
    with srv_decodeLength_read [OF n, of "take (i - length (encodeVariable2 n)) body"]
      \<open>\<not> (k = 0 \<or> GetFrameType f = PING \<or> GetFrameType f = PONG)\<close>
      \<open>drop_bit 4 b = GetFrameType f\<close> \<open>length body = unat n\<close> assms(2) show ?thesis
      by (subst unpack_loop.simps) (simp add: f k Let_def)
  qed
qed

lemma unpack_loop_frames:
  "list_all (wellformed v) fs \<Longrightarrow>
    unpack_loop (concat (map (\<lambda>f. EncodeFrame f v) fs) @ rest) 0 =
      length (concat (map (\<lambda>f. EncodeFrame f v) fs)) + unpack_loop rest 0"
  by (induction fs) (simp_all add: unpack_loop_frame add.assoc)

text \<open>
  The cutter hands over exactly the complete frames of a stream: everything but a last frame
  of which only a part has arrived.
\<close>

lemma gnetUnpacket_complete:
  assumes "list_all (wellformed v) fs" and "wellformed v g" and "k < length (EncodeFrame g v)"
  shows "gnetUnpacket (concat (map (\<lambda>f. EncodeFrame f v) fs) @ take k (EncodeFrame g v)) =
    concat (map (\<lambda>f. EncodeFrame f v) fs)"
  by (simp add: gnetUnpacket_eq unpack_loop_frames [OF assms(1)] unpack_loop_cut [OF assms(2,3)])

section \<open>The client's frame loop\<close>

text \<open>
  \<open>handlePacketDatas\<close> collects what \<open>DecodeFrame\<close> returns until the data is used up. A nil
  frame comes with size zero, so the loop does not advance past it.
\<close>

partial_function (option) decode_packets ::
    "bytes \<Rightarrow> u8 \<Rightarrow> nat \<Rightarrow> frame option list \<Rightarrow> frame option list outcome option" where
  "decode_packets packetData version offset packets =
     (if length packetData > offset then
        case DecodeFrame (drop offset packetData) version of
          Panic \<Rightarrow> Some Panic
        | Fail err \<Rightarrow> Some (Fail err)
        | Ret (packet, n) \<Rightarrow> decode_packets packetData version (offset + n) (packets @ [packet])
      else Some (Ret packets))"

lemma decode_packets_stuck:
  assumes "offset < length d" and "DecodeFrame (drop offset d) v = Ret (None, n)"
  shows "decode_packets d v offset ps = None"
proof -
  from DecodeFrame_consumed(2) [OF assms(2)] have n: "n = 0" by simp
  have "\<not> (offset < length d \<and> DecodeFrame (drop offset d) v = Ret (None, 0))"
    if "decode_packets d v offset ps = Some r" for r
    using that by (rule decode_packets.raw_induct [rotated]) (auto split: if_splits)
  with assms n show ?thesis
    by (cases "decode_packets d v offset ps") auto
qed

text \<open>The frames that a stream of encoded frames delivers, each with the size of what is left.\<close>

fun deliveries :: "frame list \<Rightarrow> u8 \<Rightarrow> nat \<Rightarrow> frame list" where
  "deliveries [] v n = []"
| "deliveries (f # fs) v n = arrived f v n # deliveries fs v (n - length (EncodeFrame f v))"

lemma decode_packets_frames:
  assumes "list_all (wellformed v) fs"
  shows "decode_packets (pre @ concat (map (\<lambda>f. EncodeFrame f v) fs)) v (length pre) ps =
    Some (Ret (ps @ map Some (deliveries fs v (length (concat (map (\<lambda>f. EncodeFrame f v) fs))))))"
  using assms
proof (induction fs arbitrary: pre ps)
  case Nil
  then show ?case by (subst decode_packets.simps) simp
next
  case (Cons f fs)
  let ?tail = "concat (map (\<lambda>f. EncodeFrame f v) fs)"
  from Cons.prems have f: "wellformed v f" and fs: "list_all (wellformed v) fs" by auto
  from Cons.IH [OF fs, of "pre @ EncodeFrame f v"
      "ps @ [Some (arrived f v (length (EncodeFrame f v) + length ?tail))]"]
    DecodeFrame_EncodeFrame [OF f, of ?tail]
  show ?case
    by (subst decode_packets.simps) simp
qed

end
