(* ===== verification/InFlight.thy ===== *)
theory InFlight
  imports Main "HOL-Library.Multiset"
begin

text \<open>
  The priority queue of unacknowledged messages, \<^verbatim>\<open>internal/server/in_flight_pqueue.go\<close>: a
  binary heap of message pointers ordered by \<open>pri\<close>, where every message also stores its own
  position in the heap. Messages are shared with the table of in-flight messages, so they are
  references into a store, and each operation updates the positions it moves. The queue meets
  the contract \<open>min_queue\<close>, which the retry queue relies on.
\<close>

section \<open>The contract\<close>

text \<open>
  A queue of distinct references that can be popped by smallest priority or removed by position.
  \<open>pos q x\<close> is the position that the message \<open>x\<close> stores, -1 when it is in no queue.
\<close>

locale min_queue =
  fixes invar :: "'q \<Rightarrow> bool"
    and items :: "'q \<Rightarrow> 'r multiset"
    and pri :: "'q \<Rightarrow> 'r \<Rightarrow> int"
    and pos :: "'q \<Rightarrow> 'r \<Rightarrow> int"
    and push :: "'r \<Rightarrow> 'q \<Rightarrow> 'q"
    and remove :: "nat \<Rightarrow> 'q \<Rightarrow> 'r \<times> 'q"
    and shift :: "int \<Rightarrow> 'q \<Rightarrow> 'r option \<times> 'q"
  assumes push: "invar q \<Longrightarrow> x \<notin># items q \<Longrightarrow>
      invar (push x q) \<and> items (push x q) = add_mset x (items q) \<and> pri (push x q) = pri q"
    and pos_in: "invar q \<Longrightarrow> x \<in># items q \<Longrightarrow> 0 \<le> pos q x"
    and remove: "invar q \<Longrightarrow> x \<in># items q \<Longrightarrow> remove (nat (pos q x)) q = (y, q') \<Longrightarrow>
      y = x \<and> invar q' \<and> items q = add_mset x (items q') \<and> pri q' = pri q \<and> pos q' x = -1"
    and shift_none: "invar q \<Longrightarrow> shift t q = (None, q') \<Longrightarrow>
      q' = q \<and> (\<forall>y. y \<in># items q \<longrightarrow> t < pri q y)"
    and shift_some: "invar q \<Longrightarrow> shift t q = (Some x, q') \<Longrightarrow>
      invar q' \<and> items q = add_mset x (items q') \<and> pri q' = pri q \<and> pri q x \<le> t \<and> pos q' x = -1 \<and>
      (\<forall>y. y \<in># items q \<longrightarrow> pri q x \<le> pri q y)"
begin

text \<open>Shifting until nothing is due removes exactly the due messages, and comes to an end.\<close>

lemma shift_shrinks: "invar q \<Longrightarrow> shift t q = (Some x, q') \<Longrightarrow> size (items q') < size (items q)"
  using shift_some by fastforce

lemma shift_due: "invar q \<Longrightarrow> shift t q = (Some x, q') \<Longrightarrow> x \<in># items q \<and> pri q x \<le> t"
  using shift_some by fastforce

lemma not_due_not_shifted: "invar q \<Longrightarrow> (\<And>y. y \<in># items q \<Longrightarrow> t < pri q y) \<Longrightarrow> fst (shift t q) = None"
  using shift_due [of q t _ "snd (shift t q)"] by (cases "fst (shift t q)") (force simp: prod_eq_iff)+

end

section \<open>The heap\<close>

type_synonym msgref = nat

record inflight =
  pq_items :: "msgref list"
  pq_pri :: "msgref \<Rightarrow> int"
  pq_index :: "msgref \<Rightarrow> int"

definition newInFlightPqueue :: "inflight" where
  "newInFlightPqueue = \<lparr>pq_items = [], pq_pri = (\<lambda>_. 0), pq_index = (\<lambda>_. 0)\<rparr>"

definition pri_at :: "inflight \<Rightarrow> nat \<Rightarrow> int" where
  "pri_at q i = pq_pri q (pq_items q ! i)"

definition pq_Swap :: "nat \<Rightarrow> nat \<Rightarrow> inflight \<Rightarrow> inflight" where
  "pq_Swap i j q =
     (let a = pq_items q ! i; b = pq_items q ! j in
      q\<lparr>pq_items := (pq_items q)[i := b, j := a], pq_index := (pq_index q)(b := int i, a := int j)\<rparr>)"

function pq_up :: "nat \<Rightarrow> inflight \<Rightarrow> inflight" where
  "pq_up j q =
     (let i = (j - 1) div 2 in
      if i = j \<or> pri_at q j \<ge> pri_at q i then q
      else pq_up i (pq_Swap i j q))"
  by pat_completeness auto
termination
  by (relation "measure fst") auto

declare pq_up.simps [simp del]

function pq_down :: "nat \<Rightarrow> nat \<Rightarrow> inflight \<Rightarrow> inflight" where
  "pq_down i n q =
     (let j1 = 2 * i + 1 in
      if j1 \<ge> n then q
      else
        let j2 = j1 + 1;
            j = (if j2 < n \<and> pri_at q j1 \<ge> pri_at q j2 then j2 else j1) in
        if pri_at q j \<ge> pri_at q i then q
        else pq_down j n (pq_Swap i j q))"
  by pat_completeness auto
termination
  by (relation "measure (\<lambda>(i, n, _). n - i)") (auto simp: Let_def)

declare pq_down.simps [simp del]

text \<open>Growing and shrinking the backing array copies the same elements.\<close>

definition pq_Push :: "msgref \<Rightarrow> inflight \<Rightarrow> inflight" where
  "pq_Push x q =
     (let n = length (pq_items q) in
      pq_up n (q\<lparr>pq_index := (pq_index q)(x := int n), pq_items := pq_items q @ [x]\<rparr>))"

definition pq_drop_last :: "inflight \<Rightarrow> msgref \<times> inflight" where
  "pq_drop_last q =
     (let x = last (pq_items q) in
      (x, q\<lparr>pq_index := (pq_index q)(x := -1), pq_items := butlast (pq_items q)\<rparr>))"

definition pq_Pop :: "inflight \<Rightarrow> msgref \<times> inflight" where
  "pq_Pop q =
     (let n = length (pq_items q);
          q = pq_Swap 0 (n - 1) q;
          q = pq_down 0 (n - 1) q
      in pq_drop_last q)"

definition pq_Remove :: "nat \<Rightarrow> inflight \<Rightarrow> msgref \<times> inflight" where
  "pq_Remove i q =
     (let n = length (pq_items q) in
      pq_drop_last
        (if n - 1 \<noteq> i then pq_up i (pq_down i (n - 1) (pq_Swap i (n - 1) q)) else q))"

text \<open>The second result of \<open>PeekAndShift\<close>, the time until the next message is due, has no reader.\<close>

definition pq_PeekAndShift :: "int \<Rightarrow> inflight \<Rightarrow> msgref option \<times> inflight" where
  "pq_PeekAndShift due q =
     (if pq_items q = [] then (None, q)
      else let x = pq_items q ! 0 in
           if pq_pri q x > due then (None, q)
           else let (_, q) = pq_Pop q in (Some x, q))"

section \<open>The heap order\<close>

definition parent :: "nat \<Rightarrow> nat" where
  "parent k = (k - 1) div 2"

lemma parent_less [simp]: "0 < k \<Longrightarrow> parent k < k"
  by (auto simp: parent_def)

lemma parent_0 [simp]: "parent 0 = 0"
  by (simp add: parent_def)

lemma parent_children: "0 < k \<Longrightarrow> parent k = i \<longleftrightarrow> k = 2 * i + 1 \<or> k = 2 * i + 2"
  by (cases k) (auto simp: parent_def)

lemma pq_up_rec:
  "pq_up j q = (if 0 < j \<and> pri_at q j < pri_at q (parent j) then pq_up (parent j) (pq_Swap (parent j) j q) else q)"
  by (subst pq_up.simps) (auto simp: Let_def parent_def)

lemma pq_up_induct [case_names up]:
  assumes "\<And>j q. (0 < j \<Longrightarrow> pri_at q j < pri_at q (parent j) \<Longrightarrow> P (parent j) (pq_Swap (parent j) j q)) \<Longrightarrow> P j q"
  shows "P j q"
proof (induction j arbitrary: q rule: less_induct)
  case (less j)
  show ?case by (rule assms) (simp add: less)
qed

text \<open>The smaller child of \<open>i\<close>, as \<open>down\<close> picks it.\<close>

definition small_child :: "inflight \<Rightarrow> nat \<Rightarrow> nat \<Rightarrow> nat" where
  "small_child q n i =
     (if 2 * i + 2 < n \<and> pri_at q (2 * i + 1) \<ge> pri_at q (2 * i + 2) then 2 * i + 2 else 2 * i + 1)"

lemma small_child:
  assumes "2 * i + 1 < n"
  shows "small_child q n i < n" and "i < small_child q n i" and "parent (small_child q n i) = i"
    and "0 < small_child q n i"
    and "0 < k \<Longrightarrow> k < n \<Longrightarrow> parent k = i \<Longrightarrow> pri_at q (small_child q n i) \<le> pri_at q k"
  using assms by (auto simp: parent_children small_child_def)

lemma pq_down_rec:
  "pq_down i n q =
    (if 2 * i + 1 < n \<and> pri_at q (small_child q n i) < pri_at q i
     then pq_down (small_child q n i) n (pq_Swap i (small_child q n i) q) else q)"
  by (subst pq_down.simps) (simp add: Let_def small_child_def not_le not_less)

lemma pq_down_induct [case_names down]:
  assumes "\<And>i q. (2 * i + 1 < n \<Longrightarrow> pri_at q (small_child q n i) < pri_at q i \<Longrightarrow>
      P (small_child q n i) (pq_Swap i (small_child q n i) q)) \<Longrightarrow> P i q"
  shows "P i q"
proof (induction "n - i" arbitrary: i q rule: less_induct)
  case (less i q)
  show ?case
  proof (rule assms)
    assume "2 * i + 1 < n"
    with small_child(1,2) [of i n q] show "P (small_child q n i) (pq_Swap i (small_child q n i) q)"
      by (intro less) simp
  qed
qed

definition edge_ok :: "inflight \<Rightarrow> nat \<Rightarrow> bool" where
  "edge_ok q k \<longleftrightarrow> pri_at q (parent k) \<le> pri_at q k"

definition heap_on :: "nat \<Rightarrow> inflight \<Rightarrow> bool" where
  "heap_on n q \<longleftrightarrow> (\<forall>k. 0 < k \<longrightarrow> k < n \<longrightarrow> edge_ok q k)"

text \<open>Only position \<open>j\<close> may lie below its parent; its children do not lie below that parent.\<close>

definition heap_but_up :: "nat \<Rightarrow> nat \<Rightarrow> inflight \<Rightarrow> bool" where
  "heap_but_up j n q \<longleftrightarrow>
     (\<forall>k. 0 < k \<longrightarrow> k < n \<longrightarrow> k \<noteq> j \<longrightarrow> edge_ok q k) \<and>
     (\<forall>k. 0 < k \<longrightarrow> k < n \<longrightarrow> parent k = j \<longrightarrow> 0 < j \<longrightarrow> pri_at q (parent j) \<le> pri_at q k)"

text \<open>Only the children of position \<open>i\<close> may lie below it; they do not lie below its parent.\<close>

definition heap_but_down :: "nat \<Rightarrow> nat \<Rightarrow> inflight \<Rightarrow> bool" where
  "heap_but_down i n q \<longleftrightarrow>
     (\<forall>k. 0 < k \<longrightarrow> k < n \<longrightarrow> parent k \<noteq> i \<longrightarrow> edge_ok q k) \<and>
     (\<forall>k. 0 < k \<longrightarrow> k < n \<longrightarrow> parent k = i \<longrightarrow> 0 < i \<longrightarrow> pri_at q (parent i) \<le> pri_at q k)"

lemma pri_at_Swap:
  assumes "i < length (pq_items q)" and "j < length (pq_items q)"
  shows "pri_at (pq_Swap i j q) k = (if k = j then pri_at q i else if k = i then pri_at q j else pri_at q k)"
  using assms by (simp add: pri_at_def pq_Swap_def Let_def nth_list_update)

lemma Swap_simps [simp]:
  "length (pq_items (pq_Swap i j q)) = length (pq_items q)"
  "pq_pri (pq_Swap i j q) = pq_pri q"
  by (simp_all add: pq_Swap_def Let_def)

lemma mset_Swap [simp]:
  "i < length (pq_items q) \<Longrightarrow> j < length (pq_items q) \<Longrightarrow>
    mset (pq_items (pq_Swap i j q)) = mset (pq_items q)"
  by (simp add: pq_Swap_def Let_def mset_swap)

lemma pq_up_pres [simp]: "pq_pri (pq_up j q) = pq_pri q"
  "length (pq_items (pq_up j q)) = length (pq_items q)"
proof -
  have "pq_pri (pq_up j q) = pq_pri q \<and> length (pq_items (pq_up j q)) = length (pq_items q)"
    by (induction j q rule: pq_up_induct) (subst (1 2) pq_up_rec, simp)
  then show "pq_pri (pq_up j q) = pq_pri q" "length (pq_items (pq_up j q)) = length (pq_items q)"
    by auto
qed

lemma pq_down_pres [simp]: "pq_pri (pq_down i n q) = pq_pri q"
  "length (pq_items (pq_down i n q)) = length (pq_items q)"
proof -
  have "pq_pri (pq_down i n q) = pq_pri q \<and> length (pq_items (pq_down i n q)) = length (pq_items q)"
    by (induction i q rule: pq_down_induct [where n = n]) (subst (1 2) pq_down_rec, simp)
  then show "pq_pri (pq_down i n q) = pq_pri q" "length (pq_items (pq_down i n q)) = length (pq_items q)"
    by auto
qed

lemma pq_up_heap:
  assumes "heap_but_up j n q" and "j < n" and "n \<le> length (pq_items q)"
  shows "heap_on n (pq_up j q)"
  using assms
proof (induction j q rule: pq_up_induct)
  case (up j q)
  let ?i = "parent j"
  show ?case
  proof (cases "0 < j \<and> pri_at q j < pri_at q ?i")
    case False
    have "heap_on n q"
      unfolding heap_on_def
    proof (intro allI impI)
      fix k assume "0 < k" "k < n"
      with up(2) False show "edge_ok q k"
        by (cases "k = j") (auto simp: heap_but_up_def edge_ok_def)
    qed
    moreover from False have "pq_up j q = q" by (subst pq_up_rec) auto
    ultimately show ?thesis by simp
  next
    case True
    then have j: "0 < j" and less: "pri_at q j < pri_at q ?i" by auto
    with up(3,4) parent_less [OF j]
    have i: "?i < n" "?i < length (pq_items q)" "j < length (pq_items q)" by linarith+
    have ij: "?i \<noteq> j" using parent_less [OF j] by simp
    note sw = pri_at_Swap [OF i(2,3)]
    have "heap_but_up ?i n (pq_Swap ?i j q)"
      unfolding heap_but_up_def
    proof (intro conjI allI impI)
      fix k assume k: "0 < k" "k < n" "k \<noteq> ?i"
      show "edge_ok (pq_Swap ?i j q) k"
      proof (cases "k = j")
        case True
        with less ij show ?thesis by (simp add: edge_ok_def sw)
      next
        case kj: False
        with k up(2) have e: "edge_ok q k" by (auto simp: heap_but_up_def)
        have b: "parent k = j \<Longrightarrow> pri_at q ?i \<le> pri_at q k"
          using k j up(2) by (auto simp: heap_but_up_def)
        from e b kj k(3) less show ?thesis
          by (auto simp: edge_ok_def sw)
      qed
    next
      fix k assume k: "0 < k" "k < n" "parent k = ?i" "0 < ?i"
      have "edge_ok q ?i" using k(4) i(1) ij up(2) by (auto simp: heap_but_up_def)
      moreover have "k \<noteq> j \<Longrightarrow> edge_ok q k" using k up(2) by (auto simp: heap_but_up_def)
      moreover have "k \<noteq> ?i" using parent_less [OF k(1)] k(3) by simp
      moreover have "parent ?i \<noteq> ?i" "parent ?i \<noteq> j"
        using parent_less [OF k(4)] parent_less [OF j] by linarith+
      ultimately show "pri_at (pq_Swap ?i j q) (parent ?i) \<le> pri_at (pq_Swap ?i j q) k"
        using less k(3) by (auto simp: edge_ok_def sw)
    qed
    with up(1) [OF j less] i up(4) have "heap_on n (pq_up ?i (pq_Swap ?i j q))" by simp
    with True show ?thesis by (subst pq_up_rec) simp
  qed
qed

lemma pq_down_stop:
  assumes "heap_but_down i n q" and "\<And>k. 0 < k \<Longrightarrow> k < n \<Longrightarrow> parent k = i \<Longrightarrow> pri_at q i \<le> pri_at q k"
  shows "heap_on n q"
  unfolding heap_on_def
proof (intro allI impI)
  fix k assume k: "0 < k" "k < n"
  show "edge_ok q k"
  proof (cases "parent k = i")
    case True
    with assms(2) [OF k True] show ?thesis by (simp add: edge_ok_def)
  next
    case False
    with assms(1) k show ?thesis by (simp add: heap_but_down_def)
  qed
qed

lemma heap_but_down_Swap:
  assumes "\<And>k. 0 < k \<Longrightarrow> k < n \<Longrightarrow> k \<noteq> i \<Longrightarrow> parent k \<noteq> i \<Longrightarrow> edge_ok q k"
    and up: "\<And>k. 0 < k \<Longrightarrow> k < n \<Longrightarrow> parent k = i \<Longrightarrow> 0 < i \<Longrightarrow> pri_at q (parent i) \<le> pri_at q k"
    and j: "0 < j" "j < n" "parent j = i" "pri_at q j < pri_at q i"
    and min: "\<And>k. 0 < k \<Longrightarrow> k < n \<Longrightarrow> parent k = i \<Longrightarrow> pri_at q j \<le> pri_at q k"
    and len: "n \<le> length (pq_items q)"
  shows "heap_but_down j n (pq_Swap i j q)"
proof -
  from j(1,3) have ij: "i < j" by (auto simp: parent_children)
  with j(2) len have bounds: "i < length (pq_items q)" "j < length (pq_items q)" by auto
  note sw = pri_at_Swap [OF bounds]
  show ?thesis
    unfolding heap_but_down_def
  proof (intro conjI allI impI)
    fix k assume k: "0 < k" "k < n" "parent k \<noteq> j"
    consider "k = j" | "k = i" | "k \<noteq> i" "k \<noteq> j" "parent k = i" | "k \<noteq> i" "k \<noteq> j" "parent k \<noteq> i" by blast
    then show "edge_ok (pq_Swap i j q) k"
    proof cases
      case 1
      with j ij show ?thesis by (simp add: edge_ok_def sw)
    next
      case 2
      with k(1) have "parent i < i" by auto
      with 2 k(1) up [OF j(1,2,3)] ij show ?thesis by (simp add: edge_ok_def sw)
    next
      case 3
      with min [OF k(1,2) 3(3)] ij show ?thesis by (simp add: edge_ok_def sw)
    next
      case 4
      with assms(1) [OF k(1,2) 4(1,3)] k(3) show ?thesis by (simp add: edge_ok_def sw)
    qed
  next
    fix k assume k: "0 < k" "k < n" "parent k = j" "0 < j"
    with ij parent_less [OF k(1)] have "k \<noteq> i" "k \<noteq> j" "parent k \<noteq> i" by auto
    with assms(1) [OF k(1,2)] k(3) j(3) ij show "pri_at (pq_Swap i j q) (parent j) \<le> pri_at (pq_Swap i j q) k"
      by (simp add: edge_ok_def sw)
  qed
qed

lemma pq_down_heap:
  assumes "heap_but_down i n q" and "n \<le> length (pq_items q)"
  shows "heap_on n (pq_down i n q)"
  using assms
proof (induction i q rule: pq_down_induct [where n = n])
  case (down i q)
  let ?j = "small_child q n i"
  show ?case
  proof (cases "2 * i + 1 < n \<and> pri_at q ?j < pri_at q i")
    case True
    note child = small_child [where q = q, OF conjunct1 [OF True]]
    have "heap_but_down ?j n (pq_Swap i ?j q)"
      using down(2,3) True child by (intro heap_but_down_Swap) (auto simp: heap_but_down_def)
    with down(1) True down(3) have "heap_on n (pq_down ?j n (pq_Swap i ?j q))" by simp
    with True show ?thesis by (subst pq_down_rec) simp
  next
    case False
    have "heap_on n q"
    proof (rule pq_down_stop [OF down(2)])
      fix k assume k: "0 < k" "k < n" "parent k = i"
      then have "2 * i + 1 < n" by (auto simp: parent_children)
      with False small_child(5) [where q = q, OF this k] show "pri_at q i \<le> pri_at q k" by simp
    qed
    moreover from False have "pq_down i n q = q" by (subst pq_down_rec) auto
    ultimately show ?thesis by simp
  qed
qed

lemma pq_up_id:
  assumes "heap_on n q" and "j < n"
  shows "pq_up j q = q"
proof -
  from assms have "\<not> (0 < j \<and> pri_at q j < pri_at q (parent j))"
    by (auto simp: heap_on_def edge_ok_def not_less)
  then show ?thesis by (subst pq_up_rec) auto
qed

lemma pq_fix:
  assumes edges: "\<And>k. 0 < k \<Longrightarrow> k < n \<Longrightarrow> k \<noteq> i \<Longrightarrow> parent k \<noteq> i \<Longrightarrow> edge_ok q k"
    and up: "\<And>k. 0 < k \<Longrightarrow> k < n \<Longrightarrow> parent k = i \<Longrightarrow> 0 < i \<Longrightarrow> pri_at q (parent i) \<le> pri_at q k"
    and "i < n" and "n \<le> length (pq_items q)"
  shows "heap_on n (pq_up i (pq_down i n q))"
proof -
  let ?j = "small_child q n i"
  show ?thesis
  proof (cases "2 * i + 1 < n \<and> pri_at q ?j < pri_at q i")
    case True
    note child = small_child [where q = q, OF conjunct1 [OF True]]
    have "heap_but_down ?j n (pq_Swap i ?j q)"
      using True assms child by (intro heap_but_down_Swap) auto
    then have "heap_on n (pq_down ?j n (pq_Swap i ?j q))"
      using assms(4) by (intro pq_down_heap) simp_all
    moreover have "pq_down i n q = pq_down ?j n (pq_Swap i ?j q)"
      using True by (subst pq_down_rec) simp
    ultimately show ?thesis
      using pq_up_id [OF _ assms(3)] by simp
  next
    case False
    then have "pq_down i n q = q"
      by (subst pq_down_rec) auto
    moreover have "pri_at q i \<le> pri_at q k" if k: "0 < k" "k < n" "parent k = i" for k
    proof -
      from k have "2 * i + 1 < n" by (auto simp: parent_children)
      with False small_child(5) [where q = q, OF this k] show ?thesis by simp
    qed
    then have "heap_but_up i n q"
      using edges up unfolding heap_but_up_def edge_ok_def by blast
    ultimately show ?thesis
      using assms(3,4) by (simp add: pq_up_heap)
  qed
qed

section \<open>The positions\<close>

definition indexed :: "inflight \<Rightarrow> bool" where
  "indexed q \<longleftrightarrow> distinct (pq_items q) \<and>
     (\<forall>k < length (pq_items q). pq_index q (pq_items q ! k) = int k)"

lemma indexed_Swap:
  assumes "indexed q" and "i < length (pq_items q)" and "j < length (pq_items q)"
  shows "indexed (pq_Swap i j q)"
  using assms unfolding indexed_def pq_Swap_def Let_def
  by (auto simp: distinct_swap nth_list_update nth_eq_iff_index_eq)

lemma pq_up_indexed:
  assumes "indexed q" and "j < length (pq_items q)"
  shows "indexed (pq_up j q) \<and> mset (pq_items (pq_up j q)) = mset (pq_items q)"
  using assms
proof (induction j q rule: pq_up_induct)
  case (up j q)
  show ?case
  proof (cases "0 < j \<and> pri_at q j < pri_at q (parent j)")
    case True
    then have "parent j < length (pq_items q)" using up(3) parent_less [of j] by linarith
    with True up indexed_Swap [of q "parent j" j] show ?thesis
      by (subst (1 2) pq_up_rec) simp
  next
    case False
    with up(2) show ?thesis by (subst (1 2) pq_up_rec) auto
  qed
qed

lemma pq_down_indexed:
  assumes "indexed q" and "n \<le> length (pq_items q)"
  shows "indexed (pq_down i n q) \<and> mset (pq_items (pq_down i n q)) = mset (pq_items q)"
  using assms
proof (induction i q rule: pq_down_induct [where n = n])
  case (down i q)
  let ?j = "small_child q n i"
  show ?case
  proof (cases "2 * i + 1 < n \<and> pri_at q ?j < pri_at q i")
    case True
    with small_child(1,2) [of i n q] down(3)
    have bounds: "i < length (pq_items q)" "?j < length (pq_items q)" by auto
    with down(1,3) True indexed_Swap [OF down(2) bounds] show ?thesis
      by (subst (1 2) pq_down_rec) simp
  next
    case False
    with down(2) show ?thesis by (subst (1 2) pq_down_rec) auto
  qed
qed

definition pq_invar :: "inflight \<Rightarrow> bool" where
  "pq_invar q \<longleftrightarrow> heap_on (length (pq_items q)) q \<and> indexed q"

lemma newInFlightPqueue_invar: "pq_invar newInFlightPqueue"
  by (simp add: pq_invar_def newInFlightPqueue_def heap_on_def indexed_def)

lemma pri_at_append:
  "k < length (pq_items q) \<Longrightarrow>
    pri_at (q\<lparr>pq_index := f, pq_items := pq_items q @ [x]\<rparr>) k = pri_at q k"
  by (simp add: pri_at_def nth_append)

lemma pq_Push_invar:
  assumes "pq_invar q" and "x \<notin> set (pq_items q)"
  shows "pq_invar (pq_Push x q)" and "mset (pq_items (pq_Push x q)) = add_mset x (mset (pq_items q))"
    and "pq_pri (pq_Push x q) = pq_pri q"
proof -
  let ?n = "length (pq_items q)"
  let ?q = "q\<lparr>pq_index := (pq_index q)(x := int ?n), pq_items := pq_items q @ [x]\<rparr>"
  have idx: "indexed ?q"
    using assms by (auto simp: pq_invar_def indexed_def nth_append less_Suc_eq)
  have "heap_but_up ?n (Suc ?n) ?q"
    unfolding heap_but_up_def
  proof (intro conjI allI impI)
    fix k assume "0 < k" "k < Suc ?n" "k \<noteq> ?n"
    moreover with parent_less [of k] have "parent k < ?n" by linarith
    ultimately show "edge_ok ?q k" using assms(1)
      by (auto simp: pq_invar_def heap_on_def edge_ok_def pri_at_append)
  next
    fix k assume "0 < k" "k < Suc ?n" "parent k = ?n"
    then show "pri_at ?q (parent ?n) \<le> pri_at ?q k" by (auto simp: parent_children)
  qed
  then have "heap_on (Suc ?n) (pq_up ?n ?q)"
    by (intro pq_up_heap) simp_all
  with pq_up_indexed [OF idx] show "pq_invar (pq_Push x q)"
    by (simp add: pq_invar_def pq_Push_def Let_def)
  show "mset (pq_items (pq_Push x q)) = add_mset x (mset (pq_items q))"
    using pq_up_indexed [OF idx] by (simp add: pq_Push_def Let_def)
  show "pq_pri (pq_Push x q) = pq_pri q"
    by (simp add: pq_Push_def Let_def)
qed

lemma pq_drop_last_invar:
  assumes "heap_on (length (pq_items q) - 1) q" and "indexed q" and "pq_items q \<noteq> []"
    and "pq_drop_last q = (x, q')"
  shows "pq_invar q'" and "mset (pq_items q) = add_mset x (mset (pq_items q'))"
    and "pq_pri q' = pq_pri q" and "pq_index q' x = -1" and "x = last (pq_items q)"
proof -
  obtain ys y where q: "pq_items q = ys @ [y]"
    using assms(3) by (metis rev_exhaust)
  have "parent k < length ys" if "0 < k" "k < length ys" for k
    using parent_less [OF that(1)] that(2) by linarith
  with assms(1,2,4) show "pq_invar q'"
    by (auto simp: pq_drop_last_def Let_def pq_invar_def heap_on_def edge_ok_def pri_at_def
        indexed_def q nth_append less_Suc_eq)
  from assms(4) show "mset (pq_items q) = add_mset x (mset (pq_items q'))"
    and "pq_pri q' = pq_pri q" and "pq_index q' x = -1" and "x = last (pq_items q)"
    by (auto simp: pq_drop_last_def Let_def q)
qed

section \<open>The queue meets its contract\<close>

lemma index_of:
  assumes "indexed q" and "x \<in> set (pq_items q)"
  obtains k where "k < length (pq_items q)" and "pq_items q ! k = x" and "pq_index q x = int k"
  using assms by (auto simp: indexed_def in_set_conv_nth)

lemma heap_on_mono: "heap_on n q \<Longrightarrow> m \<le> n \<Longrightarrow> heap_on m q"
  by (auto simp: heap_on_def)

lemma heap_root_least:
  assumes "heap_on (length (pq_items q)) q" and "k < length (pq_items q)"
  shows "pri_at q 0 \<le> pri_at q k"
  using assms(2)
proof (induction k rule: less_induct)
  case (less k)
  show ?case
  proof (cases "k = 0")
    case False
    then have k: "0 < k" by simp
    from parent_less [OF k] less.prems have "parent k < length (pq_items q)" by linarith
    from less.IH [OF parent_less [OF k] this] have "pri_at q 0 \<le> pri_at q (parent k)" .
    also have "\<dots> \<le> pri_at q k"
      using assms(1) k less.prems by (simp add: heap_on_def edge_ok_def)
    finally show ?thesis .
  qed simp
qed

text \<open>
  Swapping position \<open>i\<close> with the last one, repairing the heap before the last position, and
  dropping it takes out the message that stood at \<open>i\<close>.
\<close>

lemma last_Swap:
  assumes "i < length (pq_items q)"
  shows "pq_items (pq_Swap i (length (pq_items q) - 1) q) ! (length (pq_items q) - 1) = pq_items q ! i"
  using assms by (auto simp: pq_Swap_def Let_def nth_list_update)

lemma pq_up_upper: "n \<le> k \<Longrightarrow> j < n \<Longrightarrow> n \<le> length (pq_items q) \<Longrightarrow> pq_items (pq_up j q) ! k = pq_items q ! k"
proof (induction j q rule: pq_up_induct)
  case (up j q)
  have "parent j < n"
    using up.prems(2) parent_less [of j] by (cases "j = 0") (simp, linarith)
  with up show ?case
    by (subst pq_up_rec) (auto simp: pq_Swap_def Let_def)
qed

lemma pq_down_upper: "n \<le> k \<Longrightarrow> i < n \<Longrightarrow> n \<le> length (pq_items q) \<Longrightarrow> pq_items (pq_down i n q) ! k = pq_items q ! k"
proof (induction i q rule: pq_down_induct [where n = n])
  case (down i q)
  with small_child(1) [of i n q] show ?case
    by (subst pq_down_rec) (auto simp: pq_Swap_def Let_def)
qed

lemma pq_Remove_invar:
  assumes inv: "pq_invar q" and i: "i < length (pq_items q)" and rem: "pq_Remove i q = (x, q')"
  shows "x = pq_items q ! i" and "pq_invar q'" and "mset (pq_items q) = add_mset x (mset (pq_items q'))"
    and "pq_pri q' = pq_pri q" and "pq_index q' x = -1"
proof -
  let ?n = "length (pq_items q)"
  let ?sw = "pq_Swap i (?n - 1) q"
  define q1 where "q1 = (if ?n - 1 \<noteq> i then pq_up i (pq_down i (?n - 1) ?sw) else q)"
  have drop: "pq_drop_last q1 = (x, q')"
    using rem by (simp add: pq_Remove_def q1_def Let_def)
  have heap: "heap_on ?n q" and idx: "indexed q"
    using inv by (auto simp: pq_invar_def)
  have q1: "heap_on (?n - 1) q1 \<and> indexed q1 \<and> mset (pq_items q1) = mset (pq_items q) \<and>
      pq_pri q1 = pq_pri q \<and> length (pq_items q1) = ?n \<and> pq_items q1 ! (?n - 1) = pq_items q ! i"
  proof (cases "?n - 1 = i")
    case True
    with heap idx show ?thesis
      by (auto simp: q1_def intro: heap_on_mono)
  next
    case False
    with i have bounds: "i < ?n - 1" "?n - 1 < ?n" by auto
    note sw = pri_at_Swap [OF i bounds(2), unfolded One_nat_def]
    have "heap_on (?n - 1) (pq_up i (pq_down i (?n - 1) ?sw))"
    proof (rule pq_fix)
      fix k assume k: "0 < k" "k < ?n - 1" "k \<noteq> i" "parent k \<noteq> i"
      from parent_less [OF k(1)] k(2) have "parent k \<noteq> ?n - 1" by linarith
      moreover have "edge_ok q k" using heap k by (simp add: heap_on_def)
      ultimately show "edge_ok ?sw k"
        using k by (simp add: edge_ok_def sw)
    next
      fix k assume k: "0 < k" "k < ?n - 1" "parent k = i" "0 < i"
      then have "edge_ok q k" "edge_ok q i" using heap bounds by (auto simp: heap_on_def)
      moreover have "parent i \<noteq> i" "parent i \<noteq> ?n - 1" "k \<noteq> i" "k \<noteq> ?n - 1"
        using parent_less [OF k(1)] parent_less [OF k(4)] k bounds by linarith+
      ultimately show "pri_at ?sw (parent i) \<le> pri_at ?sw k"
        using k by (simp add: edge_ok_def sw)
    qed (use bounds in simp_all)
    moreover have "indexed (pq_down i (?n - 1) ?sw) \<and> mset (pq_items (pq_down i (?n - 1) ?sw)) = mset (pq_items q)"
      using pq_down_indexed [OF indexed_Swap [OF idx i bounds(2)], of "?n - 1" i] i bounds by simp
    ultimately show ?thesis
      using False bounds i pq_up_indexed [of "pq_down i (?n - 1) ?sw" i] last_Swap [OF i]
      by (simp add: q1_def pq_up_upper [where n = "?n - 1"] pq_down_upper)
  qed
  moreover from q1 i have "pq_items q1 \<noteq> []" by auto
  ultimately show "x = pq_items q ! i" and "pq_invar q'" and "mset (pq_items q) = add_mset x (mset (pq_items q'))"
    and "pq_pri q' = pq_pri q" and "pq_index q' x = -1"
    using pq_drop_last_invar [of q1 x q'] drop by (simp_all add: last_conv_nth)
qed

lemma pq_Pop_eq_Remove:
  assumes "pq_items q \<noteq> []"
  shows "pq_Pop q = pq_Remove 0 q"
proof (cases "length (pq_items q) = 1")
  case True
  then obtain y where "pq_items q = [y]" by (auto simp: length_Suc_conv)
  then show ?thesis
    by (simp add: pq_Pop_def pq_Remove_def Let_def pq_down_rec pq_drop_last_def pq_Swap_def)
next
  case False
  with assms have "1 < length (pq_items q)" by (cases "pq_items q") auto
  then show ?thesis
    by (simp add: pq_Pop_def pq_Remove_def Let_def pq_up_rec [of 0])
qed

lemma pq_PeekAndShift_cases:
  assumes "pq_invar q" and "pq_PeekAndShift t q = (r, q')"
  shows "case r of
      None \<Rightarrow> q' = q \<and> (\<forall>y. y \<in># mset (pq_items q) \<longrightarrow> t < pq_pri q y)
    | Some x \<Rightarrow> pq_invar q' \<and> mset (pq_items q) = add_mset x (mset (pq_items q')) \<and>
        pq_pri q' = pq_pri q \<and> pq_pri q x \<le> t \<and> pq_index q' x = -1 \<and>
        (\<forall>y. y \<in># mset (pq_items q) \<longrightarrow> pq_pri q x \<le> pq_pri q y)"
proof (cases "pq_items q = []")
  case True
  with assms(2) show ?thesis by (auto simp: pq_PeekAndShift_def)
next
  case False
  then have 0: "0 < length (pq_items q)" by simp
  have least: "pq_pri q (pq_items q ! 0) \<le> pq_pri q y" if "y \<in> set (pq_items q)" for y
    using that assms(1) heap_root_least [of q] by (auto simp: in_set_conv_nth pq_invar_def pri_at_def)
  obtain x q1 where pop: "pq_Pop q = (x, q1)" by (cases "pq_Pop q")
  note rem = pq_Remove_invar [OF assms(1) 0 pop [unfolded pq_Pop_eq_Remove [OF False]]]
  show ?thesis
  proof (cases "pq_pri q (pq_items q ! 0) > t")
    case True
    with assms(2) least False show ?thesis by (force simp: pq_PeekAndShift_def)
  next
    case not_due: False
    with assms(2) False pop rem(1) have r: "r = Some x" "q' = q1" by (auto simp: pq_PeekAndShift_def)
    have "pq_pri q x \<le> t" using not_due rem(1) by simp
    moreover have "\<forall>y. y \<in># mset (pq_items q) \<longrightarrow> pq_pri q x \<le> pq_pri q y"
      using least unfolding rem(1) by simp
    ultimately show ?thesis using rem(2-5) unfolding r option.case by blast
  qed
qed

interpretation inflight: min_queue pq_invar "\<lambda>q. mset (pq_items q)" pq_pri pq_index pq_Push pq_Remove pq_PeekAndShift
proof unfold_locales
  fix q x
  assume "pq_invar q" and "x \<notin># mset (pq_items q)"
  then show "pq_invar (pq_Push x q) \<and> mset (pq_items (pq_Push x q)) = add_mset x (mset (pq_items q)) \<and>
      pq_pri (pq_Push x q) = pq_pri q"
    by (simp add: pq_Push_invar)
next
  fix q x
  assume "pq_invar q" and "x \<in># mset (pq_items q)"
  then show "0 \<le> pq_index q x"
    by (auto simp: pq_invar_def elim: index_of)
next
  fix q x y q'
  assume inv: "pq_invar q" and "x \<in># mset (pq_items q)" and rem: "pq_Remove (nat (pq_index q x)) q = (y, q')"
  then obtain k where "k < length (pq_items q)" "pq_items q ! k = x" "pq_index q x = int k"
    by (auto simp: pq_invar_def elim: index_of)
  with pq_Remove_invar [OF inv _ rem] show "y = x \<and> pq_invar q' \<and>
      mset (pq_items q) = add_mset x (mset (pq_items q')) \<and> pq_pri q' = pq_pri q \<and> pq_index q' x = -1"
    by simp
next
  fix q t q'
  assume "pq_invar q" and "pq_PeekAndShift t q = (None, q')"
  from pq_PeekAndShift_cases [OF this, unfolded option.case] show "q' = q \<and> (\<forall>y. y \<in># mset (pq_items q) \<longrightarrow> t < pq_pri q y)"
    by simp
next
  fix q t x q'
  assume "pq_invar q" and "pq_PeekAndShift t q = (Some x, q')"
  from pq_PeekAndShift_cases [OF this, unfolded option.case] show "pq_invar q' \<and>
      mset (pq_items q) = add_mset x (mset (pq_items q')) \<and> pq_pri q' = pq_pri q \<and> pq_pri q x \<le> t \<and>
      pq_index q' x = -1 \<and> (\<forall>y. y \<in># mset (pq_items q) \<longrightarrow> pq_pri q x \<le> pq_pri q y)"
    .
qed

end
