(* ===== verification/Messages.thy ===== *)
theory Messages
  imports Packets
begin

text \<open>
  Stored messages: the \<open>Message\<close> of \<^verbatim>\<open>internal/server/model.go\<close> with its storage codec
  (\<open>MarshalMessage\<close>, \<open>UnmarshalMessage\<close>), and the record that the message log writes around
  it, \<^verbatim>\<open>pkg/okstore/message.go\<close> and \<^verbatim>\<open>pkg/okstore/const.go\<close>. A file is the list of its
  bytes; \<open>binary.Write\<close> with the big-endian \<open>Encoding\<close> writes the bytes of the matching writer
  of the wire codec.
\<close>

section \<open>Messages\<close>

record message =
  msg_RecvPacket :: RecvPacket
  msg_ToUID :: gostring
  msg_Subscribers :: "gostring list"
  msg_fromDeviceFlag :: deviceFlag
  msg_fromDeviceID :: gostring
  msg_toDeviceID :: gostring
  msg_large :: bool
  msg_index :: int
  msg_pri :: int
  msg_retryCount :: int

definition empty_recv :: RecvPacket where
  "empty_recv = \<lparr>rcv_Framer = empty_framer, rcv_Setting = 0, rcv_MsgKey = [], rcv_Expire = 0,
     rcv_MessageID = 0, rcv_MessageSeq = 0, rcv_ClientMsgNo = [], rcv_StreamNo = [], rcv_StreamSeq = 0,
     rcv_StreamFlag = 0, rcv_Timestamp = 0, rcv_ChannelID = [], rcv_ChannelType = 0, rcv_Topic = [],
     rcv_FromUID = [], rcv_Payload = [], rcv_ClientSeq = 0\<rparr>"

definition empty_message :: message where
  "empty_message = \<lparr>msg_RecvPacket = empty_recv, msg_ToUID = [], msg_Subscribers = [],
     msg_fromDeviceFlag = 0, msg_fromDeviceID = [], msg_toDeviceID = [], msg_large = False,
     msg_index = 0, msg_pri = 0, msg_retryCount = 0\<rparr>"

definition GetMessageID :: "message \<Rightarrow> i64" where
  "GetMessageID m = rcv_MessageID (msg_RecvPacket m)"

definition SetSeq :: "u32 \<Rightarrow> message \<Rightarrow> message" where
  "SetSeq s m = m\<lparr>msg_RecvPacket := (msg_RecvPacket m)\<lparr>rcv_MessageSeq := s\<rparr>\<rparr>"

definition GetSeq :: "message \<Rightarrow> u32" where
  "GetSeq m = rcv_MessageSeq (msg_RecvPacket m)"

definition StreamStart :: "message \<Rightarrow> bool" where
  "StreamStart m \<longleftrightarrow> \<not> blank (rcv_StreamNo (msg_RecvPacket m)) \<and>
     rcv_StreamFlag (msg_RecvPacket m) = StreamFlagStart"

definition StreamIng :: "message \<Rightarrow> bool" where
  "StreamIng m \<longleftrightarrow> \<not> blank (rcv_StreamNo (msg_RecvPacket m)) \<and>
     rcv_StreamFlag (msg_RecvPacket m) = StreamFlagIng"

text \<open>\<open>DeepCopy\<close> rebuilds the packet field by field; the payload slice is shared.\<close>

definition DeepCopy :: "message \<Rightarrow> message" where
  "DeepCopy m =
     (let r = msg_RecvPacket m in
      \<lparr>msg_RecvPacket = \<lparr>rcv_Framer = rcv_Framer r, rcv_Setting = rcv_Setting r,
         rcv_MsgKey = rcv_MsgKey r, rcv_Expire = rcv_Expire r, rcv_MessageID = rcv_MessageID r,
         rcv_MessageSeq = rcv_MessageSeq r, rcv_ClientMsgNo = rcv_ClientMsgNo r,
         rcv_StreamNo = rcv_StreamNo r, rcv_StreamSeq = rcv_StreamSeq r,
         rcv_StreamFlag = rcv_StreamFlag r, rcv_Timestamp = rcv_Timestamp r,
         rcv_ChannelID = rcv_ChannelID r, rcv_ChannelType = rcv_ChannelType r,
         rcv_Topic = rcv_Topic r, rcv_FromUID = rcv_FromUID r, rcv_Payload = rcv_Payload r,
         rcv_ClientSeq = rcv_ClientSeq r\<rparr>,
       msg_ToUID = msg_ToUID m, msg_Subscribers = msg_Subscribers m,
       msg_fromDeviceFlag = msg_fromDeviceFlag m, msg_fromDeviceID = msg_fromDeviceID m,
       msg_toDeviceID = msg_toDeviceID m, msg_large = msg_large m, msg_index = msg_index m,
       msg_pri = msg_pri m, msg_retryCount = msg_retryCount m\<rparr>)"

lemma DeepCopy_id [simp]: "DeepCopy m = m"
  by (simp add: DeepCopy_def Let_def)

lemma seq_simps [simp]:
  "GetSeq (SetSeq s m) = s" "GetMessageID (SetSeq s m) = GetMessageID m"
  by (simp_all add: GetSeq_def SetSeq_def GetMessageID_def)

section \<open>The storage codec\<close>

definition MarshalMessage :: "u8 \<Rightarrow> message \<Rightarrow> bytes" where
  "MarshalMessage version m =
     (let r = msg_RecvPacket m in concat [
        WriteByte (ToFixHeaderUint8 RECV (rcv_Framer r)),
        WriteUint8 version,
        WriteByte (Setting_Uint8 (rcv_Setting r)),
        WriteInt64 (rcv_MessageID r),
        WriteUint32 (rcv_MessageSeq r),
        WriteString (rcv_ClientMsgNo r),
        if IsSet (rcv_Setting r) SettingStream then WriteString (rcv_StreamNo r) else [],
        if IsSet (rcv_Setting r) SettingStream then WriteUint32 (rcv_StreamSeq r) else [],
        if IsSet (rcv_Setting r) SettingStream then WriteUint8 (rcv_StreamFlag r) else [],
        WriteInt32 (rcv_Timestamp r),
        WriteString (rcv_FromUID r),
        WriteString (rcv_ChannelID r),
        WriteUint8 (rcv_ChannelType r),
        if 1 \<le> version then WriteUint32 (rcv_Expire r) else [],
        WriteBytes (rcv_Payload r)])"

text \<open>
  \<open>UnmarshalMessage\<close> replaces the packet of the message it is given. Its errors are returned
  as they are; the tags name the field.
\<close>

definition UnmarshalMessage :: "bytes \<Rightarrow> message \<Rightarrow> message outcome" where
  "UnmarshalMessage data m = run_reader (
     field ''header'' dec_uint8 (\<lambda>header.
     field ''version'' dec_uint8 (\<lambda>version.
     field ''setting'' dec_uint8 (\<lambda>setting.
     field ''messageID'' dec_int64 (\<lambda>messageID.
     field ''MessageSeq'' dec_uint32 (\<lambda>messageSeq.
     field ''ClientMsgNo'' dec_string (\<lambda>clientMsgNo.
     optfield ''StreamNo'' (IsSet setting SettingStream) [] dec_string (\<lambda>streamNo.
     optfield ''StreamSeq'' (IsSet setting SettingStream) 0 dec_uint32 (\<lambda>streamSeq.
     optfield ''StreamFlag'' (IsSet setting SettingStream) 0 dec_uint8 (\<lambda>streamFlag.
     field ''Timestamp'' dec_int32 (\<lambda>timestamp.
     field ''FromUID'' dec_string (\<lambda>fromUID.
     field ''ChannelID'' dec_string (\<lambda>channelID.
     field ''ChannelType'' dec_uint8 (\<lambda>channelType.
     optfield ''Expire'' (1 \<le> version) 0 dec_uint32 (\<lambda>expire.
     restfield ''Payload'' (\<lambda>payload.
     yields (m\<lparr>msg_RecvPacket :=
       \<lparr>rcv_Framer = FramerFromUint8 header, rcv_Setting = setting, rcv_MsgKey = [],
        rcv_Expire = expire, rcv_MessageID = messageID, rcv_MessageSeq = messageSeq,
        rcv_ClientMsgNo = clientMsgNo, rcv_StreamNo = streamNo, rcv_StreamSeq = streamSeq,
        rcv_StreamFlag = streamFlag, rcv_Timestamp = timestamp, rcv_ChannelID = channelID,
        rcv_ChannelType = channelType, rcv_Topic = [], rcv_FromUID = fromUID,
        rcv_Payload = payload, rcv_ClientSeq = 0\<rparr>\<rparr>))))))))))))))))) data"

text \<open>What the storage codec keeps of a packet: not the topic, the message key or the client's
  sequence number.\<close>

definition stored_recv :: "u8 \<Rightarrow> RecvPacket \<Rightarrow> RecvPacket" where
  "stored_recv version r = r
     \<lparr>rcv_Framer := header_view RECV (rcv_Framer r), rcv_MsgKey := [], rcv_Topic := [], rcv_ClientSeq := 0,
      rcv_StreamNo := (if IsSet (rcv_Setting r) SettingStream then rcv_StreamNo r else []),
      rcv_StreamSeq := (if IsSet (rcv_Setting r) SettingStream then rcv_StreamSeq r else 0),
      rcv_StreamFlag := (if IsSet (rcv_Setting r) SettingStream then rcv_StreamFlag r else 0),
      rcv_Expire := (if 1 \<le> version then rcv_Expire r else 0)\<rparr>"

definition storable :: "message \<Rightarrow> bool" where
  "storable m \<longleftrightarrow>
     (let r = msg_RecvPacket m in length (rcv_ClientMsgNo r) < 32768 \<and> length (rcv_StreamNo r) < 32768 \<and>
        length (rcv_FromUID r) < 32768 \<and> length (rcv_ChannelID r) < 32768)"

lemma header_roundtrip_recv: "FramerFromUint8 (ToFixHeaderUint8 RECV f) = header_view RECV f"
  by (simp add: header_roundtrip)

lemma Unmarshal_Marshal:
  assumes "storable m"
  shows "UnmarshalMessage (MarshalMessage version m) m' =
    Ret (m'\<lparr>msg_RecvPacket := stored_recv version (msg_RecvPacket m)\<rparr>)"
  using assms unfolding UnmarshalMessage_def MarshalMessage_def storable_def Let_def codec_ids
  by (intro run_reader_reads_end)
    (rule roundtrip_intros | simp add: header_roundtrip_recv stored_recv_def; fail)+

section \<open>The log record\<close>

abbreviation (input) MagicNumber :: bytes where "MagicNumber \<equiv> [0x15, 0x16]"
abbreviation (input) MessageVersion :: bytes where "MessageVersion \<equiv> [0x01]"
abbreviation (input) EndMagicNumber :: bytes where "EndMagicNumber \<equiv> [0x3]"
abbreviation (input) MessageDataLenSize :: nat where "MessageDataLenSize \<equiv> 4"
abbreviation (input) MessageSeqSize :: nat where "MessageSeqSize \<equiv> 8"
abbreviation (input) AppliIndexSize :: nat where "AppliIndexSize \<equiv> 8"

definition Encoding_Uint32 :: "bytes \<Rightarrow> u32" where
  "Encoding_Uint32 b = push_bit 24 (ucast (b ! 0)) OR push_bit 16 (ucast (b ! 1)) OR
     push_bit 8 (ucast (b ! 2)) OR ucast (b ! 3)"

definition Encoding_Uint64 :: "bytes \<Rightarrow> u64" where
  "Encoding_Uint64 b = push_bit 56 (ucast (b ! 0)) OR push_bit 48 (ucast (b ! 1)) OR
     push_bit 40 (ucast (b ! 2)) OR push_bit 32 (ucast (b ! 3)) OR
     push_bit 24 (ucast (b ! 4)) OR push_bit 16 (ucast (b ! 5)) OR
     push_bit 8 (ucast (b ! 6)) OR ucast (b ! 7)"

lemma Encoding_Uint32_Write [simp]: "Encoding_Uint32 (WriteUint32 i) = i"
  by (simp add: Encoding_Uint32_def WriteUint32_def byte_join take_bit_own_32)

lemma Encoding_Uint64_Write [simp]: "Encoding_Uint64 (WriteUint64 i) = i"
  by (simp add: Encoding_Uint64_def WriteUint64_def byte_join take_bit_own_64)

definition EncodeMessage :: "u32 \<Rightarrow> bytes \<Rightarrow> bytes" where
  "EncodeMessage messageSeq data =
     MagicNumber @ MessageVersion @ WriteUint32 (word_of_nat (length data)) @
     WriteUint64 (ucast messageSeq) @ WriteUint64 0 @ data @ EndMagicNumber"

definition DecodeMessage :: "bytes \<Rightarrow> (u32 \<times> bytes) outcome" where
  "DecodeMessage msg =
     bindR (slice msg 0 2) (\<lambda>magicNum.
     if magicNum \<noteq> MagicNumber then Fail (ErrMsg ''start magicNumber'')
     else if length msg \<le> 2 then Panic
     else
       bindR (slice msg 3 (3 + MessageDataLenSize)) (\<lambda>l.
       bindR (slice msg 7 (7 + MessageSeqSize)) (\<lambda>s.
       bindR (slice msg 15 (15 + AppliIndexSize)) (\<lambda>_.
       let dataLen = unat (Encoding_Uint32 l) in
       bindR (slice msg 23 (23 + dataLen)) (\<lambda>data.
       bindR (slice msg (23 + dataLen) (1 + (23 + dataLen))) (\<lambda>endMagicNum.
       if endMagicNum \<noteq> EndMagicNumber then Fail (ErrMsg ''end magicNumber'')
       else Ret (ucast (Encoding_Uint64 s), data)))))))"

definition Message_Encode :: "message \<Rightarrow> bytes" where
  "Message_Encode m = EncodeMessage (GetSeq m) (MarshalMessage 1 m)"

text \<open>
  \<open>Decode\<close> fills a fresh message. When the header, version or setting byte is missing,
  \<open>UnmarshalMessage\<close> returns its error before it has set the packet, and the assignment of the
  sequence number that follows dereferences a nil pointer.
\<close>

definition Message_Decode :: "bytes \<Rightarrow> message outcome" where
  "Message_Decode msg =
     bindR (DecodeMessage msg) (\<lambda>(messageSeq, data).
       if length data < 3 then Panic
       else mapR (SetSeq messageSeq) (UnmarshalMessage data empty_message))"

lemma length_EncodeMessage [simp]: "length (EncodeMessage s data) = 24 + length data"
  by (simp add: EncodeMessage_def)

lemma unat_length: "n < 2 ^ 32 \<Longrightarrow> unat (word_of_nat n :: u32) = n"
  by (simp add: unat_of_nat take_bit_nat_eq_self)

lemma slice_at:
  "length pre = lo \<Longrightarrow> length bs + lo = hi \<Longrightarrow> slice (pre @ bs @ post) lo hi = Ret bs"
  by (auto simp: slice_def)

lemma DecodeMessage_EncodeMessage:
  assumes "length data < 2 ^ 32"
  shows "DecodeMessage (EncodeMessage s data) = Ret (s, data)"
proof -
  let ?m = "MagicNumber @ MessageVersion"
  let ?len = "WriteUint32 (word_of_nat (length data))"
  let ?seq = "WriteUint64 (ucast s)" and ?idx = "WriteUint64 0"
  note at = slice_at [of "[]" 0 MagicNumber 2 "MessageVersion @ ?len @ ?seq @ ?idx @ data @ EndMagicNumber"]
    slice_at [of ?m 3 ?len 7 "?seq @ ?idx @ data @ EndMagicNumber"]
    slice_at [of "?m @ ?len" 7 ?seq 15 "?idx @ data @ EndMagicNumber"]
    slice_at [of "?m @ ?len @ ?seq" 15 ?idx 23 "data @ EndMagicNumber"]
    slice_at [of "?m @ ?len @ ?seq @ ?idx" 23 data "23 + length data" EndMagicNumber]
    slice_at [of "?m @ ?len @ ?seq @ ?idx @ data" "23 + length data" EndMagicNumber "24 + length data" "[]"]
  have "ucast (ucast s :: u64) = s"
    by (rule bit_word_eqI) (auto simp: bit_simps)
  with at assms show ?thesis
    by (simp add: DecodeMessage_def EncodeMessage_def unat_length Let_def)
qed

text \<open>The bytes of a message in the log decode to what the storage codec keeps of it.\<close>

definition stored :: "message \<Rightarrow> message" where
  "stored m = empty_message\<lparr>msg_RecvPacket := stored_recv 1 (msg_RecvPacket m)\<rparr>"

lemma length_MarshalMessage: "3 \<le> length (MarshalMessage v m)"
  by (simp add: MarshalMessage_def Let_def)

lemma Message_Decode_Encode:
  assumes "storable m" and "length (MarshalMessage 1 m) < 2 ^ 32"
  shows "Message_Decode (Message_Encode m) = Ret (stored m)"
proof -
  have "SetSeq (GetSeq m) (stored m) = stored m"
    by (simp add: stored_def SetSeq_def GetSeq_def stored_recv_def)
  with assms length_MarshalMessage [of 1 m] show ?thesis
    by (simp add: Message_Decode_def Message_Encode_def DecodeMessage_EncodeMessage mapR_def
        Unmarshal_Marshal stored_def not_less)
qed

lemma stored_ids [simp]: "GetSeq (stored m) = GetSeq m" "GetMessageID (stored m) = GetMessageID m"
  by (simp_all add: stored_def GetSeq_def GetMessageID_def stored_recv_def)

end
