(* ===== verification/RetryQueue.thy ===== *)
theory RetryQueue
  imports InFlight Messages
begin

text \<open>
  The retry queue, \<^verbatim>\<open>internal/server/retry_queue.go\<close>: messages sent to a device and not yet
  acknowledged, in a table by receiver, device and message ID, and in the priority queue by the
  time of the next attempt. Messages are references; \<open>heap\<close> gives the message behind each. The
  lemmas say that an acknowledged message is not retried, that the scan hands over exactly the
  messages that are due, and when a scan stops early.
\<close>

section \<open>State and operations\<close>

type_synonym msgheap = "msgref \<Rightarrow> message"

record retryQueue =
  inFlightPQ :: inflight
  inFlightMessages :: "gostring \<rightharpoonup> msgref"

definition NewRetryQueue :: retryQueue where
  "NewRetryQueue = \<lparr>inFlightPQ = newInFlightPqueue, inFlightMessages = Map.empty\<rparr>"

definition getInFlightKey :: "gostring \<Rightarrow> gostring \<Rightarrow> i64 \<Rightarrow> gostring" where
  "getInFlightKey uid deviceID messageID = uid @ str ''_'' @ deviceID @ str ''_'' @ dec_int (sint messageID)"

definition inflight_key :: "message \<Rightarrow> gostring" where
  "inflight_key m = getInFlightKey (msg_ToUID m) (msg_toDeviceID m) (GetMessageID m)"

definition pushInFlightMessage :: "msgheap \<Rightarrow> msgref \<Rightarrow> retryQueue \<Rightarrow> retryQueue" where
  "pushInFlightMessage heap x r =
     (let key = inflight_key (heap x) in
      case inFlightMessages r key of
        Some _ \<Rightarrow> r
      | None \<Rightarrow> r\<lparr>inFlightMessages := (inFlightMessages r)(key \<mapsto> x)\<rparr>)"

definition addToInFlightPQ :: "msgref \<Rightarrow> retryQueue \<Rightarrow> retryQueue" where
  "addToInFlightPQ x r = r\<lparr>inFlightPQ := pq_Push x (inFlightPQ r)\<rparr>"

definition startInFlightTimeout :: "msgheap \<Rightarrow> int \<Rightarrow> int \<Rightarrow> msgref \<Rightarrow> retryQueue \<Rightarrow> retryQueue" where
  "startInFlightTimeout heap now interval x r =
     (let pq = inFlightPQ r;
          r = r\<lparr>inFlightPQ := pq\<lparr>pq_pri := (pq_pri pq)(x := now + interval)\<rparr>\<rparr>
      in addToInFlightPQ x (pushInFlightMessage heap x r))"

definition popInFlightMessage :: "gostring \<Rightarrow> gostring \<Rightarrow> i64 \<Rightarrow> retryQueue \<Rightarrow> (msgref \<times> retryQueue) outcome" where
  "popInFlightMessage uid deviceID messageID r =
     (let key = getInFlightKey uid deviceID messageID in
      case inFlightMessages r key of
        None \<Rightarrow> Fail (ErrMsg ''ID not in flight'')
      | Some x \<Rightarrow> Ret (x, r\<lparr>inFlightMessages := (inFlightMessages r)(key := None)\<rparr>))"

definition removeFromInFlightPQ :: "msgref \<Rightarrow> retryQueue \<Rightarrow> retryQueue" where
  "removeFromInFlightPQ x r =
     (let pq = inFlightPQ r in
      if pq_index pq x = -1 then r
      else r\<lparr>inFlightPQ := snd (pq_Remove (nat (pq_index pq x)) pq)\<rparr>)"

definition finishMessage :: "gostring \<Rightarrow> gostring \<Rightarrow> i64 \<Rightarrow> retryQueue \<Rightarrow> retryQueue outcome" where
  "finishMessage uid deviceID messageID r =
     bindR (popInFlightMessage uid deviceID messageID r) (\<lambda>(x, r). Ret (removeFromInFlightPQ x r))"

text \<open>\<open>pq_Remove\<close> and \<open>pq_PeekAndShift\<close> never lengthen the queue, and a shift shortens it.\<close>

lemma pq_drop_last_length: "length (pq_items (snd (pq_drop_last q))) = length (pq_items q) - 1"
  by (simp add: pq_drop_last_def Let_def)

lemma pq_Remove_length: "length (pq_items (snd (pq_Remove i q))) = length (pq_items q) - 1"
  by (simp add: pq_Remove_def Let_def pq_drop_last_length)

lemma pq_PeekAndShift_length:
  "pq_PeekAndShift t q = (Some x, q') \<Longrightarrow> length (pq_items q') < length (pq_items q)"
  using pq_drop_last_length [of "pq_down 0 (length (pq_items q) - 1) (pq_Swap 0 (length (pq_items q) - 1) q)"]
  by (auto simp: pq_PeekAndShift_def pq_Pop_def Let_def split: if_splits prod.splits)

lemma finishMessage_length:
  "finishMessage u d m r = Ret r' \<Longrightarrow> length (pq_items (inFlightPQ r')) \<le> length (pq_items (inFlightPQ r))"
  by (auto simp: finishMessage_def popInFlightMessage_def removeFromInFlightPQ_def Let_def
      pq_Remove_length split: option.splits if_splits)

text \<open>
  One scan: the messages it submits for another delivery, in order. It stops when nothing is due
  and also, with messages still due, when a message it has shifted is not in the table.
\<close>

function processInFlightQueue :: "msgheap \<Rightarrow> int \<Rightarrow> retryQueue \<Rightarrow> msgref list \<times> retryQueue" where
  "processInFlightQueue heap t r =
     (case pq_PeekAndShift t (inFlightPQ r) of
        (None, pq) \<Rightarrow> ([], r\<lparr>inFlightPQ := pq\<rparr>)
      | (Some x, pq) \<Rightarrow>
          let r = r\<lparr>inFlightPQ := pq\<rparr>; m = heap x in
          case finishMessage (msg_ToUID m) (msg_toDeviceID m) (GetMessageID m) r of
            Ret r \<Rightarrow> let (xs, r) = processInFlightQueue heap t r in (x # xs, r)
          | _ \<Rightarrow> ([], r))"
  by pat_completeness auto
termination
  by (relation "measure (\<lambda>(_, _, r). length (pq_items (inFlightPQ r)))")
    (auto dest!: pq_PeekAndShift_length [OF sym] finishMessage_length)

declare processInFlightQueue.simps [simp del]

section \<open>Invariants\<close>

text \<open>
  Every message of the table is queued and stored under its own key. The queue may hold further
  messages: a second one for the same device and message ID is queued but not stored.
\<close>

definition rq_invar :: "msgheap \<Rightarrow> retryQueue \<Rightarrow> bool" where
  "rq_invar heap r \<longleftrightarrow> pq_invar (inFlightPQ r) \<and>
     (\<forall>k x. inFlightMessages r k = Some x \<longrightarrow> x \<in># mset (pq_items (inFlightPQ r)) \<and> inflight_key (heap x) = k)"

text \<open>No message is queued without being stored: no duplicate is in flight.\<close>

definition rq_full :: "msgheap \<Rightarrow> retryQueue \<Rightarrow> bool" where
  "rq_full heap r \<longleftrightarrow> rq_invar heap r \<and>
     (\<forall>x. x \<in># mset (pq_items (inFlightPQ r)) \<longrightarrow> inFlightMessages r (inflight_key (heap x)) = Some x)"

definition in_queue :: "msgref \<Rightarrow> retryQueue \<Rightarrow> bool" where
  "in_queue x r \<longleftrightarrow> x \<in> set (pq_items (inFlightPQ r))"

definition due_at :: "retryQueue \<Rightarrow> msgref \<Rightarrow> int" where
  "due_at r x = pq_pri (inFlightPQ r) x"

lemma NewRetryQueue_full: "rq_full heap NewRetryQueue"
  using newInFlightPqueue_invar
  by (simp add: rq_full_def rq_invar_def NewRetryQueue_def newInFlightPqueue_def)

lemma pq_invar_set_pri:
  assumes "pq_invar q" and "x \<notin> set (pq_items q)"
  shows "pq_invar (q\<lparr>pq_pri := (pq_pri q)(x := p)\<rparr>)"
proof -
  have "pri_at (q\<lparr>pq_pri := (pq_pri q)(x := p)\<rparr>) k = pri_at q k" if "k < length (pq_items q)" for k
    using assms(2) that nth_mem [OF that] by (auto simp: pri_at_def)
  moreover have "parent k < length (pq_items q)" if "0 < k" "k < length (pq_items q)" for k
    using parent_less [OF that(1)] that(2) by linarith
  ultimately show ?thesis
    using assms(1) by (auto simp: pq_invar_def heap_on_def edge_ok_def indexed_def)
qed

lemma push_set_pri:
  fixes q :: inflight
  assumes "pq_invar q" and "x \<notin># mset (pq_items q)"
  shows "pq_invar (pq_Push x (q\<lparr>pq_pri := (pq_pri q)(x := p)\<rparr>))"
    and "mset (pq_items (pq_Push x (q\<lparr>pq_pri := (pq_pri q)(x := p)\<rparr>))) = add_mset x (mset (pq_items q))"
    and "pq_pri (pq_Push x (q\<lparr>pq_pri := (pq_pri q)(x := p)\<rparr>)) = (pq_pri q)(x := p)"
  using inflight.push [of "q\<lparr>pq_pri := (pq_pri q)(x := p)\<rparr>" x] pq_invar_set_pri [of q x p] assms
  by simp_all

lemma startInFlightTimeout_queue:
  assumes "rq_invar heap r" and "\<not> in_queue x r"
  shows "pq_invar (inFlightPQ (startInFlightTimeout heap now interval x r))"
    and "mset (pq_items (inFlightPQ (startInFlightTimeout heap now interval x r))) =
      add_mset x (mset (pq_items (inFlightPQ r)))"
    and "due_at (startInFlightTimeout heap now interval x r) = (due_at r)(x := now + interval)"
  using push_set_pri [of "inFlightPQ r" x] assms
  by (auto simp: startInFlightTimeout_def addToInFlightPQ_def pushInFlightMessage_def rq_invar_def
      in_queue_def due_at_def Let_def fun_eq_iff split: option.split)

lemma startInFlightTimeout_table:
  "inFlightMessages (startInFlightTimeout heap now interval x r) =
    (case inFlightMessages r (inflight_key (heap x)) of
       Some _ \<Rightarrow> inFlightMessages r
     | None \<Rightarrow> (inFlightMessages r)(inflight_key (heap x) \<mapsto> x))"
  by (auto simp: startInFlightTimeout_def addToInFlightPQ_def pushInFlightMessage_def Let_def
      split: option.split)

lemma startInFlightTimeout_invar:
  assumes "rq_invar heap r" and "\<not> in_queue x r"
  shows "rq_invar heap (startInFlightTimeout heap now interval x r)"
  using startInFlightTimeout_queue [OF assms] assms(1)
  by (auto simp: rq_invar_def startInFlightTimeout_table split: option.split if_splits)

lemma startInFlightTimeout_full:
  assumes "rq_full heap r" and "\<not> in_queue x r" and "inFlightMessages r (inflight_key (heap x)) = None"
  shows "rq_full heap (startInFlightTimeout heap now interval x r)"
proof -
  from assms(1) have "rq_invar heap r" by (simp add: rq_full_def)
  with startInFlightTimeout_queue(2) [OF this assms(2)] startInFlightTimeout_invar [OF this assms(2)] assms
  show ?thesis
    by (auto simp: rq_full_def startInFlightTimeout_table)
qed

section \<open>Acknowledgement\<close>

lemma finishMessage_cases:
  assumes "rq_invar heap r" and "finishMessage u d m r = Ret r'"
  obtains x where "inFlightMessages r (getInFlightKey u d m) = Some x"
    and "rq_invar heap r'" and "mset (pq_items (inFlightPQ r)) = add_mset x (mset (pq_items (inFlightPQ r')))"
    and "due_at r' = due_at r" and "inFlightMessages r' = (inFlightMessages r)(getInFlightKey u d m := None)"
proof -
  from assms(2) obtain x where x: "inFlightMessages r (getInFlightKey u d m) = Some x"
    and r': "r' = removeFromInFlightPQ x (r\<lparr>inFlightMessages := (inFlightMessages r)(getInFlightKey u d m := None)\<rparr>)"
    by (auto simp: finishMessage_def popInFlightMessage_def Let_def split: option.splits)
  from assms(1) x have inq: "x \<in># mset (pq_items (inFlightPQ r))" and pq: "pq_invar (inFlightPQ r)"
    and key: "inflight_key (heap x) = getInFlightKey u d m"
    by (auto simp: rq_invar_def)
  obtain y pq' where rem: "pq_Remove (nat (pq_index (inFlightPQ r) x)) (inFlightPQ r) = (y, pq')"
    by (cases "pq_Remove (nat (pq_index (inFlightPQ r) x)) (inFlightPQ r)")
  note spec = inflight.remove [OF pq inq rem]
  from inflight.pos_in [OF pq inq] r' rem
  have pq': "inFlightPQ r' = pq'" "inFlightMessages r' = (inFlightMessages r)(getInFlightKey u d m := None)"
    by (auto simp: removeFromInFlightPQ_def Let_def)
  have "rq_invar heap r'"
    unfolding rq_invar_def pq'
  proof (intro conjI allI impI)
    fix k z
    assume "((inFlightMessages r)(getInFlightKey u d m := None)) k = Some z"
    then have k: "k \<noteq> getInFlightKey u d m" "inFlightMessages r k = Some z" by (auto split: if_splits)
    with assms(1) have z: "z \<in># mset (pq_items (inFlightPQ r))" "inflight_key (heap z) = k"
      unfolding rq_invar_def by blast+
    with key k(1) have "z \<noteq> x" by auto
    with z spec show "z \<in># mset (pq_items pq')" "inflight_key (heap z) = k" by auto
  qed (use spec in simp)
  moreover have "due_at r' = due_at r"
    using spec pq'(1) by (simp add: due_at_def fun_eq_iff)
  ultimately show thesis
    using that x spec pq' by blast
qed

lemma queue_distinct: "pq_invar q \<Longrightarrow> mset (pq_items q) = add_mset x M \<Longrightarrow> x \<notin># M"
  unfolding pq_invar_def indexed_def distinct_count_atmost_1
  by (metis One_nat_def add_mset_commute count_add_mset in_diff_count less_irrefl_nat mset_add n_not_Suc_n
      count_greater_zero_iff old.nat.inject set_mset_mset union_single_eq_member)

lemma rq_full_finish:
  assumes "rq_full heap r" and "finishMessage u d m r = Ret r'"
  shows "rq_full heap r'"
proof -
  from assms(1) have inv: "rq_invar heap r" by (simp add: rq_full_def)
  from finishMessage_cases [OF inv assms(2)] obtain x
    where x: "inFlightMessages r (getInFlightKey u d m) = Some x" "rq_invar heap r'"
      "mset (pq_items (inFlightPQ r)) = add_mset x (mset (pq_items (inFlightPQ r')))"
      "inFlightMessages r' = (inFlightMessages r)(getInFlightKey u d m := None)"
    by blast
  have "inFlightMessages r' (inflight_key (heap y)) = Some y" if "y \<in># mset (pq_items (inFlightPQ r'))" for y
  proof -
    from inv have "pq_invar (inFlightPQ r)" by (simp add: rq_invar_def)
    with queue_distinct [OF _ x(3)] that have "y \<noteq> x" by auto
    moreover have "inFlightMessages r (inflight_key (heap y)) = Some y"
      using assms(1) that x(3) by (simp add: rq_full_def)
    ultimately show ?thesis
      using x(1,4) by auto
  qed
  with x(2) show ?thesis by (simp add: rq_full_def)
qed

section \<open>The scan\<close>

lemma scan_step:
  assumes "rq_invar heap r" and "pq_PeekAndShift t (inFlightPQ r) = (Some x, pq)"
    and "inFlightMessages r (inflight_key (heap x)) = Some x"
  obtains r' where "finishMessage (msg_ToUID (heap x)) (msg_toDeviceID (heap x)) (GetMessageID (heap x))
      (r\<lparr>inFlightPQ := pq\<rparr>) = Ret r'"
    and "r' = r\<lparr>inFlightPQ := pq, inFlightMessages := (inFlightMessages r)(inflight_key (heap x) := None)\<rparr>"
proof
  from assms(1) have "pq_invar (inFlightPQ r)" by (simp add: rq_invar_def)
  from inflight.shift_some [OF this assms(2)] assms(3)
  show "finishMessage (msg_ToUID (heap x)) (msg_toDeviceID (heap x)) (GetMessageID (heap x))
      (r\<lparr>inFlightPQ := pq\<rparr>) =
    Ret (r\<lparr>inFlightPQ := pq, inFlightMessages := (inFlightMessages r)(inflight_key (heap x) := None)\<rparr>)"
    by (simp add: finishMessage_def popInFlightMessage_def removeFromInFlightPQ_def inflight_key_def Let_def)
qed simp

lemma rq_full_step:
  assumes "rq_full heap r" and "pq_PeekAndShift t (inFlightPQ r) = (Some x, pq)"
  shows "rq_full heap (r\<lparr>inFlightPQ := pq, inFlightMessages := (inFlightMessages r)(inflight_key (heap x) := None)\<rparr>)"
proof -
  from assms(1) have inv: "pq_invar (inFlightPQ r)" by (simp add: rq_full_def rq_invar_def)
  from inflight.shift_some [OF inv assms(2)] have pq: "pq_invar pq"
    and ms: "mset (pq_items (inFlightPQ r)) = add_mset x (mset (pq_items pq))" by simp_all
  have fresh: "x \<notin># mset (pq_items pq)" by (rule queue_distinct [OF inv ms])
  have stored: "inFlightMessages r (inflight_key (heap y)) = Some y"
    if "y \<in># mset (pq_items (inFlightPQ r))" for y
    using assms(1) that by (simp add: rq_full_def)
  have xin: "x \<in># mset (pq_items (inFlightPQ r))" by (simp add: ms)
  define r' where "r' = r\<lparr>inFlightPQ := pq, inFlightMessages := (inFlightMessages r)(inflight_key (heap x) := None)\<rparr>"
  then have r': "inFlightPQ r' = pq" "inFlightMessages r' = (inFlightMessages r)(inflight_key (heap x) := None)"
    by simp_all
  have "rq_full heap r'"
    unfolding rq_full_def rq_invar_def r'
  proof (intro conjI allI impI)
    fix k z
    assume "((inFlightMessages r)(inflight_key (heap x) := None)) k = Some z"
    then have k: "k \<noteq> inflight_key (heap x)" "inFlightMessages r k = Some z" by (auto split: if_splits)
    with assms(1) have z: "z \<in># mset (pq_items (inFlightPQ r))" "inflight_key (heap z) = k"
      unfolding rq_full_def rq_invar_def by blast+
    with k(1) have "z \<noteq> x" by auto
    with z ms show "z \<in># mset (pq_items pq)" "inflight_key (heap z) = k" by simp_all
  next
    fix y
    assume y: "y \<in># mset (pq_items pq)"
    then have "y \<in># mset (pq_items (inFlightPQ r))" by (simp add: ms)
    from stored [OF this] stored [OF xin] y fresh have "inflight_key (heap y) \<noteq> inflight_key (heap x)"
      by (metis option.inject)
    with stored [OF \<open>y \<in># mset (pq_items (inFlightPQ r))\<close>]
    show "((inFlightMessages r)(inflight_key (heap x) := None)) (inflight_key (heap y)) = Some y"
      by simp
  qed (rule pq)
  then show ?thesis by (simp add: r'_def)
qed

text \<open>
  With no duplicate in flight a scan takes out exactly the messages that are due, leaves the
  others queued, and never stops early.
\<close>

lemma processInFlightQueue_full:
  assumes "rq_full heap r"
  shows "rq_full heap (snd (processInFlightQueue heap t r)) \<and>
    mset (pq_items (inFlightPQ r)) =
      mset (fst (processInFlightQueue heap t r)) +
      mset (pq_items (inFlightPQ (snd (processInFlightQueue heap t r)))) \<and>
    due_at (snd (processInFlightQueue heap t r)) = due_at r \<and>
    (\<forall>x \<in> set (fst (processInFlightQueue heap t r)). due_at r x \<le> t) \<and>
    (\<forall>y. in_queue y (snd (processInFlightQueue heap t r)) \<longrightarrow> t < due_at r y)"
  using assms
proof (induction "length (pq_items (inFlightPQ r))" arbitrary: r rule: less_induct)
  case less
  from less.prems have inv: "rq_invar heap r" "pq_invar (inFlightPQ r)"
    by (simp_all add: rq_full_def rq_invar_def)
  obtain s pq where shift: "pq_PeekAndShift t (inFlightPQ r) = (s, pq)" by (cases "pq_PeekAndShift t (inFlightPQ r)")
  show ?case
  proof (cases s)
    case None
    with shift inflight.shift_none [OF inv(2), of t pq] less.prems show ?thesis
      by (subst (1 2 3 4 5 6) processInFlightQueue.simps) (simp add: in_queue_def due_at_def)
  next
    case (Some x)
    note shift = shift [unfolded Some]
    note spec = inflight.shift_some [OF inv(2) shift]
    define r' where "r' = r\<lparr>inFlightPQ := pq, inFlightMessages := (inFlightMessages r)(inflight_key (heap x) := None)\<rparr>"
    from spec have "x \<in># mset (pq_items (inFlightPQ r))" by simp
    with less.prems have tab: "inFlightMessages r (inflight_key (heap x)) = Some x" by (simp add: rq_full_def)
    from scan_step [OF inv(1) shift tab] have fin: "finishMessage (msg_ToUID (heap x)) (msg_toDeviceID (heap x))
        (GetMessageID (heap x)) (r\<lparr>inFlightPQ := pq\<rparr>) = Ret r'"
      unfolding r'_def by blast
    have len: "length (pq_items (inFlightPQ r')) < length (pq_items (inFlightPQ r))"
      using pq_PeekAndShift_length [OF shift] by (simp add: r'_def)
    have full: "rq_full heap r'"
      unfolding r'_def by (rule rq_full_step [OF less.prems shift])
    have step: "processInFlightQueue heap t r =
        (x # fst (processInFlightQueue heap t r'), snd (processInFlightQueue heap t r'))"
      by (subst processInFlightQueue.simps) (simp add: shift fin Let_def split_beta)
    have due: "due_at r' = due_at r"
      using spec by (simp add: r'_def due_at_def fun_eq_iff)
    from less.hyps [OF len full] spec show ?thesis
      unfolding step due by (simp add: r'_def due_at_def)
  qed
qed

text \<open>
  A duplicate: the same message ID queued twice for a device. After one acknowledgement the
  second copy is queued without being stored, and the scan that meets it stops there.
\<close>

lemma processInFlightQueue_stops:
  assumes "pq_PeekAndShift t (inFlightPQ r) = (Some x, pq)" and "inFlightMessages r (inflight_key (heap x)) = None"
  shows "processInFlightQueue heap t r = ([], r\<lparr>inFlightPQ := pq\<rparr>)"
  using assms
  by (subst processInFlightQueue.simps)
    (simp add: finishMessage_def popInFlightMessage_def inflight_key_def Let_def)

end
