(* ===== verification/LogFile.thy ===== *)
theory LogFile
  imports Messages
begin

text \<open>
  Reading message records from a log file, \<^verbatim>\<open>pkg/okstore/const.go\<close>: \<open>nextMessageIsVail\<close>,
  \<open>decodeMessageAt\<close> and \<open>decodeMessageSeq\<close>. A file is the list of its bytes; \<open>ReadAt\<close> fails with
  end of file when it cannot fill its buffer. The lemmas fix what these functions see at the
  start of a record, and that they see no record where one is cut off.
\<close>

definition ReadAt :: "bytes \<Rightarrow> nat \<Rightarrow> nat \<Rightarrow> bytes outcome" where
  "ReadAt file off n = (if n = 0 \<or> off + n \<le> length file then Ret (take n (drop off file)) else Fail ErrEOF)"

definition getMinMessageLen :: nat where
  "getMinMessageLen = 2 + 1 + MessageDataLenSize + MessageSeqSize + AppliIndexSize + 1"

text \<open>
  \<open>nextMessageIsVail\<close> returns a count in every case: the length of the record on success, the
  number of bytes that its reads delivered so far with an error.
\<close>

definition ReadAt_n :: "bytes \<Rightarrow> nat \<Rightarrow> nat \<Rightarrow> nat" where
  "ReadAt_n file off n = min n (length file - off)"

definition nextMessageIsVail :: "bytes \<Rightarrow> nat \<Rightarrow> nat \<times> go_error option" where
  "nextMessageIsVail file startOffset =
     (let minN = ReadAt_n file startOffset 2 in
      case ReadAt file startOffset 2 of
        Fail e \<Rightarrow> (minN, Some e)
      | Panic \<Rightarrow> (minN, None)
      | Ret startMagic \<Rightarrow>
          if startMagic \<noteq> MagicNumber then (minN, Some (ErrMsg ''start MagicNumber''))
          else
            let offset = startOffset + 2 + 1;
                dataLenN = ReadAt_n file offset MessageDataLenSize in
            case ReadAt file offset MessageDataLenSize of
              Fail e \<Rightarrow> (minN + dataLenN, Some e)
            | Panic \<Rightarrow> (minN, None)
            | Ret dataLenBytes \<Rightarrow>
                let dataLen = unat (Encoding_Uint32 dataLenBytes);
                    offset = startOffset + (getMinMessageLen + dataLen - 1);
                    endMagicN = ReadAt_n file offset 1 in
                case ReadAt file offset 1 of
                  Fail e \<Rightarrow> (minN + dataLenN + endMagicN, Some e)
                | Panic \<Rightarrow> (minN, None)
                | Ret endMagic \<Rightarrow>
                    if endMagic \<noteq> EndMagicNumber
                    then (minN + dataLenN + endMagicN, Some (ErrMsg ''end MagicNumber''))
                    else (getMinMessageLen + dataLen, None))"

text \<open>\<open>decodeMessageFnc\<close> is the server's \<open>Message.Decode\<close> on a fresh message.\<close>

definition decodeMessageAt :: "bytes \<Rightarrow> nat \<Rightarrow> (message \<times> nat) outcome" where
  "decodeMessageAt file offsetPosition =
     (let minLen = getMinMessageLen - 1 in
      bindR (ReadAt file offsetPosition minLen) (\<lambda>minBytes.
      bindR (slice minBytes 0 2) (\<lambda>magicNum.
      if magicNum \<noteq> MagicNumber then Fail (ErrMsg ''start magicNumber'')
      else
        bindR (slice minBytes 3 (MessageDataLenSize + 3)) (\<lambda>dl.
        let dataLen = unat (Encoding_Uint32 dl) in
        bindR (ReadAt file (offsetPosition + minLen + dataLen) 1) (\<lambda>endMagicNum.
        if endMagicNum \<noteq> EndMagicNumber then Fail (ErrMsg ''end magicNumber'')
        else
          let total = minLen + dataLen + 1 in
          bindR (ReadAt file offsetPosition total) (\<lambda>totalData.
          bindR (Message_Decode totalData) (\<lambda>m. Ret (m, total))))))))"

definition decodeMessageSeq :: "bytes \<Rightarrow> nat \<Rightarrow> (u32 \<times> nat) outcome" where
  "decodeMessageSeq file position =
     bindR (ReadAt file (position + (2 + 1)) MessageDataLenSize) (\<lambda>sizeByte.
     bindR (ReadAt file (position + (2 + 1 + MessageDataLenSize)) MessageSeqSize) (\<lambda>messageSeqByte.
     Ret (ucast (Encoding_Uint64 messageSeqByte), unat (Encoding_Uint32 sizeByte))))"

section \<open>At the start of a record\<close>

lemma ReadAt_mid:
  assumes "off = length pre" and "n = length bs"
  shows "ReadAt (pre @ bs @ post) off n = Ret bs"
  using assms by (simp add: ReadAt_def)

text \<open>A message that the log can hold: it decodes to what was stored, and its size fits.\<close>

definition loggable :: "message \<Rightarrow> bool" where
  "loggable m \<longleftrightarrow> storable m \<and> length (MarshalMessage 1 m) < 2 ^ 31"

lemma Message_Encode_eq:
  "Message_Encode m = MagicNumber @ MessageVersion @ WriteUint32 (word_of_nat (length (MarshalMessage 1 m))) @
     WriteUint64 (ucast (GetSeq m)) @ WriteUint64 0 @ MarshalMessage 1 m @ EndMagicNumber"
  by (simp add: Message_Encode_def EncodeMessage_def)

lemma length_Message_Encode: "length (Message_Encode m) = 24 + length (MarshalMessage 1 m)"
  by (simp add: Message_Encode_def)

lemma Message_Encode_pos [simp]: "0 < length (Message_Encode m)" "Message_Encode m \<noteq> []"
  using length_Message_Encode [of m] by auto

text \<open>The fields of a record inside a file, by position.\<close>

lemma record_fields:
  fixes pre post :: bytes and m :: message
  defines "file \<equiv> pre @ Message_Encode m @ post" and "p \<equiv> length pre" and "dl \<equiv> length (MarshalMessage 1 m)"
  shows "ReadAt file p 2 = Ret MagicNumber"
    and "ReadAt file (p + 3) 4 = Ret (WriteUint32 (word_of_nat dl))"
    and "ReadAt file (p + 7) 8 = Ret (WriteUint64 (ucast (GetSeq m)))"
    and "ReadAt file (p + 23 + dl) 1 = Ret EndMagicNumber"
    and "ReadAt file p 23 = Ret (MagicNumber @ MessageVersion @ WriteUint32 (word_of_nat dl) @
           WriteUint64 (ucast (GetSeq m)) @ WriteUint64 0)"
    and "ReadAt file p (24 + dl) = Ret (Message_Encode m)"
  using ReadAt_mid [of p pre 2 MagicNumber]
    ReadAt_mid [of "p + 3" "pre @ MagicNumber @ MessageVersion" 4 "WriteUint32 (word_of_nat dl)"]
    ReadAt_mid [of "p + 7" "pre @ MagicNumber @ MessageVersion @ WriteUint32 (word_of_nat dl)" 8
      "WriteUint64 (ucast (GetSeq m))"]
    ReadAt_mid [of "p + 23 + dl" "pre @ MagicNumber @ MessageVersion @ WriteUint32 (word_of_nat dl) @
      WriteUint64 (ucast (GetSeq m)) @ WriteUint64 0 @ MarshalMessage 1 m" 1 EndMagicNumber]
    ReadAt_mid [of p pre 23 "MagicNumber @ MessageVersion @ WriteUint32 (word_of_nat dl) @
      WriteUint64 (ucast (GetSeq m)) @ WriteUint64 0"]
    ReadAt_mid [of p pre "24 + dl" "Message_Encode m" post]
  unfolding file_def p_def dl_def
  by (simp_all add: Message_Encode_eq)

lemma unat_data_length: "loggable m \<Longrightarrow>
    unat (word_of_nat (length (MarshalMessage 1 m)) :: u32) = length (MarshalMessage 1 m)"
  by (simp add: loggable_def unat_length)

lemma ucast_seq: "(ucast (ucast (s :: u32) :: u64) :: u32) = s"
  by (rule bit_word_eqI) (auto simp: bit_simps)

lemma nextMessageIsVail_record:
  assumes "loggable m"
  shows "nextMessageIsVail (pre @ Message_Encode m @ post) (length pre) = (length (Message_Encode m), None)"
  using record_fields [of pre m post] unat_data_length [OF assms]
  by (simp add: nextMessageIsVail_def getMinMessageLen_def Let_def length_Message_Encode add.assoc
      numeral_eq_Suc)

lemma decodeMessageAt_record:
  assumes "loggable m"
  shows "decodeMessageAt (pre @ Message_Encode m @ post) (length pre) = Ret (stored m, length (Message_Encode m))"
proof -
  let ?w = "WriteUint32 (word_of_nat (length (MarshalMessage 1 m)))"
  let ?min = "MagicNumber @ MessageVersion @ ?w @ WriteUint64 (ucast (GetSeq m)) @ WriteUint64 0"
  have "Message_Decode (Message_Encode m) = Ret (stored m)"
    using assms by (intro Message_Decode_Encode) (simp_all add: loggable_def)
  moreover have "slice ?min 0 2 = Ret MagicNumber"
    using slice_at [of "[]" 0 MagicNumber 2] by simp
  moreover have "slice ?min 3 7 = Ret ?w"
    using slice_at [of "MagicNumber @ MessageVersion" 3 ?w 7] by simp
  ultimately show ?thesis
    using record_fields [of pre m post] unat_data_length [OF assms]
    by (simp add: decodeMessageAt_def getMinMessageLen_def Let_def length_Message_Encode add.assoc
        numeral_eq_Suc)
qed

lemma decodeMessageSeq_record:
  assumes "loggable m"
  shows "decodeMessageSeq (pre @ Message_Encode m @ post) (length pre) =
    Ret (GetSeq m, length (MarshalMessage 1 m))"
  using record_fields [of pre m post] unat_data_length [OF assms]
  by (simp add: decodeMessageSeq_def ucast_seq numeral_eq_Suc)

text \<open>A record of which the end is missing is no record.\<close>

lemma ReadAt_beyond: "0 < n \<Longrightarrow> length file < off + n \<Longrightarrow> ReadAt file off n = Fail ErrEOF"
  by (simp add: ReadAt_def)

lemma ReadAt_take:
  assumes "ReadAt (pre @ bs) off n = Ret x" and "off + n \<le> length pre + k" and "k \<le> length bs" and "0 < n"
  shows "ReadAt (pre @ take k bs) off n = Ret x"
proof -
  have "pre @ take k bs = take (length pre + k) (pre @ bs)" by simp
  with assms show ?thesis
    by (auto simp: ReadAt_def take_drop min_def simp del: take_append drop_append split: if_splits)
qed

lemma nextMessageIsVail_torn:
  assumes "loggable m" and "k < length (Message_Encode m)"
  shows "snd (nextMessageIsVail (pre @ take k (Message_Encode m)) (length pre)) = Some ErrEOF"
proof -
  note f = record_fields(1,2) [of pre m "[]", simplified append_Nil2]
  consider "k < 2" | "2 \<le> k" "k < 7" | "7 \<le> k" by linarith
  then show ?thesis
  proof cases
    case 1
    with ReadAt_beyond [of 2 "pre @ take k (Message_Encode m)" "length pre"] assms(2) show ?thesis
      by (simp add: nextMessageIsVail_def Let_def)
  next
    case 2
    with ReadAt_take [OF f(1), of k] ReadAt_beyond [of 4 "pre @ take k (Message_Encode m)" "length pre + 3"] assms(2)
    show ?thesis
      by (simp add: nextMessageIsVail_def Let_def numeral_eq_Suc)
  next
    case 3
    with ReadAt_take [OF f(1), of k] ReadAt_take [OF f(2), of k] unat_data_length [OF assms(1)] assms(2)
      ReadAt_beyond [of 1 "pre @ take k (Message_Encode m)" "length pre + (23 + length (MarshalMessage 1 m))"]
    show ?thesis
      by (simp add: nextMessageIsVail_def Let_def getMinMessageLen_def length_Message_Encode numeral_eq_Suc)
  qed
qed

text \<open>Success means that the whole record lies in the file.\<close>

lemma nextMessageIsVail_inside:
  assumes "nextMessageIsVail file p = (n, None)"
  shows "p + n \<le> length file" and "24 \<le> n"
  using assms
  by (auto simp: nextMessageIsVail_def Let_def ReadAt_def getMinMessageLen_def split: if_splits)

end
