(* ===== verification/SegmentIndex.thy ===== *)
theory SegmentIndex
  imports Messages
begin

text \<open>
  The sparse index of a log segment, \<^verbatim>\<open>pkg/okstore/segment_index.go\<close>. The memory map is its
  sequence of eight-byte slots, here a function from slot numbers; \<open>ix_count\<close> is the write
  position in slots. The lemmas say that \<open>Lookup\<close>, a binary search that first tries the newest
  entries, finds the last entry whose sequence number does not exceed the target.
\<close>

section \<open>The index\<close>

record entry =
  RelativeOffset :: u32
  Position :: u32

record index =
  ix_baseMessageSeq :: u32
  ix_slots :: "nat \<Rightarrow> entry"
  ix_count :: nat

record messageSeqPosition =
  sp_MessageSeq :: u32
  sp_Position :: nat

abbreviation (input) entrySize :: nat where "entrySize \<equiv> 8"
abbreviation (input) IndexMaxSizeOfByte :: nat where "IndexMaxSizeOfByte \<equiv> 2097152"

definition maxEntryNum :: nat where
  "maxEntryNum = IndexMaxSizeOfByte div entrySize"

definition warmEntries :: nat where
  "warmEntries = 8192 div entrySize"

text \<open>
  \<open>readEntryAtPosition\<close> does not read the last slot of the map: it leaves its buffer zero.
\<close>

definition readEntryAtPosition :: "(nat \<Rightarrow> entry) \<Rightarrow> nat \<Rightarrow> entry" where
  "readEntryAtPosition slots n =
     (if n + 1 \<ge> maxEntryNum then \<lparr>RelativeOffset = 0, Position = 0\<rparr> else slots n)"

text \<open>The write position after opening: the first slot with a zero offset inside the old content.\<close>

function resetPosistion :: "(nat \<Rightarrow> entry) \<Rightarrow> nat \<Rightarrow> nat \<Rightarrow> nat" where
  "resetPosistion slots content n =
     (if n \<ge> content then n
      else if RelativeOffset (readEntryAtPosition slots n) = 0 then n
      else resetPosistion slots content (n + 1))"
  by pat_completeness auto
termination
  by (relation "measure (\<lambda>(_, content, n). content - n)") auto

declare resetPosistion.simps [simp del]

definition NewIndex :: "u32 \<Rightarrow> (nat \<Rightarrow> entry) \<Rightarrow> nat \<Rightarrow> index" where
  "NewIndex baseMessageSeq slots content =
     \<lparr>ix_baseMessageSeq = baseMessageSeq, ix_slots = slots,
      ix_count = resetPosistion slots (min content maxEntryNum) 0\<rparr>"

definition IsFull :: "index \<Rightarrow> bool" where
  "IsFull idx \<longleftrightarrow> ix_count idx * entrySize \<ge> IndexMaxSizeOfByte"

definition index_Append :: "u32 \<Rightarrow> u32 \<Rightarrow> index \<Rightarrow> index" where
  "index_Append offset position idx =
     (let e = \<lparr>RelativeOffset = offset - ix_baseMessageSeq idx, Position = position\<rparr> in
      if ix_count idx * entrySize \<ge> IndexMaxSizeOfByte then idx
      else idx\<lparr>ix_slots := (ix_slots idx)(ix_count idx := e), ix_count := ix_count idx + 1\<rparr>)"

definition parseEntry :: "index \<Rightarrow> nat \<Rightarrow> messageSeqPosition" where
  "parseEntry idx mid =
     (if (mid + 1) * entrySize > maxEntryNum * entrySize
      then \<lparr>sp_MessageSeq = ix_baseMessageSeq idx, sp_Position = 0\<rparr>
      else \<lparr>sp_MessageSeq = ix_baseMessageSeq idx + RelativeOffset (ix_slots idx mid),
            sp_Position = unat (Position (ix_slots idx mid))\<rparr>)"

definition compareIndexEntry :: "messageSeqPosition \<Rightarrow> u32 \<Rightarrow> int" where
  "compareIndexEntry e target =
     (if sp_MessageSeq e > target then 1 else if sp_MessageSeq e < target then -1 else 0)"

function index_binarySearch :: "index \<Rightarrow> u32 \<Rightarrow> nat \<Rightarrow> nat \<Rightarrow> nat" where
  "index_binarySearch idx target lo hi =
     (if lo < hi then
        let mid = (lo + hi + 1) div 2;
            compareResult = compareIndexEntry (parseEntry idx mid) target in
        if compareResult > 0 then index_binarySearch idx target lo (mid - 1)
        else if compareResult < 0 then index_binarySearch idx target mid hi
        else mid
      else lo)"
  by pat_completeness auto
termination
  by (relation "measure (\<lambda>(_, _, lo, hi). hi - lo)") (auto simp: Let_def)

declare index_binarySearch.simps [simp del]

text \<open>The lower slot of the range, \<open>None\<close> for -1; the upper one has no reader.\<close>

definition indexSlotRangeFor :: "index \<Rightarrow> u32 \<Rightarrow> nat option" where
  "indexSlotRangeFor idx target =
     (let entries = ix_count idx in
      if entries = 0 then None
      else
        let firstHotEntry = entries - 1 - warmEntries in
        if compareIndexEntry (parseEntry idx firstHotEntry) target < 0
        then Some (index_binarySearch idx target firstHotEntry (entries - 1))
        else if compareIndexEntry (parseEntry idx 0) target > 0 then None
        else Some (index_binarySearch idx target 0 firstHotEntry))"

definition Lookup :: "index \<Rightarrow> u32 \<Rightarrow> messageSeqPosition" where
  "Lookup idx targetOffset =
     (case indexSlotRangeFor idx targetOffset of
        None \<Rightarrow> \<lparr>sp_MessageSeq = ix_baseMessageSeq idx, sp_Position = 0\<rparr>
      | Some lo \<Rightarrow> parseEntry idx lo)"

definition LastPosition :: "index \<Rightarrow> messageSeqPosition" where
  "LastPosition idx =
     (if ix_count idx = 0 then \<lparr>sp_MessageSeq = ix_baseMessageSeq idx, sp_Position = 0\<rparr>
      else parseEntry idx (ix_count idx - 1))"

definition TruncateEntries :: "nat \<Rightarrow> index \<Rightarrow> index outcome" where
  "TruncateEntries number idx =
     (if number * entrySize > ix_count idx * entrySize then Fail (ErrMsg ''bad truncate number'')
      else Ret (idx\<lparr>ix_count := number\<rparr>))"

section \<open>Lookup finds the last entry that is not beyond the target\<close>

definition seq_at :: "index \<Rightarrow> nat \<Rightarrow> u32" where
  "seq_at idx i = sp_MessageSeq (parseEntry idx i)"

definition index_sorted :: "index \<Rightarrow> bool" where
  "index_sorted idx \<longleftrightarrow> (\<forall>i j. i < j \<longrightarrow> j < ix_count idx \<longrightarrow> seq_at idx i < seq_at idx j)"

lemma compare_simps [simp]:
  "compareIndexEntry (parseEntry idx i) target < 0 \<longleftrightarrow> seq_at idx i < target"
  "0 < compareIndexEntry (parseEntry idx i) target \<longleftrightarrow> target < seq_at idx i"
  by (auto simp: compareIndexEntry_def seq_at_def)

definition floor_in :: "index \<Rightarrow> u32 \<Rightarrow> nat \<Rightarrow> nat \<Rightarrow> nat \<Rightarrow> bool" where
  "floor_in idx target lo hi r \<longleftrightarrow> lo \<le> r \<and> r \<le> hi \<and> seq_at idx r \<le> target \<and>
     (\<forall>j. r < j \<longrightarrow> j \<le> hi \<longrightarrow> target < seq_at idx j)"

lemma sorted_above:
  assumes "index_sorted idx" and "target \<le> seq_at idx i" and "i < j" and "j < ix_count idx"
  shows "target < seq_at idx j"
  using assms unfolding index_sorted_def by (blast intro: le_less_trans)

lemma index_binarySearch_rec:
  "index_binarySearch idx target lo hi =
     (if lo < hi then
        if target < seq_at idx ((lo + hi + 1) div 2)
        then index_binarySearch idx target lo ((lo + hi + 1) div 2 - 1)
        else if seq_at idx ((lo + hi + 1) div 2) < target
        then index_binarySearch idx target ((lo + hi + 1) div 2) hi
        else (lo + hi + 1) div 2
      else lo)"
  by (simp only: index_binarySearch.simps [of idx target lo hi] Let_def compare_simps)

lemma index_binarySearch_step:
  "lo < hi \<Longrightarrow> target < seq_at idx ((lo + hi + 1) div 2) \<Longrightarrow>
     index_binarySearch idx target lo hi = index_binarySearch idx target lo ((lo + hi + 1) div 2 - 1)"
  "lo < hi \<Longrightarrow> seq_at idx ((lo + hi + 1) div 2) < target \<Longrightarrow>
     index_binarySearch idx target lo hi = index_binarySearch idx target ((lo + hi + 1) div 2) hi"
  "lo < hi \<Longrightarrow> seq_at idx ((lo + hi + 1) div 2) = target \<Longrightarrow>
     index_binarySearch idx target lo hi = (lo + hi + 1) div 2"
  "\<not> lo < hi \<Longrightarrow> index_binarySearch idx target lo hi = lo"
  by (auto simp add: index_binarySearch_rec [of idx target lo hi] simp del: One_nat_def split: if_splits)

lemma binarySearch_spec:
  assumes "lo \<le> hi" and "hi < ix_count idx" and "index_sorted idx" and "seq_at idx lo \<le> target"
  shows "floor_in idx target lo hi (index_binarySearch idx target lo hi)"
  using assms
proof (induction "hi - lo" arbitrary: lo hi rule: less_induct)
  case less
  let ?mid = "(lo + hi + 1) div 2"
  show ?case
  proof (cases "lo < hi")
    case False
    with less.prems show ?thesis by (simp add: index_binarySearch_step floor_in_def)
  next
    case True
    then have mid: "lo < ?mid" "?mid \<le> hi" by auto
    with less.prems(2) have inside: "?mid < ix_count idx" by simp
    consider "target < seq_at idx ?mid" | "seq_at idx ?mid < target" | "seq_at idx ?mid = target"
      by (meson linorder_neqE)
    then show ?thesis
    proof cases
      case 1
      let ?r = "index_binarySearch idx target lo (?mid - 1)"
      from mid True have "?mid - 1 - lo < hi - lo" "lo \<le> ?mid - 1" by linarith+
      with less.hyps [of "?mid - 1" lo] less.prems inside have r: "floor_in idx target lo (?mid - 1) ?r"
        by simp
      have "target < seq_at idx j" if "?r < j" "j \<le> hi" for j
      proof (cases "?mid < j")
        case True
        with 1 less.prems that show ?thesis by (intro sorted_above [of idx target ?mid j]) auto
      next
        case False
        with 1 r that show ?thesis by (cases "j = ?mid") (auto simp: floor_in_def)
      qed
      moreover from r mid have "?r \<le> hi" unfolding floor_in_def by linarith
      ultimately have "floor_in idx target lo hi ?r" using r unfolding floor_in_def by blast
      with True 1 show ?thesis by (simp only: index_binarySearch_step)
    next
      case 2
      from mid True have "hi - ?mid < hi - lo" by linarith
      with less.hyps [of hi ?mid] less.prems mid 2
      have "floor_in idx target ?mid hi (index_binarySearch idx target ?mid hi)" by simp
      with mid have "floor_in idx target lo hi (index_binarySearch idx target ?mid hi)"
        unfolding floor_in_def by auto
      with True 2 show ?thesis by (simp only: index_binarySearch_step)
    next
      case 3
      have "target < seq_at idx j" if "?mid < j" "j \<le> hi" for j
        using that 3 less.prems by (intro sorted_above [of idx target ?mid j]) auto
      with mid 3 have "floor_in idx target lo hi ?mid" unfolding floor_in_def by auto
      with True 3 show ?thesis by (simp only: index_binarySearch_step)
    qed
  qed
qed

lemma Lookup_cases:
  assumes "index_sorted idx"
  obtains (base) "Lookup idx target = \<lparr>sp_MessageSeq = ix_baseMessageSeq idx, sp_Position = 0\<rparr>"
      and "\<And>j. j < ix_count idx \<Longrightarrow> target < seq_at idx j"
  | (entry) i where "i < ix_count idx" and "Lookup idx target = parseEntry idx i" and "seq_at idx i \<le> target"
      and "\<And>j. i < j \<Longrightarrow> j < ix_count idx \<Longrightarrow> target < seq_at idx j"
proof (cases "ix_count idx = 0")
  case True
  then show thesis
    by (intro base) (simp_all add: Lookup_def indexSlotRangeFor_def Let_def)
next
  case False
  define hot where "hot = ix_count idx - 1 - warmEntries"
  from False have hot: "hot < ix_count idx" "hot \<le> ix_count idx - 1" by (auto simp: hot_def)
  have after: "target < seq_at idx j" if "target < seq_at idx i" "i < j" "j < ix_count idx" for i j
    using that assms unfolding index_sorted_def by (meson less_trans)
  consider "seq_at idx hot < target" | "target \<le> seq_at idx hot" "target < seq_at idx 0"
    | "target \<le> seq_at idx hot" "seq_at idx 0 \<le> target" by (meson not_le)
  then show thesis
  proof cases
    case 1
    with False have l: "Lookup idx target = parseEntry idx (index_binarySearch idx target hot (ix_count idx - 1))"
      by (simp add: Lookup_def indexSlotRangeFor_def Let_def hot_def)
    have f: "floor_in idx target hot (ix_count idx - 1) (index_binarySearch idx target hot (ix_count idx - 1))"
      using 1 hot False assms by (intro binarySearch_spec) auto
    have "j \<le> ix_count idx - 1" if "j < ix_count idx" for j using that by linarith
    with f l False show thesis
      by (intro entry [of "index_binarySearch idx target hot (ix_count idx - 1)"]) (auto simp: floor_in_def)
  next
    case 2
    from False have "0 < ix_count idx" by simp
    with 2(2) after [of 0] have "target < seq_at idx j" if "j < ix_count idx" for j
      using that by (cases j) auto
    moreover from 2 False have "Lookup idx target = \<lparr>sp_MessageSeq = ix_baseMessageSeq idx, sp_Position = 0\<rparr>"
      by (simp add: Lookup_def indexSlotRangeFor_def Let_def hot_def not_less)
    ultimately show thesis by (intro base)
  next
    case 3
    with False have "Lookup idx target = parseEntry idx (index_binarySearch idx target 0 hot)"
      by (simp add: Lookup_def indexSlotRangeFor_def Let_def hot_def not_less)
    moreover have s: "index_binarySearch idx target 0 hot \<le> hot"
      "seq_at idx (index_binarySearch idx target 0 hot) \<le> target"
      "\<And>j. index_binarySearch idx target 0 hot < j \<Longrightarrow> j \<le> hot \<Longrightarrow> target < seq_at idx j"
      using binarySearch_spec [of 0 hot idx target] 3 hot assms by (auto simp: floor_in_def)
    moreover have "target < seq_at idx j" if "index_binarySearch idx target 0 hot < j" "j < ix_count idx" for j
    proof (cases "j \<le> hot")
      case False
      then have "seq_at idx hot < seq_at idx j"
        using that assms by (simp add: index_sorted_def)
      with 3(1) show ?thesis by (rule le_less_trans)
    qed (use s that in blast)
    ultimately show thesis
      using hot by (intro entry [of "index_binarySearch idx target 0 hot"]) auto
  qed
qed

end
