(* ===== verification/Segment.thy ===== *)
theory Segment
  imports LogFile SegmentIndex
begin

text \<open>
  A segment of a topic's log, \<^verbatim>\<open>pkg/okstore/segment.go\<close>: appending encoded messages with a sparse
  index, reading from a sequence number on, and the checks that run when the file is opened. The
  file is the list of its bytes; it is opened for appending, so a write goes to its end wherever
  \<open>position\<close> points. What the read functions hand to their callback is returned as a list.
\<close>

section \<open>State and operations\<close>

record segment =
  sg_baseMessageSeq :: u32
  sg_file :: bytes
  sg_position :: u32
  sg_fileSize :: nat
  sg_isSanityCheck :: bool
  sg_lastMsgSeq :: u32
  sg_bytesSinceLastIndexEntry :: nat
  sg_index :: index

abbreviation (input) indexIntervalBytes :: nat where "indexIntervalBytes \<equiv> 4096"

text \<open>\<open>content\<close> is what the segment's file holds on disk when it is opened.\<close>

definition newSegment :: "u32 \<Rightarrow> bytes \<Rightarrow> index \<Rightarrow> segment" where
  "newSegment baseMessageSeq content idx =
     \<lparr>sg_baseMessageSeq = baseMessageSeq, sg_file = content, sg_position = 0, sg_fileSize = 0,
      sg_isSanityCheck = False, sg_lastMsgSeq = 0, sg_bytesSinceLastIndexEntry = 0, sg_index = idx\<rparr>"

definition getFileSize :: "segment \<Rightarrow> nat" where
  "getFileSize s = (if sg_position s = 0 then sg_fileSize s else unat (sg_position s))"

definition segment_append :: "bytes \<Rightarrow> segment \<Rightarrow> nat \<times> segment" where
  "segment_append data s =
     (let n = length data in
      (n, s\<lparr>sg_file := sg_file s @ data, sg_position := sg_position s + word_of_nat n\<rparr>))"

definition segment_appendMessages :: "message list \<Rightarrow> segment \<Rightarrow> nat \<times> segment" where
  "segment_appendMessages msgs s =
     (if msgs = [] then (0, s)
      else
        let firstData = concat (map Message_Encode msgs);
            (n, s) = segment_append firstData s;
            s = (if sg_bytesSinceLastIndexEntry s > indexIntervalBytes \<or> length firstData > indexIntervalBytes
                 then s\<lparr>sg_index := index_Append (GetSeq (hd msgs)) (sg_position s - word_of_nat n) (sg_index s),
                        sg_bytesSinceLastIndexEntry := 0\<rparr>
                 else s) in
        (n, s\<lparr>sg_bytesSinceLastIndexEntry := sg_bytesSinceLastIndexEntry s + n\<rparr>))"

lemma decodeMessageAt_size:
  assumes "decodeMessageAt file p = Ret (m, n)"
  shows "24 \<le> n"
  using assms
  by (auto simp: decodeMessageAt_def bindR_eq_Ret Let_def getMinMessageLen_def split: if_splits)

function readMessagesAtPosition :: "bytes \<Rightarrow> nat \<Rightarrow> nat \<Rightarrow> nat \<Rightarrow> message list \<times> unit outcome" where
  "readMessagesAtPosition file fileSize startPosition limit =
     (if startPosition \<ge> fileSize \<or> limit = 0 then ([], Ret ())
      else
        case decodeMessageAt file startPosition of
          Fail e \<Rightarrow> ([], Fail e)
        | Panic \<Rightarrow> ([], Panic)
        | Ret (lg, msgSize) \<Rightarrow>
            let (ms, r) = readMessagesAtPosition file fileSize (startPosition + msgSize) (limit - 1) in
            (lg # ms, r))"
  by pat_completeness auto
termination
  by (relation "measure (\<lambda>(_, _, _, limit). limit)") auto

declare readMessagesAtPosition.simps [simp del]

abbreviation (input) ErrorNotData :: go_error where "ErrorNotData \<equiv> ErrMsg ''no data''"

function readTargetPosition :: "bytes \<Rightarrow> nat \<Rightarrow> nat \<Rightarrow> u32 \<Rightarrow> (nat \<times> nat) outcome" where
  "readTargetPosition file fileSize startPosition targetMessageSeq =
     (if startPosition \<ge> fileSize then Fail ErrorNotData
      else
        bindR (decodeMessageSeq file startPosition) (\<lambda>(resultOffset, dataLen).
        let nextStartPosition = startPosition + (getMinMessageLen + dataLen) in
        if resultOffset = targetMessageSeq then Ret (startPosition, nextStartPosition)
        else readTargetPosition file fileSize nextStartPosition targetMessageSeq))"
  by pat_completeness auto
termination
  by (relation "measure (\<lambda>(_, fileSize, startPosition, _). fileSize - startPosition)")
    (auto simp: getMinMessageLen_def)

declare readTargetPosition.simps [simp del]

definition segment_readMessages :: "u32 \<Rightarrow> nat \<Rightarrow> segment \<Rightarrow> message list \<times> unit outcome" where
  "segment_readMessages messageSeq limit s =
     (let messageSeqPosition = Lookup (sg_index s) messageSeq;
          start = (if sp_MessageSeq messageSeqPosition = messageSeq then Ret (sp_Position messageSeqPosition)
                   else mapR fst (readTargetPosition (sg_file s) (getFileSize s)
                          (sp_Position messageSeqPosition) messageSeq)) in
      case start of
        Fail e \<Rightarrow> if e = ErrorNotData then ([], Ret ()) else ([], Fail e)
      | Panic \<Rightarrow> ([], Panic)
      | Ret startPosition \<Rightarrow> readMessagesAtPosition (sg_file s) (getFileSize s) startPosition limit)"

definition segment_readAt :: "u32 \<Rightarrow> segment \<Rightarrow> message outcome" where
  "segment_readAt messageSeq s =
     (let messageSeqPosition = Lookup (sg_index s) messageSeq in
      bindR (readTargetPosition (sg_file s) (getFileSize s) (sp_Position messageSeqPosition) messageSeq)
        (\<lambda>(targetPosition, _). mapR fst (decodeMessageAt (sg_file s) targetPosition)))"

section \<open>Opening a segment\<close>

text \<open>The full check: how much of the file is valid records from its start, and the last record's length.\<close>

function check_loop :: "bytes \<Rightarrow> nat \<Rightarrow> nat \<Rightarrow> u32 \<Rightarrow> nat \<Rightarrow> u32 \<times> nat" where
  "check_loop file segmentSizeOfByte checkPosition vailMsgLen lastMsgLen =
     (if vailMsgLen \<ge> word_of_nat segmentSizeOfByte then (vailMsgLen, lastMsgLen)
      else
        case nextMessageIsVail file checkPosition of
          (len, Some err) \<Rightarrow> (vailMsgLen, lastMsgLen)
        | (len, None) \<Rightarrow>
            check_loop file segmentSizeOfByte (checkPosition + len) (vailMsgLen + word_of_nat len) len)"
  by pat_completeness auto
termination
proof (relation "measure (\<lambda>(file, _, p, _, _). length file - p)", goal_cases)
  case (2 bs sz p v l n x)
  from nextMessageIsVail_inside [of bs p n] 2(2) [symmetric] 2(3) show ?case by simp
qed simp

declare check_loop.simps [simp del]

text \<open>\<open>check\<close> truncates the file to the valid part (the original is copied aside first).\<close>

definition segment_check :: "nat \<Rightarrow> segment \<Rightarrow> int \<times> segment" where
  "segment_check segmentSizeOfByte s =
     (let (vailMsgLen, lastMsgLen) = check_loop (sg_file s) segmentSizeOfByte 0 0 0;
          s = s\<lparr>sg_position := vailMsgLen\<rparr>;
          s = (if sg_position s \<noteq> word_of_nat segmentSizeOfByte
               then s\<lparr>sg_file := take (unat (sg_position s)) (sg_file s)\<rparr> else s) in
      (int (unat vailMsgLen) - int lastMsgLen, s))"

definition hasEndMagicNumer :: "bytes \<Rightarrow> nat \<Rightarrow> bool outcome" where
  "hasEndMagicNumer file segmentSizeOfByte =
     mapR (\<lambda>p. p = EndMagicNumber) (ReadAt file (segmentSizeOfByte - 1) 1)"

text \<open>The simple check walks from the last indexed record, skipping what it cannot read.\<close>

lemma nextMessageIsVail_advance:
  assumes "nextMessageIsVail file p = (n, r)" and "r \<noteq> Some ErrEOF"
  shows "0 < n"
  using assms
  by (auto simp: nextMessageIsVail_def Let_def ReadAt_def ReadAt_n_def getMinMessageLen_def split: if_splits)

function simple_loop :: "bytes \<Rightarrow> nat \<Rightarrow> nat \<Rightarrow> nat \<Rightarrow> nat \<times> nat" where
  "simple_loop file segmentSizeOfByte startCheckPosition lastMsgLen =
     (if startCheckPosition \<ge> segmentSizeOfByte then (startCheckPosition, lastMsgLen)
      else
        let (readLen, err) = nextMessageIsVail file startCheckPosition in
        if err = Some ErrEOF then (startCheckPosition, lastMsgLen)
        else if err \<noteq> None then simple_loop file segmentSizeOfByte (startCheckPosition + readLen) lastMsgLen
        else if readLen = 0 then (startCheckPosition, lastMsgLen)
        else simple_loop file segmentSizeOfByte (startCheckPosition + readLen) readLen)"
  by pat_completeness auto
termination
proof (relation "measure (\<lambda>(_, sz, p, _). sz - p)", goal_cases)
  case (2 bs sz p l x n e)
  from nextMessageIsVail_advance [of bs p n e] 2 show ?case by (simp add: prod_eq_iff)
qed auto

declare simple_loop.simps [simp del]

definition sanitySimpleCheck :: "nat \<Rightarrow> nat \<Rightarrow> segment \<Rightarrow> bool \<times> nat \<times> segment" where
  "sanitySimpleCheck eachMax segmentSizeOfByte s =
     (if eachMax + getMinMessageLen \<ge> segmentSizeOfByte then (False, 0, s)
      else
        let offsetPosistion = LastPosition (sg_index s) in
        if sp_Position offsetPosistion = 0 \<and> sp_MessageSeq offsetPosistion = 0 then (False, 0, s)
        else
          let (startCheckPosition, lastMsgLen) =
                simple_loop (sg_file s) segmentSizeOfByte (sp_Position offsetPosistion) 0 in
          if lastMsgLen = 0 then (False, 0, s)
          else (True, startCheckPosition - lastMsgLen, s\<lparr>sg_position := word_of_nat startCheckPosition\<rparr>))"

definition sanityCheck :: "nat \<Rightarrow> segment \<Rightarrow> (int \<times> segment) outcome" where
  "sanityCheck eachMax s =
     (let segmentSizeOfByte = length (sg_file s) in
      if segmentSizeOfByte = 0 then Ret (0, s)
      else
        bindR (hasEndMagicNumer (sg_file s) segmentSizeOfByte) (\<lambda>hasEndMgNumer.
        if \<not> hasEndMgNumer then Ret (segment_check segmentSizeOfByte s)
        else if segmentSizeOfByte \<le> eachMax + getMinMessageLen then Ret (segment_check segmentSizeOfByte s)
        else
          let (check, lastMsgStartPosition, s') = sanitySimpleCheck eachMax segmentSizeOfByte s in
          if \<not> check then Ret (segment_check segmentSizeOfByte s')
          else Ret (int lastMsgStartPosition, s')))"

definition segment_init :: "nat \<Rightarrow> segment \<Rightarrow> segment outcome" where
  "segment_init eachMax s =
     (if sg_isSanityCheck s then Ret s
      else
        let s = (if length (sg_file s) > 0 then s\<lparr>sg_fileSize := length (sg_file s)\<rparr> else s) in
        bindR (sanityCheck eachMax s) (\<lambda>(lastMsgStartPosition, s).
        if lastMsgStartPosition = 0 then
          Ret (s\<lparr>sg_lastMsgSeq := (if sg_position s > 0 then sg_baseMessageSeq s + 1 else sg_baseMessageSeq s),
                 sg_isSanityCheck := True\<rparr>)
        else
          bindR (decodeMessageSeq (sg_file s) (nat lastMsgStartPosition)) (\<lambda>(messageSeq, _).
          Ret (s\<lparr>sg_lastMsgSeq := messageSeq, sg_isSanityCheck := True\<rparr>))))"

section \<open>The records of a segment\<close>

abbreviation (input) encoded :: "message list \<Rightarrow> bytes" where
  "encoded ms \<equiv> concat (map Message_Encode ms)"

definition offset_of :: "message list \<Rightarrow> nat \<Rightarrow> nat" where
  "offset_of ms k = length (encoded (take k ms))"

lemma offset_of_0 [simp]: "offset_of ms 0 = 0"
  by (simp add: offset_of_def)

lemma offset_of_Suc: "k < length ms \<Longrightarrow> offset_of ms (Suc k) = offset_of ms k + length (Message_Encode (ms ! k))"
  by (simp add: offset_of_def take_Suc_conv_app_nth)

lemma offset_of_end [simp]: "length ms \<le> k \<Longrightarrow> offset_of ms k = length (encoded ms)"
  by (simp add: offset_of_def)

lemma offset_of_append [simp]: "k \<le> length ms \<Longrightarrow> offset_of (ms @ ms') k = offset_of ms k"
  by (simp add: offset_of_def)

lemma encoded_split:
  assumes "k < length ms"
  shows "encoded ms = encoded (take k ms) @ Message_Encode (ms ! k) @ encoded (drop (Suc k) ms)"
proof -
  have "ms = take k ms @ ms ! k # drop (Suc k) ms" using assms by (rule id_take_nth_drop)
  then have "encoded ms = encoded (take k ms @ ms ! k # drop (Suc k) ms)" by simp
  then show ?thesis by simp
qed

lemma offset_of_less:
  assumes "k < length ms"
  shows "offset_of ms k < length (encoded ms)"
  using arg_cong [OF encoded_split [OF assms], of length] length_Message_Encode [of "ms ! k"]
  by (simp add: offset_of_def)

lemma offset_of_bound: "offset_of ms k \<le> length (encoded ms)"
  by (cases "k < length ms") (auto dest: offset_of_less)

lemma offset_of_mono: "i \<le> j \<Longrightarrow> offset_of ms i \<le> offset_of ms j"
  using offset_of_bound [of "take j ms" i] by (simp add: offset_of_def min_def)

text \<open>What the file functions see at a record boundary.\<close>

lemma at_record:
  assumes "list_all loggable ms" and "k < length ms"
  shows "decodeMessageAt (encoded ms @ post) (offset_of ms k) = Ret (stored (ms ! k), length (Message_Encode (ms ! k)))"
    and "decodeMessageSeq (encoded ms @ post) (offset_of ms k) = Ret (GetSeq (ms ! k), length (MarshalMessage 1 (ms ! k)))"
    and "nextMessageIsVail (encoded ms @ post) (offset_of ms k) = (length (Message_Encode (ms ! k)), None)"
proof -
  have m: "loggable (ms ! k)" using assms by (simp add: list_all_length)
  have f: "encoded ms @ post = encoded (take k ms) @ Message_Encode (ms ! k) @ (encoded (drop (Suc k) ms) @ post)"
    using encoded_split [OF assms(2)] by simp
  show "decodeMessageAt (encoded ms @ post) (offset_of ms k) = Ret (stored (ms ! k), length (Message_Encode (ms ! k)))"
    unfolding f offset_of_def by (rule decodeMessageAt_record [OF m])
  show "decodeMessageSeq (encoded ms @ post) (offset_of ms k) = Ret (GetSeq (ms ! k), length (MarshalMessage 1 (ms ! k)))"
    unfolding f offset_of_def by (rule decodeMessageSeq_record [OF m])
  show "nextMessageIsVail (encoded ms @ post) (offset_of ms k) = (length (Message_Encode (ms ! k)), None)"
    unfolding f offset_of_def by (rule nextMessageIsVail_record [OF m])
qed

lemma readMessagesAtPosition_records:
  assumes "list_all loggable ms" and "k \<le> length ms"
  shows "readMessagesAtPosition (encoded ms) (length (encoded ms)) (offset_of ms k) limit =
    (map stored (take limit (drop k ms)), Ret ())"
  using assms(2)
proof (induction limit arbitrary: k)
  case 0
  show ?case by (subst readMessagesAtPosition.simps) simp
next
  case (Suc limit)
  show ?case
  proof (cases "k < length ms")
    case False
    with Suc.prems show ?thesis by (subst readMessagesAtPosition.simps) simp
  next
    case True
    with Suc.IH [of "Suc k"] at_record(1) [OF assms(1) True, of "[]"] offset_of_less [OF True]
    show ?thesis
      by (subst readMessagesAtPosition.simps)
        (simp add: offset_of_Suc [symmetric] not_le Cons_nth_drop_Suc [symmetric])
  qed
qed

lemma readTargetPosition_records:
  assumes "list_all loggable ms" and "k \<le> t" and "t < length ms" and "GetSeq (ms ! t) = target"
    and "\<And>i. k \<le> i \<Longrightarrow> i < t \<Longrightarrow> GetSeq (ms ! i) \<noteq> target"
  shows "readTargetPosition (encoded ms) (length (encoded ms)) (offset_of ms k) target =
    Ret (offset_of ms t, offset_of ms (Suc t))"
  using assms(2,5)
proof (induction "t - k" arbitrary: k)
  case 0
  then have "k = t" by simp
  with at_record(2) [OF assms(1,3), of "[]"] offset_of_less [OF assms(3)] assms(3,4) show ?case
    by (subst readTargetPosition.simps)
      (simp add: not_le offset_of_Suc length_Message_Encode getMinMessageLen_def)
next
  case (Suc d)
  then have k: "k < t" "k < length ms" using assms(3) by auto
  have "readTargetPosition (encoded ms) (length (encoded ms)) (offset_of ms (Suc k)) target =
      Ret (offset_of ms t, offset_of ms (Suc t))"
    using Suc.hyps(2) k Suc.prems by (intro Suc.hyps(1)) auto
  with Suc.prems(2) [of k] k at_record(2) [OF assms(1) k(2), of "[]"] offset_of_less [OF k(2)] show ?case
    by (subst readTargetPosition.simps)
      (simp add: not_le offset_of_Suc length_Message_Encode getMinMessageLen_def add.commute add.left_commute)
qed

lemma readTargetPosition_none:
  assumes "list_all loggable ms" and "k \<le> length ms" and "\<And>i. k \<le> i \<Longrightarrow> i < length ms \<Longrightarrow> GetSeq (ms ! i) \<noteq> target"
  shows "readTargetPosition (encoded ms) (length (encoded ms)) (offset_of ms k) target = Fail ErrorNotData"
  using assms(2,3)
proof (induction "length ms - k" arbitrary: k)
  case 0
  then show ?case by (subst readTargetPosition.simps) simp
next
  case (Suc d)
  then have k: "k < length ms" by simp
  have "readTargetPosition (encoded ms) (length (encoded ms)) (offset_of ms (Suc k)) target = Fail ErrorNotData"
    using Suc.hyps(2) k Suc.prems by (intro Suc.hyps(1)) auto
  with Suc.prems(2) [of k] k at_record(2) [OF assms(1) k, of "[]"] offset_of_less [OF k] show ?case
    by (subst readTargetPosition.simps)
      (simp add: not_le offset_of_Suc length_Message_Encode getMinMessageLen_def add.commute add.left_commute)
qed

section \<open>The invariant of a segment\<close>

text \<open>
  Every entry of the index names a record of the segment, by its number relative to the base and
  by its offset; the entries are in order and the slots behind them are zero (but for the last slot of
  the map, which is never read when the index is opened).
\<close>

definition index_ok :: "index \<Rightarrow> u32 \<Rightarrow> message list \<Rightarrow> bool" where
  "index_ok idx base ms \<longleftrightarrow> ix_baseMessageSeq idx = base \<and> ix_count idx \<le> maxEntryNum \<and>
     (\<forall>i \<ge> ix_count idx. i + 1 < maxEntryNum \<longrightarrow> ix_slots idx i = \<lparr>RelativeOffset = 0, Position = 0\<rparr>) \<and>
     (\<exists>ks. length ks = ix_count idx \<and> sorted_wrt (<) ks \<and>
       (\<forall>i < ix_count idx. ks ! i < length ms \<and>
          ix_slots idx i = \<lparr>RelativeOffset = word_of_nat (ks ! i + 1), Position = word_of_nat (offset_of ms (ks ! i))\<rparr>))"

text \<open>The messages of a segment are numbered from its base on without a gap.\<close>

definition numbered :: "u32 \<Rightarrow> message list \<Rightarrow> bool" where
  "numbered base ms \<longleftrightarrow> unat base + length ms < 2 ^ 32 \<and>
     (\<forall>i < length ms. GetSeq (ms ! i) = base + word_of_nat (i + 1))"

definition on_disk :: "u32 \<Rightarrow> message list \<Rightarrow> bool" where
  "on_disk base ms \<longleftrightarrow> list_all loggable ms \<and> length (encoded ms) < 2 ^ 32 \<and> numbered base ms"

definition seg_ok :: "segment \<Rightarrow> message list \<Rightarrow> bool" where
  "seg_ok s ms \<longleftrightarrow> on_disk (sg_baseMessageSeq s) ms \<and> sg_file s = encoded ms \<and>
     sg_position s = word_of_nat (length (encoded ms)) \<and> (ms = [] \<longrightarrow> sg_fileSize s = 0) \<and>
     index_ok (sg_index s) (sg_baseMessageSeq s) ms"

lemma unat_seq:
  assumes "unat (base :: u32) + n < 2 ^ 32"
  shows "unat (base + word_of_nat n) = unat base + n"
proof -
  have "unat (word_of_nat n :: u32) = n" using assms by (intro unat_length) simp
  with assms show ?thesis by (simp add: unat_word_ariths)
qed

lemma numbered_seq: "numbered base ms \<Longrightarrow> i < length ms \<Longrightarrow> unat (GetSeq (ms ! i)) = unat base + i + 1"
  by (simp add: numbered_def unat_seq del: of_nat_Suc)

lemma unat_eq_iff: "(x :: u32) = y \<longleftrightarrow> unat x = unat y"
  by (auto intro: unsigned_word_eqI)

lemma numbered_seq_eq:
  assumes "numbered base ms" and "i < length ms"
  shows "GetSeq (ms ! i) = target \<longleftrightarrow> unat base + i + 1 = unat target"
  using numbered_seq [OF assms] by (simp add: unat_eq_iff)

lemma encoded_Nil_iff [simp]: "encoded ms = [] \<longleftrightarrow> ms = []"
  by (cases ms) simp_all

lemma getFileSize_ok: "seg_ok s ms \<Longrightarrow> getFileSize s = length (encoded ms)"
proof -
  assume s: "seg_ok s ms"
  then have u: "unat (sg_position s) = length (encoded ms)"
    by (simp add: seg_ok_def on_disk_def unat_length)
  then have "sg_position s = 0 \<Longrightarrow> ms = []" by simp
  with s u show "getFileSize s = length (encoded ms)"
    by (auto simp: getFileSize_def seg_ok_def)
qed

text \<open>Entries of a correct index, seen through \<open>parseEntry\<close>.\<close>

lemma index_ok_entry:
  assumes "index_ok idx base ms" and "on_disk base ms" and "i < ix_count idx"
  obtains k where "k < length ms" and "unat (seq_at idx i) = unat base + k + 1"
    and "sp_Position (parseEntry idx i) = offset_of ms k"
proof -
  from assms obtain k where k: "k < length ms"
      "ix_slots idx i = \<lparr>RelativeOffset = word_of_nat (k + 1), Position = word_of_nat (offset_of ms k)\<rparr>"
    and "ix_baseMessageSeq idx = base" "ix_count idx \<le> maxEntryNum"
    unfolding index_ok_def by blast
  moreover from k assms(2) have "unat (base + word_of_nat (k + 1)) = unat base + (k + 1)"
    by (intro unat_seq) (simp add: on_disk_def numbered_def)
  moreover from offset_of_bound [of ms k] assms(2) have "unat (word_of_nat (offset_of ms k) :: u32) = offset_of ms k"
    by (intro unat_length) (simp add: on_disk_def)
  ultimately show thesis
    using assms(3) by (intro that [of k]) (simp_all add: seq_at_def parseEntry_def)
qed

lemma index_ok_sorted:
  assumes "index_ok idx base ms" and "on_disk base ms"
  shows "index_sorted idx"
  unfolding index_sorted_def
proof (intro allI impI)
  fix i j assume ij: "i < j" "j < ix_count idx"
  from assms(1) obtain ks where ks: "length ks = ix_count idx" "sorted_wrt (<) ks"
      "\<forall>i < ix_count idx. ks ! i < length ms \<and>
        ix_slots idx i = \<lparr>RelativeOffset = word_of_nat (ks ! i + 1), Position = word_of_nat (offset_of ms (ks ! i))\<rparr>"
    and idx: "ix_baseMessageSeq idx = base" "ix_count idx \<le> maxEntryNum"
    unfolding index_ok_def by blast
  have "unat (seq_at idx n) = unat base + (ks ! n + 1)" if "n < ix_count idx" for n
    using that ks(3) idx assms(2) unat_seq [of base "ks ! n + 1"]
    by (auto simp add: seq_at_def parseEntry_def on_disk_def numbered_def)
  with ij have "unat (seq_at idx i) = unat base + (ks ! i + 1)" "unat (seq_at idx j) = unat base + (ks ! j + 1)"
    by simp_all
  moreover from ks(1,2) ij have "ks ! i < ks ! j" by (simp add: sorted_wrt_iff_nth_less)
  ultimately show "seq_at idx i < seq_at idx j" by (simp add: word_less_nat_alt)
qed

text \<open>\<open>Lookup\<close> returns the position of a record at or before the target, or the start of the file.\<close>

lemma Lookup_ok:
  assumes "index_ok idx base ms" and "on_disk base ms"
  obtains (base) "Lookup idx target = \<lparr>sp_MessageSeq = base, sp_Position = 0\<rparr>"
  | (entry) k where "k < length ms" and "unat (sp_MessageSeq (Lookup idx target)) = unat base + k + 1"
      and "unat base + k + 1 \<le> unat target" and "sp_Position (Lookup idx target) = offset_of ms k"
proof (cases rule: Lookup_cases [OF index_ok_sorted [OF assms], of target, case_names base entry])
  case base
  with assms(1) show thesis by (intro that(1)) (simp add: index_ok_def)
next
  case (entry i)
  from index_ok_entry [OF assms entry(1)] obtain k
    where "k < length ms" "unat (seq_at idx i) = unat base + k + 1" "sp_Position (parseEntry idx i) = offset_of ms k" .
  with entry show thesis
    by (intro that(2) [of k]) (simp_all add: seq_at_def word_le_nat_alt)
qed

text \<open>Reading from a sequence number of the segment on.\<close>

lemma segment_readMessages_ok:
  assumes "seg_ok s ms" and "unat target = unat (sg_baseMessageSeq s) + t + 1" and "t < length ms"
  shows "segment_readMessages target limit s = (map stored (take limit (drop t ms)), Ret ())"
proof -
  let ?base = "sg_baseMessageSeq s"
  from assms(1) have d: "on_disk ?base ms" and i: "index_ok (sg_index s) ?base ms" and f: "sg_file s = encoded ms"
    by (simp_all add: seg_ok_def)
  then have l: "list_all loggable ms" and n: "numbered ?base ms" by (simp_all add: on_disk_def)
  have search: "readTargetPosition (encoded ms) (length (encoded ms)) (offset_of ms k) target =
      Ret (offset_of ms t, offset_of ms (Suc t))" if "k \<le> t" for k
    using that assms(2,3) numbered_seq_eq [OF n]
    by (intro readTargetPosition_records [OF l]) (auto simp: numbered_seq_eq [OF n])
  have read: "readMessagesAtPosition (encoded ms) (length (encoded ms)) (offset_of ms t) limit =
      (map stored (take limit (drop t ms)), Ret ())"
    using assms(3) by (intro readMessagesAtPosition_records [OF l]) simp
  show ?thesis
  proof (cases rule: Lookup_ok [OF i d, of target, case_names base entry])
    case base
    moreover from assms(2) have "?base \<noteq> target" by auto
    ultimately show ?thesis
      using search [of 0] read f
      by (simp add: segment_readMessages_def getFileSize_ok [OF assms(1)] mapR_def)
  next
    case (entry k)
    show ?thesis
    proof (cases "sp_MessageSeq (Lookup (sg_index s) target) = target")
      case True
      with entry assms(2) have "k = t" by simp
      with True entry read f show ?thesis
        by (simp add: segment_readMessages_def getFileSize_ok [OF assms(1)])
    next
      case False
      with entry assms(2) search [of k] read f show ?thesis
        by (simp add: segment_readMessages_def getFileSize_ok [OF assms(1)] mapR_def)
    qed
  qed
qed

lemma segment_readMessages_beyond:
  assumes "seg_ok s ms" and "unat target \<noteq> unat (sg_baseMessageSeq s)"
    and "\<And>t. t < length ms \<Longrightarrow> unat target \<noteq> unat (sg_baseMessageSeq s) + t + 1"
  shows "segment_readMessages target limit s = ([], Ret ())"
proof -
  let ?base = "sg_baseMessageSeq s"
  from assms(1) have d: "on_disk ?base ms" and i: "index_ok (sg_index s) ?base ms" and f: "sg_file s = encoded ms"
    by (simp_all add: seg_ok_def)
  then have l: "list_all loggable ms" and n: "numbered ?base ms" by (simp_all add: on_disk_def)
  have none: "readTargetPosition (encoded ms) (length (encoded ms)) (offset_of ms k) target = Fail ErrorNotData"
    if "k \<le> length ms" for k
    using that assms(3) by (intro readTargetPosition_none [OF l]) (metis numbered_seq_eq [OF n])+
  show ?thesis
  proof (cases rule: Lookup_ok [OF i d, of target, case_names base entry])
    case base
    moreover from assms(2) have "?base \<noteq> target" by auto
    ultimately show ?thesis
      using none [of 0] f by (simp add: segment_readMessages_def getFileSize_ok [OF assms(1)] mapR_def)
  next
    case (entry k)
    with assms(3) [of k] have "sp_MessageSeq (Lookup (sg_index s) target) \<noteq> target" by auto
    with entry none [of k] f show ?thesis
      by (simp add: segment_readMessages_def getFileSize_ok [OF assms(1)] mapR_def)
  qed
qed

lemma segment_readAt_ok:
  assumes "seg_ok s ms" and "unat target = unat (sg_baseMessageSeq s) + t + 1" and "t < length ms"
  shows "segment_readAt target s = Ret (stored (ms ! t))"
proof -
  let ?base = "sg_baseMessageSeq s"
  from assms(1) have d: "on_disk ?base ms" and i: "index_ok (sg_index s) ?base ms" and f: "sg_file s = encoded ms"
    by (simp_all add: seg_ok_def)
  then have l: "list_all loggable ms" and n: "numbered ?base ms" by (simp_all add: on_disk_def)
  have search: "readTargetPosition (encoded ms) (length (encoded ms)) (offset_of ms k) target =
      Ret (offset_of ms t, offset_of ms (Suc t))" if "k \<le> t" for k
    using that assms(2,3) numbered_seq_eq [OF n]
    by (intro readTargetPosition_records [OF l]) (auto simp: numbered_seq_eq [OF n])
  obtain k where "k \<le> t" "sp_Position (Lookup (sg_index s) target) = offset_of ms k"
  proof (cases rule: Lookup_ok [OF i d, of target, case_names base entry])
    case base
    with that [of 0] show thesis by simp
  next
    case (entry k)
    with that [of k] assms(2) show thesis by simp
  qed
  with search [of k] at_record(1) [OF l assms(3), of "[]"] f show ?thesis
    by (simp add: segment_readAt_def getFileSize_ok [OF assms(1)] mapR_def)
qed

section \<open>Appending keeps the invariant\<close>

definition appendable :: "segment \<Rightarrow> message list \<Rightarrow> message list \<Rightarrow> bool" where
  "appendable s ms msgs \<longleftrightarrow> on_disk (sg_baseMessageSeq s) (ms @ msgs)"

lemma index_ok_more: "index_ok idx base ms \<Longrightarrow> index_ok idx base (ms @ msgs)"
  unfolding index_ok_def by (auto simp: trans_less_add1) (metis less_imp_le_nat offset_of_append trans_less_add1)


text \<open>The index with one more entry: the newest record that it names.\<close>

lemma index_ok_push:
  assumes "index_ok idx base ms" and "ix_count idx < maxEntryNum" and "msgs \<noteq> []"
    and "e = \<lparr>RelativeOffset = word_of_nat (length ms + 1), Position = word_of_nat (length (encoded ms))\<rparr>"
  shows "index_ok (idx\<lparr>ix_slots := (ix_slots idx)(ix_count idx := e), ix_count := ix_count idx + 1\<rparr>) base (ms @ msgs)"
proof -
  from assms(1) obtain ks where ks: "length ks = ix_count idx" "sorted_wrt (<) ks"
      "\<forall>i < ix_count idx. ks ! i < length ms \<and>
        ix_slots idx i = \<lparr>RelativeOffset = word_of_nat (ks ! i + 1), Position = word_of_nat (offset_of ms (ks ! i))\<rparr>"
    unfolding index_ok_def by blast
  let ?ks = "ks @ [length ms]"
  from ks have "sorted_wrt (<) ?ks" by (auto simp: sorted_wrt_append in_set_conv_nth)
  moreover have "?ks ! i < length (ms @ msgs) \<and> ((ix_slots idx)(ix_count idx := e)) i =
      \<lparr>RelativeOffset = word_of_nat (?ks ! i + 1), Position = word_of_nat (offset_of (ms @ msgs) (?ks ! i))\<rparr>"
    if "i < ix_count idx + 1" for i
  proof (cases "i = ix_count idx")
    case True
    with ks(1) assms(3,4) show ?thesis by (simp add: nth_append)
  next
    case False
    with that have "i < ix_count idx" by simp
    with ks(1,3) show ?thesis by (simp add: nth_append trans_less_add1 less_imp_le)
  qed
  ultimately show ?thesis
    using assms(1,2) ks(1) unfolding index_ok_def
    by (intro conjI exI [of _ ?ks]) simp_all
qed

lemma index_ok_Append:
  assumes "index_ok idx base ms" and "on_disk base (ms @ msgs)" and "msgs \<noteq> []"
  shows "index_ok (index_Append (GetSeq (hd msgs)) (word_of_nat (length (encoded ms))) idx) base (ms @ msgs)"
proof (cases "ix_count idx * entrySize \<ge> IndexMaxSizeOfByte")
  case True
  with index_ok_more [OF assms(1)] show ?thesis by (simp add: index_Append_def)
next
  case False
  then have count: "ix_count idx < maxEntryNum" by (simp add: maxEntryNum_def)
  from assms(2,3) have "GetSeq ((ms @ msgs) ! length ms) = base + word_of_nat (length ms + 1)"
    unfolding on_disk_def numbered_def by simp
  with assms(3) have "GetSeq (hd msgs) - base = word_of_nat (length ms + 1)"
    by (simp add: hd_conv_nth nth_append)
  with index_ok_push [OF assms(1) count assms(3) refl] assms(1) False show ?thesis
    by (simp add: index_Append_def index_ok_def)
qed

lemma segment_appendMessages_ok:
  assumes "seg_ok s ms" and "appendable s ms msgs"
  shows "seg_ok (snd (segment_appendMessages msgs s)) (ms @ msgs)"
    and "fst (segment_appendMessages msgs s) = length (encoded msgs)"
    and "sg_baseMessageSeq (snd (segment_appendMessages msgs s)) = sg_baseMessageSeq s"
proof -
  let ?base = "sg_baseMessageSeq s"
  from assms(2) have d: "on_disk ?base (ms @ msgs)" by (simp add: appendable_def)
  from assms(1) have i: "index_ok (sg_index s) ?base ms" and f: "sg_file s = encoded ms"
    and pos: "sg_position s = word_of_nat (length (encoded ms))" and z: "ms = [] \<longrightarrow> sg_fileSize s = 0"
    by (simp_all add: seg_ok_def)
  show "seg_ok (snd (segment_appendMessages msgs s)) (ms @ msgs)"
  proof (cases "msgs = []")
    case True
    with assms(1) show ?thesis by (simp add: segment_appendMessages_def)
  next
    case False
    with d f pos z index_ok_Append [OF i d False] index_ok_more [OF i, of msgs] show ?thesis
      by (auto simp: segment_appendMessages_def segment_append_def seg_ok_def Let_def)
  qed
  show "fst (segment_appendMessages msgs s) = length (encoded msgs)"
    and "sg_baseMessageSeq (snd (segment_appendMessages msgs s)) = sg_baseMessageSeq s"
    by (simp_all add: segment_appendMessages_def segment_append_def Let_def)
qed

text \<open>The index that a segment finds when it is opened again.\<close>

lemma resetPosistion_stop:
  assumes "\<And>j. n \<le> j \<Longrightarrow> j < m \<Longrightarrow> RelativeOffset (readEntryAtPosition slots j) \<noteq> 0" and "n \<le> m" and "m \<le> content"
    and "m < content \<Longrightarrow> RelativeOffset (readEntryAtPosition slots m) = 0"
  shows "resetPosistion slots content n = m"
  using assms
proof (induction "m - n" arbitrary: n)
  case 0
  then show ?case by (subst resetPosistion.simps) auto
next
  case (Suc d)
  then have "n < m" by simp
  with Suc.hyps(1) [of "Suc n"] Suc.hyps(2) Suc.prems show ?case
    by (subst resetPosistion.simps) auto
qed

lemma NewIndex_ok:
  assumes "index_ok idx base ms" and "on_disk base ms" and "ix_count idx \<le> content"
  shows "index_ok (NewIndex base (ix_slots idx) content) base ms"
proof -
  let ?m = "min (ix_count idx) (maxEntryNum - 1)"
  from assms(1) obtain ks where ks: "length ks = ix_count idx" "sorted_wrt (<) ks"
      "\<forall>i < ix_count idx. ks ! i < length ms \<and>
        ix_slots idx i = \<lparr>RelativeOffset = word_of_nat (ks ! i + 1), Position = word_of_nat (offset_of ms (ks ! i))\<rparr>"
    and idx: "ix_count idx \<le> maxEntryNum"
      "\<forall>i \<ge> ix_count idx. i + 1 < maxEntryNum \<longrightarrow> ix_slots idx i = \<lparr>RelativeOffset = 0, Position = 0\<rparr>"
    unfolding index_ok_def by blast
  have nonzero: "RelativeOffset (ix_slots idx j) \<noteq> 0" if j: "j < ix_count idx" for j
  proof -
    from ks(3) j have k: "ks ! j < length ms" "RelativeOffset (ix_slots idx j) = word_of_nat (ks ! j + 1)" by simp_all
    with assms(2) have "ks ! j + 1 < 2 ^ 32" by (simp add: on_disk_def numbered_def)
    then have "unat (word_of_nat (ks ! j + 1) :: u32) = ks ! j + 1" by (rule unat_length)
    with k show ?thesis by (metis add_is_0 unat_0 zero_neq_one)
  qed
  have m: "?m \<le> ix_count idx" "?m \<le> maxEntryNum" "1 \<le> maxEntryNum" by (simp_all add: maxEntryNum_def)
  have "RelativeOffset (readEntryAtPosition (ix_slots idx) j) \<noteq> 0" if "j < ?m" for j
    using that nonzero [of j] by (auto simp: readEntryAtPosition_def)
  moreover have "RelativeOffset (readEntryAtPosition (ix_slots idx) ?m) = 0"
    using idx(2) by (auto simp: readEntryAtPosition_def min_def)
  ultimately have reset: "resetPosistion (ix_slots idx) (min content maxEntryNum) 0 = ?m"
    using m assms(3) by (intro resetPosistion_stop) auto
  have "length (take ?m ks) = ?m" "sorted_wrt (<) (take ?m ks)"
    using ks(1,2) by (simp_all add: sorted_wrt_take)
  moreover have "\<forall>i < ?m. take ?m ks ! i < length ms \<and>
      ix_slots idx i = \<lparr>RelativeOffset = word_of_nat (take ?m ks ! i + 1),
        Position = word_of_nat (offset_of ms (take ?m ks ! i))\<rparr>"
    using ks(3) by simp
  moreover have "\<forall>i \<ge> ?m. i + 1 < maxEntryNum \<longrightarrow> ix_slots idx i = \<lparr>RelativeOffset = 0, Position = 0\<rparr>"
    using idx(2) by (auto simp: min_def split: if_splits)
  ultimately have ok: "index_ok \<lparr>ix_baseMessageSeq = base, ix_slots = ix_slots idx, ix_count = ?m\<rparr> base ms"
    using m(2) unfolding index_ok_def index.simps by blast
  have "NewIndex base (ix_slots idx) content = \<lparr>ix_baseMessageSeq = base, ix_slots = ix_slots idx, ix_count = ?m\<rparr>"
    by (simp only: NewIndex_def reset)
  with ok show ?thesis by simp
qed

section \<open>Opening a segment after a clean or an interrupted write\<close>

text \<open>What the last, interrupted write left: less than a whole record.\<close>

definition torn_tail :: "bytes \<Rightarrow> bool" where
  "torn_tail tail \<longleftrightarrow> (\<exists>m k. loggable m \<and> k < length (Message_Encode m) \<and> tail = take k (Message_Encode m))"

lemma torn_tail_Nil [simp]: "torn_tail []"
proof -
  have "loggable empty_message"
    by (simp add: loggable_def storable_def Let_def MarshalMessage_def empty_message_def empty_recv_def IsSet_def)
  then show ?thesis unfolding torn_tail_def by (intro exI [of _ empty_message] exI [of _ 0]) simp
qed

lemma torn_tail_invalid: "torn_tail tail \<Longrightarrow> snd (nextMessageIsVail (pre @ tail) (length pre)) = Some ErrEOF"
  unfolding torn_tail_def using nextMessageIsVail_torn by blast

definition last_len :: "message list \<Rightarrow> nat" where
  "last_len ms = (if ms = [] then 0 else length (Message_Encode (last ms)))"

lemma offset_of_last:
  assumes "ms \<noteq> []"
  shows "offset_of ms (length ms - 1) + last_len ms = length (encoded ms)"
  using assms offset_of_Suc [of "length ms - 1" ms] by (simp add: last_len_def last_conv_nth)

lemma u32_le_of_nat: "a < 2 ^ 32 \<Longrightarrow> b < 2 ^ 32 \<Longrightarrow> (word_of_nat a :: u32) \<le> word_of_nat b \<longleftrightarrow> a \<le> b"
  by (simp add: word_le_nat_alt unat_length)

lemma check_loop_records:
  assumes "list_all loggable ms" and "torn_tail tail" and "length (encoded ms @ tail) < 2 ^ 32" and "j \<le> length ms"
  shows "check_loop (encoded ms @ tail) (length (encoded ms @ tail)) (offset_of ms j) (word_of_nat (offset_of ms j)) l =
    (word_of_nat (length (encoded ms)), if j < length ms then last_len ms else l)"
  using assms(4)
proof (induction "length ms - j" arbitrary: j l)
  case 0
  then have j: "j = length ms" by simp
  from torn_tail_invalid [OF assms(2), of "encoded ms"] obtain n
    where n: "nextMessageIsVail (encoded ms @ tail) (length (encoded ms)) = (n, Some ErrEOF)"
    by (cases "nextMessageIsVail (encoded ms @ tail) (length (encoded ms))") auto
  show ?case
    by (subst check_loop.simps) (simp add: j n)
next
  case (Suc d)
  then have j: "j < length ms" by simp
  have small: "\<not> word_of_nat (length (encoded ms @ tail)) \<le> (word_of_nat (offset_of ms j) :: u32)"
    using offset_of_less [OF j] assms(3) by (subst u32_le_of_nat) auto
  have "check_loop (encoded ms @ tail) (length (encoded ms @ tail)) (offset_of ms (Suc j)) (word_of_nat (offset_of ms (Suc j)))
      (length (Message_Encode (ms ! j))) =
    (word_of_nat (length (encoded ms)), if Suc j < length ms then last_len ms else length (Message_Encode (ms ! j)))"
    using Suc.hyps(2) j by (intro Suc.hyps(1)) auto
  moreover have "last_len ms = length (Message_Encode (ms ! j))" if "\<not> Suc j < length ms"
  proof -
    from that j have "j = length ms - 1" "ms \<noteq> []" by auto
    then show ?thesis by (simp add: last_len_def last_conv_nth)
  qed
  ultimately show ?case
    using at_record(3) [OF assms(1) j, of tail] small j
    by (subst check_loop.simps) (simp add: offset_of_Suc)
qed

lemma segment_check_records:
  assumes "list_all loggable ms" and "torn_tail tail" and "length (encoded ms @ tail) < 2 ^ 32"
    and "sg_file s = encoded ms @ tail"
  shows "segment_check (length (encoded ms @ tail)) s =
    (int (length (encoded ms)) - int (last_len ms),
     s\<lparr>sg_position := word_of_nat (length (encoded ms)), sg_file := encoded ms\<rparr>)"
proof -
  have "check_loop (encoded ms @ tail) (length (encoded ms @ tail)) 0 0 0 = (word_of_nat (length (encoded ms)), last_len ms)"
    using check_loop_records [OF assms(1-3), of 0 0] by (cases "ms = []") (simp_all add: last_len_def)
  moreover have u: "unat (word_of_nat (length (encoded ms)) :: u32) = length (encoded ms)"
    using assms(3) by (intro unat_length) simp
  moreover have "(word_of_nat (length (encoded ms)) :: u32) = word_of_nat (length (encoded ms @ tail)) \<longleftrightarrow> tail = []"
  proof -
    from assms(3) have "unat (word_of_nat (length (encoded ms)) :: u32) = length (encoded ms)"
      "unat (word_of_nat (length (encoded ms @ tail)) :: u32) = length (encoded ms @ tail)"
      by (intro unat_length; simp)+
    then show ?thesis by (metis append_Nil2 length_append add_cancel_right_right length_0_conv)
  qed
  moreover from u have "int (unat (word_of_nat (length (encoded ms)) :: u32)) = int (length (encoded ms))"
    by (simp only:)
  moreover from u have "take (unat (word_of_nat (length (encoded ms)) :: u32)) (encoded ms @ tail) = encoded ms"
    by simp
  ultimately show ?thesis
    using assms(4) by (auto simp: segment_check_def Let_def simp del: take_append)
qed

lemma simple_loop_records:
  assumes "list_all loggable ms" and "torn_tail tail" and "j \<le> length ms"
  shows "simple_loop (encoded ms @ tail) (length (encoded ms @ tail)) (offset_of ms j) l =
    (length (encoded ms), if j < length ms then last_len ms else l)"
  using assms(3)
proof (induction "length ms - j" arbitrary: j l)
  case 0
  then have j: "j = length ms" by simp
  from torn_tail_invalid [OF assms(2), of "encoded ms"] obtain n
    where n: "nextMessageIsVail (encoded ms @ tail) (length (encoded ms)) = (n, Some ErrEOF)"
    by (cases "nextMessageIsVail (encoded ms @ tail) (length (encoded ms))") auto
  show ?case
    by (subst simple_loop.simps) (simp add: j n)
next
  case (Suc d)
  then have j: "j < length ms" by simp
  have "simple_loop (encoded ms @ tail) (length (encoded ms @ tail)) (offset_of ms (Suc j)) (length (Message_Encode (ms ! j))) =
    (length (encoded ms), if Suc j < length ms then last_len ms else length (Message_Encode (ms ! j)))"
    using Suc.hyps(2) j by (intro Suc.hyps(1)) auto
  moreover have "last_len ms = length (Message_Encode (ms ! j))" if "\<not> Suc j < length ms"
  proof -
    from that j have "j = length ms - 1" "ms \<noteq> []" by auto
    then show ?thesis by (simp add: last_len_def last_conv_nth)
  qed
  ultimately show ?case
    using at_record(3) [OF assms(1) j, of tail] offset_of_less [OF j] j
    by (subst simple_loop.simps) (simp add: offset_of_Suc Message_Encode_pos)
qed

text \<open>Whether opening trusts the file and only walks its end.\<close>

definition trusts :: "nat \<Rightarrow> bytes \<Rightarrow> bool" where
  "trusts eachMax content \<longleftrightarrow> last content = 3 \<and> length content > eachMax + getMinMessageLen"

lemma ReadAt_last: "content \<noteq> [] \<Longrightarrow> ReadAt content (length content - 1) 1 = Ret [last content]"
  using ReadAt_mid [of "length content - 1" "butlast content" 1 "[last content]" "[]"] by simp

lemma sanityCheck_full:
  assumes "sg_file s = content" and "content \<noteq> []" and "\<not> trusts eachMax content"
  shows "sanityCheck eachMax s = Ret (segment_check (length content) s)"
  using assms ReadAt_last [OF assms(2)]
  by (simp add: sanityCheck_def hasEndMagicNumer_def mapR_def trusts_def not_less Let_def)

lemma LastPosition_ok:
  assumes "index_ok idx base ms" and "on_disk base ms" and "ms \<noteq> []"
  obtains k where "k < length ms" and "sp_Position (LastPosition idx) = offset_of ms k"
proof (cases "ix_count idx = 0")
  case True
  with that [of 0] assms(3) show thesis by (simp add: LastPosition_def)
next
  case False
  then have "ix_count idx - 1 < ix_count idx" by simp
  from index_ok_entry [OF assms(1,2) this] that False show thesis
    by (auto simp: LastPosition_def)
qed

lemma sanityCheck_trusted:
  assumes "trusts eachMax (encoded ms @ tail)" and "torn_tail tail" and "sg_file s = encoded ms @ tail" and "ms \<noteq> []"
    and "index_ok (sg_index s) base ms" and "on_disk base ms"
  shows "sanityCheck eachMax s = Ret (segment_check (length (encoded ms @ tail)) s) \<or>
    sanityCheck eachMax s = Ret (int (length (encoded ms)) - int (last_len ms),
      s\<lparr>sg_position := word_of_nat (length (encoded ms))\<rparr>)"
proof -
  define content where "content = encoded ms @ tail"
  have c: "content \<noteq> []" using assms(4) by (simp add: content_def)
  from assms(6) have l: "list_all loggable ms" by (simp add: on_disk_def)
  obtain k where k: "k < length ms" "sp_Position (LastPosition (sg_index s)) = offset_of ms k"
    by (rule LastPosition_ok [OF assms(5,6,4)])
  with simple_loop_records [OF l assms(2), of k 0]
  have loop: "simple_loop content (length content) (sp_Position (LastPosition (sg_index s))) 0 = (length (encoded ms), last_len ms)"
    by (simp add: content_def)
  have le: "last_len ms \<le> length (encoded ms)" using offset_of_last [OF assms(4)] by simp
  have pos: "last_len ms \<noteq> 0" using assms(4) length_Message_Encode [of "last ms"] by (simp add: last_len_def)
  show ?thesis
    using assms(1) c le pos loop ReadAt_last [OF c]
    unfolding content_def [symmetric] trusts_def
    by (cases "offset_of ms k = 0 \<and> sp_MessageSeq (LastPosition (sg_index s)) = 0")
      (simp_all add: assms(3) [folded content_def] k(2) sanityCheck_def sanitySimpleCheck_def hasEndMagicNumer_def
        mapR_def Let_def of_nat_diff)
qed

lemma sanityCheck_records:
  assumes "torn_tail tail" and "sg_file s = encoded ms @ tail" and "encoded ms @ tail \<noteq> []"
    and "index_ok (sg_index s) base ms" and "on_disk base ms" and "length (encoded ms @ tail) < 2 ^ 32"
    and "tail = [] \<or> \<not> trusts eachMax (encoded ms @ tail)"
  shows "sanityCheck eachMax s = Ret (int (length (encoded ms)) - int (last_len ms),
     s\<lparr>sg_position := word_of_nat (length (encoded ms)), sg_file := encoded ms\<rparr>)"
proof -
  from assms(5) have l: "list_all loggable ms" by (simp add: on_disk_def)
  note check = segment_check_records [OF l assms(1,6,2)]
  show ?thesis
  proof (cases "trusts eachMax (encoded ms @ tail)")
    case True
    with assms(7) have "tail = []" by simp
    with assms(3) have "ms \<noteq> []" by auto
    from sanityCheck_trusted [OF True assms(1,2) this assms(4,5)] check show ?thesis
      using assms(2) \<open>tail = []\<close> by auto
  next
    case False
    from sanityCheck_full [OF assms(2,3) False] check show ?thesis by simp
  qed
qed

text \<open>
  Opening restores the segment: whatever was left of an interrupted write is cut off, and the
  last sequence number is that of the last whole record.
\<close>

lemma segment_init_ok:
  assumes "torn_tail tail" and "ms = [] \<longrightarrow> tail = []"
    and "index_ok idx base ms" and "on_disk base ms" and "length (encoded ms @ tail) < 2 ^ 32"
    and "tail = [] \<or> \<not> trusts eachMax (encoded ms @ tail)"
  obtains s where "segment_init eachMax (newSegment base (encoded ms @ tail) idx) = Ret s"
    and "seg_ok s ms" and "sg_lastMsgSeq s = base + word_of_nat (length ms)" and "sg_baseMessageSeq s = base"
proof (cases "ms = []")
  case True
  with assms(2-4) show thesis
    by (intro that [of "(newSegment base [] idx)\<lparr>sg_lastMsgSeq := base, sg_isSanityCheck := True\<rparr>"])
      (simp_all add: segment_init_def newSegment_def sanityCheck_def seg_ok_def)
next
  case False
  let ?s = "(newSegment base (encoded ms @ tail) idx)\<lparr>sg_fileSize := length (encoded ms @ tail)\<rparr>"
  let ?r = "?s\<lparr>sg_position := word_of_nat (length (encoded ms)), sg_file := encoded ms,
    sg_lastMsgSeq := base + word_of_nat (length ms), sg_isSanityCheck := True\<rparr>"
  let ?last = "length ms - 1"
  have "sanityCheck eachMax ?s = Ret (int (length (encoded ms)) - int (last_len ms),
      ?s\<lparr>sg_position := word_of_nat (length (encoded ms)), sg_file := encoded ms\<rparr>)"
    using assms False by (intro sanityCheck_records) (simp_all add: newSegment_def)
  moreover have "int (length (encoded ms)) - int (last_len ms) = int (offset_of ms ?last)"
    using offset_of_last [OF False] by simp
  moreover have "(offset_of ms ?last = 0) = (length ms = 1)"
  proof -
    have "0 < offset_of ms 1"
      using offset_of_Suc [of 0 ms] length_Message_Encode [of "ms ! 0"] False by simp
    then have "0 < offset_of ms ?last" if "1 \<le> ?last"
      using offset_of_mono [OF that, of ms] by linarith
    moreover have "?last = 0 \<or> 1 \<le> ?last" by linarith
    ultimately show ?thesis using False by (cases "length ms = 1") (auto simp: le_Suc_eq)
  qed
  moreover from assms(4) False have "decodeMessageSeq (encoded ms) (offset_of ms ?last) =
      Ret (base + word_of_nat (length ms), length (MarshalMessage 1 (ms ! ?last)))"
    using at_record(2) [of ms ?last "[]"] by (cases "length ms") (simp_all add: on_disk_def numbered_def)
  moreover have "0 < (word_of_nat (length (encoded ms)) :: u32)"
  proof -
    have "unat (word_of_nat (length (encoded ms)) :: u32) = length (encoded ms)"
      using assms(5) by (intro unat_length) simp
    with False have "(word_of_nat (length (encoded ms)) :: u32) \<noteq> 0"
      by (metis encoded_Nil_iff length_0_conv unat_0)
    then show ?thesis by (simp add: word_gt_0)
  qed
  ultimately have "segment_init eachMax (newSegment base (encoded ms @ tail) idx) = Ret ?r"
    using False by (auto simp: segment_init_def newSegment_def Let_def)
  then show thesis
    by (rule that) (use assms(3,4) False in \<open>simp_all add: seg_ok_def newSegment_def\<close>)
qed

text \<open>
  With nothing but an interrupted record in the file, the check empties the file and leaves the
  position at zero; the size remembered from before the check then stands for the file's size.
\<close>

lemma torn_first:
  assumes "torn_tail tail" and "tail \<noteq> []" and "\<not> trusts eachMax tail" and "length tail < 2 ^ 32"
  obtains s where "segment_init eachMax (newSegment base tail (NewIndex base slots 0)) = Ret s"
    and "sg_file s = []" and "getFileSize s = length tail" and "segment_readMessages base 1 s = ([], Fail ErrEOF)"
proof -
  let ?idx = "NewIndex base slots 0"
  let ?s = "(newSegment base tail ?idx)\<lparr>sg_fileSize := length tail\<rparr>"
  let ?r = "?s\<lparr>sg_file := [], sg_position := 0, sg_lastMsgSeq := base, sg_isSanityCheck := True\<rparr>"
  have idx: "?idx = \<lparr>ix_baseMessageSeq = base, ix_slots = slots, ix_count = 0\<rparr>"
    by (simp add: NewIndex_def resetPosistion.simps)
  have "sanityCheck eachMax ?s = Ret (0, ?s\<lparr>sg_position := 0, sg_file := []\<rparr>)"
    using sanityCheck_full [of ?s tail eachMax] segment_check_records [of "[]" tail ?s] assms
    by (simp add: newSegment_def last_len_def)
  then have "segment_init eachMax (newSegment base tail ?idx) = Ret ?r"
    using assms(2) by (simp add: segment_init_def newSegment_def)
  moreover have "segment_readMessages base 1 ?r = ([], Fail ErrEOF)"
    using assms(2)
    by (simp add: segment_readMessages_def idx Lookup_def indexSlotRangeFor_def newSegment_def getFileSize_def)
      (subst readMessagesAtPosition.simps, simp add: decodeMessageAt_def ReadAt_def getMinMessageLen_def Let_def)
  ultimately show thesis by (intro that [of ?r]) (simp_all add: newSegment_def getFileSize_def)
qed

section \<open>The log interface\<close>

lemma segment_readMessages_base:
  assumes "seg_ok s ms" and "target = sg_baseMessageSeq s"
  shows "segment_readMessages target limit s = (map stored (take limit ms), Ret ())"
proof -
  from assms(1) have d: "on_disk (sg_baseMessageSeq s) ms" and i: "index_ok (sg_index s) (sg_baseMessageSeq s) ms"
    and f: "sg_file s = encoded ms" by (simp_all add: seg_ok_def)
  then have "readMessagesAtPosition (encoded ms) (length (encoded ms)) (offset_of ms 0) limit = (map stored (take limit ms), Ret ())"
    using readMessagesAtPosition_records [of ms 0 limit] by (simp add: on_disk_def)
  moreover have "Lookup (sg_index s) target = \<lparr>sp_MessageSeq = target, sp_Position = 0\<rparr>"
    by (cases rule: Lookup_ok [OF i d, of target, case_names base entry]) (use assms(2) in auto)
  ultimately show ?thesis
    using f by (simp add: segment_readMessages_def getFileSize_ok [OF assms(1)])
qed

lemma numbered_filter:
  assumes "numbered base ms" and "unat target = unat base + t + 1"
  shows "filter (\<lambda>m. target \<le> GetSeq m) ms = drop t ms"
proof -
  have seq: "(target \<le> GetSeq (ms ! i)) = (t \<le> i)" if "i < length ms" for i
    using numbered_seq [OF assms(1) that] assms(2) by (simp add: word_le_nat_alt)
  have "filter (\<lambda>m. target \<le> GetSeq m) (take t ms) = []"
    using seq by (auto simp: filter_empty_conv in_set_conv_nth)
  moreover have "filter (\<lambda>m. target \<le> GetSeq m) (drop t ms) = drop t ms"
    using seq by (auto simp: filter_id_conv in_set_conv_nth)
  ultimately show ?thesis
    by (metis append_Nil append_take_drop_id filter_append)
qed

lemma numbered_filter_all:
  assumes "numbered base ms" and "target \<le> base"
  shows "filter (\<lambda>m. target \<le> GetSeq m) ms = ms"
  using numbered_seq [OF assms(1)] assms(2)
  by (fastforce simp: filter_id_conv in_set_conv_nth word_le_nat_alt)

text \<open>Reading from any sequence number from the base on: the messages not before it, in order.\<close>

lemma segment_readMessages_from:
  assumes "seg_ok s ms" and "sg_baseMessageSeq s \<le> target"
  shows "segment_readMessages target limit s = (map stored (take limit (filter (\<lambda>m. target \<le> GetSeq m) ms)), Ret ())"
proof (cases "target = sg_baseMessageSeq s")
  case True
  from assms(1) have "numbered (sg_baseMessageSeq s) ms" by (simp add: seg_ok_def on_disk_def)
  from segment_readMessages_base [OF assms(1) True] numbered_filter_all [OF this, of target] True
  show ?thesis by simp
next
  case False
  from assms(1) have n: "numbered (sg_baseMessageSeq s) ms" by (simp add: seg_ok_def on_disk_def)
  from False assms(2) have "unat (sg_baseMessageSeq s) < unat target" by (metis order_le_less word_less_nat_alt)
  then obtain t where t: "unat target = unat (sg_baseMessageSeq s) + t + 1"
    by (metis add.assoc add.commute less_iff_Suc_add plus_1_eq_Suc)
  show ?thesis
  proof (cases "t < length ms")
    case True
    from segment_readMessages_ok [OF assms(1) t True] numbered_filter [OF n t] show ?thesis by simp
  next
    case False
    with t segment_readMessages_beyond [OF assms(1), of target limit] numbered_filter [OF n t] show ?thesis by simp
  qed
qed

text \<open>
  What the rest of the store relies on: a numbered log that can be appended to and read from any
  sequence number on.
\<close>

locale message_log =
  fixes ok :: "'s \<Rightarrow> message list \<Rightarrow> bool"
    and base :: "'s \<Rightarrow> u32"
    and room :: "'s \<Rightarrow> message list \<Rightarrow> message list \<Rightarrow> bool"
    and append_msgs :: "message list \<Rightarrow> 's \<Rightarrow> nat \<times> 's"
    and read_from :: "u32 \<Rightarrow> nat \<Rightarrow> 's \<Rightarrow> message list \<times> unit outcome"
  assumes append_ok: "ok s ms \<Longrightarrow> room s ms msgs \<Longrightarrow> ok (snd (append_msgs msgs s)) (ms @ msgs)"
    and append_base: "ok s ms \<Longrightarrow> room s ms msgs \<Longrightarrow> base (snd (append_msgs msgs s)) = base s"
    and numbering: "ok s ms \<Longrightarrow> numbered (base s) ms"
    and read: "ok s ms \<Longrightarrow> base s \<le> target \<Longrightarrow>
      read_from target limit s = (map stored (take limit (filter (\<lambda>m. target \<le> GetSeq m) ms)), Ret ())"
begin

text \<open>What was just appended is what is read from its first number on, and nothing before it is lost.\<close>

lemma read_appended:
  assumes "ok s ms" and "room s ms msgs" and "msgs \<noteq> []"
  shows "read_from (GetSeq (hd msgs)) limit (snd (append_msgs msgs s)) = (map stored (take limit msgs), Ret ())"
proof -
  let ?s = "snd (append_msgs msgs s)"
  from append_ok [OF assms(1,2)] append_base [OF assms(1,2)] have ok: "ok ?s (ms @ msgs)" and b: "base ?s = base s" by simp_all
  from numbering [OF ok] b have n: "numbered (base s) (ms @ msgs)" by simp
  from numbered_seq [OF n, of "length ms"] assms(3)
  have q: "unat (GetSeq (hd msgs)) = unat (base s) + length ms + 1" by (simp add: hd_conv_nth nth_append)
  then have "base ?s \<le> GetSeq (hd msgs)" by (simp add: b word_le_nat_alt)
  from read [OF ok this] numbered_filter [OF n q] show ?thesis
    by (simp del: filter_append)
qed

lemma read_all:
  assumes "ok s ms"
  shows "read_from (base s) limit s = (map stored (take limit ms), Ret ())"
  using read [OF assms order_refl] numbered_filter_all [OF numbering [OF assms] order_refl] by simp

lemma read_splits:
  assumes "ok s ms" and "base s \<le> target"
  shows "fst (read_from target (i + j) s) = fst (read_from target i s) @
    map stored (take j (drop i (filter (\<lambda>m. target \<le> GetSeq m) ms)))"
  using read [OF assms] by (simp add: take_add)

end

interpretation seglog: message_log seg_ok sg_baseMessageSeq appendable segment_appendMessages segment_readMessages
proof unfold_locales
  fix s ms msgs target limit
  show "seg_ok s ms \<Longrightarrow> appendable s ms msgs \<Longrightarrow> seg_ok (snd (segment_appendMessages msgs s)) (ms @ msgs)"
    by (rule segment_appendMessages_ok)
  show "seg_ok s ms \<Longrightarrow> appendable s ms msgs \<Longrightarrow>
      sg_baseMessageSeq (snd (segment_appendMessages msgs s)) = sg_baseMessageSeq s"
    by (rule segment_appendMessages_ok)
  show "seg_ok s ms \<Longrightarrow> numbered (sg_baseMessageSeq s) ms"
    by (simp add: seg_ok_def on_disk_def)
  show "seg_ok s ms \<Longrightarrow> sg_baseMessageSeq s \<le> target \<Longrightarrow>
      segment_readMessages target limit s = (map stored (take limit (filter (\<lambda>m. target \<le> GetSeq m) ms)), Ret ())"
    by (rule segment_readMessages_from)
qed

end
