(* ===== verification/Topic.thy ===== *)
theory Topic
  imports Segment GoStrings "HOL-Library.Multiset"
begin

text \<open>
  A topic, \<^verbatim>\<open>pkg/okstore/topic.go\<close>: the log of one channel, cut into segments. The segments in use
  are kept in a cache that is shared by all topics and may drop any of them at any time (\<open>evict\<close>);
  a dropped segment is closed, and opened again from its files when it is next needed.
\<close>

section \<open>State\<close>

record storeConfig =
  cfg_SlotNum :: nat
  cfg_EachMessagegMaxSizeOfBytes :: nat
  cfg_SegmentMaxBytes :: nat

text \<open>What is on disk for a segment: the log file, the index map and the size of the index in slots.\<close>

type_synonym segment_files = "bytes \<times> (nat \<Rightarrow> entry) \<times> nat"

record topic =
  tp_segments :: "u32 list"
  tp_lastBaseMessageSeq :: u32
  tp_lastMsgSeq :: u32
  tp_cache :: "u32 \<Rightarrow> segment option"
  tp_files :: "u32 \<Rightarrow> segment_files option"

definition no_files :: segment_files where
  "no_files = ([], \<lambda>_. \<lparr>RelativeOffset = 0, Position = 0\<rparr>, 0)"

text \<open>\<open>release\<close> closes both files; the index file is truncated to its write position.\<close>

definition segment_close :: "segment \<Rightarrow> segment_files" where
  "segment_close s = (sg_file s, ix_slots (sg_index s), ix_count (sg_index s))"

definition evict :: "u32 \<Rightarrow> topic \<Rightarrow> topic" where
  "evict b t =
     (case tp_cache t b of
        None \<Rightarrow> t
      | Some s \<Rightarrow> t\<lparr>tp_cache := (tp_cache t)(b := None), tp_files := (tp_files t)(b := Some (segment_close s))\<rparr>)"

definition files_at :: "topic \<Rightarrow> u32 \<Rightarrow> segment_files" where
  "files_at t b = (case tp_files t b of None \<Rightarrow> no_files | Some f \<Rightarrow> f)"

definition getSegment :: "storeConfig \<Rightarrow> u32 \<Rightarrow> topic \<Rightarrow> (segment \<times> topic) outcome" where
  "getSegment cfg b t =
     (case tp_cache t b of
        Some seg \<Rightarrow> Ret (seg, t)
      | None \<Rightarrow>
          let (content, slots, count) = files_at t b in
          case segment_init (cfg_EachMessagegMaxSizeOfBytes cfg) (newSegment b content (NewIndex b slots count)) of
            Ret seg \<Rightarrow> Ret (seg, t\<lparr>tp_cache := (tp_cache t)(b := Some seg)\<rparr>)
          | Fail e \<Rightarrow> Panic
          | Panic \<Rightarrow> Panic)"

definition getActiveSegment :: "storeConfig \<Rightarrow> topic \<Rightarrow> (segment \<times> topic) outcome" where
  "getActiveSegment cfg t =
     (if tp_segments t = [] then Panic else getSegment cfg (last (tp_segments t)) t)"

definition resetActiveSegment :: "storeConfig \<Rightarrow> u32 \<Rightarrow> topic \<Rightarrow> (segment \<times> topic) outcome" where
  "resetActiveSegment cfg b t =
     bindR (getSegment cfg b t) (\<lambda>(seg, t). Ret (seg, t\<lparr>tp_lastMsgSeq := sg_lastMsgSeq seg\<rparr>))"

section \<open>Finding the segments\<close>

definition swap_down :: "nat \<Rightarrow> u32 list \<Rightarrow> u32 list" where
  "swap_down i xs = (if xs ! i < xs ! (i - 1) then xs[i := xs ! (i - 1), i - 1 := xs ! i] else xs)"

fun bubble_pass :: "nat \<Rightarrow> nat \<Rightarrow> u32 list \<Rightarrow> u32 list" where
  "bubble_pass i 0 xs = xs"
| "bubble_pass i (Suc n) xs = bubble_pass (i + 1) n (swap_down i xs)"

fun bubble_passes :: "nat \<Rightarrow> nat \<Rightarrow> u32 list \<Rightarrow> u32 list" where
  "bubble_passes n 0 xs = xs"
| "bubble_passes n (Suc k) xs = bubble_passes (n + 1) k (bubble_pass 1 (length xs - n - 1) xs)"

definition sortSegmentBaseMessageSeqs :: "u32 list \<Rightarrow> u32 list" where
  "sortSegmentBaseMessageSeqs baseMessageSeqs = bubble_passes 0 (length baseMessageSeqs + 1) baseMessageSeqs"

text \<open>
  \<open>getAllSegmentBaseMessageSeq\<close> takes the names of a directory: those that end in the suffix and
  start with a decimal number (a sign allowed) give a base. Numbers are zero-padded to twenty digits,
  so none exceeds 64 bits here.
\<close>

abbreviation (input) segmentSuffix :: gostring where "segmentSuffix \<equiv> str ''.log''"

definition ParseInt10 :: "gostring \<Rightarrow> int option" where
  "ParseInt10 s =
     (let (neg, ds) = (case s of [] \<Rightarrow> (False, []) | c # cs \<Rightarrow>
            if c = 45 then (True, cs) else if c = 43 then (False, cs) else (False, s)) in
      if ds = [] \<or> \<not> list_all is_digit ds then None
      else
        let v = (if neg then - int (undec ds) else int (undec ds)) in
        if v < - (2 ^ 63) \<or> v \<ge> 2 ^ 63 then None else Some v)"

definition getAllSegmentBaseMessageSeq :: "gostring list \<Rightarrow> u32 list" where
  "getAllSegmentBaseMessageSeq names =
     map word_of_int (List.map_filter (\<lambda>f.
       if hasSuffix f segmentSuffix then ParseInt10 (take (length f - length segmentSuffix) f) else None) names)"

text \<open>\<open>topicDir\<close> lists the names that \<open>ReadDir\<close> finds in the topic's own directory.\<close>

definition newTopic :: "storeConfig \<Rightarrow> gostring list \<Rightarrow> (u32 \<Rightarrow> segment_files option) \<Rightarrow> topic outcome" where
  "newTopic cfg topicDir files =
     (let segments = sortSegmentBaseMessageSeqs (getAllSegmentBaseMessageSeq topicDir);
          segments = (if segments = [] then segments @ [0] else segments);
          t = \<lparr>tp_segments = segments, tp_lastBaseMessageSeq = last segments, tp_lastMsgSeq = 0,
               tp_cache = Map.empty, tp_files = files\<rparr> in
      mapR snd (resetActiveSegment cfg (tp_lastBaseMessageSeq t) t))"

definition nextBaseMessageSeq :: "u32 \<Rightarrow> topic \<Rightarrow> u32 option" where
  "nextBaseMessageSeq b t =
     (case dropWhile (\<lambda>x. x \<noteq> b) (tp_segments t) of x # y # _ \<Rightarrow> Some y | _ \<Rightarrow> None)"

fun calcBaseMessageSeq :: "u32 \<Rightarrow> u32 list \<Rightarrow> u32 outcome" where
  "calcBaseMessageSeq messageSeq [] = Fail (ErrMsg ''baseOffset not found'')"
| "calcBaseMessageSeq messageSeq [b] =
     (if messageSeq \<ge> b then Ret b else Fail (ErrMsg ''baseOffset not found''))"
| "calcBaseMessageSeq messageSeq (b # c # bs) =
     (if messageSeq \<ge> b \<and> messageSeq \<le> c then Ret b else calcBaseMessageSeq messageSeq (c # bs))"

section \<open>Appending\<close>

text \<open>\<open>roll\<close> drops the active segment from the cache, which closes it, and starts a new one.\<close>

definition roll :: "storeConfig \<Rightarrow> message \<Rightarrow> topic \<Rightarrow> topic outcome" where
  "roll cfg m t =
     bindR (getActiveSegment cfg t) (\<lambda>(lastSegment, t).
     let t = evict (tp_lastBaseMessageSeq t) t;
         t = t\<lparr>tp_lastBaseMessageSeq := GetSeq m, tp_segments := tp_segments t @ [GetSeq m]\<rparr> in
     mapR snd (resetActiveSegment cfg (tp_lastBaseMessageSeq t) t))"

fun assign_seqs :: "u32 \<Rightarrow> message list \<Rightarrow> message list" where
  "assign_seqs s [] = []"
| "assign_seqs s (m # ms) = SetSeq (s + 1) m # assign_seqs (s + 1) ms"

text \<open>
  \<open>appendMessages\<close> returns the sequence numbers and the size written, the messages with their
  numbers set, and the topic. \<open>lastSegment\<close> is fetched before a roll; the roll has closed its file,
  so that the write fails.
\<close>

definition topic_appendMessages ::
    "storeConfig \<Rightarrow> message list \<Rightarrow> topic \<Rightarrow> ((u32 list \<times> nat) outcome \<times> message list \<times> topic)" where
  "topic_appendMessages cfg msgs t =
     (case getActiveSegment cfg t of
        Fail e \<Rightarrow> (Panic, msgs, t)
      | Panic \<Rightarrow> (Panic, msgs, t)
      | Ret (lastSegment, t) \<Rightarrow>
          let preLastMsgSeq = tp_lastMsgSeq t;
              msgs = assign_seqs preLastMsgSeq msgs;
              seqs = map GetSeq msgs;
              t = t\<lparr>tp_lastMsgSeq := preLastMsgSeq + word_of_nat (length msgs)\<rparr> in
          if msgs = [] then (Panic, msgs, t)
          else if preLastMsgSeq \<ge> GetSeq (last msgs) then (Ret ([], 0), msgs, t)
          else
            let t = t\<lparr>tp_lastMsgSeq := GetSeq (last msgs)\<rparr> in
            if IsFull (sg_index lastSegment) \<or> unat (sg_position lastSegment) > cfg_SegmentMaxBytes cfg
            then case roll cfg (last msgs) t of
                Ret t \<Rightarrow> (Fail (ErrWrap ''log write failed'' (ErrMsg ''file already closed'')), msgs, t)
              | _ \<Rightarrow> (Panic, msgs, t)
            else
              let (n, lastSegment) = segment_appendMessages msgs lastSegment in
              (Ret (seqs, n), msgs, t\<lparr>tp_cache := (tp_cache t)(last (tp_segments t) := Some lastSegment)\<rparr>))"

definition topic_appendMessage :: "storeConfig \<Rightarrow> message \<Rightarrow> topic \<Rightarrow> (u32 \<times> nat) outcome \<times> topic" where
  "topic_appendMessage cfg msg t =
     (case topic_appendMessages cfg [msg] t of
        (Ret (messageSeqs, n), _, t) \<Rightarrow> (case messageSeqs of [] \<Rightarrow> Panic | q # _ \<Rightarrow> Ret (q, n), t)
      | (Fail e, _, t) \<Rightarrow> (Fail e, t)
      | (Panic, _, t) \<Rightarrow> (Panic, t))"

section \<open>Reading\<close>

text \<open>The loop over the segments behind the first one; it may not end if a base occurs twice.\<close>

partial_function (option) read_next ::
    "storeConfig \<Rightarrow> nat \<Rightarrow> u32 \<Rightarrow> message list \<Rightarrow> topic \<Rightarrow> (message list \<times> unit outcome \<times> topic) option" where
  "read_next cfg limit b got t =
     (if length got < limit then
        case nextBaseMessageSeq b t of
          None \<Rightarrow> Some (got, Ret (), t)
        | Some c \<Rightarrow>
            (case getSegment cfg c t of
               Fail e \<Rightarrow> Some (got, Panic, t)
             | Panic \<Rightarrow> Some (got, Panic, t)
             | Ret (seg, t) \<Rightarrow>
                 (case readMessagesAtPosition (sg_file seg) (getFileSize seg) 0 (limit - length got) of
                    (ms, Ret _) \<Rightarrow> read_next cfg limit c (got @ ms) t
                  | (ms, r) \<Rightarrow> Some (got @ ms, r, t)))
      else Some (got, Ret (), t))"

definition topic_readMessages ::
    "storeConfig \<Rightarrow> u32 \<Rightarrow> nat \<Rightarrow> topic \<Rightarrow> (message list \<times> unit outcome \<times> topic) option" where
  "topic_readMessages cfg messageSeq limit t =
     (case calcBaseMessageSeq messageSeq (tp_segments t) of
        Fail e \<Rightarrow> Some ([], Fail e, t)
      | Panic \<Rightarrow> Some ([], Panic, t)
      | Ret b \<Rightarrow>
          (case getSegment cfg b t of
             Fail e \<Rightarrow> Some ([], Panic, t)
           | Panic \<Rightarrow> Some ([], Panic, t)
           | Ret (seg, t) \<Rightarrow>
               (case segment_readMessages messageSeq limit seg of
                  (ms, Ret _) \<Rightarrow> read_next cfg limit b ms t
                | (ms, r) \<Rightarrow> Some (ms, r, t))))"

definition topic_readLastMessages ::
    "storeConfig \<Rightarrow> nat \<Rightarrow> topic \<Rightarrow> (message list \<times> unit outcome \<times> topic) option" where
  "topic_readLastMessages cfg limit t =
     (let lastSeq = tp_lastMsgSeq t in
      if unat lastSeq < limit then topic_readMessages cfg 0 (unat lastSeq + 1) t
      else topic_readMessages cfg (lastSeq - word_of_nat limit + 1) limit t)"

definition topic_readMessageAt :: "storeConfig \<Rightarrow> u32 \<Rightarrow> topic \<Rightarrow> (message \<times> topic) outcome" where
  "topic_readMessageAt cfg messageSeq t =
     bindR (calcBaseMessageSeq messageSeq (tp_segments t)) (\<lambda>b.
     case getSegment cfg b t of
       Ret (seg, t) \<Rightarrow> mapR (\<lambda>m. (m, t)) (segment_readAt messageSeq seg)
     | _ \<Rightarrow> Panic)"

section \<open>The invariant of a topic\<close>

text \<open>
  \<open>stored_at t b ms\<close>: the segment with base \<open>b\<close> holds the messages \<open>ms\<close>, be it open or closed.
\<close>

definition stored_at :: "topic \<Rightarrow> u32 \<Rightarrow> message list \<Rightarrow> bool" where
  "stored_at t b ms \<longleftrightarrow>
     (case tp_cache t b of
        Some s \<Rightarrow> seg_ok s ms \<and> sg_baseMessageSeq s = b
      | None \<Rightarrow>
          on_disk b ms \<and>
          (\<exists>idx. index_ok idx b ms \<and> files_at t b = (encoded ms, ix_slots idx, ix_count idx)))"

lemma files_at_fields [simp]:
  "files_at (t\<lparr>tp_segments := x\<rparr>) b = files_at t b"
  "files_at (t\<lparr>tp_lastMsgSeq := y\<rparr>) b = files_at t b"
  "files_at (t\<lparr>tp_lastBaseMessageSeq := z\<rparr>) b = files_at t b"
  "files_at (t\<lparr>tp_cache := w\<rparr>) b = files_at t b"
  by (simp_all add: files_at_def)

text \<open>The segments in order, each ending where the next one begins or before.\<close>

fun chain :: "(u32 \<times> message list) list \<Rightarrow> bool" where
  "chain [] = True"
| "chain [_] = True"
| "chain ((b, ms) # (c, ns) # r) = (unat b + length ms \<le> unat c \<and> b < c \<and> chain ((c, ns) # r))"

definition topic_ok :: "topic \<Rightarrow> (u32 \<times> message list) list \<Rightarrow> bool" where
  "topic_ok t segs \<longleftrightarrow> segs \<noteq> [] \<and> tp_segments t = map fst segs \<and> chain segs \<and> fst (hd segs) = 0 \<and>
     (\<forall>(b, ms) \<in> set segs. stored_at t b ms) \<and> tp_lastBaseMessageSeq t = fst (last segs) \<and>
     tp_lastMsgSeq t = fst (last segs) + word_of_nat (length (snd (last segs)))"

definition messages_of :: "(u32 \<times> message list) list \<Rightarrow> message list" where
  "messages_of segs = concat (map snd segs)"

lemma getSegment_ok:
  assumes "stored_at t b ms"
  obtains s where "getSegment cfg b t = Ret (s, t\<lparr>tp_cache := (tp_cache t)(b := Some s)\<rparr>)"
    and "seg_ok s ms" and "sg_baseMessageSeq s = b"
    and "tp_cache t b = None \<Longrightarrow> sg_lastMsgSeq s = b + word_of_nat (length ms)"
proof (cases "tp_cache t b")
  case (Some s)
  with assms that [of s] show thesis
    by (simp add: stored_at_def getSegment_def fun_upd_idem)
next
  case None
  with assms obtain idx where d: "on_disk b ms" and i: "index_ok idx b ms"
    and f: "files_at t b = (encoded ms, ix_slots idx, ix_count idx)"
    by (auto simp: stored_at_def)
  from d have "length (encoded ms @ []) < 2 ^ 32" by (simp add: on_disk_def)
  from segment_init_ok [OF torn_tail_Nil _ NewIndex_ok [OF i d order_refl] d this, of "cfg_EachMessagegMaxSizeOfBytes cfg"]
  obtain s where "segment_init (cfg_EachMessagegMaxSizeOfBytes cfg)
        (newSegment b (encoded ms) (NewIndex b (ix_slots idx) (ix_count idx))) = Ret s"
      "seg_ok s ms" "sg_lastMsgSeq s = b + word_of_nat (length ms)" "sg_baseMessageSeq s = b"
    by auto
  with None f show thesis by (intro that [of s]) (simp_all add: getSegment_def)
qed

lemma stored_at_cached: "seg_ok s ms \<Longrightarrow> sg_baseMessageSeq s = b \<Longrightarrow>
    stored_at (t\<lparr>tp_cache := (tp_cache t)(b := Some s)\<rparr>) b ms"
  by (simp add: stored_at_def)

lemma stored_at_other: "c \<noteq> b \<Longrightarrow> stored_at (t\<lparr>tp_cache := (tp_cache t)(c := s)\<rparr>) b ms = stored_at t b ms"
  by (simp add: stored_at_def split: option.split)

lemma stored_at_eq:
  "tp_cache t' b = tp_cache t b \<Longrightarrow> files_at t' b = files_at t b \<Longrightarrow> stored_at t' b ms = stored_at t b ms"
  by (simp add: stored_at_def cong: option.case_cong)

lemma stored_at_on_disk: "stored_at t b ms \<Longrightarrow> on_disk b ms"
  by (auto simp: stored_at_def seg_ok_def split: option.splits)

lemma stored_at_numbered: "stored_at t b ms \<Longrightarrow> numbered b ms"
  by (auto dest: stored_at_on_disk simp: on_disk_def)

lemma stored_at_fields [simp]:
  "stored_at (t\<lparr>tp_segments := x\<rparr>) b ms = stored_at t b ms"
  "stored_at (t\<lparr>tp_lastMsgSeq := y\<rparr>) b ms = stored_at t b ms"
  "stored_at (t\<lparr>tp_lastBaseMessageSeq := z\<rparr>) b ms = stored_at t b ms"
  by (simp_all add: stored_at_def split: option.split)

text \<open>Closing a segment loses nothing.\<close>

lemma evict_stored_at: "stored_at t b ms \<Longrightarrow> stored_at (evict c t) b ms"
  by (auto simp: stored_at_def evict_def files_at_def segment_close_def seg_ok_def split: option.splits)

lemma evict_fields [simp]:
  "tp_segments (evict c t) = tp_segments t" "tp_lastMsgSeq (evict c t) = tp_lastMsgSeq t"
  "tp_lastBaseMessageSeq (evict c t) = tp_lastBaseMessageSeq t"
  by (simp_all add: evict_def split: option.splits)

lemma evict_ok: "topic_ok t segs \<Longrightarrow> topic_ok (evict c t) segs"
  by (auto simp: topic_ok_def intro: evict_stored_at)

section \<open>Order of the segments\<close>

lemma chain_tail: "chain (x # r) \<Longrightarrow> chain r"
  by (cases r; cases x) auto

lemma chain_snoc:
  "chain (segs @ [(b, ms)]) \<Longrightarrow> unat b + length ms \<le> unat c \<Longrightarrow> b < c \<Longrightarrow> chain (segs @ [(b, ms), (c, ns)])"
  by (induction segs rule: chain.induct) auto

lemma chain_bases_above: "chain ((b, ms) # r) \<Longrightarrow> x \<in> set r \<Longrightarrow> b < fst x"
proof (induction r arbitrary: b ms)
  case (Cons y r)
  obtain c ns where y: "y = (c, ns)" by (cases y)
  with Cons.prems have "b < c" "chain ((c, ns) # r)" by simp_all
  with Cons.IH [of c ns] Cons.prems(2) y show ?case
    by (auto intro: less_trans)
qed simp

lemma chain_distinct: "chain segs \<Longrightarrow> distinct (map fst segs)"
proof (induction segs)
  case (Cons x r)
  obtain b ms where "x = (b, ms)" by (cases x)
  with Cons chain_tail [of x r] chain_bases_above [of b ms r] show ?case by auto
qed simp

lemma numbered_above: "numbered b ms \<Longrightarrow> m \<in> set ms \<Longrightarrow> b < GetSeq m \<and> unat (GetSeq m) \<le> unat b + length ms"
  using numbered_seq [of b ms] by (fastforce simp: in_set_conv_nth word_less_nat_alt)

lemma chain_messages_above:
  assumes "chain ((b, ms) # r)" and "\<forall>(b, ms) \<in> set ((b, ms) # r). numbered b ms" and "m \<in> set (messages_of ((b, ms) # r))"
  shows "b < GetSeq m"
proof -
  from assms(3) obtain c ns where c: "(c, ns) \<in> set ((b, ms) # r)" "m \<in> set ns"
    by (fastforce simp: messages_of_def)
  with assms(2) have "c < GetSeq m" using numbered_above [of c ns m] by blast
  moreover from c(1) chain_bases_above [OF assms(1)] have "b \<le> c" by (force simp: order_le_less)
  ultimately show ?thesis by simp
qed

text \<open>The segment that \<open>calcBaseMessageSeq\<close> picks: everything before it is too old, everything behind it is not.\<close>

lemma calcBase_ok:
  assumes "chain segs" and "\<forall>(b, ms) \<in> set segs. numbered b ms" and "segs \<noteq> []" and "fst (hd segs) \<le> target"
  obtains pre b ms post where "segs = pre @ (b, ms) # post" and "calcBaseMessageSeq target (map fst segs) = Ret b"
    and "b \<le> target" and "\<forall>m \<in> set (messages_of pre). GetSeq m < target"
    and "\<forall>m \<in> set (messages_of post). target < GetSeq m"
  using assms
proof (induction segs arbitrary: thesis rule: chain.induct)
  case (2 x)
  then show ?case by (cases x) (fastforce simp: messages_of_def)
next
  case (3 b ms c ns r)
  show ?case
  proof (cases "target \<le> c")
    case True
    have above: "target < GetSeq m" if "m \<in> set (messages_of ((c, ns) # r))" for m
      using chain_messages_above [of c ns r m] that "3.prems"(2,3) True by simp
    show ?thesis
      by (rule "3.prems"(1) [of "[]" b ms "(c, ns) # r"])
        (use "3.prems" True above in \<open>auto simp: messages_of_def\<close>)
  next
    case False
    then have gt: "c < target" by simp
    obtain pre b' ms' post where ih: "(c, ns) # r = pre @ (b', ms') # post"
      "calcBaseMessageSeq target (map fst ((c, ns) # r)) = Ret b'" "b' \<le> target"
      "\<forall>m \<in> set (messages_of pre). GetSeq m < target" "\<forall>m \<in> set (messages_of post). target < GetSeq m"
      using "3.prems" gt by (elim "3.IH") auto
    have "GetSeq m < target" if "m \<in> set ms" for m
    proof -
      from "3.prems"(3) have "numbered b ms" by simp
      from numbered_above [OF this that] "3.prems"(2) gt show ?thesis by (simp add: word_less_nat_alt)
    qed
    moreover have "calcBaseMessageSeq target (map fst ((b, ms) # (c, ns) # r)) = Ret b'"
      using ih(2) gt by (auto dest: leD)
    ultimately show ?thesis
      using ih by (intro "3.prems"(1) [of "(b, ms) # pre" b' ms' post]) (auto simp: messages_of_def)
  qed
qed simp

section \<open>Reading returns the messages from a sequence number on\<close>

lemma topic_getSegment:
  assumes "topic_ok t segs" and "(b, ms) \<in> set segs"
  obtains s t' where "getSegment cfg b t = Ret (s, t')" and "seg_ok s ms" and "sg_baseMessageSeq s = b"
    and "topic_ok t' segs" and "tp_segments t' = tp_segments t" and "tp_lastMsgSeq t' = tp_lastMsgSeq t"
    and "tp_cache t' b = Some s" and "t' = t\<lparr>tp_cache := (tp_cache t)(b := Some s)\<rparr>"
proof -
  from assms have "stored_at t b ms" by (auto simp: topic_ok_def)
  then obtain s where s: "getSegment cfg b t = Ret (s, t\<lparr>tp_cache := (tp_cache t)(b := Some s)\<rparr>)"
    "seg_ok s ms" "sg_baseMessageSeq s = b" by (rule getSegment_ok)
  let ?t = "t\<lparr>tp_cache := (tp_cache t)(b := Some s)\<rparr>"
  from assms(1) have d: "distinct (map fst segs)" by (simp add: topic_ok_def chain_distinct)
  have "stored_at ?t c ns" if "(c, ns) \<in> set segs" for c ns
  proof (cases "c = b")
    case True
    with that assms(2) d have "ns = ms" by (metis eq_key_imp_eq_value)
    with True s show ?thesis by (simp add: stored_at_cached)
  next
    case False
    with that assms(1) show ?thesis by (auto simp: topic_ok_def stored_at_other)
  qed
  with assms(1) have "topic_ok ?t segs" by (auto simp: topic_ok_def)
  with s show thesis by (intro that [of s ?t]) simp_all
qed

lemma next_in_chain:
  assumes "topic_ok t (pre @ (b, ms) # post)"
  shows "nextBaseMessageSeq b t = (case post of [] \<Rightarrow> None | x # _ \<Rightarrow> Some (fst x))"
proof -
  from assms have seg: "tp_segments t = map fst pre @ b # map fst post" by (simp add: topic_ok_def)
  moreover from assms have "distinct (map fst (pre @ (b, ms) # post))"
    unfolding topic_ok_def by (blast intro: chain_distinct)
  then have "dropWhile (\<lambda>x. x \<noteq> b) (map fst pre @ b # map fst post) = b # map fst post"
    by (subst dropWhile_append2) auto
  ultimately show ?thesis
    by (simp add: nextBaseMessageSeq_def split: list.split)
qed

lemma read_next_ok:
  assumes "topic_ok t (pre @ (b, ms) # post)"
  obtains t' where "read_next cfg limit b got t =
      Some (got @ map stored (take (limit - length got) (messages_of post)), Ret (), t')"
    and "topic_ok t' (pre @ (b, ms) # post)"
  using assms
proof (induction post arbitrary: pre b ms got t thesis)
  case Nil
  from next_in_chain [OF Nil.prems(2)] have "read_next cfg limit b got t = Some (got, Ret (), t)"
    by (subst read_next.simps) simp
  with Nil.prems show ?case by (simp add: messages_of_def)
next
  case (Cons x post)
  obtain c ns where x: "x = (c, ns)" by (cases x)
  show ?case
  proof (cases "length got < limit")
    case False
    then have "read_next cfg limit b got t = Some (got, Ret (), t)"
      by (subst read_next.simps) simp
    with False Cons.prems show ?thesis by simp
  next
    case True
    have "(c, ns) \<in> set (pre @ (b, ms) # x # post)" by (simp add: x)
    from topic_getSegment [OF Cons.prems(2) this] obtain s t1 where s: "getSegment cfg c t = Ret (s, t1)" "seg_ok s ns"
      and "topic_ok t1 (pre @ (b, ms) # x # post)" by blast
    then have t1: "topic_ok t1 ((pre @ [(b, ms)]) @ (c, ns) # post)" by (simp add: x)
    define chunk where "chunk = map stored (take (limit - length got) ns)"
    from s(2) have "list_all loggable ns" "sg_file s = encoded ns" by (simp_all add: seg_ok_def on_disk_def)
    with readMessagesAtPosition_records [of ns 0 "limit - length got"]
    have read: "readMessagesAtPosition (sg_file s) (getFileSize s) 0 (limit - length got) = (chunk, Ret ())"
      by (simp add: getFileSize_ok [OF s(2)] chunk_def)
    obtain t' where t': "read_next cfg limit c (got @ chunk) t1 =
        Some ((got @ chunk) @ map stored (take (limit - length (got @ chunk)) (messages_of post)), Ret (), t')"
      and ok: "topic_ok t' ((pre @ [(b, ms)]) @ (c, ns) # post)"
      by (rule Cons.IH [OF _ t1])
    have "nextBaseMessageSeq b t = Some c" using next_in_chain [OF Cons.prems(2)] by (simp add: x)
    with True s(1) read have step: "read_next cfg limit b got t = read_next cfg limit c (got @ chunk) t1"
      by (subst read_next.simps) (simp only: if_True option.case outcome.case prod.case)
    have left: "limit - length (got @ chunk) = limit - length got - length ns"
      by (auto simp: chunk_def)
    have parts: "messages_of (x # post) = ns @ messages_of post" by (simp add: x messages_of_def)
    show ?thesis
    proof (rule Cons.prems(1))
      show "read_next cfg limit b got t =
          Some (got @ map stored (take (limit - length got) (messages_of (x # post))), Ret (), t')"
        unfolding step t'(1) left parts by (simp add: chunk_def)
      show "topic_ok t' (pre @ (b, ms) # x # post)" using ok by (simp add: x)
    qed
  qed
qed

lemma topic_readMessages_ok:
  assumes "topic_ok t segs"
  obtains t' where "topic_readMessages cfg target limit t =
      Some (map stored (take limit (filter (\<lambda>m. target \<le> GetSeq m) (messages_of segs))), Ret (), t')"
    and "topic_ok t' segs"
proof -
  from assms have c: "chain segs" "segs \<noteq> []" "fst (hd segs) \<le> target" "tp_segments t = map fst segs"
    and n: "\<forall>(b, ms) \<in> set segs. numbered b ms"
    by (auto simp: topic_ok_def dest: stored_at_numbered)
  obtain pre b ms post where segs: "segs = pre @ (b, ms) # post" "calcBaseMessageSeq target (map fst segs) = Ret b"
    "b \<le> target" "\<forall>m \<in> set (messages_of pre). GetSeq m < target" "\<forall>m \<in> set (messages_of post). target < GetSeq m"
    by (rule calcBase_ok [OF c(1) n c(2,3)])
  obtain s t1 where s: "getSegment cfg b t = Ret (s, t1)" "seg_ok s ms" "sg_baseMessageSeq s = b" and t1: "topic_ok t1 segs"
    by (rule topic_getSegment [OF assms, of b ms]) (auto simp: segs(1))
  define got where "got = map stored (take limit (filter (\<lambda>m. target \<le> GetSeq m) ms))"
  from seglog.read [OF s(2), of target limit] s(3) segs(3)
  have read: "segment_readMessages target limit s = (got, Ret ())" by (simp add: got_def)
  obtain t' where t': "read_next cfg limit b got t1 =
      Some (got @ map stored (take (limit - length got) (messages_of post)), Ret (), t')" "topic_ok t' segs"
    using read_next_ok [of t1 pre b ms post cfg limit got] t1 unfolding segs(1) by blast
  have "filter (\<lambda>m. target \<le> GetSeq m) (messages_of segs) = filter (\<lambda>m. target \<le> GetSeq m) ms @ messages_of post"
  proof -
    have "filter (\<lambda>m. target \<le> GetSeq m) (messages_of pre) = []"
      using segs(4) by (auto simp: filter_empty_conv dest: leD)
    moreover have "filter (\<lambda>m. target \<le> GetSeq m) (messages_of post) = messages_of post"
      using segs(5) by (auto simp: filter_id_conv)
    ultimately show ?thesis by (simp add: segs(1) messages_of_def)
  qed
  moreover have "limit - length got = limit - length (filter (\<lambda>m. target \<le> GetSeq m) ms)"
    by (auto simp: got_def)
  moreover have "topic_readMessages cfg target limit t = read_next cfg limit b got t1"
    using segs(2) c(4) s(1) read by (simp add: topic_readMessages_def)
  ultimately show thesis
    using t' by (intro that [of t']) (simp_all add: got_def)
qed

text \<open>A single message by its number.\<close>

lemma topic_readMessageAt_ok:
  assumes "topic_ok t segs" and "m \<in> set (messages_of segs)"
  obtains t' where "topic_readMessageAt cfg (GetSeq m) t = Ret (stored m, t')" and "topic_ok t' segs"
proof -
  from assms have c: "chain segs" "segs \<noteq> []" "fst (hd segs) \<le> GetSeq m" "tp_segments t = map fst segs"
    and n: "\<forall>(b, ms) \<in> set segs. numbered b ms"
    by (auto simp: topic_ok_def dest: stored_at_numbered)
  obtain pre b ms post where segs: "segs = pre @ (b, ms) # post" "calcBaseMessageSeq (GetSeq m) (map fst segs) = Ret b"
    "b \<le> GetSeq m" "\<forall>x \<in> set (messages_of pre). GetSeq x < GetSeq m" "\<forall>x \<in> set (messages_of post). GetSeq m < GetSeq x"
    by (rule calcBase_ok [OF c(1) n c(2,3)])
  obtain s t1 where s: "getSegment cfg b t = Ret (s, t1)" "seg_ok s ms" "sg_baseMessageSeq s = b" and t1: "topic_ok t1 segs"
    by (rule topic_getSegment [OF assms(1), of b ms]) (auto simp: segs(1))
  have "m \<notin> set (messages_of pre)" "m \<notin> set (messages_of post)" using segs(4,5) by auto
  with assms(2) have "m \<in> set ms" by (auto simp: segs(1) messages_of_def)
  then obtain i where i: "i < length ms" "ms ! i = m" by (auto simp: in_set_conv_nth)
  from n have "numbered b ms" by (simp add: segs(1))
  from numbered_seq [OF this i(1)] i(2) s(3) have "unat (GetSeq m) = unat (sg_baseMessageSeq s) + i + 1" by simp
  from segment_readAt_ok [OF s(2) this i(1)] s(1) segs(2) c(4) i(2) t1 show thesis
    by (intro that [of t1]) (simp_all add: topic_readMessageAt_def mapR_def)
qed

section \<open>Appending numbers the messages without a gap\<close>

lemma assign_seqs_simps [simp]:
  "length (assign_seqs s ms) = length ms" "assign_seqs s ms = [] \<longleftrightarrow> ms = []"
  by (induction ms arbitrary: s) auto

lemma assign_seqs_nth: "i < length ms \<Longrightarrow> assign_seqs s ms ! i = SetSeq (s + word_of_nat (i + 1)) (ms ! i)"
  by (induction ms arbitrary: s i) (auto simp: nth_Cons' less_Suc_eq_0_disj algebra_simps)

lemma loggable_SetSeq [simp]: "loggable (SetSeq s m) = loggable m"
proof -
  have "length (MarshalMessage 1 (SetSeq s m)) = length (MarshalMessage 1 m)"
    by (simp add: MarshalMessage_def SetSeq_def Let_def)
  moreover have "storable (SetSeq s m) = storable m"
    by (simp add: storable_def SetSeq_def Let_def)
  ultimately show ?thesis by (simp add: loggable_def)
qed

lemma assign_seqs_loggable [simp]: "list_all loggable (assign_seqs s ms) = list_all loggable ms"
  by (induction ms arbitrary: s) auto

lemma length_encoded_assign: "length (encoded (assign_seqs s ms)) = length (encoded ms)"
proof (induction ms arbitrary: s)
  case (Cons m ms)
  have "length (MarshalMessage 1 (SetSeq q m)) = length (MarshalMessage 1 m)" for q
    by (simp add: MarshalMessage_def SetSeq_def Let_def)
  with Cons show ?case by (simp add: length_Message_Encode)
qed simp

lemma numbered_assign:
  assumes "numbered b ms" and "unat b + length ms + length msgs < 2 ^ 32" and "s = b + word_of_nat (length ms)"
  shows "numbered b (ms @ assign_seqs s msgs)"
  unfolding numbered_def
proof (intro conjI allI impI)
  show "unat b + length (ms @ assign_seqs s msgs) < 2 ^ 32" using assms(2) by simp
  fix i assume i: "i < length (ms @ assign_seqs s msgs)"
  show "GetSeq ((ms @ assign_seqs s msgs) ! i) = b + word_of_nat (i + 1)"
  proof (cases "i < length ms")
    case True
    with assms(1) show ?thesis by (simp add: numbered_def nth_append)
  next
    case False
    then have "word_of_nat i = (word_of_nat (length ms) + word_of_nat (i - length ms) :: u32)"
      by (metis le_add_diff_inverse not_less of_nat_add)
    with False i assms(3) show ?thesis
      by (simp add: nth_append assign_seqs_nth)
  qed
qed

text \<open>
  There is room for a batch: the active segment is neither full nor too large, and neither the file
  nor the numbers overflow 32 bits.
\<close>

definition batch_fits :: "storeConfig \<Rightarrow> topic \<Rightarrow> u32 \<Rightarrow> message list \<Rightarrow> message list \<Rightarrow> bool" where
  "batch_fits cfg t b ms msgs \<longleftrightarrow> msgs \<noteq> [] \<and> list_all loggable msgs \<and>
     length (encoded ms) + length (encoded msgs) < 2 ^ 32 \<and> unat b + length ms + length msgs < 2 ^ 32"

definition active_full :: "storeConfig \<Rightarrow> topic \<Rightarrow> bool" where
  "active_full cfg t \<longleftrightarrow>
     (case getActiveSegment cfg t of
        Ret (s, _) \<Rightarrow> IsFull (sg_index s) \<or> unat (sg_position s) > cfg_SegmentMaxBytes cfg
      | _ \<Rightarrow> False)"

lemma last_seq_assign: "msgs \<noteq> [] \<Longrightarrow> GetSeq (last (assign_seqs s msgs)) = s + word_of_nat (length msgs)"
  by (cases "length msgs") (simp_all add: last_conv_nth assign_seqs_nth)

lemma topic_appendMessages_ok:
  assumes ok: "topic_ok t (segs @ [(b, ms)])" and fits: "batch_fits cfg t b ms msgs" and "\<not> active_full cfg t"
    and msgs': "msgs' = assign_seqs (tp_lastMsgSeq t) msgs"
  obtains t' where "topic_appendMessages cfg msgs t = (Ret (map GetSeq msgs', length (encoded msgs)), msgs', t')"
    and "topic_ok t' (segs @ [(b, ms @ msgs')])"
proof -
  let ?last = "b + word_of_nat (length ms)"
  from ok have last: "tp_lastMsgSeq t = ?last" "last (tp_segments t) = b" "tp_segments t \<noteq> []"
    by (auto simp: topic_ok_def)
  obtain s t1 where s: "getSegment cfg b t = Ret (s, t1)" "seg_ok s ms" "sg_baseMessageSeq s = b"
    and t1: "topic_ok t1 (segs @ [(b, ms)])" "tp_segments t1 = tp_segments t" "tp_lastMsgSeq t1 = tp_lastMsgSeq t"
    by (rule topic_getSegment [OF ok, of b ms cfg]) (simp, blast)
  have active: "getActiveSegment cfg t = Ret (s, t1)" using last s(1) by (simp add: getActiveSegment_def)
  with assms(3) have room: "\<not> (IsFull (sg_index s) \<or> unat (sg_position s) > cfg_SegmentMaxBytes cfg)"
    by (simp add: active_full_def)
  from s(2,3) have "numbered b ms" "list_all loggable ms" by (simp_all add: seg_ok_def on_disk_def)
  with fits have disk: "on_disk b (ms @ msgs')"
    using numbered_assign [of b ms msgs ?last]
    by (simp add: on_disk_def batch_fits_def msgs' last(1) length_encoded_assign)
  then have app: "appendable s ms msgs'" by (simp add: appendable_def s(3))
  obtain n s' where s': "segment_appendMessages msgs' s = (n, s')" by (cases "segment_appendMessages msgs' s")
  with segment_appendMessages_ok [OF s(2) app] s(3) have seg': "seg_ok s' (ms @ msgs')" "n = length (encoded msgs)"
    "sg_baseMessageSeq s' = b" by (simp_all add: msgs' length_encoded_assign)
  from fits have ne: "msgs \<noteq> []" by (simp add: batch_fits_def)
  have seq: "GetSeq (last msgs') = b + word_of_nat (length (ms @ msgs'))"
    using last_seq_assign [OF ne, of ?last] by (simp add: msgs' last(1) add.assoc)
  moreover from fits have "unat (b + word_of_nat (length ms)) = unat b + length ms"
    "unat (b + word_of_nat (length (ms @ msgs'))) = unat b + length (ms @ msgs')"
    by (intro unat_seq; simp add: batch_fits_def msgs')+
  ultimately have newer: "\<not> tp_lastMsgSeq t \<ge> GetSeq (last msgs')"
    using ne by (simp add: last(1) word_le_nat_alt msgs')
  let ?t = "t1\<lparr>tp_lastMsgSeq := GetSeq (last msgs'), tp_cache := (tp_cache t1)(b := Some s')\<rparr>"
  have "topic_appendMessages cfg msgs t = (Ret (map GetSeq msgs', n), msgs', ?t)"
    using active room newer ne s' t1(2,3) last(2)
    by (simp add: topic_appendMessages_def Let_def msgs' [symmetric])
  moreover have "topic_ok ?t (segs @ [(b, ms @ msgs')])"
  proof -
    have "stored_at ?t b (ms @ msgs')" using seg' by (simp add: stored_at_def)
    moreover have "stored_at ?t c ns" if "(c, ns) \<in> set segs" for c ns
    proof -
      from t1(1) have "distinct (map fst (segs @ [(b, ms)]))" unfolding topic_ok_def by (blast intro: chain_distinct)
      with that have "c \<noteq> b" by (auto simp: image_iff)
      with that t1(1) show ?thesis by (auto simp: topic_ok_def stored_at_def split: option.splits)
    qed
    moreover have "chain (segs @ [(b, ms)]) = chain (segs @ [(b, ms @ msgs')])"
      by (induction segs rule: chain.induct) auto
    moreover have "fst (hd (segs @ [(b, ms)])) = fst (hd (segs @ [(b, ms @ msgs')]))"
      by (cases segs) auto
    ultimately show ?thesis using t1(1) seq by (auto simp: topic_ok_def)
  qed
  ultimately show thesis using seg'(2) by (intro that [of ?t]) simp_all
qed

text \<open>
  The batch that finds the active segment full starts a new segment, and is lost: its numbers are
  used up, but no segment holds its messages, because the write goes to the segment that the roll closed.
\<close>

lemma topic_appendMessages_roll:
  assumes ok: "topic_ok t (segs @ [(b, ms)])" and "active_full cfg t" and ne: "msgs \<noteq> []"
    and room: "unat b + length ms + length msgs < 2 ^ 32"
    and fresh: "\<And>c. b < c \<Longrightarrow> tp_cache t c = None \<and> tp_files t c = None"
  obtains t' c where "topic_appendMessages cfg msgs t =
      (Fail (ErrWrap ''log write failed'' (ErrMsg ''file already closed'')), assign_seqs (tp_lastMsgSeq t) msgs, t')"
    and "c = b + word_of_nat (length ms + length msgs)" and "topic_ok t' (segs @ [(b, ms), (c, [])])"
proof -
  define c where "c = b + word_of_nat (length ms + length msgs)"
  from ok have last: "tp_lastMsgSeq t = b + word_of_nat (length ms)" "last (tp_segments t) = b" "tp_segments t \<noteq> []"
      "tp_lastBaseMessageSeq t = b"
    by (auto simp: topic_ok_def)
  obtain s t1 where s: "getSegment cfg b t = Ret (s, t1)" "seg_ok s ms" "sg_baseMessageSeq s = b"
    and t1: "topic_ok t1 (segs @ [(b, ms)])" "tp_segments t1 = tp_segments t" "tp_lastMsgSeq t1 = tp_lastMsgSeq t"
      "tp_cache t1 b = Some s" "t1 = t\<lparr>tp_cache := (tp_cache t)(b := Some s)\<rparr>"
    by (rule topic_getSegment [OF ok, of b ms cfg]) (simp, blast)
  have active: "getActiveSegment cfg t = Ret (s, t1)" using last s(1) by (simp add: getActiveSegment_def)
  with assms(2) have full: "IsFull (sg_index s) \<or> unat (sg_position s) > cfg_SegmentMaxBytes cfg"
    by (simp add: active_full_def)
  have seq: "GetSeq (last (assign_seqs (tp_lastMsgSeq t) msgs)) = c"
    using last_seq_assign [OF ne, of "tp_lastMsgSeq t"] by (simp add: last(1) c_def add.assoc)
  from room have cu: "unat c = unat b + (length ms + length msgs)" unfolding c_def by (intro unat_seq) simp
  from room have "unat (b + word_of_nat (length ms)) = unat b + length ms" by (intro unat_seq) simp
  with cu ne have newer: "\<not> tp_lastMsgSeq t \<ge> c" by (simp add: last(1) word_le_nat_alt)
  from cu ne have bc: "b < c" by (simp add: word_less_nat_alt)
  let ?t1 = "t1\<lparr>tp_lastMsgSeq := c\<rparr>"
  have active1: "getActiveSegment cfg ?t1 = Ret (s, ?t1)"
    using last t1(2,4) by (simp add: getActiveSegment_def getSegment_def)
  define t2 where "t2 = (evict b ?t1)\<lparr>tp_lastBaseMessageSeq := c, tp_segments := tp_segments t1 @ [c]\<rparr>"
  have old: "stored_at t2 d ns" if "(d, ns) \<in> set (segs @ [(b, ms)])" for d ns
    using that t1(1) by (auto simp: t2_def topic_ok_def intro!: evict_stored_at)
  have new: "stored_at t2 c []"
  proof -
    have "tp_cache t2 c = None" "files_at t2 c = no_files"
      using fresh [OF bc] bc t1(4,5) by (auto simp: t2_def evict_def files_at_def)
    moreover have "index_ok \<lparr>ix_baseMessageSeq = c, ix_slots = \<lambda>_. \<lparr>RelativeOffset = 0, Position = 0\<rparr>, ix_count = 0\<rparr> c []"
      by (simp add: index_ok_def)
    moreover have "on_disk c []" using cu room by (simp add: on_disk_def numbered_def)
    ultimately show ?thesis by (auto simp: stored_at_def no_files_def)
  qed
  then obtain s2 where s2: "getSegment cfg c t2 = Ret (s2, t2\<lparr>tp_cache := (tp_cache t2)(c := Some s2)\<rparr>)"
    "seg_ok s2 []" "sg_baseMessageSeq s2 = c" "tp_cache t2 c = None \<Longrightarrow> sg_lastMsgSeq s2 = c"
    by (rule getSegment_ok [of t2 c "[]" cfg]) auto
  have "tp_cache t2 c = None" using fresh [OF bc] bc t1(4,5) by (simp add: t2_def evict_def)
  with s2(4) have "sg_lastMsgSeq s2 = c" by simp
  define t' where "t' = t2\<lparr>tp_cache := (tp_cache t2)(c := Some s2), tp_lastMsgSeq := c\<rparr>"
  have roll: "roll cfg (last (assign_seqs (tp_lastMsgSeq t) msgs)) ?t1 = Ret t'"
    unfolding roll_def active1 seq using s2(1) \<open>sg_lastMsgSeq s2 = c\<close> last(4) t1(5)
    by (simp add: resetActiveSegment_def mapR_def t'_def t2_def Let_def)
  have "topic_appendMessages cfg msgs t =
      (Fail (ErrWrap ''log write failed'' (ErrMsg ''file already closed'')), assign_seqs (tp_lastMsgSeq t) msgs, t')"
    using active full newer ne roll t1(3) by (auto simp: topic_appendMessages_def Let_def seq)
  moreover have "topic_ok t' (segs @ [(b, ms), (c, [])])"
  proof -
    have ch: "chain (segs @ [(b, ms), (c, [])])"
      using t1(1) bc cu by (intro chain_snoc) (simp_all add: topic_ok_def)
    moreover have "stored_at t' d ns" if "(d, ns) \<in> set (segs @ [(b, ms), (c, [])])" for d ns
    proof (cases "d = c")
      case True
      have "ns = []"
        by (rule eq_key_imp_eq_value [OF chain_distinct [OF ch]]) (use that True in auto)
      with True s2(2,3) show ?thesis by (simp add: t'_def stored_at_def)
    next
      case False
      with that have "(d, ns) \<in> set (segs @ [(b, ms)])" by auto
      from old [OF this] False show ?thesis by (subst stored_at_eq [of t' d "t2"]) (simp_all add: t'_def)
    qed
    moreover have "fst (hd (segs @ [(b, ms), (c, [])])) = fst (hd (segs @ [(b, ms)]))"
      by (cases segs) simp_all
    moreover have "tp_segments t' = map fst (segs @ [(b, ms), (c, [])])" "tp_lastBaseMessageSeq t' = c" "tp_lastMsgSeq t' = c"
      using t1(1) by (simp_all add: t'_def t2_def topic_ok_def)
    ultimately show ?thesis
      using t1(1) unfolding topic_ok_def by auto
  qed
  ultimately show thesis by (intro that [of t' c]) (simp_all add: c_def)
qed

section \<open>Opening a topic\<close>

lemma swap_down_pres [simp]:
  "length (swap_down i xs) = length xs"
  by (simp add: swap_down_def)

lemma swap_down_mset: "i < length xs \<Longrightarrow> mset (swap_down i xs) = mset xs"
  unfolding swap_down_def by (simp add: mset_swap)

lemma swap_down_order: "0 < i \<Longrightarrow> i < length xs \<Longrightarrow> swap_down i xs ! (i - 1) \<le> swap_down i xs ! i"
  by (auto simp: swap_down_def nth_list_update)

lemma swap_down_max: "0 < i \<Longrightarrow> i < length xs \<Longrightarrow> xs ! (i - 1) \<le> swap_down i xs ! i"
  by (auto simp: swap_down_def nth_list_update)

lemma swap_down_other: "j \<noteq> i \<Longrightarrow> j \<noteq> i - 1 \<Longrightarrow> swap_down i xs ! j = xs ! j"
  by (simp add: swap_down_def)

lemma bubble_pass_spec:
  assumes "0 < i" and "i + n \<le> length xs" and "\<forall>j < i. xs ! j \<le> xs ! (i - 1)"
  shows "length (bubble_pass i n xs) = length xs \<and> mset (bubble_pass i n xs) = mset xs \<and>
    (\<forall>k \<ge> i + n. k < length xs \<longrightarrow> bubble_pass i n xs ! k = xs ! k) \<and>
    (\<forall>j < i + n. bubble_pass i n xs ! j \<le> bubble_pass i n xs ! (i + n - 1))"
  using assms
proof (induction n arbitrary: i xs)
  case (Suc n)
  let ?xs = "swap_down i xs"
  have i: "i < length xs" using Suc.prems by simp
  have "\<forall>j < i + 1. ?xs ! j \<le> ?xs ! (i + 1 - 1)"
  proof (intro allI impI)
    fix j assume "j < i + 1"
    then consider "j = i" | "j = i - 1" "j < i" | "j < i - 1" by linarith
    then show "?xs ! j \<le> ?xs ! (i + 1 - 1)"
    proof cases
      case 3
      then have "?xs ! j = xs ! j" by (intro swap_down_other) auto
      also have "\<dots> \<le> xs ! (i - 1)" using 3 Suc.prems(3) by simp
      also have "\<dots> \<le> ?xs ! i" using swap_down_max Suc.prems(1) i by blast
      finally show ?thesis by simp
    qed (use swap_down_order Suc.prems(1) i in auto)
  qed
  with Suc.IH [of "i + 1" ?xs] Suc.prems i swap_down_mset [OF i] show ?case
    by (simp add: swap_down_other)
qed simp

lemma bubble_pass_take:
  assumes "length ys = length xs" and "mset ys = mset xs" and "\<forall>k \<ge> m. k < length xs \<longrightarrow> ys ! k = xs ! k"
  shows "set (take m ys) = set (take m xs)"
proof -
  have "drop m ys = drop m xs" using assms(1,3) by (intro nth_equalityI) auto
  with assms(2) have "mset (take m ys) = mset (take m xs)"
    by (metis add_right_cancel append_take_drop_id mset_append)
  then show ?thesis by (rule mset_eq_setD)
qed

definition upper_sorted :: "nat \<Rightarrow> u32 list \<Rightarrow> bool" where
  "upper_sorted n xs \<longleftrightarrow> (\<forall>i j. i < j \<longrightarrow> j < length xs \<longrightarrow> length xs - n \<le> j \<longrightarrow> xs ! i \<le> xs ! j)"

lemma bubble_pass_upper:
  assumes "upper_sorted n xs"
  shows "upper_sorted (n + 1) (bubble_pass 1 (length xs - n - 1) xs) \<and>
    mset (bubble_pass 1 (length xs - n - 1) xs) = mset xs"
proof (cases "length xs - n = 0")
  case True
  with assms show ?thesis by (auto simp: upper_sorted_def)
next
  case False
  define ys where "ys = bubble_pass 1 (length xs - n - 1) xs"
  define m where "m = length xs - n"
  from False have m: "1 + (length xs - n - 1) = m" "0 < m" "m \<le> length xs" by (auto simp: m_def)
  then have "1 + (length xs - n - 1) \<le> length xs" by simp
  moreover have "\<forall>j < 1. xs ! j \<le> xs ! (1 - 1)" by simp
  ultimately have y: "length ys = length xs" "mset ys = mset xs" "\<forall>k \<ge> m. k < length xs \<longrightarrow> ys ! k = xs ! k"
    "\<forall>j < m. ys ! j \<le> ys ! (m - 1)"
    using bubble_pass_spec [OF zero_less_one, of "length xs - n - 1" xs, unfolded m(1), folded ys_def] m by blast+
  have "ys ! i \<le> ys ! j" if ij: "i < j" "j < length xs" "m - 1 \<le> j" for i j
  proof -
    consider "j = m - 1" | "m \<le> i" "m \<le> j" | "i < m" "m \<le> j" using ij by linarith
    then show ?thesis
    proof cases
      case 1
      with ij y(4) show ?thesis by simp
    next
      case 2
      with ij y(3) assms show ?thesis by (simp add: upper_sorted_def m_def)
    next
      case 3
      with y(1) m have "ys ! i \<in> set (take m ys)" by (auto simp: in_set_conv_nth intro!: exI [of _ i])
      with bubble_pass_take [OF y(1-3)] have "ys ! i \<in> set (take m xs)" by simp
      then obtain k where "k < m" "ys ! i = xs ! k" by (auto simp: in_set_conv_nth)
      with 3 ij y(3) assms show ?thesis by (simp add: upper_sorted_def m_def)
    qed
  qed
  with y(1,2) show ?thesis unfolding ys_def [symmetric] by (simp add: upper_sorted_def m_def)
qed

lemma bubble_passes_upper:
  "upper_sorted n xs \<Longrightarrow> upper_sorted (n + k) (bubble_passes n k xs) \<and> mset (bubble_passes n k xs) = mset xs"
proof (induction k arbitrary: n xs)
  case (Suc k)
  from bubble_pass_upper [OF Suc.prems] Suc.IH [of "n + 1" "bubble_pass 1 (length xs - n - 1) xs"] show ?case
    by simp
qed simp

lemma sortSegmentBaseMessageSeqs_sort: "sortSegmentBaseMessageSeqs xs = sort xs"
proof -
  let ?ys = "sortSegmentBaseMessageSeqs xs"
  have "upper_sorted 0 xs" by (auto simp: upper_sorted_def)
  from bubble_passes_upper [OF this, of "length xs + 1"]
  have u: "upper_sorted (length xs + 1) ?ys" "mset ?ys = mset xs" by (simp_all add: sortSegmentBaseMessageSeqs_def)
  then have "length ?ys = length xs" by (metis size_mset)
  with u(1) have "sorted ?ys" by (auto simp: upper_sorted_def sorted_iff_nth_mono_less)
  with u(2) show ?thesis by (metis properties_for_sort)
qed

text \<open>
  The log files lie in the directory \<open>logs\<close> below the topic's own one, so the listing of the latter
  names none of them: a topic that is opened again knows its first segment only.
\<close>

lemma newTopic_ok:
  assumes "\<And>f. f \<in> set topicDir \<Longrightarrow> \<not> hasSuffix f segmentSuffix"
    and "on_disk 0 ms" and "index_ok idx 0 ms"
    and "(case files 0 of None \<Rightarrow> no_files | Some f \<Rightarrow> f) = (encoded ms, ix_slots idx, ix_count idx)"
  obtains t where "newTopic cfg topicDir files = Ret t" and "topic_ok t [(0, ms)]"
proof -
  have "getAllSegmentBaseMessageSeq topicDir = []"
    using assms(1) by (auto simp: getAllSegmentBaseMessageSeq_def List.map_filter_def filter_empty_conv)
  then have none: "sortSegmentBaseMessageSeqs (getAllSegmentBaseMessageSeq topicDir) = []"
    by (simp add: sortSegmentBaseMessageSeqs_sort)
  define t0 where "t0 = \<lparr>tp_segments = [0], tp_lastBaseMessageSeq = 0, tp_lastMsgSeq = 0,
    tp_cache = Map.empty, tp_files = files\<rparr>"
  have "stored_at t0 0 ms" using assms(2-4) by (auto simp: stored_at_def t0_def files_at_def)
  then obtain s where s: "getSegment cfg 0 t0 = Ret (s, t0\<lparr>tp_cache := (tp_cache t0)(0 := Some s)\<rparr>)" "seg_ok s ms"
    "sg_baseMessageSeq s = 0" "sg_lastMsgSeq s = 0 + word_of_nat (length ms)"
    by (rule getSegment_ok [of t0 0 ms cfg]) (simp add: t0_def)
  let ?t = "t0\<lparr>tp_cache := (tp_cache t0)(0 := Some s), tp_lastMsgSeq := sg_lastMsgSeq s\<rparr>"
  have "newTopic cfg topicDir files = Ret ?t"
    using s(1) by (simp add: newTopic_def none resetActiveSegment_def mapR_def t0_def)
  moreover have "topic_ok ?t [(0, ms)]"
    using s by (simp add: topic_ok_def stored_at_def) (simp add: t0_def)
  ultimately show thesis by (rule that)
qed

end
