(* ===== verification/MessageStore.thy ===== *)
theory MessageStore
  imports Topic
begin

text \<open>
  The message half of the file store, \<^verbatim>\<open>pkg/okstore/filestore_msg.go\<close>, with the slots of
  \<^verbatim>\<open>slot.go\<close> and the hash that picks them: a topic per channel and per user queue, and the ranges
  of messages that the server loads from them.
\<close>

section \<open>Slots\<close>

text \<open>\<open>crc32.ChecksumIEEE\<close>, bit by bit.\<close>

fun crc_bits :: "nat \<Rightarrow> u32 \<Rightarrow> u32" where
  "crc_bits 0 c = c"
| "crc_bits (Suc n) c = crc_bits n (if bit c 0 then drop_bit 1 c XOR 0xEDB88320 else drop_bit 1 c)"

definition HashCrc32 :: "gostring \<Rightarrow> u32" where
  "HashCrc32 s = NOT (foldl (\<lambda>c b. crc_bits 8 (c XOR ucast b)) (NOT 0) s)"

text \<open>The index is taken modulo the number of slots; no slots is a division by zero.\<close>

definition GetSlotNum :: "nat \<Rightarrow> gostring \<Rightarrow> u32 outcome" where
  "GetSlotNum slotCount v =
     (if word_of_nat slotCount = (0 :: u32) then Panic else Ret (HashCrc32 v mod word_of_nat slotCount))"

lemma GetSlotNum_range:
  assumes "GetSlotNum n v = Ret s"
  shows "unat s < n"
proof -
  from assms have s: "s = HashCrc32 v mod word_of_nat n" and n: "(word_of_nat n :: u32) \<noteq> 0"
    by (auto simp: GetSlotNum_def split: if_splits)
  have "unat s = unat (HashCrc32 v) mod unat (word_of_nat n :: u32)" by (simp add: s unat_mod)
  also have "\<dots> < unat (word_of_nat n :: u32)" using n by (simp add: unat_gt_0)
  also have "\<dots> \<le> n" by (simp add: unat_of_nat)
  finally show ?thesis .
qed

section \<open>The store\<close>

text \<open>Topics in use by slot and name, and the segment files of those not yet opened.\<close>

record message_store =
  st_topics :: "u32 \<Rightarrow> gostring \<Rightarrow> topic option"
  st_disk :: "u32 \<Rightarrow> gostring \<Rightarrow> u32 \<Rightarrow> segment_files option"

abbreviation (input) UserQueuePrefix :: gostring where "UserQueuePrefix \<equiv> str ''userqueue_''"

definition topicName :: "gostring \<Rightarrow> u8 \<Rightarrow> gostring" where
  "topicName channelID channelType = dec (unat channelType) @ str ''-'' @ channelID"

definition slot_getTopic :: "storeConfig \<Rightarrow> u32 \<Rightarrow> gostring \<Rightarrow> message_store \<Rightarrow> (topic \<times> message_store) outcome" where
  "slot_getTopic cfg num name st =
     (case st_topics st num name of
        Some t \<Rightarrow> Ret (t, st)
      | None \<Rightarrow> mapR (\<lambda>t. (t, st\<lparr>st_topics := (st_topics st)(num := (st_topics st num)(name := Some t))\<rparr>))
          (newTopic cfg [] (st_disk st num name)))"

definition getTopic ::
    "storeConfig \<Rightarrow> gostring \<Rightarrow> u8 \<Rightarrow> message_store \<Rightarrow> (u32 \<times> gostring \<times> topic \<times> message_store) outcome" where
  "getTopic cfg channelID channelType st =
     (let name = topicName channelID channelType in
      bindR (GetSlotNum (cfg_SlotNum cfg) name) (\<lambda>slotNum.
      mapR (\<lambda>(t, st). (slotNum, name, t, st)) (slot_getTopic cfg slotNum name st)))"

definition put_topic :: "u32 \<Rightarrow> gostring \<Rightarrow> topic \<Rightarrow> message_store \<Rightarrow> message_store" where
  "put_topic num name t st = st\<lparr>st_topics := (st_topics st)(num := (st_topics st num)(name := Some t))\<rparr>"

definition AppendMessages ::
    "storeConfig \<Rightarrow> gostring \<Rightarrow> u8 \<Rightarrow> message list \<Rightarrow> message_store \<Rightarrow> u32 list outcome \<times> message list \<times> message_store" where
  "AppendMessages cfg channelID channelType msgs st =
     (case getTopic cfg channelID channelType st of
        Ret (num, name, t, st) \<Rightarrow>
          let (r, msgs, t) = topic_appendMessages cfg msgs t in (mapR fst r, msgs, put_topic num name t st)
      | _ \<Rightarrow> (Panic, msgs, st))"

definition AppendMessagesOfUser ::
    "storeConfig \<Rightarrow> gostring \<Rightarrow> message list \<Rightarrow> message_store \<Rightarrow> u32 list outcome \<times> message list \<times> message_store" where
  "AppendMessagesOfUser cfg uid = AppendMessages cfg (UserQueuePrefix @ uid) ChannelTypePerson"

definition LoadMsg ::
    "storeConfig \<Rightarrow> gostring \<Rightarrow> u8 \<Rightarrow> u32 \<Rightarrow> message_store \<Rightarrow> (message \<times> message_store) outcome" where
  "LoadMsg cfg channelID channelType messageSeq st =
     bindR (getTopic cfg channelID channelType st) (\<lambda>(num, name, t, st).
     mapR (\<lambda>(m, t). (m, put_topic num name t st)) (topic_readMessageAt cfg messageSeq t))"

definition GetLastMsgSeq :: "storeConfig \<Rightarrow> gostring \<Rightarrow> u8 \<Rightarrow> message_store \<Rightarrow> (u32 \<times> message_store) outcome" where
  "GetLastMsgSeq cfg channelID channelType st =
     mapR (\<lambda>(num, name, t, st). (tp_lastMsgSeq t, st)) (getTopic cfg channelID channelType st)"

text \<open>
  The loaders collect the messages that their callback keeps. \<open>None\<close> means that the topic's read
  loop does not end.
\<close>

type_synonym loaded = "(message list outcome \<times> message_store) option"

definition with_topic ::
    "storeConfig \<Rightarrow> gostring \<Rightarrow> u8 \<Rightarrow> message_store \<Rightarrow> (topic \<Rightarrow> (message list \<times> unit outcome \<times> topic) option) \<Rightarrow>
     (message \<Rightarrow> bool) \<Rightarrow> loaded" where
  "with_topic cfg channelID channelType st rd keep =
     (case getTopic cfg channelID channelType st of
        Ret (num, name, t, st) \<Rightarrow>
          map_option (\<lambda>(ms, r, t). (bindR r (\<lambda>_. Ret (filter keep ms)), put_topic num name t st)) (rd t)
      | _ \<Rightarrow> Some (Panic, st))"

definition LoadLastMsgs :: "storeConfig \<Rightarrow> gostring \<Rightarrow> u8 \<Rightarrow> nat \<Rightarrow> message_store \<Rightarrow> loaded" where
  "LoadLastMsgs cfg channelID channelType limit st =
     with_topic cfg channelID channelType st (topic_readLastMessages cfg limit) (\<lambda>_. True)"

definition LoadLastMsgsWithEnd :: "storeConfig \<Rightarrow> gostring \<Rightarrow> u8 \<Rightarrow> u32 \<Rightarrow> nat \<Rightarrow> message_store \<Rightarrow> loaded" where
  "LoadLastMsgsWithEnd cfg channelID channelType endMessageSeq limit st =
     with_topic cfg channelID channelType st (topic_readLastMessages cfg limit)
       (\<lambda>m. \<not> (endMessageSeq \<noteq> 0 \<and> GetSeq m \<le> endMessageSeq))"

definition LoadPrevRangeMsgs :: "storeConfig \<Rightarrow> gostring \<Rightarrow> u8 \<Rightarrow> u32 \<Rightarrow> u32 \<Rightarrow> nat \<Rightarrow> message_store \<Rightarrow> loaded" where
  "LoadPrevRangeMsgs cfg channelID channelType startMessageSeq endMessageSeq limit st =
     (if startMessageSeq = 0 then Some (Fail (ErrMsg ''start messageSeq must be greater than 0''), st)
      else
        let (actLimit, actStartMessageSeq) =
              (if startMessageSeq < word_of_nat limit then (unat startMessageSeq, 0)
               else (limit, startMessageSeq - word_of_nat limit + 1)) in
        with_topic cfg channelID channelType st (topic_readMessages cfg actStartMessageSeq actLimit)
          (\<lambda>m. \<not> (endMessageSeq \<noteq> 0 \<and> GetSeq m \<le> endMessageSeq)))"

definition LoadNextRangeMsgs :: "storeConfig \<Rightarrow> gostring \<Rightarrow> u8 \<Rightarrow> u32 \<Rightarrow> u32 \<Rightarrow> nat \<Rightarrow> message_store \<Rightarrow> loaded" where
  "LoadNextRangeMsgs cfg channelID channelType startMessageSeq endMessageSeq limit st =
     with_topic cfg channelID channelType st (topic_readMessages cfg startMessageSeq limit)
       (\<lambda>m. \<not> (endMessageSeq \<noteq> 0 \<and> GetSeq m \<ge> endMessageSeq))"

definition SyncMessageOfUser :: "storeConfig \<Rightarrow> gostring \<Rightarrow> u32 \<Rightarrow> nat \<Rightarrow> message_store \<Rightarrow> loaded" where
  "SyncMessageOfUser cfg uid startMessageSeq limit =
     LoadNextRangeMsgs cfg (UserQueuePrefix @ uid) ChannelTypePerson startMessageSeq 0 limit"

section \<open>What the loaders return\<close>

text \<open>\<open>holds cfg st id type segs\<close>: the channel's topic, opened or not, is correct and holds \<open>segs\<close>.\<close>

definition holds :: "storeConfig \<Rightarrow> message_store \<Rightarrow> gostring \<Rightarrow> u8 \<Rightarrow> (u32 \<times> message list) list \<Rightarrow> bool" where
  "holds cfg st channelID channelType segs \<longleftrightarrow>
     (case getTopic cfg channelID channelType st of Ret (_, _, t, _) \<Rightarrow> topic_ok t segs | _ \<Rightarrow> False)"

lemma getTopic_stores:
  "getTopic cfg c ct st = Ret (num, name, t, st') \<Longrightarrow>
    getTopic cfg c ct (put_topic num name t' st') = Ret (num, name, t', put_topic num name t' st')"
  by (auto simp: getTopic_def slot_getTopic_def put_topic_def Let_def bindR_eq_Ret mapR_def split: option.splits)

lemma with_topic_read:
  assumes "holds cfg st c ct segs"
    and "\<And>t. topic_ok t segs \<Longrightarrow> \<exists>t'. rd t = Some (ms, Ret (), t') \<and> topic_ok t' segs"
  obtains st' where "with_topic cfg c ct st rd keep = Some (Ret (filter keep ms), st')" and "holds cfg st' c ct segs"
proof -
  from assms(1) obtain num name t st1 where g: "getTopic cfg c ct st = Ret (num, name, t, st1)" and ok: "topic_ok t segs"
    by (auto simp: holds_def split: outcome.splits)
  from assms(2) [OF ok] obtain t' where t': "rd t = Some (ms, Ret (), t')" "topic_ok t' segs" by blast
  show thesis
  proof (rule that)
    show "with_topic cfg c ct st rd keep = Some (Ret (filter keep ms), put_topic num name t' st1)"
      using g t' by (simp add: with_topic_def)
    show "holds cfg (put_topic num name t' st1) c ct segs"
      using getTopic_stores [OF g, of t'] t' by (simp add: holds_def)
  qed
qed

lemma LoadNextRangeMsgs_ok:
  assumes "holds cfg st c ct segs"
  obtains st' where "LoadNextRangeMsgs cfg c ct start en limit st = Some (Ret (filter (\<lambda>m. en = 0 \<or> GetSeq m < en)
      (map stored (take limit (filter (\<lambda>m. start \<le> GetSeq m) (messages_of segs))))), st')"
    and "holds cfg st' c ct segs"
proof -
  have "\<exists>t'. topic_readMessages cfg start limit t =
      Some (map stored (take limit (filter (\<lambda>m. start \<le> GetSeq m) (messages_of segs))), Ret (), t') \<and> topic_ok t' segs"
    if "topic_ok t segs" for t
    using topic_readMessages_ok [OF that, of cfg start limit] by blast
  from with_topic_read [where rd = "topic_readMessages cfg start limit", OF assms this] obtain st' where
    "with_topic cfg c ct st (topic_readMessages cfg start limit) (\<lambda>m. \<not> (en \<noteq> 0 \<and> GetSeq m \<ge> en)) =
      Some (Ret (filter (\<lambda>m. \<not> (en \<noteq> 0 \<and> GetSeq m \<ge> en))
        (map stored (take limit (filter (\<lambda>m. start \<le> GetSeq m) (messages_of segs))))), st')" "holds cfg st' c ct segs"
    by blast
  moreover have "(\<lambda>m. \<not> (en \<noteq> 0 \<and> GetSeq m \<ge> en)) = (\<lambda>m. en = 0 \<or> GetSeq m < en)" by (auto simp: fun_eq_iff)
  ultimately show thesis by (intro that [of st']) (simp_all only: LoadNextRangeMsgs_def)
qed

text \<open>
  A channel whose messages all lie in the first segment: numbered from 1 on without a gap, so that
  ranges of messages are ranges of numbers.
\<close>

lemma numbered_range:
  assumes "numbered 0 ms"
  shows "take n (drop k ms) = filter (\<lambda>m. k < unat (GetSeq m) \<and> unat (GetSeq m) \<le> k + n) ms"
proof -
  let ?P = "\<lambda>m. k < unat (GetSeq m) \<and> unat (GetSeq m) \<le> k + n"
  have seq: "unat (GetSeq (ms ! i)) = i + 1" if "i < length ms" for i
    using numbered_seq [OF assms that] by simp
  have "ms = take k ms @ take n (drop k ms) @ drop (k + n) ms"
    by (metis append_take_drop_id drop_drop add.commute)
  then have "filter ?P ms = filter ?P (take k ms) @ filter ?P (take n (drop k ms)) @ filter ?P (drop (k + n) ms)"
    by (metis filter_append)
  moreover have "filter ?P (take k ms) = []"
    by (auto simp: filter_empty_conv in_set_conv_nth seq)
  moreover have "filter ?P (take n (drop k ms)) = take n (drop k ms)"
    by (auto simp: filter_id_conv in_set_conv_nth seq)
  moreover have "filter ?P (drop (k + n) ms) = []"
    by (auto simp: filter_empty_conv in_set_conv_nth seq)
  ultimately show ?thesis by simp
qed

lemma messages_of_single [simp]: "messages_of [(b, ms)] = ms"
  by (simp add: messages_of_def)

lemma topic_ok_single:
  assumes "topic_ok t [(0, ms)]"
  shows "numbered 0 ms" and "unat (tp_lastMsgSeq t) = length ms"
proof -
  from assms show n: "numbered 0 ms" by (auto simp: topic_ok_def dest: stored_at_numbered)
  then have "length ms < 2 ^ 32" by (simp add: numbered_def)
  then have "unat (word_of_nat (length ms) :: u32) = length ms" by (rule unat_length)
  with assms show "unat (tp_lastMsgSeq t) = length ms" by (simp add: topic_ok_def)
qed

lemma holds_single:
  assumes "holds cfg st c ct [(0, ms)]"
  shows "numbered 0 ms"
  using assms topic_ok_single by (fastforce simp: holds_def split: outcome.splits)

lemma filter_from_0: "filter (\<lambda>m. (0 :: u32) \<le> GetSeq m) ms = ms"
  by simp

lemma filter_from_Suc:
  assumes "numbered 0 ms" and "unat target = k + 1"
  shows "filter (\<lambda>m. target \<le> GetSeq m) ms = drop k ms"
  using assms by (intro numbered_filter [of 0]) simp_all

lemma LoadPrevRangeMsgs_ok:
  assumes h: "holds cfg st c ct [(0, ms)]" and "start \<noteq> 0" and "limit < 2 ^ 32" and "0 < limit"
  obtains st' where "LoadPrevRangeMsgs cfg c ct start en limit st =
      Some (Ret (filter (\<lambda>m. en = 0 \<or> en < GetSeq m) (map stored
        (filter (\<lambda>m. unat start < unat (GetSeq m) + limit \<and> GetSeq m \<le> start) ms))), st')"
    and "holds cfg st' c ct [(0, ms)]"
proof -
  from holds_single [OF h] have n: "numbered 0 ms" .
  define act where "act = (if start < word_of_nat limit then (unat start, 0) else (limit, start - word_of_nat limit + 1))"
  have l: "unat (word_of_nat limit :: u32) = limit" using assms(3) by (rule unat_length)
  have sel: "take (fst act) (filter (\<lambda>m. snd act \<le> GetSeq m) ms) =
      filter (\<lambda>m. unat start < unat (GetSeq m) + limit \<and> GetSeq m \<le> start) ms"
  proof (cases "start < word_of_nat limit")
    case True
    then have "unat start < limit" by (simp add: word_less_nat_alt l)
    with True numbered_range [OF n, of "unat start" 0] numbered_seq [OF n] show ?thesis
      by (auto simp: act_def filter_from_0 word_le_nat_alt intro!: filter_cong) (fastforce simp: in_set_conv_nth)
  next
    case False
    then have le: "limit \<le> unat start" by (simp add: word_less_nat_alt l)
    have "unat (start - word_of_nat limit + 1) = unat start - limit + 1"
    proof -
      have "start - word_of_nat limit + 1 = word_of_nat (unat start - limit + 1)"
        using le by (simp add: of_nat_diff)
      moreover have "unat start < 2 ^ 32" using unsigned_less [of start] by simp
      then have "unat start - limit + 1 < 2 ^ 32" using assms(4) le by linarith
      ultimately show ?thesis by (metis unat_length)
    qed
    from filter_from_Suc [OF n this] False numbered_range [OF n, of limit "unat start - limit"] le show ?thesis
      by (auto simp: act_def word_le_nat_alt intro!: filter_cong)
  qed
  have rd: "\<exists>t'. topic_readMessages cfg (snd act) (fst act) t =
      Some (map stored (filter (\<lambda>m. unat start < unat (GetSeq m) + limit \<and> GetSeq m \<le> start) ms), Ret (), t') \<and>
      topic_ok t' [(0, ms)]"
    if "topic_ok t [(0, ms)]" for t
    using topic_readMessages_ok [OF that, of cfg "snd act" "fst act"] unfolding messages_of_single sel by blast
  from with_topic_read [where rd = "topic_readMessages cfg (snd act) (fst act)", OF h rd] obtain st' where
    "with_topic cfg c ct st (topic_readMessages cfg (snd act) (fst act)) (\<lambda>m. \<not> (en \<noteq> 0 \<and> GetSeq m \<le> en)) =
      Some (Ret (filter (\<lambda>m. \<not> (en \<noteq> 0 \<and> GetSeq m \<le> en)) (map stored
        (filter (\<lambda>m. unat start < unat (GetSeq m) + limit \<and> GetSeq m \<le> start) ms))), st')" "holds cfg st' c ct [(0, ms)]"
    by blast
  moreover have "(\<lambda>m. \<not> (en \<noteq> 0 \<and> GetSeq m \<le> en)) = (\<lambda>m. en = 0 \<or> en < GetSeq m)" by (auto simp: fun_eq_iff)
  moreover have "LoadPrevRangeMsgs cfg c ct start en limit st =
      with_topic cfg c ct st (topic_readMessages cfg (snd act) (fst act)) (\<lambda>m. \<not> (en \<noteq> 0 \<and> GetSeq m \<le> en))"
    using assms(2) by (simp add: LoadPrevRangeMsgs_def act_def Let_def)
  ultimately show thesis by (intro that [of st']) simp_all
qed

lemma LoadLastMsgs_ok:
  assumes h: "holds cfg st c ct [(0, ms)]" and "0 < limit" and "limit < 2 ^ 32"
  obtains st' where "LoadLastMsgs cfg c ct limit st = Some (Ret (map stored (drop (length ms - limit) ms)), st')"
    and "holds cfg st' c ct [(0, ms)]"
proof -
  have rd: "\<exists>t'. topic_readLastMessages cfg limit t = Some (map stored (drop (length ms - limit) ms), Ret (), t') \<and>
      topic_ok t' [(0, ms)]" if ok: "topic_ok t [(0, ms)]" for t
  proof (cases "length ms < limit")
    case True
    with topic_readMessages_ok [OF ok, of cfg 0 "length ms + 1"] topic_ok_single(2) [OF ok] show ?thesis
      by (auto simp: topic_readLastMessages_def)
  next
    case False
    from topic_ok_single [OF ok] have n: "numbered 0 ms" and u: "unat (tp_lastMsgSeq t) = length ms" .
    let ?from = "tp_lastMsgSeq t - word_of_nat limit + 1"
    have "unat ?from = length ms - limit + 1"
    proof -
      have "?from = word_of_nat (length ms - limit + 1)"
        using False ok by (simp add: topic_ok_def of_nat_diff)
      moreover have "length ms < 2 ^ 32" using n by (simp add: numbered_def)
      then have "length ms - limit + 1 < 2 ^ 32" using assms(2) False by linarith
      ultimately show ?thesis by (metis unat_length)
    qed
    from filter_from_Suc [OF n this] topic_readMessages_ok [OF ok, of cfg ?from limit] False u show ?thesis
      by (auto simp: topic_readLastMessages_def)
  qed
  from with_topic_read [where rd = "topic_readLastMessages cfg limit" and keep = "\<lambda>_. True", OF h rd] that show thesis
    by (auto simp: LoadLastMsgs_def)
qed

end
