(* ===== verification/Samples.thy ===== *)
theory Samples
  imports Unpack RetryQueue MessageStore
begin

text \<open>
  Concrete packets, messages, segments and topics, and the facts about them that instances of the
  properties need.
\<close>

section \<open>Frames\<close>

definition sample_framer :: framer where
  "sample_framer = empty_framer\<lparr>RedDot := True, SyncOnce := True\<rparr>"

definition sample_send :: SendPacket where
  "sample_send = \<lparr>snd_Framer = sample_framer, snd_Setting = 0, snd_MsgKey = [1, 2], snd_Expire = 60,
     snd_ClientSeq = 7, snd_ClientMsgNo = [3, 4], snd_StreamNo = [], snd_ChannelID = [5], snd_ChannelType = 2,
     snd_Topic = [], snd_Payload = [9, 9, 9]\<rparr>"

definition sample_recvack :: RecvackPacket where
  "sample_recvack = \<lparr>rak_Framer = sample_framer, rak_MessageID = 1000, rak_MessageSeq = 12\<rparr>"

lemma wellformed_samples [simp]:
  "wellformed 3 (FSend sample_send)" "wellformed 3 (FRecvack sample_recvack)" "wellformed 3 (FPing empty_framer)"
  by (simp_all add: wellformed_def sample_send_def sample_recvack_def Send_fits_def Recvack_fits_def
      encodeSendSize_def encodeRecvackSize_def IsSet_def)

lemma length_samples [simp]:
  "length (EncodeFrame (FRecvack sample_recvack) 3) = 14"
  by (simp add: length_EncodeFrame encodeRecvackSize_def encodeVariable2.simps del: EncodeFrame.simps)

section \<open>Messages in a segment\<close>

definition sample_message :: "u32 \<Rightarrow> message" where
  "sample_message q = SetSeq q (empty_message\<lparr>msg_RecvPacket := (msg_RecvPacket empty_message)
     \<lparr>rcv_MessageID := 77, rcv_FromUID := [1], rcv_ChannelID := [2], rcv_ChannelType := 2, rcv_Payload := [8, 8]\<rparr>\<rparr>)"

lemma sample_message_seq [simp]: "GetSeq (sample_message q) = q" "SetSeq p (sample_message q) = sample_message p"
  by (simp_all add: sample_message_def GetSeq_def SetSeq_def)

lemma length_sample_message [simp]: "length (MarshalMessage 1 (sample_message q)) = 34"
  by (simp add: MarshalMessage_def sample_message_def SetSeq_def empty_message_def empty_recv_def Let_def IsSet_def
      WriteString_def)

lemma loggable_sample [simp]: "loggable (sample_message q)"
  by (simp add: loggable_def storable_def Let_def) (simp add: sample_message_def SetSeq_def empty_message_def empty_recv_def)

lemma length_encoded_sample [simp]: "length (Message_Encode (sample_message q)) = 58"
  by (simp add: length_Message_Encode)

lemma on_disk_samples [simp]: "on_disk 0 [sample_message 1]" "on_disk 0 [sample_message 1, sample_message 2]"
  by (simp_all add: on_disk_def numbered_def less_Suc_eq)

definition empty_slots :: "nat \<Rightarrow> entry" where
  "empty_slots = (\<lambda>_. \<lparr>RelativeOffset = 0, Position = 0\<rparr>)"

definition sample_index :: "u32 \<Rightarrow> index" where
  "sample_index b = \<lparr>ix_baseMessageSeq = b, ix_slots = empty_slots, ix_count = 0\<rparr>"

lemma sample_index_ok [simp]: "index_ok (sample_index b) b ms"
  by (simp add: index_ok_def sample_index_def empty_slots_def)

text \<open>A segment with one message, whose index is empty.\<close>

definition sample_segment :: segment where
  "sample_segment = (newSegment 0 (Message_Encode (sample_message 1)) (sample_index 0))
     \<lparr>sg_position := 58, sg_fileSize := 58, sg_isSanityCheck := True, sg_lastMsgSeq := 1\<rparr>"

lemma sample_segment_ok [simp]: "seg_ok sample_segment [sample_message 1]"
  and sample_segment_base [simp]: "sg_baseMessageSeq sample_segment = 0"
  by (simp_all add: seg_ok_def sample_segment_def newSegment_def)

lemma sample_segment_room [simp]: "appendable sample_segment [sample_message 1] [sample_message 2]"
  by (simp add: appendable_def)

section \<open>A topic and a store\<close>

definition sample_config :: storeConfig where
  "sample_config = \<lparr>cfg_SlotNum = 1, cfg_EachMessagegMaxSizeOfBytes = 2097152, cfg_SegmentMaxBytes = 2147483648\<rparr>"

definition tiny_config :: storeConfig where
  "tiny_config = \<lparr>cfg_SlotNum = 1, cfg_EachMessagegMaxSizeOfBytes = 2097152, cfg_SegmentMaxBytes = 0\<rparr>"

definition sample_topic :: topic where
  "sample_topic = \<lparr>tp_segments = [0], tp_lastBaseMessageSeq = 0, tp_lastMsgSeq = 1,
     tp_cache = [0 \<mapsto> sample_segment], tp_files = Map.empty\<rparr>"

lemma sample_topic_ok [simp]: "topic_ok sample_topic [(0, [sample_message 1])]"
  by (simp add: topic_ok_def sample_topic_def stored_at_def)

lemma sample_topic_last [simp]: "tp_lastMsgSeq sample_topic = 1"
  by (simp add: sample_topic_def)

lemma sample_fresh: "0 < c \<Longrightarrow> tp_cache sample_topic c = None \<and> tp_files sample_topic c = None"
  by (auto simp: sample_topic_def)

lemma sample_active: "getActiveSegment cfg sample_topic = Ret (sample_segment, sample_topic)"
  by (simp add: getActiveSegment_def getSegment_def sample_topic_def)

lemma sample_position [simp]: "sg_position sample_segment = 58" "sg_index sample_segment = sample_index 0"
  by (simp_all add: sample_segment_def newSegment_def)

lemma sample_not_full [simp]: "\<not> active_full sample_config sample_topic"
  by (simp add: active_full_def sample_active sample_config_def IsFull_def sample_index_def)

lemma sample_full [simp]: "active_full tiny_config sample_topic"
  by (simp add: active_full_def sample_active tiny_config_def)

lemma sample_batch [simp]: "batch_fits sample_config sample_topic 0 [sample_message 1] [sample_message 0]"
  by (simp add: batch_fits_def)

definition sample_store :: message_store where
  "sample_store = \<lparr>st_topics = \<lambda>_ _. Some sample_topic, st_disk = \<lambda>_ _. Map.empty\<rparr>"

lemma sample_holds [simp]: "holds sample_config sample_store c ct [(0, [sample_message 1])]"
  by (simp add: holds_def getTopic_def GetSlotNum_def slot_getTopic_def sample_store_def sample_config_def mapR_def)

section \<open>A retry queue with one message\<close>

definition sample_heap :: msgheap where
  "sample_heap = (\<lambda>_. empty_message)"

definition sample_retry :: retryQueue where
  "sample_retry = startInFlightTimeout sample_heap 0 10 3 NewRetryQueue"

lemma sample_queue [simp]: "mset (pq_items (inFlightPQ sample_retry)) = {#3#}"
  using startInFlightTimeout_queue(2) [of sample_heap NewRetryQueue 3 0 10] NewRetryQueue_full [of sample_heap]
  by (simp add: rq_full_def in_queue_def NewRetryQueue_def newInFlightPqueue_def sample_retry_def)

lemma sample_table [simp]: "inFlightMessages sample_retry (getInFlightKey [] [] 0) = Some 3"
  by (simp add: startInFlightTimeout_table inflight_key_def empty_message_def empty_recv_def GetMessageID_def
      NewRetryQueue_def sample_retry_def sample_heap_def)

lemma sample_retry_full [simp]: "rq_full sample_heap sample_retry"
  unfolding sample_retry_def
  by (rule startInFlightTimeout_full [OF NewRetryQueue_full])
    (simp_all add: in_queue_def NewRetryQueue_def newInFlightPqueue_def)

lemma sample_tail [simp]: "torn_tail (take 30 (Message_Encode (sample_message 2)))"
  unfolding torn_tail_def by (intro exI [of _ "sample_message 2"] exI [of _ 30]) simp

end
