(* ===== verification/ServerCommon.thy ===== *)
theory ServerCommon
  imports MessageStore
begin

text \<open>
  Helpers of the server, \<^verbatim>\<open>internal/server/common.go\<close> and the string tests of
  \<^verbatim>\<open>internal/server/options.go\<close>: the identifier of the channel between two users, the parent
  of a community topic, the visitor of a customer-service channel, addresses and up-times.
\<close>

abbreviation (input) at_sign :: byte where "at_sign \<equiv> 64"
abbreviation (input) bar_sign :: byte where "bar_sign \<equiv> 124"
abbreviation (input) colon_sign :: byte where "colon_sign \<equiv> 58"

section \<open>Identifiers of person channels\<close>

definition GetFakeChannelIDWith :: "gostring \<Rightarrow> gostring \<Rightarrow> gostring" where
  "GetFakeChannelIDWith fromUID toUID =
     (if HashCrc32 fromUID > HashCrc32 toUID then fromUID @ [at_sign] @ toUID
      else toUID @ [at_sign] @ fromUID)"

definition GetFromUIDAndToUIDWith :: "gostring \<Rightarrow> gostring \<times> gostring" where
  "GetFromUIDAndToUIDWith channelID =
     (case split_on at_sign channelID of [a, b] \<Rightarrow> (a, b) | _ \<Rightarrow> ([], []))"

definition GetCommunityTopicParentChannelID :: "gostring \<Rightarrow> gostring" where
  "GetCommunityTopicParentChannelID channelID =
     (case split_on at_sign channelID of [a, b] \<Rightarrow> a | _ \<Rightarrow> [])"

definition IsFakeChannel :: "gostring \<Rightarrow> bool" where
  "IsFakeChannel channelID \<longleftrightarrow> contains_byte at_sign channelID"

definition GetCustomerServiceVisitorUID :: "gostring \<Rightarrow> gostring \<times> bool" where
  "GetCustomerServiceVisitorUID channelID =
     (if \<not> contains_byte bar_sign channelID then ([], False)
      else (hd (split_on bar_sign channelID), True))"

text \<open>Both users of a conversation compute the same channel, unless their hashes collide.\<close>

lemma GetFakeChannelIDWith_sym:
  assumes "HashCrc32 a \<noteq> HashCrc32 b"
  shows "GetFakeChannelIDWith a b = GetFakeChannelIDWith b a"
  using assms by (auto simp: GetFakeChannelIDWith_def)

lemma GetFakeChannelIDWith_collision:
  assumes "HashCrc32 a = HashCrc32 b" and "a \<noteq> b" and "at_sign \<notin> set a" and "at_sign \<notin> set b"
  shows "GetFakeChannelIDWith a b \<noteq> GetFakeChannelIDWith b a"
proof
  assume "GetFakeChannelIDWith a b = GetFakeChannelIDWith b a"
  then have "b @ at_sign # a = a @ at_sign # b" using assms(1) by (simp add: GetFakeChannelIDWith_def)
  with assms(3,4) have "b = a" by (metis first_sep_unique)
  with assms(2) show False by simp
qed

lemma GetFromUIDAndToUIDWith_Fake:
  assumes "at_sign \<notin> set a" and "at_sign \<notin> set b"
  shows "GetFromUIDAndToUIDWith (GetFakeChannelIDWith a b) = (if HashCrc32 a > HashCrc32 b then (a, b) else (b, a))"
  using assms
  by (simp add: GetFakeChannelIDWith_def GetFromUIDAndToUIDWith_def split_on_append split_on_no_sep)

lemma GetFakeChannelIDWith_inj:
  assumes "at_sign \<notin> set a" and "at_sign \<notin> set b" and "at_sign \<notin> set c" and "at_sign \<notin> set d"
    and "GetFakeChannelIDWith a b = GetFakeChannelIDWith c d"
  shows "{a, b} = {c, d}"
proof -
  have "(if HashCrc32 a > HashCrc32 b then (a, b) else (b, a)) = (if HashCrc32 c > HashCrc32 d then (c, d) else (d, c))"
    using GetFromUIDAndToUIDWith_Fake [OF assms(1,2)] GetFromUIDAndToUIDWith_Fake [OF assms(3,4)] assms(5)
    by (simp only:)
  then show ?thesis
    by (cases "HashCrc32 a > HashCrc32 b"; cases "HashCrc32 c > HashCrc32 d") (simp_all only: if_True if_False prod.inject, blast+)
qed

lemma IsFakeChannel_Fake: "IsFakeChannel (GetFakeChannelIDWith a b)"
  by (simp add: IsFakeChannel_def GetFakeChannelIDWith_def contains_byte_def)

section \<open>Addresses and durations\<close>

text \<open>\<open>ParseInt\<close> answers the nearest bound when the number is out of range, and zero when it is no number.\<close>

definition ParseInt_clamped :: "gostring \<Rightarrow> int" where
  "ParseInt_clamped s =
     (let (neg, ds) = (case s of [] \<Rightarrow> (False, []) | c # cs \<Rightarrow>
            if c = 45 then (True, cs) else if c = 43 then (False, cs) else (False, s)) in
      if ds = [] \<or> \<not> list_all is_digit ds then 0
      else if neg then max (- (2 ^ 63)) (- int (undec ds)) else min (2 ^ 63 - 1) (int (undec ds)))"

definition parseAddr :: "gostring \<Rightarrow> gostring \<times> int" where
  "parseAddr addr =
     (let addrPairs = split_on colon_sign addr in
      if length addrPairs < 2 then ([], 0)
      else (hd addrPairs, ParseInt_clamped (last addrPairs)))"

lemma undec_bound: "undec (dec n) = n" by simp

lemma list_all_digit_dec [simp]: "list_all is_digit (dec n)"
  by (auto simp: list_all_iff dest: dec_digits)

lemma parseAddr_host_port:
  assumes "colon_sign \<notin> set host" and "port < 2 ^ 63"
  shows "parseAddr (host @ [colon_sign] @ dec port) = (host, int port)"
proof -
  have "colon_sign \<notin> set (dec port)"
    using dec_digits [of colon_sign port] by (auto simp: is_digit_def)
  then have split: "split_on colon_sign (host @ colon_sign # dec port) = [host, dec port]"
    using assms(1) by (simp add: split_on_append split_on_no_sep)
  obtain c cs where d: "dec port = c # cs" by (cases "dec port") simp_all
  then have "is_digit c" using dec_digits [of c port] by simp
  then have "c \<noteq> 45" "c \<noteq> 43" by (auto simp: is_digit_def)
  then have "ParseInt_clamped (dec port) = min (2 ^ 63 - 1) (int (undec (dec port)))"
    using list_all_digit_dec [of port] by (simp add: ParseInt_clamped_def d)
  with assms(2) show ?thesis
    by (simp add: parseAddr_def split Let_def)
qed

text \<open>\<open>myUptime\<close> prints a duration given in nanoseconds (not negative) by its largest units.\<close>

definition myUptime :: "nat \<Rightarrow> gostring" where
  "myUptime d =
     (let tsecs = d div 1000000000; tmins = tsecs div 60; thrs = tmins div 60; tdays = thrs div 24; tyrs = tdays div 365 in
      if tyrs > 0 then
        dec tyrs @ str ''y'' @ dec (tdays mod 365) @ str ''d'' @ dec (thrs mod 24) @ str ''h'' @
        dec (tmins mod 60) @ str ''m'' @ dec (tsecs mod 60) @ str ''s''
      else if tdays > 0 then
        dec tdays @ str ''d'' @ dec (thrs mod 24) @ str ''h'' @ dec (tmins mod 60) @ str ''m'' @ dec (tsecs mod 60) @ str ''s''
      else if thrs > 0 then dec thrs @ str ''h'' @ dec (tmins mod 60) @ str ''m'' @ dec (tsecs mod 60) @ str ''s''
      else if tmins > 0 then dec tmins @ str ''m'' @ dec (tsecs mod 60) @ str ''s''
      else dec tsecs @ str ''s'')"

end
