(* ===== verification/Json.thy ===== *)
theory Json
  imports GoStrings "HOL-Library.Countable"
begin

text \<open>
  JSON values as the repository uses them. The codec of Go's \<open>encoding/json\<close> is a parameter: what
  the store relies on is that a value made of plain strings is read back as it was written
  (\<open>json_ok\<close>; strings with bytes that are not ASCII may be rewritten and are not covered). Field
  lookup follows \<open>map[string]interface{}\<close>: a missing key reads as nil.
\<close>

datatype json = JNull | JBool bool | JNumber gostring | JString gostring | JArray "json list" | JObject "(gostring \<times> json) list"

instance json :: countable
  by countable_datatype

type_synonym params = "gostring \<rightharpoonup> json"

definition plain :: "gostring \<Rightarrow> bool" where
  "plain s \<longleftrightarrow> (\<forall>b \<in> set s. b < 128)"

fun json_plain :: "json \<Rightarrow> bool" where
  "json_plain JNull = True"
| "json_plain (JBool _) = True"
| "json_plain (JNumber n) = (n = dec (undec n) \<or> n = 45 # dec (undec (tl n)))"
| "json_plain (JString s) = plain s"
| "json_plain (JArray js) = list_all json_plain js"
| "json_plain (JObject kvs) = (distinct (map fst kvs) \<and> list_all (\<lambda>kv. plain (fst kv) \<and> json_plain (snd kv)) kvs)"

record json_codec =
  js_encode :: "json \<Rightarrow> bytes"
  js_decode :: "bytes \<Rightarrow> json outcome"

definition json_ok :: "json_codec \<Rightarrow> bool" where
  "json_ok js \<longleftrightarrow> (\<forall>j. json_plain j \<longrightarrow> js_decode js (js_encode js j) = Ret j \<and> js_encode js j \<noteq> [])"

definition jfield :: "gostring \<Rightarrow> (gostring \<times> json) list \<Rightarrow> json" where
  "jfield k kvs = (case map_of kvs k of None \<Rightarrow> JNull | Some j \<Rightarrow> j)"

lemma list_all_digits_dec [simp]: "list_all is_digit (dec n)"
  by (auto simp: list_all_iff dest: dec_digits)

lemma json_plain_dec [simp]: "json_plain (JNumber (dec n))"
  by simp

lemma json_plain_dec_int [simp]: "json_plain (JNumber (dec_int i))"
  by (simp add: dec_int_def)

lemma plain_dec [simp]: "plain (dec n)"
proof -
  have "b < 128" if "is_digit b" for b using that by (auto simp: is_digit_def word_le_nat_alt word_less_nat_alt)
  then show ?thesis by (auto simp: plain_def dest: dec_digits)
qed

text \<open>A codec that satisfies the law: it numbers the values.\<close>

definition counting_codec :: json_codec where
  "counting_codec = \<lparr>js_encode = (\<lambda>j. 0 # replicate (to_nat j) 0), js_decode = (\<lambda>b. Ret (from_nat (length b - 1)))\<rparr>"

lemma counting_codec_ok: "json_ok counting_codec"
  by (simp add: json_ok_def counting_codec_def)

end
