(* ===== verification/KVStore.thy ===== *)
theory KVStore
  imports MessageStore Json
begin

text \<open>
  The key-value half of the file store, \<^verbatim>\<open>pkg/okstore/filestore.go\<close>: tokens, channels, the
  lists of a channel, cursors, system accounts, blocked addresses and the notify queue, over the
  bbolt database. The database is a parameter: a record of its operations on a state. \<open>bolt_ok\<close> is
  what its documentation promises: a value that was put is what a later get returns, other entries
  are untouched, and a cursor runs over the entries in key order. A transaction that fails leaves
  the database as it was.
\<close>

section \<open>The database\<close>

record 'd bolt =
  bo_get :: "'d \<Rightarrow> gostring \<Rightarrow> bytes \<Rightarrow> bytes option"
  bo_put :: "'d \<Rightarrow> gostring \<Rightarrow> bytes \<Rightarrow> bytes \<Rightarrow> 'd outcome"
  bo_delete :: "'d \<Rightarrow> gostring \<Rightarrow> bytes \<Rightarrow> 'd outcome"
  bo_next :: "'d \<Rightarrow> gostring \<Rightarrow> (u64 \<times> 'd) outcome"
  bo_items :: "'d \<Rightarrow> gostring \<Rightarrow> (bytes \<times> bytes) list"

definition bolt_ok :: "'d bolt \<Rightarrow> bool" where
  "bolt_ok bo \<longleftrightarrow>
     (\<forall>db b k v db'. bo_put bo db b k v = Ret db' \<longrightarrow>
        (\<forall>b' k'. bo_get bo db' b' k' = (if b' = b \<and> k' = k then Some v else bo_get bo db b' k'))) \<and>
     (\<forall>db b k db'. bo_delete bo db b k = Ret db' \<longrightarrow>
        (\<forall>b' k'. bo_get bo db' b' k' = (if b' = b \<and> k' = k then None else bo_get bo db b' k'))) \<and>
     (\<forall>db b n db'. bo_next bo db b = Ret (n, db') \<longrightarrow> (\<forall>b' k'. bo_get bo db' b' k' = bo_get bo db b' k')) \<and>
     (\<forall>db b. distinct (map fst (bo_items bo db b)) \<and> (\<forall>k v. (k, v) \<in> set (bo_items bo db b) \<longleftrightarrow> bo_get bo db b k = Some v))"

lemma bolt_put: "bolt_ok bo \<Longrightarrow> bo_put bo db b k v = Ret db' \<Longrightarrow>
    bo_get bo db' b' k' = (if b' = b \<and> k' = k then Some v else bo_get bo db b' k')"
  unfolding bolt_ok_def by metis

lemma bolt_delete: "bolt_ok bo \<Longrightarrow> bo_delete bo db b k = Ret db' \<Longrightarrow>
    bo_get bo db' b' k' = (if b' = b \<and> k' = k then None else bo_get bo db b' k')"
  unfolding bolt_ok_def by metis

text \<open>A filestore: the slot count, the database and the message logs.\<close>

record 'd filestore =
  fs_cfg :: storeConfig
  fs_db :: 'd
  fs_msgs :: message_store

abbreviation (input) rootBucketPrefix :: gostring where "rootBucketPrefix \<equiv> str ''imRoot''"
abbreviation (input) notifyQueuePrefix :: gostring where "notifyQueuePrefix \<equiv> str ''notifyQueue''"
abbreviation (input) systemUIDsKey :: gostring where "systemUIDsKey \<equiv> str ''systemUIDs''"
abbreviation (input) ipBlacklistKey :: gostring where "ipBlacklistKey \<equiv> str ''ipBlacklist''"

definition getUserTokenKey :: "gostring \<Rightarrow> u8 \<Rightarrow> gostring" where
  "getUserTokenKey uid deviceFlag = str ''userToken:'' @ uid @ str ''-'' @ dec (unat deviceFlag)"

definition getChannelKey :: "gostring \<Rightarrow> u8 \<Rightarrow> gostring" where
  "getChannelKey channelID channelType = str ''channel:'' @ channelID @ str ''-'' @ dec (unat channelType)"

definition getSubscribersKey :: "gostring \<Rightarrow> u8 \<Rightarrow> gostring" where
  "getSubscribersKey channelID channelType = str ''subscribers:'' @ channelID @ str ''-'' @ dec (unat channelType)"

definition getDenylistKey :: "gostring \<Rightarrow> u8 \<Rightarrow> gostring" where
  "getDenylistKey channelID channelType = str ''denylist:'' @ channelID @ str ''-'' @ dec (unat channelType)"

definition getAllowlistKey :: "gostring \<Rightarrow> u8 \<Rightarrow> gostring" where
  "getAllowlistKey channelID channelType = str ''allowlist:'' @ channelID @ str ''-'' @ dec (unat channelType)"

definition getMessageOfUserCursorKey :: "gostring \<Rightarrow> gostring" where
  "getMessageOfUserCursorKey uid = str ''messageOfUserCursor:'' @ uid"

definition slotNum :: "gostring \<Rightarrow> 'd filestore \<Rightarrow> u32 outcome" where
  "slotNum key fs = GetSlotNum (cfg_SlotNum (fs_cfg fs)) key"

definition slotNumForChannel :: "gostring \<Rightarrow> u8 \<Rightarrow> 'd filestore \<Rightarrow> u32 outcome" where
  "slotNumForChannel channelID channelType fs = GetSlotNum (cfg_SlotNum (fs_cfg fs)) channelID"

definition getSlotBucket :: "u32 \<Rightarrow> gostring" where
  "getSlotBucket slot = dec (unat slot)"

definition fs_get :: "'d bolt \<Rightarrow> u32 \<Rightarrow> bytes \<Rightarrow> 'd filestore \<Rightarrow> bytes option" where
  "fs_get bo slot key fs = bo_get bo (fs_db fs) (getSlotBucket slot) key"

definition with_db :: "'d outcome \<Rightarrow> 'd filestore \<Rightarrow> 'd filestore outcome" where
  "with_db r fs = mapR (\<lambda>db. fs\<lparr>fs_db := db\<rparr>) r"

definition fs_set :: "'d bolt \<Rightarrow> u32 \<Rightarrow> bytes \<Rightarrow> bytes \<Rightarrow> 'd filestore \<Rightarrow> 'd filestore outcome" where
  "fs_set bo slot key value fs = with_db (bo_put bo (fs_db fs) (getSlotBucket slot) key value) fs"

definition fs_delete :: "'d bolt \<Rightarrow> u32 \<Rightarrow> bytes \<Rightarrow> 'd filestore \<Rightarrow> 'd filestore outcome" where
  "fs_delete bo slot key fs = with_db (bo_delete bo (fs_db fs) (getSlotBucket slot) key) fs"

section \<open>Lists of names\<close>

definition split_names :: "bytes option \<Rightarrow> gostring list" where
  "split_names value = (case value of None \<Rightarrow> [] | Some v \<Rightarrow> if length v > 0 then split_on 44 v else [])"

definition getList :: "'d bolt \<Rightarrow> u32 \<Rightarrow> gostring \<Rightarrow> 'd filestore \<Rightarrow> gostring list" where
  "getList bo slot key fs = split_names (fs_get bo slot key fs)"

definition addList :: "'d bolt \<Rightarrow> u32 \<Rightarrow> gostring \<Rightarrow> gostring list \<Rightarrow> 'd filestore \<Rightarrow> 'd filestore outcome" where
  "addList bo slot key valueList fs =
     (let lst = split_names (fs_get bo slot key fs) @ valueList in
      fs_set bo slot key (join_on 44 lst) fs)"

definition removeList :: "'d bolt \<Rightarrow> u32 \<Rightarrow> gostring \<Rightarrow> gostring list \<Rightarrow> 'd filestore \<Rightarrow> 'd filestore outcome" where
  "removeList bo slot key uids fs =
     (let lst = filter (\<lambda>v. v \<notin> set uids) (split_names (fs_get bo slot key fs)) in
      fs_set bo slot key (join_on 44 lst) fs)"

text \<open>A list of names is stored faithfully when no name is empty or contains the separator.\<close>

definition names_ok :: "gostring list \<Rightarrow> bool" where
  "names_ok ns \<longleftrightarrow> (\<forall>n \<in> set ns. n \<noteq> [] \<and> 44 \<notin> set n)"

lemma join_on_Nil_iff: "names_ok ns \<Longrightarrow> join_on 44 ns = [] \<longleftrightarrow> ns = []"
  by (cases ns; cases "tl ns") (auto simp: names_ok_def)

lemma split_names_join: "names_ok ns \<Longrightarrow> split_names (Some (join_on 44 ns)) = ns"
proof (cases "ns = []")
  case False
  assume ok: "names_ok ns"
  with False have "join_on 44 ns \<noteq> []" by (simp add: join_on_Nil_iff)
  moreover have "split_on 44 (join_on 44 ns) = ns"
    using False ok split_join [of ns 44] by (auto simp: names_ok_def)
  ultimately show ?thesis by (simp add: split_names_def)
qed (simp add: split_names_def)

lemma fs_set_get:
  assumes "bolt_ok bo" and "fs_set bo slot key v fs = Ret fs'"
  shows "fs_get bo slot' key' fs' = (if slot' = slot \<and> key' = key then Some v else fs_get bo slot' key' fs)"
    and "fs_cfg fs' = fs_cfg fs" and "fs_msgs fs' = fs_msgs fs"
proof -
  from assms(2) obtain db where db: "bo_put bo (fs_db fs) (getSlotBucket slot) key v = Ret db" "fs' = fs\<lparr>fs_db := db\<rparr>"
    by (auto simp: fs_set_def with_db_def mapR_def bindR_eq_Ret)
  have "getSlotBucket slot' = getSlotBucket slot \<longleftrightarrow> slot' = slot"
    by (simp add: getSlotBucket_def word_unat_eq_iff)
  with bolt_put [OF assms(1) db(1)] db(2) show
    "fs_get bo slot' key' fs' = (if slot' = slot \<and> key' = key then Some v else fs_get bo slot' key' fs)"
    by (simp add: fs_get_def)
  show "fs_cfg fs' = fs_cfg fs" "fs_msgs fs' = fs_msgs fs" using db(2) by simp_all
qed

lemma fs_delete_get:
  assumes "bolt_ok bo" and "fs_delete bo slot key fs = Ret fs'"
  shows "fs_get bo slot' key' fs' = (if slot' = slot \<and> key' = key then None else fs_get bo slot' key' fs)"
    and "fs_cfg fs' = fs_cfg fs" and "fs_msgs fs' = fs_msgs fs"
proof -
  from assms(2) obtain db where db: "bo_delete bo (fs_db fs) (getSlotBucket slot) key = Ret db" "fs' = fs\<lparr>fs_db := db\<rparr>"
    by (auto simp: fs_delete_def with_db_def mapR_def bindR_eq_Ret)
  have "getSlotBucket slot' = getSlotBucket slot \<longleftrightarrow> slot' = slot"
    by (simp add: getSlotBucket_def word_unat_eq_iff)
  with bolt_delete [OF assms(1) db(1)] db(2) show
    "fs_get bo slot' key' fs' = (if slot' = slot \<and> key' = key then None else fs_get bo slot' key' fs)"
    by (simp add: fs_get_def)
  show "fs_cfg fs' = fs_cfg fs" "fs_msgs fs' = fs_msgs fs" using db(2) by simp_all
qed

section \<open>Users and channels\<close>

text \<open>\<open>strconv.Atoi\<close> without its error: zero when it is no number.\<close>

definition Atoi0 :: "gostring \<Rightarrow> int" where
  "Atoi0 s = (if s \<noteq> [] \<and> list_all is_digit s then int (undec s)
     else case s of [] \<Rightarrow> 0 | c # cs \<Rightarrow> if c = 45 \<and> cs \<noteq> [] \<and> list_all is_digit cs then - int (undec cs) else 0)"

definition jstring :: "json \<Rightarrow> gostring outcome" where
  "jstring j = (case j of JString s \<Rightarrow> Ret s | JNull \<Rightarrow> Ret [] | _ \<Rightarrow> Fail (ErrMsg ''json: cannot unmarshal''))"

definition GetUserToken :: "'d bolt \<Rightarrow> json_codec \<Rightarrow> gostring \<Rightarrow> u8 \<Rightarrow> 'd filestore \<Rightarrow> (gostring \<times> u8) outcome" where
  "GetUserToken bo js uid deviceFlag fs =
     bindR (slotNum uid fs) (\<lambda>slot.
       case fs_get bo slot (getUserTokenKey uid deviceFlag) fs of
         None \<Rightarrow> Ret ([], 0)
       | Some value \<Rightarrow>
           if length value = 0 then Ret ([], 0)
           else bindR (js_decode js value) (\<lambda>j.
             case j of
               JObject kvs \<Rightarrow>
                 bindR (jstring (jfield (str ''token'') kvs)) (\<lambda>token.
                 bindR (jstring (jfield (str ''device_level'') kvs)) (\<lambda>level.
                 Ret (token, word_of_int (Atoi0 level))))
             | JNull \<Rightarrow> Ret ([], 0)
             | _ \<Rightarrow> Fail (ErrMsg ''json: cannot unmarshal'')))"

definition UpdateUserToken ::
    "'d bolt \<Rightarrow> json_codec \<Rightarrow> gostring \<Rightarrow> u8 \<Rightarrow> u8 \<Rightarrow> gostring \<Rightarrow> 'd filestore \<Rightarrow> 'd filestore outcome" where
  "UpdateUserToken bo js uid deviceFlag deviceLevel token fs =
     bindR (slotNum uid fs) (\<lambda>slot.
       fs_set bo slot (getUserTokenKey uid deviceFlag)
         (js_encode js (JObject [(str ''device_level'', JString (dec (unat deviceLevel))), (str ''token'', JString token)])) fs)"

record channelInfo =
  ci_ChannelID :: gostring
  ci_ChannelType :: u8
  ci_Ban :: bool
  ci_Large :: bool

definition NewChannelInfo :: "gostring \<Rightarrow> u8 \<Rightarrow> channelInfo" where
  "NewChannelInfo channelID channelType =
     \<lparr>ci_ChannelID = channelID, ci_ChannelType = channelType, ci_Ban = False, ci_Large = False\<rparr>"

definition ToMap :: "channelInfo \<Rightarrow> json" where
  "ToMap c = JObject [(str ''ban'', JBool (ci_Ban c)), (str ''large'', JBool (ci_Large c))]"

text \<open>A field that is there but is no Boolean fails the type assertion.\<close>

definition jbool :: "bool \<Rightarrow> json \<Rightarrow> bool outcome" where
  "jbool old j = (case j of JBool b \<Rightarrow> Ret b | JNull \<Rightarrow> Ret old | _ \<Rightarrow> Panic)"

definition from_map :: "(gostring \<times> json) list \<Rightarrow> channelInfo \<Rightarrow> channelInfo outcome" where
  "from_map mp c =
     bindR (jbool (ci_Ban c) (jfield (str ''ban'') mp)) (\<lambda>ban.
     bindR (jbool (ci_Large c) (jfield (str ''large'') mp)) (\<lambda>large.
     Ret (c\<lparr>ci_Ban := ban, ci_Large := large\<rparr>)))"

definition fs_GetChannel :: "'d bolt \<Rightarrow> json_codec \<Rightarrow> gostring \<Rightarrow> u8 \<Rightarrow> 'd filestore \<Rightarrow> channelInfo option outcome" where
  "fs_GetChannel bo js channelID channelType fs =
     bindR (slotNumForChannel channelID channelType fs) (\<lambda>slot.
       case fs_get bo slot (getChannelKey channelID channelType) fs of
         None \<Rightarrow> Ret None
       | Some value \<Rightarrow>
           bindR (js_decode js value) (\<lambda>j.
             case j of
               JObject kvs \<Rightarrow> mapR Some (from_map kvs (NewChannelInfo channelID channelType))
             | JNull \<Rightarrow> Ret (Some (NewChannelInfo channelID channelType))
             | _ \<Rightarrow> Fail (ErrMsg ''json: cannot unmarshal'')))"

definition AddOrUpdateChannel :: "'d bolt \<Rightarrow> json_codec \<Rightarrow> channelInfo \<Rightarrow> 'd filestore \<Rightarrow> 'd filestore outcome" where
  "AddOrUpdateChannel bo js c fs =
     bindR (slotNumForChannel (ci_ChannelID c) (ci_ChannelType c) fs) (\<lambda>slot.
       fs_set bo slot (getChannelKey (ci_ChannelID c) (ci_ChannelType c)) (js_encode js (ToMap c)) fs)"

definition ExistChannel :: "'d bolt \<Rightarrow> json_codec \<Rightarrow> gostring \<Rightarrow> u8 \<Rightarrow> 'd filestore \<Rightarrow> bool outcome" where
  "ExistChannel bo js channelID channelType fs = mapR (\<lambda>v. v \<noteq> None) (fs_GetChannel bo js channelID channelType fs)"

definition fs_DeleteChannel :: "'d bolt \<Rightarrow> gostring \<Rightarrow> u8 \<Rightarrow> 'd filestore \<Rightarrow> 'd filestore outcome" where
  "fs_DeleteChannel bo channelID channelType fs =
     bindR (slotNumForChannel channelID channelType fs) (\<lambda>slot. fs_delete bo slot (getChannelKey channelID channelType) fs)"

section \<open>The lists of a channel\<close>

definition AddSubscribers_store :: "'d bolt \<Rightarrow> gostring \<Rightarrow> u8 \<Rightarrow> gostring list \<Rightarrow> 'd filestore \<Rightarrow> 'd filestore outcome" where
  "AddSubscribers_store bo channelID channelType uids fs =
     bindR (slotNumForChannel channelID channelType fs) (\<lambda>slot. addList bo slot (getSubscribersKey channelID channelType) uids fs)"

definition RemoveSubscribers_store :: "'d bolt \<Rightarrow> gostring \<Rightarrow> u8 \<Rightarrow> gostring list \<Rightarrow> 'd filestore \<Rightarrow> 'd filestore outcome" where
  "RemoveSubscribers_store bo channelID channelType uids fs =
     bindR (slotNumForChannel channelID channelType fs) (\<lambda>slot. removeList bo slot (getSubscribersKey channelID channelType) uids fs)"

definition GetSubscribers :: "'d bolt \<Rightarrow> gostring \<Rightarrow> u8 \<Rightarrow> 'd filestore \<Rightarrow> gostring list outcome" where
  "GetSubscribers bo channelID channelType fs =
     bindR (slotNumForChannel channelID channelType fs) (\<lambda>slot. Ret (getList bo slot (getSubscribersKey channelID channelType) fs))"

definition RemoveAllSubscriber_store :: "'d bolt \<Rightarrow> gostring \<Rightarrow> u8 \<Rightarrow> 'd filestore \<Rightarrow> 'd filestore outcome" where
  "RemoveAllSubscriber_store bo channelID channelType fs =
     bindR (slotNumForChannel channelID channelType fs) (\<lambda>slot. fs_delete bo slot (getSubscribersKey channelID channelType) fs)"

definition AddAllowlist_store :: "'d bolt \<Rightarrow> gostring \<Rightarrow> u8 \<Rightarrow> gostring list \<Rightarrow> 'd filestore \<Rightarrow> 'd filestore outcome" where
  "AddAllowlist_store bo channelID channelType uids fs =
     bindR (slotNumForChannel channelID channelType fs) (\<lambda>slot. addList bo slot (getAllowlistKey channelID channelType) uids fs)"

definition RemoveAllowlist_store :: "'d bolt \<Rightarrow> gostring \<Rightarrow> u8 \<Rightarrow> gostring list \<Rightarrow> 'd filestore \<Rightarrow> 'd filestore outcome" where
  "RemoveAllowlist_store bo channelID channelType uids fs =
     bindR (slotNumForChannel channelID channelType fs) (\<lambda>slot. removeList bo slot (getAllowlistKey channelID channelType) uids fs)"

definition GetAllowlist :: "'d bolt \<Rightarrow> gostring \<Rightarrow> u8 \<Rightarrow> 'd filestore \<Rightarrow> gostring list outcome" where
  "GetAllowlist bo channelID channelType fs =
     bindR (slotNumForChannel channelID channelType fs) (\<lambda>slot. Ret (getList bo slot (getAllowlistKey channelID channelType) fs))"

definition RemoveAllAllowlist :: "'d bolt \<Rightarrow> gostring \<Rightarrow> u8 \<Rightarrow> 'd filestore \<Rightarrow> 'd filestore outcome" where
  "RemoveAllAllowlist bo channelID channelType fs =
     bindR (slotNumForChannel channelID channelType fs) (\<lambda>slot. fs_delete bo slot (getAllowlistKey channelID channelType) fs)"

definition AddDenylist_store :: "'d bolt \<Rightarrow> gostring \<Rightarrow> u8 \<Rightarrow> gostring list \<Rightarrow> 'd filestore \<Rightarrow> 'd filestore outcome" where
  "AddDenylist_store bo channelID channelType uids fs =
     bindR (slotNumForChannel channelID channelType fs) (\<lambda>slot. addList bo slot (getDenylistKey channelID channelType) uids fs)"

definition RemoveDenylist_store :: "'d bolt \<Rightarrow> gostring \<Rightarrow> u8 \<Rightarrow> gostring list \<Rightarrow> 'd filestore \<Rightarrow> 'd filestore outcome" where
  "RemoveDenylist_store bo channelID channelType uids fs =
     bindR (slotNumForChannel channelID channelType fs) (\<lambda>slot. removeList bo slot (getDenylistKey channelID channelType) uids fs)"

definition GetDenylist :: "'d bolt \<Rightarrow> gostring \<Rightarrow> u8 \<Rightarrow> 'd filestore \<Rightarrow> gostring list outcome" where
  "GetDenylist bo channelID channelType fs =
     bindR (slotNumForChannel channelID channelType fs) (\<lambda>slot. Ret (getList bo slot (getDenylistKey channelID channelType) fs))"

definition RemoveAllDenylist :: "'d bolt \<Rightarrow> gostring \<Rightarrow> u8 \<Rightarrow> 'd filestore \<Rightarrow> 'd filestore outcome" where
  "RemoveAllDenylist bo channelID channelType fs =
     bindR (slotNumForChannel channelID channelType fs) (\<lambda>slot. fs_delete bo slot (getDenylistKey channelID channelType) fs)"

text \<open>
  The contract the three lists of a channel share: a stored list of proper names, extended,
  filtered and cleared. A store is in order for a list when what it holds under the list's key is
  a list of proper names.
\<close>

locale name_list =
  fixes inv :: "'k \<Rightarrow> 's \<Rightarrow> bool"
    and names :: "'k \<Rightarrow> 's \<Rightarrow> gostring list outcome"
    and add :: "'k \<Rightarrow> gostring list \<Rightarrow> 's \<Rightarrow> 's outcome"
    and remove :: "'k \<Rightarrow> gostring list \<Rightarrow> 's \<Rightarrow> 's outcome"
    and clear :: "'k \<Rightarrow> 's \<Rightarrow> 's outcome"
  assumes names_law: "\<And>k s. inv k s \<Longrightarrow> \<exists>ns. names k s = Ret ns \<and> names_ok ns"
    and add_law: "\<And>k s s' us ns. inv k s \<Longrightarrow> names k s = Ret ns \<Longrightarrow> names_ok us \<Longrightarrow> add k us s = Ret s' \<Longrightarrow>
          inv k s' \<and> names k s' = Ret (ns @ us)"
    and remove_law: "\<And>k s s' us ns. inv k s \<Longrightarrow> names k s = Ret ns \<Longrightarrow> remove k us s = Ret s' \<Longrightarrow>
          inv k s' \<and> names k s' = Ret (filter (\<lambda>n. n \<notin> set us) ns)"
    and clear_law: "\<And>k s s'. inv k s \<Longrightarrow> clear k s = Ret s' \<Longrightarrow> inv k s' \<and> names k s' = Ret []"
begin

lemma add_member:
  assumes "inv k s" and "names_ok us" and "add k us s = Ret s'" and "u \<in> set us"
  shows "\<exists>ns. names k s' = Ret ns \<and> u \<in> set ns"
  using names_law [OF assms(1)] add_law [OF assms(1) _ assms(2,3)] assms(4) by auto

lemma remove_member:
  assumes "inv k s" and "remove k us s = Ret s'" and "u \<in> set us"
  shows "\<exists>ns. names k s' = Ret ns \<and> u \<notin> set ns"
  using names_law [OF assms(1)] remove_law [OF assms(1) _ assms(2)] assms(3) by auto

text \<open>Adding names and removing them again leaves the others as they were.\<close>

lemma add_remove:
  assumes "inv k s" and "names k s = Ret ns" and "names_ok us" and "add k us s = Ret s1" and "remove k us s1 = Ret s2"
  shows "names k s2 = Ret (filter (\<lambda>n. n \<notin> set us) ns)"
proof -
  from add_law [OF assms(1-4)] have "inv k s1" "names k s1 = Ret (ns @ us)" by simp_all
  from remove_law [OF this assms(5)] have "names k s2 = Ret (filter (\<lambda>n. n \<notin> set us) (ns @ us))" by simp
  moreover have "filter (\<lambda>n. n \<notin> set us) us = []" by (simp add: filter_empty_conv)
  ultimately show ?thesis by simp
qed

end

definition list_key_ok :: "'d bolt \<Rightarrow> u32 \<Rightarrow> gostring \<Rightarrow> 'd filestore \<Rightarrow> bool" where
  "list_key_ok bo slot key fs \<longleftrightarrow> names_ok (getList bo slot key fs)"

definition channel_list_ok :: "'d bolt \<Rightarrow> (gostring \<Rightarrow> u8 \<Rightarrow> gostring) \<Rightarrow> gostring \<times> u8 \<Rightarrow> 'd filestore \<Rightarrow> bool" where
  "channel_list_ok bo key_of k fs \<longleftrightarrow> bolt_ok bo \<and>
     (\<exists>slot. slotNumForChannel (fst k) (snd k) fs = Ret slot \<and> list_key_ok bo slot (key_of (fst k) (snd k)) fs)"

lemma addList_ok:
  assumes "bolt_ok bo" and "list_key_ok bo slot key fs" and "names_ok us" and "addList bo slot key us fs = Ret fs'"
  shows "getList bo slot key fs' = getList bo slot key fs @ us" and "fs_cfg fs' = fs_cfg fs"
proof -
  have "names_ok (getList bo slot key fs @ us)" using assms(2,3) by (auto simp: list_key_ok_def names_ok_def)
  with split_names_join fs_set_get [OF assms(1), of slot key _ fs fs'] assms(4)
  show "getList bo slot key fs' = getList bo slot key fs @ us" "fs_cfg fs' = fs_cfg fs"
    by (simp_all add: addList_def getList_def Let_def)
qed

lemma removeList_ok:
  assumes "bolt_ok bo" and "list_key_ok bo slot key fs" and "removeList bo slot key us fs = Ret fs'"
  shows "getList bo slot key fs' = filter (\<lambda>n. n \<notin> set us) (getList bo slot key fs)" and "fs_cfg fs' = fs_cfg fs"
proof -
  have "names_ok (filter (\<lambda>n. n \<notin> set us) (getList bo slot key fs))" using assms(2) by (auto simp: list_key_ok_def names_ok_def)
  with split_names_join fs_set_get [OF assms(1), of slot key _ fs fs'] assms(3)
  show "getList bo slot key fs' = filter (\<lambda>n. n \<notin> set us) (getList bo slot key fs)" "fs_cfg fs' = fs_cfg fs"
    by (simp_all add: removeList_def getList_def Let_def)
qed

lemma deleteList_ok:
  assumes "bolt_ok bo" and "fs_delete bo slot key fs = Ret fs'"
  shows "getList bo slot key fs' = []" and "fs_cfg fs' = fs_cfg fs"
  using fs_delete_get [OF assms] by (simp_all add: getList_def split_names_def)

lemma names_ok_simps [simp]: "names_ok []" "names_ok (xs @ ys) \<longleftrightarrow> names_ok xs \<and> names_ok ys"
  "names_ok xs \<Longrightarrow> names_ok (filter P xs)"
  by (auto simp: names_ok_def)

text \<open>One proof serves the three lists: what a key and its slot give, for any way to build the key.\<close>

lemma slotNumForChannel_cfg: "fs_cfg fs' = fs_cfg fs \<Longrightarrow> slotNumForChannel cid t fs' = slotNumForChannel cid t fs"
  by (simp add: slotNumForChannel_def)

lemma channel_list_slot:
  assumes "channel_list_ok bo key_of k fs"
  obtains slot where "slotNumForChannel (fst k) (snd k) fs = Ret slot" "bolt_ok bo" "list_key_ok bo slot (key_of (fst k) (snd k)) fs"
  using assms by (auto simp: channel_list_ok_def)

lemma channel_list_laws:
  "name_list (channel_list_ok bo key_of)
     (\<lambda>k fs. bindR (slotNumForChannel (fst k) (snd k) fs) (\<lambda>slot. Ret (getList bo slot (key_of (fst k) (snd k)) fs)))
     (\<lambda>k us fs. bindR (slotNumForChannel (fst k) (snd k) fs) (\<lambda>slot. addList bo slot (key_of (fst k) (snd k)) us fs))
     (\<lambda>k us fs. bindR (slotNumForChannel (fst k) (snd k) fs) (\<lambda>slot. removeList bo slot (key_of (fst k) (snd k)) us fs))
     (\<lambda>k fs. bindR (slotNumForChannel (fst k) (snd k) fs) (\<lambda>slot. fs_delete bo slot (key_of (fst k) (snd k)) fs))"
proof (unfold_locales, goal_cases)
  case (1 k s)
  then show ?case by (rule channel_list_slot) (simp add: list_key_ok_def)
next
  case (2 k s s' us ns)
  from 2(1) show ?case
  proof (rule channel_list_slot)
    fix slot assume s: "slotNumForChannel (fst k) (snd k) s = Ret slot" "bolt_ok bo" "list_key_ok bo slot (key_of (fst k) (snd k)) s"
    have r: "addList bo slot (key_of (fst k) (snd k)) us s = Ret s'" using 2(4) s(1) by simp
    note ok = addList_ok [OF s(2,3) 2(3) r]
    from 2(2,3) s ok show ?thesis
      by (simp add: channel_list_ok_def list_key_ok_def slotNumForChannel_cfg [of s' s])
  qed
next
  case (3 k s s' us ns)
  from 3(1) show ?case
  proof (rule channel_list_slot)
    fix slot assume s: "slotNumForChannel (fst k) (snd k) s = Ret slot" "bolt_ok bo" "list_key_ok bo slot (key_of (fst k) (snd k)) s"
    have r: "removeList bo slot (key_of (fst k) (snd k)) us s = Ret s'" using 3(3) s(1) by simp
    note ok = removeList_ok [OF s(2,3) r]
    from 3(2) s ok show ?thesis
      by (simp add: channel_list_ok_def list_key_ok_def slotNumForChannel_cfg [of s' s])
  qed
next
  case (4 k s s')
  from 4(1) show ?case
  proof (rule channel_list_slot)
    fix slot assume s: "slotNumForChannel (fst k) (snd k) s = Ret slot" "bolt_ok bo" "list_key_ok bo slot (key_of (fst k) (snd k)) s"
    have r: "fs_delete bo slot (key_of (fst k) (snd k)) s = Ret s'" using 4(2) s(1) by simp
    note ok = deleteList_ok [OF s(2) r]
    from 4(1) s ok show ?thesis
      by (simp add: channel_list_ok_def list_key_ok_def slotNumForChannel_cfg [of s' s])
  qed
qed

interpretation subscribers: name_list "channel_list_ok bo getSubscribersKey"
  "\<lambda>k. GetSubscribers bo (fst k) (snd k)" "\<lambda>k. AddSubscribers_store bo (fst k) (snd k)"
  "\<lambda>k. RemoveSubscribers_store bo (fst k) (snd k)" "\<lambda>k. RemoveAllSubscriber_store bo (fst k) (snd k)" for bo :: "'d bolt"
  unfolding GetSubscribers_def [abs_def] AddSubscribers_store_def [abs_def] RemoveSubscribers_store_def [abs_def]
    RemoveAllSubscriber_store_def [abs_def] by (rule channel_list_laws)

interpretation denylist: name_list "channel_list_ok bo getDenylistKey"
  "\<lambda>k. GetDenylist bo (fst k) (snd k)" "\<lambda>k. AddDenylist_store bo (fst k) (snd k)"
  "\<lambda>k. RemoveDenylist_store bo (fst k) (snd k)" "\<lambda>k. RemoveAllDenylist bo (fst k) (snd k)" for bo :: "'d bolt"
  unfolding GetDenylist_def [abs_def] AddDenylist_store_def [abs_def] RemoveDenylist_store_def [abs_def]
    RemoveAllDenylist_def [abs_def] by (rule channel_list_laws)

interpretation allowlist: name_list "channel_list_ok bo getAllowlistKey"
  "\<lambda>k. GetAllowlist bo (fst k) (snd k)" "\<lambda>k. AddAllowlist_store bo (fst k) (snd k)"
  "\<lambda>k. RemoveAllowlist_store bo (fst k) (snd k)" "\<lambda>k. RemoveAllAllowlist bo (fst k) (snd k)" for bo :: "'d bolt"
  unfolding GetAllowlist_def [abs_def] AddAllowlist_store_def [abs_def] RemoveAllowlist_store_def [abs_def]
    RemoveAllAllowlist_def [abs_def] by (rule channel_list_laws)

end
