(* ===== verification/Channels.thy ===== *)
theory Channels
  imports ServerCommon KVStore
begin

text \<open>
  Channels and the channel manager, \<^verbatim>\<open>internal/server/channel.go\<close>,
  \<^verbatim>\<open>channel_manager.go\<close> and \<^verbatim>\<open>systemuid_manager.go\<close>: who may send to a
  channel and who receives from it. A \<open>sync.Map\<close> used as a set is the list of its keys without
  repetition; Go leaves the order of its traversal open, so nothing proved here depends on it.
\<close>

section \<open>Sets of users\<close>

definition Store :: "gostring \<Rightarrow> gostring list \<Rightarrow> gostring list" where
  "Store uid xs = (if uid \<in> set xs then xs else xs @ [uid])"

definition Delete :: "gostring \<Rightarrow> gostring list \<Rightarrow> gostring list" where
  "Delete uid xs = removeAll uid xs"

definition StoreAll :: "gostring list \<Rightarrow> gostring list \<Rightarrow> gostring list" where
  "StoreAll uids xs = fold Store uids xs"

definition DeleteAll :: "gostring list \<Rightarrow> gostring list \<Rightarrow> gostring list" where
  "DeleteAll uids xs = fold Delete uids xs"

lemma set_Store [simp]: "set (Store uid xs) = insert uid (set xs)"
  by (auto simp: Store_def)

lemma set_Delete [simp]: "set (Delete uid xs) = set xs - {uid}"
  by (simp add: Delete_def)

lemma set_StoreAll [simp]: "set (StoreAll uids xs) = set uids \<union> set xs"
  unfolding StoreAll_def by (induction uids arbitrary: xs) auto

lemma set_DeleteAll [simp]: "set (DeleteAll uids xs) = set xs - set uids"
  unfolding DeleteAll_def by (induction uids arbitrary: xs) auto

lemma StoreAll_Nil [simp]: "StoreAll [] xs = xs" and DeleteAll_Nil [simp]: "DeleteAll [] xs = xs"
  by (simp_all add: StoreAll_def DeleteAll_def)

section \<open>Channels\<close>

record channel =
  ch_Info :: channelInfo
  ch_blacklist :: "gostring list"
  ch_whitelist :: "gostring list"
  ch_subscriberMap :: "gostring list"
  ch_tmpSubscriberMap :: "gostring list"

abbreviation ch_ID :: "channel \<Rightarrow> gostring" where "ch_ID c \<equiv> ci_ChannelID (ch_Info c)"
abbreviation ch_Type :: "channel \<Rightarrow> u8" where "ch_Type c \<equiv> ci_ChannelType (ch_Info c)"

text \<open>The options that the modelled parts of the server read.\<close>

record options =
  op_ManagerUID :: gostring
  op_ManagerTokenOn :: bool
  op_ManagerToken :: gostring
  op_TokenAuthOn :: bool
  op_WhitelistOffOfPerson :: int
  op_TmpChannelSuffix :: gostring
  op_CreateIfNoExist :: bool
  op_DatasourceAddr :: gostring
  op_ChannelInfoOn :: bool
  op_UserMsgQueueMaxSize :: int
  op_MessageRetryInterval :: int
  op_MessageRetryMaxCount :: int
  op_WebhookHTTPAddr :: gostring
  op_WebhookGRPCAddr :: gostring

definition HasDatasource :: "options \<Rightarrow> bool" where
  "HasDatasource opts \<longleftrightarrow> \<not> blank (op_DatasourceAddr opts)"

definition WebhookGRPCOn :: "options \<Rightarrow> bool" where
  "WebhookGRPCOn opts \<longleftrightarrow> \<not> blank (op_WebhookGRPCAddr opts)"

definition WebhookOn :: "options \<Rightarrow> bool" where
  "WebhookOn opts \<longleftrightarrow> \<not> blank (op_WebhookHTTPAddr opts) \<or> WebhookGRPCOn opts"

definition IsTmpChannel :: "options \<Rightarrow> gostring \<Rightarrow> bool" where
  "IsTmpChannel opts channelID \<longleftrightarrow> hasSuffix channelID (op_TmpChannelSuffix opts)"

definition NewChannel :: "channelInfo \<Rightarrow> channel" where
  "NewChannel info = \<lparr>ch_Info = info, ch_blacklist = [], ch_whitelist = [], ch_subscriberMap = [], ch_tmpSubscriberMap = []\<rparr>"

definition IsTmpSubscriber :: "gostring \<Rightarrow> channel \<Rightarrow> bool" where
  "IsTmpSubscriber uid c \<longleftrightarrow> uid \<in> set (ch_tmpSubscriberMap c)"

definition IsDenylist :: "gostring \<Rightarrow> channel \<Rightarrow> bool" where
  "IsDenylist uid c \<longleftrightarrow> uid \<in> set (ch_blacklist c)"

definition AddSubscriber :: "gostring \<Rightarrow> channel \<Rightarrow> channel" where
  "AddSubscriber uid c = c\<lparr>ch_subscriberMap := Store uid (ch_subscriberMap c)\<rparr>"

definition AddSubscribers :: "gostring list \<Rightarrow> channel \<Rightarrow> channel" where
  "AddSubscribers uids c = c\<lparr>ch_subscriberMap := StoreAll uids (ch_subscriberMap c)\<rparr>"

definition AddTmpSubscriber :: "gostring \<Rightarrow> channel \<Rightarrow> channel" where
  "AddTmpSubscriber uid c = c\<lparr>ch_tmpSubscriberMap := Store uid (ch_tmpSubscriberMap c)\<rparr>"

definition AddTmpSubscribers :: "gostring list \<Rightarrow> channel \<Rightarrow> channel" where
  "AddTmpSubscribers uids c = c\<lparr>ch_tmpSubscriberMap := StoreAll uids (ch_tmpSubscriberMap c)\<rparr>"

definition GetAllSubscribers :: "channel \<Rightarrow> gostring list" where
  "GetAllSubscribers c = ch_subscriberMap c"

definition GetAllTmpSubscribers :: "channel \<Rightarrow> gostring list" where
  "GetAllTmpSubscribers c = ch_tmpSubscriberMap c"

definition RemoveAllSubscriber :: "channel \<Rightarrow> channel" where
  "RemoveAllSubscriber c = c\<lparr>ch_subscriberMap := DeleteAll (ch_subscriberMap c) (ch_subscriberMap c)\<rparr>"

definition RemoveAllTmpSubscriber :: "channel \<Rightarrow> channel" where
  "RemoveAllTmpSubscriber c = c\<lparr>ch_tmpSubscriberMap := DeleteAll (ch_tmpSubscriberMap c) (ch_tmpSubscriberMap c)\<rparr>"

definition RemoveSubscriber :: "gostring \<Rightarrow> channel \<Rightarrow> channel" where
  "RemoveSubscriber uid c = c\<lparr>ch_subscriberMap := Delete uid (ch_subscriberMap c)\<rparr>"

definition RemoveSubscribers :: "gostring list \<Rightarrow> channel \<Rightarrow> channel" where
  "RemoveSubscribers uids c = c\<lparr>ch_subscriberMap := DeleteAll uids (ch_subscriberMap c)\<rparr>"

definition RemoveTmSubscriber :: "gostring \<Rightarrow> channel \<Rightarrow> channel" where
  "RemoveTmSubscriber uid c = c\<lparr>ch_tmpSubscriberMap := Delete uid (ch_tmpSubscriberMap c)\<rparr>"

definition RemoveTmpSubscribers :: "gostring list \<Rightarrow> channel \<Rightarrow> channel" where
  "RemoveTmpSubscribers uids c = c\<lparr>ch_tmpSubscriberMap := DeleteAll uids (ch_tmpSubscriberMap c)\<rparr>"

definition AddDenylist :: "gostring list \<Rightarrow> channel \<Rightarrow> channel" where
  "AddDenylist uids c = c\<lparr>ch_blacklist := StoreAll uids (ch_blacklist c)\<rparr>"

definition SetDenylist :: "gostring list \<Rightarrow> channel \<Rightarrow> channel" where
  "SetDenylist uids c = AddDenylist uids (c\<lparr>ch_blacklist := DeleteAll (ch_blacklist c) (ch_blacklist c)\<rparr>)"

definition RemoveDenylist :: "gostring list \<Rightarrow> channel \<Rightarrow> channel" where
  "RemoveDenylist uids c = c\<lparr>ch_blacklist := DeleteAll uids (ch_blacklist c)\<rparr>"

definition AddAllowlist :: "gostring list \<Rightarrow> channel \<Rightarrow> channel" where
  "AddAllowlist uids c = c\<lparr>ch_whitelist := StoreAll uids (ch_whitelist c)\<rparr>"

definition SetAllowlist :: "gostring list \<Rightarrow> channel \<Rightarrow> channel" where
  "SetAllowlist uids c = AddAllowlist uids (c\<lparr>ch_whitelist := DeleteAll (ch_whitelist c) (ch_whitelist c)\<rparr>)"

definition RemoveAllowlist :: "gostring list \<Rightarrow> channel \<Rightarrow> channel" where
  "RemoveAllowlist uids c = c\<lparr>ch_whitelist := DeleteAll uids (ch_whitelist c)\<rparr>"

section \<open>Permission to send\<close>


text \<open>\<open>sys\<close> is the set of system accounts.\<close>

definition SystemUID :: "gostring \<Rightarrow> gostring list \<Rightarrow> bool" where
  "SystemUID uid sys \<longleftrightarrow> uid \<in> set sys"

definition Allow :: "options \<Rightarrow> gostring list \<Rightarrow> gostring \<Rightarrow> channel \<Rightarrow> bool \<times> reasonCode" where
  "Allow opts sys uid c =
     (if ch_Type c = ChannelTypeInfo then (True, ReasonSuccess)
      else if SystemUID uid sys then (True, ReasonSuccess)
      else if ci_Ban (ch_Info c) then (False, ReasonBan)
      else if ch_Type c = ChannelTypePerson \<and> IsFakeChannel (ch_ID c) then
        (if IsDenylist uid c then (False, ReasonInBlacklist) else (True, ReasonSuccess))
      else if (ch_Type c \<noteq> ChannelTypePerson \<or> op_WhitelistOffOfPerson opts = 0) \<and> length (ch_whitelist c) > 0 then
        (if uid \<in> set (ch_whitelist c) then (True, ReasonSuccess) else (False, ReasonNotInWhitelist))
      else if (ch_Type c \<noteq> ChannelTypePerson \<or> op_WhitelistOffOfPerson opts = 0) \<and> ch_Type c = ChannelTypePerson then
        (False, ReasonNotInWhitelist)
      else if IsDenylist uid c then (False, ReasonInBlacklist)
      else (True, ReasonSuccess))"

section \<open>Loading channels\<close>

text \<open>
  What the server reads of a channel when it loads it: from its own store (\<open>FileStore\<close>) or from an
  external data source that answers over HTTP. Both are given by the functions they offer.
\<close>

record loader =
  ld_ChannelInfo :: "gostring \<Rightarrow> u8 \<Rightarrow> channelInfo option outcome"
  ld_Subscribers :: "gostring \<Rightarrow> u8 \<Rightarrow> gostring list outcome"
  ld_Denylist :: "gostring \<Rightarrow> u8 \<Rightarrow> gostring list outcome"
  ld_Allowlist :: "gostring \<Rightarrow> u8 \<Rightarrow> gostring list outcome"
  ld_SystemUIDs :: "gostring list outcome"

record env =
  en_opts :: options
  en_store :: loader
  en_datasource :: loader

text \<open>The channel manager's caches by channel key, and the system account manager.\<close>

record channels =
  cm_channelCache :: "gostring \<Rightarrow> channel option"
  cm_tmpChannelCache :: "gostring \<Rightarrow> channel option"
  cm_dataChannelCache :: "gostring \<Rightarrow> channel option"
  sm_systemUIDs :: "gostring list"
  sm_loaded :: bool

definition NewChannelManager :: channels where
  "NewChannelManager = \<lparr>cm_channelCache = Map.empty, cm_tmpChannelCache = Map.empty,
     cm_dataChannelCache = Map.empty, sm_systemUIDs = [], sm_loaded = False\<rparr>"

definition LoadIfNeed :: "env \<Rightarrow> channels \<Rightarrow> unit outcome \<times> channels" where
  "LoadIfNeed env cs =
     (if sm_loaded cs then (Ret (), cs)
      else if \<not> HasDatasource (en_opts env) then (Ret (), cs)
      else case ld_SystemUIDs (en_datasource env) of
          Ret uids \<Rightarrow> (Ret (), cs\<lparr>sm_loaded := True, sm_systemUIDs := StoreAll uids (sm_systemUIDs cs)\<rparr>)
        | Fail e \<Rightarrow> (Fail e, cs)
        | Panic \<Rightarrow> (Panic, cs))"

definition initChannelInfo :: "env \<Rightarrow> channel \<Rightarrow> channel outcome" where
  "initChannelInfo env c =
     (if \<not> op_ChannelInfoOn (en_opts env) then Ret c
      else if \<not> HasDatasource (en_opts env) then Ret c
      else if ch_Type c = ChannelTypePerson then Ret c
      else bindR (ld_ChannelInfo (en_datasource env) (ch_ID c) (ch_Type c)) (\<lambda>info.
        Ret (case info of None \<Rightarrow> c | Some info \<Rightarrow> c\<lparr>ch_Info := info\<rparr>)))"

definition initSubscribers :: "env \<Rightarrow> channel \<Rightarrow> channel outcome" where
  "initSubscribers env c =
     bindR (if HasDatasource (en_opts env) \<and> ch_Type c \<noteq> ChannelTypePerson
            then ld_Subscribers (en_datasource env) (ch_ID c) (ch_Type c)
            else ld_Subscribers (en_store env) (ch_ID c) (ch_Type c)) (\<lambda>subscribers.
     let c = AddSubscribers subscribers c in
     Ret (if ch_Type c = ChannelTypeCustomerService then
            let (visitorID, _) = GetCustomerServiceVisitorUID (ch_ID c) in
            if visitorID \<noteq> [] then AddSubscriber visitorID c else c
          else c))"

definition initBlacklist :: "env \<Rightarrow> channel \<Rightarrow> channel outcome" where
  "initBlacklist env c =
     bindR (if HasDatasource (en_opts env) then ld_Denylist (en_datasource env) (ch_ID c) (ch_Type c)
            else ld_Denylist (en_store env) (ch_ID c) (ch_Type c)) (\<lambda>uids. Ret (AddDenylist uids c))"

definition initWhitelist :: "env \<Rightarrow> channel \<Rightarrow> channel outcome" where
  "initWhitelist env c =
     bindR (if HasDatasource (en_opts env) then ld_Allowlist (en_datasource env) (ch_ID c) (ch_Type c)
            else ld_Allowlist (en_store env) (ch_ID c) (ch_Type c)) (\<lambda>uids. Ret (AddAllowlist uids c))"

definition LoadData :: "env \<Rightarrow> channel \<Rightarrow> channels \<Rightarrow> channel outcome \<times> channels" where
  "LoadData env c cs =
     (case LoadIfNeed env cs of
        (Ret _, cs) \<Rightarrow>
          (bindR (initChannelInfo env c) (\<lambda>c.
           bindR (initSubscribers env c) (\<lambda>c.
           bindR (initBlacklist env c) (\<lambda>c.
           initWhitelist env c))), cs)
      | (Fail e, cs) \<Rightarrow> (Fail e, cs)
      | (Panic, cs) \<Rightarrow> (Panic, cs))"

section \<open>The channel manager\<close>

definition GetTmpChannel :: "gostring \<Rightarrow> u8 \<Rightarrow> channels \<Rightarrow> channel option" where
  "GetTmpChannel channelID channelType cs = cm_tmpChannelCache cs (channelKey channelID channelType)"

definition getChannelFromCache :: "gostring \<Rightarrow> u8 \<Rightarrow> channels \<Rightarrow> channel option" where
  "getChannelFromCache channelID channelType cs = cm_channelCache cs (channelKey channelID channelType)"

definition setChannelFromCache :: "channel \<Rightarrow> channels \<Rightarrow> channels" where
  "setChannelFromCache c cs = cs\<lparr>cm_channelCache := (cm_channelCache cs)(channelKey (ch_ID c) (ch_Type c) := Some c)\<rparr>"

definition getChannelFromCacheOrStore :: "env \<Rightarrow> gostring \<Rightarrow> u8 \<Rightarrow> channels \<Rightarrow> channel option outcome \<times> channels" where
  "getChannelFromCacheOrStore env channelID channelType cs =
     (case getChannelFromCache channelID channelType cs of
        Some c \<Rightarrow> (Ret (Some c), cs)
      | None \<Rightarrow>
          (case ld_ChannelInfo (en_store env) channelID channelType of
             Fail e \<Rightarrow> (Fail e, cs)
           | Panic \<Rightarrow> (Panic, cs)
           | Ret info \<Rightarrow>
               if info = None \<and> \<not> (op_CreateIfNoExist (en_opts env) \<or>
                  channelType = ChannelTypeCommunityTopic \<or> channelType = ChannelTypeInfo)
               then (Ret None, cs)
               else
                 let info = (case info of None \<Rightarrow> NewChannelInfo channelID channelType | Some i \<Rightarrow> i) in
                 case LoadData env (NewChannel info) cs of
                   (Ret c, cs) \<Rightarrow> (Ret (Some c), setChannelFromCache c cs)
                 | (Fail e, cs) \<Rightarrow> (Fail e, cs)
                 | (Panic, cs) \<Rightarrow> (Panic, cs)))"

definition GetPersonChannel :: "env \<Rightarrow> gostring \<Rightarrow> u8 \<Rightarrow> channels \<Rightarrow> channel option outcome \<times> channels" where
  "GetPersonChannel env channelID channelType cs =
     (case cm_channelCache cs (channelKey channelID channelType) of
        Some c \<Rightarrow> (Ret (Some c), cs)
      | None \<Rightarrow>
          (case LoadData env (NewChannel (NewChannelInfo channelID channelType)) cs of
             (Ret c, cs) \<Rightarrow>
               let c = (if IsFakeChannel channelID then AddSubscribers (split_on at_sign channelID) c
                        else AddSubscriber channelID c) in
               (Ret (Some c), cs\<lparr>cm_channelCache := (cm_channelCache cs)(channelKey channelID channelType := Some c)\<rparr>)
           | (Fail e, cs) \<Rightarrow> (Fail e, cs)
           | (Panic, cs) \<Rightarrow> (Panic, cs)))"

definition GetOrCreateDataChannel :: "gostring \<Rightarrow> u8 \<Rightarrow> channels \<Rightarrow> channel \<times> channels" where
  "GetOrCreateDataChannel channelID channelType cs =
     (case cm_dataChannelCache cs (channelKey channelID channelType) of
        Some c \<Rightarrow> (c, cs)
      | None \<Rightarrow>
          let c = NewChannel (NewChannelInfo channelID channelType) in
          (c, cs\<lparr>cm_dataChannelCache := (cm_dataChannelCache cs)(channelKey channelID channelType := Some c)\<rparr>))"

definition RemoveDataChannel :: "gostring \<Rightarrow> u8 \<Rightarrow> channels \<Rightarrow> channels" where
  "RemoveDataChannel channelID channelType cs =
     cs\<lparr>cm_dataChannelCache := (cm_dataChannelCache cs)(channelKey channelID channelType := None)\<rparr>"

definition GetChannel :: "env \<Rightarrow> gostring \<Rightarrow> u8 \<Rightarrow> channels \<Rightarrow> channel option outcome \<times> channels" where
  "GetChannel env channelID channelType cs =
     (if IsTmpChannel (en_opts env) channelID then (Ret (GetTmpChannel channelID channelType cs), cs)
      else if channelType = ChannelTypePerson then GetPersonChannel env channelID channelType cs
      else if channelType = ChannelTypeData then
        let (c, cs) = GetOrCreateDataChannel channelID channelType cs in (Ret (Some c), cs)
      else getChannelFromCacheOrStore env channelID channelType cs)"

definition CreateTmpChannel :: "gostring \<Rightarrow> u8 \<Rightarrow> gostring list \<Rightarrow> channels \<Rightarrow> channels" where
  "CreateTmpChannel channelID channelType subscribers cs =
     cs\<lparr>cm_tmpChannelCache := (cm_tmpChannelCache cs)
       (channelKey channelID channelType := Some (AddSubscribers subscribers (NewChannel (NewChannelInfo channelID channelType))))\<rparr>"

definition DeleteChannelFromCache :: "gostring \<Rightarrow> u8 \<Rightarrow> channels \<Rightarrow> channels" where
  "DeleteChannelFromCache channelID channelType cs =
     cs\<lparr>cm_channelCache := (cm_channelCache cs)(channelKey channelID channelType := None)\<rparr>"

section \<open>Subscribers\<close>

definition parentChannel :: "env \<Rightarrow> channel \<Rightarrow> channels \<Rightarrow> channel option outcome \<times> channels" where
  "parentChannel env c cs =
     (if ch_Type c = ChannelTypeCommunityTopic then
        let parentChannelID = GetCommunityTopicParentChannelID (ch_ID c) in
        if parentChannelID \<noteq> [] then GetChannel env parentChannelID ChannelTypeCommunity cs else (Ret None, cs)
      else (Ret None, cs))"

text \<open>The parent of a topic is asked first; it could be a topic itself, so the search need not end.\<close>

partial_function (option) IsSubscriber :: "env \<Rightarrow> gostring \<Rightarrow> channel \<Rightarrow> channels \<Rightarrow> (bool outcome \<times> channels) option" where
  "IsSubscriber env uid c cs =
     (case parentChannel env c cs of
        (Panic, cs) \<Rightarrow> Some (Panic, cs)
      | (Fail _, cs) \<Rightarrow> Some (Ret (uid \<in> set (ch_subscriberMap c)), cs)
      | (Ret None, cs) \<Rightarrow> Some (Ret (uid \<in> set (ch_subscriberMap c)), cs)
      | (Ret (Some parent), cs) \<Rightarrow>
          Option.bind (IsSubscriber env uid parent cs) (\<lambda>(r, cs).
            case r of
              Ret ok \<Rightarrow> if ok then Some (Ret True, cs) else Some (Ret (uid \<in> set (ch_subscriberMap c)), cs)
            | _ \<Rightarrow> Some (r, cs)))"

text \<open>\<open>okutil.RemoveRepeatedElement\<close> keeps the last of equal elements.\<close>

fun RemoveRepeatedElement :: "gostring list \<Rightarrow> gostring list" where
  "RemoveRepeatedElement [] = []"
| "RemoveRepeatedElement (x # xs) =
     (let repeat = list_ex (\<lambda>y. x = y) xs in
      if \<not> repeat then x # RemoveRepeatedElement xs else RemoveRepeatedElement xs)"

lemma RemoveRepeatedElement_remdups: "RemoveRepeatedElement xs = remdups xs"
  by (induction xs) (auto simp: list_ex_iff)

partial_function (option) RealSubscribers ::
    "env \<Rightarrow> gostring list \<Rightarrow> channel \<Rightarrow> channels \<Rightarrow> (gostring list outcome \<times> channels) option" where
  "RealSubscribers env customSubscribers c cs =
     (if ch_Type c = ChannelTypeCommunityTopic \<and> GetAllSubscribers c = [] then
        (case parentChannel env c cs of
           (Fail e, cs) \<Rightarrow> Some (Fail e, cs)
         | (Panic, cs) \<Rightarrow> Some (Panic, cs)
         | (Ret None, cs) \<Rightarrow> Some (Fail (ErrMsg ''parent channel does not exist''), cs)
         | (Ret (Some parent), cs) \<Rightarrow> RealSubscribers env customSubscribers parent cs)
      else
        let subscribers = (if ch_Type c = ChannelTypeInfo then GetAllTmpSubscribers c else []) in
        Some (Ret (RemoveRepeatedElement
          (subscribers @ (if length customSubscribers > 0 then customSubscribers else GetAllSubscribers c))), cs))"

text \<open>\<open>Processor.hasPermission\<close>: whether a user may send to a channel, with the reason if not.\<close>

definition hasPermission ::
    "env \<Rightarrow> channel \<Rightarrow> gostring \<Rightarrow> channels \<Rightarrow> ((bool \<times> reasonCode) outcome \<times> channels) option" where
  "hasPermission env c fromUID cs =
     (if ch_Type c = ChannelTypeCustomerService then Some (Ret (True, ReasonSuccess), cs)
      else
        let (allow, reason) = Allow (en_opts env) (sm_systemUIDs cs) fromUID c in
        if \<not> allow then Some (Ret (False, reason), cs)
        else if ch_Type c \<noteq> ChannelTypePerson \<and> ch_Type c \<noteq> ChannelTypeInfo then
          map_option (\<lambda>(r, cs). (mapR (\<lambda>sub. if \<not> sub \<and> \<not> IsTmpSubscriber fromUID c
              then (False, ReasonSubscriberNotExist) else (True, ReasonSuccess)) r, cs))
            (IsSubscriber env fromUID c cs)
        else Some (Ret (True, ReasonSuccess), cs))"

section \<open>Who may send\<close>

lemma Allow_iff:
  "fst (Allow opts sys uid c) \<longleftrightarrow>
     ch_Type c = ChannelTypeInfo \<or> uid \<in> set sys \<or>
     (\<not> ci_Ban (ch_Info c) \<and>
      (if ch_Type c = ChannelTypePerson \<and> IsFakeChannel (ch_ID c) then uid \<notin> set (ch_blacklist c)
       else if (ch_Type c \<noteq> ChannelTypePerson \<and> ch_whitelist c \<noteq> []) \<or>
               (ch_Type c = ChannelTypePerson \<and> op_WhitelistOffOfPerson opts = 0)
       then uid \<in> set (ch_whitelist c)
       else uid \<notin> set (ch_blacklist c)))"
  by (auto simp: Allow_def SystemUID_def IsDenylist_def)

lemma Allow_reason: "snd (Allow opts sys uid c) = ReasonSuccess \<longleftrightarrow> fst (Allow opts sys uid c)"
  by (auto simp: Allow_def)

section \<open>Loading keeps the identity of a channel\<close>

text \<open>A store and a data source answer the information of the channel that they were asked for.\<close>

definition loader_ok :: "loader \<Rightarrow> bool" where
  "loader_ok ld \<longleftrightarrow> (\<forall>cid t info. ld_ChannelInfo ld cid t = Ret (Some info) \<longrightarrow>
     ci_ChannelID info = cid \<and> ci_ChannelType info = t)"

definition env_ok :: "env \<Rightarrow> bool" where
  "env_ok env \<longleftrightarrow> loader_ok (en_store env) \<and> loader_ok (en_datasource env)"

definition cache_ok :: "(gostring \<Rightarrow> channel option) \<Rightarrow> bool" where
  "cache_ok cache \<longleftrightarrow> (\<forall>cid t c. cache (channelKey cid t) = Some c \<longrightarrow> ch_ID c = cid \<and> ch_Type c = t)"

definition channels_ok :: "channels \<Rightarrow> bool" where
  "channels_ok cs \<longleftrightarrow> cache_ok (cm_channelCache cs) \<and> cache_ok (cm_tmpChannelCache cs) \<and> cache_ok (cm_dataChannelCache cs)"

lemma cache_ok_empty: "cache_ok Map.empty"
  by (simp add: cache_ok_def)

lemma NewChannelManager_ok: "channels_ok NewChannelManager"
  by (simp add: channels_ok_def NewChannelManager_def cache_ok_empty)

lemma cache_ok_add: "cache_ok cache \<Longrightarrow> ch_ID c = cid \<Longrightarrow> ch_Type c = t \<Longrightarrow> cache_ok (cache(channelKey cid t := Some c))"
  by (simp add: cache_ok_def)

lemma cache_ok_del: "cache_ok cache \<Longrightarrow> cache_ok (cache(k := None))"
  by (simp add: cache_ok_def)

lemma ch_Info_ops [simp]:
  "ch_Info (AddSubscriber u c) = ch_Info c" "ch_Info (AddSubscribers us c) = ch_Info c"
  "ch_Info (AddDenylist us c) = ch_Info c" "ch_Info (AddAllowlist us c) = ch_Info c"
  "ch_Info (NewChannel info) = info"
  by (simp_all add: AddSubscriber_def AddSubscribers_def AddDenylist_def AddAllowlist_def NewChannel_def)

lemma LoadIfNeed_caches:
  assumes "LoadIfNeed env cs = (r, cs')"
  shows "cm_channelCache cs' = cm_channelCache cs" "cm_tmpChannelCache cs' = cm_tmpChannelCache cs"
    "cm_dataChannelCache cs' = cm_dataChannelCache cs"
  using assms by (auto simp: LoadIfNeed_def split: if_splits outcome.splits)

lemma LoadData_state: "snd (LoadData env c cs) = snd (LoadIfNeed env cs)"
  by (simp add: LoadData_def split: prod.split outcome.split)

lemma LoadData_caches:
  assumes "LoadData env c cs = (r, cs')"
  shows "cm_channelCache cs' = cm_channelCache cs" "cm_tmpChannelCache cs' = cm_tmpChannelCache cs"
    "cm_dataChannelCache cs' = cm_dataChannelCache cs"
  using LoadIfNeed_caches [of env cs "fst (LoadIfNeed env cs)" cs'] LoadData_state [of env c cs] assms
  by simp_all

text \<open>What a loaded channel consists of.\<close>

lemma initChannelInfo_id:
  assumes "env_ok env" and "initChannelInfo env c = Ret c'"
  shows "ch_ID c' = ch_ID c" and "ch_Type c' = ch_Type c"
    and "ch_blacklist c' = ch_blacklist c" and "ch_whitelist c' = ch_whitelist c"
    and "ch_subscriberMap c' = ch_subscriberMap c" and "ch_tmpSubscriberMap c' = ch_tmpSubscriberMap c"
  using assms by (auto simp: initChannelInfo_def bindR_eq_Ret env_ok_def loader_ok_def split: if_splits option.splits)

lemma initSubscribers_info: "initSubscribers env c = Ret c' \<Longrightarrow> ch_Info c' = ch_Info c"
  by (auto simp: initSubscribers_def bindR_eq_Ret Let_def split: if_splits prod.splits)

lemma initBlacklist_info: "initBlacklist env c = Ret c' \<Longrightarrow> ch_Info c' = ch_Info c"
  by (auto simp: initBlacklist_def bindR_eq_Ret split: if_splits)

lemma initWhitelist_info: "initWhitelist env c = Ret c' \<Longrightarrow> ch_Info c' = ch_Info c"
  by (auto simp: initWhitelist_def bindR_eq_Ret split: if_splits)

lemma LoadData_id:
  assumes "env_ok env" and "LoadData env c cs = (Ret c', cs')"
  shows "ch_ID c' = ch_ID c" and "ch_Type c' = ch_Type c"
proof -
  from assms(2) obtain c1 c2 c3 where "initChannelInfo env c = Ret c1" "initSubscribers env c1 = Ret c2"
    "initBlacklist env c2 = Ret c3" "initWhitelist env c3 = Ret c'"
    by (auto simp: LoadData_def bindR_eq_Ret split: prod.splits outcome.splits)
  with initChannelInfo_id [OF assms(1)] initSubscribers_info initBlacklist_info initWhitelist_info
  show "ch_ID c' = ch_ID c" "ch_Type c' = ch_Type c" by metis+
qed

lemma LoadData_sets:
  assumes "\<not> HasDatasource (en_opts env)" and "LoadData env (NewChannel info) cs = (Ret c, cs')"
    and "ci_ChannelType info \<noteq> ChannelTypeCustomerService"
  obtains subs deny allow where "ld_Subscribers (en_store env) (ci_ChannelID info) (ci_ChannelType info) = Ret subs"
    and "ld_Denylist (en_store env) (ci_ChannelID info) (ci_ChannelType info) = Ret deny"
    and "ld_Allowlist (en_store env) (ci_ChannelID info) (ci_ChannelType info) = Ret allow"
    and "set (ch_subscriberMap c) = set subs" and "set (ch_blacklist c) = set deny" and "set (ch_whitelist c) = set allow"
    and "ch_Info c = info"
  using assms
  by (auto simp: LoadData_def bindR_eq_Ret initChannelInfo_def initSubscribers_def initBlacklist_def initWhitelist_def
      NewChannel_def AddSubscribers_def AddDenylist_def AddAllowlist_def Let_def
      split: prod.splits outcome.splits if_splits)

section \<open>The channel manager finds what it was asked for\<close>

lemma GetTmpChannel_id: "channels_ok cs \<Longrightarrow> GetTmpChannel cid t cs = Some c \<Longrightarrow> ch_ID c = cid \<and> ch_Type c = t"
  by (simp add: channels_ok_def cache_ok_def GetTmpChannel_def)

lemma fromCacheOrStore_ok:
  assumes "env_ok env" and "channels_ok cs" and "getChannelFromCacheOrStore env cid t cs = (r, cs')"
  shows "channels_ok cs'" and "r = Ret (Some c) \<Longrightarrow> ch_ID c = cid \<and> ch_Type c = t"
proof -
  have "channels_ok cs' \<and> (\<forall>c. r = Ret (Some c) \<longrightarrow> ch_ID c = cid \<and> ch_Type c = t)"
  proof (cases "cm_channelCache cs (channelKey cid t)")
    case (Some c)
    with assms show ?thesis
      by (auto simp: getChannelFromCacheOrStore_def getChannelFromCache_def channels_ok_def cache_ok_def)
  next
    case None
    show ?thesis
    proof (cases "ld_ChannelInfo (en_store env) cid t")
      case (Ret info)
      define i where "i = (case info of None \<Rightarrow> NewChannelInfo cid t | Some i \<Rightarrow> i)"
      have i: "ci_ChannelID i = cid" "ci_ChannelType i = t"
        using assms(1) Ret by (auto simp: i_def env_ok_def loader_ok_def NewChannelInfo_def split: option.splits)
      obtain lr cs1 where load: "LoadData env (NewChannel i) cs = (lr, cs1)" by (cases "LoadData env (NewChannel i) cs")
      have ok: "channels_ok cs1" using assms(2) LoadData_caches [OF load] by (simp add: channels_ok_def)
      show ?thesis
      proof (cases lr)
        case (Ret c)
        with load LoadData_id [OF assms(1), of "NewChannel i" cs c cs1] i have "ch_ID c = cid" "ch_Type c = t" by simp_all
        with None \<open>ld_ChannelInfo (en_store env) cid t = Ret info\<close> load Ret ok assms(2,3) show ?thesis
          by (auto simp: getChannelFromCacheOrStore_def getChannelFromCache_def i_def [symmetric] Let_def
              setChannelFromCache_def channels_ok_def intro!: cache_ok_add split: if_splits)
      qed (use None Ret load ok assms(2,3) in \<open>auto simp: getChannelFromCacheOrStore_def getChannelFromCache_def
          i_def [symmetric] Let_def split: if_splits\<close>)
    qed (use None assms in \<open>auto simp: getChannelFromCacheOrStore_def getChannelFromCache_def\<close>)
  qed
  then show "channels_ok cs'" "r = Ret (Some c) \<Longrightarrow> ch_ID c = cid \<and> ch_Type c = t" by simp_all
qed

lemma GetPersonChannel_ok:
  assumes "env_ok env" and "channels_ok cs" and "GetPersonChannel env cid t cs = (r, cs')"
  shows "channels_ok cs'" and "r = Ret (Some c) \<Longrightarrow> ch_ID c = cid \<and> ch_Type c = t"
proof -
  have "channels_ok cs' \<and> (\<forall>c. r = Ret (Some c) \<longrightarrow> ch_ID c = cid \<and> ch_Type c = t)"
  proof (cases "cm_channelCache cs (channelKey cid t)")
    case (Some c)
    with assms show ?thesis by (auto simp: GetPersonChannel_def channels_ok_def cache_ok_def)
  next
    case None
    let ?n = "NewChannel (NewChannelInfo cid t)"
    obtain lr cs1 where load: "LoadData env ?n cs = (lr, cs1)" by (cases "LoadData env ?n cs")
    have ok: "channels_ok cs1" using assms(2) LoadData_caches [OF load] by (simp add: channels_ok_def)
    show ?thesis
    proof (cases lr)
      case (Ret c)
      with load LoadData_id [OF assms(1), of ?n cs c cs1] have "ch_ID c = cid" "ch_Type c = t"
        by (simp_all add: NewChannelInfo_def)
      with None load Ret ok assms(3) show ?thesis
        by (auto simp: GetPersonChannel_def Let_def channels_ok_def intro!: cache_ok_add)
    qed (use None load ok assms(3) in \<open>auto simp: GetPersonChannel_def\<close>)
  qed
  then show "channels_ok cs'" "r = Ret (Some c) \<Longrightarrow> ch_ID c = cid \<and> ch_Type c = t" by simp_all
qed

lemma GetChannel_ok:
  assumes "env_ok env" and "channels_ok cs" and "GetChannel env cid t cs = (r, cs')"
  shows "channels_ok cs'" and "r = Ret (Some c) \<Longrightarrow> ch_ID c = cid \<and> ch_Type c = t"
proof -
  have "channels_ok cs' \<and> (\<forall>c. r = Ret (Some c) \<longrightarrow> ch_ID c = cid \<and> ch_Type c = t)"
  proof -
    consider (tmp) "IsTmpChannel (en_opts env) cid" | (person) "\<not> IsTmpChannel (en_opts env) cid" "t = ChannelTypePerson"
      | (data) "\<not> IsTmpChannel (en_opts env) cid" "t = ChannelTypeData"
      | (other) "\<not> IsTmpChannel (en_opts env) cid" "t \<noteq> ChannelTypePerson" "t \<noteq> ChannelTypeData" by blast
    then show ?thesis
    proof cases
      case tmp
      with assms show ?thesis by (auto simp: GetChannel_def dest: GetTmpChannel_id)
    next
      case person
      with assms(3) have "GetPersonChannel env cid t cs = (r, cs')" by (simp add: GetChannel_def)
      from GetPersonChannel_ok [OF assms(1,2) this] show ?thesis by blast
    next
      case data
      with assms(2,3) show ?thesis
        by (auto simp: GetChannel_def GetOrCreateDataChannel_def channels_ok_def cache_ok_def NewChannelInfo_def Let_def
            split: option.splits if_splits)
    next
      case other
      with assms(3) have "getChannelFromCacheOrStore env cid t cs = (r, cs')" by (simp add: GetChannel_def)
      from fromCacheOrStore_ok [OF assms(1,2) this] show ?thesis by blast
    qed
  qed
  then show "channels_ok cs'" "r = Ret (Some c) \<Longrightarrow> ch_ID c = cid \<and> ch_Type c = t" by simp_all
qed

end
