(* ===== verification/StoreTables.thy ===== *)
theory StoreTables
  imports KVStore "HOL-Library.AList"
begin

text \<open>
  The tables of \<^verbatim>\<open>pkg/okstore/filestore.go\<close> that are not lists of a channel: the read position
  of a user's queue, the system accounts and the blocked addresses (root bucket), the recent
  conversations of a user, and the queue of messages waiting for the webhook. The conversation set
  codec is the one of \<^verbatim>\<open>pkg/okstore/model.go\<close>.
\<close>

section \<open>Reading positions\<close>

text \<open>\<open>strconv.ParseUint\<close> without its error: zero when the text is no number, the bound when it is too large.\<close>

definition ParseUint0 :: "gostring \<Rightarrow> u64" where
  "ParseUint0 s = (if s \<noteq> [] \<and> list_all is_digit s then word_of_nat (min (undec s) (2 ^ 64 - 1)) else 0)"

definition cursor_of :: "bytes option \<Rightarrow> u32 option" where
  "cursor_of value = (case value of None \<Rightarrow> None | Some v \<Rightarrow> if length v > 0 then Some (ucast (ParseUint0 v)) else None)"

definition GetMessageOfUserCursor :: "'d bolt \<Rightarrow> gostring \<Rightarrow> 'd filestore \<Rightarrow> u32 outcome" where
  "GetMessageOfUserCursor bo uid fs =
     bindR (slotNum uid fs) (\<lambda>slot.
       case cursor_of (fs_get bo slot (getMessageOfUserCursorKey uid) fs) of None \<Rightarrow> Ret 0 | Some offset \<Rightarrow> Ret offset)"

definition UpdateMessageOfUserCursorIfNeed :: "'d bolt \<Rightarrow> gostring \<Rightarrow> u32 \<Rightarrow> 'd filestore \<Rightarrow> 'd filestore outcome" where
  "UpdateMessageOfUserCursorIfNeed bo uid messageSeq fs =
     bindR (slotNum uid fs) (\<lambda>slot.
     bindR (getTopic (fs_cfg fs) (UserQueuePrefix @ uid) ChannelTypePerson (fs_msgs fs)) (\<lambda>(_, _, t, msgs).
       let fs = fs\<lparr>fs_msgs := msgs\<rparr>;
           lastSeq = tp_lastMsgSeq t;
           actOffset = (if messageSeq > lastSeq then lastSeq else messageSeq);
           key = getMessageOfUserCursorKey uid in
       case cursor_of (fs_get bo slot key fs) of
         Some oldOffset \<Rightarrow>
           if actOffset \<le> oldOffset \<and> oldOffset < lastSeq then Ret fs
           else fs_set bo slot key (dec (unat actOffset)) fs
       | None \<Rightarrow> fs_set bo slot key (dec (unat actOffset)) fs))"

lemma cursor_of_dec [simp]: "cursor_of (Some (dec (unat (n :: u32)))) = Some n"
proof -
  have "unat n < 2 ^ LENGTH(32)" by (rule unsigned_less)
  then have "min (unat n) (2 ^ 64 - 1) = unat n" by simp
  moreover have "ucast (ucast n :: u64) = n" by (rule bit_word_eqI) (auto simp: bit_simps)
  ultimately have "ucast (ParseUint0 (dec (unat n))) = n"
    by (simp add: ParseUint0_def unsigned_of_nat take_bit_nat_eq_self)
  then show ?thesis by (simp add: cursor_of_def)
qed

text \<open>What an update leaves as the position.\<close>

definition moved_cursor :: "u32 \<Rightarrow> u32 option \<Rightarrow> u32 \<Rightarrow> u32" where
  "moved_cursor lastSeq old messageSeq =
     (let new = min messageSeq lastSeq in
      case old of None \<Rightarrow> new | Some o' \<Rightarrow> if new \<le> o' \<and> o' < lastSeq then o' else new)"

lemma moved_cursor_le: "moved_cursor lastSeq old messageSeq \<le> lastSeq"
  by (auto simp: moved_cursor_def Let_def split: option.split)

lemma moved_cursor_mono:
  assumes "o' < lastSeq" shows "o' \<le> moved_cursor lastSeq (Some o') messageSeq"
  using assms by (auto simp: moved_cursor_def Let_def min_def split: if_splits)

lemma moved_cursor_back: "m < lastSeq \<Longrightarrow> moved_cursor lastSeq (Some lastSeq) m = m"
  by (simp add: moved_cursor_def)

text \<open>The stored position after an update, and that the others stay.\<close>

lemma getMessageOfUserCursorKey_inj [simp]: "getMessageOfUserCursorKey u = getMessageOfUserCursorKey v \<longleftrightarrow> u = v"
  by (simp add: getMessageOfUserCursorKey_def)

lemma UpdateMessageOfUserCursorIfNeed_ok:
  assumes "bolt_ok bo" and "slotNum uid fs = Ret slot"
    and "getTopic (fs_cfg fs) (UserQueuePrefix @ uid) ChannelTypePerson (fs_msgs fs) = Ret (num, name, t, msgs)"
    and "UpdateMessageOfUserCursorIfNeed bo uid messageSeq fs = Ret fs'"
  shows "cursor_of (fs_get bo slot (getMessageOfUserCursorKey uid) fs') =
     Some (moved_cursor (tp_lastMsgSeq t) (cursor_of (fs_get bo slot (getMessageOfUserCursorKey uid) fs)) messageSeq)"
    and "fs_msgs fs' = msgs"
proof -
  let ?key = "getMessageOfUserCursorKey uid" and ?fs = "fs\<lparr>fs_msgs := msgs\<rparr>"
  let ?act = "if messageSeq > tp_lastMsgSeq t then tp_lastMsgSeq t else messageSeq"
  have act: "?act = min messageSeq (tp_lastMsgSeq t)" by (auto simp: min_def)
  have same: "fs_get bo slot ?key ?fs = fs_get bo slot ?key fs" by (simp add: fs_get_def)
  have set: "cursor_of (fs_get bo slot ?key fs') = Some ?act \<and> fs_msgs fs' = msgs"
    if "fs_set bo slot ?key (dec (unat ?act)) ?fs = Ret fs'"
    using fs_set_get [OF assms(1) that] by simp
  have run: "(case cursor_of (fs_get bo slot ?key fs) of
      Some oldOffset \<Rightarrow> if ?act \<le> oldOffset \<and> oldOffset < tp_lastMsgSeq t then Ret ?fs
         else fs_set bo slot ?key (dec (unat ?act)) ?fs
    | None \<Rightarrow> fs_set bo slot ?key (dec (unat ?act)) ?fs) = Ret fs'"
    using assms(2-4) same by (simp add: UpdateMessageOfUserCursorIfNeed_def Let_def)
  show "cursor_of (fs_get bo slot ?key fs') =
     Some (moved_cursor (tp_lastMsgSeq t) (cursor_of (fs_get bo slot ?key fs)) messageSeq)"
  proof (cases "cursor_of (fs_get bo slot ?key fs)")
    case None
    with run set act show ?thesis by (simp add: moved_cursor_def)
  next
    case (Some o')
    with run set act same show ?thesis by (auto simp: moved_cursor_def split: if_splits)
  qed
  show "fs_msgs fs' = msgs"
    using run set by (auto split: option.splits if_splits)
qed

section \<open>System accounts and blocked addresses\<close>

definition root_get :: "'d bolt \<Rightarrow> bytes \<Rightarrow> 'd filestore \<Rightarrow> bytes option" where
  "root_get bo key fs = bo_get bo (fs_db fs) rootBucketPrefix key"

definition root_put :: "'d bolt \<Rightarrow> bytes \<Rightarrow> bytes \<Rightarrow> 'd filestore \<Rightarrow> 'd filestore outcome" where
  "root_put bo key value fs = with_db (bo_put bo (fs_db fs) rootBucketPrefix key value) fs"

definition AddSystemUIDs :: "'d bolt \<Rightarrow> gostring list \<Rightarrow> 'd filestore \<Rightarrow> 'd filestore outcome" where
  "AddSystemUIDs bo uids fs =
     (let value = root_get bo systemUIDsKey fs; vals = split_names value;
          lst = (if vals = [] then [] else filter (\<lambda>u. u \<notin> set vals) uids @ vals) in
      root_put bo systemUIDsKey (join_on 44 lst) fs)"

definition RemoveSystemUIDs :: "'d bolt \<Rightarrow> gostring list \<Rightarrow> 'd filestore \<Rightarrow> 'd filestore outcome" where
  "RemoveSystemUIDs bo uids fs =
     root_put bo systemUIDsKey (join_on 44 (filter (\<lambda>v. v \<notin> set uids) (split_names (root_get bo systemUIDsKey fs)))) fs"

definition GetSystemUIDs_store :: "'d bolt \<Rightarrow> 'd filestore \<Rightarrow> gostring list" where
  "GetSystemUIDs_store bo fs = split_names (root_get bo systemUIDsKey fs)"

definition AddIPBlacklist :: "'d bolt \<Rightarrow> gostring list \<Rightarrow> 'd filestore \<Rightarrow> 'd filestore outcome" where
  "AddIPBlacklist bo ips fs =
     (let vals = split_names (root_get bo ipBlacklistKey fs);
          lst = (if vals = [] then ips else filter (\<lambda>ip. ip \<notin> set vals) ips @ vals) in
      root_put bo ipBlacklistKey (join_on 44 lst) fs)"

definition RemoveIPBlacklist :: "'d bolt \<Rightarrow> gostring list \<Rightarrow> 'd filestore \<Rightarrow> 'd filestore outcome" where
  "RemoveIPBlacklist bo ips fs =
     root_put bo ipBlacklistKey (join_on 44 (filter (\<lambda>v. v \<notin> set ips) (split_names (root_get bo ipBlacklistKey fs)))) fs"

definition GetIPBlacklist :: "'d bolt \<Rightarrow> 'd filestore \<Rightarrow> gostring list" where
  "GetIPBlacklist bo fs = split_names (root_get bo ipBlacklistKey fs)"

lemma root_put_get:
  assumes "bolt_ok bo" and "root_put bo key v fs = Ret fs'"
  shows "root_get bo key' fs' = (if key' = key then Some v else root_get bo key' fs)"
proof -
  from assms(2) obtain db where db: "bo_put bo (fs_db fs) rootBucketPrefix key v = Ret db" "fs' = fs\<lparr>fs_db := db\<rparr>"
    by (auto simp: root_put_def with_db_def mapR_def bindR_eq_Ret)
  with bolt_put [OF assms(1) db(1)] show ?thesis by (simp add: root_get_def)
qed

text \<open>The first account can never be added: an empty list stays empty.\<close>

lemma AddSystemUIDs_empty:
  assumes "bolt_ok bo" and "GetSystemUIDs_store bo fs = []" and "AddSystemUIDs bo uids fs = Ret fs'"
  shows "GetSystemUIDs_store bo fs' = []"
  using assms root_put_get [OF assms(1), of systemUIDsKey "[]" fs fs']
  by (simp add: AddSystemUIDs_def GetSystemUIDs_store_def split_names_def Let_def)

lemma AddIPBlacklist_ok:
  assumes "bolt_ok bo" and "names_ok (GetIPBlacklist bo fs)" and "names_ok ips" and "AddIPBlacklist bo ips fs = Ret fs'"
  shows "set (GetIPBlacklist bo fs') = set ips \<union> set (GetIPBlacklist bo fs)" and "names_ok (GetIPBlacklist bo fs')"
proof -
  let ?vals = "GetIPBlacklist bo fs"
  let ?lst = "if ?vals = [] then ips else filter (\<lambda>ip. ip \<notin> set ?vals) ips @ ?vals"
  have ok: "names_ok ?lst" using assms(2,3) by simp
  have "root_put bo ipBlacklistKey (join_on 44 ?lst) fs = Ret fs'"
    using assms(4) by (simp only: AddIPBlacklist_def GetIPBlacklist_def Let_def)
  from root_put_get [OF assms(1) this, of ipBlacklistKey] split_names_join [OF ok]
  have "GetIPBlacklist bo fs' = ?lst" by (simp add: GetIPBlacklist_def)
  with ok show "set (GetIPBlacklist bo fs') = set ips \<union> set ?vals" "names_ok (GetIPBlacklist bo fs')" by auto
qed

lemma RemoveIPBlacklist_ok:
  assumes "bolt_ok bo" and "names_ok (GetIPBlacklist bo fs)" and "RemoveIPBlacklist bo ips fs = Ret fs'"
  shows "GetIPBlacklist bo fs' = filter (\<lambda>v. v \<notin> set ips) (GetIPBlacklist bo fs)"
proof -
  have "root_put bo ipBlacklistKey (join_on 44 (filter (\<lambda>v. v \<notin> set ips) (GetIPBlacklist bo fs))) fs = Ret fs'"
    using assms(3) by (simp add: RemoveIPBlacklist_def GetIPBlacklist_def)
  from root_put_get [OF assms(1) this, of ipBlacklistKey] split_names_join [of "filter (\<lambda>v. v \<notin> set ips) (GetIPBlacklist bo fs)"]
    assms(2) show ?thesis by (simp add: GetIPBlacklist_def)
qed

section \<open>Recent conversations\<close>

record Conversation =
  cv_UID :: gostring
  cv_ChannelID :: gostring
  cv_ChannelType :: u8
  cv_UnreadCount :: i64
  cv_Timestamp :: i64
  cv_LastMsgSeq :: u32
  cv_LastClientMsgNo :: gostring
  cv_LastMsgID :: i64
  cv_Version :: i64

text \<open>How \<open>encoding/json\<close> writes and reads the struct: its fields by name, numbers in decimal.\<close>

definition jint :: "int \<Rightarrow> int \<Rightarrow> json \<Rightarrow> int outcome" where
  "jint lo hi j = (case j of JNull \<Rightarrow> Ret 0
     | JNumber s \<Rightarrow> if dec_int (Atoi0 s) = s \<and> lo \<le> Atoi0 s \<and> Atoi0 s \<le> hi then Ret (Atoi0 s)
         else Fail (ErrMsg ''json: cannot unmarshal'')
     | _ \<Rightarrow> Fail (ErrMsg ''json: cannot unmarshal''))"

definition juint :: "nat \<Rightarrow> json \<Rightarrow> int outcome" where "juint w = jint 0 (2 ^ w - 1)"
definition jsint :: "nat \<Rightarrow> json \<Rightarrow> int outcome" where "jsint w = jint (- (2 ^ (w - 1))) (2 ^ (w - 1) - 1)"

definition conv_json :: "Conversation \<Rightarrow> json" where
  "conv_json c = JObject
     [(str ''UID'', JString (cv_UID c)), (str ''ChannelID'', JString (cv_ChannelID c)),
      (str ''ChannelType'', JNumber (dec (unat (cv_ChannelType c)))),
      (str ''UnreadCount'', JNumber (dec_int (sint (cv_UnreadCount c)))),
      (str ''Timestamp'', JNumber (dec_int (sint (cv_Timestamp c)))),
      (str ''LastMsgSeq'', JNumber (dec (unat (cv_LastMsgSeq c)))),
      (str ''LastClientMsgNo'', JString (cv_LastClientMsgNo c)),
      (str ''LastMsgID'', JNumber (dec_int (sint (cv_LastMsgID c)))),
      (str ''Version'', JNumber (dec_int (sint (cv_Version c))))]"

definition conv_of_json :: "json \<Rightarrow> Conversation outcome" where
  "conv_of_json j = (case j of
     JObject kvs \<Rightarrow>
       bindR (jstring (jfield (str ''UID'') kvs)) (\<lambda>uid.
       bindR (jstring (jfield (str ''ChannelID'') kvs)) (\<lambda>cid.
       bindR (juint 8 (jfield (str ''ChannelType'') kvs)) (\<lambda>ct.
       bindR (jsint 64 (jfield (str ''UnreadCount'') kvs)) (\<lambda>un.
       bindR (jsint 64 (jfield (str ''Timestamp'') kvs)) (\<lambda>ts.
       bindR (juint 32 (jfield (str ''LastMsgSeq'') kvs)) (\<lambda>sq.
       bindR (jstring (jfield (str ''LastClientMsgNo'') kvs)) (\<lambda>no.
       bindR (jsint 64 (jfield (str ''LastMsgID'') kvs)) (\<lambda>mid.
       bindR (jsint 64 (jfield (str ''Version'') kvs)) (\<lambda>ver.
       Ret \<lparr>cv_UID = uid, cv_ChannelID = cid, cv_ChannelType = word_of_int ct, cv_UnreadCount = word_of_int un,
            cv_Timestamp = word_of_int ts, cv_LastMsgSeq = word_of_int sq, cv_LastClientMsgNo = no,
            cv_LastMsgID = word_of_int mid, cv_Version = word_of_int ver\<rparr>)))))))))
   | _ \<Rightarrow> Fail (ErrMsg ''json: cannot unmarshal''))"

fun convs_of_json :: "json list \<Rightarrow> Conversation list outcome" where
  "convs_of_json [] = Ret []"
| "convs_of_json (j # js) = bindR (conv_of_json j) (\<lambda>c. mapR ((#) c) (convs_of_json js))"

definition conversation_key :: "gostring \<Rightarrow> gostring" where
  "conversation_key uid = str ''conversation:'' @ uid"

definition GetConversations :: "'d bolt \<Rightarrow> json_codec \<Rightarrow> gostring \<Rightarrow> 'd filestore \<Rightarrow> Conversation list outcome" where
  "GetConversations bo js uid fs =
     bindR (slotNum uid fs) (\<lambda>slot.
       case fs_get bo slot (conversation_key uid) fs of
         None \<Rightarrow> Ret []
       | Some value \<Rightarrow>
           if length value > 0 then bindR (js_decode js value) (\<lambda>j.
             case j of JArray l \<Rightarrow> convs_of_json l | JNull \<Rightarrow> Ret [] | _ \<Rightarrow> Fail (ErrMsg ''json: cannot unmarshal''))
           else Ret [])"

definition same_channel :: "Conversation \<Rightarrow> Conversation \<Rightarrow> bool" where
  "same_channel c d \<longleftrightarrow> cv_ChannelID c = cv_ChannelID d \<and> cv_ChannelType c = cv_ChannelType d"

text \<open>\<open>idx\<close> of the first conversation of the same channel, if there is one.\<close>

fun index_where :: "('a \<Rightarrow> bool) \<Rightarrow> 'a list \<Rightarrow> nat option" where
  "index_where P [] = None"
| "index_where P (x # xs) = (if P x then Some 0 else map_option Suc (index_where P xs))"

text \<open>The merge looks for the channel among the old conversations only.\<close>

definition merge_one :: "Conversation list \<Rightarrow> Conversation \<Rightarrow> Conversation list \<Rightarrow> Conversation list" where
  "merge_one old u new = (case index_where (same_channel u) old of None \<Rightarrow> new @ [u] | Some i \<Rightarrow> new[i := u])"

definition merge_conversations :: "Conversation list \<Rightarrow> Conversation list \<Rightarrow> Conversation list" where
  "merge_conversations old us = fold (merge_one old) us old"

definition getNewConversations ::
    "'d bolt \<Rightarrow> json_codec \<Rightarrow> gostring \<Rightarrow> Conversation list \<Rightarrow> 'd filestore \<Rightarrow> Conversation list outcome" where
  "getNewConversations bo js uid us fs = mapR (\<lambda>old. merge_conversations old us) (GetConversations bo js uid fs)"

definition put_conversations :: "'d bolt \<Rightarrow> json_codec \<Rightarrow> gostring \<Rightarrow> Conversation list \<Rightarrow> 'd filestore \<Rightarrow> 'd filestore outcome" where
  "put_conversations bo js uid cs fs =
     bindR (slotNum uid fs) (\<lambda>slot. fs_set bo slot (conversation_key uid) (js_encode js (JArray (map conv_json cs))) fs)"

definition AddOrUpdateConversations ::
    "'d bolt \<Rightarrow> json_codec \<Rightarrow> gostring \<Rightarrow> Conversation list \<Rightarrow> 'd filestore \<Rightarrow> 'd filestore outcome" where
  "AddOrUpdateConversations bo js uid us fs =
     bindR (getNewConversations bo js uid us fs) (\<lambda>cs. put_conversations bo js uid cs fs)"

definition GetConversation ::
    "'d bolt \<Rightarrow> json_codec \<Rightarrow> gostring \<Rightarrow> gostring \<Rightarrow> u8 \<Rightarrow> 'd filestore \<Rightarrow> Conversation option outcome" where
  "GetConversation bo js uid channelID channelType fs =
     mapR (find (\<lambda>c. cv_ChannelID c = channelID \<and> cv_ChannelType c = channelType)) (GetConversations bo js uid fs)"

definition DeleteConversation ::
    "'d bolt \<Rightarrow> json_codec \<Rightarrow> gostring \<Rightarrow> gostring \<Rightarrow> u8 \<Rightarrow> 'd filestore \<Rightarrow> 'd filestore outcome" where
  "DeleteConversation bo js uid channelID channelType fs =
     bindR (GetConversations bo js uid fs) (\<lambda>cs.
       put_conversations bo js uid (filter (\<lambda>c. \<not> (cv_ChannelID c = channelID \<and> cv_ChannelType c = channelType)) cs) fs)"

lemma Atoi0_dec [simp]: "Atoi0 (dec n) = int n"
  by (simp add: Atoi0_def)

lemma Atoi0_dec_int [simp]: "Atoi0 (dec_int i) = i"
  by (simp add: dec_int_def Atoi0_def)

lemma dec_int_int [simp]: "dec_int (int n) = dec n"
  by (simp add: dec_int_def)

lemma juint_dec: "n < 2 ^ w \<Longrightarrow> juint w (JNumber (dec n)) = Ret (int n)"
  by (simp add: juint_def jint_def flip: of_nat_power)

lemma juint_word [simp]:
  "juint 8 (JNumber (dec (unat (a :: u8)))) = Ret (uint a)" "juint 32 (JNumber (dec (unat (b :: u32)))) = Ret (uint b)"
proof -
  have "unat a < 2 ^ LENGTH(8)" "unat b < 2 ^ LENGTH(32)" by (rule unsigned_less)+
  then show "juint 8 (JNumber (dec (unat a))) = Ret (uint a)" "juint 32 (JNumber (dec (unat b))) = Ret (uint b)"
    by (simp_all add: juint_dec)
qed

lemma jsint_word [simp]: "jsint 64 (JNumber (dec_int (sint (a :: i64)))) = Ret (sint a)"
  using sint_greater_eq [of a] sint_less [of a] by (simp add: jsint_def jint_def)

lemma str_eq_iff [simp]: "str s = str t \<longleftrightarrow> map (of_char :: char \<Rightarrow> byte) s = map of_char t"
  by (simp add: str_def)

lemma conv_json_roundtrip [simp]: "conv_of_json (conv_json c) = Ret c"
  by (cases c) (simp add: conv_of_json_def conv_json_def jfield_def jstring_def)

lemma convs_json_roundtrip [simp]: "convs_of_json (map conv_json cs) = Ret cs"
  by (induction cs) (simp_all add: mapR_def)

definition conv_plain :: "Conversation \<Rightarrow> bool" where
  "conv_plain c \<longleftrightarrow> plain (cv_UID c) \<and> plain (cv_ChannelID c) \<and> plain (cv_LastClientMsgNo c)"

lemma dec_int_literal [simp]:
  "dec_int i = dec (undec (dec_int i)) \<or> dec_int i = 45 # dec (undec (tl (dec_int i)))"
  by (simp add: dec_int_def)

lemma json_plain_conv [simp]: "conv_plain c \<Longrightarrow> json_plain (conv_json c)"
  by (simp add: conv_plain_def conv_json_def plain_def str_def)

lemma put_conversations_get:
  assumes "bolt_ok bo" and "json_ok js" and "list_all conv_plain cs" and "put_conversations bo js uid cs fs = Ret fs'"
  shows "GetConversations bo js uid fs' = Ret cs"
proof -
  from assms(4) obtain slot where s: "slotNum uid fs = Ret slot"
    "fs_set bo slot (conversation_key uid) (js_encode js (JArray (map conv_json cs))) fs = Ret fs'"
    by (auto simp: put_conversations_def bindR_eq_Ret)
  have "json_plain (JArray (map conv_json cs))" using assms(3) by (simp add: list_all_iff)
  with assms(2) have j: "js_decode js (js_encode js (JArray (map conv_json cs))) = Ret (JArray (map conv_json cs))"
    "js_encode js (JArray (map conv_json cs)) \<noteq> []"
    unfolding json_ok_def by blast+
  from fs_set_get [OF assms(1) s(2)] s(1) j show ?thesis
    by (simp add: GetConversations_def slotNum_def)
qed

text \<open>What the merge leaves for each channel.\<close>

definition conv_channel :: "Conversation \<Rightarrow> gostring \<times> u8" where
  "conv_channel c = (cv_ChannelID c, cv_ChannelType c)"

definition channel_conv :: "gostring \<times> u8 \<Rightarrow> Conversation list \<Rightarrow> Conversation option" where
  "channel_conv k = find (\<lambda>c. conv_channel c = k)"

lemma same_channel_iff: "same_channel c d \<longleftrightarrow> conv_channel c = conv_channel d"
  by (simp add: same_channel_def conv_channel_def)

lemma index_where_Some: "index_where P xs = Some i \<Longrightarrow> i < length xs \<and> P (xs ! i)"
  by (induction xs arbitrary: i) (auto split: if_splits simp: nth_Cons split: nat.split)

lemma index_where_None: "index_where P xs = None \<longleftrightarrow> (\<forall>x \<in> set xs. \<not> P x)"
  by (induction xs) auto

lemma channel_conv_distinct:
  assumes "distinct (map conv_channel cs)"
  shows "channel_conv k cs = Some c \<longleftrightarrow> c \<in> set cs \<and> conv_channel c = k"
  using assms by (induction cs) (auto simp: channel_conv_def image_iff)

lemma channel_conv_None: "channel_conv k cs = None \<longleftrightarrow> k \<notin> set (map conv_channel cs)"
  by (induction cs) (auto simp: channel_conv_def image_iff)

lemma channel_conv_append: "channel_conv k (xs @ ys) = (case channel_conv k xs of None \<Rightarrow> channel_conv k ys | Some c \<Rightarrow> Some c)"
  by (induction xs) (auto simp: channel_conv_def image_iff)

lemma channel_conv_update:
  assumes "i < length xs" and "conv_channel (xs ! i) = conv_channel u" and "distinct (map conv_channel xs)"
  shows "channel_conv k (xs[i := u]) = (if k = conv_channel u then Some u else channel_conv k xs)"
  using assms
proof (induction xs arbitrary: i)
  case (Cons x xs)
  show ?case
  proof (cases i)
    case 0
    with Cons.prems(2) have "conv_channel x = conv_channel u" by simp
    with 0 show ?thesis by (simp add: channel_conv_def)
  next
    case (Suc j)
    with Cons.prems have j: "j < length xs" "conv_channel (xs ! j) = conv_channel u" "distinct (map conv_channel xs)"
      and "conv_channel x \<notin> conv_channel ` set xs" by simp_all
    then have "conv_channel x \<noteq> conv_channel u" by (metis image_eqI nth_mem)
    with Cons.IH [OF j] show ?thesis by (auto simp: channel_conv_def Suc)
  qed
qed simp

text \<open>
  The merge keeps the places of the old conversations and appends the rest: a channel has the last
  of its updates, or what it had.
\<close>

lemma merge_fold:
  assumes "distinct (map conv_channel old)" and "map conv_channel xs = map conv_channel old"
  shows "\<exists>xs'. fold (merge_one old) us (xs @ ys) = xs' @ ys @ filter (\<lambda>u. conv_channel u \<notin> set (map conv_channel old)) us \<and>
    map conv_channel xs' = map conv_channel old \<and>
    (\<forall>k \<in> set (map conv_channel old). channel_conv k xs' =
       (case channel_conv k (rev us) of Some u \<Rightarrow> Some u | None \<Rightarrow> channel_conv k xs))"
  using assms(2)
proof (induction us arbitrary: xs ys)
  case Nil
  then show ?case by (auto simp: channel_conv_def image_iff)
next
  case (Cons u us)
  show ?case
  proof (cases "index_where (same_channel u) old")
    case None
    then have new: "conv_channel u \<notin> set (map conv_channel old)" by (auto simp: index_where_None same_channel_iff)
    have one: "merge_one old u (xs @ ys) = xs @ (ys @ [u])" using None by (simp add: merge_one_def)
    have at: "channel_conv k [u] = None" if "k \<in> set (map conv_channel old)" for k
    proof -
      have "conv_channel u \<noteq> k" using new that by blast
      then show ?thesis by (simp add: channel_conv_def)
    qed
    from Cons.IH [OF Cons.prems, of "ys @ [u]"] obtain xs' where
      x: "fold (merge_one old) us (xs @ ys @ [u]) = xs' @ (ys @ [u]) @ filter (\<lambda>u. conv_channel u \<notin> set (map conv_channel old)) us"
        "map conv_channel xs' = map conv_channel old"
        "\<And>k. k \<in> set (map conv_channel old) \<Longrightarrow> channel_conv k xs' =
           (case channel_conv k (rev us) of Some u \<Rightarrow> Some u | None \<Rightarrow> channel_conv k xs)" by blast
    show ?thesis
    proof (intro exI [of _ xs'] conjI ballI)
      show "fold (merge_one old) (u # us) (xs @ ys) = xs' @ ys @ filter (\<lambda>u. conv_channel u \<notin> set (map conv_channel old)) (u # us)"
        using one new x(1) by simp
      show "channel_conv k xs' = (case channel_conv k (rev (u # us)) of Some u \<Rightarrow> Some u | None \<Rightarrow> channel_conv k xs)"
        if "k \<in> set (map conv_channel old)" for k
        using x(3) [OF that] at [OF that] by (simp add: channel_conv_append split: option.split)
    qed (rule x(2))
  next
    case (Some i)
    from index_where_Some [OF Some] have i: "i < length old" "conv_channel (old ! i) = conv_channel u"
      by (simp_all add: same_channel_iff)
    have len: "length xs = length old" using Cons.prems by (metis length_map)
    have nth: "conv_channel (xs ! i) = conv_channel u" using Cons.prems i len by (metis nth_map)
    let ?xs = "xs[i := u]"
    have keep: "map conv_channel ?xs = map conv_channel old"
      using Cons.prems i len by (simp add: map_update) (metis list_update_id nth_map)
    have one: "merge_one old u (xs @ ys) = ?xs @ ys" using Some i(1) len by (simp add: merge_one_def list_update_append)
    have old: "conv_channel u \<in> set (map conv_channel old)" using i by (metis length_map nth_map nth_mem)
    have upd: "channel_conv k ?xs = (case channel_conv k [u] of Some u \<Rightarrow> Some u | None \<Rightarrow> channel_conv k xs)" for k
      using channel_conv_update [of i xs u k] i len nth assms(1) Cons.prems by (auto simp: channel_conv_def image_iff)
    from Cons.IH [OF keep, of ys] obtain xs' where
      x: "fold (merge_one old) us (?xs @ ys) = xs' @ ys @ filter (\<lambda>u. conv_channel u \<notin> set (map conv_channel old)) us"
        "map conv_channel xs' = map conv_channel old"
        "\<And>k. k \<in> set (map conv_channel old) \<Longrightarrow> channel_conv k xs' =
           (case channel_conv k (rev us) of Some u \<Rightarrow> Some u | None \<Rightarrow> channel_conv k ?xs)" by blast
    show ?thesis
    proof (intro exI [of _ xs'] conjI ballI)
      show "fold (merge_one old) (u # us) (xs @ ys) = xs' @ ys @ filter (\<lambda>u. conv_channel u \<notin> set (map conv_channel old)) (u # us)"
        using one old x(1) by simp
      show "channel_conv k xs' = (case channel_conv k (rev (u # us)) of Some u \<Rightarrow> Some u | None \<Rightarrow> channel_conv k xs)"
        if "k \<in> set (map conv_channel old)" for k
        using x(3) [OF that] upd [of k] by (simp add: channel_conv_append split: option.split)
    qed (rule x(2))
  qed
qed

lemma channel_conv_rev: "distinct (map conv_channel us) \<Longrightarrow> channel_conv k (rev us) = channel_conv k us"
proof -
  assume d: "distinct (map conv_channel us)"
  then have "distinct (map conv_channel (rev us))" by (simp add: rev_map [symmetric])
  from channel_conv_distinct [OF this] channel_conv_distinct [OF d]
  have "channel_conv k (rev us) = Some c \<longleftrightarrow> channel_conv k us = Some c" for c by simp
  then show ?thesis by (metis not_Some_eq)
qed

lemma channel_conv_filter:
  "channel_conv k (filter (\<lambda>u. conv_channel u \<notin> K) us) = (if k \<in> K then None else channel_conv k us)"
  by (induction us) (auto simp: channel_conv_def)

lemma merge_conversations_ok:
  assumes "distinct (map conv_channel old)" and "distinct (map conv_channel us)"
  shows "channel_conv k (merge_conversations old us) =
      (case channel_conv k us of Some u \<Rightarrow> Some u | None \<Rightarrow> channel_conv k old)" (is ?conv)
    and "distinct (map conv_channel (merge_conversations old us))" (is ?dist)
proof -
  let ?K = "set (map conv_channel old)"
  obtain xs' where x: "merge_conversations old us = xs' @ filter (\<lambda>u. conv_channel u \<notin> ?K) us"
      "map conv_channel xs' = map conv_channel old"
      "\<And>k. k \<in> ?K \<Longrightarrow> channel_conv k xs' = (case channel_conv k us of Some u \<Rightarrow> Some u | None \<Rightarrow> channel_conv k old)"
    using merge_fold [OF assms(1) refl, of us "[]"]
    unfolding merge_conversations_def channel_conv_rev [OF assms(2)] append_Nil append_Nil2 by blast
  have out: "channel_conv k xs' = None \<and> channel_conv k old = None" if "k \<notin> ?K"
    using that x(2) unfolding channel_conv_None by metis
  show ?conv
  proof (cases "k \<in> ?K")
    case True
    then have "channel_conv k old \<noteq> None" by (simp add: channel_conv_None)
    with x(1) x(3) [OF True] True show ?thesis
      by (auto simp: channel_conv_append channel_conv_filter split: option.splits)
  next
    case False
    with x(1) out show ?thesis by (simp add: channel_conv_append channel_conv_filter split: option.split)
  qed
  have "distinct (map conv_channel (filter (\<lambda>u. conv_channel u \<notin> ?K) us))"
    using assms(2) by (simp add: distinct_map_filter)
  moreover have "set (map conv_channel xs') = ?K" using x(2) by metis
  moreover have "distinct (map conv_channel xs')" using assms(1) x(2) by metis
  ultimately show ?dist using x(1) by auto
qed

text \<open>Two updates of a channel that the store does not have yet are both appended.\<close>

lemma merge_conversations_repeats: "merge_conversations [] [u, u'] = [u, u']"
  by (simp add: merge_conversations_def merge_one_def)

text \<open>The conversations of a user after an update and after a deletion.\<close>

lemma AddOrUpdateConversations_ok:
  assumes "bolt_ok bo" and "json_ok js" and "GetConversations bo js uid fs = Ret old"
    and "list_all conv_plain old" and "list_all conv_plain us"
    and "distinct (map conv_channel old)" and "distinct (map conv_channel us)"
    and "AddOrUpdateConversations bo js uid us fs = Ret fs'"
  shows "\<exists>cs. GetConversations bo js uid fs' = Ret cs \<and> distinct (map conv_channel cs) \<and> list_all conv_plain cs \<and>
    (\<forall>k. channel_conv k cs = (case channel_conv k us of Some u \<Rightarrow> Some u | None \<Rightarrow> channel_conv k old))"
proof -
  let ?cs = "merge_conversations old us"
  have ok: "distinct (map conv_channel ?cs)"
    "\<And>k. channel_conv k ?cs = (case channel_conv k us of Some u \<Rightarrow> Some u | None \<Rightarrow> channel_conv k old)"
    using merge_conversations_ok [OF assms(6,7)] by blast+
  have "conv_plain c" if "c \<in> set ?cs" for c
  proof -
    have "channel_conv (conv_channel c) ?cs = Some c" using that channel_conv_distinct [OF ok(1)] by simp
    with ok(2) [of "conv_channel c"] have "channel_conv (conv_channel c) us = Some c \<or> channel_conv (conv_channel c) old = Some c"
      by (auto split: option.splits)
    then have "c \<in> set us \<or> c \<in> set old" using channel_conv_distinct [OF assms(6)] channel_conv_distinct [OF assms(7)] by blast
    with assms(4,5) show ?thesis by (auto simp: list_all_iff)
  qed
  then have plain: "list_all conv_plain ?cs" by (simp add: list_all_iff)
  have "put_conversations bo js uid ?cs fs = Ret fs'"
    using assms(3,8) by (simp add: AddOrUpdateConversations_def getNewConversations_def mapR_def)
  from put_conversations_get [OF assms(1,2) plain this] ok plain show ?thesis by blast
qed

lemma DeleteConversation_ok:
  assumes "bolt_ok bo" and "json_ok js" and "GetConversations bo js uid fs = Ret old" and "list_all conv_plain old"
    and "DeleteConversation bo js uid channelID channelType fs = Ret fs'"
  shows "GetConversations bo js uid fs' = Ret (filter (\<lambda>c. conv_channel c \<noteq> (channelID, channelType)) old)"
proof -
  have eq: "(\<lambda>c. \<not> (cv_ChannelID c = channelID \<and> cv_ChannelType c = channelType)) =
      (\<lambda>c. conv_channel c \<noteq> (channelID, channelType))" by (simp add: conv_channel_def fun_eq_iff)
  have "put_conversations bo js uid (filter (\<lambda>c. conv_channel c \<noteq> (channelID, channelType)) old) fs = Ret fs'"
    using assms(3,5) unfolding DeleteConversation_def eq by simp
  then show ?thesis
    by (rule put_conversations_get [OF assms(1,2), rotated]) (use assms(4) in \<open>auto simp: list_all_iff\<close>)
qed

section \<open>The queue of the webhook\<close>

definition itob :: "u64 \<Rightarrow> bytes" where
  "itob v = WriteUint64 v"

text \<open>An entry that cannot be put is reported and skipped; its number is spent.\<close>

fun append_entries :: "'d bolt \<Rightarrow> message list \<Rightarrow> 'd \<Rightarrow> 'd outcome" where
  "append_entries bo [] db = Ret db"
| "append_entries bo (m # ms) db =
     bindR (bo_next bo db notifyQueuePrefix) (\<lambda>(seq, db).
       case bo_put bo db notifyQueuePrefix (itob seq) (Message_Encode m) of
         Ret db' \<Rightarrow> append_entries bo ms db' | Fail _ \<Rightarrow> append_entries bo ms db | Panic \<Rightarrow> Panic)"

definition AppendMessageOfNotifyQueue :: "'d bolt \<Rightarrow> message list \<Rightarrow> 'd filestore \<Rightarrow> 'd filestore outcome" where
  "AppendMessageOfNotifyQueue bo messages fs = with_db (append_entries bo messages (fs_db fs)) fs"

text \<open>
  The cursor of a bucket may skip entries when the bucket changes under it, as the deletions here
  do: the entries that it returns are an argument.
\<close>

fun remove_entries :: "'d bolt \<Rightarrow> i64 list \<Rightarrow> (bytes \<times> bytes) list \<Rightarrow> 'd \<Rightarrow> 'd outcome" where
  "remove_entries bo ids [] db = Ret db"
| "remove_entries bo ids ((k, v) # es) db =
     bindR (Message_Decode v) (\<lambda>m.
       if GetMessageID m \<in> set ids
       then bindR (bo_delete bo db notifyQueuePrefix k) (\<lambda>db. remove_entries bo ids es db)
       else remove_entries bo ids es db)"

definition RemoveMessagesOfNotifyQueue ::
    "'d bolt \<Rightarrow> (bytes \<times> bytes) list \<Rightarrow> i64 list \<Rightarrow> 'd filestore \<Rightarrow> 'd filestore outcome" where
  "RemoveMessagesOfNotifyQueue bo cursor messageIDs fs =
     (if length messageIDs = 0 then Ret fs else with_db (remove_entries bo messageIDs cursor (fs_db fs)) fs)"

fun first_messages :: "nat \<Rightarrow> (bytes \<times> bytes) list \<Rightarrow> message list outcome" where
  "first_messages num [] = Ret []"
| "first_messages num ((k, v) # es) =
     (if num = 0 then Ret []
      else case Message_Decode v of
        Ret m \<Rightarrow> mapR ((#) m) (first_messages (num - 1) es)
      | Fail _ \<Rightarrow> first_messages num es
      | Panic \<Rightarrow> Panic)"

definition GetMessagesOfNotifyQueue :: "'d bolt \<Rightarrow> nat \<Rightarrow> 'd filestore \<Rightarrow> message list outcome" where
  "GetMessagesOfNotifyQueue bo num fs = first_messages num (bo_items bo (fs_db fs) notifyQueuePrefix)"

text \<open>What is taken are the first messages that decode; what is removed has one of the identifiers.\<close>

lemma first_messages_prefix:
  assumes "first_messages num es = Ret ms"
  shows "\<exists>rest. [m. Ret m \<leftarrow> map (\<lambda>e. Message_Decode (snd e)) es] = ms @ rest \<and> length ms \<le> num \<and>
    (length ms < num \<longrightarrow> rest = [])"
  using assms
proof (induction num es arbitrary: ms rule: first_messages.induct)
  case (2 num k v es)
  then show ?case
    by (cases "Message_Decode v") (fastforce simp: mapR_def bindR_eq_Ret split: if_splits)+
qed simp

lemma remove_entries_get:
  assumes "bolt_ok bo" and "remove_entries bo ids es db = Ret db'"
  shows "bo_get bo db' notifyQueuePrefix k =
    (if \<exists>v m. (k, v) \<in> set es \<and> Message_Decode v = Ret m \<and> GetMessageID m \<in> set ids then None
     else bo_get bo db notifyQueuePrefix k)"
  using assms(2)
proof (induction es arbitrary: db)
  case (Cons e es)
  obtain k' v where e: "e = (k', v)" by fastforce
  with Cons.prems obtain m where m: "Message_Decode v = Ret m" by (auto simp: bindR_eq_Ret)
  show ?case
  proof (cases "GetMessageID m \<in> set ids")
    case True
    with Cons.prems m e obtain db1 where d: "bo_delete bo db notifyQueuePrefix k' = Ret db1" "remove_entries bo ids es db1 = Ret db'"
      by (auto simp: bindR_eq_Ret)
    from Cons.IH [OF d(2)] bolt_delete [OF assms(1) d(1)] m True e show ?thesis by auto
  next
    case False
    with Cons.prems m e have "remove_entries bo ids es db = Ret db'" by simp
    from Cons.IH [OF this] m False e show ?thesis by auto
  qed
qed simp

section \<open>A database\<close>

text \<open>A database that keeps its laws: an association list and a counter.\<close>

type_synonym sample_db = "((gostring \<times> bytes) \<times> bytes) list \<times> u64"

definition sample_bolt :: "sample_db bolt" where
  "sample_bolt =
    \<lparr>bo_get = (\<lambda>db b k. map_of (fst db) (b, k)),
     bo_put = (\<lambda>db b k v. Ret (AList.update (b, k) v (fst db), snd db)),
     bo_delete = (\<lambda>db b k. Ret (AList.delete (b, k) (fst db), snd db)),
     bo_next = (\<lambda>db b. if snd db = - 1 then Fail (ErrMsg ''no number is left'') else Ret (snd db + 1, (fst db, snd db + 1))),
     bo_items = (\<lambda>db b. map (\<lambda>e. (snd (fst e), snd e)) (filter (\<lambda>e. fst (fst e) = b) (AList.clearjunk (fst db))))\<rparr>"

lemma sample_items:
  fixes es :: "((gostring \<times> bytes) \<times> bytes) list"
  assumes "distinct (map fst es)"
  shows "distinct (map fst (map (\<lambda>e. (snd (fst e), snd e)) (filter (\<lambda>e. fst (fst e) = b) es)))" (is ?d)
    and "(k, v) \<in> set (map (\<lambda>e. (snd (fst e), snd e)) (filter (\<lambda>e. fst (fst e) = b) es)) \<longleftrightarrow> map_of es (b, k) = Some v" (is ?m)
proof -
  show ?d using assms
  proof (induction es)
    case (Cons e es)
    then show ?case by (cases e; cases "fst e") (auto simp: image_iff)
  qed simp
  have "(k, v) \<in> set (map (\<lambda>e. (snd (fst e), snd e)) (filter (\<lambda>e. fst (fst e) = b) es)) \<longleftrightarrow> ((b, k), v) \<in> set es"
    by force
  then show ?m using assms by (simp only: map_of_eq_Some_iff)
qed

lemma sample_bolt_ok: "bolt_ok sample_bolt"
proof -
  have items: "distinct (map fst (bo_items sample_bolt db b)) \<and>
      (\<forall>k v. (k, v) \<in> set (bo_items sample_bolt db b) \<longleftrightarrow> bo_get sample_bolt db b k = Some v)" for db b
    using sample_items [OF distinct_clearjunk [of "fst db"]] by (simp add: sample_bolt_def map_of_clearjunk)
  have put: "bo_get sample_bolt db' b' k' = (if b' = b \<and> k' = k then Some v else bo_get sample_bolt db b' k')"
    if "bo_put sample_bolt db b k v = Ret db'" for db b k v db' b' k'
    using that by (auto simp: sample_bolt_def AList.update_conv')
  have del: "bo_get sample_bolt db' b' k' = (if b' = b \<and> k' = k then None else bo_get sample_bolt db b' k')"
    if "bo_delete sample_bolt db b k = Ret db'" for db b k db' b' k'
    using that by (auto simp: sample_bolt_def AList.delete_conv')
  have nxt: "bo_get sample_bolt db' b' k' = bo_get sample_bolt db b' k'" if "bo_next sample_bolt db b = Ret (n, db')" for db b n db' b' k'
    using that by (auto simp: sample_bolt_def split: if_splits)
  show ?thesis unfolding bolt_ok_def
    by (intro conjI allI impI; (erule put del nxt | rule items [THEN conjunct1] | rule items [THEN conjunct2, rule_format]))
qed

section \<open>Tokens and channels read back\<close>

lemma numbered_key_inj:
  "p @ s @ str ''-'' @ dec m = p @ t @ str ''-'' @ dec n \<longleftrightarrow> s = t \<and> m = n"
  using last_sep_unique [of s 45 "dec m" t "dec n"] by (auto simp: str_def)

lemma getUserTokenKey_inj [simp]: "getUserTokenKey u d = getUserTokenKey v e \<longleftrightarrow> u = v \<and> d = e"
  unfolding getUserTokenKey_def numbered_key_inj by (simp add: word_unat_eq_iff)

lemma getChannelKey_inj [simp]: "getChannelKey u d = getChannelKey v e \<longleftrightarrow> u = v \<and> d = e"
  unfolding getChannelKey_def numbered_key_inj by (simp add: word_unat_eq_iff)

lemma UpdateUserToken_ok:
  assumes "bolt_ok bo" and "json_ok js" and "plain token" and "UpdateUserToken bo js uid flag level token fs = Ret fs'"
  shows "GetUserToken bo js uid' flag' fs' =
    (if uid' = uid \<and> flag' = flag then Ret (token, level) else GetUserToken bo js uid' flag' fs)"
proof -
  let ?j = "JObject [(str ''device_level'', JString (dec (unat level))), (str ''token'', JString token)]"
  from assms(4) obtain slot where s: "slotNum uid fs = Ret slot"
    "fs_set bo slot (getUserTokenKey uid flag) (js_encode js ?j) fs = Ret fs'"
    by (auto simp: UpdateUserToken_def bindR_eq_Ret)
  have "json_plain ?j" using assms(3) by (simp add: str_def plain_def [of "[_]"]) (simp add: plain_def)
  with assms(2) have j: "js_decode js (js_encode js ?j) = Ret ?j" "js_encode js ?j \<noteq> []"
    unfolding json_ok_def by blast+
  note g = fs_set_get [OF assms(1) s(2)]
  have slot: "slotNum uid' fs' = slotNum uid' fs" using g(2) by (simp add: slotNum_def)
  show ?thesis
  proof (cases "uid' = uid \<and> flag' = flag")
    case True
    have tok: "jfield (str ''token'') [(str ''device_level'', JString (dec (unat level))), (str ''token'', JString token)] = JString token"
      "jfield (str ''device_level'') [(str ''device_level'', JString (dec (unat level))), (str ''token'', JString token)] = JString (dec (unat level))"
      by (simp_all add: jfield_def)
    show ?thesis using True s(1) slot g(1) j tok by (simp add: GetUserToken_def jstring_def)
  next
    case False
    then show ?thesis using slot g(1) by (auto simp: GetUserToken_def intro!: arg_cong2 [where f = bindR])
  qed
qed

lemma AddOrUpdateChannel_ok:
  assumes "bolt_ok bo" and "json_ok js" and "AddOrUpdateChannel bo js c fs = Ret fs'"
  shows "fs_GetChannel bo js cid t fs' =
    (if cid = ci_ChannelID c \<and> t = ci_ChannelType c then Ret (Some c) else fs_GetChannel bo js cid t fs)"
proof -
  from assms(3) obtain slot where s: "slotNumForChannel (ci_ChannelID c) (ci_ChannelType c) fs = Ret slot"
    "fs_set bo slot (getChannelKey (ci_ChannelID c) (ci_ChannelType c)) (js_encode js (ToMap c)) fs = Ret fs'"
    by (auto simp: AddOrUpdateChannel_def bindR_eq_Ret)
  have "json_plain (ToMap c)" by (simp add: ToMap_def plain_def str_def)
  with assms(2) have j: "js_decode js (js_encode js (ToMap c)) = Ret (ToMap c)"
    unfolding json_ok_def by blast
  note g = fs_set_get [OF assms(1) s(2)]
  have slot: "slotNumForChannel cid t fs' = slotNumForChannel cid t fs" using g(2) by (simp add: slotNumForChannel_def)
  have m: "from_map [(str ''ban'', JBool (ci_Ban c)), (str ''large'', JBool (ci_Large c))]
      (NewChannelInfo (ci_ChannelID c) (ci_ChannelType c)) = Ret c"
    by (cases c) (simp add: from_map_def NewChannelInfo_def jfield_def jbool_def)
  show ?thesis
  proof (cases "cid = ci_ChannelID c \<and> t = ci_ChannelType c")
    case True
    then show ?thesis using s(1) slot g(1) j m by (simp add: fs_GetChannel_def ToMap_def mapR_def)
  next
    case False
    then show ?thesis using slot g(1) by (auto simp: fs_GetChannel_def intro!: arg_cong2 [where f = bindR])
  qed
qed

end
