(* ===== verification/ChannelStore.thy ===== *)
theory ChannelStore
  imports Channels StoreTables
begin

text \<open>
  Channels over the server's own store: the loader that \<^verbatim>\<open>pkg/okstore/filestore.go\<close> gives the
  channel manager, the operations of \<^verbatim>\<open>channel_manager.go\<close> and
  \<^verbatim>\<open>systemuid_manager.go\<close> that write to it, and what follows for a channel that is loaded
  after its lists were changed. The search for a topic's subscribers ends, because its parent is never
  a topic.
\<close>

section \<open>The store as a loader\<close>

definition store_loader :: "'d bolt \<Rightarrow> json_codec \<Rightarrow> 'd filestore \<Rightarrow> loader" where
  "store_loader bo js fs =
     \<lparr>ld_ChannelInfo = (\<lambda>cid t. fs_GetChannel bo js cid t fs),
      ld_Subscribers = (\<lambda>cid t. GetSubscribers bo cid t fs),
      ld_Denylist = (\<lambda>cid t. GetDenylist bo cid t fs),
      ld_Allowlist = (\<lambda>cid t. GetAllowlist bo cid t fs),
      ld_SystemUIDs = Ret (GetSystemUIDs_store bo fs)\<rparr>"

lemma from_map_id: "from_map kvs c = Ret c' \<Longrightarrow> ci_ChannelID c' = ci_ChannelID c \<and> ci_ChannelType c' = ci_ChannelType c"
  by (auto simp: from_map_def bindR_eq_Ret)

lemma fs_GetChannel_id:
  assumes "fs_GetChannel bo js cid t fs = Ret (Some info)"
  shows "ci_ChannelID info = cid" and "ci_ChannelType info = t"
proof -
  from assms obtain slot v j where
    j: "fs_get bo slot (getChannelKey cid t) fs = Some v" "js_decode js v = Ret j"
      "(case j of JObject kvs \<Rightarrow> mapR Some (from_map kvs (NewChannelInfo cid t))
        | JNull \<Rightarrow> Ret (Some (NewChannelInfo cid t)) | _ \<Rightarrow> Fail (ErrMsg ''json: cannot unmarshal'')) = Ret (Some info)"
    by (auto simp: fs_GetChannel_def bindR_eq_Ret split: option.split_asm)
  show "ci_ChannelID info = cid" "ci_ChannelType info = t"
    using j(3) by (cases j; auto simp: mapR_def bindR_eq_Ret NewChannelInfo_def dest!: from_map_id)+
qed

lemma store_loader_ok: "loader_ok (store_loader bo js fs)"
  by (simp add: loader_ok_def store_loader_def fs_GetChannel_id)

section \<open>Changing the store\<close>

definition manager_AddSystemUIDs ::
    "'d bolt \<Rightarrow> gostring list \<Rightarrow> channels \<Rightarrow> 'd filestore \<Rightarrow> (channels \<times> 'd filestore) outcome" where
  "manager_AddSystemUIDs bo uids cs fs =
     (if length uids = 0 then Ret (cs, fs)
      else mapR (\<lambda>fs. (cs\<lparr>sm_systemUIDs := StoreAll uids (sm_systemUIDs cs)\<rparr>, fs)) (AddSystemUIDs bo uids fs))"

definition manager_RemoveSystemUIDs ::
    "'d bolt \<Rightarrow> gostring list \<Rightarrow> channels \<Rightarrow> 'd filestore \<Rightarrow> (channels \<times> 'd filestore) outcome" where
  "manager_RemoveSystemUIDs bo uids cs fs =
     (if length uids = 0 then Ret (cs, fs)
      else mapR (\<lambda>fs. (cs\<lparr>sm_systemUIDs := DeleteAll uids (sm_systemUIDs cs)\<rparr>, fs)) (RemoveSystemUIDs bo uids fs))"

definition CreateOrUpdatePersonChannel :: "'d bolt \<Rightarrow> json_codec \<Rightarrow> gostring \<Rightarrow> 'd filestore \<Rightarrow> 'd filestore outcome" where
  "CreateOrUpdatePersonChannel bo js uid fs =
     bindR (ExistChannel bo js uid ChannelTypePerson fs) (\<lambda>exist.
     bindR (if \<not> exist then AddOrUpdateChannel bo js (NewChannelInfo uid ChannelTypePerson) fs else Ret fs) (\<lambda>fs.
     bindR (GetSubscribers bo uid ChannelTypePerson fs) (\<lambda>subscribers.
       if length subscribers = 0 \<or> uid \<notin> set subscribers
       then AddSubscribers_store bo uid ChannelTypePerson [uid] fs else Ret fs)))"

definition manager_DeleteChannel ::
    "'d bolt \<Rightarrow> gostring \<Rightarrow> u8 \<Rightarrow> channels \<Rightarrow> 'd filestore \<Rightarrow> (channels \<times> 'd filestore) outcome" where
  "manager_DeleteChannel bo channelID channelType cs fs =
     mapR (\<lambda>fs. (DeleteChannelFromCache channelID channelType cs, fs)) (fs_DeleteChannel bo channelID channelType fs)"

lemma SystemUIDs_cached:
  "manager_AddSystemUIDs bo uids cs fs = Ret (cs', fs') \<Longrightarrow> set (sm_systemUIDs cs') = set uids \<union> set (sm_systemUIDs cs)"
  "manager_RemoveSystemUIDs bo uids cs fs = Ret (cs', fs') \<Longrightarrow> set (sm_systemUIDs cs') = set (sm_systemUIDs cs) - set uids"
  by (auto simp: manager_AddSystemUIDs_def manager_RemoveSystemUIDs_def mapR_def bindR_eq_Ret split: if_splits)

section \<open>The search for subscribers ends\<close>

lemma parentChannel_ok:
  assumes "env_ok env" and "channels_ok cs" and "parentChannel env c cs = (r, cs')"
  shows "channels_ok cs'" and "r = Ret (Some p) \<Longrightarrow> ch_Type p = ChannelTypeCommunity"
proof -
  have "channels_ok cs' \<and> (r = Ret (Some p) \<longrightarrow> ch_Type p = ChannelTypeCommunity)"
  proof (cases "ch_Type c = ChannelTypeCommunityTopic \<and> GetCommunityTopicParentChannelID (ch_ID c) \<noteq> []")
    case True
    then have "GetChannel env (GetCommunityTopicParentChannelID (ch_ID c)) ChannelTypeCommunity cs = (r, cs')"
      using assms(3) by (simp add: parentChannel_def)
    from GetChannel_ok [OF assms(1,2) this] show ?thesis by blast
  next
    case False
    with assms show ?thesis by (auto simp: parentChannel_def Let_def split: if_splits)
  qed
  then show "channels_ok cs'" "r = Ret (Some p) \<Longrightarrow> ch_Type p = ChannelTypeCommunity" by simp_all
qed

lemma parentChannel_community:
  "ch_Type c \<noteq> ChannelTypeCommunityTopic \<Longrightarrow> parentChannel env c cs = (Ret None, cs)"
  by (simp add: parentChannel_def)

lemma IsSubscriber_other:
  "ch_Type c \<noteq> ChannelTypeCommunityTopic \<Longrightarrow> IsSubscriber env uid c cs = Some (Ret (uid \<in> set (ch_subscriberMap c)), cs)"
  by (subst IsSubscriber.simps) (simp add: parentChannel_community)

lemma IsSubscriber_total:
  assumes "env_ok env" and "channels_ok cs"
  shows "\<exists>r cs'. IsSubscriber env uid c cs = Some (r, cs') \<and> channels_ok cs'"
proof -
  obtain pr cs1 where p: "parentChannel env c cs = (pr, cs1)" by fastforce
  note pok = parentChannel_ok [OF assms p]
  show ?thesis
  proof (cases pr)
    case (Ret q)
    show ?thesis
    proof (cases q)
      case (Some parent)
      with pok Ret have "IsSubscriber env uid parent cs1 = Some (Ret (uid \<in> set (ch_subscriberMap parent)), cs1)"
        by (intro IsSubscriber_other) simp
      with p Ret Some pok(1) show ?thesis by (subst IsSubscriber.simps) simp
    qed (use p Ret pok(1) in \<open>subst IsSubscriber.simps; simp\<close>)
  qed (use p pok(1) in \<open>subst IsSubscriber.simps; simp\<close>)+
qed

lemma hasPermission_total:
  assumes "env_ok env" and "channels_ok cs"
  shows "\<exists>r cs'. hasPermission env c uid cs = Some (r, cs') \<and> channels_ok cs'"
  using IsSubscriber_total [OF assms, of uid c] assms(2)
  by (auto simp: hasPermission_def Let_def split: prod.split)

lemma RealSubscribers_other:
  "ch_Type c \<noteq> ChannelTypeCommunityTopic \<or> ch_subscriberMap c \<noteq> [] \<Longrightarrow>
     RealSubscribers env custom c cs = Some (Ret (remdups
       ((if ch_Type c = ChannelTypeInfo then ch_tmpSubscriberMap c else []) @
        (if custom \<noteq> [] then custom else ch_subscriberMap c))), cs)"
  by (subst RealSubscribers.simps)
    (auto simp: RemoveRepeatedElement_remdups GetAllSubscribers_def GetAllTmpSubscribers_def)

lemma RealSubscribers_total:
  assumes "env_ok env" and "channels_ok cs"
  shows "\<exists>r cs'. RealSubscribers env custom c cs = Some (r, cs') \<and> channels_ok cs' \<and> (\<forall>us. r = Ret us \<longrightarrow> distinct us)"
proof (cases "ch_Type c \<noteq> ChannelTypeCommunityTopic \<or> ch_subscriberMap c \<noteq> []")
  case True
  with RealSubscribers_other assms(2) show ?thesis by fastforce
next
  case False
  obtain pr cs1 where p: "parentChannel env c cs = (pr, cs1)" by fastforce
  note pok = parentChannel_ok [OF assms p]
  show ?thesis
  proof (cases pr)
    case (Ret q)
    show ?thesis
    proof (cases q)
      case (Some parent)
      with pok Ret have "ch_Type parent \<noteq> ChannelTypeCommunityTopic" by simp
      with RealSubscribers_other [of parent env custom cs1] obtain us where
        "RealSubscribers env custom parent cs1 = Some (Ret us, cs1)" "distinct us" by fastforce
      with p Ret Some pok(1) False show ?thesis
        by (subst RealSubscribers.simps) (simp add: GetAllSubscribers_def)
    qed (use p Ret pok(1) False in \<open>subst RealSubscribers.simps; simp add: GetAllSubscribers_def\<close>)
  qed (use p pok(1) False in \<open>subst RealSubscribers.simps; simp add: GetAllSubscribers_def\<close>)+
qed

section \<open>What a loaded channel knows of its lists\<close>

text \<open>A channel that is not cached and that no data source serves is loaded from the store's lists.\<close>

definition plain_env :: "'d bolt \<Rightarrow> json_codec \<Rightarrow> options \<Rightarrow> loader \<Rightarrow> 'd filestore \<Rightarrow> env" where
  "plain_env bo js opts ds fs = \<lparr>en_opts = opts, en_store = store_loader bo js fs, en_datasource = ds\<rparr>"

definition stored_channel :: "options \<Rightarrow> gostring \<Rightarrow> u8 \<Rightarrow> bool" where
  "stored_channel opts cid t \<longleftrightarrow> \<not> HasDatasource opts \<and> \<not> IsTmpChannel opts cid \<and>
     t \<notin> {ChannelTypePerson, ChannelTypeData, ChannelTypeInfo, ChannelTypeCustomerService, ChannelTypeCommunityTopic}"

lemma loaded_from_store:
  assumes "stored_channel opts cid t" and "cm_channelCache cs (channelKey cid t) = None"
    and "GetChannel (plain_env bo js opts ds fs) cid t cs = (Ret (Some c), cs')"
  obtains subs deny allow where
    "GetSubscribers bo cid t fs = Ret subs" "GetDenylist bo cid t fs = Ret deny" "GetAllowlist bo cid t fs = Ret allow"
    "set (ch_subscriberMap c) = set subs" "set (ch_blacklist c) = set deny" "set (ch_whitelist c) = set allow"
    "ch_Type c = t" "ch_ID c = cid"
proof -
  let ?env = "plain_env bo js opts ds fs"
  from assms have get: "getChannelFromCacheOrStore ?env cid t cs = (Ret (Some c), cs')"
    by (simp add: GetChannel_def stored_channel_def plain_env_def)
  then obtain info where info: "fs_GetChannel bo js cid t fs = Ret info"
    using assms(2)
    by (auto simp: getChannelFromCacheOrStore_def getChannelFromCache_def plain_env_def store_loader_def split: outcome.splits)
  define i where "i = (case info of None \<Rightarrow> NewChannelInfo cid t | Some i \<Rightarrow> i)"
  have id: "ci_ChannelID i = cid" "ci_ChannelType i = t"
    using store_loader_ok [of bo js fs] info
    by (auto simp: i_def loader_ok_def store_loader_def NewChannelInfo_def split: option.splits)
  from get info assms(2) obtain cs1 where load: "LoadData ?env (NewChannel i) cs = (Ret c, cs1)"
    by (auto simp: getChannelFromCacheOrStore_def getChannelFromCache_def plain_env_def store_loader_def i_def Let_def
        split: outcome.splits if_splits prod.splits)
  have no_ds: "\<not> HasDatasource (en_opts ?env)" and cst: "ci_ChannelType i \<noteq> ChannelTypeCustomerService"
    using assms(1) id by (simp_all add: stored_channel_def plain_env_def)
  show thesis
    by (rule LoadData_sets [OF no_ds load cst], rule that) (simp_all add: id plain_env_def store_loader_def)
qed

text \<open>A user put on the denylist is refused, and one taken as a subscriber is found, at the next load.\<close>

lemma denied_is_refused:
  assumes "channel_list_ok bo getDenylistKey (cid, t) fs" and "names_ok us" and "u \<in> set us"
    and "AddDenylist_store bo cid t us fs = Ret fs'"
    and "stored_channel opts cid t" and "cm_channelCache cs (channelKey cid t) = None"
    and "GetChannel (plain_env bo js opts ds fs') cid t cs = (Ret (Some c), cs')"
    and "GetAllowlist bo cid t fs' = Ret []" and "u \<notin> set sys"
  shows "fst (Allow opts sys u c) = False"
proof -
  from denylist.add_member [of bo "(cid, t)" fs us fs' u] assms(1-4) obtain ns where
    ns: "GetDenylist bo cid t fs' = Ret ns" "u \<in> set ns" by auto
  from loaded_from_store [OF assms(5-7)] ns assms(8) have
    "u \<in> set (ch_blacklist c)" "ch_whitelist c = []" "ch_Type c = t" by auto
  moreover have "t \<noteq> ChannelTypePerson" "t \<noteq> ChannelTypeInfo" using assms(5) by (auto simp: stored_channel_def)
  ultimately show ?thesis using assms(9) by (simp add: Allow_iff)
qed

lemma subscribed_is_found:
  assumes "channel_list_ok bo getSubscribersKey (cid, t) fs" and "names_ok us" and "u \<in> set us"
    and "AddSubscribers_store bo cid t us fs = Ret fs'"
    and "stored_channel opts cid t" and "cm_channelCache cs (channelKey cid t) = None"
    and "GetChannel (plain_env bo js opts ds fs') cid t cs = (Ret (Some c), cs')"
  shows "IsSubscriber (plain_env bo js opts ds fs') u c cs' = Some (Ret True, cs')"
proof -
  from subscribers.add_member [of bo "(cid, t)" fs us fs' u] assms(1-4) obtain ns where
    ns: "GetSubscribers bo cid t fs' = Ret ns" "u \<in> set ns" by auto
  from loaded_from_store [OF assms(5-7)] ns have "u \<in> set (ch_subscriberMap c)" "ch_Type c = t" by auto
  moreover have "t \<noteq> ChannelTypeCommunityTopic" using assms(5) by (simp add: stored_channel_def)
  ultimately show ?thesis by (simp add: IsSubscriber_other)
qed

end
