(* ===== verification/Streams.thy ===== *)
theory Streams
  imports StoreTables LogFile
begin

text \<open>
  Message streams, \<^verbatim>\<open>pkg/okstore/stream.go\<close>, the stream functions of
  \<^verbatim>\<open>pkg/okstore/topic.go\<close> and the codecs of \<^verbatim>\<open>pkg/okstore/model.go\<close>. A stream
  is a file of numbered items and a file with its metadata; both are byte lists here. A topic keeps
  the open streams in an LRU cache: whatever the cache gives up when a stream is added is an argument
  (\<open>evicted\<close>). The lemmas show that a stream refines a list of items numbered from one, and that
  the metadata of a stream is lost once its file is opened again.
\<close>

section \<open>Items\<close>

abbreviation (input) StreamMagicNumber :: bytes where "StreamMagicNumber \<equiv> [0x15, 0x16]"
abbreviation (input) StreamVersion :: bytes where "StreamVersion \<equiv> [0x01]"
abbreviation (input) StreamEndMagicNumber :: bytes where "StreamEndMagicNumber \<equiv> [0x3]"

record StreamItem =
  si_ClientMsgNo :: gostring
  si_StreamSeq :: u32
  si_Blob :: bytes

definition EncodeStreamItem :: "StreamItem \<Rightarrow> bytes" where
  "EncodeStreamItem s = concat [
     WriteBytes StreamMagicNumber, WriteBytes StreamVersion, WriteString (si_ClientMsgNo s),
     WriteUint32 (si_StreamSeq s), WriteUint32 (word_of_nat (length (si_Blob s))), WriteBytes (si_Blob s),
     WriteBytes StreamEndMagicNumber]"

definition read_StreamItem :: "StreamItem reader" where
  "read_StreamItem =
     field '''' (dec_bytes 2) (\<lambda>startMagicBytes.
     if startMagicBytes \<noteq> StreamMagicNumber then (\<lambda>_. Fail (ErrMsg ''invalid magic number''))
     else field '''' (dec_bytes 1) (\<lambda>_.
     field '''' dec_string (\<lambda>clientMsgNo.
     field '''' dec_uint32 (\<lambda>streamSeq.
     field '''' dec_uint32 (\<lambda>blobLen.
     field '''' (dec_bytes (unat blobLen)) (\<lambda>blob.
     field '''' (dec_bytes 1) (\<lambda>endMagicBytes.
     if endMagicBytes \<noteq> StreamEndMagicNumber then (\<lambda>_. Fail (ErrMsg ''invalid end magic number''))
     else yields \<lparr>si_ClientMsgNo = clientMsgNo, si_StreamSeq = streamSeq, si_Blob = blob\<rparr>)))))))"

definition DecodeStreamItem :: "bytes \<Rightarrow> StreamItem outcome" where
  "DecodeStreamItem data = run_reader read_StreamItem data"

definition Encoding_Uint16 :: "bytes \<Rightarrow> u16" where
  "Encoding_Uint16 b = push_bit 8 (ucast (b ! 0)) OR ucast (b ! 1)"

text \<open>The item at an offset of the file and its length; the blob is read only on request.\<close>

definition currentStreamItem :: "bytes \<Rightarrow> nat \<Rightarrow> bool \<Rightarrow> (StreamItem \<times> nat) outcome" where
  "currentStreamItem file startOffset readBlob =
     bindR (ReadAt file startOffset 2) (\<lambda>startMagic.
     if startMagic \<noteq> StreamMagicNumber then Fail (ErrMsg ''start stream MagicNumber'')
     else
       let offset = startOffset + 2 + 1 in
       bindR (ReadAt file offset 2) (\<lambda>clientMsgNoLenBytes.
       let offset = offset + 2; clientMsgNoLen = unat (Encoding_Uint16 clientMsgNoLenBytes) in
       bindR (ReadAt file offset clientMsgNoLen) (\<lambda>clientMsgNo.
       let offset = offset + clientMsgNoLen in
       bindR (ReadAt file offset 4) (\<lambda>streamSeqBytes.
       let offset = offset + 4 in
       bindR (ReadAt file offset 4) (\<lambda>blobLenBytes.
       let offset = offset + 4; blobLen = unat (Encoding_Uint32 blobLenBytes) in
       bindR (if readBlob then ReadAt file offset blobLen else Ret []) (\<lambda>blob.
       let offset = offset + blobLen in
       bindR (ReadAt file offset 1) (\<lambda>endMagicBytes.
       let offset = offset + 1 in
       if endMagicBytes \<noteq> StreamEndMagicNumber then Fail (ErrMsg ''invalid end stream magic number'')
       else Ret (\<lparr>si_ClientMsgNo = clientMsgNo, si_StreamSeq = Encoding_Uint32 streamSeqBytes, si_Blob = blob\<rparr>,
                 offset - startOffset))))))))"

definition currentStreamBaseInfo :: "bytes \<Rightarrow> nat \<Rightarrow> (StreamItem \<times> nat) outcome" where
  "currentStreamBaseInfo file startOffset = currentStreamItem file startOffset False"

text \<open>An item whose lengths fit their fields.\<close>

definition item_ok :: "StreamItem \<Rightarrow> bool" where
  "item_ok s \<longleftrightarrow> length (si_ClientMsgNo s) < 2 ^ 15 \<and> length (si_Blob s) < 2 ^ 32"

lemma reads_bytes_field [roundtrip_intros]: "length bs = n \<Longrightarrow> reads (dec_bytes n) bs (WriteBytes bs)"
  using reads_bytes [of bs n] by (simp add: WriteBytes_def)

lemma reads_end_check [roundtrip_intros]: "\<not> c \<Longrightarrow> reads_end r y bs \<Longrightarrow> reads_end (if c then f else r) y bs"
  by simp

lemma reads_StreamItem:
  assumes "item_ok s" shows "reads_end read_StreamItem s (EncodeStreamItem s)"
  unfolding read_StreamItem_def EncodeStreamItem_def
  by (insert assms, (rule roundtrip_intros | simp add: item_ok_def unat_length; fail)+)

lemma DecodeStreamItem_Encode: "item_ok s \<Longrightarrow> DecodeStreamItem (EncodeStreamItem s) = Ret s"
  unfolding DecodeStreamItem_def by (rule run_reader_reads_end [OF reads_StreamItem])

lemma length_EncodeStreamItem: "length (EncodeStreamItem s) = 14 + length (si_ClientMsgNo s) + length (si_Blob s)"
  by (simp add: EncodeStreamItem_def)

lemma Encoding_Uint16_Write:
  assumes "n < 65536" shows "unat (Encoding_Uint16 (WriteInt16 n)) = n"
  using int16_of_nat [of n] assms
  by (simp add: Encoding_Uint16_def WriteInt16_def unat_of_nat take_bit_nat_eq_self)

lemma currentStreamItem_at:
  assumes "item_ok s"
  shows "currentStreamItem (pre @ EncodeStreamItem s @ post) (length pre) readBlob =
    Ret (if readBlob then s else s\<lparr>si_Blob := []\<rparr>, length (EncodeStreamItem s))"
proof -
  let ?no = "si_ClientMsgNo s" and ?blob = "si_Blob s" and ?p = "length pre"
  let ?head = "pre @ StreamMagicNumber @ StreamVersion"
  let ?len = "WriteInt16 (length ?no)" and ?seq = "WriteUint32 (si_StreamSeq s)"
  let ?bl = "WriteUint32 (word_of_nat (length ?blob))"
  let ?file = "pre @ EncodeStreamItem s @ post"
  have parts: "?file = pre @ StreamMagicNumber @ StreamVersion @ ?len @ ?no @ ?seq @ ?bl @ ?blob @ StreamEndMagicNumber @ post"
    by (simp add: EncodeStreamItem_def WriteString_def WriteBinary_eq WriteBytes_def)
  have r1: "ReadAt ?file ?p 2 = Ret StreamMagicNumber"
    unfolding parts by (rule ReadAt_mid; simp)
  have r2: "ReadAt ?file (?p + 3) 2 = Ret ?len"
    using ReadAt_mid [of "?p + 3" ?head 2 ?len "?no @ ?seq @ ?bl @ ?blob @ StreamEndMagicNumber @ post"] unfolding parts by simp
  have r3: "ReadAt ?file (?p + 5) (length ?no) = Ret ?no"
    using ReadAt_mid [of "?p + 5" "?head @ ?len" "length ?no" ?no "?seq @ ?bl @ ?blob @ StreamEndMagicNumber @ post"] unfolding parts by simp
  have r4: "ReadAt ?file (?p + 5 + length ?no) 4 = Ret ?seq"
    using ReadAt_mid [of "?p + 5 + length ?no" "?head @ ?len @ ?no" 4 ?seq "?bl @ ?blob @ StreamEndMagicNumber @ post"] unfolding parts by simp
  have r5: "ReadAt ?file (?p + 9 + length ?no) 4 = Ret ?bl"
  proof -
    have "?p + 9 + length ?no = length (?head @ ?len @ ?no @ ?seq)" "4 = length ?bl" by simp_all
    from ReadAt_mid [OF this, of "?blob @ StreamEndMagicNumber @ post"] show ?thesis
      unfolding parts by (simp only: append_assoc)
  qed
  have r6: "ReadAt ?file (?p + 13 + length ?no) (length ?blob) = Ret ?blob"
    using ReadAt_mid [of "?p + 13 + length ?no" "?head @ ?len @ ?no @ ?seq @ ?bl" "length ?blob" ?blob "StreamEndMagicNumber @ post"] unfolding parts by simp
  have r7: "ReadAt ?file (?p + 13 + length ?no + length ?blob) 1 = Ret StreamEndMagicNumber"
    using ReadAt_mid [of "?p + 13 + length ?no + length ?blob" "?head @ ?len @ ?no @ ?seq @ ?bl @ ?blob" 1 StreamEndMagicNumber post] unfolding parts by simp
  have lens: "unat (Encoding_Uint16 ?len) = length ?no" "unat (Encoding_Uint32 ?bl) = length ?blob"
    using assms by (simp_all add: item_ok_def Encoding_Uint16_Write unat_length)
  have offs: "?p + 2 + 1 = ?p + 3" "?p + 3 + 2 = ?p + 5" "?p + 5 + length ?no + 4 = ?p + 9 + length ?no"
    "?p + 9 + length ?no + 4 = ?p + 13 + length ?no"
    "?p + 13 + length ?no + length ?blob + 1 - ?p = length (EncodeStreamItem s)"
    by (simp_all add: length_EncodeStreamItem)
  show ?thesis
    unfolding currentStreamItem_def Let_def offs r1 r2 bindR_simps lens r3 r4 r5 r6 r7
    by (cases readBlob) (simp_all only: if_True if_False bindR_simps r7 offs not_not simp_thms, simp_all)
qed

lemma currentStreamItem_pos: "currentStreamItem file off rb = Ret (item, n) \<Longrightarrow> 0 < n"
  by (auto simp: currentStreamItem_def Let_def bindR_eq_Ret split: if_splits)

section \<open>Streams\<close>

record StreamMeta =
  sm_StreamNo :: gostring
  sm_MessageID :: i64
  sm_ChannelID :: gostring
  sm_ChannelType :: u8
  sm_MessageSeq :: u32
  sm_StreamFlag :: u8

definition meta_json :: "StreamMeta \<Rightarrow> json" where
  "meta_json m = JObject
     [(str ''stream_no'', JString (sm_StreamNo m)), (str ''message_id'', JNumber (dec_int (sint (sm_MessageID m)))),
      (str ''channel_id'', JString (sm_ChannelID m)), (str ''channel_type'', JNumber (dec (unat (sm_ChannelType m)))),
      (str ''message_seq'', JNumber (dec (unat (sm_MessageSeq m)))), (str ''stream_flag'', JNumber (dec (unat (sm_StreamFlag m))))]"

definition meta_of_json :: "json \<Rightarrow> StreamMeta outcome" where
  "meta_of_json j = (case j of
     JObject kvs \<Rightarrow>
       bindR (jstring (jfield (str ''stream_no'') kvs)) (\<lambda>no.
       bindR (jsint 64 (jfield (str ''message_id'') kvs)) (\<lambda>mid.
       bindR (jstring (jfield (str ''channel_id'') kvs)) (\<lambda>cid.
       bindR (juint 8 (jfield (str ''channel_type'') kvs)) (\<lambda>ct.
       bindR (juint 32 (jfield (str ''message_seq'') kvs)) (\<lambda>sq.
       bindR (juint 8 (jfield (str ''stream_flag'') kvs)) (\<lambda>fl.
       Ret \<lparr>sm_StreamNo = no, sm_MessageID = word_of_int mid, sm_ChannelID = cid, sm_ChannelType = word_of_int ct,
            sm_MessageSeq = word_of_int sq, sm_StreamFlag = word_of_int fl\<rparr>))))))
   | _ \<Rightarrow> Fail (ErrMsg ''json: cannot unmarshal''))"

text \<open>An open stream: whether its metadata file is open, and the largest number once it was read.\<close>

record stream =
  sr_metaOpen :: bool
  sr_maxStreamSeqLoaded :: bool
  sr_maxStreamSeq :: u32

record streams =
  ss_cache :: "gostring \<Rightarrow> stream option"
  ss_data :: "gostring \<Rightarrow> bytes"
  ss_meta :: "gostring \<Rightarrow> bytes"

definition NewStream :: stream where
  "NewStream = \<lparr>sr_metaOpen = False, sr_maxStreamSeqLoaded = False, sr_maxStreamSeq = 0\<rparr>"

definition getStream :: "gostring option \<Rightarrow> gostring \<Rightarrow> streams \<Rightarrow> stream \<times> streams" where
  "getStream evicted streamNo ss =
     (case ss_cache ss streamNo of
        Some s \<Rightarrow> (s, ss)
      | None \<Rightarrow>
          let cache = (case evicted of None \<Rightarrow> ss_cache ss | Some e \<Rightarrow> (ss_cache ss)(e := None)) in
          (NewStream, ss\<lparr>ss_cache := cache(streamNo := Some NewStream)\<rparr>))"

definition put_stream :: "gostring \<Rightarrow> stream \<Rightarrow> streams \<Rightarrow> streams" where
  "put_stream streamNo s ss = ss\<lparr>ss_cache := (ss_cache ss)(streamNo := Some s)\<rparr>"

function max_loop :: "bytes \<Rightarrow> nat \<Rightarrow> u32 outcome" where
  "max_loop file startOffset =
     (case currentStreamBaseInfo file startOffset of
        Fail e \<Rightarrow> Fail e | Panic \<Rightarrow> Panic
      | Ret (item, n) \<Rightarrow>
          if startOffset + n \<ge> length file then Ret (si_StreamSeq item) else max_loop file (startOffset + n))"
  by pat_completeness auto
termination
  by (relation "measure (\<lambda>(file, off). length file - off)")
    (auto simp: currentStreamBaseInfo_def dest: currentStreamItem_pos)

definition readMaxStreamSeqNoLock :: "bytes \<Rightarrow> u32 outcome" where
  "readMaxStreamSeqNoLock file = (if length file = 0 then Ret 0 else max_loop file 0)"

definition nextStreamSeqNoLock :: "bytes \<Rightarrow> stream \<Rightarrow> (u32 \<times> stream) outcome" where
  "nextStreamSeqNoLock file s =
     (if sr_maxStreamSeqLoaded s then Ret (sr_maxStreamSeq s + 1, s)
      else bindR (readMaxStreamSeqNoLock file) (\<lambda>m.
        Ret (m + 1, s\<lparr>sr_maxStreamSeq := m, sr_maxStreamSeqLoaded := True\<rparr>)))"

definition appendItem :: "gostring \<Rightarrow> StreamItem \<Rightarrow> stream \<Rightarrow> streams \<Rightarrow> (u32 \<times> streams) outcome" where
  "appendItem streamNo item s ss =
     bindR (nextStreamSeqNoLock (ss_data ss streamNo) s) (\<lambda>(next, s).
       let item = item\<lparr>si_StreamSeq := next\<rparr>;
           ss = ss\<lparr>ss_data := (ss_data ss)(streamNo := ss_data ss streamNo @ EncodeStreamItem item)\<rparr> in
       Ret (next, put_stream streamNo (s\<lparr>sr_maxStreamSeq := next\<rparr>) ss))"

function items_loop :: "bytes \<Rightarrow> nat \<Rightarrow> StreamItem list outcome" where
  "items_loop file startOffset =
     (case currentStreamItem file startOffset True of
        Fail e \<Rightarrow> Fail e | Panic \<Rightarrow> Panic
      | Ret (item, n) \<Rightarrow>
          if startOffset + n \<ge> length file then Ret [item]
          else mapR ((#) item) (items_loop file (startOffset + n)))"
  by pat_completeness auto
termination
  by (relation "measure (\<lambda>(file, off). length file - off)") (auto dest: currentStreamItem_pos)

definition readItems_file :: "bytes \<Rightarrow> StreamItem list outcome" where
  "readItems_file file =
     (if length file = 0 then Ret [] else mapR (sort_key (\<lambda>i. unat (si_StreamSeq i))) (items_loop file 0))"

text \<open>The metadata file is truncated whenever it is opened; a write starts at its beginning.\<close>

definition getMetaIO :: "gostring \<Rightarrow> stream \<Rightarrow> streams \<Rightarrow> stream \<times> streams" where
  "getMetaIO streamNo s ss =
     (if sr_metaOpen s then (s, ss)
      else let s = s\<lparr>sr_metaOpen := True\<rparr> in
           (s, put_stream streamNo s (ss\<lparr>ss_meta := (ss_meta ss)(streamNo := [])\<rparr>)))"

definition saveMeta :: "json_codec \<Rightarrow> gostring \<Rightarrow> StreamMeta \<Rightarrow> stream \<Rightarrow> streams \<Rightarrow> streams" where
  "saveMeta js streamNo meta s ss =
     (let data = js_encode js (meta_json meta); (s, ss) = getMetaIO streamNo s ss; old = ss_meta ss streamNo in
      ss\<lparr>ss_meta := (ss_meta ss)(streamNo := data @ drop (length data) old)\<rparr>)"

definition readMeta :: "json_codec \<Rightarrow> gostring \<Rightarrow> stream \<Rightarrow> streams \<Rightarrow> StreamMeta option outcome \<times> streams" where
  "readMeta js streamNo s ss =
     (let (s, ss) = getMetaIO streamNo s ss; metaBytes = ss_meta ss streamNo in
      (if length metaBytes = 0 then Ret None
       else mapR Some (bindR (js_decode js metaBytes) meta_of_json), ss))"

section \<open>The streams of a topic\<close>

definition appendStreamItem :: "gostring option \<Rightarrow> gostring \<Rightarrow> StreamItem \<Rightarrow> streams \<Rightarrow> (u32 \<times> streams) outcome" where
  "appendStreamItem evicted streamNo item ss =
     (let (s, ss) = getStream evicted streamNo ss in appendItem streamNo item s ss)"

definition topic_readItems :: "gostring option \<Rightarrow> gostring \<Rightarrow> streams \<Rightarrow> StreamItem list outcome \<times> streams" where
  "topic_readItems evicted streamNo ss =
     (let (s, ss) = getStream evicted streamNo ss in (readItems_file (ss_data ss streamNo), ss))"

definition saveStreamMeta :: "gostring option \<Rightarrow> json_codec \<Rightarrow> StreamMeta \<Rightarrow> streams \<Rightarrow> streams" where
  "saveStreamMeta evicted js meta ss =
     (let (s, ss) = getStream evicted (sm_StreamNo meta) ss in saveMeta js (sm_StreamNo meta) meta s ss)"

definition readStreamMeta :: "gostring option \<Rightarrow> json_codec \<Rightarrow> gostring \<Rightarrow> streams \<Rightarrow> StreamMeta option outcome \<times> streams" where
  "readStreamMeta evicted js streamNo ss =
     (let (s, ss) = getStream evicted streamNo ss in readMeta js streamNo s ss)"

text \<open>The end of a stream is written to its metadata, and the stream leaves the cache.\<close>

definition streamEnd :: "gostring option \<Rightarrow> json_codec \<Rightarrow> gostring \<Rightarrow> streams \<Rightarrow> unit outcome \<times> streams" where
  "streamEnd evicted js streamNo ss =
     (let (s, ss) = getStream evicted streamNo ss in
      case readMeta js streamNo s ss of
        (Fail e, ss) \<Rightarrow> (Fail e, ss)
      | (Panic, ss) \<Rightarrow> (Panic, ss)
      | (Ret m, ss) \<Rightarrow>
          let ss = (case m of None \<Rightarrow> ss
              | Some meta \<Rightarrow> saveMeta js streamNo (meta\<lparr>sm_StreamFlag := StreamFlagEnd\<rparr>) (s\<lparr>sr_metaOpen := True\<rparr>) ss) in
          (Ret (), ss\<lparr>ss_cache := (ss_cache ss)(streamNo := None)\<rparr>))"

text \<open>The store finds the topic first; \<open>dirs\<close> gives the streams of each topic.\<close>

definition AppendStreamItem ::
    "storeConfig \<Rightarrow> gostring option \<Rightarrow> gostring \<Rightarrow> u8 \<Rightarrow> gostring \<Rightarrow> StreamItem \<Rightarrow>
     message_store \<times> (gostring \<Rightarrow> streams) \<Rightarrow> (u32 \<times> message_store \<times> (gostring \<Rightarrow> streams)) outcome" where
  "AppendStreamItem cfg evicted channelID channelType streamNo item = (\<lambda>(msgs, dirs).
     bindR (getTopic cfg channelID channelType msgs) (\<lambda>(_, name, _, msgs).
     bindR (appendStreamItem evicted streamNo item (dirs name)) (\<lambda>(next, ss).
     Ret (next, msgs, dirs(name := ss)))))"

definition GetStreamItems ::
    "storeConfig \<Rightarrow> gostring option \<Rightarrow> gostring \<Rightarrow> u8 \<Rightarrow> gostring \<Rightarrow>
     message_store \<times> (gostring \<Rightarrow> streams) \<Rightarrow> (StreamItem list outcome \<times> message_store \<times> (gostring \<Rightarrow> streams)) outcome" where
  "GetStreamItems cfg evicted channelID channelType streamNo = (\<lambda>(msgs, dirs).
     mapR (\<lambda>(_, name, _, msgs).
       let (r, ss) = topic_readItems evicted streamNo (dirs name) in (r, msgs, dirs(name := ss)))
     (getTopic cfg channelID channelType msgs))"

section \<open>A stream is a numbered list of items\<close>

definition items_numbered :: "StreamItem list \<Rightarrow> bool" where
  "items_numbered items \<longleftrightarrow> list_all item_ok items \<and> length items < 2 ^ 32 - 1 \<and>
     (\<forall>i < length items. si_StreamSeq (items ! i) = word_of_nat (Suc i))"

definition stream_file :: "StreamItem list \<Rightarrow> bytes" where
  "stream_file items = concat (map EncodeStreamItem items)"

definition stream_holds :: "streams \<Rightarrow> gostring \<Rightarrow> StreamItem list \<Rightarrow> bool" where
  "stream_holds ss streamNo items \<longleftrightarrow> items_numbered items \<and> ss_data ss streamNo = stream_file items \<and>
     (\<forall>s. ss_cache ss streamNo = Some s \<longrightarrow> sr_maxStreamSeqLoaded s \<longrightarrow> sr_maxStreamSeq s = word_of_nat (length items))"

lemma EncodeStreamItem_not_Nil [simp]: "EncodeStreamItem s \<noteq> []"
  using length_EncodeStreamItem [of s] by fastforce

lemma loops_from:
  assumes "list_all item_ok items" and "items \<noteq> []"
  shows "items_loop (pre @ stream_file items) (length pre) = Ret items"
    and "max_loop (pre @ stream_file items) (length pre) = Ret (si_StreamSeq (last items))"
  using assms
proof (induction items arbitrary: pre)
  case (Cons x items)
  { case 1
    let ?file = "pre @ stream_file (x # items)"
    have file_eq: "?file = pre @ EncodeStreamItem x @ stream_file items" by (simp add: stream_file_def)
    have x: "currentStreamItem ?file (length pre) True = Ret (x, length (EncodeStreamItem x))"
      unfolding file_eq using currentStreamItem_at [of x pre "stream_file items" True] 1 by simp
    show ?case
    proof (cases "items = []")
      case True
      with x show ?thesis by (subst items_loop.simps) (simp add: stream_file_def)
    next
      case False
      then have "stream_file items \<noteq> []" by (cases items) (simp_all add: stream_file_def)
      moreover have "items_loop ?file (length pre + length (EncodeStreamItem x)) = Ret items"
        using Cons.IH(1) [of "pre @ EncodeStreamItem x"] 1 False file_eq by simp
      ultimately show ?thesis using x by (subst items_loop.simps) (simp add: file_eq mapR_def)
    qed
  next
    case 2
    let ?file = "pre @ stream_file (x # items)"
    have file_eq: "?file = pre @ EncodeStreamItem x @ stream_file items" by (simp add: stream_file_def)
    have x: "currentStreamItem ?file (length pre) False = Ret (x\<lparr>si_Blob := []\<rparr>, length (EncodeStreamItem x))"
      unfolding file_eq using currentStreamItem_at [of x pre "stream_file items" False] 2 by simp
    show ?case
    proof (cases "items = []")
      case True
      with x show ?thesis by (subst max_loop.simps) (simp add: stream_file_def currentStreamBaseInfo_def)
    next
      case False
      then have "stream_file items \<noteq> []" by (cases items) (simp_all add: stream_file_def)
      moreover have "max_loop ?file (length pre + length (EncodeStreamItem x)) = Ret (si_StreamSeq (last items))"
        using Cons.IH(2) [of "pre @ EncodeStreamItem x"] 2 False file_eq by simp
      ultimately show ?thesis using x False by (subst max_loop.simps) (simp add: file_eq currentStreamBaseInfo_def)
    qed
  }
qed simp_all

lemma stream_file_Nil [simp]: "stream_file items = [] \<longleftrightarrow> items = []"
  by (cases items) (simp_all add: stream_file_def)

lemma items_numbered_last: "items_numbered items \<Longrightarrow> items \<noteq> [] \<Longrightarrow> si_StreamSeq (last items) = word_of_nat (length items)"
  by (auto simp: items_numbered_def last_conv_nth simp del: of_nat_Suc)

lemma readMaxStreamSeq_ok: "items_numbered items \<Longrightarrow> readMaxStreamSeqNoLock (stream_file items) = Ret (word_of_nat (length items))"
  using loops_from(2) [of items "[]"] items_numbered_last [of items]
  by (cases "items = []") (simp_all add: readMaxStreamSeqNoLock_def items_numbered_def stream_file_def)

lemma items_numbered_seq: "items_numbered items \<Longrightarrow> i < length items \<Longrightarrow> unat (si_StreamSeq (items ! i)) = Suc i"
  by (auto simp: items_numbered_def unsigned_of_nat take_bit_nat_eq_self simp del: of_nat_Suc)

lemma items_numbered_sorted:
  assumes "items_numbered items" shows "sort_key (\<lambda>i. unat (si_StreamSeq i)) items = items"
proof (rule sort_key_id_if_sorted)
  show "sorted (map (\<lambda>i. unat (si_StreamSeq i)) items)"
    unfolding sorted_iff_nth_mono using items_numbered_seq [OF assms] by simp
qed

lemma readItems_ok: "items_numbered items \<Longrightarrow> readItems_file (stream_file items) = Ret items"
  using loops_from(1) [of items "[]"] items_numbered_sorted [of items]
  by (cases "items = []") (simp_all add: readItems_file_def items_numbered_def mapR_def stream_file_def)

lemma items_numbered_append:
  assumes "items_numbered items" and "item_ok item" and "length items + 1 < 2 ^ 32 - 1"
  shows "items_numbered (items @ [item\<lparr>si_StreamSeq := word_of_nat (Suc (length items))\<rparr>])"
  using assms by (auto simp: items_numbered_def nth_append item_ok_def less_Suc_eq)

lemma getStream_holds:
  assumes "stream_holds ss no items" and "getStream evicted no' ss = (s, ss')"
  shows "stream_holds ss' no items" and "ss_data ss' = ss_data ss" and "ss_meta ss' = ss_meta ss" and "ss_cache ss' no' = Some s"
  using assms by (auto simp: getStream_def stream_holds_def NewStream_def Let_def split: option.splits if_splits)

lemma nextStreamSeq_ok:
  assumes "stream_holds ss no items" and "ss_cache ss no = Some s"
  shows "\<exists>s'. nextStreamSeqNoLock (ss_data ss no) s = Ret (word_of_nat (Suc (length items)), s')"
  using assms readMaxStreamSeq_ok [of items]
  by (auto simp: nextStreamSeqNoLock_def stream_holds_def add.commute)

lemma appendStreamItem_ok:
  assumes "stream_holds ss no items" and "item_ok item" and "length items + 1 < 2 ^ 32 - 1"
  shows "\<exists>ss'. appendStreamItem evicted no item ss = Ret (word_of_nat (Suc (length items)), ss') \<and>
    stream_holds ss' no (items @ [item\<lparr>si_StreamSeq := word_of_nat (Suc (length items))\<rparr>]) \<and>
    (\<forall>no' items'. no' \<noteq> no \<longrightarrow> stream_holds ss no' items' \<longrightarrow> stream_holds ss' no' items')"
proof -
  obtain s ss1 where get: "getStream evicted no ss = (s, ss1)" by fastforce
  note g = getStream_holds [OF assms(1) get]
  obtain s' where nxt: "nextStreamSeqNoLock (ss_data ss1 no) s = Ret (word_of_nat (Suc (length items)), s')"
    using nextStreamSeq_ok [OF g(1,4)] by blast
  let ?item = "item\<lparr>si_StreamSeq := word_of_nat (Suc (length items))\<rparr>"
  define ss' where "ss' = put_stream no (s'\<lparr>sr_maxStreamSeq := word_of_nat (Suc (length items))\<rparr>)
    (ss1\<lparr>ss_data := (ss_data ss1)(no := ss_data ss1 no @ EncodeStreamItem ?item)\<rparr>)"
  have run: "appendStreamItem evicted no item ss = Ret (word_of_nat (Suc (length items)), ss')"
    by (simp add: appendStreamItem_def get appendItem_def nxt ss'_def Let_def)
  have file_eq: "ss_data ss1 no @ EncodeStreamItem ?item = stream_file (items @ [?item])"
    using g(1) by (simp add: stream_holds_def stream_file_def)
  have "stream_holds ss' no (items @ [?item])"
    using items_numbered_append [OF _ assms(2,3)] g(1) file_eq
    by (simp add: ss'_def put_stream_def stream_holds_def)
  moreover have "stream_holds ss' no' items'" if "no' \<noteq> no" "stream_holds ss no' items'" for no' items'
    using getStream_holds(1) [OF that(2) get] that(1) by (simp add: ss'_def put_stream_def stream_holds_def)
  ultimately show ?thesis using run by blast
qed

lemma topic_readItems_ok:
  assumes "stream_holds ss no items"
  shows "\<exists>ss'. topic_readItems evicted no ss = (Ret items, ss') \<and> stream_holds ss' no items"
proof -
  obtain s ss1 where get: "getStream evicted no ss = (s, ss1)" by fastforce
  note g = getStream_holds [OF assms get]
  show ?thesis using g(1) readItems_ok [of items]
    by (simp add: topic_readItems_def get) (simp add: stream_holds_def)
qed

section \<open>Metadata\<close>

definition meta_plain :: "StreamMeta \<Rightarrow> bool" where
  "meta_plain m \<longleftrightarrow> plain (sm_StreamNo m) \<and> plain (sm_ChannelID m)"

lemma meta_json_roundtrip [simp]: "meta_of_json (meta_json m) = Ret m"
  by (cases m) (simp add: meta_of_json_def meta_json_def jfield_def jstring_def)

lemma json_plain_meta [simp]: "meta_plain m \<Longrightarrow> json_plain (meta_json m)"
  by (simp add: meta_plain_def meta_json_def plain_def str_def)

text \<open>Saved over an empty file, the metadata is read back; once the stream is ended it reads as missing.\<close>

lemma save_read_meta:
  assumes "json_ok js" and "meta_plain m" and "ss_cache ss (sm_StreamNo m) = Some s" and "sr_metaOpen s"
    and "ss_meta ss (sm_StreamNo m) = []"
  shows "fst (readStreamMeta ev js (sm_StreamNo m) (saveStreamMeta ev' js m ss)) = Ret (Some m)"
proof -
  have j: "js_decode js (js_encode js (meta_json m)) = Ret (meta_json m)" "js_encode js (meta_json m) \<noteq> []"
    using assms(1) json_plain_meta [OF assms(2)] unfolding json_ok_def by blast+
  show ?thesis using assms(3-5) j
    by (simp add: saveStreamMeta_def readStreamMeta_def getStream_def saveMeta_def readMeta_def getMetaIO_def mapR_def Let_def)
qed

lemma streamEnd_forgets:
  assumes "streamEnd ev js no ss = (Ret (), ss')"
  shows "fst (readStreamMeta ev' js no ss') = Ret None"
proof -
  have "ss_cache ss' no = None"
    using assms by (auto simp: streamEnd_def Let_def split: prod.splits outcome.splits)
  then show ?thesis
    by (simp add: readStreamMeta_def getStream_def readMeta_def getMetaIO_def NewStream_def put_stream_def Let_def)
qed

end
