(* ===== verification/Crypto.thy ===== *)
theory Crypto
  imports GoStrings
begin

text \<open>
  The encryption helpers, \<^verbatim>\<open>pkg/okutil/aes.go\<close> and \<^verbatim>\<open>md5.go\<close>: padding, cipher block
  chaining, and the standard base64 encoding around them. The block cipher and the hash are
  parameters; \<open>cipher_ok\<close> says that the cipher works on blocks of sixteen bytes and that decrypting
  a block undoes encrypting it.
\<close>

section \<open>Base64\<close>

definition b64_char :: "nat \<Rightarrow> byte" where
  "b64_char n =
     (if n < 26 then word_of_nat (65 + n)
      else if n < 52 then word_of_nat (71 + n)
      else if n < 62 then word_of_nat (n - 4)
      else if n = 62 then 43 else 47)"

definition b64_val :: "byte \<Rightarrow> nat option" where
  "b64_val b =
     (let n = unat b in
      if 65 \<le> n \<and> n \<le> 90 then Some (n - 65)
      else if 97 \<le> n \<and> n \<le> 122 then Some (n - 71)
      else if 48 \<le> n \<and> n \<le> 57 then Some (n + 4)
      else if n = 43 then Some 62
      else if n = 47 then Some 63
      else None)"

abbreviation (input) b64_pad :: byte where "b64_pad \<equiv> 61"

fun b64_encode :: "bytes \<Rightarrow> bytes" where
  "b64_encode [] = []"
| "b64_encode [a] = [b64_char (unat a div 4), b64_char ((unat a mod 4) * 16), b64_pad, b64_pad]"
| "b64_encode [a, b] =
     [b64_char (unat a div 4), b64_char ((unat a mod 4) * 16 + unat b div 16),
      b64_char ((unat b mod 16) * 4), b64_pad]"
| "b64_encode (a # b # c # rest) =
     [b64_char (unat a div 4), b64_char ((unat a mod 4) * 16 + unat b div 16),
      b64_char ((unat b mod 16) * 4 + unat c div 64), b64_char (unat c mod 64)] @ b64_encode rest"

definition ErrCorruptInput :: go_error where "ErrCorruptInput = ErrMsg ''illegal base64 data''"

definition quad :: "nat \<Rightarrow> nat \<Rightarrow> nat \<Rightarrow> nat \<Rightarrow> bytes" where
  "quad a b c d = [word_of_nat (a * 4 + b div 16), word_of_nat ((b mod 16) * 16 + c div 4), word_of_nat ((c mod 4) * 64 + d)]"

fun b64_quads :: "bytes \<Rightarrow> bytes outcome" where
  "b64_quads [] = Ret []"
| "b64_quads (a # b # c # d # rest) =
     (case (b64_val a, b64_val b) of
        (Some a, Some b) \<Rightarrow>
          (if c = b64_pad then (if d = b64_pad \<and> rest = [] then Ret (take 1 (quad a b 0 0)) else Fail ErrCorruptInput)
           else case b64_val c of
               None \<Rightarrow> Fail ErrCorruptInput
             | Some c \<Rightarrow>
                 (if d = b64_pad then (if rest = [] then Ret (take 2 (quad a b c 0)) else Fail ErrCorruptInput)
                  else case b64_val d of
                      None \<Rightarrow> Fail ErrCorruptInput
                    | Some d \<Rightarrow> bindR (b64_quads rest) (\<lambda>bs. Ret (quad a b c d @ bs))))
      | _ \<Rightarrow> Fail ErrCorruptInput)"
| "b64_quads _ = Fail ErrCorruptInput"

text \<open>The decoder skips line ends wherever they are.\<close>

definition b64_decode :: "bytes \<Rightarrow> bytes outcome" where
  "b64_decode s = b64_quads (filter (\<lambda>b. b \<noteq> 10 \<and> b \<noteq> 13) s)"

lemma b64_char_facts: "n < 64 \<Longrightarrow> b64_val (b64_char n) = Some n \<and> b64_char n \<noteq> b64_pad \<and> b64_char n \<noteq> 10 \<and> b64_char n \<noteq> 13"
proof -
  have "\<forall>n \<in> set [0..<64]. b64_val (b64_char n) = Some n \<and> b64_char n \<noteq> b64_pad \<and> b64_char n \<noteq> 10 \<and> b64_char n \<noteq> 13"
    by code_simp
  then show "n < 64 \<Longrightarrow> ?thesis" by simp
qed

lemma byte_lt [simp]: "unat (a :: byte) < 256"
  using unsigned_less [of a] by simp

lemma b64_unat_bounds [simp]:
  fixes a b c :: byte
  shows "unat a div 4 < 64" "unat a mod 4 * 16 + unat b div 16 < 64"
    "unat b mod 16 * 4 + unat c div 64 < 64" "unat c mod 64 < 64" "unat a mod 4 * 16 < 64" "unat b mod 16 * 4 < 64"
  using byte_lt [of a] byte_lt [of b] byte_lt [of c] by linarith+

lemma recombine:
  fixes a b c :: nat
  assumes "b < 256" and "c < 256"
  shows "a div 4 * 4 + (a mod 4 * 16 + b div 16) div 16 = a"
    "(a mod 4 * 16 + b div 16) mod 16 * 16 + (b mod 16 * 4 + c div 64) div 4 = b"
    "(b mod 16 * 4 + c div 64) mod 4 * 64 + c mod 64 = c"
proof -
  have q: "b div 16 < 16" "c div 64 < 4" using assms by linarith+
  show "a div 4 * 4 + (a mod 4 * 16 + b div 16) div 16 = a"
    using q div_mult_mod_eq [of a 4] by simp
  have "(b mod 16 * 4 + c div 64) div 4 = b mod 16" using q by simp
  moreover have "(a mod 4 * 16 + b div 16) mod 16 = b div 16" using q by simp
  ultimately show "(a mod 4 * 16 + b div 16) mod 16 * 16 + (b mod 16 * 4 + c div 64) div 4 = b"
    using div_mult_mod_eq [of b 16] by simp
  have "(b mod 16 * 4 + c div 64) mod 4 = c div 64" using q by simp
  then show "(b mod 16 * 4 + c div 64) mod 4 * 64 + c mod 64 = c"
    using div_mult_mod_eq [of c 64] by simp
qed

lemma word_of_nat_unat: "word_of_nat (unat a) = (a :: byte)"
  by simp

lemma quad_bytes:
  "quad (unat a div 4) (unat a mod 4 * 16 + unat b div 16) (unat b mod 16 * 4 + unat c div 64) (unat c mod 64) = [a, b, c]"
  unfolding quad_def by (simp only: recombine [OF byte_lt byte_lt] word_of_nat_unat)

lemmas quad_bytes_2 = quad_bytes [of a b 0, simplified] for a b
lemmas quad_bytes_1 = quad_bytes [of a 0 0, simplified] for a

lemma b64_quads_encode: "b64_quads (b64_encode s) = Ret s"
proof (induction s rule: b64_encode.induct)
  case (2 a)
  then show ?case by (simp add: b64_char_facts quad_bytes_1)
next
  case (3 a b)
  then show ?case by (simp add: b64_char_facts quad_bytes_2)
next
  case (4 a b c rest)
  then show ?case by (simp add: b64_char_facts quad_bytes)
qed simp

lemma b64_encode_no_lines: "filter (\<lambda>b. b \<noteq> 10 \<and> b \<noteq> 13) (b64_encode s) = b64_encode s"
proof (induction s rule: b64_encode.induct)
qed (simp_all add: b64_char_facts)

lemma b64_roundtrip: "b64_decode (b64_encode s) = Ret s"
  by (simp add: b64_decode_def b64_encode_no_lines b64_quads_encode)

section \<open>Padding\<close>

definition PKCS7Padding :: "bytes \<Rightarrow> nat \<Rightarrow> bytes" where
  "PKCS7Padding ciphertext blockSize =
     (let padding = blockSize - length ciphertext mod blockSize in ciphertext @ replicate padding (word_of_nat padding))"

definition PKCS5Padding :: "bytes \<Rightarrow> nat \<Rightarrow> bytes" where
  "PKCS5Padding ciphertext blockSize =
     (let padding = blockSize - length ciphertext mod blockSize in ciphertext @ replicate padding (word_of_nat padding))"

definition PKCS7UnPadding :: "bytes \<Rightarrow> bytes outcome" where
  "PKCS7UnPadding origData =
     (if origData = [] then Panic
      else let unpadding = unat (last origData) in
        if length origData < unpadding then Panic else Ret (take (length origData - unpadding) origData))"

definition PKCS5UnPadding :: "bytes \<Rightarrow> bytes outcome" where
  "PKCS5UnPadding origData =
     (if origData = [] then Panic
      else let unpadding = unat (last origData) in
        if length origData < unpadding then Ret (str ''unpadding error'')
        else Ret (take (length origData - unpadding) origData))"

lemma PKCS7Padding_length: "0 < n \<Longrightarrow> length (PKCS7Padding d n) mod n = 0"
proof -
  assume "0 < n"
  then have "length d + (n - length d mod n) = length d div n * n + n"
    using div_mult_mod_eq [of "length d" n] mod_less_divisor [of n "length d"] by linarith
  then show ?thesis by (simp add: PKCS7Padding_def Let_def)
qed

lemma PKCS7_roundtrip:
  assumes "0 < n" and "n < 256"
  shows "PKCS7UnPadding (PKCS7Padding d n) = Ret d"
proof -
  define p where "p = n - length d mod n"
  have p: "0 < p" "p < 256" using assms mod_less_divisor [of n "length d"] by (simp_all add: p_def)
  then have "unat (word_of_nat p :: byte) = p" by (simp add: unat_of_nat)
  with p show ?thesis
    by (simp add: PKCS7Padding_def PKCS7UnPadding_def p_def [symmetric] Let_def last_append)
qed

lemma PKCS5_roundtrip: "0 < n \<Longrightarrow> n < 256 \<Longrightarrow> PKCS5UnPadding (PKCS5Padding d n) = Ret d"
  using PKCS7_roundtrip [of n d]
  by (auto simp: PKCS5UnPadding_def PKCS5Padding_def PKCS7UnPadding_def PKCS7Padding_def Let_def split: if_splits)

section \<open>Cipher block chaining\<close>

record block_cipher =
  bc_encrypt :: "bytes \<Rightarrow> bytes \<Rightarrow> bytes"
  bc_decrypt :: "bytes \<Rightarrow> bytes \<Rightarrow> bytes"

definition key_size_ok :: "bytes \<Rightarrow> bool" where
  "key_size_ok key \<longleftrightarrow> length key \<in> {16, 24, 32}"

definition cipher_ok :: "block_cipher \<Rightarrow> bool" where
  "cipher_ok bc \<longleftrightarrow> (\<forall>key blk. key_size_ok key \<longrightarrow> length blk = 16 \<longrightarrow>
     length (bc_encrypt bc key blk) = 16 \<and> bc_decrypt bc key (bc_encrypt bc key blk) = blk)"

definition xor_bytes :: "bytes \<Rightarrow> bytes \<Rightarrow> bytes" where
  "xor_bytes a b = map2 (XOR) a b"

function cbc_encrypt :: "(bytes \<Rightarrow> bytes) \<Rightarrow> bytes \<Rightarrow> bytes \<Rightarrow> bytes" where
  "cbc_encrypt E iv src =
     (if length src < 16 then []
      else let c = E (xor_bytes (take 16 src) iv) in c @ cbc_encrypt E c (drop 16 src))"
  by auto
termination by (relation "measure (\<lambda>(E, iv, src). length src)") auto

function cbc_decrypt :: "(bytes \<Rightarrow> bytes) \<Rightarrow> bytes \<Rightarrow> bytes \<Rightarrow> bytes" where
  "cbc_decrypt D iv src =
     (if length src < 16 then []
      else xor_bytes (D (take 16 src)) iv @ cbc_decrypt D (take 16 src) (drop 16 src))"
  by auto
termination by (relation "measure (\<lambda>(D, iv, src). length src)") auto

declare cbc_encrypt.simps [simp del] cbc_decrypt.simps [simp del]

definition ErrKeySize :: go_error where "ErrKeySize = ErrMsg ''crypto/aes: invalid key size''"

definition AesEncrypt :: "block_cipher \<Rightarrow> bytes \<Rightarrow> bytes \<Rightarrow> bytes \<Rightarrow> (bytes \<Rightarrow> nat \<Rightarrow> bytes) \<Rightarrow> bytes outcome" where
  "AesEncrypt bc origData key iv paddingFunc =
     (if \<not> key_size_ok key then Fail ErrKeySize
      else let origData = paddingFunc origData 16 in
        if length iv \<noteq> 16 then Panic
        else if length origData mod 16 \<noteq> 0 then Panic
        else Ret (cbc_encrypt (bc_encrypt bc key) iv origData))"

definition AesDecrypt :: "block_cipher \<Rightarrow> bytes \<Rightarrow> bytes \<Rightarrow> bytes \<Rightarrow> (bytes \<Rightarrow> bytes outcome) \<Rightarrow> bytes outcome" where
  "AesDecrypt bc crypted key iv unPaddingFunc =
     (if \<not> key_size_ok key then Fail ErrKeySize
      else if length iv \<noteq> 16 then Panic
      else if length crypted mod 16 \<noteq> 0 then Panic
      else unPaddingFunc (cbc_decrypt (bc_decrypt bc key) iv crypted))"

definition AesEncryptPkcs5 :: "block_cipher \<Rightarrow> bytes \<Rightarrow> bytes \<Rightarrow> bytes \<Rightarrow> bytes outcome" where
  "AesEncryptPkcs5 bc origData key iv = AesEncrypt bc origData key iv PKCS5Padding"

definition AesEncryptPkcs7 :: "block_cipher \<Rightarrow> bytes \<Rightarrow> bytes \<Rightarrow> bytes \<Rightarrow> bytes outcome" where
  "AesEncryptPkcs7 bc origData key iv = AesEncrypt bc origData key iv PKCS7Padding"

definition AesEncryptPkcs7Base64 :: "block_cipher \<Rightarrow> bytes \<Rightarrow> bytes \<Rightarrow> bytes \<Rightarrow> bytes outcome" where
  "AesEncryptPkcs7Base64 bc origData key iv =
     bindR (AesEncrypt bc origData key iv PKCS7Padding) (\<lambda>data. Ret (b64_encode data))"

definition AesDecryptPkcs5 :: "block_cipher \<Rightarrow> bytes \<Rightarrow> bytes \<Rightarrow> bytes \<Rightarrow> bytes outcome" where
  "AesDecryptPkcs5 bc crypted key iv = AesDecrypt bc crypted key iv PKCS5UnPadding"

definition AesDecryptPkcs7 :: "block_cipher \<Rightarrow> bytes \<Rightarrow> bytes \<Rightarrow> bytes \<Rightarrow> bytes outcome" where
  "AesDecryptPkcs7 bc crypted key iv = AesDecrypt bc crypted key iv PKCS7UnPadding"

definition AesDecryptPkcs7Base64 :: "block_cipher \<Rightarrow> bytes \<Rightarrow> bytes \<Rightarrow> bytes \<Rightarrow> bytes outcome" where
  "AesDecryptPkcs7Base64 bc crypted key iv =
     bindR (b64_decode crypted) (\<lambda>cryptedData. AesDecrypt bc cryptedData key iv PKCS7UnPadding)"

text \<open>The function named for encryption decrypts, as the source has it.\<close>

definition AesEncryptSimple :: "block_cipher \<Rightarrow> bytes \<Rightarrow> gostring \<Rightarrow> gostring \<Rightarrow> bytes outcome" where
  "AesEncryptSimple bc origData key iv = AesDecryptPkcs5 bc origData key iv"

definition AesDecryptSimple :: "block_cipher \<Rightarrow> bytes \<Rightarrow> gostring \<Rightarrow> gostring \<Rightarrow> bytes outcome" where
  "AesDecryptSimple bc crypted key iv = AesDecryptPkcs5 bc crypted key iv"

lemma xor_bytes_length [simp]: "length (xor_bytes a b) = min (length a) (length b)"
  by (simp add: xor_bytes_def)

lemma xor_bytes_cancel: "length a = length b \<Longrightarrow> xor_bytes (xor_bytes a b) b = a"
  by (induction a b rule: list_induct2) (simp_all add: xor_bytes_def xor.assoc)

text \<open>Decryption with the inverse block function undoes encryption, block by block.\<close>

lemma cbc_roundtrip:
  assumes "\<And>blk. length blk = 16 \<Longrightarrow> length (E blk) = 16 \<and> D (E blk) = blk"
    and "length iv = 16" and "length src mod 16 = 0"
  shows "length (cbc_encrypt E iv src) = length src \<and> cbc_decrypt D iv (cbc_encrypt E iv src) = src"
  using assms(2,3)
proof (induction "length src" arbitrary: iv src rule: less_induct)
  case less
  show ?case
  proof (cases "length src < 16")
    case True
    with less.prems have "src = []" by simp
    then show ?thesis by (simp add: cbc_encrypt.simps cbc_decrypt.simps)
  next
    case False
    define x where "x = xor_bytes (take 16 src) iv"
    define c where "c = E x"
    have x: "length x = 16" "xor_bytes x iv = take 16 src"
      using False less.prems(1) xor_bytes_cancel [of "take 16 src" iv] by (simp_all add: x_def)
    then have c: "length c = 16" "D c = x" using assms(1) [of x] by (simp_all add: c_def)
    have "length (drop 16 src) mod 16 = 0" using less.prems(2) False by (simp add: mod_if [of "length src"])
    with less.hyps [of "drop 16 src" c] False c(1)
    have IH: "length (cbc_encrypt E c (drop 16 src)) = length src - 16"
      "cbc_decrypt D c (cbc_encrypt E c (drop 16 src)) = drop 16 src" by simp_all
    have enc: "cbc_encrypt E iv src = c @ cbc_encrypt E c (drop 16 src)"
      using False by (subst cbc_encrypt.simps) (simp add: c_def x_def Let_def)
    moreover have "cbc_decrypt D iv (c @ cbc_encrypt E c (drop 16 src)) = src"
      using c x IH(2) by (subst cbc_decrypt.simps) simp
    ultimately show ?thesis using IH(1) c(1) False by simp
  qed
qed

lemma AesEncrypt_ret:
  assumes "cipher_ok bc" and "key_size_ok key" and "length iv = 16"
  shows "\<exists>data. AesEncrypt bc x key iv PKCS7Padding = Ret data \<and> AesDecrypt bc data key iv PKCS7UnPadding = Ret x"
proof -
  let ?p = "PKCS7Padding x 16"
  have len: "length ?p mod 16 = 0" by (rule PKCS7Padding_length) simp
  have "length (cbc_encrypt (bc_encrypt bc key) iv ?p) = length ?p \<and>
      cbc_decrypt (bc_decrypt bc key) iv (cbc_encrypt (bc_encrypt bc key) iv ?p) = ?p"
    using assms by (intro cbc_roundtrip len) (auto simp: cipher_ok_def)
  with len assms(2,3) PKCS7_roundtrip [of 16 x] show ?thesis
    by (simp add: AesEncrypt_def AesDecrypt_def)
qed

lemma Aes_roundtrip:
  assumes "cipher_ok bc" and "key_size_ok key" and "length iv = 16"
  shows "bindR (AesEncryptPkcs7Base64 bc x key iv) (\<lambda>data. AesDecryptPkcs7Base64 bc data key iv) = Ret x"
  using AesEncrypt_ret [OF assms, of x]
  by (auto simp: AesEncryptPkcs7Base64_def AesDecryptPkcs7Base64_def b64_roundtrip)

lemma AesEncryptPkcs7Base64_ret:
  assumes "cipher_ok bc" and "key_size_ok key" and "length iv = 16"
  shows "\<exists>data. AesEncryptPkcs7Base64 bc x key iv = Ret data \<and> AesDecryptPkcs7Base64 bc data key iv = Ret x"
  using AesEncrypt_ret [OF assms, of x]
  by (auto simp: AesEncryptPkcs7Base64_def AesDecryptPkcs7Base64_def b64_roundtrip)

text \<open>
  What a client can send as a payload: nothing at all makes the server panic, and so does any
  ciphertext that is no whole number of blocks, or whose last byte is more than its length.
\<close>

lemma AesDecryptPkcs7Base64_panics:
  assumes "key_size_ok key" and "length iv = 16"
  shows "AesDecryptPkcs7Base64 bc [] key iv = Panic"
    and "length c mod 16 \<noteq> 0 \<Longrightarrow> AesDecryptPkcs7Base64 bc (b64_encode c) key iv = Panic"
proof -
  have "b64_decode [] = Ret []" by (simp add: b64_decode_def)
  with assms show "AesDecryptPkcs7Base64 bc [] key iv = Panic"
    by (simp add: AesDecryptPkcs7Base64_def AesDecrypt_def PKCS7UnPadding_def cbc_decrypt.simps)
  show "length c mod 16 \<noteq> 0 \<Longrightarrow> AesDecryptPkcs7Base64 bc (b64_encode c) key iv = Panic"
    using assms by (simp add: AesDecryptPkcs7Base64_def b64_roundtrip AesDecrypt_def)
qed

section \<open>The hash\<close>

text \<open>\<open>MD5\<close>: the sixteen bytes of the digest in hexadecimal.\<close>

definition hex_digit :: "nat \<Rightarrow> byte" where
  "hex_digit n = (if n < 10 then word_of_nat (48 + n) else word_of_nat (87 + n))"

definition hex :: "bytes \<Rightarrow> gostring" where
  "hex bs = concat (map (\<lambda>b. [hex_digit (unat b div 16), hex_digit (unat b mod 16)]) bs)"

definition MD5 :: "(bytes \<Rightarrow> bytes) \<Rightarrow> gostring \<Rightarrow> gostring" where
  "MD5 md5 s = hex (md5 s)"

lemma length_hex: "length (hex bs) = 2 * length bs"
  by (induction bs) (simp_all add: hex_def)

end
