(* ===== verification/RingBuffer.thy ===== *)
theory RingBuffer
  imports Prelude "HOL-Library.While_Combinator"
begin

text \<open>
  The ring buffer behind every connection, \<^verbatim>\<open>pkg/ring/ring_buffer.go\<close>. A buffer is
  its backing array with a read and a write position; sizes and positions are never negative in the
  code, so they are natural numbers here. A slice expression or an index out of range panics.
  \<open>pool n\<close> stands for \<open>bsPool.Get(n)\<close> of the gnet library: a slice of length \<open>n\<close> whose
  content is arbitrary (\<open>pool_ok\<close>). The abstract view of a buffer is the queue of its unread bytes.
\<close>

section \<open>The buffer and its operations\<close>

record ring =
  rb_buf :: bytes
  rb_size :: nat
  rb_r :: nat
  rb_w :: nat
  rb_isEmpty :: bool

definition ErrIsEmpty :: go_error where
  "ErrIsEmpty = ErrMsg ''ring-buffer is empty''"

definition MinRead :: nat where "MinRead = 512"
definition DefaultBufferSize :: nat where "DefaultBufferSize = 1024"
definition bufferGrowThreshold :: nat where "bufferGrowThreshold = 4 * 1024"

definition CeilToPowerOfTwo :: "nat \<Rightarrow> nat outcome" where
  "CeilToPowerOfTwo n =
     (if n AND 2 ^ 62 \<noteq> 0 \<and> n > 2 ^ 62 then Panic
      else if n \<le> 2 then Ret 2
      else
        let n = n - 1;
            n = n OR drop_bit 1 n;
            n = n OR drop_bit 2 n;
            n = n OR drop_bit 4 n;
            n = n OR drop_bit 8 n;
            n = n OR drop_bit 16 n
        in Ret (n + 1))"

definition ring_New :: "nat \<Rightarrow> ring outcome" where
  "ring_New n =
     (if n = 0 then Ret \<lparr>rb_buf = [], rb_size = 0, rb_r = 0, rb_w = 0, rb_isEmpty = True\<rparr>
      else bindR (CeilToPowerOfTwo n) (\<lambda>n.
        Ret \<lparr>rb_buf = replicate n 0, rb_size = n, rb_r = 0, rb_w = 0, rb_isEmpty = True\<rparr>))"

definition ring_Reset :: "ring \<Rightarrow> ring" where
  "ring_Reset rb = rb\<lparr>rb_isEmpty := True, rb_r := 0, rb_w := 0\<rparr>"

definition ring_Buffered :: "ring \<Rightarrow> nat" where
  "ring_Buffered rb =
     (if rb_r rb = rb_w rb then (if rb_isEmpty rb then 0 else rb_size rb)
      else if rb_w rb > rb_r rb then rb_w rb - rb_r rb
      else rb_size rb - rb_r rb + rb_w rb)"

definition ring_Len :: "ring \<Rightarrow> nat" where
  "ring_Len rb = length (rb_buf rb)"

definition ring_Cap :: "ring \<Rightarrow> nat" where
  "ring_Cap rb = rb_size rb"

definition ring_Available :: "ring \<Rightarrow> nat" where
  "ring_Available rb =
     (if rb_r rb = rb_w rb then (if rb_isEmpty rb then rb_size rb else 0)
      else if rb_w rb < rb_r rb then rb_r rb - rb_w rb
      else rb_size rb - rb_w rb + rb_r rb)"

definition ring_IsFull :: "ring \<Rightarrow> bool" where
  "ring_IsFull rb \<longleftrightarrow> rb_r rb = rb_w rb \<and> \<not> rb_isEmpty rb"

definition ring_IsEmpty :: "ring \<Rightarrow> bool" where
  "ring_IsEmpty rb \<longleftrightarrow> rb_isEmpty rb"

text \<open>The slices \<open>head\<close> and \<open>tail\<close> that \<open>Peek\<close> returns.\<close>

definition ring_peekAll :: "ring \<Rightarrow> (bytes \<times> bytes) outcome" where
  "ring_peekAll rb =
     (if rb_isEmpty rb then Ret ([], [])
      else if rb_w rb > rb_r rb then bindR (slice (rb_buf rb) (rb_r rb) (rb_w rb)) (\<lambda>head. Ret (head, []))
      else bindR (slice (rb_buf rb) (rb_r rb) (length (rb_buf rb))) (\<lambda>head.
        if rb_w rb \<noteq> 0 then bindR (slice (rb_buf rb) 0 (rb_w rb)) (\<lambda>tail. Ret (head, tail))
        else Ret (head, [])))"

definition ring_Peek :: "int \<Rightarrow> ring \<Rightarrow> (bytes \<times> bytes) outcome" where
  "ring_Peek n rb =
     (if rb_isEmpty rb then Ret ([], [])
      else if n \<le> 0 then ring_peekAll rb
      else if rb_w rb > rb_r rb then
        (let m = min (rb_w rb - rb_r rb) (nat n) in
         bindR (slice (rb_buf rb) (rb_r rb) (rb_r rb + m)) (\<lambda>head. Ret (head, [])))
      else
        (let m = min (rb_size rb - rb_r rb + rb_w rb) (nat n) in
         if rb_r rb + m \<le> rb_size rb then
           bindR (slice (rb_buf rb) (rb_r rb) (rb_r rb + m)) (\<lambda>head. Ret (head, []))
         else
           bindR (slice (rb_buf rb) (rb_r rb) (length (rb_buf rb))) (\<lambda>head.
           bindR (slice (rb_buf rb) 0 (m - (rb_size rb - rb_r rb))) (\<lambda>tail. Ret (head, tail)))))"

definition ring_Discard :: "int \<Rightarrow> ring \<Rightarrow> int \<times> ring" where
  "ring_Discard n rb =
     (if n \<le> 0 then (0, rb)
      else if n < int (ring_Buffered rb) then (n, rb\<lparr>rb_r := (rb_r rb + nat n) mod rb_size rb\<rparr>)
      else (int (ring_Buffered rb), ring_Reset rb))"

text \<open>\<open>Read(p)\<close> with \<open>k = len(p)\<close>: the bytes copied to the front of \<open>p\<close>, or the error, and the buffer.\<close>

definition ring_Read :: "nat \<Rightarrow> ring \<Rightarrow> bytes outcome \<times> ring" where
  "ring_Read k rb =
     (if k = 0 then (Ret [], rb)
      else if rb_isEmpty rb then (Fail ErrIsEmpty, rb)
      else if rb_w rb > rb_r rb then
        (let n = min (rb_w rb - rb_r rb) k in
         case slice (rb_buf rb) (rb_r rb) (rb_r rb + n) of
           Ret data \<Rightarrow>
             (let rb = rb\<lparr>rb_r := rb_r rb + n\<rparr> in
              (Ret data, if rb_r rb = rb_w rb then ring_Reset rb else rb))
         | e \<Rightarrow> (e, rb))
      else
        (let n = min (rb_size rb - rb_r rb + rb_w rb) k in
         case (if rb_r rb + n \<le> rb_size rb then slice (rb_buf rb) (rb_r rb) (rb_r rb + n)
               else bindR (slice (rb_buf rb) (rb_r rb) (length (rb_buf rb))) (\<lambda>front.
                    bindR (slice (rb_buf rb) 0 (n - (rb_size rb - rb_r rb))) (\<lambda>back. Ret (front @ back)))) of
           Ret data \<Rightarrow>
             (let rb = rb\<lparr>rb_r := (rb_r rb + n) mod rb_size rb\<rparr> in
              (Ret data, if rb_r rb = rb_w rb then ring_Reset rb else rb))
         | e \<Rightarrow> (e, rb)))"

definition ring_ReadByte :: "ring \<Rightarrow> byte outcome \<times> ring" where
  "ring_ReadByte rb =
     (if rb_isEmpty rb then (Fail ErrIsEmpty, rb)
      else if rb_r rb \<ge> length (rb_buf rb) then (Panic, rb)
      else
        let b = rb_buf rb ! rb_r rb;
            rb = rb\<lparr>rb_r := rb_r rb + 1\<rparr>;
            rb = (if rb_r rb = rb_size rb then rb\<lparr>rb_r := 0\<rparr> else rb)
        in (Ret b, if rb_r rb = rb_w rb then ring_Reset rb else rb))"

definition ring_Bytes :: "ring \<Rightarrow> bytes outcome" where
  "ring_Bytes rb =
     (if rb_isEmpty rb then Ret []
      else if rb_w rb = rb_r rb then
        bindR (slice (rb_buf rb) (rb_r rb) (length (rb_buf rb))) (\<lambda>front.
        bindR (slice (rb_buf rb) 0 (rb_w rb)) (\<lambda>back. Ret (front @ back)))
      else if rb_w rb > rb_r rb then slice (rb_buf rb) (rb_r rb) (rb_w rb)
      else
        bindR (slice (rb_buf rb) (rb_r rb) (length (rb_buf rb))) (\<lambda>front.
        if rb_w rb \<noteq> 0 then bindR (slice (rb_buf rb) 0 (rb_w rb)) (\<lambda>back. Ret (front @ back))
        else Ret front))"

section \<open>Growing and writing\<close>

text \<open>\<open>copy(buf[off:], src)\<close>.\<close>

definition copy_at :: "nat \<Rightarrow> bytes \<Rightarrow> bytes \<Rightarrow> bytes outcome" where
  "copy_at off src buf =
     (if off \<le> length buf then Ret (take off buf @ take (length buf - off) src @ drop (off + length src) buf)
      else Panic)"

definition grown_cap :: "nat \<Rightarrow> nat \<Rightarrow> nat outcome" where
  "grown_cap n newCap =
     (if n = 0 then (if newCap \<le> DefaultBufferSize then Ret DefaultBufferSize else CeilToPowerOfTwo newCap)
      else if newCap \<le> n + n then
        (if n < bufferGrowThreshold then Ret (n + n)
         else let n = while (\<lambda>n. 0 < n \<and> n < newCap) (\<lambda>n. n + n div 4) n in Ret (if n > 0 then n else newCap))
      else Ret newCap)"

definition ring_grow :: "(nat \<Rightarrow> bytes) \<Rightarrow> nat \<Rightarrow> ring \<Rightarrow> ring outcome" where
  "ring_grow pool newCap rb =
     bindR (grown_cap (rb_size rb) newCap) (\<lambda>newCap.
       let newBuf = pool newCap; oldLen = ring_Buffered rb in
       case ring_Read (length newBuf) rb of
         (Panic, _) \<Rightarrow> Panic
       | (r, rb) \<Rightarrow>
           (let data = (case r of Ret data \<Rightarrow> data | _ \<Rightarrow> []) in
            Ret (rb\<lparr>rb_buf := data @ drop (length data) newBuf, rb_r := 0, rb_w := oldLen, rb_size := newCap,
                    rb_isEmpty := (if oldLen > 0 then False else rb_isEmpty rb)\<rparr>)))"

text \<open>\<open>Write\<close> first makes room, then copies: in one piece, or around the end of the array.\<close>

definition ring_put :: "bytes \<Rightarrow> ring \<Rightarrow> (nat \<times> ring) outcome" where
  "ring_put p rb =
     (let n = length p in
      bindR (if rb_w rb \<ge> rb_r rb then
               (let c1 = rb_size rb - rb_w rb in
                if c1 \<ge> n then bindR (copy_at (rb_w rb) p (rb_buf rb)) (\<lambda>b. Ret (b, rb_w rb + n))
                else bindR (copy_at (rb_w rb) (take c1 p) (rb_buf rb)) (\<lambda>b.
                     bindR (copy_at 0 (drop c1 p) b) (\<lambda>b. Ret (b, n - c1))))
             else bindR (copy_at (rb_w rb) p (rb_buf rb)) (\<lambda>b. Ret (b, rb_w rb + n))) (\<lambda>(b, w).
      Ret (n, rb\<lparr>rb_buf := b, rb_w := (if w = rb_size rb then 0 else w), rb_isEmpty := False\<rparr>)))"

definition ring_Write :: "(nat \<Rightarrow> bytes) \<Rightarrow> bytes \<Rightarrow> ring \<Rightarrow> (nat \<times> ring) outcome" where
  "ring_Write pool p rb =
     (let n = length p in
      if n = 0 then Ret (n, rb)
      else let free = ring_Available rb in
        bindR (if n > free then ring_grow pool (rb_size rb + n - free) rb else Ret rb) (ring_put p))"

definition ring_WriteByte :: "(nat \<Rightarrow> bytes) \<Rightarrow> byte \<Rightarrow> ring \<Rightarrow> ring outcome" where
  "ring_WriteByte pool c rb =
     bindR (if ring_Available rb < 1 then ring_grow pool 1 rb else Ret rb) (\<lambda>rb.
       if rb_w rb \<ge> length (rb_buf rb) then Panic
       else let w = rb_w rb + 1 in
         Ret (rb\<lparr>rb_buf := (rb_buf rb)[rb_w rb := c], rb_w := (if w = rb_size rb then 0 else w), rb_isEmpty := False\<rparr>))"

definition ring_WriteString :: "(nat \<Rightarrow> bytes) \<Rightarrow> gostring \<Rightarrow> ring \<Rightarrow> (nat \<times> ring) outcome" where
  "ring_WriteString pool s rb = ring_Write pool s rb"

section \<open>Readers and writers\<close>

text \<open>
  An \<open>io.Writer\<close> in state \<open>s\<close> answers the number of bytes it took and perhaps an error;
  an \<open>io.Reader\<close> that may fill \<open>k\<close> bytes answers the bytes and perhaps an error.
\<close>

type_synonym 's writer = "'s \<Rightarrow> bytes \<Rightarrow> (nat \<times> go_error option) \<times> 's"
type_synonym 's io_reader = "'s \<Rightarrow> nat \<Rightarrow> (bytes \<times> go_error option) \<times> 's"

definition ErrShortWrite :: go_error where
  "ErrShortWrite = ErrMsg ''short write''"

definition write_result :: "nat \<Rightarrow> go_error option \<Rightarrow> ring \<Rightarrow> nat \<times> go_error option" where
  "write_result m err rb =
     (m, case err of Some e \<Rightarrow> Some e | None \<Rightarrow> if rb_isEmpty rb then None else Some ErrShortWrite)"

definition reset_if_drained :: "ring \<Rightarrow> ring" where
  "reset_if_drained rb = (if rb_r rb = rb_w rb then ring_Reset rb else rb)"

definition ring_WriteTo :: "'s writer \<Rightarrow> 's \<Rightarrow> ring \<Rightarrow> ((nat \<times> go_error option) \<times> 's \<times> ring) outcome" where
  "ring_WriteTo wr s rb =
     (if rb_isEmpty rb then Ret ((0, Some ErrIsEmpty), s, rb)
      else if rb_w rb > rb_r rb then
        (let n = rb_w rb - rb_r rb in
         bindR (slice (rb_buf rb) (rb_r rb) (rb_r rb + n)) (\<lambda>data.
           let ((m, err), s) = wr s data in
           if m > n then Panic
           else let rb = reset_if_drained (rb\<lparr>rb_r := rb_r rb + m\<rparr>) in
             Ret (write_result m err rb, s, rb)))
      else
        (let n = rb_size rb - rb_r rb + rb_w rb in
         if rb_r rb + n \<le> rb_size rb then
           bindR (slice (rb_buf rb) (rb_r rb) (rb_r rb + n)) (\<lambda>data.
             let ((m, err), s) = wr s data in
             if m > n then Panic
             else let rb = reset_if_drained (rb\<lparr>rb_r := (rb_r rb + m) mod rb_size rb\<rparr>) in
               Ret (write_result m err rb, s, rb))
         else
           (let c1 = rb_size rb - rb_r rb; c2 = n - c1 in
            bindR (slice (rb_buf rb) (rb_r rb) (length (rb_buf rb))) (\<lambda>data.
              let ((m, err), s) = wr s data in
              if m > c1 then Panic
              else let rb = rb\<lparr>rb_r := (rb_r rb + m) mod rb_size rb\<rparr> in
                case err of
                  Some e \<Rightarrow> Ret ((m, Some e), s, rb)
                | None \<Rightarrow>
                    if m < c1 then Ret ((m, Some ErrShortWrite), s, rb)
                    else bindR (slice (rb_buf rb) 0 c2) (\<lambda>data.
                      let ((m2, err), s) = wr s data in
                      if m2 > c2 then Panic
                      else let rb = reset_if_drained (rb\<lparr>rb_r := m2\<rparr>) in
                        Ret (write_result (m + m2) err rb, s, rb))))))"

text \<open>
  \<open>ReadFrom\<close> reads until the reader reports an error or the end of its input; a reader that never
  does keeps it running. One call of the reader fills the array from position \<open>off\<close>; \<open>room\<close>
  is the length of the slice it is given.
\<close>

definition fill :: "'s io_reader \<Rightarrow> nat \<Rightarrow> nat \<Rightarrow> 's \<Rightarrow> ring \<Rightarrow> ((nat \<times> go_error option) \<times> 's \<times> ring) outcome" where
  "fill rd off room s rb =
     (let ((data, err), s) = rd s room; m = length data in
      bindR (copy_at off data (rb_buf rb)) (\<lambda>b.
        Ret ((m, err), s, rb\<lparr>rb_buf := b, rb_w := (rb_w rb + m) mod rb_size rb\<rparr>)))"

definition read_result :: "nat \<Rightarrow> go_error \<Rightarrow> nat \<times> go_error option" where
  "read_result n e = (n, if e = ErrEOF then None else Some e)"

partial_function (option) ring_ReadFrom ::
  "(nat \<Rightarrow> bytes) \<Rightarrow> 's io_reader \<Rightarrow> nat \<Rightarrow> 's \<Rightarrow> ring \<Rightarrow> ((nat \<times> go_error option) \<times> 's \<times> ring) outcome option" where
  "ring_ReadFrom pool rd n s rb =
     (case (if ring_Available rb < MinRead then ring_grow pool (ring_Buffered rb + MinRead) rb else Ret rb) of
        Ret rb \<Rightarrow>
          (if rb_w rb \<ge> rb_r rb then
             (case fill rd (rb_w rb) (length (rb_buf rb) - rb_w rb) s (rb\<lparr>rb_isEmpty := False\<rparr>) of
                Ret ((m, Some e), s, rb) \<Rightarrow> Some (Ret (read_result (n + m) e, s, rb))
              | Ret ((m, None), s, rb) \<Rightarrow>
                  (case fill rd 0 (rb_r rb) s rb of
                     Ret ((m2, Some e), s, rb) \<Rightarrow> Some (Ret (read_result (n + m + m2) e, s, rb))
                   | Ret ((m2, None), s, rb) \<Rightarrow> ring_ReadFrom pool rd (n + m + m2) s rb
                   | Fail e \<Rightarrow> Some (Fail e) | Panic \<Rightarrow> Some Panic)
              | Fail e \<Rightarrow> Some (Fail e) | Panic \<Rightarrow> Some Panic)
           else
             (case fill rd (rb_w rb) (rb_r rb - rb_w rb) s (rb\<lparr>rb_isEmpty := False\<rparr>) of
                Ret ((m, Some e), s, rb) \<Rightarrow> Some (Ret (read_result (n + m) e, s, rb))
              | Ret ((m, None), s, rb) \<Rightarrow> ring_ReadFrom pool rd (n + m) s rb
              | Fail e \<Rightarrow> Some (Fail e) | Panic \<Rightarrow> Some Panic))
      | Fail e \<Rightarrow> Some (Fail e)
      | Panic \<Rightarrow> Some Panic)"

section \<open>The queue of unread bytes\<close>

definition pool_ok :: "(nat \<Rightarrow> bytes) \<Rightarrow> bool" where
  "pool_ok pool \<longleftrightarrow> (\<forall>n. length (pool n) = n)"

definition contents :: "ring \<Rightarrow> bytes" where
  "contents rb =
     (if rb_isEmpty rb then []
      else if rb_r rb < rb_w rb then take (rb_w rb - rb_r rb) (drop (rb_r rb) (rb_buf rb))
      else drop (rb_r rb) (rb_buf rb) @ take (rb_w rb) (rb_buf rb))"

definition ring_ok :: "ring \<Rightarrow> bool" where
  "ring_ok rb \<longleftrightarrow> length (rb_buf rb) = rb_size rb \<and>
     (if rb_isEmpty rb then rb_r rb = 0 \<and> rb_w rb = 0 else rb_r rb < rb_size rb \<and> rb_w rb < rb_size rb)"

lemma length_contents: "ring_ok rb \<Longrightarrow> length (contents rb) = ring_Buffered rb"
  by (auto simp: ring_ok_def contents_def ring_Buffered_def split: if_splits)

lemma Available_Buffered: "ring_ok rb \<Longrightarrow> ring_Available rb + ring_Buffered rb = rb_size rb"
  by (auto simp: ring_ok_def ring_Available_def ring_Buffered_def split: if_splits)

lemma contents_Nil_iff: "ring_ok rb \<Longrightarrow> contents rb = [] \<longleftrightarrow> ring_IsEmpty rb"
  by (auto simp: ring_ok_def contents_def ring_IsEmpty_def split: if_splits)

lemma Reset_ok: "ring_ok rb \<Longrightarrow> ring_ok (ring_Reset rb) \<and> contents (ring_Reset rb) = []"
  by (simp add: ring_ok_def ring_Reset_def contents_def)

lemma New_ok:
  assumes "ring_New n = Ret rb"
  shows "ring_ok rb \<and> contents rb = []"
  using assms by (auto simp: ring_New_def ring_ok_def contents_def bindR_eq_Ret split: if_splits)

subsection \<open>Reading\<close>

lemma Bytes_contents: "ring_ok rb \<Longrightarrow> ring_Bytes rb = Ret (contents rb)"
  by (auto simp: ring_ok_def contents_def ring_Bytes_def slice_def split: if_splits)

lemma Peek_contents:
  assumes "ring_ok rb"
  shows "\<exists>head tail. ring_Peek n rb = Ret (head, tail) \<and>
    head @ tail = (if n \<le> 0 then contents rb else take (nat n) (contents rb))"
proof (cases "rb_isEmpty rb")
  case True
  then show ?thesis by (simp add: ring_Peek_def contents_def)
next
  case False
  show ?thesis
  proof (cases "n \<le> 0")
    case True
    with False assms show ?thesis
      by (auto simp: ring_Peek_def ring_peekAll_def contents_def ring_ok_def slice_def split: if_splits)
  next
    case pos: False
    with False assms show ?thesis
      by (auto simp: ring_Peek_def contents_def ring_ok_def slice_def Let_def min_def split: if_splits)
        (rule arg_cong [where f = "\<lambda>k. take k (rb_buf rb)"], arith)
  qed
qed

lemma wrap_mod: "(a :: nat) < b + b \<Longrightarrow> a mod b = (if a < b then a else a - b)"
  by (simp add: le_mod_geq)

text \<open>Taking \<open>n\<close> bytes off the front of a buffer that has more.\<close>

lemma advance_contents:
  assumes "ring_ok rb" and "n < ring_Buffered rb"
  shows "ring_ok (rb\<lparr>rb_r := (rb_r rb + n) mod rb_size rb\<rparr>)"
    and "contents (rb\<lparr>rb_r := (rb_r rb + n) mod rb_size rb\<rparr>) = drop n (contents rb)"
    and "\<not> rb_isEmpty rb" and "rb_r rb + n < rb_size rb \<or> (rb_r rb + n) mod rb_size rb = rb_r rb + n - rb_size rb"
    and "rb_r rb < rb_w rb \<Longrightarrow> rb_r rb + n < rb_w rb"
    and "(rb_r rb + n) mod rb_size rb = rb_w rb \<Longrightarrow> n = 0"
proof -
  show ne: "\<not> rb_isEmpty rb"
    using assms by (auto simp: ring_ok_def ring_Buffered_def split: if_splits)
  have len: "length (rb_buf rb) = rb_size rb" and r: "rb_r rb < rb_size rb" and w: "rb_w rb < rb_size rb"
    using assms(1) ne by (auto simp: ring_ok_def)
  show "rb_r rb + n < rb_size rb \<or> (rb_r rb + n) mod rb_size rb = rb_r rb + n - rb_size rb"
    using assms(2) r w wrap_mod [of "rb_r rb + n" "rb_size rb"] by (auto simp: ring_Buffered_def split: if_splits)
  show "rb_r rb < rb_w rb \<Longrightarrow> rb_r rb + n < rb_w rb"
    using assms(2) by (simp add: ring_Buffered_def)
  show "ring_ok (rb\<lparr>rb_r := (rb_r rb + n) mod rb_size rb\<rparr>)"
    using len ne r w by (auto simp: ring_ok_def)
  have cases: "rb_r rb + n < rb_size rb \<and> (rb_r rb + n) mod rb_size rb = rb_r rb + n \<or>
      rb_size rb \<le> rb_r rb + n \<and> rb_r rb + n - rb_size rb < rb_w rb \<and> rb_w rb \<le> rb_r rb \<and>
      (rb_r rb + n) mod rb_size rb = rb_r rb + n - rb_size rb"
    using assms(2) ne r w wrap_mod [of "rb_r rb + n" "rb_size rb"] by (auto simp: ring_Buffered_def split: if_splits)
  then show "(rb_r rb + n) mod rb_size rb = rb_w rb \<Longrightarrow> n = 0"
    using assms(2) ne r w by (auto simp: ring_Buffered_def split: if_splits)
  from cases show "contents (rb\<lparr>rb_r := (rb_r rb + n) mod rb_size rb\<rparr>) = drop n (contents rb)"
  proof
    assume "rb_r rb + n < rb_size rb \<and> (rb_r rb + n) mod rb_size rb = rb_r rb + n"
    then show ?thesis
      using assms(2) ne len w by (auto simp: contents_def ring_Buffered_def drop_take add.commute split: if_splits)
  next
    assume "rb_size rb \<le> rb_r rb + n \<and> rb_r rb + n - rb_size rb < rb_w rb \<and> rb_w rb \<le> rb_r rb \<and>
      (rb_r rb + n) mod rb_size rb = rb_r rb + n - rb_size rb"
    then show ?thesis
      using ne len r w by (simp add: contents_def drop_take add.commute)
  qed
qed

lemma Discard_contents:
  assumes "ring_ok rb"
  shows "ring_ok (snd (ring_Discard n rb))"
    and "contents (snd (ring_Discard n rb)) = drop (nat n) (contents rb)"
    and "fst (ring_Discard n rb) = int (min (nat n) (length (contents rb)))"
proof -
  consider "n \<le> 0" | "0 < n" "nat n < ring_Buffered rb" | "0 < n" "ring_Buffered rb \<le> nat n" by linarith
  then have "ring_ok (snd (ring_Discard n rb)) \<and> contents (snd (ring_Discard n rb)) = drop (nat n) (contents rb) \<and>
    fst (ring_Discard n rb) = int (min (nat n) (length (contents rb)))"
    using assms advance_contents(1,2) [OF assms, of "nat n"] Reset_ok [OF assms]
    by cases (auto simp: ring_Discard_def length_contents [OF assms] zless_nat_conj nat_less_iff)
  then show "ring_ok (snd (ring_Discard n rb))" "contents (snd (ring_Discard n rb)) = drop (nat n) (contents rb)"
    "fst (ring_Discard n rb) = int (min (nat n) (length (contents rb)))" by simp_all
qed

lemma Read_contents:
  assumes "ring_ok rb" and "0 < k" and "contents rb \<noteq> []"
  shows "\<exists>rb'. ring_Read k rb = (Ret (take k (contents rb)), rb') \<and> ring_ok rb' \<and> contents rb' = drop k (contents rb)"
proof -
  have ne: "\<not> rb_isEmpty rb" using assms(1,3) by (auto simp: contents_def)
  have len: "length (rb_buf rb) = rb_size rb" and r: "rb_r rb < rb_size rb" and w: "rb_w rb < rb_size rb"
    using assms(1) ne by (auto simp: ring_ok_def)
  define rb' where "rb' = (if k < ring_Buffered rb then rb\<lparr>rb_r := (rb_r rb + k) mod rb_size rb\<rparr> else ring_Reset rb)"
  have ok: "ring_ok rb' \<and> contents rb' = drop k (contents rb)"
    using advance_contents(1,2) [OF assms(1), of k] Reset_ok [OF assms(1)] length_contents [OF assms(1)]
    by (auto simp: rb'_def)
  have "ring_Read k rb = (Ret (take k (contents rb)), rb')"
  proof (cases "rb_r rb < rb_w rb")
    case True
    with assms(2) ne len w show ?thesis
      by (auto simp: ring_Read_def contents_def slice_def rb'_def ring_Buffered_def ring_Reset_def min_def Let_def)
  next
    case False
    have *: "(rb_r rb + (rb_size rb - rb_r rb + rb_w rb)) mod rb_size rb = rb_w rb" using r w by simp
    show ?thesis
    proof (cases "k < ring_Buffered rb")
      case True
      then have "(rb_r rb + k) mod rb_size rb \<noteq> rb_w rb"
        using advance_contents(6) [OF assms(1), of k] assms(2) by auto
      with True False assms(2) ne len r w show ?thesis
        by (auto simp: ring_Read_def contents_def slice_def rb'_def ring_Buffered_def min_def Let_def add.commute split: if_splits)
    next
      case full: False
      with False ne r w have "min (rb_size rb - rb_r rb + rb_w rb) k = rb_size rb - rb_r rb + rb_w rb"
        by (auto simp: ring_Buffered_def split: if_splits)
      with full False assms(2) ne len r w * show ?thesis
        by (auto simp: ring_Read_def contents_def slice_def rb'_def ring_Buffered_def ring_Reset_def Let_def split: if_splits)
    qed
  qed
  with ok show ?thesis by blast
qed

lemma Read_empty: "ring_ok rb \<Longrightarrow> 0 < k \<Longrightarrow> contents rb = [] \<Longrightarrow> ring_Read k rb = (Fail ErrIsEmpty, rb)"
  by (simp add: contents_Nil_iff ring_IsEmpty_def ring_Read_def)

lemma ReadByte_contents:
  assumes "ring_ok rb" and "contents rb = b # bs"
  shows "\<exists>rb'. ring_ReadByte rb = (Ret b, rb') \<and> ring_ok rb' \<and> contents rb' = bs"
proof -
  from Read_contents [OF assms(1), of 1] assms(2) obtain rb' where
    *: "ring_Read 1 rb = (Ret [b], rb')" "ring_ok rb'" "contents rb' = bs" by auto
  have ne: "\<not> rb_isEmpty rb" using assms(1,2) by (auto simp: contents_def)
  then have len: "length (rb_buf rb) = rb_size rb" and r: "rb_r rb < rb_size rb" and w: "rb_w rb < rb_size rb"
    using assms(1) by (auto simp: ring_ok_def)
  have b: "rb_buf rb ! rb_r rb = b"
  proof -
    have "hd (contents rb) = rb_buf rb ! rb_r rb"
      using ne len r w by (simp add: contents_def hd_take hd_append hd_drop_conv_nth)
    with assms(2) show ?thesis by simp
  qed
  have read1: "slice (rb_buf rb) (rb_r rb) (rb_r rb + 1) = Ret [rb_buf rb ! rb_r rb]"
    using len r by (simp add: slice_def take_Suc_conv_app_nth hd_drop_conv_nth take_Suc)
  have n: "min (rb_w rb - rb_r rb) 1 = 1" if "rb_r rb < rb_w rb" using that by simp
  have n': "min (rb_size rb - rb_r rb + rb_w rb) 1 = 1" using r by simp
  have next_r: "(rb_r rb + 1) mod rb_size rb = (if rb_r rb + 1 = rb_size rb then 0 else rb_r rb + 1)"
    using r by simp
  have "ring_ReadByte rb = (Ret (rb_buf rb ! rb_r rb), snd (ring_Read 1 rb))"
  proof (cases "rb_r rb < rb_w rb")
    case True
    with ne len r w read1 n [OF True] show ?thesis
      by (simp add: ring_ReadByte_def ring_Read_def Let_def)
  next
    case False
    with ne len r read1 n' next_r show ?thesis
      by (simp add: ring_ReadByte_def ring_Read_def Let_def)
  qed
  with * b show ?thesis by simp
qed

subsection \<open>Growing and writing\<close>

lemma nat_le_or: "(m :: nat) \<le> m OR n"
proof -
  have "int m \<le> int m OR int n" by (rule or_greater_eq) simp
  then have "int m \<le> int (m OR n)" by (simp add: of_nat_or_eq)
  then show ?thesis by simp
qed

lemma or_grows: "(m :: nat) \<le> a \<Longrightarrow> m \<le> a OR b"
  using nat_le_or order_trans by blast

lemma CeilToPowerOfTwo_ge: "CeilToPowerOfTwo n = Ret m \<Longrightarrow> n \<le> m \<and> 2 \<le> m"
proof -
  assume a: "CeilToPowerOfTwo n = Ret m"
  show ?thesis
  proof (cases "n \<le> 2")
    case True
    with a show ?thesis by (simp add: CeilToPowerOfTwo_def split: if_splits)
  next
    case False
    define a1 where "a1 = n - 1 OR drop_bit 1 (n - 1)"
    define a2 where "a2 = a1 OR drop_bit 2 a1"
    define a3 where "a3 = a2 OR drop_bit 4 a2"
    define a4 where "a4 = a3 OR drop_bit 8 a3"
    define a5 where "a5 = a4 OR drop_bit 16 a4"
    have "n - 1 \<le> a5" unfolding a5_def a4_def a3_def a2_def a1_def by (intro or_grows order_refl)
    moreover have "m = a5 + 1"
      using a False unfolding CeilToPowerOfTwo_def Let_def
      by (simp only: a1_def [symmetric] a2_def [symmetric] a3_def [symmetric] a4_def [symmetric] a5_def [symmetric]
          if_False split: if_splits) simp_all
    ultimately show ?thesis using False by linarith
  qed
qed

lemma CeilToPowerOfTwo_total: "n \<le> 2 ^ 62 \<Longrightarrow> \<exists>m. CeilToPowerOfTwo n = Ret m"
  by (simp add: CeilToPowerOfTwo_def Let_def)

lemma quarter_loop:
  fixes n newCap :: nat
  assumes "4 \<le> n"
  shows "newCap \<le> while (\<lambda>n. 0 < n \<and> n < newCap) (\<lambda>n. n + n div 4) n"
proof (rule while_rule [where P = "\<lambda>n. 4 \<le> n" and r = "measure (\<lambda>n. newCap - n)"])
  fix s :: nat assume "4 \<le> s" "0 < s \<and> s < newCap"
  moreover from this have "0 < s div 4" by simp
  ultimately show "(s + s div 4, s) \<in> measure (\<lambda>n. newCap - n)"
    unfolding in_measure by linarith
qed (use assms in auto)

lemma grown_cap_ge: "grown_cap n newCap = Ret c \<Longrightarrow> newCap \<le> c"
  using quarter_loop [of n newCap] CeilToPowerOfTwo_ge [of newCap c]
  by (auto simp: grown_cap_def bufferGrowThreshold_def Let_def split: if_splits)

lemma grow_contents:
  assumes "pool_ok pool" and "ring_ok rb" and "ring_Buffered rb < newCap" and "ring_grow pool newCap rb = Ret rb'"
  shows "ring_ok rb'" and "contents rb' = contents rb" and "newCap \<le> rb_size rb'"
    and "ring_Buffered rb' = ring_Buffered rb"
proof -
  from assms(4) obtain c where c: "grown_cap (rb_size rb) newCap = Ret c"
    by (auto simp: ring_grow_def bindR_eq_Ret)
  then have le: "newCap \<le> c" by (rule grown_cap_ge)
  have len: "length (pool c) = c" using assms(1) by (simp add: pool_ok_def)
  have "ring_ok rb' \<and> contents rb' = contents rb \<and> rb_size rb' = c"
  proof (cases "contents rb = []")
    case True
    then have "rb_isEmpty rb" "ring_Buffered rb = 0"
      using assms(2) length_contents [OF assms(2), symmetric] by (simp_all add: contents_Nil_iff ring_IsEmpty_def)
    moreover have "ring_Read c rb = (Fail ErrIsEmpty, rb)"
      using True assms(2,3) le by (intro Read_empty) simp_all
    ultimately have "rb' = rb\<lparr>rb_buf := pool c, rb_r := 0, rb_w := 0, rb_size := c\<rparr>"
      using assms(4) c len by (simp add: ring_grow_def Let_def)
    with \<open>rb_isEmpty rb\<close> True len show ?thesis by (simp add: ring_ok_def contents_def)
  next
    case False
    from Read_contents [OF assms(2) _ False, of c] assms(3) le obtain rb1 where
      rb1: "ring_Read c rb = (Ret (take c (contents rb)), rb1)" by auto
    have b: "length (contents rb) = ring_Buffered rb" using assms(2) by (rule length_contents)
    with False have b': "0 < ring_Buffered rb" by (metis length_greater_0_conv)
    from b assms(3) le have "take c (contents rb) = contents rb" by simp
    with rb1 c len b b' assms(4)
    have "rb' = rb1\<lparr>rb_buf := contents rb @ drop (ring_Buffered rb) (pool c), rb_r := 0, rb_w := ring_Buffered rb,
        rb_size := c, rb_isEmpty := False\<rparr>"
      by (simp add: ring_grow_def Let_def)
    moreover have "ring_Buffered rb < c" using assms(3) le by simp
    ultimately show ?thesis using b b' len by (simp add: ring_ok_def contents_def)
  qed
  with le length_contents [OF assms(2)] length_contents [of rb']
  show "ring_ok rb'" "contents rb' = contents rb" "newCap \<le> rb_size rb'" "ring_Buffered rb' = ring_Buffered rb"
    by simp_all
qed

lemma put_contents:
  assumes "ring_ok rb" and "p \<noteq> []" and "length p \<le> ring_Available rb"
  shows "\<exists>rb'. ring_put p rb = Ret (length p, rb') \<and> ring_ok rb' \<and> contents rb' = contents rb @ p"
proof -
  have len: "length (rb_buf rb) = rb_size rb" using assms(1) by (simp add: ring_ok_def)
  have pos: "0 < length p" using assms(2) by simp
  consider (empty) "rb_isEmpty rb" "rb_r rb = 0" "rb_w rb = 0"
    | (straight) "\<not> rb_isEmpty rb" "rb_r rb < rb_w rb" "rb_w rb < rb_size rb" "length p \<le> rb_size rb - rb_w rb"
    | (around) "\<not> rb_isEmpty rb" "rb_r rb < rb_w rb" "rb_w rb < rb_size rb" "rb_size rb - rb_w rb < length p"
    | (behind) "\<not> rb_isEmpty rb" "rb_w rb < rb_r rb" "rb_r rb < rb_size rb"
    using assms by (auto simp: ring_ok_def ring_Available_def split: if_splits) linarith
  then show ?thesis
  proof cases
    case empty
    moreover from this assms(3) have "length p \<le> rb_size rb" by (simp add: ring_Available_def)
    moreover from this pos have "0 < rb_size rb" by linarith
    ultimately show ?thesis using assms(3) len pos
      by (auto simp: ring_put_def Let_def copy_at_def ring_ok_def contents_def ring_Available_def)
        (metis length_greater_0_conv)
  next
    case straight
    with assms(3) len pos show ?thesis
      by (auto simp: ring_put_def Let_def copy_at_def ring_ok_def contents_def ring_Available_def drop_take)
  next
    case around
    with assms(3) len pos show ?thesis
      by (auto simp: ring_put_def Let_def copy_at_def ring_ok_def contents_def ring_Available_def drop_take)
  next
    case behind
    with assms(3) len pos show ?thesis
      by (auto simp: ring_put_def Let_def copy_at_def ring_ok_def contents_def ring_Available_def)
  qed
qed

lemma Write_contents:
  assumes "pool_ok pool" and "ring_ok rb" and "ring_Write pool p rb = Ret (n, rb')"
  shows "n = length p" and "ring_ok rb'" and "contents rb' = contents rb @ p"
proof -
  have "n = length p \<and> ring_ok rb' \<and> contents rb' = contents rb @ p"
  proof (cases "p = []")
    case True
    with assms show ?thesis by (simp add: ring_Write_def)
  next
    case False
    show ?thesis
    proof (cases "length p \<le> ring_Available rb")
      case True
      with put_contents [OF assms(2) False] assms(3) False show ?thesis by (auto simp: ring_Write_def)
    next
      case grow: False
      have room: "ring_Buffered rb < rb_size rb + length p - ring_Available rb"
        using Available_Buffered [OF assms(2)] grow by linarith
      from assms(3) grow False obtain rb1 where
        rb1: "ring_grow pool (rb_size rb + length p - ring_Available rb) rb = Ret rb1" "ring_put p rb1 = Ret (n, rb')"
        by (auto simp: ring_Write_def Let_def bindR_eq_Ret)
      note g = grow_contents [OF assms(1,2) room rb1(1)]
      have "length p \<le> ring_Available rb1"
        using Available_Buffered [OF g(1)] Available_Buffered [OF assms(2)] g(3,4) grow by linarith
      with put_contents [OF g(1) False] rb1(2) g(2) show ?thesis by auto
    qed
  qed
  then show "n = length p" "ring_ok rb'" "contents rb' = contents rb @ p" by simp_all
qed

text \<open>Growing succeeds below the largest power of two of a machine integer, and so does writing.\<close>

lemma grown_cap_total: "newCap \<le> 2 ^ 62 \<Longrightarrow> \<exists>c. grown_cap n newCap = Ret c"
  using CeilToPowerOfTwo_total [of newCap] by (simp add: grown_cap_def Let_def)

lemma grow_total:
  assumes "ring_ok rb" and "pool_ok pool" and "newCap \<le> 2 ^ 62"
  shows "\<exists>rb'. ring_grow pool newCap rb = Ret rb'"
proof -
  obtain c where c: "grown_cap (rb_size rb) newCap = Ret c"
    using grown_cap_total [OF assms(3)] by blast
  have "fst (ring_Read c rb) \<noteq> Panic"
  proof (cases "c = 0 \<or> contents rb = []")
    case True
    then show ?thesis
      using Read_empty [OF assms(1), of c] by (cases "c = 0") (auto simp: ring_Read_def)
  next
    case False
    with Read_contents [OF assms(1), of c] show ?thesis by auto
  qed
  with c assms(2) show ?thesis
    by (cases "ring_Read c rb"; cases "fst (ring_Read c rb)") (auto simp: ring_grow_def Let_def pool_ok_def)
qed

lemma Write_total:
  assumes "pool_ok pool" and "ring_ok rb" and "rb_size rb + length p \<le> 2 ^ 62"
  shows "\<exists>rb'. ring_Write pool p rb = Ret (length p, rb')"
proof (cases "p = []")
  case True
  then show ?thesis by (simp add: ring_Write_def)
next
  case False
  show ?thesis
  proof (cases "length p \<le> ring_Available rb")
    case True
    with put_contents [OF assms(2) False] False show ?thesis by (auto simp: ring_Write_def)
  next
    case grow: False
    have room: "ring_Buffered rb < rb_size rb + length p - ring_Available rb"
      using Available_Buffered [OF assms(2)] grow by linarith
    obtain rb1 where rb1: "ring_grow pool (rb_size rb + length p - ring_Available rb) rb = Ret rb1"
      using grow_total [OF assms(2,1), of "rb_size rb + length p - ring_Available rb"] assms(3) diff_le_self le_trans
      by blast
    note g = grow_contents [OF assms(1,2) room rb1]
    have "length p \<le> ring_Available rb1"
      using Available_Buffered [OF g(1)] Available_Buffered [OF assms(2)] g(3,4) grow by linarith
    with put_contents [OF g(1) False] rb1 grow False show ?thesis by (auto simp: ring_Write_def Let_def)
  qed
qed

lemma WriteByte_contents:
  assumes "pool_ok pool" and "ring_ok rb" and "rb_size rb < bufferGrowThreshold \<or> \<not> ring_IsFull rb"
  shows "\<exists>rb'. ring_WriteByte pool c rb = Ret rb' \<and> ring_ok rb' \<and> contents rb' = contents rb @ [c]"
proof -
  have one: "\<exists>rb'. (if rb_w rb \<ge> length (rb_buf rb) then Panic
       else let w = rb_w rb + 1 in
         Ret (rb\<lparr>rb_buf := (rb_buf rb)[rb_w rb := c], rb_w := (if w = rb_size rb then 0 else w), rb_isEmpty := False\<rparr>))
      = Ret rb' \<and> ring_ok rb' \<and> contents rb' = contents rb @ [c]"
    if ok: "ring_ok rb" and room: "1 \<le> ring_Available rb" for rb
  proof -
    have w: "rb_w rb < length (rb_buf rb)"
      using ok room by (auto simp: ring_ok_def ring_Available_def split: if_splits)
    then have upd: "(rb_buf rb)[rb_w rb := c] = take (rb_w rb) (rb_buf rb) @ [c] @ drop (rb_w rb + 1) (rb_buf rb)"
      by (simp add: upd_conv_take_nth_drop)
    have "ring_put [c] rb = Ret (1, rb\<lparr>rb_buf := (rb_buf rb)[rb_w rb := c],
        rb_w := (if rb_w rb + 1 = rb_size rb then 0 else rb_w rb + 1), rb_isEmpty := False\<rparr>)"
      using ok w unfolding upd by (auto simp: ring_put_def ring_ok_def copy_at_def Let_def)
    with put_contents [OF ok, of "[c]"] room w show ?thesis by (auto simp: Let_def)
  qed
  show ?thesis
  proof (cases "1 \<le> ring_Available rb")
    case True
    with one [OF assms(2) True] show ?thesis by (simp add: ring_WriteByte_def)
  next
    case False
    then have full: "ring_Buffered rb = rb_size rb" "rb_size rb = 0 \<or> ring_IsFull rb"
      using Available_Buffered [OF assms(2)] assms(2)
      by (auto simp: ring_ok_def ring_Available_def ring_IsFull_def split: if_splits)
    obtain rb1 where rb1: "ring_grow pool 1 rb = Ret rb1" using grow_total [OF assms(2,1), of 1] by auto
    then obtain c1 where c1: "grown_cap (rb_size rb) 1 = Ret c1" by (auto simp: ring_grow_def bindR_eq_Ret)
    have "rb_size rb < c1"
      using c1 full assms(3) by (auto simp: grown_cap_def DefaultBufferSize_def bufferGrowThreshold_def split: if_splits)
    moreover have "grown_cap (rb_size rb) c1 = Ret c1"
      using c1 full assms(3) by (auto simp: grown_cap_def DefaultBufferSize_def bufferGrowThreshold_def split: if_splits)
    then have "ring_grow pool c1 rb = Ret rb1" using rb1 c1 by (simp add: ring_grow_def)
    ultimately have g: "ring_ok rb1" "contents rb1 = contents rb" "c1 \<le> rb_size rb1" "ring_Buffered rb1 = ring_Buffered rb"
      using grow_contents [OF assms(1,2), of c1 rb1] full by auto
    then have "1 \<le> ring_Available rb1"
      using Available_Buffered [OF g(1)] \<open>rb_size rb < c1\<close> full by linarith
    with one [OF g(1)] rb1 False g(2) show ?thesis by (simp add: ring_WriteByte_def)
  qed
qed

subsection \<open>Writing out\<close>

lemma write_step:
  assumes "ring_ok rb" and "m \<le> ring_Buffered rb" and "\<not> (m = 0 \<and> ring_IsFull rb)" and "\<not> rb_isEmpty rb"
  shows "ring_ok (reset_if_drained (rb\<lparr>rb_r := (rb_r rb + m) mod rb_size rb\<rparr>))"
    and "contents (reset_if_drained (rb\<lparr>rb_r := (rb_r rb + m) mod rb_size rb\<rparr>)) = drop m (contents rb)"
proof -
  let ?rb = "rb\<lparr>rb_r := (rb_r rb + m) mod rb_size rb\<rparr>"
  have r: "rb_r rb < rb_size rb" and w: "rb_w rb < rb_size rb"
    using assms(1,4) by (auto simp: ring_ok_def)
  have "ring_ok (reset_if_drained ?rb) \<and> contents (reset_if_drained ?rb) = drop m (contents rb)"
  proof (cases "m < ring_Buffered rb")
    case True
    note a = advance_contents [OF assms(1) True]
    have "rb_r ?rb \<noteq> rb_w ?rb"
    proof
      assume "rb_r ?rb = rb_w ?rb"
      then have "m = 0" using a(6) by simp
      with \<open>rb_r ?rb = rb_w ?rb\<close> r assms(3,4) show False by (simp add: ring_IsFull_def)
    qed
    with a(1,2) show ?thesis by (simp add: reset_if_drained_def)
  next
    case False
    with assms(2) have m: "m = ring_Buffered rb" by simp
    then have "(rb_r rb + m) mod rb_size rb = rb_w rb"
      using r w assms(4) wrap_mod [of "rb_r rb + m" "rb_size rb"] by (auto simp: ring_Buffered_def split: if_splits)
    then have "reset_if_drained ?rb = ring_Reset rb" by (simp add: reset_if_drained_def ring_Reset_def)
    with Reset_ok [OF assms(1)] m length_contents [OF assms(1)] show ?thesis by simp
  qed
  then show "ring_ok (reset_if_drained ?rb)" "contents (reset_if_drained ?rb) = drop m (contents rb)" by simp_all
qed

text \<open>What the writer took is gone from the front of the buffer, the rest is still there.\<close>

lemma WriteTo_contents:
  assumes "ring_ok rb" and "ring_WriteTo wr s rb = Ret ((m, err), s', rb')" and "m \<noteq> 0 \<or> \<not> ring_IsFull rb"
  shows "ring_ok rb' \<and> contents rb' = drop m (contents rb)"
proof (cases "rb_isEmpty rb")
  case True
  with assms show ?thesis by (auto simp: ring_WriteTo_def contents_def)
next
  case ne: False
  have len: "length (rb_buf rb) = rb_size rb" and r: "rb_r rb < rb_size rb" and w: "rb_w rb < rb_size rb"
    using assms(1) ne by (auto simp: ring_ok_def)
  show ?thesis
  proof (cases "rb_r rb < rb_w rb")
    case True
    with assms(2) ne len w obtain m1 err1 where "m1 \<le> rb_w rb - rb_r rb" "m = m1"
      "rb' = reset_if_drained (rb\<lparr>rb_r := rb_r rb + m1\<rparr>)"
      by (auto simp: ring_WriteTo_def slice_def write_result_def Let_def split: prod.splits if_splits)
    moreover from this True w have "(rb_r rb + m1) mod rb_size rb = rb_r rb + m1" by simp
    ultimately show ?thesis
      using write_step [OF assms(1), of m] assms(3) ne True by (simp add: ring_Buffered_def)
  next
    case around: False
    define n where "n = rb_size rb - rb_r rb + rb_w rb"
    have n: "ring_Buffered rb = n" using ne around r by (auto simp: ring_Buffered_def n_def)
    show ?thesis
    proof (cases "rb_r rb + n \<le> rb_size rb")
      case True
      with assms(2) ne around len have "m \<le> n \<and> rb' = reset_if_drained (rb\<lparr>rb_r := (rb_r rb + m) mod rb_size rb\<rparr>)"
        by (auto simp: ring_WriteTo_def slice_def write_result_def Let_def n_def [symmetric] split: prod.splits if_splits)
      with write_step [OF assms(1), of m] assms(3) ne n show ?thesis by simp
    next
      case False
      then have w0: "0 < rb_w rb" using r by (simp add: n_def)
      define c1 where "c1 = rb_size rb - rb_r rb"
      have c1: "0 < c1" "c1 < n" "n - c1 = rb_w rb" using r w0 by (simp_all add: c1_def n_def)
      have "(rb_r rb + c1) mod rb_size rb = 0" using r by (simp add: c1_def)
      with assms(1) ne c1 n have rb1: "ring_ok (rb\<lparr>rb_r := 0\<rparr>)" "contents (rb\<lparr>rb_r := 0\<rparr>) = drop c1 (contents rb)"
        using advance_contents(1,2) [OF assms(1), of c1] by simp_all
      from assms(2) ne around len False obtain m1 where
        "m1 \<le> c1 \<and> m = m1 \<and> rb' = rb\<lparr>rb_r := (rb_r rb + m1) mod rb_size rb\<rparr> \<or>
         (\<exists>m2 \<le> rb_w rb. m = c1 + m2 \<and> rb' = reset_if_drained (rb\<lparr>rb_r := m2\<rparr>))"
        using c1
        by (auto simp: ring_WriteTo_def slice_def write_result_def Let_def n_def [symmetric] c1_def [symmetric]
            split: prod.splits if_splits option.splits)
      then show ?thesis
      proof (elim disjE conjE exE)
        assume "m1 \<le> c1" "m = m1" "rb' = rb\<lparr>rb_r := (rb_r rb + m1) mod rb_size rb\<rparr>"
        with advance_contents(1,2) [OF assms(1), of m1] c1 n show ?thesis by simp
      next
        fix m2 assume m2: "m2 \<le> rb_w rb" "m = c1 + m2" "rb' = reset_if_drained (rb\<lparr>rb_r := m2\<rparr>)"
        have "ring_Buffered (rb\<lparr>rb_r := 0\<rparr>) = rb_w rb" using w0 by (simp add: ring_Buffered_def)
        with write_step [OF rb1(1), of m2] m2 w0 w rb1(2) ne show ?thesis
          by (simp add: ring_IsFull_def add.commute)
      qed
    qed
  qed
qed

text \<open>A writer that takes nothing from a buffer that is full from the start of its array loses all of it.\<close>

lemma WriteTo_drops:
  assumes "ring_ok rb" and "ring_IsFull rb" and "rb_r rb = 0" and "wr s (contents rb) = ((0, Some e), s')"
  shows "ring_WriteTo wr s rb = Ret ((0, Some e), s', ring_Reset rb)"
  using assms
  by (auto simp: ring_WriteTo_def ring_IsFull_def ring_ok_def slice_def contents_def write_result_def
      reset_if_drained_def ring_Reset_def Let_def)

text \<open>Writing one byte to a full buffer of four kilobytes or more does not make it larger.\<close>

lemma WriteByte_full_panics:
  assumes "pool_ok pool" and "ring_ok rb" and "ring_IsFull rb" and "bufferGrowThreshold \<le> rb_size rb"
  shows "ring_WriteByte pool c rb = Panic"
proof -
  define n where "n = rb_size rb"
  have n: "4 \<le> n" using assms(4) by (simp add: n_def bufferGrowThreshold_def)
  have "while (\<lambda>k. 0 < k \<and> k < 1) (\<lambda>k. k + k div 4) n = n"
    using n by (subst while_unfold) simp
  then have cap: "grown_cap n 1 = Ret n"
    using n assms(4) by (simp add: grown_cap_def n_def Let_def)
  have b: "ring_Buffered rb = n" "contents rb \<noteq> []"
    using assms(2,3) n length_contents [OF assms(2)] by (auto simp: ring_IsFull_def ring_Buffered_def n_def contents_def)
  from Read_contents [OF assms(2) _ b(2), of n] n obtain rb1 where
    rb1: "ring_Read n rb = (Ret (take n (contents rb)), rb1)" by auto
  have "length (contents rb) = n" using length_contents [OF assms(2)] b by simp
  with rb1 cap b n assms(1) have "ring_grow pool 1 rb = Ret (rb1\<lparr>rb_buf := contents rb, rb_r := 0, rb_w := n,
      rb_size := n, rb_isEmpty := False\<rparr>)"
    by (simp add: ring_grow_def n_def [symmetric] pool_ok_def Let_def)
  with \<open>length (contents rb) = n\<close> assms(3) show ?thesis
    by (simp add: ring_WriteByte_def ring_Available_def ring_IsFull_def)
qed

text \<open>Reading from an exhausted reader into an empty buffer marks the whole array as unread.\<close>

lemma ReadFrom_stale:
  assumes "rd s (rb_size rb) = (([], Some ErrEOF), s')" and "ring_ok rb" and "ring_IsEmpty rb" and "MinRead \<le> rb_size rb"
  shows "ring_ReadFrom pool rd n s rb = Some (Ret ((n, None), s', rb\<lparr>rb_isEmpty := False\<rparr>))"
    and "contents (rb\<lparr>rb_isEmpty := False\<rparr>) = rb_buf rb"
  using assms
  by (auto simp: ring_ReadFrom.simps ring_ok_def ring_IsEmpty_def ring_Available_def fill_def copy_at_def
      read_result_def contents_def)

subsection \<open>Rounding up to a power of two\<close>

text \<open>Each doubling step spreads every set bit over twice as many positions below it.\<close>

lemma smear_step:
  assumes "\<And>i. bit (a :: nat) i \<longleftrightarrow> (\<exists>j < s. bit (m :: nat) (i + j))"
  shows "bit (a OR drop_bit s a) i \<longleftrightarrow> (\<exists>j < s + s. bit m (i + j))"
proof -
  have "bit (a OR drop_bit s a) i \<longleftrightarrow> (\<exists>j < s. bit m (i + j)) \<or> (\<exists>j < s. bit m (i + s + j))"
    using assms by (simp add: bit_or_iff bit_drop_bit_eq add_ac)
  also have "\<dots> \<longleftrightarrow> (\<exists>j < s + s. bit m (i + j))"
  proof
    assume "(\<exists>j < s. bit m (i + j)) \<or> (\<exists>j < s. bit m (i + s + j))"
    then show "\<exists>j < s + s. bit m (i + j)"
      by (metis add.assoc nat_add_left_cancel_less trans_less_add1)
  next
    assume "\<exists>j < s + s. bit m (i + j)"
    then obtain j where j: "j < s + s" "bit m (i + j)" by blast
    show "(\<exists>j < s. bit m (i + j)) \<or> (\<exists>j < s. bit m (i + s + j))"
    proof (cases "j < s")
      case False
      with j have "j - s < s" "bit m (i + s + (j - s))" by simp_all
      then show ?thesis by blast
    qed (use j in blast)
  qed
  finally show ?thesis .
qed

lemma smeared_mask:
  assumes "2 ^ h \<le> m" and "m < 2 ^ (h + 1)" and "h < s" and "\<And>i. bit (a :: nat) i \<longleftrightarrow> (\<exists>j < s. bit (m :: nat) (i + j))"
  shows "a = mask (h + 1)"
proof (rule bit_eqI)
  fix i
  have top: "\<not> bit m k" if "h < k" for k
  proof -
    have "(2 :: nat) ^ (h + 1) \<le> 2 ^ k" using that by (intro power_increasing) auto
    with assms(2) have "m < 2 ^ k" by linarith
    then show ?thesis by (simp add: bit_nat_iff bit_iff_odd)
  qed
  have "m div 2 ^ h = 1" using assms(1,2) by (simp add: div_nat_eqI)
  then have "bit m h" by (simp add: bit_iff_odd)
  then have "(\<exists>j < s. bit m (i + j)) \<longleftrightarrow> i < h + 1"
    using top assms(3)
    by (metis add.commute le_add1 le_add_diff_inverse less_imp_diff_less linorder_not_less not_less_eq Suc_eq_plus1 less_le_trans)
  then show "bit a i \<longleftrightarrow> bit (mask (h + 1) :: nat) i"
    using assms(4) by (simp add: bit_mask_iff)
qed

lemma CeilToPowerOfTwo_power:
  assumes "2 \<le> n" and "n \<le> 2 ^ 32"
  shows "\<exists>k. CeilToPowerOfTwo n = Ret (2 ^ k) \<and> n \<le> 2 ^ k \<and> 2 ^ k < 2 * n"
proof (cases "n = 2")
  case True
  then show ?thesis by (intro exI [of _ 1]) (simp add: CeilToPowerOfTwo_def)
next
  case False
  define m where "m = n - 1"
  have m: "2 \<le> m" "m < 2 ^ 32" using False assms by (simp_all add: m_def)
  then obtain h where h: "2 ^ h \<le> m" "m < 2 ^ (h + 1)"
    using ex_power_ivl1 [of 2 m] by auto
  have "(2 :: nat) ^ h < 2 ^ 32" using h(1) m(2) by linarith
  then have "h < 32" by (rule power_less_imp_less_exp [rotated]) simp
  define a1 where "a1 = m OR drop_bit 1 m"
  define a2 where "a2 = a1 OR drop_bit 2 a1"
  define a3 where "a3 = a2 OR drop_bit 4 a2"
  define a4 where "a4 = a3 OR drop_bit 8 a3"
  define a5 where "a5 = a4 OR drop_bit 16 a4"
  note defs = a1_def a2_def a3_def a4_def a5_def
  have b1: "bit a1 i \<longleftrightarrow> (\<exists>j<2. bit m (i + j))" for i
    unfolding a1_def using smear_step [of m 1 m i] by (simp add: numeral_2_eq_2)
  have b2: "bit a2 i \<longleftrightarrow> (\<exists>j<4. bit m (i + j))" for i
    unfolding a2_def using smear_step [OF b1, of i] by simp
  have b3: "bit a3 i \<longleftrightarrow> (\<exists>j<8. bit m (i + j))" for i
    unfolding a3_def using smear_step [OF b2, of i] by simp
  have b4: "bit a4 i \<longleftrightarrow> (\<exists>j<16. bit m (i + j))" for i
    unfolding a4_def using smear_step [OF b3, of i] by simp
  have b5: "bit a5 i \<longleftrightarrow> (\<exists>j<32. bit m (i + j))" for i
    unfolding a5_def using smear_step [OF b4, of i] by simp
  have a5: "a5 = mask (h + 1)" by (rule smeared_mask [OF h \<open>h < 32\<close> b5])
  have "\<not> (n AND 2 ^ 62 \<noteq> 0 \<and> n > 2 ^ 62)" "\<not> n \<le> 2" using assms False by auto
  then have "CeilToPowerOfTwo n = Ret (a5 + 1)"
    unfolding CeilToPowerOfTwo_def Let_def m_def [symmetric] by (simp only: defs if_False)
  moreover have "a5 + 1 = 2 ^ (h + 1)" by (simp add: a5 mask_eq_exp_minus_1)
  moreover have "n \<le> 2 ^ (h + 1)" "2 ^ (h + 1) < 2 * n" using h assms(1) by (simp_all add: m_def)
  ultimately show ?thesis by (intro exI [of _ "h + 1"]) simp
qed

text \<open>Above 32 bits the loop-free smearing stops short.\<close>

lemma CeilToPowerOfTwo_short: "CeilToPowerOfTwo (2 ^ 40 + 1) = Ret (2 ^ 41 - 2 ^ 9 + 1)"
  by (simp add: CeilToPowerOfTwo_def Let_def)

end
