(* ===== verification/NetConn.thy ===== *)
theory NetConn
  imports RingBuffer GoStrings
begin

text \<open>
  The buffers of a connection, \<^verbatim>\<open>pkg/oknet/ring_buffer.go\<close> and \<^verbatim>\<open>buffer.go\<close>, and
  the connection over them, \<^verbatim>\<open>pkg/oknet/conn.go\<close>. An elastic buffer holds a ring only while
  there is something in it. \<open>fresh\<close> is the ring that the ring pool hands out: any empty one.
  The contract of a byte queue, which the connection relies on, is the locale \<open>byte_queue\<close>.
\<close>

section \<open>The contract of a byte queue\<close>

locale byte_queue =
  fixes queue :: "'b \<Rightarrow> bytes" and inv :: "'b \<Rightarrow> bool"
    and put :: "bytes \<Rightarrow> 'b \<Rightarrow> (nat \<times> 'b) outcome"
    and look :: "int \<Rightarrow> 'b \<Rightarrow> (bytes \<times> bytes) outcome"
    and discard :: "int \<Rightarrow> 'b \<Rightarrow> 'b"
  assumes put_law: "\<And>b p n b'. inv b \<Longrightarrow> put p b = Ret (n, b') \<Longrightarrow> n = length p \<and> inv b' \<and> queue b' = queue b @ p"
    and look_law: "\<And>b n. inv b \<Longrightarrow> \<exists>head tail. look n b = Ret (head, tail) \<and>
          head @ tail = (if n \<le> 0 then queue b else take (nat n) (queue b))"
    and discard_law: "\<And>b n. inv b \<Longrightarrow> inv (discard n b) \<and> queue (discard n b) = drop (nat n) (queue b)"
begin

lemma look_all: "inv b \<Longrightarrow> \<exists>head tail. look (- 1) b = Ret (head, tail) \<and> head @ tail = queue b"
  using look_law [of b "- 1"] by simp

text \<open>
  A run of writes and discards: what was written is what was discarded followed by what is left.
\<close>

fun run :: "(bytes + int) list \<Rightarrow> bytes \<Rightarrow> bytes \<Rightarrow> 'b \<Rightarrow> (bytes \<times> bytes \<times> 'b) outcome" where
  "run [] written gone b = Ret (written, gone, b)"
| "run (Inl p # ops) written gone b =
     bindR (put p b) (\<lambda>(n, b'). run ops (written @ p) gone b')"
| "run (Inr n # ops) written gone b =
     bindR (look n b) (\<lambda>(head, tail). run ops written (gone @ (if n \<le> 0 then [] else head @ tail)) (discard n b))"

lemma stream_kept:
  assumes "run ops written gone b = Ret (written', gone', b')" and "inv b" and "written = gone @ queue b"
  shows "inv b' \<and> written' = gone' @ queue b'"
  using assms
proof (induction ops arbitrary: written gone b)
  case Nil
  then show ?case by auto
next
  case (Cons op ops)
  show ?case
  proof (cases op)
    case (Inl p)
    with Cons.prems(1) obtain n b1 where b1: "put p b = Ret (n, b1)" "run ops (written @ p) gone b1 = Ret (written', gone', b')"
      by (auto simp: bindR_eq_Ret)
    from put_law [OF Cons.prems(2) b1(1)] Cons.IH [OF b1(2)] Cons.prems(3) show ?thesis by simp
  next
    case (Inr n)
    from look_law [OF Cons.prems(2), of n] obtain head tail where
      l: "look n b = Ret (head, tail)" "head @ tail = (if n \<le> 0 then queue b else take (nat n) (queue b))" by blast
    with Cons.prems(1) Inr have r: "run ops written (gone @ (if n \<le> 0 then [] else head @ tail)) (discard n b) = Ret (written', gone', b')"
      by simp
    from discard_law [OF Cons.prems(2), of n] Cons.IH [OF r] Cons.prems(3) l(2) show ?thesis
      by (simp split: if_splits)
  qed
qed

end

interpretation ringq: byte_queue contents "\<lambda>rb. pool_ok pool \<and> ring_ok rb" "ring_Write pool" ring_Peek
  "\<lambda>n rb. snd (ring_Discard n rb)" for pool
proof (unfold_locales, goal_cases)
  case (1 b p n b')
  then show ?case using Write_contents [of pool b p n b'] by simp
next
  case (2 b n)
  then show ?case using Peek_contents [of b n] by simp
next
  case (3 b n)
  then show ?case using Discard_contents [of b n] by simp
qed

section \<open>The elastic buffer of a connection\<close>

type_synonym elastic = "ring option"

definition el_instance :: "ring \<Rightarrow> elastic \<Rightarrow> ring" where
  "el_instance fresh b = (case b of None \<Rightarrow> fresh | Some rb \<Rightarrow> rb)"

definition el_Done :: "elastic \<Rightarrow> elastic" where
  "el_Done b = None"

definition el_done :: "elastic \<Rightarrow> elastic" where
  "el_done b = (case b of None \<Rightarrow> None | Some rb \<Rightarrow> if ring_IsEmpty rb then None else Some rb)"

definition el_Peek :: "int \<Rightarrow> elastic \<Rightarrow> (bytes \<times> bytes) outcome" where
  "el_Peek n b = (case b of None \<Rightarrow> Ret ([], []) | Some rb \<Rightarrow> ring_Peek n rb)"

definition el_Discard :: "int \<Rightarrow> elastic \<Rightarrow> int outcome \<times> elastic" where
  "el_Discard n b =
     (case b of None \<Rightarrow> (Fail ErrIsEmpty, None)
      | Some rb \<Rightarrow> let (d, rb) = ring_Discard n rb in (Ret d, el_done (Some rb)))"

definition el_Read :: "nat \<Rightarrow> elastic \<Rightarrow> bytes outcome \<times> elastic" where
  "el_Read k b =
     (case b of None \<Rightarrow> (Fail ErrIsEmpty, None)
      | Some rb \<Rightarrow> let (r, rb) = ring_Read k rb in (r, el_done (Some rb)))"

definition el_ReadByte :: "elastic \<Rightarrow> byte outcome \<times> elastic" where
  "el_ReadByte b =
     (case b of None \<Rightarrow> (Fail ErrIsEmpty, None)
      | Some rb \<Rightarrow> let (r, rb) = ring_ReadByte rb in (r, el_done (Some rb)))"

definition el_Write :: "ring \<Rightarrow> (nat \<Rightarrow> bytes) \<Rightarrow> bytes \<Rightarrow> elastic \<Rightarrow> (nat \<times> elastic) outcome" where
  "el_Write fresh pool p b =
     (if length p = 0 then Ret (0, b)
      else mapR (\<lambda>(n, rb). (n, Some rb)) (ring_Write pool p (el_instance fresh b)))"

definition el_WriteByte :: "ring \<Rightarrow> (nat \<Rightarrow> bytes) \<Rightarrow> byte \<Rightarrow> elastic \<Rightarrow> elastic outcome" where
  "el_WriteByte fresh pool c b = mapR Some (ring_WriteByte pool c (el_instance fresh b))"

definition el_WriteString :: "ring \<Rightarrow> (nat \<Rightarrow> bytes) \<Rightarrow> gostring \<Rightarrow> elastic \<Rightarrow> (nat \<times> elastic) outcome" where
  "el_WriteString fresh pool s b =
     (if length s = 0 then Ret (0, b)
      else mapR (\<lambda>(n, rb). (n, Some rb)) (ring_WriteString pool s (el_instance fresh b)))"

definition el_Buffered :: "elastic \<Rightarrow> nat" where
  "el_Buffered b = (case b of None \<Rightarrow> 0 | Some rb \<Rightarrow> ring_Buffered rb)"

definition el_Len :: "elastic \<Rightarrow> nat" where
  "el_Len b = (case b of None \<Rightarrow> 0 | Some rb \<Rightarrow> ring_Len rb)"

definition el_Cap :: "elastic \<Rightarrow> nat" where
  "el_Cap b = (case b of None \<Rightarrow> 0 | Some rb \<Rightarrow> ring_Cap rb)"

definition el_Available :: "elastic \<Rightarrow> nat" where
  "el_Available b = (case b of None \<Rightarrow> 0 | Some rb \<Rightarrow> ring_Available rb)"

definition el_Bytes :: "elastic \<Rightarrow> bytes outcome" where
  "el_Bytes b = (case b of None \<Rightarrow> Ret [] | Some rb \<Rightarrow> ring_Bytes rb)"

definition el_ReadFrom ::
  "ring \<Rightarrow> (nat \<Rightarrow> bytes) \<Rightarrow> 's io_reader \<Rightarrow> 's \<Rightarrow> elastic \<Rightarrow> ((nat \<times> go_error option) \<times> 's \<times> elastic) outcome option" where
  "el_ReadFrom fresh pool rd s b =
     map_option (mapR (\<lambda>(r, s, rb). (r, s, Some rb))) (ring_ReadFrom pool rd 0 s (el_instance fresh b))"

definition el_WriteTo :: "'s writer \<Rightarrow> 's \<Rightarrow> elastic \<Rightarrow> ((nat \<times> go_error option) \<times> 's \<times> elastic) outcome" where
  "el_WriteTo wr s b =
     (case b of None \<Rightarrow> Ret ((0, Some ErrIsEmpty), s, None)
      | Some rb \<Rightarrow> mapR (\<lambda>(r, s, rb). (r, s, el_done (Some rb))) (ring_WriteTo wr s rb))"

definition el_IsFull :: "elastic \<Rightarrow> bool" where
  "el_IsFull b = (case b of None \<Rightarrow> False | Some rb \<Rightarrow> ring_IsFull rb)"

definition el_IsEmpty :: "elastic \<Rightarrow> bool" where
  "el_IsEmpty b = (case b of None \<Rightarrow> True | Some rb \<Rightarrow> ring_IsEmpty rb)"

definition el_Reset :: "elastic \<Rightarrow> elastic" where
  "el_Reset b = (case b of None \<Rightarrow> None | Some rb \<Rightarrow> Some (ring_Reset rb))"

definition PeekBytes :: "nat \<Rightarrow> elastic \<Rightarrow> bytes outcome" where
  "PeekBytes k b =
     bindR (el_Peek (- 1) b) (\<lambda>(head, tail).
       Ret (if length head > 0 \<and> length tail > 0 then take k (head @ tail)
            else if length head > 0 then take k head
            else if length tail > 0 then take k tail
            else []))"

text \<open>What an elastic buffer holds.\<close>

definition el_contents :: "elastic \<Rightarrow> bytes" where
  "el_contents b = (case b of None \<Rightarrow> [] | Some rb \<Rightarrow> contents rb)"

definition el_ok :: "elastic \<Rightarrow> bool" where
  "el_ok b = (case b of None \<Rightarrow> True | Some rb \<Rightarrow> ring_ok rb)"

definition fresh_ok :: "ring \<Rightarrow> bool" where
  "fresh_ok rb \<longleftrightarrow> ring_ok rb \<and> ring_IsEmpty rb"

lemma el_simps [simp]:
  "el_contents None = []" "el_contents (Some rb) = contents rb" "el_ok None" "el_ok (Some rb) = ring_ok rb"
  by (simp_all add: el_contents_def el_ok_def)

lemma el_done_ok: "ring_ok rb \<Longrightarrow> el_ok (el_done (Some rb)) \<and> el_contents (el_done (Some rb)) = contents rb"
  using contents_Nil_iff [of rb] by (auto simp: el_done_def)

lemma el_Write_ok:
  assumes "pool_ok pool" and "fresh_ok fresh" and "el_ok b" and "el_Write fresh pool p b = Ret (n, b')"
  shows "n = length p" and "el_ok b'" and "el_contents b' = el_contents b @ p"
proof -
  have i: "ring_ok (el_instance fresh b)" "contents (el_instance fresh b) = el_contents b"
    using assms(2,3) by (auto simp: el_instance_def fresh_ok_def contents_Nil_iff split: option.split)
  show "n = length p" "el_ok b'" "el_contents b' = el_contents b @ p"
    using assms(3,4) Write_contents [OF assms(1) i(1)] i(2)
    by (auto simp: el_Write_def mapR_def bindR_eq_Ret split: if_splits)
qed

lemma el_Write_total:
  assumes "pool_ok pool" and "fresh_ok fresh" and "el_ok b" and "rb_size (el_instance fresh b) + length p \<le> 2 ^ 62"
  shows "\<exists>b'. el_Write fresh pool p b = Ret (length p, b') \<and> el_ok b' \<and> el_contents b' = el_contents b @ p"
proof -
  have "ring_ok (el_instance fresh b)" using assms(2,3) by (cases b) (simp_all add: el_instance_def fresh_ok_def)
  with Write_total [OF assms(1) this assms(4)] have "\<exists>b'. el_Write fresh pool p b = Ret (length p, b')"
    by (auto simp: el_Write_def mapR_def)
  with el_Write_ok [OF assms(1-3)] show ?thesis by metis
qed

lemma el_Peek_ok:
  assumes "el_ok b"
  shows "\<exists>head tail. el_Peek n b = Ret (head, tail) \<and>
    head @ tail = (if n \<le> 0 then el_contents b else take (nat n) (el_contents b))"
  using assms Peek_contents [of "the b" n] by (cases b) (auto simp: el_Peek_def)

lemma el_Discard_ok:
  assumes "el_ok b"
  shows "el_ok (snd (el_Discard n b))" and "el_contents (snd (el_Discard n b)) = drop (nat n) (el_contents b)"
proof -
  have "el_ok (snd (el_Discard n b)) \<and> el_contents (snd (el_Discard n b)) = drop (nat n) (el_contents b)"
  proof (cases b)
    case (Some rb)
    with assms Discard_contents [of rb n] el_done_ok [of "snd (ring_Discard n rb)"] show ?thesis
      by (simp add: el_Discard_def split_beta Let_def)
  qed (simp add: el_Discard_def)
  then show "el_ok (snd (el_Discard n b))" "el_contents (snd (el_Discard n b)) = drop (nat n) (el_contents b)" by simp_all
qed

lemma el_Read_ok:
  assumes "el_ok b" and "0 < k"
  shows "el_ok (snd (el_Read k b)) \<and> el_contents (snd (el_Read k b)) = drop k (el_contents b) \<and>
    fst (el_Read k b) = (if el_contents b = [] then Fail ErrIsEmpty else Ret (take k (el_contents b)))"
proof (cases b)
  case (Some rb)
  show ?thesis
  proof (cases "contents rb = []")
    case True
    with Some assms Read_empty [of rb k] el_done_ok [of rb] show ?thesis by (simp add: el_Read_def)
  next
    case False
    with Some assms Read_contents [of rb k] obtain rb' where
      "ring_Read k rb = (Ret (take k (contents rb)), rb')" "ring_ok rb'" "contents rb' = drop k (contents rb)" by auto
    with Some False el_done_ok [of rb'] show ?thesis by (simp add: el_Read_def)
  qed
qed (simp add: el_Read_def)

lemma el_IsEmpty_iff: "el_ok b \<Longrightarrow> el_IsEmpty b \<longleftrightarrow> el_contents b = []"
  by (cases b) (simp_all add: el_IsEmpty_def contents_Nil_iff)

lemma el_Buffered_length: "el_ok b \<Longrightarrow> el_Buffered b = length (el_contents b)"
  by (cases b) (simp_all add: el_Buffered_def length_contents)

lemma PeekBytes_ok: "el_ok b \<Longrightarrow> PeekBytes k b = Ret (take k (el_contents b))"
  using el_Peek_ok [of b "- 1"] by (auto simp: PeekBytes_def)

interpretation elq: byte_queue el_contents "\<lambda>b. pool_ok pool \<and> fresh_ok fresh \<and> el_ok b" "el_Write fresh pool"
  el_Peek "\<lambda>n b. snd (el_Discard n b)" for pool fresh
proof (unfold_locales, goal_cases)
  case (1 b p n b')
  then show ?case using el_Write_ok [of pool fresh b p n b'] by simp
next
  case (2 b n)
  then show ?case using el_Peek_ok [of b n] by simp
next
  case (3 b n)
  then show ?case using el_Discard_ok [of b n] by simp
qed

section \<open>Connections\<close>

text \<open>
  \<open>DefaultConn\<close>. The context is whatever the server attaches to an authenticated connection. The
  two event flags say whether the poller watches the descriptor for reading and for writing; the
  \<open>epoll\<close> calls behind them are taken to succeed. Timers, statistics and addresses are left out.
\<close>

record 'ctx net_conn =
  cn_id :: int
  cn_fd :: int
  cn_closed :: bool
  cn_authed :: bool
  cn_protoVersion :: int
  cn_uid :: gostring
  cn_deviceFlag :: u8
  cn_deviceLevel :: u8
  cn_deviceID :: gostring
  cn_values :: "gostring \<Rightarrow> gostring option"
  cn_context :: "'ctx option"
  cn_inbound :: elastic
  cn_outbound :: elastic
  cn_readEvent :: bool
  cn_writeEvent :: bool
  cn_lastActivity :: int
  cn_maxIdle :: int

definition zero_conn :: "'ctx net_conn" where
  "zero_conn = \<lparr>cn_id = 0, cn_fd = 0, cn_closed = False, cn_authed = False, cn_protoVersion = 0, cn_uid = [],
     cn_deviceFlag = 0, cn_deviceLevel = 0, cn_deviceID = [], cn_values = Map.empty, cn_context = None,
     cn_inbound = None, cn_outbound = None, cn_readEvent = False, cn_writeEvent = False,
     cn_lastActivity = 0, cn_maxIdle = 0\<rparr>"

text \<open>A connection object is taken from a pool of used ones and only partly overwritten.\<close>

definition init_conn :: "int \<Rightarrow> int \<Rightarrow> 'ctx net_conn \<Rightarrow> 'ctx net_conn" where
  "init_conn cid fd c = c\<lparr>cn_id := cid, cn_fd := fd, cn_authed := False, cn_closed := False, cn_uid := [],
     cn_deviceFlag := 0, cn_deviceLevel := 0, cn_values := Map.empty, cn_context := None,
     cn_inbound := None, cn_outbound := None\<rparr>"

definition ErrShortBuffer :: go_error where "ErrShortBuffer = ErrMsg ''short buffer''"
definition ErrClosed :: go_error where "ErrClosed = ErrMsg ''use of closed network connection''"
definition EAGAIN :: go_error where "EAGAIN = ErrMsg ''resource temporarily unavailable''"
definition EINVAL :: go_error where "EINVAL = ErrMsg ''invalid argument''"

definition conn_Peek :: "int \<Rightarrow> 'ctx net_conn \<Rightarrow> bytes outcome" where
  "conn_Peek n c =
     (let totalLen = int (el_Buffered (cn_inbound c)) in
      if n > totalLen then Fail ErrShortBuffer
      else let n = (if n \<le> 0 then totalLen else n) in
        if el_IsEmpty (cn_inbound c) then Ret []
        else bindR (el_Peek n (cn_inbound c)) (\<lambda>(head, tail). Ret (head @ tail)))"

definition conn_Discard :: "int \<Rightarrow> 'ctx net_conn \<Rightarrow> int outcome \<times> 'ctx net_conn" where
  "conn_Discard n c = (let (r, b) = el_Discard n (cn_inbound c) in (r, c\<lparr>cn_inbound := b\<rparr>))"

definition conn_Read :: "nat \<Rightarrow> 'ctx net_conn \<Rightarrow> bytes outcome \<times> 'ctx net_conn" where
  "conn_Read k c =
     (if el_IsEmpty (cn_inbound c) then (Ret [], c)
      else let (r, b) = el_Read k (cn_inbound c) in (r, c\<lparr>cn_inbound := b\<rparr>))"

definition overflowForOutbound :: "nat \<Rightarrow> nat \<Rightarrow> 'ctx net_conn \<Rightarrow> bool" where
  "overflowForOutbound maxWrite n c \<longleftrightarrow> maxWrite > 0 \<and> el_Buffered (cn_outbound c) + n > maxWrite"

definition overflowForInbound :: "nat \<Rightarrow> nat \<Rightarrow> 'ctx net_conn \<Rightarrow> bool" where
  "overflowForInbound maxRead n c \<longleftrightarrow> maxRead > 0 \<and> el_Buffered (cn_inbound c) + n > maxRead"

text \<open>\<open>input\<close> is what the system call that reads the descriptor returns.\<close>

definition ReadToInboundBuffer ::
  "nat \<Rightarrow> ring \<Rightarrow> (nat \<Rightarrow> bytes) \<Rightarrow> int \<Rightarrow> bytes outcome \<Rightarrow> 'ctx net_conn \<Rightarrow> nat outcome \<times> 'ctx net_conn" where
  "ReadToInboundBuffer maxRead fresh pool now input c =
     (case input of
        Fail e \<Rightarrow> (Fail e, c) | Panic \<Rightarrow> (Panic, c)
      | Ret data \<Rightarrow>
          (let n = length data in
           if n = 0 then (Ret 0, c)
           else if overflowForInbound maxRead n c then (Fail (ErrMsg ''inbound buffer overflow''), c)
           else let c = c\<lparr>cn_lastActivity := now\<rparr> in
             case el_Write fresh pool data (cn_inbound c) of
               Ret (_, b) \<Rightarrow> (Ret n, c\<lparr>cn_inbound := b\<rparr>)
             | Fail e \<Rightarrow> (Fail e, c) | Panic \<Rightarrow> (Panic, c)))"

definition addWriteIfNotExist :: "'ctx net_conn \<Rightarrow> 'ctx net_conn" where
  "addWriteIfNotExist c = c\<lparr>cn_writeEvent := True\<rparr>"

definition removeWriteIfExist :: "'ctx net_conn \<Rightarrow> 'ctx net_conn" where
  "removeWriteIfExist c = c\<lparr>cn_writeEvent := False\<rparr>"

definition WakeWrite :: "'ctx net_conn \<Rightarrow> 'ctx net_conn" where
  "WakeWrite c = addWriteIfNotExist c"

definition WriteToOutboundBuffer ::
  "ring \<Rightarrow> (nat \<Rightarrow> bytes) \<Rightarrow> bytes \<Rightarrow> 'ctx net_conn \<Rightarrow> nat outcome \<times> 'ctx net_conn" where
  "WriteToOutboundBuffer fresh pool b c =
     (if length b = 0 then (Ret 0, c)
      else case el_Write fresh pool b (cn_outbound c) of
          Ret (n, ob) \<Rightarrow> (Ret n, c\<lparr>cn_outbound := ob\<rparr>)
        | Fail e \<Rightarrow> (Fail e, c) | Panic \<Rightarrow> (Panic, c))"

definition conn_write ::
  "nat \<Rightarrow> ring \<Rightarrow> (nat \<Rightarrow> bytes) \<Rightarrow> bytes \<Rightarrow> 'ctx net_conn \<Rightarrow> nat outcome \<times> 'ctx net_conn" where
  "conn_write maxWrite fresh pool b c =
     (if length b = 0 then (Ret 0, c)
      else if overflowForOutbound maxWrite (length b) c then (Fail EINVAL, c)
      else case el_Write fresh pool b (cn_outbound c) of
          Ret (n, ob) \<Rightarrow> (Ret n, addWriteIfNotExist (c\<lparr>cn_outbound := ob\<rparr>))
        | Fail e \<Rightarrow> (Fail e, c) | Panic \<Rightarrow> (Panic, c))"

definition conn_Write ::
  "nat \<Rightarrow> ring \<Rightarrow> (nat \<Rightarrow> bytes) \<Rightarrow> bytes \<Rightarrow> 'ctx net_conn \<Rightarrow> nat outcome \<times> 'ctx net_conn" where
  "conn_Write maxWrite fresh pool b c =
     (if cn_closed c then (Fail ErrClosed, c) else conn_write maxWrite fresh pool b c)"

text \<open>\<open>wr\<close> is the system call that writes to the descriptor: a count, negative on an error, and the error.\<close>

definition writeDirect :: "(bytes \<Rightarrow> int \<times> go_error option) \<Rightarrow> bytes \<Rightarrow> bytes \<Rightarrow> int \<times> go_error option" where
  "writeDirect wr head tail =
     (if length head > 0 \<and> length tail > 0 then wr (head @ tail)
      else if length head > 0 then wr head
      else if length tail > 0 then wr tail
      else (0, None))"

text \<open>\<open>flush\<close>; the flag says that it calls \<open>CloseConn\<close>, which always answers nil.\<close>

definition conn_flush :: "(bytes \<Rightarrow> int \<times> go_error option) \<Rightarrow> 'ctx net_conn \<Rightarrow> (bool \<times> 'ctx net_conn) outcome" where
  "conn_flush wr c =
     (if el_IsEmpty (cn_outbound c) then Ret (False, removeWriteIfExist c)
      else bindR (el_Peek (- 1) (cn_outbound c)) (\<lambda>(head, tail).
        let (n, err) = writeDirect wr head tail;
            c = c\<lparr>cn_outbound := snd (el_Discard n (cn_outbound c))\<rparr>
        in case err of
             Some e \<Rightarrow> Ret (e \<noteq> EAGAIN, c)
           | None \<Rightarrow> Ret (False, if el_IsEmpty (cn_outbound c) then removeWriteIfExist c else c)))"

text \<open>
  What a flush sends is a prefix of what was waiting, the rest keeps waiting, and the poller is
  asked to stop watching only when nothing is left. The system call reports how much it took.
\<close>

definition write_call_ok :: "(bytes \<Rightarrow> int \<times> go_error option) \<Rightarrow> bool" where
  "write_call_ok wr \<longleftrightarrow> (\<forall>p. fst (wr p) \<le> int (length p))"

lemma conn_flush_ok:
  assumes "el_ok (cn_outbound c)" and "cn_writeEvent c" and "write_call_ok wr"
  shows "\<exists>close c'. conn_flush wr c = Ret (close, c') \<and> el_ok (cn_outbound c') \<and>
    el_contents (cn_outbound c') = drop (nat (fst (wr (el_contents (cn_outbound c))))) (el_contents (cn_outbound c)) \<and>
    (el_contents (cn_outbound c') \<noteq> [] \<longrightarrow> cn_writeEvent c')"
proof (cases "el_contents (cn_outbound c) = []")
  case True
  with assms(1) show ?thesis by (simp add: conn_flush_def el_IsEmpty_iff removeWriteIfExist_def) blast
next
  case False
  from el_Peek_ok [OF assms(1), of "- 1"] obtain head tail where
    p: "el_Peek (- 1) (cn_outbound c) = Ret (head, tail)" "head @ tail = el_contents (cn_outbound c)" by auto
  have w: "writeDirect wr head tail = wr (el_contents (cn_outbound c))"
    using False p(2) by (cases head; cases tail) (auto simp: writeDirect_def)
  define b where "b = snd (el_Discard (fst (wr (el_contents (cn_outbound c)))) (cn_outbound c))"
  have b: "el_ok b" "el_contents b = drop (nat (fst (wr (el_contents (cn_outbound c))))) (el_contents (cn_outbound c))"
    unfolding b_def using el_Discard_ok [OF assms(1)] by simp_all
  have e: "\<not> el_IsEmpty (cn_outbound c)" using False assms(1) by (simp add: el_IsEmpty_iff)
  obtain n err where wr: "wr (el_contents (cn_outbound c)) = (n, err)" by (cases "wr (el_contents (cn_outbound c))")
  have "conn_flush wr c = (case err of Some e \<Rightarrow> Ret (e \<noteq> EAGAIN, c\<lparr>cn_outbound := b\<rparr>)
      | None \<Rightarrow> Ret (False, if el_IsEmpty b then removeWriteIfExist (c\<lparr>cn_outbound := b\<rparr>) else c\<lparr>cn_outbound := b\<rparr>))"
    using e p(1) w wr by (simp add: conn_flush_def b_def Let_def cong: option.case_cong)
  with b assms(2) wr show ?thesis
    by (cases err) (auto simp: removeWriteIfExist_def el_IsEmpty_iff)
qed

lemma conn_Peek_all: "el_ok (cn_inbound c) \<Longrightarrow> conn_Peek (- 1) c = Ret (el_contents (cn_inbound c))"
  using el_Peek_ok [of "cn_inbound c" "int (el_Buffered (cn_inbound c))"]
  by (auto simp: conn_Peek_def el_IsEmpty_iff el_Buffered_length)

lemma conn_Discard_ok:
  "el_ok (cn_inbound c) \<Longrightarrow> el_ok (cn_inbound (snd (conn_Discard n c))) \<and>
    el_contents (cn_inbound (snd (conn_Discard n c))) = drop (nat n) (el_contents (cn_inbound c))"
  using el_Discard_ok [of "cn_inbound c" n] by (simp add: conn_Discard_def split_beta Let_def)

lemma ReadToInboundBuffer_ok:
  assumes "pool_ok pool" and "fresh_ok fresh" and "el_ok (cn_inbound c)"
    and "ReadToInboundBuffer maxRead fresh pool now (Ret data) c = (Ret n, c')"
  shows "n = length data" and "el_ok (cn_inbound c')" and "el_contents (cn_inbound c') = el_contents (cn_inbound c) @ data"
  using assms(3,4) el_Write_ok [OF assms(1-3)]
  by (auto simp: ReadToInboundBuffer_def Let_def split: if_splits outcome.splits)

lemma WriteToOutboundBuffer_ok:
  assumes "pool_ok pool" and "fresh_ok fresh" and "el_ok (cn_outbound c)"
    and "WriteToOutboundBuffer fresh pool b c = (Ret n, c')"
  shows "el_ok (cn_outbound c')" and "el_contents (cn_outbound c') = el_contents (cn_outbound c) @ b"
  using assms(3,4) el_Write_ok [OF assms(1-3)]
  by (auto simp: WriteToOutboundBuffer_def split: if_splits outcome.splits)

end
