(* ===== verification/ConnManager.thy ===== *)
theory ConnManager
  imports NetConn
begin

text \<open>
  The engine's table of connections, \<^verbatim>\<open>pkg/oknet/engine.go\<close>, and the server's
  connection manager, \<^verbatim>\<open>internal/server/conn_manager.go\<close>. Connections are shared and
  mutated through pointers, and closed ones are reused: a pointer is an address into a heap, the
  object pool is a list of addresses. The table is a partial function from descriptors; its size,
  the limit on open files, is not modelled.
\<close>

section \<open>The engine\<close>

record 'ctx engine =
  eg_conns :: "int \<Rightarrow> nat option"
  eg_heap :: "nat \<Rightarrow> 'ctx net_conn"
  eg_idle :: "nat list"
  eg_next :: nat
  eg_clientIDGen :: int

definition conn_at :: "'ctx engine \<Rightarrow> nat \<Rightarrow> 'ctx net_conn" where
  "conn_at eng a = eg_heap eng a"

definition update_conn :: "nat \<Rightarrow> ('ctx net_conn \<Rightarrow> 'ctx net_conn) \<Rightarrow> 'ctx engine \<Rightarrow> 'ctx engine" where
  "update_conn a f eng = eng\<lparr>eg_heap := (eg_heap eng)(a := f (eg_heap eng a))\<rparr>"

definition engine_AddConn :: "nat \<Rightarrow> 'ctx engine \<Rightarrow> 'ctx engine" where
  "engine_AddConn a eng = eng\<lparr>eg_conns := (eg_conns eng)(cn_fd (conn_at eng a) := Some a)\<rparr>"

definition engine_RemoveConn :: "nat \<Rightarrow> 'ctx engine \<Rightarrow> 'ctx engine" where
  "engine_RemoveConn a eng = eng\<lparr>eg_conns := (eg_conns eng)(cn_fd (conn_at eng a) := None)\<rparr>"

definition engine_GetConn :: "int \<Rightarrow> 'ctx engine \<Rightarrow> nat option" where
  "engine_GetConn fd eng = eg_conns eng fd"

definition GenClientID :: "'ctx engine \<Rightarrow> int \<times> 'ctx engine" where
  "GenClientID eng =
     (let cid = eg_clientIDGen eng; base = (if cid \<ge> 2 ^ 32 - 1 then 0 else cid) in
      (base + 1, eng\<lparr>eg_clientIDGen := base + 1\<rparr>))"

text \<open>\<open>GetDefaultConn\<close>: \<open>choice\<close> is the pool's choice of a used object, or none.\<close>

definition GetDefaultConn :: "nat option \<Rightarrow> int \<Rightarrow> int \<Rightarrow> 'ctx engine \<Rightarrow> nat \<times> 'ctx engine" where
  "GetDefaultConn choice cid fd eng =
     (case choice of
        Some i \<Rightarrow>
          if i < length (eg_idle eng) then
            let a = eg_idle eng ! i in
            (a, update_conn a (init_conn cid fd) (eng\<lparr>eg_idle := take i (eg_idle eng) @ drop (i + 1) (eg_idle eng)\<rparr>))
          else (eg_next eng, update_conn (eg_next eng) (\<lambda>_. init_conn cid fd zero_conn) (eng\<lparr>eg_next := eg_next eng + 1\<rparr>))
      | None \<Rightarrow> (eg_next eng, update_conn (eg_next eng) (\<lambda>_. init_conn cid fd zero_conn) (eng\<lparr>eg_next := eg_next eng + 1\<rparr>)))"

text \<open>
  \<open>Close\<close> before and after it calls the server's close handler. The first part answers whether
  there is anything to do: closing a closed connection does nothing.
\<close>

definition close_begin :: "nat \<Rightarrow> 'ctx engine \<Rightarrow> bool \<times> 'ctx engine" where
  "close_begin a eng =
     (if cn_closed (conn_at eng a) then (False, eng)
      else (True, engine_RemoveConn a (update_conn a (\<lambda>c. c\<lparr>cn_closed := True, cn_readEvent := False, cn_writeEvent := False\<rparr>) eng)))"

definition close_release :: "nat \<Rightarrow> 'ctx engine \<Rightarrow> 'ctx engine" where
  "close_release a eng =
     (let eng = update_conn a (\<lambda>c. c\<lparr>cn_fd := 0, cn_maxIdle := 0, cn_inbound := None, cn_outbound := None\<rparr>) eng in
      eng\<lparr>eg_idle := eg_idle eng @ [a]\<rparr>)"

text \<open>A reactor adds a new connection to the engine and watches it for reading.\<close>

definition reactor_AddConn :: "nat \<Rightarrow> 'ctx engine \<Rightarrow> 'ctx engine" where
  "reactor_AddConn a eng = update_conn a (\<lambda>c. c\<lparr>cn_readEvent := True\<rparr>) (engine_AddConn a eng)"

section \<open>The connection manager\<close>

text \<open>The map from users to connection numbers: Go does not tell a missing entry from an empty one here.\<close>

record connManager =
  cm_userConnMap :: "gostring \<Rightarrow> int list"
  cm_connMap :: "int \<Rightarrow> int option"

definition NewConnManager :: connManager where
  "NewConnManager = \<lparr>cm_userConnMap = (\<lambda>_. []), cm_connMap = Map.empty\<rparr>"

definition AddConn :: "nat \<Rightarrow> 'ctx engine \<Rightarrow> connManager \<Rightarrow> connManager" where
  "AddConn a eng cm =
     (let c = conn_at eng a in
      cm\<lparr>cm_userConnMap := (cm_userConnMap cm)(cn_uid c := cm_userConnMap cm (cn_uid c) @ [cn_id c]),
         cm_connMap := (cm_connMap cm)(cn_id c \<mapsto> cn_fd c)\<rparr>)"

text \<open>A number that is not in the map reads as descriptor zero.\<close>

definition GetConn :: "int \<Rightarrow> 'ctx engine \<Rightarrow> connManager \<Rightarrow> nat option" where
  "GetConn cid eng cm = engine_GetConn (case cm_connMap cm cid of None \<Rightarrow> 0 | Some fd \<Rightarrow> fd) eng"

text \<open>
  The loop that removes a number from the user's slice runs over the slice it modifies: the ranges
  are those of the original slice of length \<open>n\<close>, the elements are read from the array \<open>arr\<close> as
  it is being shifted, and the shrinking slice is the first \<open>m\<close> elements of it.
\<close>

function remove_loop :: "int \<Rightarrow> nat \<Rightarrow> nat \<Rightarrow> int list \<Rightarrow> nat \<Rightarrow> int list outcome" where
  "remove_loop cid index n arr m =
     (if index \<ge> n then Ret (take m arr)
      else if arr ! index = cid then
        (if index + 1 > m then Panic
         else remove_loop cid (index + 1) n
                (take index arr @ drop (index + 1) (take m arr) @ drop (m - 1) arr) (m - 1))
      else remove_loop cid (index + 1) n arr m)"
  by auto
termination by (relation "measure (\<lambda>(cid, index, n, arr, m). n - index)") auto

declare remove_loop.simps [simp del]

definition RemoveConnWithID :: "int \<Rightarrow> 'ctx engine \<Rightarrow> connManager \<Rightarrow> connManager outcome" where
  "RemoveConnWithID cid eng cm =
     (let conn = GetConn cid eng cm; cm = cm\<lparr>cm_connMap := (cm_connMap cm)(cid := None)\<rparr> in
      case conn of
        None \<Rightarrow> Ret cm
      | Some a \<Rightarrow>
          (let c = conn_at eng a; connIDs = cm_userConnMap cm (cn_uid c) in
           bindR (remove_loop (cn_id c) 0 (length connIDs) connIDs (length connIDs)) (\<lambda>connIDs.
             Ret (cm\<lparr>cm_userConnMap := (cm_userConnMap cm)(cn_uid c := connIDs)\<rparr>))))"

definition RemoveConn :: "nat \<Rightarrow> 'ctx engine \<Rightarrow> connManager \<Rightarrow> connManager outcome" where
  "RemoveConn a eng cm = RemoveConnWithID (cn_id (conn_at eng a)) eng cm"

definition GetConnsWithUID :: "gostring \<Rightarrow> 'ctx engine \<Rightarrow> connManager \<Rightarrow> nat list" where
  "GetConnsWithUID uid eng cm = List.map_filter (\<lambda>cid. GetConn cid eng cm) (cm_userConnMap cm uid)"

definition ExistConnsWithUID :: "gostring \<Rightarrow> connManager \<Rightarrow> bool" where
  "ExistConnsWithUID uid cm \<longleftrightarrow> length (cm_userConnMap cm uid) > 0"

definition GetConnsWith :: "gostring \<Rightarrow> u8 \<Rightarrow> 'ctx engine \<Rightarrow> connManager \<Rightarrow> nat list" where
  "GetConnsWith uid deviceFlag eng cm =
     filter (\<lambda>a. cn_deviceFlag (conn_at eng a) = deviceFlag) (GetConnsWithUID uid eng cm)"

definition GetConnWithDeviceID :: "gostring \<Rightarrow> gostring \<Rightarrow> 'ctx engine \<Rightarrow> connManager \<Rightarrow> nat option" where
  "GetConnWithDeviceID uid deviceID eng cm =
     find (\<lambda>a. cn_deviceID (conn_at eng a) = deviceID) (GetConnsWithUID uid eng cm)"

definition GetConnCountWith :: "gostring \<Rightarrow> u8 \<Rightarrow> 'ctx engine \<Rightarrow> connManager \<Rightarrow> nat \<times> nat" where
  "GetConnCountWith uid deviceFlag eng cm =
     (let conns = GetConnsWithUID uid eng cm in
      (length (filter (\<lambda>a. cn_deviceFlag (conn_at eng a) = deviceFlag) conns), length conns))"

definition GetOnlineConns :: "gostring list \<Rightarrow> 'ctx engine \<Rightarrow> connManager \<Rightarrow> nat list" where
  "GetOnlineConns uids eng cm =
     concat (map (\<lambda>uid. List.map_filter (\<lambda>cid. GetConn cid eng cm) (cm_userConnMap cm uid)) uids)"

section \<open>Properties of the manager\<close>

lemma remove_loop_absent: "cid \<notin> set (drop index arr) \<Longrightarrow> n = length arr \<Longrightarrow> remove_loop cid index n arr m = Ret (take m arr)"
proof (induction "n - index" arbitrary: index)
  case 0
  then show ?case by (subst remove_loop.simps) simp
next
  case (Suc k)
  then have i: "index < length arr" by simp
  then have "arr ! index \<in> set (drop index arr)" by (metis Cons_nth_drop_Suc list.set_intros(1))
  moreover have "cid \<notin> set (drop (Suc index) arr)"
    using Suc.prems(1) i by (metis Cons_nth_drop_Suc list.set_intros(2))
  ultimately show ?case
    using Suc.hyps(1) [of "Suc index"] Suc.hyps(2) Suc.prems i by (subst remove_loop.simps) auto
qed

lemma remove_loop_skip:
  assumes "index \<le> k" and "k \<le> n" and "\<And>j. index \<le> j \<Longrightarrow> j < k \<Longrightarrow> arr ! j \<noteq> cid"
  shows "remove_loop cid index n arr m = remove_loop cid k n arr m"
  using assms
proof (induction "k - index" arbitrary: index)
  case (Suc d)
  then have "index < k" by simp
  with Suc.prems have "remove_loop cid index n arr m = remove_loop cid (index + 1) n arr m"
    by (subst remove_loop.simps) simp
  also have "\<dots> = remove_loop cid k n arr m"
    using Suc.hyps Suc.prems \<open>index < k\<close> by (intro Suc.hyps(1)) auto
  finally show ?case .
qed simp

text \<open>A number that occurs once is removed, everything else stays in order.\<close>

lemma remove_loop_distinct:
  assumes "distinct xs" and "n = length xs"
  shows "remove_loop cid 0 n xs n = Ret (remove1 cid xs)"
proof (cases "cid \<in> set xs")
  case False
  then show ?thesis using assms(2) by (simp add: remove_loop_absent remove1_idem)
next
  case True
  then obtain ys zs where xs: "xs = ys @ cid # zs" "cid \<notin> set ys" by (metis split_list_first)
  with assms(1) have zs: "cid \<notin> set zs" by simp
  let ?k = "length ys"
  let ?arr = "ys @ zs @ drop (n - 1) xs"
  have "remove_loop cid 0 n xs n = remove_loop cid ?k n xs n"
    by (rule remove_loop_skip) (use xs assms(2) in \<open>auto simp: nth_append in_set_conv_nth\<close>)
  also have "\<dots> = remove_loop cid (?k + 1) n ?arr (n - 1)"
    using xs assms(2) by (subst remove_loop.simps) (simp add: nth_append)
  also have "\<dots> = Ret (take (n - 1) ?arr)"
  proof (rule remove_loop_absent)
    show "n = length ?arr" using xs assms(2) by simp
    show "cid \<notin> set (drop (?k + 1) ?arr)"
      using zs xs assms(2) by (cases zs rule: rev_cases) (auto dest!: in_set_dropD)
  qed
  also have "take (n - 1) ?arr = ys @ zs" using xs assms(2) by simp
  finally show ?thesis using xs by (simp add: remove1_append)
qed
text \<open>
  The state that the manager is meant to be in: a user's numbers are distinct and registered with
  the descriptor under which the engine finds the user's connection of that number.
\<close>

definition registered :: "'ctx engine \<Rightarrow> connManager \<Rightarrow> gostring \<Rightarrow> int \<Rightarrow> nat \<Rightarrow> bool" where
  "registered eng cm uid cid a \<longleftrightarrow>
     (\<exists>fd. cm_connMap cm cid = Some fd \<and> eg_conns eng fd = Some a \<and>
        cn_id (conn_at eng a) = cid \<and> cn_uid (conn_at eng a) = uid \<and> cn_fd (conn_at eng a) = fd)"

definition manager_ok :: "'ctx engine \<Rightarrow> connManager \<Rightarrow> bool" where
  "manager_ok eng cm \<longleftrightarrow> (\<forall>uid. distinct (cm_userConnMap cm uid) \<and>
     (\<forall>cid \<in> set (cm_userConnMap cm uid). \<exists>a. registered eng cm uid cid a))"

lemma NewConnManager_ok: "manager_ok eng NewConnManager"
  by (simp add: manager_ok_def NewConnManager_def)

lemma registered_GetConn: "registered eng cm uid cid a \<Longrightarrow> GetConn cid eng cm = Some a"
  by (auto simp: registered_def GetConn_def engine_GetConn_def)

text \<open>A user's connections are exactly those of the registered numbers, in order of arrival.\<close>

lemma GetConnsWithUID_registered:
  assumes "manager_ok eng cm"
  shows "a \<in> set (GetConnsWithUID uid eng cm) \<longleftrightarrow>
      (\<exists>cid \<in> set (cm_userConnMap cm uid). registered eng cm uid cid a)"
    and "length (GetConnsWithUID uid eng cm) = length (cm_userConnMap cm uid)"
    and "distinct (GetConnsWithUID uid eng cm)"
proof -
  define conn where "conn cid = the (GetConn cid eng cm)" for cid
  have reg: "registered eng cm uid cid (conn cid)" if "cid \<in> set (cm_userConnMap cm uid)" for cid
    using assms that registered_GetConn [of eng cm uid cid] by (fastforce simp: manager_ok_def conn_def)
  have all: "filter (\<lambda>cid. GetConn cid eng cm \<noteq> None) (cm_userConnMap cm uid) = cm_userConnMap cm uid"
    using reg registered_GetConn by (intro filter_True) blast
  have eq: "GetConnsWithUID uid eng cm = map conn (cm_userConnMap cm uid)"
    unfolding GetConnsWithUID_def List.map_filter_def all by (simp add: conn_def comp_def)
  have inj: "inj_on conn (set (cm_userConnMap cm uid))"
    by (rule inj_onI) (metis reg registered_def)
  show "length (GetConnsWithUID uid eng cm) = length (cm_userConnMap cm uid)" unfolding eq by simp
  show "distinct (GetConnsWithUID uid eng cm)"
    unfolding eq distinct_map using assms inj by (simp add: manager_ok_def)
  have same: "a = conn cid" if "registered eng cm uid cid a" for a cid
    using registered_GetConn [OF that] by (simp add: conn_def)
  show "a \<in> set (GetConnsWithUID uid eng cm) \<longleftrightarrow>
      (\<exists>cid \<in> set (cm_userConnMap cm uid). registered eng cm uid cid a)"
    unfolding eq using reg same by auto
qed

text \<open>A connection with a new number that the engine already knows may be added.\<close>

lemma AddConn_ok:
  assumes "manager_ok eng cm" and "eg_conns eng (cn_fd (conn_at eng a)) = Some a"
    and "cm_connMap cm (cn_id (conn_at eng a)) = None"
  shows "manager_ok eng (AddConn a eng cm)"
    and "registered eng (AddConn a eng cm) (cn_uid (conn_at eng a)) (cn_id (conn_at eng a)) a"
    and "a \<in> set (GetConnsWithUID (cn_uid (conn_at eng a)) eng (AddConn a eng cm))"
proof -
  let ?c = "conn_at eng a" and ?cm = "AddConn a eng cm"
  show new: "registered eng ?cm (cn_uid ?c) (cn_id ?c) a"
    using assms(2) by (simp add: registered_def AddConn_def Let_def)
  have fresh: "cn_id ?c \<notin> set (cm_userConnMap cm uid)" for uid
    using assms(1,3) by (fastforce simp: manager_ok_def registered_def)
  have old: "registered eng ?cm uid cid b" if "registered eng cm uid cid b" for uid cid b
    using that assms(3) by (auto simp: registered_def AddConn_def Let_def)
  show ok: "manager_ok eng ?cm"
    unfolding manager_ok_def
  proof (intro allI conjI ballI)
    fix uid
    show "distinct (cm_userConnMap ?cm uid)"
      using assms(1) fresh by (simp add: manager_ok_def AddConn_def Let_def)
    fix cid assume "cid \<in> set (cm_userConnMap ?cm uid)"
    then have "cid \<in> set (cm_userConnMap cm uid) \<or> cid = cn_id ?c \<and> uid = cn_uid ?c"
      by (auto simp: AddConn_def Let_def split: if_splits)
    then show "\<exists>b. registered eng ?cm uid cid b"
    proof (elim disjE conjE)
      assume "cid \<in> set (cm_userConnMap cm uid)"
      with assms(1) obtain b where "registered eng cm uid cid b" unfolding manager_ok_def by blast
      then show ?thesis using old by blast
    qed (use new in blast)
  qed
  show "a \<in> set (GetConnsWithUID (cn_uid ?c) eng ?cm)"
    unfolding GetConnsWithUID_registered(1) [OF ok]
    using new by (auto simp: AddConn_def Let_def)
qed

lemma AddConn_conns:
  assumes "manager_ok eng cm" and "eg_conns eng (cn_fd (conn_at eng a)) = Some a"
    and "cm_connMap cm (cn_id (conn_at eng a)) = None"
  shows "set (GetConnsWithUID (cn_uid (conn_at eng a)) eng (AddConn a eng cm)) =
    insert a (set (GetConnsWithUID (cn_uid (conn_at eng a)) eng cm))"
proof -
  let ?c = "conn_at eng a"
  have "GetConn cid eng (AddConn a eng cm) = GetConn cid eng cm" if "cid \<in> set (cm_userConnMap cm (cn_uid ?c))" for cid
  proof -
    from assms(1) that obtain b where "registered eng cm (cn_uid ?c) cid b" unfolding manager_ok_def by blast
    with assms(3) have "cid \<noteq> cn_id ?c" by (auto simp: registered_def)
    then show ?thesis by (simp add: GetConn_def AddConn_def Let_def)
  qed
  moreover have "GetConn (cn_id ?c) eng (AddConn a eng cm) = Some a"
    using assms(2) by (simp add: GetConn_def AddConn_def engine_GetConn_def Let_def)
  moreover have "cm_userConnMap (AddConn a eng cm) (cn_uid ?c) = cm_userConnMap cm (cn_uid ?c) @ [cn_id ?c]"
    by (simp add: AddConn_def Let_def)
  ultimately show ?thesis by (force simp: GetConnsWithUID_def List.map_filter_def)
qed

text \<open>Removing a number that is registered, while the engine still has the connection.\<close>

lemma RemoveConnWithID_ok:
  assumes "manager_ok eng cm" and "registered eng cm uid cid a" and "RemoveConnWithID cid eng cm = Ret cm'"
  shows "manager_ok eng cm'" and "cm_userConnMap cm' = (cm_userConnMap cm)(uid := remove1 cid (cm_userConnMap cm uid))"
    and "a \<notin> set (GetConnsWithUID uid eng cm')" and "cm_connMap cm' = (cm_connMap cm)(cid := None)"
proof -
  have d: "distinct (cm_userConnMap cm uid)" using assms(1) by (simp add: manager_ok_def)
  have r: "cn_uid (conn_at eng a) = uid" "cn_id (conn_at eng a) = cid" using assms(2) by (auto simp: registered_def)
  have g: "GetConn cid eng cm = Some a" by (rule registered_GetConn) (rule assms(2))
  have rl: "remove_loop cid 0 (length (cm_userConnMap cm uid)) (cm_userConnMap cm uid) (length (cm_userConnMap cm uid))
      = Ret (remove1 cid (cm_userConnMap cm uid))"
    by (rule remove_loop_distinct [OF d refl])
  have "RemoveConnWithID cid eng cm = Ret (cm\<lparr>cm_connMap := (cm_connMap cm)(cid := None),
      cm_userConnMap := (cm_userConnMap cm)(uid := remove1 cid (cm_userConnMap cm uid))\<rparr>)"
    unfolding RemoveConnWithID_def Let_def g by (simp add: r rl)
  with assms(3) have cm': "cm' = cm\<lparr>cm_connMap := (cm_connMap cm)(cid := None),
      cm_userConnMap := (cm_userConnMap cm)(uid := remove1 cid (cm_userConnMap cm uid))\<rparr>"
    by (simp only: outcome.inject)
  then show users: "cm_userConnMap cm' = (cm_userConnMap cm)(uid := remove1 cid (cm_userConnMap cm uid))" by simp
  from cm' show "cm_connMap cm' = (cm_connMap cm)(cid := None)" by simp
  have other: "cid \<notin> set (cm_userConnMap cm' v)" for v
  proof
    assume "cid \<in> set (cm_userConnMap cm' v)"
    then have v: "cid \<in> set (cm_userConnMap cm v)" "v \<noteq> uid" using users d by (auto split: if_splits)
    with assms(1) obtain b where "registered eng cm v cid b" unfolding manager_ok_def by blast
    with assms(2) v(2) show False unfolding registered_def by (metis option.inject)
  qed
  show ok: "manager_ok eng cm'"
    unfolding manager_ok_def
  proof (intro allI conjI ballI)
    fix v
    show "distinct (cm_userConnMap cm' v)"
      using assms(1) users by (simp add: manager_ok_def distinct_remove1)
    fix c assume c: "c \<in> set (cm_userConnMap cm' v)"
    with other have ne: "c \<noteq> cid" by blast
    have "c \<in> set (cm_userConnMap cm v)" using c users by (auto split: if_splits dest: set_remove1_subset [THEN subsetD])
    with assms(1) obtain b where b: "registered eng cm v c b" unfolding manager_ok_def by blast
    have "registered eng cm' v c b" using b ne unfolding cm' registered_def by simp
    then show "\<exists>b. registered eng cm' v c b" by blast
  qed
  show "a \<notin> set (GetConnsWithUID uid eng cm')"
    unfolding GetConnsWithUID_registered(1) [OF ok] 
  proof
    assume "\<exists>c\<in>set (cm_userConnMap cm' uid). registered eng cm' uid c a"
    then obtain c where "c \<in> set (cm_userConnMap cm' uid)" "registered eng cm' uid c a" by blast
    with r(2) other [of uid] show False unfolding registered_def by metis
  qed
qed

lemma RemoveConnWithID_total:
  assumes "manager_ok eng cm" and "registered eng cm uid cid a"
  shows "\<exists>cm'. RemoveConnWithID cid eng cm = Ret cm'"
  using assms registered_GetConn [OF assms(2)] remove_loop_distinct [of "cm_userConnMap cm uid"]
  by (auto simp: RemoveConnWithID_def Let_def manager_ok_def registered_def)

lemma GetConnsWithUID_removed:
  assumes "manager_ok eng cm" and "registered eng cm uid cid a" and "RemoveConnWithID cid eng cm = Ret cm'"
  shows "b \<in> set (GetConnsWithUID u eng cm') \<longleftrightarrow> b \<in> set (GetConnsWithUID u eng cm) \<and> b \<noteq> a"
proof -
  note ok = RemoveConnWithID_ok [OF assms]
  have a: "cn_id (conn_at eng a) = cid" "cn_uid (conn_at eng a) = uid" using assms(2) by (auto simp: registered_def)
  have reg: "registered eng cm' u c x \<longleftrightarrow> registered eng cm u c x \<and> c \<noteq> cid" for c x
    unfolding registered_def ok(4) by (auto split: if_splits)
  have sub: "c \<in> set (cm_userConnMap cm u)" if "c \<in> set (cm_userConnMap cm' u)" for c
    using that set_remove1_subset [of cid "cm_userConnMap cm uid"] by (cases "u = uid") (auto simp: ok(2))
  have keep: "c \<in> set (cm_userConnMap cm' u)" if "c \<in> set (cm_userConnMap cm u)" "c \<noteq> cid" for c
    using that by (cases "u = uid") (simp_all add: ok(2))
  have num: "cn_id (conn_at eng b) = c" if "registered eng cm u c b" for c using that by (auto simp: registered_def)
  have same: "b = a" if "registered eng cm u cid b"
    using that assms(2) unfolding registered_def by (metis option.inject)
  have "(\<exists>c \<in> set (cm_userConnMap cm' u). registered eng cm u c b \<and> c \<noteq> cid) \<longleftrightarrow>
      (\<exists>c \<in> set (cm_userConnMap cm u). registered eng cm u c b) \<and> b \<noteq> a" (is "?l \<longleftrightarrow> ?r")
  proof
    assume ?l
    then obtain c where "c \<in> set (cm_userConnMap cm' u)" "registered eng cm u c b" "c \<noteq> cid" by blast
    with sub num a(1) show ?r by metis
  next
    assume ?r
    then obtain c where "c \<in> set (cm_userConnMap cm u)" "registered eng cm u c b" "b \<noteq> a" by blast
    with keep same show ?l by metis
  qed
  then show ?thesis
    unfolding GetConnsWithUID_registered(1) [OF ok(1)] GetConnsWithUID_registered(1) [OF assms(1)] reg .
qed

text \<open>The same for the lists themselves: a new connection comes last, the removal of one keeps all others in order.\<close>

lemma GetConnsWithUID_map:
  assumes "manager_ok eng cm"
  shows "GetConnsWithUID uid eng cm = map (\<lambda>cid. the (GetConn cid eng cm)) (cm_userConnMap cm uid)"
proof -
  have "GetConn cid eng cm \<noteq> None" if "cid \<in> set (cm_userConnMap cm uid)" for cid
    using assms that registered_GetConn unfolding manager_ok_def by blast
  then have "filter (\<lambda>cid. GetConn cid eng cm \<noteq> None) (cm_userConnMap cm uid) = cm_userConnMap cm uid" by simp
  then show ?thesis unfolding GetConnsWithUID_def List.map_filter_def by (simp add: comp_def)
qed

lemma AddConn_last:
  assumes "manager_ok eng cm" and "eg_conns eng (cn_fd (conn_at eng a)) = Some a"
    and "cm_connMap cm (cn_id (conn_at eng a)) = None"
  shows "GetConnsWithUID u eng (AddConn a eng cm) = GetConnsWithUID u eng cm @ (if u = cn_uid (conn_at eng a) then [a] else [])"
proof -
  let ?c = "conn_at eng a" and ?cm = "AddConn a eng cm"
  have old: "GetConn cid eng ?cm = GetConn cid eng cm" if "cid \<in> set (cm_userConnMap cm u)" for cid
  proof -
    from assms(1) that obtain b where "registered eng cm u cid b" unfolding manager_ok_def by blast
    with assms(3) have "cid \<noteq> cn_id ?c" by (auto simp: registered_def)
    then show ?thesis by (simp add: GetConn_def AddConn_def Let_def)
  qed
  have new: "GetConn (cn_id ?c) eng ?cm = Some a"
    using assms(2) by (simp add: GetConn_def AddConn_def engine_GetConn_def Let_def)
  have users: "cm_userConnMap ?cm u = cm_userConnMap cm u @ (if u = cn_uid ?c then [cn_id ?c] else [])"
    by (simp add: AddConn_def Let_def)
  show ?thesis
    unfolding GetConnsWithUID_map [OF assms(1)] GetConnsWithUID_map [OF AddConn_ok(1) [OF assms]] users
    using old new by simp
qed

lemma RemoveConnWithID_others:
  assumes "manager_ok eng cm" and "registered eng cm uid cid a" and "RemoveConnWithID cid eng cm = Ret cm'"
  shows "GetConnsWithUID u eng cm' = filter (\<lambda>b. b \<noteq> a) (GetConnsWithUID u eng cm)"
proof -
  note ok = RemoveConnWithID_ok [OF assms]
  have reg: "\<exists>b. registered eng cm u c b" if "c \<in> set (cm_userConnMap cm u)" for c
    using assms(1) that unfolding manager_ok_def by blast
  have here: "the (GetConn c eng cm) = a \<longleftrightarrow> c = cid" if "c \<in> set (cm_userConnMap cm u)" for c
  proof -
    from reg [OF that] obtain b where b: "registered eng cm u c b" by blast
    have "c = cid \<longleftrightarrow> b = a" using b assms(2) unfolding registered_def by (metis option.inject)
    with registered_GetConn [OF b] show ?thesis by simp
  qed
  have "cid \<in> set (cm_userConnMap cm u) \<Longrightarrow> u = uid"
    using reg [of cid] assms(2) unfolding registered_def by (metis option.inject)
  moreover have "distinct (cm_userConnMap cm u)" using assms(1) by (simp add: manager_ok_def)
  ultimately have users: "cm_userConnMap cm' u = filter (\<lambda>c. c \<noteq> cid) (cm_userConnMap cm u)"
    unfolding ok(2) by (auto simp: distinct_remove1_removeAll removeAll_filter_not_eq intro!: filter_True [symmetric] filter_cong)
  have "GetConn c eng cm' = GetConn c eng cm" if "c \<noteq> cid" for c using that by (simp add: GetConn_def ok(4))
  then show ?thesis
    unfolding GetConnsWithUID_map [OF assms(1)] GetConnsWithUID_map [OF ok(1)] users
    using here by (auto simp: filter_map comp_def intro!: map_cong filter_cong)
qed

text \<open>Every connection that is found can be removed.\<close>

lemma RemoveConn_found:
  assumes "manager_ok eng cm" and "b \<in> set (GetConnsWithUID v eng cm)"
  shows "\<exists>cm'. RemoveConnWithID (cn_id (conn_at eng b)) eng cm = Ret cm' \<and> manager_ok eng cm' \<and>
    cm_connMap cm' (cn_id (conn_at eng b)) = None \<and>
    (\<forall>u. GetConnsWithUID u eng cm' = filter (\<lambda>x. x \<noteq> b) (GetConnsWithUID u eng cm))"
proof -
  from assms GetConnsWithUID_registered(1) [OF assms(1)] obtain cid where "registered eng cm v cid b" by blast
  then have r: "registered eng cm v (cn_id (conn_at eng b)) b" by (auto simp: registered_def)
  from RemoveConnWithID_total [OF assms(1) r] obtain cm' where cm': "RemoveConnWithID (cn_id (conn_at eng b)) eng cm = Ret cm'" by blast
  with RemoveConnWithID_ok(1,4) [OF assms(1) r cm'] RemoveConnWithID_others [OF assms(1) r cm'] show ?thesis by simp
qed

lemma AddRemove_ok:
  assumes "manager_ok eng cm" and "eg_conns eng (cn_fd (conn_at eng a)) = Some a"
    and "cm_connMap cm (cn_id (conn_at eng a)) = None"
  shows "\<exists>cm'. RemoveConnWithID (cn_id (conn_at eng a)) eng (AddConn a eng cm) = Ret cm' \<and> manager_ok eng cm' \<and>
    a \<notin> set (GetConnsWithUID (cn_uid (conn_at eng a)) eng cm') \<and> cm_userConnMap cm' = cm_userConnMap cm"
proof -
  let ?c = "conn_at eng a"
  note ok = AddConn_ok(1,2) [OF assms]
  from RemoveConnWithID_total [OF ok] obtain cm' where
    r: "RemoveConnWithID (cn_id ?c) eng (AddConn a eng cm) = Ret cm'" by blast
  have "cn_id ?c \<notin> set (cm_userConnMap cm (cn_uid ?c))"
    using assms(1,3) by (fastforce simp: manager_ok_def registered_def)
  then have "cm_userConnMap cm' = cm_userConnMap cm"
    unfolding RemoveConnWithID_ok(2) [OF ok r] by (simp add: AddConn_def Let_def remove1_append fun_eq_iff)
  with RemoveConnWithID_ok(1,3) [OF ok r] r show ?thesis by blast
qed

text \<open>
  When a connection closes, the engine forgets it before it calls the close handler: the manager then
  no longer finds the connection it is asked to remove, and keeps its number in the user's list.
\<close>

lemma close_keeps_number:
  assumes "eg_conns eng 0 = None" and "\<not> cn_closed (conn_at eng a)" and "registered eng cm uid cid a"
    and "close_begin a eng = (True, eng')"
  shows "\<exists>cm'. RemoveConn a eng' cm = Ret cm' \<and> cm_userConnMap cm' = cm_userConnMap cm \<and> cm_connMap cm' cid = None"
  using assms
  by (auto simp: RemoveConn_def RemoveConnWithID_def GetConn_def engine_GetConn_def close_begin_def engine_RemoveConn_def
      update_conn_def conn_at_def registered_def Let_def)

end
