(* ===== verification/ConnContext.thy ===== *)
theory ConnContext
  imports Packets ConnManager Json
begin

text \<open>
  What the server attaches to a connection, \<^verbatim>\<open>internal/server/conn_context.go\<close>: the frames
  received and not yet processed, the flow control that stops reading from a connection with too many
  of them, and the data channels it subscribed to. Flow control is first shown correct for operations
  that do not overlap; a second model then runs the unprotected update of the counter step by step.
\<close>

section \<open>State and operations\<close>

record subscribeInfo =
  su_UID :: gostring
  su_Param :: params

record connContext =
  cc_isDisableRead :: bool
  cc_conn :: "nat option"
  cc_frameCaches :: "frame list"
  cc_inflightCount :: int
  cc_subscriberInfos :: "gostring \<rightharpoonup> subscribeInfo"

definition newConnContext :: connContext where
  "newConnContext = \<lparr>cc_isDisableRead = False, cc_conn = None, cc_frameCaches = [], cc_inflightCount = 0,
     cc_subscriberInfos = Map.empty\<rparr>"

text \<open>
  The context together with what its operations touch outside it: whether the poller reads the
  connection, and the server's count of slow clients. Only a context that has its connection may
  stop or restart reading; after \<open>release\<close> it has none and the calls on it panic.
\<close>

record flow =
  fl_ctx :: connContext
  fl_readEvent :: bool
  fl_slowClients :: int

definition disableRead :: "flow \<Rightarrow> flow outcome" where
  "disableRead fl =
     (if cc_isDisableRead (fl_ctx fl) then Ret fl
      else let fl = fl\<lparr>fl_slowClients := fl_slowClients fl + 1, fl_ctx := (fl_ctx fl)\<lparr>cc_isDisableRead := True\<rparr>\<rparr> in
        if cc_conn (fl_ctx fl) = None then Panic else Ret (fl\<lparr>fl_readEvent := False\<rparr>))"

definition enableRead :: "flow \<Rightarrow> flow outcome" where
  "enableRead fl =
     (if \<not> cc_isDisableRead (fl_ctx fl) then Ret fl
      else let fl = fl\<lparr>fl_slowClients := fl_slowClients fl - 1, fl_ctx := (fl_ctx fl)\<lparr>cc_isDisableRead := False\<rparr>\<rparr> in
        if cc_conn (fl_ctx fl) = None then Panic else Ret (fl\<lparr>fl_readEvent := True\<rparr>))"

definition putFrame :: "int \<Rightarrow> frame \<Rightarrow> flow \<Rightarrow> flow outcome" where
  "putFrame maxSize frame fl =
     (let ctx = fl_ctx fl;
          ctx = ctx\<lparr>cc_inflightCount := cc_inflightCount ctx + 1, cc_frameCaches := cc_frameCaches ctx @ [frame]\<rparr>;
          fl = fl\<lparr>fl_ctx := ctx\<rparr>
      in if maxSize > 0 \<and> cc_inflightCount ctx > maxSize then disableRead fl else Ret fl)"

definition popFrames :: "flow \<Rightarrow> frame list \<times> flow" where
  "popFrames fl = (cc_frameCaches (fl_ctx fl), fl\<lparr>fl_ctx := (fl_ctx fl)\<lparr>cc_frameCaches := []\<rparr>\<rparr>)"

definition finishFrames :: "int \<Rightarrow> nat \<Rightarrow> flow \<Rightarrow> flow outcome" where
  "finishFrames maxSize count fl =
     (let ctx = fl_ctx fl; ctx = ctx\<lparr>cc_inflightCount := cc_inflightCount ctx - int count\<rparr>; fl = fl\<lparr>fl_ctx := ctx\<rparr>
      in if maxSize > 0 \<and> cc_inflightCount ctx \<le> maxSize then enableRead fl else Ret fl)"

definition subscribeChannel :: "(nat \<Rightarrow> gostring) \<Rightarrow> gostring \<Rightarrow> u8 \<Rightarrow> params \<Rightarrow> connContext \<Rightarrow> connContext" where
  "subscribeChannel uid_of channelID channelType param ctx =
     (case cc_conn ctx of
        None \<Rightarrow> ctx
      | Some a \<Rightarrow> ctx\<lparr>cc_subscriberInfos := (cc_subscriberInfos ctx)
          (channelKey channelID channelType \<mapsto> \<lparr>su_UID = uid_of a, su_Param = param\<rparr>)\<rparr>)"

definition unscribeChannel :: "gostring \<Rightarrow> u8 \<Rightarrow> connContext \<Rightarrow> connContext" where
  "unscribeChannel channelID channelType ctx =
     ctx\<lparr>cc_subscriberInfos := (cc_subscriberInfos ctx)(channelKey channelID channelType := None)\<rparr>"

definition getSubscribeInfo :: "gostring \<Rightarrow> u8 \<Rightarrow> connContext \<Rightarrow> subscribeInfo option" where
  "getSubscribeInfo channelID channelType ctx = cc_subscriberInfos ctx (channelKey channelID channelType)"

definition release :: "connContext \<Rightarrow> connContext" where
  "release ctx = ctx\<lparr>cc_inflightCount := 0, cc_isDisableRead := False, cc_frameCaches := [], cc_conn := None\<rparr>"

lemma getSubscribeInfo_subscribe:
  assumes "cc_conn ctx = Some a"
  shows "getSubscribeInfo cid t (subscribeChannel uid_of cid' t' p ctx) =
    (if channelKey cid t = channelKey cid' t' then Some \<lparr>su_UID = uid_of a, su_Param = p\<rparr> else getSubscribeInfo cid t ctx)"
  using assms by (simp add: getSubscribeInfo_def subscribeChannel_def)

lemma getSubscribeInfo_unscribe:
  "getSubscribeInfo cid t (unscribeChannel cid' t' ctx) =
    (if channelKey cid t = channelKey cid' t' then None else getSubscribeInfo cid t ctx)"
  by (simp add: getSubscribeInfo_def unscribeChannel_def)

section \<open>Flow control as a state machine\<close>

text \<open>
  A frame arrives, all waiting frames are taken out to be processed, some of those that were taken
  out are done. \<open>taken\<close> counts the frames that were taken out and are not done.
\<close>

datatype flow_event = Arrive frame | TakeOut | Done nat

inductive flow_step :: "int \<Rightarrow> flow_event \<Rightarrow> flow \<times> nat \<Rightarrow> flow \<times> nat \<Rightarrow> bool" for maxSize where
  arrive: "putFrame maxSize f fl = Ret fl' \<Longrightarrow> flow_step maxSize (Arrive f) (fl, taken) (fl', taken)"
| take_out: "popFrames fl = (fs, fl') \<Longrightarrow> flow_step maxSize TakeOut (fl, taken) (fl', taken + length fs)"
| finished: "k \<le> taken \<Longrightarrow> finishFrames maxSize k fl = Ret fl' \<Longrightarrow> flow_step maxSize (Done k) (fl, taken) (fl', taken - k)"

inductive_cases arriveE: "flow_step maxSize (Arrive f) s s'"
inductive_cases takeOutE: "flow_step maxSize TakeOut s s'"
inductive_cases doneE: "flow_step maxSize (Done k) s s'"

inductive flow_reach :: "int \<Rightarrow> nat \<Rightarrow> int \<Rightarrow> flow \<times> nat \<Rightarrow> bool" for maxSize a slow where
  start: "flow_reach maxSize a slow
    (\<lparr>fl_ctx = newConnContext\<lparr>cc_conn := Some a\<rparr>, fl_readEvent = True, fl_slowClients = slow\<rparr>, 0)"
| step: "flow_reach maxSize a slow s \<Longrightarrow> flow_step maxSize ev s s' \<Longrightarrow> flow_reach maxSize a slow s'"

definition flow_inv :: "int \<Rightarrow> nat \<Rightarrow> int \<Rightarrow> flow \<times> nat \<Rightarrow> bool" where
  "flow_inv maxSize a slow s \<longleftrightarrow>
     (let (fl, taken) = s; ctx = fl_ctx fl in
      cc_conn ctx = Some a \<and>
      cc_inflightCount ctx = int (length (cc_frameCaches ctx)) + int taken \<and>
      (cc_isDisableRead ctx \<longleftrightarrow> 0 < maxSize \<and> maxSize < cc_inflightCount ctx) \<and>
      (fl_readEvent fl \<longleftrightarrow> \<not> cc_isDisableRead ctx) \<and>
      fl_slowClients fl = slow + (if cc_isDisableRead ctx then 1 else 0))"

lemma flow_inv_step:
  assumes "flow_step maxSize ev s s'" and "flow_inv maxSize a slow s"
  shows "flow_inv maxSize a slow s'"
  using assms
proof cases
  case (arrive f fl fl' taken)
  with assms(2) show ?thesis
    by (auto simp: flow_inv_def putFrame_def disableRead_def Let_def split: if_splits)
next
  case (take_out fl fs fl' taken)
  with assms(2) show ?thesis by (auto simp: flow_inv_def popFrames_def Let_def)
next
  case (finished k taken fl fl')
  with assms(2) show ?thesis
    by (auto simp: flow_inv_def finishFrames_def enableRead_def Let_def of_nat_diff split: if_splits)
qed

lemma flow_reach_inv: "flow_reach maxSize a slow s \<Longrightarrow> flow_inv maxSize a slow s"
proof (induction rule: flow_reach.induct)
  case start
  then show ?case by (auto simp: flow_inv_def newConnContext_def)
next
  case (step s ev s')
  then show ?case using flow_inv_step by blast
qed

text \<open>No operation panics in a reachable state: the machine never blocks.\<close>

lemma flow_progress:
  assumes "flow_inv maxSize a slow (fl, taken)"
  shows "\<exists>fl'. putFrame maxSize f fl = Ret fl'" and "\<exists>fl'. finishFrames maxSize k fl = Ret fl'"
  using assms by (auto simp: flow_inv_def putFrame_def finishFrames_def disableRead_def enableRead_def Let_def)

text \<open>Once all frames are done, the connection is read again.\<close>

lemma flow_drained:
  assumes "flow_reach maxSize a slow (fl, 0)" and "cc_frameCaches (fl_ctx fl) = []"
  shows "fl_readEvent fl" and "fl_slowClients fl = slow"
  using flow_reach_inv [OF assms(1)] assms(2) by (auto simp: flow_inv_def Let_def)

text \<open>A connection that closes while it is throttled stays counted as a slow client.\<close>

lemma release_keeps_slow:
  assumes "flow_reach maxSize a slow (fl, taken)" and "cc_isDisableRead (fl_ctx fl)"
  shows "fl_slowClients (fl\<lparr>fl_ctx := release (fl_ctx fl)\<rparr>) = slow + 1"
    and "\<not> cc_isDisableRead (release (fl_ctx fl))"
  using flow_reach_inv [OF assms(1)] assms(2) by (auto simp: flow_inv_def release_def Let_def)

section \<open>The counter without mutual exclusion\<close>

text \<open>
  \<open>finishFrames\<close> holds the lock for reading only, so several workers run it at once: the update of
  the counter is a load followed by a store. A worker is the number of frames it finishes, and the
  value it has loaded once it has.
\<close>

datatype worker = Ready nat | Loaded nat int | Stored

inductive race_step :: "int \<times> worker list \<Rightarrow> int \<times> worker list \<Rightarrow> bool" where
  load: "i < length ws \<Longrightarrow> ws ! i = Ready k \<Longrightarrow> race_step (c, ws) (c, ws[i := Loaded k c])"
| store: "i < length ws \<Longrightarrow> ws ! i = Loaded k v \<Longrightarrow> race_step (c, ws) (v - int k, ws[i := Stored])"

definition race_steps :: "int \<times> worker list \<Rightarrow> int \<times> worker list \<Rightarrow> bool" where
  "race_steps = race_step\<^sup>*\<^sup>*"

lemma race_lost_update:
  "race_steps (int j + int k, [Ready j, Ready k]) (int j, [Stored, Stored])"
proof -
  let ?c = "int j + int k"
  have "race_step (?c, [Ready j, Ready k]) (?c, [Loaded j ?c, Ready k])"
    using race_step.load [of 0 "[Ready j, Ready k]" j ?c] by simp
  also have "race_step\<^sup>*\<^sup>* \<dots> (?c, [Loaded j ?c, Loaded k ?c])"
    using race_step.load [of 1 "[Loaded j ?c, Ready k]" k ?c] by auto
  also have "race_step\<^sup>*\<^sup>* \<dots> (int k, [Stored, Loaded k ?c])"
    using race_step.store [of 0 "[Loaded j ?c, Loaded k ?c]" j ?c ?c] by auto
  also have "race_step\<^sup>*\<^sup>* \<dots> (int j, [Stored, Stored])"
    using race_step.store [of 1 "[Stored, Loaded k ?c]" k ?c "int k"] by auto
  finally show ?thesis by (simp add: race_steps_def)
qed

text \<open>Run one after the other, the workers bring the counter down by all they finished.\<close>

lemma race_sequential:
  "race_steps (int j + int k, [Ready j, Ready k]) (0, [Stored, Stored])"
proof -
  let ?c = "int j + int k"
  have "race_step (?c, [Ready j, Ready k]) (?c, [Loaded j ?c, Ready k])"
    using race_step.load [of 0 "[Ready j, Ready k]" j ?c] by simp
  also have "race_step\<^sup>*\<^sup>* \<dots> (int k, [Stored, Ready k])"
    using race_step.store [of 0 "[Loaded j ?c, Ready k]" j ?c ?c] by auto
  also have "race_step\<^sup>*\<^sup>* \<dots> (int k, [Stored, Loaded k (int k)])"
    using race_step.load [of 1 "[Stored, Ready k]" k "int k"] by auto
  also have "race_step\<^sup>*\<^sup>* \<dots> (0, [Stored, Stored])"
    using race_step.store [of 1 "[Stored, Loaded k (int k)]" k "int k" "int k"] by auto
  finally show ?thesis by (simp add: race_steps_def)
qed

text \<open>Lost updates only leave the counter too high: it never falls below the work that is not done.\<close>

fun work_left :: "worker \<Rightarrow> int" where
  "work_left (Ready k) = int k"
| "work_left (Loaded k _) = int k"
| "work_left Stored = 0"

definition race_inv :: "int \<times> worker list \<Rightarrow> bool" where
  "race_inv s \<longleftrightarrow> (\<Sum>w\<leftarrow>snd s. work_left w) \<le> fst s \<and>
     (\<forall>k v. Loaded k v \<in> set (snd s) \<longrightarrow> (\<Sum>w\<leftarrow>snd s. work_left w) \<le> v)"

lemma work_left_update:
  "i < length ws \<Longrightarrow> (\<Sum>w\<leftarrow>ws[i := x]. work_left w) = (\<Sum>w\<leftarrow>ws. work_left w) - work_left (ws ! i) + work_left x"
  by (induction ws arbitrary: i) (auto split: nat.split)

lemma race_inv_step: "race_step s s' \<Longrightarrow> race_inv s \<Longrightarrow> race_inv s'"
proof (induction rule: race_step.induct)
  case (load i ws k c)
  then show ?case
    by (auto simp: race_inv_def work_left_update dest!: set_update_subset_insert [THEN subsetD])
next
  case (store i ws k v c)
  then have "Loaded k v \<in> set ws" by (metis nth_mem)
  with store have "(\<Sum>w\<leftarrow>ws. work_left w) \<le> v" by (simp add: race_inv_def)
  with store show ?case
    by (fastforce simp: race_inv_def work_left_update dest!: set_update_subset_insert [THEN subsetD])
qed

lemma race_never_low:
  assumes "race_steps (\<Sum>k\<leftarrow>ks. int k, map Ready ks) (c, ws)"
  shows "(\<Sum>w\<leftarrow>ws. work_left w) \<le> c"
proof -
  have "race_inv s'" if "race_step\<^sup>*\<^sup>* s s'" "race_inv s" for s s'
    using that by (induction rule: rtranclp_induct) (auto dest: race_inv_step)
  moreover have "race_inv (\<Sum>k\<leftarrow>ks. int k, map Ready ks)" by (auto simp: race_inv_def comp_def)
  ultimately have "race_inv (c, ws)" using assms by (auto simp: race_steps_def)
  then show ?thesis by (simp add: race_inv_def)
qed

end
