(* ===== verification/Sending.thy ===== *)
theory Sending
  imports ChannelStore Streams Crypto ConnContext
begin

text \<open>
  The way of a SEND packet through the server, \<^verbatim>\<open>internal/server/processor.go\<close> with
  \<open>Channel.Put\<close> of \<^verbatim>\<open>channel.go\<close> and the key functions of \<^verbatim>\<open>common.go\<close>: the
  channel is found and the permission checked, the payload is decrypted, the messages are stored, put to
  the webhook's queue, the users' queues, the conversations and the delivery pool, and every packet is
  acknowledged. The state is explicit; a panic ends the server, because the packets are processed in
  goroutines without a recover. Time, the message identifiers, the ciphers and the choices of the LRU
  caches are arguments.
\<close>

section \<open>State\<close>

record 'd world =
  wd_bolt :: "'d bolt"
  wd_json :: json_codec
  wd_opts :: options
  wd_datasource :: loader
  wd_cipher :: block_cipher
  wd_md5 :: "bytes \<Rightarrow> bytes"
  wd_genMessageID :: "nat \<Rightarrow> i64"
  wd_now :: i32
  wd_evicted :: "streams \<Rightarrow> gostring \<Rightarrow> gostring option"

text \<open>What \<open>startDeliveryMessages\<close> hands to the delivery pool.\<close>

record deliver_job =
  dj_messages :: "message list"
  dj_large :: bool
  dj_syncOnceSeqs :: "(gostring \<times> u32) list"
  dj_subscribers :: "gostring list"
  dj_fromUID :: gostring
  dj_fromDeviceFlag :: u8
  dj_fromDeviceID :: gostring

record 'd node =
  nd_channels :: channels
  nd_fs :: "'d filestore"
  nd_dirs :: "gostring \<Rightarrow> streams"
  nd_idCount :: nat
  nd_conversationQueue :: "(message \<times> gostring list) list"
  nd_jobs :: "deliver_job list"
  nd_out :: "(nat \<times> frame list) list"

definition env_of :: "'d world \<Rightarrow> 'd node \<Rightarrow> env" where
  "env_of w nd = plain_env (wd_bolt w) (wd_json w) (wd_opts w) (wd_datasource w) (nd_fs nd)"

definition genMessageID :: "'d world \<Rightarrow> 'd node \<Rightarrow> i64 \<times> 'd node" where
  "genMessageID w nd = (wd_genMessageID w (nd_idCount nd), nd\<lparr>nd_idCount := Suc (nd_idCount nd)\<rparr>)"

text \<open>\<open>dataOut\<close> writes nothing when it is given no frame; what becomes of the frames is \<open>Dispatch\<close>'s matter.\<close>

definition response :: "nat \<Rightarrow> frame list \<Rightarrow> 'd node \<Rightarrow> 'd node" where
  "response conn frames nd = (if length frames = 0 then nd else nd\<lparr>nd_out := nd_out nd @ [(conn, frames)]\<rparr>)"

section \<open>Keys\<close>

text \<open>The keys of a connection: the type assertion fails when they were never set.\<close>

definition conn_keys :: "'c net_conn \<Rightarrow> (gostring \<times> gostring) outcome" where
  "conn_keys c = (case (cn_values c (str ''aesKey''), cn_values c (str ''aesIV'')) of
     (Some k, Some iv) \<Rightarrow> Ret (k, iv) | _ \<Rightarrow> Panic)"

definition encryptMessagePayload :: "'d world \<Rightarrow> bytes \<Rightarrow> 'c net_conn \<Rightarrow> bytes outcome" where
  "encryptMessagePayload w payload c =
     bindR (conn_keys c) (\<lambda>(aesKey, aesIV). AesEncryptPkcs7Base64 (wd_cipher w) payload aesKey aesIV)"

definition makeMsgKey :: "'d world \<Rightarrow> gostring \<Rightarrow> 'c net_conn \<Rightarrow> gostring outcome" where
  "makeMsgKey w signStr c =
     bindR (conn_keys c) (\<lambda>(aesKey, aesIV).
       mapR (MD5 (wd_md5 w)) (AesEncryptPkcs7Base64 (wd_cipher w) signStr aesKey aesIV))"

definition sendPacketIsVail :: "'d world \<Rightarrow> SendPacket \<Rightarrow> 'c net_conn \<Rightarrow> bool outcome" where
  "sendPacketIsVail w sendPacket c =
     bindR (conn_keys c) (\<lambda>(aesKey, aesIV).
     bindR (AesEncryptPkcs7Base64 (wd_cipher w) (Send_VerityString sendPacket) aesKey aesIV) (\<lambda>actMsgKey.
       if snd_MsgKey sendPacket \<noteq> MD5 (wd_md5 w) actMsgKey then Fail (ErrMsg ''msgKey is illegal'') else Ret True))"

definition checkAndDecodePayload :: "'d world \<Rightarrow> SendPacket \<Rightarrow> 'c net_conn \<Rightarrow> bytes outcome" where
  "checkAndDecodePayload w sendPacket c =
     bindR (conn_keys c) (\<lambda>(aesKey, aesIV).
     bindR (sendPacketIsVail w sendPacket c) (\<lambda>vail.
       if \<not> vail then Fail (ErrMsg ''sendPacket is illegal'')
       else AesDecryptPkcs7Base64 (wd_cipher w) (snd_Payload sendPacket) aesKey aesIV))"

section \<open>Acknowledgements\<close>

definition getSendackPacket :: "message \<Rightarrow> reasonCode \<Rightarrow> SendackPacket" where
  "getSendackPacket msg reason = (let r = msg_RecvPacket msg in
     \<lparr>sak_Framer = rcv_Framer r, sak_MessageID = rcv_MessageID r, sak_MessageSeq = rcv_MessageSeq r,
      sak_ClientSeq = rcv_ClientSeq r, sak_ClientMsgNo = rcv_ClientMsgNo r, sak_ReasonCode = reason\<rparr>)"

definition getSendackPacketWithSendPacket :: "SendPacket \<Rightarrow> reasonCode \<Rightarrow> SendackPacket" where
  "getSendackPacketWithSendPacket sp reason =
     \<lparr>sak_Framer = snd_Framer sp, sak_MessageID = 0, sak_MessageSeq = 0,
      sak_ClientSeq = snd_ClientSeq sp, sak_ClientMsgNo = snd_ClientMsgNo sp, sak_ReasonCode = reason\<rparr>"

definition refused_ack :: "SendPacket \<Rightarrow> i64 \<Rightarrow> reasonCode \<Rightarrow> SendackPacket" where
  "refused_ack sp messageID reason =
     \<lparr>sak_Framer = snd_Framer sp, sak_MessageID = messageID, sak_MessageSeq = 0,
      sak_ClientSeq = snd_ClientSeq sp, sak_ClientMsgNo = snd_ClientMsgNo sp, sak_ReasonCode = reason\<rparr>"

definition message_of_send :: "'d world \<Rightarrow> 'c net_conn \<Rightarrow> bool \<Rightarrow> i64 \<Rightarrow> SendPacket \<Rightarrow> bytes \<Rightarrow> message" where
  "message_of_send w c large messageID sp payload = empty_message
     \<lparr>msg_RecvPacket := empty_recv
        \<lparr>rcv_Framer := empty_framer\<lparr>RedDot := RedDot (snd_Framer sp), SyncOnce := SyncOnce (snd_Framer sp),
           NoPersist := NoPersist (snd_Framer sp)\<rparr>,
         rcv_Setting := snd_Setting sp, rcv_MessageID := messageID, rcv_ClientMsgNo := snd_ClientMsgNo sp,
         rcv_StreamNo := snd_StreamNo sp, rcv_StreamFlag := StreamFlagIng, rcv_FromUID := cn_uid c,
         rcv_Expire := snd_Expire sp, rcv_ChannelID := snd_ChannelID sp, rcv_ChannelType := snd_ChannelType sp,
         rcv_Topic := snd_Topic sp, rcv_Timestamp := wd_now w, rcv_Payload := payload,
         rcv_ClientSeq := snd_ClientSeq sp\<rparr>,
      msg_fromDeviceFlag := cn_deviceFlag c, msg_fromDeviceID := cn_deviceID c, msg_large := large\<rparr>"

text \<open>The loop over the packets: the acknowledgements it has ready and the messages.\<close>

fun decode_sends ::
    "'d world \<Rightarrow> nat \<Rightarrow> 'c net_conn \<Rightarrow> bool \<Rightarrow> SendPacket list \<Rightarrow> 'd node \<Rightarrow>
     (SendackPacket list \<times> message list \<times> 'd node) outcome" where
  "decode_sends w a c large [] nd = Ret ([], [], nd)"
| "decode_sends w a c large (sp # sps) nd =
     (let (messageID, nd) = genMessageID w nd in
      if SyncOnce (snd_Framer sp) then
        mapR (\<lambda>(acks, ms, nd). (refused_ack sp messageID ReasonNotSupportHeader # acks, ms, nd))
          (decode_sends w a c large sps nd)
      else case checkAndDecodePayload w sp c of
          Panic \<Rightarrow> Panic
        | Fail _ \<Rightarrow>
            decode_sends w a c large sps
              (response a [FSendack (refused_ack sp messageID ReasonPayloadDecodeError)] nd)
        | Ret payload \<Rightarrow>
            mapR (\<lambda>(acks, ms, nd). (acks, message_of_send w c large messageID sp payload # ms, nd))
              (decode_sends w a c large sps nd))"

section \<open>Storing\<close>

definition to_store :: "message \<Rightarrow> bool" where
  "to_store m \<longleftrightarrow> \<not> (NoPersist (rcv_Framer (msg_RecvPacket m)) \<or> SyncOnce (rcv_Framer (msg_RecvPacket m))) \<and> \<not> StreamIng m"

text \<open>Messages of a stream are appended to it one by one.\<close>

fun store_streams :: "'d world \<Rightarrow> gostring \<Rightarrow> message list \<Rightarrow> 'd node \<Rightarrow> unit outcome \<times> 'd node" where
  "store_streams w fromUID [] nd = (Ret (), nd)"
| "store_streams w fromUID (m # ms) nd =
     (let r = msg_RecvPacket m in
      if NoPersist (rcv_Framer r) \<or> SyncOnce (rcv_Framer r) \<or> \<not> StreamIng m then store_streams w fromUID ms nd
      else
        let cid = GetFakeChannelIDWith fromUID (rcv_ChannelID r); no = rcv_StreamNo r;
            ss = nd_dirs nd (topicName cid (rcv_ChannelType r)) in
        case AppendStreamItem (fs_cfg (nd_fs nd)) (wd_evicted w ss no) cid (rcv_ChannelType r) no
               \<lparr>si_ClientMsgNo = rcv_ClientMsgNo r, si_StreamSeq = 0, si_Blob = rcv_Payload r\<rparr>
               (fs_msgs (nd_fs nd), nd_dirs nd) of
          Ret (_, msgs, dirs) \<Rightarrow> store_streams w fromUID ms (nd\<lparr>nd_fs := (nd_fs nd)\<lparr>fs_msgs := msgs\<rparr>, nd_dirs := dirs\<rparr>)
        | Fail e \<Rightarrow> (Fail e, nd)
        | Panic \<Rightarrow> (Panic, nd))"

text \<open>The store numbers the messages it is given; they are shared with the caller's list.\<close>

fun put_back :: "('a \<Rightarrow> bool) \<Rightarrow> 'a list \<Rightarrow> 'a list \<Rightarrow> 'a list" where
  "put_back P us [] = []"
| "put_back P us (x # xs) =
     (if P x then (case us of [] \<Rightarrow> x # xs | u # us \<Rightarrow> u # put_back P us xs) else x # put_back P us xs)"

definition storeChannelMessagesIfNeed ::
    "'d world \<Rightarrow> gostring \<Rightarrow> message list \<Rightarrow> 'd node \<Rightarrow> unit outcome \<times> message list \<times> 'd node" where
  "storeChannelMessagesIfNeed w fromUID messages nd =
     (case store_streams w fromUID messages nd of
        (Ret _, nd) \<Rightarrow>
          let storeMessages = filter to_store messages in
          if storeMessages = [] then (Ret (), messages, nd)
          else
            let r = msg_RecvPacket (hd storeMessages);
                cid = (if rcv_ChannelType r = ChannelTypePerson then GetFakeChannelIDWith fromUID (rcv_ChannelID r)
                       else rcv_ChannelID r);
                (res, stored, msgs) = AppendMessages (fs_cfg (nd_fs nd)) cid (rcv_ChannelType r) storeMessages (fs_msgs (nd_fs nd)) in
            (mapR (\<lambda>_. ()) res, put_back to_store stored messages, nd\<lparr>nd_fs := (nd_fs nd)\<lparr>fs_msgs := msgs\<rparr>\<rparr>)
      | (e, nd) \<Rightarrow> (e, messages, nd))"

definition storeChannelMessagesToNotifyQueue :: "'d world \<Rightarrow> message list \<Rightarrow> 'd node \<Rightarrow> 'd node outcome" where
  "storeChannelMessagesToNotifyQueue w messages nd =
     (if length messages = 0 then Ret nd
      else mapR (\<lambda>fs. nd\<lparr>nd_fs := fs\<rparr>)
        (AppendMessageOfNotifyQueue (wd_bolt w)
          (filter (\<lambda>m. let f = rcv_Framer (msg_RecvPacket m) in \<not> (StreamIng m \<or> (NoPersist f \<and> SyncOnce f))) messages)
          (nd_fs nd)))"

section \<open>Putting messages to a channel\<close>

text \<open>The map from subscribers and messages to sequence numbers is an association list, newest entry first.\<close>

definition user_copy :: "channel \<Rightarrow> gostring \<Rightarrow> message \<Rightarrow> message" where
  "user_copy c subscriber m =
     (let r = msg_RecvPacket m; d = (DeepCopy m)\<lparr>msg_ToUID := subscriber, msg_large := ci_Large (ch_Info c)\<rparr> in
      if rcv_ChannelType r = ChannelTypePerson \<and> rcv_ChannelID r = subscriber
      then d\<lparr>msg_RecvPacket := (msg_RecvPacket d)\<lparr>rcv_ChannelID := rcv_FromUID r\<rparr>\<rparr> else d)"

definition sync_once :: "message \<Rightarrow> bool" where
  "sync_once m \<longleftrightarrow> \<not> (NoPersist (rcv_Framer (msg_RecvPacket m)) \<or> \<not> SyncOnce (rcv_Framer (msg_RecvPacket m)))"

definition seq_key :: "gostring \<Rightarrow> i64 \<Rightarrow> gostring" where
  "seq_key subscriber messageID = subscriber @ str ''-'' @ dec_int (sint messageID)"

fun store_user_queues ::
    "channel \<Rightarrow> message list \<Rightarrow> gostring list \<Rightarrow> (gostring \<times> u32) list \<Rightarrow> 'd node \<Rightarrow>
     (gostring \<times> u32) list outcome \<times> 'd node" where
  "store_user_queues c messages [] seqs nd = (Ret seqs, nd)"
| "store_user_queues c messages (subscriber # subs) seqs nd =
     (let storeMessages = map (user_copy c subscriber) (filter sync_once messages) in
      if storeMessages = [] then store_user_queues c messages subs seqs nd
      else
        let (res, stored, msgs) = AppendMessagesOfUser (fs_cfg (nd_fs nd)) subscriber storeMessages (fs_msgs (nd_fs nd));
            nd = nd\<lparr>nd_fs := (nd_fs nd)\<lparr>fs_msgs := msgs\<rparr>\<rparr> in
        case res of
          Ret _ \<Rightarrow> store_user_queues c messages subs
            (rev (map (\<lambda>m. (seq_key subscriber (GetMessageID m), GetSeq m)) stored) @ seqs) nd
        | Fail e \<Rightarrow> (Fail e, nd)
        | Panic \<Rightarrow> (Panic, nd))"

definition storeMessageToUserQueueIfNeed ::
    "channel \<Rightarrow> message list \<Rightarrow> gostring list \<Rightarrow> 'd node \<Rightarrow> (gostring \<times> u32) list outcome \<times> 'd node" where
  "storeMessageToUserQueueIfNeed c messages subscribers nd =
     (if length messages = 0 then (Ret [], nd) else store_user_queues c messages subscribers [] nd)"

text \<open>The last message that is kept is the one the conversations see.\<close>

definition last_kept :: "message list \<Rightarrow> message option" where
  "last_kept messages = find (\<lambda>m. \<not> NoPersist (rcv_Framer (msg_RecvPacket m)) \<and> \<not> SyncOnce (rcv_Framer (msg_RecvPacket m)))
     (rev messages)"

definition channel_Put ::
    "'d world \<Rightarrow> channel \<Rightarrow> message list \<Rightarrow> gostring list \<Rightarrow> gostring \<Rightarrow> u8 \<Rightarrow> gostring \<Rightarrow> 'd node \<Rightarrow>
     (unit outcome \<times> 'd node) option" where
  "channel_Put w c messages customSubscribers fromUID fromDeviceFlag fromDeviceID nd =
     map_option (\<lambda>(r, cs).
       let nd = nd\<lparr>nd_channels := cs\<rparr> in
       case r of
         Fail e \<Rightarrow> (Fail e, nd)
       | Panic \<Rightarrow> (Panic, nd)
       | Ret subscribers \<Rightarrow>
           (case storeMessageToUserQueueIfNeed c messages subscribers nd of
              (Fail e, nd) \<Rightarrow> (Fail e, nd)
            | (Panic, nd) \<Rightarrow> (Panic, nd)
            | (Ret seqs, nd) \<Rightarrow>
                let nd = (if \<not> ci_Large (ch_Info c) \<and> ch_Type c \<noteq> ChannelTypeInfo
                          then case last_kept messages of
                              None \<Rightarrow> nd
                            | Some m \<Rightarrow> nd\<lparr>nd_conversationQueue := nd_conversationQueue nd @ [(m, subscribers)]\<rparr>
                          else nd) in
                (Ret (), nd\<lparr>nd_jobs := nd_jobs nd @ [\<lparr>dj_messages = messages, dj_large = ci_Large (ch_Info c),
                   dj_syncOnceSeqs = seqs, dj_subscribers = subscribers, dj_fromUID = fromUID,
                   dj_fromDeviceFlag = fromDeviceFlag, dj_fromDeviceID = fromDeviceID\<rparr>]\<rparr>)))
     (RealSubscribers (env_of w nd) customSubscribers c (nd_channels nd))"

section \<open>The packets of one channel\<close>

text \<open>
  The result gives the acknowledgements to send and whether an error is reported with them; it is
  \<open>None\<close> only if the search for subscribers does not end.
\<close>

type_synonym 'd processed = "(SendackPacket list \<times> bool \<times> 'd node) outcome option"

definition put_and_answer ::
    "'d world \<Rightarrow> 'c net_conn \<Rightarrow> channel \<Rightarrow> SendackPacket list \<Rightarrow> message list \<Rightarrow> 'd node \<Rightarrow> 'd processed" where
  "put_and_answer w c channel acks messages nd =
     map_option (\<lambda>(r, nd). case r of
         Ret _ \<Rightarrow> Ret (acks @ map (\<lambda>m. getSendackPacket m ReasonSuccess) messages, False, nd)
       | Fail _ \<Rightarrow> Ret (acks @ map (\<lambda>m. getSendackPacket m ReasonSystemError) messages, True, nd)
       | Panic \<Rightarrow> Panic)
     (channel_Put w channel messages [] (cn_uid c) (cn_deviceFlag c) (cn_deviceID c) nd)"

definition store_and_put ::
    "'d world \<Rightarrow> 'c net_conn \<Rightarrow> channel \<Rightarrow> SendackPacket list \<Rightarrow> message list \<Rightarrow> 'd node \<Rightarrow> 'd processed" where
  "store_and_put w c channel acks messages nd =
     (if length messages = 0 then Some (Ret (acks, False, nd))
      else case storeChannelMessagesIfNeed w (cn_uid c) messages nd of
        (Panic, _, _) \<Rightarrow> Some Panic
      | (Fail _, messages, nd) \<Rightarrow> Some (Ret (acks @ map (\<lambda>m. getSendackPacket m ReasonSystemError) messages, True, nd))
      | (Ret _, messages, nd) \<Rightarrow>
          if WebhookOn (wd_opts w) then
            case storeChannelMessagesToNotifyQueue w messages nd of
              Panic \<Rightarrow> Some Panic
            | Fail _ \<Rightarrow> Some (Ret (acks @ map (\<lambda>m. getSendackPacket m ReasonSystemError) messages, True, nd))
            | Ret nd \<Rightarrow> put_and_answer w c channel acks messages nd
          else put_and_answer w c channel acks messages nd)"

definition prcocessChannelMessages ::
    "'d world \<Rightarrow> nat \<Rightarrow> 'c net_conn \<Rightarrow> gostring \<Rightarrow> u8 \<Rightarrow> SendPacket list \<Rightarrow> 'd node \<Rightarrow> 'd processed" where
  "prcocessChannelMessages w a c channelID channelType sendPackets nd =
     (let fakeChannelID = (if channelType = ChannelTypePerson then GetFakeChannelIDWith (cn_uid c) channelID else channelID);
          answer = (\<lambda>reason. map (\<lambda>sp. getSendackPacketWithSendPacket sp reason) sendPackets);
          (r, cs) = GetChannel (env_of w nd) fakeChannelID channelType (nd_channels nd);
          nd = nd\<lparr>nd_channels := cs\<rparr> in
      case r of
        Panic \<Rightarrow> Some Panic
      | Fail _ \<Rightarrow> Some (Ret (answer ReasonSystemError, False, nd))
      | Ret None \<Rightarrow> Some (Ret (answer ReasonChannelNotExist, False, nd))
      | Ret (Some channel) \<Rightarrow>
          Option.bind (hasPermission (env_of w nd) channel (cn_uid c) (nd_channels nd)) (\<lambda>(p, cs).
            let nd = nd\<lparr>nd_channels := cs\<rparr> in
            case p of
              Panic \<Rightarrow> Some Panic
            | Fail _ \<Rightarrow> Some Panic
            | Ret (hasPerm, reasonCode) \<Rightarrow>
                if \<not> hasPerm then Some (Ret (answer reasonCode, False, nd))
                else case decode_sends w a c (ci_Large (ch_Info channel)) sendPackets nd of
                    Ret (acks, messages, nd) \<Rightarrow> store_and_put w c channel acks messages nd
                  | _ \<Rightarrow> Some Panic))"

section \<open>All packets\<close>

definition send_key :: "SendPacket \<Rightarrow> gostring" where
  "send_key sp = channelKey (snd_ChannelID sp) (snd_ChannelType sp)"

text \<open>The channels are taken in the order of a Go map: \<open>ord\<close> is any order of their keys.\<close>

fun process_groups ::
    "'d world \<Rightarrow> nat \<Rightarrow> 'c net_conn \<Rightarrow> SendPacket list \<Rightarrow> gostring list \<Rightarrow> SendackPacket list \<Rightarrow> 'd node \<Rightarrow>
     (SendackPacket list \<times> 'd node) outcome option" where
  "process_groups w a c sps [] acks nd = Some (Ret (acks, nd))"
| "process_groups w a c sps (k # ks) acks nd =
     (let grp = filter (\<lambda>sp. send_key sp = k) sps; first = hd grp in
      Option.bind (prcocessChannelMessages w a c (snd_ChannelID first) (snd_ChannelType first) grp nd) (\<lambda>r.
        case r of
          Ret (channelAcks, _, nd) \<Rightarrow> process_groups w a c sps ks (acks @ channelAcks) nd
        | _ \<Rightarrow> Some Panic))"

definition processMsgs ::
    "'d world \<Rightarrow> (gostring list \<Rightarrow> gostring list) \<Rightarrow> nat \<Rightarrow> 'c net_conn \<Rightarrow> SendPacket list \<Rightarrow> 'd node \<Rightarrow> 'd node outcome option" where
  "processMsgs w ord a c sendPackets nd =
     map_option (mapR (\<lambda>(acks, nd). response a (map FSendack acks) nd))
       (process_groups w a c sendPackets (ord (remdups (map send_key sendPackets))) [] nd)"

section \<open>Every packet is acknowledged once\<close>

definition sendacks :: "nat \<Rightarrow> (nat \<times> frame list) list \<Rightarrow> SendackPacket list" where
  "sendacks a out = concat (map (\<lambda>(c, fs). if c = a
     then List.map_filter (\<lambda>f. case f of FSendack k \<Rightarrow> Some k | _ \<Rightarrow> None) fs else []) out)"

definition ack_id :: "SendackPacket \<Rightarrow> u64 \<times> gostring" where
  "ack_id k = (sak_ClientSeq k, sak_ClientMsgNo k)"

definition packet_id :: "SendPacket \<Rightarrow> u64 \<times> gostring" where
  "packet_id sp = (snd_ClientSeq sp, snd_ClientMsgNo sp)"

definition msg_id :: "message \<Rightarrow> u64 \<times> gostring" where
  "msg_id m = (rcv_ClientSeq (msg_RecvPacket m), rcv_ClientMsgNo (msg_RecvPacket m))"

lemma ack_id_simps [simp]:
  "ack_id (getSendackPacket m r) = msg_id m"
  "ack_id (getSendackPacketWithSendPacket sp r) = packet_id sp"
  "ack_id (refused_ack sp i r) = packet_id sp"
  "msg_id (message_of_send w c large i sp p) = packet_id sp"
  by (simp_all add: ack_id_def msg_id_def packet_id_def getSendackPacket_def getSendackPacketWithSendPacket_def
      refused_ack_def message_of_send_def Let_def)

lemma map_filter_FSendack: "List.map_filter (\<lambda>f. case f of FSendack k \<Rightarrow> Some k | _ \<Rightarrow> None) (map FSendack acks) = acks"
  by (induction acks) (simp_all add: List.map_filter_simps)

lemma sendacks_response: "sendacks a (nd_out (response a (map FSendack acks) nd)) = sendacks a (nd_out nd) @ acks"
  by (simp add: response_def sendacks_def map_filter_FSendack)

lemma response_other: "nd_fs (response a fs nd) = nd_fs nd" "nd_jobs (response a fs nd) = nd_jobs nd"
  "nd_dirs (response a fs nd) = nd_dirs nd" "nd_conversationQueue (response a fs nd) = nd_conversationQueue nd"
  "nd_channels (response a fs nd) = nd_channels nd"
  by (simp_all add: response_def)

text \<open>The packets that are settled: acknowledged, or about to be.\<close>

abbreviation sent_ids :: "nat \<Rightarrow> 'd node \<Rightarrow> (u64 \<times> gostring) multiset" where
  "sent_ids a nd \<equiv> mset (map ack_id (sendacks a (nd_out nd)))"

lemma decode_sends_ids:
  assumes "decode_sends w a c large sps nd = Ret (acks, ms, nd')"
  shows "sent_ids a nd' + mset (map ack_id acks) + mset (map msg_id ms) = sent_ids a nd + mset (map packet_id sps)"
  using assms
proof (induction sps arbitrary: nd acks ms)
  case (Cons sp sps)
  obtain i nd1 where g: "genMessageID w nd = (i, nd1)" by fastforce
  then have out: "nd_out nd1 = nd_out nd" by (auto simp: genMessageID_def)
  show ?case
  proof (cases "SyncOnce (snd_Framer sp)")
    case True
    with Cons.prems g obtain acks' where d: "decode_sends w a c large sps nd1 = Ret (acks', ms, nd')"
      "acks = refused_ack sp i ReasonNotSupportHeader # acks'" by (auto simp: mapR_def bindR_eq_Ret)
    with Cons.IH [OF d(1)] out show ?thesis by simp
  next
    case False
    show ?thesis
    proof (cases "checkAndDecodePayload w sp c")
      case (Ret p)
      with Cons.prems g False obtain ms' where d: "decode_sends w a c large sps nd1 = Ret (acks, ms', nd')"
        "ms = message_of_send w c large i sp p # ms'" by (auto simp: mapR_def bindR_eq_Ret)
      with Cons.IH [OF d(1)] out show ?thesis by simp
    next
      case (Fail e)
      let ?nd = "response a [FSendack (refused_ack sp i ReasonPayloadDecodeError)] nd1"
      from Fail Cons.prems g False have d: "decode_sends w a c large sps ?nd = Ret (acks, ms, nd')" by simp
      have "sent_ids a ?nd = add_mset (packet_id sp) (sent_ids a nd)"
        using sendacks_response [of a "[refused_ack sp i ReasonPayloadDecodeError]" nd1] out by simp
      with Cons.IH [OF d] show ?thesis by simp
    qed (use Cons.prems g False in simp)
  qed
qed simp

lemma assign_seqs_ids: "map msg_id (assign_seqs s ms) = map msg_id ms"
  by (induction ms arbitrary: s) (simp_all add: msg_id_def SetSeq_def)

lemma topic_appendMessages_ids: "map msg_id (fst (snd (topic_appendMessages cfg ms t))) = map msg_id ms"
  by (simp add: topic_appendMessages_def Let_def assign_seqs_ids split: outcome.split prod.split)

lemma AppendMessages_ids: "AppendMessages cfg cid t ms st = (r, ms', st') \<Longrightarrow> map msg_id ms' = map msg_id ms"
  using topic_appendMessages_ids
  by (auto simp: AppendMessages_def Let_def split: outcome.splits prod.splits)
    (metis fst_conv snd_conv)+

lemma put_back_ids:
  "map f us = map f (filter P xs) \<Longrightarrow> map f (put_back P us xs) = map f xs"
  by (induction P us xs rule: put_back.induct) (auto split: list.splits if_splits)

lemma store_streams_keeps:
  assumes "store_streams w u ms nd = (r, nd')"
  shows "nd_out nd' = nd_out nd" and "nd_jobs nd' = nd_jobs nd" and "nd_conversationQueue nd' = nd_conversationQueue nd"
  using assms
  by (induction w u ms nd rule: store_streams.induct; fastforce simp: Let_def split: if_splits outcome.splits)+

lemma storeChannelMessages_keeps:
  assumes "storeChannelMessagesIfNeed w u ms nd = (r, ms', nd')"
  shows "nd_out nd' = nd_out nd" and "nd_jobs nd' = nd_jobs nd" and "map msg_id ms' = map msg_id ms"
proof -
  obtain r1 nd1 where s: "store_streams w u ms nd = (r1, nd1)" by fastforce
  note k = store_streams_keeps [OF s]
  have "nd_out nd' = nd_out nd \<and> nd_jobs nd' = nd_jobs nd \<and> map msg_id ms' = map msg_id ms"
    using assms s k
    by (auto simp: storeChannelMessagesIfNeed_def Let_def intro!: put_back_ids dest: AppendMessages_ids
        split: outcome.splits if_splits prod.splits)
  then show "nd_out nd' = nd_out nd" "nd_jobs nd' = nd_jobs nd" "map msg_id ms' = map msg_id ms" by simp_all
qed

lemma notify_keeps:
  assumes "storeChannelMessagesToNotifyQueue w ms nd = Ret nd'"
  shows "nd_out nd' = nd_out nd"
  using assms by (auto simp: storeChannelMessagesToNotifyQueue_def mapR_def bindR_eq_Ret split: if_splits)

lemma store_user_queues_keeps: "nd_out (snd (store_user_queues c ms subs seqs nd)) = nd_out nd"
  by (induction c ms subs seqs nd rule: store_user_queues.induct) (simp_all add: Let_def split: outcome.split prod.split)

lemma channel_Put_keeps:
  assumes "channel_Put w c ms custom u fl d nd = Some (r, nd')"
  shows "nd_out nd' = nd_out nd"
proof -
  have q: "nd_out nd2 = nd_out nd1" if "storeMessageToUserQueueIfNeed c ms subs nd1 = (r1, nd2)" for subs nd1 r1 nd2
    using that store_user_queues_keeps [of c ms subs "[]" nd1]
    by (auto simp: storeMessageToUserQueueIfNeed_def split: if_splits)
  obtain rs cs where rs: "RealSubscribers (env_of w nd) custom c (nd_channels nd) = Some (rs, cs)"
    using assms by (auto simp: channel_Put_def)
  show ?thesis
  proof (cases rs)
    case (Ret subs)
    obtain r1 nd1 where s: "storeMessageToUserQueueIfNeed c ms subs (nd\<lparr>nd_channels := cs\<rparr>) = (r1, nd1)" by fastforce
    from assms rs Ret s q [OF s] show ?thesis
      by (cases r1) (auto simp: channel_Put_def Let_def split: option.split)
  qed (use assms rs in \<open>auto simp: channel_Put_def\<close>)
qed

lemma put_and_answer_ids:
  assumes "put_and_answer w c ch acks ms nd = Some (Ret (acks', err, nd'))"
  shows "nd_out nd' = nd_out nd" and "map ack_id acks' = map ack_id acks @ map msg_id ms"
proof -
  from assms obtain r nd1 where "channel_Put w ch ms [] (cn_uid c) (cn_deviceFlag c) (cn_deviceID c) nd = Some (r, nd1)"
    by (auto simp: put_and_answer_def)
  with assms channel_Put_keeps [OF this] show "nd_out nd' = nd_out nd" "map ack_id acks' = map ack_id acks @ map msg_id ms"
    by (cases r; auto simp: put_and_answer_def o_def)+
qed

lemma store_and_put_ids:
  assumes "store_and_put w c ch acks ms nd = Some (Ret (acks', err, nd'))"
  shows "nd_out nd' = nd_out nd \<and> map ack_id acks' = map ack_id acks @ map msg_id ms"
proof (cases "ms = []")
  case False
  obtain r ms1 nd1 where s: "storeChannelMessagesIfNeed w (cn_uid c) ms nd = (r, ms1, nd1)" by (metis prod_cases3)
  note k = storeChannelMessages_keeps [OF s]
  show ?thesis
  proof (cases r)
    case (Ret x)
    show ?thesis
    proof (cases "WebhookOn (wd_opts w)")
      case True
      show ?thesis
      proof (cases "storeChannelMessagesToNotifyQueue w ms1 nd1")
        case (Ret nd2)
        with \<open>r = Ret x\<close> s False True assms have "put_and_answer w c ch acks ms1 nd2 = Some (Ret (acks', err, nd'))"
          by (simp add: store_and_put_def)
        from put_and_answer_ids [OF this] notify_keeps [OF Ret] k show ?thesis by simp
      qed (use \<open>r = Ret x\<close> s False True assms k in \<open>auto simp: store_and_put_def o_def\<close>)
    next
      case F: False
      with Ret s False assms have "put_and_answer w c ch acks ms1 nd1 = Some (Ret (acks', err, nd'))"
        by (simp add: store_and_put_def)
      from put_and_answer_ids [OF this] k show ?thesis by simp
    qed
  qed (use s False assms k in \<open>auto simp: store_and_put_def o_def\<close>)
qed (use assms in \<open>simp add: store_and_put_def\<close>)

text \<open>The branches of \<open>prcocessChannelMessages\<close> that return.\<close>

lemma prcocessChannelMessages_cases:
  assumes "prcocessChannelMessages w a c cid t sps nd = Some (Ret (acks, err, nd'))"
  obtains (refused) reason cs where "acks = map (\<lambda>sp. getSendackPacketWithSendPacket sp reason) sps" "\<not> err"
      "nd' = nd\<lparr>nd_channels := cs\<rparr>"
    | (allowed) ch cs cs' reason acks1 ms nd2 where
      "GetChannel (env_of w nd) (if t = ChannelTypePerson then GetFakeChannelIDWith (cn_uid c) cid else cid) t
        (nd_channels nd) = (Ret (Some ch), cs)"
      "hasPermission (env_of w nd) ch (cn_uid c) cs = Some (Ret (True, reason), cs')"
      "decode_sends w a c (ci_Large (ch_Info ch)) sps (nd\<lparr>nd_channels := cs'\<rparr>) = Ret (acks1, ms, nd2)"
      "store_and_put w c ch acks1 ms nd2 = Some (Ret (acks, err, nd'))"
proof -
  obtain r cs where g: "GetChannel (env_of w nd) (if t = ChannelTypePerson then GetFakeChannelIDWith (cn_uid c) cid else cid) t
      (nd_channels nd) = (r, cs)" by fastforce
  have env: "env_of w (nd\<lparr>nd_channels := cs\<rparr>) = env_of w nd" by (simp add: env_of_def)
  show thesis
  proof (cases "\<exists>ch. r = Ret (Some ch)")
    case False
    with g assms show thesis
      by (auto simp: prcocessChannelMessages_def Let_def outcome_case_eq option_case_eq intro!: refused)
  next
    case True
    then obtain ch where r: "r = Ret (Some ch)" by blast
    with g assms env obtain ok reason cs1 where p: "hasPermission (env_of w nd) ch (cn_uid c) cs = Some (Ret (ok, reason), cs1)"
      by (auto simp: prcocessChannelMessages_def Let_def bind_eq_Some_conv outcome_case_eq)
    show thesis
    proof (cases ok)
      case False
      with r g p env assms show thesis by (intro refused [of reason cs1]) (auto simp: prcocessChannelMessages_def Let_def)
    next
      case True
      with r g p env assms obtain acks1 ms nd2 where
        "decode_sends w a c (ci_Large (ch_Info ch)) sps (nd\<lparr>nd_channels := cs1\<rparr>) = Ret (acks1, ms, nd2)"
        "store_and_put w c ch acks1 ms nd2 = Some (Ret (acks, err, nd'))"
        by (auto simp: prcocessChannelMessages_def Let_def outcome_case_eq)
      with r g p True show thesis by (intro allowed) simp_all
    qed
  qed
qed

lemma prcocessChannelMessages_ids:
  assumes "prcocessChannelMessages w a c cid t sps nd = Some (Ret (acks, err, nd'))"
  shows "sent_ids a nd' + mset (map ack_id acks) = sent_ids a nd + mset (map packet_id sps)"
  using assms
proof (cases rule: prcocessChannelMessages_cases)
  case (refused reason cs)
  then show ?thesis by (simp add: o_def)
next
  case (allowed ch cs cs' reason acks1 ms nd2)
  have "mset (map ack_id acks) = mset (map ack_id acks1) + mset (map msg_id ms)" and out: "nd_out nd' = nd_out nd2"
    using store_and_put_ids [OF allowed(4)] by (simp_all only: mset_append)
  with decode_sends_ids [OF allowed(3)] show ?thesis by (simp only: out) (simp add: union_assoc)
qed

lemma process_groups_ids:
  assumes "process_groups w a c sps ks acks nd = Some (Ret (acks', nd'))"
  shows "sent_ids a nd' + mset (map ack_id acks') =
    sent_ids a nd + mset (map ack_id acks) + (\<Sum>k\<leftarrow>ks. mset (map packet_id (filter (\<lambda>sp. send_key sp = k) sps)))"
  using assms
proof (induction ks arbitrary: acks nd)
  case (Cons k ks)
  let ?grp = "filter (\<lambda>sp. send_key sp = k) sps"
  from Cons.prems obtain acks1 err nd1 where
    p: "prcocessChannelMessages w a c (snd_ChannelID (hd ?grp)) (snd_ChannelType (hd ?grp)) ?grp nd = Some (Ret (acks1, err, nd1))"
    and g: "process_groups w a c sps ks (acks @ acks1) nd1 = Some (Ret (acks', nd'))"
    by (auto simp: Let_def bind_eq_Some_conv outcome_case_eq)
  have eq: "sent_ids a nd1 + mset (map ack_id (acks @ acks1)) = sent_ids a nd + mset (map packet_id ?grp) + mset (map ack_id acks)"
    using prcocessChannelMessages_ids [OF p] by (simp add: ac_simps)
  show ?case
    unfolding Cons.IH [OF g] eq by (simp add: ac_simps)
qed simp

lemma groups_partition:
  assumes "distinct ks" and "send_key ` set sps \<subseteq> set ks"
  shows "(\<Sum>k\<leftarrow>ks. mset (map packet_id (filter (\<lambda>sp. send_key sp = k) sps))) = mset (map packet_id sps)"
  using assms(2)
proof (induction sps)
  case (Cons sp sps)
  have "(\<Sum>k\<leftarrow>ks. mset (map packet_id (filter (\<lambda>x. send_key x = k) (sp # sps)))) =
    (\<Sum>k\<leftarrow>ks. (if k = send_key sp then {#packet_id sp#} else {#}) + mset (map packet_id (filter (\<lambda>x. send_key x = k) sps)))"
    by (rule arg_cong [where f = sum_list]) simp
  also have "\<dots> = (\<Sum>k\<leftarrow>ks. if k = send_key sp then {#packet_id sp#} else {#}) + mset (map packet_id sps)"
    using Cons by (simp add: sum_list_addf)
  also have "(\<Sum>k\<leftarrow>ks. if k = send_key sp then {#packet_id sp#} else {#}) = {#packet_id sp#}"
  proof -
    have none: "(\<Sum>k\<leftarrow>ks'. if k = x then {#y#} else {#}) = {#}" if "x \<notin> set ks'" for ks' :: "gostring list" and x and y :: "u64 \<times> gostring"
      using that by (induction ks') auto
    have one: "(\<Sum>k\<leftarrow>ks'. if k = x then {#y#} else {#}) = {#y#}" if "x \<in> set ks'" "distinct ks'"
      for ks' :: "gostring list" and x and y :: "u64 \<times> gostring"
      using that by (induction ks') (auto simp: none)
    show ?thesis using assms(1) Cons.prems by (intro one) auto
  qed
  finally show ?case by simp
qed simp

text \<open>After all packets were processed, each of them has been acknowledged once more than before.\<close>

lemma processMsgs_acks:
  assumes "mset (ord (remdups (map send_key sps))) = mset (remdups (map send_key sps))"
    and "processMsgs w ord a c sps nd = Some (Ret nd')"
  shows "sent_ids a nd' = sent_ids a nd + mset (map packet_id sps)"
proof -
  let ?ks = "ord (remdups (map send_key sps))"
  from assms(2) obtain acks nd1 where g: "process_groups w a c sps ?ks [] nd = Some (Ret (acks, nd1))"
    and nd': "nd' = response a (map FSendack acks) nd1"
    by (auto simp: processMsgs_def mapR_def bindR_eq_Ret)
  have ks: "distinct ?ks" "set ?ks = send_key ` set sps"
    using mset_eq_imp_distinct_iff [OF assms(1)] mset_eq_setD [OF assms(1)] by simp_all
  from process_groups_ids [OF g] groups_partition [OF ks(1)] ks(2)
  have "sent_ids a nd1 + mset (map ack_id acks) = sent_ids a nd + mset (map packet_id sps)" by simp
  then show ?thesis by (simp add: nd' sendacks_response)
qed

end
