(* ===== verification/ServerSamples.thy ===== *)
theory ServerSamples
  imports Samples Sending
begin

text \<open>
  Concrete states of the server's parts, and the facts about them that instances of the properties need.
\<close>

section \<open>Buffers and connections\<close>

definition sample_ring :: ring where
  "sample_ring = \<lparr>rb_buf = replicate 8 0, rb_size = 8, rb_r = 0, rb_w = 0, rb_isEmpty = True\<rparr>"

definition zero_pool :: "nat \<Rightarrow> bytes" where
  "zero_pool n = replicate n 0"

lemma sample_ring_ok [simp]: "fresh_ok sample_ring" "el_ok (Some sample_ring)" "rb_size sample_ring = 8"
    "contents sample_ring = []" "ring_ok sample_ring"
  by (simp_all add: fresh_ok_def ring_ok_def sample_ring_def ring_IsEmpty_def contents_def)

lemma zero_pool_ok [simp]: "pool_ok zero_pool"
  by (simp add: pool_ok_def zero_pool_def)

definition sample_conn :: "unit net_conn" where
  "sample_conn = (init_conn 5 3 zero_conn)\<lparr>cn_uid := [117]\<rparr>"

lemma sample_conn_simps [simp]: "cn_fd sample_conn = 3" "cn_id sample_conn = 5" "cn_uid sample_conn = [117]"
  by (simp_all add: sample_conn_def init_conn_def)

text \<open>Two connections of one user, numbers 7 and 8 on descriptors 3 and 4.\<close>

definition two_engine :: "unit engine" where
  "two_engine = \<lparr>eg_conns = [3 \<mapsto> 0, 4 \<mapsto> 1], eg_heap = (\<lambda>a. (init_conn (int a + 7) (int a + 3) zero_conn)\<lparr>cn_uid := [117]\<rparr>),
     eg_idle = [], eg_next = 2, eg_clientIDGen = 8\<rparr>"

lemma two_engine_simps:
  "cn_fd (conn_at two_engine a) = int a + 3" "cn_id (conn_at two_engine a) = int a + 7" "cn_uid (conn_at two_engine a) = [117]"
  "eg_conns two_engine 3 = Some 0" "eg_conns two_engine 4 = Some 1"
  by (simp_all add: init_conn_def two_engine_def conn_at_def)

lemma two_conns:
  "manager_ok two_engine (AddConn 0 two_engine NewConnManager)"
  "manager_ok two_engine (AddConn 1 two_engine (AddConn 0 two_engine NewConnManager))"
  "GetConnsWithUID [117] two_engine (AddConn 1 two_engine (AddConn 0 two_engine NewConnManager)) = [0, 1]"
proof -
  show one: "manager_ok two_engine (AddConn 0 two_engine NewConnManager)"
    by (rule AddConn_ok(1) [OF NewConnManager_ok]) (simp_all add: two_engine_simps NewConnManager_def)
  have new: "cm_connMap (AddConn 0 two_engine NewConnManager) (cn_id (conn_at two_engine 1)) = None"
    by (simp add: AddConn_def two_engine_simps NewConnManager_def)
  show "manager_ok two_engine (AddConn 1 two_engine (AddConn 0 two_engine NewConnManager))"
    by (rule AddConn_ok(1) [OF one _ new]) (simp add: two_engine_simps)
  show "GetConnsWithUID [117] two_engine (AddConn 1 two_engine (AddConn 0 two_engine NewConnManager)) = [0, 1]"
    by (simp add: GetConnsWithUID_def AddConn_def two_engine_simps NewConnManager_def GetConn_def engine_GetConn_def)
qed

section \<open>The cipher\<close>

text \<open>A block cipher that only adds the first byte of the key; what matters is that it can be undone.\<close>

definition sample_cipher :: block_cipher where
  "sample_cipher = \<lparr>bc_encrypt = (\<lambda>key blk. map (\<lambda>b. b + hd key) blk), bc_decrypt = (\<lambda>key blk. map (\<lambda>b. b - hd key) blk)\<rparr>"

lemma sample_cipher_ok [simp]: "cipher_ok sample_cipher"
  by (simp add: cipher_ok_def sample_cipher_def comp_def)

section \<open>The store\<close>

definition sample_fs :: "sample_db filestore" where
  "sample_fs = \<lparr>fs_cfg = sample_config, fs_db = ([], 0), fs_msgs = sample_store\<rparr>"

lemma sample_slot [simp]: "slotNumForChannel cid t sample_fs = Ret 0" "slotNum u sample_fs = Ret 0"
  by (simp_all add: slotNumForChannel_def slotNum_def GetSlotNum_def sample_fs_def sample_config_def)

lemma sample_get [simp]: "fs_get sample_bolt slot key sample_fs = None"
  by (simp add: fs_get_def sample_bolt_def sample_fs_def)

lemma sample_list_ok [simp]: "channel_list_ok sample_bolt key_of k sample_fs"
  by (simp add: channel_list_ok_def sample_bolt_ok list_key_ok_def getList_def split_names_def names_ok_def)

definition sample_options :: options where
  "sample_options = \<lparr>op_ManagerUID = [], op_ManagerTokenOn = False, op_ManagerToken = [], op_TokenAuthOn = False,
     op_WhitelistOffOfPerson = 1, op_TmpChannelSuffix = [64], op_CreateIfNoExist = True, op_DatasourceAddr = [],
     op_ChannelInfoOn = False, op_UserMsgQueueMaxSize = 0, op_MessageRetryInterval = 0, op_MessageRetryMaxCount = 5,
     op_WebhookHTTPAddr = [], op_WebhookGRPCAddr = []\<rparr>"

definition empty_loader :: loader where
  "empty_loader = \<lparr>ld_ChannelInfo = (\<lambda>_ _. Ret None), ld_Subscribers = (\<lambda>_ _. Ret []), ld_Denylist = (\<lambda>_ _. Ret []),
     ld_Allowlist = (\<lambda>_ _. Ret []), ld_SystemUIDs = Ret []\<rparr>"


text \<open>The store after a user joined a channel, and after he was put on its deny list.\<close>

definition sample_joined :: "sample_db filestore" where
  "sample_joined = sample_fs\<lparr>fs_db := ([((dec 0, getSubscribersKey [99] 2), [117])], 0)\<rparr>"

definition sample_denied :: "sample_db filestore" where
  "sample_denied = sample_fs\<lparr>fs_db := ([((dec 0, getDenylistKey [99] 2), [117])], 0)\<rparr>"

lemma sample_set [simp]:
  "fs_set sample_bolt slot k v sample_fs = Ret (sample_fs\<lparr>fs_db := ([((dec (unat slot), k), v)], 0)\<rparr>)"
  by (simp add: fs_set_def with_db_def mapR_def sample_bolt_def getSlotBucket_def sample_fs_def)

lemma sample_join [simp]:
  "AddSubscribers_store sample_bolt [99] 2 [[117]] sample_fs = Ret sample_joined"
  "AddDenylist_store sample_bolt [99] 2 [[117]] sample_fs = Ret sample_denied"
  by (simp_all add: AddSubscribers_store_def AddDenylist_store_def addList_def sample_joined_def sample_denied_def
      split_names_def)

lemma sample_joined_get:
  "fs_get sample_bolt slot key sample_joined = (if slot = 0 \<and> key = getSubscribersKey [99] 2 then Some [117] else None)"
  "fs_get sample_bolt slot key sample_denied = (if slot = 0 \<and> key = getDenylistKey [99] 2 then Some [117] else None)"
  by (auto simp: fs_get_def sample_joined_def sample_denied_def sample_bolt_def getSlotBucket_def unat_eq_zero)

lemma sample_joined_slot [simp]:
  "slotNumForChannel cid t sample_joined = Ret 0" "slotNumForChannel cid t sample_denied = Ret 0"
  by (simp_all add: slotNumForChannel_def GetSlotNum_def sample_joined_def sample_denied_def sample_fs_def sample_config_def)

lemma sample_options_simps [simp]: "\<not> HasDatasource sample_options" "\<not> IsTmpChannel sample_options [99]"
    "op_CreateIfNoExist sample_options" "\<not> op_ChannelInfoOn sample_options" "\<not> WebhookOn sample_options"
  by (simp_all add: HasDatasource_def sample_options_def IsTmpChannel_def hasSuffix_def WebhookOn_def WebhookGRPCOn_def)

lemma sample_stored [simp]: "stored_channel sample_options [99] 2"
  by (simp add: stored_channel_def)

lemma sample_lists:
  "fs_GetChannel sample_bolt js [99] 2 sample_joined = Ret None"
  "fs_GetChannel sample_bolt js [99] 2 sample_denied = Ret None"
  "GetAllowlist sample_bolt [99] 2 sample_denied = Ret []"
  by (simp_all add: fs_GetChannel_def GetAllowlist_def getList_def sample_joined_get getChannelKey_def getSubscribersKey_def
      getDenylistKey_def getAllowlistKey_def split_names_def)

lemma load_returns:
  assumes "\<not> HasDatasource opts" and "\<not> op_ChannelInfoOn opts" and "slotNumForChannel (ch_ID c) (ch_Type c) fs = Ret slot"
    and "ch_Type c \<noteq> ChannelTypeCustomerService"
  shows "\<exists>c'. LoadData (plain_env bo js opts ds fs) c cs = (Ret c', cs)"
  using assms
  by (simp add: LoadData_def LoadIfNeed_def initChannelInfo_def initSubscribers_def initBlacklist_def initWhitelist_def
      plain_env_def store_loader_def GetSubscribers_def GetDenylist_def GetAllowlist_def Let_def
      AddSubscribers_def AddSubscriber_def AddDenylist_def)

lemma sample_new [simp]: "ci_ChannelID (NewChannelInfo cid t) = cid" "ci_ChannelType (NewChannelInfo cid t) = t"
  by (simp_all add: NewChannelInfo_def)

lemma sample_loaded:
  assumes "fs_GetChannel sample_bolt js [99] 2 fs = Ret None" and "slotNumForChannel [99] 2 fs = Ret 0"
  shows "\<exists>c cs. GetChannel (plain_env sample_bolt js sample_options empty_loader fs) [99] 2 NewChannelManager = (Ret (Some c), cs)"
proof -
  obtain c where "LoadData (plain_env sample_bolt js sample_options empty_loader fs)
      (NewChannel (NewChannelInfo [99] 2)) NewChannelManager = (Ret c, NewChannelManager)"
    using load_returns [of sample_options "NewChannel (NewChannelInfo [99] 2)" fs 0 sample_bolt js empty_loader NewChannelManager]
      assms(2) by auto
  then show ?thesis
    using assms(1) by (simp add: GetChannel_def getChannelFromCacheOrStore_def getChannelFromCache_def)
      (simp add: NewChannelManager_def plain_env_def store_loader_def)
qed

lemma sample_env_ok [simp]: "env_ok (plain_env bo js opts empty_loader fs)"
  by (simp add: env_ok_def plain_env_def store_loader_ok) (simp add: loader_ok_def empty_loader_def)

lemma sample_hashes: "HashCrc32 [97] \<noteq> HashCrc32 [98]"
  by code_simp

definition sample_conversation :: Conversation where
  "sample_conversation = \<lparr>cv_UID = [117], cv_ChannelID = [99], cv_ChannelType = 2, cv_UnreadCount = 1, cv_Timestamp = 5,
     cv_LastMsgSeq = 9, cv_LastClientMsgNo = [97], cv_LastMsgID = 77, cv_Version = 1\<rparr>"

lemma sample_conversations:
  "GetConversations sample_bolt js u sample_fs = Ret []" "conv_plain sample_conversation"
  by (simp_all add: GetConversations_def conv_plain_def sample_conversation_def plain_def)

lemma sample_conversations_saved: "\<exists>fs. AddOrUpdateConversations sample_bolt js u cs sample_fs = Ret fs"
  by (simp add: AddOrUpdateConversations_def getNewConversations_def sample_conversations put_conversations_def mapR_def)

section \<open>Sending\<close>

definition sample_world :: "sample_db world" where
  "sample_world = \<lparr>wd_bolt = sample_bolt, wd_json = counting_codec, wd_opts = sample_options\<lparr>op_CreateIfNoExist := False\<rparr>,
     wd_datasource = empty_loader, wd_cipher = sample_cipher, wd_md5 = (\<lambda>_. []), wd_genMessageID = of_nat, wd_now = 0,
     wd_evicted = (\<lambda>_ _. None)\<rparr>"

definition sample_node :: "sample_db node" where
  "sample_node = \<lparr>nd_channels = NewChannelManager, nd_fs = sample_fs, nd_dirs = (\<lambda>_. \<lparr>ss_cache = Map.empty,
     ss_data = (\<lambda>_. []), ss_meta = (\<lambda>_. [])\<rparr>), nd_idCount = 0, nd_conversationQueue = [], nd_jobs = [], nd_out = []\<rparr>"

lemma sample_absent:
  "GetChannel (env_of sample_world sample_node) [5] 2 NewChannelManager = (Ret None, NewChannelManager)"
  by (simp add: GetChannel_def getChannelFromCacheOrStore_def getChannelFromCache_def env_of_def plain_env_def store_loader_def
      sample_world_def sample_node_def IsTmpChannel_def sample_options_def hasSuffix_def NewChannelManager_def fs_GetChannel_def)

lemma sample_processed: "\<exists>nd. processMsgs sample_world id 0 sample_conn [sample_send] sample_node = Some (Ret nd)"
  by (simp add: processMsgs_def prcocessChannelMessages_def sample_absent sample_send_def Let_def)
    (simp add: sample_node_def sample_absent [unfolded sample_node_def] mapR_def)

end
