(* ===== verification/Delivery.thy ===== *)
theory Delivery
  imports Sending RetryQueue
begin

text \<open>
  Delivery, \<^verbatim>\<open>internal/server/delivery_manager.go\<close>: the messages of a channel go to every
  connection of every subscriber but the sender's own device; each copy is queued for another attempt,
  encrypted for its connection and handed to \<open>dataOut\<close>; who is not online with a master device is
  reported. A copy is an object that the retry queue and the delivery share: it has an address in a heap.
  A panic ends the job, and what was done so far stays. Jobs run in a pool; here one runs at a time.
\<close>

section \<open>State\<close>

record 'c hub =
  hb_engine :: "'c engine"
  hb_conns :: connManager
  hb_heap :: msgheap
  hb_fresh :: msgref
  hb_retry :: retryQueue
  hb_out :: "(nat \<times> frame list) list"
  hb_offline :: "(message \<times> bool \<times> gostring list) list"

definition hub_out :: "nat \<Rightarrow> frame list \<Rightarrow> 'c hub \<Rightarrow> 'c hub" where
  "hub_out a frames h = (if length frames = 0 then h else h\<lparr>hb_out := hb_out h @ [(a, frames)]\<rparr>)"

definition set_recv :: "msgref \<Rightarrow> RecvPacket \<Rightarrow> 'c hub \<Rightarrow> 'c hub" where
  "set_recv x r h = h\<lparr>hb_heap := (hb_heap h)(x := (hb_heap h x)\<lparr>msg_RecvPacket := r\<rparr>)\<rparr>"

section \<open>Receivers\<close>

definition clientIsSelf :: "'c net_conn \<Rightarrow> gostring \<Rightarrow> u8 \<Rightarrow> gostring \<Rightarrow> bool" where
  "clientIsSelf c fromUID fromDeviceFlag fromDeviceID \<longleftrightarrow>
     cn_uid c = fromUID \<and> cn_deviceFlag c = fromDeviceFlag \<and> cn_deviceID c = fromDeviceID"

definition getRecvConns :: "gostring \<Rightarrow> gostring \<Rightarrow> u8 \<Rightarrow> gostring \<Rightarrow> 'c hub \<Rightarrow> nat list" where
  "getRecvConns subscriber fromUID fromDeviceFlag fromDeviceID h =
     filter (\<lambda>a. \<not> clientIsSelf (conn_at (hb_engine h) a) fromUID fromDeviceFlag fromDeviceID)
       (GetConnsWithUID subscriber (hb_engine h) (hb_conns h))"

definition getRecvConn :: "gostring \<Rightarrow> gostring \<Rightarrow> 'c hub \<Rightarrow> nat option" where
  "getRecvConn uid deviceID h = GetConnWithDeviceID uid deviceID (hb_engine h) (hb_conns h)"

section \<open>One copy\<close>

text \<open>The copy of a message for a connection, before it is queued.\<close>

definition clone_for :: "(gostring \<times> u32) list \<Rightarrow> gostring \<Rightarrow> 'c net_conn \<Rightarrow> message \<Rightarrow> message" where
  "clone_for seqs subscriber c m =
     (let f = rcv_Framer (msg_RecvPacket m);
          d = (DeepCopy m)\<lparr>msg_ToUID := subscriber, msg_toDeviceID := cn_deviceID c\<rparr>;
          d = (if length seqs > 0 \<and> SyncOnce f \<and> \<not> NoPersist f
               then SetSeq (case map_of seqs (seq_key subscriber (GetMessageID m)) of None \<Rightarrow> 0 | Some s \<Rightarrow> s) d else d);
          r = msg_RecvPacket d in
      if rcv_ChannelType r = ChannelTypePerson \<and> rcv_ChannelID r = subscriber
      then d\<lparr>msg_RecvPacket := r\<lparr>rcv_ChannelID := rcv_FromUID r\<rparr>\<rparr> else d)"

definition alloc :: "message \<Rightarrow> 'c hub \<Rightarrow> msgref \<times> 'c hub" where
  "alloc m h = (hb_fresh h, h\<lparr>hb_heap := (hb_heap h)(hb_fresh h := m), hb_fresh := hb_fresh h + 1\<rparr>)"

text \<open>A receiver does not see his own messages as unread.\<close>

definition own_quiet :: "gostring \<Rightarrow> RecvPacket \<Rightarrow> RecvPacket" where
  "own_quiet subscriber r =
     (if subscriber = rcv_FromUID r then r\<lparr>rcv_Framer := (rcv_Framer r)\<lparr>RedDot := False\<rparr>\<rparr> else r)"

text \<open>The packet is encrypted in place; the copy in the retry queue is the same object.\<close>

definition seal :: "'d world \<Rightarrow> 'c net_conn \<Rightarrow> msgref \<Rightarrow> 'c hub \<Rightarrow> frame outcome \<times> 'c hub" where
  "seal w c x h =
     (let r = msg_RecvPacket (hb_heap h x) in
      case encryptMessagePayload w (rcv_Payload r) c of
        Ret payloadEnc \<Rightarrow>
          (let r = r\<lparr>rcv_Payload := payloadEnc\<rparr>; h = set_recv x r h in
           case makeMsgKey w (Recv_VerityString r) c of
             Ret msgKey \<Rightarrow> (let r = r\<lparr>rcv_MsgKey := msgKey\<rparr> in (Ret (FRecv r), set_recv x r h))
           | Fail e \<Rightarrow> (Fail e, h)
           | Panic \<Rightarrow> (Panic, h))
      | Fail e \<Rightarrow> (Fail e, h)
      | Panic \<Rightarrow> (Panic, h))"

definition start_retry :: "'d world \<Rightarrow> (msgref \<Rightarrow> int) \<Rightarrow> msgref \<Rightarrow> 'c hub \<Rightarrow> 'c hub" where
  "start_retry w now x h = h\<lparr>hb_retry :=
     startInFlightTimeout (hb_heap h) (now x) (op_MessageRetryInterval (wd_opts w)) x (hb_retry h)\<rparr>"

definition prepare_copy ::
    "'d world \<Rightarrow> (msgref \<Rightarrow> int) \<Rightarrow> (gostring \<times> u32) list \<Rightarrow> gostring \<Rightarrow> 'c net_conn \<Rightarrow> message \<Rightarrow> 'c hub \<Rightarrow>
     frame outcome \<times> 'c hub" where
  "prepare_copy w now seqs subscriber c m h =
     (let (x, h) = alloc (clone_for seqs subscriber c m) h;
          h = (if \<not> NoPersist (rcv_Framer (msg_RecvPacket (hb_heap h x))) then start_retry w now x h else h);
          h = set_recv x (own_quiet subscriber (msg_RecvPacket (hb_heap h x))) h in
      seal w c x h)"

section \<open>The job\<close>

text \<open>A message that cannot be encrypted is skipped; a panic ends the job.\<close>

fun prepare_copies ::
    "'d world \<Rightarrow> (msgref \<Rightarrow> int) \<Rightarrow> (gostring \<times> u32) list \<Rightarrow> gostring \<Rightarrow> 'c net_conn \<Rightarrow> message list \<Rightarrow> 'c hub \<Rightarrow>
     frame list outcome \<times> 'c hub" where
  "prepare_copies w now seqs subscriber c [] h = (Ret [], h)"
| "prepare_copies w now seqs subscriber c (m # ms) h =
     (case prepare_copy w now seqs subscriber c m h of
        (Ret f, h) \<Rightarrow> (let (fs, h) = prepare_copies w now seqs subscriber c ms h in (mapR (\<lambda>fs. f # fs) fs, h))
      | (Fail e, h) \<Rightarrow> prepare_copies w now seqs subscriber c ms h
      | (Panic, h) \<Rightarrow> (Panic, h))"

fun deliver_conns ::
    "'d world \<Rightarrow> (msgref \<Rightarrow> int) \<Rightarrow> deliver_job \<Rightarrow> gostring \<Rightarrow> nat list \<Rightarrow> 'c hub \<Rightarrow> unit outcome \<times> 'c hub" where
  "deliver_conns w now job subscriber [] h = (Ret (), h)"
| "deliver_conns w now job subscriber (a # as) h =
     (case prepare_copies w now (dj_syncOnceSeqs job) subscriber (conn_at (hb_engine h) a) (dj_messages job) h of
        (Ret fs, h) \<Rightarrow> deliver_conns w now job subscriber as (hub_out a fs h)
      | (_, h) \<Rightarrow> (Panic, h))"

text \<open>Who counts as offline: no connection, unless he is the sender, or none of the master level.\<close>

definition is_offline :: "gostring \<Rightarrow> gostring \<Rightarrow> nat list \<Rightarrow> 'c hub \<Rightarrow> bool" where
  "is_offline subscriber fromUID recvConns h \<longleftrightarrow>
     (if length recvConns = 0 then subscriber \<noteq> fromUID
      else \<not> (\<exists>a \<in> set recvConns. cn_deviceLevel (conn_at (hb_engine h) a) = DeviceLevelMaster))"

fun deliver_subscribers ::
    "'d world \<Rightarrow> (msgref \<Rightarrow> int) \<Rightarrow> deliver_job \<Rightarrow> gostring list \<Rightarrow> gostring list \<Rightarrow> 'c hub \<Rightarrow>
     gostring list outcome \<times> 'c hub" where
  "deliver_subscribers w now job [] offline h = (Ret offline, h)"
| "deliver_subscribers w now job (subscriber # subs) offline h =
     (let recvConns = getRecvConns subscriber (dj_fromUID job) (dj_fromDeviceFlag job) (dj_fromDeviceID job) h;
          offline = (if is_offline subscriber (dj_fromUID job) recvConns h then offline @ [subscriber] else offline) in
      case deliver_conns w now job subscriber recvConns h of
        (Ret _, h) \<Rightarrow> deliver_subscribers w now job subs offline h
      | (_, h) \<Rightarrow> (Panic, h))"

definition notify_offline :: "deliver_job \<Rightarrow> gostring list \<Rightarrow> 'c hub \<Rightarrow> 'c hub" where
  "notify_offline job offline h =
     (if length offline > 0
      then h\<lparr>hb_offline := hb_offline h @ map (\<lambda>m. (m, dj_large job, offline))
        (filter (\<lambda>m. \<not> NoPersist (rcv_Framer (msg_RecvPacket m))) (dj_messages job))\<rparr>
      else h)"

definition deliveryMessages :: "'d world \<Rightarrow> (msgref \<Rightarrow> int) \<Rightarrow> deliver_job \<Rightarrow> 'c hub \<Rightarrow> unit outcome \<times> 'c hub" where
  "deliveryMessages w now job h =
     (if length (dj_subscribers job) = 0 \<or> length (dj_messages job) = 0 then (Ret (), h)
      else case deliver_subscribers w now job (dj_subscribers job) [] h of
        (Ret offline, h) \<Rightarrow> (Ret (), notify_offline job offline h)
      | (_, h) \<Rightarrow> (Panic, h))"

section \<open>Another attempt\<close>

definition count_retry :: "msgref \<Rightarrow> 'c hub \<Rightarrow> 'c hub" where
  "count_retry x h = h\<lparr>hb_heap := (hb_heap h)(x := (hb_heap h x)\<lparr>msg_retryCount := msg_retryCount (hb_heap h x) + 1\<rparr>)\<rparr>"

definition retryDeliveryMsg :: "'d world \<Rightarrow> (msgref \<Rightarrow> int) \<Rightarrow> msgref \<Rightarrow> 'c hub \<Rightarrow> 'c hub" where
  "retryDeliveryMsg w now x h =
     (let h = count_retry x h; m = hb_heap h x in
      if blank (msg_toDeviceID m) then h
      else if msg_retryCount m > op_MessageRetryMaxCount (wd_opts w) then h
      else case getRecvConn (msg_ToUID m) (msg_toDeviceID m) h of
          None \<Rightarrow> h
        | Some a \<Rightarrow>
            (let r = msg_RecvPacket m;
                 r = r\<lparr>rcv_ChannelID := (if rcv_ChannelType r = ChannelTypePerson \<and> rcv_ChannelID r = msg_ToUID m
                                         then rcv_FromUID r else rcv_ChannelID r)\<rparr> in
             hub_out a [FRecv r] (start_retry w now x (set_recv x r h))))"

text \<open>A scan of the retry queue submits the messages that are due; each is then delivered again.\<close>

definition retry_scan :: "'d world \<Rightarrow> (msgref \<Rightarrow> int) \<Rightarrow> int \<Rightarrow> 'c hub \<Rightarrow> 'c hub" where
  "retry_scan w now t h =
     (let (xs, r) = processInFlightQueue (hb_heap h) t (hb_retry h) in
      fold (retryDeliveryMsg w now) xs (h\<lparr>hb_retry := r\<rparr>))"

section \<open>What is delivered\<close>

text \<open>A connection that has completed its handshake can encrypt.\<close>

definition keyed :: "'d world \<Rightarrow> 'c net_conn \<Rightarrow> bool" where
  "keyed w c \<longleftrightarrow> (case conn_keys c of Ret (key, iv) \<Rightarrow> cipher_ok (wd_cipher w) \<and> key_size_ok key \<and> length iv = 16 | _ \<Rightarrow> False)"

lemma keyedE:
  assumes "keyed w c"
  obtains key iv where "conn_keys c = Ret (key, iv)" "cipher_ok (wd_cipher w)" "key_size_ok key" "length iv = 16"
  using assms by (auto simp: keyed_def split: outcome.splits prod.splits)

text \<open>The packet that goes out: encrypted and signed for the connection.\<close>

definition sealed :: "'d world \<Rightarrow> 'c net_conn \<Rightarrow> RecvPacket \<Rightarrow> RecvPacket" where
  "sealed w c r =
     (case encryptMessagePayload w (rcv_Payload r) c of
        Ret payloadEnc \<Rightarrow> let r = r\<lparr>rcv_Payload := payloadEnc\<rparr> in
          (case makeMsgKey w (Recv_VerityString r) c of Ret msgKey \<Rightarrow> r\<lparr>rcv_MsgKey := msgKey\<rparr> | _ \<Rightarrow> r)
      | _ \<Rightarrow> r)"

definition copy_packet :: "'d world \<Rightarrow> (gostring \<times> u32) list \<Rightarrow> gostring \<Rightarrow> 'c net_conn \<Rightarrow> message \<Rightarrow> RecvPacket" where
  "copy_packet w seqs subscriber c m = sealed w c (own_quiet subscriber (msg_RecvPacket (clone_for seqs subscriber c m)))"

lemma encrypt_ret:
  assumes "keyed w c"
  shows "\<exists>data. encryptMessagePayload w p c = Ret data" and "\<exists>k. makeMsgKey w s c = Ret k"
proof -
  obtain key iv where k: "conn_keys c = Ret (key, iv)" "cipher_ok (wd_cipher w)" "key_size_ok key" "length iv = 16"
    by (rule keyedE [OF assms])
  note ret = AesEncryptPkcs7Base64_ret [OF k(2-4)]
  from ret [of p] k(1) show "\<exists>data. encryptMessagePayload w p c = Ret data" by (auto simp: encryptMessagePayload_def)
  from ret [of s] k(1) show "\<exists>k. makeMsgKey w s c = Ret k" by (auto simp: makeMsgKey_def mapR_def)
qed

lemma sealed_decrypts:
  assumes "keyed w c" and "conn_keys c = Ret (key, iv)"
  shows "AesDecryptPkcs7Base64 (wd_cipher w) (rcv_Payload (sealed w c r)) key iv = Ret (rcv_Payload r)"
proof -
  have k: "cipher_ok (wd_cipher w)" "key_size_ok key" "length iv = 16" using assms by (auto simp: keyed_def)
  obtain data where e: "AesEncryptPkcs7Base64 (wd_cipher w) (rcv_Payload r) key iv = Ret data"
    and d: "AesDecryptPkcs7Base64 (wd_cipher w) data key iv = Ret (rcv_Payload r)"
    using AesEncryptPkcs7Base64_ret [OF k, of "rcv_Payload r"] by blast
  from e assms(2) have "rcv_Payload (sealed w c r) = data"
    by (auto simp: sealed_def encryptMessagePayload_def Let_def split: outcome.split)
  with d show ?thesis by simp
qed

text \<open>The receiver reads the payload that was sent, whatever else the copy changes.\<close>

lemma copy_packet_decrypts:
  assumes "keyed w c" and "conn_keys c = Ret (key, iv)"
  shows "AesDecryptPkcs7Base64 (wd_cipher w) (rcv_Payload (copy_packet w seqs uid c m)) key iv =
    Ret (rcv_Payload (msg_RecvPacket m))"
proof -
  have "rcv_Payload (own_quiet uid (msg_RecvPacket (clone_for seqs uid c m))) = rcv_Payload (msg_RecvPacket m)"
    by (simp add: own_quiet_def clone_for_def Let_def SetSeq_def DeepCopy_id)
  with sealed_decrypts [OF assms] show ?thesis unfolding copy_packet_def by metis
qed

lemma seal_ret:
  assumes "keyed w c"
  shows "seal w c x h = (Ret (FRecv (sealed w c (msg_RecvPacket (hb_heap h x)))),
    set_recv x (sealed w c (msg_RecvPacket (hb_heap h x))) h)"
proof -
  let ?r = "msg_RecvPacket (hb_heap h x)"
  obtain data where e: "encryptMessagePayload w (rcv_Payload ?r) c = Ret data" using encrypt_ret(1) [OF assms] by blast
  obtain k where k: "makeMsgKey w (Recv_VerityString (?r\<lparr>rcv_Payload := data\<rparr>)) c = Ret k" using encrypt_ret(2) [OF assms] by blast
  show ?thesis by (simp add: seal_def sealed_def e k Let_def set_recv_def)
qed

lemma hub_simps [simp]:
  "hb_engine (set_recv x r h) = hb_engine h" "hb_conns (set_recv x r h) = hb_conns h" "hb_out (set_recv x r h) = hb_out h"
  "hb_retry (set_recv x r h) = hb_retry h" "hb_fresh (set_recv x r h) = hb_fresh h" "hb_offline (set_recv x r h) = hb_offline h"
  "hb_engine (start_retry w now x h) = hb_engine h" "hb_conns (start_retry w now x h) = hb_conns h"
  "hb_out (start_retry w now x h) = hb_out h" "hb_heap (start_retry w now x h) = hb_heap h"
  "hb_fresh (start_retry w now x h) = hb_fresh h" "hb_offline (start_retry w now x h) = hb_offline h"
  "hb_engine (hub_out a fs h) = hb_engine h" "hb_conns (hub_out a fs h) = hb_conns h" "hb_heap (hub_out a fs h) = hb_heap h"
  "hb_retry (hub_out a fs h) = hb_retry h" "hb_fresh (hub_out a fs h) = hb_fresh h" "hb_offline (hub_out a fs h) = hb_offline h"
  by (simp_all add: set_recv_def start_retry_def hub_out_def)

lemma set_recv_heap: "hb_heap (set_recv x r h) = (hb_heap h)(x := (hb_heap h x)\<lparr>msg_RecvPacket := r\<rparr>)"
  by (simp add: set_recv_def)

lemma prepare_copy_ret:
  assumes "keyed w c"
  shows "\<exists>h'. prepare_copy w now seqs subscriber c m h = (Ret (FRecv (copy_packet w seqs subscriber c m)), h') \<and>
    hb_engine h' = hb_engine h \<and> hb_conns h' = hb_conns h \<and> hb_out h' = hb_out h \<and> hb_offline h' = hb_offline h"
  by (simp add: prepare_copy_def alloc_def Let_def seal_ret [OF assms] copy_packet_def set_recv_heap)

lemma prepare_copies_ret:
  assumes "keyed w c"
  shows "\<exists>h'. prepare_copies w now seqs subscriber c ms h = (Ret (map (\<lambda>m. FRecv (copy_packet w seqs subscriber c m)) ms), h') \<and>
    hb_engine h' = hb_engine h \<and> hb_conns h' = hb_conns h \<and> hb_out h' = hb_out h \<and> hb_offline h' = hb_offline h"
proof (induction ms arbitrary: h)
  case (Cons m ms)
  obtain h1 where h1: "prepare_copy w now seqs subscriber c m h = (Ret (FRecv (copy_packet w seqs subscriber c m)), h1)"
    and k: "hb_engine h1 = hb_engine h" "hb_conns h1 = hb_conns h" "hb_out h1 = hb_out h" "hb_offline h1 = hb_offline h"
    using prepare_copy_ret [OF assms] by blast
  from Cons [of h1] k show ?case by (auto simp: h1 mapR_def)
qed simp

definition sent_to :: "'d world \<Rightarrow> deliver_job \<Rightarrow> 'c engine \<Rightarrow> gostring \<Rightarrow> nat \<Rightarrow> nat \<times> frame list" where
  "sent_to w job eng subscriber a =
     (a, map (\<lambda>m. FRecv (copy_packet w (dj_syncOnceSeqs job) subscriber (conn_at eng a) m)) (dj_messages job))"

lemma deliver_conns_ret:
  assumes "\<forall>a \<in> set as. keyed w (conn_at (hb_engine h) a)" and "dj_messages job \<noteq> []"
  shows "\<exists>h'. deliver_conns w now job subscriber as h = (Ret (), h') \<and>
    hb_engine h' = hb_engine h \<and> hb_conns h' = hb_conns h \<and> hb_offline h' = hb_offline h \<and>
    hb_out h' = hb_out h @ map (sent_to w job (hb_engine h) subscriber) as"
  using assms(1)
proof (induction as arbitrary: h)
  case (Cons a as)
  let ?fs = "map (\<lambda>m. FRecv (copy_packet w (dj_syncOnceSeqs job) subscriber (conn_at (hb_engine h) a) m)) (dj_messages job)"
  from Cons.prems have "keyed w (conn_at (hb_engine h) a)" by simp
  from prepare_copies_ret [OF this] obtain h1 where
    h1: "prepare_copies w now (dj_syncOnceSeqs job) subscriber (conn_at (hb_engine h) a) (dj_messages job) h = (Ret ?fs, h1)"
    and k: "hb_engine h1 = hb_engine h" "hb_conns h1 = hb_conns h" "hb_out h1 = hb_out h" "hb_offline h1 = hb_offline h"
    by blast
  from Cons.IH [of "hub_out a ?fs h1"] Cons.prems k assms(2) show ?case
    by (auto simp: h1 hub_out_def sent_to_def)
qed simp

abbreviation job_conns :: "deliver_job \<Rightarrow> 'c hub \<Rightarrow> gostring \<Rightarrow> nat list" where
  "job_conns job h subscriber \<equiv> getRecvConns subscriber (dj_fromUID job) (dj_fromDeviceFlag job) (dj_fromDeviceID job) h"

lemma same_conns: "hb_engine h' = hb_engine h \<Longrightarrow> hb_conns h' = hb_conns h \<Longrightarrow>
    getRecvConns s u fl d h' = getRecvConns s u fl d h \<and> is_offline s u as h' = is_offline s u as h"
  by (simp add: getRecvConns_def is_offline_def)

lemma deliver_subscribers_ret:
  assumes "\<forall>s \<in> set subs. \<forall>a \<in> set (job_conns job h s). keyed w (conn_at (hb_engine h) a)" and "dj_messages job \<noteq> []"
  shows "\<exists>h'. deliver_subscribers w now job subs offline h =
      (Ret (offline @ filter (\<lambda>s. is_offline s (dj_fromUID job) (job_conns job h s) h) subs), h') \<and>
    hb_engine h' = hb_engine h \<and> hb_conns h' = hb_conns h \<and> hb_offline h' = hb_offline h \<and>
    hb_out h' = hb_out h @ concat (map (\<lambda>s. map (sent_to w job (hb_engine h) s) (job_conns job h s)) subs)"
  using assms(1)
proof (induction subs arbitrary: h offline)
  case (Cons s subs)
  from Cons.prems have "\<forall>a \<in> set (job_conns job h s). keyed w (conn_at (hb_engine h) a)" by simp
  from deliver_conns_ret [OF this assms(2)] obtain h1 where
    h1: "deliver_conns w now job s (job_conns job h s) h = (Ret (), h1)"
    and k: "hb_engine h1 = hb_engine h" "hb_conns h1 = hb_conns h" "hb_offline h1 = hb_offline h"
      "hb_out h1 = hb_out h @ map (sent_to w job (hb_engine h) s) (job_conns job h s)" by blast
  note same = same_conns [OF k(1,2)]
  have "\<forall>s \<in> set subs. \<forall>a \<in> set (job_conns job h1 s). keyed w (conn_at (hb_engine h1) a)"
    using Cons.prems k(1) same by simp
  from Cons.IH [OF this, of "if is_offline s (dj_fromUID job) (job_conns job h s) h then offline @ [s] else offline"] k same
  show ?case by (auto simp: h1 Let_def)
qed simp

text \<open>A job whose receivers' connections can encrypt sends every message to each of them, in order.\<close>

lemma deliveryMessages_ret:
  assumes "\<forall>s \<in> set (dj_subscribers job). \<forall>a \<in> set (job_conns job h s). keyed w (conn_at (hb_engine h) a)"
    and "dj_messages job \<noteq> []"
  shows "\<exists>h'. deliveryMessages w now job h = (Ret (), h') \<and>
    hb_out h' = hb_out h @ concat (map (\<lambda>s. map (sent_to w job (hb_engine h) s) (job_conns job h s)) (dj_subscribers job)) \<and>
    hb_offline h' = hb_offline h @
      (let off = filter (\<lambda>s. is_offline s (dj_fromUID job) (job_conns job h s) h) (dj_subscribers job) in
       if off = [] then []
       else map (\<lambda>m. (m, dj_large job, off)) (filter (\<lambda>m. \<not> NoPersist (rcv_Framer (msg_RecvPacket m))) (dj_messages job)))"
proof (cases "dj_subscribers job = []")
  case False
  from deliver_subscribers_ret [OF assms, of now "[]"] obtain h1 where
    "deliver_subscribers w now job (dj_subscribers job) [] h =
      (Ret (filter (\<lambda>s. is_offline s (dj_fromUID job) (job_conns job h s) h) (dj_subscribers job)), h1)"
    "hb_offline h1 = hb_offline h"
    "hb_out h1 = hb_out h @ concat (map (\<lambda>s. map (sent_to w job (hb_engine h) s) (job_conns job h s)) (dj_subscribers job))"
    by auto
  with False assms(2) show ?thesis by (simp add: deliveryMessages_def notify_offline_def Let_def)
qed (simp add: deliveryMessages_def)

section \<open>What is in flight\<close>

definition hub_ok :: "'c hub \<Rightarrow> bool" where
  "hub_ok h \<longleftrightarrow> rq_invar (hb_heap h) (hb_retry h) \<and> (\<forall>x. in_queue x (hb_retry h) \<longrightarrow> x < hb_fresh h)"

definition in_flight :: "'c hub \<Rightarrow> gostring \<Rightarrow> gostring \<Rightarrow> message \<Rightarrow> bool" where
  "in_flight h uid deviceID m \<longleftrightarrow> inFlightMessages (hb_retry h) (getInFlightKey uid deviceID (GetMessageID m)) \<noteq> None"

definition persisted :: "message \<Rightarrow> bool" where
  "persisted m \<longleftrightarrow> \<not> NoPersist (rcv_Framer (msg_RecvPacket m))"

text \<open>Delivery only adds to what is in flight, and does not touch the connections.\<close>

definition grows :: "'c hub \<Rightarrow> 'c hub \<Rightarrow> bool" where
  "grows h h' \<longleftrightarrow> hub_ok h' \<and> hb_engine h' = hb_engine h \<and> hb_conns h' = hb_conns h \<and>
     (\<forall>u d m. in_flight h u d m \<longrightarrow> in_flight h' u d m)"

lemma grows_refl: "hub_ok h \<Longrightarrow> grows h h"
  by (simp add: grows_def)

lemma grows_trans [trans]: "grows h h1 \<Longrightarrow> grows h1 h2 \<Longrightarrow> grows h h2"
  by (simp add: grows_def)

lemma grows_ok: "grows h h' \<Longrightarrow> hub_ok h'"
  by (simp add: grows_def)

lemma grows_out: "grows h h' \<Longrightarrow> grows h (hub_out a fs h')"
  by (simp add: grows_def hub_ok_def in_flight_def)

lemma clone_for_simps [simp]:
  "msg_ToUID (clone_for seqs s c m) = s" "msg_toDeviceID (clone_for seqs s c m) = cn_deviceID c"
  "GetMessageID (clone_for seqs s c m) = GetMessageID m" "persisted (clone_for seqs s c m) = persisted m"
  "msg_retryCount (clone_for seqs s c m) = msg_retryCount m"
  by (simp_all add: clone_for_def DeepCopy_def GetMessageID_def SetSeq_def persisted_def Let_def)

lemma clone_key: "inflight_key (clone_for seqs s c m) = getInFlightKey s (cn_deviceID c) (GetMessageID m)"
  by (simp add: inflight_key_def)

lemma set_recv_key:
  "rcv_MessageID r = rcv_MessageID (msg_RecvPacket (hb_heap h x)) \<Longrightarrow>
     inflight_key (hb_heap (set_recv x r h) y) = inflight_key (hb_heap h y)"
  by (simp add: set_recv_heap inflight_key_def GetMessageID_def)

lemma rq_invar_keys:
  "(\<And>y. inflight_key (heap' y) = inflight_key (heap y)) \<Longrightarrow> rq_invar heap' r = rq_invar heap r"
  by (simp add: rq_invar_def)

lemma set_recv_grows:
  "hub_ok h \<Longrightarrow> rcv_MessageID r = rcv_MessageID (msg_RecvPacket (hb_heap h x)) \<Longrightarrow> grows h (set_recv x r h)"
  using rq_invar_keys [of "hb_heap (set_recv x r h)" "hb_heap h" "hb_retry h"] set_recv_key [of r h x]
  by (simp add: grows_def hub_ok_def in_flight_def)

lemma seal_grows:
  assumes "hub_ok h" shows "grows h (snd (seal w c x h))"
proof -
  let ?r = "msg_RecvPacket (hb_heap h x)"
  have one: "grows h (set_recv x (?r\<lparr>rcv_Payload := p\<rparr>) h)" for p
    by (rule set_recv_grows [OF assms]) simp
  have two: "grows h (set_recv x (?r\<lparr>rcv_Payload := p, rcv_MsgKey := k\<rparr>) (set_recv x (?r\<lparr>rcv_Payload := p\<rparr>) h))" for p k
    by (rule grows_trans [OF one set_recv_grows]) (simp_all add: grows_ok [OF one] set_recv_heap)
  from one two grows_refl [OF assms] show ?thesis
    by (simp add: seal_def Let_def split: outcome.split)
qed

lemma start_retry_grows:
  assumes "hub_ok h" and "\<not> in_queue x (hb_retry h)" and "x < hb_fresh h"
  shows "grows h (start_retry w now x h)"
    and "inFlightMessages (hb_retry (start_retry w now x h)) (inflight_key (hb_heap h x)) \<noteq> None"
proof -
  have inv: "rq_invar (hb_heap h) (hb_retry h)" using assms(1) by (simp add: hub_ok_def)
  have q: "in_queue y (hb_retry (start_retry w now x h)) \<longleftrightarrow> y = x \<or> in_queue y (hb_retry h)" for y
    using arg_cong [OF startInFlightTimeout_queue(2) [OF inv assms(2), of "now x" "op_MessageRetryInterval (wd_opts w)"], of set_mset]
    by (auto simp: in_queue_def start_retry_def)
  show "grows h (start_retry w now x h)"
    using startInFlightTimeout_invar [OF inv assms(2)] assms q
    by (auto simp: grows_def hub_ok_def in_flight_def start_retry_def startInFlightTimeout_table split: option.split)
  show "inFlightMessages (hb_retry (start_retry w now x h)) (inflight_key (hb_heap h x)) \<noteq> None"
    by (simp add: start_retry_def startInFlightTimeout_table split: option.split)
qed

lemma alloc_grows:
  assumes "hub_ok h" and "alloc m h = (x, h')"
  shows "grows h h'" and "\<not> in_queue x (hb_retry h')" and "x < hb_fresh h'" and "hb_heap h' x = m"
proof -
  have "inflight_key (hb_heap h' y) = inflight_key (hb_heap h y)" if "in_queue y (hb_retry h)" for y
    using assms that by (auto simp: alloc_def hub_ok_def)
  then have "rq_invar (hb_heap h') (hb_retry h)"
    using assms(1) unfolding hub_ok_def rq_invar_def in_queue_def set_mset_mset by metis
  then show "grows h h'" using assms by (auto simp: grows_def hub_ok_def alloc_def in_flight_def less_SucI)
  show "\<not> in_queue x (hb_retry h')" "x < hb_fresh h'" "hb_heap h' x = m"
    using assms by (auto simp: alloc_def hub_ok_def)
qed

lemma prepare_copy_grows:
  assumes "hub_ok h" and "prepare_copy w now seqs s c m h = (r, h')"
  shows "grows h h' \<and> (persisted m \<longrightarrow> in_flight h' s (cn_deviceID c) m)"
proof -
  obtain x h1 where a: "alloc (clone_for seqs s c m) h = (x, h1)" by fastforce
  note al = alloc_grows [OF assms(1) a]
  have ok1: "hub_ok h1" using al(1) by (rule grows_ok)
  define h2 where "h2 = (if persisted m then start_retry w now x h1 else h1)"
  have g2: "grows h1 h2" using start_retry_grows(1) [OF ok1 al(2,3), of w now] grows_refl [OF ok1] by (simp add: h2_def)
  have f2: "persisted m \<longrightarrow> in_flight h2 s (cn_deviceID c) m"
    using start_retry_grows(2) [OF ok1 al(2,3), of w now] by (simp add: h2_def in_flight_def al(4) clone_key)
  have x2: "hb_heap h2 x = clone_for seqs s c m" by (simp add: h2_def al(4))
  define h3 where "h3 = set_recv x (own_quiet s (msg_RecvPacket (hb_heap h2 x))) h2"
  have g3: "grows h2 h3"
    unfolding h3_def by (rule set_recv_grows [OF grows_ok [OF g2]]) (simp add: own_quiet_def)
  have "snd (seal w c x h3) = h'"
    using assms(2) a al(4) clone_for_simps(4) [of seqs s c m, unfolded persisted_def]
    by (simp add: prepare_copy_def h3_def h2_def persisted_def Let_def split: if_splits)
  with seal_grows [OF grows_ok [OF g3], of w c x] have g4: "grows h3 h'" by simp
  have "grows h h'" using al(1) g2 g3 g4 by (blast intro: grows_trans)
  moreover have "in_flight h2 u d m \<Longrightarrow> in_flight h' u d m" for u d
    using grows_trans [OF g3 g4] by (simp add: grows_def)
  ultimately show ?thesis using f2 by blast
qed

lemma prepare_copies_grows:
  assumes "hub_ok h" and "prepare_copies w now seqs s c ms h = (r, h')"
  shows "grows h h' \<and> (r \<noteq> Panic \<longrightarrow> (\<forall>m \<in> set ms. persisted m \<longrightarrow> in_flight h' s (cn_deviceID c) m))"
  using assms
proof (induction ms arbitrary: h r)
  case (Cons m ms)
  obtain r1 h1 where p: "prepare_copy w now seqs s c m h = (r1, h1)" by fastforce
  note g = prepare_copy_grows [OF Cons.prems(1) p]
  then have ok1: "hub_ok h1" by (blast intro: grows_ok)
  show ?case
  proof (cases "r1 = Panic")
    case False
    obtain r2 where c: "prepare_copies w now seqs s c ms h1 = (r2, h')" and r2: "r2 = Panic \<longrightarrow> r = Panic"
      using Cons.prems(2) p False by (auto simp: mapR_def split: outcome.splits prod.splits)
    from Cons.IH [OF ok1 c] g r2 grows_trans [of h h1 h'] show ?thesis
      by (auto simp: grows_def)
  qed (use Cons.prems p g in auto)
qed (auto intro: grows_refl)

lemma deliver_conns_grows:
  assumes "hub_ok h" and "deliver_conns w now job s as h = (r, h')"
  shows "grows h h' \<and> (r \<noteq> Panic \<longrightarrow> (\<forall>a \<in> set as. \<forall>m \<in> set (dj_messages job).
    persisted m \<longrightarrow> in_flight h' s (cn_deviceID (conn_at (hb_engine h) a)) m))"
  using assms
proof (induction as arbitrary: h r)
  case (Cons a as)
  let ?c = "conn_at (hb_engine h) a"
  obtain r1 h1 where p: "prepare_copies w now (dj_syncOnceSeqs job) s ?c (dj_messages job) h = (r1, h1)" by fastforce
  note g = prepare_copies_grows [OF Cons.prems(1) p]
  show ?case
  proof (cases r1)
    case (Ret fs)
    from Ret g have g1: "grows h (hub_out a fs h1)" by (auto intro: grows_out)
    have d: "deliver_conns w now job s as (hub_out a fs h1) = (r, h')" using Cons.prems(2) p Ret by simp
    from Cons.IH [OF grows_ok [OF g1] d] g Ret grows_trans [OF g1, of h'] show ?thesis
      by (auto simp: grows_def in_flight_def)
  qed (use Cons.prems p g in auto)
qed (auto intro: grows_refl)

lemma deliver_subscribers_grows:
  assumes "hub_ok h" and "deliver_subscribers w now job subs offline h = (r, h')"
  shows "grows h h' \<and> (r \<noteq> Panic \<longrightarrow> (\<forall>s \<in> set subs. \<forall>a \<in> set (job_conns job h s). \<forall>m \<in> set (dj_messages job).
    persisted m \<longrightarrow> in_flight h' s (cn_deviceID (conn_at (hb_engine h) a)) m))"
  using assms
proof (induction subs arbitrary: h offline r)
  case (Cons s subs)
  obtain r1 h1 where p: "deliver_conns w now job s (job_conns job h s) h = (r1, h1)" by fastforce
  note g = deliver_conns_grows [OF Cons.prems(1) p]
  show ?case
  proof (cases r1)
    case (Ret u)
    then have ok1: "hub_ok h1" using g by (blast intro: grows_ok)
    obtain off where d: "deliver_subscribers w now job subs off h1 = (r, h')"
      using Cons.prems(2) p Ret by (auto simp: Let_def)
    have same: "hb_engine h1 = hb_engine h" "job_conns job h1 x = job_conns job h x" for x
      using g same_conns [of h1 h] by (auto simp: grows_def)
    note ih = Cons.IH [OF ok1 d, unfolded same]
    from g ih have gr: "grows h h'" by (blast intro: grows_trans)
    have keep: "in_flight h1 x y m \<Longrightarrow> in_flight h' x y m" for x y m using ih by (simp add: grows_def)
    from gr keep g ih Ret show ?thesis by simp
  qed (use Cons.prems p g in \<open>auto simp: Let_def\<close>)
qed (auto intro: grows_refl)

lemma notify_offline_grows: "grows h h' \<Longrightarrow> grows h (notify_offline job off h')"
  by (simp add: grows_def notify_offline_def hub_ok_def in_flight_def)

text \<open>After a job, every message to be kept is in flight for every device it was sent to.\<close>

lemma deliveryMessages_in_flight:
  assumes "hub_ok h" and "deliveryMessages w now job h = (r, h')"
  shows "grows h h' \<and> (r = Ret () \<longrightarrow> (\<forall>s \<in> set (dj_subscribers job). \<forall>a \<in> set (job_conns job h s).
    \<forall>m \<in> set (dj_messages job). persisted m \<longrightarrow> in_flight h' s (cn_deviceID (conn_at (hb_engine h) a)) m))"
proof (cases "dj_subscribers job = [] \<or> dj_messages job = []")
  case False
  obtain r1 h1 where d: "deliver_subscribers w now job (dj_subscribers job) [] h = (r1, h1)" by fastforce
  note g = deliver_subscribers_grows [OF assms(1) d]
  have other: "in_flight (notify_offline job off h1) = in_flight h1" for off
    by (simp add: fun_eq_iff in_flight_def notify_offline_def)
  show ?thesis
  proof (cases r1)
    case (Ret off)
    with False assms(2) d have "h' = notify_offline job off h1" by (simp add: deliveryMessages_def)
    with g Ret notify_offline_grows [of h h1 job off] other show ?thesis by simp
  qed (use False assms(2) d g in \<open>auto simp: deliveryMessages_def\<close>)
qed (use assms in \<open>auto simp: deliveryMessages_def intro: grows_refl\<close>)

section \<open>Attempts\<close>

definition attempts :: "'c hub \<Rightarrow> msgref \<Rightarrow> int" where
  "attempts h x = msg_retryCount (hb_heap h x)"

text \<open>When another attempt is not made: no device, too many attempts, or the device is not connected.\<close>

definition gives_up :: "'d world \<Rightarrow> msgref \<Rightarrow> 'c hub \<Rightarrow> bool" where
  "gives_up w x h \<longleftrightarrow> (let m = hb_heap h x in
     blank (msg_toDeviceID m) \<or> op_MessageRetryMaxCount (wd_opts w) < attempts h x + 1 \<or>
     getRecvConn (msg_ToUID m) (msg_toDeviceID m) h = None)"

definition retry_packet :: "message \<Rightarrow> RecvPacket" where
  "retry_packet m = (let r = msg_RecvPacket m in
     r\<lparr>rcv_ChannelID := (if rcv_ChannelType r = ChannelTypePerson \<and> rcv_ChannelID r = msg_ToUID m
                        then rcv_FromUID r else rcv_ChannelID r)\<rparr>)"

lemma retry_gives_up: "gives_up w x h \<Longrightarrow> retryDeliveryMsg w now x h = count_retry x h"
  by (auto simp: gives_up_def retryDeliveryMsg_def attempts_def count_retry_def getRecvConn_def Let_def)

lemma retry_sends:
  assumes "\<not> gives_up w x h"
  obtains a where "getRecvConn (msg_ToUID (hb_heap h x)) (msg_toDeviceID (hb_heap h x)) h = Some a"
    and "retryDeliveryMsg w now x h =
      hub_out a [FRecv (retry_packet (hb_heap h x))] (start_retry w now x
        (set_recv x (retry_packet (hb_heap h x)) (count_retry x h)))"
  using assms
  by (auto simp: gives_up_def retryDeliveryMsg_def attempts_def count_retry_def getRecvConn_def retry_packet_def Let_def)

lemma count_retry_simps [simp]:
  "hb_engine (count_retry x h) = hb_engine h" "hb_conns (count_retry x h) = hb_conns h" "hb_out (count_retry x h) = hb_out h"
  "hb_retry (count_retry x h) = hb_retry h" "hb_fresh (count_retry x h) = hb_fresh h"
  "attempts (count_retry x h) y = (if y = x then attempts h x + 1 else attempts h y)"
  "inflight_key (hb_heap (count_retry x h) y) = inflight_key (hb_heap h y)"
  by (simp_all add: count_retry_def attempts_def inflight_key_def GetMessageID_def)

lemma attempts_simps [simp]:
  "attempts (hub_out a fs h) x = attempts h x" "attempts (start_retry w now y h) x = attempts h x"
  "attempts (set_recv y r h) x = attempts h x"
  by (simp_all add: attempts_def set_recv_heap)

lemma retry_packet_key: "inflight_key (hb_heap (set_recv x (retry_packet (hb_heap h x)) (count_retry x h)) y) = inflight_key (hb_heap h y)"
  by (simp add: set_recv_key retry_packet_def count_retry_def inflight_key_def GetMessageID_def set_recv_heap Let_def)

text \<open>One attempt, for a message that has been taken out of the queue.\<close>

lemma retryDeliveryMsg_ok:
  assumes "rq_full (hb_heap h) (hb_retry h)" and "\<not> in_queue x (hb_retry h)"
    and "inFlightMessages (hb_retry h) (inflight_key (hb_heap h x)) = None"
    and "h' = retryDeliveryMsg w now x h"
  shows "rq_full (hb_heap h') (hb_retry h')"
    and "\<And>y. inflight_key (hb_heap h' y) = inflight_key (hb_heap h y)"
    and "\<And>y. attempts h' y = (if y = x then attempts h x + 1 else attempts h y)"
    and "\<And>y. in_queue y (hb_retry h') \<longleftrightarrow> in_queue y (hb_retry h) \<or> y = x \<and> \<not> gives_up w x h"
    and "\<And>y. y \<noteq> x \<Longrightarrow> due_at (hb_retry h') y = due_at (hb_retry h) y"
    and "\<And>k. k \<noteq> inflight_key (hb_heap h x) \<Longrightarrow> inFlightMessages (hb_retry h') k = inFlightMessages (hb_retry h) k"
    and "hb_fresh h' = hb_fresh h"
proof -
  have "rq_full (hb_heap h') (hb_retry h') \<and> (\<forall>y. inflight_key (hb_heap h' y) = inflight_key (hb_heap h y)) \<and>
    (\<forall>y. attempts h' y = (if y = x then attempts h x + 1 else attempts h y)) \<and>
    (\<forall>y. in_queue y (hb_retry h') \<longleftrightarrow> in_queue y (hb_retry h) \<or> y = x \<and> \<not> gives_up w x h) \<and>
    (\<forall>y. y \<noteq> x \<longrightarrow> due_at (hb_retry h') y = due_at (hb_retry h) y) \<and>
    (\<forall>k. k \<noteq> inflight_key (hb_heap h x) \<longrightarrow> inFlightMessages (hb_retry h') k = inFlightMessages (hb_retry h) k) \<and>
    hb_fresh h' = hb_fresh h"
  proof (cases "gives_up w x h")
    case True
    then have "h' = count_retry x h" using assms(4) by (simp add: retry_gives_up)
    moreover have "rq_full (hb_heap (count_retry x h)) (hb_retry h) = rq_full (hb_heap h) (hb_retry h)"
      by (simp add: rq_full_def rq_invar_def)
    ultimately show ?thesis using True assms(1) by simp
  next
    case False
    define h1 where "h1 = set_recv x (retry_packet (hb_heap h x)) (count_retry x h)"
    from retry_sends [OF False] obtain a where
      h': "h' = hub_out a [FRecv (retry_packet (hb_heap h x))] (start_retry w now x h1)"
      using assms(4) unfolding h1_def by metis
    have keys: "inflight_key (hb_heap h1 y) = inflight_key (hb_heap h y)" for y
      unfolding h1_def by (rule retry_packet_key)
    have r1: "hb_retry h1 = hb_retry h" by (simp add: h1_def)
    have full: "rq_full (hb_heap h1) (hb_retry h)" using assms(1) by (simp add: rq_full_def rq_invar_def keys)
    then have inv: "rq_invar (hb_heap h1) (hb_retry h)" by (simp add: rq_full_def)
    let ?r = "startInFlightTimeout (hb_heap h1) (now x) (op_MessageRetryInterval (wd_opts w)) x (hb_retry h)"
    have "hb_retry h' = ?r" "hb_heap h' = hb_heap h1" by (simp_all add: h' start_retry_def r1 hub_out_def)
    moreover have "rq_full (hb_heap h1) ?r"
      by (rule startInFlightTimeout_full [OF full assms(2)]) (simp add: keys assms(3))
    moreover have "in_queue y ?r \<longleftrightarrow> in_queue y (hb_retry h) \<or> y = x" for y
      using arg_cong [OF startInFlightTimeout_queue(2) [OF inv assms(2), of "now x" "op_MessageRetryInterval (wd_opts w)"], of set_mset]
      by (auto simp: in_queue_def)
    moreover have "attempts h' y = (if y = x then attempts h x + 1 else attempts h y)" for y
      by (simp add: h' h1_def)
    moreover have "hb_fresh h' = hb_fresh h" by (simp add: h' h1_def)
    ultimately show ?thesis
      using False startInFlightTimeout_queue(3) [OF inv assms(2)] assms(3)
      by (simp add: keys startInFlightTimeout_table)
  qed
  then show "rq_full (hb_heap h') (hb_retry h')"
    and "\<And>y. inflight_key (hb_heap h' y) = inflight_key (hb_heap h y)"
    and "\<And>y. attempts h' y = (if y = x then attempts h x + 1 else attempts h y)"
    and "\<And>y. in_queue y (hb_retry h') \<longleftrightarrow> in_queue y (hb_retry h) \<or> y = x \<and> \<not> gives_up w x h"
    and "\<And>y. y \<noteq> x \<Longrightarrow> due_at (hb_retry h') y = due_at (hb_retry h) y"
    and "\<And>k. k \<noteq> inflight_key (hb_heap h x) \<Longrightarrow> inFlightMessages (hb_retry h') k = inFlightMessages (hb_retry h) k"
    and "hb_fresh h' = hb_fresh h" by blast+
qed

lemma attempts_bound: "\<not> gives_up w x h \<Longrightarrow> attempts h x + 1 \<le> op_MessageRetryMaxCount (wd_opts w)"
  by (simp add: gives_up_def Let_def)

lemma retry_all:
  assumes "rq_full (hb_heap h) (hb_retry h)" and "\<forall>x \<in> set xs. \<not> in_queue x (hb_retry h)"
    and "\<forall>x \<in> set xs. inFlightMessages (hb_retry h) (inflight_key (hb_heap h x)) = None"
    and "distinct (map (\<lambda>x. inflight_key (hb_heap h x)) xs)" and "h' = fold (retryDeliveryMsg w now) xs h"
  shows "rq_full (hb_heap h') (hb_retry h') \<and> hb_fresh h' = hb_fresh h \<and>
    (\<forall>y. attempts h' y = (if y \<in> set xs then attempts h y + 1 else attempts h y)) \<and>
    (\<forall>y. in_queue y (hb_retry h') \<longrightarrow> in_queue y (hb_retry h) \<or>
       y \<in> set xs \<and> attempts h y + 1 \<le> op_MessageRetryMaxCount (wd_opts w)) \<and>
    (\<forall>y. y \<notin> set xs \<longrightarrow> due_at (hb_retry h') y = due_at (hb_retry h) y)"
  using assms
proof (induction xs arbitrary: h)
  case (Cons x xs)
  define h1 where "h1 = retryDeliveryMsg w now x h"
  note one = retryDeliveryMsg_ok [OF Cons.prems(1) _ _ h1_def]
  have x: "\<not> in_queue x (hb_retry h)" "inFlightMessages (hb_retry h) (inflight_key (hb_heap h x)) = None"
    using Cons.prems(2,3) by simp_all
  note one = one [OF x]
  have new: "x \<notin> set xs" "\<forall>y \<in> set xs. inflight_key (hb_heap h y) \<noteq> inflight_key (hb_heap h x)"
    using Cons.prems(4) by (auto simp: image_iff)
  have "\<forall>y \<in> set xs. \<not> in_queue y (hb_retry h1)" using one(4) Cons.prems(2) new(1) by auto
  moreover have "\<forall>y \<in> set xs. inFlightMessages (hb_retry h1) (inflight_key (hb_heap h1 y)) = None"
    using one(2,6) Cons.prems(3) new(2) by auto
  moreover have "distinct (map (\<lambda>x. inflight_key (hb_heap h1 x)) xs)" using one(2) Cons.prems(4) by simp
  moreover have "h' = fold (retryDeliveryMsg w now) xs h1" using Cons.prems(5) by (simp add: h1_def)
  ultimately have ih: "rq_full (hb_heap h') (hb_retry h') \<and> hb_fresh h' = hb_fresh h1 \<and>
    (\<forall>y. attempts h' y = (if y \<in> set xs then attempts h1 y + 1 else attempts h1 y)) \<and>
    (\<forall>y. in_queue y (hb_retry h') \<longrightarrow> in_queue y (hb_retry h1) \<or>
       y \<in> set xs \<and> attempts h1 y + 1 \<le> op_MessageRetryMaxCount (wd_opts w)) \<and>
    (\<forall>y. y \<notin> set xs \<longrightarrow> due_at (hb_retry h') y = due_at (hb_retry h1) y)"
    by (rule Cons.IH [OF one(1)])
  with one(3,4,5,7) new(1) attempts_bound [of w x h] show ?case by (auto split: if_splits)
qed simp

section \<open>Scans\<close>

definition hub_full :: "'c hub \<Rightarrow> bool" where
  "hub_full h \<longleftrightarrow> rq_full (hb_heap h) (hb_retry h)"

lemma scan_keys:
  assumes "rq_full heap r" and "processInFlightQueue heap t r = (xs, r')"
  shows "\<forall>x \<in> set xs. \<not> in_queue x r'" and "\<forall>x \<in> set xs. inFlightMessages r' (inflight_key (heap x)) = None"
    and "distinct (map (\<lambda>x. inflight_key (heap x)) xs)"
    and "\<forall>x. in_queue x r \<longleftrightarrow> x \<in> set xs \<or> in_queue x r'"
proof -
  from processInFlightQueue_full [OF assms(1), of t] assms(2) have
    full: "rq_full heap r'" and ms: "mset (pq_items (inFlightPQ r)) = mset xs + mset (pq_items (inFlightPQ r'))"
    by simp_all
  have "distinct (pq_items (inFlightPQ r))" using assms(1) by (simp add: rq_full_def rq_invar_def pq_invar_def indexed_def)
  then have d: "distinct (xs @ pq_items (inFlightPQ r'))"
    using mset_eq_imp_distinct_iff [of "pq_items (inFlightPQ r)" "xs @ pq_items (inFlightPQ r')"] ms by simp
  then show out: "\<forall>x \<in> set xs. \<not> in_queue x r'" by (auto simp: in_queue_def)
  have mem: "x \<in># mset (pq_items (inFlightPQ r)) \<longleftrightarrow> x \<in> set xs \<or> in_queue x r'" for x
    by (simp only: ms in_queue_def) simp
  then show "\<forall>x. in_queue x r \<longleftrightarrow> x \<in> set xs \<or> in_queue x r'" by (simp add: in_queue_def)
  have tab: "inFlightMessages r (inflight_key (heap x)) = Some x" if "x \<in> set xs \<or> in_queue x r'" for x
    using assms(1) that mem unfolding rq_full_def by blast
  show "distinct (map (\<lambda>x. inflight_key (heap x)) xs)"
    using d tab by (auto simp: distinct_map inj_on_def) (metis option.inject)
  show "\<forall>x \<in> set xs. inFlightMessages r' (inflight_key (heap x)) = None"
  proof (intro ballI, rule ccontr)
    fix x assume x: "x \<in> set xs" and "inFlightMessages r' (inflight_key (heap x)) \<noteq> None"
    then obtain z where "inFlightMessages r' (inflight_key (heap x)) = Some z" by blast
    with full have z: "in_queue z r'" "inflight_key (heap z) = inflight_key (heap x)"
      by (auto simp: rq_full_def rq_invar_def in_queue_def)
    with tab [of x] tab [of z] x have "z = x" by simp
    with z(1) x out show False by blast
  qed
qed

text \<open>
  After a scan what is queued was queued before; what was due has one attempt more, and not too many.
\<close>

lemma retry_scan_ok:
  assumes "hub_full h" and "h' = retry_scan w now t h"
  shows "hub_full h'"
    and "\<And>x. in_queue x (hb_retry h') \<Longrightarrow> in_queue x (hb_retry h) \<and>
      (if due_at (hb_retry h) x \<le> t
       then attempts h' x = attempts h x + 1 \<and> attempts h' x \<le> op_MessageRetryMaxCount (wd_opts w)
       else attempts h' x = attempts h x \<and> due_at (hb_retry h') x = due_at (hb_retry h) x)"
proof -
  obtain xs r where p: "processInFlightQueue (hb_heap h) t (hb_retry h) = (xs, r)" by fastforce
  have full: "rq_full (hb_heap h) (hb_retry h)" using assms(1) by (simp add: hub_full_def)
  note k = scan_keys [OF full p]
  have s: "rq_full (hb_heap h) r" "due_at r = due_at (hb_retry h)" "\<forall>x \<in> set xs. due_at (hb_retry h) x \<le> t"
    "\<forall>y. in_queue y r \<longrightarrow> t < due_at (hb_retry h) y"
    using processInFlightQueue_full [OF full, of t] p by simp_all
  let ?h = "h\<lparr>hb_retry := r\<rparr>"
  have at: "attempts ?h = attempts h" by (simp add: attempts_def fun_eq_iff)
  have "h' = fold (retryDeliveryMsg w now) xs ?h" using assms(2) p by (simp add: retry_scan_def)
  from retry_all [of ?h xs h' w now] k s(1) this at have
    r: "rq_full (hb_heap h') (hb_retry h')"
      "\<forall>y. attempts h' y = (if y \<in> set xs then attempts h y + 1 else attempts h y)"
      "\<forall>y. in_queue y (hb_retry h') \<longrightarrow> in_queue y r \<or> y \<in> set xs \<and> attempts h y + 1 \<le> op_MessageRetryMaxCount (wd_opts w)"
      "\<forall>y. y \<notin> set xs \<longrightarrow> due_at (hb_retry h') y = due_at r y"
    by simp_all
  show "hub_full h'" using r(1) by (simp add: hub_full_def)
  fix x assume q: "in_queue x (hb_retry h')"
  show "in_queue x (hb_retry h) \<and>
      (if due_at (hb_retry h) x \<le> t
       then attempts h' x = attempts h x + 1 \<and> attempts h' x \<le> op_MessageRetryMaxCount (wd_opts w)
       else attempts h' x = attempts h x \<and> due_at (hb_retry h') x = due_at (hb_retry h) x)"
  proof (cases "x \<in> set xs")
    case True
    then have "\<not> in_queue x r" using k(1) by blast
    with True q r(2,3) s(3) k(4) show ?thesis by auto
  next
    case False
    then have "in_queue x r" using q r(3) by blast
    with False r(2,4) s(2,4) k(4) show ?thesis by (auto simp: not_le)
  qed
qed

text \<open>Scans that come late enough to find everything due.\<close>

fun late_scans :: "'d world \<Rightarrow> (int \<times> (msgref \<Rightarrow> int)) list \<Rightarrow> 'c hub \<Rightarrow> bool" where
  "late_scans w [] h = True"
| "late_scans w ((t, now) # ts) h =
     ((\<forall>x \<in> set (pq_items (inFlightPQ (hb_retry h))). due_at (hb_retry h) x \<le> t) \<and> late_scans w ts (retry_scan w now t h))"

definition run_scans :: "'d world \<Rightarrow> (int \<times> (msgref \<Rightarrow> int)) list \<Rightarrow> 'c hub \<Rightarrow> 'c hub" where
  "run_scans w ts h = fold (\<lambda>(t, now). retry_scan w now t) ts h"

lemma late_scans_attempts:
  assumes "hub_full h" and "late_scans w ts h" and "in_queue x (hb_retry (run_scans w ts h))"
  shows "in_queue x (hb_retry h) \<and> attempts (run_scans w ts h) x = attempts h x + int (length ts) \<and>
    (ts \<noteq> [] \<longrightarrow> attempts (run_scans w ts h) x \<le> op_MessageRetryMaxCount (wd_opts w))"
  using assms
proof (induction ts arbitrary: h)
  case (Cons s ts)
  obtain t now where s: "s = (t, now)" by fastforce
  let ?h = "retry_scan w now t h"
  have r: "run_scans w (s # ts) h = run_scans w ts ?h" by (simp add: run_scans_def s)
  note one = retry_scan_ok [OF Cons.prems(1) refl, where w = w and now = now and t = t]
  from Cons.prems(2,3) have l: "late_scans w ts ?h" and q: "in_queue x (hb_retry (run_scans w ts ?h))"
    and due: "\<forall>x. in_queue x (hb_retry h) \<longrightarrow> due_at (hb_retry h) x \<le> t"
    by (simp_all only: r) (simp_all add: s in_queue_def)
  from Cons.IH [OF one(1) l q] one(2) [of x] due show ?case
    unfolding r by (cases "ts = []") (auto simp: run_scans_def)
qed (simp add: run_scans_def)

text \<open>Nobody is sent a message for ever: more scans than attempts are allowed leave the queue empty.\<close>

lemma retries_end:
  assumes "hub_full h" and "late_scans w ts h" and "\<forall>x. in_queue x (hb_retry h) \<longrightarrow> 0 \<le> attempts h x"
    and "op_MessageRetryMaxCount (wd_opts w) < int (length ts)" and "ts \<noteq> []"
  shows "pq_items (inFlightPQ (hb_retry (run_scans w ts h))) = []"
proof (rule ccontr)
  assume "pq_items (inFlightPQ (hb_retry (run_scans w ts h))) \<noteq> []"
  then have "in_queue (hd (pq_items (inFlightPQ (hb_retry (run_scans w ts h))))) (hb_retry (run_scans w ts h))"
    by (simp add: in_queue_def)
  then obtain x where x: "in_queue x (hb_retry (run_scans w ts h))" by blast
  from late_scans_attempts [OF assms(1,2) x] assms(3-5) show False by force
qed

end
