(* ===== verification/Auth.thy ===== *)
theory Auth
  imports Delivery Unpack
begin

text \<open>
  Connecting and leaving: \<open>processAuth\<close> and \<open>processClose\<close> of \<^verbatim>\<open>internal/server/processor.go\<close>,
  the closing of a connection, and the blacklist of addresses of \<^verbatim>\<open>server.go\<close>. The server's whole
  state is put together here: what a node stores and answers, and the hub of its connections. Random
  numbers, the time and the Diffie-Hellman function of a login are arguments.
\<close>

section \<open>The server\<close>

record 'd server =
  sv_node :: "'d node"
  sv_hub :: "connContext hub"
  sv_slowClients :: int
  sv_timers :: "(int \<times> nat) list"
  sv_onlineStatus :: "gostring list"
  sv_ipBlacklist :: "gostring \<rightharpoonup> u64"

record login =
  lg_private :: bytes
  lg_public :: bytes
  lg_iv :: gostring
  lg_dh :: "bytes \<Rightarrow> bytes \<Rightarrow> bytes"
  lg_now :: i64
  lg_connIdleTime :: int

abbreviation sv_conn :: "'d server \<Rightarrow> nat \<Rightarrow> connContext net_conn" where
  "sv_conn sv a \<equiv> conn_at (hb_engine (sv_hub sv)) a"

definition map_hub :: "(connContext hub \<Rightarrow> connContext hub) \<Rightarrow> 'd server \<Rightarrow> 'd server" where
  "map_hub f sv = sv\<lparr>sv_hub := f (sv_hub sv)\<rparr>"

definition map_conn :: "nat \<Rightarrow> (connContext net_conn \<Rightarrow> connContext net_conn) \<Rightarrow> 'd server \<Rightarrow> 'd server" where
  "map_conn a f = map_hub (\<lambda>h. h\<lparr>hb_engine := update_conn a f (hb_engine h)\<rparr>)"

definition sv_response :: "nat \<Rightarrow> frame list \<Rightarrow> 'd server \<Rightarrow> 'd server" where
  "sv_response a frames sv = sv\<lparr>sv_node := response a frames (sv_node sv)\<rparr>"

definition sv_RemoveConnWithID :: "int \<Rightarrow> 'd server \<Rightarrow> 'd server outcome" where
  "sv_RemoveConnWithID cid sv =
     mapR (\<lambda>cm. map_hub (\<lambda>h. h\<lparr>hb_conns := cm\<rparr>) sv)
       (RemoveConnWithID cid (hb_engine (sv_hub sv)) (hb_conns (sv_hub sv)))"

section \<open>Online status\<close>

definition online_status :: "gostring \<Rightarrow> u8 \<Rightarrow> nat \<Rightarrow> int \<Rightarrow> nat \<times> nat \<Rightarrow> gostring" where
  "online_status uid deviceFlag online cid counts =
     uid @ str ''-'' @ dec (unat deviceFlag) @ str ''-'' @ dec online @ str ''-'' @ dec_int cid @
     str ''-'' @ dec (fst counts) @ str ''-'' @ dec (snd counts)"

definition Online :: "gostring \<Rightarrow> u8 \<Rightarrow> int \<Rightarrow> nat \<times> nat \<Rightarrow> 'd server \<Rightarrow> 'd server" where
  "Online uid deviceFlag cid counts sv =
     sv\<lparr>sv_onlineStatus := sv_onlineStatus sv @ [online_status uid deviceFlag 1 cid counts]\<rparr>"

definition Offline :: "gostring \<Rightarrow> u8 \<Rightarrow> int \<Rightarrow> nat \<times> nat \<Rightarrow> 'd server \<Rightarrow> 'd server" where
  "Offline uid deviceFlag cid counts sv =
     sv\<lparr>sv_onlineStatus := sv_onlineStatus sv @ [online_status uid deviceFlag 0 cid counts]\<rparr>"

definition sv_counts :: "gostring \<Rightarrow> u8 \<Rightarrow> 'd server \<Rightarrow> nat \<times> nat" where
  "sv_counts uid deviceFlag sv = GetConnCountWith uid deviceFlag (hb_engine (sv_hub sv)) (hb_conns (sv_hub sv))"

section \<open>Leaving\<close>

definition processClose :: "nat \<Rightarrow> 'd server \<Rightarrow> 'd server outcome" where
  "processClose a sv =
     (case cn_context (sv_conn sv a) of
        None \<Rightarrow> Ret sv
      | Some ctx \<Rightarrow>
          bindR (sv_RemoveConnWithID (cn_id (sv_conn sv a)) sv) (\<lambda>sv.
            let sv = map_conn a (\<lambda>c. c\<lparr>cn_context := Some (release ctx)\<rparr>) sv; c = sv_conn sv a in
            Ret (Offline (cn_uid c) (cn_deviceFlag c) (cn_id c) (sv_counts (cn_uid c) (cn_deviceFlag c) sv) sv)))"

definition onClose :: "nat \<Rightarrow> 'd server \<Rightarrow> 'd server outcome" where
  "onClose a sv = bindR (sv_RemoveConnWithID (cn_id (sv_conn sv a)) sv) (processClose a)"

text \<open>\<open>Close\<close> of a connection: it leaves the engine, then the handler runs, then the object is released.\<close>

definition conn_close :: "nat \<Rightarrow> 'd server \<Rightarrow> 'd server outcome" where
  "conn_close a sv =
     (let (isOpen, eng) = close_begin a (hb_engine (sv_hub sv)) in
      if \<not> isOpen then Ret sv
      else mapR (map_hub (\<lambda>h. h\<lparr>hb_engine := close_release a (hb_engine h)\<rparr>))
        (onClose a (map_hub (\<lambda>h. h\<lparr>hb_engine := eng\<rparr>) sv)))"

section \<open>Addresses\<close>

definition AllowIP :: "gostring \<Rightarrow> 'd server \<Rightarrow> bool \<times> 'd server" where
  "AllowIP ip sv =
     (case sv_ipBlacklist sv ip of
        Some blockCount \<Rightarrow> (False, sv\<lparr>sv_ipBlacklist := (sv_ipBlacklist sv)(ip \<mapsto> blockCount + 1)\<rparr>)
      | None \<Rightarrow> (True, sv))"

definition sv_AddIPBlacklist :: "gostring list \<Rightarrow> 'd server \<Rightarrow> 'd server" where
  "sv_AddIPBlacklist ips sv = sv\<lparr>sv_ipBlacklist := fold (\<lambda>ip m. m(ip \<mapsto> 0)) ips (sv_ipBlacklist sv)\<rparr>"

definition initIPBlacklist :: "'d world \<Rightarrow> 'd server \<Rightarrow> 'd server" where
  "initIPBlacklist w sv = sv_AddIPBlacklist (GetIPBlacklist (wd_bolt w) (nd_fs (sv_node sv))) sv"

definition sv_RemoveIPBlacklist :: "gostring list \<Rightarrow> 'd server \<Rightarrow> 'd server" where
  "sv_RemoveIPBlacklist ips sv = sv\<lparr>sv_ipBlacklist := fold (\<lambda>ip m. m(ip := None)) ips (sv_ipBlacklist sv)\<rparr>"

section \<open>Connecting\<close>

text \<open>The client's key: 32 bytes are taken from the buffer that held the decoded text, which is a little
  longer than the text when it was padded; a shorter one panics.\<close>

definition getClientAesKeyAndIV :: "'d world \<Rightarrow> login \<Rightarrow> gostring \<Rightarrow> (gostring \<times> gostring) outcome" where
  "getClientAesKeyAndIV w lg clientKey =
     bindR (b64_decode clientKey) (\<lambda>clientKeyBytes.
       if length clientKey div 4 * 3 < 32 then Panic
       else let shareKey = lg_dh lg (lg_private lg) (take 32 (clientKeyBytes @ replicate 32 0)) in
         Ret (take 16 (MD5 (wd_md5 w) (b64_encode shareKey)), lg_iv lg))"

definition responseConnack :: "nat \<Rightarrow> i64 \<Rightarrow> reasonCode \<Rightarrow> 'd server \<Rightarrow> 'd server" where
  "responseConnack a timeDiff code = sv_response a [FConnack \<lparr>cak_Framer = empty_framer, cak_ServerVersion = 0,
     cak_ServerKey = [], cak_Salt = [], cak_TimeDiff = timeDiff, cak_ReasonCode = code\<rparr>]"

definition responseConnackAuthFail :: "nat \<Rightarrow> 'd server \<Rightarrow> 'd server" where
  "responseConnackAuthFail a = responseConnack a 0 ReasonAuthFail"

text \<open>The token: the level of the device, and the level that is stored on the connection.\<close>

definition verify_token :: "'d world \<Rightarrow> ConnectPacket \<Rightarrow> 'd filestore \<Rightarrow> (deviceLevel \<times> u8) outcome" where
  "verify_token w cp fs =
     (let opts = wd_opts w in
      if con_UID cp = op_ManagerUID opts then
        if op_ManagerTokenOn opts \<and> con_Token cp \<noteq> op_ManagerToken opts then Fail (ErrMsg ''manager token verify fail'')
        else Ret (DeviceLevelSlave, 0)
      else if op_TokenAuthOn opts then
        if con_Token cp = [] then Fail (ErrMsg ''token is empty'')
        else bindR (GetUserToken (wd_bolt w) (wd_json w) (con_UID cp) (DeviceFlag_ToUint8 (con_DeviceFlag cp)) fs) (\<lambda>(token, level).
          if token \<noteq> con_Token cp then Fail (ErrMsg ''token verify fail'') else Ret (level, level))
      else Ret (DeviceLevelSlave, 0))"

definition afterFunc_close :: "int \<Rightarrow> nat \<Rightarrow> 'd server \<Rightarrow> 'd server" where
  "afterFunc_close seconds a sv = sv\<lparr>sv_timers := sv_timers sv @ [(seconds, a)]\<rparr>"

text \<open>A master device kicks the user's other devices of its kind, a slave only an older connection of its own.
  The functions given to the timers close over the loop's variable, which is one variable for all rounds
  (\<^verbatim>\<open>go.mod\<close> asks for Go 1.20): when they run, seconds after the loop, it holds \<open>shared\<close>, the
  last connection of the list.\<close>

fun kick :: "nat \<Rightarrow> deviceLevel \<Rightarrow> gostring \<Rightarrow> nat list \<Rightarrow> 'd server \<Rightarrow> 'd server outcome" where
  "kick shared level deviceID [] sv = Ret sv"
| "kick shared level deviceID (old # olds) sv =
     (let oldConn = sv_conn sv old in
      if level = DeviceLevelMaster then
        bindR (sv_RemoveConnWithID (cn_id oldConn) sv) (\<lambda>sv.
          kick shared level deviceID olds
            (if cn_deviceID oldConn \<noteq> deviceID
             then afterFunc_close 5 shared (sv_response old [FDisconnect \<lparr>dis_Framer = empty_framer,
                    dis_ReasonCode = ReasonConnectKick, dis_Reason = str ''login in other device''\<rparr>] sv)
             else afterFunc_close 4 shared sv))
      else if level = DeviceLevelSlave \<and> cn_deviceID oldConn = deviceID then
        bindR (sv_RemoveConnWithID (cn_id oldConn) sv) (\<lambda>sv.
          kick shared level deviceID olds (afterFunc_close 5 shared sv))
      else kick shared level deviceID olds sv)"

definition set_conn_info :: "login \<Rightarrow> ConnectPacket \<Rightarrow> u8 \<Rightarrow> gostring \<Rightarrow> gostring \<Rightarrow> nat \<Rightarrow> 'd server \<Rightarrow> 'd server" where
  "set_conn_info lg cp devceLevelI aesKey aesIV a = map_conn a (\<lambda>c. c
     \<lparr>cn_context := Some (newConnContext\<lparr>cc_conn := Some a\<rparr>), cn_protoVersion := int (unat (con_Version cp)),
      cn_authed := True, cn_deviceFlag := DeviceFlag_ToUint8 (con_DeviceFlag cp), cn_deviceID := con_DeviceID cp,
      cn_uid := con_UID cp, cn_values := (cn_values c)(str ''aesKey'' \<mapsto> aesKey, str ''aesIV'' \<mapsto> aesIV),
      cn_deviceLevel := devceLevelI, cn_maxIdle := lg_connIdleTime lg\<rparr>)"

definition sv_AddConn :: "nat \<Rightarrow> 'd server \<Rightarrow> 'd server" where
  "sv_AddConn a = map_hub (\<lambda>h. h\<lparr>hb_conns := AddConn a (hb_engine h) (hb_conns h)\<rparr>)"

definition connack_of :: "login \<Rightarrow> ConnectPacket \<Rightarrow> gostring \<Rightarrow> ConnackPacket" where
  "connack_of lg cp aesIV =
     \<lparr>cak_Framer = empty_framer\<lparr>HasServerVersion := con_Version cp > 3\<rparr>,
      cak_ServerVersion = (if con_Version cp > LatestVersion then LatestVersion else con_Version cp),
      cak_ServerKey = b64_encode (lg_public lg), cak_Salt = aesIV,
      cak_TimeDiff = lg_now lg - con_ClientTimestamp cp, cak_ReasonCode = ReasonSuccess\<rparr>"

definition admit :: "login \<Rightarrow> ConnectPacket \<Rightarrow> deviceLevel \<times> u8 \<Rightarrow> gostring \<times> gostring \<Rightarrow> nat \<Rightarrow> 'd server \<Rightarrow> 'd server outcome" where
  "admit lg cp levels keys a sv =
     (let olds = GetConnsWith (con_UID cp) (con_DeviceFlag cp) (hb_engine (sv_hub sv)) (hb_conns (sv_hub sv)) in
      bindR (kick (last olds) (fst levels) (con_DeviceID cp) olds sv) (\<lambda>sv.
        let sv = sv_AddConn a (set_conn_info lg cp (snd levels) (fst keys) (snd keys) a sv);
            sv = sv_response a [FConnack (connack_of lg cp (snd keys))] sv in
        Ret (Online (con_UID cp) (con_DeviceFlag cp) (cn_id (sv_conn sv a)) (sv_counts (con_UID cp) (con_DeviceFlag cp) sv) sv)))"

definition processAuth :: "'d world \<Rightarrow> login \<Rightarrow> nat \<Rightarrow> ConnectPacket \<Rightarrow> 'd server \<Rightarrow> 'd server outcome" where
  "processAuth w lg a cp sv =
     (let fs = nd_fs (sv_node sv); fail = responseConnackAuthFail a sv in
      if blank (con_ClientKey cp) then Ret fail
      else case verify_token w cp fs of
        Fail _ \<Rightarrow> Ret fail
      | Panic \<Rightarrow> Panic
      | Ret levels \<Rightarrow>
         (case fs_GetChannel (wd_bolt w) (wd_json w) (con_UID cp) ChannelTypePerson fs of
            Fail _ \<Rightarrow> Ret fail
          | Panic \<Rightarrow> Panic
          | Ret info \<Rightarrow>
              if (case info of None \<Rightarrow> False | Some i \<Rightarrow> ci_Ban i) then Ret (responseConnack a 0 ReasonBan sv)
              else (case getClientAesKeyAndIV w lg (con_ClientKey cp) of
                  Fail _ \<Rightarrow> Ret fail
                | Panic \<Rightarrow> Panic
                | Ret keys \<Rightarrow> admit lg cp levels keys a sv)))"

section \<open>Properties of a login\<close>

abbreviation sv_manager_ok :: "'d server \<Rightarrow> bool" where
  "sv_manager_ok sv \<equiv> manager_ok (hb_engine (sv_hub sv)) (hb_conns (sv_hub sv))"

abbreviation sv_conns :: "gostring \<Rightarrow> 'd server \<Rightarrow> nat set" where
  "sv_conns uid sv \<equiv> set (GetConnsWithUID uid (hb_engine (sv_hub sv)) (hb_conns (sv_hub sv)))"

lemma sv_simps [simp]:
  "sv_hub (sv_response a fs sv) = sv_hub sv" "sv_hub (afterFunc_close s a sv) = sv_hub sv"
  "sv_hub (map_hub f sv) = f (sv_hub sv)" "sv_node (map_hub f sv) = sv_node sv" "sv_node (afterFunc_close s a sv) = sv_node sv"
  "sv_hub (Online u fl i n sv) = sv_hub sv" "sv_hub (Offline u fl i n sv) = sv_hub sv"
  "sv_ipBlacklist (map_hub f sv) = sv_ipBlacklist sv"
  by (simp_all add: sv_response_def afterFunc_close_def map_hub_def Online_def Offline_def)

lemma hub_record [simp]: "hb_engine (h\<lparr>hb_conns := cm\<rparr>) = hb_engine h"
  by simp

text \<open>Removing one of a user's connections.\<close>

lemma sv_Remove_ok:
  assumes "sv_manager_ok sv" and "old \<in> sv_conns uid sv"
  obtains sv' where "sv_RemoveConnWithID (cn_id (sv_conn sv old)) sv = Ret sv'" and "sv_manager_ok sv'"
    and "hb_engine (sv_hub sv') = hb_engine (sv_hub sv)" and "sv_conns uid sv' = sv_conns uid sv - {old}"
    and "cm_connMap (hb_conns (sv_hub sv')) = (cm_connMap (hb_conns (sv_hub sv)))(cn_id (sv_conn sv old) := None)"
    and "sv_node sv' = sv_node sv"
proof -
  let ?eng = "hb_engine (sv_hub sv)" and ?cm = "hb_conns (sv_hub sv)"
  from assms(2) GetConnsWithUID_registered(1) [OF assms(1)] obtain cid where "registered ?eng ?cm uid cid old" by blast
  then have r: "registered ?eng ?cm uid (cn_id (conn_at ?eng old)) old" by (auto simp: registered_def)
  from RemoveConnWithID_total [OF assms(1) r] obtain cm' where cm': "RemoveConnWithID (cn_id (conn_at ?eng old)) ?eng ?cm = Ret cm'"
    by blast
  show thesis
  proof (rule that)
    show "sv_RemoveConnWithID (cn_id (sv_conn sv old)) sv = Ret (map_hub (\<lambda>h. h\<lparr>hb_conns := cm'\<rparr>) sv)"
      by (simp add: sv_RemoveConnWithID_def cm' mapR_def)
  qed (use RemoveConnWithID_ok [OF assms(1) r cm'] GetConnsWithUID_removed [OF assms(1) r cm'] in auto)
qed

definition kicked :: "deviceLevel \<Rightarrow> gostring \<Rightarrow> connContext net_conn \<Rightarrow> bool" where
  "kicked level deviceID c \<longleftrightarrow> level = DeviceLevelMaster \<or> level = DeviceLevelSlave \<and> cn_deviceID c = deviceID"

lemma kick_ok:
  assumes "sv_manager_ok sv" and "distinct olds" and "set olds \<subseteq> sv_conns uid sv"
  shows "\<exists>sv'. kick shared level deviceID olds sv = Ret sv' \<and> sv_manager_ok sv' \<and> hb_engine (sv_hub sv') = hb_engine (sv_hub sv) \<and>
    sv_conns uid sv' = sv_conns uid sv - {b \<in> set olds. kicked level deviceID (sv_conn sv b)} \<and>
    (\<forall>k. cm_connMap (hb_conns (sv_hub sv)) k = None \<longrightarrow> cm_connMap (hb_conns (sv_hub sv')) k = None)"
  using assms
proof (induction olds arbitrary: sv)
  case (Cons old olds)
  then have old: "old \<in> sv_conns uid sv" and new: "old \<notin> set olds" "distinct olds" "set olds \<subseteq> sv_conns uid sv" by auto
  show ?case
  proof (cases "kicked level deviceID (sv_conn sv old)")
    case False
    then have k: "kick shared level deviceID (old # olds) sv = kick shared level deviceID olds sv"
      by (auto simp: kicked_def Let_def)
    have s: "{b \<in> set (old # olds). kicked level deviceID (sv_conn sv b)} = {b \<in> set olds. kicked level deviceID (sv_conn sv b)}"
      using False by auto
    show ?thesis unfolding k s by (rule Cons.IH [OF Cons.prems(1) new(2,3)])
  next
    case True
    obtain sv1 where r: "sv_RemoveConnWithID (cn_id (sv_conn sv old)) sv = Ret sv1" "sv_manager_ok sv1"
      "hb_engine (sv_hub sv1) = hb_engine (sv_hub sv)" "sv_conns uid sv1 = sv_conns uid sv - {old}"
      "cm_connMap (hb_conns (sv_hub sv1)) = (cm_connMap (hb_conns (sv_hub sv)))(cn_id (sv_conn sv old) := None)"
      by (rule sv_Remove_ok [OF Cons.prems(1) old])
    from True r(1) obtain sv2 where k: "kick shared level deviceID (old # olds) sv = kick shared level deviceID olds sv2"
      and h: "sv_hub sv2 = sv_hub sv1"
      by (auto simp: kicked_def Let_def)
    have "set olds \<subseteq> sv_conns uid sv2" using new r(4) h by auto
    from Cons.IH [OF _ new(2) this] r h obtain sv3 where sv3: "kick shared level deviceID olds sv2 = Ret sv3" "sv_manager_ok sv3"
      "hb_engine (sv_hub sv3) = hb_engine (sv_hub sv)"
      "sv_conns uid sv3 = sv_conns uid sv - {old} - {b \<in> set olds. kicked level deviceID (sv_conn sv b)}"
      "\<forall>k. cm_connMap (hb_conns (sv_hub sv1)) k = None \<longrightarrow> cm_connMap (hb_conns (sv_hub sv3)) k = None"
      by auto
    have "sv_conns uid sv3 = sv_conns uid sv - {b \<in> set (old # olds). kicked level deviceID (sv_conn sv b)}"
      unfolding sv3(4) using True by auto
    with sv3 k r(5) show ?thesis by simp
  qed
qed simp

lemma conn_at_update: "conn_at (update_conn a f eng) b = (if b = a then f (conn_at eng a) else conn_at eng b)"
  by (simp add: conn_at_def update_conn_def)

lemma GetConns_update: "GetConnsWithUID uid (update_conn a f eng) cm = GetConnsWithUID uid eng cm"
  by (simp add: GetConnsWithUID_def GetConn_def [abs_def] engine_GetConn_def update_conn_def)

text \<open>Changing a connection that is not registered leaves the index consistent.\<close>

lemma manager_ok_update:
  assumes "manager_ok eng cm" and "cm_connMap cm (cn_id (conn_at eng a)) = None"
  shows "manager_ok (update_conn a f eng) cm"
proof -
  have "registered (update_conn a f eng) cm uid cid b" if "registered eng cm uid cid b" for uid cid b
  proof -
    have "b \<noteq> a" using that assms(2) by (auto simp: registered_def)
    with that show ?thesis by (auto simp: registered_def conn_at_update) (simp_all add: update_conn_def)
  qed
  with assms(1) show ?thesis unfolding manager_ok_def by blast
qed

lemma admit_ok:
  assumes "sv_manager_ok sv" and "eg_conns (hb_engine (sv_hub sv)) (cn_fd (sv_conn sv a)) = Some a"
    and "cm_connMap (hb_conns (sv_hub sv)) (cn_id (sv_conn sv a)) = None"
  obtains sv' where "admit lg cp levels keys a sv = Ret sv'" and "sv_manager_ok sv'"
    and "sv_conns (con_UID cp) sv' = insert a (sv_conns (con_UID cp) sv -
      {b. cn_deviceFlag (sv_conn sv b) = con_DeviceFlag cp \<and> kicked (fst levels) (con_DeviceID cp) (sv_conn sv b)})"
    and "hb_engine (sv_hub sv') = hb_engine (sv_hub (set_conn_info lg cp (snd levels) (fst keys) (snd keys) a sv))"
proof -
  let ?uid = "con_UID cp" and ?eng = "hb_engine (sv_hub sv)" and ?cm = "hb_conns (sv_hub sv)"
  let ?olds = "GetConnsWith ?uid (con_DeviceFlag cp) ?eng ?cm"
  have "distinct ?olds" "set ?olds \<subseteq> sv_conns ?uid sv"
    using GetConnsWithUID_registered(3) [OF assms(1)] by (auto simp: GetConnsWith_def)
  from kick_ok [OF assms(1) this, of "last ?olds" "fst levels" "con_DeviceID cp"] obtain sv1 where
    k: "kick (last ?olds) (fst levels) (con_DeviceID cp) ?olds sv = Ret sv1" "sv_manager_ok sv1" "hb_engine (sv_hub sv1) = ?eng"
      "sv_conns ?uid sv1 = sv_conns ?uid sv - {b \<in> set ?olds. kicked (fst levels) (con_DeviceID cp) (sv_conn sv b)}"
    and none: "cm_connMap (hb_conns (sv_hub sv1)) (cn_id (sv_conn sv a)) = None"
    using assms(3) by blast
  define sv2 where "sv2 = set_conn_info lg cp (snd levels) (fst keys) (snd keys) a sv1"
  have eng2: "\<exists>f. hb_engine (sv_hub sv2) = update_conn a f ?eng \<and> (\<forall>c. cn_id (f c) = cn_id c \<and> cn_fd (f c) = cn_fd c \<and> cn_uid (f c) = ?uid) \<and>
      hb_engine (sv_hub (set_conn_info lg cp (snd levels) (fst keys) (snd keys) a sv)) = update_conn a f ?eng"
    by (intro exI conjI) (simp_all add: sv2_def set_conn_info_def map_conn_def k(3))
  then obtain f where f: "hb_engine (sv_hub sv2) = update_conn a f ?eng"
    "\<And>c. cn_id (f c) = cn_id c" "\<And>c. cn_fd (f c) = cn_fd c" "\<And>c. cn_uid (f c) = ?uid"
    "hb_engine (sv_hub (set_conn_info lg cp (snd levels) (fst keys) (snd keys) a sv)) = update_conn a f ?eng" by blast
  have cm2: "hb_conns (sv_hub sv2) = hb_conns (sv_hub sv1)" by (simp add: sv2_def set_conn_info_def map_conn_def)
  have m2: "manager_ok (update_conn a f ?eng) (hb_conns (sv_hub sv1))"
    by (rule manager_ok_update) (use k(2,3) none in simp_all)
  have e2: "eg_conns (update_conn a f ?eng) (cn_fd (conn_at (update_conn a f ?eng) a)) = Some a"
    using assms(2) by (simp add: conn_at_update f(3)) (simp add: update_conn_def)
  have n2: "cm_connMap (hb_conns (sv_hub sv1)) (cn_id (conn_at (update_conn a f ?eng) a)) = None"
    using none by (simp add: conn_at_update f(2))
  note add = AddConn_ok(1) [OF m2 e2 n2] AddConn_conns [OF m2 e2 n2, unfolded conn_at_update [of a f ?eng a, simplified] f(4) GetConns_update]
  define sv3 where "sv3 = sv_response a [FConnack (connack_of lg cp (snd keys))] (sv_AddConn a sv2)"
  have hub3: "sv_hub sv3 = (sv_hub sv2)\<lparr>hb_conns := AddConn a (hb_engine (sv_hub sv2)) (hb_conns (sv_hub sv2))\<rparr>"
    by (simp add: sv3_def sv_AddConn_def)
  define sv4 where "sv4 = Online ?uid (con_DeviceFlag cp) (cn_id (sv_conn sv3 a)) (sv_counts ?uid (con_DeviceFlag cp) sv3) sv3"
  have hub4: "sv_hub sv4 = sv_hub sv3" by (simp add: sv4_def)
  show thesis
  proof (rule that)
    show "admit lg cp levels keys a sv = Ret sv4"
      by (simp add: admit_def k(1) sv4_def sv3_def sv2_def Let_def)
    show "sv_manager_ok sv4" using add(1) by (simp add: hub4 hub3 f(1) cm2)
    show "hb_engine (sv_hub sv4) = hb_engine (sv_hub (set_conn_info lg cp (snd levels) (fst keys) (snd keys) a sv))"
      by (simp add: hub4 hub3 f(1,5))
    have "sv_conns ?uid sv4 = insert a (sv_conns ?uid sv1)"
      using add(2) k(3) by (simp add: hub4 hub3 f(1) cm2 GetConns_update)
    then show "sv_conns ?uid sv4 = insert a (sv_conns ?uid sv -
        {b. cn_deviceFlag (sv_conn sv b) = con_DeviceFlag cp \<and> kicked (fst levels) (con_DeviceID cp) (sv_conn sv b)})"
      unfolding k(4) by (auto simp: GetConnsWith_def)
  qed
qed

text \<open>
  What a login amounts to: it is refused, and nothing but an answer comes of it; or token, ban and key
  were in order, and then the connection is authenticated, can encrypt, and is one of the user's.
\<close>

definition md5_ok :: "'d world \<Rightarrow> bool" where
  "md5_ok w \<longleftrightarrow> (\<forall>s. length (wd_md5 w s) = 16)"

lemma getClientAesKeyAndIV_keys:
  assumes "md5_ok w" and "getClientAesKeyAndIV w lg ck = Ret (key, iv)"
  shows "key_size_ok key" and "iv = lg_iv lg"
proof -
  from assms(2) obtain share where k: "key = take 16 (MD5 (wd_md5 w) share)" "iv = lg_iv lg"
    by (auto simp: getClientAesKeyAndIV_def bindR_eq_Ret Let_def split: if_splits)
  then show "key_size_ok key" "iv = lg_iv lg"
    using assms(1) by (simp_all add: key_size_ok_def MD5_def length_hex md5_ok_def)
qed

lemma processAuth_cases:
  assumes "processAuth w lg a cp sv = Ret sv'"
  obtains (refused) reason where "sv' = responseConnack a 0 reason sv" "reason \<in> {ReasonAuthFail, ReasonBan}"
    | (admitted) levels info keys where "verify_token w cp (nd_fs (sv_node sv)) = Ret levels"
        "fs_GetChannel (wd_bolt w) (wd_json w) (con_UID cp) ChannelTypePerson (nd_fs (sv_node sv)) = Ret info"
        "\<And>i. info = Some i \<Longrightarrow> \<not> ci_Ban i" "getClientAesKeyAndIV w lg (con_ClientKey cp) = Ret keys"
        "admit lg cp levels keys a sv = Ret sv'"
proof -
  let ?fs = "nd_fs (sv_node sv)"
  have fail: thesis if "sv' = responseConnackAuthFail a sv"
    using refused that by (simp add: responseConnackAuthFail_def)
  show thesis
  proof (cases "blank (con_ClientKey cp)")
    case True
    with assms fail show thesis by (simp add: processAuth_def)
  next
    case key: False
    show thesis
    proof (cases "verify_token w cp ?fs")
      case tok: (Ret levels)
      show thesis
      proof (cases "fs_GetChannel (wd_bolt w) (wd_json w) (con_UID cp) ChannelTypePerson ?fs")
        case info: (Ret info)
        show thesis
        proof (cases "case info of None \<Rightarrow> False | Some i \<Rightarrow> ci_Ban i")
          case True
          with assms key tok info have "sv' = responseConnack a 0 ReasonBan sv" by (simp add: processAuth_def)
          then show thesis by (rule refused) simp
        next
          case False
          show thesis
          proof (cases "getClientAesKeyAndIV w lg (con_ClientKey cp)")
            case (Ret keys)
            with assms key tok info False have "admit lg cp levels keys a sv = Ret sv'" by (simp add: processAuth_def)
            show thesis by (rule admitted [OF tok info _ Ret \<open>admit lg cp levels keys a sv = Ret sv'\<close>]) (use False in simp)
          qed (use assms key tok info False fail in \<open>simp_all add: processAuth_def\<close>)
        qed
      qed (use assms key tok fail in \<open>simp_all add: processAuth_def\<close>)
    qed (use assms key fail in \<open>simp_all add: processAuth_def\<close>)
  qed
qed

lemma processAuth_ok:
  assumes "sv_manager_ok sv" and "eg_conns (hb_engine (sv_hub sv)) (cn_fd (sv_conn sv a)) = Some a"
    and "cm_connMap (hb_conns (sv_hub sv)) (cn_id (sv_conn sv a)) = None"
    and "md5_ok w" and "cipher_ok (wd_cipher w)" and "length (lg_iv lg) = 16"
    and "processAuth w lg a cp sv = Ret sv'"
  shows "sv_manager_ok sv' \<and>
    (sv_hub sv' = sv_hub sv \<and> sv_timers sv' = sv_timers sv \<or>
     (\<exists>levels. verify_token w cp (nd_fs (sv_node sv)) = Ret levels \<and>
        cn_authed (sv_conn sv' a) \<and> cn_uid (sv_conn sv' a) = con_UID cp \<and> keyed w (sv_conn sv' a) \<and>
        sv_conns (con_UID cp) sv' = insert a (sv_conns (con_UID cp) sv -
          {b. cn_deviceFlag (sv_conn sv b) = con_DeviceFlag cp \<and> kicked (fst levels) (con_DeviceID cp) (sv_conn sv b)})))"
  using assms(7)
proof (cases rule: processAuth_cases)
  case (refused reason)
  then show ?thesis using assms(1) by (simp add: responseConnack_def) (simp add: sv_response_def)
next
  case (admitted levels info keys)
  obtain sv1 where ad: "admit lg cp levels keys a sv = Ret sv1" "sv_manager_ok sv1"
    "sv_conns (con_UID cp) sv1 = insert a (sv_conns (con_UID cp) sv -
      {b. cn_deviceFlag (sv_conn sv b) = con_DeviceFlag cp \<and> kicked (fst levels) (con_DeviceID cp) (sv_conn sv b)})"
    "hb_engine (sv_hub sv1) = hb_engine (sv_hub (set_conn_info lg cp (snd levels) (fst keys) (snd keys) a sv))"
    by (rule admit_ok [OF assms(1-3)])
  with admitted(5) have sv1: "sv1 = sv'" by simp
  note ad = ad(2-4) [unfolded sv1]
  obtain key iv where k: "keys = (key, iv)" by fastforce
  note kk = getClientAesKeyAndIV_keys [OF assms(4) admitted(4) [unfolded k]]
  have "cn_authed (sv_conn sv' a)" "cn_uid (sv_conn sv' a) = con_UID cp" "conn_keys (sv_conn sv' a) = Ret keys"
    unfolding ad(3) by (simp_all add: set_conn_info_def map_conn_def conn_at_update conn_keys_def str_def)
  moreover from this(3) have "keyed w (sv_conn sv' a)" using kk assms(5,6) by (simp add: keyed_def k)
  ultimately show ?thesis using admitted(1) ad(1,2) by blast
qed

text \<open>Which connections the timers of a login close: the last one of the list, once for every kicked one.\<close>

lemma kick_timers:
  assumes "kick shared level deviceID olds sv = Ret sv'"
  shows "\<exists>ts. sv_timers sv' = sv_timers sv @ ts \<and> map snd ts = map (\<lambda>_. shared) (filter (\<lambda>b. kicked level deviceID (sv_conn sv b)) olds)"
  using assms
proof (induction olds arbitrary: sv)
  case (Cons old olds)
  show ?case
  proof (cases "kicked level deviceID (sv_conn sv old)")
    case False
    with Cons show ?thesis by (auto simp: kicked_def Let_def)
  next
    case True
    obtain sv1 where r: "sv_RemoveConnWithID (cn_id (sv_conn sv old)) sv = Ret sv1"
      using True Cons.prems by (auto simp: kicked_def Let_def bindR_eq_Ret split: if_splits)
    then have same: "sv_timers sv1 = sv_timers sv" "\<And>b. sv_conn sv1 b = sv_conn sv b"
      by (auto simp: sv_RemoveConnWithID_def mapR_def bindR_eq_Ret map_hub_def)
    have "\<exists>sv2 seconds. kick shared level deviceID olds sv2 = Ret sv' \<and> sv_timers sv2 = sv_timers sv1 @ [(seconds, shared)] \<and> sv_hub sv2 = sv_hub sv1"
      using True Cons.prems r by (auto simp: kicked_def Let_def afterFunc_close_def sv_response_def split: if_splits intro!: exI)
    then obtain sv2 seconds where sv2: "kick shared level deviceID olds sv2 = Ret sv'" "sv_timers sv2 = sv_timers sv1 @ [(seconds, shared)]"
      "sv_hub sv2 = sv_hub sv1" by blast
    have "\<And>b. sv_conn sv2 b = sv_conn sv b" using same(2) sv2(3) by simp
    with Cons.IH [OF sv2(1)] True sv2(2) same(1) show ?thesis by auto
  qed
qed simp

lemma admit_timers:
  assumes "admit lg cp levels keys a sv = Ret sv'"
  defines "olds \<equiv> GetConnsWith (con_UID cp) (con_DeviceFlag cp) (hb_engine (sv_hub sv)) (hb_conns (sv_hub sv))"
  shows "\<exists>ts. sv_timers sv' = sv_timers sv @ ts \<and>
    map snd ts = map (\<lambda>_. last olds) (filter (\<lambda>b. kicked (fst levels) (con_DeviceID cp) (sv_conn sv b)) olds)"
proof -
  obtain sv1 where k: "kick (last olds) (fst levels) (con_DeviceID cp) olds sv = Ret sv1" and "sv_timers sv' = sv_timers sv1"
    using assms(1) by (auto simp: admit_def olds_def bindR_eq_Ret Let_def Online_def sv_response_def sv_AddConn_def map_hub_def
        set_conn_info_def map_conn_def)
  with kick_timers [OF k] show ?thesis by simp
qed

lemma closes_other_device:
  assumes "sv_manager_ok sv" and "eg_conns (hb_engine (sv_hub sv)) (cn_fd (sv_conn sv a)) = Some a"
    and "cm_connMap (hb_conns (sv_hub sv)) (cn_id (sv_conn sv a)) = None"
    and "admit lg cp levels keys a sv = Ret sv'" and "fst levels = DeviceLevelSlave"
    and "olds = GetConnsWith (con_UID cp) (con_DeviceFlag cp) (hb_engine (sv_hub sv)) (hb_conns (sv_hub sv))"
    and "b \<in> set olds" and "cn_deviceID (sv_conn sv b) = con_DeviceID cp" and "cn_deviceID (sv_conn sv (last olds)) \<noteq> con_DeviceID cp"
  shows "\<exists>ts. sv_timers sv' = sv_timers sv @ ts \<and> snd ` set ts = {last olds}" and "last olds \<in> sv_conns (con_UID cp) sv'"
proof -
  obtain ts where ts: "sv_timers sv' = sv_timers sv @ ts"
    "map snd ts = map (\<lambda>_. last olds) (filter (\<lambda>b. kicked (fst levels) (con_DeviceID cp) (sv_conn sv b)) olds)"
    using admit_timers [OF assms(4)] assms(6) by blast
  have "snd ` set ts = set (map snd ts)" by simp
  also have "\<dots> = {last olds}" unfolding ts(2) using assms(5,7,8) by (auto simp: kicked_def)
  finally show "\<exists>ts. sv_timers sv' = sv_timers sv @ ts \<and> snd ` set ts = {last olds}" using ts(1) by blast
  obtain sv1 where "admit lg cp levels keys a sv = Ret sv1" "sv_conns (con_UID cp) sv1 = insert a (sv_conns (con_UID cp) sv -
      {b. cn_deviceFlag (sv_conn sv b) = con_DeviceFlag cp \<and> kicked (fst levels) (con_DeviceID cp) (sv_conn sv b)})"
    by (rule admit_ok [OF assms(1-3)])
  moreover have "last olds \<in> sv_conns (con_UID cp) sv" 
  proof -
    have "last olds \<in> set olds" using assms(7) by (intro last_in_set) auto
    moreover have "set olds \<subseteq> sv_conns (con_UID cp) sv" unfolding assms(6) GetConnsWith_def by auto
    ultimately show ?thesis by blast
  qed
  ultimately show "last olds \<in> sv_conns (con_UID cp) sv'" using assms(4,5,9) by (auto simp: kicked_def)
qed

end
