(* ===== verification/Dispatch.thy ===== *)
theory Dispatch
  imports Auth
begin

text \<open>
  From bytes to handlers and back: \<open>dataIn\<close> and \<open>dataOut\<close> of \<^verbatim>\<open>internal/server/dispatch.go\<close>, and the rest of
  \<^verbatim>\<open>processor.go\<close>: the grouping of frames, and the handlers of PING, RECVACK and SUB. The groups run in
  a pool of goroutines; here they run one after the other in any order. The URL and the JSON parser of the
  standard library, which \<open>processSub\<close> uses on a channel's parameters, are arguments.
\<close>

section \<open>Acknowledgements of receivers\<close>

definition finish_one :: "nat \<Rightarrow> RecvackPacket \<Rightarrow> 'd server \<Rightarrow> 'd server outcome" where
  "finish_one a ack sv =
     (let c = sv_conn sv a in
      if NoPersist (rak_Framer ack) then Ret sv
      else case finishMessage (cn_uid c) (cn_deviceID c) (rak_MessageID ack) (hb_retry (sv_hub sv)) of
          Ret r \<Rightarrow> Ret (map_hub (\<lambda>h. h\<lparr>hb_retry := r\<rparr>) sv)
        | Fail _ \<Rightarrow> Ret sv
        | Panic \<Rightarrow> Panic)"

definition move_cursor :: "'d world \<Rightarrow> nat \<Rightarrow> RecvackPacket \<Rightarrow> 'd server \<Rightarrow> 'd server outcome" where
  "move_cursor w a ack sv =
     (let c = sv_conn sv a; f = rak_Framer ack in
      if SyncOnce f \<and> \<not> NoPersist f \<and> cn_deviceLevel c = DeviceLevelMaster then
        (case UpdateMessageOfUserCursorIfNeed (wd_bolt w) (cn_uid c) (rak_MessageSeq ack) (nd_fs (sv_node sv)) of
           Ret fs \<Rightarrow> Ret (sv\<lparr>sv_node := (sv_node sv)\<lparr>nd_fs := fs\<rparr>\<rparr>)
         | Fail _ \<Rightarrow> Ret sv
         | Panic \<Rightarrow> Panic)
      else Ret sv)"

fun processRecvacks :: "'d world \<Rightarrow> nat \<Rightarrow> RecvackPacket list \<Rightarrow> 'd server \<Rightarrow> 'd server outcome" where
  "processRecvacks w a [] sv = Ret sv"
| "processRecvacks w a (ack # acks) sv =
     bindR (finish_one a ack sv) (\<lambda>sv. bindR (move_cursor w a ack sv) (processRecvacks w a acks))"

section \<open>Subscriptions to data channels\<close>

record url_parsers =
  up_parse :: "gostring \<Rightarrow> (gostring \<times> (gostring \<times> gostring list) list) outcome"
  up_jsonToMap :: "gostring \<Rightarrow> params"

abbreviation (input) Subscribe :: u8 where "Subscribe \<equiv> 0"

definition getSuback :: "SubPacket \<Rightarrow> gostring \<Rightarrow> reasonCode \<Rightarrow> SubackPacket" where
  "getSuback sp channelID reasonCode =
     \<lparr>suk_Framer = empty_framer, suk_SubNo = sub_SubNo sp, suk_ChannelID = channelID,
      suk_ChannelType = sub_ChannelType sp, suk_Action = sub_Action sp, suk_ReasonCode = reasonCode\<rparr>"

definition query_params :: "(gostring \<times> gostring list) list \<Rightarrow> params" where
  "query_params q = map_of (List.map_filter (\<lambda>(k, vs). case vs of [] \<Rightarrow> None | v # _ \<Rightarrow> Some (k, JString v)) q)"

text \<open>The channel that the manager handed out is shared: changing it changes the cache it came from.\<close>

definition share_channel :: "options \<Rightarrow> gostring \<Rightarrow> u8 \<Rightarrow> channel \<Rightarrow> channels \<Rightarrow> channels" where
  "share_channel opts channelID channelType c cs =
     (if IsTmpChannel opts channelID
      then cs\<lparr>cm_tmpChannelCache := (cm_tmpChannelCache cs)(channelKey channelID channelType \<mapsto> c)\<rparr>
      else cs\<lparr>cm_dataChannelCache := (cm_dataChannelCache cs)(channelKey channelID channelType \<mapsto> c)\<rparr>)"

definition set_channels :: "channels \<Rightarrow> 'd server \<Rightarrow> 'd server" where
  "set_channels cs sv = sv\<lparr>sv_node := (sv_node sv)\<lparr>nd_channels := cs\<rparr>\<rparr>"

text \<open>The context is a type assertion: a connection without one panics.\<close>

definition map_context :: "nat \<Rightarrow> (connContext \<Rightarrow> connContext) \<Rightarrow> 'd server \<Rightarrow> 'd server outcome" where
  "map_context a f sv =
     (case cn_context (sv_conn sv a) of
        None \<Rightarrow> Panic
      | Some ctx \<Rightarrow> Ret (map_conn a (\<lambda>c. c\<lparr>cn_context := Some (f ctx)\<rparr>) sv))"

definition change_subscription ::
    "'d world \<Rightarrow> url_parsers \<Rightarrow> nat \<Rightarrow> SubPacket \<Rightarrow> gostring \<Rightarrow> params \<Rightarrow> channel \<Rightarrow> 'd server \<Rightarrow> 'd server outcome" where
  "change_subscription w up a sp channelID paramMap channel sv =
     (let uid = cn_uid (sv_conn sv a); t = sub_ChannelType sp; cs = nd_channels (sv_node sv) in
      if cn_context (sv_conn sv a) = None then Panic
      else if sub_Action sp = Subscribe then
        let paramMap = (if \<not> blank (sub_Param sp) then paramMap ++ up_jsonToMap up (sub_Param sp) else paramMap) in
        map_context a (subscribeChannel (\<lambda>b. cn_uid (sv_conn sv b)) channelID t paramMap)
          (set_channels (share_channel (wd_opts w) channelID t (AddSubscriber uid channel) cs) sv)
      else
        let channel = (if \<not> ExistConnsWithUID uid (hb_conns (sv_hub sv)) then RemoveSubscriber uid channel else channel);
            cs = share_channel (wd_opts w) channelID t channel cs;
            cs = (if t = ChannelTypeData \<and> length (GetAllSubscribers channel) = 0 then RemoveDataChannel channelID t cs else cs) in
        map_context a (unscribeChannel channelID t) (set_channels cs sv))"

definition processSub :: "'d world \<Rightarrow> url_parsers \<Rightarrow> nat \<Rightarrow> SubPacket \<Rightarrow> 'd server \<Rightarrow> 'd server outcome" where
  "processSub w up a sp sv =
     (case up_parse up (sub_ChannelID sp) of
        Panic \<Rightarrow> Panic
      | Fail _ \<Rightarrow> Ret sv
      | Ret (channelID, query) \<Rightarrow>
          if blank channelID then Ret sv
          else
            let answer = (\<lambda>reason. sv_response a [FSuback (getSuback sp channelID reason)]) in
            if sub_ChannelType sp \<noteq> ChannelTypeData then Ret (answer ReasonNotSupportChannelType sv)
            else
              let (r, cs) = GetChannel (env_of w (sv_node sv)) channelID (sub_ChannelType sp) (nd_channels (sv_node sv));
                  sv = set_channels cs sv in
              case r of
                Panic \<Rightarrow> Panic
              | Fail _ \<Rightarrow> Ret (answer ReasonSystemError sv)
              | Ret None \<Rightarrow> Ret (answer ReasonChannelNotExist sv)
              | Ret (Some channel) \<Rightarrow>
                  mapR (answer ReasonSuccess) (change_subscription w up a sp channelID (query_params query) channel sv))"

fun processSubs :: "'d world \<Rightarrow> url_parsers \<Rightarrow> nat \<Rightarrow> SubPacket list \<Rightarrow> 'd server \<Rightarrow> 'd server outcome" where
  "processSubs w up a [] sv = Ret sv"
| "processSubs w up a (sp # sps) sv = bindR (processSub w up a sp sv) (processSubs w up a sps)"

section \<open>Frames of one type\<close>

function sameFrames :: "frame list \<Rightarrow> frame list list" where
  "sameFrames [] = []"
| "sameFrames (f # fs) =
     (f # takeWhile (\<lambda>g. GetFrameType g = GetFrameType f) fs) #
     sameFrames (dropWhile (\<lambda>g. GetFrameType g = GetFrameType f) fs)"
  by pat_completeness auto
termination by (relation "measure length") (auto simp: le_imp_less_Suc length_dropWhile_le)

definition processPing :: "nat \<Rightarrow> 'd server \<Rightarrow> 'd server" where
  "processPing a = sv_response a [FPong empty_framer]"

definition sv_processMsgs ::
    "'d world \<Rightarrow> (gostring list \<Rightarrow> gostring list) \<Rightarrow> nat \<Rightarrow> SendPacket list \<Rightarrow> 'd server \<Rightarrow> 'd server outcome option" where
  "sv_processMsgs w ord a sps sv =
     map_option (mapR (\<lambda>nd. sv\<lparr>sv_node := nd\<rparr>)) (processMsgs w ord a (sv_conn sv a) sps (sv_node sv))"

text \<open>\<open>finishFrames\<close> on the connection's context.\<close>

definition sv_finishFrames :: "int \<Rightarrow> nat \<Rightarrow> nat \<Rightarrow> 'd server \<Rightarrow> 'd server outcome" where
  "sv_finishFrames maxSize a n sv =
     (case cn_context (sv_conn sv a) of
        None \<Rightarrow> Panic
      | Some ctx \<Rightarrow>
          mapR (\<lambda>fl. map_conn a (\<lambda>c. c\<lparr>cn_context := Some (fl_ctx fl), cn_readEvent := fl_readEvent fl\<rparr>)
              (sv\<lparr>sv_slowClients := fl_slowClients fl\<rparr>))
            (finishFrames maxSize n \<lparr>fl_ctx = ctx, fl_readEvent = cn_readEvent (sv_conn sv a), fl_slowClients = sv_slowClients sv\<rparr>))"

definition processSameFrame ::
    "'d world \<Rightarrow> url_parsers \<Rightarrow> (gostring list \<Rightarrow> gostring list) \<Rightarrow> nat \<Rightarrow> frame list \<Rightarrow> 'd server \<Rightarrow> 'd server outcome option" where
  "processSameFrame w up ord a frames sv =
     map_option (\<lambda>r. bindR r (sv_finishFrames (op_UserMsgQueueMaxSize (wd_opts w)) a (length frames)))
       (case frames of
          FPing _ # _ \<Rightarrow> Some (Ret (processPing a sv))
        | FSend _ # _ \<Rightarrow> sv_processMsgs w ord a (List.map_filter (\<lambda>f. case f of FSend p \<Rightarrow> Some p | _ \<Rightarrow> None) frames) sv
        | FRecvack _ # _ \<Rightarrow> Some (processRecvacks w a (List.map_filter (\<lambda>f. case f of FRecvack p \<Rightarrow> Some p | _ \<Rightarrow> None) frames) sv)
        | FSub _ # _ \<Rightarrow> Some (processSubs w up a (List.map_filter (\<lambda>f. case f of FSub p \<Rightarrow> Some p | _ \<Rightarrow> None) frames) sv)
        | _ \<Rightarrow> Some (Ret sv))"

text \<open>The groups are submitted in order and run in the order \<open>sched\<close> of the pool.\<close>

fun process_in_turn ::
    "'d world \<Rightarrow> url_parsers \<Rightarrow> (gostring list \<Rightarrow> gostring list) \<Rightarrow> nat \<Rightarrow> frame list list \<Rightarrow> 'd server \<Rightarrow> 'd server outcome option" where
  "process_in_turn w up ord a [] sv = Some (Ret sv)"
| "process_in_turn w up ord a (g # gs) sv =
     Option.bind (processSameFrame w up ord a g sv) (\<lambda>r.
       case r of Ret sv \<Rightarrow> process_in_turn w up ord a gs sv | Fail e \<Rightarrow> Some (Fail e) | Panic \<Rightarrow> Some Panic)"

record 'd runtime =
  rt_world :: "'d world"
  rt_urls :: url_parsers
  rt_mapOrder :: "gostring list \<Rightarrow> gostring list"
  rt_schedule :: "frame list list \<Rightarrow> frame list list"

definition processFrames :: "'d runtime \<Rightarrow> nat \<Rightarrow> frame list \<Rightarrow> 'd server \<Rightarrow> 'd server outcome option" where
  "processFrames rt a frames = process_in_turn (rt_world rt) (rt_urls rt) (rt_mapOrder rt) a (rt_schedule rt (sameFrames frames))"

text \<open>\<open>putFrame\<close> and \<open>popFrames\<close> on the connection's context.\<close>

definition sv_putFrame :: "int \<Rightarrow> nat \<Rightarrow> frame \<Rightarrow> 'd server \<Rightarrow> 'd server outcome" where
  "sv_putFrame maxSize a frame sv =
     (case cn_context (sv_conn sv a) of
        None \<Rightarrow> Panic
      | Some ctx \<Rightarrow>
          mapR (\<lambda>fl. map_conn a (\<lambda>c. c\<lparr>cn_context := Some (fl_ctx fl), cn_readEvent := fl_readEvent fl\<rparr>)
              (sv\<lparr>sv_slowClients := fl_slowClients fl\<rparr>))
            (putFrame maxSize frame \<lparr>fl_ctx = ctx, fl_readEvent = cn_readEvent (sv_conn sv a), fl_slowClients = sv_slowClients sv\<rparr>))"

definition process :: "'d runtime \<Rightarrow> nat \<Rightarrow> 'd server \<Rightarrow> 'd server outcome option" where
  "process rt a sv =
     (case cn_context (sv_conn sv a) of
        None \<Rightarrow> Some Panic
      | Some ctx \<Rightarrow> processFrames rt a (cc_frameCaches ctx) (map_conn a (\<lambda>c. c\<lparr>cn_context := Some (ctx\<lparr>cc_frameCaches := []\<rparr>)\<rparr>) sv))"

section \<open>Incoming bytes\<close>

definition connIsAllow :: "gostring option \<Rightarrow> 'd server \<Rightarrow> bool \<times> 'd server" where
  "connIsAllow remoteAddr sv =
     (case remoteAddr of None \<Rightarrow> (True, sv) | Some addr \<Rightarrow> AllowIP (hd (split_on colon_sign addr)) sv)"

lemma DecodeFrame_progress: "DecodeFrame d v = Ret (Some f, n) \<Longrightarrow> 0 < n"
  by (auto simp: DecodeFrame_def Let_def bindR_eq_Ret split: outcome.splits if_splits option.splits)

text \<open>The loop over the complete frames: the error that ends it, how far it came, and the state.\<close>

function put_frames :: "int \<Rightarrow> nat \<Rightarrow> bytes \<Rightarrow> u8 \<Rightarrow> nat \<Rightarrow> 'd server \<Rightarrow> (go_error option \<times> nat \<times> 'd server) outcome" where
  "put_frames maxSize a data v offset sv =
     (if length data \<le> offset then Ret (None, offset, sv)
      else case DecodeFrame (drop offset data) v of
          Panic \<Rightarrow> Panic
        | Fail e \<Rightarrow> Ret (Some e, offset, sv)
        | Ret (None, _) \<Rightarrow> Ret (None, offset, sv)
        | Ret (Some frame, n) \<Rightarrow> bindR (sv_putFrame maxSize a frame sv) (put_frames maxSize a data v (offset + n)))"
  by pat_completeness auto
termination
  by (relation "measure (\<lambda>(maxSize, a, data, v, offset, sv). length data - offset)") (auto dest: DecodeFrame_progress)

declare put_frames.simps [simp del]

definition sv_Discard :: "nat \<Rightarrow> nat \<Rightarrow> 'd server \<Rightarrow> 'd server" where
  "sv_Discard a n = map_conn a (\<lambda>c. snd (conn_Discard (int n) c))"

definition closed_with :: "go_error option \<Rightarrow> 'd server outcome \<Rightarrow> ('d server \<times> go_error option) outcome option" where
  "closed_with err r = Some (mapR (\<lambda>sv. (sv, err)) r)"

definition dataIn_auth :: "'d runtime \<Rightarrow> login \<Rightarrow> nat \<Rightarrow> bytes \<Rightarrow> 'd server \<Rightarrow> ('d server \<times> go_error option) outcome option" where
  "dataIn_auth rt lg a data sv =
     (case DecodeFrame data LatestVersion of
        Panic \<Rightarrow> Some Panic
      | Fail _ \<Rightarrow> closed_with None (conn_close a sv)
      | Ret (None, _) \<Rightarrow> Some (Ret (sv, None))
      | Ret (Some (FConnect cp), _) \<Rightarrow> closed_with None (processAuth (rt_world rt) lg a cp (sv_Discard a (length data) sv))
      | Ret (Some _, _) \<Rightarrow> closed_with None (conn_close a sv))"

definition dataIn_frames :: "'d runtime \<Rightarrow> nat \<Rightarrow> bytes \<Rightarrow> 'd server \<Rightarrow> ('d server \<times> go_error option) outcome option" where
  "dataIn_frames rt a data sv =
     (case put_frames (op_UserMsgQueueMaxSize (wd_opts (rt_world rt))) a data (word_of_int (cn_protoVersion (sv_conn sv a))) 0 sv of
        Panic \<Rightarrow> Some Panic
      | Fail _ \<Rightarrow> Some Panic
      | Ret (Some e, _, sv) \<Rightarrow> closed_with (Some e) (conn_close a sv)
      | Ret (None, offset, sv) \<Rightarrow> map_option (mapR (\<lambda>sv. (sv, None))) (process rt a (sv_Discard a offset sv)))"

definition dataIn :: "'d runtime \<Rightarrow> login \<Rightarrow> gostring option \<Rightarrow> nat \<Rightarrow> 'd server \<Rightarrow> ('d server \<times> go_error option) outcome option" where
  "dataIn rt lg remoteAddr a sv =
     (let (allowed, sv) = connIsAllow remoteAddr sv in
      if \<not> allowed then closed_with None (conn_close a sv)
      else case conn_Peek (-1) (sv_conn sv a) of
          Panic \<Rightarrow> Some Panic
        | Fail e \<Rightarrow> Some (Ret (sv, Some e))
        | Ret buff \<Rightarrow>
            if length buff = 0 then Some (Ret (sv, None))
            else let data = gnetUnpacket buff in
              if length data = 0 then Some (Ret (sv, None))
              else if \<not> cn_authed (sv_conn sv a) then dataIn_auth rt lg a data sv
              else dataIn_frames rt a data sv)"

section \<open>Outgoing frames\<close>

fun dataOut_frames :: "ring \<Rightarrow> (nat \<Rightarrow> bytes) \<Rightarrow> frame list \<Rightarrow> 'c net_conn \<Rightarrow> 'c net_conn outcome" where
  "dataOut_frames fresh pool [] c = Ret c"
| "dataOut_frames fresh pool (f # fs) c =
     (case WriteToOutboundBuffer fresh pool (EncodeFrame f (word_of_int (cn_protoVersion c))) c of
        (Panic, c) \<Rightarrow> Panic
      | (_, c) \<Rightarrow> dataOut_frames fresh pool fs c)"

definition dataOut :: "ring \<Rightarrow> (nat \<Rightarrow> bytes) \<Rightarrow> frame list \<Rightarrow> 'c net_conn \<Rightarrow> 'c net_conn outcome" where
  "dataOut fresh pool frames c =
     (if length frames = 0 then Ret c else mapR WakeWrite (dataOut_frames fresh pool frames c))"

section \<open>Grouping\<close>

text \<open>The groups are the maximal runs of frames of one type.\<close>

lemma sameFrames_concat: "concat (sameFrames fs) = fs"
  by (induction fs rule: sameFrames.induct) simp_all

lemma sameFrames_uniform: "g \<in> set (sameFrames fs) \<Longrightarrow> \<exists>f rest. g = f # rest \<and> (\<forall>x \<in> set rest. GetFrameType x = GetFrameType f)"
  by (induction fs rule: sameFrames.induct) (auto dest: set_takeWhileD)

lemma sameFrames_maximal:
  "i + 1 < length (sameFrames fs) \<Longrightarrow>
     GetFrameType (hd (sameFrames fs ! i)) \<noteq> GetFrameType (hd (sameFrames fs ! (i + 1)))"
proof (induction fs arbitrary: i rule: sameFrames.induct)
  case (2 f fs)
  let ?rest = "dropWhile (\<lambda>g. GetFrameType g = GetFrameType f) fs"
  show ?case
  proof (cases i)
    case 0
    with "2.prems" have "sameFrames ?rest \<noteq> []" by auto
    then obtain g gs where r: "?rest = g # gs" by (cases ?rest) auto
    then have "GetFrameType g \<noteq> GetFrameType f" using hd_dropWhile [of "\<lambda>g. GetFrameType g = GetFrameType f" fs] by auto
    with 0 r show ?thesis by simp
  next
    case (Suc j)
    with "2.prems" "2.IH" [of j] show ?thesis by simp
  qed
qed simp

section \<open>What reaches the handlers\<close>

lemma sv_conn_map: "sv_conn (map_conn a f sv) b = (if b = a then f (sv_conn sv a) else sv_conn sv b)"
  by (simp add: map_conn_def conn_at_update)

text \<open>A context that is attached to its connection takes frames without panicking.\<close>

lemma sv_putFrame_ok:
  assumes "cn_context (sv_conn sv a) = Some ctx" and "cc_conn ctx = Some a"
  shows "\<exists>sv' ctx'. sv_putFrame maxSize a frame sv = Ret sv' \<and> cn_context (sv_conn sv' a) = Some ctx' \<and> cc_conn ctx' = Some a \<and>
    cc_frameCaches ctx' = cc_frameCaches ctx @ [frame] \<and> cn_inbound (sv_conn sv' a) = cn_inbound (sv_conn sv a) \<and>
    cn_protoVersion (sv_conn sv' a) = cn_protoVersion (sv_conn sv a)"
proof -
  have conn: "sv_conn (map_conn a f (sv\<lparr>sv_slowClients := n\<rparr>)) a = f (sv_conn sv a)" for f n
    by (simp add: map_conn_def conn_at_update map_hub_def)
  from assms show ?thesis
    by (auto simp: sv_putFrame_def putFrame_def disableRead_def mapR_def Let_def conn sv_conn_map)
qed

lemma put_frames_ok:
  assumes "list_all (wellformed v) fs" and "cn_context (sv_conn sv a) = Some ctx" and "cc_conn ctx = Some a"
  shows "\<exists>sv' ctx'. put_frames maxSize a (pre @ concat (map (\<lambda>f. EncodeFrame f v) fs)) v (length pre) sv =
      Ret (None, length (pre @ concat (map (\<lambda>f. EncodeFrame f v) fs)), sv') \<and>
    cn_context (sv_conn sv' a) = Some ctx' \<and> cc_conn ctx' = Some a \<and>
    cc_frameCaches ctx' = cc_frameCaches ctx @ deliveries fs v (length (concat (map (\<lambda>f. EncodeFrame f v) fs))) \<and>
    cn_inbound (sv_conn sv' a) = cn_inbound (sv_conn sv a)"
  using assms
proof (induction fs arbitrary: pre sv ctx)
  case Nil
  then show ?case by (subst put_frames.simps) auto
next
  case (Cons f fs)
  let ?tail = "concat (map (\<lambda>f. EncodeFrame f v) fs)"
  let ?f = "arrived f v (length (EncodeFrame f v) + length ?tail)"
  from Cons.prems have f: "wellformed v f" and fs: "list_all (wellformed v) fs" by auto
  obtain sv1 ctx1 where one: "sv_putFrame maxSize a ?f sv = Ret sv1" "cn_context (sv_conn sv1 a) = Some ctx1" "cc_conn ctx1 = Some a"
    "cc_frameCaches ctx1 = cc_frameCaches ctx @ [?f]" "cn_inbound (sv_conn sv1 a) = cn_inbound (sv_conn sv a)"
    using sv_putFrame_ok [OF Cons.prems(2,3)] by blast
  have d: "DecodeFrame (EncodeFrame f v @ ?tail) v = Ret (Some ?f, length (EncodeFrame f v))"
    by (rule DecodeFrame_EncodeFrame [OF f])
  then have "0 < length (EncodeFrame f v)" by (rule DecodeFrame_progress)
  then have "put_frames maxSize a (pre @ EncodeFrame f v @ ?tail) v (length pre) sv =
      put_frames maxSize a ((pre @ EncodeFrame f v) @ ?tail) v (length (pre @ EncodeFrame f v)) sv1"
    using d one(1) by (subst put_frames.simps) (simp del: EncodeFrame.simps)
  moreover obtain sv' ctx' where "put_frames maxSize a ((pre @ EncodeFrame f v) @ ?tail) v (length (pre @ EncodeFrame f v)) sv1 =
      Ret (None, length ((pre @ EncodeFrame f v) @ ?tail), sv')"
    "cn_context (sv_conn sv' a) = Some ctx'" "cc_conn ctx' = Some a"
    "cc_frameCaches ctx' = cc_frameCaches ctx1 @ deliveries fs v (length ?tail)" "cn_inbound (sv_conn sv' a) = cn_inbound (sv_conn sv1 a)"
    using Cons.IH [OF fs one(2,3), of "pre @ EncodeFrame f v"] by blast
  ultimately show ?case using one(4,5) by (simp del: EncodeFrame.simps) 
qed

text \<open>
  Of the bytes of an authenticated connection, the complete frames reach the handlers, in order and after
  the frames that were still waiting; the beginning of the next frame stays in the buffer.
\<close>

lemma dataIn_delivers:
  fixes sv :: "'d server"
  assumes "cn_authed (sv_conn sv a)" and "cn_context (sv_conn sv a) = Some ctx" and "cc_conn ctx = Some a"
    and "el_ok (cn_inbound (sv_conn sv a))" and "v = word_of_int (cn_protoVersion (sv_conn sv a))"
    and "el_contents (cn_inbound (sv_conn sv a)) = concat (map (\<lambda>f. EncodeFrame f v) fs) @ take k (EncodeFrame g v)"
    and "list_all (wellformed v) fs" and "wellformed v g" and "k < length (EncodeFrame g v)" and "fs \<noteq> []"
    and "fst (connIsAllow addr sv)"
  obtains sv' ctx' where
    "dataIn rt lg addr a sv = map_option (mapR (\<lambda>sv. (sv, None))) (processFrames rt a
      (cc_frameCaches ctx @ deliveries fs v (length (concat (map (\<lambda>f. EncodeFrame f v) fs)))) sv')"
    and "el_contents (cn_inbound (sv_conn sv' a)) = take k (EncodeFrame g v)"
    and "cn_context (sv_conn sv' a) = Some ctx'" and "cc_conn ctx' = Some a" and "cc_frameCaches ctx' = []"
proof -
  let ?data = "concat (map (\<lambda>f. EncodeFrame f v) fs)"
  obtain sv0 where allow: "connIsAllow addr sv = (True, sv0)" and hub0: "sv_hub sv0 = sv_hub sv"
    using assms(11) by (auto simp: connIsAllow_def AllowIP_def split: option.splits)
  have peek: "conn_Peek (-1) (sv_conn sv a) = Ret (?data @ take k (EncodeFrame g v))"
    using conn_Peek_all [OF assms(4)] assms(6) by simp
  have cut: "gnetUnpacket (?data @ take k (EncodeFrame g v)) = ?data" by (rule gnetUnpacket_complete [OF assms(7-9)])
  obtain f fs' where fs: "fs = f # fs'" using assms(10) by (cases fs) auto
  then have "wellformed v f" using assms(7) by simp
  from DecodeFrame_progress [OF DecodeFrame_EncodeFrame [OF this, of "[]"]] have ne: "0 < length ?data"
    by (simp add: fs del: EncodeFrame.simps)
  have ctx0: "cn_context (sv_conn sv0 a) = Some ctx" using assms(2) hub0 by simp
  obtain sv1 ctx1 where put: "put_frames (op_UserMsgQueueMaxSize (wd_opts (rt_world rt))) a ?data v 0 sv0 = Ret (None, length ?data, sv1)"
    "cn_context (sv_conn sv1 a) = Some ctx1" "cc_conn ctx1 = Some a"
    "cc_frameCaches ctx1 = cc_frameCaches ctx @ deliveries fs v (length ?data)" "cn_inbound (sv_conn sv1 a) = cn_inbound (sv_conn sv0 a)"
    using put_frames_ok [OF assms(7) ctx0 assms(3), of "op_UserMsgQueueMaxSize (wd_opts (rt_world rt))" "[]"] by auto
  define sv2 where "sv2 = sv_Discard a (length ?data) sv1"
  have c2: "sv_conn sv2 a = snd (conn_Discard (int (length ?data)) (sv_conn sv1 a))"
    by (simp add: sv2_def sv_Discard_def sv_conn_map)
  have ctx2: "cn_context (sv_conn sv2 a) = Some ctx1" using put(2) by (simp add: c2 conn_Discard_def split_beta)
  have ok1: "el_ok (cn_inbound (sv_conn sv1 a))" using assms(4) put(5) hub0 by simp
  have in2: "el_contents (cn_inbound (sv_conn sv2 a)) = take k (EncodeFrame g v)"
    unfolding c2 using conn_Discard_ok [OF ok1, of "int (length ?data)"] put(5) hub0 assms(6) by simp
  define sv3 where "sv3 = map_conn a (\<lambda>c. c\<lparr>cn_context := Some (ctx1\<lparr>cc_frameCaches := []\<rparr>)\<rparr>) sv2"
  show thesis
  proof (rule that)
    have "dataIn_frames rt a ?data sv0 = map_option (mapR (\<lambda>sv. (sv, None))) (process rt a sv2)"
      using put(1) hub0 assms(5) by (simp add: dataIn_frames_def sv2_def)
    moreover have "process rt a sv2 = processFrames rt a (cc_frameCaches ctx @ deliveries fs v (length ?data)) sv3"
      by (simp add: process_def ctx2 put(4) sv3_def)
    moreover have "dataIn rt lg addr a sv = dataIn_frames rt a ?data sv0"
      using ne assms(1) by (simp add: dataIn_def allow hub0 peek cut)
    ultimately show "dataIn rt lg addr a sv = map_option (mapR (\<lambda>sv. (sv, None))) (processFrames rt a
        (cc_frameCaches ctx @ deliveries fs v (length ?data)) sv3)" by simp
    show "el_contents (cn_inbound (sv_conn sv3 a)) = take k (EncodeFrame g v)" using in2 by (simp add: sv3_def sv_conn_map)
    show "cn_context (sv_conn sv3 a) = Some (ctx1\<lparr>cc_frameCaches := []\<rparr>)" by (simp add: sv3_def sv_conn_map)
  qed (use put(3) in simp_all)
qed

text \<open>What a connection sends before it is authenticated, behind its first frame, is thrown away with it.\<close>

lemma dataIn_drops_rest:
  assumes "\<not> cn_authed (sv_conn sv a)" and "connIsAllow addr sv = (True, sv)"
    and "conn_Peek (-1) (sv_conn sv a) = Ret buff" and "gnetUnpacket buff = data" and "data \<noteq> []"
    and "DecodeFrame data LatestVersion = Ret (Some (FConnect cp), n)"
  shows "dataIn rt lg addr a sv =
    Some (mapR (\<lambda>sv. (sv, None)) (processAuth (rt_world rt) lg a cp (sv_Discard a (length data) sv)))"
proof -
  have "buff \<noteq> []" using assms(4,5) by (auto simp: gnetUnpacket_def)
  with assms show ?thesis by (simp add: dataIn_def dataIn_auth_def closed_with_def)
qed

text \<open>An address on the blacklist gets its connection closed, whatever it sent.\<close>

lemma dataIn_blocked:
  assumes "sv_ipBlacklist sv (hd (split_on colon_sign addr)) = Some n"
  shows "dataIn rt lg (Some addr) a sv = Some (mapR (\<lambda>sv. (sv, None))
    (conn_close a (sv\<lparr>sv_ipBlacklist := (sv_ipBlacklist sv)(hd (split_on colon_sign addr) \<mapsto> n + 1)\<rparr>)))"
  using assms by (simp add: dataIn_def connIsAllow_def AllowIP_def closed_with_def)

lemma bindR_not_Fail: "m \<noteq> Fail e \<Longrightarrow> (\<And>x. f x \<noteq> Fail e) \<Longrightarrow> bindR m f \<noteq> Fail e"
  by (cases m) simp_all

lemma ring_Write_never_fails: "ring_Write pool p rb \<noteq> Fail e"
proof -
  have cap: "grown_cap n m \<noteq> Fail e" for n m by (simp add: grown_cap_def CeilToPowerOfTwo_def Let_def)
  have "ring_grow pool m rb \<noteq> Fail e" for m
    unfolding ring_grow_def by (rule bindR_not_Fail [OF cap]) (simp add: Let_def split: prod.split outcome.split)
  moreover have "ring_put p rb \<noteq> Fail e" for rb
    unfolding ring_put_def Let_def by (intro bindR_not_Fail) (auto simp: copy_at_def intro!: bindR_not_Fail)
  ultimately show ?thesis by (simp add: ring_Write_def Let_def bindR_not_Fail)
qed

text \<open>What is sent to a connection stands in its outbound buffer, frame by frame, and will be written.\<close>

lemma dataOut_frames_ok:
  assumes "pool_ok pool" and "fresh_ok fresh" and "el_ok (cn_outbound c)" and "dataOut_frames fresh pool fs c = Ret c'"
  shows "el_ok (cn_outbound c') \<and> cn_protoVersion c' = cn_protoVersion c \<and>
    el_contents (cn_outbound c') = el_contents (cn_outbound c) @
      concat (map (\<lambda>f. EncodeFrame f (word_of_int (cn_protoVersion c))) fs)"
  using assms(3,4)
proof (induction fs arbitrary: c)
  case (Cons f fs)
  let ?b = "EncodeFrame f (word_of_int (cn_protoVersion c))"
  obtain r c1 where w: "WriteToOutboundBuffer fresh pool ?b c = (r, c1)" by fastforce
  have pv: "cn_protoVersion c1 = cn_protoVersion c"
    using w by (auto simp: WriteToOutboundBuffer_def split: if_splits outcome.splits)
  show ?case
  proof (cases r)
    case (Ret n)
    from WriteToOutboundBuffer_ok [OF assms(1,2) Cons.prems(1) w [unfolded Ret]]
    have ok: "el_ok (cn_outbound c1)" "el_contents (cn_outbound c1) = el_contents (cn_outbound c) @ ?b" by simp_all
    from Cons.prems(2) w Ret have d: "dataOut_frames fresh pool fs c1 = Ret c'" by (simp del: EncodeFrame.simps)
    from Cons.IH [OF ok(1) d] ok(2) pv show ?thesis by (simp del: EncodeFrame.simps)
  next
    case (Fail e)
    have "el_Write fresh pool ?b (cn_outbound c) \<noteq> Fail e'" for e'
      by (simp add: el_Write_def mapR_def ring_Write_never_fails bindR_not_Fail)
    with w Fail show ?thesis by (auto simp: WriteToOutboundBuffer_def split: if_splits outcome.splits)
  qed (use Cons.prems(2) w in \<open>simp del: EncodeFrame.simps\<close>)
qed (use assms in simp)

section \<open>What an acknowledgement settles\<close>

lemma finish_table:
  "finishMessage u d m r = Ret r' \<Longrightarrow> inFlightMessages r' = (inFlightMessages r)(getInFlightKey u d m := None)"
  by (auto simp: finishMessage_def popInFlightMessage_def removeFromInFlightPQ_def Let_def bindR_eq_Ret split: option.splits if_splits)

lemma finish_fails: "finishMessage u d m r = Fail e \<Longrightarrow> inFlightMessages r (getInFlightKey u d m) = None"
  by (auto simp: finishMessage_def popInFlightMessage_def Let_def split: option.splits)

definition ack_key :: "'d server \<Rightarrow> nat \<Rightarrow> RecvackPacket \<Rightarrow> gostring" where
  "ack_key sv a ack = getInFlightKey (cn_uid (sv_conn sv a)) (cn_deviceID (sv_conn sv a)) (rak_MessageID ack)"

lemma finish_one_ok:
  assumes "finish_one a ack sv = Ret sv'"
  shows "hb_engine (sv_hub sv') = hb_engine (sv_hub sv)"
    and "inFlightMessages (hb_retry (sv_hub sv')) = (if NoPersist (rak_Framer ack) then inFlightMessages (hb_retry (sv_hub sv))
      else (inFlightMessages (hb_retry (sv_hub sv)))(ack_key sv a ack := None))"
proof -
  let ?fin = "finishMessage (cn_uid (sv_conn sv a)) (cn_deviceID (sv_conn sv a)) (rak_MessageID ack) (hb_retry (sv_hub sv))"
  have "hb_engine (sv_hub sv') = hb_engine (sv_hub sv) \<and> inFlightMessages (hb_retry (sv_hub sv')) =
    (if NoPersist (rak_Framer ack) then inFlightMessages (hb_retry (sv_hub sv))
     else (inFlightMessages (hb_retry (sv_hub sv)))(ack_key sv a ack := None))"
  proof (cases ?fin)
    case (Ret r)
    with assms finish_table [OF Ret] show ?thesis by (auto simp: finish_one_def ack_key_def Let_def split: if_splits)
  next
    case (Fail e)
    from finish_fails [OF this] have "(inFlightMessages (hb_retry (sv_hub sv)))(ack_key sv a ack := None) =
      inFlightMessages (hb_retry (sv_hub sv))" by (simp add: ack_key_def fun_upd_idem)
    with assms Fail show ?thesis by (simp add: finish_one_def Let_def split: if_splits)
  qed (use assms in \<open>simp add: finish_one_def Let_def split: if_splits\<close>)
  then show "hb_engine (sv_hub sv') = hb_engine (sv_hub sv)"
    and "inFlightMessages (hb_retry (sv_hub sv')) = (if NoPersist (rak_Framer ack) then inFlightMessages (hb_retry (sv_hub sv))
      else (inFlightMessages (hb_retry (sv_hub sv)))(ack_key sv a ack := None))" by blast+
qed

lemma move_cursor_hub: "move_cursor w a ack sv = Ret sv' \<Longrightarrow> sv_hub sv' = sv_hub sv"
  by (auto simp: move_cursor_def Let_def split: if_splits outcome.splits)

text \<open>After acknowledgements were processed, exactly the acknowledged messages are no longer in flight.\<close>

lemma processRecvacks_ok:
  assumes "processRecvacks w a acks sv = Ret sv'"
  shows "inFlightMessages (hb_retry (sv_hub sv')) k =
    (if \<exists>ack \<in> set acks. \<not> NoPersist (rak_Framer ack) \<and> ack_key sv a ack = k then None
     else inFlightMessages (hb_retry (sv_hub sv)) k)"
  using assms
proof (induction acks arbitrary: sv)
  case (Cons ack acks)
  then obtain sv1 sv2 where s: "finish_one a ack sv = Ret sv1" "move_cursor w a ack sv1 = Ret sv2"
    "processRecvacks w a acks sv2 = Ret sv'" by (auto simp: bindR_eq_Ret)
  note one = finish_one_ok [OF s(1)]
  have hub: "sv_hub sv2 = sv_hub sv1" by (rule move_cursor_hub [OF s(2)])
  have key: "ack_key sv2 a x = ack_key sv a x" for x by (simp add: ack_key_def hub one(1))
  show ?case using Cons.IH [OF s(3)] one(2) by (auto simp: key hub)
qed simp

text \<open>The heap of the retry queue loses exactly the acknowledged messages, and nobody's due time changes.\<close>

definition settles :: "msgheap \<Rightarrow> (gostring \<Rightarrow> bool) \<Rightarrow> retryQueue \<Rightarrow> retryQueue \<Rightarrow> bool" where
  "settles heap P r r' \<longleftrightarrow> rq_full heap r' \<and> due_at r' = due_at r \<and>
     mset (pq_items (inFlightPQ r')) = filter_mset (\<lambda>x. \<not> P (inflight_key (heap x))) (mset (pq_items (inFlightPQ r)))"

lemma filter_mset_all: "(\<And>x. x \<in># M \<Longrightarrow> P x) \<Longrightarrow> filter_mset P M = M"
  by (induction M) simp_all

lemma settles_nothing: "rq_full heap r \<Longrightarrow> (\<And>x. in_queue x r \<Longrightarrow> \<not> P (inflight_key (heap x))) \<Longrightarrow> settles heap P r r"
  unfolding settles_def in_queue_def by (intro conjI) (auto intro!: filter_mset_all [symmetric] simp del: mset_filter)

lemma settles_trans:
  "settles heap P r r' \<Longrightarrow> settles heap Q r' r'' \<Longrightarrow> settles heap (\<lambda>k. P k \<or> Q k) r r''"
  by (auto simp: settles_def filter_filter_mset intro!: filter_mset_cong)

lemma rq_full_table: "rq_full heap r \<Longrightarrow> in_queue x r \<Longrightarrow> inFlightMessages r (inflight_key (heap x)) = Some x"
  by (simp add: rq_full_def in_queue_def)

lemma finish_settles:
  assumes "rq_full heap r" and "finishMessage u d m r = Ret r'"
  shows "settles heap (\<lambda>k. k = getInFlightKey u d m) r r'"
proof -
  have inv: "rq_invar heap r" using assms(1) by (simp add: rq_full_def)
  from finishMessage_cases [OF inv assms(2)] obtain x where x: "inFlightMessages r (getInFlightKey u d m) = Some x"
    "mset (pq_items (inFlightPQ r)) = add_mset x (mset (pq_items (inFlightPQ r')))" "due_at r' = due_at r"
    "inFlightMessages r' = (inFlightMessages r)(getInFlightKey u d m := None)" .
  have full: "rq_full heap r'" by (rule rq_full_finish [OF assms])
  have "in_queue y r' \<Longrightarrow> inflight_key (heap y) \<noteq> getInFlightKey u d m" for y
    using rq_full_table [OF full, of y] x(4) by auto
  then have "filter_mset (\<lambda>y. inflight_key (heap y) \<noteq> getInFlightKey u d m) (mset (pq_items (inFlightPQ r'))) = mset (pq_items (inFlightPQ r'))"
    by (intro filter_mset_all) (simp add: in_queue_def)
  moreover have "inflight_key (heap x) = getInFlightKey u d m" using inv x(1) by (auto simp: rq_invar_def)
  ultimately show ?thesis using full x(2,3) by (simp add: settles_def)
qed

lemma finish_one_settles:
  assumes "finish_one a ack sv = Ret sv'" and "rq_full heap (hb_retry (sv_hub sv))"
  shows "settles heap (\<lambda>k. \<not> NoPersist (rak_Framer ack) \<and> ack_key sv a ack = k) (hb_retry (sv_hub sv)) (hb_retry (sv_hub sv'))"
proof -
  let ?r = "hb_retry (sv_hub sv)"
  let ?fin = "finishMessage (cn_uid (sv_conn sv a)) (cn_deviceID (sv_conn sv a)) (rak_MessageID ack) ?r"
  have none: "settles heap P ?r ?r" if "\<And>x. in_queue x ?r \<Longrightarrow> \<not> P (inflight_key (heap x))" for P
    using assms(2) that by (rule settles_nothing)
  show ?thesis
  proof (cases "NoPersist (rak_Framer ack)")
    case True
    with assms(1) none show ?thesis by (simp add: finish_one_def)
  next
    case False
    show ?thesis
    proof (cases ?fin)
      case (Ret r)
      with assms(1) False finish_settles [OF assms(2) Ret] show ?thesis
        by (auto simp: finish_one_def ack_key_def Let_def settles_def eq_commute)
    next
      case (Fail e)
      from finish_fails [OF this] have "in_queue x ?r \<Longrightarrow> inflight_key (heap x) \<noteq> ack_key sv a ack" for x
        using rq_full_table [OF assms(2), of x] by (auto simp: ack_key_def)
      then have "settles heap (\<lambda>k. \<not> NoPersist (rak_Framer ack) \<and> ack_key sv a ack = k) ?r ?r"
        by (intro none) (metis (no_types))
      moreover have "sv' = sv" using assms(1) False Fail by (simp add: finish_one_def Let_def)
      ultimately show ?thesis by simp
    qed (use assms(1) False in \<open>simp add: finish_one_def Let_def\<close>)
  qed
qed

lemma processRecvacks_settles:
  assumes "processRecvacks w a acks sv = Ret sv'" and "rq_full heap (hb_retry (sv_hub sv))"
  shows "settles heap (\<lambda>k. \<exists>ack \<in> set acks. \<not> NoPersist (rak_Framer ack) \<and> ack_key sv a ack = k)
    (hb_retry (sv_hub sv)) (hb_retry (sv_hub sv'))"
  using assms
proof (induction acks arbitrary: sv)
  case (Cons ack acks)
  then obtain sv1 sv2 where s: "finish_one a ack sv = Ret sv1" "move_cursor w a ack sv1 = Ret sv2"
    "processRecvacks w a acks sv2 = Ret sv'" by (auto simp: bindR_eq_Ret)
  note one = finish_one_settles [OF s(1) Cons.prems(2)]
  have hub: "sv_hub sv2 = sv_hub sv1" by (rule move_cursor_hub [OF s(2)])
  have key: "ack_key sv2 a x = ack_key sv a x" for x by (simp add: ack_key_def hub finish_one_ok(1) [OF s(1)])
  have "rq_full heap (hb_retry (sv_hub sv2))" using one by (simp add: hub settles_def)
  from settles_trans [OF one Cons.IH [OF s(3) this, unfolded hub key]] show ?case by (simp add: conj_disj_distribL ex_disj_distrib)
qed (simp add: settles_nothing)

end
