(* ===== verification/Conversations.thy ===== *)
theory Conversations
  imports Sending
begin

text \<open>
  Recent conversations, \<^verbatim>\<open>internal/server/conversation.go\<close>: every user has a bounded cache of
  conversations, which the messages update and a loop writes to the store. The cache is a library
  (\<^verbatim>\<open>golang-lru\<close>) and a parameter with the laws \<open>lru_ok\<close>: adding may evict another entry when the cache
  is full. Its values are pointers; \<open>lr_change\<close> is an update through one. Locks and the loops'
  channels are not modelled: one operation runs at a time.
\<close>

section \<open>The cache\<close>

record 'l lru =
  lr_new :: 'l
  lr_look :: "'l \<Rightarrow> gostring \<Rightarrow> Conversation option"
  lr_keys :: "'l \<Rightarrow> gostring list"
  lr_touch :: "'l \<Rightarrow> gostring \<Rightarrow> 'l"
  lr_add :: "'l \<Rightarrow> gostring \<Rightarrow> Conversation \<Rightarrow> 'l"
  lr_remove :: "'l \<Rightarrow> gostring \<Rightarrow> 'l"
  lr_change :: "'l \<Rightarrow> gostring \<Rightarrow> (Conversation \<Rightarrow> Conversation) \<Rightarrow> 'l"

definition lru_ok :: "'l lru \<Rightarrow> bool" where
  "lru_ok L \<longleftrightarrow>
     (\<forall>k. lr_look L (lr_new L) k = None) \<and>
     (\<forall>l. distinct (lr_keys L l) \<and> set (lr_keys L l) = {k. lr_look L l k \<noteq> None}) \<and>
     (\<forall>l k. lr_look L (lr_touch L l k) = lr_look L l) \<and>
     (\<forall>l k c. lr_look L (lr_add L l k c) k = Some c \<and>
        (\<forall>k'. k' \<noteq> k \<longrightarrow> lr_look L (lr_add L l k c) k' \<in> {None, lr_look L l k'})) \<and>
     (\<forall>l k c. lr_look L l k \<noteq> None \<longrightarrow> lr_look L (lr_add L l k c) = (lr_look L l)(k \<mapsto> c)) \<and>
     (\<forall>l k. lr_look L (lr_remove L l k) = (lr_look L l)(k := None)) \<and>
     (\<forall>l k f. lr_look L (lr_change L l k f) = (lr_look L l)(k := map_option f (lr_look L l k)))"

text \<open>\<open>Get\<close> also makes the entry the most recent one.\<close>

definition lr_Get :: "'l lru \<Rightarrow> gostring \<Rightarrow> 'l \<Rightarrow> Conversation option \<times> 'l" where
  "lr_Get L k l = (lr_look L l k, lr_touch L l k)"

section \<open>State\<close>

record ('d, 'l) convmanager =
  cv_caches :: "gostring \<rightharpoonup> 'l"
  cv_needSaveChan :: "gostring list"
  cv_needSave :: "gostring list"
  cv_noSaveCount :: int
  cv_needSync :: bool
  cv_queue :: "(message \<times> gostring list) list"
  cv_fs :: "'d filestore"

record ('d, 'l) conv_env =
  ce_lru :: "'l lru"
  ce_bolt :: "'d bolt"
  ce_json :: json_codec
  ce_on :: bool
  ce_cacheExpire :: i64
  ce_SyncOnce :: int

definition PushMessage :: "('d, 'l) conv_env \<Rightarrow> message \<Rightarrow> gostring list \<Rightarrow> ('d, 'l) convmanager \<Rightarrow> ('d, 'l) convmanager" where
  "PushMessage ev m subscribers cv = (if \<not> ce_on ev then cv else cv\<lparr>cv_queue := cv_queue cv @ [(m, subscribers)]\<rparr>)"

definition getUserConversationCache :: "('d, 'l) conv_env \<Rightarrow> gostring \<Rightarrow> ('d, 'l) convmanager \<Rightarrow> 'l \<times> ('d, 'l) convmanager" where
  "getUserConversationCache ev uid cv =
     (case cv_caches cv uid of
        Some l \<Rightarrow> (l, cv)
      | None \<Rightarrow> (lr_new (ce_lru ev), cv\<lparr>cv_caches := (cv_caches cv)(uid \<mapsto> lr_new (ce_lru ev))\<rparr>))"

definition put_cache :: "gostring \<Rightarrow> 'l \<Rightarrow> ('d, 'l) convmanager \<Rightarrow> ('d, 'l) convmanager" where
  "put_cache uid l cv = cv\<lparr>cv_caches := (cv_caches cv)(uid \<mapsto> l)\<rparr>"

text \<open>The channel to the saving loop has no buffer: the list holds what waiting senders offer.\<close>

definition setNeedSave :: "gostring \<Rightarrow> ('d, 'l) convmanager \<Rightarrow> ('d, 'l) convmanager" where
  "setNeedSave uid cv = cv\<lparr>cv_needSaveChan := cv_needSaveChan cv @ [uid]\<rparr>"

definition AddOrUpdateConversation :: "('d, 'l) conv_env \<Rightarrow> gostring \<Rightarrow> Conversation \<Rightarrow> ('d, 'l) convmanager \<Rightarrow> ('d, 'l) convmanager" where
  "AddOrUpdateConversation ev uid conv cv =
     (let (l, cv) = getUserConversationCache ev uid cv in
      setNeedSave uid (put_cache uid (lr_add (ce_lru ev) l (channelKey (cv_ChannelID conv) (cv_ChannelType conv)) conv) cv))"

section \<open>Messages\<close>

text \<open>The channel of a message as the subscriber sees it.\<close>

definition conv_channelID :: "message \<Rightarrow> gostring \<Rightarrow> gostring" where
  "conv_channelID m subscriber = (let r = msg_RecvPacket m in
     if rcv_ChannelType r = ChannelTypePerson \<and> rcv_ChannelID r = subscriber then rcv_FromUID r else rcv_ChannelID r)"

definition unread :: "message \<Rightarrow> gostring \<Rightarrow> bool" where
  "unread m subscriber \<longleftrightarrow> RedDot (rcv_Framer (msg_RecvPacket m)) \<and> rcv_FromUID (msg_RecvPacket m) \<noteq> subscriber"

definition new_conversation :: "i64 \<Rightarrow> message \<Rightarrow> gostring \<Rightarrow> Conversation" where
  "new_conversation now m subscriber = (let r = msg_RecvPacket m in
     \<lparr>cv_UID = subscriber, cv_ChannelID = conv_channelID m subscriber, cv_ChannelType = rcv_ChannelType r,
      cv_UnreadCount = (if unread m subscriber then 1 else 0), cv_Timestamp = scast (rcv_Timestamp r),
      cv_LastMsgSeq = rcv_MessageSeq r, cv_LastClientMsgNo = rcv_ClientMsgNo r, cv_LastMsgID = rcv_MessageID r,
      cv_Version = now\<rparr>)"

definition modified :: "message \<Rightarrow> gostring \<Rightarrow> Conversation \<Rightarrow> bool" where
  "modified m subscriber c \<longleftrightarrow> unread m subscriber \<or> cv_LastMsgSeq c < rcv_MessageSeq (msg_RecvPacket m)"

definition update_conversation :: "i64 \<Rightarrow> message \<Rightarrow> gostring \<Rightarrow> Conversation \<Rightarrow> Conversation" where
  "update_conversation now m subscriber c =
     (let r = msg_RecvPacket m;
          c' = (if unread m subscriber then c\<lparr>cv_UnreadCount := cv_UnreadCount c + 1\<rparr> else c);
          c' = (if cv_LastMsgSeq c' < rcv_MessageSeq r
                then c'\<lparr>cv_Timestamp := scast (rcv_Timestamp r), cv_LastClientMsgNo := rcv_ClientMsgNo r,
                        cv_LastMsgSeq := rcv_MessageSeq r, cv_LastMsgID := rcv_MessageID r\<rparr> else c') in
      if modified m subscriber c then c'\<lparr>cv_Version := now\<rparr> else c')"

definition calConversation :: "('d, 'l) conv_env \<Rightarrow> i64 \<Rightarrow> message \<Rightarrow> gostring \<Rightarrow> ('d, 'l) convmanager \<Rightarrow> ('d, 'l) convmanager outcome" where
  "calConversation ev now m subscriber cv =
     (let L = ce_lru ev; (l, cv) = getUserConversationCache ev subscriber cv;
          channelID = conv_channelID m subscriber; t = rcv_ChannelType (msg_RecvPacket m); k = channelKey channelID t;
          (cached, l) = lr_Get L k l; cv = put_cache subscriber l cv in
      case (case cached of Some c \<Rightarrow> Ret (Some c)
            | None \<Rightarrow> (case GetConversation (ce_bolt ev) (ce_json ev) subscriber channelID t (cv_fs cv) of
                 Fail _ \<Rightarrow> Ret None | r \<Rightarrow> r)) of
        Panic \<Rightarrow> Panic
      | Fail e \<Rightarrow> Fail e
      | Ret None \<Rightarrow> Ret (AddOrUpdateConversation ev subscriber (new_conversation now m subscriber) cv)
      | Ret (Some c) \<Rightarrow>
          if modified m subscriber c
          then Ret (AddOrUpdateConversation ev subscriber (update_conversation now m subscriber c)
            (case cached of None \<Rightarrow> cv | Some _ \<Rightarrow> put_cache subscriber (lr_change L l k (update_conversation now m subscriber)) cv))
          else Ret cv)"

text \<open>The loop takes a message from the queue and applies it to every subscriber.\<close>

fun cal_subscribers :: "('d, 'l) conv_env \<Rightarrow> i64 \<Rightarrow> message \<Rightarrow> gostring list \<Rightarrow> ('d, 'l) convmanager \<Rightarrow> ('d, 'l) convmanager outcome" where
  "cal_subscribers ev now m [] cv = Ret cv"
| "cal_subscribers ev now m (s # ss) cv = bindR (calConversation ev now m s cv) (cal_subscribers ev now m ss)"

definition calc_step :: "('d, 'l) conv_env \<Rightarrow> i64 \<Rightarrow> ('d, 'l) convmanager \<Rightarrow> ('d, 'l) convmanager outcome" where
  "calc_step ev now cv =
     (case cv_queue cv of [] \<Rightarrow> Ret cv
      | (m, subs) # q \<Rightarrow> cal_subscribers ev now m subs (cv\<lparr>cv_queue := q\<rparr>))"

section \<open>Reading and changing conversations\<close>

definition cached_conversations :: "'l lru \<Rightarrow> 'l \<Rightarrow> Conversation list" where
  "cached_conversations L l = List.map_filter (lr_look L l) (lr_keys L l)"

definition touch_all :: "'l lru \<Rightarrow> 'l \<Rightarrow> 'l" where
  "touch_all L l = fold (\<lambda>k l. lr_touch L l k) (lr_keys L l) l"

definition getUserCacheConversations :: "('d, 'l) conv_env \<Rightarrow> gostring \<Rightarrow> ('d, 'l) convmanager \<Rightarrow> Conversation list \<times> ('d, 'l) convmanager" where
  "getUserCacheConversations ev uid cv =
     (let (l, cv) = getUserConversationCache ev uid cv in
      (cached_conversations (ce_lru ev) l, put_cache uid (touch_all (ce_lru ev) l) cv))"

definition mgr_GetConversation ::
    "('d, 'l) conv_env \<Rightarrow> gostring \<Rightarrow> gostring \<Rightarrow> u8 \<Rightarrow> ('d, 'l) convmanager \<Rightarrow> Conversation option outcome \<times> ('d, 'l) convmanager" where
  "mgr_GetConversation ev uid channelID channelType cv =
     (let (cs, cv) = getUserCacheConversations ev uid cv in
      case find (\<lambda>c. cv_ChannelID c = channelID \<and> cv_ChannelType c = channelType) cs of
        Some c \<Rightarrow> (Ret (Some c), cv)
      | None \<Rightarrow> (case GetConversation (ce_bolt ev) (ce_json ev) uid channelID channelType (cv_fs cv) of
          Fail _ \<Rightarrow> (Ret None, cv) | r \<Rightarrow> (r, cv)))"

definition set_unread :: "i64 \<Rightarrow> u32 \<Rightarrow> Conversation \<Rightarrow> Conversation" where
  "set_unread n messageSeq c =
     (let c = c\<lparr>cv_UnreadCount := n\<rparr> in if messageSeq > 0 then c\<lparr>cv_LastMsgSeq := messageSeq\<rparr> else c)"

fun unread_loop :: "'l lru \<Rightarrow> gostring \<Rightarrow> u8 \<Rightarrow> i64 \<Rightarrow> u32 \<Rightarrow> gostring list \<Rightarrow> 'l \<Rightarrow> (bool \<times> 'l) outcome" where
  "unread_loop L channelID channelType n messageSeq [] l = Ret (False, l)"
| "unread_loop L channelID channelType n messageSeq (k # ks) l =
     (let (c, l) = lr_Get L k l in
      case c of
        None \<Rightarrow> Panic
      | Some c \<Rightarrow>
          if channelID = cv_ChannelID c \<and> channelType = cv_ChannelType c
          then Ret (True, lr_change L l k (set_unread n messageSeq))
          else unread_loop L channelID channelType n messageSeq ks l)"

definition SetConversationUnread ::
    "('d, 'l) conv_env \<Rightarrow> gostring \<Rightarrow> gostring \<Rightarrow> u8 \<Rightarrow> i64 \<Rightarrow> u32 \<Rightarrow> ('d, 'l) convmanager \<Rightarrow> ('d, 'l) convmanager outcome" where
  "SetConversationUnread ev uid channelID channelType n messageSeq cv =
     (let L = ce_lru ev; (l, cv) = getUserConversationCache ev uid cv in
      bindR (unread_loop L channelID channelType n messageSeq (lr_keys L l) l) (\<lambda>(found, l).
        let cv = put_cache uid l cv in
        if found then Ret (setNeedSave uid cv)
        else bindR (GetConversation (ce_bolt ev) (ce_json ev) uid channelID channelType (cv_fs cv)) (\<lambda>c.
          case c of
            None \<Rightarrow> Ret cv
          | Some c \<Rightarrow>
              let c = set_unread n messageSeq c in
              Ret (setNeedSave uid (put_cache uid (lr_add L l (channelKey (cv_ChannelID c) (cv_ChannelType c)) c) cv)))))"

definition delete_one :: "('d, 'l) conv_env \<Rightarrow> gostring \<Rightarrow> u8 \<Rightarrow> gostring \<Rightarrow> ('d, 'l) convmanager \<Rightarrow> ('d, 'l) convmanager outcome" where
  "delete_one ev channelID channelType uid cv =
     (let L = ce_lru ev; (l, cv) = getUserConversationCache ev uid cv; k = channelKey channelID channelType;
          cv = put_cache uid (if k \<in> set (lr_keys L l) then lr_remove L l k else l) cv in
      case StoreTables.DeleteConversation (ce_bolt ev) (ce_json ev) uid channelID channelType (cv_fs cv) of
        Ret fs \<Rightarrow> Ret (cv\<lparr>cv_fs := fs\<rparr>) | Fail _ \<Rightarrow> Ret cv | Panic \<Rightarrow> Panic)"

fun mgr_DeleteConversation :: "('d, 'l) conv_env \<Rightarrow> gostring list \<Rightarrow> gostring \<Rightarrow> u8 \<Rightarrow> ('d, 'l) convmanager \<Rightarrow> ('d, 'l) convmanager outcome" where
  "mgr_DeleteConversation ev [] channelID channelType cv = Ret cv"
| "mgr_DeleteConversation ev (uid # uids) channelID channelType cv =
     bindR (delete_one ev channelID channelType uid cv) (mgr_DeleteConversation ev uids channelID channelType)"

definition channelInLarges :: "gostring \<Rightarrow> u8 \<Rightarrow> (gostring \<times> u8) list \<Rightarrow> bool" where
  "channelInLarges channelID channelType larges = list_ex (\<lambda>lg. fst lg = channelID \<and> snd lg = channelType) larges"

text \<open>The stored conversations with the cached ones over them; the comparison is with the stored list.\<close>

definition overlay_one :: "Conversation list \<Rightarrow> Conversation \<Rightarrow> Conversation list \<Rightarrow> Conversation list" where
  "overlay_one old u cs =
     (case index_where (\<lambda>c. cv_ChannelID c = cv_ChannelID u \<and> cv_ChannelType c = cv_ChannelType u) old of
        None \<Rightarrow> cs @ [u] | Some i \<Rightarrow> cs[i := u])"

text \<open>\<open>sort.Sort\<close> is not stable: \<open>sorter\<close> is any function that orders by time, latest first.\<close>

definition mgr_GetConversations ::
    "('d, 'l) conv_env \<Rightarrow> (Conversation list \<Rightarrow> Conversation list) \<Rightarrow> gostring \<Rightarrow> i64 \<Rightarrow> (gostring \<times> u8) list \<Rightarrow>
     ('d, 'l) convmanager \<Rightarrow> Conversation list outcome \<times> ('d, 'l) convmanager" where
  "mgr_GetConversations ev sorter uid version larges cv =
     (case StoreTables.GetConversations (ce_bolt ev) (ce_json ev) uid (cv_fs cv) of
        Panic \<Rightarrow> (Panic, cv)
      | Fail _ \<Rightarrow> (Ret [], cv)
      | Ret old \<Rightarrow>
          (let (us, cv) = getUserCacheConversations ev uid cv in
           (Ret (sorter (filter (\<lambda>c. version \<le>s 0 \<or> version <s cv_Version c \<or>
              channelInLarges (cv_ChannelID c) (cv_ChannelType c) larges) (fold (overlay_one old) us old))), cv)))"

section \<open>Saving\<close>

definition expired :: "('d, 'l) conv_env \<Rightarrow> i64 \<Rightarrow> Conversation \<Rightarrow> bool" where
  "expired ev now c \<longleftrightarrow> cv_Timestamp c + ce_cacheExpire ev <s now"

definition flushUserConversations :: "('d, 'l) conv_env \<Rightarrow> i64 \<Rightarrow> gostring \<Rightarrow> ('d, 'l) convmanager \<Rightarrow> ('d, 'l) convmanager outcome" where
  "flushUserConversations ev now uid cv =
     (let L = ce_lru ev; (l, cv) = getUserConversationCache ev uid cv; cs = cached_conversations L l;
          l = touch_all L l; cv = put_cache uid l cv in
      case StoreTables.AddOrUpdateConversations (ce_bolt ev) (ce_json ev) uid cs (cv_fs cv) of
        Panic \<Rightarrow> Panic
      | Fail _ \<Rightarrow> Ret cv
      | Ret fs \<Rightarrow> Ret (put_cache uid
          (fold (\<lambda>c l. if expired ev now c then lr_remove L l (channelKey (cv_ChannelID c) (cv_ChannelType c)) else l) cs l)
          (cv\<lparr>cv_fs := fs, cv_needSave := removeAll uid (cv_needSave cv)\<rparr>)))"

fun flush_users :: "('d, 'l) conv_env \<Rightarrow> i64 \<Rightarrow> gostring list \<Rightarrow> ('d, 'l) convmanager \<Rightarrow> ('d, 'l) convmanager outcome" where
  "flush_users ev now [] cv = Ret cv"
| "flush_users ev now (uid # uids) cv = bindR (flushUserConversations ev now uid cv) (flush_users ev now uids)"

definition FlushConversations :: "('d, 'l) conv_env \<Rightarrow> (gostring list \<Rightarrow> gostring list) \<Rightarrow> i64 \<Rightarrow> ('d, 'l) convmanager \<Rightarrow> ('d, 'l) convmanager outcome" where
  "FlushConversations ev ord now cv = flush_users ev now (ord (cv_needSave cv)) cv"

text \<open>One round of the saving loop: what is due is written, then one event is received.\<close>

datatype save_event = NeedSave | Tick

definition save_due :: "('d, 'l) conv_env \<Rightarrow> (gostring list \<Rightarrow> gostring list) \<Rightarrow> i64 \<Rightarrow> ('d, 'l) convmanager \<Rightarrow> ('d, 'l) convmanager outcome" where
  "save_due ev ord now cv =
     (let cv = (if ce_SyncOnce ev \<le> cv_noSaveCount cv then cv\<lparr>cv_needSync := True\<rparr> else cv) in
      if cv_needSync cv
      then mapR (\<lambda>cv. cv\<lparr>cv_needSync := False\<rparr>) (FlushConversations ev ord now (cv\<lparr>cv_noSaveCount := 0\<rparr>))
      else Ret cv)"

definition save_receive :: "save_event \<Rightarrow> ('d, 'l) convmanager \<Rightarrow> ('d, 'l) convmanager" where
  "save_receive e cv =
     (case e of
        Tick \<Rightarrow> if cv_noSaveCount cv > 0 then cv\<lparr>cv_needSync := True\<rparr> else cv
      | NeedSave \<Rightarrow>
          (case cv_needSaveChan cv of
             [] \<Rightarrow> cv
           | uid # uids \<Rightarrow>
               let cv = cv\<lparr>cv_needSaveChan := uids\<rparr> in
               if uid \<notin> set (cv_needSave cv)
               then cv\<lparr>cv_needSave := cv_needSave cv @ [uid], cv_noSaveCount := cv_noSaveCount cv + 1\<rparr> else cv))"

definition saveloop_step ::
    "('d, 'l) conv_env \<Rightarrow> (gostring list \<Rightarrow> gostring list) \<Rightarrow> i64 \<Rightarrow> save_event \<Rightarrow> ('d, 'l) convmanager \<Rightarrow> ('d, 'l) convmanager outcome" where
  "saveloop_step ev ord now e cv = mapR (save_receive e) (save_due ev ord now cv)"

definition clear_user :: "('d, 'l) conv_env \<Rightarrow> i64 \<Rightarrow> 'l \<Rightarrow> 'l option" where
  "clear_user ev now l =
     (let L = ce_lru ev;
          l = fold (\<lambda>k l. case lr_look L l k of None \<Rightarrow> lr_touch L l k
                | Some c \<Rightarrow> if expired ev now c then lr_remove L (lr_touch L l k) k else lr_touch L l k) (lr_keys L l) l in
      if length (lr_keys L l) = 0 then None else Some l)"

definition clearExpireConversations :: "('d, 'l) conv_env \<Rightarrow> i64 \<Rightarrow> ('d, 'l) convmanager \<Rightarrow> ('d, 'l) convmanager" where
  "clearExpireConversations ev now cv =
     cv\<lparr>cv_caches := (\<lambda>uid. case cv_caches cv uid of None \<Rightarrow> None | Some l \<Rightarrow> clear_user ev now l)\<rparr>"

section \<open>Counting messages\<close>

lemma lru_facts:
  assumes "lru_ok L"
  shows "lr_look L (lr_new L) k = None"
    and "distinct (lr_keys L l)" and "set (lr_keys L l) = {k. lr_look L l k \<noteq> None}"
    and "lr_look L (lr_touch L l k) = lr_look L l"
    and "lr_look L (lr_add L l k c) k = Some c"
    and "lr_look L l k \<noteq> None \<Longrightarrow> lr_look L (lr_add L l k c) = (lr_look L l)(k \<mapsto> c)"
    and "lr_look L (lr_remove L l k) = (lr_look L l)(k := None)"
    and "lr_look L (lr_change L l k f) = (lr_look L l)(k := map_option f (lr_look L l k))"
  using assms by (simp_all add: lru_ok_def)

lemma lru_add_other:
  assumes "lru_ok L" and "lr_look L (lr_add L l k c) k' = Some d" and "k' \<noteq> k"
  shows "lr_look L l k' = Some d"
proof -
  have "lr_look L (lr_add L l k c) k' \<in> {None, lr_look L l k'}" using assms(1,3) unfolding lru_ok_def by blast
  with assms(2) show ?thesis by auto
qed

text \<open>The conversation that a user has with a channel is the cached one, or else the stored one. Every
  cached conversation is under the key of its own channel.\<close>

definition cached :: "('d, 'l) conv_env \<Rightarrow> gostring \<Rightarrow> ('d, 'l) convmanager \<Rightarrow> gostring \<Rightarrow> Conversation option" where
  "cached ev uid cv k = (case cv_caches cv uid of None \<Rightarrow> None | Some l \<Rightarrow> lr_look (ce_lru ev) l k)"

definition seen :: "('d, 'l) conv_env \<Rightarrow> gostring \<Rightarrow> gostring \<times> u8 \<Rightarrow> ('d, 'l) convmanager \<Rightarrow> Conversation option outcome" where
  "seen ev uid ch cv =
     (case cached ev uid cv (channelKey (fst ch) (snd ch)) of
        Some c \<Rightarrow> Ret (Some c)
      | None \<Rightarrow> GetConversation (ce_bolt ev) (ce_json ev) uid (fst ch) (snd ch) (cv_fs cv))"

definition caches_ok :: "('d, 'l) conv_env \<Rightarrow> ('d, 'l) convmanager \<Rightarrow> bool" where
  "caches_ok ev cv \<longleftrightarrow>
     (\<forall>uid k c. cached ev uid cv k = Some c \<longrightarrow> k = channelKey (cv_ChannelID c) (cv_ChannelType c))"

lemma getUserConversationCache_ok:
  assumes "lru_ok (ce_lru ev)" and "getUserConversationCache ev uid cv = (l, cv1)"
  shows "cv_caches cv1 = (cv_caches cv)(uid \<mapsto> l)" and "lr_look (ce_lru ev) l = cached ev uid cv"
    and "cv_fs cv1 = cv_fs cv" and "cv_queue cv1 = cv_queue cv" and "cv_needSave cv1 = cv_needSave cv"
    and "cv_needSaveChan cv1 = cv_needSaveChan cv"
  using assms(2) lru_facts(1) [OF assms(1)]
  by (auto simp: getUserConversationCache_def cached_def fun_eq_iff split: option.splits)

lemma put_cache_simps [simp]:
  "cv_caches (put_cache uid l cv) = (cv_caches cv)(uid \<mapsto> l)" "cv_fs (put_cache uid l cv) = cv_fs cv"
  "cv_queue (put_cache uid l cv) = cv_queue cv" "cv_needSave (put_cache uid l cv) = cv_needSave cv"
  "cv_needSaveChan (put_cache uid l cv) = cv_needSaveChan cv"
  by (simp_all add: put_cache_def)

lemma setNeedSave_simps [simp]:
  "cv_caches (setNeedSave uid cv) = cv_caches cv" "cv_fs (setNeedSave uid cv) = cv_fs cv"
  "cv_queue (setNeedSave uid cv) = cv_queue cv" "cv_needSave (setNeedSave uid cv) = cv_needSave cv"
  "cv_needSaveChan (setNeedSave uid cv) = cv_needSaveChan cv @ [uid]"
  by (auto simp: setNeedSave_def)

lemma AddOrUpdateConversation_ok:
  assumes "lru_ok (ce_lru ev)" and "caches_ok ev cv"
  shows "caches_ok ev (AddOrUpdateConversation ev uid c cv)"
    and "seen ev uid (conv_channel c) (AddOrUpdateConversation ev uid c cv) = Ret (Some c)"
    and "cv_fs (AddOrUpdateConversation ev uid c cv) = cv_fs cv"
    and "cv_queue (AddOrUpdateConversation ev uid c cv) = cv_queue cv"
    and "u \<noteq> uid \<Longrightarrow> cv_caches (AddOrUpdateConversation ev uid c cv) u = cv_caches cv u"
    and "cv_needSaveChan (AddOrUpdateConversation ev uid c cv) = cv_needSaveChan cv @ [uid]"
    and "cv_needSave (AddOrUpdateConversation ev uid c cv) = cv_needSave cv"
proof -
  obtain l cv1 where g: "getUserConversationCache ev uid cv = (l, cv1)" by fastforce
  note G = getUserConversationCache_ok [OF assms(1) g]
  let ?k = "channelKey (cv_ChannelID c) (cv_ChannelType c)"
  have r: "AddOrUpdateConversation ev uid c cv = setNeedSave uid (put_cache uid (lr_add (ce_lru ev) l ?k c) cv1)"
    by (simp add: AddOrUpdateConversation_def g)
  have look: "k = channelKey (cv_ChannelID d) (cv_ChannelType d)" if "lr_look (ce_lru ev) (lr_add (ce_lru ev) l ?k c) k = Some d" for k d
  proof (cases "k = ?k")
    case True
    with that lru_facts(5) [OF assms(1)] show ?thesis by simp
  next
    case False
    from lru_add_other [OF assms(1) that False] G(2) assms(2) show ?thesis unfolding caches_ok_def by metis
  qed
  show "caches_ok ev (AddOrUpdateConversation ev uid c cv)"
    unfolding caches_ok_def
  proof (intro allI impI)
    fix u k d assume h: "cached ev u (AddOrUpdateConversation ev uid c cv) k = Some d"
    show "k = channelKey (cv_ChannelID d) (cv_ChannelType d)"
    proof (cases "u = uid")
      case True
      with h look show ?thesis by (simp add: r cached_def)
    next
      case False
      with h have "cached ev u cv k = Some d" by (simp add: r cached_def G(1))
      with assms(2) show ?thesis by (simp add: caches_ok_def)
    qed
  qed
  show "seen ev uid (conv_channel c) (AddOrUpdateConversation ev uid c cv) = Ret (Some c)"
    by (simp add: r seen_def cached_def conv_channel_def lru_facts(5) [OF assms(1)])
qed (simp_all add: AddOrUpdateConversation_def getUserConversationCache_def put_cache_def setNeedSave_def Let_def
       split: option.splits prod.splits)

text \<open>What a message makes of the conversation.\<close>

definition applied :: "i64 \<Rightarrow> message \<Rightarrow> gostring \<Rightarrow> Conversation option \<Rightarrow> Conversation" where
  "applied now m uid old = (case old of None \<Rightarrow> new_conversation now m uid | Some c \<Rightarrow> update_conversation now m uid c)"

definition conv_of_message :: "message \<Rightarrow> gostring \<Rightarrow> gostring \<times> u8" where
  "conv_of_message m uid = (conv_channelID m uid, rcv_ChannelType (msg_RecvPacket m))"

lemma conv_channel_applied:
  "conv_channel (new_conversation now m uid) = conv_of_message m uid"
  "conv_channel (update_conversation now m uid c) = conv_channel c"
  by (simp_all add: conv_channel_def conv_of_message_def new_conversation_def update_conversation_def Let_def)

lemma update_unmodified: "\<not> modified m uid c \<Longrightarrow> update_conversation now m uid c = c"
  by (auto simp: modified_def update_conversation_def Let_def)

lemma seen_channel:
  assumes "caches_ok ev cv" and "seen ev uid ch cv = Ret (Some c)"
  shows "conv_channel c = ch"
proof (cases "cached ev uid cv (channelKey (fst ch) (snd ch))")
  case None
  with assms(2) have "GetConversation (ce_bolt ev) (ce_json ev) uid (fst ch) (snd ch) (cv_fs cv) = Ret (Some c)"
    by (simp add: seen_def)
  then show ?thesis
    by (auto simp: GetConversation_def mapR_def conv_channel_def find_Some_iff bindR_eq_Ret)
next
  case (Some d)
  with assms(2) have "c = d" by (simp add: seen_def)
  with Some assms(1) have "channelKey (fst ch) (snd ch) = channelKey (cv_ChannelID c) (cv_ChannelType c)"
    unfolding caches_ok_def by blast
  then show ?thesis by (simp add: conv_channel_def prod_eq_iff)
qed

lemma cached_put_same:
  "cached ev uid (put_cache uid l cv) = lr_look (ce_lru ev) l"
  by (simp add: cached_def fun_eq_iff)

lemma caches_ok_put:
  assumes "caches_ok ev cv" and "\<And>k c. lr_look (ce_lru ev) l k = Some c \<Longrightarrow> k = channelKey (cv_ChannelID c) (cv_ChannelType c)"
    and "cv_caches cv1 = (cv_caches cv)(uid \<mapsto> l)"
  shows "caches_ok ev cv1"
  using assms unfolding caches_ok_def cached_def by (auto split: option.splits if_splits)

lemma calConversation_ok:
  assumes lru: "lru_ok (ce_lru ev)" and "caches_ok ev cv" and "seen ev uid (conv_of_message m uid) cv = Ret old"
  shows "\<exists>cv'. calConversation ev now m uid cv = Ret cv' \<and> caches_ok ev cv' \<and> cv_fs cv' = cv_fs cv \<and>
    cv_queue cv' = cv_queue cv \<and> (\<forall>u. u \<noteq> uid \<longrightarrow> cv_caches cv' u = cv_caches cv u) \<and>
    seen ev uid (conv_of_message m uid) cv' = Ret (Some (applied now m uid old))"
proof -
  obtain l cv1 where g: "getUserConversationCache ev uid cv = (l, cv1)" by fastforce
  note G = getUserConversationCache_ok [OF lru g]
  let ?k = "channelKey (conv_channelID m uid) (rcv_ChannelType (msg_RecvPacket m))"
  let ?cv = "put_cache uid (lr_touch (ce_lru ev) l ?k) cv1"
  have look: "k = channelKey (cv_ChannelID c) (cv_ChannelType c)" if "lr_look (ce_lru ev) l k = Some c" for k c
    using that assms(2) G(2) by (simp add: caches_ok_def)
  have ok: "caches_ok ev ?cv"
    by (rule caches_ok_put [OF assms(2), where uid = uid and l = "lr_touch (ce_lru ev) l ?k"])
      (simp_all add: lru_facts(4) [OF lru] look G(1))
  have key: "channelKey (fst (conv_of_message m uid)) (snd (conv_of_message m uid)) = ?k"
    by (simp add: conv_of_message_def)
  have add: "\<exists>cv'. Ret (AddOrUpdateConversation ev uid c cv2) = Ret cv' \<and> caches_ok ev cv' \<and> cv_fs cv' = cv_fs cv \<and>
      cv_queue cv' = cv_queue cv \<and> (\<forall>u. u \<noteq> uid \<longrightarrow> cv_caches cv' u = cv_caches cv u) \<and>
      seen ev uid (conv_of_message m uid) cv' = Ret (Some c)"
    if "caches_ok ev cv2" "cv_fs cv2 = cv_fs cv" "cv_queue cv2 = cv_queue cv"
      "\<And>u. u \<noteq> uid \<Longrightarrow> cv_caches cv2 u = cv_caches cv u" "conv_channel c = conv_of_message m uid" for c cv2
    using AddOrUpdateConversation_ok [OF lru that(1), where uid = uid and c = c] that by simp
  have same: "seen ev uid (conv_of_message m uid) ?cv = Ret old"
    using assms(3) by (auto simp: seen_def key cached_put_same lru_facts(4) [OF lru] G split: option.splits)
  show ?thesis
  proof (cases "lr_look (ce_lru ev) l ?k")
    case None
    then have st: "GetConversation (ce_bolt ev) (ce_json ev) uid (conv_channelID m uid)
        (rcv_ChannelType (msg_RecvPacket m)) (cv_fs cv) = Ret old"
      using assms(3) G(2) key by (simp add: seen_def conv_of_message_def)
    show ?thesis
    proof (cases old)
      case N: None
      have r: "calConversation ev now m uid cv = Ret (AddOrUpdateConversation ev uid (applied now m uid old) ?cv)"
        using st N None by (simp add: calConversation_def g lr_Get_def applied_def G)
      show ?thesis unfolding r by (rule add [OF ok]) (simp_all add: G applied_def N conv_channel_applied)
    next
      case (Some c)
      have ch: "conv_channel c = conv_of_message m uid" using seen_channel [OF assms(2)] assms(3) Some by simp
      show ?thesis
      proof (cases "modified m uid c")
        case True
        have r: "calConversation ev now m uid cv = Ret (AddOrUpdateConversation ev uid (applied now m uid old) ?cv)"
          using st Some None True by (simp add: calConversation_def g lr_Get_def applied_def G)
        show ?thesis unfolding r by (rule add [OF ok]) (simp_all add: G applied_def Some conv_channel_applied ch)
      next
        case False
        have r: "calConversation ev now m uid cv = Ret ?cv"
          using st Some None False by (simp add: calConversation_def g lr_Get_def G)
        show ?thesis unfolding r using ok same by (simp add: G applied_def Some update_unmodified [OF False])
      qed
    qed
  next
    case (Some c)
    then have old: "old = Some c" using assms(3) G(2) key by (simp add: seen_def)
    have ch: "conv_channel c = conv_of_message m uid" using seen_channel [OF assms(2)] assms(3) old by simp
    let ?l = "lr_change (ce_lru ev) (lr_touch (ce_lru ev) l ?k) ?k (update_conversation now m uid)"
    have ok': "caches_ok ev (put_cache uid ?l ?cv)"
    proof (rule caches_ok_put [OF assms(2), where uid = uid and l = ?l])
      fix k d assume h: "lr_look (ce_lru ev) ?l k = Some d"
      have upd: "cv_ChannelID (update_conversation now m uid c) = cv_ChannelID c"
        "cv_ChannelType (update_conversation now m uid c) = cv_ChannelType c"
        by (simp_all add: update_conversation_def Let_def)
      show "k = channelKey (cv_ChannelID d) (cv_ChannelType d)"
      proof (cases "k = ?k")
        case True
        with h Some have "d = update_conversation now m uid c" by (simp add: lru_facts(4,8) [OF lru])
        with look [OF Some] True show ?thesis by (simp add: upd)
      next
        case False
        with h have "lr_look (ce_lru ev) l k = Some d" by (simp add: lru_facts(4,8) [OF lru])
        then show ?thesis by (rule look)
      qed
    qed (simp_all add: G(1))
    show ?thesis
    proof (cases "modified m uid c")
      case True
      have r: "calConversation ev now m uid cv = Ret (AddOrUpdateConversation ev uid (applied now m uid old) (put_cache uid ?l ?cv))"
        using Some True by (simp add: calConversation_def g lr_Get_def applied_def old Let_def)
      show ?thesis unfolding r by (rule add [OF ok']) (simp_all add: G applied_def old conv_channel_applied ch)
    next
      case False
      have r: "calConversation ev now m uid cv = Ret ?cv"
        using Some False by (simp add: calConversation_def g lr_Get_def Let_def)
      show ?thesis unfolding r using ok same by (simp add: G applied_def old update_unmodified [OF False])
    qed
  qed
qed

text \<open>The store can be read: every user's conversations are there.\<close>

definition readable :: "('d, 'l) conv_env \<Rightarrow> 'd filestore \<Rightarrow> bool" where
  "readable ev fs \<longleftrightarrow> (\<forall>uid. \<exists>cs. StoreTables.GetConversations (ce_bolt ev) (ce_json ev) uid fs = Ret cs)"

lemma seen_readable:
  assumes "readable ev (cv_fs cv)"
  shows "\<exists>old. seen ev uid ch cv = Ret old"
proof -
  obtain cs where "StoreTables.GetConversations (ce_bolt ev) (ce_json ev) uid (cv_fs cv) = Ret cs"
    using assms unfolding readable_def by blast
  then show ?thesis by (simp add: seen_def GetConversation_def mapR_def split: option.split)
qed

lemma seen_caches:
  assumes "cv_caches cv' uid = cv_caches cv uid" and "cv_fs cv' = cv_fs cv"
  shows "seen ev uid ch cv' = seen ev uid ch cv"
  using assms by (simp add: seen_def cached_def split: option.split)

lemma cal_subscribers_ok:
  assumes "lru_ok (ce_lru ev)" and "caches_ok ev cv" and "readable ev (cv_fs cv)" and "distinct ss"
  shows "\<exists>cv'. cal_subscribers ev now m ss cv = Ret cv' \<and> caches_ok ev cv' \<and> cv_fs cv' = cv_fs cv \<and>
    cv_queue cv' = cv_queue cv \<and> (\<forall>u. u \<notin> set ss \<longrightarrow> cv_caches cv' u = cv_caches cv u) \<and>
    (\<forall>u old. u \<in> set ss \<longrightarrow> seen ev u (conv_of_message m u) cv = Ret old \<longrightarrow>
      seen ev u (conv_of_message m u) cv' = Ret (Some (applied now m u old)))"
  using assms(2-4)
proof (induction ss arbitrary: cv)
  case (Cons s ss)
  obtain old where o: "seen ev s (conv_of_message m s) cv = Ret old" using seen_readable [OF Cons.prems(2)] by blast
  obtain cv1 where 1: "calConversation ev now m s cv = Ret cv1" "caches_ok ev cv1" "cv_fs cv1 = cv_fs cv"
      "cv_queue cv1 = cv_queue cv" "\<And>u. u \<noteq> s \<Longrightarrow> cv_caches cv1 u = cv_caches cv u"
      "seen ev s (conv_of_message m s) cv1 = Ret (Some (applied now m s old))"
    using calConversation_ok [OF assms(1) Cons.prems(1) o, of now] by blast
  obtain cv2 where 2: "cal_subscribers ev now m ss cv1 = Ret cv2" "caches_ok ev cv2" "cv_fs cv2 = cv_fs cv1"
      "cv_queue cv2 = cv_queue cv1" "\<And>u. u \<notin> set ss \<Longrightarrow> cv_caches cv2 u = cv_caches cv1 u"
      "\<And>u old. u \<in> set ss \<Longrightarrow> seen ev u (conv_of_message m u) cv1 = Ret old \<Longrightarrow>
        seen ev u (conv_of_message m u) cv2 = Ret (Some (applied now m u old))"
    using Cons.IH [OF 1(2)] Cons.prems(2,3) 1(3) by auto
  have "seen ev u (conv_of_message m u) cv2 = Ret (Some (applied now m u o'))"
    if u: "u \<in> set (s # ss)" "seen ev u (conv_of_message m u) cv = Ret o'" for u o'
  proof (cases "u = s")
    case True
    with Cons.prems(3) have "u \<notin> set ss" by simp
    with seen_caches [OF 2(5) 2(3)] 1(6) o u(2) True show ?thesis by simp
  next
    case False
    with u seen_caches [OF 1(5) 1(3)] show ?thesis by (intro 2(6)) auto
  qed
  with 1 2 show ?case by auto
qed simp

text \<open>A series of steps of the loop, each with its time.\<close>

fun calc_steps :: "('d, 'l) conv_env \<Rightarrow> i64 list \<Rightarrow> ('d, 'l) convmanager \<Rightarrow> ('d, 'l) convmanager outcome" where
  "calc_steps ev [] cv = Ret cv"
| "calc_steps ev (now # nows) cv = bindR (calc_step ev now cv) (calc_steps ev nows)"

definition unread_of :: "Conversation option \<Rightarrow> i64" where
  "unread_of old = (case old of None \<Rightarrow> 0 | Some c \<Rightarrow> cv_UnreadCount c)"

definition seq_of :: "Conversation option \<Rightarrow> u32" where
  "seq_of old = (case old of None \<Rightarrow> 0 | Some c \<Rightarrow> cv_LastMsgSeq c)"

lemma applied_counts:
  "unread_of (Some (applied now m uid old)) = unread_of old + (if unread m uid then 1 else 0)"
  "seq_of (Some (applied now m uid old)) = max (seq_of old) (rcv_MessageSeq (msg_RecvPacket m))"
  by (auto simp: unread_of_def seq_of_def applied_def new_conversation_def update_conversation_def Let_def max_def
      split: option.splits)

text \<open>The messages of the queue that a user gets.\<close>

definition mine :: "gostring \<Rightarrow> (message \<times> gostring list) list \<Rightarrow> message list" where
  "mine uid q = map fst (filter (\<lambda>x. uid \<in> set (snd x)) q)"

text \<open>After the queue has been worked off, the unread count of a user's conversation has grown by the
  messages of others that show the red dot, and its sequence number is the largest one.\<close>

lemma calc_steps_ok:
  assumes "lru_ok (ce_lru ev)" and "caches_ok ev cv" and "readable ev (cv_fs cv)"
    and "length nows = length (cv_queue cv)" and "\<forall>x \<in> set (cv_queue cv). distinct (snd x)"
    and "\<forall>m \<in> set (mine uid (cv_queue cv)). conv_of_message m uid = ch"
    and "seen ev uid ch cv = Ret old"
  shows "\<exists>cv' new. calc_steps ev nows cv = Ret cv' \<and> caches_ok ev cv' \<and> cv_queue cv' = [] \<and> cv_fs cv' = cv_fs cv \<and>
    seen ev uid ch cv' = Ret new \<and>
    unread_of new = unread_of old + of_nat (length (filter (\<lambda>m. unread m uid) (mine uid (cv_queue cv)))) \<and>
    seq_of new = fold max (map (\<lambda>m. rcv_MessageSeq (msg_RecvPacket m)) (mine uid (cv_queue cv))) (seq_of old)"
  using assms(2-7)
proof (induction nows arbitrary: cv old)
  case Nil
  then show ?case by (simp add: mine_def)
next
  case (Cons now nows)
  obtain m ss q where q: "cv_queue cv = (m, ss) # q" using Cons.prems(3) by (cases "cv_queue cv") auto
  have d: "distinct ss" using Cons.prems(4) q by simp
  have cok: "caches_ok ev (cv\<lparr>cv_queue := q\<rparr>)" using Cons.prems(1) by (simp add: caches_ok_def cached_def)
  obtain cv1 where 1: "cal_subscribers ev now m ss (cv\<lparr>cv_queue := q\<rparr>) = Ret cv1" "caches_ok ev cv1" "cv_fs cv1 = cv_fs cv"
      "cv_queue cv1 = q" "\<And>u. u \<notin> set ss \<Longrightarrow> cv_caches cv1 u = cv_caches cv u"
      "\<And>u old. u \<in> set ss \<Longrightarrow> seen ev u (conv_of_message m u) (cv\<lparr>cv_queue := q\<rparr>) = Ret old \<Longrightarrow>
        seen ev u (conv_of_message m u) cv1 = Ret (Some (applied now m u old))"
    using cal_subscribers_ok [OF assms(1) cok _ d, of now m] Cons.prems(2) by auto
  have s: "seen ev uid ch (cv\<lparr>cv_queue := q\<rparr>) = Ret old" using Cons.prems(6) seen_caches [of "cv\<lparr>cv_queue := q\<rparr>" uid cv ev ch] by simp
  let ?o = "if uid \<in> set ss then Some (applied now m uid old) else old"
  have s1: "seen ev uid ch cv1 = Ret ?o"
  proof (cases "uid \<in> set ss")
    case True
    then have "conv_of_message m uid = ch" using Cons.prems(5) q by (simp add: mine_def)
    with 1(6) [OF True] s True show ?thesis by simp
  next
    case False
    with seen_caches [OF 1(5) 1(3)] Cons.prems(6) show ?thesis by simp
  qed
  have st: "calc_steps ev (now # nows) cv = calc_steps ev nows cv1" by (simp add: calc_step_def q 1(1))
  have "\<exists>cv' new. calc_steps ev nows cv1 = Ret cv' \<and> caches_ok ev cv' \<and> cv_queue cv' = [] \<and> cv_fs cv' = cv_fs cv1 \<and>
    seen ev uid ch cv' = Ret new \<and>
    unread_of new = unread_of ?o + of_nat (length (filter (\<lambda>m. unread m uid) (mine uid (cv_queue cv1)))) \<and>
    seq_of new = fold max (map (\<lambda>m. rcv_MessageSeq (msg_RecvPacket m)) (mine uid (cv_queue cv1))) (seq_of ?o)"
  proof (rule Cons.IH [OF 1(2) _ _ _ _ s1])
    show "readable ev (cv_fs cv1)" using Cons.prems(2) 1(3) by simp
    show "length nows = length (cv_queue cv1)" using Cons.prems(3) q 1(4) by simp
    show "\<forall>x\<in>set (cv_queue cv1). distinct (snd x)" using Cons.prems(4) q 1(4) by simp
    show "\<forall>m\<in>set (mine uid (cv_queue cv1)). conv_of_message m uid = ch"
      using Cons.prems(5) q 1(4) by (simp add: mine_def split: if_splits)
  qed
  then show ?case unfolding st using 1(3)
    by (cases "uid \<in> set ss") (auto simp: q 1(4) mine_def applied_counts algebra_simps max.commute)
qed

section \<open>What a flush keeps\<close>

lemma touch_all_look:
  assumes "lru_ok L"
  shows "lr_look L (touch_all L l) = lr_look L l"
proof -
  have "lr_look L (fold (\<lambda>k l. lr_touch L l k) ks l) = lr_look L l" for ks
    by (induction ks arbitrary: l) (simp_all add: lru_facts(4) [OF assms])
  then show ?thesis by (simp add: touch_all_def)
qed

lemma map_filter_set: "set (List.map_filter f xs) = {y. \<exists>x \<in> set xs. f x = Some y}"
  by (induction xs) (auto simp: List.map_filter_def split: option.splits)

lemma cached_conversations_channel:
  assumes "lru_ok L" and keyed: "\<forall>k c. lr_look L l k = Some c \<longrightarrow> k = channelKey (cv_ChannelID c) (cv_ChannelType c)"
  shows "distinct (map conv_channel (cached_conversations L l))"
    and "channel_conv ch (cached_conversations L l) = lr_look L l (channelKey (fst ch) (snd ch))"
    and "set (cached_conversations L l) = {c. \<exists>k. lr_look L l k = Some c}"
proof -
  have S: "set (cached_conversations L l) = {c. \<exists>k. lr_look L l k = Some c}"
    unfolding cached_conversations_def by (force simp: map_filter_set lru_facts(3) [OF assms(1)])
  have "distinct (map conv_channel (List.map_filter (lr_look L l) ks))" if "distinct ks" for ks
    using that
  proof (induction ks)
    case (Cons k ks)
    show ?case
    proof (cases "lr_look L l k")
      case (Some c)
      have "conv_channel c \<notin> conv_channel ` set (List.map_filter (lr_look L l) ks)"
      proof
        assume "conv_channel c \<in> conv_channel ` set (List.map_filter (lr_look L l) ks)"
        then obtain k' d where "k' \<in> set ks" "lr_look L l k' = Some d" "conv_channel d = conv_channel c"
          by (force simp: map_filter_set)
        with assms(2) Some have "k' = k" by (metis conv_channel_def prod.inject)
        with \<open>k' \<in> set ks\<close> Cons.prems show False by simp
      qed
      with Cons Some show ?thesis by (simp add: List.map_filter_def image_image)
    qed (use Cons in \<open>simp add: List.map_filter_def\<close>)
  qed (simp add: List.map_filter_def)
  then show D: "distinct (map conv_channel (cached_conversations L l))"
    unfolding cached_conversations_def using lru_facts(2) [OF assms(1)] by blast
  show "channel_conv ch (cached_conversations L l) = lr_look L l (channelKey (fst ch) (snd ch))"
  proof (cases "lr_look L l (channelKey (fst ch) (snd ch))")
    case (Some c)
    with keyed have "channelKey (fst ch) (snd ch) = channelKey (cv_ChannelID c) (cv_ChannelType c)" by blast
    then have "conv_channel c = ch" by (simp add: conv_channel_def prod_eq_iff)
    with Some S have "channel_conv ch (cached_conversations L l) = Some c"
      by (auto simp: channel_conv_distinct [OF D])
    with Some show ?thesis by simp
  next
    case None
    have "ch \<notin> set (map conv_channel (cached_conversations L l))"
    proof
      assume "ch \<in> set (map conv_channel (cached_conversations L l))"
      then obtain k c where "lr_look L l k = Some c" "conv_channel c = ch" using S by auto
      with assms(2) None show False by (metis conv_channel_def fst_conv snd_conv option.distinct(1))
    qed
    with None show ?thesis by (simp add: channel_conv_None)
  qed
  show "set (cached_conversations L l) = {c. \<exists>k. lr_look L l k = Some c}" by (rule S)
qed

lemma fold_remove_look:
  assumes "lru_ok L" and "lr_look L (fold (\<lambda>c l. if P c then lr_remove L l (f c) else l) cs l) k = Some d"
  shows "lr_look L l k = Some d"
  using assms(2)
proof (induction cs arbitrary: l)
  case (Cons c cs)
  from Cons.prems have "lr_look L (if P c then lr_remove L l (f c) else l) k = Some d" by (auto dest: Cons.IH)
  then show ?case by (simp add: lru_facts(7) [OF assms(1)] split: if_splits)
qed simp

lemma GetConversation_channel:
  "StoreTables.GetConversations bo js uid fs = Ret cs \<Longrightarrow>
    GetConversation bo js uid (fst ch) (snd ch) fs = Ret (channel_conv ch cs)"
  by (simp add: GetConversation_def mapR_def channel_conv_def conv_channel_def prod_eq_iff)

text \<open>A flush that succeeds puts every cached conversation into the store and changes nothing that the
  user sees, although the old conversations leave the cache.\<close>

lemma flushUserConversations_ok:
  assumes lru: "lru_ok (ce_lru ev)" and "caches_ok ev cv" and "bolt_ok (ce_bolt ev)" and "json_ok (ce_json ev)"
    and "StoreTables.GetConversations (ce_bolt ev) (ce_json ev) uid (cv_fs cv) = Ret old"
    and "list_all conv_plain old" and "distinct (map conv_channel old)"
    and "\<And>k c. cached ev uid cv k = Some c \<Longrightarrow> conv_plain c"
    and "flushUserConversations ev now uid cv = Ret cv'" and "uid \<notin> set (cv_needSave cv')"
    and "uid \<in> set (cv_needSave cv)"
  shows "seen ev uid ch cv' = seen ev uid ch cv"
    and "GetConversation (ce_bolt ev) (ce_json ev) uid (fst ch) (snd ch) (cv_fs cv') = seen ev uid ch cv"
proof -
  obtain l cv1 where g: "getUserConversationCache ev uid cv = (l, cv1)" by fastforce
  note G = getUserConversationCache_ok [OF lru g]
  let ?L = "ce_lru ev" let ?us = "cached_conversations ?L l"
  have look: "\<forall>k c. lr_look ?L l k = Some c \<longrightarrow> k = channelKey (cv_ChannelID c) (cv_ChannelType c)"
    using assms(2) G(2) by (simp add: caches_ok_def)
  note C = cached_conversations_channel [OF lru look]
  from assms(9-11) obtain fs where fs: "StoreTables.AddOrUpdateConversations (ce_bolt ev) (ce_json ev) uid ?us (cv_fs cv) = Ret fs"
    "cv' = put_cache uid (fold (\<lambda>c l. if expired ev now c then lr_remove ?L l (channelKey (cv_ChannelID c) (cv_ChannelType c)) else l)
       ?us (touch_all ?L l)) ((put_cache uid (touch_all ?L l) cv1)\<lparr>cv_fs := fs, cv_needSave := removeAll uid (cv_needSave cv)\<rparr>)"
    by (auto simp: flushUserConversations_def g G outcome_case_eq Let_def)
  have plain: "list_all conv_plain ?us" using C(3) G(2) assms(8) by (auto simp: list_all_iff)
  obtain cs where cs: "StoreTables.GetConversations (ce_bolt ev) (ce_json ev) uid fs = Ret cs"
    "\<And>k. channel_conv k cs = (case channel_conv k ?us of Some u \<Rightarrow> Some u | None \<Rightarrow> channel_conv k old)"
    using AddOrUpdateConversations_ok [OF assms(3,4,5,6) plain assms(7) C(1) fs(1)] by blast
  have stored: "GetConversation (ce_bolt ev) (ce_json ev) uid (fst ch) (snd ch) (cv_fs cv') = Ret (channel_conv ch cs)"
    using GetConversation_channel [OF cs(1)] fs(2) by simp
  have before: "seen ev uid ch cv = Ret (channel_conv ch cs)"
    using GetConversation_channel [OF assms(5)] by (simp add: seen_def cs(2) C(2) G(2) split: option.split)
  show "GetConversation (ce_bolt ev) (ce_json ev) uid (fst ch) (snd ch) (cv_fs cv') = seen ev uid ch cv"
    by (simp only: stored before)
  have "cached ev uid cv k = Some c" if h: "cached ev uid cv' k = Some c" for k c
  proof -
    from h have "lr_look ?L (touch_all ?L l) k = Some c"
      unfolding fs(2) cached_put_same by (rule fold_remove_look [OF lru])
    then show ?thesis by (simp add: touch_all_look [OF lru] G(2))
  qed
  note sub = this
  show "seen ev uid ch cv' = seen ev uid ch cv"
  proof (cases "cached ev uid cv' (channelKey (fst ch) (snd ch))")
    case None
    then show ?thesis by (simp add: seen_def [of ev uid ch cv'] stored before)
  next
    case (Some c)
    from Some sub [OF Some] show ?thesis by (simp add: seen_def)
  qed
qed

end
