(* ===== verification/ConversationSteps.thy ===== *)
theory ConversationSteps
  imports Conversations
begin

text \<open>
  The operations of the conversation manager as one step relation, and its invariant: whatever the cache
  holds is what the store holds, unless the user is marked for saving or waits to be. There is one exception:
  the synchronisation of a client writes to cached conversations of large groups and marks nobody. What the cache
  drops, because it is full or the entry has expired, is not covered: an unsaved change in it is lost.
\<close>

section \<open>Large groups\<close>

definition from_last :: "message \<Rightarrow> Conversation \<Rightarrow> Conversation" where
  "from_last m c = c\<lparr>cv_Timestamp := scast (rcv_Timestamp (msg_RecvPacket m)), cv_LastMsgSeq := rcv_MessageSeq (msg_RecvPacket m),
     cv_LastClientMsgNo := rcv_ClientMsgNo (msg_RecvPacket m), cv_LastMsgID := rcv_MessageID (msg_RecvPacket m),
     cv_UnreadCount := 0\<rparr>"

text \<open>A conversation of a synchronisation that came from the cache is the object in the cache: what is changed here is
  changed there, and nothing marks it to be saved.\<close>

definition change_cached :: "('d, 'l) conv_env \<Rightarrow> gostring \<Rightarrow> gostring \<times> u8 \<Rightarrow> message \<Rightarrow> ('d, 'l) convmanager \<Rightarrow> ('d, 'l) convmanager" where
  "change_cached ev uid ch m cv =
     (case cv_caches cv uid of
        None \<Rightarrow> cv
      | Some l \<Rightarrow> put_cache uid (lr_change (ce_lru ev) l (channelKey (fst ch) (snd ch)) (from_last m)) cv)"

section \<open>The invariant\<close>

definition on_store :: "('d, 'l) conv_env \<Rightarrow> gostring \<Rightarrow> gostring \<times> u8 \<Rightarrow> 'd filestore \<Rightarrow> Conversation option outcome" where
  "on_store ev uid ch fs = GetConversation (ce_bolt ev) (ce_json ev) uid (fst ch) (snd ch) fs"

definition marked :: "('d, 'l) convmanager \<Rightarrow> gostring set" where
  "marked cv = set (cv_needSaveChan cv) \<union> set (cv_needSave cv)"

definition plain_message :: "message \<Rightarrow> bool" where
  "plain_message m \<longleftrightarrow> (let r = msg_RecvPacket m in
     plain (rcv_ChannelID r) \<and> plain (rcv_FromUID r) \<and> plain (rcv_ClientMsgNo r))"

definition plain_queue :: "(message \<times> gostring list) list \<Rightarrow> bool" where
  "plain_queue q \<longleftrightarrow> (\<forall>(m, ss) \<in> set q. plain_message m \<and> list_all plain ss)"

definition store_good :: "('d, 'l) conv_env \<Rightarrow> 'd filestore \<Rightarrow> bool" where
  "store_good ev fs \<longleftrightarrow> (\<forall>uid. \<exists>cs. StoreTables.GetConversations (ce_bolt ev) (ce_json ev) uid fs = Ret cs \<and>
     list_all conv_plain cs \<and> distinct (map conv_channel cs))"

definition conv_inv :: "('d, 'l) conv_env \<Rightarrow> (gostring \<times> gostring \<times> u8) set \<Rightarrow> ('d, 'l) convmanager \<Rightarrow> bool" where
  "conv_inv ev W cv \<longleftrightarrow> caches_ok ev cv \<and> store_good ev (cv_fs cv) \<and> plain_queue (cv_queue cv) \<and>
     (\<forall>uid k c. cached ev uid cv k = Some c \<longrightarrow>
        conv_plain c \<and> (uid \<in> marked cv \<or> (uid, conv_channel c) \<in> W \<or> on_store ev uid (conv_channel c) (cv_fs cv) = Ret (Some c)))"

definition conv_env_ok :: "('d, 'l) conv_env \<Rightarrow> bool" where
  "conv_env_ok ev \<longleftrightarrow> lru_ok (ce_lru ev) \<and> bolt_ok (ce_bolt ev) \<and> json_ok (ce_json ev)"

lemma conv_inv_cached:
  assumes "conv_inv ev W cv" and "cached ev uid cv k = Some c"
  shows "k = channelKey (cv_ChannelID c) (cv_ChannelType c)" and "conv_plain c"
    and "uid \<in> marked cv \<or> (uid, conv_channel c) \<in> W \<or> on_store ev uid (conv_channel c) (cv_fs cv) = Ret (Some c)"
  using assms by (auto simp: conv_inv_def caches_ok_def)

text \<open>A change of the caches alone: a new entry needs its user marked.\<close>

lemma conv_inv_caches:
  assumes "conv_inv ev W cv" and "cv_fs cv' = cv_fs cv" and "plain_queue (cv_queue cv')" and "marked cv \<subseteq> marked cv'"
    and "\<And>uid k c. cached ev uid cv' k = Some c \<Longrightarrow> cached ev uid cv k = Some c \<or>
      k = channelKey (cv_ChannelID c) (cv_ChannelType c) \<and> conv_plain c \<and> uid \<in> marked cv'"
  shows "conv_inv ev W cv'"
  unfolding conv_inv_def caches_ok_def
proof (intro conjI allI impI)
  fix uid k c assume h: "cached ev uid cv' k = Some c"
  note * = assms(5) [OF h] conv_inv_cached [OF assms(1), of uid k c]
  show "k = channelKey (cv_ChannelID c) (cv_ChannelType c)" "conv_plain c"
    "uid \<in> marked cv' \<or> (uid, conv_channel c) \<in> W \<or> on_store ev uid (conv_channel c) (cv_fs cv') = Ret (Some c)"
    using * assms(2,4) by auto
qed (use assms(1-3) in \<open>simp_all add: conv_inv_def\<close>)

text \<open>A change of one user's conversations in the store.\<close>

lemma conversation_key_inj [simp]: "conversation_key u = conversation_key v \<longleftrightarrow> u = v"
  by (simp add: conversation_key_def)

lemma put_conversations_other:
  assumes "bolt_ok bo" and "put_conversations bo js uid cs fs = Ret fs'" and "u \<noteq> uid"
  shows "StoreTables.GetConversations bo js u fs' = StoreTables.GetConversations bo js u fs"
proof -
  obtain slot where s: "slotNum uid fs = Ret slot"
    "fs_set bo slot (conversation_key uid) (js_encode js (JArray (map conv_json cs))) fs = Ret fs'"
    using assms(2) by (auto simp: put_conversations_def bindR_eq_Ret)
  from fs_set_get [OF assms(1) s(2)] assms(3) show ?thesis
    by (simp add: StoreTables.GetConversations_def slotNum_def)
qed

lemma store_good_put:
  assumes "conv_env_ok ev" and "store_good ev fs" and "put_conversations (ce_bolt ev) (ce_json ev) uid cs fs = Ret fs'"
    and "list_all conv_plain cs" and "distinct (map conv_channel cs)"
  shows "store_good ev fs'" and "on_store ev uid ch fs' = Ret (channel_conv ch cs)"
    and "u \<noteq> uid \<Longrightarrow> on_store ev u ch fs' = on_store ev u ch fs"
proof -
  have bo: "bolt_ok (ce_bolt ev)" "json_ok (ce_json ev)" using assms(1) by (simp_all add: conv_env_ok_def)
  note g = put_conversations_get [OF bo assms(4,3)]
  note o = put_conversations_other [OF bo(1) assms(3)]
  show "store_good ev fs'"
    unfolding store_good_def
  proof
    fix u
    show "\<exists>cs. StoreTables.GetConversations (ce_bolt ev) (ce_json ev) u fs' = Ret cs \<and> list_all conv_plain cs \<and>
        distinct (map conv_channel cs)"
      using g o [of u] assms(2,4,5) by (cases "u = uid") (auto simp: store_good_def)
  qed
  show "on_store ev uid ch fs' = Ret (channel_conv ch cs)" by (simp add: on_store_def GetConversation_channel [OF g])
  show "on_store ev u ch fs' = on_store ev u ch fs" if "u \<noteq> uid"
    using o [OF that] by (simp add: on_store_def GetConversation_def)
qed

section \<open>Steps on the caches\<close>

lemma AddOrUpdateConversation_entry:
  assumes "lru_ok (ce_lru ev)" and "cached ev u (AddOrUpdateConversation ev uid c cv) k = Some d"
  shows "u = uid \<and> k = channelKey (cv_ChannelID c) (cv_ChannelType c) \<and> d = c \<or>
    \<not> (u = uid \<and> k = channelKey (cv_ChannelID c) (cv_ChannelType c)) \<and> cached ev u cv k = Some d"
proof -
  obtain l cv1 where g: "getUserConversationCache ev uid cv = (l, cv1)" by fastforce
  note G = getUserConversationCache_ok [OF assms(1) g]
  let ?k = "channelKey (cv_ChannelID c) (cv_ChannelType c)"
  have r: "AddOrUpdateConversation ev uid c cv = setNeedSave uid (put_cache uid (lr_add (ce_lru ev) l ?k c) cv1)"
    by (simp add: AddOrUpdateConversation_def g)
  show ?thesis
  proof (cases "u = uid")
    case True
    with assms(2) have look: "lr_look (ce_lru ev) (lr_add (ce_lru ev) l ?k c) k = Some d" by (simp add: r cached_def)
    show ?thesis
    proof (cases "k = ?k")
      case k: True
      with look True lru_facts(5) [OF assms(1), of l ?k c] show ?thesis by simp
    next
      case False
      from lru_add_other [OF assms(1) look False] False True show ?thesis by (simp add: G(2))
    qed
  next
    case False
    with assms(2) show ?thesis by (simp add: r cached_def G(1))
  qed
qed

lemma marked_simps [simp]:
  "marked (setNeedSave uid cv) = insert uid (marked cv)" "marked (put_cache uid l cv) = marked cv"
  "marked (cv\<lparr>cv_queue := q\<rparr>) = marked cv" "marked (cv\<lparr>cv_caches := cs\<rparr>) = marked cv" "marked (cv\<lparr>cv_fs := fs\<rparr>) = marked cv"
  by (auto simp: marked_def)

lemma getUserConversationCache_marked:
  "getUserConversationCache ev uid cv = (l, cv1) \<Longrightarrow> marked cv1 = marked cv"
  by (auto simp: getUserConversationCache_def split: option.splits)

lemma AddOrUpdateConversation_marked: "marked (AddOrUpdateConversation ev uid c cv) = insert uid (marked cv)"
  by (auto simp: AddOrUpdateConversation_def Let_def getUserConversationCache_marked split: prod.split)

lemma AddOrUpdateConversation_inv:
  assumes "conv_env_ok ev" and "conv_inv ev W cv" and "conv_plain c"
  shows "conv_inv ev W (AddOrUpdateConversation ev uid c cv)"
proof -
  have lru: "lru_ok (ce_lru ev)" and ok: "caches_ok ev cv" using assms(1,2) by (simp_all add: conv_env_ok_def conv_inv_def)
  note A = AddOrUpdateConversation_ok [OF lru ok, where uid = uid and c = c]
  show ?thesis
  proof (rule conv_inv_caches [OF assms(2) A(3)])
    fix u k d assume "cached ev u (AddOrUpdateConversation ev uid c cv) k = Some d"
    from AddOrUpdateConversation_entry [OF lru this] assms(3)
    show "cached ev u cv k = Some d \<or> k = channelKey (cv_ChannelID d) (cv_ChannelType d) \<and> conv_plain d \<and>
        u \<in> marked (AddOrUpdateConversation ev uid c cv)" by (auto simp: AddOrUpdateConversation_marked)
  qed (use assms(2) in \<open>auto simp: A(4) conv_inv_def AddOrUpdateConversation_marked\<close>)
qed

lemma conv_inv_put:
  assumes "conv_inv ev W cv" and "\<And>k c. lr_look (ce_lru ev) l k = Some c \<Longrightarrow> cached ev uid cv k = Some c"
    and "cv_caches cv' = (cv_caches cv)(uid \<mapsto> l)" and "cv_fs cv' = cv_fs cv" and "cv_queue cv' = cv_queue cv"
    and "marked cv' = marked cv"
  shows "conv_inv ev W cv'"
proof (rule conv_inv_caches [OF assms(1,4)])
  fix u k c assume "cached ev u cv' k = Some c"
  with assms(2,3) show "cached ev u cv k = Some c \<or> k = channelKey (cv_ChannelID c) (cv_ChannelType c) \<and> conv_plain c \<and> u \<in> marked cv'"
    by (cases "u = uid") (auto simp: cached_def)
qed (use assms in \<open>simp_all add: conv_inv_def\<close>)

section \<open>Messages\<close>

lemma stored_good:
  assumes "store_good ev fs"
  shows "\<exists>old. on_store ev uid ch fs = Ret old \<and> (\<forall>c. old = Some c \<longrightarrow> conv_plain c \<and> conv_channel c = ch)"
proof -
  obtain cs where cs: "StoreTables.GetConversations (ce_bolt ev) (ce_json ev) uid fs = Ret cs" "list_all conv_plain cs"
    using assms unfolding store_good_def by blast
  have "c \<in> set cs \<and> conv_channel c = ch" if "channel_conv ch cs = Some c" for c
    using that by (auto simp: channel_conv_def find_Some_iff)
  with cs(2) have "\<And>c. channel_conv ch cs = Some c \<Longrightarrow> conv_plain c \<and> conv_channel c = ch" by (auto simp: list_all_iff)
  then show ?thesis by (simp add: on_store_def GetConversation_channel [OF cs(1)])
qed

lemma applied_plain:
  assumes "plain_message m" and "plain uid" and "\<And>c. old = Some c \<Longrightarrow> conv_plain c"
  shows "conv_plain (applied now m uid old)"
  using assms
  by (auto simp: applied_def conv_plain_def new_conversation_def update_conversation_def conv_channelID_def
      plain_message_def Let_def split: option.split)

lemma calConversation_inv:
  assumes env: "conv_env_ok ev" and inv: "conv_inv ev W cv" and m: "plain_message m" "plain uid"
  shows "\<exists>cv'. calConversation ev now m uid cv = Ret cv' \<and> conv_inv ev W cv' \<and> cv_queue cv' = cv_queue cv"
proof -
  have lru: "lru_ok (ce_lru ev)" using env by (simp add: conv_env_ok_def)
  have good: "store_good ev (cv_fs cv)" and queue: "plain_queue (cv_queue cv)" using inv by (simp_all add: conv_inv_def)
  obtain l cv1 where g: "getUserConversationCache ev uid cv = (l, cv1)" by fastforce
  note G = getUserConversationCache_ok [OF lru g] getUserConversationCache_marked [OF g]
  let ?k = "channelKey (conv_channelID m uid) (rcv_ChannelType (msg_RecvPacket m))"
  let ?cv = "put_cache uid (lr_touch (ce_lru ev) l ?k) cv1"
  have inv1: "conv_inv ev W ?cv"
    by (rule conv_inv_put [OF inv, of "lr_touch (ce_lru ev) l ?k" uid]) (simp_all add: lru_facts(4) [OF lru] G)
  show ?thesis
  proof (cases "lr_look (ce_lru ev) l ?k")
    case None
    obtain old where o: "on_store ev uid (conv_of_message m uid) (cv_fs cv) = Ret old"
        "\<And>c. old = Some c \<Longrightarrow> conv_plain c \<and> conv_channel c = conv_of_message m uid" using stored_good [OF good, of uid "conv_of_message m uid"] by blast
    then have st: "GetConversation (ce_bolt ev) (ce_json ev) uid (conv_channelID m uid)
        (rcv_ChannelType (msg_RecvPacket m)) (cv_fs cv) = Ret old" by (simp add: on_store_def conv_of_message_def)
    have p: "conv_plain (applied now m uid old)" by (rule applied_plain [OF m]) (use o(2) in blast)
    have "calConversation ev now m uid cv = Ret ?cv \<or>
        calConversation ev now m uid cv = Ret (AddOrUpdateConversation ev uid (applied now m uid old) ?cv)"
      using st None by (cases old) (simp_all add: calConversation_def g lr_Get_def applied_def G Let_def)
    with inv1 AddOrUpdateConversation_inv [OF env inv1 p] show ?thesis
      using AddOrUpdateConversation_ok(4) [OF lru, of ?cv uid "applied now m uid old"] inv1 G(4) by (auto simp: conv_inv_def)
  next
    case (Some c)
    then have c: "cached ev uid cv ?k = Some c" using G(2) by simp
    show ?thesis
    proof (cases "modified m uid c")
      case False
      then have "calConversation ev now m uid cv = Ret ?cv"
        using Some by (simp add: calConversation_def g lr_Get_def Let_def)
      with inv1 G(4) show ?thesis by simp
    next
      case True
      let ?c = "update_conversation now m uid c"
      let ?l = "lr_change (ce_lru ev) (lr_touch (ce_lru ev) l ?k) ?k (update_conversation now m uid)"
      let ?cv' = "AddOrUpdateConversation ev uid ?c (put_cache uid ?l ?cv)"
      have r: "calConversation ev now m uid cv = Ret ?cv'"
        using Some True by (simp add: calConversation_def g lr_Get_def Let_def)
      have k: "channelKey (cv_ChannelID ?c) (cv_ChannelType ?c) = ?k"
        using conv_inv_cached(1) [OF inv c] by (simp add: update_conversation_def Let_def)
      have p: "conv_plain ?c" using applied_plain [OF m, of "Some c" now] conv_inv_cached(2) [OF inv c] by (simp add: applied_def)
      have s: "cv_fs ?cv' = cv_fs cv" "cv_queue ?cv' = cv_queue cv" "marked ?cv' = insert uid (marked cv)"
        by (simp_all add: AddOrUpdateConversation_def getUserConversationCache_def G put_cache_def setNeedSave_def marked_def)
      have "conv_inv ev W ?cv'"
      proof (rule conv_inv_caches [OF inv s(1)])
        fix u k d assume "cached ev u ?cv' k = Some d"
        from AddOrUpdateConversation_entry [OF lru this, unfolded k] G(1,2) lru_facts(4,8) [OF lru] p
        show "cached ev u cv k = Some d \<or> k = channelKey (cv_ChannelID d) (cv_ChannelType d) \<and> conv_plain d \<and> u \<in> marked ?cv'"
          by (cases "u = uid") (auto simp: s(3) k cached_put_same, auto simp: cached_def)
      qed (use queue in \<open>simp_all add: s(2,3) subset_insertI\<close>)
      with r s(2) show ?thesis by simp
    qed
  qed
qed

lemma cal_subscribers_inv:
  assumes "conv_env_ok ev" and "conv_inv ev W cv" and "plain_message m" and "list_all plain ss"
  shows "\<exists>cv'. cal_subscribers ev now m ss cv = Ret cv' \<and> conv_inv ev W cv' \<and> cv_queue cv' = cv_queue cv"
  using assms(2,4)
proof (induction ss arbitrary: cv)
  case (Cons s ss)
  obtain cv1 where 1: "calConversation ev now m s cv = Ret cv1" "conv_inv ev W cv1" "cv_queue cv1 = cv_queue cv"
    using calConversation_inv [OF assms(1) Cons.prems(1) assms(3), of s now] Cons.prems(2) by auto
  from Cons.IH [OF 1(2)] Cons.prems(2) 1 show ?case by auto
qed simp

lemma calc_step_inv:
  assumes "conv_env_ok ev" and "conv_inv ev W cv"
  shows "\<exists>cv'. calc_step ev now cv = Ret cv' \<and> conv_inv ev W cv'"
proof (cases "cv_queue cv")
  case (Cons x q)
  obtain m ss where x: "x = (m, ss)" by fastforce
  have q: "plain_message m" "list_all plain ss" "plain_queue q"
    using assms(2) Cons x by (auto simp: conv_inv_def plain_queue_def)
  have "conv_inv ev W (cv\<lparr>cv_queue := q\<rparr>)"
    by (rule conv_inv_caches [OF assms(2)]) (use q(3) in \<open>auto simp: cached_def\<close>)
  from cal_subscribers_inv [OF assms(1) this q(1,2), of now] show ?thesis
    by (auto simp: calc_step_def Cons x)
qed (use assms(2) in \<open>simp add: calc_step_def\<close>)

lemma PushMessage_inv:
  assumes "conv_inv ev W cv" and "plain_message m" and "list_all plain ss"
  shows "conv_inv ev W (PushMessage ev m ss cv)"
  by (rule conv_inv_caches [OF assms(1)]) (use assms in \<open>auto simp: PushMessage_def cached_def conv_inv_def plain_queue_def marked_def\<close>)

section \<open>Unread counts and deletion\<close>

lemma unread_loop_ok:
  assumes "lru_ok L" and "\<forall>k \<in> set ks. lr_look L l k \<noteq> None"
  shows "\<exists>found l'. unread_loop L channelID channelType n s ks l = Ret (found, l') \<and>
    (if found then \<exists>k c. lr_look L l k = Some c \<and> lr_look L l' = (lr_look L l)(k \<mapsto> set_unread n s c)
     else lr_look L l' = lr_look L l)"
  using assms(2)
proof (induction ks arbitrary: l)
  case (Cons k ks)
  obtain c where c: "lr_look L l k = Some c" using Cons.prems by auto
  show ?case
  proof (cases "channelID = cv_ChannelID c \<and> channelType = cv_ChannelType c")
    case True
    then have "unread_loop L channelID channelType n s (k # ks) l = Ret (True, lr_change L (lr_touch L l k) k (set_unread n s))"
      by (simp add: c lr_Get_def)
    moreover have "lr_look L (lr_change L (lr_touch L l k) k (set_unread n s)) = (lr_look L l)(k \<mapsto> set_unread n s c)"
      by (simp add: lru_facts(4,8) [OF assms(1)] c)
    ultimately show ?thesis using c by auto
  next
    case False
    then have r: "unread_loop L channelID channelType n s (k # ks) l = unread_loop L channelID channelType n s ks (lr_touch L l k)"
      by (auto simp: c lr_Get_def)
    have t: "lr_look L (lr_touch L l k) = lr_look L l" by (rule lru_facts(4) [OF assms(1)])
    have "\<forall>j \<in> set ks. lr_look L (lr_touch L l k) j \<noteq> None" using Cons.prems unfolding t by simp
    then show ?thesis unfolding r using Cons.IH [of "lr_touch L l k"] unfolding t by blast
  qed
qed (auto intro: exI [of _ False])

lemma set_unread_simps [simp]:
  "conv_channel (set_unread n s c) = conv_channel c" "cv_ChannelID (set_unread n s c) = cv_ChannelID c"
  "cv_ChannelType (set_unread n s c) = cv_ChannelType c" "conv_plain (set_unread n s c) = conv_plain c"
  by (simp_all add: set_unread_def conv_channel_def conv_plain_def Let_def)

lemma SetConversationUnread_inv:
  assumes env: "conv_env_ok ev" and inv: "conv_inv ev W cv"
  shows "\<exists>cv'. SetConversationUnread ev uid channelID channelType n s cv = Ret cv' \<and> conv_inv ev W cv'"
proof -
  have lru: "lru_ok (ce_lru ev)" using env by (simp add: conv_env_ok_def)
  have good: "store_good ev (cv_fs cv)" and queue: "plain_queue (cv_queue cv)" using inv by (simp_all add: conv_inv_def)
  obtain l cv1 where g: "getUserConversationCache ev uid cv = (l, cv1)" by fastforce
  note G = getUserConversationCache_ok [OF lru g] getUserConversationCache_marked [OF g]
  obtain found l' where u: "unread_loop (ce_lru ev) channelID channelType n s (lr_keys (ce_lru ev) l) l = Ret (found, l')"
    "if found then \<exists>k c. lr_look (ce_lru ev) l k = Some c \<and> lr_look (ce_lru ev) l' = (lr_look (ce_lru ev) l)(k \<mapsto> set_unread n s c)
     else lr_look (ce_lru ev) l' = lr_look (ce_lru ev) l"
    using unread_loop_ok [OF lru, of "lr_keys (ce_lru ev) l" l channelID channelType n s] lru_facts(3) [OF lru, of l] by auto
  show ?thesis
  proof (cases found)
    case True
    then obtain k c where kc: "lr_look (ce_lru ev) l k = Some c"
      "lr_look (ce_lru ev) l' = (lr_look (ce_lru ev) l)(k \<mapsto> set_unread n s c)" using u(2) by auto
    have c: "cached ev uid cv k = Some c" using kc(1) G(2) by simp
    let ?cv' = "setNeedSave uid (put_cache uid l' cv1)"
    have "conv_inv ev W ?cv'"
    proof (rule conv_inv_caches [OF inv])
      fix v j d assume h: "cached ev v ?cv' j = Some d"
      show "cached ev v cv j = Some d \<or> j = channelKey (cv_ChannelID d) (cv_ChannelType d) \<and> conv_plain d \<and> v \<in> marked ?cv'"
      proof (cases "v = uid")
        case True
        with h have "((cached ev uid cv)(k \<mapsto> set_unread n s c)) j = Some d" by (simp add: cached_def [of ev uid "setNeedSave uid (put_cache uid l' cv1)"] kc(2) G(2))
        with True conv_inv_cached(1,2) [OF inv c] show ?thesis by (auto split: if_splits)
      next
        case False
        with h show ?thesis by (simp add: cached_def G(1))
      qed
    qed (use queue G in auto)
    with True u(1) show ?thesis by (simp add: SetConversationUnread_def g)
  next
    case False
    let ?cv = "put_cache uid l' cv1"
    have inv1: "conv_inv ev W ?cv"
      by (rule conv_inv_put [OF inv, of l' uid]) (use u(2) False in \<open>simp_all add: G\<close>)
    obtain old where o: "on_store ev uid (channelID, channelType) (cv_fs cv) = Ret old"
        "\<And>c. old = Some c \<Longrightarrow> conv_plain c \<and> conv_channel c = (channelID, channelType)" using stored_good [OF good, of uid "(channelID, channelType)"] by blast
    then have st: "GetConversation (ce_bolt ev) (ce_json ev) uid channelID channelType (cv_fs cv) = Ret old" by (simp add: on_store_def)
    show ?thesis
    proof (cases old)
      case None
      with st inv1 False u(1) show ?thesis by (simp add: SetConversationUnread_def g G)
    next
      case (Some c)
      let ?c = "set_unread n s c"
      let ?l = "lr_add (ce_lru ev) l' (channelKey (cv_ChannelID ?c) (cv_ChannelType ?c)) ?c"
      have "SetConversationUnread ev uid channelID channelType n s cv = Ret (setNeedSave uid (put_cache uid ?l ?cv))"
        using st Some False u(1) by (simp add: SetConversationUnread_def g G)
      moreover have "setNeedSave uid (put_cache uid ?l ?cv) = AddOrUpdateConversation ev uid ?c ?cv"
        by (simp add: AddOrUpdateConversation_def getUserConversationCache_def)
      ultimately show ?thesis
        using AddOrUpdateConversation_inv [OF env inv1, of ?c uid] o(2) [OF Some] by simp
    qed
  qed
qed

lemma store_good_ret:
  assumes "store_good ev fs"
  obtains cs where "StoreTables.GetConversations (ce_bolt ev) (ce_json ev) uid fs = Ret cs" "list_all conv_plain cs"
    "distinct (map conv_channel cs)"
  using assms unfolding store_good_def by blast

lemma delete_one_inv:
  assumes env: "conv_env_ok ev" and inv: "conv_inv ev W cv" and "delete_one ev channelID channelType uid cv = Ret cv'"
  shows "conv_inv ev W cv'"
proof -
  have lru: "lru_ok (ce_lru ev)" using env by (simp add: conv_env_ok_def)
  have good: "store_good ev (cv_fs cv)" using inv by (simp add: conv_inv_def)
  obtain l cv1 where g: "getUserConversationCache ev uid cv = (l, cv1)" by fastforce
  note G = getUserConversationCache_ok [OF lru g] getUserConversationCache_marked [OF g]
  let ?k = "channelKey channelID channelType"
  let ?l = "if ?k \<in> set (lr_keys (ce_lru ev) l) then lr_remove (ce_lru ev) l ?k else l"
  let ?cv = "put_cache uid ?l cv1"
  have look: "lr_look (ce_lru ev) ?l = (cached ev uid cv)(?k := None)"
    using lru_facts(3) [OF lru, of l] by (auto simp: lru_facts(7) [OF lru] G(2) fun_eq_iff)
  have inv1: "conv_inv ev W ?cv"
    by (rule conv_inv_put [OF inv, of ?l uid]) (simp_all only: look, simp_all add: G split: if_splits)
  obtain cs where cs: "StoreTables.GetConversations (ce_bolt ev) (ce_json ev) uid (cv_fs cv) = Ret cs" "list_all conv_plain cs"
    "distinct (map conv_channel cs)" by (rule store_good_ret [OF good])
  let ?cs = "filter (\<lambda>c. \<not> (cv_ChannelID c = channelID \<and> cv_ChannelType c = channelType)) cs"
  have del: "StoreTables.DeleteConversation (ce_bolt ev) (ce_json ev) uid channelID channelType (cv_fs cv) =
      put_conversations (ce_bolt ev) (ce_json ev) uid ?cs (cv_fs cv)"
    by (simp add: StoreTables.DeleteConversation_def cs(1))
  show ?thesis
  proof (cases "put_conversations (ce_bolt ev) (ce_json ev) uid ?cs (cv_fs cv)")
    case (Ret fs)
    have p: "list_all conv_plain ?cs" "distinct (map conv_channel ?cs)"
      using cs(2,3) by (auto simp: list_all_iff distinct_map_filter)
    note S = store_good_put [OF env good Ret p]
    have same: "on_store ev u ch fs = on_store ev u ch (cv_fs cv)" if "u \<noteq> uid \<or> ch \<noteq> (channelID, channelType)" for u ch
    proof (cases "u = uid")
      case True
      with that have ch: "ch \<noteq> (channelID, channelType)" by simp
      have f: "?cs = filter (\<lambda>c. conv_channel c \<notin> {(channelID, channelType)}) cs" by (rule filter_cong) (auto simp: conv_channel_def)
      have "channel_conv ch ?cs = channel_conv ch cs" unfolding f channel_conv_filter using ch by simp
      with S(2) [of ch] True show ?thesis by (simp add: on_store_def GetConversation_channel [OF cs(1)])
    qed (rule S(3))
    have r: "cv' = ?cv\<lparr>cv_fs := fs\<rparr>" using assms(3) Ret by (simp add: delete_one_def g G del Let_def)
    show ?thesis
      unfolding conv_inv_def caches_ok_def
    proof (intro conjI allI impI)
      fix u k c assume "cached ev u cv' k = Some c"
      then have h: "cached ev u ?cv k = Some c" by (simp add: r cached_def)
      note * = conv_inv_cached [OF inv1 h]
      show "k = channelKey (cv_ChannelID c) (cv_ChannelType c)" "conv_plain c" by (rule *)+
      have "u \<noteq> uid \<or> conv_channel c \<noteq> (channelID, channelType)"
      proof (rule ccontr)
        assume "\<not> (u \<noteq> uid \<or> conv_channel c \<noteq> (channelID, channelType))"
        then have "u = uid" "k = ?k" using *(1) by (auto simp: conv_channel_def)
        with h have "lr_look (ce_lru ev) ?l ?k = Some c" by (simp only: cached_put_same)
        then show False unfolding look by simp
      qed
      from *(3) same [OF this] show "u \<in> marked cv' \<or> (u, conv_channel c) \<in> W \<or> on_store ev u (conv_channel c) (cv_fs cv') = Ret (Some c)"
        by (auto simp: r G)
    qed (use S(1) inv1 in \<open>simp_all add: r conv_inv_def\<close>)
  qed (use assms(3) inv1 in \<open>simp_all add: delete_one_def g G del Let_def\<close>)
qed

lemma mgr_DeleteConversation_inv:
  assumes "conv_env_ok ev" and "conv_inv ev W cv" and "mgr_DeleteConversation ev uids channelID channelType cv = Ret cv'"
  shows "conv_inv ev W cv'"
  using assms(2,3) by (induction uids arbitrary: cv) (auto simp: bindR_eq_Ret dest: delete_one_inv [OF assms(1)])

section \<open>Saving\<close>

lemma getUserCacheConversations_inv:
  assumes "conv_env_ok ev" and "conv_inv ev W cv" and "getUserCacheConversations ev uid cv = (us, cv')"
  shows "conv_inv ev W cv'"
proof -
  have lru: "lru_ok (ce_lru ev)" using assms(1) by (simp add: conv_env_ok_def)
  obtain l cv1 where g: "getUserConversationCache ev uid cv = (l, cv1)" by fastforce
  note G = getUserConversationCache_ok [OF lru g] getUserConversationCache_marked [OF g]
  have "cv' = put_cache uid (touch_all (ce_lru ev) l) cv1" using assms(3) by (simp add: getUserCacheConversations_def g Let_def)
  then show ?thesis
    by (intro conv_inv_put [OF assms(2), of "touch_all (ce_lru ev) l" uid]) (simp_all add: touch_all_look [OF lru] G)
qed

lemma flushUserConversations_inv:
  assumes env: "conv_env_ok ev" and inv: "conv_inv ev W cv" and "flushUserConversations ev now uid cv = Ret cv'"
  shows "conv_inv ev W cv'"
proof -
  have lru: "lru_ok (ce_lru ev)" using env by (simp add: conv_env_ok_def)
  have ok: "caches_ok ev cv" and good: "store_good ev (cv_fs cv)" and queue: "plain_queue (cv_queue cv)"
    using inv by (simp_all add: conv_inv_def)
  obtain l cv1 where g: "getUserConversationCache ev uid cv = (l, cv1)" by fastforce
  note G = getUserConversationCache_ok [OF lru g] getUserConversationCache_marked [OF g]
  let ?L = "ce_lru ev" let ?us = "cached_conversations ?L l" let ?cv = "put_cache uid (touch_all ?L l) cv1"
  have look: "\<forall>k c. lr_look ?L l k = Some c \<longrightarrow> k = channelKey (cv_ChannelID c) (cv_ChannelType c)"
    using ok G(2) by (simp add: caches_ok_def)
  note C = cached_conversations_channel [OF lru look]
  have inv1: "conv_inv ev W ?cv"
    by (rule conv_inv_put [OF inv, of "touch_all ?L l" uid]) (simp_all add: touch_all_look [OF lru] G)
  obtain old where old: "StoreTables.GetConversations (ce_bolt ev) (ce_json ev) uid (cv_fs cv) = Ret old" "list_all conv_plain old"
    "distinct (map conv_channel old)" by (rule store_good_ret [OF good])
  note M = merge_conversations_ok [OF old(3) C(1)]
  have put: "StoreTables.AddOrUpdateConversations (ce_bolt ev) (ce_json ev) uid ?us (cv_fs cv) =
      put_conversations (ce_bolt ev) (ce_json ev) uid (merge_conversations old ?us) (cv_fs cv)"
    by (simp add: AddOrUpdateConversations_def getNewConversations_def old(1) mapR_def)
  show ?thesis
  proof (cases "put_conversations (ce_bolt ev) (ce_json ev) uid (merge_conversations old ?us) (cv_fs cv)")
    case (Ret fs)
    have "conv_plain c" if "c \<in> set (merge_conversations old ?us)" for c
    proof -
      have "channel_conv (conv_channel c) (merge_conversations old ?us) = Some c"
        using that by (simp add: channel_conv_distinct [OF M(2)])
      with M(1) [of "conv_channel c"] have "channel_conv (conv_channel c) ?us = Some c \<or> channel_conv (conv_channel c) old = Some c"
        by (cases "channel_conv (conv_channel c) ?us") simp_all
      then have "c \<in> set ?us \<or> c \<in> set old"
        unfolding channel_conv_distinct [OF C(1)] channel_conv_distinct [OF old(3)] by blast
      then show ?thesis using old(2) C(3) G(2) conv_inv_cached(2) [OF inv] by (auto simp: list_all_iff)
    qed
    then have p: "list_all conv_plain (merge_conversations old ?us)" by (simp add: list_all_iff)
    note S = store_good_put [OF env good Ret p M(2)]
    let ?l = "fold (\<lambda>c l. if expired ev now c then lr_remove ?L l (channelKey (cv_ChannelID c) (cv_ChannelType c)) else l)
       ?us (touch_all ?L l)"
    have r: "cv' = put_cache uid ?l (?cv\<lparr>cv_fs := fs, cv_needSave := removeAll uid (cv_needSave cv)\<rparr>)"
      using assms(3) Ret by (simp add: flushUserConversations_def g G put Let_def)
    show ?thesis
      unfolding conv_inv_def caches_ok_def
    proof (intro conjI allI impI)
      fix u k c assume h': "cached ev u cv' k = Some c"
      have h: "cached ev u cv k = Some c"
      proof (cases "u = uid")
        case True
        from h' have "lr_look ?L ?l k = Some c" unfolding r True cached_put_same .
        then have "lr_look ?L (touch_all ?L l) k = Some c" by (rule fold_remove_look [OF lru])
        with True show ?thesis by (simp add: touch_all_look [OF lru] G(2))
      next
        case False
        with h' show ?thesis by (simp add: r cached_def G(1))
      qed
      note * = conv_inv_cached [OF inv h]
      show "k = channelKey (cv_ChannelID c) (cv_ChannelType c)" "conv_plain c" by (rule *)+
      show "u \<in> marked cv' \<or> (u, conv_channel c) \<in> W \<or> on_store ev u (conv_channel c) (cv_fs cv') = Ret (Some c)"
      proof (cases "u = uid")
        case True
        have "channel_conv (conv_channel c) ?us = Some c" using h True *(1) by (simp add: C(2) G(2) conv_channel_def)
        with M(1) [of "conv_channel c"] S(2) True show ?thesis by (simp add: r)
      next
        case False
        with *(3) S(3) [OF False] show ?thesis by (auto simp: r marked_def G)
      qed
    qed (use S(1) queue in \<open>simp_all add: r G\<close>)
  qed (use assms(3) inv1 in \<open>simp_all add: flushUserConversations_def g G put Let_def\<close>)
qed

lemma flush_users_inv:
  assumes "conv_env_ok ev" and "conv_inv ev W cv" and "flush_users ev now uids cv = Ret cv'"
  shows "conv_inv ev W cv'"
  using assms(2,3) by (induction uids arbitrary: cv) (auto simp: bindR_eq_Ret dest: flushUserConversations_inv [OF assms(1)])

text \<open>Counters and flags do not matter.\<close>

lemma conv_inv_flags [simp]:
  "conv_inv ev W (cv\<lparr>cv_noSaveCount := n\<rparr>) = conv_inv ev W cv" "conv_inv ev W (cv\<lparr>cv_needSync := b\<rparr>) = conv_inv ev W cv"
  by (simp_all add: conv_inv_def caches_ok_def cached_def marked_def)

lemma saveloop_step_inv:
  assumes "conv_env_ok ev" and "conv_inv ev W cv" and "saveloop_step ev ord now e cv = Ret cv'"
  shows "conv_inv ev W cv'"
proof -
  obtain cv1 where 1: "save_due ev ord now cv = Ret cv1" "cv' = save_receive e cv1"
    using assms(3) by (auto simp: saveloop_step_def mapR_def bindR_eq_Ret)
  have inv1: "conv_inv ev W cv1"
    using 1(1) assms(2)
    by (auto simp: save_due_def FlushConversations_def mapR_def bindR_eq_Ret Let_def split: if_splits
        dest!: flush_users_inv [OF assms(1), rotated])
  have m: "marked cv' = marked cv1" and s: "cv_fs cv' = cv_fs cv1" "cv_queue cv' = cv_queue cv1" "cv_caches cv' = cv_caches cv1"
    by (auto simp: 1(2) save_receive_def marked_def Let_def split: save_event.split list.split)
  show ?thesis
    by (rule conv_inv_caches [OF inv1 s(1)]) (use inv1 in \<open>simp_all add: m s conv_inv_def cached_def\<close>)
qed

lemma clear_user_look:
  assumes "lru_ok L" and "L = ce_lru ev" and "clear_user ev now l = Some l'" and "lr_look L l' k = Some c"
  shows "lr_look L l k = Some c"
proof -
  let ?f = "\<lambda>k l. case lr_look L l k of None \<Rightarrow> lr_touch L l k
    | Some c \<Rightarrow> if expired ev now c then lr_remove L (lr_touch L l k) k else lr_touch L l k"
  have step: "lr_look L (?f j l) k = Some c \<Longrightarrow> lr_look L l k = Some c" for j l
    by (auto simp: lru_facts(4,7) [OF assms(1)] split: option.splits if_splits)
  have "lr_look L (fold ?f ks l) k = Some c \<Longrightarrow> lr_look L l k = Some c" for ks l
  proof (induction ks arbitrary: l)
    case (Cons j ks)
    from Cons.prems have "lr_look L (fold ?f ks (?f j l)) k = Some c" by simp
    from step [OF Cons.IH [OF this]] show ?case .
  qed simp
  with assms(2-4) show ?thesis by (auto simp: clear_user_def Let_def split: if_splits)
qed

lemma clearExpireConversations_inv:
  assumes "conv_env_ok ev" and "conv_inv ev W cv"
  shows "conv_inv ev W (clearExpireConversations ev now cv)"
proof (rule conv_inv_caches [OF assms(2)])
  have lru: "lru_ok (ce_lru ev)" using assms(1) by (simp add: conv_env_ok_def)
  fix u k c assume "cached ev u (clearExpireConversations ev now cv) k = Some c"
  then show "cached ev u cv k = Some c \<or> k = channelKey (cv_ChannelID c) (cv_ChannelType c) \<and> conv_plain c \<and>
      u \<in> marked (clearExpireConversations ev now cv)"
    by (auto simp: clearExpireConversations_def cached_def split: option.splits dest: clear_user_look [OF lru refl])
qed (use assms(2) in \<open>simp_all add: clearExpireConversations_def conv_inv_def\<close>)

lemma mgr_GetConversation_inv:
  assumes "conv_env_ok ev" and "conv_inv ev W cv"
  shows "conv_inv ev W (snd (mgr_GetConversation ev uid channelID channelType cv))"
proof -
  obtain us cv1 where g: "getUserCacheConversations ev uid cv = (us, cv1)" by fastforce
  then have "snd (mgr_GetConversation ev uid channelID channelType cv) = cv1"
    by (auto simp: mgr_GetConversation_def split: option.split outcome.split)
  with getUserCacheConversations_inv [OF assms g] show ?thesis by simp
qed

lemma mgr_GetConversations_inv:
  assumes "conv_env_ok ev" and "conv_inv ev W cv"
  shows "conv_inv ev W (snd (mgr_GetConversations ev sorter uid version larges cv))"
proof -
  obtain us cv1 where g: "getUserCacheConversations ev uid cv = (us, cv1)" by fastforce
  then have "snd (mgr_GetConversations ev sorter uid version larges cv) \<in> {cv, cv1}"
    by (auto simp: mgr_GetConversations_def split: outcome.split)
  with getUserCacheConversations_inv [OF assms g] assms(2) show ?thesis by auto
qed

section \<open>Every reachable state\<close>

text \<open>What the rest of the server does with the manager and the store of messages, in any order. The set collects the users and large groups
  whose cached conversations a synchronisation has written.\<close>

inductive conv_reach :: "('d, 'l) conv_env \<Rightarrow> ('d, 'l) convmanager \<Rightarrow> (gostring \<times> gostring \<times> u8) set \<Rightarrow>
    ('d, 'l) convmanager \<Rightarrow> bool" for ev cv0 where
  start: "conv_reach ev cv0 {} cv0"
| push: "conv_reach ev cv0 W cv \<Longrightarrow> plain_message m \<Longrightarrow> list_all plain ss \<Longrightarrow> conv_reach ev cv0 W (PushMessage ev m ss cv)"
| calculate: "conv_reach ev cv0 W cv \<Longrightarrow> calc_step ev now cv = Ret cv' \<Longrightarrow> conv_reach ev cv0 W cv'"
| add: "conv_reach ev cv0 W cv \<Longrightarrow> conv_plain c \<Longrightarrow> conv_reach ev cv0 W (AddOrUpdateConversation ev uid c cv)"
| set_count: "conv_reach ev cv0 W cv \<Longrightarrow> SetConversationUnread ev uid channelID channelType n s cv = Ret cv' \<Longrightarrow>
    conv_reach ev cv0 W cv'"
| delete: "conv_reach ev cv0 W cv \<Longrightarrow> mgr_DeleteConversation ev uids channelID channelType cv = Ret cv' \<Longrightarrow>
    conv_reach ev cv0 W cv'"
| read_one: "conv_reach ev cv0 W cv \<Longrightarrow> conv_reach ev cv0 W (snd (mgr_GetConversation ev uid channelID channelType cv))"
| read_all: "conv_reach ev cv0 W cv \<Longrightarrow> conv_reach ev cv0 W (snd (mgr_GetConversations ev sorter uid version larges cv))"
| save: "conv_reach ev cv0 W cv \<Longrightarrow> saveloop_step ev ord now e cv = Ret cv' \<Longrightarrow> conv_reach ev cv0 W cv'"
| clear: "conv_reach ev cv0 W cv \<Longrightarrow> conv_reach ev cv0 W (clearExpireConversations ev now cv)"
| large: "conv_reach ev cv0 W cv \<Longrightarrow> plain (rcv_ClientMsgNo (msg_RecvPacket m)) \<Longrightarrow>
    conv_reach ev cv0 (insert (uid, ch) W) (change_cached ev uid ch m cv)"
| history: "conv_reach ev cv0 W cv \<Longrightarrow> conv_reach ev cv0 W (cv\<lparr>cv_fs := (cv_fs cv)\<lparr>fs_msgs := msgs\<rparr>\<rparr>)"

lemma conv_inv_mono: "conv_inv ev V cv \<Longrightarrow> V \<subseteq> W \<Longrightarrow> conv_inv ev W cv"
  unfolding conv_inv_def by blast

lemma change_cached_inv:
  assumes env: "conv_env_ok ev" and inv: "conv_inv ev W cv" and m: "plain (rcv_ClientMsgNo (msg_RecvPacket m))"
  shows "conv_inv ev (insert (uid, ch) W) (change_cached ev uid ch m cv)"
proof (cases "cv_caches cv uid")
  case None
  with conv_inv_mono [OF inv subset_insertI] show ?thesis by (simp add: change_cached_def)
next
  case (Some l)
  have lru: "lru_ok (ce_lru ev)" using env by (simp add: conv_env_ok_def)
  let ?k = "channelKey (fst ch) (snd ch)"
  let ?cv' = "change_cached ev uid ch m cv"
  have r: "?cv' = put_cache uid (lr_change (ce_lru ev) l ?k (from_last m)) cv" using Some by (simp add: change_cached_def)
  have entry: "cached ev u cv k = Some d \<or> u = uid \<and> k = ?k \<and> (\<exists>c. cached ev uid cv ?k = Some c \<and> d = from_last m c)"
    if "cached ev u ?cv' k = Some d" for u k d
    using that Some by (cases "u = uid") (auto simp: r cached_def lru_facts(8) [OF lru] split: if_splits)
  show ?thesis
    unfolding conv_inv_def caches_ok_def
  proof (intro conjI allI impI)
    fix u k d assume "cached ev u ?cv' k = Some d"
    from entry [OF this]
    have "k = channelKey (cv_ChannelID d) (cv_ChannelType d) \<and> conv_plain d \<and>
      (u \<in> marked ?cv' \<or> (u, conv_channel d) \<in> insert (uid, ch) W \<or> on_store ev u (conv_channel d) (cv_fs ?cv') = Ret (Some d))"
    proof (elim disjE conjE exE)
      assume h: "cached ev u cv k = Some d"
      from conv_inv_cached [OF inv h] show ?thesis by (auto simp: r)
    next
      fix c assume h: "u = uid" "k = ?k" "cached ev uid cv ?k = Some c" "d = from_last m c"
      note * = conv_inv_cached [OF inv h(3)]
      have "conv_channel c = ch" using *(1) by (cases ch) (simp add: conv_channel_def)
      with *(1,2) m h(1,2,4) show ?thesis by (simp add: from_last_def conv_channel_def conv_plain_def)
    qed
    then show "k = channelKey (cv_ChannelID d) (cv_ChannelType d)" "conv_plain d"
      "u \<in> marked ?cv' \<or> (u, conv_channel d) \<in> insert (uid, ch) W \<or> on_store ev u (conv_channel d) (cv_fs ?cv') = Ret (Some d)"
      by blast+
  qed (use inv in \<open>simp_all add: r conv_inv_def\<close>)
qed

text \<open>The message logs are no part of what is saved of conversations.\<close>

lemma stored_conversations_msgs [simp]:
  "StoreTables.GetConversations bo js uid (fs\<lparr>fs_msgs := msgs\<rparr>) = StoreTables.GetConversations bo js uid fs"
  by (simp add: StoreTables.GetConversations_def slotNum_def fs_get_def)

lemma history_inv: "conv_inv ev W cv \<Longrightarrow> conv_inv ev W (cv\<lparr>cv_fs := (cv_fs cv)\<lparr>fs_msgs := msgs\<rparr>\<rparr>)"
  by (simp add: conv_inv_def caches_ok_def cached_def on_store_def GetConversation_def store_good_def)

lemma conv_reach_inv:
  assumes "conv_reach ev cv0 W cv" and "conv_env_ok ev" and "conv_inv ev {} cv0"
  shows "conv_inv ev W cv"
  using assms(1)
proof (induction rule: conv_reach.induct)
  case (calculate W cv now cv')
  with calc_step_inv [OF assms(2), of W cv now] show ?case by auto
next
  case (set_count W cv uid channelID channelType n s cv')
  with SetConversationUnread_inv [OF assms(2), of W cv uid channelID channelType n s] show ?case by auto
qed (use assms(2,3) in \<open>blast intro: PushMessage_inv AddOrUpdateConversation_inv mgr_DeleteConversation_inv
  mgr_GetConversation_inv mgr_GetConversations_inv saveloop_step_inv clearExpireConversations_inv change_cached_inv history_inv\<close>)+

text \<open>A state with empty caches over a good store.\<close>

lemma conv_inv_start:
  assumes "store_good ev (cv_fs cv)" and "cv_caches cv = Map.empty" and "cv_queue cv = []"
  shows "conv_inv ev {} cv"
  using assms by (simp add: conv_inv_def caches_ok_def cached_def plain_queue_def)

end
