(* ===== verification/RuntimeSamples.thy ===== *)
theory RuntimeSamples
  imports ServerSamples Dispatch ConversationSteps
begin

text \<open>
  Concrete states of the running server, for the instances of its properties: a cache of conversations,
  a connection that can encrypt, one that logs in and one that has sent a frame.
\<close>

section \<open>Conversations\<close>

text \<open>A cache that never evicts.\<close>

definition sample_lru :: "(gostring \<times> Conversation) list lru" where
  "sample_lru = \<lparr>lr_new = [], lr_look = map_of, lr_keys = (\<lambda>l. remdups (map fst l)), lr_touch = (\<lambda>l _. l),
     lr_add = (\<lambda>l k c. (k, c) # l), lr_remove = (\<lambda>l k. filter (\<lambda>x. fst x \<noteq> k) l),
     lr_change = (\<lambda>l k f. map (\<lambda>(j, c). (j, if j = k then f c else c)) l)\<rparr>"

lemma map_of_remove: "map_of (filter (\<lambda>x. fst x \<noteq> k) l) = (map_of l)(k := None)"
  by (induction l) auto

lemma map_of_change:
  "map_of (map (\<lambda>(j, c). (j, if j = k then f c else c)) l) = (map_of l)(k := map_option f (map_of l k))"
  by (induction l) (auto simp: fun_eq_iff)

lemma sample_lru_ok [simp]: "lru_ok sample_lru"
  by (auto simp: lru_ok_def sample_lru_def map_of_remove map_of_change map_of_eq_None_iff)

definition sample_conv_env :: "(sample_db, (gostring \<times> Conversation) list) conv_env" where
  "sample_conv_env = \<lparr>ce_lru = sample_lru, ce_bolt = sample_bolt, ce_json = counting_codec, ce_on = True,
     ce_cacheExpire = 60, ce_SyncOnce = 100\<rparr>"

text \<open>A message of user 97 to channel 99, waiting to be counted for user 117.\<close>

definition sample_unread :: message where
  "sample_unread = empty_message\<lparr>msg_RecvPacket := (msg_RecvPacket empty_message)
     \<lparr>rcv_Framer := (rcv_Framer (msg_RecvPacket empty_message))\<lparr>RedDot := True\<rparr>, rcv_FromUID := [97],
      rcv_ChannelID := [99], rcv_ChannelType := 2, rcv_MessageSeq := 9\<rparr>\<rparr>"

definition sample_manager :: "(sample_db, (gostring \<times> Conversation) list) convmanager" where
  "sample_manager = \<lparr>cv_caches = Map.empty, cv_needSaveChan = [], cv_needSave = [], cv_noSaveCount = 0, cv_needSync = False,
     cv_queue = [(sample_unread, [[117]])], cv_fs = sample_fs\<rparr>"

lemma sample_conv_simps [simp]:
  "ce_lru sample_conv_env = sample_lru" "ce_bolt sample_conv_env = sample_bolt" "ce_json sample_conv_env = counting_codec"
  "cv_fs sample_manager = sample_fs" "cv_queue sample_manager = [(sample_unread, [[117]])]"
  "cv_caches sample_manager = Map.empty" "cv_needSave sample_manager = []" "cv_needSaveChan sample_manager = []"
  by (simp_all add: sample_conv_env_def sample_manager_def)

lemma sample_conv_env_ok [simp]: "conv_env_ok sample_conv_env"
  by (simp add: conv_env_ok_def sample_bolt_ok counting_codec_ok)

lemma sample_unread_simps [simp]:
  "conv_of_message sample_unread [117] = ([99], 2)" "unread sample_unread [117]"
  "rcv_MessageSeq (msg_RecvPacket sample_unread) = 9" "plain_message sample_unread"
  by (simp_all add: conv_of_message_def conv_channelID_def unread_def sample_unread_def plain_message_def empty_message_def
      empty_recv_def plain_def)

lemma sample_store_good [simp]: "store_good sample_conv_env sample_fs" "readable sample_conv_env sample_fs"
  by (simp_all add: store_good_def readable_def sample_conversations)

lemma sample_manager_inv [simp]: "conv_inv sample_conv_env {} sample_manager" "caches_ok sample_conv_env sample_manager"
  by (simp_all add: conv_inv_def caches_ok_def cached_def plain_queue_def) (simp add: plain_def)

lemma sample_not_seen [simp]: "seen sample_conv_env u ch sample_manager = Ret None"
  by (simp add: seen_def cached_def GetConversation_def sample_conversations mapR_def)

section \<open>A hub that can deliver\<close>

text \<open>Connection 5 of user \<open>u\<close> after its handshake, with nothing in flight.\<close>

definition keyed_conn :: "'c net_conn" where
  "keyed_conn = (init_conn 5 3 zero_conn)\<lparr>cn_uid := [117], cn_authed := True, cn_protoVersion := 3,
     cn_values := [str ''aesKey'' \<mapsto> replicate 16 1, str ''aesIV'' \<mapsto> replicate 16 0]\<rparr>"

definition engine_with :: "'c net_conn \<Rightarrow> 'c engine" where
  "engine_with c = \<lparr>eg_conns = [3 \<mapsto> 0], eg_heap = (\<lambda>_. c), eg_idle = [], eg_next = 1, eg_clientIDGen = 5\<rparr>"

definition sample_conns :: connManager where
  "sample_conns = \<lparr>cm_userConnMap = (\<lambda>_. [])([117] := [5]), cm_connMap = [5 \<mapsto> 3]\<rparr>"

definition hub_with :: "'c net_conn \<Rightarrow> connManager \<Rightarrow> 'c hub" where
  "hub_with c cm = \<lparr>hb_engine = engine_with c, hb_conns = cm, hb_heap = sample_heap, hb_fresh = 4, hb_retry = sample_retry,
     hb_out = [], hb_offline = []\<rparr>"

definition sample_hub :: "unit hub" where
  "sample_hub = hub_with keyed_conn sample_conns"

definition sample_job :: deliver_job where
  "sample_job = \<lparr>dj_messages = [sample_unread], dj_large = False, dj_syncOnceSeqs = [], dj_subscribers = [[117]],
     dj_fromUID = [97], dj_fromDeviceFlag = 0, dj_fromDeviceID = []\<rparr>"

lemma hub_with_simps [simp]:
  "hb_engine (hub_with c cm) = engine_with c" "hb_conns (hub_with c cm) = cm" "hb_retry (hub_with c cm) = sample_retry"
  "hb_heap (hub_with c cm) = sample_heap" "hb_out (hub_with c cm) = []" "hb_offline (hub_with c cm) = []"
  "conn_at (engine_with c) a = c" "eg_conns (engine_with c) 3 = Some 0"
  by (simp_all add: hub_with_def engine_with_def conn_at_def)

lemma keyed_conn_simps [simp]:
  "cn_uid keyed_conn = [117]" "cn_id keyed_conn = 5" "cn_fd keyed_conn = 3" "cn_authed keyed_conn"
  "cn_deviceID keyed_conn = []" "cn_protoVersion keyed_conn = 3" "cn_deviceLevel keyed_conn = 0"
  "conn_keys keyed_conn = Ret (replicate 16 1, replicate 16 0)"
  by (simp_all add: keyed_conn_def init_conn_def zero_conn_def conn_keys_def)

lemma keyed_conn_keyed [simp]: "keyed sample_world keyed_conn"
  by (simp add: keyed_def sample_world_def key_size_ok_def)

lemma sample_job_conns [simp]: "job_conns sample_job sample_hub [117] = [0]"
  by (simp add: sample_job_def getRecvConns_def sample_hub_def GetConnsWithUID_def sample_conns_def
      GetConn_def engine_GetConn_def clientIsSelf_def List.map_filter_def)

lemma sample_hub_full [simp]: "hub_full (hub_with c cm)"
  by (simp add: hub_full_def)

lemma sample_hub_queue [simp]: "in_queue x (hb_retry (hub_with c cm)) \<longleftrightarrow> x = 3"
  by (simp add: in_queue_def set_mset_mset [symmetric] del: set_mset_mset)

section \<open>A server\<close>

definition server_with :: "connContext hub \<Rightarrow> sample_db server" where
  "server_with h = \<lparr>sv_node = sample_node, sv_hub = h, sv_slowClients = 0, sv_timers = [], sv_onlineStatus = [],
     sv_ipBlacklist = Map.empty\<rparr>"

lemma server_with_simps [simp]:
  "sv_hub (server_with h) = h" "sv_node (server_with h) = sample_node" "sv_timers (server_with h) = []"
  "sv_ipBlacklist (server_with h) = Map.empty" "nd_fs sample_node = sample_fs"
  by (simp_all add: server_with_def sample_node_def)

text \<open>A world whose hash has the right length, and a user who logs in on a new connection.\<close>

definition login_world :: "sample_db world" where
  "login_world = sample_world\<lparr>wd_md5 := \<lambda>_. replicate 16 0\<rparr>"

definition sample_login :: login where
  "sample_login = \<lparr>lg_private = [], lg_public = [], lg_iv = replicate 16 0, lg_dh = (\<lambda>_ _. []), lg_now = 0, lg_connIdleTime = 180\<rparr>"

definition sample_connect :: ConnectPacket where
  "sample_connect = \<lparr>con_Framer = empty_framer, con_Version = 3, con_ClientKey = b64_encode (replicate 32 0), con_DeviceID = [100],
     con_DeviceFlag = 0, con_ClientTimestamp = 0, con_UID = [117], con_Token = []\<rparr>"

definition entering :: "sample_db server" where
  "entering = server_with (hub_with (init_conn 5 3 zero_conn) NewConnManager)"

lemma sample_key_length: "length (b64_encode (replicate 32 0)) = 44"
  by code_simp

lemma entering_simps [simp]:
  "sv_manager_ok entering" "eg_conns (hb_engine (sv_hub entering)) (cn_fd (sv_conn entering 0)) = Some 0"
  "cm_connMap (hb_conns (sv_hub entering)) (cn_id (sv_conn entering 0)) = None"
  "md5_ok login_world" "cipher_ok (wd_cipher login_world)" "length (lg_iv sample_login) = 16"
  by (simp_all add: entering_def NewConnManager_ok init_conn_def, simp_all add: NewConnManager_def md5_ok_def login_world_def
      sample_world_def sample_login_def)

lemma sample_admitted: "\<exists>sv. processAuth login_world sample_login 0 sample_connect entering = Ret sv"
proof -
  have key: "\<not> blank (con_ClientKey sample_connect)"
    unfolding sample_connect_def by code_simp
  have "verify_token login_world sample_connect sample_fs = Ret (DeviceLevelSlave, 0)"
    by (simp add: verify_token_def login_world_def sample_world_def sample_options_def sample_connect_def)
  moreover have "fs_GetChannel (wd_bolt login_world) js u ct sample_fs = Ret None" for js u ct
    by (simp add: fs_GetChannel_def login_world_def sample_world_def)
  moreover have "\<exists>keys. getClientAesKeyAndIV login_world sample_login (con_ClientKey sample_connect) = Ret keys"
    using sample_key_length by (simp add: getClientAesKeyAndIV_def sample_connect_def b64_roundtrip)
  moreover have "\<exists>sv. admit sample_login sample_connect levels keys 0 entering = Ret sv" for levels keys
    by (simp add: admit_def entering_def GetConnsWith_def GetConnsWithUID_def NewConnManager_def List.map_filter_def Let_def)
  ultimately show ?thesis using key
    by (auto simp: processAuth_def entering_def)
qed

text \<open>A connection on which a PING has arrived.\<close>

definition ping_ring :: ring where
  "ping_ring = \<lparr>rb_buf = 112 # replicate 7 0, rb_size = 8, rb_r = 0, rb_w = 1, rb_isEmpty = False\<rparr>"

definition waiting_context :: connContext where
  "waiting_context = newConnContext\<lparr>cc_conn := Some 0\<rparr>"

definition pinged_conn :: "connContext net_conn" where
  "pinged_conn = keyed_conn\<lparr>cn_context := Some waiting_context, cn_inbound := Some ping_ring\<rparr>"

definition pinged :: "sample_db server" where
  "pinged = server_with (hub_with pinged_conn sample_conns)"

definition sample_runtime :: "sample_db runtime" where
  "sample_runtime = \<lparr>rt_world = sample_world, rt_urls = \<lparr>up_parse = (\<lambda>s. Ret (s, [])), up_jsonToMap = (\<lambda>_. Map.empty)\<rparr>,
     rt_mapOrder = id, rt_schedule = id\<rparr>"

lemma pinged_simps [simp]:
  "cn_authed (sv_conn pinged a)" "cn_context (sv_conn pinged a) = Some waiting_context" "cc_conn waiting_context = Some 0"
  "cc_frameCaches waiting_context = []" "cn_protoVersion (sv_conn pinged a) = 3" "el_ok (cn_inbound (sv_conn pinged a))"
  "el_contents (cn_inbound (sv_conn pinged a)) = [112]" "fst (connIsAllow None pinged)"
  by (simp_all add: pinged_def pinged_conn_def waiting_context_def newConnContext_def ping_ring_def ring_ok_def contents_def
      connIsAllow_def)

text \<open>A connection whose user and device have a message in flight.\<close>

definition acking :: "sample_db server" where
  "acking = server_with (hub_with (keyed_conn\<lparr>cn_uid := []\<rparr>) sample_conns)"

lemma acking_simps: "cn_uid (sv_conn acking a) = []" "cn_deviceID (sv_conn acking a) = []"
    "hb_retry (sv_hub acking) = sample_retry"
  by (simp_all add: acking_def)

lemma sample_acked: "\<exists>sv. processRecvacks sample_world 0
    [\<lparr>rak_Framer = empty_framer, rak_MessageID = i, rak_MessageSeq = n\<rparr>] acking = Ret sv"
proof -
  have "finishMessage u d m r \<noteq> Panic" for u d m r
    by (auto simp: finishMessage_def popInFlightMessage_def Let_def split: option.splits)
  then show ?thesis
    by (cases "finishMessage [] [] i sample_retry") (auto simp: finish_one_def move_cursor_def acking_simps empty_framer_def Let_def)
qed

text \<open>A user with a connection on each of two devices, who logs in once more on the first of them.\<close>

definition device_conn :: "nat \<Rightarrow> connContext net_conn" where
  "device_conn a = (init_conn (int a + 5) (int a + 3) zero_conn)
     \<lparr>cn_uid := if a < 2 then [117] else [], cn_deviceID := if a = 0 then [100] else [101]\<rparr>"

definition returning :: "sample_db server" where
  "returning = server_with ((hub_with zero_conn \<lparr>cm_userConnMap = (\<lambda>_. [])([117] := [5, 6]), cm_connMap = [5 \<mapsto> 3, 6 \<mapsto> 4]\<rparr>)
     \<lparr>hb_engine := (engine_with zero_conn)\<lparr>eg_conns := [3 \<mapsto> 0, 4 \<mapsto> 1, 5 \<mapsto> 2], eg_heap := device_conn\<rparr>\<rparr>)"

lemma returning_conn: "sv_conn returning a = device_conn a"
  by (simp add: returning_def conn_at_def)

lemma returning_conns: "GetConnsWithUID [117] (hb_engine (sv_hub returning)) (hb_conns (sv_hub returning)) = [0, 1]"
  by (simp add: GetConnsWithUID_def GetConn_def engine_GetConn_def returning_def List.map_filter_def)

lemma returning_olds: "GetConnsWith [117] 0 (hb_engine (sv_hub returning)) (hb_conns (sv_hub returning)) = [0, 1]"
  by (simp add: GetConnsWith_def returning_conns) (simp add: returning_conn device_conn_def init_conn_def)

lemma returning_ok: "sv_manager_ok returning" "eg_conns (hb_engine (sv_hub returning)) (cn_fd (sv_conn returning 2)) = Some 2"
    "cm_connMap (hb_conns (sv_hub returning)) (cn_id (sv_conn returning 2)) = None"
proof -
  have reg: "registered (hb_engine (sv_hub returning)) (hb_conns (sv_hub returning)) [117] 5 0"
    "registered (hb_engine (sv_hub returning)) (hb_conns (sv_hub returning)) [117] 6 1"
    unfolding registered_def returning_conn by (simp_all add: returning_def device_conn_def init_conn_def)
  then show "sv_manager_ok returning" unfolding manager_ok_def by (auto simp: returning_def)
  show "eg_conns (hb_engine (sv_hub returning)) (cn_fd (sv_conn returning 2)) = Some 2"
    "cm_connMap (hb_conns (sv_hub returning)) (cn_id (sv_conn returning 2)) = None"
    unfolding returning_conn by (simp_all add: returning_def device_conn_def init_conn_def)
qed

end
