(* ===== verification/ApiBase.thy ===== *)
theory ApiBase
  imports Dispatch ConversationSteps
begin

text \<open>
  What the HTTP handlers of \<^verbatim>\<open>internal/server/api_*.go\<close> share. A handler takes the request that
  was read from the body, or the error of reading it, and changes the server. \<open>Fail e\<close> is the answer
  \<open>ResponseError(e)\<close> with the early return that follows it; what was done before it stays. A panic ends
  only the request. Messages of errors are given in English where the source has them in Chinese.
\<close>

section \<open>Handlers\<close>

type_synonym ('s, 'a) handler = "'s \<Rightarrow> 'a outcome \<times> 's"

definition returnS :: "'a \<Rightarrow> ('s, 'a) handler" where
  "returnS x s = (Ret x, s)"

definition liftR :: "'a outcome \<Rightarrow> ('s, 'a) handler" where
  "liftR r s = (r, s)"

definition bindS :: "('s, 'a) handler \<Rightarrow> ('a \<Rightarrow> ('s, 'b) handler) \<Rightarrow> ('s, 'b) handler" where
  "bindS m f s = (case m s of (Ret x, s) \<Rightarrow> f x s | (Fail e, s) \<Rightarrow> (Fail e, s) | (Panic, s) \<Rightarrow> (Panic, s))"

definition thenS :: "('s, 'a) handler \<Rightarrow> ('s, 'b) handler \<Rightarrow> ('s, 'b) handler" where
  "thenS m n = bindS m (\<lambda>_. n)"

text \<open>Another error in place of the one that came back.\<close>

definition orS :: "go_error \<Rightarrow> ('s, 'a) handler \<Rightarrow> ('s, 'a) handler" where
  "orS e m s = (case m s of (Fail _, s) \<Rightarrow> (Fail e, s) | r \<Rightarrow> r)"

definition wrapS :: "string \<Rightarrow> ('s, 'a) handler \<Rightarrow> ('s, 'a) handler" where
  "wrapS msg m s = (case m s of (r, s) \<Rightarrow> (wrapR msg r, s))"

definition checkS :: "bool \<Rightarrow> string \<Rightarrow> ('s, unit) handler" where
  "checkS bad msg = (if bad then liftR (Fail (ErrMsg msg)) else returnS ())"

definition whenS :: "bool \<Rightarrow> ('s, unit) handler \<Rightarrow> ('s, unit) handler" where
  "whenS b m = (if b then m else returnS ())"

fun eachS :: "('a \<Rightarrow> ('s, unit) handler) \<Rightarrow> 'a list \<Rightarrow> ('s, unit) handler" where
  "eachS f [] = returnS ()"
| "eachS f (x # xs) = thenS (f x) (eachS f xs)"

section \<open>The state\<close>

text \<open>The server together with its conversation manager; both work on the server's one store.\<close>

record ('d, 'l) app =
  ap_server :: "'d server"
  ap_conv :: "('d, 'l) convmanager"

record ('d, 'l) app_env =
  ae_world :: "'d world"
  ae_conv :: "('d, 'l) conv_env"

abbreviation ap_node :: "('d, 'l) app \<Rightarrow> 'd node" where "ap_node s \<equiv> sv_node (ap_server s)"
abbreviation ap_fs :: "('d, 'l) app \<Rightarrow> 'd filestore" where "ap_fs s \<equiv> nd_fs (ap_node s)"
abbreviation ap_channels :: "('d, 'l) app \<Rightarrow> channels" where "ap_channels s \<equiv> nd_channels (ap_node s)"

abbreviation bolt_of :: "('d, 'l) app_env \<Rightarrow> 'd bolt" where "bolt_of ev \<equiv> wd_bolt (ae_world ev)"
abbreviation json_of :: "('d, 'l) app_env \<Rightarrow> json_codec" where "json_of ev \<equiv> wd_json (ae_world ev)"
abbreviation opts_of :: "('d, 'l) app_env \<Rightarrow> options" where "opts_of ev \<equiv> wd_opts (ae_world ev)"

definition map_server :: "('d server \<Rightarrow> 'd server) \<Rightarrow> ('d, 'l) app \<Rightarrow> ('d, 'l) app" where
  "map_server f s = s\<lparr>ap_server := f (ap_server s)\<rparr>"

definition map_node :: "('d node \<Rightarrow> 'd node) \<Rightarrow> ('d, 'l) app \<Rightarrow> ('d, 'l) app" where
  "map_node f = map_server (\<lambda>sv. sv\<lparr>sv_node := f (sv_node sv)\<rparr>)"

definition map_channels :: "(channels \<Rightarrow> channels) \<Rightarrow> ('d, 'l) app \<Rightarrow> ('d, 'l) app" where
  "map_channels f = map_node (\<lambda>nd. nd\<lparr>nd_channels := f (nd_channels nd)\<rparr>)"

definition set_fs :: "'d filestore \<Rightarrow> ('d, 'l) app \<Rightarrow> ('d, 'l) app" where
  "set_fs fs = map_node (\<lambda>nd. nd\<lparr>nd_fs := fs\<rparr>)"

lemma app_simps [simp]:
  "ap_fs (map_channels f s) = ap_fs s" "ap_channels (map_channels f s) = f (ap_channels s)" "ap_conv (map_channels f s) = ap_conv s"
  "ap_fs (set_fs fs s) = fs" "ap_channels (set_fs fs s) = ap_channels s" "ap_conv (set_fs fs s) = ap_conv s"
  "sv_hub (ap_server (map_channels f s)) = sv_hub (ap_server s)" "sv_hub (ap_server (set_fs fs s)) = sv_hub (ap_server s)"
  by (simp_all add: map_channels_def map_node_def map_server_def set_fs_def)

text \<open>Reading and writing the store, and an operation of the conversation manager on it.\<close>

definition readS :: "('d filestore \<Rightarrow> 'a outcome) \<Rightarrow> (('d, 'l) app, 'a) handler" where
  "readS f s = (f (ap_fs s), s)"

definition writeS :: "('d filestore \<Rightarrow> 'd filestore outcome) \<Rightarrow> (('d, 'l) app, unit) handler" where
  "writeS f s = (case f (ap_fs s) of Ret fs \<Rightarrow> (Ret (), set_fs fs s) | Fail e \<Rightarrow> (Fail e, s) | Panic \<Rightarrow> (Panic, s))"

definition conv_env_of :: "('d, 'l) app_env \<Rightarrow> ('d, 'l) conv_env" where
  "conv_env_of ev = (ae_conv ev)\<lparr>ce_bolt := wd_bolt (ae_world ev), ce_json := wd_json (ae_world ev)\<rparr>"

definition convS :: "(('d, 'l) convmanager \<Rightarrow> ('d, 'l) convmanager outcome) \<Rightarrow> (('d, 'l) app, unit) handler" where
  "convS f s =
     (case f ((ap_conv s)\<lparr>cv_fs := ap_fs s\<rparr>) of
        Ret cv \<Rightarrow> (Ret (), set_fs (cv_fs cv) (s\<lparr>ap_conv := cv\<rparr>))
      | Fail e \<Rightarrow> (Fail e, s)
      | Panic \<Rightarrow> (Panic, s))"

section \<open>Channels\<close>

definition getChannelS :: "('d, 'l) app_env \<Rightarrow> gostring \<Rightarrow> u8 \<Rightarrow> (('d, 'l) app, channel option) handler" where
  "getChannelS ev channelID channelType s =
     (let (r, cs) = GetChannel (env_of (ae_world ev) (ap_node s)) channelID channelType (ap_channels s) in
      (r, map_channels (\<lambda>_. cs) s))"

text \<open>The channel that \<open>GetChannel\<close> hands out is the object in the cache; a method changes it there.\<close>

definition change_channel :: "options \<Rightarrow> gostring \<Rightarrow> u8 \<Rightarrow> (channel \<Rightarrow> channel) \<Rightarrow> channels \<Rightarrow> channels" where
  "change_channel opts channelID channelType f cs =
     (let k = channelKey channelID channelType in
      if IsTmpChannel opts channelID
      then cs\<lparr>cm_tmpChannelCache := (cm_tmpChannelCache cs)(k := map_option f (cm_tmpChannelCache cs k))\<rparr>
      else if channelType = ChannelTypeData
      then cs\<lparr>cm_dataChannelCache := (cm_dataChannelCache cs)(k := map_option f (cm_dataChannelCache cs k))\<rparr>
      else cs\<lparr>cm_channelCache := (cm_channelCache cs)(k := map_option f (cm_channelCache cs k))\<rparr>)"

definition changeS :: "('d, 'l) app_env \<Rightarrow> gostring \<Rightarrow> u8 \<Rightarrow> (channel \<Rightarrow> channel) \<Rightarrow> (('d, 'l) app, unit) handler" where
  "changeS ev channelID channelType f s =
     (Ret (), map_channels (change_channel (wd_opts (ae_world ev)) channelID channelType f) s)"

text \<open>A method on the channel that is fetched first; on a nil channel it panics.\<close>

definition updateS :: "('d, 'l) app_env \<Rightarrow> gostring \<Rightarrow> u8 \<Rightarrow> (channel \<Rightarrow> channel) \<Rightarrow> (('d, 'l) app, unit) handler" where
  "updateS ev channelID channelType f =
     bindS (getChannelS ev channelID channelType) (\<lambda>c.
       case c of None \<Rightarrow> liftR Panic | Some _ \<Rightarrow> changeS ev channelID channelType f)"

section \<open>Handlers that keep a property of the state\<close>

text \<open>\<open>keeps I m\<close>: the handler keeps the invariant, however it ends.\<close>

definition keeps :: "('s \<Rightarrow> bool) \<Rightarrow> ('s, 'a) handler \<Rightarrow> bool" where
  "keeps I m \<longleftrightarrow> (\<forall>s. I s \<longrightarrow> I (snd (m s)))"

lemma keepsI: "(\<And>s r s'. I s \<Longrightarrow> m s = (r, s') \<Longrightarrow> I s') \<Longrightarrow> keeps I m"
  by (simp add: keeps_def) (metis prod.collapse)

lemma keepsD: "keeps I m \<Longrightarrow> I s \<Longrightarrow> m s = (r, s') \<Longrightarrow> I s'"
  by (metis keeps_def snd_conv)

named_theorems keeps_intro

lemma keeps_returnS [keeps_intro]: "keeps I (returnS x)"
  by (simp add: keeps_def returnS_def)

lemma keeps_liftR [keeps_intro]: "keeps I (liftR r)"
  by (simp add: keeps_def liftR_def)

lemma keeps_bindS [keeps_intro]:
  assumes "keeps I m" and "\<And>x. keeps I (f x)"
  shows "keeps I (bindS m f)"
proof (rule keepsI)
  fix s r s' assume "I s" "bindS m f s = (r, s')"
  obtain r1 s1 where m: "m s = (r1, s1)" by fastforce
  have I1: "I s1" by (rule keepsD [OF assms(1) \<open>I s\<close> m])
  show "I s'"
    using \<open>bindS m f s = (r, s')\<close> I1 keepsD [OF assms(2) I1] by (cases r1) (auto simp: bindS_def m)
qed

lemma keeps_thenS [keeps_intro]: "keeps I m \<Longrightarrow> keeps I n \<Longrightarrow> keeps I (thenS m n)"
  unfolding thenS_def by (intro keeps_bindS)

lemma keeps_orS [keeps_intro]: "keeps I m \<Longrightarrow> keeps I (orS e m)"
  by (auto simp: keeps_def orS_def split: prod.split outcome.split)

lemma keeps_wrapS [keeps_intro]: "keeps I m \<Longrightarrow> keeps I (wrapS msg m)"
  by (auto simp: keeps_def wrapS_def split: prod.split)

lemma keeps_checkS [keeps_intro]: "keeps I (checkS b msg)"
  by (simp add: checkS_def keeps_returnS keeps_liftR)

lemma keeps_whenS [keeps_intro]: "(b \<Longrightarrow> keeps I m) \<Longrightarrow> keeps I (whenS b m)"
  by (simp add: whenS_def keeps_returnS)

lemma keeps_eachS [keeps_intro]: "(\<And>x. x \<in> set xs \<Longrightarrow> keeps I (f x)) \<Longrightarrow> keeps I (eachS f xs)"
  by (induction xs) (simp_all add: keeps_returnS keeps_thenS)

lemma keeps_if [keeps_intro]: "(b \<Longrightarrow> keeps I m) \<Longrightarrow> (\<not> b \<Longrightarrow> keeps I n) \<Longrightarrow> keeps I (if b then m else n)"
  by simp

lemma keeps_option [keeps_intro]: "keeps I m \<Longrightarrow> (\<And>x. keeps I (f x)) \<Longrightarrow> keeps I (case x of None \<Rightarrow> m | Some x \<Rightarrow> f x)"
  by (cases x) simp_all

lemma keeps_readS [keeps_intro]: "keeps I (readS f)"
  by (simp add: keeps_def readS_def)

lemma thenS_assoc: "thenS (thenS m n) p = thenS m (thenS n p)"
  by (rule ext) (simp add: thenS_def bindS_def split: prod.split outcome.split)

lemma bindS_eq_Ret: "bindS m f s = (Ret x, s') \<longleftrightarrow> (\<exists>y s1. m s = (Ret y, s1) \<and> f y s1 = (Ret x, s'))"
  by (auto simp: bindS_def split: prod.splits outcome.splits)

lemma thenS_eq_Ret: "thenS m n s = (Ret x, s') \<longleftrightarrow> (\<exists>y s1. m s = (Ret y, s1) \<and> n s1 = (Ret x, s'))"
  by (simp add: thenS_def bindS_eq_Ret)

lemma returnS_eq [simp]: "returnS x s = (r, s') \<longleftrightarrow> r = Ret x \<and> s' = s"
  by (auto simp: returnS_def)

lemma liftR_eq [simp]: "liftR r s = (r', s') \<longleftrightarrow> r' = r \<and> s' = s"
  by (auto simp: liftR_def)

lemma checkS_Ret [simp]: "checkS b msg s = (Ret y, s') \<longleftrightarrow> \<not> b \<and> s' = s"
  by (auto simp: checkS_def)

lemma readS_eq [simp]: "readS f s = (r, s') \<longleftrightarrow> r = f (ap_fs s) \<and> s' = s"
  by (auto simp: readS_def)

lemma orS_Ret [simp]: "orS e m s = (Ret y, s') \<longleftrightarrow> m s = (Ret y, s')"
  by (auto simp: orS_def split: prod.splits outcome.splits)

lemma wrapS_Ret [simp]: "wrapS msg m s = (Ret y, s') \<longleftrightarrow> m s = (Ret y, s')"
  by (cases "m s"; cases "fst (m s)") (auto simp: wrapS_def wrapR_def)

lemma writeS_eq_Ret: "writeS f s = (Ret u, s') \<longleftrightarrow> (\<exists>fs. f (ap_fs s) = Ret fs \<and> s' = set_fs fs s)"
  by (auto simp: writeS_def split: outcome.splits)

lemma whenS_Ret [simp]: "whenS b m s = (Ret u, s') \<longleftrightarrow> (if b then m s = (Ret u, s') else s' = s)"
  by (auto simp: whenS_def)

lemma map_server_simps [simp]: "ap_server (map_server f s) = f (ap_server s)" "ap_conv (map_server f s) = ap_conv s"
  by (simp_all add: map_server_def)

lemma server_of_set_fs [simp]: "sv_ipBlacklist (ap_server (set_fs fs s)) = sv_ipBlacklist (ap_server s)"
    "sv_ipBlacklist (ap_server (map_channels g s)) = sv_ipBlacklist (ap_server s)"
  by (simp_all add: set_fs_def map_channels_def map_node_def)

section \<open>The database can be written\<close>

definition bolt_up :: "'d bolt \<Rightarrow> bool" where
  "bolt_up bo \<longleftrightarrow> (\<forall>db b k v. \<exists>db'. bo_put bo db b k v = Ret db') \<and> (\<forall>db b k. \<exists>db'. bo_delete bo db b k = Ret db')"

lemma bolt_up_writes:
  assumes "bolt_up bo"
  shows "\<exists>fs'. fs_set bo slot key v fs = Ret fs'" and "\<exists>fs'. fs_delete bo slot key fs = Ret fs'"
proof -
  obtain db where "bo_put bo (fs_db fs) (getSlotBucket slot) key v = Ret db" using assms unfolding bolt_up_def by blast
  then show "\<exists>fs'. fs_set bo slot key v fs = Ret fs'" by (simp add: fs_set_def with_db_def mapR_def)
  obtain db' where "bo_delete bo (fs_db fs) (getSlotBucket slot) key = Ret db'" using assms unfolding bolt_up_def by blast
  then show "\<exists>fs'. fs_delete bo slot key fs = Ret fs'" by (simp add: fs_delete_def with_db_def mapR_def)
qed

end
