(* ===== verification/ChannelApi.thy ===== *)
theory ChannelApi
  imports ApiBase
begin

text \<open>
  The administration of channels, \<^verbatim>\<open>internal/server/api_channel.go\<close>: creating and deleting channels,
  their subscribers, deny and allow lists. Every handler writes the store and then the channel in the
  manager's cache; what is shown is that the two agree, in every order of requests, and that a decision
  takes effect at once. Reading and checking a request is part of each handler.
\<close>

section \<open>Requests\<close>

record ChannelInfoReq =
  cir_ChannelID :: gostring
  cir_ChannelType :: u8
  cir_Large :: int
  cir_Ban :: int

definition ToChannelInfo :: "ChannelInfoReq \<Rightarrow> channelInfo" where
  "ToChannelInfo c = \<lparr>ci_ChannelID = cir_ChannelID c, ci_ChannelType = cir_ChannelType c,
     ci_Ban = (cir_Ban c = 1), ci_Large = (cir_Large c = 1)\<rparr>"

record ChannelCreateReq =
  ccr_Info :: ChannelInfoReq
  ccr_Subscribers :: "gostring list"

definition ChannelCreateReq_Check :: "ChannelCreateReq \<Rightarrow> ('s, unit) handler" where
  "ChannelCreateReq_Check r =
     thenS (checkS (blank (cir_ChannelID (ccr_Info r))) ''channel id cannot be empty'')
       (checkS (cir_ChannelType (ccr_Info r) = 0) ''wrong channel type'')"

definition stringArrayIsEmpty :: "gostring list \<Rightarrow> bool" where
  "stringArrayIsEmpty array \<longleftrightarrow> length array = 0 \<or> length (filter blank array) \<ge> length array"

record subscriberReq =
  sr_ChannelID :: gostring
  sr_ChannelType :: u8
  sr_Reset :: int
  sr_TempSubscriber :: int
  sr_Subscribers :: "gostring list"

definition subscriberReq_Check :: "subscriberReq \<Rightarrow> ('s, unit) handler" where
  "subscriberReq_Check r =
     thenS (checkS (blank (sr_ChannelID r)) ''channel id cannot be empty'')
       (checkS (stringArrayIsEmpty (sr_Subscribers r)) ''subscribers cannot be empty'')"

record listReq =
  lq_ChannelID :: gostring
  lq_ChannelType :: u8
  lq_UIDs :: "gostring list"

definition blacklistReq_Check :: "listReq \<Rightarrow> ('s, unit) handler" where
  "blacklistReq_Check r =
     thenS (checkS (lq_ChannelID r = []) ''channel_id cannot be empty'')
       (thenS (checkS (lq_ChannelType r = 0) ''channel type cannot be 0'')
         (checkS (length (lq_UIDs r) \<le> 0) ''uids cannot be empty''))"

definition whitelistReq_Check :: "listReq \<Rightarrow> ('s, unit) handler" where
  "whitelistReq_Check r =
     thenS (checkS (lq_ChannelID r = []) ''channel_id cannot be empty'')
       (thenS (checkS (lq_ChannelType r = 0) ''channel type cannot be 0'')
         (checkS (stringArrayIsEmpty (lq_UIDs r)) ''uids cannot be empty''))"

section \<open>Channels\<close>

definition channelCreateOrUpdate :: "('d, 'l) app_env \<Rightarrow> ChannelCreateReq outcome \<Rightarrow> (('d, 'l) app, unit) handler" where
  "channelCreateOrUpdate ev body =
     (let bo = wd_bolt (ae_world ev); js = wd_json (ae_world ev) in
      bindS (liftR (wrapR ''wrong data format'' body)) (\<lambda>req.
      let channelID = cir_ChannelID (ccr_Info req); t = cir_ChannelType (ccr_Info req) in
      thenS (ChannelCreateReq_Check req)
      (thenS (checkS (t = ChannelTypePerson) ''person channels are not supported'')
      (thenS (writeS (AddOrUpdateChannel bo js (ToChannelInfo (ccr_Info req))))
      (thenS (orS (ErrMsg ''removing all subscribers failed'') (writeS (RemoveAllSubscriber_store bo channelID t)))
      (thenS (whenS (length (ccr_Subscribers req) > 0) (writeS (AddSubscribers_store bo channelID t (ccr_Subscribers req))))
        (\<lambda>s. (Ret (), map_channels (DeleteChannelFromCache channelID t) s))))))))"

definition updateOrAddChannelInfo :: "('d, 'l) app_env \<Rightarrow> ChannelInfoReq outcome \<Rightarrow> (('d, 'l) app, unit) handler" where
  "updateOrAddChannelInfo ev body =
     bindS (orS (ErrMsg ''wrong data format'') (liftR body)) (\<lambda>req.
     let info = ToChannelInfo req; k = channelKey (cir_ChannelID req) (cir_ChannelType req) in
     thenS (orS (ErrMsg ''adding or updating the channel failed'')
         (writeS (AddOrUpdateChannel (wd_bolt (ae_world ev)) (wd_json (ae_world ev)) info)))
       (\<lambda>s. (Ret (), map_channels (\<lambda>cs. case getChannelFromCache (cir_ChannelID req) (cir_ChannelType req) cs of
           None \<Rightarrow> cs | Some c \<Rightarrow> cs\<lparr>cm_channelCache := (cm_channelCache cs)(k \<mapsto> c\<lparr>ch_Info := info\<rparr>)\<rparr>) s)))"

text \<open>Messages are not cleared: the function of that name only warns that it is not implemented.\<close>

definition DeleteChannelAndClearMessages :: "gostring \<Rightarrow> u8 \<Rightarrow> 'd filestore \<Rightarrow> 'd filestore outcome" where
  "DeleteChannelAndClearMessages channelID channelType fs = Ret fs"

definition channelDelete :: "('d, 'l) app_env \<Rightarrow> (gostring \<times> u8) outcome \<Rightarrow> (('d, 'l) app, unit) handler" where
  "channelDelete ev body =
     bindS (liftR (wrapR ''wrong data format'' body)) (\<lambda>(channelID, channelType).
     thenS (writeS (DeleteChannelAndClearMessages channelID channelType))
       (\<lambda>s. case manager_DeleteChannel (wd_bolt (ae_world ev)) channelID channelType (ap_channels s) (ap_fs s) of
          Ret (cs, fs) \<Rightarrow> (Ret (), set_fs fs (map_channels (\<lambda>_. cs) s))
        | Fail _ \<Rightarrow> (Ret (), s)
        | Panic \<Rightarrow> (Panic, s)))"

section \<open>Subscribers\<close>

definition addTmpSubscriberWithReq :: "('d, 'l) app_env \<Rightarrow> subscriberReq \<Rightarrow> u8 \<Rightarrow> (('d, 'l) app, unit) handler" where
  "addTmpSubscriberWithReq ev req t =
     thenS (whenS (sr_Reset req = 1) (changeS ev (sr_ChannelID req) t RemoveAllTmpSubscriber))
       (changeS ev (sr_ChannelID req) t (AddTmpSubscribers (sr_Subscribers req)))"

definition addSubscriberWithReq :: "('d, 'l) app_env \<Rightarrow> subscriberReq \<Rightarrow> u8 \<Rightarrow> (('d, 'l) app, unit) handler" where
  "addSubscriberWithReq ev req t =
     (let bo = wd_bolt (ae_world ev); channelID = sr_ChannelID req in
      bindS (if sr_Reset req = 1
             then thenS (writeS (RemoveAllSubscriber_store bo channelID t))
               (thenS (changeS ev channelID t RemoveAllSubscriber) (returnS []))
             else readS (GetSubscribers bo channelID t)) (\<lambda>existSubscribers.
      let newSubscribers = filter (\<lambda>u. \<not> blank u \<and> u \<notin> set existSubscribers) (sr_Subscribers req) in
      whenS (length newSubscribers > 0)
        (thenS (writeS (AddSubscribers_store bo channelID t newSubscribers))
          (changeS ev channelID t (AddSubscribers newSubscribers)))))"

definition addSubscriber :: "('d, 'l) app_env \<Rightarrow> subscriberReq outcome \<Rightarrow> (('d, 'l) app, unit) handler" where
  "addSubscriber ev body =
     bindS (liftR (wrapR ''wrong data format'' body)) (\<lambda>req.
     thenS (subscriberReq_Check req)
     (thenS (checkS (sr_ChannelType req = ChannelTypePerson) ''person channels take no subscribers'')
     (let t = (if sr_ChannelType req = 0 then ChannelTypeGroup else sr_ChannelType req) in
      bindS (wrapS ''getting the channel failed'' (getChannelS ev (sr_ChannelID req) t)) (\<lambda>channel.
      thenS (checkS (channel = None) ''the channel does not exist'')
        (if sr_TempSubscriber req = 1
         then orS (ErrMsg ''adding temporary subscribers failed'') (addTmpSubscriberWithReq ev req t)
         else orS (ErrMsg ''adding subscribers failed'') (addSubscriberWithReq ev req t))))))"

definition removeSubscriber :: "('d, 'l) app_env \<Rightarrow> subscriberReq outcome \<Rightarrow> (('d, 'l) app, unit) handler" where
  "removeSubscriber ev body =
     bindS (liftR (wrapR ''wrong data format'' body)) (\<lambda>req.
     let channelID = sr_ChannelID req; t = sr_ChannelType req; uids = sr_Subscribers req in
     thenS (subscriberReq_Check req)
     (bindS (wrapS ''getting the channel failed'' (getChannelS ev channelID t)) (\<lambda>channel.
      thenS (checkS (channel = None) ''the channel does not exist'')
        (if sr_TempSubscriber req = 1 then changeS ev channelID t (RemoveTmpSubscribers uids)
         else thenS (writeS (RemoveSubscribers_store (wd_bolt (ae_world ev)) channelID t uids))
           (thenS (changeS ev channelID t (RemoveSubscribers uids))
             (convS (mgr_DeleteConversation (conv_env_of ev) uids channelID t)))))))"

section \<open>Deny and allow lists\<close>

text \<open>For a person the list is that of the channel of the two users.\<close>

definition person_channel_of :: "gostring \<Rightarrow> gostring \<Rightarrow> gostring" where
  "person_channel_of channelID uid = (if IsFakeChannel channelID then channelID else GetFakeChannelIDWith uid channelID)"

definition blacklistAdd :: "('d, 'l) app_env \<Rightarrow> listReq outcome \<Rightarrow> (('d, 'l) app, unit) handler" where
  "blacklistAdd ev body =
     (let add = (\<lambda>channelID t uids. thenS (writeS (AddDenylist_store (wd_bolt (ae_world ev)) channelID t uids))
            (updateS ev channelID t (AddDenylist uids))) in
      bindS (liftR body) (\<lambda>req.
      thenS (blacklistReq_Check req)
      (thenS (checkS (length (lq_UIDs req) = 0) ''uids cannot be empty'')
        (if lq_ChannelType req = ChannelTypePerson
         then eachS (\<lambda>uid. add (person_channel_of (lq_ChannelID req) uid) (lq_ChannelType req) [uid]) (lq_UIDs req)
         else add (lq_ChannelID req) (lq_ChannelType req) (lq_UIDs req)))))"

definition blacklistSet :: "('d, 'l) app_env \<Rightarrow> listReq outcome \<Rightarrow> (('d, 'l) app, unit) handler" where
  "blacklistSet ev body =
     (let bo = wd_bolt (ae_world ev);
          set_to = (\<lambda>channelID t uids.
            thenS (orS (ErrMsg ''removing the whole denylist failed'') (writeS (RemoveAllDenylist bo channelID t)))
            (thenS (whenS (length uids > 0) (writeS (AddDenylist_store bo channelID t uids)))
              (updateS ev channelID t (SetDenylist uids)))) in
      bindS (liftR body) (\<lambda>req.
      thenS (checkS (blank (lq_ChannelID req)) ''channel id cannot be empty'')
        (if lq_ChannelType req = ChannelTypePerson
         then eachS (\<lambda>uid. set_to (person_channel_of (lq_ChannelID req) uid) (lq_ChannelType req) [uid]) (lq_UIDs req)
         else set_to (lq_ChannelID req) (lq_ChannelType req) (lq_UIDs req))))"

definition blacklistRemove :: "('d, 'l) app_env \<Rightarrow> listReq outcome \<Rightarrow> (('d, 'l) app, unit) handler" where
  "blacklistRemove ev body =
     (let remove = (\<lambda>channelID t uids. thenS (writeS (RemoveDenylist_store (wd_bolt (ae_world ev)) channelID t uids))
            (updateS ev channelID t (RemoveDenylist uids))) in
      bindS (liftR body) (\<lambda>req.
      thenS (blacklistReq_Check req)
        (if lq_ChannelType req = ChannelTypePerson
         then eachS (\<lambda>uid. remove (person_channel_of (lq_ChannelID req) uid) (lq_ChannelType req) [uid]) (lq_UIDs req)
         else remove (lq_ChannelID req) (lq_ChannelType req) (lq_UIDs req))))"

definition whitelistAdd :: "('d, 'l) app_env \<Rightarrow> listReq outcome \<Rightarrow> (('d, 'l) app, unit) handler" where
  "whitelistAdd ev body =
     bindS (liftR body) (\<lambda>req.
     thenS (whitelistReq_Check req)
     (thenS (writeS (AddAllowlist_store (wd_bolt (ae_world ev)) (lq_ChannelID req) (lq_ChannelType req) (lq_UIDs req)))
       (updateS ev (lq_ChannelID req) (lq_ChannelType req) (AddAllowlist (lq_UIDs req)))))"

definition whitelistSet :: "('d, 'l) app_env \<Rightarrow> listReq outcome \<Rightarrow> (('d, 'l) app, unit) handler" where
  "whitelistSet ev body =
     (let bo = wd_bolt (ae_world ev) in
      bindS (liftR body) (\<lambda>req.
      let channelID = lq_ChannelID req; t = lq_ChannelType req; uids = lq_UIDs req in
      thenS (checkS (blank channelID) ''channel id cannot be empty'')
      (thenS (orS (ErrMsg ''removing the whole allowlist failed'') (writeS (RemoveAllAllowlist bo channelID t)))
      (thenS (whenS (length uids > 0) (writeS (AddAllowlist_store bo channelID t uids)))
        (updateS ev channelID t (SetAllowlist uids))))))"

definition whitelistRemove :: "('d, 'l) app_env \<Rightarrow> listReq outcome \<Rightarrow> (('d, 'l) app, unit) handler" where
  "whitelistRemove ev body =
     bindS (liftR body) (\<lambda>req.
     thenS (whitelistReq_Check req)
     (thenS (writeS (RemoveAllowlist_store (wd_bolt (ae_world ev)) (lq_ChannelID req) (lq_ChannelType req) (lq_UIDs req)))
       (updateS ev (lq_ChannelID req) (lq_ChannelType req) (RemoveAllowlist (lq_UIDs req)))))"

text \<open>The list a client asks for; only groups are looked at.\<close>

definition getWhitelist :: "('d, 'l) app_env \<Rightarrow> gostring \<Rightarrow> (('d, 'l) app, gostring list) handler" where
  "getWhitelist ev channelID =
     bindS (getChannelS ev channelID ChannelTypeGroup) (\<lambda>channel.
       case channel of None \<Rightarrow> liftR (Fail (ErrMsg ''the channel does not exist'')) | Some c \<Rightarrow> returnS (ch_whitelist c))"

end
