(* ===== verification/ChannelLists.thy ===== *)
theory ChannelLists
  imports ChannelApi
begin

text \<open>
  The lists of a channel in the store and in the manager's cache: what each operation of the store
  does to them, and that a channel which is loaded has the lists of the store.
\<close>

section \<open>The three lists of a channel\<close>

datatype list_kind = Subs | Deny | Allowed

fun list_key :: "list_kind \<Rightarrow> gostring \<Rightarrow> u8 \<Rightarrow> gostring" where
  "list_key Subs = getSubscribersKey"
| "list_key Deny = getDenylistKey"
| "list_key Allowed = getAllowlistKey"

definition lists :: "'d bolt \<Rightarrow> 'd filestore \<Rightarrow> list_kind \<Rightarrow> gostring \<times> u8 \<Rightarrow> gostring list outcome" where
  "lists bo fs kd k = bindR (slotNumForChannel (fst k) (snd k) fs) (\<lambda>slot. Ret (getList bo slot (list_key kd (fst k) (snd k)) fs))"

definition lists_ok :: "'d bolt \<Rightarrow> 'd filestore \<Rightarrow> bool" where
  "lists_ok bo fs \<longleftrightarrow> (\<forall>kd k. channel_list_ok bo (list_key kd) k fs)"

lemma getSubscribersKey_inj [simp]: "getSubscribersKey u d = getSubscribersKey v e \<longleftrightarrow> u = v \<and> d = e"
  and getDenylistKey_inj [simp]: "getDenylistKey u d = getDenylistKey v e \<longleftrightarrow> u = v \<and> d = e"
  and getAllowlistKey_inj [simp]: "getAllowlistKey u d = getAllowlistKey v e \<longleftrightarrow> u = v \<and> d = e"
  unfolding getSubscribersKey_def getDenylistKey_def getAllowlistKey_def numbered_key_inj by (simp_all add: word_unat_eq_iff)

lemma list_key_inj: "list_key kd c t = list_key kd' c' t' \<longleftrightarrow> kd = kd' \<and> c = c' \<and> t = t'"
  by (cases kd; cases kd'; simp) (simp_all add: getSubscribersKey_def getDenylistKey_def getAllowlistKey_def str_def)

lemma lists_eq:
  "lists bo fs Subs (c, t) = GetSubscribers bo c t fs" "lists bo fs Deny (c, t) = GetDenylist bo c t fs"
  "lists bo fs Allowed (c, t) = GetAllowlist bo c t fs"
  by (simp_all add: lists_def GetSubscribers_def GetDenylist_def GetAllowlist_def)

text \<open>A change of one key leaves the lists under other keys alone.\<close>

lemma lists_frame:
  assumes "fs_cfg fs' = fs_cfg fs" and "\<And>slot. getList bo slot (list_key kd (fst k) (snd k)) fs' = getList bo slot (list_key kd (fst k) (snd k)) fs"
  shows "lists bo fs' kd k = lists bo fs kd k" and "channel_list_ok bo (list_key kd) k fs' = channel_list_ok bo (list_key kd) k fs"
  using assms by (simp_all add: lists_def channel_list_ok_def list_key_ok_def slotNumForChannel_cfg [OF assms(1)])

definition list_write :: "'d bolt \<Rightarrow> list_kind \<Rightarrow> gostring \<times> u8 \<Rightarrow> ('d filestore \<Rightarrow> 'd filestore outcome) \<Rightarrow> (gostring list \<Rightarrow> gostring list) \<Rightarrow> bool" where
  "list_write bo kd k f g \<longleftrightarrow> (\<forall>fs fs'. lists_ok bo fs \<longrightarrow> f fs = Ret fs' \<longrightarrow>
     lists_ok bo fs' \<and> (\<forall>kd' k'. lists bo fs' kd' k' = (if kd' = kd \<and> k' = k then mapR g (lists bo fs kd k) else lists bo fs kd' k')))"

lemma list_writeI:
  assumes bo: "bolt_ok bo"
    and new: "\<And>fs fs' slot. list_key_ok bo slot (list_key kd (fst k) (snd k)) fs \<Longrightarrow> f slot fs = Ret fs' \<Longrightarrow>
      getList bo slot (list_key kd (fst k) (snd k)) fs' = g (getList bo slot (list_key kd (fst k) (snd k)) fs) \<and>
      names_ok (g (getList bo slot (list_key kd (fst k) (snd k)) fs))"
    and other: "\<And>fs fs' slot slot' key. f slot fs = Ret fs' \<Longrightarrow> key \<noteq> list_key kd (fst k) (snd k) \<Longrightarrow>
      getList bo slot' key fs' = getList bo slot' key fs \<and> fs_cfg fs' = fs_cfg fs"
    and cfg: "\<And>fs fs' slot. f slot fs = Ret fs' \<Longrightarrow> fs_cfg fs' = fs_cfg fs"
  shows "list_write bo kd k (\<lambda>fs. bindR (slotNumForChannel (fst k) (snd k) fs) (\<lambda>slot. f slot fs)) g"
  unfolding list_write_def
proof (intro allI impI)
  fix fs fs' assume ok: "lists_ok bo fs" and w: "bindR (slotNumForChannel (fst k) (snd k) fs) (\<lambda>slot. f slot fs) = Ret fs'"
  from w obtain slot where s: "slotNumForChannel (fst k) (snd k) fs = Ret slot" "f slot fs = Ret fs'" by (auto simp: bindR_eq_Ret)
  have c: "fs_cfg fs' = fs_cfg fs" by (rule cfg [OF s(2)])
  have slot: "slotNumForChannel a b fs' = slotNumForChannel a b fs" for a b by (rule slotNumForChannel_cfg [OF c])
  have "list_key_ok bo slot (list_key kd (fst k) (snd k)) fs"
    using ok s(1) unfolding lists_ok_def channel_list_ok_def by (metis outcome.inject(1))
  note n = new [OF this s(2)]
  have frame: "lists bo fs' kd' k' = lists bo fs kd' k'" "channel_list_ok bo (list_key kd') k' fs' = channel_list_ok bo (list_key kd') k' fs"
    if "\<not> (kd' = kd \<and> k' = k)" for kd' k'
  proof -
    have "list_key kd' (fst k') (snd k') \<noteq> list_key kd (fst k) (snd k)" using that by (auto simp: list_key_inj prod_eq_iff)
    from other [OF s(2) this] lists_frame [OF c]
    show "lists bo fs' kd' k' = lists bo fs kd' k'" "channel_list_ok bo (list_key kd') k' fs' = channel_list_ok bo (list_key kd') k' fs"
      by blast+
  qed
  have "channel_list_ok bo (list_key kd) k fs'"
    using bo n s(1) by (simp add: channel_list_ok_def list_key_ok_def slot)
  with frame ok have "lists_ok bo fs'" unfolding lists_ok_def by metis
  moreover have "lists bo fs' kd k = mapR g (lists bo fs kd k)" using n s(1) by (simp add: lists_def slot mapR_def)
  ultimately show "lists_ok bo fs' \<and> (\<forall>kd' k'. lists bo fs' kd' k' = (if kd' = kd \<and> k' = k then mapR g (lists bo fs kd k) else lists bo fs kd' k'))"
    using frame(1) by auto
qed

lemma other_key:
  assumes "bolt_ok bo"
  shows "fs_set bo slot key v fs = Ret fs' \<Longrightarrow> key' \<noteq> key \<Longrightarrow> getList bo slot' key' fs' = getList bo slot' key' fs \<and> fs_cfg fs' = fs_cfg fs"
    and "fs_delete bo slot key fs = Ret fs' \<Longrightarrow> key' \<noteq> key \<Longrightarrow> getList bo slot' key' fs' = getList bo slot' key' fs \<and> fs_cfg fs' = fs_cfg fs"
  using fs_set_get [OF assms, of slot key v fs fs'] fs_delete_get [OF assms, of slot key fs fs'] by (simp_all add: getList_def)

lemma list_add:
  assumes "bolt_ok bo" and "names_ok us"
  shows "list_write bo kd k (\<lambda>fs. bindR (slotNumForChannel (fst k) (snd k) fs) (\<lambda>slot. addList bo slot (list_key kd (fst k) (snd k)) us fs)) (\<lambda>ns. ns @ us)"
proof (rule list_writeI [OF assms(1)])
  fix fs fs' slot assume "list_key_ok bo slot (list_key kd (fst k) (snd k)) fs" "addList bo slot (list_key kd (fst k) (snd k)) us fs = Ret fs'"
  from addList_ok [OF assms(1) this(1) assms(2) this(2)] this(1) assms(2)
  show "getList bo slot (list_key kd (fst k) (snd k)) fs' = getList bo slot (list_key kd (fst k) (snd k)) fs @ us \<and>
      names_ok (getList bo slot (list_key kd (fst k) (snd k)) fs @ us)" by (simp add: list_key_ok_def)
next
  fix fs fs' slot slot' key assume "addList bo slot (list_key kd (fst k) (snd k)) us fs = Ret fs'" "key \<noteq> list_key kd (fst k) (snd k)"
  then show "getList bo slot' key fs' = getList bo slot' key fs \<and> fs_cfg fs' = fs_cfg fs"
    by (auto simp: addList_def Let_def dest: other_key(1) [OF assms(1)])
next
  fix fs fs' slot assume "addList bo slot (list_key kd (fst k) (snd k)) us fs = Ret fs'"
  then show "fs_cfg fs' = fs_cfg fs" by (auto simp: addList_def Let_def dest: fs_set_get(2) [OF assms(1)])
qed

lemma list_remove:
  assumes "bolt_ok bo"
  shows "list_write bo kd k (\<lambda>fs. bindR (slotNumForChannel (fst k) (snd k) fs) (\<lambda>slot. removeList bo slot (list_key kd (fst k) (snd k)) us fs))
    (filter (\<lambda>n. n \<notin> set us))"
proof (rule list_writeI [OF assms(1)])
  fix fs fs' slot assume "list_key_ok bo slot (list_key kd (fst k) (snd k)) fs" "removeList bo slot (list_key kd (fst k) (snd k)) us fs = Ret fs'"
  from removeList_ok [OF assms(1) this] this(1)
  show "getList bo slot (list_key kd (fst k) (snd k)) fs' = filter (\<lambda>n. n \<notin> set us) (getList bo slot (list_key kd (fst k) (snd k)) fs) \<and>
      names_ok (filter (\<lambda>n. n \<notin> set us) (getList bo slot (list_key kd (fst k) (snd k)) fs))" by (simp add: list_key_ok_def)
next
  fix fs fs' slot slot' key assume "removeList bo slot (list_key kd (fst k) (snd k)) us fs = Ret fs'" "key \<noteq> list_key kd (fst k) (snd k)"
  then show "getList bo slot' key fs' = getList bo slot' key fs \<and> fs_cfg fs' = fs_cfg fs"
    by (auto simp: removeList_def Let_def dest: other_key(1) [OF assms(1)])
next
  fix fs fs' slot assume "removeList bo slot (list_key kd (fst k) (snd k)) us fs = Ret fs'"
  then show "fs_cfg fs' = fs_cfg fs" by (auto simp: removeList_def Let_def dest: fs_set_get(2) [OF assms(1)])
qed

lemma list_clear:
  assumes "bolt_ok bo"
  shows "list_write bo kd k (\<lambda>fs. bindR (slotNumForChannel (fst k) (snd k) fs) (\<lambda>slot. fs_delete bo slot (list_key kd (fst k) (snd k)) fs)) (\<lambda>_. [])"
proof (rule list_writeI [OF assms(1)])
  fix fs fs' slot assume "fs_delete bo slot (list_key kd (fst k) (snd k)) fs = Ret fs'"
  from deleteList_ok(1) [OF assms this] show "getList bo slot (list_key kd (fst k) (snd k)) fs' = [] \<and> names_ok []" by simp
next
  fix fs fs' slot slot' key assume "fs_delete bo slot (list_key kd (fst k) (snd k)) fs = Ret fs'" "key \<noteq> list_key kd (fst k) (snd k)"
  then show "getList bo slot' key fs' = getList bo slot' key fs \<and> fs_cfg fs' = fs_cfg fs" by (rule other_key(2) [OF assms(1)])
next
  fix fs fs' slot assume "fs_delete bo slot (list_key kd (fst k) (snd k)) fs = Ret fs'"
  then show "fs_cfg fs' = fs_cfg fs" by (rule fs_delete_get(2) [OF assms(1)])
qed

lemma store_list_writes:
  assumes "bolt_ok bo"
  shows "names_ok us \<Longrightarrow> list_write bo Subs (c, t) (AddSubscribers_store bo c t us) (\<lambda>ns. ns @ us)"
    and "names_ok us \<Longrightarrow> list_write bo Deny (c, t) (AddDenylist_store bo c t us) (\<lambda>ns. ns @ us)"
    and "names_ok us \<Longrightarrow> list_write bo Allowed (c, t) (AddAllowlist_store bo c t us) (\<lambda>ns. ns @ us)"
    and "list_write bo Subs (c, t) (RemoveSubscribers_store bo c t us) (filter (\<lambda>n. n \<notin> set us))"
    and "list_write bo Deny (c, t) (RemoveDenylist_store bo c t us) (filter (\<lambda>n. n \<notin> set us))"
    and "list_write bo Allowed (c, t) (RemoveAllowlist_store bo c t us) (filter (\<lambda>n. n \<notin> set us))"
    and "list_write bo Subs (c, t) (RemoveAllSubscriber_store bo c t) (\<lambda>_. [])"
    and "list_write bo Deny (c, t) (RemoveAllDenylist bo c t) (\<lambda>_. [])"
    and "list_write bo Allowed (c, t) (RemoveAllAllowlist bo c t) (\<lambda>_. [])"
  using list_add [OF assms, of us Subs "(c, t)"] list_add [OF assms, of us Deny "(c, t)"] list_add [OF assms, of us Allowed "(c, t)"]
    list_remove [OF assms, of Subs "(c, t)" us] list_remove [OF assms, of Deny "(c, t)" us] list_remove [OF assms, of Allowed "(c, t)" us]
    list_clear [OF assms, of Subs "(c, t)"] list_clear [OF assms, of Deny "(c, t)"] list_clear [OF assms, of Allowed "(c, t)"]
  by (simp_all add: AddSubscribers_store_def [abs_def] AddDenylist_store_def [abs_def] AddAllowlist_store_def [abs_def]
      RemoveSubscribers_store_def [abs_def] RemoveDenylist_store_def [abs_def] RemoveAllowlist_store_def [abs_def]
      RemoveAllSubscriber_store_def [abs_def] RemoveAllDenylist_def [abs_def] RemoveAllAllowlist_def [abs_def])

section \<open>Agreement\<close>

fun ch_list :: "list_kind \<Rightarrow> channel \<Rightarrow> gostring list" where
  "ch_list Subs = ch_subscriberMap"
| "ch_list Deny = ch_blacklist"
| "ch_list Allowed = ch_whitelist"

text \<open>Temporary and data channels are not stored; a person's subscribers and a visitor are added by the code.\<close>

definition tracked :: "options \<Rightarrow> list_kind \<Rightarrow> gostring \<times> u8 \<Rightarrow> bool" where
  "tracked opts kd k \<longleftrightarrow> \<not> IsTmpChannel opts (fst k) \<and> snd k \<noteq> ChannelTypeData \<and> snd k \<noteq> ChannelTypeCustomerService \<and>
     (kd = Subs \<longrightarrow> snd k \<noteq> ChannelTypePerson)"

definition agrees :: "'d bolt \<Rightarrow> options \<Rightarrow> channels \<Rightarrow> 'd filestore \<Rightarrow> list_kind \<Rightarrow> gostring \<times> u8 \<Rightarrow> bool" where
  "agrees bo opts cs fs kd k \<longleftrightarrow> (\<forall>c. cm_channelCache cs (channelKey (fst k) (snd k)) = Some c \<longrightarrow> tracked opts kd k \<longrightarrow>
     (\<exists>ns. lists bo fs kd k = Ret ns \<and> set (ch_list kd c) = set ns))"

definition coherent :: "('d, 'l) app_env \<Rightarrow> ('d, 'l) app \<Rightarrow> bool" where
  "coherent ev s \<longleftrightarrow> lists_ok (wd_bolt (ae_world ev)) (ap_fs s) \<and> channels_ok (ap_channels s) \<and>
     (\<forall>kd k. agrees (wd_bolt (ae_world ev)) (wd_opts (ae_world ev)) (ap_channels s) (ap_fs s) kd k)"

text \<open>The server's own store is used, and the database can be written.\<close>

definition env_up :: "('d, 'l) app_env \<Rightarrow> bool" where
  "env_up ev \<longleftrightarrow> bolt_ok (wd_bolt (ae_world ev)) \<and> bolt_up (wd_bolt (ae_world ev)) \<and> \<not> HasDatasource (wd_opts (ae_world ev)) \<and>
     loader_ok (wd_datasource (ae_world ev))"

lemma env_of_simps [simp]: "en_opts (env_of w nd) = wd_opts w"
    "en_store (env_of w nd) = store_loader (wd_bolt w) (wd_json w) (nd_fs nd)" "en_datasource (env_of w nd) = wd_datasource w"
  by (simp_all add: env_of_def plain_env_def)

lemma env_of_ok: "env_up ev \<Longrightarrow> env_ok (env_of (ae_world ev) nd)"
  by (simp add: env_up_def env_ok_def store_loader_ok)

lemma list_kind_cases: "(\<forall>kd. P kd) \<longleftrightarrow> P Subs \<and> P Deny \<and> P Allowed"
  by (metis list_kind.exhaust)

text \<open>A channel that is loaded has the lists of the store.\<close>

lemma loaded_lists:
  assumes "\<not> HasDatasource (wd_opts w)" and "LoadData (env_of w nd) (NewChannel info) cs = (Ret c, cs')"
    and "ci_ChannelType info \<noteq> ChannelTypeCustomerService"
  shows "\<exists>ns. lists (wd_bolt w) (nd_fs nd) kd (ci_ChannelID info, ci_ChannelType info) = Ret ns \<and> set (ch_list kd c) = set ns"
proof -
  have no: "\<not> HasDatasource (en_opts (env_of w nd))" using assms(1) by simp
  show ?thesis
    by (rule LoadData_sets [OF no assms(2,3)]; cases kd) (simp_all add: lists_eq store_loader_def)
qed

lemma LoadData_plain: "\<not> HasDatasource (wd_opts w) \<Longrightarrow> LoadData (env_of w nd) c cs = (r, cs') \<Longrightarrow> cs' = cs"
  by (cases "sm_loaded cs") (simp_all add: LoadData_def LoadIfNeed_def)

text \<open>Fetching a channel either changes nothing of the cache, or caches the channel with the lists of the store.\<close>

lemma NewChannelInfo_simps [simp]: "ci_ChannelID (NewChannelInfo cid t) = cid" "ci_ChannelType (NewChannelInfo cid t) = t"
  by (simp_all add: NewChannelInfo_def)

definition fetched :: "'d world \<Rightarrow> 'd filestore \<Rightarrow> gostring \<Rightarrow> u8 \<Rightarrow> channels \<Rightarrow> channels \<Rightarrow> bool" where
  "fetched w fs cid t cs cs' \<longleftrightarrow> cm_channelCache cs' = cm_channelCache cs \<or>
    (\<exists>c. cm_channelCache cs' = (cm_channelCache cs)(channelKey cid t \<mapsto> c) \<and> cm_channelCache cs (channelKey cid t) = None \<and>
      (\<forall>kd. tracked (wd_opts w) kd (cid, t) \<longrightarrow> (\<exists>ns. lists (wd_bolt w) fs kd (cid, t) = Ret ns \<and> set (ch_list kd c) = set ns)))"

lemma GetPersonChannel_fetched:
  assumes "\<not> HasDatasource (wd_opts w)" and g: "GetPersonChannel (env_of w nd) cid ChannelTypePerson cs = (r, cs')"
  shows "fetched w (nd_fs nd) cid ChannelTypePerson cs cs'"
proof (cases "cm_channelCache cs (channelKey cid ChannelTypePerson)")
  case None
  obtain lr cs1 where l: "LoadData (env_of w nd) (NewChannel (NewChannelInfo cid ChannelTypePerson)) cs = (lr, cs1)" by fastforce
  note same = LoadData_plain [OF assms(1) l]
  show ?thesis
  proof (cases lr)
    case (Ret c)
    define c' where "c' = (if IsFakeChannel cid then AddSubscribers (split_on at_sign cid) c else AddSubscriber cid c)"
    have cs': "cm_channelCache cs' = (cm_channelCache cs)(channelKey cid ChannelTypePerson \<mapsto> c')"
      using g None l same Ret by (auto simp: GetPersonChannel_def c'_def Let_def)
    have "ci_ChannelType (NewChannelInfo cid ChannelTypePerson) \<noteq> ChannelTypeCustomerService" by simp
    note L = loaded_lists [OF assms(1) l [unfolded Ret] this]
    have "\<exists>ns. lists (wd_bolt w) (nd_fs nd) kd (cid, ChannelTypePerson) = Ret ns \<and> set (ch_list kd c') = set ns"
      if "tracked (wd_opts w) kd (cid, ChannelTypePerson)" for kd
    proof -
      have "kd \<noteq> Subs" using that by (auto simp: tracked_def)
      then have "ch_list kd c' = ch_list kd c" by (cases kd) (simp_all add: c'_def AddSubscribers_def AddSubscriber_def)
      with L [of kd] show ?thesis by simp
    qed
    with cs' None show ?thesis unfolding fetched_def by blast
  qed (use g None l same in \<open>auto simp: GetPersonChannel_def fetched_def\<close>)
qed (use g in \<open>simp add: GetPersonChannel_def fetched_def\<close>)

lemma CacheOrStore_fetched:
  assumes "\<not> HasDatasource (wd_opts w)" and "env_ok (env_of w nd)"
    and g: "getChannelFromCacheOrStore (env_of w nd) cid t cs = (r, cs')"
  shows "fetched w (nd_fs nd) cid t cs cs'"
proof (cases "cm_channelCache cs (channelKey cid t)")
  case None
  note get = g [unfolded getChannelFromCacheOrStore_def getChannelFromCache_def None option.case]
  show ?thesis
  proof (cases "ld_ChannelInfo (en_store (env_of w nd)) cid t")
    case (Ret info)
    define i where "i = (case info of None \<Rightarrow> NewChannelInfo cid t | Some i \<Rightarrow> i)"
    have i: "ci_ChannelID i = cid" "ci_ChannelType i = t"
      using assms(2) Ret by (auto simp: i_def env_ok_def loader_ok_def split: option.splits)
    obtain lr cs1 where l: "LoadData (env_of w nd) (NewChannel i) cs = (lr, cs1)" by fastforce
    note same = LoadData_plain [OF assms(1) l]
    have cs': "cm_channelCache cs' = cm_channelCache cs \<or>
        (\<exists>c. lr = Ret c \<and> cm_channelCache cs' = (cm_channelCache cs)(channelKey (ch_ID c) (ch_Type c) \<mapsto> c))"
      using get l same unfolding Ret outcome.case i_def [symmetric] Let_def
      by (cases lr) (auto simp: setChannelFromCache_def split: if_splits)
    show ?thesis
    proof (cases lr)
      case R: (Ret c)
      have id: "ch_ID c = cid" "ch_Type c = t" using LoadData_id [OF assms(2) l [unfolded R]] i by (simp_all add: NewChannel_def)
      have "\<exists>ns. lists (wd_bolt w) (nd_fs nd) kd (cid, t) = Ret ns \<and> set (ch_list kd c) = set ns"
        if "tracked (wd_opts w) kd (cid, t)" for kd
        using loaded_lists [OF assms(1) l [unfolded R], of kd] that i by (simp add: tracked_def)
      with cs' None id R show ?thesis unfolding fetched_def by auto
    qed (use cs' in \<open>auto simp: fetched_def\<close>)
  qed (use get in \<open>simp_all add: fetched_def\<close>)
qed (use g in \<open>simp add: getChannelFromCacheOrStore_def getChannelFromCache_def fetched_def\<close>)

lemma GetChannel_fetched:
  assumes "\<not> HasDatasource (wd_opts w)" and "env_ok (env_of w nd)" and "GetChannel (env_of w nd) cid t cs = (r, cs')"
  shows "fetched w (nd_fs nd) cid t cs cs'"
proof (cases "IsTmpChannel (wd_opts w) cid \<or> t = ChannelTypeData")
  case True
  with assms(3) show ?thesis
    by (auto simp: GetChannel_def GetOrCreateDataChannel_def fetched_def Let_def split: if_splits option.splits)
next
  case False
  with assms(3) GetPersonChannel_fetched [OF assms(1)] CacheOrStore_fetched [OF assms(1,2)] show ?thesis
    by (auto simp: GetChannel_def split: if_splits)
qed

end
