(* ===== verification/ChannelAgreement.thy ===== *)
theory ChannelAgreement
  imports ChannelLists
begin

text \<open>
  Changing one of a channel's lists in the store and then in the manager's cache: between the two
  everything agrees but that list (\<open>part\<close>), after the second all do again (\<open>coherent\<close>).
\<close>

declare split_paired_All [simp del] split_paired_Ex [simp del]

section \<open>One list is being changed\<close>

definition cached_channel :: "gostring \<times> u8 \<Rightarrow> ('d, 'l) app \<Rightarrow> channel option" where
  "cached_channel k s = cm_channelCache (ap_channels s) (channelKey (fst k) (snd k))"

text \<open>Everything agrees but, perhaps, one list, which is \<open>X\<close> in the store.\<close>

definition part :: "('d, 'l) app_env \<Rightarrow> list_kind \<Rightarrow> gostring \<times> u8 \<Rightarrow> gostring set \<Rightarrow> ('d, 'l) app \<Rightarrow> bool" where
  "part ev kd k X s \<longleftrightarrow> lists_ok (bolt_of ev) (ap_fs s) \<and> channels_ok (ap_channels s) \<and>
     (\<forall>kd' k'. (kd', k') \<noteq> (kd, k) \<longrightarrow> agrees (bolt_of ev) (opts_of ev) (ap_channels s) (ap_fs s) kd' k') \<and>
     (\<exists>ns. lists (bolt_of ev) (ap_fs s) kd k = Ret ns \<and> set ns = X)"

definition list_op :: "'d bolt \<Rightarrow> list_kind \<Rightarrow> gostring \<times> u8 \<Rightarrow> ('d filestore \<Rightarrow> 'd filestore outcome) \<Rightarrow> (gostring set \<Rightarrow> gostring set) \<Rightarrow> bool" where
  "list_op bo kd k f G \<longleftrightarrow> (\<forall>fs. lists_ok bo fs \<longrightarrow> (\<exists>fs'. f fs = Ret fs')) \<and>
     (\<exists>g. list_write bo kd k f g \<and> (\<forall>ns. set (g ns) = G (set ns)))"

lemma lists_ret: "lists_ok bo fs \<Longrightarrow> \<exists>ns. lists bo fs kd k = Ret ns"
proof -
  assume "lists_ok bo fs"
  then obtain slot where "slotNumForChannel (fst k) (snd k) fs = Ret slot" unfolding lists_ok_def channel_list_ok_def by blast
  then show ?thesis by (simp add: lists_def)
qed

lemma coherent_part:
  assumes "coherent ev s"
  obtains X where "part ev kd k X s" and "\<And>c. cached_channel k s = Some c \<Longrightarrow> tracked (opts_of ev) kd k \<Longrightarrow> set (ch_list kd c) = X"
proof -
  obtain ns where ns: "lists (bolt_of ev) (ap_fs s) kd k = Ret ns"
    using lists_ret [of "bolt_of ev" "ap_fs s" kd k] assms unfolding coherent_def by blast
  show thesis
  proof (rule that [of "set ns"])
    show "part ev kd k (set ns) s" using assms ns unfolding part_def coherent_def by blast
    show "set (ch_list kd c) = set ns" if "cached_channel k s = Some c" "tracked (opts_of ev) kd k" for c
    proof -
      have "agrees (bolt_of ev) (opts_of ev) (ap_channels s) (ap_fs s) kd k" using assms unfolding coherent_def by blast
      with that ns show ?thesis by (simp add: agrees_def cached_channel_def)
    qed
  qed
qed

lemma part_coherent:
  assumes "part ev kd k X s" and "\<And>c. cached_channel k s = Some c \<Longrightarrow> tracked (opts_of ev) kd k \<Longrightarrow> set (ch_list kd c) = X"
  shows "coherent ev s"
proof -
  obtain ns where "lists (bolt_of ev) (ap_fs s) kd k = Ret ns" "set ns = X" using assms(1) unfolding part_def by blast
  with assms(2) have here: "agrees (bolt_of ev) (opts_of ev) (ap_channels s) (ap_fs s) kd k"
    by (simp add: agrees_def cached_channel_def)
  have "agrees (bolt_of ev) (opts_of ev) (ap_channels s) (ap_fs s) kd' k'" for kd' k'
    using assms(1) here unfolding part_def by (cases "kd' = kd \<and> k' = k") auto
  with assms(1) show ?thesis unfolding part_def coherent_def by blast
qed

lemma part_write:
  assumes "part ev kd k X s" and "list_op (bolt_of ev) kd k f G" and "writeS f s = (r, s')"
  shows "r = Ret ()" and "part ev kd k (G X) s'" and "ap_channels s' = ap_channels s"
proof -
  obtain ns where ok: "lists_ok (bolt_of ev) (ap_fs s)" and ns: "lists (bolt_of ev) (ap_fs s) kd k = Ret ns" "set ns = X"
    using assms(1) by (auto simp: part_def)
  obtain fs' where f: "f (ap_fs s) = Ret fs'" using assms(2) ok unfolding list_op_def by blast
  obtain g where g: "list_write (bolt_of ev) kd k f g" "\<And>ns. set (g ns) = G (set ns)" using assms(2) unfolding list_op_def by blast
  from assms(3) f show "r = Ret ()" and ch: "ap_channels s' = ap_channels s" by (auto simp: writeS_def)
  have s': "ap_fs s' = fs'" using assms(3) f by (auto simp: writeS_def)
  have new: "lists_ok (bolt_of ev) fs'" "lists (bolt_of ev) fs' kd' k' = (if kd' = kd \<and> k' = k then mapR g (lists (bolt_of ev) (ap_fs s) kd k)
      else lists (bolt_of ev) (ap_fs s) kd' k')" for kd' k'
    using g(1) ok f unfolding list_write_def by blast+
  have "agrees (bolt_of ev) (opts_of ev) (ap_channels s') fs' kd' k'" if "(kd', k') \<noteq> (kd, k)" for kd' k'
  proof -
    have "agrees (bolt_of ev) (opts_of ev) (ap_channels s) (ap_fs s) kd' k'" using assms(1) that unfolding part_def by blast
    moreover have "lists (bolt_of ev) fs' kd' k' = lists (bolt_of ev) (ap_fs s) kd' k'" using that new(2) [of kd' k'] by auto
    ultimately show ?thesis by (simp add: agrees_def ch)
  qed
  moreover have "lists (bolt_of ev) fs' kd k = Ret (g ns)" using new(2) [of kd k] ns(1) by (simp add: mapR_def)
  moreover have "set (g ns) = G X" using g(2) ns(2) by simp
  ultimately show "part ev kd k (G X) s'" using assms(1) new(1) unfolding part_def s' ch by blast
qed

definition list_change :: "list_kind \<Rightarrow> (channel \<Rightarrow> channel) \<Rightarrow> (gostring set \<Rightarrow> gostring set) \<Rightarrow> bool" where
  "list_change kd h H \<longleftrightarrow> (\<forall>c. set (ch_list kd (h c)) = H (set (ch_list kd c)) \<and> ch_Info (h c) = ch_Info c \<and>
     (\<forall>kd'. kd' \<noteq> kd \<longrightarrow> ch_list kd' (h c) = ch_list kd' c))"

lemma change_channel_ok:
  assumes "channels_ok cs" and "\<And>c. ch_Info (h c) = ch_Info c"
  shows "channels_ok (change_channel opts cid t h cs)"
proof -
  have "cache_ok (cache(channelKey cid t := map_option h (cache (channelKey cid t))))" if "cache_ok cache" for cache
    unfolding cache_ok_def
  proof (intro allI impI)
    fix a b c assume "(cache(channelKey cid t := map_option h (cache (channelKey cid t)))) (channelKey a b) = Some c"
    then obtain c' where "cache (channelKey a b) = Some c'" "ch_Info c = ch_Info c'"
      using assms(2) by (auto split: if_splits)
    with that show "ch_ID c = a \<and> ch_Type c = b" by (auto simp: cache_ok_def)
  qed
  with assms(1) show ?thesis by (auto simp: channels_ok_def change_channel_def Let_def)
qed

lemma changed_cache:
  "tracked opts kd (cid, t) \<Longrightarrow> cm_channelCache (change_channel opts cid t h cs) =
     (cm_channelCache cs)(channelKey cid t := map_option h (cm_channelCache cs (channelKey cid t)))"
  "cm_channelCache (change_channel opts cid t h cs) k = Some c \<Longrightarrow> k \<noteq> channelKey cid t \<Longrightarrow> cm_channelCache cs k = Some c"
  "cm_channelCache (change_channel opts cid t h cs) (channelKey cid t) = Some c \<Longrightarrow>
     \<exists>c'. cm_channelCache cs (channelKey cid t) = Some c' \<and> (c = c' \<or> c = h c')"
  by (auto simp: change_channel_def tracked_def Let_def split: if_splits)

lemma part_change:
  assumes "part ev kd (cid, t) X s" and "list_change kd h H"
    and "\<And>c. cached_channel (cid, t) s = Some c \<Longrightarrow> tracked (opts_of ev) kd (cid, t) \<Longrightarrow> H (set (ch_list kd c)) = X"
    and "changeS ev cid t h s = (r, s')"
  shows "coherent ev s'"
proof (rule part_coherent [where X = X])
  have s': "ap_fs s' = ap_fs s" "ap_channels s' = change_channel (opts_of ev) cid t h (ap_channels s)"
    using assms(4) by (auto simp: changeS_def)
  show "part ev kd (cid, t) X s'"
    unfolding part_def
  proof (intro conjI allI impI)
    show "channels_ok (ap_channels s')"
      unfolding s' using assms(1,2) by (intro change_channel_ok) (simp_all add: part_def list_change_def)
    fix kd' k' assume ne: "(kd', k') \<noteq> (kd, (cid, t))"
    have old: "agrees (bolt_of ev) (opts_of ev) (ap_channels s) (ap_fs s) kd' k'" using assms(1) ne unfolding part_def by blast
    show "agrees (bolt_of ev) (opts_of ev) (ap_channels s') (ap_fs s') kd' k'"
      unfolding agrees_def
    proof (intro allI impI)
      fix c assume c: "cm_channelCache (ap_channels s') (channelKey (fst k') (snd k')) = Some c" "tracked (opts_of ev) kd' k'"
      show "\<exists>ns. lists (bolt_of ev) (ap_fs s') kd' k' = Ret ns \<and> set (ch_list kd' c) = set ns"
      proof (cases "k' = (cid, t)")
        case True
        with ne have "kd' \<noteq> kd" by simp
        moreover obtain c' where "cm_channelCache (ap_channels s) (channelKey cid t) = Some c'" "c = c' \<or> c = h c'"
          using changed_cache(3) c(1) True unfolding s' by fastforce
        ultimately have "cm_channelCache (ap_channels s) (channelKey (fst k') (snd k')) = Some c'" "ch_list kd' c = ch_list kd' c'"
          using True assms(2) by (auto simp: list_change_def)
        with old c(2) show ?thesis by (simp add: agrees_def s')
      next
        case False
        then have "channelKey (fst k') (snd k') \<noteq> channelKey cid t" by (simp add: prod_eq_iff)
        with changed_cache(2) c(1) have "cm_channelCache (ap_channels s) (channelKey (fst k') (snd k')) = Some c" unfolding s' by blast
        with old c(2) show ?thesis by (simp add: agrees_def s')
      qed
    qed
  qed (use assms(1) in \<open>simp_all add: part_def s'\<close>)
  fix c assume c: "cached_channel (cid, t) s' = Some c" and tr: "tracked (opts_of ev) kd (cid, t)"
  then obtain c' where "cached_channel (cid, t) s = Some c'" "c = h c'"
    by (auto simp: cached_channel_def s' changed_cache(1))
  with assms(2,3) tr show "set (ch_list kd c) = X" by (auto simp: list_change_def)
qed

lemma tracked_cached:
  assumes "cached_channel (cid, t) s = Some c" and "tracked (opts_of ev) kd (cid, t)"
  shows "getChannelS ev cid t s = (Ret (Some c), map_channels (\<lambda>_. ap_channels s) s)"
  using assms by (auto simp: getChannelS_def cached_channel_def tracked_def GetChannel_def GetPersonChannel_def
      getChannelFromCacheOrStore_def getChannelFromCache_def)

lemma part_get:
  assumes up: "env_up ev" and p: "part ev kd (cid, t) X s" and g: "getChannelS ev cid t s = (r, s')"
  shows "part ev kd (cid, t) X s'" and "(\<And>c. r \<noteq> Ret (Some c)) \<Longrightarrow> coherent ev s'"
    and "cached_channel (cid, t) s' = Some c \<Longrightarrow> tracked (opts_of ev) kd (cid, t) \<Longrightarrow>
      cached_channel (cid, t) s = Some c \<or> set (ch_list kd c) = X"
proof -
  obtain cs' where cs': "GetChannel (env_of (ae_world ev) (ap_node s)) cid t (ap_channels s) = (r, cs')" "s' = map_channels (\<lambda>_. cs') s"
    using g by (auto simp: getChannelS_def split: prod.splits)
  have no: "\<not> HasDatasource (opts_of ev)" using up by (simp add: env_up_def)
  have f: "fetched (ae_world ev) (ap_fs s) cid t (ap_channels s) cs'"
    by (rule GetChannel_fetched [OF no env_of_ok [OF up] cs'(1)])
  have cok: "channels_ok cs'" using GetChannel_ok(1) [OF env_of_ok [OF up] _ cs'(1)] p by (simp add: part_def)
  have ag: "agrees (bolt_of ev) (opts_of ev) cs' (ap_fs s) kd' k'" if "(kd', k') \<noteq> (kd, (cid, t))" for kd' k'
  proof -
    have old: "agrees (bolt_of ev) (opts_of ev) (ap_channels s) (ap_fs s) kd' k'" using p that unfolding part_def by blast
    show ?thesis
      using f unfolding fetched_def
    proof
      assume "cm_channelCache cs' = cm_channelCache (ap_channels s)"
      with old show ?thesis by (simp add: agrees_def)
    next
      assume "\<exists>c. cm_channelCache cs' = (cm_channelCache (ap_channels s))(channelKey cid t \<mapsto> c) \<and>
        cm_channelCache (ap_channels s) (channelKey cid t) = None \<and> (\<forall>kd. tracked (opts_of ev) kd (cid, t) \<longrightarrow>
          (\<exists>ns. lists (bolt_of ev) (ap_fs s) kd (cid, t) = Ret ns \<and> set (ch_list kd c) = set ns))"
      with old show ?thesis by (cases "k' = (cid, t)") (auto simp: agrees_def prod_eq_iff split: if_splits)
    qed
  qed
  show p': "part ev kd (cid, t) X s'" using p ag cok by (simp add: part_def cs'(2))
  show new: "cached_channel (cid, t) s = Some c \<or> set (ch_list kd c) = X"
    if c: "cached_channel (cid, t) s' = Some c" "tracked (opts_of ev) kd (cid, t)" for c
  proof -
    have "\<exists>ns. lists (bolt_of ev) (ap_fs s) kd (cid, t) = Ret ns \<and> set ns = X" using p by (simp add: part_def)
    with f c show ?thesis unfolding fetched_def by (auto simp: cached_channel_def cs'(2))
  qed
  show "coherent ev s'" if r: "\<And>c. r \<noteq> Ret (Some c)"
  proof (rule part_coherent [OF p'])
    fix c assume c: "cached_channel (cid, t) s' = Some c" and tr: "tracked (opts_of ev) kd (cid, t)"
    have "cached_channel (cid, t) s \<noteq> Some c" using tracked_cached [of cid t s c ev kd] tr g r by auto
    with new [OF c tr] show "set (ch_list kd c) = X" by blast
  qed
qed

lemma part_update:
  assumes up: "env_up ev" and p: "part ev kd (cid, t) X s" and lc: "list_change kd h H" and X: "H X = X"
    and c: "\<And>c. cached_channel (cid, t) s = Some c \<Longrightarrow> tracked (opts_of ev) kd (cid, t) \<Longrightarrow> H (set (ch_list kd c)) = X"
    and u: "updateS ev cid t h s = (r, s')"
  shows "coherent ev s'"
proof -
  obtain r1 s1 where g: "getChannelS ev cid t s = (r1, s1)" by fastforce
  note P = part_get [OF up p g]
  show ?thesis
  proof (cases "\<exists>c. r1 = Ret (Some c)")
    case True
    then have "changeS ev cid t h s1 = (r, s')" using u g by (auto simp: updateS_def bindS_def)
    from part_change [OF P(1) lc _ this] P(3) c X show ?thesis by metis
  next
    case False
    then have "s' = s1" using u g by (auto simp: updateS_def bindS_def liftR_def split: outcome.splits option.splits)
    with P(2) False show ?thesis by blast
  qed
qed

section \<open>A list in the store and in the cache\<close>

text \<open>What only changes one list of the store, and cannot fail.\<close>

definition edits :: "('d, 'l) app_env \<Rightarrow> list_kind \<Rightarrow> gostring \<times> u8 \<Rightarrow> (('d, 'l) app, unit) handler \<Rightarrow> (gostring set \<Rightarrow> gostring set) \<Rightarrow> bool" where
  "edits ev kd k m G \<longleftrightarrow> (\<forall>s r s' X. part ev kd k X s \<longrightarrow> m s = (r, s') \<longrightarrow>
     r = Ret () \<and> part ev kd k (G X) s' \<and> ap_channels s' = ap_channels s)"

lemma edits_writeS: "list_op (bolt_of ev) kd k f G \<Longrightarrow> edits ev kd k (writeS f) G"
  unfolding edits_def using part_write by metis

lemma edits_thenS:
  assumes "edits ev kd k m F" and "edits ev kd k n G"
  shows "edits ev kd k (thenS m n) (\<lambda>X. G (F X))"
  unfolding edits_def
proof (intro allI impI)
  fix s r s' X assume p: "part ev kd k X s" and mn: "thenS m n s = (r, s')"
  obtain r1 s1 where m: "m s = (r1, s1)" by fastforce
  have M: "r1 = Ret ()" "part ev kd k (F X) s1" "ap_channels s1 = ap_channels s"
    using assms(1) p m unfolding edits_def by blast+
  have n: "n s1 = (r, s')" using mn m M(1) by (simp add: thenS_def bindS_def)
  have "r = Ret ()" "part ev kd k (G (F X)) s'" "ap_channels s' = ap_channels s1"
    using assms(2) M(2) n unfolding edits_def by blast+
  with M(3) show "r = Ret () \<and> part ev kd k (G (F X)) s' \<and> ap_channels s' = ap_channels s" by simp
qed

lemma edits_skip: "(\<And>X. G X = X) \<Longrightarrow> edits ev kd k (returnS ()) G"
  by (simp add: edits_def returnS_def)

lemma edits_whenS: "(b \<Longrightarrow> edits ev kd k m G) \<Longrightarrow> (\<And>X. \<not> b \<Longrightarrow> G X = X) \<Longrightarrow> edits ev kd k (whenS b m) G"
  by (cases b) (simp_all add: whenS_def edits_skip)

lemma edits_orS: "edits ev kd k m G \<Longrightarrow> edits ev kd k (orS e m) G"
  unfolding edits_def
proof (intro allI impI)
  fix s r s' X assume e: "\<forall>s r s' X. part ev kd k X s \<longrightarrow> m s = (r, s') \<longrightarrow> r = Ret () \<and> part ev kd k (G X) s' \<and> ap_channels s' = ap_channels s"
    and p: "part ev kd k X s" and o: "orS e m s = (r, s')"
  obtain r1 s1 where m: "m s = (r1, s1)" by fastforce
  then have M: "r1 = Ret () \<and> part ev kd k (G X) s1 \<and> ap_channels s1 = ap_channels s" using e p by blast
  with o m show "r = Ret () \<and> part ev kd k (G X) s' \<and> ap_channels s' = ap_channels s" by (simp add: orS_def)
qed

lemma coherent_edits:
  assumes "coherent ev s" and "edits ev kd k m G"
  shows "\<exists>X s'. m s = (Ret (), s') \<and> part ev kd k (G X) s' \<and>
    (\<forall>c. cached_channel k s' = Some c \<longrightarrow> tracked (opts_of ev) kd k \<longrightarrow> set (ch_list kd c) = X)"
proof -
  obtain X where X: "part ev kd k X s" "\<And>c. cached_channel k s = Some c \<Longrightarrow> tracked (opts_of ev) kd k \<Longrightarrow> set (ch_list kd c) = X"
    by (rule coherent_part [OF assms(1), of kd k]) blast
  obtain r s' where m: "m s = (r, s')" by fastforce
  have "r = Ret ()" "part ev kd k (G X) s'" "ap_channels s' = ap_channels s"
    using assms(2) X(1) m unfolding edits_def by blast+
  with X(2) m show ?thesis by (auto simp: cached_channel_def)
qed

text \<open>The store first, then the channel of the manager, fetched or in the cache.\<close>

lemma edit_update:
  assumes up: "env_up ev" and e: "edits ev kd (cid, t) m G" and h: "list_change kd h G" and G: "\<And>X. G (G X) = G X"
  shows "keeps (coherent ev) (thenS m (updateS ev cid t h))"
proof (rule keepsI)
  fix s r s' assume "coherent ev s" and run: "thenS m (updateS ev cid t h) s = (r, s')"
  from coherent_edits [OF this(1) e] obtain X s1 where X: "m s = (Ret (), s1)" "part ev kd (cid, t) (G X) s1"
    "\<And>c. cached_channel (cid, t) s1 = Some c \<Longrightarrow> tracked (opts_of ev) kd (cid, t) \<Longrightarrow> set (ch_list kd c) = X"
    by blast
  have H: "\<And>c. cached_channel (cid, t) s1 = Some c \<Longrightarrow> tracked (opts_of ev) kd (cid, t) \<Longrightarrow> G (set (ch_list kd c)) = G X"
    using X(3) by simp
  have "updateS ev cid t h s1 = (r, s')" using run X(1) by (simp add: thenS_def bindS_def)
  from part_update [OF up X(2) h G H this] show "coherent ev s'" .
qed

lemma edit_change:
  assumes e: "edits ev kd (cid, t) m G" and h: "list_change kd h G"
  shows "keeps (coherent ev) (thenS m (changeS ev cid t h))"
proof (rule keepsI)
  fix s r s' assume "coherent ev s" and run: "thenS m (changeS ev cid t h) s = (r, s')"
  from coherent_edits [OF this(1) e] obtain X s1 where X: "m s = (Ret (), s1)" "part ev kd (cid, t) (G X) s1"
    "\<And>c. cached_channel (cid, t) s1 = Some c \<Longrightarrow> tracked (opts_of ev) kd (cid, t) \<Longrightarrow> set (ch_list kd c) = X"
    by blast
  have H: "\<And>c. cached_channel (cid, t) s1 = Some c \<Longrightarrow> tracked (opts_of ev) kd (cid, t) \<Longrightarrow> G (set (ch_list kd c)) = G X"
    using X(3) by simp
  have "changeS ev cid t h s1 = (r, s')" using run X(1) by (simp add: thenS_def bindS_def)
  from part_change [OF X(2) h H this] show "coherent ev s'" .
qed

definition forgetS :: "gostring \<Rightarrow> u8 \<Rightarrow> (('d, 'l) app, unit) handler" where
  "forgetS cid t s = (Ret (), map_channels (DeleteChannelFromCache cid t) s)"

lemma agrees_forget:
  "agrees bo opts cs fs kd k \<Longrightarrow> agrees bo opts (DeleteChannelFromCache cid t cs) fs kd k"
  by (auto simp: agrees_def DeleteChannelFromCache_def)

lemma channels_ok_forget: "channels_ok cs \<Longrightarrow> channels_ok (DeleteChannelFromCache cid t cs)"
  by (auto simp: channels_ok_def DeleteChannelFromCache_def cache_ok_def)

lemma edit_forget:
  assumes e: "edits ev kd (cid, t) m G"
  shows "keeps (coherent ev) (thenS m (forgetS cid t))"
proof (rule keepsI)
  fix s r s' assume "coherent ev s" and run: "thenS m (forgetS cid t) s = (r, s')"
  from coherent_edits [OF this(1) e] obtain X s1 where X: "m s = (Ret (), s1)" "part ev kd (cid, t) (G X) s1" by blast
  have s': "s' = map_channels (DeleteChannelFromCache cid t) s1" using run X(1) by (simp add: thenS_def bindS_def forgetS_def)
  show "coherent ev s'"
  proof (rule part_coherent)
    show "part ev kd (cid, t) (G X) s'" 
      using X(2) agrees_forget channels_ok_forget unfolding part_def s' app_simps by blast
  qed (simp add: cached_channel_def s' DeleteChannelFromCache_def)
qed

section \<open>The operations\<close>

lemma lists_ok_slot: "lists_ok bo fs \<Longrightarrow> \<exists>slot. slotNumForChannel cid t fs = Ret slot"
  unfolding lists_ok_def channel_list_ok_def by (metis fst_conv snd_conv)

lemma store_list_ops:
  assumes "bolt_ok bo" and "bolt_up bo"
  shows "names_ok us \<Longrightarrow> list_op bo Subs (c, t) (AddSubscribers_store bo c t us) (\<lambda>X. X \<union> set us)"
    and "names_ok us \<Longrightarrow> list_op bo Deny (c, t) (AddDenylist_store bo c t us) (\<lambda>X. X \<union> set us)"
    and "names_ok us \<Longrightarrow> list_op bo Allowed (c, t) (AddAllowlist_store bo c t us) (\<lambda>X. X \<union> set us)"
    and "list_op bo Subs (c, t) (RemoveSubscribers_store bo c t us) (\<lambda>X. X - set us)"
    and "list_op bo Deny (c, t) (RemoveDenylist_store bo c t us) (\<lambda>X. X - set us)"
    and "list_op bo Allowed (c, t) (RemoveAllowlist_store bo c t us) (\<lambda>X. X - set us)"
    and "list_op bo Subs (c, t) (RemoveAllSubscriber_store bo c t) (\<lambda>_. {})"
    and "list_op bo Deny (c, t) (RemoveAllDenylist bo c t) (\<lambda>_. {})"
    and "list_op bo Allowed (c, t) (RemoveAllAllowlist bo c t) (\<lambda>_. {})"
proof -
  note slot = lists_ok_slot [of bo _ c t] and up = bolt_up_writes [OF assms(2)]
  have add: "set (ns @ us) = set ns \<union> set us" and rem: "set (filter (\<lambda>n. n \<notin> set us) ns) = set ns - set us" for ns by auto
  note W = store_list_writes [OF assms(1)]
  show "names_ok us \<Longrightarrow> list_op bo Subs (c, t) (AddSubscribers_store bo c t us) (\<lambda>X. X \<union> set us)"
    using W(1) [of us c t] add slot up by (fastforce simp: list_op_def AddSubscribers_store_def addList_def Let_def)
  show "names_ok us \<Longrightarrow> list_op bo Deny (c, t) (AddDenylist_store bo c t us) (\<lambda>X. X \<union> set us)"
    using W(2) [of us c t] add slot up by (fastforce simp: list_op_def AddDenylist_store_def addList_def Let_def)
  show "names_ok us \<Longrightarrow> list_op bo Allowed (c, t) (AddAllowlist_store bo c t us) (\<lambda>X. X \<union> set us)"
    using W(3) [of us c t] add slot up by (fastforce simp: list_op_def AddAllowlist_store_def addList_def Let_def)
  show "list_op bo Subs (c, t) (RemoveSubscribers_store bo c t us) (\<lambda>X. X - set us)"
    using W(4) [of c t us] rem slot up by (fastforce simp: list_op_def RemoveSubscribers_store_def removeList_def Let_def)
  show "list_op bo Deny (c, t) (RemoveDenylist_store bo c t us) (\<lambda>X. X - set us)"
    using W(5) [of c t us] rem slot up by (fastforce simp: list_op_def RemoveDenylist_store_def removeList_def Let_def)
  show "list_op bo Allowed (c, t) (RemoveAllowlist_store bo c t us) (\<lambda>X. X - set us)"
    using W(6) [of c t us] rem slot up by (fastforce simp: list_op_def RemoveAllowlist_store_def removeList_def Let_def)
  show "list_op bo Subs (c, t) (RemoveAllSubscriber_store bo c t) (\<lambda>_. {})"
    using W(7) [of c t] slot up by (fastforce simp: list_op_def RemoveAllSubscriber_store_def)
  show "list_op bo Deny (c, t) (RemoveAllDenylist bo c t) (\<lambda>_. {})"
    using W(8) [of c t] slot up by (fastforce simp: list_op_def RemoveAllDenylist_def)
  show "list_op bo Allowed (c, t) (RemoveAllAllowlist bo c t) (\<lambda>_. {})"
    using W(9) [of c t] slot up by (fastforce simp: list_op_def RemoveAllAllowlist_def)
qed

lemma list_changes:
  "list_change Subs (AddSubscribers us) (\<lambda>X. X \<union> set us)" "list_change Subs (RemoveSubscribers us) (\<lambda>X. X - set us)"
  "list_change Subs RemoveAllSubscriber (\<lambda>_. {})"
  "list_change Deny (AddDenylist us) (\<lambda>X. X \<union> set us)" "list_change Deny (RemoveDenylist us) (\<lambda>X. X - set us)"
  "list_change Deny (SetDenylist us) (\<lambda>_. set us)"
  "list_change Allowed (AddAllowlist us) (\<lambda>X. X \<union> set us)" "list_change Allowed (RemoveAllowlist us) (\<lambda>X. X - set us)"
  "list_change Allowed (SetAllowlist us) (\<lambda>_. set us)"
  by (auto simp: list_change_def list_kind_cases [of "\<lambda>kd. kd \<noteq> _ \<longrightarrow> _ kd"] AddSubscribers_def RemoveSubscribers_def RemoveAllSubscriber_def
      AddDenylist_def RemoveDenylist_def SetDenylist_def AddAllowlist_def RemoveAllowlist_def SetAllowlist_def)

end
