(* ===== verification/ChannelApiProofs.thy ===== *)
theory ChannelApiProofs
  imports ChannelAgreement
begin

text \<open>
  Every administration handler keeps the agreement of the manager's cache with the store, in every
  order of requests, and what follows for the decision about a sender.
\<close>

section \<open>What does not touch the lists\<close>

definition elsewhere :: "'d bolt \<Rightarrow> ('d filestore \<Rightarrow> 'd filestore outcome) \<Rightarrow> bool" where
  "elsewhere bo f \<longleftrightarrow> (\<forall>fs fs'. f fs = Ret fs' \<longrightarrow> fs_cfg fs' = fs_cfg fs \<and>
     (\<forall>slot kd c t. getList bo slot (list_key kd c t) fs' = getList bo slot (list_key kd c t) fs))"

lemma elsewhere_lists:
  assumes "elsewhere bo f" and "f fs = Ret fs'"
  shows "lists bo fs' = lists bo fs" and "lists_ok bo fs' = lists_ok bo fs"
proof -
  have e: "fs_cfg fs' = fs_cfg fs" "\<And>slot kd c t. getList bo slot (list_key kd c t) fs' = getList bo slot (list_key kd c t) fs"
    using assms unfolding elsewhere_def by blast+
  show "lists bo fs' = lists bo fs" by (intro ext) (rule lists_frame(1) [OF e])
  show "lists_ok bo fs' = lists_ok bo fs" unfolding lists_ok_def using lists_frame(2) [OF e] by simp
qed

lemma coherent_fs:
  assumes "lists (bolt_of ev) fs' = lists (bolt_of ev) (ap_fs s)" and "lists_ok (bolt_of ev) fs' = lists_ok (bolt_of ev) (ap_fs s)"
    and "ap_fs s' = fs'" and "ap_channels s' = ap_channels s"
  shows "coherent ev s' = coherent ev s"
  using assms by (simp add: coherent_def agrees_def)

lemma keeps_elsewhere [keeps_intro]: "elsewhere (bolt_of ev) f \<Longrightarrow> keeps (coherent ev) (writeS f)"
proof (rule keepsI)
  fix s r s' assume e: "elsewhere (bolt_of ev) f" and c: "coherent ev s" and w: "writeS f s = (r, s')"
  show "coherent ev s'"
  proof (cases "f (ap_fs s)")
    case (Ret fs')
    then have "ap_fs s' = fs'" "ap_channels s' = ap_channels s" using w by (auto simp: writeS_def)
    from coherent_fs [OF elsewhere_lists [OF e Ret] this] c show ?thesis by simp
  qed (use w c in \<open>auto simp: writeS_def\<close>)
qed

lemma other_keys:
  "getChannelKey c t \<noteq> list_key kd c' t'" "conversation_key u \<noteq> list_key kd c' t'"
  by (cases kd; simp add: getChannelKey_def conversation_key_def getSubscribersKey_def getDenylistKey_def getAllowlistKey_def str_def)+

lemma elsewhere_set: "bolt_ok bo \<Longrightarrow> (\<And>kd c t. key \<noteq> list_key kd c t) \<Longrightarrow> elsewhere bo (fs_set bo slot key v)"
  and elsewhere_delete: "bolt_ok bo \<Longrightarrow> (\<And>kd c t. key \<noteq> list_key kd c t) \<Longrightarrow> elsewhere bo (fs_delete bo slot key)"
  using other_key unfolding elsewhere_def by metis+

lemma elsewhere_bind: "(\<And>slot. elsewhere bo (f slot)) \<Longrightarrow> elsewhere bo (\<lambda>fs. bindR (g fs) (\<lambda>slot. f slot fs))"
  unfolding elsewhere_def bindR_eq_Ret by blast

lemma AddOrUpdateChannel_elsewhere: "bolt_ok bo \<Longrightarrow> elsewhere bo (AddOrUpdateChannel bo js c)"
  unfolding AddOrUpdateChannel_def [abs_def] by (intro elsewhere_bind elsewhere_set other_keys)

lemma fs_DeleteChannel_elsewhere: "bolt_ok bo \<Longrightarrow> elsewhere bo (fs_DeleteChannel bo c t)"
  unfolding fs_DeleteChannel_def [abs_def] by (intro elsewhere_bind elsewhere_delete other_keys)

lemma DeleteConversation_elsewhere: "bolt_ok bo \<Longrightarrow> elsewhere bo (StoreTables.DeleteConversation bo js uid c t)"
  unfolding StoreTables.DeleteConversation_def [abs_def] put_conversations_def
  by (intro elsewhere_bind elsewhere_set other_keys)

section \<open>Handlers\<close>

lemma keeps_body: "(\<And>req. body = Ret req \<Longrightarrow> keeps I (f req)) \<Longrightarrow> keeps I (bindS (liftR body) f)"
  by (cases body) (simp_all add: keeps_def bindS_def liftR_def)

lemma keeps_body_wrap: "(\<And>req. body = Ret req \<Longrightarrow> keeps I (f req)) \<Longrightarrow> keeps I (bindS (liftR (wrapR msg body)) f)"
  by (rule keeps_body) (cases body; simp add: wrapR_def)

lemma keeps_then3: "keeps I (thenS m n) \<Longrightarrow> keeps I p \<Longrightarrow> keeps I (thenS m (thenS n p))"
  unfolding thenS_assoc [symmetric] by (rule keeps_thenS)

lemma getChannelS_keeps:
  assumes up: "env_up ev"
  shows "keeps (coherent ev) (getChannelS ev cid t)"
proof (rule keepsI)
  fix s r s' assume c: "coherent ev s" and g: "getChannelS ev cid t s = (r, s')"
  obtain X where X: "part ev Deny (cid, t) X s"
    "\<And>c. cached_channel (cid, t) s = Some c \<Longrightarrow> tracked (opts_of ev) Deny (cid, t) \<Longrightarrow> set (ch_list Deny c) = X"
    by (rule coherent_part [OF c, of Deny "(cid, t)"]) blast
  note P = part_get [OF up X(1) g]
  show "coherent ev s'" by (rule part_coherent [OF P(1)]) (use P(3) X(2) in blast)
qed

text \<open>What a handler does to one list of one channel, by the operation on the store and the method of the channel.\<close>

lemma list_updates:
  assumes "env_up ev"
  shows "names_ok us \<Longrightarrow> keeps (coherent ev) (thenS (writeS (AddDenylist_store (bolt_of ev) c t us)) (updateS ev c t (AddDenylist us)))"
    and "keeps (coherent ev) (thenS (writeS (RemoveDenylist_store (bolt_of ev) c t us)) (updateS ev c t (RemoveDenylist us)))"
    and "names_ok us \<Longrightarrow> keeps (coherent ev) (thenS (writeS (AddAllowlist_store (bolt_of ev) c t us)) (updateS ev c t (AddAllowlist us)))"
    and "keeps (coherent ev) (thenS (writeS (RemoveAllowlist_store (bolt_of ev) c t us)) (updateS ev c t (RemoveAllowlist us)))"
    and "names_ok us \<Longrightarrow> keeps (coherent ev) (thenS (writeS (AddSubscribers_store (bolt_of ev) c t us)) (changeS ev c t (AddSubscribers us)))"
    and "keeps (coherent ev) (thenS (writeS (RemoveSubscribers_store (bolt_of ev) c t us)) (changeS ev c t (RemoveSubscribers us)))"
    and "keeps (coherent ev) (thenS (writeS (RemoveAllSubscriber_store (bolt_of ev) c t)) (changeS ev c t RemoveAllSubscriber))"
proof -
  have bo: "bolt_ok (bolt_of ev)" "bolt_up (bolt_of ev)" using assms by (simp_all add: env_up_def)
  note O = store_list_ops [OF bo] and U = edit_update [OF assms] and L = list_changes
  show "names_ok us \<Longrightarrow> keeps (coherent ev) (thenS (writeS (AddDenylist_store (bolt_of ev) c t us)) (updateS ev c t (AddDenylist us)))"
    by (rule U [OF edits_writeS [OF O(2)] L(4)]) auto
  show "keeps (coherent ev) (thenS (writeS (RemoveDenylist_store (bolt_of ev) c t us)) (updateS ev c t (RemoveDenylist us)))"
    by (rule U [OF edits_writeS [OF O(5)] L(5)]) auto
  show "names_ok us \<Longrightarrow> keeps (coherent ev) (thenS (writeS (AddAllowlist_store (bolt_of ev) c t us)) (updateS ev c t (AddAllowlist us)))"
    by (rule U [OF edits_writeS [OF O(3)] L(7)]) auto
  show "keeps (coherent ev) (thenS (writeS (RemoveAllowlist_store (bolt_of ev) c t us)) (updateS ev c t (RemoveAllowlist us)))"
    by (rule U [OF edits_writeS [OF O(6)] L(8)]) auto
  show "names_ok us \<Longrightarrow> keeps (coherent ev) (thenS (writeS (AddSubscribers_store (bolt_of ev) c t us)) (changeS ev c t (AddSubscribers us)))"
    by (rule edit_change [OF edits_writeS [OF O(1)] L(1)])
  show "keeps (coherent ev) (thenS (writeS (RemoveSubscribers_store (bolt_of ev) c t us)) (changeS ev c t (RemoveSubscribers us)))"
    by (rule edit_change [OF edits_writeS [OF O(4)] L(2)])
  show "keeps (coherent ev) (thenS (writeS (RemoveAllSubscriber_store (bolt_of ev) c t)) (changeS ev c t RemoveAllSubscriber))"
    by (rule edit_change [OF edits_writeS [OF O(7)] L(3)])
qed

lemma set_updates:
  assumes up: "env_up ev" and us: "names_ok us"
  shows "keeps (coherent ev) (thenS (orS e (writeS (RemoveAllDenylist (bolt_of ev) c t)))
       (thenS (whenS (length us > 0) (writeS (AddDenylist_store (bolt_of ev) c t us))) (updateS ev c t (SetDenylist us))))"
    and "keeps (coherent ev) (thenS (orS e (writeS (RemoveAllAllowlist (bolt_of ev) c t)))
       (thenS (whenS (length us > 0) (writeS (AddAllowlist_store (bolt_of ev) c t us))) (updateS ev c t (SetAllowlist us))))"
proof -
  have bo: "bolt_ok (bolt_of ev)" "bolt_up (bolt_of ev)" using up by (simp_all add: env_up_def)
  note O = store_list_ops [OF bo]
  have "edits ev Deny (c, t) (thenS (orS e (writeS (RemoveAllDenylist (bolt_of ev) c t)))
      (whenS (length us > 0) (writeS (AddDenylist_store (bolt_of ev) c t us)))) (\<lambda>X. {} \<union> set us)"
    by (rule edits_thenS [OF edits_orS [OF edits_writeS [OF O(8)]] edits_whenS [OF edits_writeS [OF O(2) [OF us]]]]) simp
  then show "keeps (coherent ev) (thenS (orS e (writeS (RemoveAllDenylist (bolt_of ev) c t)))
       (thenS (whenS (length us > 0) (writeS (AddDenylist_store (bolt_of ev) c t us))) (updateS ev c t (SetDenylist us))))"
    unfolding thenS_assoc [symmetric] Un_empty_left by (rule edit_update [OF up _ list_changes(6)]) simp
  have "edits ev Allowed (c, t) (thenS (orS e (writeS (RemoveAllAllowlist (bolt_of ev) c t)))
      (whenS (length us > 0) (writeS (AddAllowlist_store (bolt_of ev) c t us)))) (\<lambda>X. {} \<union> set us)"
    by (rule edits_thenS [OF edits_orS [OF edits_writeS [OF O(9)]] edits_whenS [OF edits_writeS [OF O(3) [OF us]]]]) simp
  then show "keeps (coherent ev) (thenS (orS e (writeS (RemoveAllAllowlist (bolt_of ev) c t)))
       (thenS (whenS (length us > 0) (writeS (AddAllowlist_store (bolt_of ev) c t us))) (updateS ev c t (SetAllowlist us))))"
    unfolding thenS_assoc [symmetric] Un_empty_left by (rule edit_update [OF up _ list_changes(9)]) simp
qed

lemma names_ok_single: "names_ok us \<Longrightarrow> u \<in> set us \<Longrightarrow> names_ok [u]"
  by (simp add: names_ok_def)

text \<open>The rules are tried in this order: the steps on a list before the sequence of any two steps.\<close>

lemmas handler_steps = keeps_thenS keeps_checkS keeps_if keeps_eachS keeps_readS keeps_whenS keeps_orS keeps_wrapS keeps_returnS keeps_liftR

lemma denylist_keeps:
  assumes up: "env_up ev" and ok: "\<And>req. body = Ret req \<Longrightarrow> names_ok (lq_UIDs req)"
  shows "keeps (coherent ev) (blacklistAdd ev body)" and "keeps (coherent ev) (blacklistSet ev body)"
    and "keeps (coherent ev) (blacklistRemove ev body)"
proof -
  note rules = list_updates(1,2) [OF up] set_updates(1) [OF up] keeps_body handler_steps ok names_ok_single
  show "keeps (coherent ev) (blacklistAdd ev body)"
    unfolding blacklistAdd_def Let_def blacklistReq_Check_def by (rule rules | assumption)+
  show "keeps (coherent ev) (blacklistSet ev body)"
    unfolding blacklistSet_def Let_def by (rule rules | assumption)+
  show "keeps (coherent ev) (blacklistRemove ev body)"
    unfolding blacklistRemove_def Let_def blacklistReq_Check_def by (rule rules | assumption)+
qed

lemma allowlist_keeps:
  assumes up: "env_up ev" and ok: "\<And>req. body = Ret req \<Longrightarrow> names_ok (lq_UIDs req)"
  shows "keeps (coherent ev) (whitelistAdd ev body)" and "keeps (coherent ev) (whitelistSet ev body)"
    and "keeps (coherent ev) (whitelistRemove ev body)"
proof -
  note rules = list_updates(3,4) [OF up] set_updates(2) [OF up] keeps_body handler_steps ok
  show "keeps (coherent ev) (whitelistAdd ev body)"
    unfolding whitelistAdd_def whitelistReq_Check_def by (rule rules | assumption)+
  show "keeps (coherent ev) (whitelistSet ev body)"
    unfolding whitelistSet_def Let_def by (rule rules | assumption)+
  show "keeps (coherent ev) (whitelistRemove ev body)"
    unfolding whitelistRemove_def whitelistReq_Check_def by (rule rules | assumption)+
qed

lemma getWhitelist_keeps: "env_up ev \<Longrightarrow> keeps (coherent ev) (getWhitelist ev cid)"
  unfolding getWhitelist_def by (intro keeps_bindS getChannelS_keeps keeps_option keeps_liftR keeps_returnS)

section \<open>Subscribers\<close>

text \<open>Temporary subscribers are in no list.\<close>

lemma keeps_unlisted:
  assumes "\<And>c kd. ch_list kd (h c) = ch_list kd c" and "\<And>c. ch_Info (h c) = ch_Info c"
  shows "keeps (coherent ev) (changeS ev cid t h)"
proof (rule keepsI)
  fix s r s' assume c: "coherent ev s" and "changeS ev cid t h s = (r, s')"
  then have s': "ap_fs s' = ap_fs s" "ap_channels s' = change_channel (opts_of ev) cid t h (ap_channels s)"
    by (auto simp: changeS_def)
  have lc: "list_change Deny h (\<lambda>X. X)" using assms assms(1) [of Deny] by (simp add: list_change_def)
  obtain X where X: "part ev Deny (cid, t) X s"
    "\<And>c. cached_channel (cid, t) s = Some c \<Longrightarrow> tracked (opts_of ev) Deny (cid, t) \<Longrightarrow> set (ch_list Deny c) = X"
    by (rule coherent_part [OF c, of Deny "(cid, t)"]) blast
  show "coherent ev s'" by (rule part_change [OF X(1) lc X(2) \<open>changeS ev cid t h s = (r, s')\<close>]) assumption+
qed

lemma tmp_keeps:
  "keeps (coherent ev) (changeS ev cid t RemoveAllTmpSubscriber)" "keeps (coherent ev) (changeS ev cid t (AddTmpSubscribers us))"
  "keeps (coherent ev) (changeS ev cid t (RemoveTmpSubscribers us))"
proof -
  have "ch_list kd (RemoveAllTmpSubscriber c) = ch_list kd c" "ch_list kd (AddTmpSubscribers us c) = ch_list kd c"
    "ch_list kd (RemoveTmpSubscribers us c) = ch_list kd c" for kd c
    by (cases kd; simp add: RemoveAllTmpSubscriber_def AddTmpSubscribers_def RemoveTmpSubscribers_def)+
  then show "keeps (coherent ev) (changeS ev cid t RemoveAllTmpSubscriber)" "keeps (coherent ev) (changeS ev cid t (AddTmpSubscribers us))"
    "keeps (coherent ev) (changeS ev cid t (RemoveTmpSubscribers us))"
    by (auto intro!: keeps_unlisted simp: RemoveAllTmpSubscriber_def AddTmpSubscribers_def RemoveTmpSubscribers_def)
qed

lemma addSubscriber_keeps:
  assumes up: "env_up ev" and ok: "\<And>req. body = Ret req \<Longrightarrow> names_ok (sr_Subscribers req)"
  shows "keeps (coherent ev) (addSubscriber ev body)"
proof -
  have "keeps (coherent ev) (addSubscriberWithReq ev req t)" if "names_ok (sr_Subscribers req)" for req t
  proof -
    have "keeps (coherent ev) (thenS (writeS (RemoveAllSubscriber_store (bolt_of ev) (sr_ChannelID req) t))
        (thenS (changeS ev (sr_ChannelID req) t RemoveAllSubscriber) (returnS [])))"
      by (intro keeps_then3 list_updates(7) [OF up] keeps_returnS)
    with that show ?thesis
      unfolding addSubscriberWithReq_def Let_def
      by (intro keeps_bindS keeps_if keeps_whenS list_updates(5) [OF up] keeps_readS) simp_all
  qed
  moreover have "keeps (coherent ev) (addTmpSubscriberWithReq ev req t)" for req t
    unfolding addTmpSubscriberWithReq_def by (intro keeps_thenS keeps_whenS tmp_keeps)
  ultimately show ?thesis
    unfolding addSubscriber_def Let_def subscriberReq_Check_def
    by (intro keeps_body_wrap keeps_thenS keeps_checkS keeps_bindS keeps_wrapS getChannelS_keeps [OF up] keeps_if keeps_orS) (simp_all add: ok)
qed

text \<open>The conversations that are deleted with a subscriber are under keys of their own.\<close>

lemma mgr_DeleteConversation_lists:
  assumes "bolt_ok (ce_bolt ev)" and "mgr_DeleteConversation ev uids c t cv = Ret cv'"
  shows "lists (ce_bolt ev) (cv_fs cv') = lists (ce_bolt ev) (cv_fs cv)" and "lists_ok (ce_bolt ev) (cv_fs cv') = lists_ok (ce_bolt ev) (cv_fs cv)"
proof -
  have one: "lists (ce_bolt ev) (cv_fs cv') = lists (ce_bolt ev) (cv_fs cv) \<and> lists_ok (ce_bolt ev) (cv_fs cv') = lists_ok (ce_bolt ev) (cv_fs cv)"
    if "delete_one ev c t uid cv = Ret cv'" for uid cv cv'
  proof -
    obtain l cv1 where g: "getUserConversationCache ev uid cv = (l, cv1)" by fastforce
    have fs: "cv_fs cv1 = cv_fs cv" using g by (auto simp: getUserConversationCache_def split: option.splits)
    show ?thesis
    proof (cases "StoreTables.DeleteConversation (ce_bolt ev) (ce_json ev) uid c t (cv_fs cv)")
      case (Ret fs')
      with that have "cv_fs cv' = fs'" by (auto simp: delete_one_def g Let_def put_cache_def fs)
      with elsewhere_lists [OF DeleteConversation_elsewhere [OF assms(1)] Ret] show ?thesis by simp
    qed (use that in \<open>auto simp: delete_one_def g Let_def put_cache_def fs\<close>)
  qed
  show "lists (ce_bolt ev) (cv_fs cv') = lists (ce_bolt ev) (cv_fs cv)" "lists_ok (ce_bolt ev) (cv_fs cv') = lists_ok (ce_bolt ev) (cv_fs cv)"
    using assms(2) by (induction uids arbitrary: cv) (auto simp: bindR_eq_Ret dest!: one)
qed

lemma removeSubscriber_keeps:
  assumes up: "env_up ev"
  shows "keeps (coherent ev) (removeSubscriber ev body)"
proof -
  have "keeps (coherent ev) (convS (mgr_DeleteConversation (conv_env_of ev) uids c t))" for uids c t
  proof (rule keepsI)
    fix s r s' assume c: "coherent ev s" and d: "convS (mgr_DeleteConversation (conv_env_of ev) uids c t) s = (r, s')"
    have bo: "ce_bolt (conv_env_of ev) = bolt_of ev" by (simp add: conv_env_of_def)
    have ok: "bolt_ok (ce_bolt (conv_env_of ev))" using up by (simp add: bo env_up_def)
    show "coherent ev s'"
    proof (cases "mgr_DeleteConversation (conv_env_of ev) uids c t ((ap_conv s)\<lparr>cv_fs := ap_fs s\<rparr>)")
      case (Ret cv)
      then have "ap_fs s' = cv_fs cv" "ap_channels s' = ap_channels s"
        using d by (auto simp: convS_def set_fs_def map_node_def map_server_def)
      from coherent_fs [OF _ _ this] mgr_DeleteConversation_lists [OF ok Ret] c show ?thesis by (simp add: bo)
    qed (use c d in \<open>auto simp: convS_def\<close>)
  qed
  then show ?thesis
    unfolding removeSubscriber_def Let_def subscriberReq_Check_def
    by (intro keeps_body_wrap keeps_thenS [OF keeps_thenS [OF keeps_checkS keeps_checkS]] keeps_bindS [OF keeps_wrapS [OF getChannelS_keeps [OF up]]]
        keeps_thenS [OF keeps_checkS] keeps_if tmp_keeps keeps_then3 list_updates(6) [OF up])
qed

section \<open>Channels\<close>

lemma forget_eq: "(\<lambda>s. (Ret (), map_channels (DeleteChannelFromCache c t) s)) = forgetS c t"
  by (rule ext) (simp add: forgetS_def)

lemma channelCreateOrUpdate_keeps:
  assumes up: "env_up ev" and ok: "\<And>req. body = Ret req \<Longrightarrow> names_ok (ccr_Subscribers req)"
  shows "keeps (coherent ev) (channelCreateOrUpdate ev body)"
proof -
  have bo: "bolt_ok (bolt_of ev)" "bolt_up (bolt_of ev)" using up by (simp_all add: env_up_def)
  note O = store_list_ops [OF bo]
  have "keeps (coherent ev) (thenS (orS e (writeS (RemoveAllSubscriber_store (bolt_of ev) c t)))
     (thenS (whenS (length us > 0) (writeS (AddSubscribers_store (bolt_of ev) c t us))) (\<lambda>s. (Ret (), map_channels (DeleteChannelFromCache c t) s))))"
    if us: "names_ok us" for e c t us
    unfolding thenS_assoc [symmetric] forget_eq
    by (rule edit_forget [OF edits_thenS [OF edits_orS [OF edits_writeS [OF O(7)]] edits_whenS [OF edits_writeS [OF O(1) [OF us]]]]]) simp
  with ok show ?thesis
    unfolding channelCreateOrUpdate_def Let_def ChannelCreateReq_Check_def
    by (intro keeps_body_wrap keeps_thenS [OF keeps_thenS [OF keeps_checkS keeps_checkS]] keeps_thenS [OF keeps_checkS]
        keeps_thenS [OF keeps_elsewhere [OF AddOrUpdateChannel_elsewhere [OF bo(1)]]]) blast
qed

lemma updateOrAddChannelInfo_keeps:
  assumes up: "env_up ev"
  shows "keeps (coherent ev) (updateOrAddChannelInfo ev body)"
proof -
  have bo: "bolt_ok (bolt_of ev)" using up by (simp add: env_up_def)
  have "keeps (coherent ev) (\<lambda>s. (Ret (), map_channels (\<lambda>cs. case getChannelFromCache (cir_ChannelID req) (cir_ChannelType req) cs of
      None \<Rightarrow> cs | Some c \<Rightarrow> cs\<lparr>cm_channelCache := (cm_channelCache cs)
        (channelKey (cir_ChannelID req) (cir_ChannelType req) \<mapsto> c\<lparr>ch_Info := ToChannelInfo req\<rparr>)\<rparr>) s))" (is "keeps _ (\<lambda>s. (_, map_channels ?f s))") for req
  proof (rule keepsI)
    fix s r s' assume c: "coherent ev s" and s': "(Ret (), map_channels ?f s) = (r, s')"
    have "agrees (bolt_of ev) (opts_of ev) (?f cs) fs kd k" if "agrees (bolt_of ev) (opts_of ev) cs fs kd k" for cs fs kd k
      using that unfolding agrees_def getChannelFromCache_def
      by (cases kd; cases k) (auto split: option.splits if_splits)
    moreover have "channels_ok (?f cs)" if "channels_ok cs" for cs
      using that unfolding getChannelFromCache_def channels_ok_def
      by (auto simp: cache_ok_def ToChannelInfo_def split: option.splits if_splits)
    ultimately show "coherent ev s'" using c s' by (auto simp: coherent_def)
  qed
  then show ?thesis
    unfolding updateOrAddChannelInfo_def Let_def
    by (intro keeps_bindS keeps_orS keeps_liftR keeps_thenS keeps_elsewhere [OF AddOrUpdateChannel_elsewhere [OF bo]])
qed

lemma channelDelete_keeps:
  assumes up: "env_up ev"
  shows "keeps (coherent ev) (channelDelete ev body)"
proof -
  have bo: "bolt_ok (bolt_of ev)" using up by (simp add: env_up_def)
  have e: "elsewhere bo (DeleteChannelAndClearMessages c t)" for bo c t
    by (simp add: elsewhere_def DeleteChannelAndClearMessages_def)
  have d: "keeps (coherent ev) (\<lambda>s. case manager_DeleteChannel (bolt_of ev) c t (ap_channels s) (ap_fs s) of
      Ret (cs, fs) \<Rightarrow> (Ret (), set_fs fs (map_channels (\<lambda>_. cs) s)) | Fail _ \<Rightarrow> (Ret (), s) | Panic \<Rightarrow> (Panic, s))" (is "keeps _ ?m") for c t
  proof (rule keepsI)
    fix s r s' assume c: "coherent ev s" and m: "?m s = (r, s')"
    show "coherent ev s'"
    proof (cases "fs_DeleteChannel (bolt_of ev) c t (ap_fs s)")
      case (Ret fs)
      note E = elsewhere_lists [OF fs_DeleteChannel_elsewhere [OF bo] Ret]
      have s': "ap_fs s' = fs" "ap_channels s' = DeleteChannelFromCache c t (ap_channels s)"
        using m Ret by (auto simp: manager_DeleteChannel_def mapR_def)
      moreover have "agrees (bolt_of ev) (opts_of ev) cs fs kd k" if "agrees (bolt_of ev) (opts_of ev) cs (ap_fs s) kd k" for cs kd k
        using that by (simp add: agrees_def E(1))
      ultimately show ?thesis using c agrees_forget channels_ok_forget unfolding coherent_def s' E(2) by blast
    qed (use c m in \<open>auto simp: manager_DeleteChannel_def mapR_def\<close>)
  qed
  show ?thesis
    unfolding channelDelete_def by (intro keeps_body_wrap) (auto intro!: keeps_thenS [OF keeps_elsewhere [OF e] d] split: prod.split)
qed

end
