(* ===== verification/ChannelRequests.thy ===== *)
theory ChannelRequests
  imports ChannelApiProofs
begin

text \<open>
  The requests of \<^verbatim>\<open>api_channel.go\<close> in any order, mixed with the fetching of channels that sending
  and delivering do: the lists of a cached channel are always those of the store, so a decision about
  a sender is a decision by what the administrator last set.
\<close>

section \<open>Requests\<close>

text \<open>The routes, each with what was read from its body.\<close>

datatype channel_call =
    ChannelPost "ChannelCreateReq outcome"
  | InfoPost "ChannelInfoReq outcome"
  | DeletePost "(gostring \<times> u8) outcome"
  | SubscriberAddPost "subscriberReq outcome"
  | SubscriberRemovePost "subscriberReq outcome"
  | BlacklistAddPost "listReq outcome"
  | BlacklistSetPost "listReq outcome"
  | BlacklistRemovePost "listReq outcome"
  | WhitelistAddPost "listReq outcome"
  | WhitelistSetPost "listReq outcome"
  | WhitelistRemovePost "listReq outcome"

fun serve_channel :: "('d, 'l) app_env \<Rightarrow> channel_call \<Rightarrow> (('d, 'l) app, unit) handler" where
  "serve_channel ev (ChannelPost body) = channelCreateOrUpdate ev body"
| "serve_channel ev (InfoPost body) = updateOrAddChannelInfo ev body"
| "serve_channel ev (DeletePost body) = channelDelete ev body"
| "serve_channel ev (SubscriberAddPost body) = addSubscriber ev body"
| "serve_channel ev (SubscriberRemovePost body) = removeSubscriber ev body"
| "serve_channel ev (BlacklistAddPost body) = blacklistAdd ev body"
| "serve_channel ev (BlacklistSetPost body) = blacklistSet ev body"
| "serve_channel ev (BlacklistRemovePost body) = blacklistRemove ev body"
| "serve_channel ev (WhitelistAddPost body) = whitelistAdd ev body"
| "serve_channel ev (WhitelistSetPost body) = whitelistSet ev body"
| "serve_channel ev (WhitelistRemovePost body) = whitelistRemove ev body"

text \<open>The names in a request; the store separates names by commas.\<close>

definition names_in :: "('a \<Rightarrow> gostring list) \<Rightarrow> 'a outcome \<Rightarrow> gostring list" where
  "names_in f body = (case body of Ret req \<Rightarrow> f req | _ \<Rightarrow> [])"

fun names_of :: "channel_call \<Rightarrow> gostring list" where
  "names_of (ChannelPost body) = names_in ccr_Subscribers body"
| "names_of (SubscriberAddPost body) = names_in sr_Subscribers body"
| "names_of (BlacklistAddPost body) = names_in lq_UIDs body"
| "names_of (BlacklistSetPost body) = names_in lq_UIDs body"
| "names_of (BlacklistRemovePost body) = names_in lq_UIDs body"
| "names_of (WhitelistAddPost body) = names_in lq_UIDs body"
| "names_of (WhitelistSetPost body) = names_in lq_UIDs body"
| "names_of (WhitelistRemovePost body) = names_in lq_UIDs body"
| "names_of _ = []"

lemma serve_channel_keeps:
  assumes "env_up ev" and "names_ok (names_of q)"
  shows "keeps (coherent ev) (serve_channel ev q)"
  using assms(2)
  by (cases q) (auto simp: names_in_def intro: channelCreateOrUpdate_keeps updateOrAddChannelInfo_keeps channelDelete_keeps addSubscriber_keeps
      removeSubscriber_keeps denylist_keeps allowlist_keeps assms(1))

inductive administered :: "('d, 'l) app_env \<Rightarrow> ('d, 'l) app \<Rightarrow> ('d, 'l) app \<Rightarrow> bool" for ev s0 where
  start: "administered ev s0 s0"
| request: "administered ev s0 s \<Longrightarrow> names_ok (names_of q) \<Longrightarrow> serve_channel ev q s = (r, s') \<Longrightarrow> administered ev s0 s'"
| fetch: "administered ev s0 s \<Longrightarrow> getChannelS ev channelID channelType s = (r, s') \<Longrightarrow> administered ev s0 s'"

lemma administered_coherent:
  assumes "env_up ev" and "coherent ev s" and "administered ev s s'"
  shows "coherent ev s'"
  using assms(3)
proof induction
  case (request s1 q r s2)
  then show ?case by (blast intro: keepsD [OF serve_channel_keeps [OF assms(1)]])
next
  case (fetch s1 cid t r s2)
  then show ?case by (blast intro: keepsD [OF getChannelS_keeps [OF assms(1)]])
qed (rule assms(2))

section \<open>What is decided\<close>

lemma GetChannel_cached:
  assumes "env_ok env" and "GetChannel env cid t cs = (Ret (Some c), cs')" and "tracked (en_opts env) kd (cid, t)"
  shows "cm_channelCache cs' (channelKey cid t) = Some c"
proof -
  have no: "\<not> IsTmpChannel (en_opts env) cid" "t \<noteq> ChannelTypeData" using assms(3) by (simp_all add: tracked_def)
  show ?thesis
  proof (cases "cm_channelCache cs (channelKey cid t)")
    case (Some c')
    then show ?thesis using assms(2) no
      by (auto simp: GetChannel_def GetPersonChannel_def getChannelFromCacheOrStore_def getChannelFromCache_def split: if_splits)
  next
    case None
    show ?thesis
    proof (cases "t = ChannelTypePerson")
      case True
      then show ?thesis using assms(2) no None
        by (auto simp: GetChannel_def GetPersonChannel_def Let_def split: prod.splits outcome.splits)
    next
      case False
      then have g: "getChannelFromCacheOrStore env cid t cs = (Ret (Some c), cs')" using assms(2) no by (simp add: GetChannel_def)
      obtain info where i: "ld_ChannelInfo (en_store env) cid t = Ret info"
        using g None by (auto simp: getChannelFromCacheOrStore_def getChannelFromCache_def split: outcome.splits)
      define ci where "ci = (case info of None \<Rightarrow> NewChannelInfo cid t | Some x \<Rightarrow> x)"
      have ci: "ci_ChannelID ci = cid" "ci_ChannelType ci = t"
        using assms(1) i by (auto simp: ci_def env_ok_def loader_ok_def split: option.splits)
      obtain lr cs1 where l: "LoadData env (NewChannel ci) cs = (lr, cs1)" by fastforce
      obtain c1 where c1: "lr = Ret c1" "c = c1" "cs' = setChannelFromCache c1 cs1"
        using g None i l by (cases lr) (auto simp: getChannelFromCacheOrStore_def getChannelFromCache_def ci_def Let_def split: if_splits)
      have "ch_ID c1 = cid" "ch_Type c1 = t" using LoadData_id [OF assms(1) l [unfolded c1(1)]] ci by (simp_all add: NewChannel_def)
      then show ?thesis by (simp add: c1 setChannelFromCache_def)
    qed
  qed
qed

text \<open>The channel that is handed out has the lists of the store.\<close>

lemma handed_out:
  assumes up: "env_up ev" and c: "coherent ev s" and g: "getChannelS ev cid t s = (Ret (Some c), s')" and tr: "tracked (opts_of ev) kd (cid, t)"
  shows "\<exists>ns. lists (bolt_of ev) (ap_fs s) kd (cid, t) = Ret ns \<and> set (ch_list kd c) = set ns"
    and "ch_ID c = cid" and "ch_Type c = t"
proof -
  obtain cs' where cs': "GetChannel (env_of (ae_world ev) (ap_node s)) cid t (ap_channels s) = (Ret (Some c), cs')" "s' = map_channels (\<lambda>_. cs') s"
    using g by (auto simp: getChannelS_def split: prod.splits)
  have "coherent ev s'" by (rule keepsD [OF getChannelS_keeps [OF up] c g])
  then have "agrees (bolt_of ev) (opts_of ev) cs' (ap_fs s) kd (cid, t)" unfolding coherent_def cs'(2) by simp
  with GetChannel_cached [OF env_of_ok [OF up] cs'(1)] tr
  show "\<exists>ns. lists (bolt_of ev) (ap_fs s) kd (cid, t) = Ret ns \<and> set (ch_list kd c) = set ns" by (simp add: agrees_def)
  have "channels_ok (ap_channels s)" using c by (simp add: coherent_def)
  from GetChannel_ok(2) [OF env_of_ok [OF up] this cs'(1)] show "ch_ID c = cid" "ch_Type c = t" by simp_all
qed

text \<open>A request that only reads or fetches leaves the store as it is.\<close>

lemma updateS_fs: "updateS ev cid t h s = (r, s') \<Longrightarrow> ap_fs s' = ap_fs s"
  by (auto simp: updateS_def bindS_def getChannelS_def changeS_def liftR_def split: prod.splits outcome.splits option.splits)

lemma blacklistAdd_stores:
  assumes up: "env_up ev" and c: "coherent ev s" and us: "names_ok (lq_UIDs req)"
    and t: "lq_ChannelType req \<noteq> ChannelTypePerson" and ok: "blacklistAdd ev (Ret req) s = (Ret u, s')"
  shows "\<exists>ns. GetDenylist (bolt_of ev) (lq_ChannelID req) (lq_ChannelType req) (ap_fs s') = Ret ns \<and> set (lq_UIDs req) \<subseteq> set ns"
proof -
  let ?k = "(lq_ChannelID req, lq_ChannelType req)"
  have bo: "bolt_ok (bolt_of ev)" "bolt_up (bolt_of ev)" using up by (simp_all add: env_up_def)
  obtain X where X: "part ev Deny ?k X s" by (rule coherent_part [OF c, of Deny ?k])
  obtain s1 r where w: "writeS (AddDenylist_store (bolt_of ev) (lq_ChannelID req) (lq_ChannelType req) (lq_UIDs req)) s = (Ret r, s1)"
    "updateS ev (lq_ChannelID req) (lq_ChannelType req) (AddDenylist (lq_UIDs req)) s1 = (Ret u, s')"
    using ok t by (auto simp: blacklistAdd_def blacklistReq_Check_def Let_def bindS_eq_Ret thenS_eq_Ret)
  have "part ev Deny ?k (X \<union> set (lq_UIDs req)) s1" by (rule part_write(2) [OF X store_list_ops(2) [OF bo us] w(1)])
  with updateS_fs [OF w(2)] show ?thesis by (auto simp: part_def lists_eq)
qed

lemma denied_at_once:
  assumes up: "env_up ev" and c: "coherent ev s" and us: "names_ok (lq_UIDs req)" "u \<in> set (lq_UIDs req)"
    and t: "lq_ChannelType req \<noteq> ChannelTypePerson" "lq_ChannelType req \<noteq> ChannelTypeInfo" "tracked (opts_of ev) Deny (lq_ChannelID req, lq_ChannelType req)"
    and ok: "blacklistAdd ev (Ret req) s = (Ret x, s1)"
    and allow: "GetAllowlist (bolt_of ev) (lq_ChannelID req) (lq_ChannelType req) (ap_fs s1) = Ret []"
    and g: "getChannelS ev (lq_ChannelID req) (lq_ChannelType req) s1 = (Ret (Some c'), s2)" and sys: "u \<notin> set sys"
  shows "fst (Allow (opts_of ev) sys u c') = False"
proof -
  have body: "\<And>r. Ret req = Ret r \<Longrightarrow> names_ok (lq_UIDs r)" using us by simp
  have c1: "coherent ev s1" by (rule keepsD [OF denylist_keeps(1) [OF up body] c ok])
  obtain ns where ns: "GetDenylist (bolt_of ev) (lq_ChannelID req) (lq_ChannelType req) (ap_fs s1) = Ret ns" "set (lq_UIDs req) \<subseteq> set ns"
    using blacklistAdd_stores [OF up c us(1) t(1) ok] by blast
  have tr: "tracked (opts_of ev) Allowed (lq_ChannelID req, lq_ChannelType req)" using t(3) by (simp add: tracked_def)
  from handed_out [OF up c1 g t(3)] ns us(2) have "u \<in> set (ch_blacklist c')" "ch_Type c' = lq_ChannelType req" by (auto simp: lists_eq)
  moreover from handed_out(1) [OF up c1 g tr] allow have "ch_whitelist c' = []" by (simp add: lists_eq)
  ultimately show ?thesis using t sys by (simp add: Allow_def SystemUID_def IsDenylist_def)
qed

end
