(* ===== verification/UserApi.thy ===== *)
theory UserApi
  imports ApiBase
begin

text \<open>
  The users' tokens, online status and system accounts (\<^verbatim>\<open>internal/server/api_user.go\<close>) and the list of
  blocked addresses (\<^verbatim>\<open>internal/server/api_system.go\<close>): a token that was set is the one that lets a user
  in, a device that was made to quit stays out, and the addresses in memory are those of the store.
\<close>

section \<open>Users\<close>

text \<open>The connections are told to go and closed a while later. As in the processor, the functions of the
  timers share the loop's variable, which ends as the last connection.\<close>

definition disconnect_olds :: "int \<Rightarrow> gostring \<Rightarrow> nat list \<Rightarrow> 'd server \<Rightarrow> 'd server" where
  "disconnect_olds seconds reason olds = fold (\<lambda>oldConn sv. afterFunc_close seconds (last olds) (sv_response oldConn
     [FDisconnect \<lparr>dis_Framer = empty_framer, dis_ReasonCode = ReasonConnectKick, dis_Reason = reason\<rparr>] sv)) olds"

definition conns_of_device :: "gostring \<Rightarrow> u8 \<Rightarrow> ('d, 'l) app \<Rightarrow> nat list" where
  "conns_of_device uid deviceFlag s = GetConnsWith uid deviceFlag (hb_engine (sv_hub (ap_server s))) (hb_conns (sv_hub (ap_server s)))"

text \<open>An empty token lets nobody in.\<close>

definition quitUserDevice :: "('d, 'l) app_env \<Rightarrow> gostring \<Rightarrow> u8 \<Rightarrow> (('d, 'l) app, unit) handler" where
  "quitUserDevice ev uid deviceFlag =
     (let bo = wd_bolt (ae_world ev); js = wd_json (ae_world ev) in
      thenS (writeS (UpdateUserToken bo js uid (DeviceFlag_ToUint8 deviceFlag) DeviceLevelMaster []))
        (\<lambda>s. (Ret (), map_server (disconnect_olds 2 [] (conns_of_device uid deviceFlag s)) s)))"

text \<open>An error of \<open>quitUserDevice\<close> is logged there and dropped here.\<close>

definition ignoreS :: "('s, unit) handler \<Rightarrow> ('s, unit) handler" where
  "ignoreS m s = (case m s of (Panic, s) \<Rightarrow> (Panic, s) | (_, s) \<Rightarrow> (Ret (), s))"

definition deviceQuit :: "('d, 'l) app_env \<Rightarrow> (gostring \<times> i64) outcome \<Rightarrow> (('d, 'l) app, unit) handler" where
  "deviceQuit ev body =
     bindS (liftR body) (\<lambda>(uid, deviceFlag).
       if deviceFlag = - 1
       then thenS (ignoreS (quitUserDevice ev uid APP)) (thenS (ignoreS (quitUserDevice ev uid WEB)) (ignoreS (quitUserDevice ev uid PC)))
       else ignoreS (quitUserDevice ev uid (ucast deviceFlag)))"

record OnlinestatusResp =
  os_UID :: gostring
  os_DeviceFlag :: u8
  os_Online :: int

definition getOnlineStatus :: "gostring list outcome \<Rightarrow> (('d, 'l) app, OnlinestatusResp list) handler" where
  "getOnlineStatus body =
     bindS (liftR body) (\<lambda>uids s.
       let sv = ap_server s; conns = GetOnlineConns uids (hb_engine (sv_hub sv)) (hb_conns (sv_hub sv)) in
       (Ret (map (\<lambda>a. \<lparr>os_UID = cn_uid (sv_conn sv a), os_DeviceFlag = cn_deviceFlag (sv_conn sv a), os_Online = 1\<rparr>) conns), s))"

record UpdateTokenReq =
  ut_UID :: gostring
  ut_Token :: gostring
  ut_DeviceFlag :: deviceFlag
  ut_DeviceLevel :: deviceLevel

definition UpdateTokenReq_Check :: "UpdateTokenReq \<Rightarrow> ('s, unit) handler" where
  "UpdateTokenReq_Check u =
     thenS (checkS (ut_UID u = []) ''uid cannot be empty'') (checkS (ut_Token u = []) ''token cannot be empty'')"

text \<open>The answer is a status: 200, or the reason that the user is banned.\<close>

definition updateToken :: "('d, 'l) app_env \<Rightarrow> UpdateTokenReq outcome \<Rightarrow> (('d, 'l) app, nat) handler" where
  "updateToken ev body =
     (let bo = wd_bolt (ae_world ev); js = wd_json (ae_world ev) in
      bindS (liftR body) (\<lambda>req.
      thenS (UpdateTokenReq_Check req)
      (bindS (readS (fs_GetChannel bo js (ut_UID req) ChannelTypePerson)) (\<lambda>channelInfo.
       if (case channelInfo of None \<Rightarrow> False | Some i \<Rightarrow> ci_Ban i) then returnS (unat ReasonBan)
       else thenS (wrapS ''updating the token failed''
              (writeS (UpdateUserToken bo js (ut_UID req) (DeviceFlag_ToUint8 (ut_DeviceFlag req)) (ut_DeviceLevel req) (ut_Token req))))
         (thenS (whenS (ut_DeviceLevel req = DeviceLevelMaster) (\<lambda>s. (Ret (), map_server
             (disconnect_olds 10 (str ''login in other device'') (conns_of_device (ut_UID req) (ut_DeviceFlag req) s)) s)))
         (thenS (orS (ErrMsg ''creating the person channel failed'') (writeS (CreateOrUpdatePersonChannel bo js (ut_UID req))))
           (returnS 200)))))))"

text \<open>System accounts, in the store and in memory.\<close>

definition change_systemUIDs ::
    "(gostring list \<Rightarrow> channels \<Rightarrow> 'd filestore \<Rightarrow> (channels \<times> 'd filestore) outcome) \<Rightarrow> gostring list \<Rightarrow> (('d, 'l) app, unit) handler" where
  "change_systemUIDs f uids s =
     (case f uids (ap_channels s) (ap_fs s) of
        Ret (cs, fs) \<Rightarrow> (Ret (), set_fs fs (map_channels (\<lambda>_. cs) s))
      | Fail e \<Rightarrow> (Fail e, s)
      | Panic \<Rightarrow> (Panic, s))"

definition systemUIDsAdd :: "('d, 'l) app_env \<Rightarrow> gostring list outcome \<Rightarrow> (('d, 'l) app, unit) handler" where
  "systemUIDsAdd ev body =
     bindS (orS (ErrMsg ''wrong data format'') (liftR body)) (\<lambda>uids.
       whenS (length uids > 0)
         (orS (ErrMsg ''adding system accounts failed'') (change_systemUIDs (manager_AddSystemUIDs (wd_bolt (ae_world ev))) uids)))"

definition systemUIDsRemove :: "('d, 'l) app_env \<Rightarrow> gostring list outcome \<Rightarrow> (('d, 'l) app, unit) handler" where
  "systemUIDsRemove ev body =
     bindS (orS (ErrMsg ''wrong data format'') (liftR body)) (\<lambda>uids.
       whenS (length uids > 0)
         (orS (ErrMsg ''removing system accounts failed'') (change_systemUIDs (manager_RemoveSystemUIDs (wd_bolt (ae_world ev))) uids)))"

section \<open>Blocked addresses\<close>

definition ipBlacklistAdd :: "('d, 'l) app_env \<Rightarrow> gostring list outcome \<Rightarrow> (('d, 'l) app, unit) handler" where
  "ipBlacklistAdd ev body =
     bindS (liftR body) (\<lambda>ips.
     thenS (checkS (length ips = 0) ''the list of addresses cannot be empty'')
     (thenS (writeS (AddIPBlacklist (wd_bolt (ae_world ev)) ips))
       (\<lambda>s. (Ret (), map_server (sv_AddIPBlacklist ips) s))))"

definition ipBlacklistRemove :: "('d, 'l) app_env \<Rightarrow> gostring list outcome \<Rightarrow> (('d, 'l) app, unit) handler" where
  "ipBlacklistRemove ev body =
     bindS (liftR body) (\<lambda>ips.
     thenS (checkS (length ips = 0) ''the list of addresses cannot be empty'')
     (thenS (writeS (RemoveIPBlacklist (wd_bolt (ae_world ev)) ips))
       (\<lambda>s. (Ret (), map_server (sv_RemoveIPBlacklist ips) s))))"

definition ipBlacklist :: "('d, 'l) app_env \<Rightarrow> (('d, 'l) app, gostring list) handler" where
  "ipBlacklist ev = readS (\<lambda>fs. Ret (GetIPBlacklist (wd_bolt (ae_world ev)) fs))"

section \<open>Who may log in\<close>

lemma token_key_apart [simp]:
  "getUserTokenKey u f \<noteq> getChannelKey c t" "getUserTokenKey u f \<noteq> getSubscribersKey c t"
  by (simp_all add: getUserTokenKey_def getChannelKey_def getSubscribersKey_def str_def)

definition token_frame :: "'d bolt \<Rightarrow> ('d filestore \<Rightarrow> 'd filestore outcome) \<Rightarrow> bool" where
  "token_frame bo f \<longleftrightarrow> (\<forall>fs fs' js uid flag. f fs = Ret fs' \<longrightarrow> GetUserToken bo js uid flag fs' = GetUserToken bo js uid flag fs)"

lemma token_frame_set:
  assumes "bolt_ok bo" and "\<And>u f. getUserTokenKey u f \<noteq> key"
  shows "token_frame bo (fs_set bo slot key v)"
  using fs_set_get [OF assms(1)] assms(2) unfolding token_frame_def
  by (auto simp: GetUserToken_def slotNum_def intro!: arg_cong2 [where f = bindR])

lemma token_frame_bind: "(\<And>x. token_frame bo (f x)) \<Longrightarrow> token_frame bo (\<lambda>fs. bindR (g fs) (\<lambda>x. f x fs))"
  unfolding token_frame_def bindR_eq_Ret by blast

lemma CreateOrUpdatePersonChannel_token:
  assumes "bolt_ok bo"
  shows "token_frame bo (CreateOrUpdatePersonChannel bo js uid)"
proof -
  have a: "token_frame bo (AddOrUpdateChannel bo js c)" for c
    unfolding AddOrUpdateChannel_def [abs_def] by (intro token_frame_bind token_frame_set [OF assms]) simp
  have b: "token_frame bo (AddSubscribers_store bo c t us)" for c t us
    unfolding AddSubscribers_store_def [abs_def] addList_def Let_def token_frame_def
    using token_frame_set [OF assms] unfolding token_frame_def bindR_eq_Ret by (metis token_key_apart(2))
  show ?thesis
    unfolding token_frame_def CreateOrUpdatePersonChannel_def
    using a b by (auto simp: token_frame_def bindR_eq_Ret split: if_splits)
qed

lemma disconnect_olds_node [simp]: "nd_fs (sv_node (disconnect_olds n r olds sv)) = nd_fs (sv_node sv)"
proof -
  have "nd_fs (sv_node (fold (\<lambda>oldConn sv. afterFunc_close n l (sv_response oldConn fs sv)) olds sv)) = nd_fs (sv_node sv)" for l fs
    by (induction olds arbitrary: sv) (simp_all add: afterFunc_close_def sv_response_def response_def)
  then show ?thesis by (simp add: disconnect_olds_def)
qed

lemma updateToken_stores:
  assumes bo: "bolt_ok (bolt_of ev)" and js: "json_ok (json_of ev)" and pl: "plain (ut_Token req)" and ok: "updateToken ev (Ret req) s = (Ret 200, s')"
  shows "GetUserToken (bolt_of ev) (json_of ev) (ut_UID req) (ut_DeviceFlag req) (ap_fs s') = Ret (ut_Token req, ut_DeviceLevel req)"
    and "ut_Token req \<noteq> []"
proof -
  let ?get = "GetUserToken (bolt_of ev) (json_of ev) (ut_UID req) (ut_DeviceFlag req)"
  from ok have "(\<exists>fs1 fs. UpdateUserToken (bolt_of ev) (json_of ev) (ut_UID req) (ut_DeviceFlag req) (ut_DeviceLevel req) (ut_Token req) (ap_fs s) = Ret fs1 \<and>
      CreateOrUpdatePersonChannel (bolt_of ev) (json_of ev) (ut_UID req) fs1 = Ret fs \<and> ap_fs s' = fs) \<and> ut_Token req \<noteq> []"
    by (auto simp: updateToken_def UpdateTokenReq_Check_def Let_def bindS_eq_Ret thenS_eq_Ret writeS_eq_Ret DeviceFlag_ToUint8_def split: if_splits)
  then obtain fs1 fs where u: "UpdateUserToken (bolt_of ev) (json_of ev) (ut_UID req) (ut_DeviceFlag req) (ut_DeviceLevel req) (ut_Token req) (ap_fs s) = Ret fs1"
    and c: "CreateOrUpdatePersonChannel (bolt_of ev) (json_of ev) (ut_UID req) fs1 = Ret fs" "ap_fs s' = fs" and t: "ut_Token req \<noteq> []" by blast
  have "?get fs = ?get fs1" using CreateOrUpdatePersonChannel_token [OF bo] c(1) unfolding token_frame_def by blast
  with UpdateUserToken_ok [OF bo js pl u, of "ut_UID req" "ut_DeviceFlag req"] c(2)
  show "?get (ap_fs s') = Ret (ut_Token req, ut_DeviceLevel req)" by simp
  show "ut_Token req \<noteq> []" by (rule t)
qed

text \<open>With a database that can be written the request is answered, unless the user is banned.\<close>

lemma CreateOrUpdatePersonChannel_ret:
  assumes "bolt_up bo" and "slotNum uid fs = Ret slot" and "fs_GetChannel bo js uid ChannelTypePerson fs = Ret info" and "bolt_ok bo"
  shows "\<exists>fs'. CreateOrUpdatePersonChannel bo js uid fs = Ret fs'"
proof -
  have slot: "slotNumForChannel uid t fs1 = Ret slot" if "fs_cfg fs1 = fs_cfg fs" for t fs1
    using assms(2) that by (simp add: slotNum_def slotNumForChannel_def)
  have "\<exists>fs1. (if info = None then AddOrUpdateChannel bo js (NewChannelInfo uid ChannelTypePerson) fs else Ret fs) = Ret fs1 \<and> fs_cfg fs1 = fs_cfg fs"
  proof -
    obtain fs1 where "fs_set bo slot (getChannelKey uid ChannelTypePerson) (js_encode js (ToMap (NewChannelInfo uid ChannelTypePerson))) fs = Ret fs1"
      using bolt_up_writes(1) [OF assms(1)] by blast
    with slot [of fs] fs_set_get(2) [OF assms(4) this] show ?thesis
      by (auto simp: AddOrUpdateChannel_def NewChannelInfo_def)
  qed
  then obtain fs1 where fs1: "(if info = None then AddOrUpdateChannel bo js (NewChannelInfo uid ChannelTypePerson) fs else Ret fs) = Ret fs1"
    "fs_cfg fs1 = fs_cfg fs" by blast
  obtain fs2 where "addList bo slot (getSubscribersKey uid ChannelTypePerson) [uid] fs1 = Ret fs2"
    using bolt_up_writes(1) [OF assms(1)] unfolding addList_def Let_def by blast
  with fs1 assms(3) slot [OF fs1(2)] show ?thesis
    by (auto simp: CreateOrUpdatePersonChannel_def ExistChannel_def mapR_def GetSubscribers_def AddSubscribers_store_def split: if_splits)
qed

lemma updateToken_answers:
  assumes "bolt_ok (bolt_of ev)" and up: "bolt_up (bolt_of ev)" and "ut_UID req \<noteq> []" and "ut_Token req \<noteq> []"
    and slot: "slotNum (ut_UID req) (ap_fs s) = Ret slot"
    and info: "fs_GetChannel (bolt_of ev) (json_of ev) (ut_UID req) ChannelTypePerson (ap_fs s) = Ret info"
    and "case info of None \<Rightarrow> True | Some i \<Rightarrow> \<not> ci_Ban i"
  shows "\<exists>s'. updateToken ev (Ret req) s = (Ret 200, s')"
proof -
  obtain fs1 where "fs_set (bolt_of ev) slot (getUserTokenKey (ut_UID req) (ut_DeviceFlag req))
      (js_encode (json_of ev) (JObject [(str ''device_level'', JString (dec (unat (ut_DeviceLevel req)))), (str ''token'', JString (ut_Token req))])) (ap_fs s) = Ret fs1"
    using bolt_up_writes(1) [OF up] by blast
  note set = this
  have u: "UpdateUserToken (bolt_of ev) (json_of ev) (ut_UID req) (ut_DeviceFlag req) (ut_DeviceLevel req) (ut_Token req) (ap_fs s) = Ret fs1"
    using set slot by (simp add: UpdateUserToken_def)
  have "fs_GetChannel (bolt_of ev) (json_of ev) (ut_UID req) ChannelTypePerson fs1 = Ret info"
    using info fs_set_get(1,2) [OF assms(1) set] token_key_apart(1) [symmetric] unfolding fs_GetChannel_def slotNumForChannel_def by simp
  moreover have "slotNum (ut_UID req) fs1 = Ret slot" using slot fs_set_get(2) [OF assms(1) set] by (simp add: slotNum_def)
  ultimately obtain fs2 where "CreateOrUpdatePersonChannel (bolt_of ev) (json_of ev) (ut_UID req) fs1 = Ret fs2"
    using CreateOrUpdatePersonChannel_ret [OF up] assms(1) by blast
  with u info assms(3,4,7) show ?thesis
    by (cases info; cases "ut_DeviceLevel req = DeviceLevelMaster") (auto simp: updateToken_def UpdateTokenReq_Check_def Let_def bindS_eq_Ret thenS_eq_Ret writeS_eq_Ret DeviceFlag_ToUint8_def)
qed

text \<open>Who is let in afterwards: whoever has the token, at the level that was set.\<close>

lemma token_decides:
  assumes "GetUserToken (bolt_of ev) (json_of ev) (con_UID cp) (con_DeviceFlag cp) fs = Ret (token, level)"
    and "con_UID cp \<noteq> op_ManagerUID (opts_of ev)" and "op_TokenAuthOn (opts_of ev)"
  shows "verify_token (ae_world ev) cp fs = Ret levels \<longleftrightarrow> token \<noteq> [] \<and> con_Token cp = token \<and> levels = (level, level)"
  using assms by (auto simp: verify_token_def Let_def DeviceFlag_ToUint8_def)

lemma quitUserDevice_token:
  assumes "bolt_ok (bolt_of ev)" and "json_ok (json_of ev)" and "bolt_up (bolt_of ev)" and "slotNum uid (ap_fs s) = Ret slot"
  shows "\<exists>s'. quitUserDevice ev uid flag s = (Ret (), s') \<and> slotNum uid (ap_fs s') = Ret slot \<and>
    (\<forall>flag'. GetUserToken (bolt_of ev) (json_of ev) uid flag' (ap_fs s') =
      (if flag' = flag then Ret ([], 1) else GetUserToken (bolt_of ev) (json_of ev) uid flag' (ap_fs s)))"
proof -
  obtain fs where fs: "UpdateUserToken (bolt_of ev) (json_of ev) uid flag 1 [] (ap_fs s) = Ret fs"
    using bolt_up_writes(1) [OF assms(3)] assms(4) unfolding UpdateUserToken_def by fastforce
  have cfg: "fs_cfg fs = fs_cfg (ap_fs s)"
    using fs assms(4) fs_set_get(2) [OF assms(1)] by (auto simp: UpdateUserToken_def)
  have run: "quitUserDevice ev uid flag s = (Ret (), map_server (disconnect_olds 2 [] (conns_of_device uid flag (set_fs fs s))) (set_fs fs s))"
    by (simp add: quitUserDevice_def Let_def thenS_def bindS_def writeS_def fs DeviceFlag_ToUint8_def)
  have "plain []" by (simp add: plain_def)
  note U = UpdateUserToken_ok [OF assms(1,2) this fs, of uid]
  show ?thesis using U assms(4) cfg unfolding run by (auto simp: slotNum_def)
qed

lemma deviceQuit_token:
  assumes "bolt_ok (bolt_of ev)" and "json_ok (json_of ev)" and "bolt_up (bolt_of ev)" and "slotNum uid (ap_fs s) = Ret slot"
    and "deviceQuit ev (Ret (uid, flag)) s = (r, s')" and "flag = - 1 \<and> f \<in> {APP, WEB, PC} \<or> flag \<noteq> - 1 \<and> f = ucast flag"
  shows "GetUserToken (bolt_of ev) (json_of ev) uid f (ap_fs s') = Ret ([], 1)" and "r = Ret ()"
proof -
  note Q = quitUserDevice_token [OF assms(1-3)]
  obtain s1 where s1: "quitUserDevice ev uid APP s = (Ret (), s1)" "slotNum uid (ap_fs s1) = Ret slot"
    "\<And>f. GetUserToken (bolt_of ev) (json_of ev) uid f (ap_fs s1) = (if f = APP then Ret ([], 1) else GetUserToken (bolt_of ev) (json_of ev) uid f (ap_fs s))"
    using Q [OF assms(4), of APP] by blast
  obtain s2 where s2: "quitUserDevice ev uid WEB s1 = (Ret (), s2)" "slotNum uid (ap_fs s2) = Ret slot"
    "\<And>f. GetUserToken (bolt_of ev) (json_of ev) uid f (ap_fs s2) = (if f = WEB then Ret ([], 1) else GetUserToken (bolt_of ev) (json_of ev) uid f (ap_fs s1))"
    using Q [OF s1(2), of WEB] by blast
  obtain s3 where s3: "quitUserDevice ev uid PC s2 = (Ret (), s3)"
    "\<And>f. GetUserToken (bolt_of ev) (json_of ev) uid f (ap_fs s3) = (if f = PC then Ret ([], 1) else GetUserToken (bolt_of ev) (json_of ev) uid f (ap_fs s2))"
    using Q [OF s2(2), of PC] by blast
  obtain s4 where s4: "quitUserDevice ev uid (ucast flag) s = (Ret (), s4)"
    "\<And>f. GetUserToken (bolt_of ev) (json_of ev) uid f (ap_fs s4) = (if f = ucast flag then Ret ([], 1) else GetUserToken (bolt_of ev) (json_of ev) uid f (ap_fs s))"
    using Q [OF assms(4), of "ucast flag"] by blast
  have "(r, s') = (if flag = - 1 then (Ret (), s3) else (Ret (), s4))"
    using assms(5) s1(1) s2(1) s3(1) s4(1) by (auto simp: deviceQuit_def bindS_def thenS_def liftR_def ignoreS_def)
  with assms(6) s1(3) s2(3) s3(2) s4(2) show "GetUserToken (bolt_of ev) (json_of ev) uid f (ap_fs s') = Ret ([], 1)" "r = Ret ()"
    by (auto split: if_splits)
qed

section \<open>Which addresses are blocked\<close>

text \<open>The addresses in memory are those of the store.\<close>

definition ips_agree :: "('d, 'l) app_env \<Rightarrow> ('d, 'l) app \<Rightarrow> bool" where
  "ips_agree ev s \<longleftrightarrow> names_ok (GetIPBlacklist (bolt_of ev) (ap_fs s)) \<and>
     dom (sv_ipBlacklist (ap_server s)) = set (GetIPBlacklist (bolt_of ev) (ap_fs s))"

lemma dom_ip_fold:
  "dom (fold (\<lambda>ip m. m(ip \<mapsto> 0)) ips m) = set ips \<union> dom m" "dom (fold (\<lambda>ip m. m(ip := None)) ips m) = dom m - set ips"
  by (induction ips arbitrary: m) auto

lemma ip_server [simp]:
  "dom (sv_ipBlacklist (sv_AddIPBlacklist ips sv)) = set ips \<union> dom (sv_ipBlacklist sv)" "sv_node (sv_AddIPBlacklist ips sv) = sv_node sv"
  "dom (sv_ipBlacklist (sv_RemoveIPBlacklist ips sv)) = dom (sv_ipBlacklist sv) - set ips" "sv_node (sv_RemoveIPBlacklist ips sv) = sv_node sv"
  by (simp_all add: sv_AddIPBlacklist_def sv_RemoveIPBlacklist_def dom_ip_fold)

lemma ipBlacklist_keeps:
  assumes "bolt_ok (bolt_of ev)" and "\<And>ips. body = Ret ips \<Longrightarrow> names_ok ips"
  shows "keeps (ips_agree ev) (ipBlacklistAdd ev body)" and "keeps (ips_agree ev) (ipBlacklistRemove ev body)"
proof -
  show "keeps (ips_agree ev) (ipBlacklistAdd ev body)"
  proof (rule keepsI)
    fix s r s' assume a: "ips_agree ev s" and run: "ipBlacklistAdd ev body s = (r, s')"
    show "ips_agree ev s'"
    proof (cases "\<exists>ips fs. body = Ret ips \<and> ips \<noteq> [] \<and> AddIPBlacklist (bolt_of ev) ips (ap_fs s) = Ret fs")
      case True
      then obtain ips fs where i: "body = Ret ips" "ips \<noteq> []" "AddIPBlacklist (bolt_of ev) ips (ap_fs s) = Ret fs" by blast
      then have "s' = map_server (sv_AddIPBlacklist ips) (set_fs fs s)"
        using run by (simp add: ipBlacklistAdd_def bindS_def thenS_def liftR_def checkS_def returnS_def writeS_def)
      with AddIPBlacklist_ok [OF assms(1) _ assms(2) [OF i(1)] i(3)] a show ?thesis by (simp add: ips_agree_def)
    next
      case False
      then have "s' = s" using run
        by (cases body) (auto simp: ipBlacklistAdd_def bindS_def thenS_def liftR_def checkS_def returnS_def writeS_def split: if_splits outcome.splits)
      with a show ?thesis by simp
    qed
  qed
  show "keeps (ips_agree ev) (ipBlacklistRemove ev body)"
  proof (rule keepsI)
    fix s r s' assume a: "ips_agree ev s" and run: "ipBlacklistRemove ev body s = (r, s')"
    show "ips_agree ev s'"
    proof (cases "\<exists>ips fs. body = Ret ips \<and> ips \<noteq> [] \<and> RemoveIPBlacklist (bolt_of ev) ips (ap_fs s) = Ret fs")
      case True
      then obtain ips fs where i: "body = Ret ips" "ips \<noteq> []" "RemoveIPBlacklist (bolt_of ev) ips (ap_fs s) = Ret fs" by blast
      then have s': "s' = map_server (sv_RemoveIPBlacklist ips) (set_fs fs s)"
        using run by (simp add: ipBlacklistRemove_def bindS_def thenS_def liftR_def checkS_def returnS_def writeS_def)
      have "GetIPBlacklist (bolt_of ev) fs = filter (\<lambda>v. v \<notin> set ips) (GetIPBlacklist (bolt_of ev) (ap_fs s))"
        by (rule RemoveIPBlacklist_ok [OF assms(1) _ i(3)]) (use a in \<open>simp add: ips_agree_def\<close>)
      with a s' show ?thesis by (auto simp: ips_agree_def)
    next
      case False
      then have "s' = s" using run
        by (cases body) (auto simp: ipBlacklistRemove_def bindS_def thenS_def liftR_def checkS_def returnS_def writeS_def split: if_splits outcome.splits)
      with a show ?thesis by simp
    qed
  qed
qed

text \<open>Starting, the requests, and the checks that count refused attempts.\<close>

inductive ips_administered :: "('d, 'l) app_env \<Rightarrow> ('d, 'l) app \<Rightarrow> ('d, 'l) app \<Rightarrow> bool" for ev s0 where
  start: "sv_ipBlacklist (ap_server s0) = Map.empty \<Longrightarrow> ips_administered ev s0 (map_server (initIPBlacklist (ae_world ev)) s0)"
| add: "ips_administered ev s0 s \<Longrightarrow> names_ok ips \<Longrightarrow> ipBlacklistAdd ev (Ret ips) s = (r, s') \<Longrightarrow> ips_administered ev s0 s'"
| remove: "ips_administered ev s0 s \<Longrightarrow> names_ok ips \<Longrightarrow> ipBlacklistRemove ev (Ret ips) s = (r, s') \<Longrightarrow> ips_administered ev s0 s'"
| check: "ips_administered ev s0 s \<Longrightarrow> ips_administered ev s0 (map_server (\<lambda>sv. snd (connIsAllow addr sv)) s)"

lemma connIsAllow_simps [simp]:
  "dom (sv_ipBlacklist (snd (connIsAllow addr sv))) = dom (sv_ipBlacklist sv)" "sv_node (snd (connIsAllow addr sv)) = sv_node sv"
  by (auto simp: connIsAllow_def AllowIP_def split: option.splits)

lemma ips_administered_agree:
  assumes "bolt_ok (bolt_of ev)" and "names_ok (GetIPBlacklist (bolt_of ev) (ap_fs s0))" and "ips_administered ev s0 s"
  shows "ips_agree ev s"
  using assms(3)
proof induction
  case start
  then show ?case using assms(2) by (simp add: ips_agree_def initIPBlacklist_def)
next
  case (add s ips r s')
  then show ?case using keepsD [OF ipBlacklist_keeps(1) [OF assms(1), of "Ret ips"]] by simp
next
  case (remove s ips r s')
  then show ?case using keepsD [OF ipBlacklist_keeps(2) [OF assms(1), of "Ret ips"]] by simp
qed (simp add: ips_agree_def)

lemma ips_decide:
  assumes "ips_agree ev s"
  shows "fst (connIsAllow (Some addr) (ap_server s)) \<longleftrightarrow> hd (split_on colon_sign addr) \<notin> set (GetIPBlacklist (bolt_of ev) (ap_fs s))"
  using assms by (auto simp: ips_agree_def connIsAllow_def AllowIP_def split: option.splits)

end
