(* ===== verification/ApiSamples.thy ===== *)
theory ApiSamples
  imports RuntimeSamples ChannelRequests UserApi
begin

text \<open>A server behind the HTTP interface, and a request that denies a user, for the instances of its properties.\<close>

definition api_env :: "(sample_db, (gostring \<times> Conversation) list) app_env" where
  "api_env = \<lparr>ae_world = sample_world\<lparr>wd_opts := sample_options\<rparr>, ae_conv = sample_conv_env\<rparr>"

definition sample_app :: "(sample_db, (gostring \<times> Conversation) list) app" where
  "sample_app = \<lparr>ap_server = pinged, ap_conv = sample_manager\<rparr>"

definition deny_request :: listReq where
  "deny_request = \<lparr>lq_ChannelID = [99], lq_ChannelType = 2, lq_UIDs = [[117]]\<rparr>"

lemma api_simps [simp]:
  "bolt_of api_env = sample_bolt" "opts_of api_env = sample_options" "ap_fs sample_app = sample_fs"
  "ap_channels sample_app = NewChannelManager" "lq_ChannelID deny_request = [99]" "lq_ChannelType deny_request = 2"
  "lq_UIDs deny_request = [[117]]"
  by (simp_all add: api_env_def sample_app_def pinged_def server_with_def sample_node_def sample_world_def deny_request_def)

lemma api_env_of: "env_of (ae_world api_env) nd = plain_env sample_bolt counting_codec sample_options empty_loader (nd_fs nd)"
  by (simp add: env_of_def api_env_def sample_world_def)

lemma api_env_up [simp]: "env_up api_env"
proof -
  have "bolt_up sample_bolt" by (simp add: bolt_up_def sample_bolt_def)
  then show ?thesis
    by (simp add: env_up_def sample_bolt_ok) (simp add: api_env_def sample_world_def loader_ok_def empty_loader_def)
qed

lemma sample_app_coherent [simp]: "coherent api_env sample_app"
proof -
  have "lists_ok sample_bolt sample_fs"
    by (simp add: lists_ok_def channel_list_ok_def sample_bolt_ok list_key_ok_def getList_def split_names_def)
  then show ?thesis
    by (simp add: coherent_def agrees_def) (simp add: NewChannelManager_def channels_ok_def cache_ok_def)
qed

lemma sample_tracked [simp]: "tracked sample_options kd ([99], 2)"
  by (simp add: tracked_def)

lemma sample_refused:
  "\<exists>s1 c s2. blacklistAdd api_env (Ret deny_request) sample_app = (Ret (), s1) \<and> ap_fs s1 = sample_denied \<and>
     getChannelS api_env [99] 2 s1 = (Ret (Some c), s2)"
proof -
  let ?s0 = "set_fs sample_denied sample_app"
  obtain c cs where g: "GetChannel (plain_env sample_bolt counting_codec sample_options empty_loader sample_denied) [99] 2 NewChannelManager =
      (Ret (Some c), cs)"
    using sample_loaded [of counting_codec sample_denied] by (auto simp: sample_lists)
  have get: "getChannelS api_env [99] 2 ?s0 = (Ret (Some c), map_channels (\<lambda>_. cs) ?s0)"
    using g by (simp add: getChannelS_def api_env_of)
  have "cm_channelCache cs (channelKey [99] 2) = Some c"
    by (rule GetChannel_cached [OF env_of_ok [OF api_env_up] g [folded api_env_of [of "ap_node ?s0", unfolded app_simps]]]) simp
  let ?s1 = "map_channels (change_channel sample_options [99] 2 (AddDenylist [[117]])) (map_channels (\<lambda>_. cs) ?s0)"
  have run: "blacklistAdd api_env (Ret deny_request) sample_app = (Ret (), ?s1)"
    by (simp add: blacklistAdd_def blacklistReq_Check_def bindS_def thenS_def liftR_def checkS_def returnS_def writeS_def updateS_def get changeS_def)
  have "cached_channel ([99], 2) ?s1 = Some (AddDenylist [[117]] c)"
    using \<open>cm_channelCache cs (channelKey [99] 2) = Some c\<close> by (simp add: cached_channel_def changed_cache(1) [OF sample_tracked])
  from tracked_cached [OF this, of api_env Deny] run show ?thesis by simp
qed

lemma sample_administered:
  "\<exists>s c. administered api_env sample_app s \<and> cm_channelCache (ap_channels s) (channelKey [99] 2) = Some c"
proof -
  obtain s1 c s2 where run: "blacklistAdd api_env (Ret deny_request) sample_app = (Ret (), s1)"
    and get: "getChannelS api_env [99] 2 s1 = (Ret (Some c), s2)" using sample_refused by blast
  have "administered api_env sample_app s1"
    by (rule administered.request [OF administered.start, of "BlacklistAddPost (Ret deny_request)"]) (simp_all add: run names_in_def names_ok_def)
  then have s2: "administered api_env sample_app s2" using get by (rule administered.fetch)
  obtain cs where cs: "GetChannel (env_of (ae_world api_env) (ap_node s1)) [99] 2 (ap_channels s1) = (Ret (Some c), cs)" "ap_channels s2 = cs"
    using get by (auto simp: getChannelS_def split: prod.splits)
  have "cm_channelCache cs (channelKey [99] 2) = Some c"
    by (rule GetChannel_cached [OF env_of_ok [OF api_env_up] cs(1)]) simp
  with s2 cs(2) show ?thesis by blast
qed

section \<open>Tokens and addresses\<close>

text \<open>A server that asks for tokens.\<close>

definition token_env :: "(sample_db, (gostring \<times> Conversation) list) app_env" where
  "token_env = \<lparr>ae_world = sample_world\<lparr>wd_opts := sample_options\<lparr>op_TokenAuthOn := True\<rparr>\<rparr>, ae_conv = sample_conv_env\<rparr>"

definition token_request :: UpdateTokenReq where
  "token_request = \<lparr>ut_UID = [117], ut_Token = [7], ut_DeviceFlag = 0, ut_DeviceLevel = 1\<rparr>"

lemma token_env_simps [simp]:
  "bolt_of token_env = sample_bolt" "json_of token_env = counting_codec" "op_TokenAuthOn (opts_of token_env)"
  "op_ManagerUID (opts_of token_env) = []"
  by (simp_all add: token_env_def sample_world_def sample_options_def)

lemma sample_up [simp]: "bolt_up sample_bolt" "bolt_ok sample_bolt" "json_ok counting_codec"
  by (simp_all add: sample_bolt_ok counting_codec_ok) (simp add: bolt_up_def sample_bolt_def)

lemma sample_no_channel [simp]: "fs_GetChannel sample_bolt js cid t sample_fs = Ret None"
  by (simp add: fs_GetChannel_def)

lemma sample_ips: "GetIPBlacklist sample_bolt sample_fs = []" "hd (split_on colon_sign [49, colon_sign, 50]) = [49]"
  by (simp add: GetIPBlacklist_def root_get_def sample_bolt_def sample_fs_def split_names_def) code_simp

text \<open>An address is blocked, and somebody tries to connect from it.\<close>

lemma sample_blocked: "\<exists>s. ips_administered token_env sample_app s \<and> set (GetIPBlacklist sample_bolt (ap_fs s)) = {[49]}"
proof -
  let ?s0 = "map_server (initIPBlacklist (ae_world token_env)) sample_app"
  have init: "sv_node (initIPBlacklist w sv) = sv_node sv" for w and sv :: "sample_db server" by (simp add: initIPBlacklist_def)
  obtain fs where fs: "AddIPBlacklist sample_bolt [[49]] sample_fs = Ret fs"
    by (auto simp: AddIPBlacklist_def Let_def root_put_def with_db_def mapR_def sample_bolt_def)
  have run: "ipBlacklistAdd token_env (Ret [[49]]) ?s0 = (Ret (), map_server (sv_AddIPBlacklist [[49]]) (set_fs fs ?s0))"
    by (simp add: ipBlacklistAdd_def bindS_def thenS_def liftR_def checkS_def returnS_def writeS_def init fs)
  have "ips_administered token_env sample_app ?s0"
    by (rule ips_administered.start) (simp add: sample_app_def pinged_def)
  then have "ips_administered token_env sample_app (map_server (sv_AddIPBlacklist [[49]]) (set_fs fs ?s0))"
    by (rule ips_administered.add [OF _ _ run]) (simp add: names_ok_def)
  moreover have "set (GetIPBlacklist sample_bolt fs) = {[49]}"
    using AddIPBlacklist_ok(1) [OF sample_bolt_ok _ _ fs] by (simp add: sample_ips names_ok_def)
  moreover have "ap_fs (map_server (sv_AddIPBlacklist [[49]]) (set_fs fs ?s0)) = fs" by simp
  ultimately show ?thesis by metis
qed

end
