(* ===== verification/MessageResp.thy ===== *)
theory MessageResp
  imports Sending
begin

text \<open>
  The form in which messages leave the server over HTTP (\<open>MessageResp\<close> of \<^verbatim>\<open>internal/server/model.go\<close>).
\<close>

record MessageHeader =
  mh_NoPersist :: int
  mh_RedDot :: int
  mh_SyncOnce :: int

definition BoolToInt :: "bool \<Rightarrow> int" where
  "BoolToInt b = (if b then 1 else 0)"

definition IntToBool :: "int \<Rightarrow> bool" where
  "IntToBool b \<longleftrightarrow> b = 1"

record StreamItemResp =
  sir_StreamSeq :: u32
  sir_ClientMsgNo :: gostring
  sir_Blob :: bytes

definition newStreamItemResp :: "StreamItem \<Rightarrow> StreamItemResp" where
  "newStreamItemResp m = \<lparr>sir_StreamSeq = si_StreamSeq m, sir_ClientMsgNo = si_ClientMsgNo m, sir_Blob = si_Blob m\<rparr>"

record MessageResp =
  mr_Header :: MessageHeader
  mr_Setting :: u8
  mr_MessageID :: i64
  mr_MessageIDStr :: gostring
  mr_ClientMsgNo :: gostring
  mr_StreamNo :: gostring
  mr_StreamSeq :: u32
  mr_StreamFlag :: u8
  mr_MessageSeq :: u32
  mr_FromUID :: gostring
  mr_ChannelID :: gostring
  mr_ChannelType :: u8
  mr_Topic :: gostring
  mr_Expire :: u32
  mr_Timestamp :: i32
  mr_Payload :: bytes
  mr_Streams :: "StreamItemResp list"

text \<open>For a channel of two persons, the one who is not the sender: the last that differs.\<close>

definition realChannelID :: "RecvPacket \<Rightarrow> gostring" where
  "realChannelID r =
     (if rcv_ChannelType r = ChannelTypePerson \<and> at_sign \<in> set (rcv_ChannelID r)
      then fold (\<lambda>channelID real. if rcv_FromUID r \<noteq> channelID then channelID else real)
        (split_on at_sign (rcv_ChannelID r)) (rcv_ChannelID r)
      else rcv_ChannelID r)"

text \<open>Without a store: no items of streams.\<close>

definition resp_of :: "message \<Rightarrow> MessageResp" where
  "resp_of m = (let r = msg_RecvPacket m; f = rcv_Framer r in
     \<lparr>mr_Header = \<lparr>mh_NoPersist = BoolToInt (NoPersist f), mh_RedDot = BoolToInt (RedDot f), mh_SyncOnce = BoolToInt (SyncOnce f)\<rparr>,
      mr_Setting = rcv_Setting r, mr_MessageID = rcv_MessageID r, mr_MessageIDStr = dec_int (sint (rcv_MessageID r)),
      mr_ClientMsgNo = rcv_ClientMsgNo r, mr_StreamNo = rcv_StreamNo r, mr_StreamSeq = rcv_StreamSeq r,
      mr_StreamFlag = rcv_StreamFlag r, mr_MessageSeq = rcv_MessageSeq r, mr_FromUID = rcv_FromUID r,
      mr_ChannelID = realChannelID r, mr_ChannelType = rcv_ChannelType r, mr_Topic = rcv_Topic r,
      mr_Expire = rcv_Expire r, mr_Timestamp = rcv_Timestamp r, mr_Payload = rcv_Payload r, mr_Streams = []\<rparr>)"

text \<open>With the store, the items of the message's stream are added; the streams are those of the fake channel
  of sender and channel whatever the channel's type is. An error is logged.\<close>

definition resp_from :: "'d world \<Rightarrow> message \<Rightarrow> 'd node \<Rightarrow> MessageResp outcome \<times> 'd node" where
  "resp_from w m nd =
     (let r = msg_RecvPacket m; resp = resp_of m; no = rcv_StreamNo r; cid = GetFakeChannelIDWith (rcv_FromUID r) (rcv_ChannelID r);
          ss = nd_dirs nd (topicName cid (rcv_ChannelType r)) in
      if blank no then (Ret resp, nd)
      else case GetStreamItems (fs_cfg (nd_fs nd)) (wd_evicted w ss no) cid (rcv_ChannelType r) no (fs_msgs (nd_fs nd), nd_dirs nd) of
          Panic \<Rightarrow> (Panic, nd)
        | Fail _ \<Rightarrow> (Ret resp, nd)
        | Ret (res, msgs, dirs) \<Rightarrow>
            (case res of Panic \<Rightarrow> Panic | Fail _ \<Rightarrow> Ret resp | Ret items \<Rightarrow> Ret (resp\<lparr>mr_Streams := map newStreamItemResp items\<rparr>),
             nd\<lparr>nd_fs := (nd_fs nd)\<lparr>fs_msgs := msgs\<rparr>, nd_dirs := dirs\<rparr>))"

fun resps_from :: "'d world \<Rightarrow> message list \<Rightarrow> 'd node \<Rightarrow> MessageResp list outcome \<times> 'd node" where
  "resps_from w [] nd = (Ret [], nd)"
| "resps_from w (m # ms) nd =
     (case resp_from w m nd of
        (Ret resp, nd) \<Rightarrow> (let (rs, nd) = resps_from w ms nd in (mapR ((#) resp) rs, nd))
      | (Fail e, nd) \<Rightarrow> (Fail e, nd)
      | (Panic, nd) \<Rightarrow> (Panic, nd))"

lemma resps_plain:
  assumes "\<forall>m \<in> set ms. blank (rcv_StreamNo (msg_RecvPacket m))"
  shows "resps_from w ms nd = (Ret (map resp_of ms), nd)"
  using assms by (induction ms) (simp_all add: resp_from_def mapR_def)

end
