(* ===== verification/MessageApi.thy ===== *)
theory MessageApi
  imports ApiBase MessageResp
begin

text \<open>
  The HTTP interface to messages, \<^verbatim>\<open>internal/server/api_message.go\<close>: sending from the
  application, one message or a batch, the start and the end of a stream, and the queue of a user (the
  messages that are synchronised once). Identifiers that \<open>GenUUID\<close> makes are arguments. The loops that
  look for subscribers and that read a topic may not end: then the result is \<open>None\<close>.
\<close>

section \<open>Handlers that may not end\<close>

type_synonym ('s, 'a) looper = "'s \<Rightarrow> ('a outcome \<times> 's) option"

definition doL :: "('s, 'a) handler \<Rightarrow> ('s, 'a) looper" where
  "doL m s = Some (m s)"

definition bindL :: "('s, 'a) looper \<Rightarrow> ('a \<Rightarrow> ('s, 'b) looper) \<Rightarrow> ('s, 'b) looper" where
  "bindL m f s = (case m s of
       None \<Rightarrow> None
     | Some (Ret x, s) \<Rightarrow> f x s
     | Some (Fail e, s) \<Rightarrow> Some (Fail e, s)
     | Some (Panic, s) \<Rightarrow> Some (Panic, s))"

text \<open>The error of an operation is logged and another one returned.\<close>

definition sayL :: "string \<Rightarrow> ('s, 'a) looper \<Rightarrow> ('s, 'a) looper" where
  "sayL msg m s = map_option (\<lambda>(r, s). (case r of Fail _ \<Rightarrow> Fail (ErrMsg msg) | r \<Rightarrow> r, s)) (m s)"

definition nodeL :: "('d node, 'a) looper \<Rightarrow> (('d, 'l) app, 'a) looper" where
  "nodeL m s = map_option (\<lambda>(r, nd). (r, map_node (\<lambda>_. nd) s)) (m (ap_node s))"

section \<open>Requests\<close>

record MessageSendReq =
  mq_Header :: MessageHeader
  mq_ClientMsgNo :: gostring
  mq_StreamNo :: gostring
  mq_FromUID :: gostring
  mq_ChannelID :: gostring
  mq_ChannelType :: u8
  mq_Expire :: u32
  mq_Subscribers :: "gostring list"
  mq_Payload :: bytes

definition MessageSendReq_Check :: "MessageSendReq \<Rightarrow> ('s, unit) handler" where
  "MessageSendReq_Check m = checkS (length (mq_Payload m) \<le> 0) ''payload must not be empty''"

record syncReq =
  yq_UID :: gostring
  yq_MessageSeq :: u32
  yq_Limit :: int

definition syncReq_Check :: "syncReq \<Rightarrow> ('s, unit) handler" where
  "syncReq_Check r =
     thenS (checkS (blank (yq_UID r)) ''the uid must not be empty'')
       (checkS (yq_Limit r < 0) ''the limit must not be negative'')"

record syncackReq =
  ya_UID :: gostring
  ya_LastMessageSeq :: u32

definition syncackReq_Check :: "syncackReq \<Rightarrow> ('s, unit) handler" where
  "syncackReq_Check r =
     thenS (checkS (blank (ya_UID r)) ''the uid must not be empty'')
       (checkS (ya_LastMessageSeq r = 0) ''the last messageSeq must not be 0'')"

section \<open>Sending\<close>

definition fake_channel :: "gostring \<Rightarrow> gostring \<Rightarrow> u8 \<Rightarrow> gostring" where
  "fake_channel fromUID channelID channelType =
     (if channelType = ChannelTypePerson \<and> fromUID \<noteq> [] then GetFakeChannelIDWith fromUID channelID else channelID)"

definition message_of_req :: "'d world \<Rightarrow> MessageSendReq \<Rightarrow> i64 \<Rightarrow> gostring \<Rightarrow> u8 \<Rightarrow> gostring \<Rightarrow> u8 \<Rightarrow> message" where
  "message_of_req w req messageID channelID channelType clientMsgNo streamFlag = empty_message
     \<lparr>msg_RecvPacket := empty_recv
        \<lparr>rcv_Framer := empty_framer\<lparr>RedDot := IntToBool (mh_RedDot (mq_Header req)),
           SyncOnce := IntToBool (mh_SyncOnce (mq_Header req)), NoPersist := IntToBool (mh_NoPersist (mq_Header req))\<rparr>,
         rcv_Setting := (if \<not> blank (mq_StreamNo req) then Setting_Set 0 SettingStream else 0),
         rcv_MessageID := messageID, rcv_ClientMsgNo := clientMsgNo, rcv_StreamNo := mq_StreamNo req,
         rcv_StreamFlag := streamFlag, rcv_FromUID := mq_FromUID req, rcv_ChannelID := channelID,
         rcv_ChannelType := channelType, rcv_Expire := mq_Expire req, rcv_Timestamp := wd_now w,
         rcv_Payload := mq_Payload req\<rparr>,
      msg_fromDeviceFlag := SYSTEM,
      msg_Subscribers := (if length (mq_Subscribers req) > 0 then RemoveRepeatedElement (mq_Subscribers req) else mq_Subscribers req)\<rparr>"

text \<open>The message is stored: an item of a stream in the stream, any other in the channel's topic, which numbers it.\<close>

definition persistent :: "options \<Rightarrow> gostring \<Rightarrow> message \<Rightarrow> bool" where
  "persistent opts channelID msg \<longleftrightarrow> (let f = rcv_Framer (msg_RecvPacket msg) in
     \<not> NoPersist f \<and> \<not> SyncOnce f \<and> \<not> IsTmpChannel opts channelID)"

definition store_item :: "'d world \<Rightarrow> gostring \<Rightarrow> u8 \<Rightarrow> message \<Rightarrow> ('d node, message) handler" where
  "store_item w fakeChannelID channelType msg nd =
     (let r = msg_RecvPacket msg; no = rcv_StreamNo r in
      case AppendStreamItem (fs_cfg (nd_fs nd)) (wd_evicted w (nd_dirs nd (topicName fakeChannelID channelType)) no) fakeChannelID
          channelType no \<lparr>si_ClientMsgNo = rcv_ClientMsgNo r, si_StreamSeq = 0, si_Blob = rcv_Payload r\<rparr>
          (fs_msgs (nd_fs nd), nd_dirs nd) of
        Ret (streamSeq, msgs, dirs) \<Rightarrow>
          (Ret (msg\<lparr>msg_RecvPacket := r\<lparr>rcv_StreamSeq := streamSeq\<rparr>\<rparr>), nd\<lparr>nd_fs := (nd_fs nd)\<lparr>fs_msgs := msgs\<rparr>, nd_dirs := dirs\<rparr>)
      | Fail _ \<Rightarrow> (Fail (ErrMsg ''failed to save stream message''), nd)
      | Panic \<Rightarrow> (Panic, nd))"

definition store_history :: "gostring \<Rightarrow> u8 \<Rightarrow> message \<Rightarrow> ('d node, message) handler" where
  "store_history fakeChannelID channelType msg nd =
     (let (res, stored, msgs) = AppendMessages (fs_cfg (nd_fs nd)) fakeChannelID channelType [msg] (fs_msgs (nd_fs nd));
          nd = nd\<lparr>nd_fs := (nd_fs nd)\<lparr>fs_msgs := msgs\<rparr>\<rparr> in
      (case res of Ret _ \<Rightarrow> Ret (hd stored) | Fail _ \<Rightarrow> Fail (ErrMsg ''failed to save history message'') | Panic \<Rightarrow> Panic, nd))"

definition store_message :: "'d world \<Rightarrow> gostring \<Rightarrow> gostring \<Rightarrow> u8 \<Rightarrow> message \<Rightarrow> ('d node, message) handler" where
  "store_message w channelID fakeChannelID channelType msg =
     (if \<not> persistent (wd_opts w) channelID msg then returnS msg
      else if StreamIng msg then store_item w fakeChannelID channelType msg
      else store_history fakeChannelID channelType msg)"

definition notify_message :: "'d world \<Rightarrow> message \<Rightarrow> ('d node, unit) handler" where
  "notify_message w msg nd =
     (let f = rcv_Framer (msg_RecvPacket msg) in
      if WebhookOn (wd_opts w) \<and> \<not> StreamIng msg \<and> (\<not> NoPersist f \<or> \<not> SyncOnce f)
      then case AppendMessageOfNotifyQueue (wd_bolt w) [msg] (nd_fs nd) of
          Ret fs \<Rightarrow> (Ret (), nd\<lparr>nd_fs := fs\<rparr>)
        | Fail _ \<Rightarrow> (Fail (ErrMsg ''failed to put the message to the notify queue''), nd)
        | Panic \<Rightarrow> (Panic, nd)
      else (Ret (), nd))"

definition node_channel :: "'d world \<Rightarrow> gostring \<Rightarrow> u8 \<Rightarrow> ('d node, channel option) handler" where
  "node_channel w channelID channelType nd =
     (let (r, cs) = GetChannel (env_of w nd) channelID channelType (nd_channels nd) in (r, nd\<lparr>nd_channels := cs\<rparr>))"

definition put_message :: "'d world \<Rightarrow> channel \<Rightarrow> gostring \<Rightarrow> message \<Rightarrow> ('d node, i64 \<times> u32) looper" where
  "put_message w c fromUID msg =
     bindL (doL (store_message w (rcv_ChannelID (msg_RecvPacket msg))
       (fake_channel fromUID (rcv_ChannelID (msg_RecvPacket msg)) (rcv_ChannelType (msg_RecvPacket msg)))
       (rcv_ChannelType (msg_RecvPacket msg)) msg)) (\<lambda>msg.
     bindL (doL (notify_message w msg)) (\<lambda>_.
     bindL (sayL ''failed to put the message to the channel''
       (channel_Put w c [msg] (msg_Subscribers msg) fromUID DeviceLevelMaster (str ''system''))) (\<lambda>_.
     doL (returnS (GetMessageID msg, GetSeq msg)))))"

definition sendMessageToChannel ::
    "'d world \<Rightarrow> MessageSendReq \<Rightarrow> gostring \<Rightarrow> u8 \<Rightarrow> gostring \<Rightarrow> u8 \<Rightarrow> ('d node, i64 \<times> u32) looper" where
  "sendMessageToChannel w req channelID channelType clientMsgNo streamFlag nd =
     (let (messageID, nd) = genMessageID w nd in
      bindL (sayL ''the channel cannot be found'' (doL (node_channel w (fake_channel (mq_FromUID req) channelID channelType) channelType)))
        (\<lambda>channel. case channel of
            None \<Rightarrow> doL (liftR (Fail (ErrMsg ''the channel does not exist'')))
          | Some c \<Rightarrow>
              if ci_Large (ch_Info c) \<and> mh_SyncOnce (mq_Header req) = 1
              then doL (liftR (Fail (ErrMsg ''a large group does not take a SyncOnce message'')))
              else put_message w c (mq_FromUID req) (message_of_req w req messageID channelID channelType clientMsgNo streamFlag))
        nd)"

record send_resp =
  sd_message_id :: i64
  sd_client_msg_no :: gostring
  sd_message_seq :: u32

text \<open>A message without a channel but with subscribers gets a temporary channel of its own.\<close>

definition send :: "('d, 'l) app_env \<Rightarrow> gostring \<Rightarrow> gostring \<Rightarrow> MessageSendReq outcome \<Rightarrow> (('d, 'l) app, send_resp) looper" where
  "send ev uuid1 uuid2 body =
     bindL (doL (liftR body)) (\<lambda>req.
     bindL (doL (MessageSendReq_Check req)) (\<lambda>_.
       let tmp = blank (mq_ChannelID req) \<and> length (mq_Subscribers req) > 0;
           channelID = (if tmp then uuid1 @ op_TmpChannelSuffix (opts_of ev) else mq_ChannelID req);
           channelType = (if tmp then ChannelTypeGroup else mq_ChannelType req);
           clientMsgNo = (if blank (mq_ClientMsgNo req) then uuid2 @ str ''0'' else mq_ClientMsgNo req) in
       bindL (doL (whenS tmp (\<lambda>s. (Ret (), map_channels (CreateTmpChannel channelID channelType (mq_Subscribers req)) s)))) (\<lambda>_.
       bindL (doL (checkS (blank channelID) ''the request cannot be processed'')) (\<lambda>_.
       bindL (nodeL (sendMessageToChannel (ae_world ev) req channelID channelType clientMsgNo StreamFlagIng)) (\<lambda>(messageID, messageSeq).
       doL (returnS \<lparr>sd_message_id = messageID, sd_client_msg_no = clientMsgNo, sd_message_seq = messageSeq\<rparr>))))))"

record batchReq =
  bq_Header :: MessageHeader
  bq_FromUID :: gostring
  bq_Subscribers :: "gostring list"
  bq_Payload :: bytes

definition req_of_batch :: "batchReq \<Rightarrow> gostring \<Rightarrow> MessageSendReq" where
  "req_of_batch req subscriber = \<lparr>mq_Header = bq_Header req, mq_ClientMsgNo = [], mq_StreamNo = [], mq_FromUID = bq_FromUID req,
     mq_ChannelID = subscriber, mq_ChannelType = ChannelTypePerson, mq_Expire = 0, mq_Subscribers = [], mq_Payload = bq_Payload req\<rparr>"

fun send_each :: "('d, 'l) app_env \<Rightarrow> batchReq \<Rightarrow> (nat \<Rightarrow> gostring) \<Rightarrow> nat \<Rightarrow> gostring list \<Rightarrow>
    (gostring \<times> go_error) list \<Rightarrow> (('d, 'l) app, (gostring \<times> go_error) list) looper" where
  "send_each ev req uuid i [] fails s = Some (Ret fails, s)"
| "send_each ev req uuid i (u # us) fails s =
     (case nodeL (sendMessageToChannel (ae_world ev) (req_of_batch req u) u ChannelTypePerson (uuid i @ str ''0'') StreamFlagIng) s of
        None \<Rightarrow> None
      | Some (Ret _, s) \<Rightarrow> send_each ev req uuid (Suc i) us fails s
      | Some (Fail e, s) \<Rightarrow> send_each ev req uuid (Suc i) us (fails @ [(u, e)]) s
      | Some (Panic, s) \<Rightarrow> Some (Panic, s))"

definition sendBatch :: "('d, 'l) app_env \<Rightarrow> (nat \<Rightarrow> gostring) \<Rightarrow> batchReq outcome \<Rightarrow> (('d, 'l) app, (gostring \<times> go_error) list) looper" where
  "sendBatch ev uuid body =
     bindL (doL (liftR body)) (\<lambda>req.
     bindL (doL (checkS (blank (bq_FromUID req)) ''from_uid must not be empty'')) (\<lambda>_.
     bindL (doL (checkS (length (bq_Subscribers req) = 0) ''subscribers must not be empty'')) (\<lambda>_.
     bindL (doL (checkS (length (bq_Payload req) = 0) ''payload must not be empty'')) (\<lambda>_.
     send_each ev req uuid 0 (bq_Subscribers req) []))))"

section \<open>Streams\<close>

record streamStartReq =
  ts_Header :: MessageHeader
  ts_ClientMsgNo :: gostring
  ts_FromUID :: gostring
  ts_ChannelID :: gostring
  ts_ChannelType :: u8
  ts_Payload :: bytes

text \<open>The metadata go to the streams of the channel that the request names.\<close>

definition SaveStreamMeta :: "'d world \<Rightarrow> StreamMeta \<Rightarrow> ('d node, unit) handler" where
  "SaveStreamMeta w meta nd =
     (case getTopic (fs_cfg (nd_fs nd)) (sm_ChannelID meta) (sm_ChannelType meta) (fs_msgs (nd_fs nd)) of
        Ret (_, name, _, msgs) \<Rightarrow>
          let ss = nd_dirs nd name in
          (Ret (), nd\<lparr>nd_fs := (nd_fs nd)\<lparr>fs_msgs := msgs\<rparr>,
             nd_dirs := (nd_dirs nd)(name := saveStreamMeta (wd_evicted w ss (sm_StreamNo meta)) (wd_json w) meta ss)\<rparr>)
      | _ \<Rightarrow> (Panic, nd))"

definition GetStreamMeta :: "'d world \<Rightarrow> gostring \<Rightarrow> u8 \<Rightarrow> gostring \<Rightarrow> ('d node, StreamMeta option) handler" where
  "GetStreamMeta w channelID channelType streamNo nd =
     (case getTopic (fs_cfg (nd_fs nd)) channelID channelType (fs_msgs (nd_fs nd)) of
        Ret (_, name, _, msgs) \<Rightarrow>
          let ss = nd_dirs nd name; (r, ss) = readStreamMeta (wd_evicted w ss streamNo) (wd_json w) streamNo ss in
          (r, nd\<lparr>nd_fs := (nd_fs nd)\<lparr>fs_msgs := msgs\<rparr>, nd_dirs := (nd_dirs nd)(name := ss)\<rparr>)
      | _ \<Rightarrow> (Panic, nd))"

definition req_of_start :: "streamStartReq \<Rightarrow> gostring \<Rightarrow> gostring \<Rightarrow> MessageSendReq" where
  "req_of_start req clientMsgNo streamNo = \<lparr>mq_Header = ts_Header req, mq_ClientMsgNo = clientMsgNo, mq_StreamNo = streamNo,
     mq_FromUID = ts_FromUID req, mq_ChannelID = ts_ChannelID req, mq_ChannelType = ts_ChannelType req, mq_Expire = 0,
     mq_Subscribers = [], mq_Payload = ts_Payload req\<rparr>"

definition streamMessageStart ::
    "('d, 'l) app_env \<Rightarrow> gostring \<Rightarrow> gostring \<Rightarrow> streamStartReq outcome \<Rightarrow> (('d, 'l) app, gostring) looper" where
  "streamMessageStart ev uuid streamNo body =
     bindL (doL (liftR body)) (\<lambda>req.
     bindL (doL (checkS (blank (ts_ChannelID req)) ''the request cannot be processed'')) (\<lambda>_.
       let clientMsgNo = (if blank (ts_ClientMsgNo req) then uuid @ str ''0'' else ts_ClientMsgNo req) in
       bindL (nodeL (sendMessageToChannel (ae_world ev) (req_of_start req clientMsgNo streamNo) (ts_ChannelID req) (ts_ChannelType req)
         clientMsgNo StreamFlagStart)) (\<lambda>(messageID, messageSeq).
       bindL (nodeL (doL (SaveStreamMeta (ae_world ev) \<lparr>sm_StreamNo = streamNo, sm_MessageID = messageID,
         sm_ChannelID = ts_ChannelID req, sm_ChannelType = ts_ChannelType req, sm_MessageSeq = messageSeq,
         sm_StreamFlag = StreamFlagStart\<rparr>))) (\<lambda>_.
       doL (returnS streamNo)))))"

record streamEndReq =
  te_StreamNo :: gostring
  te_ChannelID :: gostring
  te_ChannelType :: u8

definition streamMessageEnd :: "('d, 'l) app_env \<Rightarrow> streamEndReq outcome \<Rightarrow> (('d, 'l) app, unit) looper" where
  "streamMessageEnd ev body =
     bindL (doL (liftR body)) (\<lambda>req.
     bindL (nodeL (doL (GetStreamMeta (ae_world ev) (te_ChannelID req) (te_ChannelType req) (te_StreamNo req)))) (\<lambda>streamMeta.
       case streamMeta of
         None \<Rightarrow> doL (liftR (Fail (ErrMsg ''the metadata of the stream do not exist'')))
       | Some meta \<Rightarrow> nodeL (doL (SaveStreamMeta (ae_world ev) (meta\<lparr>sm_StreamFlag := StreamFlagEnd\<rparr>)))))"

section \<open>The queue of a user\<close>

definition start_seq :: "u32 \<Rightarrow> u32 \<Rightarrow> u32" where
  "start_seq messageSeq readed =
     (if messageSeq \<le> 0 then readed else if messageSeq < readed then messageSeq else readed) + 1"

definition loadL :: "(storeConfig \<Rightarrow> message_store \<Rightarrow> loaded) \<Rightarrow> (('d, 'l) app, message list) looper" where
  "loadL f s = map_option (\<lambda>(r, msgs). (r, set_fs ((ap_fs s)\<lparr>fs_msgs := msgs\<rparr>) s)) (f (fs_cfg (ap_fs s)) (fs_msgs (ap_fs s)))"

definition respsL :: "('d, 'l) app_env \<Rightarrow> message list \<Rightarrow> (('d, 'l) app, MessageResp list) looper" where
  "respsL ev messages = nodeL (doL (resps_from (ae_world ev) messages))"

definition sync :: "('d, 'l) app_env \<Rightarrow> syncReq outcome \<Rightarrow> (('d, 'l) app, MessageResp list) looper" where
  "sync ev body =
     bindL (doL (liftR body)) (\<lambda>req.
     bindL (doL (syncReq_Check req)) (\<lambda>_.
     bindL (doL (readS (GetMessageOfUserCursor (bolt_of ev) (yq_UID req)))) (\<lambda>readed.
     bindL (loadL (\<lambda>cfg. SyncMessageOfUser cfg (yq_UID req) (start_seq (yq_MessageSeq req) readed) (nat (yq_Limit req))))
       (respsL ev))))"

definition syncack :: "('d, 'l) app_env \<Rightarrow> syncackReq outcome \<Rightarrow> (('d, 'l) app, unit) handler" where
  "syncack ev body =
     bindS (liftR (case body of Fail _ \<Rightarrow> Fail (ErrMsg ''wrong data format'') | b \<Rightarrow> b)) (\<lambda>req.
     thenS (syncackReq_Check req)
       (writeS (UpdateMessageOfUserCursorIfNeed (bolt_of ev) (ya_UID req) (ya_LastMessageSeq req))))"

section \<open>The messages of a channel\<close>

text \<open>\<open>syncMessages\<close> of \<^verbatim>\<open>api_channel.go\<close>. A limit below zero makes the allocation of the result
  panic; it comes after the test of the start in \<open>LoadPrevRangeMsgs\<close>.\<close>

datatype PullMode = PullModeDown | PullModeUp | PullModeOther

record syncMessagesReq =
  sm_LoginUID :: gostring
  sm_Channel :: gostring
  sm_Type :: u8
  sm_Start :: u32
  sm_End :: u32
  sm_Limit :: int
  sm_PullMode :: PullMode

record syncMessageResp =
  sp_StartMessageSeq :: u32
  sp_EndMessageSeq :: u32
  sp_More :: int
  sp_Messages :: "MessageResp list"

definition limitL :: "int \<Rightarrow> (nat \<Rightarrow> ('s, 'a) looper) \<Rightarrow> ('s, 'a) looper" where
  "limitL limit f = (if limit < 0 then doL (liftR Panic) else f (nat limit))"

definition load_range :: "syncMessagesReq \<Rightarrow> gostring \<Rightarrow> int \<Rightarrow> (('d, 'l) app, message list) looper" where
  "load_range req cid limit =
     (if sm_Start req = 0 \<and> sm_End req = 0
      then limitL limit (\<lambda>n. loadL (\<lambda>cfg. LoadLastMsgs cfg cid (sm_Type req) n))
      else if sm_PullMode req = PullModeUp
      then limitL limit (\<lambda>n. loadL (\<lambda>cfg. LoadNextRangeMsgs cfg cid (sm_Type req) (sm_Start req) (sm_End req) n))
      else if sm_Start req = 0
      then loadL (\<lambda>cfg. LoadPrevRangeMsgs cfg cid (sm_Type req) 0 (sm_End req) 0)
      else limitL limit (\<lambda>n. loadL (\<lambda>cfg. LoadPrevRangeMsgs cfg cid (sm_Type req) (sm_Start req) (sm_End req) n)))"

definition more_of :: "syncMessagesReq \<Rightarrow> int \<Rightarrow> MessageResp list \<Rightarrow> bool" where
  "more_of req limit resps =
     (let more = \<not> int (length resps) < limit in
      if length resps > 0 then
        if sm_PullMode req = PullModeDown
        then if sm_End req \<noteq> 0 \<and> sm_End req = mr_MessageSeq (hd resps) then False else more
        else if sm_End req \<noteq> 0 \<and> sm_End req = mr_MessageSeq (last resps) then False else more
      else more)"

definition syncMessages :: "('d, 'l) app_env \<Rightarrow> syncMessagesReq outcome \<Rightarrow> (('d, 'l) app, syncMessageResp) looper" where
  "syncMessages ev body =
     bindL (doL (liftR (case body of Fail _ \<Rightarrow> Fail (ErrMsg ''wrong data format'') | b \<Rightarrow> b))) (\<lambda>req.
       let limit = (if sm_Limit req > 10000 then 10000 else sm_Limit req);
           cid = (if sm_Type req = ChannelTypePerson then GetFakeChannelIDWith (sm_LoginUID req) (sm_Channel req) else sm_Channel req) in
       bindL (load_range req cid limit) (\<lambda>messages.
       bindL (respsL ev messages) (\<lambda>resps.
       doL (returnS \<lparr>sp_StartMessageSeq = sm_Start req, sp_EndMessageSeq = sm_End req,
         sp_More = BoolToInt (more_of req limit resps), sp_Messages = resps\<rparr>))))"

end
