(* ===== verification/ConversationApi.thy ===== *)
theory ConversationApi
  imports MessageApi
begin

text \<open>
  The HTTP interface to conversations, \<^verbatim>\<open>internal/server/api_conversation.go\<close>: the list, the
  count of unread messages, deletion, and the synchronisation of a client with its conversations and their
  latest messages.
\<close>

section \<open>The conversation manager\<close>

text \<open>An operation of the manager that returns a value.\<close>

definition askC :: "(('d, 'l) convmanager \<Rightarrow> 'a outcome \<times> ('d, 'l) convmanager) \<Rightarrow> (('d, 'l) app, 'a) handler" where
  "askC f s = (let (r, cv) = f ((ap_conv s)\<lparr>cv_fs := ap_fs s\<rparr>) in (r, set_fs (cv_fs cv) (s\<lparr>ap_conv := cv\<rparr>)))"

definition blank_conversation :: "gostring \<Rightarrow> gostring \<Rightarrow> u8 \<Rightarrow> u32 \<Rightarrow> Conversation" where
  "blank_conversation uid channelID channelType messageSeq =
     \<lparr>cv_UID = uid, cv_ChannelID = channelID, cv_ChannelType = channelType, cv_UnreadCount = 0, cv_Timestamp = 0,
      cv_LastMsgSeq = messageSeq, cv_LastClientMsgNo = [], cv_LastMsgID = 0, cv_Version = 0\<rparr>"

definition message_channel :: "gostring \<Rightarrow> gostring \<Rightarrow> u8 \<Rightarrow> gostring" where
  "message_channel uid channelID channelType =
     (if channelType = ChannelTypePerson then GetFakeChannelIDWith uid channelID else channelID)"

section \<open>The list\<close>

record conversationResp =
  cr_ChannelID :: gostring
  cr_ChannelType :: u8
  cr_Unread :: i64
  cr_Timestamp :: i64
  cr_LastMessage :: MessageResp

definition load_msg :: "gostring \<Rightarrow> u8 \<Rightarrow> u32 \<Rightarrow> (('d, 'l) app, message) handler" where
  "load_msg channelID channelType messageSeq s =
     (case LoadMsg (fs_cfg (ap_fs s)) channelID channelType messageSeq (fs_msgs (ap_fs s)) of
        Ret (m, msgs) \<Rightarrow> (Ret m, set_fs ((ap_fs s)\<lparr>fs_msgs := msgs\<rparr>) s)
      | Fail e \<Rightarrow> (Fail e, s)
      | Panic \<Rightarrow> (Panic, s))"

definition nodeS :: "('d node, 'a) handler \<Rightarrow> (('d, 'l) app, 'a) handler" where
  "nodeS m s = (let (r, nd) = m (ap_node s) in (r, map_node (\<lambda>_. nd) s))"

fun list_each :: "('d, 'l) app_env \<Rightarrow> gostring \<Rightarrow> Conversation list \<Rightarrow> (('d, 'l) app, conversationResp list) handler" where
  "list_each ev uid [] = returnS []"
| "list_each ev uid (c # cs) =
     bindS (load_msg (message_channel uid (cv_ChannelID c) (cv_ChannelType c)) (cv_ChannelType c) (cv_LastMsgSeq c)) (\<lambda>m.
     bindS (nodeS (resp_from (ae_world ev) m)) (\<lambda>resp.
     bindS (list_each ev uid cs) (\<lambda>rs.
     returnS (\<lparr>cr_ChannelID = cv_ChannelID c, cr_ChannelType = cv_ChannelType c, cr_Unread = cv_UnreadCount c,
       cr_Timestamp = cv_Timestamp c, cr_LastMessage = resp\<rparr> # rs))))"

definition conversationsList ::
    "('d, 'l) app_env \<Rightarrow> (Conversation list \<Rightarrow> Conversation list) \<Rightarrow> gostring \<Rightarrow> (('d, 'l) app, conversationResp list) handler" where
  "conversationsList ev sorter uid =
     thenS (checkS (blank uid) ''uid cannot be empty'')
       (bindS (askC (mgr_GetConversations (conv_env_of ev) sorter uid 0 [])) (list_each ev uid))"

section \<open>Unread messages\<close>

record clearUnreadReq =
  cu_UID :: gostring
  cu_ChannelID :: gostring
  cu_ChannelType :: u8
  cu_MessageSeq :: u32

definition clearUnread_Check :: "clearUnreadReq \<Rightarrow> ('s, unit) handler" where
  "clearUnread_Check req =
     thenS (checkS (cu_UID req = []) ''uid cannot be empty'')
       (checkS (cu_ChannelID req = [] \<or> cu_ChannelType req = 0) ''channel_id or channel_type cannot be empty'')"

definition clearConversationUnread :: "('d, 'l) app_env \<Rightarrow> clearUnreadReq outcome \<Rightarrow> (('d, 'l) app, unit) handler" where
  "clearConversationUnread ev body =
     bindS (liftR body) (\<lambda>req.
     thenS (clearUnread_Check req)
       (bindS (askC (mgr_GetConversation (conv_env_of ev) (cu_UID req) (cu_ChannelID req) (cu_ChannelType req))) (\<lambda>c.
          if c = None \<and> cu_MessageSeq req > 0
          then convS (\<lambda>cv. Ret (AddOrUpdateConversation (conv_env_of ev) (cu_UID req)
            (blank_conversation (cu_UID req) (cu_ChannelID req) (cu_ChannelType req) (cu_MessageSeq req)) cv))
          else convS (SetConversationUnread (conv_env_of ev) (cu_UID req) (cu_ChannelID req) (cu_ChannelType req) 0 (cu_MessageSeq req)))))"

record setUnreadReq =
  su_UID :: gostring
  su_ChannelID :: gostring
  su_ChannelType :: u8
  su_Unread :: i64
  su_MessageSeq :: u32

definition setConversationUnread :: "('d, 'l) app_env \<Rightarrow> setUnreadReq outcome \<Rightarrow> (('d, 'l) app, unit) handler" where
  "setConversationUnread ev body =
     bindS (liftR body) (\<lambda>req.
     thenS (checkS (su_UID req = []) ''UID cannot be empty'')
     (thenS (checkS (su_ChannelID req = [] \<or> su_ChannelType req = 0) ''channel_id or channel_type cannot be empty'')
       (bindS (askC (mgr_GetConversation (conv_env_of ev) (su_UID req) (su_ChannelID req) (su_ChannelType req))) (\<lambda>c.
          if c = None \<and> su_MessageSeq req > 0 \<and> su_Unread req = 0
          then convS (\<lambda>cv. Ret (AddOrUpdateConversation (conv_env_of ev) (su_UID req)
            (blank_conversation (su_UID req) (su_ChannelID req) (su_ChannelType req) (su_MessageSeq req)) cv))
          else convS (SetConversationUnread (conv_env_of ev) (su_UID req) (su_ChannelID req) (su_ChannelType req)
            (su_Unread req) (su_MessageSeq req))))))"

section \<open>Deletion\<close>

record deleteChannelReq =
  dc_UID :: gostring
  dc_ChannelID :: gostring
  dc_ChannelType :: u8

definition deleteChannelReq_Check :: "deleteChannelReq \<Rightarrow> ('s, unit) handler" where
  "deleteChannelReq_Check req =
     thenS (checkS (length (dc_UID req) \<le> 0) ''Uid cannot be empty'')
       (checkS (dc_ChannelID req = [] \<or> dc_ChannelType req = 0) ''channel_id or channel_type cannot be empty'')"

definition deleteConversation :: "('d, 'l) app_env \<Rightarrow> deleteChannelReq outcome \<Rightarrow> (('d, 'l) app, unit) handler" where
  "deleteConversation ev body =
     bindS (liftR body) (\<lambda>req.
     thenS (deleteChannelReq_Check req)
       (convS (mgr_DeleteConversation (conv_env_of ev) [dc_UID req] (dc_ChannelID req) (dc_ChannelType req))))"

section \<open>Latest messages\<close>

record recentReq =
  rq_ChannelID :: gostring
  rq_ChannelType :: u8
  rq_LastMsgSeq :: u32

record recentResp =
  rm_ChannelID :: gostring
  rm_ChannelType :: u8
  rm_Messages :: "MessageResp list"

text \<open>The latest first; the messages of a channel have different numbers, which determine the order.\<close>

definition latest_first :: "MessageResp list \<Rightarrow> MessageResp list" where
  "latest_first resps = rev (sort_key (\<lambda>r. unat (mr_MessageSeq r)) resps)"

fun getRecentMessages ::
    "('d, 'l) app_env \<Rightarrow> gostring \<Rightarrow> int \<Rightarrow> recentReq list \<Rightarrow> (('d, 'l) app, recentResp list) looper" where
  "getRecentMessages ev uid msgCount [] = doL (returnS [])"
| "getRecentMessages ev uid msgCount (c # cs) =
     bindL (limitL msgCount (\<lambda>n. loadL (\<lambda>cfg. LoadLastMsgsWithEnd cfg (message_channel uid (rq_ChannelID c) (rq_ChannelType c))
       (rq_ChannelType c) (rq_LastMsgSeq c) n))) (\<lambda>messages.
     bindL (respsL ev messages) (\<lambda>resps.
     bindL (getRecentMessages ev uid msgCount cs) (\<lambda>rs.
     doL (returnS (\<lparr>rm_ChannelID = rq_ChannelID c, rm_ChannelType = rq_ChannelType c, rm_Messages = latest_first resps\<rparr> # rs)))))"

record syncRecentReq =
  yr_UID :: gostring
  yr_Channels :: "recentReq list"
  yr_MsgCount :: int

text \<open>The default of 15 messages is computed and not used.\<close>

definition syncRecentMessages :: "('d, 'l) app_env \<Rightarrow> syncRecentReq outcome \<Rightarrow> (('d, 'l) app, recentResp list) looper" where
  "syncRecentMessages ev body =
     bindL (doL (liftR (case body of Fail _ \<Rightarrow> Fail (ErrMsg ''wrong data format'') | b \<Rightarrow> b))) (\<lambda>req.
       let msgCount = (if yr_MsgCount req \<le> 0 then 15 else yr_MsgCount req) in
       sayL ''the recent messages cannot be read'' (getRecentMessages ev (yr_UID req) (yr_MsgCount req) (yr_Channels req)))"

section \<open>Synchronisation\<close>

record syncConversationReq =
  sy_UID :: gostring
  sy_Version :: i64
  sy_LastMsgSeqs :: gostring
  sy_MsgCount :: int
  sy_Larges :: "(gostring \<times> u8) list"

record syncConversationResp =
  sc_ChannelID :: gostring
  sc_ChannelType :: u8
  sc_Unread :: i64
  sc_Timestamp :: i64
  sc_LastMsgSeq :: u32
  sc_LastClientMsgNo :: gostring
  sc_OffsetMsgSeq :: i64
  sc_Version :: i64
  sc_Recents :: "MessageResp list"

definition newSyncUserConversationResp :: "Conversation \<Rightarrow> syncConversationResp" where
  "newSyncUserConversationResp c =
     \<lparr>sc_ChannelID = cv_ChannelID c, sc_ChannelType = cv_ChannelType c, sc_Unread = cv_UnreadCount c,
      sc_Timestamp = cv_Timestamp c, sc_LastMsgSeq = cv_LastMsgSeq c, sc_LastClientMsgNo = cv_LastClientMsgNo c,
      sc_OffsetMsgSeq = 0, sc_Version = cv_Version c, sc_Recents = []\<rparr>"

text \<open>\<open>strconv.Atoi\<close> and \<open>ParseUint\<close> without their errors: a number that is too large gives the largest.\<close>

definition Atoi_value :: "gostring \<Rightarrow> int" where
  "Atoi_value s = (let (neg, ds) = (case s of [] \<Rightarrow> (False, []) | c # cs \<Rightarrow>
       if c = 45 then (True, cs) else if c = 43 then (False, cs) else (False, s)) in
     if ds = [] \<or> \<not> list_all is_digit ds then 0
     else if neg then max (- int (undec ds)) (- (2 ^ 63)) else min (int (undec ds)) (2 ^ 63 - 1))"

definition ParseUint_value :: "gostring \<Rightarrow> nat" where
  "ParseUint_value s = (if s = [] \<or> \<not> list_all is_digit s then 0 else min (undec s) (2 ^ 64 - 1))"

text \<open>What the client has: \<open>channelID:channelType:last_msg_seq\<close>, separated by bars; the last of equal channels counts.\<close>

definition seen_of :: "gostring \<Rightarrow> (gostring \<times> u32) option" where
  "seen_of s = (case split_on 58 s of
     [channelID, channelType, lastMsgSeq] \<Rightarrow>
       Some (channelID @ str ''-'' @ dec_int (Atoi_value channelType), word_of_nat (ParseUint_value lastMsgSeq))
   | _ \<Rightarrow> None)"

definition channelLastMsgMap :: "gostring \<Rightarrow> (gostring \<rightharpoonup> u32)" where
  "channelLastMsgMap s = map_of (rev (List.map_filter seen_of (split_on 124 s)))"

definition is_channel :: "gostring \<times> u8 \<Rightarrow> Conversation \<Rightarrow> bool" where
  "is_channel ch c \<longleftrightarrow> cv_ChannelID c = fst ch \<and> cv_ChannelType c = snd ch"

fun change_first :: "('a \<Rightarrow> bool) \<Rightarrow> ('a \<Rightarrow> 'a) \<Rightarrow> 'a list \<Rightarrow> 'a list" where
  "change_first P f [] = []"
| "change_first P f (x # xs) = (if P x then f x # xs else x # change_first P f xs)"

text \<open>The large groups: \<open>cs\<close> are the conversations found, \<open>news\<close> what is added for groups without one.\<close>

fun sync_larges ::
    "('d, 'l) app_env \<Rightarrow> gostring \<Rightarrow> (gostring \<times> u8) list \<Rightarrow> Conversation list \<Rightarrow> Conversation list \<Rightarrow>
     (('d, 'l) app, Conversation list) looper" where
  "sync_larges ev uid [] cs news = doL (returnS (cs @ news))"
| "sync_larges ev uid (ch # chs) cs news =
     bindL (sayL ''the last message of a large group cannot be read'' (loadL (\<lambda>cfg. LoadLastMsgs cfg (fst ch) (snd ch) 1))) (\<lambda>ms.
       if ms = [] then sync_larges ev uid chs cs news
       else if list_ex (is_channel ch) cs
       then bindL (doL (convS (\<lambda>cv. Ret (change_cached (conv_env_of ev) uid ch (last ms) cv)))) (\<lambda>_.
         sync_larges ev uid chs (change_first (is_channel ch) (from_last (last ms)) cs) news)
       else sync_larges ev uid chs cs (news @ [from_last (last ms) (blank_conversation uid (fst ch) (snd ch) 0)]))"

definition recents_of :: "recentResp list \<Rightarrow> syncConversationResp \<Rightarrow> syncConversationResp" where
  "recents_of rs resp = fold (\<lambda>r resp. if sc_ChannelID resp = rm_ChannelID r \<and> sc_ChannelType resp = rm_ChannelType r
     then resp\<lparr>sc_Recents := rm_Messages r\<rparr> else resp) rs resp"

definition recent_req :: "(gostring \<rightharpoonup> u32) \<Rightarrow> Conversation \<Rightarrow> recentReq" where
  "recent_req lastMsgs c = \<lparr>rq_ChannelID = cv_ChannelID c, rq_ChannelType = cv_ChannelType c,
     rq_LastMsgSeq = (case lastMsgs (channelKey (cv_ChannelID c) (cv_ChannelType c)) of None \<Rightarrow> 0 | Some n \<Rightarrow> n)\<rparr>"

text \<open>The answer is made of the conversations before their latest messages are read.\<close>

definition syncUserConversation ::
    "('d, 'l) app_env \<Rightarrow> (Conversation list \<Rightarrow> Conversation list) \<Rightarrow> syncConversationReq outcome \<Rightarrow>
     (('d, 'l) app, syncConversationResp list) looper" where
  "syncUserConversation ev sorter body =
     bindL (doL (liftR body)) (\<lambda>req.
     bindL (doL (askC (mgr_GetConversations (conv_env_of ev) sorter (sy_UID req) (sy_Version req) (sy_Larges req)))) (\<lambda>cs.
     bindL (if sy_MsgCount req > 0 then sync_larges ev (sy_UID req) (sy_Larges req) cs [] else doL (returnS cs)) (\<lambda>cs.
       let resps = map newSyncUserConversationResp cs in
       if sy_MsgCount req > 0 then
         bindL (sayL ''the recent messages cannot be read''
           (getRecentMessages ev (sy_UID req) (sy_MsgCount req) (map (recent_req (channelLastMsgMap (sy_LastMsgSeqs req))) cs))) (\<lambda>rs.
         doL (returnS (map (recents_of rs) resps)))
       else doL (returnS resps))))"

end
