(* ===== verification/MessageApiProofs.thy ===== *)
theory MessageApiProofs
  imports ConversationApi
begin

text \<open>
  What the HTTP interface to messages and conversations does: an accepted message is handed on once,
  stored under the number that is answered; a user's queue is read from the position that was acknowledged.
\<close>

section \<open>Results of loopers\<close>

lemma bindL_eq: "bindL m f s = Some (r, s') \<longleftrightarrow>
    (\<exists>x s1. m s = Some (Ret x, s1) \<and> f x s1 = Some (r, s')) \<or>
    (\<exists>e. m s = Some (Fail e, s') \<and> r = Fail e) \<or> (m s = Some (Panic, s') \<and> r = Panic)"
  by (auto simp: bindL_def split: option.splits prod.splits outcome.splits)

lemma bindL_eq_Ret: "bindL m f s = Some (Ret y, s') \<longleftrightarrow> (\<exists>x s1. m s = Some (Ret x, s1) \<and> f x s1 = Some (Ret y, s'))"
  by (auto simp: bindL_eq)

lemma bindL_Ret: "m s = Some (Ret x, s1) \<Longrightarrow> bindL m f s = f x s1"
  by (simp add: bindL_def)

lemma bindL_steps:
  "bindL (doL (liftR (Ret x))) f s = f x s" "bindL (doL (liftR (Fail e))) f s = Some (Fail e, s)"
  "bindL (doL (returnS x)) f s = f x s" "bindL (doL (\<lambda>s. (Ret u, g s))) f s = f u (g s)"
  by (simp_all add: bindL_def doL_def liftR_def returnS_def)

lemma doL_eq [simp]: "doL m s = Some (r, s') \<longleftrightarrow> m s = (r, s')"
  by (simp add: doL_def)

lemma sayL_eq_Ret [simp]: "sayL msg m s = Some (Ret x, s') \<longleftrightarrow> m s = Some (Ret x, s')"
proof (cases "m s")
  case (Some p)
  then show ?thesis by (cases p; cases "fst p") (auto simp: sayL_def)
qed (simp add: sayL_def)

lemma nodeL_eq_Ret: "nodeL m s = Some (Ret x, s') \<longleftrightarrow> (\<exists>nd. m (ap_node s) = Some (Ret x, nd) \<and> s' = map_node (\<lambda>_. nd) s)"
  by (auto simp: nodeL_def)

section \<open>What a step leaves alone\<close>

text \<open>\<open>calm nd nd'\<close>: nothing is handed to the delivery pool or to the conversations.\<close>

definition calm :: "'d node \<Rightarrow> 'd node \<Rightarrow> bool" where
  "calm nd nd' \<longleftrightarrow> nd_jobs nd' = nd_jobs nd \<and> nd_conversationQueue nd' = nd_conversationQueue nd \<and> nd_idCount nd' = nd_idCount nd"

lemma calm_refl [simp]: "calm nd nd"
  by (simp add: calm_def)

lemma calm_trans: "calm nd1 nd2 \<Longrightarrow> calm nd2 nd3 \<Longrightarrow> calm nd1 nd3"
  by (simp add: calm_def)

lemma store_user_queues_calm: "calm nd (snd (store_user_queues c ms subs seqs nd))"
  by (induction c ms subs seqs nd rule: store_user_queues.induct) (simp_all add: calm_def Let_def split: outcome.split prod.split)

lemma storeMessageToUserQueue_calm: "storeMessageToUserQueueIfNeed c ms subs nd = (r, nd') \<Longrightarrow> calm nd nd'"
  using store_user_queues_calm [of nd c ms subs "[]"] by (auto simp: storeMessageToUserQueueIfNeed_def split: if_splits)

lemma channel_Put_cases:
  assumes "channel_Put w c ms custom u fl d nd = Some (r, nd')"
  shows "case r of
      Ret _ \<Rightarrow> \<exists>subs seqs. nd_jobs nd' = nd_jobs nd @ [\<lparr>dj_messages = ms, dj_large = ci_Large (ch_Info c), dj_syncOnceSeqs = seqs,
          dj_subscribers = subs, dj_fromUID = u, dj_fromDeviceFlag = fl, dj_fromDeviceID = d\<rparr>]
    | _ \<Rightarrow> calm nd nd'"
    and "nd_idCount nd' = nd_idCount nd"
proof -
  obtain rs cs where rs: "RealSubscribers (env_of w nd) custom c (nd_channels nd) = Some (rs, cs)"
    using assms by (auto simp: channel_Put_def)
  have *: "(case r of
      Ret _ \<Rightarrow> \<exists>subs seqs. nd_jobs nd' = nd_jobs nd @ [\<lparr>dj_messages = ms, dj_large = ci_Large (ch_Info c), dj_syncOnceSeqs = seqs,
          dj_subscribers = subs, dj_fromUID = u, dj_fromDeviceFlag = fl, dj_fromDeviceID = d\<rparr>]
    | _ \<Rightarrow> calm nd nd') \<and> nd_idCount nd' = nd_idCount nd"
  proof (cases rs)
    case (Ret subs)
    obtain r1 nd1 where s: "storeMessageToUserQueueIfNeed c ms subs (nd\<lparr>nd_channels := cs\<rparr>) = (r1, nd1)" by fastforce
    have "calm nd nd1" using storeMessageToUserQueue_calm [OF s] by (simp add: calm_def)
    with assms rs Ret s show ?thesis
      by (cases r1) (auto simp: channel_Put_def Let_def calm_def split: option.split)
  qed (use assms rs in \<open>auto simp: channel_Put_def calm_def\<close>)
  then show "case r of
      Ret _ \<Rightarrow> \<exists>subs seqs. nd_jobs nd' = nd_jobs nd @ [\<lparr>dj_messages = ms, dj_large = ci_Large (ch_Info c), dj_syncOnceSeqs = seqs,
          dj_subscribers = subs, dj_fromUID = u, dj_fromDeviceFlag = fl, dj_fromDeviceID = d\<rparr>]
    | _ \<Rightarrow> calm nd nd'" "nd_idCount nd' = nd_idCount nd" by blast+
qed

lemma store_message_calm: "store_message w cid fake t msg nd = (r, nd') \<Longrightarrow> calm nd nd'"
  by (auto simp: store_message_def store_item_def store_history_def Let_def calm_def split: if_splits outcome.splits prod.splits)

lemma notify_message_calm: "notify_message w msg nd = (r, nd') \<Longrightarrow> calm nd nd'"
  by (auto simp: notify_message_def Let_def calm_def split: if_splits outcome.splits)

lemma node_channel_calm: "node_channel w cid t nd = (r, nd') \<Longrightarrow> calm nd nd' \<and> nd_fs nd' = nd_fs nd"
  by (auto simp: node_channel_def calm_def split: prod.splits)

text \<open>Storing numbers the message; the rest of it stays.\<close>

definition same_message :: "message \<Rightarrow> message \<Rightarrow> bool" where
  "same_message m m' \<longleftrightarrow> (let r = msg_RecvPacket m; r' = msg_RecvPacket m' in
     m' = m\<lparr>msg_RecvPacket := r\<lparr>rcv_MessageSeq := rcv_MessageSeq r', rcv_StreamSeq := rcv_StreamSeq r'\<rparr>\<rparr>)"

lemma topic_append_one: "topic_appendMessages cfg [m] t = (r, ms, t') \<Longrightarrow> ms = [m] \<or> (\<exists>q. ms = [SetSeq q m])"
  by (auto simp: topic_appendMessages_def Let_def split: outcome.splits prod.splits if_splits)

lemma AppendMessages_one: "AppendMessages cfg cid t [m] st = (r, ms, st') \<Longrightarrow> \<exists>q. ms = [SetSeq q m]"
proof -
  have "\<exists>q. m = SetSeq q m" by (rule exI [of _ "GetSeq m"]) (simp add: SetSeq_def GetSeq_def)
  then show "AppendMessages cfg cid t [m] st = (r, ms, st') \<Longrightarrow> \<exists>q. ms = [SetSeq q m]"
    by (auto simp: AppendMessages_def split: outcome.splits prod.splits dest!: topic_append_one)
qed

lemma store_message_same: "store_message w cid fake t msg nd = (Ret msg', nd') \<Longrightarrow> same_message msg msg'"
  by (auto simp: store_message_def store_item_def store_history_def Let_def same_message_def SetSeq_def
      split: if_splits outcome.splits prod.splits dest!: AppendMessages_one)

section \<open>A message is handed on once\<close>

lemma put_message_cases:
  assumes "put_message w c u msg nd = Some (r, nd')"
  shows "case r of
      Ret (i, q) \<Rightarrow> \<exists>msg' subs seqs. same_message msg msg' \<and> i = GetMessageID msg' \<and> q = GetSeq msg' \<and>
        nd_jobs nd' = nd_jobs nd @ [\<lparr>dj_messages = [msg'], dj_large = ci_Large (ch_Info c), dj_syncOnceSeqs = seqs,
          dj_subscribers = subs, dj_fromUID = u, dj_fromDeviceFlag = DeviceLevelMaster, dj_fromDeviceID = str ''system''\<rparr>]
    | _ \<Rightarrow> calm nd nd'"
    and "nd_idCount nd' = nd_idCount nd"
proof -
  let ?cid = "rcv_ChannelID (msg_RecvPacket msg)" and ?t = "rcv_ChannelType (msg_RecvPacket msg)"
  obtain r1 nd1 where s: "store_message w ?cid (fake_channel u ?cid ?t) ?t msg nd = (r1, nd1)" by fastforce
  have *: "(case r of
      Ret (i, q) \<Rightarrow> \<exists>msg' subs seqs. same_message msg msg' \<and> i = GetMessageID msg' \<and> q = GetSeq msg' \<and>
        nd_jobs nd' = nd_jobs nd @ [\<lparr>dj_messages = [msg'], dj_large = ci_Large (ch_Info c), dj_syncOnceSeqs = seqs,
          dj_subscribers = subs, dj_fromUID = u, dj_fromDeviceFlag = DeviceLevelMaster, dj_fromDeviceID = str ''system''\<rparr>]
    | _ \<Rightarrow> calm nd nd') \<and> nd_idCount nd' = nd_idCount nd"
  proof (cases r1)
    case (Ret msg')
    obtain r2 nd2 where n: "notify_message w msg' nd1 = (r2, nd2)" by fastforce
    have c2: "calm nd nd2" by (rule calm_trans [OF store_message_calm [OF s] notify_message_calm [OF n]])
    show ?thesis
    proof (cases r2)
      case (Ret x)
      let ?put = "channel_Put w c [msg'] (msg_Subscribers msg') u DeviceLevelMaster (str ''system'')"
      obtain r3 where p: "?put nd2 = Some (r3, nd')"
        and r: "r = (case r3 of Ret _ \<Rightarrow> Ret (GetMessageID msg', GetSeq msg') | Fail _ \<Rightarrow> Fail (ErrMsg ''failed to put the message to the channel'')
          | Panic \<Rightarrow> Panic)"
        using assms s n \<open>r1 = Ret msg'\<close> Ret
        by (auto simp: put_message_def bindL_def doL_def sayL_def split: option.splits outcome.splits prod.splits)
      from channel_Put_cases [OF p] c2 store_message_same [of w ?cid "fake_channel u ?cid ?t" ?t msg nd msg' nd1] s \<open>r1 = Ret msg'\<close> r
      show ?thesis by (cases r3) (fastforce simp: calm_def)+
    qed (use assms s n Ret c2 in \<open>auto simp: put_message_def bindL_def doL_def calm_def\<close>)
  qed (use assms s store_message_calm [OF s] in \<open>auto simp: put_message_def bindL_def doL_def calm_def\<close>)
  then show "case r of
      Ret (i, q) \<Rightarrow> \<exists>msg' subs seqs. same_message msg msg' \<and> i = GetMessageID msg' \<and> q = GetSeq msg' \<and>
        nd_jobs nd' = nd_jobs nd @ [\<lparr>dj_messages = [msg'], dj_large = ci_Large (ch_Info c), dj_syncOnceSeqs = seqs,
          dj_subscribers = subs, dj_fromUID = u, dj_fromDeviceFlag = DeviceLevelMaster, dj_fromDeviceID = str ''system''\<rparr>]
    | _ \<Rightarrow> calm nd nd'" "nd_idCount nd' = nd_idCount nd" by blast+
qed

text \<open>What is handed on for a message that was accepted.\<close>

definition handed_on :: "'d world \<Rightarrow> MessageSendReq \<Rightarrow> gostring \<Rightarrow> u8 \<Rightarrow> gostring \<Rightarrow> u8 \<Rightarrow> i64 \<Rightarrow> u32 \<Rightarrow> deliver_job \<Rightarrow> bool" where
  "handed_on w req channelID channelType no flag i q job \<longleftrightarrow> (\<exists>m. dj_messages job = [m] \<and>
     same_message (message_of_req w req i channelID channelType no flag) m \<and> GetSeq m = q) \<and> dj_fromUID job = mq_FromUID req"

lemma same_message_id: "same_message m m' \<Longrightarrow> GetMessageID m' = GetMessageID m"
proof -
  assume h: "same_message m m'"
  then have "msg_RecvPacket m' = (msg_RecvPacket m)\<lparr>rcv_MessageSeq := rcv_MessageSeq (msg_RecvPacket m'),
      rcv_StreamSeq := rcv_StreamSeq (msg_RecvPacket m')\<rparr>"
    unfolding same_message_def Let_def by (metis message.select_convs(1) message.surjective message.update_convs(1))
  then show ?thesis unfolding GetMessageID_def by (metis RecvPacket.select_convs(5) RecvPacket.surjective RecvPacket.update_convs(6,9))
qed

lemma message_of_req_id [simp]: "GetMessageID (message_of_req w req i c t no fl) = i"
  by (simp add: message_of_req_def GetMessageID_def)

lemma sendMessage_cases:
  assumes "sendMessageToChannel w req channelID channelType no flag nd = Some (r, nd')"
  shows "case r of
      Ret (i, q) \<Rightarrow> i = wd_genMessageID w (nd_idCount nd) \<and>
        (\<exists>job. nd_jobs nd' = nd_jobs nd @ [job] \<and> handed_on w req channelID channelType no flag i q job)
    | _ \<Rightarrow> nd_jobs nd' = nd_jobs nd \<and> nd_conversationQueue nd' = nd_conversationQueue nd"
    and "nd_idCount nd' = Suc (nd_idCount nd)"
proof -
  let ?i = "wd_genMessageID w (nd_idCount nd)" and ?nd = "nd\<lparr>nd_idCount := Suc (nd_idCount nd)\<rparr>"
  let ?fake = "fake_channel (mq_FromUID req) channelID channelType"
  let ?msg = "message_of_req w req ?i channelID channelType no flag"
  obtain r1 nd1 where g: "node_channel w ?fake channelType ?nd = (r1, nd1)" by fastforce
  note calm = node_channel_calm [OF g]
  have *: "(case r of
      Ret (i, q) \<Rightarrow> i = ?i \<and> (\<exists>job. nd_jobs nd' = nd_jobs nd @ [job] \<and> handed_on w req channelID channelType no flag i q job)
    | _ \<Rightarrow> nd_jobs nd' = nd_jobs nd \<and> nd_conversationQueue nd' = nd_conversationQueue nd) \<and>
    nd_idCount nd' = Suc (nd_idCount nd)"
  proof (cases "\<exists>c. r1 = Ret (Some c) \<and> \<not> (ci_Large (ch_Info c) \<and> mh_SyncOnce (mq_Header req) = 1)")
    case True
    then obtain c where c: "r1 = Ret (Some c)" "\<not> (ci_Large (ch_Info c) \<and> mh_SyncOnce (mq_Header req) = 1)" by blast
    have p: "put_message w c (mq_FromUID req) ?msg nd1 = Some (r, nd')"
      using assms g c by (auto simp: sendMessageToChannel_def genMessageID_def bindL_def sayL_def doL_def)
    show ?thesis
    proof (cases r)
      case (Ret x)
      obtain i q where x: "x = (i, q)" by fastforce
      from put_message_cases [OF p] Ret x obtain msg' subs seqs where m: "same_message ?msg msg'" "i = GetMessageID msg'" "q = GetSeq msg'"
        "nd_jobs nd' = nd_jobs nd1 @ [\<lparr>dj_messages = [msg'], dj_large = ci_Large (ch_Info c), dj_syncOnceSeqs = seqs,
          dj_subscribers = subs, dj_fromUID = mq_FromUID req, dj_fromDeviceFlag = DeviceLevelMaster, dj_fromDeviceID = str ''system''\<rparr>]"
        by auto
      moreover have "i = ?i" using m(2) same_message_id [OF m(1)] by simp
      ultimately show ?thesis using Ret x calm put_message_cases(2) [OF p] by (simp add: calm_def handed_on_def)
    qed (use put_message_cases [OF p] calm in \<open>auto simp: calm_def\<close>)
  next
    case False
    then have "nd' = nd1 \<and> (\<forall>x. r \<noteq> Ret x)"
      using assms g
      by (cases r1) (auto simp: sendMessageToChannel_def genMessageID_def bindL_def sayL_def doL_def liftR_def
          split: option.splits if_splits)
    then show ?thesis using calm by (cases r) (auto simp: calm_def)
  qed
  then show "case r of
      Ret (i, q) \<Rightarrow> i = wd_genMessageID w (nd_idCount nd) \<and>
        (\<exists>job. nd_jobs nd' = nd_jobs nd @ [job] \<and> handed_on w req channelID channelType no flag i q job)
    | _ \<Rightarrow> nd_jobs nd' = nd_jobs nd \<and> nd_conversationQueue nd' = nd_conversationQueue nd"
    "nd_idCount nd' = Suc (nd_idCount nd)" by blast+
qed

lemma same_message_fields:
  assumes "same_message m m'"
  obtains q sq where "m' = m\<lparr>msg_RecvPacket := (msg_RecvPacket m)\<lparr>rcv_MessageSeq := q, rcv_StreamSeq := sq\<rparr>\<rparr>"
  using assms unfolding same_message_def Let_def by blast

text \<open>What the handler answers is what was handed on; after an error nothing was.\<close>

definition answers_message :: "MessageSendReq \<Rightarrow> send_resp \<Rightarrow> message \<Rightarrow> bool" where
  "answers_message req resp m \<longleftrightarrow> (let r = msg_RecvPacket m in
     rcv_MessageID r = sd_message_id resp \<and> rcv_MessageSeq r = sd_message_seq resp \<and> rcv_ClientMsgNo r = sd_client_msg_no resp \<and>
     rcv_Payload r = mq_Payload req \<and> rcv_FromUID r = mq_FromUID req \<and>
     (\<not> blank (mq_ChannelID req) \<longrightarrow> rcv_ChannelID r = mq_ChannelID req \<and> rcv_ChannelType r = mq_ChannelType req))"

lemma handed_on_answers:
  assumes "handed_on w req cid ct no flag i q job"
  shows "\<exists>m. dj_messages job = [m] \<and> rcv_MessageID (msg_RecvPacket m) = i \<and> rcv_MessageSeq (msg_RecvPacket m) = q \<and>
    rcv_ClientMsgNo (msg_RecvPacket m) = no \<and> rcv_Payload (msg_RecvPacket m) = mq_Payload req \<and>
    rcv_FromUID (msg_RecvPacket m) = mq_FromUID req \<and> rcv_ChannelID (msg_RecvPacket m) = cid \<and> rcv_ChannelType (msg_RecvPacket m) = ct"
proof -
  obtain m where m: "dj_messages job = [m]" "same_message (message_of_req w req i cid ct no flag) m" "GetSeq m = q"
    using assms by (auto simp: handed_on_def)
  from m(1,3) show ?thesis by (rule_tac same_message_fields [OF m(2)]) (simp add: message_of_req_def GetSeq_def)
qed

lemma send_cases:
  assumes "send ev uuid1 uuid2 (Ret req) s = Some (r, s')"
  shows "case r of
      Ret resp \<Rightarrow> \<exists>job m. nd_jobs (ap_node s') = nd_jobs (ap_node s) @ [job] \<and> dj_messages job = [m] \<and> answers_message req resp m
    | _ \<Rightarrow> nd_jobs (ap_node s') = nd_jobs (ap_node s)"
proof -
  define tmp where "tmp \<longleftrightarrow> blank (mq_ChannelID req) \<and> length (mq_Subscribers req) > 0"
  define cid where "cid = (if tmp then uuid1 @ op_TmpChannelSuffix (opts_of ev) else mq_ChannelID req)"
  define ct where "ct = (if tmp then ChannelTypeGroup else mq_ChannelType req)"
  define no where "no = (if blank (mq_ClientMsgNo req) then uuid2 @ str ''0'' else mq_ClientMsgNo req)"
  define s1 where "s1 = (if tmp then map_channels (CreateTmpChannel cid ct (mq_Subscribers req)) s else s)"
  have jobs: "nd_jobs (ap_node s1) = nd_jobs (ap_node s)"
    by (simp add: s1_def map_channels_def map_node_def map_server_def)
  have same: "nd_jobs (ap_node (map_node (\<lambda>_. nd) s1)) = nd_jobs nd" for nd by (simp add: map_node_def map_server_def)
  let ?run = "sendMessageToChannel (ae_world ev) req cid ct no StreamFlagIng"
  have put: "bindL (nodeL ?run) (\<lambda>(i, q). doL (returnS \<lparr>sd_message_id = i, sd_client_msg_no = no, sd_message_seq = q\<rparr>)) s1 =
      map_option (\<lambda>(r, nd). (mapR (\<lambda>(i, q). \<lparr>sd_message_id = i, sd_client_msg_no = no, sd_message_seq = q\<rparr>) r, map_node (\<lambda>_. nd) s1))
        (?run (ap_node s1))"
    by (auto simp: bindL_def nodeL_def doL_def returnS_def mapR_def split: option.split outcome.split)
  have eq: "send ev uuid1 uuid2 (Ret req) s =
     (if mq_Payload req = [] then Some (Fail (ErrMsg ''payload must not be empty''), s)
      else if blank cid then Some (Fail (ErrMsg ''the request cannot be processed''), s1)
      else bindL (nodeL ?run) (\<lambda>(i, q). doL (returnS \<lparr>sd_message_id = i, sd_client_msg_no = no, sd_message_seq = q\<rparr>)) s1)"
    by (cases tmp; cases "blank (mq_ClientMsgNo req)")
      (simp_all add: send_def Let_def bindL_steps MessageSendReq_Check_def checkS_def whenS_def cid_def ct_def no_def s1_def tmp_def)
  show ?thesis
  proof (cases "mq_Payload req = [] \<or> blank cid")
    case True
    then have "s' \<in> {s, s1} \<and> (\<forall>x. r \<noteq> Ret x)" using assms unfolding eq by (auto split: if_splits)
    then show ?thesis using jobs by (cases r) auto
  next
    case False
    then obtain r1 nd where run: "?run (ap_node s1) = Some (r1, nd)"
      and r: "r = mapR (\<lambda>(i, q). \<lparr>sd_message_id = i, sd_client_msg_no = no, sd_message_seq = q\<rparr>) r1"
      and s': "s' = map_node (\<lambda>_. nd) s1"
      using assms unfolding eq put by auto
    note S = sendMessage_cases(1) [OF run, unfolded jobs]
    show ?thesis
    proof (cases r1)
      case (Ret iq)
      obtain i q where iq: "iq = (i, q)" by fastforce
      with S Ret obtain job where j: "nd_jobs nd = nd_jobs (ap_node s) @ [job]" "handed_on (ae_world ev) req cid ct no StreamFlagIng i q job" by auto
      from handed_on_answers [OF j(2)] j(1) show ?thesis
        unfolding r s' same Ret iq
        by (auto simp: mapR_def answers_message_def cid_def ct_def tmp_def)
    qed (use S r s' same in \<open>auto simp: mapR_def\<close>)
  qed
qed

text \<open>A batch sends one message to each subscriber it does not report.\<close>

lemma send_each_counts:
  assumes "send_each ev req uuid i us fails s = Some (Ret fails', s')"
  shows "length (nd_jobs (ap_node s')) + length fails' = length (nd_jobs (ap_node s)) + length fails + length us"
  using assms
proof (induction us arbitrary: i fails s)
  case (Cons u us)
  let ?m = "sendMessageToChannel (ae_world ev) (req_of_batch req u) u ChannelTypePerson (uuid i @ str ''0'') StreamFlagIng"
  obtain r nd where run: "?m (ap_node s) = Some (r, nd)" using Cons.prems by (auto simp: nodeL_def split: option.splits)
  let ?s = "map_node (\<lambda>_. nd) s"
  have jobs: "nd_jobs (ap_node ?s) = nd_jobs nd" by (simp add: map_node_def map_server_def)
  note S = sendMessage_cases(1) [OF run]
  show ?case
  proof (cases r)
    case (Ret x)
    with Cons.prems run have "send_each ev req uuid (Suc i) us fails ?s = Some (Ret fails', s')" by (simp add: nodeL_def)
    from Cons.IH [OF this] S Ret jobs show ?thesis by (cases x) auto
  next
    case (Fail e)
    with Cons.prems run have "send_each ev req uuid (Suc i) us (fails @ [(u, e)]) ?s = Some (Ret fails', s')" by (simp add: nodeL_def)
    from Cons.IH [OF this] S Fail jobs show ?thesis by simp
  qed (use Cons.prems run in \<open>simp add: nodeL_def\<close>)
qed simp

section \<open>The history\<close>

text \<open>A message that is to be kept is stored under the next number of its channel, which is the one answered.\<close>

lemma persistent_no_queue:
  assumes "persistent opts cid m" and "storeMessageToUserQueueIfNeed c [m] subs nd = (r, nd')"
  shows "nd' = nd" and "r = Ret []"
proof -
  have "filter sync_once [m] = []" using assms(1) by (auto simp: persistent_def sync_once_def Let_def)
  then have "store_user_queues c [m] us seqs nd = (Ret seqs, nd)" for us seqs
    by (induction us arbitrary: seqs) simp_all
  with assms(2) show "nd' = nd" "r = Ret []" by (auto simp: storeMessageToUserQueueIfNeed_def)
qed

lemma persistent_put_fs:
  assumes "persistent opts cid m" and "channel_Put w c [m] custom u fl d nd = Some (r, nd')"
  shows "nd_fs nd' = nd_fs nd"
proof -
  obtain rs cs where rs: "RealSubscribers (env_of w nd) custom c (nd_channels nd) = Some (rs, cs)"
    using assms(2) by (auto simp: channel_Put_def)
  show ?thesis
  proof (cases rs)
    case (Ret subs)
    obtain r1 nd1 where s: "storeMessageToUserQueueIfNeed c [m] subs (nd\<lparr>nd_channels := cs\<rparr>) = (r1, nd1)" by fastforce
    from assms(2) rs Ret s persistent_no_queue(1) [OF assms(1) s] show ?thesis
      by (cases r1) (auto simp: channel_Put_def Let_def split: option.split)
  qed (use assms rs in \<open>auto simp: channel_Put_def\<close>)
qed

lemma persistent_SetSeq [simp]: "persistent opts cid (SetSeq q m) = persistent opts cid m"
  by (simp add: persistent_def SetSeq_def)

lemma notify_message_store:
  assumes "notify_message w msg nd = (Ret u, nd')"
  shows "fs_msgs (nd_fs nd') = fs_msgs (nd_fs nd)" and "fs_cfg (nd_fs nd') = fs_cfg (nd_fs nd)"
  using assms by (auto simp: notify_message_def Let_def AppendMessageOfNotifyQueue_def with_db_def mapR_def bindR_eq_Ret
      split: if_splits outcome.splits)

lemma put_message_stores:
  assumes put: "put_message w c u msg nd = Some (Ret (i, q), nd')"
    and kept: "persistent (wd_opts w) (rcv_ChannelID (msg_RecvPacket msg)) msg" and "\<not> StreamIng msg"
    and t: "getTopic (fs_cfg (nd_fs nd)) (fake_channel u (rcv_ChannelID (msg_RecvPacket msg)) (rcv_ChannelType (msg_RecvPacket msg)))
      (rcv_ChannelType (msg_RecvPacket msg)) (fs_msgs (nd_fs nd)) = Ret (num, name, t, st)"
    and ok: "topic_ok t (segs @ [(b, ms)])" and fits: "batch_fits (fs_cfg (nd_fs nd)) t b ms [msg]" and "\<not> active_full (fs_cfg (nd_fs nd)) t"
  shows "q = tp_lastMsgSeq t + 1"
    and "holds (fs_cfg (nd_fs nd')) (fs_msgs (nd_fs nd')) (fake_channel u (rcv_ChannelID (msg_RecvPacket msg)) (rcv_ChannelType (msg_RecvPacket msg)))
      (rcv_ChannelType (msg_RecvPacket msg)) (segs @ [(b, ms @ [SetSeq q msg])])"
proof -
  let ?cid = "rcv_ChannelID (msg_RecvPacket msg)" and ?t = "rcv_ChannelType (msg_RecvPacket msg)" and ?q = "tp_lastMsgSeq t + 1"
  let ?fake = "fake_channel u ?cid ?t" and ?cfg = "fs_cfg (nd_fs nd)"
  obtain t' where t': "topic_appendMessages ?cfg [msg] t = (Ret ([?q], length (encoded [msg])), [SetSeq ?q msg], t')"
    and ok': "topic_ok t' (segs @ [(b, ms @ [SetSeq ?q msg])])"
    by (rule topic_appendMessages_ok [OF ok fits assms(7) refl]) simp
  let ?nd = "nd\<lparr>nd_fs := (nd_fs nd)\<lparr>fs_msgs := put_topic num name t' st\<rparr>\<rparr>"
  have store: "store_message w ?cid ?fake ?t msg nd = (Ret (SetSeq ?q msg), ?nd)"
    using kept assms(3) t t' by (simp add: store_message_def store_history_def AppendMessages_def mapR_def)
  obtain nd2 where n: "notify_message w (SetSeq ?q msg) ?nd = (Ret (), nd2)"
    and p: "channel_Put w c [SetSeq ?q msg] (msg_Subscribers (SetSeq ?q msg)) u DeviceLevelMaster (str ''system'') nd2 = Some (Ret (), nd')"
    and q: "q = GetSeq (SetSeq ?q msg)"
    using put store by (auto simp: put_message_def bindL_eq_Ret returnS_def)
  show "q = ?q" using q by (simp add: GetSeq_def SetSeq_def)
  have "nd_fs nd' = nd_fs nd2" by (rule persistent_put_fs [OF _ p, of "wd_opts w" ?cid]) (simp add: kept)
  moreover note notify_message_store [OF n]
  ultimately have "fs_msgs (nd_fs nd') = put_topic num name t' st" "fs_cfg (nd_fs nd') = ?cfg" by simp_all
  with getTopic_stores [OF t, of t'] ok' \<open>q = ?q\<close>
  show "holds (fs_cfg (nd_fs nd')) (fs_msgs (nd_fs nd')) ?fake ?t (segs @ [(b, ms @ [SetSeq q msg])])"
    by (simp add: holds_def)
qed

lemma sendMessage_stores:
  assumes "sendMessageToChannel w req cid ct no flag nd = Some (Ret (i, q), nd')"
    and "msg = message_of_req w req i cid ct no flag" and "fake = fake_channel (mq_FromUID req) cid ct"
    and "persistent (wd_opts w) cid msg" and "\<not> StreamIng msg"
    and "getTopic (fs_cfg (nd_fs nd)) fake ct (fs_msgs (nd_fs nd)) = Ret (num, name, t, st)"
    and "topic_ok t (segs @ [(b, ms)])" and "batch_fits (fs_cfg (nd_fs nd)) t b ms [msg]" and "\<not> active_full (fs_cfg (nd_fs nd)) t"
  shows "q = tp_lastMsgSeq t + 1"
    and "holds (fs_cfg (nd_fs nd')) (fs_msgs (nd_fs nd')) fake ct (segs @ [(b, ms @ [SetSeq q msg])])"
proof -
  let ?nd = "nd\<lparr>nd_idCount := Suc (nd_idCount nd)\<rparr>"
  have i: "i = wd_genMessageID w (nd_idCount nd)" using sendMessage_cases(1) [OF assms(1)] by simp
  obtain r1 nd1 where g: "node_channel w fake ct ?nd = (r1, nd1)" by fastforce
  have fs: "nd_fs nd1 = nd_fs nd" using node_channel_calm [OF g] by simp
  obtain c where p: "put_message w c (mq_FromUID req) msg nd1 = Some (Ret (i, q), nd')"
    using assms(1-3) g i
    by (auto simp: sendMessageToChannel_def genMessageID_def bindL_eq_Ret split: option.splits if_splits)
  have ids: "rcv_ChannelID (msg_RecvPacket msg) = cid" "rcv_ChannelType (msg_RecvPacket msg) = ct"
    by (simp_all add: assms(2) message_of_req_def)
  note S = put_message_stores [OF p, unfolded ids fs, folded assms(3), OF assms(4-9)]
  show "q = tp_lastMsgSeq t + 1" by (rule S(1))
  show "holds (fs_cfg (nd_fs nd')) (fs_msgs (nd_fs nd')) fake ct (segs @ [(b, ms @ [SetSeq q msg])])" by (rule S(2))
qed

text \<open>What was stored is read again under its number.\<close>

lemma LoadMsg_ok:
  assumes "holds cfg st c ct segs" and "m \<in> set (messages_of segs)"
  shows "\<exists>st'. LoadMsg cfg c ct (GetSeq m) st = Ret (stored m, st')"
proof -
  obtain num name t st1 where g: "getTopic cfg c ct st = Ret (num, name, t, st1)" and ok: "topic_ok t segs"
    using assms(1) by (auto simp: holds_def split: outcome.splits)
  obtain t' where "topic_readMessageAt cfg (GetSeq m) t = Ret (stored m, t')"
    by (rule topic_readMessageAt_ok [OF ok assms(2)])
  with g show ?thesis by (simp add: LoadMsg_def mapR_def)
qed

lemma sendMessage_loads:
  assumes "sendMessageToChannel w req cid ct no flag nd = Some (Ret (i, q), nd')"
    and "msg = message_of_req w req i cid ct no flag" and "fake = fake_channel (mq_FromUID req) cid ct"
    and "persistent (wd_opts w) cid msg" and "\<not> StreamIng msg"
    and "getTopic (fs_cfg (nd_fs nd)) fake ct (fs_msgs (nd_fs nd)) = Ret (num, name, t, st)"
    and "topic_ok t (segs @ [(b, ms)])" and "batch_fits (fs_cfg (nd_fs nd)) t b ms [msg]" and "\<not> active_full (fs_cfg (nd_fs nd)) t"
  shows "\<exists>st'. LoadMsg (fs_cfg (nd_fs nd')) fake ct q (fs_msgs (nd_fs nd')) = Ret (stored (SetSeq q msg), st')"
proof -
  have "SetSeq q msg \<in> set (messages_of (segs @ [(b, ms @ [SetSeq q msg])]))" by (simp add: messages_of_def)
  from LoadMsg_ok [OF sendMessage_stores(2) [OF assms] this] show ?thesis by (simp add: GetSeq_def SetSeq_def)
qed

section \<open>The queue of a user\<close>

lemma resps_plainL:
  assumes "\<forall>m \<in> set ms. blank (rcv_StreamNo (msg_RecvPacket m))"
  shows "respsL ev ms s = Some (Ret (map resp_of ms), s)"
proof -
  have "map_node (\<lambda>_. ap_node s) s = s" by (simp add: map_node_def map_server_def)
  then show ?thesis by (simp add: respsL_def nodeL_def doL_def resps_plain [OF assms])
qed

definition no_streams :: "(u32 \<times> message list) list \<Rightarrow> bool" where
  "no_streams segs \<longleftrightarrow> (\<forall>m \<in> set (messages_of segs). blank (rcv_StreamNo (msg_RecvPacket (stored m))))"

lemma sync_ok:
  assumes "\<not> blank (yq_UID req)" and "0 \<le> yq_Limit req"
    and "GetMessageOfUserCursor (bolt_of ev) (yq_UID req) (ap_fs s) = Ret readed"
    and "holds (fs_cfg (ap_fs s)) (fs_msgs (ap_fs s)) (UserQueuePrefix @ yq_UID req) ChannelTypePerson segs" and "no_streams segs"
  shows "\<exists>s'. sync ev (Ret req) s = Some (Ret (map (\<lambda>m. resp_of (stored m)) (take (nat (yq_Limit req))
      (filter (\<lambda>m. start_seq (yq_MessageSeq req) readed \<le> GetSeq m) (messages_of segs)))), s')"
proof -
  let ?start = "start_seq (yq_MessageSeq req) readed"
  let ?ms = "take (nat (yq_Limit req)) (filter (\<lambda>m. ?start \<le> GetSeq m) (messages_of segs))"
  obtain st' where st': "SyncMessageOfUser (fs_cfg (ap_fs s)) (yq_UID req) ?start (nat (yq_Limit req)) (fs_msgs (ap_fs s)) =
      Some (Ret (map stored ?ms), st')"
    using LoadNextRangeMsgs_ok [OF assms(4), of ?start 0 "nat (yq_Limit req)"] by (auto simp: SyncMessageOfUser_def)
  have "\<forall>m \<in> set (map stored ?ms). blank (rcv_StreamNo (msg_RecvPacket m))"
    using assms(5) by (auto simp: no_streams_def dest!: in_set_takeD)
  note resps = resps_plainL [OF this, of ev]
  show ?thesis
    using assms(1-3) st' resps
    by (simp add: sync_def bindL_def doL_def liftR_def syncReq_Check_def thenS_def bindS_def checkS_def returnS_def readS_def loadL_def o_def)
qed

text \<open>After an acknowledgement the queue is read behind the position that it left.\<close>

lemma syncack_moves:
  assumes "bolt_ok (bolt_of ev)" and "syncack ev (Ret ack) s = (Ret (), s')"
    and "getTopic (fs_cfg (ap_fs s)) (UserQueuePrefix @ ya_UID ack) ChannelTypePerson (fs_msgs (ap_fs s)) = Ret (num, name, t, msgs)"
    and "slotNum (ya_UID ack) (ap_fs s) = Ret slot"
  shows "GetMessageOfUserCursor (bolt_of ev) (ya_UID ack) (ap_fs s') = Ret (moved_cursor (tp_lastMsgSeq t)
      (cursor_of (fs_get (bolt_of ev) slot (getMessageOfUserCursorKey (ya_UID ack)) (ap_fs s))) (ya_LastMessageSeq ack))"
    and "fs_msgs (ap_fs s') = msgs"
proof -
  obtain fs where u: "UpdateMessageOfUserCursorIfNeed (bolt_of ev) (ya_UID ack) (ya_LastMessageSeq ack) (ap_fs s) = Ret fs"
    and s': "s' = set_fs fs s"
    using assms(2) by (auto simp: syncack_def syncackReq_Check_def bindS_eq_Ret thenS_eq_Ret writeS_eq_Ret)
  note U = UpdateMessageOfUserCursorIfNeed_ok [OF assms(1,4,3) u]
  show "fs_msgs (ap_fs s') = msgs" using U(2) s' by simp
  have "slotNum (ya_UID ack) fs = Ret slot"
    using u assms(4) by (auto simp: UpdateMessageOfUserCursorIfNeed_def bindR_eq_Ret Let_def fs_set_def with_db_def mapR_def slotNum_def
        split: option.splits if_splits)
  with U(1) s' show "GetMessageOfUserCursor (bolt_of ev) (ya_UID ack) (ap_fs s') = Ret (moved_cursor (tp_lastMsgSeq t)
      (cursor_of (fs_get (bolt_of ev) slot (getMessageOfUserCursorKey (ya_UID ack)) (ap_fs s))) (ya_LastMessageSeq ack))"
    by (simp add: GetMessageOfUserCursor_def)
qed

lemma syncack_cfg:
  assumes "syncack ev (Ret ack) s = (Ret (), s')"
  shows "fs_cfg (ap_fs s') = fs_cfg (ap_fs s)"
proof -
  obtain fs where u: "UpdateMessageOfUserCursorIfNeed (bolt_of ev) (ya_UID ack) (ya_LastMessageSeq ack) (ap_fs s) = Ret fs"
    and s': "s' = set_fs fs s"
    using assms by (auto simp: syncack_def syncackReq_Check_def bindS_eq_Ret thenS_eq_Ret writeS_eq_Ret)
  from u have "fs_cfg fs = fs_cfg (ap_fs s)"
    by (auto simp: UpdateMessageOfUserCursorIfNeed_def bindR_eq_Ret Let_def fs_set_def with_db_def mapR_def
        split: option.splits if_splits)
  with s' show ?thesis by simp
qed

lemma getTopic_again: "getTopic cfg c ct st = Ret (num, name, t, st') \<Longrightarrow> getTopic cfg c ct st' = Ret (num, name, t, st')"
  by (auto simp: getTopic_def slot_getTopic_def Let_def bindR_eq_Ret mapR_def split: option.splits)

lemma next_le: "c \<noteq> - 1 \<Longrightarrow> c + 1 \<le> q \<longleftrightarrow> c < q" for c q :: u32
proof -
  assume "c \<noteq> - 1"
  then have "1 + c \<noteq> 0" by (simp add: add_eq_0_iff)
  then have "unat (c + 1) = Suc (unat c)" using unatSuc by (metis add.commute)
  then show ?thesis by (simp add: word_le_nat_alt word_less_nat_alt Suc_le_eq)
qed

text \<open>The position from which a request is answered: the user's own, when that is smaller or when none is asked for.\<close>

definition sync_from :: "u32 \<Rightarrow> u32 \<Rightarrow> u32" where
  "sync_from messageSeq readed = (if messageSeq = 0 then readed else min messageSeq readed)"

lemma start_seq_eq: "start_seq messageSeq readed = sync_from messageSeq readed + 1"
proof (cases "messageSeq = 0")
  case False
  then have "\<not> messageSeq \<le> 0" by (simp add: word_le_0_iff)
  then show ?thesis using False by (simp add: start_seq_def sync_from_def min_def less_le)
qed (simp add: start_seq_def sync_from_def)

lemma start_seq_le:
  assumes "readed \<noteq> - 1"
  shows "start_seq messageSeq readed \<le> n \<longleftrightarrow> sync_from messageSeq readed < n"
proof -
  have "sync_from messageSeq readed \<le> readed" by (simp add: sync_from_def)
  with assms have "sync_from messageSeq readed \<noteq> - 1" by (metis word_order.extremum_uniqueI)
  then show ?thesis unfolding start_seq_eq by (rule next_le)
qed

lemma sync_after_ack:
  assumes "bolt_ok (bolt_of ev)" and ack: "syncack ev (Ret ack) s = (Ret (), s')"
    and t: "getTopic (fs_cfg (ap_fs s)) (UserQueuePrefix @ ya_UID ack) ChannelTypePerson (fs_msgs (ap_fs s)) = Ret (num, name, t, msgs)"
    and "slotNum (ya_UID ack) (ap_fs s) = Ret slot" and ok: "topic_ok t segs" and "no_streams segs" and last: "tp_lastMsgSeq t \<noteq> - 1"
    and "cursor = moved_cursor (tp_lastMsgSeq t)
      (cursor_of (fs_get (bolt_of ev) slot (getMessageOfUserCursorKey (ya_UID ack)) (ap_fs s))) (ya_LastMessageSeq ack)"
    and "0 \<le> limit"
  shows "\<exists>s2. sync ev (Ret \<lparr>yq_UID = ya_UID ack, yq_MessageSeq = q, yq_Limit = limit\<rparr>) s' =
      Some (Ret (map (\<lambda>m. resp_of (stored m))
        (take (nat limit) (filter (\<lambda>m. sync_from q cursor < GetSeq m) (messages_of segs)))), s2)"
proof -
  have uid: "\<not> blank (ya_UID ack)" using ack by (auto simp: syncack_def syncackReq_Check_def bindS_eq_Ret thenS_eq_Ret)
  note M = syncack_moves [OF assms(1) ack t assms(4), folded assms(8)]
  have "holds (fs_cfg (ap_fs s')) (fs_msgs (ap_fs s')) (UserQueuePrefix @ ya_UID ack) ChannelTypePerson segs"
    using getTopic_again [OF t] ok by (simp add: holds_def M(2) syncack_cfg [OF ack])
  note S = sync_ok [of "\<lparr>yq_UID = ya_UID ack, yq_MessageSeq = q, yq_Limit = limit\<rparr>" ev s' cursor segs]
  have "cursor \<le> tp_lastMsgSeq t" unfolding assms(8) by (rule moved_cursor_le)
  then have "cursor \<noteq> - 1" using last by (metis word_order.extremum_uniqueI)
  note start = start_seq_le [OF this]
  show ?thesis using S uid assms(6,9) M(1) \<open>holds (fs_cfg (ap_fs s')) _ _ _ _\<close> by (simp add: start)
qed

section \<open>Conversations\<close>

text \<open>Nothing is unread after the count was cleared.\<close>

definition manager_of :: "('d, 'l) app \<Rightarrow> ('d, 'l) convmanager" where
  "manager_of s = (ap_conv s)\<lparr>cv_fs := ap_fs s\<rparr>"

lemma unread_loop_exact:
  assumes "lru_ok L" and "\<forall>k c. lr_look L l k = Some c \<longrightarrow> k = channelKey (cv_ChannelID c) (cv_ChannelType c)"
    and "\<forall>k \<in> set ks. lr_look L l k \<noteq> None"
  shows "\<exists>l'. unread_loop L cid ct n s ks l = Ret (channelKey cid ct \<in> set ks, l') \<and>
    (if channelKey cid ct \<in> set ks
     then lr_look L l' = (lr_look L l)(channelKey cid ct := map_option (set_unread n s) (lr_look L l (channelKey cid ct)))
     else lr_look L l' = lr_look L l)"
  using assms(2,3)
proof (induction ks arbitrary: l)
  case (Cons k ks)
  obtain c where c: "lr_look L l k = Some c" using Cons.prems by auto
  have k: "k = channelKey (cv_ChannelID c) (cv_ChannelType c)" using Cons.prems(1) c by blast
  note touch = lru_facts(4) [OF assms(1)]
  show ?case
  proof (cases "k = channelKey cid ct")
    case True
    with k c have "unread_loop L cid ct n s (k # ks) l = Ret (True, lr_change L (lr_touch L l k) k (set_unread n s))"
      by (simp add: lr_Get_def)
    then show ?thesis using True by (simp add: touch lru_facts(8) [OF assms(1)])
  next
    case False
    with k c have "unread_loop L cid ct n s (k # ks) l = unread_loop L cid ct n s ks (lr_touch L l k)"
      by (auto simp: lr_Get_def)
    with Cons.IH [of "lr_touch L l k"] Cons.prems False show ?thesis by (auto simp: touch)
  qed
qed simp

lemma SetConversationUnread_seen:
  assumes lru: "lru_ok (ce_lru ev)" and keyed: "caches_ok ev cv" and set: "SetConversationUnread ev uid cid ct n s cv = Ret cv'"
  shows "\<exists>old. seen ev uid (cid, ct) cv = Ret old \<and> seen ev uid (cid, ct) cv' = Ret (map_option (set_unread n s) old)"
proof -
  let ?L = "ce_lru ev" and ?k = "channelKey cid ct"
  obtain l cv1 where g: "getUserConversationCache ev uid cv = (l, cv1)" by fastforce
  note G = getUserConversationCache_ok [OF lru g]
  have "\<forall>k c. lr_look ?L l k = Some c \<longrightarrow> k = channelKey (cv_ChannelID c) (cv_ChannelType c)"
    using keyed by (simp add: G(2) caches_ok_def)
  from unread_loop_exact [OF lru this, of "lr_keys ?L l" cid ct n s] lru_facts(3) [OF lru, of l]
  obtain l' where u: "unread_loop ?L cid ct n s (lr_keys ?L l) l = Ret (lr_look ?L l ?k \<noteq> None, l')"
    "if lr_look ?L l ?k \<noteq> None then lr_look ?L l' = (lr_look ?L l)(?k := map_option (set_unread n s) (lr_look ?L l ?k))
     else lr_look ?L l' = lr_look ?L l" by auto
  show ?thesis
  proof (cases "lr_look ?L l ?k")
    case (Some c)
    with u set have "cv' = setNeedSave uid (put_cache uid l' cv1)" by (simp add: SetConversationUnread_def g)
    with Some u(2) show ?thesis by (simp add: seen_def cached_def G(1,2) flip: G(2))
  next
    case None
    with u set obtain old where o: "GetConversation (ce_bolt ev) (ce_json ev) uid cid ct (cv_fs cv) = Ret old"
      and cv': "cv' = (case old of None \<Rightarrow> put_cache uid l' cv1 | Some c \<Rightarrow> setNeedSave uid (put_cache uid
        (lr_add ?L l' (channelKey (cv_ChannelID (set_unread n s c)) (cv_ChannelType (set_unread n s c))) (set_unread n s c)) (put_cache uid l' cv1)))"
      by (auto simp: SetConversationUnread_def g G bindR_eq_Ret Let_def split: option.splits)
    have old: "seen ev uid (cid, ct) cv = Ret old" using None o by (simp add: seen_def G(2))
    have "seen ev uid (cid, ct) cv' = Ret (map_option (set_unread n s) old)"
    proof (cases old)
      case None
      with cv' u(2) \<open>lr_look ?L l ?k = None\<close> o show ?thesis by (simp add: seen_def cached_def G(3))
    next
      case (Some c)
      have "cv_ChannelID c = cid \<and> cv_ChannelType c = ct" using o Some by (auto simp: GetConversation_def mapR_def bindR_eq_Ret find_Some_iff)
      with Some cv' show ?thesis by (simp add: seen_def cached_def lru_facts(5) [OF lru])
    qed
    with old show ?thesis by blast
  qed
qed

lemma getUserCacheConversations_cached:
  assumes "lru_ok (ce_lru ev)" and "getUserCacheConversations ev uid cv = (us, cv')"
  shows "cached ev u cv' k = cached ev u cv k"
proof -
  obtain l cv1 where g: "getUserConversationCache ev uid cv = (l, cv1)" by fastforce
  note G = getUserConversationCache_ok [OF assms(1) g]
  have "cv' = put_cache uid (touch_all (ce_lru ev) l) cv1" using assms(2) by (simp add: getUserCacheConversations_def g Let_def)
  then have "cached ev u cv' k = (if u = uid then lr_look (ce_lru ev) l k else cached ev u cv k)"
    by (simp add: cached_def G(1) touch_all_look [OF assms(1)])
  then show ?thesis by (simp add: G(2))
qed

lemma clearUnread_ok:
  assumes lru: "lru_ok (ce_lru (ae_conv ev))" and keyed: "caches_ok (conv_env_of ev) (manager_of s)"
    and clear: "clearConversationUnread ev (Ret req) s = (Ret (), s')"
  shows "\<exists>c. seen (conv_env_of ev) (cu_UID req) (cu_ChannelID req, cu_ChannelType req) (manager_of s') = Ret c \<and> unread_of c = 0"
proof -
  let ?ev = "conv_env_of ev" and ?ch = "(cu_ChannelID req, cu_ChannelType req)"
  have lru': "lru_ok (ce_lru ?ev)" using lru by (simp add: conv_env_of_def)
  obtain r cv where get: "mgr_GetConversation ?ev (cu_UID req) (cu_ChannelID req) (cu_ChannelType req) (manager_of s) = (r, cv)" by fastforce
  define s1 where "s1 = set_fs (cv_fs cv) (s\<lparr>ap_conv := cv\<rparr>)"
  have m1: "manager_of s1 = cv" by (simp add: s1_def manager_of_def)
  obtain us cv1 where us: "getUserCacheConversations ?ev (cu_UID req) (manager_of s) = (us, cv1)" by fastforce
  then have "cv = cv1" using get by (auto simp: mgr_GetConversation_def split: option.splits outcome.splits)
  have ok: "caches_ok ?ev cv"
    using keyed getUserCacheConversations_cached [OF lru' us] \<open>cv = cv1\<close> by (simp add: caches_ok_def)
  show ?thesis
  proof (cases "r = Ret None \<and> cu_MessageSeq req > 0")
    case True
    then have "s' = (let cv' = AddOrUpdateConversation ?ev (cu_UID req) (blank_conversation (cu_UID req) (cu_ChannelID req) (cu_ChannelType req) (cu_MessageSeq req)) cv
        in set_fs (cv_fs cv') (s1\<lparr>ap_conv := cv'\<rparr>))"
      using clear get m1 by (auto simp: clearConversationUnread_def clearUnread_Check_def bindS_eq_Ret thenS_eq_Ret askC_def convS_def manager_of_def s1_def Let_def)
    then show ?thesis
      using AddOrUpdateConversation_ok(2) [OF lru' ok, of "cu_UID req" "blank_conversation (cu_UID req) (cu_ChannelID req) (cu_ChannelType req) (cu_MessageSeq req)"]
      by (simp add: manager_of_def Let_def conv_channel_def blank_conversation_def unread_of_def)
  next
    case False
    then obtain cv' where set: "SetConversationUnread ?ev (cu_UID req) (cu_ChannelID req) (cu_ChannelType req) 0 (cu_MessageSeq req) cv = Ret cv'"
      and s': "s' = set_fs (cv_fs cv') (s1\<lparr>ap_conv := cv'\<rparr>)"
      using clear get m1
      by (auto simp: clearConversationUnread_def clearUnread_Check_def bindS_eq_Ret thenS_eq_Ret askC_def convS_def manager_of_def s1_def
          split: outcome.splits if_splits)
    from SetConversationUnread_seen [OF lru' ok set] s'
    obtain old where "seen ?ev (cu_UID req) ?ch (manager_of s') = Ret (map_option (set_unread 0 (cu_MessageSeq req)) old)"
      by (auto simp: manager_of_def)
    moreover have "unread_of (map_option (set_unread 0 (cu_MessageSeq req)) old) = 0"
      by (simp add: unread_of_def set_unread_def Let_def split: option.split)
    ultimately show ?thesis by blast
  qed
qed

section \<open>The latest messages\<close>

lemma LoadLastMsgsWithEnd_0:
  assumes "holds cfg st c ct segs"
  obtains st' where "LoadLastMsgsWithEnd cfg c ct en 0 st = Some (Ret [], st')" and "holds cfg st' c ct segs"
proof -
  have rd: "\<exists>t'. topic_readLastMessages cfg 0 t = Some ([], Ret (), t') \<and> topic_ok t' segs" if "topic_ok t segs" for t
    using topic_readMessages_ok [OF that, of cfg "tp_lastMsgSeq t + 1" 0] by (auto simp: topic_readLastMessages_def)
  from with_topic_read [where rd = "topic_readLastMessages cfg 0", OF assms rd] that show thesis
    by (auto simp: LoadLastMsgsWithEnd_def)
qed

text \<open>A request that leaves the number of messages open gets none, in both interfaces.\<close>

lemma latest_first_Nil [simp]: "latest_first [] = []"
  by (simp add: latest_first_def)

lemma recent_none:
  assumes "holds (fs_cfg (ap_fs s)) (fs_msgs (ap_fs s)) (message_channel uid (rq_ChannelID c) (rq_ChannelType c)) (rq_ChannelType c) segs"
  shows "\<exists>s'. syncRecentMessages ev (Ret \<lparr>yr_UID = uid, yr_Channels = [c], yr_MsgCount = 0\<rparr>) s =
    Some (Ret [\<lparr>rm_ChannelID = rq_ChannelID c, rm_ChannelType = rq_ChannelType c, rm_Messages = []\<rparr>], s')"
proof -
  obtain st' where "LoadLastMsgsWithEnd (fs_cfg (ap_fs s)) (message_channel uid (rq_ChannelID c) (rq_ChannelType c)) (rq_ChannelType c)
      (rq_LastMsgSeq c) 0 (fs_msgs (ap_fs s)) = Some (Ret [], st')"
    by (rule LoadLastMsgsWithEnd_0 [OF assms])
  moreover have "respsL ev [] s1 = Some (Ret [], s1)" for s1 using resps_plainL [of "[]"] by simp
  ultimately show ?thesis
    by (simp add: syncRecentMessages_def bindL_def doL_def liftR_def returnS_def sayL_def limitL_def loadL_def)
qed

lemma LoadLastMsgs_0:
  assumes "holds cfg st c ct segs"
  obtains st' where "LoadLastMsgs cfg c ct 0 st = Some (Ret [], st')"
proof -
  have rd: "\<exists>t'. topic_readLastMessages cfg 0 t = Some ([], Ret (), t') \<and> topic_ok t' segs" if "topic_ok t segs" for t
    using topic_readMessages_ok [OF that, of cfg "tp_lastMsgSeq t + 1" 0] by (auto simp: topic_readLastMessages_def)
  from with_topic_read [where rd = "topic_readLastMessages cfg 0", OF assms rd] that show thesis
    by (auto simp: LoadLastMsgs_def)
qed

lemma channel_none:
  assumes "holds (fs_cfg (ap_fs s)) (fs_msgs (ap_fs s)) (message_channel uid cid ct) ct segs"
  shows "\<exists>s'. syncMessages ev (Ret \<lparr>sm_LoginUID = uid, sm_Channel = cid, sm_Type = ct, sm_Start = 0, sm_End = 0, sm_Limit = 0,
      sm_PullMode = PullModeDown\<rparr>) s =
    Some (Ret \<lparr>sp_StartMessageSeq = 0, sp_EndMessageSeq = 0, sp_More = 1, sp_Messages = []\<rparr>, s')"
proof -
  obtain st' where "LoadLastMsgs (fs_cfg (ap_fs s)) (message_channel uid cid ct) ct 0 (fs_msgs (ap_fs s)) = Some (Ret [], st')"
    by (rule LoadLastMsgs_0 [OF assms])
  moreover have "respsL ev [] s1 = Some (Ret [], s1)" for s1 using resps_plainL [of "[]"] by simp
  ultimately show ?thesis
    by (cases "ct = ChannelTypePerson")
      (simp_all add: syncMessages_def bindL_def doL_def liftR_def returnS_def limitL_def loadL_def load_range_def more_of_def BoolToInt_def
        message_channel_def)
qed

section \<open>Large groups\<close>

text \<open>The synchronisation writes the last message of a large group into a cached conversation, but does not mark the
  user to be saved.\<close>

lemma large_unmarked:
  assumes lru: "lru_ok (ce_lru (ae_conv ev))" and c: "cached (conv_env_of ev) uid (manager_of s) (channelKey (fst ch) (snd ch)) = Some c"
    and load: "LoadLastMsgs (fs_cfg (ap_fs s)) (fst ch) (snd ch) 1 (fs_msgs (ap_fs s)) = Some (Ret ms, st')" and "ms \<noteq> []"
    and "list_ex (is_channel ch) cs"
  shows "\<exists>cs' s'. sync_larges ev uid [ch] cs [] s = Some (Ret cs', s') \<and>
    cached (conv_env_of ev) uid (manager_of s') (channelKey (fst ch) (snd ch)) = Some (from_last (last ms) c) \<and>
    marked (manager_of s') = marked (manager_of s) \<and> fs_db (ap_fs s') = fs_db (ap_fs s)"
proof -
  let ?s1 = "set_fs ((ap_fs s)\<lparr>fs_msgs := st'\<rparr>) s" and ?ev = "conv_env_of ev"
  let ?cv = "change_cached ?ev uid ch (last ms) (manager_of ?s1)"
  have lru': "lru_ok (ce_lru ?ev)" using lru by (simp add: conv_env_of_def)
  have caches: "cv_caches (manager_of ?s1) = cv_caches (manager_of s)" by (simp add: manager_of_def)
  obtain l where l: "cv_caches (manager_of s) uid = Some l" "lr_look (ce_lru ?ev) l (channelKey (fst ch) (snd ch)) = Some c"
    using c by (auto simp: cached_def split: option.splits)
  define s2 where "s2 = set_fs (cv_fs ?cv) (?s1\<lparr>ap_conv := ?cv\<rparr>)"
  have "sync_larges ev uid [ch] cs [] s = Some (Ret (change_first (is_channel ch) (from_last (last ms)) cs), s2)"
    using load assms(4,5) by (simp add: bindL_def sayL_def loadL_def convS_def doL_def returnS_def manager_of_def s2_def)
  moreover have m: "manager_of s2 = ?cv" "ap_fs s2 = cv_fs ?cv" by (simp_all add: manager_of_def s2_def)
  moreover have "cached ?ev uid ?cv (channelKey (fst ch) (snd ch)) = Some (from_last (last ms) c)"
    using l caches by (simp add: change_cached_def cached_def lru_facts(8) [OF lru'])
  moreover have "marked ?cv = marked (manager_of s)" "fs_db (cv_fs ?cv) = fs_db (ap_fs s)"
    using l(1) caches by (simp_all add: change_cached_def marked_def) (simp_all add: manager_of_def)
  ultimately show ?thesis by metis
qed

end
