(* ===== verification/Webhook.thy ===== *)
theory Webhook
  imports MessageResp Auth
begin

text \<open>
  The reports to the application behind the server, \<^verbatim>\<open>internal/server/webbhook.go\<close>: users coming online
  and leaving, messages in the order of the queue, messages for users who are offline. A request to the
  application is made over HTTP or gRPC; its answer is an argument. A loop is given by one of its rounds.
\<close>

section \<open>Requests\<close>

record webhook_opts =
  wh_ID :: i64
  wh_HTTPAddr :: gostring
  wh_MsgNotifyEventCountPerPush :: nat
  wh_MsgNotifyEventRetryMaxCount :: nat
  wh_SubscriberCompressOfCount :: nat

definition EventMsgOffline :: gostring where "EventMsgOffline = str ''msg.offline''"
definition EventMsgNotify :: gostring where "EventMsgNotify = str ''msg.notify''"
definition EventOnlineStatus :: gostring where "EventOnlineStatus = str ''user.onlinestatus''"

text \<open>The status of the HTTP answer, and the status that the gRPC service returns; errors are those of the connection.\<close>

definition sendWebhookForHttp :: "nat outcome \<Rightarrow> unit outcome" where
  "sendWebhookForHttp answer =
     bindR answer (\<lambda>status. if status \<noteq> 200 then Fail (ErrMsg ''the application answers with a wrong status'') else Ret ())"

definition webhook_url :: "webhook_opts \<Rightarrow> gostring \<Rightarrow> gostring" where
  "webhook_url wo event = wh_HTTPAddr wo @ str ''?event='' @ event"

definition sendWebhookForGRPC :: "unit outcome \<Rightarrow> bool outcome \<Rightarrow> unit outcome" where
  "sendWebhookForGRPC pool answer =
     bindR pool (\<lambda>_. bindR answer (\<lambda>success. if \<not> success then Fail (ErrMsg ''grpc status error'') else Ret ()))"

record answers =
  an_http :: "nat outcome"
  an_pool :: "unit outcome"
  an_grpc :: "bool outcome"

definition request :: "options \<Rightarrow> answers \<Rightarrow> unit outcome" where
  "request opts an = (if WebhookGRPCOn opts then sendWebhookForGRPC (an_pool an) (an_grpc an) else sendWebhookForHttp (an_http an))"

section \<open>Online status\<close>

record status_loop =
  sl_list :: "gostring list"
  sl_opLen :: nat
  sl_errCount :: nat

text \<open>
  One round. Reports arrive at any time, at the end of the list; only the loop takes from it, so what
  arrives during a request is as if it came right after it. \<open>accepts\<close> tells how the request ends. The result names the batch that was finished:
  accepted, or given up.
\<close>

definition status_round :: "nat \<Rightarrow> (gostring list \<Rightarrow> bool) \<Rightarrow> status_loop \<Rightarrow> (bool \<times> gostring list) option \<times> status_loop" where
  "status_round maxCount accepts s =
     (let opLen = (if sl_opLen s = 0 then length (sl_list s) else sl_opLen s); s = s\<lparr>sl_opLen := opLen\<rparr> in
      if opLen = 0 then (None, s)
      else
        let data = take opLen (sl_list s); rest = s\<lparr>sl_list := drop opLen (sl_list s), sl_opLen := 0\<rparr> in
        if accepts data then (Some (True, data), rest)
        else
          let errCount = sl_errCount s + 1 in
          if errCount \<ge> maxCount then (Some (False, data), rest\<lparr>sl_errCount := 0\<rparr>)
          else (None, s\<lparr>sl_errCount := errCount\<rparr>))"

definition loopOnlineStatus_round :: "options \<Rightarrow> webhook_opts \<Rightarrow> (gostring list \<Rightarrow> answers) \<Rightarrow> status_loop \<Rightarrow> (bool \<times> gostring list) option \<times> status_loop" where
  "loopOnlineStatus_round opts wo an s =
     (if \<not> WebhookOn opts then (None, s)
      else status_round (wh_MsgNotifyEventRetryMaxCount wo) (\<lambda>data. request opts (an data) = Ret ()) s)"

text \<open>Reports and rounds in any order: the reports so far, and the batches that were finished.\<close>

inductive status_run :: "options \<Rightarrow> webhook_opts \<Rightarrow> status_loop \<Rightarrow> gostring list \<Rightarrow> (bool \<times> gostring list) list \<Rightarrow> bool" for opts wo where
  start: "status_run opts wo \<lparr>sl_list = [], sl_opLen = 0, sl_errCount = 0\<rparr> [] []"
| report: "status_run opts wo s reports batches \<Longrightarrow> status_run opts wo (s\<lparr>sl_list := sl_list s @ [r]\<rparr>) (reports @ [r]) batches"
| round: "status_run opts wo s reports batches \<Longrightarrow> loopOnlineStatus_round opts wo an s = (b, s') \<Longrightarrow>
    status_run opts wo s' reports (batches @ (case b of None \<Rightarrow> [] | Some b \<Rightarrow> [b]))"

lemma status_round_cases:
  assumes "status_round maxCount accepts s = (b, s')" and "sl_opLen s \<le> length (sl_list s)"
  shows "sl_opLen s' \<le> length (sl_list s')"
    and "concat (map snd (case b of None \<Rightarrow> [] | Some b \<Rightarrow> [b])) @ sl_list s' = sl_list s"
    and "b = Some (f, data) \<Longrightarrow> data \<noteq> [] \<and> f = accepts data"
  using assms by (auto simp: status_round_def Let_def split: if_splits)

lemma status_run_inv:
  assumes "status_run opts wo s reports batches"
  shows "sl_opLen s \<le> length (sl_list s) \<and> reports = concat (map snd batches) @ sl_list s \<and> (\<forall>b \<in> set batches. snd b \<noteq> [])"
  using assms
proof induction
  case (round s reports batches an b s')
  show ?case
  proof (cases "WebhookOn opts")
    case True
    with round.hyps(2) have r: "status_round (wh_MsgNotifyEventRetryMaxCount wo) (\<lambda>data. request opts (an data) = Ret ()) s = (b, s')"
      by (simp add: loopOnlineStatus_round_def)
    note R = status_round_cases [OF r]
    show ?thesis using round.IH R(1,2) R(3) by (cases b) force+
  qed (use round in \<open>auto simp: loopOnlineStatus_round_def\<close>)
qed auto

text \<open>The errors of all batches are counted together: a batch that is accepted does not end the count, so the
  first error of the next batch can be the one that gives it up.\<close>

lemma errors_add_up:
  assumes "Suc (sl_errCount s) = maxCount" and "sl_opLen s = 0" and "xs \<noteq> []" and "ys \<noteq> []"
  shows "(let s1 = snd (status_round maxCount (\<lambda>_. True) (s\<lparr>sl_list := xs\<rparr>)) in status_round maxCount (\<lambda>_. False) (s1\<lparr>sl_list := ys\<rparr>)) =
    (Some (False, ys), s\<lparr>sl_list := [], sl_errCount := 0\<rparr>)"
  using assms by (simp add: status_round_def Let_def)

section \<open>The queue of messages\<close>

text \<open>What a round does with the batch it took: nothing to send, accepted, or refused, with the identifiers
  of the messages that are given up.\<close>

datatype notify_event = Idle | Accepted "message list" | Refused "message list" "i64 list"

fun count_errors :: "nat \<Rightarrow> message list \<Rightarrow> (i64 \<rightharpoonup> nat) \<Rightarrow> i64 list \<times> (i64 \<rightharpoonup> nat)" where
  "count_errors maxCount [] errs = ([], errs)"
| "count_errors maxCount (m # ms) errs =
     (let i = GetMessageID m; n = Suc (case errs i of None \<Rightarrow> 0 | Some n \<Rightarrow> n);
          (ids, errs) = count_errors maxCount ms (errs(i \<mapsto> n)) in
      (if n \<ge> maxCount then i # ids else ids, errs))"

definition forget :: "i64 list \<Rightarrow> (i64 \<rightharpoonup> nat) \<Rightarrow> (i64 \<rightharpoonup> nat)" where
  "forget ids errs = fold (\<lambda>i errs. errs(i := None)) ids errs"

text \<open>A removal that fails leaves the database as it was: it is one transaction.\<close>

definition removed :: "'d filestore outcome \<Rightarrow> 'd filestore \<Rightarrow> 'd filestore outcome" where
  "removed r fs = (case r of Fail _ \<Rightarrow> Ret fs | r \<Rightarrow> r)"

definition notifyQueueLoop_round ::
    "options \<Rightarrow> webhook_opts \<Rightarrow> 'd bolt \<Rightarrow> (bytes \<times> bytes) list \<Rightarrow> (MessageResp list \<Rightarrow> answers) \<Rightarrow> 'd filestore \<Rightarrow> (i64 \<rightharpoonup> nat) \<Rightarrow>
     (notify_event \<times> 'd filestore \<times> (i64 \<rightharpoonup> nat)) outcome" where
  "notifyQueueLoop_round opts wo bo cursor an fs errs =
     (if \<not> WebhookOn opts then Ret (Idle, fs, errs)
      else case GetMessagesOfNotifyQueue bo (wh_MsgNotifyEventCountPerPush wo) fs of
          Panic \<Rightarrow> Panic
        | Fail _ \<Rightarrow> Ret (Idle, fs, errs)
        | Ret messages \<Rightarrow>
            if messages = [] then Ret (Idle, fs, errs)
            else case request opts (an (map resp_of messages)) of
                Ret _ \<Rightarrow>
                  let ids = map GetMessageID messages in
                  mapR (\<lambda>fs. (Accepted messages, fs, forget ids errs)) (removed (RemoveMessagesOfNotifyQueue bo cursor ids fs) fs)
              | Fail _ \<Rightarrow>
                  let (ids, errs) = count_errors (wh_MsgNotifyEventRetryMaxCount wo) messages errs in
                  mapR (\<lambda>fs. (Refused messages ids, fs, forget ids errs)) (removed (RemoveMessagesOfNotifyQueue bo cursor ids fs) fs)
              | Panic \<Rightarrow> Panic)"

text \<open>
  The keys of the queue are numbers that the database gives out. Its documentation promises that they only
  increase: \<open>sq\<close> is the last number that was given out.
\<close>

definition queue_get :: "'d bolt \<Rightarrow> 'd filestore \<Rightarrow> bytes \<Rightarrow> bytes option" where
  "queue_get bo fs k = bo_get bo (fs_db fs) notifyQueuePrefix k"

definition bolt_numbers :: "'d bolt \<Rightarrow> ('d \<Rightarrow> nat) \<Rightarrow> bool" where
  "bolt_numbers bo sq \<longleftrightarrow>
     (\<forall>db n db'. bo_next bo db notifyQueuePrefix = Ret (n, db') \<longrightarrow> unat n = Suc (sq db) \<and> sq db' = Suc (sq db)) \<and>
     (\<forall>db b k v db'. bo_put bo db b k v = Ret db' \<longrightarrow> sq db' = sq db) \<and>
     (\<forall>db b k db'. bo_delete bo db b k = Ret db' \<longrightarrow> sq db' = sq db)"

text \<open>No entry has a number that is still to be given out.\<close>

definition queue_numbered :: "'d bolt \<Rightarrow> ('d \<Rightarrow> nat) \<Rightarrow> 'd \<Rightarrow> bool" where
  "queue_numbered bo sq db \<longleftrightarrow> (\<forall>k v. bo_get bo db notifyQueuePrefix k = Some v \<longrightarrow> (\<exists>n. k = itob n \<and> unat n \<le> sq db))"

text \<open>Rounds and messages that arrive, in any order. The cursor of a round yields entries of the queue, perhaps
  not all of them.\<close>

inductive notify_run :: "options \<Rightarrow> webhook_opts \<Rightarrow> 'd bolt \<Rightarrow> 'd filestore \<Rightarrow> (i64 \<rightharpoonup> nat) \<Rightarrow> notify_event list \<Rightarrow>
    'd filestore \<Rightarrow> (i64 \<rightharpoonup> nat) \<Rightarrow> bool" for opts wo bo fs0 errs0 where
  start: "notify_run opts wo bo fs0 errs0 [] fs0 errs0"
| round: "notify_run opts wo bo fs0 errs0 evs fs errs \<Longrightarrow> set cursor \<subseteq> set (bo_items bo (fs_db fs) notifyQueuePrefix) \<Longrightarrow>
    notifyQueueLoop_round opts wo bo cursor an fs errs = Ret (ev, fs', errs') \<Longrightarrow>
    notify_run opts wo bo fs0 errs0 (evs @ [ev]) fs' errs'"
| arrive: "notify_run opts wo bo fs0 errs0 evs fs errs \<Longrightarrow> AppendMessageOfNotifyQueue bo ms fs = Ret fs' \<Longrightarrow>
    notify_run opts wo bo fs0 errs0 evs fs' errs"

definition refusals :: "i64 \<Rightarrow> notify_event list \<Rightarrow> nat" where
  "refusals i evs = sum_list (map (\<lambda>ev. case ev of Refused ms _ \<Rightarrow> count_list (map GetMessageID ms) i | _ \<Rightarrow> 0) evs)"

definition errors_of :: "(i64 \<rightharpoonup> nat) \<Rightarrow> i64 \<Rightarrow> nat" where
  "errors_of errs i = (case errs i of None \<Rightarrow> 0 | Some n \<Rightarrow> n)"

definition one_more :: "i64 \<Rightarrow> (i64 \<rightharpoonup> nat) \<Rightarrow> (i64 \<rightharpoonup> nat)" where
  "one_more i errs = errs(i \<mapsto> Suc (errors_of errs i))"

lemma errors_one_more: "errors_of (one_more i errs) j = errors_of errs j + (if i = j then 1 else 0)"
  by (simp add: errors_of_def one_more_def)

lemma count_errors_Cons:
  "count_errors maxCount (m # ms) errs =
    (let r = count_errors maxCount ms (one_more (GetMessageID m) errs) in
     (if Suc (errors_of errs (GetMessageID m)) \<ge> maxCount then GetMessageID m # fst r else fst r, snd r))"
  by (simp add: Let_def errors_of_def one_more_def split: prod.split)

lemma count_errors_adds: "errors_of (snd (count_errors maxCount ms errs)) i = errors_of errs i + count_list (map GetMessageID ms) i"
  by (induction ms arbitrary: errs) (simp_all add: count_errors_Cons Let_def errors_one_more del: count_errors.simps(2))

lemma count_errors_given_up:
  "i \<in> set (fst (count_errors maxCount ms errs)) \<Longrightarrow> maxCount \<le> errors_of (snd (count_errors maxCount ms errs)) i"
proof (induction ms arbitrary: errs)
  case (Cons m ms)
  with count_errors_adds [of maxCount ms "one_more (GetMessageID m) errs" "GetMessageID m"] show ?case
    by (auto simp: count_errors_Cons Let_def errors_one_more simp del: count_errors.simps(2) split: if_splits)
qed simp

lemma count_errors_spec:
  assumes "count_errors maxCount ms errs = (ids, errs')"
  shows "errors_of errs' i = errors_of errs i + count_list (map GetMessageID ms) i"
    and "i \<in> set ids \<Longrightarrow> maxCount \<le> errors_of errs' i"
  using count_errors_adds [of maxCount ms errs i] count_errors_given_up [of i maxCount ms errs] assms by simp_all

lemma forget_apply: "forget ids errs i = (if i \<in> set ids then None else errs i)"
  unfolding forget_def by (induction ids arbitrary: errs) (simp_all add: forget_def)

lemma errors_forget: "errors_of (forget ids errs) i \<le> errors_of errs i"
  by (simp add: errors_of_def forget_apply)

lemma queue_items: "bolt_ok bo \<Longrightarrow> (k, v) \<in> set (bo_items bo db b) \<Longrightarrow> bo_get bo db b k = Some v"
  unfolding bolt_ok_def by metis

lemma itob_inj: "itob m = itob n \<longleftrightarrow> m = n"
  by (metis itob_def Encoding_Uint64_Write)

lemma numbers_next:
  assumes "bolt_numbers bo sq" and "bo_next bo db notifyQueuePrefix = Ret (n, db')"
  shows "unat n = Suc (sq db)" and "sq db' = Suc (sq db)"
  using assms unfolding bolt_numbers_def by blast+

lemma numbers_put: "bolt_numbers bo sq \<Longrightarrow> bo_put bo db b k v = Ret db' \<Longrightarrow> sq db' = sq db"
  unfolding bolt_numbers_def by blast

lemma numbers_delete: "bolt_numbers bo sq \<Longrightarrow> bo_delete bo db b k = Ret db' \<Longrightarrow> sq db' = sq db"
  unfolding bolt_numbers_def by blast

lemma bolt_next: "bolt_ok bo \<Longrightarrow> bo_next bo db b = Ret (n, db') \<Longrightarrow> bo_get bo db' b' k = bo_get bo db b' k"
  unfolding bolt_ok_def by blast

lemma numbered_up: "queue_numbered bo sq db \<Longrightarrow> (\<And>k. bo_get bo db' notifyQueuePrefix k = bo_get bo db notifyQueuePrefix k) \<Longrightarrow>
    sq db \<le> sq db' \<Longrightarrow> queue_numbered bo sq db'"
  unfolding queue_numbered_def by simp (blast intro: order_trans)

lemma numbered_put:
  assumes "queue_numbered bo sq db" and "unat n = Suc (sq db)" and "sq db' = Suc (sq db)"
    and "\<And>k. bo_get bo db' notifyQueuePrefix k = (if k = itob n then Some v else bo_get bo db notifyQueuePrefix k)"
  shows "queue_numbered bo sq db'" and "bo_get bo db notifyQueuePrefix (itob n) = None"
proof -
  show "queue_numbered bo sq db'"
    unfolding queue_numbered_def
  proof (intro allI impI)
    fix k w assume w: "bo_get bo db' notifyQueuePrefix k = Some w"
    show "\<exists>n. k = itob n \<and> unat n \<le> sq db'"
    proof (cases "k = itob n")
      case False
      with w assms(4) have "bo_get bo db notifyQueuePrefix k = Some w" by simp
      with assms(1) obtain j where "k = itob j" "unat j \<le> sq db" unfolding queue_numbered_def by blast
      with assms(3) show ?thesis by auto
    qed (use assms(2,3) in auto)
  qed
  show "bo_get bo db notifyQueuePrefix (itob n) = None"
  proof (rule ccontr)
    assume "bo_get bo db notifyQueuePrefix (itob n) \<noteq> None"
    then obtain j where "itob n = itob j" "unat j \<le> sq db" using assms(1) unfolding queue_numbered_def by blast
    with assms(2) show False by (simp add: itob_inj)
  qed
qed

text \<open>What arrives takes numbers of its own, so it overwrites nothing.\<close>

lemma append_entries_keeps:
  assumes "bolt_ok bo" and "bolt_numbers bo sq" and "append_entries bo ms db = Ret db'" and "queue_numbered bo sq db"
  shows "queue_numbered bo sq db'"
    and "bo_get bo db notifyQueuePrefix k = Some v \<Longrightarrow> bo_get bo db' notifyQueuePrefix k = Some v"
proof -
  have "queue_numbered bo sq db' \<and>
      (\<forall>k v. bo_get bo db notifyQueuePrefix k = Some v \<longrightarrow> bo_get bo db' notifyQueuePrefix k = Some v)"
    using assms(3,4)
  proof (induction ms arbitrary: db)
    case (Cons m ms)
    from Cons.prems(1) obtain n db1 where n: "bo_next bo db notifyQueuePrefix = Ret (n, db1)"
      and r: "(case bo_put bo db1 notifyQueuePrefix (itob n) (Message_Encode m) of
         Ret db2 \<Rightarrow> append_entries bo ms db2 | Fail _ \<Rightarrow> append_entries bo ms db1 | Panic \<Rightarrow> Panic) = Ret db'"
      by (auto simp: bindR_eq_Ret)
    note sq = numbers_next [OF assms(2) n] and same = bolt_next [OF assms(1) n]
    have num: "queue_numbered bo sq db1" by (rule numbered_up [OF Cons.prems(2) same]) (simp add: sq)
    show ?case
    proof (cases "bo_put bo db1 notifyQueuePrefix (itob n) (Message_Encode m)")
      case (Ret db2)
      have get: "bo_get bo db2 notifyQueuePrefix k = (if k = itob n then Some (Message_Encode m) else bo_get bo db notifyQueuePrefix k)" for k
        using bolt_put [OF assms(1) Ret] by (simp add: same)
      note new = numbered_put [OF Cons.prems(2) sq(1) _ get, unfolded numbers_put [OF assms(2) Ret], OF sq(2)]
      from Ret r have "append_entries bo ms db2 = Ret db'" by simp
      note IH = Cons.IH [OF this new(1)]
      have "bo_get bo db2 notifyQueuePrefix k = Some v" if "bo_get bo db notifyQueuePrefix k = Some v" for k v
        using that get [of k] new(2) by (cases "k = itob n") simp_all
      with IH show ?thesis by blast
    qed (use Cons.IH [of db1] r num same in simp_all)
  qed simp
  then show "queue_numbered bo sq db'"
    "bo_get bo db notifyQueuePrefix k = Some v \<Longrightarrow> bo_get bo db' notifyQueuePrefix k = Some v" by blast+
qed

lemma arrival_keeps:
  assumes "bolt_ok bo" and "bolt_numbers bo sq" and "AppendMessageOfNotifyQueue bo ms fs = Ret fs'" and "queue_numbered bo sq (fs_db fs)"
  shows "queue_numbered bo sq (fs_db fs')" and "queue_get bo fs k = Some v \<Longrightarrow> queue_get bo fs' k = Some v"
proof -
  from assms(3) obtain db where "append_entries bo ms (fs_db fs) = Ret db" "fs' = fs\<lparr>fs_db := db\<rparr>"
    by (auto simp: AppendMessageOfNotifyQueue_def with_db_def mapR_def bindR_eq_Ret)
  with append_entries_keeps [OF assms(1,2) this(1) assms(4)] show "queue_numbered bo sq (fs_db fs')"
    "queue_get bo fs k = Some v \<Longrightarrow> queue_get bo fs' k = Some v" by (simp_all add: queue_get_def)
qed

lemma remove_entries_numbers:
  "bolt_numbers bo sq \<Longrightarrow> remove_entries bo ids es db = Ret db' \<Longrightarrow> sq db' = sq db"
proof (induction es arbitrary: db)
  case (Cons e es)
  obtain k v where e: "e = (k, v)" by fastforce
  with Cons.prems obtain m where m: "Message_Decode v = Ret m" by (auto simp: bindR_eq_Ret)
  show ?case
  proof (cases "GetMessageID m \<in> set ids")
    case True
    with Cons.prems m e obtain db1 where d: "bo_delete bo db notifyQueuePrefix k = Ret db1" "remove_entries bo ids es db1 = Ret db'"
      by (auto simp: bindR_eq_Ret)
    from Cons.IH [OF Cons.prems(1) d(2)] numbers_delete [OF Cons.prems(1) d(1)] show ?thesis by simp
  qed (use Cons m e in simp)
qed simp

lemma remove_entries_keys:
  assumes "bolt_ok bo" and "remove_entries bo ids es db = Ret db'" and "bo_get bo db' notifyQueuePrefix k = Some v"
  shows "bo_get bo db notifyQueuePrefix k = Some v"
  using remove_entries_get [OF assms(1,2), of k] assms(3) by (metis option.distinct(1))

lemma removed_Ret:
  "removed (RemoveMessagesOfNotifyQueue bo cursor ids fs) fs = Ret fs' \<Longrightarrow>
    fs' = fs \<or> (\<exists>db. remove_entries bo ids cursor (fs_db fs) = Ret db \<and> fs' = fs\<lparr>fs_db := db\<rparr>)"
  by (auto simp: removed_def RemoveMessagesOfNotifyQueue_def with_db_def mapR_def bindR_eq_Ret split: outcome.splits if_splits)

lemma removed_numbered:
  assumes "bolt_ok bo" and "bolt_numbers bo sq" and "removed (RemoveMessagesOfNotifyQueue bo cursor ids fs) fs = Ret fs'"
    and "queue_numbered bo sq (fs_db fs)"
  shows "queue_numbered bo sq (fs_db fs')"
  using removed_Ret [OF assms(3)]
proof (elim disjE exE conjE)
  fix db assume db: "remove_entries bo ids cursor (fs_db fs) = Ret db" "fs' = fs\<lparr>fs_db := db\<rparr>"
  have "queue_numbered bo sq db"
    using assms(4) remove_entries_keys [OF assms(1) db(1)]
    unfolding queue_numbered_def remove_entries_numbers [OF assms(2) db(1)] by blast
  with db(2) show ?thesis by simp
qed (use assms(4) in simp)

lemma removed_get:
  assumes "bolt_ok bo" and "removed (RemoveMessagesOfNotifyQueue bo cursor ids fs) fs = Ret fs'"
    and "queue_get bo fs k = Some v" and "queue_get bo fs' k \<noteq> Some v"
    and "set cursor \<subseteq> set (bo_items bo (fs_db fs) notifyQueuePrefix)"
  shows "\<exists>m. Message_Decode v = Ret m \<and> GetMessageID m \<in> set ids"
proof (cases "RemoveMessagesOfNotifyQueue bo cursor ids fs")
  case (Ret fs2)
  with assms(2) have r: "RemoveMessagesOfNotifyQueue bo cursor ids fs = Ret fs'" by (simp add: removed_def)
  show ?thesis
  proof (cases ids)
    case Nil
    with r assms(3,4) show ?thesis by (simp add: RemoveMessagesOfNotifyQueue_def)
  next
    case (Cons i js)
    with r obtain db where db: "remove_entries bo ids cursor (fs_db fs) = Ret db" "fs_db fs' = db"
      by (auto simp: RemoveMessagesOfNotifyQueue_def with_db_def mapR_def bindR_eq_Ret)
    from remove_entries_get [OF assms(1) db(1), of k] assms(3,4) db(2)
    obtain v' m where m: "(k, v') \<in> set cursor" "Message_Decode v' = Ret m" "GetMessageID m \<in> set ids"
      by (auto simp: queue_get_def split: if_splits)
    with assms(5) have "bo_get bo (fs_db fs) notifyQueuePrefix k = Some v'" using queue_items [OF assms(1)] by blast
    with assms(3) m show ?thesis by (simp add: queue_get_def)
  qed
qed (use assms in \<open>simp_all add: removed_def\<close>)

text \<open>A message leaves the queue with a batch that was accepted, or with one that was refused and gives it up.\<close>

lemma round_cases:
  assumes "bolt_ok bo" and "set cursor \<subseteq> set (bo_items bo (fs_db fs) notifyQueuePrefix)"
    and "notifyQueueLoop_round opts wo bo cursor an fs errs = Ret (ev, fs', errs')"
  shows "errors_of errs' i \<le> errors_of errs i + refusals i [ev]"
    and "queue_get bo fs k = Some v \<Longrightarrow> queue_get bo fs' k = Some v \<or>
      (\<exists>m. Message_Decode v = Ret m \<and>
        ((\<exists>ms. ev = Accepted ms \<and> GetMessageID m \<in> GetMessageID ` set ms) \<or>
         wh_MsgNotifyEventRetryMaxCount wo \<le> errors_of errs (GetMessageID m) + refusals (GetMessageID m) [ev]))"
    and "bolt_numbers bo sq \<Longrightarrow> queue_numbered bo sq (fs_db fs) \<Longrightarrow> queue_numbered bo sq (fs_db fs')"
proof -
  let ?max = "wh_MsgNotifyEventRetryMaxCount wo"
  consider "ev = Idle" "fs' = fs" "errs' = errs"
    | ms where "ev = Accepted ms" "errs' = forget (map GetMessageID ms) errs"
      "removed (RemoveMessagesOfNotifyQueue bo cursor (map GetMessageID ms) fs) fs = Ret fs'"
    | ms ids errs1 where "ev = Refused ms ids" "count_errors ?max ms errs = (ids, errs1)" "errs' = forget ids errs1"
      "removed (RemoveMessagesOfNotifyQueue bo cursor ids fs) fs = Ret fs'"
    using assms(3) unfolding notifyQueueLoop_round_def
    by (auto simp: Let_def mapR_def bindR_eq_Ret split: if_splits outcome.splits prod.splits)
  note C = this
  show "queue_numbered bo sq (fs_db fs')" if "bolt_numbers bo sq" "queue_numbered bo sq (fs_db fs)"
    using C by cases (use that removed_numbered [OF assms(1) that(1) _ that(2)] in auto)
  show "errors_of errs' i \<le> errors_of errs i + refusals i [ev]"
    using C
  proof cases
    case 3
    from errors_forget [of ids errs1 i] count_errors_spec(1) [OF 3(2), of i] 3(1,3) show ?thesis by (simp add: refusals_def)
  qed (use errors_forget le_add1 le_trans in \<open>auto simp: refusals_def\<close>)
  assume v: "queue_get bo fs k = Some v"
  show "queue_get bo fs' k = Some v \<or>
      (\<exists>m. Message_Decode v = Ret m \<and>
        ((\<exists>ms. ev = Accepted ms \<and> GetMessageID m \<in> GetMessageID ` set ms) \<or>
         ?max \<le> errors_of errs (GetMessageID m) + refusals (GetMessageID m) [ev]))"
    using C
  proof cases
    case 2
    from removed_get [OF assms(1) 2(3) v _ assms(2)] 2(1) show ?thesis by auto
  next
    case 3
    show ?thesis
    proof (rule disjCI)
      assume "\<not> (\<exists>m. Message_Decode v = Ret m \<and>
        ((\<exists>ms. ev = Accepted ms \<and> GetMessageID m \<in> GetMessageID ` set ms) \<or>
         ?max \<le> errors_of errs (GetMessageID m) + refusals (GetMessageID m) [ev]))"
      with 3 removed_get [OF assms(1) 3(4) v _ assms(2)] count_errors_spec [OF 3(2)]
      show "queue_get bo fs' k = Some v" by (fastforce simp: refusals_def)
    qed
  qed (use v in simp)
qed

lemma refusals_append: "refusals i (evs @ evs') = refusals i evs + refusals i evs'"
  by (simp add: refusals_def)

lemma run_errors:
  assumes "notify_run opts wo bo fs0 errs0 evs fs errs" and "bolt_ok bo"
  shows "errors_of errs i \<le> errors_of errs0 i + refusals i evs"
  using assms
proof induction
  case (round evs fs errs cursor an ev fs' errs')
  from round_cases(1) [OF round.prems round.hyps(2,3), of i] round.IH round.prems show ?case by (simp add: refusals_append)
qed simp_all

lemma run_numbered:
  assumes "notify_run opts wo bo fs0 errs0 evs fs errs" and "bolt_ok bo" and "bolt_numbers bo sq" and "queue_numbered bo sq (fs_db fs0)"
  shows "queue_numbered bo sq (fs_db fs)"
  using assms
proof induction
  case (round evs fs errs cursor an ev fs' errs')
  from round_cases(3) [OF round.prems(1) round.hyps(2,3) round.prems(2)] round show ?case by blast
next
  case (arrive evs fs errs ms fs')
  from arrival_keeps(1) [OF arrive.prems(1,2) arrive.hyps(2)] arrive show ?case by blast
qed

lemma run_settles:
  assumes "notify_run opts wo bo fs0 errs0 evs fs errs" and "bolt_ok bo" and "bolt_numbers bo sq" and "queue_numbered bo sq (fs_db fs0)"
    and "queue_get bo fs0 k = Some v"
  shows "queue_get bo fs k = Some v \<or>
    (\<exists>m. Message_Decode v = Ret m \<and>
      ((\<exists>ms. Accepted ms \<in> set evs \<and> GetMessageID m \<in> GetMessageID ` set ms) \<or>
       wh_MsgNotifyEventRetryMaxCount wo \<le> errors_of errs0 (GetMessageID m) + refusals (GetMessageID m) evs))"
  using assms
proof induction
  case (round evs fs errs cursor an ev fs' errs')
  show ?case
  proof (cases "queue_get bo fs k = Some v")
    case True
    have le: "errors_of errs i + refusals i [ev] \<le> errors_of errs0 i + refusals i (evs @ [ev])" for i
      using run_errors [OF round.hyps(1) round.prems(1), of i] by (simp add: refusals_append)
    from round_cases(2) [OF round.prems(1) round.hyps(2,3) True] le show ?thesis
      by (fastforce intro: le_trans)
  next
    case False
    with round.IH round.prems show ?thesis by (fastforce simp: refusals_append intro: le_trans)
  qed
next
  case (arrive evs fs errs ms fs')
  note keeps = arrival_keeps(2) [OF arrive.prems(1,2) arrive.hyps(2) run_numbered [OF arrive.hyps(1) arrive.prems(1-3)]]
  from arrive.IH [OF arrive.prems] keeps [of k v] show ?case by blast
qed simp

text \<open>An entry that does not decode stops every removal that reaches it; the batch is sent again and again.\<close>

lemma undecodable_stops:
  assumes "(k, v) \<in> set es" and "Message_Decode v = Fail e"
  shows "remove_entries bo ids es db \<noteq> Ret db'"
  using assms(1)
proof (induction es arbitrary: db)
  case (Cons x es)
  then show ?case using assms(2) by (cases x) (auto simp: bindR_eq_Ret)
qed simp

lemma round_repeats:
  assumes "(k, v) \<in> set cursor" and "Message_Decode v = Fail e"
    and "notifyQueueLoop_round opts wo bo cursor an fs errs = Ret (ev, fs', errs')"
  shows "fs' = fs" and "ev = Accepted ms \<Longrightarrow> GetMessagesOfNotifyQueue bo (wh_MsgNotifyEventCountPerPush wo) fs = Ret ms"
proof -
  have "removed (RemoveMessagesOfNotifyQueue bo cursor ids fs) fs = Ret fs' \<Longrightarrow> fs' = fs" for ids fs'
    using undecodable_stops [OF assms(1,2), of bo]
    by (auto 0 3 simp: removed_def RemoveMessagesOfNotifyQueue_def with_db_def mapR_def bindR_eq_Ret split: outcome.splits if_splits)
  with assms(3) show "fs' = fs" unfolding notifyQueueLoop_round_def
    by (auto simp: Let_def mapR_def bindR_eq_Ret split: if_splits outcome.splits prod.splits)
  show "ev = Accepted ms \<Longrightarrow> GetMessagesOfNotifyQueue bo (wh_MsgNotifyEventCountPerPush wo) fs = Ret ms"
    using assms(3) unfolding notifyQueueLoop_round_def
    by (auto simp: Let_def mapR_def bindR_eq_Ret split: if_splits outcome.splits prod.splits)
qed

section \<open>Messages for users who are offline\<close>

text \<open>An event is sent once, from a pool of goroutines; the answers of the pool and of the application are
  arguments. The result tells whether the application accepted it.\<close>

definition TriggerEvent :: "options \<Rightarrow> unit outcome \<Rightarrow> answers \<Rightarrow> bool" where
  "TriggerEvent opts submit an \<longleftrightarrow> WebhookOn opts \<and> submit = Ret () \<and> request opts an = Ret ()"

record MessageOfflineNotify = MessageResp +
  on_ToUIDs :: "gostring list"
  on_Compress :: gostring
  on_CompresssToUIDs :: bytes
  on_SourceID :: i64

text \<open>
  The channel is the one of the message, and nothing of a stream is given. \<open>zipped\<close> is what the writer
  has put to its buffer when the bytes are taken: it is closed only when the function returns.
\<close>

definition offline_event :: "webhook_opts \<Rightarrow> (gostring list \<Rightarrow> bytes outcome) \<Rightarrow> message \<Rightarrow> gostring list \<Rightarrow> MessageOfflineNotify" where
  "offline_event wo zipped msg subscribers =
     (let r = msg_RecvPacket msg; f = rcv_Framer r;
          (toUIDs, compress, compressed) =
            (if wh_SubscriberCompressOfCount wo > 0 \<and> length subscribers > wh_SubscriberCompressOfCount wo
             then case zipped subscribers of Ret bs \<Rightarrow> ([], str ''gzip'', bs) | _ \<Rightarrow> (subscribers, [], [])
             else (subscribers, [], [])) in
      \<lparr>mr_Header = \<lparr>mh_NoPersist = BoolToInt (NoPersist f), mh_RedDot = BoolToInt (RedDot f), mh_SyncOnce = BoolToInt (SyncOnce f)\<rparr>,
       mr_Setting = rcv_Setting r, mr_MessageID = rcv_MessageID r, mr_MessageIDStr = dec_int (sint (rcv_MessageID r)),
       mr_ClientMsgNo = rcv_ClientMsgNo r, mr_StreamNo = [], mr_StreamSeq = 0, mr_StreamFlag = 0,
       mr_MessageSeq = rcv_MessageSeq r, mr_FromUID = rcv_FromUID r, mr_ChannelID = rcv_ChannelID r,
       mr_ChannelType = rcv_ChannelType r, mr_Topic = rcv_Topic r, mr_Expire = rcv_Expire r, mr_Timestamp = rcv_Timestamp r,
       mr_Payload = rcv_Payload r, mr_Streams = [], on_ToUIDs = toUIDs, on_Compress = compress,
       on_CompresssToUIDs = compressed, on_SourceID = wh_ID wo\<rparr>)"

definition notifyOfflineMsg ::
    "options \<Rightarrow> webhook_opts \<Rightarrow> (gostring list \<Rightarrow> bytes outcome) \<Rightarrow> unit outcome \<Rightarrow> answers \<Rightarrow> message \<Rightarrow> gostring list \<Rightarrow>
     MessageOfflineNotify option" where
  "notifyOfflineMsg opts wo zipped submit an msg subscribers =
     (if TriggerEvent opts submit an then Some (offline_event wo zipped msg subscribers) else None)"

end
