(* ===== verification/Datasource.thy ===== *)
theory Datasource
  imports Sending
begin

text \<open>
  The data source behind the server, \<^verbatim>\<open>internal/server/datasource.go\<close>: one HTTP request
  per question, answered with JSON. \<open>post\<close> makes the request and gives the status and the body;
  \<open>rd\<close> reads the first JSON value of a text. It is one of the two sources of the channel manager.
\<close>

section \<open>Requests\<close>

definition cmd_json :: "gostring \<Rightarrow> (gostring \<times> json) list \<Rightarrow> json" where
  "cmd_json cmd param = JObject [(str ''cmd'', JString cmd), (str ''data'', JObject param)]"

definition channel_param :: "gostring \<Rightarrow> u8 \<Rightarrow> (gostring \<times> json) list" where
  "channel_param channelID channelType =
     [(str ''channel_id'', JString channelID), (str ''channel_type'', JNumber (dec (unat channelType)))]"

record http =
  ht_post :: "gostring \<Rightarrow> bytes \<Rightarrow> (int \<times> bytes) outcome"
  ht_write :: "json \<Rightarrow> bytes"
  ht_read :: "bytes \<Rightarrow> json outcome"
  ht_addr :: gostring

definition requestCMD :: "http \<Rightarrow> gostring \<Rightarrow> (gostring \<times> json) list \<Rightarrow> bytes outcome" where
  "requestCMD h cmd param =
     bindR (ht_post h (ht_addr h) (ht_write h (cmd_json cmd param))) (\<lambda>(status, body).
       if status \<noteq> 200 then Fail (ErrMsg ''wrong http status'') else Ret body)"

section \<open>Answers\<close>

text \<open>A list of strings; \<open>null\<close> leaves it, or an element of it, empty.\<close>

fun jstrings :: "json list \<Rightarrow> gostring list outcome" where
  "jstrings [] = Ret []"
| "jstrings (j # js) = bindR (jstring j) (\<lambda>s. mapR ((#) s) (jstrings js))"

definition jstring_list :: "json \<Rightarrow> gostring list outcome" where
  "jstring_list j = (case j of JNull \<Rightarrow> Ret [] | JArray js \<Rightarrow> jstrings js | _ \<Rightarrow> Fail (ErrMsg ''json: cannot unmarshal''))"

record ChannelInfoResp =
  cip_Large :: int
  cip_Ban :: int

definition info_of_json :: "json \<Rightarrow> ChannelInfoResp outcome" where
  "info_of_json j = (case j of
     JNull \<Rightarrow> Ret \<lparr>cip_Large = 0, cip_Ban = 0\<rparr>
   | JObject kvs \<Rightarrow>
       bindR (jsint 64 (jfield (str ''large'') kvs)) (\<lambda>large.
       bindR (jsint 64 (jfield (str ''ban'') kvs)) (\<lambda>ban.
       Ret \<lparr>cip_Large = large, cip_Ban = ban\<rparr>))
   | _ \<Rightarrow> Fail (ErrMsg ''json: cannot unmarshal''))"

definition resp_ToChannelInfo :: "ChannelInfoResp \<Rightarrow> channelInfo" where
  "resp_ToChannelInfo c = \<lparr>ci_ChannelID = [], ci_ChannelType = 0, ci_Ban = (cip_Ban c = 1), ci_Large = (cip_Large c = 1)\<rparr>"

section \<open>Questions\<close>

definition ds_GetChannelInfo :: "http \<Rightarrow> gostring \<Rightarrow> u8 \<Rightarrow> channelInfo option outcome" where
  "ds_GetChannelInfo h channelID channelType =
     bindR (requestCMD h (str ''getChannelInfo'') (channel_param channelID channelType)) (\<lambda>result.
     bindR (bindR (ht_read h result) info_of_json) (\<lambda>resp.
     Ret (Some ((resp_ToChannelInfo resp)\<lparr>ci_ChannelID := channelID, ci_ChannelType := channelType\<rparr>))))"

definition ds_GetSubscribers :: "http \<Rightarrow> gostring \<Rightarrow> u8 \<Rightarrow> gostring list outcome" where
  "ds_GetSubscribers h channelID channelType =
     bindR (requestCMD h (str ''getSubscribers'') (channel_param channelID channelType)) (\<lambda>result.
     bindR (ht_read h result) jstring_list)"

definition ds_GetBlacklist :: "http \<Rightarrow> gostring \<Rightarrow> u8 \<Rightarrow> gostring list outcome" where
  "ds_GetBlacklist h channelID channelType =
     bindR (requestCMD h (str ''getBlacklist'') (channel_param channelID channelType)) (\<lambda>result.
     bindR (ht_read h result) jstring_list)"

definition ds_GetWhitelist :: "http \<Rightarrow> gostring \<Rightarrow> u8 \<Rightarrow> gostring list outcome" where
  "ds_GetWhitelist h channelID channelType =
     bindR (requestCMD h (str ''getWhitelist'') (channel_param channelID channelType)) (\<lambda>result.
     bindR (ht_read h result) jstring_list)"

definition ds_GetSystemUIDs :: "http \<Rightarrow> gostring list outcome" where
  "ds_GetSystemUIDs h =
     bindR (requestCMD h (str ''getSystemUIDs'') []) (\<lambda>result.
     bindR (ht_read h result) jstring_list)"

definition NewDatasource :: "http \<Rightarrow> loader" where
  "NewDatasource h = \<lparr>ld_ChannelInfo = ds_GetChannelInfo h, ld_Subscribers = ds_GetSubscribers h,
     ld_Denylist = ds_GetBlacklist h, ld_Allowlist = ds_GetWhitelist h, ld_SystemUIDs = ds_GetSystemUIDs h\<rparr>"

text \<open>Whatever the other side answers, the information is about the channel that was asked for: what the
  channel manager needs of a source.\<close>

lemma NewDatasource_ok: "loader_ok (NewDatasource h)"
  by (auto simp: loader_ok_def NewDatasource_def ds_GetChannelInfo_def bindR_eq_Ret)

lemma datasource_env_ok: "env_ok (plain_env bo js opts (NewDatasource h) fs)"
  by (simp add: env_ok_def plain_env_def store_loader_ok NewDatasource_ok)

end
