(* ===== verification/MessageSamples.thy ===== *)
theory MessageSamples
  imports ApiSamples MessageApiProofs Webhook Datasource
begin

text \<open>A message that is sent over HTTP, a user's queue, cached conversations and the webhook's queue, for the
  instances of their properties.\<close>

section \<open>Sending\<close>

definition sample_req :: MessageSendReq where
  "sample_req = \<lparr>mq_Header = \<lparr>mh_NoPersist = 0, mh_RedDot = 1, mh_SyncOnce = 0\<rparr>, mq_ClientMsgNo = [110], mq_StreamNo = [],
     mq_FromUID = [97], mq_ChannelID = [99], mq_ChannelType = 2, mq_Expire = 0, mq_Subscribers = [], mq_Payload = [1]\<rparr>"

definition sample_sent :: message where
  "sample_sent = message_of_req (ae_world api_env) sample_req 0 [99] 2 [110] StreamFlagIng"

lemma length_sample_sent [simp]: "length (MarshalMessage 1 sample_sent) = 34"
  by (simp add: MarshalMessage_def sample_sent_def message_of_req_def sample_req_def empty_message_def empty_recv_def Let_def IsSet_def
      WriteString_def)

lemma sample_sent_simps [simp]:
  "persistent sample_options [99] sample_sent" "\<not> StreamIng sample_sent" "storable sample_sent"
  "rcv_ChannelID (msg_RecvPacket sample_sent) = [99]" "rcv_ChannelType (msg_RecvPacket sample_sent) = 2"
  "msg_Subscribers (SetSeq q sample_sent) = []" "GetMessageID sample_sent = 0"
  by (simp_all add: sample_sent_def message_of_req_def sample_req_def persistent_def StreamIng_def empty_message_def empty_recv_def
      empty_framer_def IntToBool_def storable_def SetSeq_def GetMessageID_def)

lemma sample_sent_loggable [simp]: "loggable sample_sent"
  by (simp add: loggable_def)

lemma sample_batch_sent [simp]: "batch_fits sample_config sample_topic 0 [sample_message 1] [sample_sent]"
  by (simp add: batch_fits_def length_Message_Encode)

lemma sample_topic_of [simp]: "getTopic sample_config c ct sample_store = Ret (0, topicName c ct, sample_topic, sample_store)"
  by (simp add: getTopic_def GetSlotNum_def slot_getTopic_def sample_store_def sample_config_def mapR_def)

lemma sample_send_runs:
  "\<exists>nd. sendMessageToChannel (ae_world api_env) sample_req [99] 2 [110] StreamFlagIng sample_node = Some (Ret (0, 2), nd)"
proof -
  let ?w = "ae_world api_env" and ?nd = "sample_node\<lparr>nd_idCount := 1\<rparr>"
  obtain c cs where g: "GetChannel (plain_env sample_bolt counting_codec sample_options empty_loader sample_fs) [99] 2 NewChannelManager =
      (Ret (Some c), cs)"
    using sample_loaded [of counting_codec sample_fs] by auto
  have ct: "ch_Type c = 2" using GetChannel_ok(2) [OF sample_env_ok NewChannelManager_ok g] by simp
  let ?nd1 = "?nd\<lparr>nd_channels := cs\<rparr>"
  have chan: "node_channel ?w [99] 2 ?nd = (Ret (Some c), ?nd1)"
    using g by (simp add: node_channel_def api_env_of) (simp add: sample_node_def)
  obtain t' where t': "topic_appendMessages sample_config [sample_sent] sample_topic = (Ret ([2], length (encoded [sample_sent])), [SetSeq 2 sample_sent], t')"
    using topic_appendMessages_ok [of sample_topic "[]" 0 "[sample_message 1]" sample_config "[sample_sent]" "[SetSeq 2 sample_sent]"]
    by (auto simp: GetSeq_def SetSeq_def)
  have store: "\<exists>nd2. store_message ?w [99] [99] 2 sample_sent ?nd1 = (Ret (SetSeq 2 sample_sent), nd2)"
    using t' by (simp add: store_message_def store_history_def AppendMessages_def) (simp add: sample_node_def sample_fs_def mapR_def)
  then obtain nd2 where s: "store_message ?w [99] [99] 2 sample_sent ?nd1 = (Ret (SetSeq 2 sample_sent), nd2)" by blast
  have n: "notify_message ?w (SetSeq 2 sample_sent) nd2 = (Ret (), nd2)" by (simp add: notify_message_def Let_def)
  have kept: "persistent sample_options [99] (SetSeq 2 sample_sent)" by simp
  obtain nd3 where p: "channel_Put ?w c [SetSeq 2 sample_sent] [] [97] DeviceLevelMaster (str ''system'') nd2 = Some (Ret (), nd3)"
  proof -
    have r: "\<exists>us. RealSubscribers (env_of ?w nd2) [] c (nd_channels nd2) = Some (Ret us, nd_channels nd2)"
      using RealSubscribers_other [of c "env_of ?w nd2" "[]" "nd_channels nd2"] ct by auto
    then obtain us where us: "RealSubscribers (env_of ?w nd2) [] c (nd_channels nd2) = Some (Ret us, nd_channels nd2)" by blast
    have "storeMessageToUserQueueIfNeed c [SetSeq 2 sample_sent] us nd2 = (Ret [], nd2)"
      using persistent_no_queue [OF kept, of c us nd2] by (metis prod.collapse)
    then show thesis using us that by (auto simp: channel_Put_def Let_def split: option.splits)
  qed
  have "put_message ?w c [97] sample_sent ?nd1 = Some (Ret (0, 2), nd3)"
    using s n p by (simp add: put_message_def bindL_def doL_def sayL_def returnS_def fake_channel_def GetSeq_def) (simp add: SetSeq_def)
  moreover have "nd_idCount sample_node = 0" "wd_genMessageID ?w 0 = 0" "mh_SyncOnce (mq_Header sample_req) = 0" "mq_FromUID sample_req = [97]"
    by (simp_all add: sample_node_def api_env_def sample_world_def sample_req_def)
  ultimately show ?thesis
    using chan by (simp add: sendMessageToChannel_def genMessageID_def bindL_def doL_def sayL_def fake_channel_def sample_sent_def)
qed

lemma sample_send_answers: "\<exists>s. send api_env [] [] (Ret sample_req) sample_app = Some (Ret \<lparr>sd_message_id = 0, sd_client_msg_no = [110], sd_message_seq = 2\<rparr>, s)"
proof -
  obtain nd where "sendMessageToChannel (ae_world api_env) sample_req [99] 2 [110] StreamFlagIng sample_node = Some (Ret (0, 2), nd)"
    using sample_send_runs by blast
  moreover have "ap_node sample_app = sample_node" by (simp add: sample_app_def pinged_def server_with_def)
  moreover have "\<not> blank [99 :: byte]" "\<not> blank [110 :: byte]" by code_simp+
  ultimately show ?thesis
    by (simp add: send_def Let_def bindL_steps MessageSendReq_Check_def checkS_def whenS_def sample_req_def)
      (simp add: bindL_def nodeL_def doL_def returnS_def sample_req_def)
qed

section \<open>The queue of a user\<close>

text \<open>The queue holds one message; the user has acknowledged nothing.\<close>

lemma sample_app_store [simp]: "fs_cfg (ap_fs sample_app) = sample_config" "fs_msgs (ap_fs sample_app) = sample_store"
  "fs_cfg sample_fs = sample_config" "fs_msgs sample_fs = sample_store"
  by simp_all (simp_all add: sample_fs_def)

lemma sample_no_streams [simp]: "no_streams [(0, [sample_message 1])]"
  by (simp add: no_streams_def stored_def stored_recv_def sample_message_def SetSeq_def empty_message_def empty_recv_def Let_def)

lemma sample_acks: "\<exists>s. syncack api_env (Ret \<lparr>ya_UID = [117], ya_LastMessageSeq = 1\<rparr>) sample_app = (Ret (), s)"
proof -
  have "slotNum [117] sample_fs = Ret 0" by simp
  then have "\<exists>fs. UpdateMessageOfUserCursorIfNeed sample_bolt [117] 1 sample_fs = Ret fs"
    by (simp add: UpdateMessageOfUserCursorIfNeed_def cursor_of_def Let_def)
      (simp add: fs_set_def with_db_def mapR_def sample_bolt_def split: option.split)
  then show ?thesis
    by (auto simp: syncack_def syncackReq_Check_def bindS_def thenS_def liftR_def checkS_def returnS_def writeS_def)
qed

section \<open>Conversations\<close>

text \<open>A conversation with a channel is in the cache, and saved.\<close>

definition cached_app :: "(sample_db, (gostring \<times> Conversation) list) app" where
  "cached_app = sample_app\<lparr>ap_conv := sample_manager\<lparr>cv_caches := [[117] \<mapsto> [(channelKey [99] 2, sample_conversation)]]\<rparr>\<rparr>"

lemma cached_app_simps [simp]:
  "ap_fs cached_app = sample_fs" "manager_of cached_app = sample_manager\<lparr>cv_caches := [[117] \<mapsto> [(channelKey [99] 2, sample_conversation)]]\<rparr>"
  "ce_lru (ae_conv api_env) = sample_lru" "ce_lru (conv_env_of api_env) = sample_lru"
  by (simp_all add: cached_app_def manager_of_def api_env_def conv_env_of_def)

lemma cached_app_look: "cached (conv_env_of api_env) [117] (manager_of cached_app) (channelKey [99] 2) = Some sample_conversation"
  by (simp add: cached_def) (simp add: sample_lru_def)

lemma cached_app_ok: "caches_ok (conv_env_of api_env) (manager_of cached_app)"
  by (auto simp: caches_ok_def cached_def split: option.splits if_splits) (auto simp: sample_lru_def sample_conversation_def split: if_splits)

definition clear_request :: clearUnreadReq where
  "clear_request = \<lparr>cu_UID = [117], cu_ChannelID = [99], cu_ChannelType = 2, cu_MessageSeq = 0\<rparr>"

lemma sample_clears: "\<exists>s. clearConversationUnread api_env (Ret clear_request) cached_app = (Ret (), s)"
proof -
  let ?ev = "conv_env_of api_env" and ?cv = "manager_of cached_app"
  have keys: "lr_keys sample_lru [(channelKey [99] 2, sample_conversation)] = [channelKey [99] 2]"
    "lr_look sample_lru [(channelKey [99] 2, sample_conversation)] (channelKey [99] 2) = Some sample_conversation"
    "lr_touch sample_lru l k = l" for l k by (simp_all add: sample_lru_def)
  have conv: "cv_ChannelID sample_conversation = [99]" "cv_ChannelType sample_conversation = 2" by (simp_all add: sample_conversation_def)
  have get: "mgr_GetConversation ?ev [117] [99] 2 ?cv = (Ret (Some sample_conversation), ?cv)"
    by (simp add: mgr_GetConversation_def getUserCacheConversations_def getUserConversationCache_def cached_conversations_def
        touch_all_def keys List.map_filter_simps conv put_cache_def)
  have "\<exists>cv. SetConversationUnread ?ev [117] [99] 2 0 0 ?cv = Ret cv"
    by (simp add: SetConversationUnread_def getUserConversationCache_def keys lr_Get_def conv)
  then show ?thesis
    using get by (auto simp: clearConversationUnread_def clearUnread_Check_def clear_request_def bindS_def thenS_def liftR_def checkS_def
        returnS_def askC_def convS_def manager_of_def Let_def)
qed

lemma sample_large: "\<exists>st. LoadLastMsgs sample_config [99] 2 1 sample_store = Some (Ret [stored (sample_message 1)], st)"
  using LoadLastMsgs_ok [OF sample_holds, of 1 "[99]" 2] by auto

section \<open>The queue of the webhook\<close>

definition hook_options :: options where
  "hook_options = sample_options\<lparr>op_WebhookHTTPAddr := [104]\<rparr>"

definition sample_hook :: webhook_opts where
  "sample_hook = \<lparr>wh_ID = 1, wh_HTTPAddr = [104], wh_MsgNotifyEventCountPerPush = 10, wh_MsgNotifyEventRetryMaxCount = 3,
     wh_SubscriberCompressOfCount = 0\<rparr>"

definition says :: "nat \<Rightarrow> answers" where
  "says status = \<lparr>an_http = Ret status, an_pool = Ret (), an_grpc = Ret True\<rparr>"

definition queued_fs :: "bytes \<Rightarrow> sample_db filestore" where
  "queued_fs v = sample_fs\<lparr>fs_db := ([((notifyQueuePrefix, itob 1), v)], 1)\<rparr>"

lemma hook_on [simp]: "WebhookOn hook_options" "\<not> WebhookGRPCOn hook_options"
  by (simp_all add: WebhookOn_def hook_options_def WebhookGRPCOn_def sample_options_def)

lemma hook_request [simp]: "request hook_options (says status) =
    (if status \<noteq> 200 then Fail (ErrMsg ''the application answers with a wrong status'') else Ret ())"
  by (simp add: request_def says_def sendWebhookForHttp_def)

lemma queued_items [simp]: "bo_items sample_bolt (fs_db (queued_fs v)) notifyQueuePrefix = [(itob 1, v)]"
  by (simp add: queued_fs_def sample_bolt_def)

lemma queued_get [simp]: "queue_get sample_bolt (queued_fs v) (itob 1) = Some v"
  by (simp add: queue_get_def) (simp add: queued_fs_def sample_bolt_def)

text \<open>A second message arrives before the round that takes both.\<close>

lemma sample_numbers: "bolt_numbers sample_bolt (\<lambda>db. unat (snd db))"
proof -
  have "unat (x + 1) = Suc (unat x)" if "x \<noteq> - 1" for x :: u64
    using that unatSuc [of x] by (simp add: add.commute eq_neg_iff_add_eq_0)
  then show ?thesis unfolding bolt_numbers_def by (auto simp: sample_bolt_def split: if_splits)
qed

lemma queued_numbered: "queue_numbered sample_bolt (\<lambda>db. unat (snd db)) (fs_db (queued_fs v))"
  by (auto simp: queue_numbered_def queued_fs_def sample_bolt_def intro: exI [of _ 1] split: if_splits)

definition two_fs :: "sample_db filestore" where
  "two_fs = sample_fs\<lparr>fs_db := ([((notifyQueuePrefix, itob 1), Message_Encode (sample_message 1)),
     ((notifyQueuePrefix, itob 2), Message_Encode (sample_message 2))], 2)\<rparr>"

lemma two_arrived: "AppendMessageOfNotifyQueue sample_bolt [sample_message 2] (queued_fs (Message_Encode (sample_message 1))) = Ret two_fs"
proof -
  have "itob 1 \<noteq> itob 2" by code_simp
  then show ?thesis by (simp add: AppendMessageOfNotifyQueue_def with_db_def mapR_def queued_fs_def two_fs_def)
    (simp add: sample_bolt_def)
qed

lemma sample_delete: "bo_delete sample_bolt db b k = Ret (AList.delete (b, k) (fst db), snd db)"
  and sample_get: "bo_get sample_bolt db b k = map_of (fst db) (b, k)"
  by (simp_all add: sample_bolt_def)

lemma two_accepted:
  "\<exists>fs cursor. set cursor \<subseteq> set (bo_items sample_bolt (fs_db two_fs) notifyQueuePrefix) \<and>
    notifyQueueLoop_round hook_options sample_hook sample_bolt cursor (\<lambda>_. says 200) two_fs Map.empty =
    Ret (Accepted [stored (sample_message 1), stored (sample_message 2)], fs, Map.empty) \<and> queue_get sample_bolt fs (itob 1) = None"
proof -
  have d: "Message_Decode (Message_Encode (sample_message i)) = Ret (stored (sample_message i))" for i
    using Message_Decode_Encode [of "sample_message i"] loggable_sample [of i] by (simp add: loggable_def)
  have n: "itob 1 \<noteq> itob 2" by code_simp
  let ?items = "[(itob 1, Message_Encode (sample_message 1)), (itob 2, Message_Encode (sample_message 2))]"
  have items: "bo_items sample_bolt (fs_db two_fs) notifyQueuePrefix = ?items"
    using n by (simp add: two_fs_def sample_bolt_def)
  have db: "fs_db two_fs = ([((notifyQueuePrefix, itob 1), Message_Encode (sample_message 1)),
     ((notifyQueuePrefix, itob 2), Message_Encode (sample_message 2))], 2)" by (simp add: two_fs_def)
  have g: "GetMessagesOfNotifyQueue sample_bolt 10 two_fs = Ret [stored (sample_message 1), stored (sample_message 2)]"
    by (simp add: GetMessagesOfNotifyQueue_def items d mapR_def)
  have "\<exists>fs. notifyQueueLoop_round hook_options sample_hook sample_bolt ?items (\<lambda>_. says 200) two_fs Map.empty =
    Ret (Accepted [stored (sample_message 1), stored (sample_message 2)], fs, Map.empty) \<and> queue_get sample_bolt fs (itob 1) = None"
    using n by (simp add: notifyQueueLoop_round_def g sample_hook_def removed_def RemoveMessagesOfNotifyQueue_def d with_db_def mapR_def
      forget_def sample_delete db queue_get_def sample_get)
  then obtain fs where "notifyQueueLoop_round hook_options sample_hook sample_bolt ?items (\<lambda>_. says 200) two_fs Map.empty =
    Ret (Accepted [stored (sample_message 1), stored (sample_message 2)], fs, Map.empty)" "queue_get sample_bolt fs (itob 1) = None"
    by blast
  with equalityD1 [OF arg_cong [OF items [symmetric], of set]] show ?thesis
    by (intro exI [of _ fs] exI [of _ ?items] conjI)
qed

lemma hook_run: "\<exists>fs. notify_run hook_options sample_hook sample_bolt (queued_fs (Message_Encode (sample_message 1))) Map.empty
    [Accepted [stored (sample_message 1), stored (sample_message 2)]] fs Map.empty \<and> queue_get sample_bolt fs (itob 1) = None"
proof -
  obtain fs cursor where c: "set cursor \<subseteq> set (bo_items sample_bolt (fs_db two_fs) notifyQueuePrefix)"
    "notifyQueueLoop_round hook_options sample_hook sample_bolt cursor (\<lambda>_. says 200) two_fs Map.empty =
      Ret (Accepted [stored (sample_message 1), stored (sample_message 2)], fs, Map.empty)" "queue_get sample_bolt fs (itob 1) = None"
    using two_accepted by blast
  from notify_run.round [OF notify_run.arrive [OF notify_run.start two_arrived] c(1,2)] c(3) show ?thesis by (intro exI [of _ fs]) simp
qed

text \<open>A message, and behind it an entry that is no message.\<close>

definition broken_fs :: "sample_db filestore" where
  "broken_fs = sample_fs\<lparr>fs_db := ([((notifyQueuePrefix, itob 1), Message_Encode (sample_message 1)), ((notifyQueuePrefix, itob 2), [0, 0])], 2)\<rparr>"

lemma broken_accepts:
  "\<exists>errs. notifyQueueLoop_round hook_options sample_hook sample_bolt [(itob 1, Message_Encode (sample_message 1)), (itob 2, [0, 0])] (\<lambda>_. says 200)
      broken_fs Map.empty = Ret (Accepted [stored (sample_message 1)], broken_fs, errs)"
  "\<exists>e. Message_Decode [0, 0] = Fail e"
proof -
  show "\<exists>e. Message_Decode [0, 0] = Fail e" by (simp add: Message_Decode_def DecodeMessage_def slice_def)
  then obtain e where e: "Message_Decode [0, 0] = Fail e" by blast
  have d: "Message_Decode (Message_Encode (sample_message 1)) = Ret (stored (sample_message 1))"
    using Message_Decode_Encode [of "sample_message 1"] loggable_sample [of 1] by (simp add: loggable_def)
  have "itob 1 \<noteq> itob 2" by code_simp
  then have items: "bo_items sample_bolt (fs_db broken_fs) notifyQueuePrefix = [(itob 1, Message_Encode (sample_message 1)), (itob 2, [0, 0])]"
    by (simp add: broken_fs_def sample_bolt_def)
  have g: "GetMessagesOfNotifyQueue sample_bolt 10 broken_fs = Ret [stored (sample_message 1)]"
    by (simp add: GetMessagesOfNotifyQueue_def items d e mapR_def)
  show "\<exists>errs. notifyQueueLoop_round hook_options sample_hook sample_bolt [(itob 1, Message_Encode (sample_message 1)), (itob 2, [0, 0])] (\<lambda>_. says 200)
      broken_fs Map.empty = Ret (Accepted [stored (sample_message 1)], broken_fs, errs)"
    by (simp add: notifyQueueLoop_round_def g sample_hook_def removed_def RemoveMessagesOfNotifyQueue_def d e with_db_def mapR_def)
      (simp add: sample_bolt_def Let_def e)
qed

text \<open>Somebody comes online; the report is sent.\<close>

lemma status_runs: "status_run hook_options sample_hook \<lparr>sl_list = [], sl_opLen = 0, sl_errCount = 0\<rparr> [[117]] [(True, [[117]])]"
proof -
  let ?s = "\<lparr>sl_list = [[117]], sl_opLen = 0, sl_errCount = 0\<rparr>"
  have r: "loopOnlineStatus_round hook_options sample_hook (\<lambda>_. says 200) ?s =
      (Some (True, [[117]]), \<lparr>sl_list = [], sl_opLen = 0, sl_errCount = 0\<rparr>)"
    by (simp add: loopOnlineStatus_round_def status_round_def Let_def)
  have "status_run hook_options sample_hook ?s [[117]] []"
    using status_run.report [OF status_run.start, of hook_options sample_hook "[117]"] by simp
  from status_run.round [OF this r] show ?thesis by simp
qed

end
