(* ===== verification/KeyLock.thy ===== *)
theory KeyLock
  imports GoStrings
begin

text \<open>
  The locks by key, \<^verbatim>\<open>pkg/keylock/keylock.go\<close>, which make the operations on one topic, one
  user or one table entry run one at a time. Here threads are interleaved: the steps of a call are what it does
  while it holds the mutex around the table, and the taking and giving back of the lock that it found. The table's
  mutex admits any number of readers, but those only look up and count atomically, so what a reader does is one step.
\<close>

section \<open>The table\<close>

text \<open>\<open>innerLock\<close>s are addresses; \<open>kl_count\<close> and \<open>kl_locked\<close> hold their fields.\<close>

record key_lock =
  kl_locks :: "gostring \<rightharpoonup> nat"
  kl_count :: "nat \<Rightarrow> int"
  kl_locked :: "nat \<Rightarrow> bool"
  kl_next :: nat

definition NewKeyLock :: key_lock where
  "NewKeyLock = \<lparr>kl_locks = Map.empty, kl_count = (\<lambda>_. 0), kl_locked = (\<lambda>_. False), kl_next = 0\<rparr>"

definition newInnerLock :: "key_lock \<Rightarrow> nat \<times> key_lock" where
  "newInnerLock s = (kl_next s, s\<lparr>kl_next := Suc (kl_next s), kl_count := (kl_count s)(kl_next s := 0),
     kl_locked := (kl_locked s)(kl_next s := False)\<rparr>)"

definition il_add :: "nat \<Rightarrow> key_lock \<Rightarrow> key_lock" where
  "il_add a s = s\<lparr>kl_count := (kl_count s)(a := kl_count s a + 1)\<rparr>"

definition il_done :: "nat \<Rightarrow> key_lock \<Rightarrow> key_lock" where
  "il_done a s = s\<lparr>kl_count := (kl_count s)(a := kl_count s a - 1)\<rparr>"

text \<open>\<open>Lock\<close>: first with the table's mutex for reading, and if the key is not there, for writing.\<close>

definition Lock_read :: "gostring \<Rightarrow> key_lock \<Rightarrow> nat option \<times> key_lock" where
  "Lock_read key s = (case kl_locks s key of Some a \<Rightarrow> (Some a, il_add a s) | None \<Rightarrow> (None, s))"

definition Lock_write :: "gostring \<Rightarrow> key_lock \<Rightarrow> nat \<times> key_lock" where
  "Lock_write key s =
     (case kl_locks s key of
        Some a \<Rightarrow> (a, il_add a s)
      | None \<Rightarrow> let (a, s) = newInnerLock s in (a, il_add a (s\<lparr>kl_locks := (kl_locks s)(key \<mapsto> a)\<rparr>)))"

definition Unlock_read :: "gostring \<Rightarrow> key_lock \<Rightarrow> nat option \<times> key_lock" where
  "Unlock_read key s = (case kl_locks s key of Some a \<Rightarrow> (Some a, il_done a s) | None \<Rightarrow> (None, s))"

definition Clean :: "key_lock \<Rightarrow> key_lock" where
  "Clean s = s\<lparr>kl_locks := (\<lambda>k. case kl_locks s k of None \<Rightarrow> None | Some a \<Rightarrow> if kl_count s a = 0 then None else Some a)\<rparr>"

section \<open>Threads\<close>

text \<open>
  Where a thread is: outside, in \<open>Lock\<close> after the key was not found, in \<open>Lock\<close> before it takes the lock it
  found, between \<open>Lock\<close> and \<open>Unlock\<close>, and in \<open>Unlock\<close> before it gives the lock back.
\<close>

datatype pc = Outside | Missed gostring | Waiting gostring nat | Holding gostring nat | Leaving gostring nat

record lock_sys =
  ls_lock :: key_lock
  ls_pc :: "nat \<Rightarrow> pc"

definition moved :: "nat \<Rightarrow> pc \<Rightarrow> key_lock \<Rightarrow> lock_sys \<Rightarrow> lock_sys" where
  "moved t p l s = s\<lparr>ls_lock := l, ls_pc := (ls_pc s)(t := p)\<rparr>"

definition set_locked :: "nat \<Rightarrow> bool \<Rightarrow> key_lock \<Rightarrow> key_lock" where
  "set_locked a b l = l\<lparr>kl_locked := (kl_locked l)(a := b)\<rparr>"

inductive lock_step :: "lock_sys \<Rightarrow> lock_sys \<Rightarrow> bool" where
  found: "ls_pc s t = Outside \<Longrightarrow> Lock_read key (ls_lock s) = (Some a, l) \<Longrightarrow> lock_step s (moved t (Waiting key a) l s)"
| not_found: "ls_pc s t = Outside \<Longrightarrow> Lock_read key (ls_lock s) = (None, l) \<Longrightarrow> lock_step s (moved t (Missed key) l s)"
| inserted: "ls_pc s t = Missed key \<Longrightarrow> Lock_write key (ls_lock s) = (a, l) \<Longrightarrow> lock_step s (moved t (Waiting key a) l s)"
| acquire: "ls_pc s t = Waiting key a \<Longrightarrow> \<not> kl_locked (ls_lock s) a \<Longrightarrow>
    lock_step s (moved t (Holding key a) (set_locked a True (ls_lock s)) s)"
| unlock: "ls_pc s t = Holding key b \<Longrightarrow> Unlock_read key (ls_lock s) = (Some a, l) \<Longrightarrow> lock_step s (moved t (Leaving key a) l s)"
| unlock_missing: "ls_pc s t = Holding key b \<Longrightarrow> Unlock_read key (ls_lock s) = (None, l) \<Longrightarrow> lock_step s (moved t Outside l s)"
| release: "ls_pc s t = Leaving key a \<Longrightarrow> lock_step s (moved t Outside (set_locked a False (ls_lock s)) s)"
| clean: "lock_step s (s\<lparr>ls_lock := Clean (ls_lock s)\<rparr>)"

inductive lock_reachable :: "lock_sys \<Rightarrow> bool" where
  start: "lock_reachable \<lparr>ls_lock = NewKeyLock, ls_pc = (\<lambda>_. Outside)\<rparr>"
| step: "lock_reachable s \<Longrightarrow> lock_step s s' \<Longrightarrow> lock_reachable s'"

section \<open>The invariant\<close>

text \<open>
  A thread that waits for a lock or holds it is counted, so the lock stays in the table; a lock that is locked has
  exactly one thread that holds it or is about to give it back.
\<close>

fun counts_on :: "pc \<Rightarrow> nat \<Rightarrow> bool" where
  "counts_on (Waiting _ a) b = (a = b)"
| "counts_on (Holding _ a) b = (a = b)"
| "counts_on _ b = False"

fun has_locked :: "pc \<Rightarrow> nat \<Rightarrow> bool" where
  "has_locked (Holding _ a) b = (a = b)"
| "has_locked (Leaving _ a) b = (a = b)"
| "has_locked _ b = False"

fun key_of :: "pc \<Rightarrow> gostring" where
  "key_of (Missed k) = k" | "key_of (Waiting k _) = k" | "key_of (Holding k _) = k" | "key_of (Leaving k _) = k" | "key_of Outside = []"

definition counted :: "(nat \<Rightarrow> pc) \<Rightarrow> nat \<Rightarrow> nat set" where
  "counted pcs a = {t. counts_on (pcs t) a}"

definition counts_ok :: "lock_sys \<Rightarrow> bool" where
  "counts_ok s \<longleftrightarrow> (\<forall>a. finite (counted (ls_pc s) a) \<and> kl_count (ls_lock s) a = int (card (counted (ls_pc s) a)))"

definition table_ok :: "lock_sys \<Rightarrow> bool" where
  "table_ok s \<longleftrightarrow>
     (\<forall>t a. counts_on (ls_pc s t) a \<longrightarrow> kl_locks (ls_lock s) (key_of (ls_pc s t)) = Some a) \<and>
     (\<forall>t a. has_locked (ls_pc s t) a \<longrightarrow> a < kl_next (ls_lock s)) \<and>
     (\<forall>k a. kl_locks (ls_lock s) k = Some a \<longrightarrow> a < kl_next (ls_lock s))"

definition mutex_ok :: "lock_sys \<Rightarrow> bool" where
  "mutex_ok s \<longleftrightarrow>
     (\<forall>t u a. has_locked (ls_pc s t) a \<longrightarrow> has_locked (ls_pc s u) a \<longrightarrow> t = u) \<and>
     (\<forall>t a. has_locked (ls_pc s t) a \<longrightarrow> kl_locked (ls_lock s) a) \<and>
     (\<forall>a. kl_locked (ls_lock s) a \<longrightarrow> (\<exists>t. has_locked (ls_pc s t) a))"

definition lock_inv :: "lock_sys \<Rightarrow> bool" where
  "lock_inv s \<longleftrightarrow> counts_ok s \<and> table_ok s \<and> mutex_ok s"

lemmas lock_table_defs = Lock_read_def Lock_write_def Unlock_read_def Clean_def newInnerLock_def il_add_def il_done_def
  set_locked_def moved_def

lemma counted_same:
  "(\<And>b. counts_on p b = counts_on (pcs t) b) \<Longrightarrow> counted (pcs(t := p)) = counted pcs"
  by (auto simp: counted_def fun_eq_iff)

lemma counted_enter:
  assumes "\<And>b. \<not> counts_on (pcs t) b" and "\<And>b. counts_on p b \<longleftrightarrow> b = a"
  shows "counted (pcs(t := p)) = (counted pcs)(a := insert t (counted pcs a))" and "t \<notin> counted pcs a"
  using assms by (auto simp: counted_def fun_eq_iff)

lemma counted_leave:
  assumes "\<And>b. counts_on (pcs t) b \<longleftrightarrow> b = a" and "\<And>b. \<not> counts_on p b"
  shows "counted (pcs(t := p)) = (counted pcs)(a := counted pcs a - {t})" and "t \<in> counted pcs a"
  using assms by (auto simp: counted_def fun_eq_iff)

lemma counts_ok_enter:
  assumes "counts_ok s" and "\<And>b. \<not> counts_on (ls_pc s t) b" and "\<And>b. counts_on p b \<longleftrightarrow> b = a"
    and "kl_count l = (kl_count (ls_lock s))(a := kl_count (ls_lock s) a + 1)"
  shows "counts_ok (moved t p l s)"
proof -
  have "counted ((ls_pc s)(t := p)) = (counted (ls_pc s))(a := insert t (counted (ls_pc s) a))" "t \<notin> counted (ls_pc s) a"
    by (rule counted_enter; use assms(2,3) in blast)+
  with assms(1,4) show ?thesis by (auto simp: counts_ok_def moved_def)
qed

lemma counts_ok_leave:
  assumes "counts_ok s" and "\<And>b. counts_on (ls_pc s t) b \<longleftrightarrow> b = a" and "\<And>b. \<not> counts_on p b"
    and "kl_count l = (kl_count (ls_lock s))(a := kl_count (ls_lock s) a - 1)"
  shows "counts_ok (moved t p l s)"
proof -
  have c: "counted ((ls_pc s)(t := p)) = (counted (ls_pc s))(a := counted (ls_pc s) a - {t})" "t \<in> counted (ls_pc s) a"
    by (rule counted_leave; use assms(2,3) in blast)+
  have "finite (counted (ls_pc s) a)" using assms(1) by (simp add: counts_ok_def)
  then have "int (card (counted (ls_pc s) a - {t})) = int (card (counted (ls_pc s) a)) - 1"
    using card.remove [OF _ c(2)] by linarith
  with assms(1,4) c show ?thesis by (auto simp: counts_ok_def moved_def)
qed

lemma counts_ok_same:
  assumes "counts_ok s" and "\<And>b. counts_on p b = counts_on (ls_pc s t) b" and "kl_count l = kl_count (ls_lock s)"
  shows "counts_ok (moved t p l s)"
  using assms(1,3) counted_same [of p "ls_pc s" t, OF assms(2)] by (simp add: counts_ok_def moved_def)

lemma counted_in_table:
  assumes "counts_ok s" and "table_ok s" and "counts_on (ls_pc s t) a"
  shows "kl_locks (Clean (ls_lock s)) (key_of (ls_pc s t)) = Some a"
proof -
  have "t \<in> counted (ls_pc s) a" using assms(3) by (simp add: counted_def)
  then have "kl_count (ls_lock s) a \<noteq> 0" using assms(1) by (auto simp: counts_ok_def)
  with assms(2,3) show ?thesis by (auto simp: Clean_def table_ok_def)
qed


lemma table_okD:
  assumes "table_ok s"
  shows "ls_pc s t = Waiting k a \<Longrightarrow> kl_locks (ls_lock s) k = Some a" "ls_pc s t = Holding k a \<Longrightarrow> kl_locks (ls_lock s) k = Some a"
    and "kl_locks (ls_lock s) k = Some a \<Longrightarrow> a < kl_next (ls_lock s)" "has_locked (ls_pc s t) a \<Longrightarrow> a < kl_next (ls_lock s)"
proof -
  have "counts_on (ls_pc s t) a \<Longrightarrow> kl_locks (ls_lock s) (key_of (ls_pc s t)) = Some a"
    using assms by (simp add: table_ok_def)
  then show "ls_pc s t = Waiting k a \<Longrightarrow> kl_locks (ls_lock s) k = Some a" "ls_pc s t = Holding k a \<Longrightarrow> kl_locks (ls_lock s) k = Some a"
    by simp_all
qed (use assms in \<open>simp_all add: table_ok_def\<close>)

lemma table_ok_moved:
  assumes "table_ok s" and "\<And>k a. kl_locks (ls_lock s) k = Some a \<Longrightarrow> kl_locks l k = Some a"
    and "kl_next (ls_lock s) \<le> kl_next l" and "\<And>k a. kl_locks l k = Some a \<Longrightarrow> a < kl_next l"
    and "\<And>a. counts_on p a \<Longrightarrow> kl_locks l (key_of p) = Some a" and "\<And>a. has_locked p a \<Longrightarrow> a < kl_next l"
  shows "table_ok (moved t p l s)"
  using assms by (auto simp: table_ok_def moved_def) (meson less_le_trans)

lemma mutex_ok_moved:
  assumes "mutex_ok s" and "\<And>u a. u \<noteq> t \<Longrightarrow> has_locked (ls_pc s u) a \<Longrightarrow> kl_locked l a \<and> \<not> has_locked p a"
    and "\<And>a. has_locked p a \<Longrightarrow> kl_locked l a"
    and "\<And>a. kl_locked l a \<Longrightarrow> has_locked p a \<or> kl_locked (ls_lock s) a \<and> \<not> has_locked (ls_pc s t) a"
  shows "mutex_ok (moved t p l s)"
proof -
  have "\<exists>u. has_locked (((ls_pc s)(t := p)) u) a" if l: "kl_locked l a" for a
  proof (cases "has_locked p a")
    case True
    then have "has_locked (((ls_pc s)(t := p)) t) a" by simp
    then show ?thesis ..
  next
    case False
    with assms(4) [OF l] have "kl_locked (ls_lock s) a" "\<not> has_locked (ls_pc s t) a" by simp_all
    with assms(1) obtain u where "has_locked (ls_pc s u) a" "u \<noteq> t" unfolding mutex_ok_def by metis
    then have "has_locked (((ls_pc s)(t := p)) u) a" by simp
    then show ?thesis ..
  qed
  with assms(1-3) show ?thesis by (auto simp: mutex_ok_def moved_def)
qed

text \<open>What each step of the table does to the counts and the entries.\<close>

lemma Lock_read_Some:
  "Lock_read key l = (Some a, l') \<longleftrightarrow> kl_locks l key = Some a \<and> l' = il_add a l"
  by (auto simp: Lock_read_def split: option.splits)

lemma Lock_read_None: "Lock_read key l = (None, l') \<longleftrightarrow> kl_locks l key = None \<and> l' = l"
  by (auto simp: Lock_read_def split: option.splits)

lemma Unlock_read_Some:
  "Unlock_read key l = (Some a, l') \<longleftrightarrow> kl_locks l key = Some a \<and> l' = il_done a l"
  by (auto simp: Unlock_read_def split: option.splits)

lemma Unlock_read_None: "Unlock_read key l = (None, l') \<longleftrightarrow> kl_locks l key = None \<and> l' = l"
  by (auto simp: Unlock_read_def split: option.splits)

lemmas table_steps = Lock_read_Some Lock_read_None Unlock_read_Some Unlock_read_None

lemma Lock_write_found: "kl_locks l key = Some a \<Longrightarrow> Lock_write key l = (a, il_add a l)"
  by (simp add: Lock_write_def)

lemma Lock_write_new:
  "kl_locks l key = None \<Longrightarrow> Lock_write key l = (kl_next l, l\<lparr>kl_locks := (kl_locks l)(key \<mapsto> kl_next l), kl_next := Suc (kl_next l),
     kl_count := (kl_count l)(kl_next l := 1), kl_locked := (kl_locked l)(kl_next l := False)\<rparr>)"
  by (simp add: Lock_write_def newInnerLock_def il_add_def)

lemma fresh_uncounted:
  assumes "counts_ok s" and "table_ok s"
  shows "kl_count (ls_lock s) (kl_next (ls_lock s)) = 0"
proof -
  have "counted (ls_pc s) (kl_next (ls_lock s)) = {}"
    using assms(2) by (force simp: counted_def table_ok_def)
  with assms(1) show ?thesis by (simp add: counts_ok_def)
qed

lemma lock_step_counts:
  assumes "lock_step s s'" and "counts_ok s" and "table_ok s"
  shows "counts_ok s'"
  using assms(1)
proof cases
  case (found t key a l)
  with assms(2) show ?thesis by (auto intro!: counts_ok_enter [where a = a] simp: table_steps il_add_def)
next
  case (not_found t key l)
  with assms(2) show ?thesis by (auto intro!: counts_ok_same simp: table_steps)
next
  case (inserted t key a l)
  show ?thesis
  proof (cases "kl_locks (ls_lock s) key")
    case None
    with inserted assms(2) fresh_uncounted [OF assms(2,3)] show ?thesis
      by (auto intro!: counts_ok_enter [where a = a] simp: Lock_write_new)
  next
    case (Some b)
    with inserted assms(2) show ?thesis
      by (auto intro!: counts_ok_enter [where a = a] simp: Lock_write_found il_add_def)
  qed
next
  case (acquire t key a)
  with assms(2) show ?thesis by (auto intro!: counts_ok_same simp: set_locked_def)
next
  case (unlock t key b a l)
  then have "b = a" using table_okD(2) [OF assms(3) unlock(2)] by (simp add: table_steps)
  with unlock assms(2) show ?thesis by (auto intro!: counts_ok_leave [where a = a] simp: table_steps il_done_def)
next
  case (unlock_missing t key b l)
  then have False using table_okD(2) [OF assms(3) unlock_missing(2)] by (simp add: table_steps)
  then show ?thesis ..
next
  case (release t key a)
  with assms(2) show ?thesis by (auto intro!: counts_ok_same simp: set_locked_def)
next
  case clean
  with assms(2) show ?thesis by (simp add: counts_ok_def Clean_def)
qed

lemma lock_step_table:
  assumes "lock_step s s'" and "counts_ok s" and "table_ok s"
  shows "table_ok s'"
  using assms(1)
proof cases
  case (found t key a l)
  then show ?thesis by (auto intro!: table_ok_moved [OF assms(3)] simp: table_steps il_add_def dest: table_okD(3) [OF assms(3)])
next
  case (not_found t key l)
  then show ?thesis by (auto intro!: table_ok_moved [OF assms(3)] simp: table_steps dest: table_okD(3) [OF assms(3)])
next
  case (inserted t key a l)
  then show ?thesis
    by (cases "kl_locks (ls_lock s) key")
      (auto intro!: table_ok_moved [OF assms(3)] simp: Lock_write_new Lock_write_found il_add_def less_Suc_eq
        dest: table_okD(3) [OF assms(3)] split: if_splits)
next
  case (acquire t key a)
  then show ?thesis
    using table_okD(1) [OF assms(3) acquire(2)]
    by (auto intro!: table_ok_moved [OF assms(3)] simp: set_locked_def dest: table_okD(3) [OF assms(3)])
next
  case (unlock t key b a l)
  then show ?thesis
    by (auto intro!: table_ok_moved [OF assms(3)] simp: table_steps il_done_def dest: table_okD(3) [OF assms(3)])
next
  case (unlock_missing t key b l)
  then show ?thesis by (auto intro!: table_ok_moved [OF assms(3)] simp: table_steps dest: table_okD(3) [OF assms(3)])
next
  case (release t key a)
  then show ?thesis by (auto intro!: table_ok_moved [OF assms(3)] simp: set_locked_def dest: table_okD(3) [OF assms(3)])
next
  case clean
  have "kl_locks (ls_lock s') (key_of (ls_pc s t)) = Some a" if "counts_on (ls_pc s t) a" for t a
    using counted_in_table [OF assms(2,3) that] clean by simp
  moreover have "kl_locks (ls_lock s') k = Some a \<Longrightarrow> kl_locks (ls_lock s) k = Some a" for k a
    using clean by (auto simp: Clean_def split: option.splits if_splits)
  moreover have "kl_next (ls_lock s') = kl_next (ls_lock s)" "ls_pc s' = ls_pc s" using clean by (simp_all add: Clean_def)
  ultimately show ?thesis using assms(3) unfolding table_ok_def by metis
qed

lemma lock_step_mutex:
  assumes "lock_step s s'" and "table_ok s" and "mutex_ok s"
  shows "mutex_ok s'"
  using assms(1)
proof cases
  case (found t key a l)
  with assms(3) show ?thesis by (auto intro!: mutex_ok_moved simp: table_steps il_add_def) (simp_all add: mutex_ok_def)
next
  case (not_found t key l)
  with assms(3) show ?thesis by (auto intro!: mutex_ok_moved simp: table_steps) (simp_all add: mutex_ok_def)
next
  case (inserted t key a l)
  have "has_locked (ls_pc s u) b \<Longrightarrow> b \<noteq> kl_next (ls_lock s)" for u b using table_okD(4) [OF assms(2)] by blast
  with inserted assms(3) show ?thesis
    by (cases "kl_locks (ls_lock s) key")
      (auto intro!: mutex_ok_moved simp: Lock_write_new Lock_write_found il_add_def, auto simp: mutex_ok_def split: if_splits)
next
  case (acquire t key a)
  then have "\<not> has_locked (ls_pc s u) a" for u using assms(3) by (auto simp: mutex_ok_def)
  with acquire assms(3) show ?thesis by (auto intro!: mutex_ok_moved simp: set_locked_def) (auto simp: mutex_ok_def)
next
  case (unlock t key b a l)
  then have ba: "b = a" using table_okD(2) [OF assms(2) unlock(2)] by (simp add: table_steps)
  with unlock have t: "has_locked (ls_pc s t) a" by simp
  then have "u \<noteq> t \<Longrightarrow> \<not> has_locked (ls_pc s u) a" "kl_locked (ls_lock s) a" for u using assms(3) by (auto simp: mutex_ok_def)
  with unlock assms(3) ba show ?thesis
    by (auto intro!: mutex_ok_moved simp: table_steps il_done_def) (auto simp: mutex_ok_def)
next
  case (unlock_missing t key b l)
  then have False using table_okD(2) [OF assms(2) unlock_missing(2)] by (simp add: table_steps)
  then show ?thesis ..
next
  case (release t key a)
  then have "u \<noteq> t \<Longrightarrow> \<not> has_locked (ls_pc s u) a" for u using assms(3) by (auto simp: mutex_ok_def)
  with release assms(3) show ?thesis by (auto intro!: mutex_ok_moved simp: set_locked_def) (auto simp: mutex_ok_def split: if_splits)
next
  case clean
  with assms(3) show ?thesis by (simp add: mutex_ok_def Clean_def)
qed

lemma lock_reachable_inv: "lock_reachable s \<Longrightarrow> lock_inv s"
proof (induction rule: lock_reachable.induct)
  case start
  show ?case by (simp add: lock_inv_def counts_ok_def counted_def table_ok_def mutex_ok_def NewKeyLock_def)
next
  case (step s s')
  then show ?case using lock_step_counts lock_step_table lock_step_mutex by (simp add: lock_inv_def)
qed

section \<open>What the locks give\<close>

text \<open>The contract: a table of owners, in which a key is taken only when nobody has it.\<close>

definition owners :: "lock_sys \<Rightarrow> (nat \<times> gostring) set" where
  "owners s = {(t, k). \<exists>a. ls_pc s t = Holding k a}"

inductive owner_step :: "(nat \<times> gostring) set \<Rightarrow> (nat \<times> gostring) set \<Rightarrow> bool" where
  take: "(\<And>u. (u, k) \<notin> S) \<Longrightarrow> owner_step S (insert (t, k) S)"
| give: "(t, k) \<in> S \<Longrightarrow> owner_step S (S - {(t, k)})"

lemma owners_moved:
  "owners (moved t p l s) = {(u, k) \<in> owners s. u \<noteq> t} \<union> (case p of Holding k _ \<Rightarrow> {(t, k)} | _ \<Rightarrow> {})"
  by (auto simp: owners_def moved_def split: pc.splits if_splits)

lemma not_owner: "(\<And>k a. ls_pc s t \<noteq> Holding k a) \<Longrightarrow> {(u, k) \<in> owners s. u \<noteq> t} = owners s"
  by (auto simp: owners_def)

lemma lock_step_refines:
  assumes "lock_inv s" and "lock_step s s'"
  shows "owners s' = owners s \<or> owner_step (owners s) (owners s')"
  using assms(2)
proof cases
  case (acquire t key a)
  have "(u, key) \<notin> owners s" for u
  proof
    assume "(u, key) \<in> owners s"
    then obtain b where b: "ls_pc s u = Holding key b" by (auto simp: owners_def)
    have "table_ok s" using assms(1) by (simp add: lock_inv_def)
    from table_okD(1) [OF this acquire(2)] table_okD(2) [OF this b] have "b = a" by simp
    with b have "has_locked (ls_pc s u) a" by simp
    with assms(1) acquire(3) show False by (auto simp: lock_inv_def mutex_ok_def)
  qed
  then have "owner_step (owners s) (insert (t, key) (owners s))" by (rule owner_step.take)
  with acquire show ?thesis by (simp add: owners_moved not_owner)
next
  case (unlock t key b a l)
  then have "{(u, k) \<in> owners s. u \<noteq> t} = owners s - {(t, key)}" "(t, key) \<in> owners s" by (auto simp: owners_def)
  with unlock show ?thesis by (simp add: owners_moved owner_step.give)
next
  case (unlock_missing t key b l)
  then have "{(u, k) \<in> owners s. u \<noteq> t} = owners s - {(t, key)}" "(t, key) \<in> owners s" by (auto simp: owners_def)
  with unlock_missing show ?thesis by (simp add: owners_moved owner_step.give)
next
  case clean
  then show ?thesis by (simp add: owners_def)
qed (simp_all add: owners_moved not_owner)

lemma lock_excludes:
  assumes "lock_reachable s" and "ls_pc s t = Holding key a"
  shows "ls_pc s u = Holding key b \<Longrightarrow> u = t"
    and "Unlock_read key (ls_lock s) = (Some a, il_done a (ls_lock s))" and "kl_locked (ls_lock s) a"
proof -
  have inv: "table_ok s" "mutex_ok s" using lock_reachable_inv [OF assms(1)] by (simp_all add: lock_inv_def)
  have a: "kl_locks (ls_lock s) key = Some a" by (rule table_okD(2) [OF inv(1) assms(2)])
  then show "Unlock_read key (ls_lock s) = (Some a, il_done a (ls_lock s))" by (simp add: Unlock_read_def)
  show "kl_locked (ls_lock s) a" using inv(2) assms(2) unfolding mutex_ok_def by (metis has_locked.simps(1))
  assume u: "ls_pc s u = Holding key b"
  then have "b = a" using table_okD(2) [OF inv(1) u] a by simp
  with u assms(2) inv(2) show "u = t" unfolding mutex_ok_def by (metis has_locked.simps(1))
qed

text \<open>A thread that waits can go on, or another one has the lock and can give it back: in \<open>Unlock\<close> it finds the
  lock it took, and then nothing keeps it from releasing it.\<close>

lemma waiting_goes_on:
  assumes "lock_reachable s" and "ls_pc s t = Waiting key a"
  shows "lock_step s (moved t (Holding key a) (set_locked a True (ls_lock s)) s) \<or>
    (\<exists>u k. ls_pc s u = Holding k a \<and> lock_step s (moved u (Leaving k a) (il_done a (ls_lock s)) s)) \<or>
    (\<exists>u k. ls_pc s u = Leaving k a \<and> lock_step s (moved u Outside (set_locked a False (ls_lock s)) s))"
proof (cases "kl_locked (ls_lock s) a")
  case False
  with assms(2) show ?thesis by (auto intro: lock_step.acquire)
next
  case True
  have "mutex_ok s" using lock_reachable_inv [OF assms(1)] by (simp add: lock_inv_def)
  with True obtain u where "has_locked (ls_pc s u) a" unfolding mutex_ok_def by blast
  then consider k where "ls_pc s u = Holding k a" | k where "ls_pc s u = Leaving k a" by (cases "ls_pc s u") auto
  then show ?thesis
  proof cases
    case 1
    from lock_step.unlock [OF 1 lock_excludes(2) [OF assms(1) 1]] 1 show ?thesis by blast
  next
    case 2
    from lock_step.release [OF 2] 2 show ?thesis by blast
  qed
qed

text \<open>Cleaning leaves the locks in use and only those.\<close>

lemma Clean_keeps_used:
  assumes "lock_reachable s" and "kl_locks (ls_lock s) key = Some a"
  shows "kl_locks (Clean (ls_lock s)) key = (if \<exists>t. counts_on (ls_pc s t) a then Some a else None)"
proof -
  have c: "finite (counted (ls_pc s) a)" "kl_count (ls_lock s) a = int (card (counted (ls_pc s) a))"
    using lock_reachable_inv [OF assms(1)] by (simp_all add: lock_inv_def counts_ok_def)
  then have "kl_count (ls_lock s) a = 0 \<longleftrightarrow> (\<forall>t. \<not> counts_on (ls_pc s t) a)" by (simp add: counted_def)
  with assms(2) show ?thesis by (auto simp: Clean_def)
qed

end
