(* ===== verification/ClientLib.thy ===== *)
theory ClientLib
  imports Crypto Unpack
begin

text \<open>
  The client library, \<^verbatim>\<open>pkg/client\<close>: its buffers (\<^verbatim>\<open>buffer.go\<close>), its options
  (\<^verbatim>\<open>options.go\<close>), and connecting, sending, receiving and reconnecting (\<^verbatim>\<open>client.go\<close>). A
  goroutine is given by its steps: one kick of the flusher, one read of the read loop, one round of
  reconnecting, one firing of the ping timer. What a dialled connection does is an argument.
\<close>

section \<open>Buffers\<close>

text \<open>The writing side of a connection: \<open>nw_fails k\<close> tells whether its \<open>k\<close>-th \<open>Write\<close> fails, and after how
  many bytes. A writer with a timeout (\<open>timeoutWriter\<close>) repeats the error it once had.\<close>

record net_writer =
  nw_sent :: bytes
  nw_fails :: "nat \<Rightarrow> nat option"
  nw_count :: nat
  nw_timeout :: bool
  nw_broken :: bool

definition ErrWrite :: go_error where "ErrWrite = ErrMsg ''write''"

definition nw_Write :: "bytes \<Rightarrow> net_writer \<Rightarrow> unit outcome \<times> net_writer" where
  "nw_Write p w =
     (if nw_timeout w \<and> nw_broken w then (Fail ErrWrite, w)
      else case nw_fails w (nw_count w) of
          None \<Rightarrow> (Ret (), w\<lparr>nw_sent := nw_sent w @ p, nw_count := Suc (nw_count w)\<rparr>)
        | Some n \<Rightarrow> (Fail ErrWrite, w\<lparr>nw_sent := nw_sent w @ take n p, nw_count := Suc (nw_count w), nw_broken := True\<rparr>))"

record limWriter =
  lw_w :: "net_writer option"
  lw_bufs :: bytes
  lw_limit :: int
  lw_pending :: "bytes option"
  lw_plimit :: int

definition w_Write :: "bytes \<Rightarrow> limWriter \<Rightarrow> unit outcome \<times> limWriter" where
  "w_Write p w = (case lw_w w of
       None \<Rightarrow> (Panic, w)
     | Some n \<Rightarrow> let (r, n) = nw_Write p n in (r, w\<lparr>lw_w := Some n\<rparr>))"

definition lw_flush :: "limWriter \<Rightarrow> unit outcome \<times> limWriter" where
  "lw_flush w =
     (if lw_pending w \<noteq> None then (Ret (), w)
      else let (r, w) = w_Write (lw_bufs w) w in (r, w\<lparr>lw_bufs := []\<rparr>))"

fun lw_collect :: "bytes list \<Rightarrow> limWriter \<Rightarrow> limWriter" where
  "lw_collect [] w = w"
| "lw_collect (buf # bufs) w =
     (if length buf = 0 then lw_collect bufs w
      else case lw_pending w of
          Some p \<Rightarrow> lw_collect bufs (w\<lparr>lw_pending := Some (p @ buf)\<rparr>)
        | None \<Rightarrow> lw_collect bufs (w\<lparr>lw_bufs := lw_bufs w @ buf\<rparr>))"

definition appendBufs :: "bytes list \<Rightarrow> limWriter \<Rightarrow> unit outcome \<times> limWriter" where
  "appendBufs bufs w =
     (let w = lw_collect bufs w in
      if lw_pending w = None \<and> int (length (lw_bufs w)) \<ge> lw_limit w then lw_flush w else (Ret (), w))"

definition appendString :: "gostring \<Rightarrow> limWriter \<Rightarrow> unit outcome \<times> limWriter" where
  "appendString s = appendBufs [s]"

definition lw_writeDirect :: "bytes \<Rightarrow> limWriter \<Rightarrow> unit outcome \<times> limWriter" where
  "lw_writeDirect data w = w_Write data w"

definition lw_buffered :: "limWriter \<Rightarrow> nat" where
  "lw_buffered w = (case lw_pending w of Some p \<Rightarrow> length p | None \<Rightarrow> length (lw_bufs w))"

definition switchToPending :: "limWriter \<Rightarrow> limWriter" where
  "switchToPending w = w\<lparr>lw_pending := Some []\<rparr>"

definition flushPendingBuffer :: "limWriter \<Rightarrow> unit outcome \<times> limWriter" where
  "flushPendingBuffer w =
     (case lw_pending w of
        None \<Rightarrow> (Ret (), w)
      | Some p \<Rightarrow> if length p = 0 then (Ret (), w)
          else let (r, w) = w_Write p w in (r, w\<lparr>lw_pending := Some []\<rparr>))"

definition atLimitIfUsingPending :: "limWriter \<Rightarrow> bool" where
  "atLimitIfUsingPending w = (case lw_pending w of None \<Rightarrow> False | Some p \<Rightarrow> int (length p) \<ge> lw_plimit w)"

definition doneWithPending :: "limWriter \<Rightarrow> limWriter" where
  "doneWithPending w = w\<lparr>lw_pending := None\<rparr>"

text \<open>The reader: what its last read left, and from where it is still to be handed out. A read of the
  connection is an argument: the bytes it gave, and whether an error came with them.\<close>

record limReader =
  lr_data :: bytes
  lr_off :: "nat option"

definition lr_Read :: "bytes \<times> go_error option \<Rightarrow> limReader \<Rightarrow> bytes \<times> go_error option \<times> bool \<times> limReader" where
  "lr_Read answer r =
     (case lr_off r of
        Some off \<Rightarrow> (drop off (lr_data r), None, False, r\<lparr>lr_off := None\<rparr>)
      | None \<Rightarrow> (fst answer, snd answer, True, r\<lparr>lr_data := fst answer\<rparr>))"

text \<open>\<open>ReadString\<close>: \<open>None\<close> when the reads that the connection answers are used up before the delimiter is found.\<close>

definition index_byte :: "byte \<Rightarrow> bytes \<Rightarrow> nat option" where
  "index_byte c s = (if c \<in> set s then Some (length (takeWhile (\<lambda>b. b \<noteq> c) s)) else None)"

fun lr_ReadString :: "byte \<Rightarrow> gostring \<Rightarrow> (bytes \<times> go_error option) list \<Rightarrow> limReader \<Rightarrow>
    (gostring \<times> go_error option \<times> (bytes \<times> go_error option) list \<times> limReader) option" where
  "lr_ReadString delim s answers r =
     (case lr_off r of
        Some off \<Rightarrow>
          (case index_byte delim (drop off (lr_data r)) of
             Some i \<Rightarrow> let end = off + i + 1 in
               Some (s @ take (i + 1) (drop off (lr_data r)), None, answers,
                 r\<lparr>lr_off := if end \<ge> length (lr_data r) then None else Some end\<rparr>)
           | None \<Rightarrow>
              (case answers of
                 [] \<Rightarrow> None
               | (d, Some e) # answers \<Rightarrow> Some (s @ drop off (lr_data r), Some e, answers, r\<lparr>lr_off := None, lr_data := d\<rparr>)
               | (d, None) # answers \<Rightarrow> lr_ReadString delim (s @ drop off (lr_data r)) answers (r\<lparr>lr_off := Some 0, lr_data := d\<rparr>)))
      | None \<Rightarrow>
          (case answers of
             [] \<Rightarrow> None
           | (d, Some e) # answers \<Rightarrow> Some (s, Some e, answers, r\<lparr>lr_data := d\<rparr>)
           | (d, None) # answers \<Rightarrow> lr_ReadString delim s answers (r\<lparr>lr_off := Some 0, lr_data := d\<rparr>)))"

section \<open>Options\<close>

record client_opts =
  co_ProtoVersion :: u8
  co_UID :: gostring
  co_Token :: gostring
  co_AutoReconn :: bool
  co_DefaultBufSize :: int
  co_ReconnectBufSize :: int
  co_FlusherTimeout :: int
  co_Timeout :: int
  co_PingInterval :: int
  co_MaxPingCount :: int
  co_ReconnectJitter :: int
  co_ReconnectWait :: int

definition second :: int where "second = 1000000000"
definition millisecond :: int where "millisecond = 1000000"

definition NewOptions :: client_opts where
  "NewOptions = \<lparr>co_ProtoVersion = LatestVersion, co_UID = [], co_Token = [], co_AutoReconn = False,
     co_DefaultBufSize = 32768, co_ReconnectBufSize = 8 * 1024 * 1024, co_FlusherTimeout = 0, co_Timeout = 2 * second,
     co_PingInterval = 2 * 60 * second, co_MaxPingCount = 2, co_ReconnectJitter = 100 * millisecond,
     co_ReconnectWait = 2 * second\<rparr>"

definition WithProtoVersion :: "u8 \<Rightarrow> client_opts \<Rightarrow> client_opts outcome" where
  "WithProtoVersion version opts = Ret (opts\<lparr>co_ProtoVersion := version\<rparr>)"
definition WithUID :: "gostring \<Rightarrow> client_opts \<Rightarrow> client_opts outcome" where
  "WithUID uid opts = Ret (opts\<lparr>co_UID := uid\<rparr>)"
definition WithToken :: "gostring \<Rightarrow> client_opts \<Rightarrow> client_opts outcome" where
  "WithToken token opts = Ret (opts\<lparr>co_Token := token\<rparr>)"
definition WithAutoReconn :: "bool \<Rightarrow> client_opts \<Rightarrow> client_opts outcome" where
  "WithAutoReconn b opts = Ret (opts\<lparr>co_AutoReconn := b\<rparr>)"

record send_opts =
  so_NoPersist :: bool
  so_SyncOnce :: bool
  so_Flush :: bool
  so_RedDot :: bool
  so_NoEncrypt :: bool
  so_ClientMsgNo :: gostring

definition NewSendOptions :: send_opts where
  "NewSendOptions = \<lparr>so_NoPersist = False, so_SyncOnce = False, so_Flush = True, so_RedDot = True, so_NoEncrypt = False,
     so_ClientMsgNo = []\<rparr>"

definition SendOptionWithNoPersist :: "bool \<Rightarrow> send_opts \<Rightarrow> send_opts" where
  "SendOptionWithNoPersist b opts = opts\<lparr>so_NoPersist := b\<rparr>"
definition SendOptionWithSyncOnce :: "bool \<Rightarrow> send_opts \<Rightarrow> send_opts" where
  "SendOptionWithSyncOnce b opts = opts\<lparr>so_SyncOnce := b\<rparr>"
definition SendOptionWithFlush :: "bool \<Rightarrow> send_opts \<Rightarrow> send_opts" where
  "SendOptionWithFlush b opts = opts\<lparr>so_Flush := b\<rparr>"
definition SendOptionWithRedDot :: "bool \<Rightarrow> send_opts \<Rightarrow> send_opts" where
  "SendOptionWithRedDot b opts = opts\<lparr>so_RedDot := b\<rparr>"
definition SendOptionWithClientMsgNo :: "gostring \<Rightarrow> send_opts \<Rightarrow> send_opts" where
  "SendOptionWithClientMsgNo no opts = opts\<lparr>so_ClientMsgNo := no\<rparr>"
definition SendOptionWithNoEncrypt :: "bool \<Rightarrow> send_opts \<Rightarrow> send_opts" where
  "SendOptionWithNoEncrypt b opts = opts\<lparr>so_NoEncrypt := b\<rparr>"

section \<open>The client\<close>

datatype Status = DISCONNECTED | CONNECTED | CLOSED | RECONNECTING | CONNECTING

definition Status_String :: "Status \<Rightarrow> gostring" where
  "Status_String s = (case s of DISCONNECTED \<Rightarrow> str ''DISCONNECTED'' | CONNECTED \<Rightarrow> str ''CONNECTED'' | CLOSED \<Rightarrow> str ''CLOSED''
     | RECONNECTING \<Rightarrow> str ''RECONNECTING'' | CONNECTING \<Rightarrow> str ''CONNECTING'')"

definition ErrStaleConnection :: go_error where "ErrStaleConnection = ErrMsg ''im stale connection''"
definition ErrNoServers :: go_error where "ErrNoServers = ErrMsg ''im no servers available for connection''"
definition ErrBadTimeout :: go_error where "ErrBadTimeout = ErrMsg ''im timeout invalid''"
definition ErrConnectionClosed :: go_error where "ErrConnectionClosed = ErrMsg ''im connection closed''"
definition ErrTimeout :: go_error where "ErrTimeout = ErrMsg ''im timeout''"

record statistics =
  st_InMsgs :: u64
  st_OutMsgs :: u64
  st_InBytes :: u64
  st_OutBytes :: u64
  st_Reconnects :: u64

text \<open>
  \<open>cl_conn\<close> is the number of the connection, if the field is not nil; \<open>cl_kicks\<close> is what waits in the
  flusher's channel, which takes one; \<open>cl_flusher\<close> and \<open>cl_reader\<close> are the connections that the two goroutines
  run on. \<open>cl_pongs\<close> holds the channels of the pings that were sent, \<open>cl_signals\<close> the values sent to such channels,
  \<open>cl_recvs\<close> and \<open>cl_sendacks\<close> the packets given to the callbacks, \<open>cl_reconnectors\<close> the \<open>doReconnect\<close>s started.
\<close>

record client =
  cl_opts :: client_opts
  cl_aesKey :: gostring
  cl_salt :: gostring
  cl_clientIDGen :: u64
  cl_addr :: gostring
  cl_writer :: limWriter
  cl_reader_buf :: limReader
  cl_status :: Status
  cl_abortReconnect :: bool
  cl_conn :: "nat option"
  cl_conns :: nat
  cl_pingOut :: int
  cl_pingTimer :: "bool option"
  cl_kicks :: nat
  cl_flusher :: "nat option"
  cl_reader :: "nat option"
  cl_tmpBuff :: bytes
  cl_privKey :: bytes
  cl_pongs :: "nat option list"
  cl_signals :: "nat list"
  cl_err :: "go_error option"
  cl_stats :: statistics
  cl_recvs :: "RecvPacket list"
  cl_sendacks :: "SendackPacket list"
  cl_reconnectors :: nat

definition New :: "gostring \<Rightarrow> client_opts \<Rightarrow> client" where
  "New addr opts = \<lparr>cl_opts = opts, cl_aesKey = [], cl_salt = [], cl_clientIDGen = 0, cl_addr = addr,
     cl_writer = \<lparr>lw_w = None, lw_bufs = [], lw_limit = co_DefaultBufSize opts, lw_pending = None, lw_plimit = co_ReconnectBufSize opts\<rparr>,
     cl_reader_buf = \<lparr>lr_data = [], lr_off = None\<rparr>, cl_status = DISCONNECTED, cl_abortReconnect = False, cl_conn = None,
     cl_conns = 0, cl_pingOut = 0, cl_pingTimer = None, cl_kicks = 0, cl_flusher = None, cl_reader = None, cl_tmpBuff = [],
     cl_privKey = [], cl_pongs = [], cl_signals = [], cl_err = None,
     cl_stats = \<lparr>st_InMsgs = 0, st_OutMsgs = 0, st_InBytes = 0, st_OutBytes = 0, st_Reconnects = 0\<rparr>,
     cl_recvs = [], cl_sendacks = [], cl_reconnectors = 0\<rparr>"

text \<open>The options are applied in turn; one that reports an error panics, a nil one is skipped.\<close>

fun apply_options :: "(client_opts \<Rightarrow> client_opts outcome) option list \<Rightarrow> client_opts \<Rightarrow> client_opts outcome" where
  "apply_options [] opts = Ret opts"
| "apply_options (None # ops) opts = apply_options ops opts"
| "apply_options (Some op # ops) opts = (case op opts of Ret opts \<Rightarrow> apply_options ops opts | _ \<Rightarrow> Panic)"

definition New_with :: "gostring \<Rightarrow> (client_opts \<Rightarrow> client_opts outcome) option list \<Rightarrow> client outcome" where
  "New_with addr ops = mapR (New addr) (apply_options ops NewOptions)"

type_synonym 'a client_op = "client \<Rightarrow> 'a outcome \<times> client"

text \<open>The standard library and the callbacks: ciphers, the hash, the Diffie-Hellman function, and what
  \<open>onRecv\<close> answers, if it is set.\<close>

record client_env =
  ke_cipher :: block_cipher
  ke_md5 :: "bytes \<Rightarrow> bytes"
  ke_dh :: "bytes \<Rightarrow> bytes \<Rightarrow> bytes"
  ke_onRecv :: "(RecvPacket \<Rightarrow> go_error option) option"
  ke_onSendack :: bool

definition on_writer :: "(limWriter \<Rightarrow> 'a outcome \<times> limWriter) \<Rightarrow> 'a client_op" where
  "on_writer f c = (let (r, w) = f (cl_writer c) in (r, c\<lparr>cl_writer := w\<rparr>))"

definition count_out :: "bytes \<Rightarrow> client \<Rightarrow> client" where
  "count_out data c = c\<lparr>cl_stats := (cl_stats c)\<lparr>st_OutBytes := st_OutBytes (cl_stats c) + word_of_nat (length data),
     st_OutMsgs := st_OutMsgs (cl_stats c) + 1\<rparr>\<rparr>"

text \<open>Every write to a closed connection fails.\<close>

definition close_conn :: "client \<Rightarrow> client" where
  "close_conn c = c\<lparr>cl_writer := (cl_writer c)\<lparr>lw_w := map_option (\<lambda>n. n\<lparr>nw_fails := (\<lambda>_. Some 0)\<rparr>) (lw_w (cl_writer c))\<rparr>\<rparr>"

definition isClosed :: "client \<Rightarrow> bool" where "isClosed c \<longleftrightarrow> cl_status c = CLOSED"
definition isConnected :: "client \<Rightarrow> bool" where "isConnected c \<longleftrightarrow> cl_status c = CONNECTED"
definition isConnecting :: "client \<Rightarrow> bool" where "isConnecting c \<longleftrightarrow> cl_status c = CONNECTING"
definition isReconnecting :: "client \<Rightarrow> bool" where "isReconnecting c \<longleftrightarrow> cl_status c = RECONNECTING"

text \<open>Nobody closes the flusher's channel, which has room for one value: a kick that finds it full is dropped.\<close>

definition kickFlusher :: "client \<Rightarrow> client" where
  "kickFlusher c = (if cl_kicks c = 0 then c\<lparr>cl_kicks := 1\<rparr> else c)"

definition sendPacket :: "frame \<Rightarrow> unit client_op" where
  "sendPacket packet c =
     (let data = EncodeFrame packet (co_ProtoVersion (cl_opts c)) in on_writer (lw_writeDirect data) (count_out data c))"

definition appendPacket :: "frame \<Rightarrow> unit client_op" where
  "appendPacket packet c =
     (let data = EncodeFrame packet (co_ProtoVersion (cl_opts c)) in
      case on_writer (appendBufs [data]) (count_out data c) of
        (Ret _, c) \<Rightarrow> (Ret (), if cl_kicks c = 0 then kickFlusher c else c)
      | r \<Rightarrow> r)"

text \<open>The errors of the writer are dropped.\<close>

definition sendPing :: "nat option \<Rightarrow> unit client_op" where
  "sendPing ch c =
     (let data = EncodeFrame (FPing empty_framer) (co_ProtoVersion (cl_opts c)); c = c\<lparr>cl_pongs := cl_pongs c @ [ch]\<rparr> in
      case on_writer (appendBufs [data]) c of
        (Panic, c) \<Rightarrow> (Panic, c)
      | (_, c) \<Rightarrow> (case on_writer lw_flush c of (Panic, c) \<Rightarrow> (Panic, c) | (_, c) \<Rightarrow> (Ret (), c)))"

definition stopPingTimer :: "client \<Rightarrow> client" where
  "stopPingTimer c = c\<lparr>cl_pingTimer := map_option (\<lambda>_. False) (cl_pingTimer c)\<rparr>"

section \<open>Connecting\<close>

text \<open>\<open>strings.Split\<close> at \<open>://\<close> and at the colon. The port is what follows the second colon of the address, and an
  address with a scheme but without a port panics.\<close>

fun split_scheme :: "gostring \<Rightarrow> gostring \<Rightarrow> (gostring \<times> gostring) option" where
  "split_scheme acc [] = None"
| "split_scheme acc (b # s) =
     (if take 3 (b # s) = str ''://'' then Some (acc, drop 3 (b # s)) else split_scheme (acc @ [b]) s)"

definition up_to_scheme :: "gostring \<Rightarrow> gostring" where
  "up_to_scheme s = (case split_scheme [] s of None \<Rightarrow> s | Some (a, _) \<Rightarrow> a)"

definition lower :: "byte \<Rightarrow> byte" where
  "lower b = (if 65 \<le> b \<and> b \<le> 90 then b + 32 else b)"

definition cli_parseAddr :: "gostring \<Rightarrow> (gostring \<times> gostring) outcome" where
  "cli_parseAddr addr =
     (let address = map lower addr in
      case split_scheme [] address of
        None \<Rightarrow> Ret (str ''tcp'', address)
      | Some (network, rest) \<Rightarrow>
          (let address = up_to_scheme rest in
           if length (split_on 58 address) < 2 then Panic else Ret (network, address)))"

text \<open>What one attempt to connect meets: whether the dial succeeds, what the connection delivers until the
  handshake is over, and how its writes fail; the key pair, the identifier of the device and the time.\<close>

record dial =
  di_answer :: "bytes outcome"
  di_fails :: "nat \<Rightarrow> nat option"
  di_private :: bytes
  di_public :: bytes
  di_deviceID :: gostring
  di_now :: i64

definition bindToNewConn :: "dial \<Rightarrow> client \<Rightarrow> client" where
  "bindToNewConn d c = c
     \<lparr>cl_writer := (cl_writer c)\<lparr>lw_w := Some \<lparr>nw_sent = [], nw_fails = di_fails d, nw_count = 0,
        nw_timeout = (co_FlusherTimeout (cl_opts c) > 0), nw_broken = False\<rparr>, lw_bufs := []\<rparr>,
      cl_reader_buf := \<lparr>lr_data = [], lr_off = None\<rparr>\<rparr>"

definition createConn :: "dial \<Rightarrow> bytes client_op" where
  "createConn d c =
     (case cli_parseAddr (cl_addr c) of
        Panic \<Rightarrow> (Panic, c)
      | _ \<Rightarrow> (case di_answer d of
          Ret answer \<Rightarrow> (Ret answer, bindToNewConn d (c\<lparr>cl_conn := Some (cl_conns c), cl_conns := Suc (cl_conns c)\<rparr>))
        | e \<Rightarrow> (e, c)))"

definition setup_client :: "client \<Rightarrow> client" where
  "setup_client c = c\<lparr>cl_kicks := 0, cl_pongs := []\<rparr>"

definition connect_packet :: "dial \<Rightarrow> client_opts \<Rightarrow> ConnectPacket" where
  "connect_packet d opts = \<lparr>con_Framer = empty_framer, con_Version = co_ProtoVersion opts, con_ClientKey = b64_encode (di_public d),
     con_DeviceID = di_deviceID d, con_DeviceFlag = APP, con_ClientTimestamp = di_now d, con_UID = co_UID opts,
     con_Token = co_Token opts\<rparr>"

text \<open>The keys from the answer. Of the server's key 32 bytes are taken from the buffer that held the decoded text,
  as the server does with the client's.\<close>

definition session_keys :: "client_env \<Rightarrow> bytes \<Rightarrow> ConnackPacket \<Rightarrow> (gostring \<times> gostring) outcome" where
  "session_keys ev private connack =
     bindR (b64_decode (cak_ServerKey connack)) (\<lambda>serverKey.
       if length (cak_ServerKey connack) div 4 * 3 < 32 then Panic
       else let shareKey = ke_dh ev private (take 32 (serverKey @ replicate 32 0)) in
         Ret (take 16 (MD5 (ke_md5 ev) (b64_encode shareKey)), cak_Salt connack))"

definition sendConnect :: "client_env \<Rightarrow> dial \<Rightarrow> bytes \<Rightarrow> bytes client_op" where
  "sendConnect ev d answer c =
     (let c = c\<lparr>cl_privKey := di_private d\<rparr> in
      case sendPacket (FConnect (connect_packet d (cl_opts c))) c of
        (Ret _, c) \<Rightarrow>
          (case DecodePacketWithConn answer (co_ProtoVersion (cl_opts c)) of
             Ret (FConnack connack, rest) \<Rightarrow>
               (if cak_ReasonCode connack \<noteq> ReasonSuccess then (Fail (ErrMsg ''connecting failed''), c)
                else let c = c\<lparr>cl_salt := cak_Salt connack\<rparr> in
                  case session_keys ev (cl_privKey c) connack of
                    Ret (aesKey, _) \<Rightarrow> (Ret rest, c\<lparr>cl_aesKey := aesKey\<rparr>)
                  | Fail e \<Rightarrow> (Fail e, c)
                  | Panic \<Rightarrow> (Panic, c))
           | Ret _ \<Rightarrow> (Fail (ErrMsg ''the answer is no connack packet''), c)
           | Fail e \<Rightarrow> (Fail e, c)
           | Panic \<Rightarrow> (Panic, c))
      | (Fail e, c) \<Rightarrow> (Fail e, c)
      | (Panic, c) \<Rightarrow> (Panic, c))"

text \<open>The bytes behind the answer are the first that the read loop reads.\<close>

definition processConnectInit :: "client_env \<Rightarrow> dial \<Rightarrow> bytes \<Rightarrow> bytes client_op" where
  "processConnectInit ev d answer c =
     (case sendConnect ev d answer (c\<lparr>cl_status := CONNECTING\<rparr>) of
        (Ret rest, c) \<Rightarrow>
          (let c = c\<lparr>cl_pingOut := 0\<rparr>;
               c = (if co_PingInterval (cl_opts c) > 0 then c\<lparr>cl_pingTimer := Some True\<rparr> else c) in
           (Ret rest, c\<lparr>cl_reader := cl_conn c, cl_tmpBuff := [], cl_flusher := cl_conn c\<rparr>))
      | r \<Rightarrow> r)"

definition client_close :: "Status \<Rightarrow> unit client_op" where
  "client_close status c =
     (if isClosed c then (Ret (), c\<lparr>cl_status := status\<rparr>)
      else
        let c = kickFlusher (c\<lparr>cl_status := CLOSED\<rparr>); c = (stopPingTimer c)\<lparr>cl_pingTimer := None\<rparr> in
        if cl_abortReconnect c \<and> cl_conn c \<noteq> None then (Ret (), (close_conn c)\<lparr>cl_conn := None, cl_status := status\<rparr>)
        else if cl_conn c \<noteq> None then
          (case on_writer lw_flush c of (Panic, c) \<Rightarrow> (Panic, c) | (_, c) \<Rightarrow> (Ret (), (close_conn c)\<lparr>cl_status := status\<rparr>))
        else (Ret (), c\<lparr>cl_status := status\<rparr>))"

definition Close :: "unit client_op" where
  "Close = client_close CLOSED"

definition start_reconnecting :: "client \<Rightarrow> client" where
  "start_reconnecting c = c\<lparr>cl_writer := switchToPending (cl_writer c), cl_reconnectors := Suc (cl_reconnectors c)\<rparr>"

definition Connect :: "client_env \<Rightarrow> dial \<Rightarrow> bytes client_op" where
  "Connect ev d c =
     (case createConn d c of
        (Ret answer, c) \<Rightarrow>
          (case processConnectInit ev d answer (setup_client c) of
             (Fail e, c) \<Rightarrow>
               (case client_close DISCONNECTED c of
                  (Panic, c) \<Rightarrow> (Panic, c)
                | (_, c) \<Rightarrow>
                    if co_AutoReconn (cl_opts c)
                    then (Ret [], start_reconnecting ((setup_client c)\<lparr>cl_status := RECONNECTING\<rparr>))
                    else (Fail e, c))
           | r \<Rightarrow> r)
      | r \<Rightarrow> r)"

section \<open>Sending\<close>

definition send_packet :: "send_opts \<Rightarrow> gostring \<Rightarrow> u64 \<Rightarrow> gostring \<Rightarrow> u8 \<Rightarrow> bytes \<Rightarrow> SendPacket" where
  "send_packet opts clientMsgNo clientSeq channelID channelType payload =
     \<lparr>snd_Framer = empty_framer\<lparr>NoPersist := so_NoPersist opts, SyncOnce := so_SyncOnce opts, RedDot := True\<rparr>,
      snd_Setting = (if so_NoEncrypt opts then Setting_Set 0 SettingNoEncrypt else 0), snd_MsgKey = [], snd_Expire = 0,
      snd_ClientSeq = clientSeq, snd_ClientMsgNo = clientMsgNo, snd_StreamNo = [], snd_ChannelID = channelID,
      snd_ChannelType = channelType, snd_Topic = [], snd_Payload = payload\<rparr>"

definition SendMessage :: "client_env \<Rightarrow> gostring \<Rightarrow> gostring \<Rightarrow> u8 \<Rightarrow> bytes \<Rightarrow> send_opts \<Rightarrow> unit client_op" where
  "SendMessage ev uuid channelID channelType payload opts c =
     (case (if so_NoEncrypt opts then Ret payload else AesEncryptPkcs7Base64 (ke_cipher ev) payload (cl_aesKey c) (cl_salt c)) of
        Fail e \<Rightarrow> (Fail e, c)
      | Panic \<Rightarrow> (Panic, c)
      | Ret newPayload \<Rightarrow>
          let clientMsgNo = (if so_ClientMsgNo opts = [] then uuid else so_ClientMsgNo opts);
              clientSeq = cl_clientIDGen c + 1; c = c\<lparr>cl_clientIDGen := clientSeq\<rparr>;
              packet = send_packet opts clientMsgNo clientSeq channelID channelType newPayload in
          if so_NoEncrypt opts then appendPacket (FSend packet) c
          else case AesEncryptPkcs7Base64 (ke_cipher ev) (Send_VerityString packet) (cl_aesKey c) (cl_salt c) of
              Fail e \<Rightarrow> (Fail e, c)
            | Panic \<Rightarrow> (Panic, c)
            | Ret actMsgKey \<Rightarrow> appendPacket (FSend (packet\<lparr>snd_MsgKey := MD5 (ke_md5 ev) actMsgKey\<rparr>)) c)"

text \<open>One kick of the flusher: it ends unless the client is connected, on the connection it was started for.\<close>

definition flusher_kick :: "unit client_op" where
  "flusher_kick c =
     (if cl_flusher c = None \<or> cl_kicks c = 0 then (Ret (), c)
      else
        let c = c\<lparr>cl_kicks := 0\<rparr> in
        if \<not> isConnected c \<or> isConnecting c \<or> cl_flusher c \<noteq> cl_conn c then (Ret (), c\<lparr>cl_flusher := None\<rparr>)
        else if lw_buffered (cl_writer c) > 0 then
          (case on_writer lw_flush c of
             (Panic, c) \<Rightarrow> (Panic, c)
           | (Fail e, c) \<Rightarrow> (Ret (), if cl_err c = None then c\<lparr>cl_err := Some e\<rparr> else c)
           | (Ret _, c) \<Rightarrow> (Ret (), c))
        else (Ret (), c))"

section \<open>Receiving\<close>

definition count_in :: "frame \<Rightarrow> client \<Rightarrow> client" where
  "count_in f c = c\<lparr>cl_stats := (cl_stats c)\<lparr>st_InBytes := st_InBytes (cl_stats c) + FrameSize (frame_framer f),
     st_InMsgs := st_InMsgs (cl_stats c) + 1\<rparr>\<rparr>"

definition handleSendackPacket :: "client_env \<Rightarrow> SendackPacket \<Rightarrow> client \<Rightarrow> client" where
  "handleSendackPacket ev packet c = (if ke_onSendack ev then c\<lparr>cl_sendacks := cl_sendacks c @ [packet]\<rparr> else c)"

definition recvack_of :: "RecvPacket \<Rightarrow> RecvackPacket" where
  "recvack_of packet = \<lparr>rak_Framer = rcv_Framer packet, rak_MessageID = rcv_MessageID packet, rak_MessageSeq = rcv_MessageSeq packet\<rparr>"

text \<open>A payload that cannot be decrypted panics; without a callback it is not even read. Errors of the
  acknowledgement are dropped.\<close>

definition handleRecvPacket :: "client_env \<Rightarrow> RecvPacket \<Rightarrow> unit client_op" where
  "handleRecvPacket ev packet c =
     (let ack = (\<lambda>c. case sendPacket (FRecvack (recvack_of packet)) c of (Panic, c) \<Rightarrow> (Panic, c) | (_, c) \<Rightarrow> (Ret (), c)) in
      case ke_onRecv ev of
        None \<Rightarrow> ack c
      | Some onRecv \<Rightarrow>
          (case (if \<not> IsSet (rcv_Setting packet) SettingNoEncrypt
                 then AesDecryptPkcs7Base64 (ke_cipher ev) (rcv_Payload packet) (cl_aesKey c) (cl_salt c)
                 else Ret (rcv_Payload packet)) of
             Ret payload \<Rightarrow>
               (let packet = packet\<lparr>rcv_Payload := payload\<rparr>; c = c\<lparr>cl_recvs := cl_recvs c @ [packet]\<rparr> in
                if onRecv packet = None then ack c else (Ret (), c))
           | _ \<Rightarrow> (Panic, c)))"

definition handlePong :: "client \<Rightarrow> client" where
  "handlePong c =
     (case cl_pongs c of
        [] \<Rightarrow> c\<lparr>cl_pingOut := 0\<rparr>
      | ch # pongs \<Rightarrow> c\<lparr>cl_pongs := pongs, cl_pingOut := 0,
          cl_signals := (case ch of None \<Rightarrow> cl_signals c | Some ch \<Rightarrow> cl_signals c @ [ch])\<rparr>)"

text \<open>The decoder's nil frame panics: its type is asked for.\<close>

definition handlePacket :: "client_env \<Rightarrow> frame option \<Rightarrow> unit client_op" where
  "handlePacket ev frame c =
     (case frame of
        None \<Rightarrow> (Panic, c)
      | Some f \<Rightarrow>
          let c = count_in f c in
          case f of
            FSendack p \<Rightarrow> (Ret (), handleSendackPacket ev p c)
          | FRecv p \<Rightarrow> handleRecvPacket ev p c
          | FPong _ \<Rightarrow> (Ret (), handlePong c)
          | _ \<Rightarrow> (Ret (), c))"

fun handlePackets :: "client_env \<Rightarrow> frame option list \<Rightarrow> unit client_op" where
  "handlePackets ev [] c = (Ret (), c)"
| "handlePackets ev (f # fs) c =
     (case handlePacket ev f c of
        (Ret _, c) \<Rightarrow> handlePackets ev fs c
      | r \<Rightarrow> r)"

definition handlePacketDatas :: "client_env \<Rightarrow> bytes \<Rightarrow> client \<Rightarrow> (unit outcome \<times> client) option" where
  "handlePacketDatas ev packetData c =
     map_option (\<lambda>r. case r of Ret packets \<Rightarrow> handlePackets ev packets c | Fail e \<Rightarrow> (Fail e, c) | Panic \<Rightarrow> (Panic, c))
       (decode_packets packetData (co_ProtoVersion (cl_opts c)) 0 [])"

definition processOpErr :: "go_error \<Rightarrow> unit client_op" where
  "processOpErr e c =
     (if isConnecting c \<or> isClosed c \<or> isReconnecting c then (Ret (), c)
      else if co_AutoReconn (cl_opts c) \<and> cl_status c = CONNECTED then
        let c = stopPingTimer (c\<lparr>cl_status := RECONNECTING\<rparr>);
            c = (if cl_conn c \<noteq> None then (close_conn c)\<lparr>cl_conn := None\<rparr> else c) in
        (Ret (), start_reconnecting c)
      else client_close CLOSED (c\<lparr>cl_status := DISCONNECTED, cl_err := Some e\<rparr>))"

text \<open>One read of the read loop; the loop ends with an error. \<open>None\<close>: the frames it was given never end.\<close>

definition read_failed :: "go_error \<Rightarrow> unit client_op" where
  "read_failed e c = (case processOpErr e c of (Panic, c) \<Rightarrow> (Panic, c) | (_, c) \<Rightarrow> (Ret (), c\<lparr>cl_reader := None\<rparr>))"

definition read_data :: "client_env \<Rightarrow> bytes \<Rightarrow> client \<Rightarrow> (unit outcome \<times> client) option" where
  "read_data ev buf c =
     (let (packetData, remainingData) = parse (cl_tmpBuff c @ buf); c = c\<lparr>cl_tmpBuff := remainingData\<rparr> in
      if length packetData > 0
      then map_option (\<lambda>(r, c). case r of Fail e \<Rightarrow> read_failed e c | r \<Rightarrow> (r, c)) (handlePacketDatas ev packetData c)
      else Some (Ret (), c))"

definition readLoop_read :: "client_env \<Rightarrow> bytes \<times> go_error option \<Rightarrow> client \<Rightarrow> (unit outcome \<times> client) option" where
  "readLoop_read ev answer c =
     (if cl_reader c = None then Some (Ret (), c)
      else
        let (buf, err, _, rd) = lr_Read answer (cl_reader_buf c); c = c\<lparr>cl_reader_buf := rd\<rparr> in
        case err of
          Some e \<Rightarrow> Some (read_failed e c)
        | None \<Rightarrow> if length buf = 0 then Some (Ret (), c) else read_data ev buf c)"

section \<open>Pings\<close>

text \<open>The timer fires once each time it is set.\<close>

definition processPingTimer :: "unit client_op" where
  "processPingTimer c =
     (if cl_pingTimer c \<noteq> Some True then (Ret (), c)
      else
        let c = c\<lparr>cl_pingTimer := Some False\<rparr> in
        if cl_status c \<noteq> CONNECTED then (Ret (), c)
        else
          let c = c\<lparr>cl_pingOut := cl_pingOut c + 1\<rparr> in
          if cl_pingOut c > co_MaxPingCount (cl_opts c) then processOpErr ErrStaleConnection c
          else case sendPing None c of
              (Panic, c) \<Rightarrow> (Panic, c)
            | (_, c) \<Rightarrow> (Ret (), c\<lparr>cl_pingTimer := Some True\<rparr>))"

text \<open>\<open>FlushTimeout\<close> up to where it waits, with a channel of its own, and what follows: the value of a pong, or the timeout.\<close>

definition FlushTimeout_begin :: "int \<Rightarrow> nat \<Rightarrow> unit client_op" where
  "FlushTimeout_begin timeout ch c =
     (if timeout \<le> 0 then (Fail ErrBadTimeout, c)
      else if isClosed c then (Fail ErrConnectionClosed, c)
      else sendPing (Some ch) c)"

fun remove_entry :: "nat \<Rightarrow> nat option list \<Rightarrow> nat option list" where
  "remove_entry ch [] = []"
| "remove_entry ch (p # ps) = (if p = Some ch then None # ps else p # remove_entry ch ps)"

definition FlushTimeout_end :: "nat \<Rightarrow> unit client_op" where
  "FlushTimeout_end ch c =
     (if ch \<in> set (cl_signals c) then (Ret (), c\<lparr>cl_signals := removeAll ch (cl_signals c)\<rparr>)
      else (Fail ErrTimeout, c\<lparr>cl_pongs := remove_entry ch (cl_pongs c)\<rparr>))"

definition Flush_begin :: "nat \<Rightarrow> unit client_op" where
  "Flush_begin = FlushTimeout_begin (10 * second)"

section \<open>Reconnecting\<close>

text \<open>One round of \<open>doReconnect\<close>, after the wait: again, or the goroutine ends. A round that breaks off closes the client.\<close>

definition give_up :: "unit client_op" where
  "give_up c = client_close CLOSED (if cl_err c = None then c\<lparr>cl_err := Some ErrNoServers\<rparr> else c)"

definition doReconnect_round :: "client_env \<Rightarrow> dial \<Rightarrow> nat \<Rightarrow> bool client_op" where
  "doReconnect_round ev d ch c =
     (if isClosed c then (case give_up c of (Panic, c) \<Rightarrow> (Panic, c) | (_, c) \<Rightarrow> (Ret False, c))
      else case createConn d c of
        (Panic, c) \<Rightarrow> (Panic, c)
      | (Fail _, c) \<Rightarrow> (Ret True, c\<lparr>cl_err := None\<rparr>)
      | (Ret answer, c) \<Rightarrow>
          (let c = c\<lparr>cl_stats := (cl_stats c)\<lparr>st_Reconnects := st_Reconnects (cl_stats c) + 1\<rparr>\<rparr> in
           case processConnectInit ev d answer c of
             (Panic, c) \<Rightarrow> (Panic, c)
           | (Fail e, c) \<Rightarrow>
               (let c = c\<lparr>cl_err := Some e\<rparr> in
                if cl_abortReconnect c then (case give_up c of (Panic, c) \<Rightarrow> (Panic, c) | (_, c) \<Rightarrow> (Ret False, c))
                else (Ret True, c\<lparr>cl_status := RECONNECTING\<rparr>))
           | (Ret _, c) \<Rightarrow>
               (case on_writer flushPendingBuffer (c\<lparr>cl_err := None\<rparr>) of
                  (Panic, c) \<Rightarrow> (Panic, c)
                | (Fail e, c) \<Rightarrow> (Ret True, stopPingTimer (c\<lparr>cl_err := Some e, cl_status := RECONNECTING\<rparr>))
                | (Ret _, c) \<Rightarrow>
                    (case Flush_begin ch (c\<lparr>cl_writer := doneWithPending (cl_writer c), cl_status := CONNECTED\<rparr>) of
                       (Panic, c) \<Rightarrow> (Panic, c)
                     | (_, c) \<Rightarrow> (Ret False, c)))))"

end
