(* ===== verification/ClientProofs.thy ===== *)
theory ClientProofs
  imports ClientLib Dispatch
begin

text \<open>
  What the client library does for its user, together with the server: the keys of a session are the same on both
  sides, what the client sends the server can read, and the other way round. And what it does not: after the first
  connect the client never gets into the state in which its flusher and its ping timer work.
\<close>

section \<open>The writer\<close>

text \<open>On a connection that works, what was written and what is buffered is what was appended, in order.\<close>

definition healthy :: "limWriter \<Rightarrow> bool" where
  "healthy w \<longleftrightarrow> (\<exists>n. lw_w w = Some n \<and> \<not> nw_broken n \<and> nw_fails n = (\<lambda>_. None))"

definition on_wire :: "limWriter \<Rightarrow> bytes" where
  "on_wire w = (case lw_w w of None \<Rightarrow> [] | Some n \<Rightarrow> nw_sent n)"

definition outgoing :: "limWriter \<Rightarrow> bytes" where
  "outgoing w = on_wire w @ lw_bufs w @ (case lw_pending w of None \<Rightarrow> [] | Some p \<Rightarrow> p)"

lemma w_Write_healthy:
  assumes "healthy w"
  shows "\<exists>w'. w_Write p w = (Ret (), w') \<and> healthy w' \<and> on_wire w' = on_wire w @ p \<and> lw_bufs w' = lw_bufs w \<and>
    lw_pending w' = lw_pending w \<and> lw_limit w' = lw_limit w"
  using assms by (auto simp: healthy_def w_Write_def nw_Write_def on_wire_def)

lemma lw_collect_eq:
  "lw_collect bufs w = (case lw_pending w of Some p \<Rightarrow> w\<lparr>lw_pending := Some (p @ concat bufs)\<rparr> | None \<Rightarrow> w\<lparr>lw_bufs := lw_bufs w @ concat bufs\<rparr>)"
  by (induction bufs arbitrary: w) (simp_all split: option.splits)

lemma collect_outgoing:
  assumes "lw_bufs w = [] \<or> lw_pending w = None"
  shows "outgoing (lw_collect bufs w) = outgoing w @ concat bufs" and "lw_w (lw_collect bufs w) = lw_w w"
    and "lw_bufs (lw_collect bufs w) = [] \<or> lw_pending (lw_collect bufs w) = None"
  using assms by (auto simp: lw_collect_eq outgoing_def on_wire_def split: option.splits)

lemma flush_healthy:
  assumes "healthy w" and "lw_pending w = None"
  shows "\<exists>w'. lw_flush w = (Ret (), w') \<and> healthy w' \<and> outgoing w' = outgoing w \<and> lw_bufs w' = [] \<and> lw_pending w' = None"
proof -
  from w_Write_healthy [OF assms(1), of "lw_bufs w"] obtain w' where "w_Write (lw_bufs w) w = (Ret (), w')" "healthy w'"
    "on_wire w' = on_wire w @ lw_bufs w" "lw_pending w' = lw_pending w" by blast
  with assms(2) show ?thesis by (simp add: lw_flush_def outgoing_def healthy_def on_wire_def)
qed

lemma append_in_order:
  assumes "healthy w" and "lw_bufs w = [] \<or> lw_pending w = None"
  shows "\<exists>w'. appendBufs bufs w = (Ret (), w') \<and> healthy w' \<and> outgoing w' = outgoing w @ concat bufs \<and>
    (lw_bufs w' = [] \<or> lw_pending w' = None)"
proof -
  note c = collect_outgoing [OF assms(2), of bufs]
  have h: "healthy (lw_collect bufs w)" using assms(1) c(2) by (simp add: healthy_def)
  show ?thesis
  proof (cases "lw_pending (lw_collect bufs w) = None \<and> int (length (lw_bufs (lw_collect bufs w))) \<ge> lw_limit (lw_collect bufs w)")
    case True
    with flush_healthy [OF h] c(1) show ?thesis by (auto simp: appendBufs_def Let_def)
  next
    case False
    then have "appendBufs bufs w = (Ret (), lw_collect bufs w)" unfolding appendBufs_def Let_def by (rule if_not_P)
    with h c(1,3) show ?thesis by blast
  qed
qed

section \<open>The state after the first connect\<close>

text \<open>What a client can do after \<open>Connect\<close>, whatever the outcomes.\<close>

inductive client_step :: "client_env \<Rightarrow> client \<Rightarrow> client \<Rightarrow> bool" for ev where
  send: "SendMessage ev uuid channelID channelType payload opts c = (r, c') \<Longrightarrow> client_step ev c c'"
| kick: "flusher_kick c = (r, c') \<Longrightarrow> client_step ev c c'"
| read: "readLoop_read ev answer c = Some (r, c') \<Longrightarrow> client_step ev c c'"
| ping: "processPingTimer c = (r, c') \<Longrightarrow> client_step ev c c'"
| flush_begin: "FlushTimeout_begin timeout ch c = (r, c') \<Longrightarrow> client_step ev c c'"
| flush_end: "FlushTimeout_end ch c = (r, c') \<Longrightarrow> client_step ev c c'"
| closing: "Close c = (r, c') \<Longrightarrow> client_step ev c c'"
| reconnect: "cl_reconnectors c > 0 \<Longrightarrow> doReconnect_round ev d ch c = (r, c') \<Longrightarrow> client_step ev c c'"

inductive client_run :: "client_env \<Rightarrow> client \<Rightarrow> client \<Rightarrow> bool" for ev c0 where
  started: "client_run ev c0 c0"
| step: "client_run ev c0 c \<Longrightarrow> client_step ev c c' \<Longrightarrow> client_run ev c0 c'"

definition never_up :: "client \<Rightarrow> bool" where
  "never_up c \<longleftrightarrow> cl_status c \<in> {CONNECTING, CLOSED} \<and> cl_reconnectors c = 0"

text \<open>What the operations leave alone.\<close>

definition same_state :: "client \<Rightarrow> client \<Rightarrow> bool" where
  "same_state c c' \<longleftrightarrow> cl_status c' = cl_status c \<and> cl_reconnectors c' = cl_reconnectors c"

lemma same_state_refl [simp]: "same_state c c"
  by (simp add: same_state_def)

lemma same_state_trans: "same_state a b \<Longrightarrow> same_state b c \<Longrightarrow> same_state a c"
  by (simp add: same_state_def)

lemma never_up_same: "never_up c \<Longrightarrow> same_state c c' \<Longrightarrow> never_up c'"
  by (simp add: never_up_def same_state_def)

lemma same_on_writer: "on_writer f c = (r, c') \<Longrightarrow> same_state c c'"
  by (auto simp: on_writer_def same_state_def split: prod.splits)

lemma same_sendPacket: "sendPacket f c = (r, c') \<Longrightarrow> same_state c c'"
  by (auto simp: sendPacket_def Let_def same_state_def count_out_def dest!: same_on_writer)

lemma same_appendPacket: "appendPacket f c = (r, c') \<Longrightarrow> same_state c c'"
  by (auto simp: appendPacket_def Let_def same_state_def count_out_def kickFlusher_def dest!: same_on_writer
      split: prod.splits outcome.splits if_splits)

lemma same_sendPing: "sendPing ch c = (r, c') \<Longrightarrow> same_state c c'"
  by (auto simp: sendPing_def Let_def same_state_def dest!: same_on_writer split: prod.splits outcome.splits)

lemma same_SendMessage: "SendMessage ev uuid cid t p opts c = (r, c') \<Longrightarrow> same_state c c'"
  by (auto simp: SendMessage_def Let_def same_state_def dest!: same_appendPacket split: outcome.splits if_splits)

lemma same_handlePacket: "handlePacket ev f c = (r, c') \<Longrightarrow> same_state c c'"
  by (auto simp: handlePacket_def handleRecvPacket_def handleSendackPacket_def handlePong_def count_in_def Let_def same_state_def
      dest!: same_sendPacket split: option.splits frame.splits outcome.splits prod.splits if_splits list.splits)

lemma same_handlePackets: "handlePackets ev fs c = (r, c') \<Longrightarrow> same_state c c'"
  by (induction ev fs c rule: handlePackets.induct)
    (auto dest: same_handlePacket intro: same_state_trans split: prod.splits outcome.splits)

lemma same_handlePacketDatas: "handlePacketDatas ev d c = Some (r, c') \<Longrightarrow> same_state c c'"
  by (auto simp: handlePacketDatas_def outcome_case_eq dest: same_handlePackets)


lemma never_up_close: "client_close CLOSED c = (r, c') \<Longrightarrow> r \<noteq> Panic \<Longrightarrow> never_up c \<Longrightarrow> never_up c'"
  by (auto simp: client_close_def Let_def never_up_def isClosed_def on_writer_def stopPingTimer_def kickFlusher_def close_conn_def
      split: if_splits prod.splits outcome.splits)

lemma never_up_opErr: "never_up c \<Longrightarrow> processOpErr e c = (Ret (), c)"
  by (auto simp: processOpErr_def never_up_def isConnecting_def isClosed_def)

lemma never_up_kick:
  assumes "never_up c"
  shows "flusher_kick c = (Ret (), if cl_flusher c = None \<or> cl_kicks c = 0 then c else c\<lparr>cl_kicks := 0, cl_flusher := None\<rparr>)"
  using assms by (auto simp: flusher_kick_def Let_def never_up_def isConnected_def isConnecting_def)

lemma never_up_ping:
  assumes "never_up c"
  shows "processPingTimer c = (Ret (), if cl_pingTimer c \<noteq> Some True then c else c\<lparr>cl_pingTimer := Some False\<rparr>)"
  using assms by (auto simp: processPingTimer_def Let_def never_up_def)

lemma never_up_fields [simp]:
  "never_up (c\<lparr>cl_reader := x\<rparr>) = never_up c" "never_up (c\<lparr>cl_reader_buf := rd\<rparr>) = never_up c" "never_up (c\<lparr>cl_tmpBuff := b\<rparr>) = never_up c"
  by (simp_all add: never_up_def)

lemma never_up_failed: "never_up c \<Longrightarrow> read_failed e c = (Ret (), c\<lparr>cl_reader := None\<rparr>)"
  by (simp add: read_failed_def never_up_opErr)

lemma never_up_data:
  assumes "never_up c" and "read_data ev buf c = Some (r, c')"
  shows "never_up c'"
proof -
  obtain pd rem where p: "parse (cl_tmpBuff c @ buf) = (pd, rem)" by fastforce
  show ?thesis
  proof (cases "length pd = 0")
    case True
    with assms p show ?thesis by (auto simp: read_data_def Let_def)
  next
    case False
    then obtain r2 c2 where h: "handlePacketDatas ev pd (c\<lparr>cl_tmpBuff := rem\<rparr>) = Some (r2, c2)"
      and r: "(r, c') = (case r2 of Fail e \<Rightarrow> read_failed e c2 | r \<Rightarrow> (r, c2))"
      using assms(2) p by (auto simp: read_data_def Let_def)
    have "never_up c2" using never_up_same [OF _ same_handlePacketDatas [OF h]] assms(1) by simp
    with r show ?thesis by (cases r2) (simp_all add: never_up_failed)
  qed
qed

lemma never_up_read:
  assumes "never_up c" and "readLoop_read ev answer c = Some (r, c')"
  shows "never_up c'"
proof (cases "cl_reader c = None")
  case True
  with assms show ?thesis by (simp add: readLoop_read_def)
next
  case False
  obtain buf err n rd where a: "lr_Read answer (cl_reader_buf c) = (buf, err, n, rd)" by (metis prod_cases4)
  have up: "never_up (c\<lparr>cl_reader_buf := rd\<rparr>)" using assms(1) by simp
  show ?thesis
    using assms(2) False a up never_up_data [OF up]
    by (auto simp: readLoop_read_def Let_def never_up_failed split: option.splits if_splits)
qed


lemma never_up_begin:
  assumes "never_up c" and "FlushTimeout_begin timeout ch c = (r, c')"
  shows "never_up c'"
  using assms never_up_same [OF assms(1) same_sendPing] by (auto simp: FlushTimeout_begin_def split: if_splits)

lemma never_up_end:
  assumes "never_up c" and "FlushTimeout_end ch c = (r, c')"
  shows "never_up c'"
  using assms by (auto simp: FlushTimeout_end_def never_up_def split: if_splits)

text \<open>A panic ends the process: the steps of interest are those that do not.\<close>

lemma never_up_step:
  assumes "client_step ev c c'" and "never_up c"
  shows "never_up c'"
  using assms
proof (induction rule: client_step.cases)
  case (send uuid cid t p opts c r c')
  then show ?case using never_up_same same_SendMessage by blast
next
  case (kick c r c')
  then show ?case using never_up_kick [of c] by (auto simp: never_up_def split: if_splits)
next
  case (read answer c r c')
  then show ?case using never_up_read by blast
next
  case (ping c r c')
  then show ?case using never_up_ping [of c] by (auto simp: never_up_def split: if_splits)
next
  case (flush_begin timeout ch c r c')
  then show ?case using never_up_begin by blast
next
  case (flush_end ch c r c')
  then show ?case using never_up_end by blast
next
  case (closing c r c')
  then show ?case
    by (auto simp: Close_def client_close_def Let_def never_up_def isClosed_def on_writer_def stopPingTimer_def kickFlusher_def
        close_conn_def split: if_splits prod.splits outcome.splits)
next
  case (reconnect c d ch r c')
  then show ?case by (simp add: never_up_def)
qed

lemma never_up_run: "client_run ev c0 c \<Longrightarrow> never_up c0 \<Longrightarrow> never_up c"
  by (induction rule: client_run.induct) (auto dest: never_up_step)

text \<open>A first connect that succeeds, and is not only the start of reconnecting.\<close>

lemma sendConnect_same:
  assumes "sendConnect ev d answer c = (r, c')"
  shows "same_state c c'"
proof -
  obtain r1 c1 where s: "sendPacket (FConnect (connect_packet d (cl_opts c))) (c\<lparr>cl_privKey := di_private d\<rparr>) = (r1, c1)" by fastforce
  from same_sendPacket [OF s] have c1: "same_state c c1" by (simp add: same_state_def)
  have "c' = c1 \<or> (\<exists>salt. c' = c1\<lparr>cl_salt := salt\<rparr>) \<or> (\<exists>salt key. c' = c1\<lparr>cl_salt := salt, cl_aesKey := key\<rparr>)"
    using assms s by (auto simp: sendConnect_def Let_def split: outcome.splits frame.splits prod.splits if_splits)
  with c1 show ?thesis by (auto simp: same_state_def)
qed

lemma sendConnect_pongs:
  assumes "sendConnect ev d answer c = (r, c')"
  shows "cl_pongs c' = cl_pongs c"
proof -
  obtain r1 c1 where s: "sendPacket (FConnect (connect_packet d (cl_opts c))) (c\<lparr>cl_privKey := di_private d\<rparr>) = (r1, c1)" by fastforce
  then have c1: "cl_pongs c1 = cl_pongs c"
    by (auto simp: sendPacket_def Let_def on_writer_def count_out_def simp del: EncodeFrame.simps split: prod.splits)
  have "c' = c1 \<or> (\<exists>salt. c' = c1\<lparr>cl_salt := salt\<rparr>) \<or> (\<exists>salt key. c' = c1\<lparr>cl_salt := salt, cl_aesKey := key\<rparr>)"
    using assms s by (auto simp: sendConnect_def Let_def split: outcome.splits frame.splits prod.splits if_splits)
  with c1 show ?thesis by auto
qed

lemma Connect_not_up:
  assumes "Connect ev d c = (Ret rest, c')" and "cl_reconnectors c' = 0"
  shows "never_up c'" and "cl_status c' = CONNECTING"
proof -
  obtain answer c1 where c1: "createConn d c = (Ret answer, c1)"
    using assms(1) by (auto simp: Connect_def split: outcome.splits prod.splits)
  obtain r2 c2 where c2: "processConnectInit ev d answer (setup_client c1) = (r2, c2)" by fastforce
  have r2: "\<exists>x. r2 = Ret x"
    using assms c1 c2
    by (auto simp: Connect_def start_reconnecting_def split: outcome.splits prod.splits if_splits)
  then have c': "c' = c2" using assms(1) c1 c2 by (auto simp: Connect_def)
  obtain x c3 where c3: "sendConnect ev d answer ((setup_client c1)\<lparr>cl_status := CONNECTING\<rparr>) = (Ret x, c3)"
    and c2': "cl_status c2 = cl_status c3"
    using c2 r2 by (auto simp: processConnectInit_def Let_def split: outcome.splits prod.splits if_splits)
  from sendConnect_same [OF c3] have "cl_status c3 = CONNECTING" by (simp add: same_state_def)
  with c2' c' show "cl_status c' = CONNECTING" by simp
  then show "never_up c'" using assms(2) by (simp add: never_up_def)
qed

lemma flusher_idle:
  assumes "Connect ev d c = (Ret rest, c0)" and "cl_reconnectors c0 = 0" and "client_run ev c0 c'"
  shows "cl_status c' \<noteq> CONNECTED" and "cl_writer (snd (flusher_kick c')) = cl_writer c'"
    and "cl_writer (snd (processPingTimer c')) = cl_writer c'" and "cl_reconnectors c' = 0"
proof -
  have up: "never_up c'" using never_up_run [OF assms(3) Connect_not_up(1) [OF assms(1,2)]] .
  then show "cl_status c' \<noteq> CONNECTED" "cl_reconnectors c' = 0" by (auto simp: never_up_def)
  show "cl_writer (snd (flusher_kick c')) = cl_writer c'" by (simp add: never_up_kick [OF up])
  show "cl_writer (snd (processPingTimer c')) = cl_writer c'" by (simp add: never_up_ping [OF up])
qed

section \<open>The keys of a session\<close>

text \<open>What the handshake leaves, when it succeeds.\<close>

lemma sendConnect_keys:
  assumes "sendConnect ev d (EncodeFrame (FConnack k) (co_ProtoVersion (cl_opts c)) @ rest) c = (Ret left, c')"
    and "wellformed (co_ProtoVersion (cl_opts c)) (FConnack k)"
  shows "left = rest" and "cak_ReasonCode k = ReasonSuccess" and "session_keys ev (di_private d) k = Ret (cl_aesKey c', cl_salt c')"
proof -
  let ?v = "co_ProtoVersion (cl_opts c)"
  obtain c1 where s: "sendPacket (FConnect (connect_packet d (cl_opts c))) (c\<lparr>cl_privKey := di_private d\<rparr>) = (Ret (), c1)"
    using assms(1) by (auto simp: sendConnect_def Let_def simp del: EncodeFrame.simps split: outcome.splits prod.splits)
  have c1: "cl_opts c1 = cl_opts c" "cl_privKey c1 = di_private d"
    using s by (auto simp: sendPacket_def Let_def on_writer_def count_out_def simp del: EncodeFrame.simps split: prod.splits)
  obtain fr where a: "arrived_conn (FConnack k) ?v = FConnack (Connack_view fr k ?v)"
    by (simp add: arrived_conn_def arrived_def)
  have same: "cak_ReasonCode (Connack_view fr k ?v) = cak_ReasonCode k" "cak_Salt (Connack_view fr k ?v) = cak_Salt k"
    "session_keys ev p (Connack_view fr k ?v) = session_keys ev p k" for p
    by (simp_all add: Connack_view_def session_keys_def Let_def cong: if_cong)
  have salt: "session_keys ev p k = Ret (x, y) \<Longrightarrow> y = cak_Salt k" for p x y
    by (auto simp: session_keys_def bindR_eq_Ret Let_def split: if_splits)
  have "left = rest \<and> cak_ReasonCode k = ReasonSuccess \<and> session_keys ev (di_private d) k = Ret (cl_aesKey c', cl_salt c')"
    using assms(1) s c1 DecodePacketWithConn_EncodeFrame [OF assms(2), of rest] a same salt
    by (auto simp: sendConnect_def Let_def simp del: EncodeFrame.simps split: outcome.splits if_splits)
  then show "left = rest" "cak_ReasonCode k = ReasonSuccess" "session_keys ev (di_private d) k = Ret (cl_aesKey c', cl_salt c')"
    by blast+
qed

text \<open>On a connection that works, a good answer is all it takes.\<close>

lemma sendPacket_works:
  assumes "healthy (cl_writer c)"
  shows "\<exists>w. sendPacket f c = (Ret (), (count_out (EncodeFrame f (co_ProtoVersion (cl_opts c))) c)\<lparr>cl_writer := w\<rparr>) \<and> healthy w"
proof -
  obtain w where w: "w_Write (EncodeFrame f (co_ProtoVersion (cl_opts c))) (cl_writer c) = (Ret (), w)" "healthy w"
    using w_Write_healthy [OF assms] by blast
  then show ?thesis
    by (intro exI [of _ w]) (simp add: sendPacket_def Let_def on_writer_def lw_writeDirect_def count_out_def del: EncodeFrame.simps)
qed

lemma sendConnect_works:
  assumes "healthy (cl_writer c)" and "wellformed (co_ProtoVersion (cl_opts c)) (FConnack k)" and "cak_ReasonCode k = ReasonSuccess"
    and "session_keys ev (di_private d) k = Ret keys"
  shows "\<exists>c'. sendConnect ev d (EncodeFrame (FConnack k) (co_ProtoVersion (cl_opts c)) @ rest) c = (Ret rest, c') \<and>
    healthy (cl_writer c') \<and> cl_opts c' = cl_opts c \<and> cl_reconnectors c' = cl_reconnectors c"
proof -
  let ?v = "co_ProtoVersion (cl_opts c)"
  have "healthy (cl_writer (c\<lparr>cl_privKey := di_private d\<rparr>))" using assms(1) by simp
  from sendPacket_works [OF this, of "FConnect (connect_packet d (cl_opts c))"] obtain w where w: "healthy w"
    "sendPacket (FConnect (connect_packet d (cl_opts c))) (c\<lparr>cl_privKey := di_private d\<rparr>) =
      (Ret (), (count_out (EncodeFrame (FConnect (connect_packet d (cl_opts c))) ?v) (c\<lparr>cl_privKey := di_private d\<rparr>))\<lparr>cl_writer := w\<rparr>)"
    by auto
  obtain fr where a: "arrived_conn (FConnack k) ?v = FConnack (Connack_view fr k ?v)"
    by (simp add: arrived_conn_def arrived_def)
  have same: "cak_ReasonCode (Connack_view fr k ?v) = ReasonSuccess" "session_keys ev p (Connack_view fr k ?v) = session_keys ev p k" for p
    using assms(3) by (simp_all add: Connack_view_def session_keys_def Let_def cong: if_cong)
  show ?thesis
    using w DecodePacketWithConn_EncodeFrame [OF assms(2), of rest] a same assms(4)
    by (cases keys) (simp add: sendConnect_def Let_def count_out_def del: EncodeFrame.simps)
qed

lemma Connect_works:
  assumes "cli_parseAddr (cl_addr c) \<noteq> Panic" and "di_fails d = (\<lambda>_. None)" and "di_answer d = Ret (EncodeFrame (FConnack k) (co_ProtoVersion (cl_opts c)))"
    and "wellformed (co_ProtoVersion (cl_opts c)) (FConnack k)" and "cak_ReasonCode k = ReasonSuccess"
    and "session_keys ev (di_private d) k = Ret keys"
  shows "\<exists>c'. Connect ev d c = (Ret [], c') \<and> cl_reconnectors c' = cl_reconnectors c \<and> healthy (cl_writer c')"
proof -
  let ?c = "(setup_client (bindToNewConn d (c\<lparr>cl_conn := Some (cl_conns c), cl_conns := Suc (cl_conns c)\<rparr>)))\<lparr>cl_status := CONNECTING\<rparr>"
  have "healthy (cl_writer ?c)" "cl_opts ?c = cl_opts c" "cl_reconnectors ?c = cl_reconnectors c"
    using assms(2) by (simp_all add: healthy_def setup_client_def bindToNewConn_def)
  with sendConnect_works [of ?c k ev d keys "[]"] assms(4-6) obtain c1 where
    "sendConnect ev d (EncodeFrame (FConnack k) (co_ProtoVersion (cl_opts c))) ?c = (Ret [], c1)" "healthy (cl_writer c1)"
    "cl_reconnectors c1 = cl_reconnectors c" by (auto simp del: EncodeFrame.simps)
  with assms(1,3) show ?thesis
    by (cases "cli_parseAddr (cl_addr c)")
      (auto simp: Connect_def createConn_def processConnectInit_def Let_def simp del: EncodeFrame.simps)
qed

text \<open>What the server answers to a login, and the keys that it keeps for the connection.\<close>

lemma admit_answers:
  assumes "admit lg cp levels keys a sv = Ret sv'"
  shows "last (nd_out (sv_node sv')) = (a, [FConnack (connack_of lg cp (snd keys))])" and "conn_keys (sv_conn sv' a) = Ret keys"
    and "cn_protoVersion (sv_conn sv' a) = int (unat (con_Version cp))"
proof -
  obtain sv1 where sv': "sv' = Online (con_UID cp) (con_DeviceFlag cp) (cn_id (sv_conn (sv_response a [FConnack (connack_of lg cp (snd keys))]
      (sv_AddConn a (set_conn_info lg cp (snd levels) (fst keys) (snd keys) a sv1))) a))
      (sv_counts (con_UID cp) (con_DeviceFlag cp) (sv_response a [FConnack (connack_of lg cp (snd keys))]
      (sv_AddConn a (set_conn_info lg cp (snd levels) (fst keys) (snd keys) a sv1))))
      (sv_response a [FConnack (connack_of lg cp (snd keys))] (sv_AddConn a (set_conn_info lg cp (snd levels) (fst keys) (snd keys) a sv1)))"
    using assms by (auto simp: admit_def bindR_eq_Ret Let_def)
  show "last (nd_out (sv_node sv')) = (a, [FConnack (connack_of lg cp (snd keys))])"
    unfolding sv' by (simp add: Online_def sv_response_def response_def)
  show "conn_keys (sv_conn sv' a) = Ret keys" "cn_protoVersion (sv_conn sv' a) = int (unat (con_Version cp))"
    unfolding sv' by (simp_all add: sv_AddConn_def set_conn_info_def map_conn_def conn_at_update conn_keys_def str_def)
qed

text \<open>The two sides compute the same secret when the Diffie-Hellman functions commute.\<close>

lemma b64_length: "length (b64_encode s) = 4 * ((length s + 2) div 3)"
  by (induction s rule: b64_encode.induct) (simp_all, presburger)

lemma same_keys:
  assumes "getClientAesKeyAndIV w lg (b64_encode (di_public d)) = Ret keys" and "wd_md5 w = ke_md5 ev"
    and "length (di_public d) = 32" and "length (lg_public lg) = 32"
    and "lg_dh lg (lg_private lg) (di_public d) = ke_dh ev (di_private d) (lg_public lg)"
  shows "session_keys ev (di_private d) (connack_of lg cp (snd keys)) = Ret keys"
  using assms by (auto simp: getClientAesKeyAndIV_def session_keys_def connack_of_def b64_roundtrip b64_length Let_def split: if_splits)

lemma session_agrees:
  assumes "processAuth w lg a cp sv = Ret sv'"
    and "cp = Connect_view fr (connect_packet d (cl_opts c)) (co_ProtoVersion (cl_opts c))"
    and "last (nd_out (sv_node sv')) = (a, [FConnack k])" and "wellformed (co_ProtoVersion (cl_opts c)) (FConnack k)"
    and "sendConnect ev d (EncodeFrame (FConnack k) (co_ProtoVersion (cl_opts c)) @ rest) c = (Ret left, c')"
    and "wd_md5 w = ke_md5 ev" and "length (di_public d) = 32" and "length (lg_public lg) = 32"
    and "lg_dh lg (lg_private lg) (di_public d) = ke_dh ev (di_private d) (lg_public lg)"
  shows "conn_keys (sv_conn sv' a) = Ret (cl_aesKey c', cl_salt c') \<and> cn_protoVersion (sv_conn sv' a) = int (unat (co_ProtoVersion (cl_opts c)))"
  using assms(1)
proof (cases rule: processAuth_cases)
  case (refused reason)
  then have "k = \<lparr>cak_Framer = empty_framer, cak_ServerVersion = 0, cak_ServerKey = [], cak_Salt = [], cak_TimeDiff = 0, cak_ReasonCode = reason\<rparr>"
    using assms(3) by (simp add: responseConnack_def sv_response_def response_def)
  then have "cak_ReasonCode k \<noteq> ReasonSuccess" using refused(2) by auto
  with sendConnect_keys(2) [OF assms(5,4)] show ?thesis by simp
next
  case (admitted levels info keys)
  note ad = admit_answers [OF admitted(5)]
  have k: "k = connack_of lg cp (snd keys)" using ad(1) assms(3) by simp
  have cp: "con_ClientKey cp = b64_encode (di_public d)" "con_Version cp = co_ProtoVersion (cl_opts c)"
    using assms(2) by (simp_all add: Connect_view_def connect_packet_def)
  have "session_keys ev (di_private d) k = Ret keys"
    unfolding k by (rule same_keys [OF admitted(4) [unfolded cp] assms(6-9)])
  with sendConnect_keys(3) [OF assms(5,4)] ad(2,3) cp(2) show ?thesis by simp
qed

section \<open>What the client sends\<close>

text \<open>The frame that \<open>SendMessage\<close> puts into the writer.\<close>

definition appended :: "client \<Rightarrow> frame \<Rightarrow> unit outcome \<Rightarrow> client \<Rightarrow> bool" where
  "appended c f r c' \<longleftrightarrow> (\<exists>w. appendBufs [EncodeFrame f (co_ProtoVersion (cl_opts c))] (cl_writer c) = (r, w) \<and> cl_writer c' = w)"

lemma appendPacket_appended:
  assumes "appendPacket f c = (r, c')"
  shows "appended c f r c'"
  using assms unfolding appended_def
  by (auto simp: appendPacket_def Let_def on_writer_def count_out_def kickFlusher_def simp del: EncodeFrame.simps
      split: prod.splits outcome.splits if_splits)

lemma small_seq: "unat (x :: u64) < 2 ^ 32 \<Longrightarrow> ucast (ucast x :: u32) = x"
  by (rule word_unat_eq_iff [THEN iffD2]) (simp add: unsigned_ucast_eq unsigned_take_bit_eq take_bit_nat_eq_self)

lemma session_world:
  assumes "keyed w conn" and "conn_keys conn = Ret (key, iv)"
  shows "cipher_ok (wd_cipher w)" and "key_size_ok key" and "length iv = 16"
  using assms by (auto simp: keyed_def)

lemma SendMessage_readable:
  assumes "keyed w conn" and "conn_keys conn = Ret (cl_aesKey c, cl_salt c)" and "ke_cipher ev = wd_cipher w" and "ke_md5 ev = wd_md5 w"
    and "\<not> so_NoEncrypt opts" and "unat (cl_clientIDGen c + 1) < 2 ^ 32"
    and "SendMessage ev uuid channelID channelType payload opts c = (r, c')"
  shows "\<exists>p. appended c (FSend p) r c' \<and> snd_ChannelID p = channelID \<and> snd_ChannelType p = channelType \<and>
    (\<forall>fr v. checkAndDecodePayload w (Send_view fr p v) conn = Ret payload)"
proof -
  note k = session_world [OF assms(1,2)]
  let ?enc = "\<lambda>x. AesEncryptPkcs7Base64 (wd_cipher w) x (cl_aesKey c) (cl_salt c)"
  obtain pe where pe: "?enc payload = Ret pe" "AesDecryptPkcs7Base64 (wd_cipher w) pe (cl_aesKey c) (cl_salt c) = Ret payload"
    using AesEncryptPkcs7Base64_ret [OF k] by blast
  define no where "no = (if so_ClientMsgNo opts = [] then uuid else so_ClientMsgNo opts)"
  define p0 where "p0 = send_packet opts no (cl_clientIDGen c + 1) channelID channelType pe"
  obtain mk where mk: "?enc (Send_VerityString p0) = Ret mk" using AesEncryptPkcs7Base64_ret [OF k] by blast
  define p where "p = p0\<lparr>snd_MsgKey := MD5 (wd_md5 w) mk\<rparr>"
  have "appendPacket (FSend p) (c\<lparr>cl_clientIDGen := cl_clientIDGen c + 1\<rparr>) = (r, c')"
    using assms(5,7) pe(1) mk
    by (simp add: SendMessage_def Let_def no_def [symmetric] p0_def [symmetric] p_def assms(3,4))
  then have a: "appended c (FSend p) r c'" using appendPacket_appended by (force simp: appended_def)
  have "checkAndDecodePayload w (Send_view fr p v) conn = Ret payload" for fr v
  proof -
    let ?q = "Send_view fr p v"
    have "Send_VerityString ?q = Send_VerityString p0" "snd_MsgKey ?q = MD5 (wd_md5 w) mk" "snd_Payload ?q = pe"
      using small_seq [OF assms(6)]
      by (simp_all add: Send_view_def Send_VerityString_def p_def p0_def send_packet_def)
    then show ?thesis using pe(2) mk by (simp add: checkAndDecodePayload_def sendPacketIsVail_def assms(2))
  qed
  with a show ?thesis by (intro exI [of _ p]) (simp add: p_def p0_def send_packet_def)
qed

text \<open>A message that is sent without encryption carries no key, and the server refuses it.\<close>

lemma no_encrypt_refused:
  assumes "keyed w conn" and "md5_ok w" and "so_NoEncrypt opts"
    and "SendMessage ev uuid channelID channelType payload opts c = (r, c')"
  shows "\<exists>p. appended c (FSend p) r c' \<and> snd_Payload p = payload \<and> IsSet (snd_Setting p) SettingNoEncrypt \<and>
    (\<forall>fr v. checkAndDecodePayload w (Send_view fr p v) conn = Fail (ErrMsg ''msgKey is illegal''))"
proof -
  obtain key iv where k: "conn_keys conn = Ret (key, iv)" by (rule keyedE [OF assms(1)])
  note kk = session_world [OF assms(1) k]
  define no where "no = (if so_ClientMsgNo opts = [] then uuid else so_ClientMsgNo opts)"
  define p where "p = send_packet opts no (cl_clientIDGen c + 1) channelID channelType payload"
  have "appendPacket (FSend p) (c\<lparr>cl_clientIDGen := cl_clientIDGen c + 1\<rparr>) = (r, c')"
    using assms(3,4) by (simp add: SendMessage_def Let_def no_def [symmetric] p_def)
  then have a: "appended c (FSend p) r c'" using appendPacket_appended by (force simp: appended_def)
  have "checkAndDecodePayload w (Send_view fr p v) conn = Fail (ErrMsg ''msgKey is illegal'')" for fr v
  proof -
    obtain mk where "AesEncryptPkcs7Base64 (wd_cipher w) (Send_VerityString (Send_view fr p v)) key iv = Ret mk"
      using AesEncryptPkcs7Base64_ret [OF kk] by blast
    moreover have "MD5 (wd_md5 w) mk \<noteq> []"
      using assms(2) length_hex [of "wd_md5 w mk"] by (auto simp: MD5_def md5_ok_def)
    moreover have "snd_MsgKey (Send_view fr p v) = []" by (simp add: Send_view_def p_def send_packet_def)
    ultimately show ?thesis by (simp add: checkAndDecodePayload_def sendPacketIsVail_def k)
  qed
  with a assms(3) show ?thesis by (intro exI [of _ p]) (simp add: p_def send_packet_def)
qed

section \<open>What the client receives\<close>

text \<open>A message that the server sealed for the connection reaches the callback with the payload that was sent, and is
  acknowledged under its number.\<close>

lemma client_reads:
  assumes "keyed w conn" and "conn_keys conn = Ret (cl_aesKey c, cl_salt c)" and "ke_cipher ev = wd_cipher w"
    and "ke_onRecv ev = Some onRecv" and "\<not> IsSet (rcv_Setting r) SettingNoEncrypt" and "healthy (cl_writer c)"
    and "p = (Recv_view fr (sealed w conn r) v)\<lparr>rcv_Payload := rcv_Payload r\<rparr>" and "onRecv p = None"
  shows "\<exists>c'. handleRecvPacket ev (Recv_view fr (sealed w conn r) v) c = (Ret (), c') \<and> cl_recvs c' = cl_recvs c @ [p] \<and>
    on_wire (cl_writer c') = on_wire (cl_writer c) @ EncodeFrame (FRecvack \<lparr>rak_Framer = fr, rak_MessageID = rcv_MessageID r,
      rak_MessageSeq = rcv_MessageSeq r\<rparr>) (co_ProtoVersion (cl_opts c))"
proof -
  let ?q = "Recv_view fr (sealed w conn r) v"
  have same: "rcv_Setting (sealed w conn r) = rcv_Setting r" "rcv_MessageID (sealed w conn r) = rcv_MessageID r"
    "rcv_MessageSeq (sealed w conn r) = rcv_MessageSeq r"
    by (simp_all add: sealed_def Let_def split: outcome.split)
  have q: "rcv_Setting ?q = rcv_Setting r" "rcv_Payload ?q = rcv_Payload (sealed w conn r)" "rcv_Framer ?q = fr"
    "rcv_MessageID ?q = rcv_MessageID r" "rcv_MessageSeq ?q = rcv_MessageSeq r"
    by (simp_all add: Recv_view_def same)
  have d: "AesDecryptPkcs7Base64 (ke_cipher ev) (rcv_Payload ?q) (cl_aesKey c) (cl_salt c) = Ret (rcv_Payload r)"
    using sealed_decrypts [OF assms(1,2)] assms(3) q(2) by simp
  define ack where "ack = EncodeFrame (FRecvack \<lparr>rak_Framer = fr, rak_MessageID = rcv_MessageID r,
      rak_MessageSeq = rcv_MessageSeq r\<rparr>) (co_ProtoVersion (cl_opts c))"
  obtain w' where w': "w_Write ack (cl_writer c) = (Ret (), w')" "on_wire w' = on_wire (cl_writer c) @ ack"
    using w_Write_healthy [OF assms(6), of ack] by blast
  have "recvack_of ?q = \<lparr>rak_Framer = fr, rak_MessageID = rcv_MessageID r, rak_MessageSeq = rcv_MessageSeq r\<rparr>"
    using q by (simp add: recvack_of_def)
  then have s: "sendPacket (FRecvack (recvack_of ?q)) (c\<lparr>cl_recvs := cl_recvs c @ [p]\<rparr>) =
      (Ret (), (count_out ack (c\<lparr>cl_recvs := cl_recvs c @ [p]\<rparr>))\<lparr>cl_writer := w'\<rparr>)"
    using w'(1) by (simp add: sendPacket_def Let_def on_writer_def lw_writeDirect_def ack_def count_out_def)
  show ?thesis
    unfolding ack_def [symmetric]
    using d s q(1) assms(4,5,7,8) w'(2)
    by (simp add: handleRecvPacket_def Let_def count_out_def)
qed

section \<open>A session\<close>

text \<open>The handshake as both sides see it: the server processed the CONNECT packet of the client, and the client read the
  CONNACK that the server answered. The Diffie-Hellman functions commute on the two key pairs.\<close>

definition handshake :: "'d world \<Rightarrow> login \<Rightarrow> client_env \<Rightarrow> dial \<Rightarrow> nat \<Rightarrow> 'd server \<Rightarrow> 'd server \<Rightarrow> client \<Rightarrow> client \<Rightarrow> bool" where
  "handshake w lg ev d a sv sv' c c' \<longleftrightarrow>
     wd_md5 w = ke_md5 ev \<and> wd_cipher w = ke_cipher ev \<and> length (di_public d) = 32 \<and> length (lg_public lg) = 32 \<and>
     lg_dh lg (lg_private lg) (di_public d) = ke_dh ev (di_private d) (lg_public lg) \<and>
     (\<exists>fr k rest left. processAuth w lg a (Connect_view fr (connect_packet d (cl_opts c)) (co_ProtoVersion (cl_opts c))) sv = Ret sv' \<and>
        last (nd_out (sv_node sv')) = (a, [FConnack k]) \<and> wellformed (co_ProtoVersion (cl_opts c)) (FConnack k) \<and>
        sendConnect ev d (EncodeFrame (FConnack k) (co_ProtoVersion (cl_opts c)) @ rest) c = (Ret left, c'))"

lemma handshake_keyed:
  assumes "handshake w lg ev d a sv sv' c c'" and "md5_ok w" and "cipher_ok (wd_cipher w)" and "length (lg_iv lg) = 16"
  shows "conn_keys (sv_conn sv' a) = Ret (cl_aesKey c', cl_salt c')" and "keyed w (sv_conn sv' a)"
proof -
  let ?v = "co_ProtoVersion (cl_opts c)"
  obtain fr k rest left where h: "processAuth w lg a (Connect_view fr (connect_packet d (cl_opts c)) ?v) sv = Ret sv'"
    "last (nd_out (sv_node sv')) = (a, [FConnack k])" "wellformed ?v (FConnack k)"
    "sendConnect ev d (EncodeFrame (FConnack k) ?v @ rest) c = (Ret left, c')"
    using assms(1) unfolding handshake_def by blast
  show keys: "conn_keys (sv_conn sv' a) = Ret (cl_aesKey c', cl_salt c')"
    using session_agrees [OF h(1) refl h(2-4)] assms(1) unfolding handshake_def by blast
  show "keyed w (sv_conn sv' a)"
    using h(1)
  proof (cases rule: processAuth_cases)
    case (refused reason)
    then have "cak_ReasonCode k \<noteq> ReasonSuccess" using h(2) by (auto simp: responseConnack_def sv_response_def response_def)
    with sendConnect_keys(2) [OF h(4,3)] show ?thesis by simp
  next
    case (admitted levels info keys)
    obtain key iv where k: "keys = (key, iv)" by fastforce
    from admit_answers(2) [OF admitted(5)] getClientAesKeyAndIV_keys [OF assms(2) admitted(4) [unfolded k]] assms(3,4)
    show ?thesis by (simp add: keyed_def k)
  qed
qed

lemma session_works:
  assumes h: "handshake w lg ev d a sv sv' c c'" and "md5_ok w" and "cipher_ok (wd_cipher w)" and "length (lg_iv lg) = 16"
    and c2: "cl_aesKey c2 = cl_aesKey c'" "cl_salt c2 = cl_salt c'"
  shows "\<not> so_NoEncrypt opts \<Longrightarrow> unat (cl_clientIDGen c2 + 1) < 2 ^ 32 \<Longrightarrow>
      SendMessage ev uuid channelID channelType payload opts c2 = (r, c3) \<Longrightarrow>
      \<exists>p. appended c2 (FSend p) r c3 \<and> snd_ChannelID p = channelID \<and> snd_ChannelType p = channelType \<and>
        (\<forall>fr v. checkAndDecodePayload w (Send_view fr p v) (sv_conn sv' a) = Ret payload)"
    and "ke_onRecv ev = Some onRecv \<Longrightarrow> healthy (cl_writer c2) \<Longrightarrow> \<not> IsSet (rcv_Setting m) SettingNoEncrypt \<Longrightarrow>
      p = (Recv_view fr (sealed w (sv_conn sv' a) m) v)\<lparr>rcv_Payload := rcv_Payload m\<rparr> \<Longrightarrow> onRecv p = None \<Longrightarrow>
      \<exists>c3. handleRecvPacket ev (Recv_view fr (sealed w (sv_conn sv' a) m) v) c2 = (Ret (), c3) \<and> cl_recvs c3 = cl_recvs c2 @ [p]"
proof -
  note k = handshake_keyed [OF assms(1-4)]
  have keys: "conn_keys (sv_conn sv' a) = Ret (cl_aesKey c2, cl_salt c2)" using k(1) c2 by simp
  have same: "ke_cipher ev = wd_cipher w" "ke_md5 ev = wd_md5 w" using h by (simp_all add: handshake_def)
  show "\<not> so_NoEncrypt opts \<Longrightarrow> unat (cl_clientIDGen c2 + 1) < 2 ^ 32 \<Longrightarrow>
      SendMessage ev uuid channelID channelType payload opts c2 = (r, c3) \<Longrightarrow>
      \<exists>p. appended c2 (FSend p) r c3 \<and> snd_ChannelID p = channelID \<and> snd_ChannelType p = channelType \<and>
        (\<forall>fr v. checkAndDecodePayload w (Send_view fr p v) (sv_conn sv' a) = Ret payload)"
    by (rule SendMessage_readable [OF k(2) keys same])
  show "ke_onRecv ev = Some onRecv \<Longrightarrow> healthy (cl_writer c2) \<Longrightarrow> \<not> IsSet (rcv_Setting m) SettingNoEncrypt \<Longrightarrow>
      p = (Recv_view fr (sealed w (sv_conn sv' a) m) v)\<lparr>rcv_Payload := rcv_Payload m\<rparr> \<Longrightarrow> onRecv p = None \<Longrightarrow>
      \<exists>c3. handleRecvPacket ev (Recv_view fr (sealed w (sv_conn sv' a) m) v) c2 = (Ret (), c3) \<and> cl_recvs c3 = cl_recvs c2 @ [p]"
    using client_reads [OF k(2) keys same(1), of onRecv m p fr v] by blast
qed

section \<open>After a lost connection\<close>

text \<open>What was in the buffer and not yet written is not in the pending buffer: the new connection starts without it.\<close>

lemma reconnect_drops:
  assumes "createConn d (start_reconnecting c) = (Ret answer, c')"
  shows "outgoing (cl_writer c') = []"
  using assms by (auto simp: createConn_def bindToNewConn_def start_reconnecting_def switchToPending_def outgoing_def on_wire_def
      split: outcome.splits)

text \<open>Pings that were not answered are still in the list of the new connection; the answer to the first ping of the new
  connection is counted for one of them.\<close>

lemma stale_pong:
  assumes "cl_pongs c = None # ps" and "Flush_begin ch c = (Ret (), c')" and "ch \<notin> set (cl_signals c)"
  shows "fst (FlushTimeout_end ch (handlePong c')) = Fail ErrTimeout"
proof -
  have "cl_pongs c' = None # ps @ [Some ch] \<and> cl_signals c' = cl_signals c"
    using assms(1,2)
    by (auto simp: Flush_begin_def FlushTimeout_begin_def sendPing_def Let_def on_writer_def second_def
        split: if_splits prod.splits outcome.splits)
  with assms(3) show ?thesis by (simp add: handlePong_def FlushTimeout_end_def)
qed

lemma processConnectInit_pongs:
  assumes "processConnectInit ev d answer c = (r, c')"
  shows "cl_pongs c' = cl_pongs c"
proof -
  obtain r1 c1 where s: "sendConnect ev d answer (c\<lparr>cl_status := CONNECTING\<rparr>) = (r1, c1)" by fastforce
  have "cl_pongs c' = cl_pongs c1"
    using assms s by (auto simp: processConnectInit_def Let_def split: outcome.splits)
  with sendConnect_pongs [OF s] show ?thesis by simp
qed

lemma sendPing_pongs: "sendPing ch c = (r, c') \<Longrightarrow> cl_pongs c' = cl_pongs c @ [ch]"
  by (auto simp: sendPing_def Let_def on_writer_def split: prod.splits outcome.splits)

lemma reconnect_keeps_pongs:
  assumes "doReconnect_round ev d ch c = (Ret False, c')" and "cl_status c' = CONNECTED"
  shows "cl_pongs c' = cl_pongs c @ [Some ch]"
proof -
  have open_: "\<not> isClosed c"
    using assms by (auto simp: doReconnect_round_def give_up_def client_close_def isClosed_def split: outcome.splits prod.splits if_splits)
  obtain answer c1 where c1: "createConn d c = (Ret answer, c1)"
    using assms(1) open_ by (auto simp: doReconnect_round_def split: outcome.splits prod.splits)
  let ?c1 = "c1\<lparr>cl_stats := (cl_stats c1)\<lparr>st_Reconnects := st_Reconnects (cl_stats c1) + 1\<rparr>\<rparr>"
  obtain r2 c2 where c2: "processConnectInit ev d answer ?c1 = (r2, c2)" by fastforce
  have give_up: "cl_status c3 \<noteq> CONNECTED" if "give_up c2' = (r3, c3)" "r3 \<noteq> Panic" for c2' r3 c3
    using that by (auto simp: give_up_def client_close_def Let_def isClosed_def on_writer_def stopPingTimer_def kickFlusher_def
        close_conn_def split: if_splits prod.splits outcome.splits)
  obtain x where r2: "r2 = Ret x"
    using assms c1 c2 open_ give_up
    by (cases r2) (auto simp: doReconnect_round_def Let_def split: outcome.splits prod.splits if_splits)
  obtain r3 c3 where c3: "on_writer flushPendingBuffer (c2\<lparr>cl_err := None\<rparr>) = (r3, c3)" by fastforce
  have p3: "cl_pongs c3 = cl_pongs c2" using c3 by (auto simp: on_writer_def split: prod.splits)
  have r3: "r3 = Ret ()"
    using assms(1) c1 c2 c3 open_ r2 by (cases r3) (auto simp: doReconnect_round_def Let_def)
  obtain r4 where c4: "Flush_begin ch (c3\<lparr>cl_writer := doneWithPending (cl_writer c3), cl_status := CONNECTED\<rparr>) = (r4, c')"
    using assms(1) c1 c2 c3 open_ r2 r3 by (auto simp: doReconnect_round_def Let_def split: outcome.splits prod.splits)
  then have "cl_pongs c' = cl_pongs c3 @ [Some ch]"
    by (auto simp: Flush_begin_def FlushTimeout_begin_def second_def isClosed_def dest: sendPing_pongs)
  moreover have "cl_pongs c1 = cl_pongs c"
    using c1 by (auto simp: createConn_def bindToNewConn_def split: outcome.splits)
  ultimately show ?thesis using processConnectInit_pongs [OF c2] p3 by simp
qed

end
