(* ===== verification/WebSocket.thy ===== *)
theory WebSocket
  imports NetConn
begin

text \<open>
  Connections over websockets, \<^verbatim>\<open>pkg/oknet/websocket.go\<close>: what arrives is collected in a buffer of its own, the
  handshake is answered, and the payloads of complete frames go on to the inbound buffer that the dispatcher reads.
  The websocket library (\<open>gobwas/ws\<close>) is a record of functions.
\<close>

section \<open>The library\<close>

record ws_header =
  wsh_Fin :: bool
  wsh_Length :: nat

record ws_message =
  wsm_OpCode :: u8
  wsm_Payload :: bytes

definition ErrUnexpectedEOF :: go_error where "ErrUnexpectedEOF = ErrMsg ''unexpected EOF''"

text \<open>
  A function that reads is given what is left in its reader and gives back what it leaves there.
  \<open>wl_ReadClientMessage\<close> gives the messages it appends, also when it ends with an error; \<open>wl_Upgrade\<close> gives what it
  writes; \<open>wl_HandleControl\<close> gives the reply to a control message and how it ends; \<open>wl_Binary\<close> is the frame around
  the data.
\<close>

record ws_lib =
  wl_ReadHeader :: "bytes \<Rightarrow> (ws_header \<times> bytes) outcome"
  wl_ReadClientMessage :: "bytes \<Rightarrow> ws_message list \<times> go_error option \<times> bytes"
  wl_IsControl :: "u8 \<Rightarrow> bool"
  wl_Upgrade :: "bytes \<Rightarrow> bytes \<times> go_error option \<times> bytes"
  wl_HandleControl :: "ws_message \<Rightarrow> bytes \<times> go_error option"
  wl_Binary :: "bytes \<Rightarrow> bytes"

abbreviation (input) MinHeaderSize :: nat where "MinHeaderSize \<equiv> 2"

text \<open>The memory of a connection: the ring that the pool of rings hands out, the pool of byte slices, and the limit for
  what waits to be written.\<close>

record conn_mem =
  mem_fresh :: ring
  mem_pool :: "nat \<Rightarrow> bytes"
  mem_maxWrite :: nat

definition mem_ok :: "conn_mem \<Rightarrow> bool" where
  "mem_ok m \<longleftrightarrow> pool_ok (mem_pool m) \<and> fresh_ok (mem_fresh m)"

section \<open>The connection\<close>

record 'ctx ws_conn =
  ws_d :: "'ctx net_conn"
  ws_upgraded :: bool
  ws_tmp :: elastic

definition NewWSConn :: "'ctx net_conn \<Rightarrow> 'ctx ws_conn" where
  "NewWSConn d = \<lparr>ws_d = d, ws_upgraded = False, ws_tmp = None\<rparr>"

definition PeekFromTemp :: "int \<Rightarrow> 'ctx ws_conn \<Rightarrow> bytes outcome" where
  "PeekFromTemp n w =
     (let totalLen = int (el_Buffered (ws_tmp w)) in
      if n > totalLen then Fail ErrShortBuffer
      else let n = (if n \<le> 0 then totalLen else n) in
        if el_IsEmpty (ws_tmp w) then Ret []
        else bindR (el_Peek n (ws_tmp w)) (\<lambda>(head, tail). Ret (head @ tail)))"

definition DiscardFromTemp :: "nat \<Rightarrow> 'ctx ws_conn \<Rightarrow> 'ctx ws_conn" where
  "DiscardFromTemp n w = w\<lparr>ws_tmp := snd (el_Discard (int n) (ws_tmp w))\<rparr>"

definition ws_upgrade :: "ws_lib \<Rightarrow> conn_mem \<Rightarrow> 'ctx ws_conn \<Rightarrow> unit outcome \<times> 'ctx ws_conn" where
  "ws_upgrade lib m w =
     (case PeekFromTemp (- 1) w of
        Ret buff \<Rightarrow>
          (case wl_Upgrade lib buff of
             (written, Some e, left) \<Rightarrow>
               (if e = ErrEOF \<or> e = ErrUnexpectedEOF then (Ret (), w) else (Fail e, DiscardFromTemp (length buff) w))
           | (written, None, left) \<Rightarrow>
               (case conn_Write (mem_maxWrite m) (mem_fresh m) (mem_pool m) written (ws_d w) of
                  (Ret _, d) \<Rightarrow> (Ret (), (DiscardFromTemp (length buff - length left) (w\<lparr>ws_d := d\<rparr>))\<lparr>ws_upgraded := True\<rparr>)
                | (Fail e, d) \<Rightarrow> (Fail e, w\<lparr>ws_d := d\<rparr>)
                | (Panic, d) \<Rightarrow> (Panic, w\<lparr>ws_d := d\<rparr>)))
      | Fail e \<Rightarrow> (Fail e, w)
      | Panic \<Rightarrow> (Panic, w))"

text \<open>Reading messages until the reader is empty or an error ends it. A library that consumes nothing and reports nothing
  would keep it going for ever.\<close>

partial_function (option) ws_messages :: "ws_lib \<Rightarrow> ws_message list \<Rightarrow> bytes \<Rightarrow> (ws_message list \<times> bytes) option" where
  "ws_messages lib messages buff =
     (if length buff = 0 then Some (messages, buff)
      else case wl_ReadClientMessage lib buff of
          (ms, Some e, left) \<Rightarrow> Some (messages @ ms, left)
        | (ms, None, left) \<Rightarrow> ws_messages lib (messages @ ms) left)"

definition ws_decode :: "ws_lib \<Rightarrow> 'ctx ws_conn \<Rightarrow> (ws_message list outcome \<times> 'ctx ws_conn) option" where
  "ws_decode lib w =
     (case PeekFromTemp (- 1) w of
        Ret buff \<Rightarrow>
          (if length buff < MinHeaderSize then Some (Ret [], w)
           else case wl_ReadHeader lib buff of
               Fail e \<Rightarrow> Some (if e = ErrEOF \<or> e = ErrUnexpectedEOF then (Ret [], w) else (Fail e, DiscardFromTemp (length buff) w))
             | Panic \<Rightarrow> Some (Panic, w)
             | Ret (header, left) \<Rightarrow>
                 if wsh_Length header > length left then Some (Ret [], w)
                 else if wsh_Fin header then
                   map_option (\<lambda>(messages, left). (Ret messages, DiscardFromTemp (length buff - length left) w)) (ws_messages lib [] buff)
                 else Some (Ret [], w))
      | Fail e \<Rightarrow> Some (Fail e, w)
      | Panic \<Rightarrow> Some (Panic, w))"

text \<open>A control message is answered on the connection; its error ends the loop. Reading a close message is such an error.\<close>

fun ws_deliver :: "ws_lib \<Rightarrow> conn_mem \<Rightarrow> ws_message list \<Rightarrow> 'ctx ws_conn \<Rightarrow> unit outcome \<times> 'ctx ws_conn" where
  "ws_deliver lib m [] w = (Ret (), w)"
| "ws_deliver lib m (msg # msgs) w =
     (if wl_IsControl lib (wsm_OpCode msg) then
        (let (reply, err) = wl_HandleControl lib msg in
         case conn_Write (mem_maxWrite m) (mem_fresh m) (mem_pool m) reply (ws_d w) of
           (Panic, d) \<Rightarrow> (Panic, w\<lparr>ws_d := d\<rparr>)
         | (Fail e, d) \<Rightarrow> (Fail e, w\<lparr>ws_d := d\<rparr>)
         | (Ret _, d) \<Rightarrow> (case err of Some e \<Rightarrow> (Fail e, w\<lparr>ws_d := d\<rparr>) | None \<Rightarrow> ws_deliver lib m msgs (w\<lparr>ws_d := d\<rparr>)))
      else case el_Write (mem_fresh m) (mem_pool m) (wsm_Payload msg) (cn_inbound (ws_d w)) of
          Ret (_, b) \<Rightarrow> ws_deliver lib m msgs (w\<lparr>ws_d := (ws_d w)\<lparr>cn_inbound := b\<rparr>\<rparr>)
        | Fail e \<Rightarrow> (Fail e, w)
        | Panic \<Rightarrow> (Panic, w))"

definition unpacketWSData :: "ws_lib \<Rightarrow> conn_mem \<Rightarrow> 'ctx ws_conn \<Rightarrow> (unit outcome \<times> 'ctx ws_conn) option" where
  "unpacketWSData lib m w =
     (if \<not> ws_upgraded w then Some (ws_upgrade lib m w)
      else map_option (\<lambda>(r, w). case r of
          Ret messages \<Rightarrow> ws_deliver lib m messages w
        | Fail e \<Rightarrow> (Fail e, w)
        | Panic \<Rightarrow> (Panic, w)) (ws_decode lib w))"

text \<open>\<open>input\<close> is what the system call that reads the descriptor returns. There is no limit for what waits in the inbound
  buffer, as there is for a plain connection.\<close>

definition ws_ReadToInboundBuffer ::
    "ws_lib \<Rightarrow> conn_mem \<Rightarrow> int \<Rightarrow> bytes outcome \<Rightarrow> 'ctx ws_conn \<Rightarrow> (nat outcome \<times> 'ctx ws_conn) option" where
  "ws_ReadToInboundBuffer lib m now input w =
     (case input of
        Fail e \<Rightarrow> Some (Fail e, w)
      | Panic \<Rightarrow> Some (Panic, w)
      | Ret data \<Rightarrow>
          if length data = 0 then Some (Ret 0, w)
          else case el_Write (mem_fresh m) (mem_pool m) data (ws_tmp w) of
              Fail e \<Rightarrow> Some (Fail e, w)
            | Panic \<Rightarrow> Some (Panic, w)
            | Ret (_, b) \<Rightarrow>
                map_option (\<lambda>(r, w). (mapR (\<lambda>_. length data) r, w))
                  (unpacketWSData lib m (w\<lparr>ws_tmp := b, ws_d := (ws_d w)\<lparr>cn_lastActivity := now\<rparr>\<rparr>)))"

definition WriteServerBinary :: "ws_lib \<Rightarrow> conn_mem \<Rightarrow> bytes \<Rightarrow> 'ctx ws_conn \<Rightarrow> unit outcome \<times> 'ctx ws_conn" where
  "WriteServerBinary lib m data w =
     (case el_Write (mem_fresh m) (mem_pool m) (wl_Binary lib data) (cn_outbound (ws_d w)) of
        Ret (_, b) \<Rightarrow> (Ret (), w\<lparr>ws_d := (ws_d w)\<lparr>cn_outbound := b\<rparr>\<rparr>)
      | Fail e \<Rightarrow> (Fail e, w)
      | Panic \<Rightarrow> (Panic, w))"

section \<open>What is delivered\<close>

lemma PeekFromTemp_all: "el_ok (ws_tmp w) \<Longrightarrow> PeekFromTemp (- 1) w = Ret (el_contents (ws_tmp w))"
  using el_Peek_ok [of "ws_tmp w" "int (el_Buffered (ws_tmp w))"]
  by (auto simp: PeekFromTemp_def el_IsEmpty_iff el_Buffered_length Let_def split: if_splits)

lemma Discard_tmp:
  assumes "el_ok (ws_tmp w)"
  shows "el_ok (ws_tmp (DiscardFromTemp n w))" and "el_contents (ws_tmp (DiscardFromTemp n w)) = drop n (el_contents (ws_tmp w))"
    and "ws_d (DiscardFromTemp n w) = ws_d w" and "ws_upgraded (DiscardFromTemp n w) = ws_upgraded w"
  using el_Discard_ok [OF assms, of "int n"] by (simp_all add: DiscardFromTemp_def)

text \<open>What the library says of the frames that a buffer holds: a complete frame is read off, its payload is one message,
  and its header says that it is the last of its message.\<close>

definition frame_ok :: "ws_lib \<Rightarrow> bytes \<Rightarrow> bytes \<Rightarrow> bool" where
  "frame_ok lib f payload \<longleftrightarrow> length f \<ge> MinHeaderSize \<and>
     (\<exists>op. \<not> wl_IsControl lib op \<and>
       (\<forall>later. wl_ReadClientMessage lib (f @ later) = ([\<lparr>wsm_OpCode = op, wsm_Payload = payload\<rparr>], None, later) \<and>
         (\<exists>h left. wl_ReadHeader lib (f @ later) = Ret (h, left) \<and> wsh_Fin h \<and> wsh_Length h \<le> length left)))"

lemma ws_messages_frames:
  assumes "list_all2 (frame_ok lib) fs ps"
  shows "\<exists>ms. map wsm_Payload ms = ps \<and> list_all (\<lambda>m. \<not> wl_IsControl lib (wsm_OpCode m)) ms \<and>
    (\<forall>acc tail. ws_messages lib acc (concat fs @ tail) = ws_messages lib (acc @ ms) tail)"
  using assms
proof (induction rule: list_all2_induct)
  case Nil
  show ?case by (rule exI [of _ "[]"]) simp
next
  case (Cons f fs p ps)
  then obtain ms where ms: "map wsm_Payload ms = ps" "list_all (\<lambda>m. \<not> wl_IsControl lib (wsm_OpCode m)) ms"
    "\<And>acc tail. ws_messages lib acc (concat fs @ tail) = ws_messages lib (acc @ ms) tail" by blast
  from Cons.hyps(1) obtain op where op: "\<not> wl_IsControl lib op" "f \<noteq> []"
    "\<And>later. wl_ReadClientMessage lib (f @ later) = ([\<lparr>wsm_OpCode = op, wsm_Payload = p\<rparr>], None, later)"
    by (fastforce simp: frame_ok_def)
  have "ws_messages lib acc (concat (f # fs) @ tail) = ws_messages lib (acc @ (\<lparr>wsm_OpCode = op, wsm_Payload = p\<rparr> # ms)) tail" for acc tail
    using op(2) ms(3) [of "acc @ [\<lparr>wsm_OpCode = op, wsm_Payload = p\<rparr>]" tail] op(3) [of "concat fs @ tail"]
    by (subst ws_messages.simps) simp
  with ms(1,2) op(1) show ?case by (intro exI [of _ "\<lparr>wsm_OpCode = op, wsm_Payload = p\<rparr> # ms"]) simp
qed

lemma ws_deliver_payloads:
  assumes "mem_ok m" and "list_all (\<lambda>msg. \<not> wl_IsControl lib (wsm_OpCode msg)) ms" and "el_ok (cn_inbound (ws_d w))"
    and "ws_deliver lib m ms w = (Ret (), w')"
  shows "el_ok (cn_inbound (ws_d w')) \<and> el_contents (cn_inbound (ws_d w')) = el_contents (cn_inbound (ws_d w)) @ concat (map wsm_Payload ms) \<and>
    ws_tmp w' = ws_tmp w \<and> ws_upgraded w' = ws_upgraded w"
  using assms(2-4)
proof (induction ms arbitrary: w)
  case (Cons msg ms)
  obtain n b where b: "el_Write (mem_fresh m) (mem_pool m) (wsm_Payload msg) (cn_inbound (ws_d w)) = Ret (n, b)"
    and d: "ws_deliver lib m ms (w\<lparr>ws_d := (ws_d w)\<lparr>cn_inbound := b\<rparr>\<rparr>) = (Ret (), w')"
    using Cons.prems(1,3) by (auto split: outcome.splits)
  have "pool_ok (mem_pool m)" "fresh_ok (mem_fresh m)" using assms(1) by (simp_all add: mem_ok_def)
  from el_Write_ok [OF this Cons.prems(2) b] Cons.IH [OF _ _ d] Cons.prems(1) show ?case by simp
qed simp

text \<open>A buffer that holds complete frames is emptied, and their payloads are in the inbound buffer, in order.\<close>

lemma complete_frames:
  assumes "mem_ok m" and "ws_upgraded w" and "el_ok (ws_tmp w)" and "el_ok (cn_inbound (ws_d w))"
    and "list_all2 (frame_ok lib) fs ps" and "el_contents (ws_tmp w) = concat fs" and "unpacketWSData lib m w = Some (Ret (), w')"
  shows "el_contents (ws_tmp w') = []" and "el_contents (cn_inbound (ws_d w')) = el_contents (cn_inbound (ws_d w)) @ concat ps"
proof -
  have "el_contents (ws_tmp w') = [] \<and> el_contents (cn_inbound (ws_d w')) = el_contents (cn_inbound (ws_d w)) @ concat ps"
  proof (cases fs)
    case Nil
    with assms(5,6) have "ws_decode lib w = Some (Ret [], w)" "ps = []" by (simp_all add: ws_decode_def PeekFromTemp_all [OF assms(3)])
    with Nil assms(2,6,7) show ?thesis by (simp add: unpacketWSData_def)
  next
    case (Cons f fs')
    obtain ms where ms: "map wsm_Payload ms = ps" "list_all (\<lambda>m. \<not> wl_IsControl lib (wsm_OpCode m)) ms"
      "ws_messages lib [] (concat fs) = Some (ms, [])"
    proof -
      obtain ms where ms: "map wsm_Payload ms = ps" "list_all (\<lambda>m. \<not> wl_IsControl lib (wsm_OpCode m)) ms"
        "\<And>acc tail. ws_messages lib acc (concat fs @ tail) = ws_messages lib (acc @ ms) tail"
        using ws_messages_frames [OF assms(5)] by blast
      have "ws_messages lib [] (concat fs @ []) = Some (ms, [])" by (subst ms(3), subst ws_messages.simps) simp
      with ms(1,2) that show thesis by simp
    qed
    from assms(5) Cons obtain p where "frame_ok lib f p" by (auto simp: list_all2_Cons1)
    then obtain h left where h: "wl_ReadHeader lib (concat fs) = Ret (h, left)" "wsh_Fin h" "wsh_Length h \<le> length left"
      "length (concat fs) \<ge> MinHeaderSize"
      unfolding Cons frame_ok_def by fastforce
    have "ws_decode lib w = Some (Ret ms, DiscardFromTemp (length (concat fs)) w)"
      using h ms(3) by (simp add: ws_decode_def PeekFromTemp_all [OF assms(3)] assms(6))
    then have d: "ws_deliver lib m ms (DiscardFromTemp (length (concat fs)) w) = (Ret (), w')"
      using assms(2,7) by (simp add: unpacketWSData_def)
    note t = Discard_tmp [OF assms(3), of "length (concat fs)"]
    from ws_deliver_payloads [OF assms(1) ms(2) _ d] t assms(4,6) ms(1) show ?thesis by simp
  qed
  then show "el_contents (ws_tmp w') = []" "el_contents (cn_inbound (ws_d w')) = el_contents (cn_inbound (ws_d w)) @ concat ps" by blast+
qed

section \<open>What is lost\<close>

text \<open>Behind complete frames, the part of a frame that has arrived: when the library has used it up before it reports the
  error, it is discarded with them, and its rest will be taken for the start of a frame.\<close>

lemma part_lost:
  assumes "ws_upgraded w" and "el_ok (ws_tmp w)" and "list_all2 (frame_ok lib) fs ps" and "fs \<noteq> []"
    and "el_contents (ws_tmp w) = concat fs @ part" and "part \<noteq> []" and "wl_ReadClientMessage lib part = ([], Some e, [])"
    and "unpacketWSData lib m w = Some (r, w')" and "mem_ok m" and "el_ok (cn_inbound (ws_d w))" and "r = Ret ()"
  shows "el_contents (ws_tmp w') = []" and "el_contents (cn_inbound (ws_d w')) = el_contents (cn_inbound (ws_d w)) @ concat ps"
proof -
  obtain ms where ms: "map wsm_Payload ms = ps" "list_all (\<lambda>m. \<not> wl_IsControl lib (wsm_OpCode m)) ms"
    "\<And>acc tail. ws_messages lib acc (concat fs @ tail) = ws_messages lib (acc @ ms) tail"
    using ws_messages_frames [OF assms(3)] by blast
  have m: "ws_messages lib [] (concat fs @ part) = Some (ms, [])"
    by (subst ms(3), subst ws_messages.simps) (simp add: assms(6,7))
  from assms(3,4) obtain f fs' p where f: "fs = f # fs'" "frame_ok lib f p" by (auto simp: neq_Nil_conv list_all2_Cons1)
  obtain h left where h: "wl_ReadHeader lib (f @ concat fs' @ part) = Ret (h, left)" "wsh_Fin h" "wsh_Length h \<le> length left"
    and len: "length f \<ge> MinHeaderSize"
    using f(2) unfolding frame_ok_def by blast
  have "ws_decode lib w = Some (Ret ms, DiscardFromTemp (length (concat fs @ part)) w)"
    using h len m f(1) by (simp add: ws_decode_def PeekFromTemp_all [OF assms(2)] assms(5))
  then have d: "ws_deliver lib m ms (DiscardFromTemp (length (concat fs @ part)) w) = (Ret (), w')"
    using assms(1,8,11) by (simp add: unpacketWSData_def)
  note t = Discard_tmp [OF assms(2), of "length (concat fs @ part)"]
  from ws_deliver_payloads [OF assms(9) ms(2) _ d] t assms(5,10) ms(1)
  show "el_contents (ws_tmp w') = []" "el_contents (cn_inbound (ws_d w')) = el_contents (cn_inbound (ws_d w)) @ concat ps" by simp_all
qed

text \<open>A message in several frames: the first one stays in front of the buffer, and nothing behind it is ever delivered.\<close>

definition fragment :: "ws_lib \<Rightarrow> bytes \<Rightarrow> bool" where
  "fragment lib f \<longleftrightarrow> (\<forall>later. \<exists>h left. wl_ReadHeader lib (f @ later) = Ret (h, left) \<and> \<not> wsh_Fin h)"

definition blocked :: "ws_lib \<Rightarrow> 'ctx ws_conn \<Rightarrow> bool" where
  "blocked lib w \<longleftrightarrow> ws_upgraded w \<and> el_ok (ws_tmp w) \<and> (\<exists>f later. fragment lib f \<and> el_contents (ws_tmp w) = f @ later)"

lemma blocked_read:
  assumes "blocked lib w" and "mem_ok m" and "ws_ReadToInboundBuffer lib m now input w = Some (r, w')"
  shows "blocked lib w'" and "cn_inbound (ws_d w') = cn_inbound (ws_d w)"
proof -
  have idle: "unpacketWSData lib m v = Some (Ret (), v)" if "blocked lib v" for v :: "'a ws_conn"
  proof -
    from that obtain f later h left where "ws_upgraded v" "el_ok (ws_tmp v)" "el_contents (ws_tmp v) = f @ later"
      "wl_ReadHeader lib (f @ later) = Ret (h, left)" "\<not> wsh_Fin h"
      unfolding blocked_def fragment_def by metis
    then show ?thesis by (simp add: unpacketWSData_def ws_decode_def PeekFromTemp_all)
  qed
  have "blocked lib w' \<and> cn_inbound (ws_d w') = cn_inbound (ws_d w)"
  proof (cases "\<exists>data n b. input = Ret data \<and> data \<noteq> [] \<and> el_Write (mem_fresh m) (mem_pool m) data (ws_tmp w) = Ret (n, b)")
    case True
    then obtain data n b where i: "input = Ret data" "data \<noteq> []" "el_Write (mem_fresh m) (mem_pool m) data (ws_tmp w) = Ret (n, b)" by blast
    have mem: "pool_ok (mem_pool m)" "fresh_ok (mem_fresh m)" using assms(2) by (simp_all add: mem_ok_def)
    have "el_ok (ws_tmp w)" using assms(1) by (simp add: blocked_def)
    from el_Write_ok [OF mem this i(3)] assms(1)
    have "blocked lib (w\<lparr>ws_tmp := b, ws_d := (ws_d w)\<lparr>cn_lastActivity := now\<rparr>\<rparr>)"
      by (auto simp: blocked_def)
    from this idle [OF this] i assms(3) show ?thesis by (auto simp: ws_ReadToInboundBuffer_def mapR_def)
  next
    case False
    with assms(1,3) show ?thesis by (auto simp: ws_ReadToInboundBuffer_def split: outcome.splits if_splits)
  qed
  then show "blocked lib w'" "cn_inbound (ws_d w') = cn_inbound (ws_d w)" by blast+
qed

text \<open>Any number of reads.\<close>

inductive ws_reads :: "ws_lib \<Rightarrow> conn_mem \<Rightarrow> 'ctx ws_conn \<Rightarrow> 'ctx ws_conn \<Rightarrow> bool" for lib m w0 where
  none: "ws_reads lib m w0 w0"
| more: "ws_reads lib m w0 w \<Longrightarrow> ws_ReadToInboundBuffer lib m now input w = Some (r, w') \<Longrightarrow> ws_reads lib m w0 w'"

lemma blocked_reads:
  assumes "ws_reads lib m w0 w" and "blocked lib w0" and "mem_ok m"
  shows "blocked lib w \<and> cn_inbound (ws_d w) = cn_inbound (ws_d w0)"
  using assms(1)
proof induction
  case (more w now input r w')
  then show ?case using blocked_read [OF _ assms(3) more.hyps(2)] by simp
qed (use assms(2) in simp)

text \<open>There is no limit for the buffer of a websocket connection: what is written to it is kept, however much it is.\<close>

lemma blocked_grows:
  assumes "blocked lib w" and "mem_ok m" and "ws_ReadToInboundBuffer lib m now (Ret data) w = Some (Ret n, w')"
  shows "el_contents (ws_tmp w') = el_contents (ws_tmp w) @ data"
proof (cases "data = []")
  case False
  have mem: "pool_ok (mem_pool m)" "fresh_ok (mem_fresh m)" "el_ok (ws_tmp w)" using assms(1,2) by (simp_all add: mem_ok_def blocked_def)
  obtain k b where b: "el_Write (mem_fresh m) (mem_pool m) data (ws_tmp w) = Ret (k, b)"
    using assms(3) False by (auto simp: ws_ReadToInboundBuffer_def split: outcome.splits)
  note wr = el_Write_ok [OF mem b]
  let ?v = "w\<lparr>ws_tmp := b, ws_d := (ws_d w)\<lparr>cn_lastActivity := now\<rparr>\<rparr>"
  from assms(1) wr obtain f later h left where "ws_upgraded ?v" "el_ok (ws_tmp ?v)" "el_contents (ws_tmp ?v) = f @ later"
    "wl_ReadHeader lib (f @ later) = Ret (h, left)" "\<not> wsh_Fin h"
    unfolding blocked_def fragment_def by simp (metis append.assoc)
  then have "unpacketWSData lib m ?v = Some (Ret (), ?v)" by (simp add: unpacketWSData_def ws_decode_def PeekFromTemp_all)
  with assms(3) False b wr show ?thesis by (auto simp: ws_ReadToInboundBuffer_def mapR_def)
qed (use assms(3) in \<open>simp add: ws_ReadToInboundBuffer_def\<close>)

end
