(* ===== verification/Connz.thy ===== *)
theory Connz
  imports ApiBase
begin

text \<open>
  The lists of connections of the monitoring interface, \<^verbatim>\<open>internal/server/api_connz.go\<close> and the part of
  \<^verbatim>\<open>api_varz.go\<close> that uses them: sorting by any of the figures, paging, and what is shown of a connection. What the
  Go runtime does is an argument: the sorting (which does not keep the order of equals) and the splitting of addresses.
\<close>

section \<open>What is shown of a connection\<close>

record conn_stats =
  cs_InMsgs :: int
  cs_OutMsgs :: int
  cs_InBytes :: int
  cs_OutBytes :: int

record 'ctx listed =
  li_conn :: "'ctx net_conn"
  li_remoteAddr :: "gostring option"
  li_uptime :: int
  li_stats :: conn_stats

record ConnInfo =
  cnf_id :: int
  cnf_uid :: gostring
  cnf_ip :: gostring
  cnf_port :: int
  cnf_last_activity :: int
  cnf_uptime :: gostring
  cnf_idle :: gostring
  cnf_pending_bytes :: nat
  cnf_in_msgs :: int
  cnf_out_msgs :: int
  cnf_in_bytes :: int
  cnf_out_bytes :: int
  cnf_device :: gostring
  cnf_device_id :: gostring
  cnf_version :: u8

text \<open>The Chinese words of the source are written in their UTF-8 bytes.\<close>

definition device :: "'ctx net_conn \<Rightarrow> gostring" where
  "device c =
     (let d = (if cn_deviceFlag c = APP then str ''App'' else if cn_deviceFlag c = PC then str ''PC''
               else if cn_deviceFlag c = WEB then str ''Web'' else [230, 156, 170, 231, 159, 165]);
          level = (if cn_deviceLevel c = DeviceLevelSlave then [228, 187, 142] else [228, 184, 187]) in
      d @ str ''('' @ level @ str '')'')"

definition newConnInfo :: "(gostring \<Rightarrow> gostring \<times> gostring) \<Rightarrow> int \<Rightarrow> 'ctx listed \<Rightarrow> ConnInfo" where
  "newConnInfo splitHostPort now li =
     (let c = li_conn li; st = li_stats li;
          (host, port) = (case li_remoteAddr li of None \<Rightarrow> ([], 0)
             | Some addr \<Rightarrow> let (hostStr, portStr) = splitHostPort addr in (hostStr, ParseInt_clamped portStr)) in
      \<lparr>cnf_id = cn_id c, cnf_uid = cn_uid c, cnf_ip = host, cnf_port = port, cnf_last_activity = cn_lastActivity c,
       cnf_uptime = myUptime (nat (now - li_uptime li)), cnf_idle = myUptime (nat (now - cn_lastActivity c)),
       cnf_pending_bytes = el_Buffered (cn_outbound c), cnf_in_msgs = cs_InMsgs st, cnf_out_msgs = cs_OutMsgs st,
       cnf_in_bytes = cs_InBytes st, cnf_out_bytes = cs_OutBytes st, cnf_device = device c, cnf_device_id = cn_deviceID c,
       cnf_version = word_of_int (cn_protoVersion c)\<rparr>)"

section \<open>Sorting and paging\<close>

definition ascending :: "('a \<Rightarrow> int) \<Rightarrow> 'a \<Rightarrow> 'a \<Rightarrow> bool" where
  "ascending f a b \<longleftrightarrow> f a < f b"

definition descending :: "('a \<Rightarrow> int) \<Rightarrow> 'a \<Rightarrow> 'a \<Rightarrow> bool" where
  "descending f a b \<longleftrightarrow> f a > f b"

text \<open>The \<open>Less\<close> of each of the source's sort types; an option that is none of them leaves the list as it is.\<close>

definition less_of :: "gostring \<Rightarrow> ('ctx listed \<Rightarrow> 'ctx listed \<Rightarrow> bool) option" where
  "less_of opt =
     (if opt = str ''id'' then Some (ascending (\<lambda>l. cn_id (li_conn l)))
      else if opt = str ''idDesc'' then Some (descending (\<lambda>l. cn_id (li_conn l)))
      else if opt = str ''inMsg'' then Some (ascending (\<lambda>l. cs_InMsgs (li_stats l)))
      else if opt = str ''inMsgDesc'' then Some (descending (\<lambda>l. cs_InMsgs (li_stats l)))
      else if opt = str ''outMsg'' then Some (ascending (\<lambda>l. cs_OutMsgs (li_stats l)))
      else if opt = str ''outMsgDesc'' then Some (descending (\<lambda>l. cs_OutMsgs (li_stats l)))
      else if opt = str ''inBytes'' then Some (ascending (\<lambda>l. cs_InBytes (li_stats l)))
      else if opt = str ''inBytesDesc'' then Some (descending (\<lambda>l. cs_InBytes (li_stats l)))
      else if opt = str ''outBytes'' then Some (ascending (\<lambda>l. cs_OutBytes (li_stats l)))
      else if opt = str ''outBytesDesc'' then Some (descending (\<lambda>l. cs_OutBytes (li_stats l)))
      else if opt = str ''pendingBytes'' then Some (ascending (\<lambda>l. int (el_Buffered (cn_outbound (li_conn l)))))
      else if opt = str ''pendingBytesDesc'' then Some (descending (\<lambda>l. int (el_Buffered (cn_outbound (li_conn l)))))
      else if opt = str ''uptime'' then Some (ascending li_uptime)
      else if opt = str ''uptimeDesc'' then Some (descending li_uptime)
      else None)"

type_synonym 'a sorter = "('a \<Rightarrow> 'a \<Rightarrow> bool) \<Rightarrow> 'a list \<Rightarrow> 'a list"

text \<open>Go's integers have 64 bits here: the sum of offset and limit may wrap.\<close>

definition GetConnInfos :: "'ctx listed sorter \<Rightarrow> gostring \<Rightarrow> i64 \<Rightarrow> i64 \<Rightarrow> 'ctx listed list \<Rightarrow> 'ctx listed list outcome" where
  "GetConnInfos srt sortOpt offset limit conns =
     (let conns = (case less_of sortOpt of None \<Rightarrow> conns | Some before \<Rightarrow> srt before conns);
          minoff = sint offset; maxoff = sint (offset + limit); maxIndex = int (length conns);
          minoff = (if minoff > maxIndex then maxIndex else minoff); maxoff = (if maxoff > maxIndex then maxIndex else maxoff) in
      if 0 \<le> minoff \<and> minoff \<le> maxoff then Ret (take (nat (maxoff - minoff)) (drop (nat minoff) conns)) else Panic)"

record connz =
  cz_connections :: "ConnInfo list"
  cz_total :: nat
  cz_offset :: i64
  cz_limit :: i64

definition HandleConnz ::
    "'ctx listed sorter \<Rightarrow> (gostring \<Rightarrow> gostring \<times> gostring) \<Rightarrow> int \<Rightarrow> gostring \<Rightarrow> gostring \<Rightarrow> gostring \<Rightarrow> gostring \<Rightarrow>
     'ctx listed list \<Rightarrow> connz outcome" where
  "HandleConnz srt splitHostPort now sortStr offsetStr limitStr uid conns =
     (let offset = word_of_int (ParseInt_clamped offsetStr); limit = word_of_int (ParseInt_clamped limitStr);
          limit = (if sint limit \<le> 0 then 20 else limit);
          sortOpt = (if sortStr \<noteq> [] then sortStr else str ''id'');
          answer = (\<lambda>infos. \<lparr>cz_connections = infos, cz_total = length conns, cz_offset = offset, cz_limit = limit\<rparr>) in
      if \<not> blank uid then Ret (answer (map (newConnInfo splitHostPort now) conns))
      else mapR (\<lambda>resultConns. answer (map (newConnInfo splitHostPort now) (filter (\<lambda>l. cn_authed (li_conn l)) resultConns)))
        (GetConnInfos srt sortOpt offset limit conns))"

text \<open>The connections of \<open>HandleVarz\<close>; a limit below zero panics.\<close>

definition varz_conns ::
    "'ctx listed sorter \<Rightarrow> (gostring \<Rightarrow> gostring \<times> gostring) \<Rightarrow> int \<Rightarrow> gostring \<Rightarrow> gostring \<Rightarrow> 'ctx listed list \<Rightarrow> ConnInfo list outcome" where
  "varz_conns srt splitHostPort now shown limitStr conns =
     (let connLimit = word_of_int (ParseInt_clamped limitStr); connLimit = (if connLimit = 0 then 20 else connLimit) in
      if shown = str ''conn''
      then mapR (\<lambda>resultConns. map (newConnInfo splitHostPort now) (filter (\<lambda>l. cn_authed (li_conn l)) resultConns))
        (GetConnInfos srt (str ''inMsgDesc'') 0 connLimit conns)
      else Ret [])"

section \<open>What a page holds\<close>

definition sort_ok :: "'a sorter \<Rightarrow> bool" where
  "sort_ok srt \<longleftrightarrow> (\<forall>before xs. mset (srt before xs) = mset xs \<and> sorted_wrt (\<lambda>a b. \<not> before b a) (srt before xs))"

definition sorted_conns :: "'ctx listed sorter \<Rightarrow> gostring \<Rightarrow> 'ctx listed list \<Rightarrow> 'ctx listed list" where
  "sorted_conns srt sortOpt conns = (case less_of sortOpt of None \<Rightarrow> conns | Some before \<Rightarrow> srt before conns)"

lemma length_sorted: "sort_ok srt \<Longrightarrow> length (sorted_conns srt sortOpt conns) = length conns"
  by (auto simp: sorted_conns_def sort_ok_def split: option.split intro: mset_eq_length)

text \<open>A page is what it should be as long as the sum of offset and limit does not wrap; otherwise, and for an offset
  below zero, the request panics.\<close>

lemma page:
  assumes "sort_ok srt" and "0 < sint limit" and "length conns < 2 ^ 62"
  shows "GetConnInfos srt sortOpt offset limit conns =
    (if 0 \<le> sint offset \<and> (sint offset + sint limit < 2 ^ 63)
     then Ret (take (nat (sint limit)) (drop (nat (sint offset)) (sorted_conns srt sortOpt conns))) else Panic)"
proof -
  let ?xs = "sorted_conns srt sortOpt conns"
  have len: "length ?xs = length conns" by (rule length_sorted [OF assms(1)])
  have lt: "sint offset < 2 ^ 63" "sint limit < 2 ^ 63" using sint_lt [of offset] sint_lt [of limit] by simp_all
  have sum: "sint (offset + limit) = (if sint offset + sint limit < 2 ^ 63 then sint offset + sint limit else sint offset + sint limit - 2 ^ 64)"
    if "0 \<le> sint offset"
  proof -
    have wrap: "signed_take_bit 63 k = (k + 2 ^ 63) mod 2 ^ 64 - 2 ^ 63" for k :: int
      by (simp add: signed_take_bit_eq_take_bit_shift take_bit_eq_mod)
    have "sint (offset + limit) = (sint offset + sint limit + 2 ^ 63) mod 2 ^ 64 - 2 ^ 63"
      unfolding sint_word_ariths(1) using wrap [of "sint offset + sint limit"] by simp
    moreover have "(k + 2 ^ 63) mod 2 ^ 64 = (if k < 2 ^ 63 then k + 2 ^ 63 else k - 2 ^ 63)" if "0 \<le> k" "k < 2 ^ 64" for k :: int
    proof (cases "k < 2 ^ 63")
      case False
      have "(k + 2 ^ 63) mod 2 ^ 64 = ((k - 2 ^ 63) + 2 ^ 64) mod 2 ^ 64" by (simp add: add.commute)
      also have "\<dots> = k - 2 ^ 63" using that False by (subst mod_add_self2) simp
      finally show ?thesis using False by simp
    qed (use that in simp)
    ultimately show ?thesis using that assms(2) lt by simp
  qed
  have eq: "GetConnInfos srt sortOpt offset limit conns =
      (let minoff = min (sint offset) (int (length conns)); maxoff = min (sint (offset + limit)) (int (length conns)) in
       if 0 \<le> minoff \<and> minoff \<le> maxoff then Ret (take (nat (maxoff - minoff)) (drop (nat minoff) ?xs)) else Panic)"
    using len by (auto simp: GetConnInfos_def sorted_conns_def Let_def min_def)
  show ?thesis
  proof (cases "0 \<le> sint offset \<and> sint offset + sint limit < 2 ^ 63")
    case True
    then have s: "sint (offset + limit) = sint offset + sint limit" using sum by simp
    have "take (nat (min (sint offset + sint limit) n - min (sint offset) n)) (drop (nat (min (sint offset) n)) ?xs) =
        take (nat (sint limit)) (drop (nat (sint offset)) ?xs)" if n: "n = int (length conns)" for n
    proof (cases "sint offset \<le> n")
      case True
      then show ?thesis using assms(2) n len \<open>0 \<le> sint offset \<and> _\<close>
        by (cases "sint offset + sint limit \<le> n") (auto simp: min_def nat_diff_distrib)
    next
      case False
      then show ?thesis using assms(2) n len by (simp add: min_def)
    qed
    with True s assms(2) show ?thesis unfolding eq Let_def by auto
  next
    case False
    then show ?thesis using sum assms(2,3) lt unfolding eq Let_def by (auto simp: min_def)
  qed
qed


lemma page_sorted:
  assumes "sort_ok srt" and "less_of sortOpt = Some before" and "GetConnInfos srt sortOpt offset limit conns = Ret shown"
  shows "sorted_wrt (\<lambda>a b. \<not> before b a) shown" and "set shown \<subseteq> set conns"
proof -
  have "\<exists>i j. shown = take i (drop j (srt before conns))"
    using assms(2,3) unfolding GetConnInfos_def Let_def by (simp split: if_splits) (metis take_all_iff order_refl)+
  then obtain i j where s: "shown = take i (drop j (srt before conns))" by blast
  have "sorted_wrt (\<lambda>a b. \<not> before b a) (srt before conns)" "mset (srt before conns) = mset conns"
    using assms(1) by (simp_all add: sort_ok_def)
  then show "sorted_wrt (\<lambda>a b. \<not> before b a) shown" "set shown \<subseteq> set conns"
    unfolding s by (auto intro: sorted_wrt_take sorted_wrt_drop dest!: in_set_takeD in_set_dropD mset_eq_setD)
qed

text \<open>Asked for one user's connections, the handler answers with everybody's.\<close>

lemma connz_ignores_uid:
  "\<not> blank uid \<Longrightarrow> mapR cz_connections (HandleConnz srt splitHostPort now sortStr offsetStr limitStr uid conns) =
    Ret (map (newConnInfo splitHostPort now) conns)"
  by (simp add: HandleConnz_def mapR_def Let_def)

lemma varz_negative_limit:
  assumes "ParseInt_clamped limitStr < 0"
  shows "varz_conns srt splitHostPort now (str ''conn'') limitStr conns = Panic"
proof -
  have lo: "- (2 ^ 63) \<le> ParseInt_clamped limitStr" by (auto simp: ParseInt_clamped_def Let_def split: list.split)
  then have s: "sint (word_of_int (ParseInt_clamped limitStr) :: i64) = ParseInt_clamped limitStr"
    using assms by (subst sint_sbintrunc', subst signed_take_bit_int_eq_self) simp_all
  then have "word_of_int (ParseInt_clamped limitStr) \<noteq> (0 :: i64)" using assms by (metis less_irrefl signed_0)
  with s assms show ?thesis by (simp add: varz_conns_def GetConnInfos_def Let_def mapR_def)
qed

end
