(* ===== verification/Bitmap.thy ===== *)
theory Bitmap
  imports GoStrings
begin

text \<open>
  The bitmaps of \<^verbatim>\<open>pkg/okutil/bitmap.go\<close>. A bitmap is the list of its bytes; the slot \<open>n\<close> is bit \<open>n mod 8\<close>
  of byte \<open>n div 8\<close>. The lemmas show that it is a set of slot numbers, and where the functions fail.
\<close>

section \<open>Operations\<close>

record slotBitMap =
  sb_bits :: bytes
  sb_slotNum :: nat

definition bitmap_size :: "nat \<Rightarrow> nat" where
  "bitmap_size slotNum = (if slotNum mod 8 = 0 then slotNum div 8 else slotNum div 8 + 1)"

definition NewSlotBitMap :: "nat \<Rightarrow> slotBitMap" where
  "NewSlotBitMap slotNum = \<lparr>sb_bits = replicate (bitmap_size slotNum) 0, sb_slotNum = slotNum\<rparr>"

definition NewSlotBitMapWithBits :: "bytes \<Rightarrow> slotBitMap" where
  "NewSlotBitMapWithBits bits = \<lparr>sb_bits = bits, sb_slotNum = 0\<rparr>"

definition SetSlot :: "u32 \<Rightarrow> bool \<Rightarrow> slotBitMap \<Rightarrow> slotBitMap outcome" where
  "SetSlot num v s =
     (let index = unat num div 8; pos = unat num mod 8 in
      if length (sb_bits s) \<le> index then Panic
      else if v then Ret (s\<lparr>sb_bits := (sb_bits s)[index := sb_bits s ! index OR push_bit pos 1]\<rparr>)
      else Ret (s\<lparr>sb_bits := (sb_bits s)[index := sb_bits s ! index AND NOT (push_bit pos 1)]\<rparr>))"

text \<open>The counter has 32 bits: for a range up to the largest number the loop has no end of its own.\<close>

partial_function (option) SetSlotForRange :: "u32 \<Rightarrow> u32 \<Rightarrow> bool \<Rightarrow> slotBitMap \<Rightarrow> slotBitMap outcome option" where
  "SetSlotForRange i end v s =
     (if i \<le> end then (case SetSlot i v s of Ret s \<Rightarrow> SetSlotForRange (i + 1) end v s | r \<Rightarrow> Some r) else Some (Ret s))"

definition GetSlot :: "u32 \<Rightarrow> slotBitMap \<Rightarrow> bool outcome" where
  "GetSlot num s =
     (let index = unat num div 8; pos = unat num mod 8 in
      if length (sb_bits s) \<le> index then Panic else Ret (sb_bits s ! index AND push_bit pos 1 \<noteq> 0))"

definition bitmap_Reset :: "slotBitMap \<Rightarrow> slotBitMap" where
  "bitmap_Reset s = s\<lparr>sb_bits := replicate (bitmap_size (sb_slotNum s)) 0\<rparr>"

definition GetBits :: "slotBitMap \<Rightarrow> bytes" where
  "GetBits s = sb_bits s"

definition vaild :: "byte \<Rightarrow> nat \<Rightarrow> bool" where
  "vaild b j \<longleftrightarrow> drop_bit j b AND 1 = 1"

definition GetVaildSlotNum :: "slotBitMap \<Rightarrow> nat" where
  "GetVaildSlotNum s = sum_list (map (\<lambda>b. length (filter (vaild b) [0..<8])) (sb_bits s))"

definition GetVaildSlots :: "slotBitMap \<Rightarrow> u32 list" where
  "GetVaildSlots s = concat (map (\<lambda>(i, b). map (\<lambda>j. word_of_nat (i * 8 + j)) (filter (vaild b) [0..<8])) (enumerate 0 (sb_bits s)))"

text \<open>Exporting takes the given number of slots out, from the highest on; bytes and the bits of a byte are gone through
  downwards.\<close>

fun export_byte :: "nat list \<Rightarrow> int \<Rightarrow> byte \<Rightarrow> byte \<Rightarrow> byte \<times> byte \<times> int" where
  "export_byte [] num b eb = (b, eb, num)"
| "export_byte (j # js) num b eb =
     (if num \<le> 0 then (b, eb, num)
      else if vaild b j then export_byte js (num - 1) (b AND NOT (push_bit j 1)) (eb OR push_bit j 1)
      else export_byte js num b eb)"

fun export_bytes :: "int \<Rightarrow> bytes \<Rightarrow> bytes \<times> bytes \<times> int" where
  "export_bytes num [] = ([], [], num)"
| "export_bytes num (b # bs) =
     (if num \<le> 0 then (b # bs, replicate (length (b # bs)) 0, num)
      else let (b, eb, num) = export_byte (rev [0..<8]) num b 0; (bs, ebs, num) = export_bytes num bs in (b # bs, eb # ebs, num))"

definition ExportSlots :: "int \<Rightarrow> slotBitMap \<Rightarrow> bytes \<times> slotBitMap" where
  "ExportSlots num s =
     (let (bs, ebs, _) = export_bytes num (rev (sb_bits s)) in (rev ebs, s\<lparr>sb_bits := rev bs\<rparr>))"

text \<open>The slots to clean are aligned at the end.\<close>

definition CleanSlots :: "bytes \<Rightarrow> slotBitMap \<Rightarrow> slotBitMap" where
  "CleanSlots slots s =
     (if length slots = 0 then s
      else s\<lparr>sb_bits := map (\<lambda>(i, b). if length (sb_bits s) - i \<le> length slots
               then b AND NOT (slots ! (length slots - (length (sb_bits s) - i))) else b) (enumerate 0 (sb_bits s))\<rparr>)"

definition MergeSlots :: "bytes list \<Rightarrow> slotBitMap \<Rightarrow> slotBitMap" where
  "MergeSlots bs s =
     (if length bs = 0 then s
      else s\<lparr>sb_bits := map (\<lambda>(i, b). fold (\<lambda>v b. if i < length v then b OR v ! i else b) bs b) (enumerate 0 (sb_bits s))\<rparr>)"

text \<open>A byte of the first slice beyond the second is compared with nothing: the access panics.\<close>

fun contains_bytes :: "bytes \<Rightarrow> bytes \<Rightarrow> bool outcome" where
  "contains_bytes [] subs = Ret True"
| "contains_bytes (b # bs) [] = Panic"
| "contains_bytes (b # bs) (s # subs) =
     (if list_ex (\<lambda>j. vaild s j \<and> \<not> vaild b j) [0..<8] then Ret False else contains_bytes bs subs)"

definition SlotsContains :: "bytes \<Rightarrow> bytes \<Rightarrow> bool outcome" where
  "SlotsContains b subslice = (if length b < length subslice then Ret False else contains_bytes b subslice)"

definition format_range :: "u32 \<Rightarrow> u32 \<Rightarrow> gostring" where
  "format_range start stop = (if start = stop then dec (unat start) else dec (unat start) @ str ''-'' @ dec (unat stop))"

fun format_slots :: "u32 \<Rightarrow> u32 \<Rightarrow> u32 list \<Rightarrow> gostring list" where
  "format_slots start prev [] = []"
| "format_slots start prev (slot # slots) =
     (let (done, start) = (if slot - prev \<noteq> 1 then ([format_range start prev], slot) else ([], start)) in
      done @ (if slots = [] then [format_range start slot] else []) @ format_slots start slot slots)"

definition FormatSlots :: "u32 list \<Rightarrow> gostring" where
  "FormatSlots slots = (case slots of [] \<Rightarrow> [] | s # ss \<Rightarrow> join_on 44 (format_slots s s ss))"

section \<open>A set of slots\<close>

definition slots_of :: "slotBitMap \<Rightarrow> nat set" where
  "slots_of s = {n. n div 8 < length (sb_bits s) \<and> bit (sb_bits s ! (n div 8)) (n mod 8)}"

lemma bit_pos: "bit (push_bit i 1 :: byte) j \<longleftrightarrow> j < 8 \<and> j = i"
  by (auto simp: bit_push_bit_iff bit_exp_iff)

lemma and_one_bit: "b AND push_bit j 1 \<noteq> (0 :: byte) \<longleftrightarrow> bit b j"
proof
  assume "b AND push_bit j 1 \<noteq> 0"
  then have "\<exists>n. bit (b AND push_bit j 1) n" by (metis bit_eq_iff bit_0_eq bot_apply bot_bool_def)
  then obtain n where "bit b n \<and> n < 8 \<and> n = j" unfolding bit_and_iff bit_pos by blast
  then show "bit b j" by blast
next
  assume b: "bit b j"
  then have "j < 8" using bit_imp_le_length [OF b] by simp
  with b have "bit (b AND push_bit j 1) j" by (simp only: bit_and_iff bit_pos)
  then show "b AND push_bit j 1 \<noteq> 0" by (metis bit_0_eq bot_apply bot_bool_def)
qed

lemma vaild_bit: "vaild b j \<longleftrightarrow> bit b j"
  by (simp add: vaild_def and_one_eq bit_iff_odd_drop_bit odd_iff_mod_2_eq_one)

lemma GetSlot_eq: "unat num div 8 < length (sb_bits s) \<Longrightarrow> GetSlot num s = Ret (unat num \<in> slots_of s)"
  unfolding GetSlot_def Let_def and_one_bit slots_of_def by simp

lemma bit_set_byte:
  "j < 8 \<Longrightarrow> bit ((b :: byte) OR push_bit i 1) j \<longleftrightarrow> bit b j \<or> j = i"
  "j < 8 \<Longrightarrow> bit (b AND NOT (push_bit i 1)) j \<longleftrightarrow> bit b j \<and> j \<noteq> i"
  by (auto simp only: bit_or_iff bit_and_iff bit_not_iff bit_pos simp_thms) (simp_all add: impossible_bit)

lemma slots_update:
  assumes "i < length (sb_bits s)" and "j < 8" and "\<And>k. k < 8 \<Longrightarrow> bit b k \<longleftrightarrow> (if k = j then v else bit (sb_bits s ! i) k)"
  shows "slots_of (s\<lparr>sb_bits := (sb_bits s)[i := b]\<rparr>) = (if v then insert (i * 8 + j) (slots_of s) else slots_of s - {i * 8 + j})"
proof (rule set_eqI)
  fix n
  have n: "n = i * 8 + j \<longleftrightarrow> n div 8 = i \<and> n mod 8 = j"
  proof
    assume "n = i * 8 + j"
    with assms(2) show "n div 8 = i \<and> n mod 8 = j" by simp
  next
    assume "n div 8 = i \<and> n mod 8 = j"
    then show "n = i * 8 + j" using div_mult_mod_eq [of n 8] by simp
  qed
  have "n \<in> slots_of (s\<lparr>sb_bits := (sb_bits s)[i := b]\<rparr>) \<longleftrightarrow>
      n div 8 < length (sb_bits s) \<and> (if n div 8 = i then (if n mod 8 = j then v else bit (sb_bits s ! i) (n mod 8)) else bit (sb_bits s ! (n div 8)) (n mod 8))"
    using assms(1) assms(3) [of "n mod 8"] by (simp add: slots_of_def nth_list_update)
  then show "n \<in> slots_of (s\<lparr>sb_bits := (sb_bits s)[i := b]\<rparr>) \<longleftrightarrow> n \<in> (if v then insert (i * 8 + j) (slots_of s) else slots_of s - {i * 8 + j})"
    using assms(1) by (cases "n div 8 = i"; cases "n mod 8 = j") (simp_all add: n slots_of_def)
qed

lemma SetSlot_eq:
  assumes "unat num div 8 < length (sb_bits s)"
  shows "\<exists>s'. SetSlot num v s = Ret s' \<and> length (sb_bits s') = length (sb_bits s) \<and>
    slots_of s' = (if v then insert (unat num) (slots_of s) else slots_of s - {unat num})"
proof -
  let ?i = "unat num div 8" and ?j = "unat num mod 8"
  let ?b = "if v then sb_bits s ! ?i OR push_bit ?j 1 else sb_bits s ! ?i AND NOT (push_bit ?j 1)"
  have "SetSlot num v s = Ret (s\<lparr>sb_bits := (sb_bits s)[?i := ?b]\<rparr>)" using assms by (simp add: SetSlot_def Let_def)
  moreover have "bit ?b k \<longleftrightarrow> (if k = ?j then v else bit (sb_bits s ! ?i) k)" if "k < 8" for k
    using bit_set_byte [OF that] by (cases v) auto
  ultimately show ?thesis
    using slots_update [OF assms, of ?j ?b v] by simp
qed

lemma SetSlotForRange_eq:
  assumes "unat end div 8 < length (sb_bits s)" and "end \<noteq> - 1"
  shows "\<exists>s'. SetSlotForRange i end v s = Some (Ret s') \<and>
    slots_of s' = (if v then slots_of s \<union> {unat i .. unat end} else slots_of s - {unat i .. unat end})"
  using assms(1)
proof (induction "unat end + 1 - unat i" arbitrary: i s)
  case 0
  then have "\<not> i \<le> end" by (simp add: word_le_nat_alt)
  with 0 show ?case by (subst SetSlotForRange.simps) auto
next
  case (Suc k)
  show ?case
  proof (cases "i \<le> end")
    case True
    have "i \<noteq> - 1" using True assms(2) by (metis word_order.extremum_unique)
    then have "1 + i \<noteq> 0" by (metis add_eq_0_iff)
    then have i1: "unat (i + 1) = unat i + 1" using unatSuc [of i] by (simp add: add.commute)
    have "unat i div 8 < length (sb_bits s)" using True Suc.prems by (meson div_le_mono le_less_trans word_le_nat_alt)
    from SetSlot_eq [OF this, of v] obtain s1 where s1: "SetSlot i v s = Ret s1" "length (sb_bits s1) = length (sb_bits s)"
      "slots_of s1 = (if v then insert (unat i) (slots_of s) else slots_of s - {unat i})" by blast
    have "k = unat end + 1 - unat (i + 1)" using Suc.hyps(2) i1 by simp
    from Suc.hyps(1) [OF this] Suc.prems s1(2) obtain s2 where s2: "SetSlotForRange (i + 1) end v s1 = Some (Ret s2)"
      "slots_of s2 = (if v then slots_of s1 \<union> {unat (i + 1) .. unat end} else slots_of s1 - {unat (i + 1) .. unat end})" by metis
    have "{unat i .. unat end} = insert (unat i) {unat (i + 1) .. unat end}"
      using True i1 by (auto simp: word_le_nat_alt)
    with True s1 s2 show ?thesis by (subst SetSlotForRange.simps) auto
  next
    case False
    then show ?thesis using Suc.hyps(2) by (simp add: word_le_nat_alt)
  qed
qed

section \<open>Where the functions fail\<close>

text \<open>A single slot is formatted as nothing.\<close>

lemma FormatSlots_single: "FormatSlots [slot] = []"
  by (simp add: FormatSlots_def)

text \<open>A bitmap does not contain a shorter one: asked for it, the function panics.\<close>

lemma SlotsContains_panics:
  assumes "length subslice < length b" and "\<And>i. i < length subslice \<Longrightarrow> subslice ! i = 0"
  shows "SlotsContains b subslice = Panic"
proof -
  have "contains_bytes b subslice = Panic" using assms
  proof (induction b subslice rule: contains_bytes.induct)
    case (3 b bs s subs)
    have "s = 0" using "3.prems"(2) [of 0] by simp
    moreover have "subs ! i = 0" if "i < length subs" for i using "3.prems"(2) [of "Suc i"] that by simp
    moreover have "\<not> list_ex (\<lambda>j. vaild 0 j \<and> \<not> vaild b j) [0..<8]" by (simp add: list_ex_iff vaild_def)
    ultimately show ?case using "3.IH" "3.prems"(1) by simp
  qed simp_all
  with assms(1) show ?thesis by (simp add: SlotsContains_def)
qed

end
