(* ===== verification/LibrarySamples.thy ===== *)
theory LibrarySamples
  imports MessageSamples KeyLock ClientProofs WebSocket Connz Bitmap
begin

text \<open>
  Concrete states of the client library and of the key locks, and the facts about them that instances of the
  properties need.
\<close>

section \<open>A client that logs in\<close>

definition sample_dial :: dial where
  "sample_dial = \<lparr>di_answer = Ret [], di_fails = (\<lambda>_. None), di_private = [], di_public = replicate 32 0, di_deviceID = [100], di_now = 0\<rparr>"

definition sample_client :: client where
  "sample_client = bindToNewConn sample_dial (New [] (NewOptions\<lparr>co_UID := [117]\<rparr>))"

definition sample_client_env :: client_env where
  "sample_client_env = \<lparr>ke_cipher = sample_cipher, ke_md5 = (\<lambda>_. replicate 16 0), ke_dh = (\<lambda>_ _. []),
     ke_onRecv = Some (\<lambda>_. None), ke_onSendack = False\<rparr>"

definition key_login :: login where
  "key_login = sample_login\<lparr>lg_public := replicate 32 7\<rparr>"

lemma key_login_simps [simp]:
  "lg_iv key_login = replicate 16 0" "lg_public key_login = replicate 32 7" "lg_private key_login = []" "lg_dh key_login = (\<lambda>_ _. [])"
  "lg_now key_login = 0"
  by (simp_all add: key_login_def sample_login_def)

lemma sample_client_simps [simp]:
  "cl_opts sample_client = NewOptions\<lparr>co_UID := [117]\<rparr>" "healthy (cl_writer sample_client)"
  by (simp_all add: sample_client_def bindToNewConn_def New_def healthy_def sample_dial_def)

definition client_connect :: ConnectPacket where
  "client_connect = Connect_view empty_framer (connect_packet sample_dial (NewOptions\<lparr>co_UID := [117]\<rparr>)) LatestVersion"

lemma client_connect_simps [simp]:
  "con_ClientKey client_connect = b64_encode (replicate 32 0)" "con_UID client_connect = [117]" "con_Version client_connect = 3"
  "con_ClientTimestamp client_connect = 0" "con_Token client_connect = []" "con_DeviceFlag client_connect = APP"
  by (simp_all add: client_connect_def Connect_view_def connect_packet_def sample_dial_def NewOptions_def)

lemma client_admitted:
  "\<exists>sv levels keys. processAuth login_world key_login 0 client_connect entering = Ret sv \<and> admit key_login client_connect levels keys 0 entering = Ret sv \<and>
    getClientAesKeyAndIV login_world key_login (b64_encode (replicate 32 0)) = Ret keys"
proof -
  have key: "\<not> blank (con_ClientKey client_connect)" unfolding client_connect_simps by code_simp
  have "verify_token login_world client_connect sample_fs = Ret (DeviceLevelSlave, 0)"
    by (simp add: verify_token_def login_world_def sample_world_def sample_options_def)
  moreover have "fs_GetChannel (wd_bolt login_world) js u ct sample_fs = Ret None" for js u ct
    by (simp add: fs_GetChannel_def login_world_def sample_world_def)
  moreover obtain keys where keys: "getClientAesKeyAndIV login_world key_login (b64_encode (replicate 32 0)) = Ret keys"
    using sample_key_length by (simp add: getClientAesKeyAndIV_def b64_roundtrip)
  moreover obtain sv where "admit key_login client_connect (DeviceLevelSlave, 0) keys 0 entering = Ret sv"
    by (simp add: admit_def entering_def GetConnsWith_def GetConnsWithUID_def NewConnManager_def List.map_filter_def Let_def)
  moreover have "nd_fs (sv_node entering) = sample_fs" by (simp add: entering_def)
  ultimately have "processAuth login_world key_login 0 client_connect entering = Ret sv" using key
    by (cases keys) (simp add: processAuth_def)
  with \<open>admit key_login _ _ _ _ _ = Ret sv\<close> keys show ?thesis by blast
qed

lemma login_md5: "wd_md5 login_world = ke_md5 sample_client_env" "wd_cipher login_world = ke_cipher sample_client_env"
  unfolding login_world_def sample_client_env_def sample_world_def by simp_all

text \<open>The client reads the answer and has the keys.\<close>

lemma sample_handshake:
  "\<exists>sv c. handshake login_world key_login sample_client_env sample_dial 0 entering sv sample_client c \<and> healthy (cl_writer c)"
proof -
  obtain sv levels keys where sv: "processAuth login_world key_login 0 client_connect entering = Ret sv"
    "admit key_login client_connect levels keys 0 entering = Ret sv"
    "getClientAesKeyAndIV login_world key_login (b64_encode (replicate 32 0)) = Ret keys" using client_admitted by blast
  let ?k = "connack_of key_login client_connect (snd keys)"
  have v: "co_ProtoVersion (cl_opts sample_client) = 3" by (simp add: NewOptions_def)
  have iv: "snd keys = replicate 16 0" using sv(3) by (auto simp: getClientAesKeyAndIV_def bindR_eq_Ret Let_def split: if_splits)
  have "length (b64_encode (lg_public key_login)) = 44" by (simp add: b64_length)
  then have w: "wellformed 3 (FConnack ?k)" by (simp add: iv connack_of_def wellformed_def Connack_fits_def encodeConnackSize_def)
  have "session_keys sample_client_env (di_private sample_dial) ?k = Ret keys"
    by (rule same_keys) (use sv(3) login_md5 in \<open>simp_all add: sample_dial_def sample_client_env_def\<close>)
  with sendConnect_works [OF sample_client_simps(2) w [folded v], of sample_client_env sample_dial keys "[]"] obtain c where
    c: "sendConnect sample_client_env sample_dial (EncodeFrame (FConnack ?k) (co_ProtoVersion (cl_opts sample_client)) @ []) sample_client = (Ret [], c)"
    and healthy: "healthy (cl_writer c)"
    by (auto simp: connack_of_def simp del: EncodeFrame.simps)
  have cp: "Connect_view empty_framer (connect_packet sample_dial (cl_opts sample_client)) (co_ProtoVersion (cl_opts sample_client)) = client_connect"
    unfolding v client_connect_def by simp
  have "handshake login_world key_login sample_client_env sample_dial 0 entering sv sample_client c"
    unfolding handshake_def
  proof (intro conjI exI)
    show "processAuth login_world key_login 0 (Connect_view empty_framer (connect_packet sample_dial (cl_opts sample_client))
        (co_ProtoVersion (cl_opts sample_client))) entering = Ret sv" unfolding cp by (rule sv(1))
    show "last (nd_out (sv_node sv)) = (0, [FConnack ?k])" by (rule admit_answers(1) [OF sv(2)])
    show "wellformed (co_ProtoVersion (cl_opts sample_client)) (FConnack ?k)" unfolding v by (rule w)
    show "sendConnect sample_client_env sample_dial (EncodeFrame (FConnack ?k) (co_ProtoVersion (cl_opts sample_client)) @ []) sample_client =
        (Ret [], c)" by (rule c)
  qed (simp_all add: login_md5, simp_all add: sample_dial_def sample_client_env_def)
  with healthy show ?thesis by blast
qed

section \<open>Two threads and one key\<close>

lemma sample_locks: "\<exists>s. lock_reachable s \<and> ls_pc s 0 = Holding [99] 0 \<and> ls_pc s 1 = Waiting [99] 0"
proof -
  let ?s0 = "\<lparr>ls_lock = NewKeyLock, ls_pc = (\<lambda>_. Outside)\<rparr>"
  let ?s1 = "moved 0 (Missed [99]) NewKeyLock ?s0"
  let ?l2 = "snd (Lock_write [99] NewKeyLock)"
  let ?s2 = "moved 0 (Waiting [99] 0) ?l2 ?s1"
  let ?s3 = "moved 0 (Holding [99] 0) (set_locked 0 True ?l2) ?s2"
  let ?l4 = "il_add 0 (set_locked 0 True ?l2)"
  let ?s4 = "moved 1 (Waiting [99] 0) ?l4 ?s3"
  have 1: "lock_step ?s0 ?s1" by (rule lock_step.not_found) (simp_all add: Lock_read_None NewKeyLock_def)
  have 2: "lock_step ?s1 ?s2" by (rule lock_step.inserted) (simp_all add: moved_def Lock_write_new NewKeyLock_def)
  have 3: "lock_step ?s2 ?s3" using lock_step.acquire [of ?s2 0 "[99]" 0] by (simp add: moved_def Lock_write_new NewKeyLock_def)
  have 4: "lock_step ?s3 ?s4"
    by (rule lock_step.found) (simp_all add: moved_def Lock_read_Some Lock_write_new NewKeyLock_def set_locked_def)
  from lock_reachable.step [OF lock_reachable.step [OF lock_reachable.step [OF lock_reachable.step [OF lock_reachable.start 1] 2] 3] 4]
  show ?thesis by (intro exI [of _ ?s4] conjI) (simp_all add: moved_def)
qed

end
