(* ===== verification/Spec2Isabelle.thy ===== *)
theory Spec2Isabelle
  imports LibrarySamples
begin

text \<open>
  A model of the instant messaging server and the properties that make it correct.

  The program. Clients speak a binary protocol (\<^verbatim>\<open>pkg/proto\<close>) over TCP or websockets. The network
  engine (\<^verbatim>\<open>pkg/oknet\<close>) collects the bytes of a connection in ring buffers; the dispatcher
  (\<^verbatim>\<open>internal/server/dispatch.go\<close>) cuts them into frames and hands them to the processor
  (\<^verbatim>\<open>processor.go\<close>), which authenticates connections and processes frames of one kind together.
  SEND packets go to a channel (\<^verbatim>\<open>channel.go\<close>, \<^verbatim>\<open>channel_manager.go\<close>): the permission is
  checked, the payload decrypted, the message stored in the channel's log (\<^verbatim>\<open>pkg/okstore\<close>) and
  delivered to the subscribers' connections (\<^verbatim>\<open>delivery_manager.go\<close>); what is not acknowledged
  stays in the retry queue (\<^verbatim>\<open>retry_queue.go\<close>). Everything else is kept in a key-value store
  (\<^verbatim>\<open>pkg/okstore/filestore.go\<close> over bbolt).

  The theories, from the bottom up:

  \<^item> \<open>Prelude\<close>: bytes, Go's fixed-width integers, results of Go functions (\<open>outcome\<close>: a value, an
    error, or a panic), slices. \<open>GoStrings\<close>: decimal numbers, splitting and joining. \<open>Json\<close>: JSON values;
    the codec is a parameter.
  \<^item> \<open>Wire\<close>, \<open>Frames\<close>, \<open>Packets\<close>, \<open>Protocol\<close>, \<open>Unpack\<close>: the codec of every packet, the frames around
    them, and the cutting of a stream into frames by server and client. \<open>reads\<close> says what
    a decoder does with what its encoder wrote, so that each packet's round trip is a composition of its fields.
  \<^item> \<open>InFlight\<close>, \<open>RetryQueue\<close>: the heap of messages in flight and the queue around it.
  \<^item> \<open>Messages\<close>, \<open>LogFile\<close>, \<open>SegmentIndex\<close>, \<open>Segment\<close>, \<open>Topic\<close>, \<open>MessageStore\<close>: the message log, from
    the record codec over index and segment files with crash recovery to the topics of channels and users.
    A file is the list of its bytes.
  \<^item> \<open>KVStore\<close>, \<open>StoreTables\<close>, \<open>Streams\<close>: the tables over the key-value database, which is a record of
    functions with the laws \<open>bolt_ok\<close>; streams of message parts in files of their own.
  \<^item> \<open>ServerCommon\<close>, \<open>Channels\<close>, \<open>ChannelStore\<close>: channels, who may send to them and who receives from them, the
    manager's caches, and their loading from the store.
  \<^item> \<open>RingBuffer\<close>, \<open>NetConn\<close>, \<open>ConnManager\<close>, \<open>ConnContext\<close>: the buffers of a connection, the table of
    connections, flow control.
  \<^item> \<open>Crypto\<close>, \<open>Sending\<close>: payload encryption, and the way of a SEND packet through the server.
  \<^item> \<open>Delivery\<close>: the jobs that carry messages to connections, and the scans that try again.
  \<^item> \<open>Auth\<close>, \<open>Dispatch\<close>: the state of the whole server; logging in and leaving; from the bytes of a
    connection to the handlers of its frames, and back to its outbound buffer.
  \<^item> \<open>Conversations\<close>, \<open>ConversationSteps\<close>: the recent conversations of each user, their counts, and what of
    them is saved, in every order of the operations.
  \<^item> \<open>ApiBase\<close>, \<open>ChannelApi\<close>: the handlers of the HTTP interface as computations that change the server and
    may end early; the administration of channels (\<^verbatim>\<open>api_channel.go\<close>). \<open>ChannelLists\<close>,
    \<open>ChannelAgreement\<close>, \<open>ChannelApiProofs\<close>, \<open>ChannelRequests\<close>: the store and the manager's cache agree
    about the lists of every channel, in every order of requests. \<open>UserApi\<close>: tokens, forced logouts, system
    accounts and blocked addresses (\<^verbatim>\<open>api_user.go\<close>, \<^verbatim>\<open>api_system.go\<close>).
  \<^item> \<open>MessageResp\<close>: the messages as applications see them (\<^verbatim>\<open>model.go\<close>). \<open>MessageApi\<close>,
    \<open>ConversationApi\<close>, \<open>MessageApiProofs\<close>: sending, synchronising and acknowledging messages, and the
    conversations of a user, over HTTP (\<^verbatim>\<open>api_message.go\<close>, \<^verbatim>\<open>api_conversation.go\<close>).
  \<^item> \<open>Webhook\<close>: the reports to the application, its notify queue, the online status and the offline
    messages (\<^verbatim>\<open>webbhook.go\<close>). \<open>Datasource\<close>: asking the application for the members of a channel
    (\<^verbatim>\<open>datasource.go\<close>).
  \<^item> \<open>ClientLib\<close>, \<open>ClientProofs\<close>: the Go client (\<^verbatim>\<open>pkg/client\<close>): its writer and reader, options, connecting and
    the handshake, sending and receiving, pings, reconnecting; and the sessions of a client with the server.
  \<^item> \<open>WebSocket\<close>: a connection over a websocket (\<^verbatim>\<open>pkg/oknet/websocket.go\<close>). \<open>Connz\<close>: the list of connections
    for the monitoring (\<^verbatim>\<open>api_connz.go\<close>). \<open>Bitmap\<close>: the bitmap of slots (\<^verbatim>\<open>pkg/okutil/bitmap.go\<close>).
  \<^item> \<open>KeyLock\<close>: the locks by key (\<^verbatim>\<open>pkg/keylock\<close>), with the calls of any number of threads interleaved.
  \<^item> \<open>Samples\<close>, \<open>ServerSamples\<close>, \<open>RuntimeSamples\<close>, \<open>ApiSamples\<close>, \<open>MessageSamples\<close>, \<open>LibrarySamples\<close>: concrete states to which the properties are applied.

  What the lemmas show. A decoder gives back what its encoder wrote and waits for what is incomplete; a log
  answers exactly the messages that were appended, also after a crash; a queue, a ring or a table keeps its
  invariant under every operation and refines a simple object (a map, a queue of bytes, a set of names); a
  packet is answered once, a message delivered to every connection and readable there, an acknowledgement
  settles its message, and attempts end; client and server of a session read what the other has sent. Some lemmas show
  where the code fails to do so, or loses what it should keep.

  How the code corresponds to the model. Functions keep their Go names; a name that two Go types share,
  or that is taken, carries a prefix or suffix. A method that changes its receiver returns the changed
  record. Pointers are addresses into a heap where sharing matters (messages in flight, connections).
  A Go panic is a value: the server has no recover around its workers, so it ends the process (in a handler
  of the HTTP interface it ends the request). Maps are
  functions, and the order in which Go ranges over one is an argument. Loops are structural recursions or
  functions with a measure; the loops that may run forever are partial functions, whose result \<open>None\<close>
  means that they do, and the properties say when they return. No fuel is used. Machine integers are
  words of their width; Go's \<open>int\<close> is an integer or a natural number where it cannot overflow.

  The interfaces are locales: \<open>packet_codec\<close> and \<open>framed_codec\<close> for what framing needs of a packet,
  \<open>min_queue\<close> for what the retry queue needs of its heap, \<open>message_log\<close> for what a topic needs of a segment,
  \<open>name_list\<close> for the lists of a channel in the store, \<open>byte_queue\<close> for the buffers of a connection. Each is
  interpreted on the model's own definitions.

  Parameters, each with the laws that its documentation states: the database (\<open>bolt_ok\<close>; \<open>bolt_numbers\<close> says
  that the numbers it gives out only increase), the JSON codec (\<open>json_ok\<close>), the block cipher (\<open>cipher_ok\<close>), the hash (\<open>md5_ok\<close>), the LRU cache of conversations
  (\<open>lru_ok\<close>), the buffer pool (\<open>pool_ok\<close>), the sort function (\<open>sort_ok\<close>), the websocket library. Time, random numbers, UUIDs, the Diffie-Hellman key, the URL parser,
  the answers of the kernel and those of the application to HTTP and gRPC requests are arguments.

  Not modelled: system calls, sockets, the event loops, TLS (a copy of Go's library) and websockets over it, the
  parsing of HTTP requests (the handlers take what was read from the body, or the error), the HTTP and
  gRPC clients (the bytes sent to the application and its answers are values), the waiting between the
  rounds of a background loop, metrics, logging, configuration and start-up. Operations run one at a time; that the locks by key make
  them do so is the subject of \<open>KeyLock\<close>, and a lemma of \<open>ConnContext\<close> shows what a lock of the wrong kind allows.
\<close>

section \<open>The wire protocol\<close>

text \<open>C11: \<open>DecodeFrame\<close> reads back a well-formed frame that \<open>EncodeFrame\<close> wrote, whatever follows it in the
  buffer, and consumes exactly its bytes: the packet that arrives is the view that protocol version
  \<open>v\<close> carries of the packet that was sent. Well-formed are frames whose strings have fewer than
  32768 bytes and whose body is not larger than the limit of 1 MiB.\<close>

theorem frame_decodes:
  assumes "wellformed v f"
  shows "DecodeFrame (EncodeFrame f v @ rest) v =
    Ret (Some (arrived f v (length (EncodeFrame f v) + length rest)), length (EncodeFrame f v))"
  using assms by (rule DecodeFrame_EncodeFrame)

theorem frame_decodes_witness:
  "DecodeFrame (EncodeFrame (FRecvack sample_recvack) 3 @ [1]) 3 =
    Ret (Some (arrived (FRecvack sample_recvack) 3 15), 14)"
  using frame_decodes [OF wellformed_samples(2), of "[1]"] by (simp del: EncodeFrame.simps)

text \<open>A frame of which only a proper prefix has arrived is not decoded: \<open>DecodeFrame\<close> reports no
  frame and consumes nothing.\<close>

theorem frame_prefix_waits:
  assumes "wellformed v f" and "0 < k" and "k < length (EncodeFrame f v)"
  shows "DecodeFrame (take k (EncodeFrame f v)) v = Ret (None, 0)"
  using assms by (rule DecodeFrame_incomplete)

theorem frame_prefix_waits_witness:
  "DecodeFrame (take 5 (EncodeFrame (FRecvack sample_recvack) 3)) 3 = Ret (None, 0)"
  using frame_prefix_waits [OF wellformed_samples(2), of 5] by (simp del: EncodeFrame.simps)

text \<open>Reading a frame from a connection gives the same frame (but for the sizes that only
  \<open>DecodeFrame\<close> fills in) and leaves the connection just behind it.\<close>

theorem conn_reads_frame:
  assumes "wellformed v f"
  shows "DecodePacketWithConn (EncodeFrame f v @ rest) v = Ret (arrived_conn f v, rest)"
  using assms by (rule DecodePacketWithConn_EncodeFrame)

theorem conn_reads_frame_witness:
  "DecodePacketWithConn (EncodeFrame (FSend sample_send) 3 @ [7]) 3 = Ret (arrived_conn (FSend sample_send) 3, [7])"
  using conn_reads_frame [OF wellformed_samples(1)] .

text \<open>C30: The size functions that pre-compute the length field agree with what the encoders write:
  a frame is one header byte, the variable-length size, and exactly as many bytes as the size says.\<close>

theorem frame_size_exact:
  "length (EncodeFrame f v) =
     (if GetFrameType f = PING \<or> GetFrameType f = PONG then 1
      else 1 + length (encodeVariable2 (word_of_nat (body_size f v))) + body_size f v)"
  by (rule length_EncodeFrame)

text \<open>The reason of a DISCONNECT packet of 32768 bytes or more, but fewer than 65536, is written without complaint, and
  decoding the frame panics: the decoder reads the length as a negative number and slices with it.\<close>

theorem long_reason_panics:
  assumes "32768 \<le> length r" and "length r < 65536"
  shows "DecodeFrame (EncodeFrame (FDisconnect \<lparr>dis_Framer = fr, dis_ReasonCode = c, dis_Reason = r\<rparr>) v) v = Panic"
  using DecodeFrame_long_reason [of "\<lparr>dis_Framer = fr, dis_ReasonCode = c, dis_Reason = r\<rparr>"] assms by simp

theorem long_reason_panics_witness:
  "DecodeFrame (EncodeFrame (FDisconnect
     \<lparr>dis_Framer = empty_framer, dis_ReasonCode = 1, dis_Reason = replicate 40000 65\<rparr>) 3) 3 = Panic"
  by (rule long_reason_panics) simp_all

section \<open>Cutting the stream into frames\<close>

text \<open>C26: Of a stream of complete frames and the beginning of one more, the server's and the client's
  cutter hand over exactly the complete frames and keep the rest.\<close>

theorem stream_cut:
  assumes "list_all (wellformed v) fs" and "wellformed v g" and "k < length (EncodeFrame g v)"
  shows "gnetUnpacket (concat (map (\<lambda>f. EncodeFrame f v) fs) @ take k (EncodeFrame g v)) =
      concat (map (\<lambda>f. EncodeFrame f v) fs) \<and>
    cli_gnetUnpacket (concat (map (\<lambda>f. EncodeFrame f v) fs) @ take k (EncodeFrame g v)) =
      (concat (map (\<lambda>f. EncodeFrame f v) fs), take k (EncodeFrame g v))"
  using gnetUnpacket_complete [OF assms] by (simp add: cli_gnetUnpacket_eq del: EncodeFrame.simps)

theorem stream_cut_witness:
  "gnetUnpacket (concat (map (\<lambda>f. EncodeFrame f 3) [FSend sample_send]) @ take 3 (EncodeFrame (FRecvack sample_recvack) 3)) =
    concat (map (\<lambda>f. EncodeFrame f 3) [FSend sample_send])"
  using stream_cut [of 3 "[FSend sample_send]" "FRecvack sample_recvack" 3] by (simp del: EncodeFrame.simps)

text \<open>C31: The client's second cutter, \<open>parse\<close>, which copies byte by byte, agrees with
  \<open>gnetUnpacket\<close> on every buffer.\<close>

theorem parse_equals_cutter: "parse buff = cli_gnetUnpacket buff"
  by (rule parse_eq_gnetUnpacket)

text \<open>C32: On a buffer of complete frames the client's frame loop ends and delivers the frames in order.\<close>

theorem client_loop_delivers:
  assumes "list_all (wellformed v) fs"
  shows "decode_packets (concat (map (\<lambda>f. EncodeFrame f v) fs)) v 0 [] =
    Some (Ret (map Some (deliveries fs v (length (concat (map (\<lambda>f. EncodeFrame f v) fs))))))"
  using decode_packets_frames [OF assms, of "[]"] by simp

theorem client_loop_delivers_witness:
  "decode_packets (concat (map (\<lambda>f. EncodeFrame f 3) [FRecvack sample_recvack, FSend sample_send])) 3 0 [] =
    Some (Ret (map Some (deliveries [FRecvack sample_recvack, FSend sample_send] 3
      (length (concat (map (\<lambda>f. EncodeFrame f 3) [FRecvack sample_recvack, FSend sample_send]))))))"
  using client_loop_delivers [of 3 "[FRecvack sample_recvack, FSend sample_send]"] by (simp del: EncodeFrame.simps)

text \<open>The client's frame loop runs forever on a frame of the unknown type, here one of three bytes: the decoder
  answers no frame and no progress, and the loop goes on.\<close>

theorem client_loop_diverges: "decode_packets [0, 1, 170] v 0 [] = None"
  using decode_packets_stuck [of 0 "[0, 1, 170]" v] DecodeFrame_unknown by simp

section \<open>Messages in flight\<close>

text \<open>C15: A scan of the retry queue at time \<open>t\<close> takes out exactly the messages that are due, keeps
  every other one queued with its due time, and keeps queue and table in agreement.\<close>

theorem retry_scan:
  assumes "rq_full heap r"
  shows "rq_full heap (snd (processInFlightQueue heap t r)) \<and>
    mset (pq_items (inFlightPQ r)) =
      mset (fst (processInFlightQueue heap t r)) +
      mset (pq_items (inFlightPQ (snd (processInFlightQueue heap t r)))) \<and>
    due_at (snd (processInFlightQueue heap t r)) = due_at r \<and>
    (\<forall>x \<in> set (fst (processInFlightQueue heap t r)). due_at r x \<le> t) \<and>
    (\<forall>y. in_queue y (snd (processInFlightQueue heap t r)) \<longrightarrow> t < due_at r y)"
  using assms by (rule processInFlightQueue_full)

theorem retry_scan_witness:
  "{#3#} = mset (fst (processInFlightQueue sample_heap 20 sample_retry)) +
     mset (pq_items (inFlightPQ (snd (processInFlightQueue sample_heap 20 sample_retry))))"
  using retry_scan [OF sample_retry_full, of 20] by simp

text \<open>C28: Acknowledging a message takes exactly that message out of the queue and out of the table,
  wherever it stands in the heap, and leaves the due times of the others unchanged; an
  acknowledgement of a message that is not in flight is an error.\<close>

theorem acknowledge:
  assumes "rq_full heap r"
  shows "case finishMessage u d m r of
      Ret r' \<Rightarrow> (\<exists>x. inFlightMessages r (getInFlightKey u d m) = Some x \<and>
        mset (pq_items (inFlightPQ r)) = add_mset x (mset (pq_items (inFlightPQ r')))) \<and>
        inFlightMessages r' = (inFlightMessages r)(getInFlightKey u d m := None) \<and>
        due_at r' = due_at r \<and> rq_full heap r'
    | Fail e \<Rightarrow> inFlightMessages r (getInFlightKey u d m) = None
    | Panic \<Rightarrow> False"
proof (cases "finishMessage u d m r")
  case (Ret r')
  from assms have "rq_invar heap r" by (simp add: rq_full_def)
  from finishMessage_cases [OF this Ret] obtain x where
    "inFlightMessages r (getInFlightKey u d m) = Some x"
    "mset (pq_items (inFlightPQ r)) = add_mset x (mset (pq_items (inFlightPQ r')))"
    "due_at r' = due_at r" "inFlightMessages r' = (inFlightMessages r)(getInFlightKey u d m := None)" .
  with rq_full_finish [OF assms Ret] show ?thesis
    unfolding Ret outcome.case by blast
qed (auto simp: finishMessage_def popInFlightMessage_def Let_def split: option.splits)

theorem acknowledge_witness:
  "case finishMessage [] [] 0 sample_retry of Ret r' \<Rightarrow> rq_full sample_heap r' | Fail e \<Rightarrow> False | Panic \<Rightarrow> False"
  using acknowledge [OF sample_retry_full, of "[]" "[]" 0] by (simp split: outcome.splits)

section \<open>Stored messages\<close>

text \<open>C29: What the log keeps of a message is read back from its record: everything but its message key,
  its topic and the client's sequence number, and the stream fields unless the message is a stream.\<close>

theorem message_record:
  assumes "storable m" and "length (MarshalMessage 1 m) < 2 ^ 32"
  shows "Message_Decode (Message_Encode m) = Ret (stored m)"
  using assms by (rule Message_Decode_Encode)

theorem message_record_witness:
  "Message_Decode (Message_Encode (sample_message 4)) = Ret (stored (sample_message 4))"
  by (rule message_record) (use loggable_sample [of 4] in \<open>simp_all add: loggable_def\<close>)

text \<open>\<open>Lookup\<close>, a binary search that first looks among the newest entries, returns the last entry
  of the index whose sequence number does not exceed the target, or the base when there is none.\<close>

theorem index_lookup:
  assumes "index_sorted idx"
  shows "(\<forall>j < ix_count idx. target < seq_at idx j) \<and>
      Lookup idx target = \<lparr>sp_MessageSeq = ix_baseMessageSeq idx, sp_Position = 0\<rparr> \<or>
    (\<exists>i < ix_count idx. Lookup idx target = parseEntry idx i \<and> seq_at idx i \<le> target \<and>
      (\<forall>j < ix_count idx. i < j \<longrightarrow> target < seq_at idx j))"
  by (rule Lookup_cases [OF assms, of target]) blast+

theorem index_lookup_witness:
  "Lookup (sample_index 7) 9 = \<lparr>sp_MessageSeq = 7, sp_Position = 0\<rparr>"
  using index_lookup [of "sample_index 7" 9] by (auto simp: index_sorted_def sample_index_def)

text \<open>C27: Appending a batch to a segment keeps the segment correct: the file holds the old records and
  the new ones, the index names records in order, and the new messages are what a read from the
  first of their numbers returns.\<close>

theorem segment_append_read:
  assumes "seg_ok s ms" and "appendable s ms msgs" and "msgs \<noteq> []"
  shows "seg_ok (snd (segment_appendMessages msgs s)) (ms @ msgs) \<and>
    segment_readMessages (GetSeq (hd msgs)) limit (snd (segment_appendMessages msgs s)) =
      (map stored (take limit msgs), Ret ())"
  using seglog.append_ok [OF assms(1,2)] seglog.read_appended [OF assms] by simp

theorem segment_append_read_witness:
  "segment_readMessages 2 5 (snd (segment_appendMessages [sample_message 2] sample_segment)) =
    ([stored (sample_message 2)], Ret ())"
  using segment_append_read [OF sample_segment_ok sample_segment_room, of 5] by simp

text \<open>C13: Opening a segment whose last write was interrupted, anywhere in a record behind the first one, cuts the
  partial record off and finds the last number, whatever the index knows, in a file of less than 4 GiB, unless the file is larger than a maximal message
  and happens to end in the end marker; a clean file opens correctly in every case. An interrupted first record
  is not covered.\<close>

theorem segment_recovers:
  assumes "torn_tail tail" and "ms = [] \<longrightarrow> tail = []"
    and "index_ok idx base ms" and "on_disk base ms" and "length (concat (map Message_Encode ms) @ tail) < 2 ^ 32"
    and "tail = [] \<or> \<not> trusts eachMax (concat (map Message_Encode ms) @ tail)"
  shows "\<exists>s. segment_init eachMax (newSegment base (concat (map Message_Encode ms) @ tail) idx) = Ret s \<and>
    seg_ok s ms \<and> sg_lastMsgSeq s = base + word_of_nat (length ms)"
  by (rule segment_init_ok [OF assms]) blast

theorem segment_recovers_witness:
  "\<exists>s. segment_init 2097152 (newSegment 0 (Message_Encode (sample_message 1) @ take 30 (Message_Encode (sample_message 2)))
      (sample_index 0)) = Ret s \<and> seg_ok s [sample_message 1] \<and> sg_lastMsgSeq s = 1"
  using segment_recovers [OF sample_tail, of "[sample_message 1]" "sample_index 0" 0 2097152]
  by (simp add: trusts_def getMinMessageLen_def)

text \<open>A segment file that holds nothing but an interrupted first record is emptied when it is
  opened, but the segment still reports the old size, and reading it fails with end of file.\<close>

theorem torn_first_record:
  assumes "torn_tail tail" and "tail \<noteq> []" and "\<not> trusts eachMax tail" and "length tail < 2 ^ 32"
  shows "\<exists>s. segment_init eachMax (newSegment base tail (NewIndex base slots 0)) = Ret s \<and>
    sg_file s = [] \<and> getFileSize s = length tail \<and> segment_readMessages base 1 s = ([], Fail ErrEOF)"
  using torn_first [OF assms] by blast

theorem torn_first_record_witness:
  "\<exists>s. segment_init 2097152 (newSegment 0 (take 30 (Message_Encode (sample_message 2))) (NewIndex 0 empty_slots 0)) = Ret s \<and>
    sg_file s = [] \<and> getFileSize s = 30 \<and> segment_readMessages 0 1 s = ([], Fail ErrEOF)"
  using torn_first_record [OF sample_tail, of 2097152 0 empty_slots] by (simp add: trusts_def getMinMessageLen_def)

section \<open>Channel logs\<close>

text \<open>A topic numbers the messages of a batch consecutively from its last number on, stores them in
  its active segment, and stays correct.\<close>

theorem topic_append:
  assumes "topic_ok t (segs @ [(b, ms)])" and "batch_fits cfg t b ms msgs" and "\<not> active_full cfg t"
  shows "\<exists>t' msgs'. topic_appendMessages cfg msgs t = (Ret (map GetSeq msgs', length (concat (map Message_Encode msgs))), msgs', t') \<and>
    (\<forall>i < length msgs. msgs' ! i = SetSeq (tp_lastMsgSeq t + word_of_nat (i + 1)) (msgs ! i)) \<and>
    length msgs' = length msgs \<and> topic_ok t' (segs @ [(b, ms @ msgs')])"
  using topic_appendMessages_ok [OF assms refl] assign_seqs_nth [of _ msgs "tp_lastMsgSeq t"]
  by (metis assign_seqs_simps(1))

theorem topic_append_witness:
  "\<exists>t' msgs'. topic_appendMessages sample_config [sample_message 0] sample_topic = (Ret (map GetSeq msgs', 58), msgs', t') \<and>
    topic_ok t' [(0, sample_message 1 # msgs')]"
  using topic_append [of sample_topic "[]" 0 "[sample_message 1]" sample_config "[sample_message 0]"] by auto

text \<open>C12: Reading a topic from any number on returns the stored messages that are not before it, in
  order and across segments, up to the limit; it does not matter which segments are open.\<close>

theorem topic_read:
  assumes "topic_ok t segs"
  shows "\<exists>t'. topic_readMessages cfg target limit (evict c t) =
      Some (map stored (take limit (filter (\<lambda>m. target \<le> GetSeq m) (messages_of segs))), Ret (), t') \<and>
    topic_ok t' segs"
  using topic_readMessages_ok [OF evict_ok [OF assms], of cfg target limit c] by blast

theorem topic_read_witness:
  "\<exists>t'. topic_readMessages sample_config 1 5 (evict 0 sample_topic) = Some ([stored (sample_message 1)], Ret (), t')"
  using topic_read [OF sample_topic_ok, of sample_config 1 5 0] by auto

text \<open>C33: A batch that finds the active segment full is lost: the topic rolls to a new, empty segment,
  which closes the old one, and the write to the old one fails, although the numbers are used up.\<close>

theorem topic_roll_loses_batch:
  assumes "topic_ok t (segs @ [(b, ms)])" and "active_full cfg t" and "msgs \<noteq> []"
    and "unat b + length ms + length msgs < 2 ^ 32"
    and "\<And>c. b < c \<Longrightarrow> tp_cache t c = None \<and> tp_files t c = None"
  shows "\<exists>t'. topic_appendMessages cfg msgs t =
      (Fail (ErrWrap ''log write failed'' (ErrMsg ''file already closed'')), assign_seqs (tp_lastMsgSeq t) msgs, t') \<and>
    topic_ok t' (segs @ [(b, ms), (b + word_of_nat (length ms + length msgs), [])])"
  by (rule topic_appendMessages_roll [OF assms]) auto

theorem topic_roll_loses_batch_witness:
  "\<exists>t'. topic_appendMessages tiny_config [sample_message 0] sample_topic =
      (Fail (ErrWrap ''log write failed'' (ErrMsg ''file already closed'')), [sample_message 2], t') \<and>
    topic_ok t' [(0, [sample_message 1]), (2, [])]"
  using topic_roll_loses_batch [of sample_topic "[]" 0 "[sample_message 1]" tiny_config "[sample_message 0]", OF _ _ _ _ sample_fresh]
  by simp

text \<open>The bubble sort of the segment bases sorts.\<close>

theorem segment_bases_sorted: "sortSegmentBaseMessageSeqs xs = sort xs"
  by (rule sortSegmentBaseMessageSeqs_sort)

text \<open>Loading backwards from \<open>start\<close> returns, in ascending order, the stored messages whose numbers
  lie above \<open>start - limit\<close> and up to \<open>start\<close>, and above the end if one is given.\<close>

theorem load_prev:
  assumes "holds cfg st c ct [(0, ms)]" and "start \<noteq> 0" and "limit < 2 ^ 32" and "0 < limit"
  shows "\<exists>st'. LoadPrevRangeMsgs cfg c ct start en limit st =
      Some (Ret (filter (\<lambda>m. en = 0 \<or> en < GetSeq m) (map stored
        (filter (\<lambda>m. unat start < unat (GetSeq m) + limit \<and> GetSeq m \<le> start) ms))), st') \<and>
    holds cfg st' c ct [(0, ms)]"
  by (rule LoadPrevRangeMsgs_ok [OF assms, of en]) blast

theorem load_prev_witness:
  "\<exists>st'. LoadPrevRangeMsgs sample_config [7] 2 1 0 10 sample_store = Some (Ret [stored (sample_message 1)], st')"
  using load_prev [OF sample_holds, of 1 10 "[7]" 2 0] by auto

text \<open>Loading forwards from \<open>start\<close> returns the stored messages from that number on, up to the
  limit, without those at or behind the end if one is given.\<close>

theorem load_next:
  assumes "holds cfg st c ct segs"
  shows "\<exists>st'. LoadNextRangeMsgs cfg c ct start en limit st =
      Some (Ret (filter (\<lambda>m. en = 0 \<or> GetSeq m < en)
        (map stored (take limit (filter (\<lambda>m. start \<le> GetSeq m) (messages_of segs))))), st') \<and>
    holds cfg st' c ct segs"
  by (rule LoadNextRangeMsgs_ok [OF assms, of start en limit]) blast

theorem load_next_witness:
  "\<exists>st'. LoadNextRangeMsgs sample_config [7] 2 1 0 10 sample_store = Some (Ret [stored (sample_message 1)], st')"
  using load_next [OF sample_holds, of "[7]" 2 1 0 10] by auto

text \<open>Loading the last messages of a channel returns the last \<open>limit\<close> of them, or all if there are fewer.\<close>

theorem load_last:
  assumes "holds cfg st c ct [(0, ms)]" and "0 < limit" and "limit < 2 ^ 32"
  shows "\<exists>st'. LoadLastMsgs cfg c ct limit st = Some (Ret (map stored (drop (length ms - limit) ms)), st') \<and>
    holds cfg st' c ct [(0, ms)]"
  by (rule LoadLastMsgs_ok [OF assms]) blast

theorem load_last_witness:
  "\<exists>st'. LoadLastMsgs sample_config [7] 2 10 sample_store = Some (Ret [stored (sample_message 1)], st')"
  using load_last [OF sample_holds, of 10 "[7]" 2] by auto

section \<open>Connections\<close>

text \<open>C36: The buffer of a connection is a queue of bytes: writing appends all bytes, wherever the two
  ends of the ring stand and however often it grows; peeking shows the first bytes in two pieces;
  discarding and reading remove them from the front. A write cannot fail while sizes stay in range.\<close>

theorem buffer_refines_queue:
  assumes "pool_ok pool" and "fresh_ok fresh" and "el_ok b"
    and "rb_size (el_instance fresh b) + length p \<le> 2 ^ 62" and "0 < k"
  shows "(\<exists>b'. el_Write fresh pool p b = Ret (length p, b') \<and> el_ok b' \<and> el_contents b' = el_contents b @ p) \<and>
    (\<exists>hd tl. el_Peek n b = Ret (hd, tl) \<and> hd @ tl = (if n \<le> 0 then el_contents b else take (nat n) (el_contents b))) \<and>
    el_ok (snd (el_Discard n b)) \<and> el_contents (snd (el_Discard n b)) = drop (nat n) (el_contents b) \<and>
    el_ok (snd (el_Read k b)) \<and> el_contents (snd (el_Read k b)) = drop k (el_contents b) \<and>
    fst (el_Read k b) = (if el_contents b = [] then Fail ErrIsEmpty else Ret (take k (el_contents b)))"
  using el_Write_total [OF assms(1-4)] el_Peek_ok [OF assms(3), of n] el_Discard_ok [OF assms(3), of n]
    el_Read_ok [OF assms(3,5)] by blast

theorem buffer_refines_queue_witness:
  "\<exists>b'. el_Write sample_ring zero_pool (replicate 20 7) (Some sample_ring) = Ret (20, b') \<and> el_contents b' = replicate 20 7"
  using buffer_refines_queue [of zero_pool sample_ring "Some sample_ring" "replicate 20 7" 1 1]
  by (auto simp: el_instance_def)

text \<open>When the kernel takes some bytes of a connection's outbound buffer, exactly these leave the
  buffer, and as long as any are left the connection keeps waiting for the socket to become writable.\<close>

theorem flush_keeps_rest:
  assumes "el_ok (cn_outbound c)" and "cn_writeEvent c" and "write_call_ok wr"
  shows "\<exists>close c'. conn_flush wr c = Ret (close, c') \<and> el_ok (cn_outbound c') \<and>
    el_contents (cn_outbound c') = drop (nat (fst (wr (el_contents (cn_outbound c))))) (el_contents (cn_outbound c)) \<and>
    (el_contents (cn_outbound c') \<noteq> [] \<longrightarrow> cn_writeEvent c')"
  using assms by (rule conn_flush_ok)

theorem flush_keeps_rest_witness:
  "\<exists>close c'. conn_flush (\<lambda>p. (int (min 2 (length p)), None)) (sample_conn\<lparr>cn_writeEvent := True,
      cn_outbound := Some (sample_ring\<lparr>rb_w := 3, rb_isEmpty := False\<rparr>)\<rparr>) = Ret (close, c') \<and>
    el_contents (cn_outbound c') = [0] \<and> cn_writeEvent c'"
  using flush_keeps_rest [of "sample_conn\<lparr>cn_writeEvent := True, cn_outbound := Some (sample_ring\<lparr>rb_w := 3, rb_isEmpty := False\<rparr>)\<rparr>"
      "\<lambda>p. (int (min 2 (length p)), None)"]
  by (auto simp: ring_ok_def sample_ring_def contents_def write_call_ok_def)

text \<open>A new size is the next power of two, for sizes up to \<open>2 ^ 32\<close>.\<close>

theorem next_power_of_two:
  assumes "2 \<le> n" and "n \<le> 2 ^ 32"
  shows "\<exists>k. CeilToPowerOfTwo n = Ret (2 ^ k) \<and> n \<le> 2 ^ k \<and> 2 ^ k < 2 * n"
  using assms by (rule CeilToPowerOfTwo_power)

theorem next_power_of_two_witness: "\<exists>k. CeilToPowerOfTwo 1000 = Ret (2 ^ k) \<and> (1000 :: nat) \<le> 2 ^ k \<and> (2 :: nat) ^ k < 2000"
  using next_power_of_two [of 1000] by simp

text \<open>C39: Adding a connection to the manager puts it behind its user's other connections and changes nobody else's;
  removing any connection that the manager finds takes out that one, panics never, and leaves all others of every user
  in their order. Both keep the index consistent with the engine.\<close>

theorem connections_indexed:
  assumes "manager_ok eng cm" and "eg_conns eng (cn_fd (conn_at eng a)) = Some a"
    and "cm_connMap cm (cn_id (conn_at eng a)) = None"
    and "manager_ok eng m" and "b \<in> set (GetConnsWithUID v eng m)"
  shows "manager_ok eng (AddConn a eng cm) \<and>
    (\<forall>u. GetConnsWithUID u eng (AddConn a eng cm) =
       GetConnsWithUID u eng cm @ (if u = cn_uid (conn_at eng a) then [a] else [])) \<and>
    (\<exists>m'. RemoveConnWithID (cn_id (conn_at eng b)) eng m = Ret m' \<and> manager_ok eng m' \<and>
       (\<forall>u. GetConnsWithUID u eng m' = filter (\<lambda>x. x \<noteq> b) (GetConnsWithUID u eng m)))"
  using AddConn_ok(1) [OF assms(1-3)] AddConn_last [OF assms(1-3)] RemoveConn_found [OF assms(4,5)] by blast

theorem connections_indexed_witness:
  "manager_ok two_engine (AddConn 1 two_engine (AddConn 0 two_engine NewConnManager)) \<and>
   (\<exists>m. RemoveConnWithID 7 two_engine (AddConn 1 two_engine (AddConn 0 two_engine NewConnManager)) = Ret m \<and>
      GetConnsWithUID [117] two_engine m = [1])"
proof -
  let ?one = "AddConn 0 two_engine NewConnManager" and ?two = "AddConn 1 two_engine (AddConn 0 two_engine NewConnManager)"
  have ok: "manager_ok two_engine ?one" "manager_ok two_engine ?two" "GetConnsWithUID [117] two_engine ?two = [0, 1]"
    using two_conns by simp_all
  have "cm_connMap ?one 8 = None" by (simp add: AddConn_def two_engine_simps NewConnManager_def)
  with connections_indexed [OF ok(1) _ _ ok(2), of 1 0 "[117]"] ok show ?thesis by (auto simp: two_engine_simps)
qed

text \<open>C38: In every state of a connection's flow control that calls one after the other can reach, the
  counter is the number of frames that wait or are being processed, reading is off exactly while it is
  above the limit, the connection is counted as slow exactly then, and no call panics.\<close>

theorem flow_control:
  assumes "flow_reach maxSize a slow (fl, taken)"
  shows "cc_inflightCount (fl_ctx fl) = int (length (cc_frameCaches (fl_ctx fl)) + taken) \<and>
    (fl_readEvent fl \<longleftrightarrow> \<not> (0 < maxSize \<and> maxSize < cc_inflightCount (fl_ctx fl))) \<and>
    fl_slowClients fl = slow + (if fl_readEvent fl then 0 else 1) \<and>
    (\<exists>fl'. putFrame maxSize f fl = Ret fl') \<and> (\<exists>fl'. finishFrames maxSize k fl = Ret fl')"
  using flow_reach_inv [OF assms] flow_progress [OF flow_reach_inv [OF assms]]
  by (simp add: flow_inv_def Let_def)

theorem flow_control_witness:
  "fl_readEvent \<lparr>fl_ctx = newConnContext\<lparr>cc_conn := Some 0\<rparr>, fl_readEvent = True, fl_slowClients = 4\<rparr>"
  using flow_control [OF flow_reach.start, of 10 0 4] by (simp add: newConnContext_def)

section \<open>Encryption\<close>

text \<open>What is encrypted with a key and an initial vector of the right sizes is decrypted with them.\<close>

theorem payload_roundtrip:
  assumes "cipher_ok bc" and "key_size_ok key" and "length iv = 16"
  shows "\<exists>data. AesEncryptPkcs7Base64 bc x key iv = Ret data \<and> AesDecryptPkcs7Base64 bc data key iv = Ret x"
  using assms by (rule AesEncryptPkcs7Base64_ret)

theorem payload_roundtrip_witness:
  "\<exists>data. AesEncryptPkcs7Base64 sample_cipher [1, 2, 3] (replicate 16 9) (replicate 16 0) = Ret data \<and>
    AesDecryptPkcs7Base64 sample_cipher data (replicate 16 9) (replicate 16 0) = Ret [1, 2, 3]"
  by (rule payload_roundtrip) (simp_all add: key_size_ok_def)

section \<open>Channels and the store\<close>

text \<open>C9: In every order of administration requests and of the fetching of channels that goes with sending,
  the lists of a channel in the manager's cache are the lists of the store: its subscribers, its denied and its allowed
  users. Not covered are data channels, temporary channels and customer service channels, whose visitors are only in the
  cache, and the subscribers of person channels. The store is the server's own and can be written, and the names in the
  requests are proper ones.\<close>

theorem lists_agree:
  assumes "env_up ev" and "coherent ev s" and "administered ev s s'"
    and "cm_channelCache (ap_channels s') (channelKey cid t) = Some c" and "tracked (opts_of ev) kd (cid, t)"
  shows "\<exists>ns. lists (bolt_of ev) (ap_fs s') kd (cid, t) = Ret ns \<and> set (ch_list kd c) = set ns"
proof -
  have "coherent ev s'" by (rule administered_coherent [OF assms(1-3)])
  then have "agrees (bolt_of ev) (opts_of ev) (ap_channels s') (ap_fs s') kd (cid, t)" unfolding coherent_def by blast
  with assms(4,5) show ?thesis by (simp add: agrees_def)
qed

theorem lists_agree_witness:
  "\<exists>s c. administered api_env sample_app s \<and> cm_channelCache (ap_channels s) (channelKey [99] 2) = Some c \<and>
    (\<exists>ns. lists sample_bolt (ap_fs s) Deny ([99], 2) = Ret ns \<and> set (ch_list Deny c) = set ns)"
proof -
  obtain s c where s: "administered api_env sample_app s" "cm_channelCache (ap_channels s) (channelKey [99] 2) = Some c"
    using sample_administered by blast
  with lists_agree [OF api_env_up sample_app_coherent s, of Deny] show ?thesis by auto
qed

text \<open>C10: Once a request to deny users is answered with success, a denied user may not send to the channel
  that is handed out next, unless the channel has an allow list or the user is one of the system's. The channel is not
  of the types person and info, which anybody may use, nor customer service or data, nor temporary; the store is the
  server's own and can be written.\<close>

theorem denied_from_then_on:
  assumes "env_up ev" and "coherent ev s" and "names_ok (lq_UIDs req)" and "u \<in> set (lq_UIDs req)"
    and "lq_ChannelType req \<noteq> ChannelTypePerson" and "lq_ChannelType req \<noteq> ChannelTypeInfo"
    and "tracked (opts_of ev) Deny (lq_ChannelID req, lq_ChannelType req)"
    and "blacklistAdd ev (Ret req) s = (Ret x, s1)"
    and "GetAllowlist (bolt_of ev) (lq_ChannelID req) (lq_ChannelType req) (ap_fs s1) = Ret []"
    and "getChannelS ev (lq_ChannelID req) (lq_ChannelType req) s1 = (Ret (Some c), s2)" and "u \<notin> set sys"
  shows "fst (Allow (opts_of ev) sys u c) = False"
  using assms by (rule denied_at_once)

theorem denied_from_then_on_witness:
  "\<exists>s1 c s2. blacklistAdd api_env (Ret deny_request) sample_app = (Ret (), s1) \<and>
    getChannelS api_env [99] 2 s1 = (Ret (Some c), s2) \<and> fst (Allow sample_options [] [117] c) = False"
proof -
  obtain s1 c s2 where s: "blacklistAdd api_env (Ret deny_request) sample_app = (Ret (), s1)" "ap_fs s1 = sample_denied"
    "getChannelS api_env [99] 2 s1 = (Ret (Some c), s2)" using sample_refused by blast
  from denied_from_then_on [OF api_env_up sample_app_coherent, of deny_request "[117]" "()" s1 c s2 "[]"] s
  show ?thesis by (fastforce simp: names_ok_def sample_lists)
qed

text \<open>A user who was added to a channel's subscribers in the store is found by the channel that is
  loaded afterwards.\<close>

theorem subscriber_is_found:
  assumes "channel_list_ok bo getSubscribersKey (cid, t) fs" and "names_ok us" and "u \<in> set us"
    and "AddSubscribers_store bo cid t us fs = Ret fs'"
    and "stored_channel opts cid t" and "cm_channelCache cs (channelKey cid t) = None"
    and "GetChannel (plain_env bo js opts ds fs') cid t cs = (Ret (Some c), cs')"
  shows "IsSubscriber (plain_env bo js opts ds fs') u c cs' = Some (Ret True, cs')"
  using assms by (rule subscribed_is_found)

theorem subscriber_is_found_witness:
  "\<exists>c cs. IsSubscriber (plain_env sample_bolt counting_codec sample_options empty_loader sample_joined) [117] c cs = Some (Ret True, cs)"
  using sample_loaded [of counting_codec sample_joined]
    subscriber_is_found [of sample_bolt "[99]" 2 sample_fs "[[117]]" "[117]" sample_joined sample_options NewChannelManager counting_codec empty_loader]
  by (fastforce simp: sample_lists names_ok_def NewChannelManager_def)

text \<open>A user who was added to a channel's deny list in the store may not send to the channel that is
  loaded afterwards, unless the channel has an allow list or the user is one of the system's.\<close>

theorem denied_user_is_refused:
  assumes "channel_list_ok bo getDenylistKey (cid, t) fs" and "names_ok us" and "u \<in> set us"
    and "AddDenylist_store bo cid t us fs = Ret fs'"
    and "stored_channel opts cid t" and "cm_channelCache cs (channelKey cid t) = None"
    and "GetChannel (plain_env bo js opts ds fs') cid t cs = (Ret (Some c), cs')"
    and "GetAllowlist bo cid t fs' = Ret []" and "u \<notin> set sys"
  shows "fst (Allow opts sys u c) = False"
  using assms by (rule denied_is_refused)

theorem denied_user_is_refused_witness:
  "\<exists>c cs. GetChannel (plain_env sample_bolt counting_codec sample_options empty_loader sample_denied) [99] 2 NewChannelManager = (Ret (Some c), cs) \<and>
    fst (Allow sample_options [] [117] c) = False"
  using sample_loaded [of counting_codec sample_denied]
    denied_user_is_refused [of sample_bolt "[99]" 2 sample_fs "[[117]]" "[117]" sample_denied sample_options NewChannelManager counting_codec empty_loader]
  by (fastforce simp: sample_lists names_ok_def NewChannelManager_def)

text \<open>Who may send to a channel, and that a refusal always carries a reason.\<close>

theorem allow_decision:
  "(fst (Allow opts sys uid c) \<longleftrightarrow>
     ch_Type c = ChannelTypeInfo \<or> uid \<in> set sys \<or>
     \<not> ci_Ban (ch_Info c) \<and>
      (if ch_Type c = ChannelTypePerson \<and> IsFakeChannel (ch_ID c) then uid \<notin> set (ch_blacklist c)
       else if ch_Type c \<noteq> ChannelTypePerson \<and> ch_whitelist c \<noteq> [] \<or>
               ch_Type c = ChannelTypePerson \<and> op_WhitelistOffOfPerson opts = 0
       then uid \<in> set (ch_whitelist c)
       else uid \<notin> set (ch_blacklist c))) \<and>
   (snd (Allow opts sys uid c) = ReasonSuccess \<longleftrightarrow> fst (Allow opts sys uid c))"
  using Allow_iff Allow_reason by blast

text \<open>C40: Whatever channel is asked for, a channel that is found is the one asked for, and the manager's
  caches keep every channel under its own key.\<close>

theorem channels_typed:
  assumes "env_ok env" and "channels_ok cs"
  shows "channels_ok (snd (GetChannel env cid t cs)) \<and>
    (case fst (GetChannel env cid t cs) of Ret (Some c) \<Rightarrow> ch_ID c = cid \<and> ch_Type c = t | _ \<Rightarrow> True)"
proof -
  obtain r cs' where g: "GetChannel env cid t cs = (r, cs')" by fastforce
  with GetChannel_ok [OF assms g] show ?thesis by (simp split: outcome.split option.split)
qed

theorem channels_typed_witness:
  "channels_ok (snd (GetChannel (plain_env sample_bolt counting_codec sample_options empty_loader sample_fs) [99] 2 NewChannelManager))"
  using channels_typed [OF sample_env_ok NewChannelManager_ok] by blast

text \<open>The channel of two users does not depend on who writes to whom, provided their hashes differ, and
  two pairs of users that share a channel are the same pair.\<close>

theorem person_channel:
  assumes "at_sign \<notin> set a" and "at_sign \<notin> set b" and "at_sign \<notin> set c" and "at_sign \<notin> set d"
    and "HashCrc32 a \<noteq> HashCrc32 b"
  shows "GetFakeChannelIDWith a b = GetFakeChannelIDWith b a \<and>
    (GetFakeChannelIDWith a b = GetFakeChannelIDWith c d \<longrightarrow> {a, b} = {c, d})"
  using GetFakeChannelIDWith_sym [OF assms(5)] GetFakeChannelIDWith_inj [OF assms(1-4)] by blast

theorem person_channel_witness: "GetFakeChannelIDWith [97] [98] = GetFakeChannelIDWith [98] [97]"
  using person_channel [of "[97]" "[98]" "[97]" "[98]"] by (simp add: sample_hashes)

text \<open>Saving conversations replaces those of the same channels, adds the others, keeps the rest and
  leaves one conversation per channel.\<close>

theorem conversations_merged:
  assumes "bolt_ok bo" and "json_ok js" and "GetConversations bo js uid fs = Ret old"
    and "list_all conv_plain old" and "list_all conv_plain us"
    and "distinct (map conv_channel old)" and "distinct (map conv_channel us)"
    and "AddOrUpdateConversations bo js uid us fs = Ret fs'"
  shows "\<exists>cs. GetConversations bo js uid fs' = Ret cs \<and> distinct (map conv_channel cs) \<and>
    (\<forall>k. channel_conv k cs = (case channel_conv k us of Some u \<Rightarrow> Some u | None \<Rightarrow> channel_conv k old))"
  using AddOrUpdateConversations_ok [OF assms] by blast

theorem conversations_merged_witness:
  "\<exists>fs cs. AddOrUpdateConversations sample_bolt counting_codec [117] [sample_conversation] sample_fs = Ret fs \<and>
    GetConversations sample_bolt counting_codec [117] fs = Ret cs \<and> channel_conv (conv_channel sample_conversation) cs = Some sample_conversation"
proof -
  obtain fs where fs: "AddOrUpdateConversations sample_bolt counting_codec [117] [sample_conversation] sample_fs = Ret fs"
    using sample_conversations_saved by blast
  with conversations_merged [OF sample_bolt_ok counting_codec_ok sample_conversations(1), of "[sample_conversation]" "[117]" fs]
  obtain cs where "GetConversations sample_bolt counting_codec [117] fs = Ret cs"
    and "\<And>k. channel_conv k cs = (case channel_conv k [sample_conversation] of Some u \<Rightarrow> Some u | None \<Rightarrow> channel_conv k [])"
    by (auto simp: sample_conversations)
  with fs show ?thesis by (auto simp: channel_conv_def)
qed

text \<open>C37: Appending an item to a stream gives it the next number; reading the stream returns all items in
  order; other streams of the channel keep their items.\<close>

theorem stream_items:
  assumes "stream_holds ss no items" and "item_ok item" and "length items + 1 < 2 ^ 32 - 1"
  shows "\<exists>ss'. appendStreamItem evicted no item ss = Ret (word_of_nat (Suc (length items)), ss') \<and>
    (\<exists>ss''. topic_readItems evicted' no ss' = (Ret (items @ [item\<lparr>si_StreamSeq := word_of_nat (Suc (length items))\<rparr>]), ss'')) \<and>
    (\<forall>no' items'. no' \<noteq> no \<longrightarrow> stream_holds ss no' items' \<longrightarrow> stream_holds ss' no' items')"
  using appendStreamItem_ok [OF assms, of evicted] topic_readItems_ok by metis

theorem stream_items_witness:
  "\<exists>ss'. appendStreamItem None [1] \<lparr>si_ClientMsgNo = [2], si_StreamSeq = 0, si_Blob = [3]\<rparr>
     \<lparr>ss_cache = Map.empty, ss_data = (\<lambda>_. []), ss_meta = (\<lambda>_. [])\<rparr> = Ret (1, ss')"
  using stream_items [of "\<lparr>ss_cache = Map.empty, ss_data = (\<lambda>_. []), ss_meta = (\<lambda>_. [])\<rparr>" "[1]" "[]"
      "\<lparr>si_ClientMsgNo = [2], si_StreamSeq = 0, si_Blob = [3]\<rparr>" None None]
  by (auto simp: stream_holds_def items_numbered_def stream_file_def item_ok_def)

section \<open>Sending\<close>

text \<open>C1: When the packets of a connection have been processed, each of them has been acknowledged exactly
  once, whichever channels they were for and whatever became of them.\<close>

theorem every_packet_acknowledged:
  assumes "mset (ord (remdups (map send_key sps))) = mset (remdups (map send_key sps))"
    and "processMsgs w ord a c sps nd = Some (Ret nd')"
  shows "mset (map ack_id (sendacks a (nd_out nd'))) =
    mset (map ack_id (sendacks a (nd_out nd))) + mset (map packet_id sps)"
  using assms by (rule processMsgs_acks)

theorem every_packet_acknowledged_witness:
  "\<exists>nd. processMsgs sample_world id 0 sample_conn [sample_send] sample_node = Some (Ret nd) \<and>
    mset (map ack_id (sendacks 0 (nd_out nd))) = {#(7, [3, 4])#}"
  using sample_processed every_packet_acknowledged [of id "[sample_send]" sample_world 0 sample_conn sample_node]
  by (auto simp: packet_id_def sample_send_def sample_node_def sendacks_def)

section \<open>From the socket to the handlers\<close>

text \<open>C4: Of the bytes of an authenticated connection, \<open>dataIn\<close> hands every complete frame to the
  handlers, in order and after the frames that still waited, and leaves the beginning of the next frame
  in the buffer.\<close>

theorem data_reaches_handlers:
  fixes sv :: "'d server"
  assumes "cn_authed (sv_conn sv a)" and "cn_context (sv_conn sv a) = Some ctx" and "cc_conn ctx = Some a"
    and "el_ok (cn_inbound (sv_conn sv a))" and "v = word_of_int (cn_protoVersion (sv_conn sv a))"
    and "el_contents (cn_inbound (sv_conn sv a)) = concat (map (\<lambda>f. EncodeFrame f v) fs) @ take k (EncodeFrame g v)"
    and "list_all (wellformed v) fs" and "wellformed v g" and "k < length (EncodeFrame g v)" and "fs \<noteq> []"
    and "fst (connIsAllow addr sv)"
  shows "\<exists>sv' ctx'. dataIn rt lg addr a sv = map_option (mapR (\<lambda>sv. (sv, None))) (processFrames rt a
      (cc_frameCaches ctx @ deliveries fs v (length (concat (map (\<lambda>f. EncodeFrame f v) fs)))) sv') \<and>
    el_contents (cn_inbound (sv_conn sv' a)) = take k (EncodeFrame g v) \<and>
    cn_context (sv_conn sv' a) = Some ctx' \<and> cc_conn ctx' = Some a \<and> cc_frameCaches ctx' = []"
  by (rule dataIn_delivers [OF assms, where rt = rt and lg = lg]) blast

theorem data_reaches_handlers_witness:
  "\<exists>sv' ctx'. dataIn sample_runtime sample_login None 0 pinged = map_option (mapR (\<lambda>sv. (sv, None)))
      (processFrames sample_runtime 0 (deliveries [FPing empty_framer] 3 1) sv') \<and>
    el_contents (cn_inbound (sv_conn sv' 0)) = [] \<and> cn_context (sv_conn sv' 0) = Some ctx' \<and>
    cc_conn ctx' = Some 0 \<and> cc_frameCaches ctx' = []"
  using data_reaches_handlers [of pinged 0 waiting_context 3 "[FPing empty_framer]" 0 "FPing empty_framer" None
      sample_runtime sample_login] by simp

section \<open>Connecting\<close>

text \<open>C3: A CONNECT packet either changes no connection at all, or its token was verified; then the
  connection is authenticated as that user, has a usable key, and the user's connections are this one and
  those that the login does not kick. The index of connections stays consistent.\<close>

theorem login_is_safe:
  assumes "sv_manager_ok sv" and "eg_conns (hb_engine (sv_hub sv)) (cn_fd (sv_conn sv a)) = Some a"
    and "cm_connMap (hb_conns (sv_hub sv)) (cn_id (sv_conn sv a)) = None"
    and "md5_ok w" and "cipher_ok (wd_cipher w)" and "length (lg_iv lg) = 16"
    and "processAuth w lg a cp sv = Ret sv'"
  shows "sv_manager_ok sv' \<and>
    (sv_hub sv' = sv_hub sv \<and> sv_timers sv' = sv_timers sv \<or>
     (\<exists>levels. verify_token w cp (nd_fs (sv_node sv)) = Ret levels \<and>
        cn_authed (sv_conn sv' a) \<and> cn_uid (sv_conn sv' a) = con_UID cp \<and> keyed w (sv_conn sv' a) \<and>
        sv_conns (con_UID cp) sv' = insert a (sv_conns (con_UID cp) sv -
          {b. cn_deviceFlag (sv_conn sv b) = con_DeviceFlag cp \<and> kicked (fst levels) (con_DeviceID cp) (sv_conn sv b)})))"
  using assms by (rule processAuth_ok)

theorem login_is_safe_witness:
  "\<exists>sv. processAuth login_world sample_login 0 sample_connect entering = Ret sv \<and> sv_manager_ok sv"
proof -
  obtain sv where "processAuth login_world sample_login 0 sample_connect entering = Ret sv" using sample_admitted by blast
  moreover from login_is_safe [OF entering_simps this] have "sv_manager_ok sv" by blast
  ultimately show ?thesis by blast
qed

text \<open>C23: The timers of a login close the wrong connection: they share the variable of the loop over the old
  connections. A slave login from a device that is connected twice has the last connection of the user's
  other device closed, which it does not kick and which stays registered; no timer of the login closes the kicked one.\<close>

theorem login_closes_other_device:
  assumes "sv_manager_ok sv" and "eg_conns (hb_engine (sv_hub sv)) (cn_fd (sv_conn sv a)) = Some a"
    and "cm_connMap (hb_conns (sv_hub sv)) (cn_id (sv_conn sv a)) = None"
    and "admit lg cp levels keys a sv = Ret sv'" and "fst levels = DeviceLevelSlave"
    and "olds = GetConnsWith (con_UID cp) (con_DeviceFlag cp) (hb_engine (sv_hub sv)) (hb_conns (sv_hub sv))"
    and "b \<in> set olds" and "cn_deviceID (sv_conn sv b) = con_DeviceID cp" and "cn_deviceID (sv_conn sv (last olds)) \<noteq> con_DeviceID cp"
  shows "(\<exists>ts. sv_timers sv' = sv_timers sv @ ts \<and> snd ` set ts = {last olds}) \<and> last olds \<in> sv_conns (con_UID cp) sv'"
  using closes_other_device [OF assms] by blast

theorem login_closes_other_device_witness:
  "\<exists>sv ts. admit sample_login sample_connect (0, 0) ([], []) 2 returning = Ret sv \<and> sv_timers sv = ts \<and> snd ` set ts = {1}"
proof -
  obtain sv where sv: "admit sample_login sample_connect (0, 0) ([], []) 2 returning = Ret sv"
    by (rule admit_ok [OF returning_ok, where cp = sample_connect])
  have "con_UID sample_connect = [117]" "con_DeviceFlag sample_connect = 0" "con_DeviceID sample_connect = [100]" "sv_timers returning = []"
    by (simp_all add: sample_connect_def returning_def)
  moreover have "cn_deviceID (sv_conn returning 0) = [100]" "cn_deviceID (sv_conn returning 1) = [101]"
    unfolding returning_conn by (simp_all add: device_conn_def)
  ultimately show ?thesis
    using login_closes_other_device [OF returning_ok sv, of "[0, 1]" 0] sv by (auto simp: returning_olds)
qed

section \<open>Tokens and addresses\<close>

text \<open>C17: Setting a token is answered unless the user is banned, and from then on a user with token
  authentication is let in with exactly that token, at the level that was set with it.\<close>

theorem token_lets_in:
  assumes "bolt_ok (bolt_of ev)" and "json_ok (json_of ev)" and "bolt_up (bolt_of ev)" and "plain (ut_Token req)"
    and "ut_UID req \<noteq> []" and "ut_Token req \<noteq> []" and "slotNum (ut_UID req) (ap_fs s) = Ret slot"
    and "fs_GetChannel (bolt_of ev) (json_of ev) (ut_UID req) ChannelTypePerson (ap_fs s) = Ret info"
    and "case info of None \<Rightarrow> True | Some i \<Rightarrow> \<not> ci_Ban i"
    and "ut_UID req \<noteq> op_ManagerUID (opts_of ev)" and "op_TokenAuthOn (opts_of ev)"
  shows "\<exists>s'. updateToken ev (Ret req) s = (Ret 200, s') \<and>
    (\<forall>cp levels. con_UID cp = ut_UID req \<longrightarrow> con_DeviceFlag cp = ut_DeviceFlag req \<longrightarrow>
      (verify_token (ae_world ev) cp (ap_fs s') = Ret levels \<longleftrightarrow>
        con_Token cp = ut_Token req \<and> levels = (ut_DeviceLevel req, ut_DeviceLevel req)))"
proof -
  obtain s' where s': "updateToken ev (Ret req) s = (Ret 200, s')"
    using updateToken_answers [OF assms(1,3,5,6,7,8,9)] by blast
  note stored = updateToken_stores [OF assms(1,2,4) s']
  show ?thesis using s' token_decides [of ev _ "ap_fs s'"] stored assms(6,10,11) by auto
qed

theorem token_lets_in_witness:
  "\<exists>s. updateToken token_env (Ret token_request) sample_app = (Ret 200, s) \<and>
    verify_token (ae_world token_env) (sample_connect\<lparr>con_Token := [7]\<rparr>) (ap_fs s) = Ret (1, 1)"
proof -
  have "con_UID (sample_connect\<lparr>con_Token := [7]\<rparr>) = [117]" "con_DeviceFlag (sample_connect\<lparr>con_Token := [7]\<rparr>) = 0"
    by (simp_all add: sample_connect_def)
  then show ?thesis
    using token_lets_in [of token_env token_request sample_app 0 None] by (fastforce simp: token_request_def plain_def)
qed

text \<open>C18: With token authentication on, no token lets a user in on a device any more after the device was made to
  quit, unless the user is the manager; quitting with flag -1 does so for the devices APP, WEB and PC. The store is one
  that can be read and written.\<close>

theorem quit_device_stays_out:
  assumes "bolt_ok (bolt_of ev)" and "json_ok (json_of ev)" and "bolt_up (bolt_of ev)" and "slotNum uid (ap_fs s) = Ret slot"
    and "deviceQuit ev (Ret (uid, flag)) s = (r, s')"
    and "flag = - 1 \<and> con_DeviceFlag cp \<in> {APP, WEB, PC} \<or> flag \<noteq> - 1 \<and> con_DeviceFlag cp = ucast flag"
    and "con_UID cp = uid" and "uid \<noteq> op_ManagerUID (opts_of ev)" and "op_TokenAuthOn (opts_of ev)"
  shows "verify_token (ae_world ev) cp (ap_fs s') \<noteq> Ret levels"
  using deviceQuit_token(1) [OF assms(1-6)] token_decides [of ev cp "ap_fs s'"] assms(7-9) by auto

theorem quit_device_stays_out_witness:
  "verify_token (ae_world token_env) (sample_connect\<lparr>con_Token := [7]\<rparr>) (ap_fs (snd (deviceQuit token_env (Ret ([117], - 1)) sample_app))) \<noteq> Ret (1, 1)"
  by (rule quit_device_stays_out [of token_env "[117]" sample_app 0 "- 1", OF _ _ _ _ prod.collapse [symmetric]])
    (simp_all add: sample_connect_def)

text \<open>C19: In every order of requests and of refused attempts since the start, the server refuses exactly the
  connections from the addresses that are in the store, so a restart changes no decision.\<close>

theorem addresses_agree:
  assumes "bolt_ok (bolt_of ev)" and "names_ok (GetIPBlacklist (bolt_of ev) (ap_fs s0))" and "ips_administered ev s0 s"
  shows "fst (connIsAllow (Some addr) (ap_server s)) \<longleftrightarrow> hd (split_on colon_sign addr) \<notin> set (GetIPBlacklist (bolt_of ev) (ap_fs s))"
  using ips_administered_agree [OF assms] by (rule ips_decide)

theorem addresses_agree_witness:
  "\<exists>s. ips_administered token_env sample_app s \<and> \<not> fst (connIsAllow (Some [49, colon_sign, 50]) (ap_server s))"
proof -
  obtain s where s: "ips_administered token_env sample_app s" "set (GetIPBlacklist sample_bolt (ap_fs s)) = {[49]}"
    using sample_blocked by blast
  with addresses_agree [of token_env sample_app s "[49, colon_sign, 50]"] show ?thesis
    by (fastforce simp: sample_ips)
qed

section \<open>Messages from the application\<close>

text \<open>C5: A message that the application sends over HTTP and that is accepted is handed to the delivery pool
  once, with the payload, the sender and the channel of the request and the identifiers that are answered; after
  an error or a panic nothing is handed on.\<close>

theorem api_message_delivered:
  assumes "send ev uuid1 uuid2 (Ret req) s = Some (r, s')"
  shows "case r of
      Ret resp \<Rightarrow> \<exists>job m. nd_jobs (ap_node s') = nd_jobs (ap_node s) @ [job] \<and> dj_messages job = [m] \<and> answers_message req resp m
    | _ \<Rightarrow> nd_jobs (ap_node s') = nd_jobs (ap_node s)"
  using assms by (rule send_cases)

theorem api_message_delivered_witness:
  "\<exists>s resp job m. send api_env [] [] (Ret sample_req) sample_app = Some (Ret resp, s) \<and>
     nd_jobs (ap_node s) = nd_jobs (ap_node sample_app) @ [job] \<and> dj_messages job = [m] \<and> answers_message sample_req resp m"
proof -
  obtain s where "send api_env [] [] (Ret sample_req) sample_app =
      Some (Ret \<lparr>sd_message_id = 0, sd_client_msg_no = [110], sd_message_seq = 2\<rparr>, s)" using sample_send_answers by blast
  with api_message_delivered [OF this] show ?thesis by auto
qed

text \<open>C6: A message that is to be kept is in the history of its channel when the request is answered, under the
  number of the answer, as long as the active segment has room.\<close>

theorem api_message_stored:
  assumes "sendMessageToChannel w req cid ct no flag nd = Some (Ret (i, q), nd')"
    and "msg = message_of_req w req i cid ct no flag" and "fake = fake_channel (mq_FromUID req) cid ct"
    and "persistent (wd_opts w) cid msg" and "\<not> StreamIng msg"
    and "getTopic (fs_cfg (nd_fs nd)) fake ct (fs_msgs (nd_fs nd)) = Ret (num, name, t, st)"
    and "topic_ok t (segs @ [(b, ms)])" and "batch_fits (fs_cfg (nd_fs nd)) t b ms [msg]" and "\<not> active_full (fs_cfg (nd_fs nd)) t"
  shows "q = tp_lastMsgSeq t + 1 \<and>
    (\<exists>st'. LoadMsg (fs_cfg (nd_fs nd')) fake ct q (fs_msgs (nd_fs nd')) = Ret (stored (SetSeq q msg), st'))"
  using sendMessage_stores(1) [OF assms] sendMessage_loads [OF assms] ..

theorem api_message_stored_witness:
  "\<exists>nd st. sendMessageToChannel (ae_world api_env) sample_req [99] 2 [110] StreamFlagIng sample_node = Some (Ret (0, 2), nd) \<and>
     LoadMsg (fs_cfg (nd_fs nd)) [99] 2 2 (fs_msgs (nd_fs nd)) = Ret (stored (SetSeq 2 sample_sent), st)"
proof -
  obtain nd where run: "sendMessageToChannel (ae_world api_env) sample_req [99] 2 [110] StreamFlagIng sample_node = Some (Ret (0, 2), nd)"
    using sample_send_runs by blast
  have nd: "nd_fs sample_node = sample_fs" by (simp add: sample_node_def)
  have "\<exists>st. LoadMsg (fs_cfg (nd_fs nd)) [99] 2 2 (fs_msgs (nd_fs nd)) = Ret (stored (SetSeq 2 sample_sent), st)"
    using api_message_stored [OF run sample_sent_def, of "[99]" 0 "topicName [99] 2" sample_topic sample_store "[]" 0 "[sample_message 1]"]
    by (simp add: nd fake_channel_def)
  with run show ?thesis by blast
qed

text \<open>C8: When a client has acknowledged its queue up to a number, the next synchronisation gives the messages
  behind the position that the acknowledgement left, or behind the number the client asks from when that is
  smaller, in order and up to the limit, and none before it. The queue holds no stream messages, and its last number is not the
  largest of its type.\<close>

theorem acknowledged_not_again:
  assumes "bolt_ok (bolt_of ev)" and "syncack ev (Ret ack) s = (Ret (), s')"
    and "getTopic (fs_cfg (ap_fs s)) (UserQueuePrefix @ ya_UID ack) ChannelTypePerson (fs_msgs (ap_fs s)) = Ret (num, name, t, msgs)"
    and "slotNum (ya_UID ack) (ap_fs s) = Ret slot" and "topic_ok t segs" and "no_streams segs" and "tp_lastMsgSeq t \<noteq> - 1"
    and "cursor = moved_cursor (tp_lastMsgSeq t)
      (cursor_of (fs_get (bolt_of ev) slot (getMessageOfUserCursorKey (ya_UID ack)) (ap_fs s))) (ya_LastMessageSeq ack)"
    and "0 \<le> limit"
  shows "\<exists>s2. sync ev (Ret \<lparr>yq_UID = ya_UID ack, yq_MessageSeq = q, yq_Limit = limit\<rparr>) s' =
      Some (Ret (map (\<lambda>m. resp_of (stored m))
        (take (nat limit) (filter (\<lambda>m. (if q = 0 then cursor else min q cursor) < GetSeq m) (messages_of segs)))), s2)"
  using sync_after_ack [OF assms, of q] by (simp only: sync_from_def)

theorem acknowledged_not_again_witness:
  "\<exists>s s2. syncack api_env (Ret \<lparr>ya_UID = [117], ya_LastMessageSeq = 1\<rparr>) sample_app = (Ret (), s) \<and>
     sync api_env (Ret \<lparr>yq_UID = [117], yq_MessageSeq = 0, yq_Limit = 10\<rparr>) s = Some (Ret [], s2)"
proof -
  obtain s where a: "syncack api_env (Ret \<lparr>ya_UID = [117], ya_LastMessageSeq = 1\<rparr>) sample_app = (Ret (), s)"
    using sample_acks by blast
  have "\<exists>s2. sync api_env (Ret \<lparr>yq_UID = [117], yq_MessageSeq = 0, yq_Limit = 10\<rparr>) s = Some (Ret [], s2)"
    using acknowledged_not_again [OF _ a, of 0 "topicName (UserQueuePrefix @ [117]) 1" sample_topic sample_store 0
        "[(0, [sample_message 1])]" 1 10 0]
    by (simp add: moved_cursor_def cursor_of_def)
  with a show ?thesis by blast
qed

section \<open>The webhook\<close>

text \<open>C7: Once in the webhook's queue, a message stays in it until the application has accepted a batch with the
  message's identifier, or has refused batches with it as often as the configuration allows; no message that
  arrives in between overwrites it, because the database numbers the entries.\<close>

theorem notify_queue_settles:
  assumes "notify_run opts wo bo fs0 Map.empty evs0 fs1 errs1" and "notify_run opts wo bo fs1 errs1 evs fs errs"
    and "bolt_ok bo" and "bolt_numbers bo sq" and "queue_numbered bo sq (fs_db fs0)"
    and "queue_get bo fs1 k = Some v" and "queue_get bo fs k \<noteq> Some v"
  shows "\<exists>m. Message_Decode v = Ret m \<and>
      ((\<exists>ms. Accepted ms \<in> set evs \<and> GetMessageID m \<in> GetMessageID ` set ms) \<or>
       wh_MsgNotifyEventRetryMaxCount wo \<le> refusals (GetMessageID m) (evs0 @ evs))"
proof -
  have "errors_of errs1 i \<le> refusals i evs0" for i using run_errors [OF assms(1,3), of i] by (simp add: errors_of_def)
  with run_settles [OF assms(2-4) run_numbered [OF assms(1,3-5)] assms(6)] assms(7) show ?thesis
    by (fastforce simp: refusals_append intro: le_trans)
qed

theorem notify_queue_settles_witness:
  "\<exists>fs m. notify_run hook_options sample_hook sample_bolt (queued_fs (Message_Encode (sample_message 1))) Map.empty
      [Accepted [stored (sample_message 1), stored (sample_message 2)]] fs Map.empty \<and>
      Message_Decode (Message_Encode (sample_message 1)) = Ret m \<and>
      GetMessageID m \<in> {GetMessageID (stored (sample_message 1)), GetMessageID (stored (sample_message 2))}"
proof -
  obtain fs where "notify_run hook_options sample_hook sample_bolt (queued_fs (Message_Encode (sample_message 1))) Map.empty
      [Accepted [stored (sample_message 1), stored (sample_message 2)]] fs Map.empty" "queue_get sample_bolt fs (itob 1) = None"
    using hook_run by blast
  with notify_queue_settles [OF notify_run.start this(1) sample_bolt_ok sample_numbers queued_numbered, of "itob 1" "Message_Encode (sample_message 1)"]
  show ?thesis by (auto simp: refusals_def sample_hook_def)
qed

text \<open>C20: One entry of the queue that does not decode keeps every batch in front of it in the queue: a batch that the
  application has accepted is not removed, and the next round takes the same batch again.\<close>

theorem undecodable_blocks:
  assumes "(k, v) \<in> set cursor" and "Message_Decode v = Fail e"
    and "notifyQueueLoop_round opts wo bo cursor an fs errs = Ret (Accepted ms, fs', errs')"
  shows "fs' = fs \<and> GetMessagesOfNotifyQueue bo (wh_MsgNotifyEventCountPerPush wo) fs' = Ret ms"
  using round_repeats [OF assms] by blast

theorem undecodable_blocks_witness:
  "\<exists>errs. notifyQueueLoop_round hook_options sample_hook sample_bolt [(itob 1, Message_Encode (sample_message 1)), (itob 2, [0, 0])]
      (\<lambda>_. says 200) broken_fs Map.empty = Ret (Accepted [stored (sample_message 1)], broken_fs, errs) \<and>
    GetMessagesOfNotifyQueue sample_bolt (wh_MsgNotifyEventCountPerPush sample_hook) broken_fs = Ret [stored (sample_message 1)]"
proof -
  obtain errs e where r: "notifyQueueLoop_round hook_options sample_hook sample_bolt
      [(itob 1, Message_Encode (sample_message 1)), (itob 2, [0, 0])] (\<lambda>_. says 200) broken_fs Map.empty =
      Ret (Accepted [stored (sample_message 1)], broken_fs, errs)" and e: "Message_Decode [0, 0] = Fail e"
    using broken_accepts by blast
  with undecodable_blocks [OF _ e r, of "itob 2"] show ?thesis by simp
qed

text \<open>C22: Reports of users who come and go reach the application in their order and without a gap: the batches
  that were finished, accepted or given up, followed by those that wait, are all reports; no batch is empty.\<close>

theorem reports_in_order:
  assumes "status_run opts wo s reports batches"
  shows "reports = concat (map snd batches) @ sl_list s \<and> (\<forall>b \<in> set batches. snd b \<noteq> []) \<and> sl_opLen s \<le> length (sl_list s)"
  using status_run_inv [OF assms] by blast

theorem reports_in_order_witness: "\<exists>batches. status_run hook_options sample_hook \<lparr>sl_list = [], sl_opLen = 0, sl_errCount = 0\<rparr> [[117]] batches \<and>
    [[117]] = concat (map snd batches)"
  using status_runs reports_in_order [OF status_runs] by (intro exI [of _ "[(True, [[117]])]"]) simp

section \<open>Delivery\<close>

text \<open>C2: A delivery job hands every message to every connection of every subscriber but the sender's own
  device, encrypted so that the receiver reads the payload that was sent, and reports exactly the subscribers
  without a master device as offline, but for the sender himself and for messages that are not to be kept.\<close>

theorem messages_reach_receivers:
  assumes "\<forall>s \<in> set (dj_subscribers job). \<forall>a \<in> set (job_conns job h s). keyed w (conn_at (hb_engine h) a)"
    and "dj_messages job \<noteq> []"
  shows "(\<exists>h'. deliveryMessages w now job h = (Ret (), h') \<and>
      hb_out h' = hb_out h @ concat (map (\<lambda>s. map (sent_to w job (hb_engine h) s) (job_conns job h s)) (dj_subscribers job)) \<and>
      hb_offline h' = hb_offline h @
        (let off = filter (\<lambda>s. is_offline s (dj_fromUID job) (job_conns job h s) h) (dj_subscribers job) in
         if off = [] then []
         else map (\<lambda>m. (m, dj_large job, off)) (filter (\<lambda>m. \<not> NoPersist (rcv_Framer (msg_RecvPacket m))) (dj_messages job)))) \<and>
    (\<forall>s \<in> set (dj_subscribers job). \<forall>a \<in> set (job_conns job h s). \<exists>key iv. conn_keys (conn_at (hb_engine h) a) = Ret (key, iv) \<and>
      (\<forall>m. AesDecryptPkcs7Base64 (wd_cipher w)
         (rcv_Payload (copy_packet w (dj_syncOnceSeqs job) s (conn_at (hb_engine h) a) m)) key iv =
       Ret (rcv_Payload (msg_RecvPacket m))))"
proof (intro conjI ballI)
  fix s a assume "s \<in> set (dj_subscribers job)" "a \<in> set (job_conns job h s)"
  with assms(1) have k: "keyed w (conn_at (hb_engine h) a)" by blast
  obtain key iv where "conn_keys (conn_at (hb_engine h) a) = Ret (key, iv)" by (rule keyedE [OF k])
  with copy_packet_decrypts [OF k this] show "\<exists>key iv. conn_keys (conn_at (hb_engine h) a) = Ret (key, iv) \<and>
      (\<forall>m. AesDecryptPkcs7Base64 (wd_cipher w)
         (rcv_Payload (copy_packet w (dj_syncOnceSeqs job) s (conn_at (hb_engine h) a) m)) key iv =
       Ret (rcv_Payload (msg_RecvPacket m)))" by blast
qed (rule deliveryMessages_ret [OF assms])

theorem messages_reach_receivers_witness:
  "\<exists>h'. deliveryMessages sample_world (\<lambda>_. 0) sample_job sample_hub = (Ret (), h') \<and>
     hb_out h' = [sent_to sample_world sample_job (hb_engine sample_hub) [117] 0]"
proof -
  have s: "dj_subscribers sample_job = [[117]]" "dj_messages sample_job \<noteq> []" "conn_at (hb_engine sample_hub) 0 = keyed_conn"
    "hb_out sample_hub = []" by (simp_all add: sample_job_def sample_hub_def)
  show ?thesis using messages_reach_receivers [of sample_job sample_hub sample_world "\<lambda>_. 0"] s by auto
qed

text \<open>C16: Nobody is sent a message for ever: when every scan of the retry queue comes late enough to find all
  messages due, more scans than the allowed attempts leave the queue empty.\<close>

theorem retries_run_out:
  assumes "hub_full h" and "late_scans w ts h" and "\<forall>x. in_queue x (hb_retry h) \<longrightarrow> 0 \<le> attempts h x"
    and "op_MessageRetryMaxCount (wd_opts w) < int (length ts)" and "ts \<noteq> []"
  shows "pq_items (inFlightPQ (hb_retry (run_scans w ts h))) = []"
  using assms by (rule retries_end)

theorem retries_run_out_witness:
  "pq_items (inFlightPQ (hb_retry (run_scans (sample_world\<lparr>wd_opts := sample_options\<lparr>op_MessageRetryMaxCount := 0\<rparr>\<rparr>)
     [(due_at sample_retry 3, \<lambda>_. 0)] sample_hub))) = []"
proof (rule retries_run_out)
  have "set (pq_items (inFlightPQ sample_retry)) = {3}"
    by (simp add: set_mset_mset [symmetric] del: set_mset_mset)
  then show "late_scans (sample_world\<lparr>wd_opts := sample_options\<lparr>op_MessageRetryMaxCount := 0\<rparr>\<rparr>)
      [(due_at sample_retry 3, \<lambda>_. 0)] sample_hub" by (simp add: sample_hub_def)
qed (simp_all add: sample_hub_def attempts_def sample_heap_def empty_message_def)

text \<open>C24: The RECVACK packets of a connection take exactly the acknowledged messages of its user and device out
  of the table and out of the heap of the retry queue, except those that were not to be kept; everything else stays
  in both, with its due time, and the two stay in agreement.\<close>

theorem acks_settle:
  assumes "processRecvacks w a acks sv = Ret sv'" and "rq_full heap (hb_retry (sv_hub sv))"
    and "acked = (\<lambda>k. \<exists>ack \<in> set acks. \<not> NoPersist (rak_Framer ack) \<and> ack_key sv a ack = k)"
  shows "inFlightMessages (hb_retry (sv_hub sv')) = (\<lambda>k. if acked k then None else inFlightMessages (hb_retry (sv_hub sv)) k) \<and>
    mset (pq_items (inFlightPQ (hb_retry (sv_hub sv')))) =
      filter_mset (\<lambda>x. \<not> acked (inflight_key (heap x))) (mset (pq_items (inFlightPQ (hb_retry (sv_hub sv))))) \<and>
    due_at (hb_retry (sv_hub sv')) = due_at (hb_retry (sv_hub sv)) \<and> rq_full heap (hb_retry (sv_hub sv'))"
  using processRecvacks_ok [OF assms(1)] processRecvacks_settles [OF assms(1,2)] unfolding assms(3) settles_def by blast

theorem acks_settle_witness:
  "\<exists>sv. processRecvacks sample_world 0 [\<lparr>rak_Framer = empty_framer, rak_MessageID = 0, rak_MessageSeq = 0\<rparr>] acking = Ret sv \<and>
     inFlightMessages (hb_retry (sv_hub sv)) (getInFlightKey [] [] 0) = None \<and> pq_items (inFlightPQ (hb_retry (sv_hub sv))) = []"
proof -
  let ?acks = "[\<lparr>rak_Framer = empty_framer, rak_MessageID = 0, rak_MessageSeq = 0\<rparr>]"
  obtain sv where sv: "processRecvacks sample_world 0 ?acks acking = Ret sv" using sample_acked by blast
  have "ack_key acking 0 (hd ?acks) = getInFlightKey [] [] 0" by (simp add: ack_key_def acking_simps)
  moreover have "inflight_key (sample_heap x) = getInFlightKey [] [] 0" for x
    by (simp add: inflight_key_def sample_heap_def empty_message_def GetMessageID_def empty_recv_def)
  moreover have "rq_full sample_heap (hb_retry (sv_hub acking))" by (simp add: acking_simps)
  ultimately show ?thesis using acks_settle [OF sv _ refl, of sample_heap] sv by (auto simp: empty_framer_def)
qed

section \<open>Conversations\<close>

text \<open>C25: When the queue of messages has been worked off, and all messages in it that concern a user belong to one
  channel and name him once, the unread count of his conversation with that channel has grown by exactly the messages of others
  that show the red dot, and its sequence number is the largest one. The store can be read.\<close>

theorem unread_counts:
  assumes "lru_ok (ce_lru ev)" and "caches_ok ev cv" and "readable ev (cv_fs cv)"
    and "length nows = length (cv_queue cv)" and "\<forall>x \<in> set (cv_queue cv). distinct (snd x)"
    and "\<forall>m \<in> set (mine uid (cv_queue cv)). conv_of_message m uid = ch"
    and "seen ev uid ch cv = Ret old"
  shows "\<exists>cv' new. calc_steps ev nows cv = Ret cv' \<and> caches_ok ev cv' \<and> cv_queue cv' = [] \<and> cv_fs cv' = cv_fs cv \<and>
    seen ev uid ch cv' = Ret new \<and>
    unread_of new = unread_of old + of_nat (length (filter (\<lambda>m. unread m uid) (mine uid (cv_queue cv)))) \<and>
    seq_of new = fold max (map (\<lambda>m. rcv_MessageSeq (msg_RecvPacket m)) (mine uid (cv_queue cv))) (seq_of old)"
  using assms by (rule calc_steps_ok)

theorem unread_counts_witness:
  "\<exists>cv new. calc_steps sample_conv_env [7] sample_manager = Ret cv \<and> seen sample_conv_env [117] ([99], 2) cv = Ret new \<and>
     unread_of new = 1 \<and> seq_of new = 9"
  using unread_counts [of sample_conv_env sample_manager "[7]" "[117]" "([99], 2)" None]
  by (auto simp: mine_def unread_of_def seq_of_def)

text \<open>C14: In every state that the operations of the manager and the synchronisations of clients reach, a conversation in the
  cache is what the store holds, or its user is marked for saving or waits to be, or it is the conversation of a
  large group that a synchronisation of the user has written. Unsaved changes in what the cache drops are lost.\<close>

theorem changes_are_marked:
  assumes "conv_env_ok ev" and "conv_inv ev {} cv0" and "conv_reach ev cv0 W cv" and "cached ev uid cv k = Some c"
  shows "uid \<in> marked cv \<or> (uid, conv_channel c) \<in> W \<or> on_store ev uid (conv_channel c) (cv_fs cv) = Ret (Some c)"
  using conv_inv_cached(3) [OF conv_reach_inv [OF assms(3,1,2)] assms(4)] .

theorem changes_are_marked_witness:
  "\<exists>cv. conv_reach sample_conv_env sample_manager {} cv \<and>
     ([117] \<in> marked cv \<or> on_store sample_conv_env [117] ([99], 2) (cv_fs cv) = Ret (Some sample_conversation))"
proof -
  let ?cv = "AddOrUpdateConversation sample_conv_env [117] sample_conversation sample_manager"
  have r: "conv_reach sample_conv_env sample_manager {} ?cv" by (intro conv_reach.add conv_reach.start) (rule sample_conversations)
  have "cached sample_conv_env [117] ?cv (channelKey [99] 2) = Some sample_conversation"
    by (simp add: AddOrUpdateConversation_def getUserConversationCache_def cached_def setNeedSave_def put_cache_def
        sample_lru_def sample_conversation_def)
  from changes_are_marked [OF sample_conv_env_ok sample_manager_inv(1) r this] r show ?thesis
    by (auto simp: conv_channel_def sample_conversation_def)
qed

text \<open>C21: After the request to clear it, the count of unread messages that a user sees for a channel is zero,
  whether the conversation was cached, stored or unknown.\<close>

theorem unread_cleared:
  assumes "lru_ok (ce_lru (ae_conv ev))" and "caches_ok (conv_env_of ev) (manager_of s)"
    and "clearConversationUnread ev (Ret req) s = (Ret (), s')"
  shows "\<exists>c. seen (conv_env_of ev) (cu_UID req) (cu_ChannelID req, cu_ChannelType req) (manager_of s') = Ret c \<and> unread_of c = 0"
  using assms by (rule clearUnread_ok)

theorem unread_cleared_witness:
  "\<exists>s c. clearConversationUnread api_env (Ret clear_request) cached_app = (Ret (), s) \<and>
     seen (conv_env_of api_env) [117] ([99], 2) (manager_of s) = Ret c \<and> unread_of c = 0"
proof -
  obtain s where s: "clearConversationUnread api_env (Ret clear_request) cached_app = (Ret (), s)" using sample_clears by blast
  have "lru_ok (ce_lru (ae_conv api_env))" by simp
  from unread_cleared [OF this cached_app_ok s] s show ?thesis by (auto simp: clear_request_def)
qed

text \<open>The synchronisation of a client writes the last message of a large group into the cached conversation and
  does not mark the user: the change is lost unless another one marks him.\<close>

theorem large_group_not_saved:
  assumes "lru_ok (ce_lru (ae_conv ev))" and "cached (conv_env_of ev) uid (manager_of s) (channelKey (fst ch) (snd ch)) = Some c"
    and "LoadLastMsgs (fs_cfg (ap_fs s)) (fst ch) (snd ch) 1 (fs_msgs (ap_fs s)) = Some (Ret ms, st')" and "ms \<noteq> []"
    and "list_ex (is_channel ch) cs"
  shows "\<exists>cs' s'. sync_larges ev uid [ch] cs [] s = Some (Ret cs', s') \<and>
    cached (conv_env_of ev) uid (manager_of s') (channelKey (fst ch) (snd ch)) = Some (from_last (last ms) c) \<and>
    marked (manager_of s') = marked (manager_of s) \<and> fs_db (ap_fs s') = fs_db (ap_fs s)"
  using assms by (rule large_unmarked)

theorem large_group_not_saved_witness:
  "\<exists>cs' s'. sync_larges api_env [117] [([99], 2)] [sample_conversation] [] cached_app = Some (Ret cs', s') \<and>
    cached (conv_env_of api_env) [117] (manager_of s') (channelKey [99] 2) = Some (from_last (stored (sample_message 1)) sample_conversation) \<and>
    marked (manager_of s') = {}"
proof -
  obtain st where l: "LoadLastMsgs sample_config [99] 2 1 sample_store = Some (Ret [stored (sample_message 1)], st)" using sample_large by blast
  have "marked (manager_of cached_app) = {}" by (simp add: marked_def)
  moreover have "is_channel ([99], 2) sample_conversation" by (simp add: is_channel_def sample_conversation_def)
  ultimately show ?thesis
    using large_group_not_saved [of api_env "[117]" cached_app "([99], 2)" sample_conversation "[stored (sample_message 1)]" st "[sample_conversation]"]
      l cached_app_look by (auto simp del: sync_larges.simps)
qed

text \<open>A client that does not say how many messages it wants gets none, although a default of 15 is meant, and may be told
  that there are more.\<close>

theorem no_default_count:
  assumes "holds (fs_cfg (ap_fs s)) (fs_msgs (ap_fs s)) (message_channel uid cid ct) ct segs"
  shows "(\<exists>s'. syncRecentMessages ev (Ret \<lparr>yr_UID = uid, yr_Channels = [\<lparr>rq_ChannelID = cid, rq_ChannelType = ct, rq_LastMsgSeq = q\<rparr>],
      yr_MsgCount = 0\<rparr>) s = Some (Ret [\<lparr>rm_ChannelID = cid, rm_ChannelType = ct, rm_Messages = []\<rparr>], s')) \<and>
    (\<exists>s'. syncMessages ev (Ret \<lparr>sm_LoginUID = uid, sm_Channel = cid, sm_Type = ct, sm_Start = 0, sm_End = 0, sm_Limit = 0,
      sm_PullMode = PullModeDown\<rparr>) s = Some (Ret \<lparr>sp_StartMessageSeq = 0, sp_EndMessageSeq = 0, sp_More = 1, sp_Messages = []\<rparr>, s'))"
  using recent_none [of s uid "\<lparr>rq_ChannelID = cid, rq_ChannelType = ct, rq_LastMsgSeq = q\<rparr>" segs ev] channel_none [OF assms, of ev] assms
  by simp

theorem no_default_count_witness:
  "\<exists>s'. syncMessages api_env (Ret \<lparr>sm_LoginUID = [117], sm_Channel = [99], sm_Type = 2, sm_Start = 0, sm_End = 0, sm_Limit = 0,
      sm_PullMode = PullModeDown\<rparr>) sample_app = Some (Ret \<lparr>sp_StartMessageSeq = 0, sp_EndMessageSeq = 0, sp_More = 1, sp_Messages = []\<rparr>, s')"
  using no_default_count [of sample_app "[117]" "[99]" 2 "[(0, [sample_message 1])]" api_env 0] by simp

section \<open>The client library\<close>



section \<open>The locks by key\<close>

text \<open>C35: However the calls of any number of threads are interleaved, and whenever the table is cleaned: at most one
  thread at a time is between \<open>Lock\<close> and \<open>Unlock\<close> of a key, every step gives or takes at most one key, a
  thread that waits can go on or the thread that has the lock can release it, and cleaning keeps exactly the locks
  that somebody waits for or holds.\<close>

theorem key_lock_excludes:
  assumes "lock_reachable s"
  shows "(\<forall>t u k a b. ls_pc s t = Holding k a \<and> ls_pc s u = Holding k b \<longrightarrow> t = u) \<and>
    (\<forall>s'. lock_step s s' \<longrightarrow> owners s' = owners s \<or> owner_step (owners s) (owners s')) \<and>
    (\<forall>t k a. ls_pc s t = Waiting k a \<longrightarrow>
       lock_step s (moved t (Holding k a) (set_locked a True (ls_lock s)) s) \<or>
       (\<exists>u j. ls_pc s u = Holding j a \<and> lock_step s (moved u (Leaving j a) (il_done a (ls_lock s)) s)) \<or>
       (\<exists>u j. ls_pc s u = Leaving j a \<and> lock_step s (moved u Outside (set_locked a False (ls_lock s)) s))) \<and>
    (\<forall>k a. kl_locks (ls_lock s) k = Some a \<longrightarrow>
       kl_locks (Clean (ls_lock s)) k = (if \<exists>t. counts_on (ls_pc s t) a then Some a else None))"
  using lock_excludes(1) [OF assms] lock_step_refines [OF lock_reachable_inv [OF assms]] waiting_goes_on [OF assms]
    Clean_keeps_used [OF assms] by blast

theorem key_lock_excludes_witness:
  "\<exists>s. lock_reachable s \<and> ls_pc s 0 = Holding [99] 0 \<and> ls_pc s 1 = Waiting [99] 0 \<and>
     (\<forall>u b. ls_pc s u = Holding [99] b \<longrightarrow> u = 0)"
proof -
  obtain s where s: "lock_reachable s" "ls_pc s 0 = Holding [99] 0" "ls_pc s 1 = Waiting [99] 0" using sample_locks by blast
  from conjunct1 [OF key_lock_excludes [OF s(1)]] s(2) have "\<forall>u b. ls_pc s u = Holding [99] b \<longrightarrow> u = 0" by blast
  with s show ?thesis by blast
qed

end
